(* ===== verification/Prelude.thy ===== *)
theory Prelude
  imports Main "HOL-Library.Word" "HOL-Library.Sublist"
begin

text \<open>
  What every component of the development shares: the errors of the workflow package as
  values, sequencing of fallible steps, bounded Go integers and times, the decimal printer
  behind \<^verbatim>\<open>fmt.Sprintf\<close>, the three interfaces (round trip of a string
  encoding, status machines with absorbing states, machines with an invariant) and the list
  lemmas the component proofs use.
\<close>

section \<open>Collections of facts\<close>

named_theorems res_simps \<open>rewriting of sequenced fallible steps\<close>
named_theorems status_simps \<open>classification of statuses\<close>
named_theorems frame_simps \<open>what an operation leaves unchanged\<close>

section \<open>Errors as values\<close>

text \<open>
  A Go function that returns \<^verbatim>\<open>(T, error)\<close> becomes a function into
  \<open>'a res\<close>. The sentinel errors of \<^verbatim>\<open>store.go\<close> and of the
  \<^verbatim>\<open>postgres\<close> package have their own constructors; \<open>SqlError\<close> is a refusal of
  the database with the constraint that was violated;
  an error made by \<^verbatim>\<open>fmt.Errorf\<close> carries its format string without the formatted
  arguments; \<open>GoPanic\<close> is a run-time panic (an index out of range, a nil dereference).
  An operation that fails in the middle has already changed the snapshot behind its pointer.
  Every caller works on a clone that it drops when an error is returned, so the model
  returns the error alone.
\<close>

datatype werror =
    ErrRunExists
  | ErrRunNotFound
  | ErrRevisionConflict
  | ErrInvalidChangeSet string
  | ErrAtomicReplaceUnsupported
  | ErrDefinitionNotFound
  | ErrIdempotencyConflict
  | ErrInvalidResult string
  | ErrLeaseLost
  | ErrResultConflict
  | ErrInvalidWorkerRegistration
  | ErrWorkerProtocolUnsupported
  | ErrWorkerSessionInvalid
  | ErrWorkerDraining
  | ErrWorkerCapacityExceeded
  | ErrWorkerNotFound
  | ErrWorkflowExists
  | ErrWorkflowNotFound
  | ErrTaskNotFound
  | ErrInvalidArgument string
  | ErrCoordinatorNotReady
  | SqlError string
  | Errorf string
  | CtxError string
  | GoPanic string

type_synonym 'a res = "werror + 'a"

fun bindR :: "'e + 'a \<Rightarrow> ('a \<Rightarrow> 'e + 'b) \<Rightarrow> 'e + 'b" where
  "bindR (Inl e) f = Inl e"
| "bindR (Inr x) f = f x"

fun foldR :: "('a \<Rightarrow> 's \<Rightarrow> 'e + 's) \<Rightarrow> 'a list \<Rightarrow> 's \<Rightarrow> 'e + 's" where
  "foldR f [] s = Inr s"
| "foldR f (x # xs) s = bindR (f x s) (foldR f xs)"

lemma bindR_cong [fundef_cong]:
  "m = n \<Longrightarrow> (\<And>x. n = Inr x \<Longrightarrow> f x = g x) \<Longrightarrow> bindR m f = bindR n g"
  by (cases n) auto

lemma bindR_eq_Inr [res_simps]: "bindR m f = Inr y \<longleftrightarrow> (\<exists>x. m = Inr x \<and> f x = Inr y)"
  by (cases m) auto

lemma bindR_eq_Inl [res_simps]:
  "bindR m f = Inl e \<longleftrightarrow> m = Inl e \<or> (\<exists>x. m = Inr x \<and> f x = Inl e)"
  by (cases m) auto

lemma bindR_assoc: "bindR (bindR m f) g = bindR m (\<lambda>x. bindR (f x) g)"
  by (cases m) auto

lemma bindR_InrE:
  assumes "bindR m f = Inr y"
  obtains x where "m = Inr x" and "f x = Inr y"
  using assms by (auto simp: bindR_eq_Inr)

lemma foldR_append: "foldR f (xs @ ys) s = bindR (foldR f xs s) (foldR f ys)"
  by (induction xs arbitrary: s) (auto simp: bindR_assoc intro: bindR_cong)

text \<open>A loop keeps what each of its iterations keeps, and returns when each iteration does.\<close>

lemma foldR_keeps:
  assumes "foldR f xs s = Inr s'" and "P s"
    and "\<And>x t t'. x \<in> set xs \<Longrightarrow> P t \<Longrightarrow> f x t = Inr t' \<Longrightarrow> P t'"
  shows "P s'"
  using assms by (induction xs arbitrary: s) (auto simp: bindR_eq_Inr)

lemma foldR_returns:
  assumes "P s" and "\<And>x t. x \<in> set xs \<Longrightarrow> P t \<Longrightarrow> \<exists>t'. f x t = Inr t' \<and> P t'"
  shows "\<exists>s'. foldR f xs s = Inr s' \<and> P s'"
  using assms
proof (induction xs arbitrary: s)
  case (Cons x xs)
  then obtain t where "f x s = Inr t" and "P t" by (meson list.set_intros(1))
  with Cons.IH [of t] Cons.prems(2) show ?case by (simp add: bindR_eq_Inr)
qed simp

section \<open>Go integers and times\<close>

text \<open>
  \<^verbatim>\<open>uint64\<close> is \<open>64 word\<close>. \<^verbatim>\<open>int\<close> and \<^verbatim>\<open>int64\<close>
  values are \<open>int\<close>; the one product that can leave the 64-bit range, the conversion of
  milliseconds into a \<^verbatim>\<open>time.Duration\<close> (nanoseconds in an \<^verbatim>\<open>int64\<close>),
  has its wrap-around written out. A \<^verbatim>\<open>time.Time\<close> is its number of nanoseconds
  since the epoch, and \<^verbatim>\<open>*time.Time\<close> is an option.
\<close>

type_synonym u64 = "64 word"
type_synonym time = int
type_synonym duration = int

definition wrap64 :: "int \<Rightarrow> int" where
  "wrap64 x = (x + 2 ^ 63) mod 2 ^ 64 - 2 ^ 63"

definition millis :: "int \<Rightarrow> duration" where
  "millis ms = wrap64 (ms * 1000000)"

text \<open>The zero \<^verbatim>\<open>time.Time\<close>, January 1 of the year 1, in nanoseconds from 1970, and
  \<^verbatim>\<open>Time.Sub\<close>, which saturates.\<close>

definition zeroTime :: time where
  "zeroTime = - 62135596800 * 1000000000"

definition time_sub :: "time \<Rightarrow> time \<Rightarrow> duration" where
  "time_sub t u = max (- (2 ^ 63)) (min (2 ^ 63 - 1) (t - u))"

lemma wrap64_id: "- (2 ^ 63) \<le> x \<Longrightarrow> x < 2 ^ 63 \<Longrightarrow> wrap64 x = x"
  by (simp add: wrap64_def)

lemma wrap64_range: "- (2 ^ 63) \<le> wrap64 x \<and> wrap64 x < 2 ^ 63"
proof -
  have "0 \<le> (x + 2 ^ 63) mod 2 ^ 64" and "(x + 2 ^ 63) mod 2 ^ 64 < (2 ^ 64 :: int)"
    by simp_all
  then show ?thesis by (simp add: wrap64_def)
qed

lemma millis_exact: "0 \<le> ms \<Longrightarrow> ms \<le> 9223372036854 \<Longrightarrow> millis ms = ms * 1000000"
  by (simp add: millis_def wrap64_id)

section \<open>Decimal printing\<close>

fun nat_str :: "nat \<Rightarrow> string" where
  "nat_str n = (if n < 10 then [char_of (48 + n)] else nat_str (n div 10) @ [char_of (48 + n mod 10)])"

declare nat_str.simps [simp del]

definition int_str :: "int \<Rightarrow> string" where
  "int_str i = (if i < 0 then ''-'' @ nat_str (nat (- i)) else nat_str (nat i))"

section \<open>Interfaces\<close>

text \<open>A type with a string spelling, as the Go string types with named constants have.\<close>

locale spelled =
  fixes spell :: "'a \<Rightarrow> string" and parse :: "string \<Rightarrow> 'a" and canonical :: "'a \<Rightarrow> bool"
  assumes parse_spell: "canonical x \<Longrightarrow> parse (spell x) = x"
    and spell_parse: "spell (parse w) = w"
    and canonical_parse: "canonical (parse w)"
begin

lemma spell_inject: "canonical x \<Longrightarrow> canonical y \<Longrightarrow> spell x = spell y \<longleftrightarrow> x = y"
  using parse_spell by metis

lemma parse_eq_iff: "canonical x \<Longrightarrow> parse w = x \<longleftrightarrow> w = spell x"
  using parse_spell spell_parse by metis

end

text \<open>
  A transition table whose terminal statuses have no way out. The tables of
  \<^verbatim>\<open>state.go\<close> for workflows, tasks and attempts are three instances.
\<close>

locale status_machine =
  fixes allowed :: "'s \<Rightarrow> 's \<Rightarrow> bool" and terminal :: "'s \<Rightarrow> bool"
  assumes terminal_absorbing: "terminal a \<Longrightarrow> \<not> allowed a b"
    and irreflexive: "\<not> allowed a a"
begin

lemma terminal_forever: "allowed\<^sup>*\<^sup>* a b \<Longrightarrow> terminal a \<Longrightarrow> b = a"
  by (induction rule: converse_rtranclp_induct) (auto dest: terminal_absorbing)

lemma no_step_between_terminals: "allowed a b \<Longrightarrow> terminal b \<Longrightarrow> \<not> terminal a"
  using terminal_absorbing by blast

end

text \<open>A machine with an invariant: what holds initially and is kept by every step holds
  in every reachable state, and along every run.\<close>

inductive reach :: "('s \<Rightarrow> bool) \<Rightarrow> ('s \<Rightarrow> 's \<Rightarrow> bool) \<Rightarrow> 's \<Rightarrow> bool"
  for initial :: "'s \<Rightarrow> bool" and step :: "'s \<Rightarrow> 's \<Rightarrow> bool" where
  reach_init: "initial s \<Longrightarrow> reach initial step s"
| reach_step: "reach initial step s \<Longrightarrow> step s t \<Longrightarrow> reach initial step t"

locale invariant_machine =
  fixes initial :: "'s \<Rightarrow> bool" and step :: "'s \<Rightarrow> 's \<Rightarrow> bool" and inv :: "'s \<Rightarrow> bool"
  assumes inv_initial: "initial s \<Longrightarrow> inv s"
    and inv_step: "inv s \<Longrightarrow> step s t \<Longrightarrow> inv t"
begin

lemma inv_reach: "reach initial step s \<Longrightarrow> inv s"
  by (induction rule: reach.induct) (auto intro: inv_initial inv_step)

lemma inv_run: "step\<^sup>*\<^sup>* s t \<Longrightarrow> inv s \<Longrightarrow> inv t"
  by (induction rule: rtranclp_induct) (auto intro: inv_step)

end

section \<open>Lists\<close>

lemma nth_update_if: "xs[i := v] ! j = (if i = j \<and> j < length xs then v else xs ! j)"
  by (cases "i < length xs") (auto simp: nth_list_update list_update_beyond)

lemma length_filter_update:
  assumes "i < length xs"
  shows "length (filter P (xs[i := v])) + (if P (xs ! i) then 1 else 0)
       = length (filter P xs) + (if P v then 1 else 0)"
  using assms
proof (induction xs arbitrary: i)
  case (Cons x xs)
  then show ?case by (cases i) auto
qed simp

lemma length_filter_flip:
  assumes "distinct xs" and "a \<in> set xs" and "P a" and "\<not> Q a"
    and "\<And>x. x \<in> set xs \<Longrightarrow> x \<noteq> a \<Longrightarrow> Q x = P x"
  shows "length (filter P xs) = Suc (length (filter Q xs))"
  using assms
proof (induction xs)
  case (Cons x xs)
  show ?case
  proof (cases "x = a")
    case True
    with Cons.prems have "filter P xs = filter Q xs" by (intro filter_cong) auto
    with True Cons.prems show ?thesis by simp
  next
    case False
    with Cons show ?thesis by auto
  qed
qed simp

lemma filter_eq_if_same:
  "(\<And>x. x \<in> set xs \<Longrightarrow> P x = Q x) \<Longrightarrow> length (filter P xs) = length (filter Q xs)"
  by (metis filter_cong)

lemma ex_min_rank:
  fixes rank :: "nat \<Rightarrow> nat"
  assumes "P i"
  shows "\<exists>m. P m \<and> (\<forall>j. rank j < rank m \<longrightarrow> \<not> P j)"
  using assms by (induction "rank i" arbitrary: i rule: less_induct) blast

end
