(* ===== verification/Json_Value.thy ===== *)
theory Json_Value
  imports Prelude "HOL-Library.List_Lexorder" "HOL-Library.Char_ord"
begin

text \<open>
  Task inputs, as \<^verbatim>\<open>workflow/compiler.go\<close> validates and clones them: the Go
  values that can sit in a \<^verbatim>\<open>map[string]any\<close>, \<^verbatim>\<open>validateJSONValue\<close> with
  its cycle check, the encoder of \<^verbatim>\<open>encoding/json\<close> the size limit is measured with,
  and \<^verbatim>\<open>cloneTaskInput\<close>.
\<close>

section \<open>Values\<close>

text \<open>
  A map or a slice carries the address \<^verbatim>\<open>reflect.Value.Pointer\<close> returns: a value
  that contains itself shows as a node whose address already occurs above it. The second
  argument of \<open>GMap\<close> says that the key type is a string type, that of \<open>GSlice\<close>
  that the element type is \<^verbatim>\<open>uint8\<close>; \<open>None\<close> is the nil map or slice. A number
  is its JSON spelling, \<open>None\<close> for a value that has none (NaN, an infinity). \<open>GOther\<close> is any other kind (channel, function,
  pointer, struct, complex).
\<close>

datatype goval =
    GNil
  | GBool bool
  | GString string
  | GNumber "string option"
  | GMap nat bool "(string \<times> goval) list option"
  | GSlice nat bool "goval list option"
  | GArray "goval list"
  | GMarshaler
  | GTextMarshaler
  | GOther

datatype visit_kind = VisitMap | VisitSlice

type_synonym jsonVisit = "visit_kind \<times> nat"

type_synonym task_input = "(nat \<times> (string \<times> goval) list) option"

fun input_value :: "task_input \<Rightarrow> goval" where
  "input_value None = GMap 0 True None"
| "input_value (Some (p, es)) = GMap p True (Some es)"

section \<open>Validation\<close>

definition validateJSONCollection ::
  "jsonVisit \<Rightarrow> jsonVisit list \<Rightarrow> (jsonVisit list \<Rightarrow> unit res) \<Rightarrow> unit res" where
  "validateJSONCollection visit visiting validate =
     (if visit \<in> set visiting then Inl (Errorf ''cyclic JSON value'')
      else validate (visit # visiting))"

lemma validateJSONCollection_cong [fundef_cong]:
  "v = v' \<Longrightarrow> vs = vs' \<Longrightarrow> (\<And>ws. f ws = g ws) \<Longrightarrow>
   validateJSONCollection v vs f = validateJSONCollection v' vs' g"
  by (simp add: validateJSONCollection_def)

fun validateJSONValue :: "goval \<Rightarrow> jsonVisit list \<Rightarrow> unit res"
  and validateJSONEntries :: "(string \<times> goval) list \<Rightarrow> jsonVisit list \<Rightarrow> unit res"
  and validateJSONElements :: "goval list \<Rightarrow> jsonVisit list \<Rightarrow> unit res" where
  "validateJSONValue GNil visiting = Inr ()"
| "validateJSONValue GMarshaler visiting = Inl (Errorf ''custom JSON marshaler %T is not supported'')"
| "validateJSONValue GTextMarshaler visiting = Inl (Errorf ''custom text marshaler %T is not supported'')"
| "validateJSONValue (GBool b) visiting = Inr ()"
| "validateJSONValue (GString s) visiting = Inr ()"
| "validateJSONValue (GNumber n) visiting = Inr ()"
| "validateJSONValue (GMap p string_keys es) visiting =
     (if \<not> string_keys then Inl (Errorf ''map key type %s is not a string'')
      else case es of
        None \<Rightarrow> Inr ()
      | Some entries \<Rightarrow>
          validateJSONCollection (VisitMap, p) visiting (\<lambda>vs. validateJSONEntries entries vs))"
| "validateJSONValue (GSlice p bytes es) visiting =
     (if bytes then Inl (Errorf ''byte slices are not JSON arrays'')
      else case es of
        None \<Rightarrow> Inr ()
      | Some elements \<Rightarrow>
          validateJSONCollection (VisitSlice, p) visiting (\<lambda>vs. validateJSONElements elements vs))"
| "validateJSONValue (GArray elements) visiting = validateJSONElements elements visiting"
| "validateJSONValue GOther visiting = Inl (Errorf ''type %T is not part of the JSON data model'')"
| "validateJSONEntries [] visiting = Inr ()"
| "validateJSONEntries ((k, v) # es) visiting =
     bindR (validateJSONValue v visiting) (\<lambda>_. validateJSONEntries es visiting)"
| "validateJSONElements [] visiting = Inr ()"
| "validateJSONElements (v # vs) visiting =
     bindR (validateJSONValue v visiting) (\<lambda>_. validateJSONElements vs visiting)"

section \<open>Encoding\<close>

text \<open>
  \<^verbatim>\<open>json.Marshal\<close> on a validated value: object keys sorted, quotes and
  backslashes escaped, control characters and the characters the encoder escapes for HTML
  written as \<^verbatim>\<open>\u00xx\<close>. Strings are their UTF-8 bytes, taken to be valid and
  copied. The kinds validation refuses have no encoding here; they never reach the encoder.
\<close>

definition hex_digit :: "nat \<Rightarrow> char" where
  "hex_digit n = char_of (if n < 10 then 48 + n else 87 + n)"

definition json_escape :: "char \<Rightarrow> string" where
  "json_escape c =
     (let n = (of_char c :: nat) in
      if n = 34 then [char_of (92::nat), char_of (34::nat)]
      else if n = 92 then [char_of (92::nat), char_of (92::nat)]
      else if n = 8 then [char_of (92::nat), CHR ''b'']
      else if n = 12 then [char_of (92::nat), CHR ''f'']
      else if n = 10 then [char_of (92::nat), CHR ''n'']
      else if n = 13 then [char_of (92::nat), CHR ''r'']
      else if n = 9 then [char_of (92::nat), CHR ''t'']
      else if n < 32 \<or> n = 60 \<or> n = 62 \<or> n = 38
        then [char_of (92::nat)] @ ''u00'' @ [hex_digit (n div 16), hex_digit (n mod 16)]
      else [c])"

definition json_quote :: "string \<Rightarrow> string" where
  "json_quote s = [char_of (34::nat)] @ concat (map json_escape s) @ [char_of (34::nat)]"

fun join :: "string \<Rightarrow> string list \<Rightarrow> string" where
  "join sep [] = []"
| "join sep [w] = w"
| "join sep (w # ws) = w @ sep @ join sep ws"

fun all_some :: "'a option list \<Rightarrow> 'a list option" where
  "all_some [] = Some []"
| "all_some (None # xs) = None"
| "all_some (Some x # xs) = map_option (Cons x) (all_some xs)"

lemma all_some_None_iff: "all_some xs = None \<longleftrightarrow> None \<in> set xs"
proof (induction xs)
  case (Cons x xs)
  then show ?case by (cases x) auto
qed simp

text \<open>\<^verbatim>\<open>isValidNumber\<close> of \<^verbatim>\<open>encoding/json\<close>: the spellings of a
  \<^verbatim>\<open>json.Number\<close> the encoder accepts.\<close>

definition digit_char :: "char \<Rightarrow> bool" where
  "digit_char c \<longleftrightarrow> (let n = (of_char c :: nat) in 48 \<le> n \<and> n \<le> 57)"

definition drop_exponent :: "string \<Rightarrow> string option" where
  "drop_exponent w =
     (case w of
        c # x # rest \<Rightarrow>
          if c = CHR ''e'' \<or> c = CHR ''E'' then
            if x = CHR ''+'' \<or> x = CHR ''-'' then (if rest = [] then None else Some (dropWhile digit_char rest))
            else Some (dropWhile digit_char (x # rest))
          else Some w
      | _ \<Rightarrow> Some w)"

definition drop_fraction :: "string \<Rightarrow> string" where
  "drop_fraction w =
     (case w of
        c # x # rest \<Rightarrow> if c = CHR ''.'' \<and> digit_char x then dropWhile digit_char rest else w
      | _ \<Rightarrow> w)"

definition isValidNumber :: "string \<Rightarrow> bool" where
  "isValidNumber w =
     (let w = (case w of c # rest \<Rightarrow> if c = CHR ''-'' then rest else w | [] \<Rightarrow> []) in
      case w of
        [] \<Rightarrow> False
      | c # rest \<Rightarrow>
          if \<not> digit_char c then False
          else drop_exponent (drop_fraction (if c = CHR ''0'' then rest else dropWhile digit_char rest)) = Some [])"

primrec json_marshal :: "goval \<Rightarrow> string option" where
  "json_marshal GNil = Some ''null''"
| "json_marshal (GBool b) = Some (if b then ''true'' else ''false'')"
| "json_marshal (GString s) = Some (json_quote s)"
| "json_marshal (GNumber n) = (case n of None \<Rightarrow> None | Some w \<Rightarrow> if isValidNumber w then Some w else None)"
| "json_marshal (GMap p string_keys es) =
     (case map_option (map (map_prod id json_marshal)) es of
        None \<Rightarrow> Some ''null''
      | Some entries \<Rightarrow>
          map_option (\<lambda>ws. ''{'' @ join '','' ws @ ''}'')
            (all_some (map (\<lambda>(k, w). map_option (\<lambda>v. json_quote k @ '':'' @ v) w)
               (sort_key fst entries))))"
| "json_marshal (GSlice p bytes es) =
     (case map_option (map json_marshal) es of
        None \<Rightarrow> Some ''null''
      | Some ws \<Rightarrow> map_option (\<lambda>ws. ''['' @ join '','' ws @ '']'') (all_some ws))"
| "json_marshal (GArray es) =
     map_option (\<lambda>ws. ''['' @ join '','' ws @ '']'') (all_some (map json_marshal es))"
| "json_marshal GMarshaler = None"
| "json_marshal GTextMarshaler = None"
| "json_marshal GOther = None"

section \<open>Cloning\<close>

text \<open>
  \<^verbatim>\<open>cloneTaskInput\<close> encodes and decodes with \<^verbatim>\<open>UseNumber\<close>: numbers keep
  their spelling, nil maps and slices come back as \<^verbatim>\<open>null\<close>, arrays as slices, keys
  in sorted order, and every map and slice is a new object. Its address is written as its
  nesting depth: the cycle check only ever compares an address with those above it.
\<close>

primrec json_decoded :: "goval \<Rightarrow> nat \<Rightarrow> goval" where
  "json_decoded GNil = (\<lambda>d. GNil)"
| "json_decoded (GBool b) = (\<lambda>d. GBool b)"
| "json_decoded (GString s) = (\<lambda>d. GString s)"
| "json_decoded (GNumber n) = (\<lambda>d. GNumber n)"
| "json_decoded (GMap p string_keys es) = (\<lambda>d.
     case map_option (map (map_prod id json_decoded)) es of
       None \<Rightarrow> GNil
     | Some entries \<Rightarrow> GMap d True (Some (map (map_prod id (\<lambda>f. f (Suc d))) (sort_key fst entries))))"
| "json_decoded (GSlice p bytes es) = (\<lambda>d.
     case map_option (map json_decoded) es of
       None \<Rightarrow> GNil
     | Some elements \<Rightarrow> GSlice d False (Some (map (\<lambda>f. f (Suc d)) elements)))"
| "json_decoded (GArray es) = (\<lambda>d. GSlice d False (Some (map (\<lambda>f. f (Suc d)) (map json_decoded es))))"
| "json_decoded GMarshaler = (\<lambda>d. GMarshaler)"
| "json_decoded GTextMarshaler = (\<lambda>d. GTextMarshaler)"
| "json_decoded GOther = (\<lambda>d. GOther)"

definition cloneTaskInput :: "task_input \<Rightarrow> task_input res" where
  "cloneTaskInput input =
     (case input of
        None \<Rightarrow> Inr None
      | Some (p, es) \<Rightarrow>
          (case json_marshal (input_value input) of
             None \<Rightarrow> Inl (GoPanic ''clone validated task input: '')
           | Some body \<Rightarrow>
               (case json_decoded (input_value input) 0 of
                  GMap q b (Some es') \<Rightarrow> Inr (Some (q, es'))
                | _ \<Rightarrow> Inl (GoPanic ''decode validated task input: ''))))"

definition maxTaskInputBytes :: nat where
  "maxTaskInputBytes = 64 * 1024"

section \<open>Cloning keeps what validation and encoding see\<close>

lemma insort_key_map_values:
  "insort_key fst (map_prod id g kv) (map (map_prod id g) ys) = map (map_prod id g) (insort_key fst kv ys)"
  by (induction ys) auto

lemma sort_key_map_values [simp]:
  "sort_key fst (map (map_prod id g) xs) = map (map_prod id g) (sort_key fst xs)"
proof (induction xs)
  case (Cons kv xs)
  have "sort_key fst (map (map_prod id g) (kv # xs))
      = insort_key fst (map_prod id g kv) (sort_key fst (map (map_prod id g) xs))"
    by (simp only: list.map sort_key_simps)
  also have "\<dots> = map (map_prod id g) (insort_key fst kv (sort_key fst xs))"
    by (simp only: Cons.IH insort_key_map_values)
  finally show ?case by (simp only: sort_key_simps)
qed simp

lemma sort_key_fst_idem [simp]: "sort_key fst (sort_key fst xs) = sort_key fst xs"
  by (simp add: sort_key_id_if_sorted)

lemma json_marshal_decoded: "json_marshal (json_decoded v d) = json_marshal v"
proof (induction v arbitrary: d)
  case (GMap p b es)
  have "map (map_prod id json_marshal) (map (map_prod id (\<lambda>f. f (Suc d))) (map (map_prod id json_decoded) xs))
      = map (map_prod id json_marshal) xs" if "es = Some entries" "set xs = set entries" for entries xs
    using GMap.IH that by (auto simp: snds.simps)
  then show ?case by (cases es) (auto simp del: map_map)
next
  case (GSlice p b es)
  then show ?case by (cases es) (auto simp: comp_def cong: map_cong)
next
  case (GArray es)
  then show ?case by (auto simp: comp_def cong: map_cong)
qed auto

lemma json_decoded_decoded: "json_decoded (json_decoded v d) d' = json_decoded v d'"
proof (induction v arbitrary: d d')
  case (GMap p b es)
  have "map (map_prod id (\<lambda>f. f (Suc d'))) (map (map_prod id json_decoded) (map (map_prod id (\<lambda>f. f (Suc d)))
          (map (map_prod id json_decoded) xs)))
      = map (map_prod id (\<lambda>f. f (Suc d'))) (map (map_prod id json_decoded) xs)"
    if "es = Some entries" "set xs = set entries" for entries xs
    using GMap.IH that by (auto simp: snds.simps)
  then show ?case by (cases es) (auto simp del: map_map)
next
  case (GSlice p b es)
  then show ?case by (cases es) (auto simp: comp_def cong: map_cong)
next
  case (GArray es)
  then show ?case by (auto simp: comp_def cong: map_cong)
qed auto

text \<open>The decoded value has no cycle: addresses grow from parent to child.\<close>

lemma validateJSONEntries_iff:
  "validateJSONEntries es vs = Inr () \<longleftrightarrow> (\<forall>(k, v) \<in> set es. validateJSONValue v vs = Inr ())"
  by (induction es) (auto simp: bindR_eq_Inr)

lemma validateJSONElements_iff:
  "validateJSONElements es vs = Inr () \<longleftrightarrow> (\<forall>v \<in> set es. validateJSONValue v vs = Inr ())"
  by (induction es) (auto simp: bindR_eq_Inr)

lemmas validate_iffs = validateJSONEntries_iff validateJSONElements_iff validateJSONCollection_def

lemma validateJSONValue_decoded:
  assumes "validateJSONValue v vs = Inr ()" and "\<forall>(k, p) \<in> set ws. p < d"
  shows "validateJSONValue (json_decoded v d) ws = Inr ()"
  using assms
proof (induction v arbitrary: d vs ws)
  case (GMap p b es)
  show ?case
  proof (cases es)
    case (Some entries)
    have fresh: "(VisitMap, d) \<notin> set ws" using GMap.prems(2) by auto
    have "validateJSONValue (json_decoded v (Suc d)) ((VisitMap, d) # ws) = Inr ()"
      if "(k, v) \<in> set entries" for k v
    proof (rule GMap.IH [OF _ that])
      show "entries \<in> set_option es" using Some by simp
      show "v \<in> Basic_BNFs.snds (k, v)" by (simp add: prod_set_simps)
      show "validateJSONValue v ((VisitMap, p) # vs) = Inr ()"
        using GMap.prems(1) Some that by (auto simp: validate_iffs split: if_splits)
      show "\<forall>(k, p)\<in>set ((VisitMap, d) # ws). p < Suc d"
        using GMap.prems(2) by (auto intro: less_SucI)
    qed
    with Some fresh show ?thesis by (auto simp: validate_iffs)
  qed auto
next
  case (GSlice p b es)
  show ?case
  proof (cases es)
    case (Some elements)
    have fresh: "(VisitSlice, d) \<notin> set ws" using GSlice.prems(2) by auto
    have "validateJSONValue (json_decoded v (Suc d)) ((VisitSlice, d) # ws) = Inr ()"
      if "v \<in> set elements" for v
    proof (rule GSlice.IH [OF _ that])
      show "elements \<in> set_option es" using Some by simp
      show "validateJSONValue v ((VisitSlice, p) # vs) = Inr ()"
        using GSlice.prems(1) Some that by (auto simp: validate_iffs split: if_splits)
      show "\<forall>(k, p)\<in>set ((VisitSlice, d) # ws). p < Suc d"
        using GSlice.prems(2) by (auto intro: less_SucI)
    qed
    with Some fresh show ?thesis by (auto simp: validate_iffs)
  qed auto
next
  case (GArray es)
  have fresh: "(VisitSlice, d) \<notin> set ws" using GArray.prems(2) by auto
  have "validateJSONValue (json_decoded v (Suc d)) ((VisitSlice, d) # ws) = Inr ()"
    if "v \<in> set es" for v
  proof (rule GArray.IH [OF that])
    show "validateJSONValue v vs = Inr ()"
      using GArray.prems(1) that by (auto simp: validate_iffs)
    show "\<forall>(k, p)\<in>set ((VisitSlice, d) # ws). p < Suc d"
      using GArray.prems(2) by (auto intro: less_SucI)
  qed
  with fresh show ?case by (auto simp: validate_iffs)
qed auto

lemma cloneTaskInput_eq_Some:
  "cloneTaskInput (Some (p, es)) = Inr (Some (q, es')) \<longleftrightarrow>
   json_marshal (input_value (Some (p, es))) \<noteq> None \<and>
   json_decoded (input_value (Some (p, es))) 0 = input_value (Some (q, es'))"
  by (auto simp: cloneTaskInput_def split: option.splits)

lemma cloneTaskInput_cases:
  assumes "cloneTaskInput input = Inr input'"
  obtains "input = None" and "input' = None"
  | p es q es' where "input = Some (p, es)" and "input' = Some (q, es')"
      and "json_marshal (input_value input) \<noteq> None"
      and "json_decoded (input_value input) 0 = input_value input'"
proof (cases input)
  case None
  with assms that(1) show ?thesis by (simp add: cloneTaskInput_def)
next
  case (Some pe)
  obtain p es where input: "input = Some (p, es)" using Some by (cases pe) auto
  moreover obtain q es' where "input' = Some (q, es')"
    using assms input by (auto simp: cloneTaskInput_def split: option.splits)
  ultimately show ?thesis
    using that(2) assms cloneTaskInput_eq_Some [of p es q es'] by (metis input_value.simps(2))
qed

lemma cloneTaskInput_marshal:
  "cloneTaskInput input = Inr input' \<Longrightarrow> json_marshal (input_value input') = json_marshal (input_value input)"
  by (metis cloneTaskInput_cases json_marshal_decoded)

lemma cloneTaskInput_idem: "cloneTaskInput input = Inr input' \<Longrightarrow> cloneTaskInput input' = Inr input'"
proof (erule cloneTaskInput_cases)
  fix p es q es'
  assume i: "input = Some (p, es)" and i': "input' = Some (q, es')"
    and m: "json_marshal (input_value input) \<noteq> None"
    and d: "json_decoded (input_value input) 0 = input_value input'"
  have "json_marshal (input_value input') \<noteq> None"
    using m d json_marshal_decoded by metis
  moreover have "json_decoded (input_value input') 0 = input_value input'"
    using d json_decoded_decoded by metis
  ultimately show ?thesis unfolding i' cloneTaskInput_eq_Some by blast
qed (simp add: cloneTaskInput_def)

lemma cloneTaskInput_valid:
  assumes "cloneTaskInput input = Inr input'" and "validateJSONValue (input_value input) [] = Inr ()"
  shows "validateJSONValue (input_value input') [] = Inr ()"
  using assms(1)
proof (rule cloneTaskInput_cases)
  assume "json_decoded (input_value input) 0 = input_value input'"
  with validateJSONValue_decoded [OF assms(2), of "[]" 0] show ?thesis by simp
qed auto

lemma cloneTaskInput_returns:
  assumes "json_marshal (input_value input) \<noteq> None"
  shows "\<exists>input'. cloneTaskInput input = Inr input'"
  using assms by (auto simp: cloneTaskInput_def split: option.splits)

end
