(* ===== verification/Workflow_Data.thy ===== *)
theory Workflow_Data
  imports Json_Value
begin

text \<open>
  The data of the workflow package: definitions (\<^verbatim>\<open>workflow/definition.go\<close>),
  statuses (\<^verbatim>\<open>state.go\<close>), runs, tasks, attempts and events
  (\<^verbatim>\<open>run.go\<close>), execution requests and responses (\<^verbatim>\<open>executor.go\<close>).
  A Go string type with named constants is a datatype with one constructor per constant
  and one for every other string, so that stored values outside the constants stay
  representable.
\<close>

section \<open>Statuses and result kinds\<close>

type_synonym TaskKey = string
type_synonym RunID = string

datatype ExecutorKind = ExecutorMock | ExecutorContainer | ExecutorOther string

datatype WorkflowStatus =
  WorkflowPending | WorkflowRunning | WorkflowSucceeded | WorkflowFailed | WorkflowCanceled
| WorkflowOther string

datatype TaskStatus =
  TaskWaitingDependencies | TaskReady | TaskQueued | TaskRunning | TaskWaitingRetry
| TaskSucceeded | TaskFailed | TaskCanceled | TaskSkipped | TaskOther string

datatype AttemptStatus =
  AttemptRunning | AttemptSucceeded | AttemptFailed | AttemptTimedOut | AttemptCanceled
| AttemptInterrupted | AttemptOther string

datatype ResultKind =
  ResultSuccess | ResultTemporaryFailure | ResultPermanentFailure | ResultCanceled
| ResultOther string

primrec executor_str :: "ExecutorKind \<Rightarrow> string" where
  "executor_str ExecutorMock = ''mock''"
| "executor_str ExecutorContainer = ''container''"
| "executor_str (ExecutorOther w) = w"

primrec workflow_str :: "WorkflowStatus \<Rightarrow> string" where
  "workflow_str WorkflowPending = ''pending''"
| "workflow_str WorkflowRunning = ''running''"
| "workflow_str WorkflowSucceeded = ''succeeded''"
| "workflow_str WorkflowFailed = ''failed''"
| "workflow_str WorkflowCanceled = ''canceled''"
| "workflow_str (WorkflowOther w) = w"

primrec task_str :: "TaskStatus \<Rightarrow> string" where
  "task_str TaskWaitingDependencies = ''waiting_dependencies''"
| "task_str TaskReady = ''ready''"
| "task_str TaskQueued = ''queued''"
| "task_str TaskRunning = ''running''"
| "task_str TaskWaitingRetry = ''waiting_retry''"
| "task_str TaskSucceeded = ''succeeded''"
| "task_str TaskFailed = ''failed''"
| "task_str TaskCanceled = ''canceled''"
| "task_str TaskSkipped = ''skipped''"
| "task_str (TaskOther w) = w"

primrec attempt_str :: "AttemptStatus \<Rightarrow> string" where
  "attempt_str AttemptRunning = ''running''"
| "attempt_str AttemptSucceeded = ''succeeded''"
| "attempt_str AttemptFailed = ''failed''"
| "attempt_str AttemptTimedOut = ''timed_out''"
| "attempt_str AttemptCanceled = ''canceled''"
| "attempt_str AttemptInterrupted = ''interrupted''"
| "attempt_str (AttemptOther w) = w"

text \<open>The conversions Go writes as \<^verbatim>\<open>TaskStatus(value)\<close>: a string that is the
  spelling of a constant is that constant.\<close>

definition workflow_of_str :: "string \<Rightarrow> WorkflowStatus" where
  "workflow_of_str w =
     (case find (\<lambda>s. workflow_str s = w)
        [WorkflowPending, WorkflowRunning, WorkflowSucceeded, WorkflowFailed, WorkflowCanceled]
      of Some s \<Rightarrow> s | None \<Rightarrow> WorkflowOther w)"

definition task_of_str :: "string \<Rightarrow> TaskStatus" where
  "task_of_str w =
     (case find (\<lambda>s. task_str s = w)
        [TaskWaitingDependencies, TaskReady, TaskQueued, TaskRunning, TaskWaitingRetry,
         TaskSucceeded, TaskFailed, TaskCanceled, TaskSkipped]
      of Some s \<Rightarrow> s | None \<Rightarrow> TaskOther w)"

definition attempt_of_str :: "string \<Rightarrow> AttemptStatus" where
  "attempt_of_str w =
     (case find (\<lambda>s. attempt_str s = w)
        [AttemptRunning, AttemptSucceeded, AttemptFailed, AttemptTimedOut, AttemptCanceled,
         AttemptInterrupted]
      of Some s \<Rightarrow> s | None \<Rightarrow> AttemptOther w)"

definition workflow_canonical :: "WorkflowStatus \<Rightarrow> bool" where
  "workflow_canonical s \<longleftrightarrow> workflow_of_str (workflow_str s) = s"

definition task_canonical :: "TaskStatus \<Rightarrow> bool" where
  "task_canonical s \<longleftrightarrow> task_of_str (task_str s) = s"

definition attempt_canonical :: "AttemptStatus \<Rightarrow> bool" where
  "attempt_canonical s \<longleftrightarrow> attempt_of_str (attempt_str s) = s"

lemma workflow_str_of_str: "workflow_str (workflow_of_str w) = w"
  by (simp add: workflow_of_str_def)

lemma task_str_of_str: "task_str (task_of_str w) = w"
  by (simp add: task_of_str_def)

lemma attempt_str_of_str: "attempt_str (attempt_of_str w) = w"
  by (simp add: attempt_of_str_def)

interpretation workflow_spelling: spelled workflow_str workflow_of_str workflow_canonical
  by unfold_locales (simp_all add: workflow_canonical_def workflow_str_of_str)

interpretation task_spelling: spelled task_str task_of_str task_canonical
  by unfold_locales (simp_all add: task_canonical_def task_str_of_str)

interpretation attempt_spelling: spelled attempt_str attempt_of_str attempt_canonical
  by unfold_locales (simp_all add: attempt_canonical_def attempt_str_of_str)

section \<open>Definitions\<close>

record RetryPolicy =
  rp_MaxAttempts :: int
  rp_IntervalMillis :: int

record TaskDefinition =
  td_Key :: TaskKey
  td_Executor :: ExecutorKind
  td_Action :: string
  td_Input :: task_input
  td_DependsOn :: "TaskKey list"
  td_Retry :: RetryPolicy
  td_TimeoutMillis :: int

record WorkflowDefinition =
  wd_ID :: string
  wd_Concurrency :: int
  wd_Tasks :: "TaskDefinition list"

section \<open>Execution\<close>

record ExecutionRequest =
  eq_DefinitionID :: string
  eq_RunID :: RunID
  eq_TaskKey :: TaskKey
  eq_Action :: string
  eq_Input :: task_input
  eq_Attempt :: int

record ExecutionResponse =
  ep_Kind :: ResultKind
  ep_Output :: string
  ep_ErrorCode :: string
  ep_ErrorMessage :: string

section \<open>Runs\<close>

record ExecutionResult =
  er_Output :: string
  er_ErrorCode :: string
  er_ErrorMessage :: string

record Attempt =
  at_Number :: int
  at_Status :: AttemptStatus
  at_WorkerID :: string
  at_DispatchID :: string
  at_StartedAt :: time
  at_FinishedAt :: "time option"
  at_Result :: ExecutionResult

record TaskRun =
  tr_Key :: TaskKey
  tr_Status :: TaskStatus
  tr_Attempts :: "Attempt list"
  tr_ReadyAt :: "time option"
  tr_FinishedAt :: "time option"

record StateEvent =
  se_Sequence :: u64
  se_At :: time
  se_Entity :: string
  se_Key :: string
  se_From :: string
  se_To :: string
  se_Reason :: string

record WorkflowRun =
  wr_ID :: RunID
  wr_DefinitionID :: string
  wr_DefinitionVersion :: int
  wr_Status :: WorkflowStatus
  wr_Revision :: u64
  wr_LastEventSequence :: u64
  wr_CancelRequestedAt :: "time option"
  wr_Tasks :: "TaskRun list"
  wr_RemainingDependencies :: "int list"
  wr_CreatedAt :: time
  wr_StartedAt :: "time option"
  wr_FinishedAt :: "time option"

record RunSnapshot =
  rs_Version :: int
  rs_Definition :: "WorkflowDefinition option"
  rs_Run :: WorkflowRun
  rs_Events :: "StateEvent list"

abbreviation zero_result :: ExecutionResult where
  "zero_result \<equiv> \<lparr>er_Output = '''', er_ErrorCode = '''', er_ErrorMessage = ''''\<rparr>"

abbreviation run_tasks :: "RunSnapshot \<Rightarrow> TaskRun list" where
  "run_tasks s \<equiv> wr_Tasks (rs_Run s)"

abbreviation run_remaining :: "RunSnapshot \<Rightarrow> int list" where
  "run_remaining s \<equiv> wr_RemainingDependencies (rs_Run s)"

abbreviation run_status :: "RunSnapshot \<Rightarrow> WorkflowStatus" where
  "run_status s \<equiv> wr_Status (rs_Run s)"

abbreviation status_of :: "RunSnapshot \<Rightarrow> nat \<Rightarrow> TaskStatus" where
  "status_of s i \<equiv> tr_Status (run_tasks s ! i)"

text \<open>Writing through the pointers \<^verbatim>\<open>&snapshot.Run.Tasks[i]\<close> and
  \<^verbatim>\<open>&task.Attempts[j]\<close>.\<close>

definition upd_run :: "(WorkflowRun \<Rightarrow> WorkflowRun) \<Rightarrow> RunSnapshot \<Rightarrow> RunSnapshot" where
  "upd_run f s = s\<lparr>rs_Run := f (rs_Run s)\<rparr>"

definition upd_task :: "nat \<Rightarrow> (TaskRun \<Rightarrow> TaskRun) \<Rightarrow> RunSnapshot \<Rightarrow> RunSnapshot" where
  "upd_task i f s = upd_run (\<lambda>r. r\<lparr>wr_Tasks := (wr_Tasks r)[i := f (wr_Tasks r ! i)]\<rparr>) s"

definition upd_attempt :: "nat \<Rightarrow> nat \<Rightarrow> (Attempt \<Rightarrow> Attempt) \<Rightarrow> RunSnapshot \<Rightarrow> RunSnapshot" where
  "upd_attempt i j f s =
     upd_task i (\<lambda>t. t\<lparr>tr_Attempts := (tr_Attempts t)[j := f (tr_Attempts t ! j)]\<rparr>) s"

end
