(* ===== verification/Workflow_State.thy ===== *)
theory Workflow_State
  imports Workflow_Data
begin

text \<open>
  The state machines of \<^verbatim>\<open>workflow/state.go\<close>: the three transition tables, the
  three \<^verbatim>\<open>transition*\<close> functions that check a table and record an event, and the
  event log. \<^verbatim>\<open>snapshotLastEventSequence\<close> is from \<^verbatim>\<open>change.go\<close>.
\<close>

section \<open>Transition tables\<close>

fun workflowTransitions :: "WorkflowStatus \<Rightarrow> WorkflowStatus \<Rightarrow> bool" where
  "workflowTransitions WorkflowPending to = (to \<in> {WorkflowRunning, WorkflowCanceled})"
| "workflowTransitions WorkflowRunning to = (to \<in> {WorkflowSucceeded, WorkflowFailed, WorkflowCanceled})"
| "workflowTransitions _ to = False"

fun taskTransitions :: "TaskStatus \<Rightarrow> TaskStatus \<Rightarrow> bool" where
  "taskTransitions TaskWaitingDependencies to = (to \<in> {TaskReady, TaskCanceled, TaskSkipped})"
| "taskTransitions TaskReady to = (to \<in> {TaskQueued, TaskRunning, TaskCanceled, TaskSkipped})"
| "taskTransitions TaskQueued to = (to \<in> {TaskRunning, TaskReady, TaskCanceled})"
| "taskTransitions TaskRunning to = (to \<in> {TaskSucceeded, TaskWaitingRetry, TaskFailed, TaskCanceled})"
| "taskTransitions TaskWaitingRetry to = (to \<in> {TaskReady, TaskFailed, TaskCanceled})"
| "taskTransitions _ to = False"

fun attemptTransitions :: "AttemptStatus \<Rightarrow> AttemptStatus \<Rightarrow> bool" where
  "attemptTransitions AttemptRunning to =
     (to \<in> {AttemptSucceeded, AttemptFailed, AttemptTimedOut, AttemptCanceled, AttemptInterrupted})"
| "attemptTransitions _ to = False"

definition isWorkflowTerminal :: "WorkflowStatus \<Rightarrow> bool" where
  "isWorkflowTerminal status \<longleftrightarrow>
     status = WorkflowSucceeded \<or> status = WorkflowFailed \<or> status = WorkflowCanceled"

definition isTaskTerminal :: "TaskStatus \<Rightarrow> bool" where
  "isTaskTerminal status \<longleftrightarrow>
     status = TaskSucceeded \<or> status = TaskFailed \<or> status = TaskCanceled \<or> status = TaskSkipped"

abbreviation isAttemptFinal :: "AttemptStatus \<Rightarrow> bool" where
  "isAttemptFinal status \<equiv> status \<noteq> AttemptRunning"

lemma isTaskTerminal_simps [simp, status_simps]:
  "isTaskTerminal TaskSucceeded" "isTaskTerminal TaskFailed" "isTaskTerminal TaskCanceled"
  "isTaskTerminal TaskSkipped" "\<not> isTaskTerminal TaskWaitingDependencies" "\<not> isTaskTerminal TaskReady"
  "\<not> isTaskTerminal TaskQueued" "\<not> isTaskTerminal TaskRunning" "\<not> isTaskTerminal TaskWaitingRetry"
  "\<not> isTaskTerminal (TaskOther w)"
  by (simp_all add: isTaskTerminal_def)

lemma isWorkflowTerminal_simps [simp, status_simps]:
  "isWorkflowTerminal WorkflowSucceeded" "isWorkflowTerminal WorkflowFailed"
  "isWorkflowTerminal WorkflowCanceled" "\<not> isWorkflowTerminal WorkflowPending"
  "\<not> isWorkflowTerminal WorkflowRunning" "\<not> isWorkflowTerminal (WorkflowOther w)"
  by (simp_all add: isWorkflowTerminal_def)

interpretation workflow_machine: status_machine workflowTransitions isWorkflowTerminal
proof unfold_locales
  show "isWorkflowTerminal a \<Longrightarrow> \<not> workflowTransitions a b" for a b by (cases a) auto
  show "\<not> workflowTransitions a a" for a by (cases a) auto
qed

interpretation task_machine: status_machine taskTransitions isTaskTerminal
proof unfold_locales
  show "isTaskTerminal a \<Longrightarrow> \<not> taskTransitions a b" for a b by (cases a) auto
  show "\<not> taskTransitions a a" for a by (cases a) auto
qed

interpretation attempt_machine: status_machine attemptTransitions isAttemptFinal
proof unfold_locales
  show "isAttemptFinal a \<Longrightarrow> \<not> attemptTransitions a b" for a b by (cases a) auto
  show "\<not> attemptTransitions a a" for a by (cases a) auto
qed

section \<open>The event log\<close>

definition snapshotLastEventSequence :: "RunSnapshot \<Rightarrow> u64" where
  "snapshotLastEventSequence s =
     (let lastSequence = wr_LastEventSequence (rs_Run s) in
      if rs_Events s \<noteq> [] \<and> se_Sequence (last (rs_Events s)) > lastSequence
      then se_Sequence (last (rs_Events s)) else lastSequence)"

definition appendEvent ::
  "RunSnapshot \<Rightarrow> time \<Rightarrow> string \<Rightarrow> string \<Rightarrow> string \<Rightarrow> string \<Rightarrow> string \<Rightarrow> RunSnapshot" where
  "appendEvent s at entity key from to reason =
     (let event = \<lparr>se_Sequence = snapshotLastEventSequence s + 1, se_At = at, se_Entity = entity,
                   se_Key = key, se_From = from, se_To = to, se_Reason = reason\<rparr>
      in upd_run (\<lambda>r. r\<lparr>wr_LastEventSequence := se_Sequence event\<rparr>)
           (s\<lparr>rs_Events := rs_Events s @ [event]\<rparr>))"

section \<open>Transitions\<close>

definition transitionWorkflow ::
  "RunSnapshot \<Rightarrow> WorkflowStatus \<Rightarrow> time \<Rightarrow> string \<Rightarrow> RunSnapshot res" where
  "transitionWorkflow s to at reason =
     (let from = run_status s in
      if \<not> workflowTransitions from to then Inl (Errorf ''illegal workflow transition %s -> %s'')
      else
        let s1 = upd_run (\<lambda>r. r\<lparr>wr_Status := to\<rparr>) s;
            s2 = (if to = WorkflowRunning \<and> wr_StartedAt (rs_Run s1) = None
                  then upd_run (\<lambda>r. r\<lparr>wr_StartedAt := Some at\<rparr>) s1 else s1);
            s3 = (if isWorkflowTerminal to then upd_run (\<lambda>r. r\<lparr>wr_FinishedAt := Some at\<rparr>) s2 else s2)
        in Inr (appendEvent s3 at ''workflow'' (wr_ID (rs_Run s3)) (workflow_str from) (workflow_str to) reason))"

definition transitionTask ::
  "RunSnapshot \<Rightarrow> nat \<Rightarrow> TaskStatus \<Rightarrow> time \<Rightarrow> string \<Rightarrow> RunSnapshot res" where
  "transitionTask s i to at reason =
     (if length (run_tasks s) \<le> i then Inl (GoPanic ''index out of range'')
      else
        let from = status_of s i in
        if \<not> taskTransitions from to then Inl (Errorf ''illegal task transition %s -> %s'')
        else
          let s1 = upd_task i (\<lambda>t. t\<lparr>tr_Status := to\<rparr>) s;
              s2 = (if to \<noteq> TaskWaitingRetry then upd_task i (\<lambda>t. t\<lparr>tr_ReadyAt := None\<rparr>) s1 else s1);
              s3 = (if to = TaskSucceeded \<or> to = TaskFailed \<or> to = TaskCanceled \<or> to = TaskSkipped
                    then upd_task i (\<lambda>t. t\<lparr>tr_FinishedAt := Some at\<rparr>) s2 else s2)
          in Inr (appendEvent s3 at ''task'' (tr_Key (run_tasks s3 ! i)) (task_str from) (task_str to) reason))"

definition transitionAttempt ::
  "RunSnapshot \<Rightarrow> TaskKey \<Rightarrow> nat \<Rightarrow> nat \<Rightarrow> AttemptStatus \<Rightarrow> time \<Rightarrow> string \<Rightarrow> RunSnapshot res" where
  "transitionAttempt s key i j to at reason =
     (let attempt = tr_Attempts (run_tasks s ! i) ! j; from = at_Status attempt in
      if \<not> attemptTransitions from to then Inl (Errorf ''illegal attempt transition %s -> %s'')
      else
        let s1 = upd_attempt i j (\<lambda>a. a\<lparr>at_Status := to, at_FinishedAt := Some at\<rparr>) s
        in Inr (appendEvent s1 at ''attempt'' (key @ ''/'' @ int_str (at_Number attempt))
                  (attempt_str from) (attempt_str to) reason))"

end
