(* ===== verification/Compiler.thy ===== *)
theory Compiler
  imports Workflow_Data
begin

text \<open>
  \<^verbatim>\<open>Compile\<close> of \<^verbatim>\<open>workflow/compiler.go\<close>: validation of inputs, the pass
  over the tasks' own attributes, the pass that turns dependency keys into adjacency lists,
  and Kahn's algorithm as the cycle check. The main result is that the compiler accepts
  exactly the definitions that meet a declarative specification.
\<close>

section \<open>The compiler\<close>

record CompiledWorkflow =
  cw_definition :: WorkflowDefinition
  cw_index :: "(TaskKey \<times> nat) list"
  cw_dependencies :: "nat list list"
  cw_successors :: "nat list list"

definition maxWorkflowTasks :: nat where
  "maxWorkflowTasks = 10000"

definition identifier_char :: "char \<Rightarrow> bool" where
  "identifier_char c \<longleftrightarrow>
     (let n = (of_char c :: nat) in 97 \<le> n \<and> n \<le> 122 \<or> 48 \<le> n \<and> n \<le> 57 \<or> n = 95 \<or> n = 45)"

definition identifierPattern :: "string \<Rightarrow> bool" where
  "identifierPattern w \<longleftrightarrow> 1 \<le> length w \<and> length w \<le> 64 \<and> list_all identifier_char w"

text \<open>\<^verbatim>\<open>strings.TrimSpace(w) == ""\<close>: only white space, the code points of
  \<^verbatim>\<open>unicode.IsSpace\<close> written as their UTF-8 bytes.\<close>

fun blank_bytes :: "nat list \<Rightarrow> bool" where
  "blank_bytes [] = True"
| "blank_bytes (b # bs) =
     (if 9 \<le> b \<and> b \<le> 13 \<or> b = 32 then blank_bytes bs
      else if b = 194 then
        (case bs of c # cs \<Rightarrow> (c = 133 \<or> c = 160) \<and> blank_bytes cs | [] \<Rightarrow> False)
      else if b = 225 \<or> b = 226 \<or> b = 227 then
        (case bs of c # d # ds \<Rightarrow>
           (b = 225 \<and> c = 154 \<and> d = 128 \<or>
            b = 226 \<and> c = 128 \<and> (128 \<le> d \<and> d \<le> 138 \<or> d = 168 \<or> d = 169 \<or> d = 175) \<or>
            b = 226 \<and> c = 129 \<and> d = 159 \<or>
            b = 227 \<and> c = 128 \<and> d = 128) \<and> blank_bytes ds
         | _ \<Rightarrow> False)
      else False)"

definition blank :: "string \<Rightarrow> bool" where
  "blank w = blank_bytes (map of_char w)"

text \<open>The first loop: every input is a JSON value of at most 64 KiB.\<close>

definition check_input :: "TaskDefinition \<Rightarrow> unit res" where
  "check_input task =
     (case validateJSONValue (input_value (td_Input task)) [] of
        Inl e \<Rightarrow> Inl (Errorf ''task %q input must contain only JSON values: %w'')
      | Inr _ \<Rightarrow>
          (case json_marshal (input_value (td_Input task)) of
             None \<Rightarrow> Inl (Errorf ''task %q input must be a JSON object: %w'')
           | Some body \<Rightarrow>
               if length body > maxTaskInputBytes
               then Inl (Errorf ''task %q input cannot exceed %d bytes'') else Inr ()))"

text \<open>The same with the length as an integer, for evaluation.\<close>

lemma check_input_code [code]:
  "check_input task =
     (case validateJSONValue (input_value (td_Input task)) [] of
        Inl e \<Rightarrow> Inl (Errorf ''task %q input must contain only JSON values: %w'')
      | Inr _ \<Rightarrow>
          (case json_marshal (input_value (td_Input task)) of
             None \<Rightarrow> Inl (Errorf ''task %q input must be a JSON object: %w'')
           | Some body \<Rightarrow>
               if int (length body) > 65536
               then Inl (Errorf ''task %q input cannot exceed %d bytes'') else Inr ()))"
  unfolding check_input_def maxTaskInputBytes_def by (auto split: sum.splits option.splits)

fun check_inputs :: "TaskDefinition list \<Rightarrow> unit res" where
  "check_inputs [] = Inr ()"
| "check_inputs (task # tasks) = bindR (check_input task) (\<lambda>_. check_inputs tasks)"

fun clone_tasks :: "TaskDefinition list \<Rightarrow> TaskDefinition list res" where
  "clone_tasks [] = Inr []"
| "clone_tasks (task # tasks) =
     bindR (cloneTaskInput (td_Input task)) (\<lambda>input.
     bindR (clone_tasks tasks) (\<lambda>rest. Inr (task\<lparr>td_Input := input\<rparr> # rest)))"

definition cloneDefinition :: "WorkflowDefinition \<Rightarrow> WorkflowDefinition res" where
  "cloneDefinition def = bindR (clone_tasks (wd_Tasks def)) (\<lambda>tasks. Inr (def\<lparr>wd_Tasks := tasks\<rparr>))"

definition Definition :: "CompiledWorkflow option \<Rightarrow> WorkflowDefinition res" where
  "Definition c =
     (case c of
        None \<Rightarrow> Inr \<lparr>wd_ID = '''', wd_Concurrency = 0, wd_Tasks = []\<rparr>
      | Some cw \<Rightarrow> cloneDefinition (cw_definition cw))"

text \<open>The body of the loop over \<^verbatim>\<open>def.Tasks\<close>: the checks in the source's order
  and the defaults for executor and attempt count.\<close>

definition normalize_task :: "TaskDefinition \<Rightarrow> TaskDefinition" where
  "normalize_task task =
     task\<lparr>td_Executor := (if td_Executor task = ExecutorOther '''' then ExecutorMock else td_Executor task),
          td_Retry := (td_Retry task)\<lparr>rp_MaxAttempts :=
             (if rp_MaxAttempts (td_Retry task) = 0 then 1 else rp_MaxAttempts (td_Retry task))\<rparr>\<rparr>"

definition check_task :: "TaskDefinition \<Rightarrow> (TaskKey \<times> nat) list \<Rightarrow> TaskDefinition res" where
  "check_task task index =
     (if \<not> identifierPattern (td_Key task) then Inl (Errorf ''invalid task key %q'')
      else if map_of index (td_Key task) \<noteq> None then Inl (Errorf ''duplicate task key %q'')
      else if blank (td_Action task) then Inl (Errorf ''task %q action is required'')
      else
        let task = normalize_task task in
        if td_Executor task \<noteq> ExecutorMock \<and> td_Executor task \<noteq> ExecutorContainer
          then Inl (Errorf ''task %q executor %q is not supported'')
        else if td_TimeoutMillis task \<le> 0 then Inl (Errorf ''task %q timeout must be greater than zero'')
        else if rp_MaxAttempts (td_Retry task) < 1 \<or> rp_IntervalMillis (td_Retry task) < 0
          then Inl (Errorf ''invalid retry policy for task %q'')
        else Inr task)"

fun check_tasks ::
  "TaskDefinition list \<Rightarrow> nat \<Rightarrow> (TaskKey \<times> nat) list \<Rightarrow> (TaskDefinition list \<times> (TaskKey \<times> nat) list) res" where
  "check_tasks [] i index = Inr ([], index)"
| "check_tasks (task # tasks) i index =
     bindR (check_task task index) (\<lambda>task'.
     bindR (check_tasks tasks (Suc i) ((td_Key task', i) # index)) (\<lambda>(rest, index').
     Inr (task' # rest, index')))"

text \<open>The second pass. The state of the loop is dependencies, successors and indegrees;
  \<open>seen\<close> is the inner loop's set.\<close>

type_synonym links = "nat list list \<times> nat list list \<times> int list"

fun link_task ::
  "(TaskKey \<times> nat) list \<Rightarrow> nat \<Rightarrow> TaskKey list \<Rightarrow> nat list \<Rightarrow> links \<Rightarrow> links res" where
  "link_task index i [] seen links = Inr links"
| "link_task index i (key # keys) seen (deps, succs, indegree) =
     (case map_of index key of
        None \<Rightarrow> Inl (Errorf ''task %q depends on missing task %q'')
      | Some d \<Rightarrow>
          if d \<in> set seen then Inl (Errorf ''task %q repeats dependency %q'')
          else link_task index i keys (d # seen)
                 (deps[i := deps ! i @ [d]], succs[d := succs ! d @ [i]], indegree[i := indegree ! i + 1]))"

fun link_tasks :: "(TaskKey \<times> nat) list \<Rightarrow> nat \<Rightarrow> TaskDefinition list \<Rightarrow> links \<Rightarrow> links res" where
  "link_tasks index i [] links = Inr links"
| "link_tasks index i (task # tasks) links =
     bindR (link_task index i (td_DependsOn task) [] links) (link_tasks index (Suc i) tasks)"

text \<open>Kahn's loop. \<open>relax\<close> is its inner loop over the successors of the current task.\<close>

fun relax :: "nat list \<Rightarrow> nat list \<times> int list \<Rightarrow> nat list \<times> int list" where
  "relax [] (queue, indegree) = (queue, indegree)"
| "relax (next # rest) (queue, indegree) =
     (let indegree' = indegree[next := indegree ! next - 1] in
      relax rest (if next < length indegree \<and> indegree' ! next = 0 then queue @ [next] else queue, indegree'))"

definition positives :: "int list \<Rightarrow> nat" where
  "positives xs = length (filter (\<lambda>x. 0 < x) xs)"

lemma relax_measure:
  "length (fst (relax ns (q, xs))) + positives (snd (relax ns (q, xs))) \<le> length q + positives xs"
proof (induction ns arbitrary: q xs)
  case (Cons n ns)
  define v where "v = xs ! n - 1"
  then have v: "xs ! n = v + 1" by simp
  let ?q' = "if n < length xs \<and> xs[n := v] ! n = 0 then q @ [n] else q"
  have "length ?q' + positives (xs[n := v]) \<le> length q + positives xs"
    using length_filter_update [of n xs "\<lambda>x. 0 < x" v]
    by (cases "n < length xs") (auto simp: positives_def v list_update_beyond [OF leI] split: if_splits)
  with Cons.IH [of ?q' "xs[n := v]"] show ?case by (simp add: Let_def v_def)
qed simp

function kahn :: "nat list list \<Rightarrow> nat list \<Rightarrow> int list \<Rightarrow> nat \<Rightarrow> nat" where
  "kahn succs [] indegree visited = visited"
| "kahn succs (current # queue) indegree visited =
     (let (queue', indegree') = relax (succs ! current) (queue, indegree)
      in kahn succs queue' indegree' (Suc visited))"
  by pat_completeness auto
termination
proof (relation "measure (\<lambda>(succs, queue, indegree, visited). length queue + positives indegree)")
  fix succs :: "nat list list" and current queue indegree visited x y xa
  assume "x = relax (succs ! current) (queue, indegree)" and "(xa, y) = x"
  then have "length xa + positives y \<le> length queue + positives indegree"
    using relax_measure [of "succs ! current" queue indegree] by (metis fst_conv snd_conv)
  then show "((succs, xa, y, Suc visited), succs, current # queue, indegree, visited)
      \<in> measure (\<lambda>(succs, queue, indegree, visited). length queue + positives indegree)"
    by simp
qed simp

definition sources :: "int list \<Rightarrow> nat list" where
  "sources indegree = filter (\<lambda>i. indegree ! i = 0) [0 ..< length indegree]"

lemma maxWorkflowTasks_code [code_unfold]: "length xs > maxWorkflowTasks \<longleftrightarrow> int (length xs) > 10000"
  by (simp add: maxWorkflowTasks_def)

definition Compile :: "WorkflowDefinition \<Rightarrow> CompiledWorkflow res" where
  "Compile def =
     bindR (check_inputs (wd_Tasks def)) (\<lambda>_.
     bindR (cloneDefinition def) (\<lambda>def.
     if wd_ID def = '''' then Inl (Errorf ''workflow id is required'')
     else if \<not> identifierPattern (wd_ID def) then Inl (Errorf ''invalid workflow id %q'')
     else if wd_Concurrency def \<le> 0 then Inl (Errorf ''concurrency must be greater than zero'')
     else if wd_Tasks def = [] then Inl (Errorf ''workflow must contain at least one task'')
     else if length (wd_Tasks def) > maxWorkflowTasks
       then Inl (Errorf ''workflow cannot contain more than 10000 tasks'')
     else
       bindR (check_tasks (wd_Tasks def) 0 []) (\<lambda>(tasks, index).
       let n = length tasks in
       bindR (link_tasks index 0 tasks (replicate n [], replicate n [], replicate n 0))
         (\<lambda>(deps, succs, indegree).
       if kahn succs (sources indegree) indegree 0 \<noteq> n
         then Inl (Errorf ''workflow contains a dependency cycle'')
       else Inr \<lparr>cw_definition = def\<lparr>wd_Tasks := tasks\<rparr>, cw_index = index,
                  cw_dependencies = deps, cw_successors = succs\<rparr>))))"

section \<open>What a compiled workflow is\<close>

definition successors_of :: "nat list list \<Rightarrow> nat \<Rightarrow> nat list" where
  "successors_of deps d = filter (\<lambda>j. d \<in> set (deps ! j)) [0 ..< length deps]"

text \<open>The specification of an accepted definition.\<close>

definition attributes_ok :: "TaskDefinition \<Rightarrow> bool" where
  "attributes_ok task \<longleftrightarrow>
     identifierPattern (td_Key task) \<and> \<not> blank (td_Action task) \<and>
     td_Executor task \<in> {ExecutorOther '''', ExecutorMock, ExecutorContainer} \<and>
     0 < td_TimeoutMillis task \<and> 0 \<le> rp_MaxAttempts (td_Retry task) \<and>
     0 \<le> rp_IntervalMillis (td_Retry task)"

definition depends :: "TaskDefinition list \<Rightarrow> (TaskKey \<times> TaskKey) set" where
  "depends tasks = {(d, td_Key task) | d task. task \<in> set tasks \<and> d \<in> set (td_DependsOn task)}"

definition dependencies_ok :: "TaskDefinition list \<Rightarrow> bool" where
  "dependencies_ok tasks \<longleftrightarrow>
     list_all (\<lambda>task. distinct (td_DependsOn task) \<and>
        set (td_DependsOn task) \<subseteq> td_Key ` set tasks) tasks"

definition definition_ok :: "WorkflowDefinition \<Rightarrow> bool" where
  "definition_ok def \<longleftrightarrow>
     identifierPattern (wd_ID def) \<and> 0 < wd_Concurrency def \<and>
     wd_Tasks def \<noteq> [] \<and> length (wd_Tasks def) \<le> maxWorkflowTasks \<and>
     list_all (\<lambda>task. check_input task = Inr ()) (wd_Tasks def) \<and>
     list_all attributes_ok (wd_Tasks def) \<and>
     distinct (map td_Key (wd_Tasks def)) \<and>
     dependencies_ok (wd_Tasks def) \<and>
     acyclic (depends (wd_Tasks def))"

text \<open>What the rest of the program relies on.\<close>

definition wf_compiled :: "CompiledWorkflow \<Rightarrow> bool" where
  "wf_compiled cw \<longleftrightarrow>
     (let tasks = wd_Tasks (cw_definition cw); n = length tasks; deps = cw_dependencies cw in
      tasks \<noteq> [] \<and> 0 < wd_Concurrency (cw_definition cw) \<and>
      distinct (map td_Key tasks) \<and>
      (\<forall>task \<in> set tasks. 1 \<le> rp_MaxAttempts (td_Retry task) \<and>
         0 \<le> rp_IntervalMillis (td_Retry task) \<and> 0 < td_TimeoutMillis task \<and>
         (\<exists>input. cloneTaskInput (td_Input task) = Inr input)) \<and>
      length deps = n \<and>
      (\<forall>ds \<in> set deps. distinct ds \<and> set ds \<subseteq> {..<n}) \<and>
      cw_successors cw = map (successors_of deps) [0 ..< n] \<and>
      (\<exists>rank :: nat \<Rightarrow> nat. \<forall>i < n. \<forall>d \<in> set (deps ! i). rank d < rank i))"

section \<open>The passes\<close>

lemma check_inputs_iff: "check_inputs tasks = Inr () \<longleftrightarrow> list_all (\<lambda>task. check_input task = Inr ()) tasks"
  by (induction tasks) (auto simp: bindR_eq_Inr)

lemma check_input_clone:
  assumes "check_input task = Inr ()"
  shows "\<exists>input. cloneTaskInput (td_Input task) = Inr input"
proof -
  have "json_marshal (input_value (td_Input task)) \<noteq> None"
    using assms by (auto simp: check_input_def split: sum.splits option.splits)
  then show ?thesis by (rule cloneTaskInput_returns)
qed

definition cloned :: "TaskDefinition \<Rightarrow> TaskDefinition \<Rightarrow> bool" where
  "cloned task task' \<longleftrightarrow>
     (\<exists>input. cloneTaskInput (td_Input task) = Inr input \<and> task' = task\<lparr>td_Input := input\<rparr>)"

lemma clone_tasks_iff: "clone_tasks tasks = Inr tasks' \<longleftrightarrow> list_all2 cloned tasks tasks'"
  by (induction tasks arbitrary: tasks') (auto simp: bindR_eq_Inr list_all2_Cons1 cloned_def)

lemma clone_tasks_returns:
  "check_inputs tasks = Inr () \<Longrightarrow> \<exists>tasks'. clone_tasks tasks = Inr tasks'"
  by (induction tasks) (auto simp: bindR_eq_Inr dest: check_input_clone)

lemma cloned_simps:
  assumes "cloned task task'"
  shows "td_Key task' = td_Key task" and "td_Executor task' = td_Executor task"
    and "td_Action task' = td_Action task" and "td_DependsOn task' = td_DependsOn task"
    and "td_Retry task' = td_Retry task" and "td_TimeoutMillis task' = td_TimeoutMillis task"
  using assms by (auto simp: cloned_def)

lemma cloned_check_input: "cloned task task' \<Longrightarrow> check_input task = Inr () \<Longrightarrow> check_input task' = Inr ()"
  by (auto simp: check_input_def cloned_def cloneTaskInput_marshal cloneTaskInput_valid
      split: sum.splits option.splits if_splits)

lemma cloned_self: "cloned task task' \<Longrightarrow> cloned task' task'"
  by (auto simp: cloned_def dest: cloneTaskInput_idem)

lemma normalize_task_simps [simp]:
  "td_Key (normalize_task t) = td_Key t" "td_DependsOn (normalize_task t) = td_DependsOn t"
  "td_Action (normalize_task t) = td_Action t" "td_Input (normalize_task t) = td_Input t"
  "td_TimeoutMillis (normalize_task t) = td_TimeoutMillis t"
  "rp_IntervalMillis (td_Retry (normalize_task t)) = rp_IntervalMillis (td_Retry t)"
  "normalize_task (normalize_task t) = normalize_task t"
  by (simp_all add: normalize_task_def)

lemma check_task_iff:
  "check_task task index = Inr task' \<longleftrightarrow>
     attributes_ok task \<and> map_of index (td_Key task) = None \<and> task' = normalize_task task"
  by (auto simp: check_task_def attributes_ok_def normalize_task_def Let_def split: if_splits)

lemma check_tasks_iff:
  "check_tasks tasks i index = Inr (tasks', index') \<longleftrightarrow>
     list_all attributes_ok tasks \<and> distinct (map td_Key tasks) \<and>
     set (map td_Key tasks) \<inter> fst ` set index = {} \<and> tasks' = map normalize_task tasks \<and>
     index' = rev (zip (map td_Key tasks) [i ..< i + length tasks]) @ index"
proof (induction tasks arbitrary: i index tasks' index')
  case (Cons task tasks)
  have "[i ..< i + length (task # tasks)] = i # [Suc i ..< Suc i + length tasks]"
    by (subst upt_conv_Cons) simp_all
  with Cons.IH show ?case
    by (auto simp: bindR_eq_Inr check_task_iff map_of_eq_None_iff)
qed auto

lemma map_of_rev_zip:
  assumes "distinct keys"
  shows "map_of (rev (zip keys [0 ..< length keys])) k = Some j \<longleftrightarrow> j < length keys \<and> keys ! j = k"
proof -
  have "distinct (map fst (rev (zip keys [0 ..< length keys])))"
    using assms by (simp add: rev_map [symmetric])
  then show ?thesis by (auto simp: map_of_eq_Some_iff set_zip)
qed

section \<open>The adjacency lists\<close>

text \<open>The state of the second pass when the tasks below \<open>i\<close> are done, if \<open>dss ! j\<close>
  are the resolved dependencies of task \<open>j\<close>.\<close>

definition linked :: "nat list list \<Rightarrow> nat \<Rightarrow> links" where
  "linked dss i =
     (map (\<lambda>j. if j < i then dss ! j else []) [0 ..< length dss],
      map (\<lambda>d. filter (\<lambda>j. d \<in> set (dss ! j)) [0 ..< i]) [0 ..< length dss],
      map (\<lambda>j. if j < i then int (length (dss ! j)) else 0) [0 ..< length dss])"

lemma linked_0: "linked dss 0 = (replicate (length dss) [], replicate (length dss) [], replicate (length dss) 0)"
  by (simp add: linked_def map_replicate_const)

lemma linked_all:
  "linked dss (length dss) = (dss, map (successors_of dss) [0 ..< length dss], map (int \<circ> length) dss)"
  by (auto simp: linked_def successors_of_def intro!: nth_equalityI)

lemma link_task_resolved:
  assumes "map (map_of index) keys = map Some ds" and "distinct ds" and "set ds \<inter> set seen = {}"
    and "set ds \<subseteq> {..<length succs}"
  shows "link_task index i keys seen (deps, succs, indegree) =
     Inr (deps[i := deps ! i @ ds],
          map (\<lambda>d. if d \<in> set ds then succs ! d @ [i] else succs ! d) [0 ..< length succs],
          indegree[i := indegree ! i + int (length ds)])"
  using assms
proof (induction keys arbitrary: ds seen deps succs indegree)
  case Nil
  then show ?case by (auto intro!: nth_equalityI)
next
  case (Cons key keys)
  then obtain d ds' where ds: "ds = d # ds'" and key: "map_of index key = Some d"
    by (cases ds) auto
  have "d \<notin> set seen" "d < length succs" using Cons.prems ds by auto
  moreover have "link_task index i keys (d # seen)
      (deps[i := deps ! i @ [d]], succs[d := succs ! d @ [i]], indegree[i := indegree ! i + 1]) =
     Inr ((deps[i := deps ! i @ [d]])[i := deps[i := deps ! i @ [d]] ! i @ ds'],
          map (\<lambda>e. if e \<in> set ds' then succs[d := succs ! d @ [i]] ! e @ [i] else succs[d := succs ! d @ [i]] ! e)
            [0 ..< length (succs[d := succs ! d @ [i]])],
          (indegree[i := indegree ! i + 1])[i := indegree[i := indegree ! i + 1] ! i + int (length ds')])"
    using Cons.prems ds by (intro Cons.IH) auto
  moreover have "deps[i := deps[i := deps ! i @ [d]] ! i @ ds'] = deps[i := deps ! i @ d # ds']"
    by (cases "i < length deps") (auto simp: list_update_beyond)
  moreover have "indegree[i := indegree[i := indegree ! i + 1] ! i + int (length ds')]
      = indegree[i := indegree ! i + (1 + int (length ds'))]"
    by (cases "i < length indegree") (auto simp: list_update_beyond add.assoc)
  moreover have "map (\<lambda>e. if e \<in> set ds' then succs[d := succs ! d @ [i]] ! e @ [i] else succs[d := succs ! d @ [i]] ! e) [0 ..< length succs]
      = map (\<lambda>e. if e \<in> set ds then succs ! e @ [i] else succs ! e) [0 ..< length succs]"
    using Cons.prems(2) ds by (auto simp: nth_update_if)
  ultimately show ?case using key ds by simp
qed

lemma link_task_Inr:
  assumes "link_task index i keys seen links = Inr links'"
  shows "\<exists>ds. map (map_of index) keys = map Some ds \<and> distinct ds \<and> set ds \<inter> set seen = {}"
  using assms
proof (induction index i keys seen links rule: link_task.induct)
  case (2 index i key keys seen deps succs indegree)
  then obtain d where d: "map_of index key = Some d" "d \<notin> set seen"
    by (auto split: option.splits if_splits)
  with 2 obtain ds where "map (map_of index) keys = map Some ds" "distinct ds" "set ds \<inter> set (d # seen) = {}"
    by fastforce
  with d show ?case by (intro exI [of _ "d # ds"]) auto
qed simp

definition resolved :: "(TaskKey \<times> nat) list \<Rightarrow> TaskDefinition list \<Rightarrow> nat list list \<Rightarrow> bool" where
  "resolved index tasks dss \<longleftrightarrow>
     list_all2 (\<lambda>task ds. map (map_of index) (td_DependsOn task) = map Some ds \<and> distinct ds) tasks dss"

lemma link_tasks_Inr:
  "link_tasks index i tasks links = Inr links' \<Longrightarrow> \<exists>dss. resolved index tasks dss"
proof (induction tasks arbitrary: i links)
  case (Cons task tasks)
  then obtain links1 where "link_task index i (td_DependsOn task) [] links = Inr links1"
    and "link_tasks index (Suc i) tasks links1 = Inr links'"
    by (auto simp: bindR_eq_Inr)
  then obtain ds dss where "map (map_of index) (td_DependsOn task) = map Some ds" "distinct ds"
    and "resolved index tasks dss"
    using Cons.IH link_task_Inr by blast
  then have "resolved index (task # tasks) (ds # dss)" by (simp add: resolved_def)
  then show ?case by blast
qed (auto simp: resolved_def)

lemma linked_Suc:
  assumes "i < length dss" and "linked dss i = (deps, succs, indegree)"
  shows "linked dss (Suc i) =
    (deps[i := deps ! i @ dss ! i],
     map (\<lambda>d. if d \<in> set (dss ! i) then succs ! d @ [i] else succs ! d) [0 ..< length succs],
     indegree[i := indegree ! i + int (length (dss ! i))])"
  using assms by (auto simp: linked_def nth_list_update intro!: nth_equalityI)

lemma link_tasks_resolved:
  assumes "resolved index tasks dss" and "\<forall>ds \<in> set dss. set ds \<subseteq> {..<length dss}" and "i \<le> length dss"
  shows "link_tasks index i (drop i tasks) (linked dss i) = Inr (linked dss (length dss))"
  using assms(3)
proof (induction "length dss - i" arbitrary: i)
  case 0
  with assms(1) show ?case by (simp add: resolved_def list_all2_lengthD)
next
  case (Suc k)
  then have i: "i < length dss" by simp
  have len: "length tasks = length dss" using assms(1) by (simp add: resolved_def list_all2_lengthD)
  obtain deps succs indegree where L: "linked dss i = (deps, succs, indegree)" by (cases "linked dss i")
  have "length succs = length dss" using L by (auto simp: linked_def)
  then have "link_task index i (td_DependsOn (tasks ! i)) [] (deps, succs, indegree) = Inr (linked dss (Suc i))"
    using assms(1,2) i linked_Suc [OF i L] by (subst link_task_resolved [of _ _ "dss ! i"])
      (auto simp: resolved_def list_all2_conv_all_nth)
  moreover have "drop i tasks = tasks ! i # drop (Suc i) tasks" using i len by (simp add: Cons_nth_drop_Suc)
  ultimately show ?case using Suc L by simp
qed

section \<open>Kahn's algorithm\<close>

text \<open>
  The invariant of the loop. \<open>P\<close> is the set of tasks already taken from the queue: an
  indegree counts the dependencies outside \<open>P\<close>, the tasks with indegree zero are those
  in \<open>P\<close> or in the queue, and \<open>P\<close> is closed under dependencies.
\<close>

definition open_deps :: "nat list list \<Rightarrow> nat set \<Rightarrow> nat \<Rightarrow> int" where
  "open_deps deps P i = int (length (filter (\<lambda>d. d \<notin> P) (deps ! i)))"

definition kahn_inv :: "nat list list \<Rightarrow> nat set \<Rightarrow> nat list \<Rightarrow> int list \<Rightarrow> bool" where
  "kahn_inv deps P queue indegree \<longleftrightarrow>
     P \<subseteq> {..<length deps} \<and> set queue \<subseteq> {..<length deps} \<and> distinct queue \<and> P \<inter> set queue = {} \<and>
     length indegree = length deps \<and>
     (\<forall>i < length deps. indegree ! i = open_deps deps P i) \<and>
     (\<forall>i < length deps. indegree ! i = 0 \<longleftrightarrow> i \<in> P \<or> i \<in> set queue) \<and>
     (\<forall>i \<in> P. set (deps ! i) \<subseteq> P) \<and>
     (\<exists>rank :: nat \<Rightarrow> nat. \<forall>i \<in> P. \<forall>d \<in> set (deps ! i). rank d < rank i)"

lemma open_deps_insert:
  assumes "distinct (deps ! i)"
  shows "open_deps deps (insert c P) i =
     (if c \<in> set (deps ! i) \<and> c \<notin> P then open_deps deps P i - 1 else open_deps deps P i)"
proof (cases "c \<in> set (deps ! i) \<and> c \<notin> P")
  case True
  with assms have "length (filter (\<lambda>d. d \<notin> P) (deps ! i)) = Suc (length (filter (\<lambda>d. d \<notin> insert c P) (deps ! i)))"
    by (intro length_filter_flip [where a = c]) auto
  with True show ?thesis by (simp add: open_deps_def)
next
  case False
  then have "filter (\<lambda>d. d \<notin> insert c P) (deps ! i) = filter (\<lambda>d. d \<notin> P) (deps ! i)"
    by (intro filter_cong) auto
  with False show ?thesis by (auto simp: open_deps_def)
qed

lemma open_deps_0: "open_deps deps P i = 0 \<longleftrightarrow> set (deps ! i) \<subseteq> P"
  by (auto simp: open_deps_def filter_empty_conv)

lemma relax_result:
  assumes "distinct ns" and "set ns \<subseteq> {..<length xs}"
  shows "relax ns (q, xs) =
     (q @ filter (\<lambda>i. xs ! i = 1) ns, map (\<lambda>i. if i \<in> set ns then xs ! i - 1 else xs ! i) [0 ..< length xs])"
  using assms
proof (induction ns arbitrary: q xs)
  case Nil
  then show ?case by (auto intro!: nth_equalityI)
next
  case (Cons n ns)
  let ?xs = "xs[n := xs ! n - 1]"
  have *: "filter (\<lambda>i. ?xs ! i = 1) ns = filter (\<lambda>i. xs ! i = 1) ns"
    using Cons.prems(1) by (intro filter_cong) (auto simp: nth_update_if)
  have "map (\<lambda>i. if i \<in> set ns then ?xs ! i - 1 else ?xs ! i) [0 ..< length ?xs]
      = map (\<lambda>i. if i \<in> set (n # ns) then xs ! i - 1 else xs ! i) [0 ..< length xs]"
    using Cons.prems by (auto simp: nth_update_if)
  with * Cons.prems Cons.IH [of ?xs] show ?case by (simp add: Let_def)
qed

definition adjacency :: "nat list list \<Rightarrow> bool" where
  "adjacency deps \<longleftrightarrow> (\<forall>ds \<in> set deps. distinct ds \<and> set ds \<subseteq> {..<length deps})"

lemma adjacency_nth:
  assumes "adjacency deps" and "i < length deps"
  shows "distinct (deps ! i)" and "set (deps ! i) \<subseteq> {..<length deps}"
  using assms by (simp_all add: adjacency_def)

lemma kahn_inv_step:
  assumes adj: "adjacency deps" and inv: "kahn_inv deps P (c # queue) indegree"
    and r: "relax (successors_of deps c) (queue, indegree) = (queue', indegree')"
  shows "kahn_inv deps (insert c P) queue' indegree'"
proof -
  let ?n = "length deps" and ?ns = "successors_of deps c"
  have c: "c < ?n" "c \<notin> P" "c \<notin> set queue" and len: "length indegree = ?n"
    and disj: "P \<inter> set queue = {}" and dq: "distinct queue"
    and P: "P \<subseteq> {..<?n}" and Q: "set queue \<subseteq> {..<?n}"
    and ind: "\<And>i. i < ?n \<Longrightarrow> indegree ! i = open_deps deps P i"
    and zero: "\<And>i. i < ?n \<Longrightarrow> indegree ! i = 0 \<longleftrightarrow> i \<in> P \<or> i \<in> set (c # queue)"
    and clos: "\<And>i. i \<in> P \<Longrightarrow> set (deps ! i) \<subseteq> P"
    using inv by (auto simp: kahn_inv_def)
  obtain rank :: "nat \<Rightarrow> nat" where rank: "\<forall>i \<in> P. \<forall>d \<in> set (deps ! i). rank d < rank i"
    using inv by (auto simp: kahn_inv_def)
  have ns: "distinct ?ns" "set ?ns = {i. i < ?n \<and> c \<in> set (deps ! i)}"
    by (auto simp: successors_of_def)
  have Q': "queue' = queue @ filter (\<lambda>i. indegree ! i = 1) ?ns"
    and I': "indegree' = map (\<lambda>i. if i \<in> set ?ns then indegree ! i - 1 else indegree ! i) [0 ..< ?n]"
    using r relax_result [of ?ns indegree queue] ns len by auto
  have ind': "indegree' ! i = open_deps deps (insert c P) i" if "i < ?n" for i
    using that ind [OF that] ns(2) c(2) open_deps_insert [of deps i c P] adjacency_nth(1) [OF adj that]
    by (auto simp: I')
  have zero': "indegree' ! i = 0 \<longleftrightarrow> i \<in> insert c P \<or> i \<in> set queue'" if i: "i < ?n" for i
  proof (cases "c \<in> set (deps ! i)")
    case True
    then have "indegree ! i > 0"
      using ind [OF i] c(2) by (auto simp: open_deps_def) 
        (metis (mono_tags, lifting) filter_empty_conv length_greater_0_conv)
    then have "i \<notin> P \<and> i \<notin> set (c # queue)" using zero [OF i] by auto
    with True i show ?thesis using ns(2) by (auto simp: I' Q')
  next
    case False
    with i zero [OF i] ns(2) show ?thesis by (auto simp: I' Q')
  qed
  have cP: "set (deps ! c) \<subseteq> P"
    using zero [OF c(1)] ind [OF c(1)] open_deps_0 by simp
  let ?rank = "rank(c := Suc (sum_list (map rank (deps ! c))))"
  have "\<forall>i \<in> insert c P. \<forall>d \<in> set (deps ! i). ?rank d < ?rank i"
    using cP c(2) clos rank by (auto simp: less_Suc_eq_le intro: member_le_sum_list)
  then have rank': "\<exists>rank :: nat \<Rightarrow> nat. \<forall>i \<in> insert c P. \<forall>d \<in> set (deps ! i). rank d < rank i"
    by (rule exI [where x = ?rank])
  from cP have clos': "\<forall>i \<in> insert c P. set (deps ! i) \<subseteq> insert c P" using clos by blast
  have fresh: "\<forall>i \<in> set ?ns. indegree ! i = 1 \<longrightarrow> i \<notin> P \<and> i \<noteq> c \<and> i \<notin> set queue"
  proof (intro ballI impI)
    fix i assume "i \<in> set ?ns" and one: "indegree ! i = 1"
    then have "i < ?n" using ns(2) by blast
    with zero [of i] one show "i \<notin> P \<and> i \<noteq> c \<and> i \<notin> set queue" by auto
  qed
  have "set queue' \<subseteq> {..<?n}" "distinct queue'" "insert c P \<inter> set queue' = {}"
    using Q c dq disj ns fresh by (auto simp: Q')
  then show ?thesis
    unfolding kahn_inv_def using P c(1) ind' zero' clos' I' by (intro conjI rank') auto
qed

lemma kahn_result:
  assumes "adjacency deps" and "kahn_inv deps P queue indegree"
    and "succs = map (successors_of deps) [0 ..< length deps]"
  shows "\<exists>P'. kahn_inv deps P' [] (map (open_deps deps P') [0 ..< length deps]) \<and>
     P \<subseteq> P' \<and> kahn succs queue indegree visited + card P = visited + card P'"
  using assms
proof (induction succs queue indegree visited arbitrary: P rule: kahn.induct)
  case (1 succs indegree visited)
  moreover have "indegree = map (open_deps deps P) [0 ..< length deps]"
    using 1 by (auto simp: kahn_inv_def intro!: nth_equalityI)
  ultimately show ?case by (intro exI [of _ P]) auto
next
  case (2 succs c queue indegree visited)
  have c: "c < length deps" "c \<notin> P" and "finite P"
    using 2(3) finite_subset by (fastforce simp: kahn_inv_def)+
  then have s: "succs ! c = successors_of deps c" using 2(4) by simp
  obtain queue' indegree' where r: "relax (succs ! c) (queue, indegree) = (queue', indegree')" by fastforce
  have "kahn_inv deps (insert c P) queue' indegree'"
    using kahn_inv_step [OF 2(2,3)] r s by metis
  with 2(1) [OF r [symmetric] refl 2(2)] 2(4) obtain P' where
    "kahn_inv deps P' [] (map (open_deps deps P') [0 ..< length deps])" "insert c P \<subseteq> P'"
    "kahn succs queue' indegree' (Suc visited) + card (insert c P) = Suc visited + card P'"
    by blast
  with c \<open>finite P\<close> r show ?case by (intro exI [of _ P']) auto
qed

lemma kahn_inv_initial:
  "kahn_inv deps {} (sources (map (int \<circ> length) deps)) (map (int \<circ> length) deps)"
  by (auto simp: kahn_inv_def sources_def open_deps_def)

text \<open>The final set holds every task below which no cycle lies.\<close>

lemma final_contains_ranked:
  assumes adj: "adjacency deps" and "kahn_inv deps P [] indegree" and "\<forall>i < length deps. \<forall>d \<in> set (deps ! i). (d, i) \<in> R" and "wf R"
  shows "i < length deps \<Longrightarrow> i \<in> P"
  using assms(4)
proof (induction i rule: wf_induct_rule)
  case (less i)
  then have "set (deps ! i) \<subseteq> P" using assms(3) adjacency_nth(2) [OF adj, of i] by blast
  then show ?case using assms(2) less.prems open_deps_0 [of deps P i] by (auto simp: kahn_inv_def)
qed

section \<open>The compiler accepts exactly the well-formed definitions\<close>

lemma dependencies_ok_cong:
  assumes "map td_Key tasks = map td_Key tasks'" and "map td_DependsOn tasks = map td_DependsOn tasks'"
  shows "dependencies_ok tasks = dependencies_ok tasks'" and "depends tasks = depends tasks'"
proof -
  have len: "length tasks = length tasks'" using assms(1) by (rule map_eq_imp_length_eq)
  have nth: "td_Key (tasks ! i) = td_Key (tasks' ! i) \<and> td_DependsOn (tasks ! i) = td_DependsOn (tasks' ! i)"
    if "i < length tasks" for i
    using assms len that by (metis nth_map)
  have keys: "td_Key ` set tasks = td_Key ` set tasks'" using assms(1) by (metis set_map)
  show "dependencies_ok tasks = dependencies_ok tasks'"
    unfolding dependencies_ok_def keys using nth len by (simp add: list_all_length)
  show "depends tasks = depends tasks'"
    unfolding depends_def using nth len by (auto simp: in_set_conv_nth) metis+
qed

definition index_of :: "TaskDefinition list \<Rightarrow> (TaskKey \<times> nat) list" where
  "index_of tasks = rev (zip (map td_Key tasks) [0 ..< length tasks])"

abbreviation unique_keys :: "TaskDefinition list \<Rightarrow> bool" where
  "unique_keys tasks \<equiv> distinct (map td_Key tasks)"

lemma index_Some:
  "unique_keys tasks \<Longrightarrow> map_of (index_of tasks) k = Some j \<longleftrightarrow> j < length tasks \<and> td_Key (tasks ! j) = k"
  using map_of_rev_zip [of "map td_Key tasks"] by (auto simp: index_of_def)

lemma unique_keysD:
  "unique_keys tasks \<Longrightarrow> a < length tasks \<Longrightarrow> b < length tasks \<Longrightarrow> td_Key (tasks ! a) = td_Key (tasks ! b) \<Longrightarrow> a = b"
  by (auto simp: distinct_conv_nth)

lemma resolved_nth:
  assumes uniq: "unique_keys tasks" and "resolved (index_of tasks) tasks dss" and "i < length tasks"
  shows "map td_Key (map ((!) tasks) (dss ! i)) = td_DependsOn (tasks ! i)"
    and "set (dss ! i) \<subseteq> {..<length tasks}" and "distinct (dss ! i)"
proof -
  have *: "map (map_of (index_of tasks)) (td_DependsOn (tasks ! i)) = map Some (dss ! i)" and d: "distinct (dss ! i)"
    using assms by (auto simp: resolved_def list_all2_conv_all_nth)
  have len: "length (dss ! i) = length (td_DependsOn (tasks ! i))" using * by (metis length_map)
  have nth: "map_of (index_of tasks) (td_DependsOn (tasks ! i) ! k) = Some (dss ! i ! k)" if "k < length (dss ! i)" for k
    using * that len by (metis nth_map)
  show "map td_Key (map ((!) tasks) (dss ! i)) = td_DependsOn (tasks ! i)"
    using nth len by (auto simp: index_Some [OF uniq] intro: nth_equalityI)
  show "set (dss ! i) \<subseteq> {..<length tasks}"
    using nth by (auto simp: in_set_conv_nth index_Some [OF uniq])
  show "distinct (dss ! i)" by (rule d)
qed

lemma resolved_length: "resolved (index_of tasks) tasks dss \<Longrightarrow> length dss = length tasks"
  by (simp add: resolved_def list_all2_lengthD)

lemma resolved_iff:
  assumes uniq: "unique_keys tasks"
  shows "(\<exists>dss. resolved (index_of tasks) tasks dss) \<longleftrightarrow> dependencies_ok tasks"
proof
  assume "\<exists>dss. resolved (index_of tasks) tasks dss"
  then obtain dss where r: "resolved (index_of tasks) tasks dss" by blast
  have "distinct (td_DependsOn (tasks ! i)) \<and> set (td_DependsOn (tasks ! i)) \<subseteq> td_Key ` set tasks"
    if i: "i < length tasks" for i
  proof -
    have "inj_on (\<lambda>j. td_Key (tasks ! j)) {..<length tasks}"
      using unique_keysD [OF uniq] by (auto simp: inj_on_def)
    then have "distinct (map td_Key (map ((!) tasks) (dss ! i)))"
      using resolved_nth(2,3) [OF uniq r i] by (simp only: map_map distinct_map comp_def) (blast intro: inj_on_subset)
    moreover have "set (map td_Key (map ((!) tasks) (dss ! i))) \<subseteq> td_Key ` set tasks"
      using resolved_nth(2) [OF uniq r i] by auto
    ultimately show ?thesis by (simp only: resolved_nth(1) [OF uniq r i])
  qed
  then show "dependencies_ok tasks" by (simp add: dependencies_ok_def list_all_length)
next
  assume ok: "dependencies_ok tasks"
  let ?f = "\<lambda>key. the (map_of (index_of tasks) key)"
  have f: "map_of (index_of tasks) key = Some (?f key)" if "key \<in> td_Key ` set tasks" for key
    using that index_Some [OF uniq] by (metis in_set_conv_nth imageE option.sel)
  have inj: "inj_on ?f (td_Key ` set tasks)"
    using f index_Some [OF uniq] by (intro inj_onI) (metis option.sel)
  have "map (map_of (index_of tasks)) (td_DependsOn task) = map Some (map ?f (td_DependsOn task)) \<and>
        distinct (map ?f (td_DependsOn task))" if "task \<in> set tasks" for task
    using ok that f inj by (auto simp: dependencies_ok_def list_all_iff distinct_map intro: inj_on_subset)
  then have "resolved (index_of tasks) tasks (map (\<lambda>task. map ?f (td_DependsOn task)) tasks)"
    unfolding resolved_def list_all2_conv_all_nth by (metis length_map nth_map nth_mem)
  then show "\<exists>dss. resolved (index_of tasks) tasks dss" by blast
qed

lemma depends_index:
  assumes uniq: "unique_keys tasks" and "resolved (index_of tasks) tasks dss" and "i < length tasks"
  shows "d \<in> set (dss ! i) \<longleftrightarrow> d < length tasks \<and> (td_Key (tasks ! d), td_Key (tasks ! i)) \<in> depends tasks"
proof -
  note inj = unique_keysD [OF uniq]
  have on: "td_DependsOn (tasks ! i) = map (\<lambda>j. td_Key (tasks ! j)) (dss ! i)"
    using resolved_nth(1) [OF assms] by (simp add: comp_def)
  have r: "set (dss ! i) \<subseteq> {..<length tasks}" by (rule resolved_nth(2) [OF assms])
  have "(td_Key (tasks ! d), td_Key (tasks ! i)) \<in> depends tasks \<longleftrightarrow> td_Key (tasks ! d) \<in> set (td_DependsOn (tasks ! i))"
    using assms(3) inj by (auto simp: depends_def in_set_conv_nth)
  then show ?thesis using on r assms(3) inj by auto
qed

lemma ranked_iff_acyclic:
  assumes uniq: "unique_keys tasks" and "resolved (index_of tasks) tasks dss"
  shows "(\<exists>rank :: nat \<Rightarrow> nat. \<forall>i < length tasks. \<forall>d \<in> set (dss ! i). rank d < rank i) \<Longrightarrow> acyclic (depends tasks)"
    and "acyclic (depends tasks) \<Longrightarrow> wf {(d, i). (td_Key (tasks ! d), td_Key (tasks ! i)) \<in> depends tasks}"
proof -
  assume "\<exists>rank :: nat \<Rightarrow> nat. \<forall>i < length tasks. \<forall>d \<in> set (dss ! i). rank d < rank i"
  then obtain rank :: "nat \<Rightarrow> nat" where rank: "\<forall>i < length tasks. \<forall>d \<in> set (dss ! i). rank d < rank i"
    by blast
  have "depends tasks \<subseteq> measure (\<lambda>k. rank (the (map_of (index_of tasks) k)))"
  proof (clarsimp simp: subset_iff)
    fix a b assume ab: "(a, b) \<in> depends tasks"
    then obtain i where i: "i < length tasks" "b = td_Key (tasks ! i)" "a \<in> set (td_DependsOn (tasks ! i))"
      by (auto simp: depends_def in_set_conv_nth)
    then obtain d where d: "d \<in> set (dss ! i)" "a = td_Key (tasks ! d)" "d < length tasks"
      using resolved_nth(2) [OF assms i(1)] resolved_nth(1) [OF assms i(1), symmetric] by auto
    have "map_of (index_of tasks) a = Some d" "map_of (index_of tasks) b = Some i" using index_Some [OF uniq] d i by auto
    with rank i(1) d(1) show "rank (the (map_of (index_of tasks) a)) < rank (the (map_of (index_of tasks) b))" by simp
  qed
  then show "acyclic (depends tasks)" by (meson wf_acyclic wf_measure wf_subset)
next
  assume "acyclic (depends tasks)"
  moreover have "depends tasks \<subseteq> (\<Union>task \<in> set tasks. set (td_DependsOn task) \<times> {td_Key task})"
    by (auto simp: depends_def)
  then have "finite (depends tasks)" by (rule finite_subset) simp
  ultimately have "wf (inv_image (depends tasks) (\<lambda>i. td_Key (tasks ! i)))"
    by (intro wf_inv_image finite_acyclic_wf)
  then show "wf {(d, i). (td_Key (tasks ! d), td_Key (tasks ! i)) \<in> depends tasks}"
    by (simp add: inv_image_def)
qed

text \<open>The second pass and the cycle check on tasks with unique keys.\<close>

lemma link_and_kahn:
  assumes uniq: "unique_keys tasks" and res: "resolved (index_of tasks) tasks dss"
  shows "link_tasks (index_of tasks) 0 tasks (replicate (length tasks) [], replicate (length tasks) [], replicate (length tasks) 0)
      = Inr (dss, map (successors_of dss) [0 ..< length tasks], map (int \<circ> length) dss)"
    and "kahn (map (successors_of dss) [0 ..< length tasks]) (sources (map (int \<circ> length) dss))
           (map (int \<circ> length) dss) 0 = length tasks \<longleftrightarrow> acyclic (depends tasks)"
    and "acyclic (depends tasks) \<Longrightarrow>
         \<exists>rank :: nat \<Rightarrow> nat. \<forall>i < length tasks. \<forall>d \<in> set (dss ! i). rank d < rank i"
proof -
  let ?n = "length tasks"
  have len: "length dss = ?n" using res by (rule resolved_length)
  have adj: "adjacency dss"
    unfolding adjacency_def
  proof
    fix ds assume "ds \<in> set dss"
    then obtain i where "i < ?n" "ds = dss ! i" using len by (auto simp: in_set_conv_nth)
    with resolved_nth(2,3) [OF uniq res, of i] len show "distinct ds \<and> set ds \<subseteq> {..<length dss}" by simp
  qed
  show "link_tasks (index_of tasks) 0 tasks (replicate ?n [], replicate ?n [], replicate ?n 0)
      = Inr (dss, map (successors_of dss) [0 ..< ?n], map (int \<circ> length) dss)"
    using link_tasks_resolved [OF res, of 0] adj linked_all [of dss]
    unfolding adjacency_def linked_0 len by simp
  obtain P where P: "kahn_inv dss P [] (map (open_deps dss P) [0 ..< length dss])"
    and k: "kahn (map (successors_of dss) [0 ..< ?n]) (sources (map (int \<circ> length) dss))
           (map (int \<circ> length) dss) 0 = card P"
    using kahn_result [OF adj kahn_inv_initial refl, of 0] len by auto
  have sub: "P \<subseteq> {..<?n}" using P len by (simp add: kahn_inv_def)
  have rank: "\<exists>rank :: nat \<Rightarrow> nat. \<forall>i < ?n. \<forall>d \<in> set (dss ! i). rank d < rank i" if "P = {..<?n}"
    using P that by (simp add: kahn_inv_def Ball_def)
  have full: "P = {..<?n}" if "acyclic (depends tasks)"
  proof -
    let ?R = "{(d, i). (td_Key (tasks ! d), td_Key (tasks ! i)) \<in> depends tasks}"
    have "wf ?R" by (rule ranked_iff_acyclic(2) [OF uniq res that])
    moreover have "\<forall>i < length dss. \<forall>d \<in> set (dss ! i). (d, i) \<in> ?R"
      using depends_index [OF uniq res] len by auto
    ultimately have "\<forall>i < length dss. i \<in> P" using final_contains_ranked [OF adj P] by blast
    with sub len show ?thesis by auto
  qed
  have "card P = ?n \<longleftrightarrow> P = {..<?n}"
    using sub card_subset_eq [of "{..<?n}" P] by auto
  then show "kahn (map (successors_of dss) [0 ..< ?n]) (sources (map (int \<circ> length) dss))
           (map (int \<circ> length) dss) 0 = ?n \<longleftrightarrow> acyclic (depends tasks)"
    unfolding k using full rank ranked_iff_acyclic(1) [OF uniq res] by blast
  show "\<exists>rank :: nat \<Rightarrow> nat. \<forall>i < ?n. \<forall>d \<in> set (dss ! i). rank d < rank i" if "acyclic (depends tasks)"
    by (rule rank [OF full [OF that]])
qed

definition second_pass :: "WorkflowDefinition \<Rightarrow> CompiledWorkflow res" where
  "second_pass def =
     (let tasks = wd_Tasks def; index = index_of tasks; n = length tasks in
      bindR (link_tasks index 0 tasks (replicate n [], replicate n [], replicate n 0))
         (\<lambda>(deps, succs, indegree).
       if kahn succs (sources indegree) indegree 0 \<noteq> n
         then Inl (Errorf ''workflow contains a dependency cycle'')
       else Inr \<lparr>cw_definition = def, cw_index = index,
                  cw_dependencies = deps, cw_successors = succs\<rparr>))"

lemma second_pass_Inr:
  assumes uniq: "unique_keys (wd_Tasks def)"
  shows "second_pass def = Inr cw \<longleftrightarrow>
     acyclic (depends (wd_Tasks def)) \<and>
     (\<exists>dss. resolved (index_of (wd_Tasks def)) (wd_Tasks def) dss \<and>
        cw = \<lparr>cw_definition = def, cw_index = index_of (wd_Tasks def), cw_dependencies = dss,
              cw_successors = map (successors_of dss) [0 ..< length (wd_Tasks def)]\<rparr>)"
    (is "?L \<longleftrightarrow> ?R")
proof
  assume L: ?L
  then obtain dss where res: "resolved (index_of (wd_Tasks def)) (wd_Tasks def) dss"
    by (auto simp: second_pass_def Let_def bindR_eq_Inr dest: link_tasks_Inr)
  from L link_and_kahn(1,2) [OF uniq res] res show ?R
    by (auto simp: second_pass_def Let_def split: if_splits)
next
  assume R: ?R
  then obtain dss where res: "resolved (index_of (wd_Tasks def)) (wd_Tasks def) dss"
    and cw: "cw = \<lparr>cw_definition = def, cw_index = index_of (wd_Tasks def), cw_dependencies = dss,
              cw_successors = map (successors_of dss) [0 ..< length (wd_Tasks def)]\<rparr>"
    by blast
  from R cw link_and_kahn(1,2) [OF uniq res] show ?L
    by (auto simp: second_pass_def Let_def)
qed

definition after_clone :: "WorkflowDefinition \<Rightarrow> CompiledWorkflow res" where
  "after_clone def =
    (if wd_ID def = [] then Inl (Errorf ''workflow id is required'')
     else if \<not> identifierPattern (wd_ID def) then Inl (Errorf ''invalid workflow id %q'')
     else if wd_Concurrency def \<le> 0 then Inl (Errorf ''concurrency must be greater than zero'')
     else if wd_Tasks def = [] then Inl (Errorf ''workflow must contain at least one task'')
     else if length (wd_Tasks def) > maxWorkflowTasks
       then Inl (Errorf ''workflow cannot contain more than 10000 tasks'')
     else bindR (check_tasks (wd_Tasks def) 0 []) (\<lambda>(tasks, index). second_pass (def\<lparr>wd_Tasks := tasks\<rparr>)))"

lemma check_tasks_index:
  "check_tasks tasks 0 [] = Inr (tasks', index) \<longleftrightarrow>
     list_all attributes_ok tasks \<and> unique_keys tasks \<and> tasks' = map normalize_task tasks \<and> index = index_of tasks'"
  by (auto simp: check_tasks_iff index_of_def comp_def)

lemma after_clone_Inr:
  "after_clone def = Inr cw \<longleftrightarrow>
     identifierPattern (wd_ID def) \<and> 0 < wd_Concurrency def \<and> wd_Tasks def \<noteq> [] \<and>
     length (wd_Tasks def) \<le> maxWorkflowTasks \<and> list_all attributes_ok (wd_Tasks def) \<and>
     unique_keys (wd_Tasks def) \<and> second_pass (def\<lparr>wd_Tasks := map normalize_task (wd_Tasks def)\<rparr>) = Inr cw"
  by (auto simp: after_clone_def bindR_eq_Inr check_tasks_index identifierPattern_def)

lemma Compile_after_clone:
  "Compile def = bindR (check_inputs (wd_Tasks def)) (\<lambda>_.
     bindR (clone_tasks (wd_Tasks def)) (\<lambda>tasks. after_clone (def\<lparr>wd_Tasks := tasks\<rparr>)))"
  unfolding Compile_def cloneDefinition_def after_clone_def bindR_assoc bindR.simps
  by (intro bindR_cong refl if_cong) (auto simp: check_tasks_index second_pass_def Let_def cong: if_cong)

lemma Compile_stages:
  "Compile def = Inr cw \<longleftrightarrow>
     list_all (\<lambda>task. check_input task = Inr ()) (wd_Tasks def) \<and>
     (\<exists>tasks. list_all2 cloned (wd_Tasks def) tasks \<and> after_clone (def\<lparr>wd_Tasks := tasks\<rparr>) = Inr cw)"
  by (auto simp: Compile_after_clone bindR_eq_Inr check_inputs_iff clone_tasks_iff)

lemma cloned_tasks_same:
  assumes "list_all2 cloned tasks tasks'"
  shows "length tasks' = length tasks" and "map td_Key tasks' = map td_Key tasks"
    and "map td_DependsOn tasks' = map td_DependsOn tasks"
    and "list_all attributes_ok tasks' = list_all attributes_ok tasks"
  using assms
  by (induction rule: list_all2_induct) (auto simp: attributes_ok_def cloned_simps)

lemma normalized_tasks_same:
  shows "map td_Key (map normalize_task tasks) = map td_Key tasks"
    and "map td_DependsOn (map normalize_task tasks) = map td_DependsOn tasks"
  by (simp_all add: comp_def)

lemma compile_accepts_iff: "(\<exists>cw. Compile def = Inr cw) \<longleftrightarrow> definition_ok def"
proof -
  let ?ts = "wd_Tasks def"
  have second: "(\<exists>cw. second_pass (def\<lparr>wd_Tasks := map normalize_task tasks\<rparr>) = Inr cw) \<longleftrightarrow>
      acyclic (depends ?ts) \<and> dependencies_ok ?ts"
    if c: "list_all2 cloned ?ts tasks" and u: "unique_keys ?ts" for tasks
  proof -
    have keys: "map td_Key (map normalize_task tasks) = map td_Key ?ts"
      and on: "map td_DependsOn (map normalize_task tasks) = map td_DependsOn ?ts"
      using cloned_tasks_same(2,3) [OF c] by (simp_all only: normalized_tasks_same)
    then have "unique_keys (map normalize_task tasks)" using u by simp
    from second_pass_Inr [of "def\<lparr>wd_Tasks := map normalize_task tasks\<rparr>"] this
      resolved_iff [OF this] dependencies_ok_cong [OF keys on]
    show ?thesis by auto
  qed
  have "\<exists>tasks. list_all2 cloned ?ts tasks" if "list_all (\<lambda>task. check_input task = Inr ()) ?ts"
    using clone_tasks_returns that by (simp add: check_inputs_iff clone_tasks_iff)
  moreover have "(\<exists>cw. after_clone (def\<lparr>wd_Tasks := tasks\<rparr>) = Inr cw) \<longleftrightarrow>
      identifierPattern (wd_ID def) \<and> 0 < wd_Concurrency def \<and> ?ts \<noteq> [] \<and>
      length ?ts \<le> maxWorkflowTasks \<and> list_all attributes_ok ?ts \<and> unique_keys ?ts \<and>
      acyclic (depends ?ts) \<and> dependencies_ok ?ts"
    if c: "list_all2 cloned ?ts tasks" for tasks
    using second [OF c] cloned_tasks_same [OF c] by (auto simp: after_clone_Inr)
  ultimately show ?thesis
    unfolding Compile_stages definition_ok_def by blast
qed

lemma compiled_wf:
  assumes "Compile def = Inr cw"
  shows "wf_compiled cw"
proof -
  obtain tasks0 where c: "list_all2 cloned (wd_Tasks def) tasks0"
    and a: "after_clone (def\<lparr>wd_Tasks := tasks0\<rparr>) = Inr cw"
    using assms by (auto simp: Compile_stages)
  let ?tasks = "map normalize_task tasks0" and ?def = "def\<lparr>wd_Tasks := map normalize_task tasks0\<rparr>"
  have attr: "list_all attributes_ok tasks0" and uniq: "unique_keys ?tasks" and ne: "?tasks \<noteq> []"
    and conc: "0 < wd_Concurrency def" and s: "second_pass ?def = Inr cw"
    using a by (auto simp: after_clone_Inr comp_def)
  then obtain dss where acy: "acyclic (depends ?tasks)" and res: "resolved (index_of ?tasks) ?tasks dss"
    and cw: "cw = \<lparr>cw_definition = ?def, cw_index = index_of ?tasks, cw_dependencies = dss,
              cw_successors = map (successors_of dss) [0 ..< length ?tasks]\<rparr>"
    using second_pass_Inr [of ?def cw] by auto
  have "distinct ds \<and> set ds \<subseteq> {..<length ?tasks}" if "ds \<in> set dss" for ds
    using that resolved_nth(2,3) [OF uniq res] resolved_length [OF res] by (metis in_set_conv_nth)
  moreover have "1 \<le> rp_MaxAttempts (td_Retry task) \<and> 0 \<le> rp_IntervalMillis (td_Retry task) \<and>
      0 < td_TimeoutMillis task" if "task \<in> set ?tasks" for task
    using attr that by (auto simp: list_all_iff attributes_ok_def normalize_task_def)
  moreover have "\<exists>input. cloneTaskInput (td_Input task) = Inr input" if t: "task \<in> set ?tasks" for task
  proof -
    obtain task0 where "task0 \<in> set tasks0" "task = normalize_task task0" using t by auto
    moreover obtain task1 where "cloned task1 task0"
      using c \<open>task0 \<in> set tasks0\<close> by (auto simp: list_all2_conv_all_nth in_set_conv_nth)
    ultimately show ?thesis using cloned_self by (fastforce simp: cloned_def)
  qed
  ultimately show ?thesis
    using ne conc uniq link_and_kahn(3) [OF uniq res acy] resolved_length [OF res]
    unfolding wf_compiled_def Let_def cw by simp
qed

text \<open>
  Compiling the definition inside a compiled workflow gives that workflow again: recovery
  and the database recompile stored definitions.
\<close>

lemma compile_idempotent:
  assumes "Compile def = Inr cw"
  shows "Compile (cw_definition cw) = Inr cw"
proof -
  obtain tasks0 where inp: "list_all (\<lambda>task. check_input task = Inr ()) (wd_Tasks def)"
    and c: "list_all2 cloned (wd_Tasks def) tasks0" and a: "after_clone (def\<lparr>wd_Tasks := tasks0\<rparr>) = Inr cw"
    using assms by (auto simp: Compile_stages)
  let ?tasks = "map normalize_task tasks0" and ?def = "def\<lparr>wd_Tasks := map normalize_task tasks0\<rparr>"
  have s: "second_pass ?def = Inr cw" and u: "unique_keys ?tasks"
    using a by (auto simp: after_clone_Inr comp_def)
  then have d: "cw_definition cw = ?def"
    using second_pass_Inr [of ?def cw] by auto
  have norm: "cloned task task' \<Longrightarrow> cloned (normalize_task task') (normalize_task task')" for task task'
    using cloned_self by (fastforce simp: cloned_def normalize_task_def)
  have cl: "list_all2 cloned ?tasks ?tasks"
    using c norm by (auto simp: list_all2_conv_all_nth)
  have "check_input (normalize_task task) = check_input task" for task
    by (simp only: check_input_def normalize_task_simps)
  then have ci: "list_all (\<lambda>task. check_input task = Inr ()) ?tasks"
    using c inp cloned_check_input by (auto simp: list_all_length list_all2_conv_all_nth)
  have "map normalize_task ?tasks = ?tasks" by simp
  moreover have "attributes_ok task \<Longrightarrow> attributes_ok (normalize_task task)" for task
    by (auto simp: attributes_ok_def normalize_task_def)
  then have "list_all attributes_ok ?tasks"
    using a by (auto simp: after_clone_Inr list_all_iff)
  ultimately have "after_clone ?def = Inr cw"
    using a s u by (simp add: after_clone_Inr comp_def)
  with cl ci show ?thesis
    unfolding d Compile_stages by auto
qed

text \<open>The adjacency lists are the dependencies of the definition, task by task.\<close>

lemma compiled_links:
  assumes "Compile def = Inr cw"
  shows "length (wd_Tasks (cw_definition cw)) = length (wd_Tasks def)"
    and "map td_Key (wd_Tasks (cw_definition cw)) = map td_Key (wd_Tasks def)"
    and "\<And>i. i < length (wd_Tasks def) \<Longrightarrow>
      map (\<lambda>d. td_Key (wd_Tasks def ! d)) (cw_dependencies cw ! i) = td_DependsOn (wd_Tasks def ! i)"
proof -
  obtain tasks0 where c: "list_all2 cloned (wd_Tasks def) tasks0"
    and a: "after_clone (def\<lparr>wd_Tasks := tasks0\<rparr>) = Inr cw"
    using assms by (auto simp: Compile_stages)
  let ?tasks = "map normalize_task tasks0" and ?def = "def\<lparr>wd_Tasks := map normalize_task tasks0\<rparr>"
  have uniq: "unique_keys ?tasks" and s: "second_pass ?def = Inr cw"
    using a by (auto simp: after_clone_Inr comp_def)
  then obtain dss where res: "resolved (index_of ?tasks) ?tasks dss"
    and cw: "cw_definition cw = ?def" "cw_dependencies cw = dss"
    using second_pass_Inr [of ?def cw] by auto
  have len: "length tasks0 = length (wd_Tasks def)" using list_all2_lengthD [OF c] by simp
  have keys: "td_Key (?tasks ! k) = td_Key (wd_Tasks def ! k)" "td_DependsOn (?tasks ! k) = td_DependsOn (wd_Tasks def ! k)"
    if "k < length (wd_Tasks def)" for k
    using that cloned_simps(1,4) [OF list_all2_nthD [OF c that]] len by simp_all
  show l: "length (wd_Tasks (cw_definition cw)) = length (wd_Tasks def)" using cw len by simp
  show "map td_Key (wd_Tasks (cw_definition cw)) = map td_Key (wd_Tasks def)"
    using keys(1) l cw by (intro nth_equalityI) auto
  show "map (\<lambda>d. td_Key (wd_Tasks def ! d)) (cw_dependencies cw ! i) = td_DependsOn (wd_Tasks def ! i)"
    if i: "i < length (wd_Tasks def)" for i
  proof -
    have "td_DependsOn (?tasks ! i) = map (\<lambda>d. td_Key (?tasks ! d)) (dss ! i)" and "set (dss ! i) \<subseteq> {..<length ?tasks}"
      using resolved_nth [OF uniq res, of i] i len by (simp_all add: comp_def)
    then show ?thesis using keys [OF i] keys(1) len by (auto simp: cw(2) subset_iff intro!: map_cong)
  qed
qed

end
