(* ===== verification/Distributed_State.thy ===== *)
theory Distributed_State
  imports Workflow_State Compiler
begin

text \<open>
  Run creation (\<^verbatim>\<open>workflow/run.go\<close>) and the operations on a run snapshot of
  \<^verbatim>\<open>workflow/distributed_state.go\<close>: queueing, starting, settling and cancelling
  attempts, the retry decision, the propagation of a failure to all descendants and the
  settlement of the workflow. A nil snapshot or compiled workflow does not occur here: both
  are values. A task index is an \<open>int\<close>, checked where the source checks it.
\<close>

section \<open>New runs\<close>

definition currentSnapshotVersion :: int where
  "currentSnapshotVersion = 1"

definition new_task :: "CompiledWorkflow \<Rightarrow> nat \<Rightarrow> TaskRun" where
  "new_task cw i =
     \<lparr>tr_Key = td_Key (wd_Tasks (cw_definition cw) ! i),
      tr_Status = (if int (length (cw_dependencies cw ! i)) = 0 then TaskReady else TaskWaitingDependencies),
      tr_Attempts = [], tr_ReadyAt = None, tr_FinishedAt = None\<rparr>"

definition newRunSnapshot :: "RunID \<Rightarrow> CompiledWorkflow \<Rightarrow> time \<Rightarrow> RunSnapshot" where
  "newRunSnapshot runID cw now =
     (let n = length (wd_Tasks (cw_definition cw)) in
      \<lparr>rs_Version = currentSnapshotVersion,
       rs_Definition = Some (cw_definition cw),
       rs_Run = \<lparr>wr_ID = runID, wr_DefinitionID = wd_ID (cw_definition cw), wr_DefinitionVersion = 0,
                 wr_Status = WorkflowPending, wr_Revision = 0, wr_LastEventSequence = 0,
                 wr_CancelRequestedAt = None,
                 wr_Tasks = map (new_task cw) [0 ..< n],
                 wr_RemainingDependencies = map (\<lambda>i. int (length (cw_dependencies cw ! i))) [0 ..< n],
                 wr_CreatedAt = now, wr_StartedAt = None, wr_FinishedAt = None\<rparr>,
       rs_Events = []\<rparr>)"

definition NewRunSnapshotForVersion ::
  "RunID \<Rightarrow> CompiledWorkflow option \<Rightarrow> int \<Rightarrow> time \<Rightarrow> RunSnapshot res" where
  "NewRunSnapshotForVersion runID compiled version now =
     (if runID = '''' then Inl (Errorf ''run ID is required'')
      else case compiled of
        None \<Rightarrow> Inl (Errorf ''compiled workflow is required'')
      | Some cw \<Rightarrow>
          if version \<le> 0 then Inl (Errorf ''definition version must be positive'')
          else Inr (upd_run (\<lambda>r. r\<lparr>wr_DefinitionVersion := version\<rparr>) (newRunSnapshot runID cw now)))"

section \<open>Queueing\<close>

definition out_of_range :: "RunSnapshot \<Rightarrow> int \<Rightarrow> bool" where
  "out_of_range s i \<longleftrightarrow> i < 0 \<or> int (length (run_tasks s)) \<le> i"

definition QueueTask :: "RunSnapshot \<Rightarrow> int \<Rightarrow> time \<Rightarrow> RunSnapshot res" where
  "QueueTask s taskIndex at =
     (if out_of_range s taskIndex then Inl (Errorf ''task index %d is out of range'')
      else
        bindR (if run_status s = WorkflowPending
               then transitionWorkflow s WorkflowRunning at ''distributed execution started'' else Inr s)
        (\<lambda>s. if run_status s \<noteq> WorkflowRunning
             then Inl (Errorf ''workflow must be running before queueing a task'')
             else transitionTask s (nat taskIndex) TaskQueued at ''dispatch created''))"

definition ReturnQueuedTaskToReady :: "RunSnapshot \<Rightarrow> int \<Rightarrow> time \<Rightarrow> string \<Rightarrow> RunSnapshot res" where
  "ReturnQueuedTaskToReady s taskIndex at reason =
     (if out_of_range s taskIndex then Inl (Errorf ''task index %d is out of range'')
      else transitionTask s (nat taskIndex) TaskReady at reason)"

section \<open>Starting an attempt\<close>

definition execution_request :: "RunSnapshot \<Rightarrow> TaskDefinition \<Rightarrow> int \<Rightarrow> ExecutionRequest res" where
  "execution_request s definition number =
     bindR (cloneTaskInput (td_Input definition)) (\<lambda>input. Inr
       \<lparr>eq_DefinitionID = wr_DefinitionID (rs_Run s), eq_RunID = wr_ID (rs_Run s),
        eq_TaskKey = td_Key definition, eq_Action = td_Action definition,
        eq_Input = input, eq_Attempt = number\<rparr>)"

definition push_attempt :: "nat \<Rightarrow> Attempt \<Rightarrow> RunSnapshot \<Rightarrow> RunSnapshot" where
  "push_attempt i a s = upd_task i (\<lambda>t. t\<lparr>tr_Attempts := tr_Attempts t @ [a]\<rparr>) s"

definition StartQueuedAttempt ::
  "RunSnapshot \<Rightarrow> CompiledWorkflow \<Rightarrow> int \<Rightarrow> time \<Rightarrow> string \<Rightarrow> string \<Rightarrow> (RunSnapshot \<times> ExecutionRequest) res" where
  "StartQueuedAttempt s cw taskIndex at workerID dispatchID =
     (let defs = wd_Tasks (cw_definition cw); i = nat taskIndex in
      if out_of_range s taskIndex \<or> int (length defs) \<le> taskIndex
        then Inl (Errorf ''task index %d is out of range'')
      else if workerID = '''' \<or> dispatchID = ''''
        then Inl (Errorf ''worker and dispatch IDs are required'')
      else if tr_Key (run_tasks s ! i) \<noteq> td_Key (defs ! i)
        then Inl (Errorf ''task identity does not match compiled workflow'')
      else
        bindR (transitionTask s i TaskRunning at ''lease claimed'') (\<lambda>s.
        let number = int (length (tr_Attempts (run_tasks s ! i))) + 1;
            attempt = \<lparr>at_Number = number, at_Status = AttemptRunning, at_WorkerID = workerID,
                       at_DispatchID = dispatchID, at_StartedAt = at, at_FinishedAt = None,
                       at_Result = zero_result\<rparr>;
            s = push_attempt i attempt s
        in bindR (execution_request s (defs ! i) number) (\<lambda>req. Inr (s, req))))"

section \<open>Failure propagation and settlement\<close>

text \<open>
  The breadth-first walk of \<^verbatim>\<open>skipDescendantsFrom\<close>. Every task is marked visited
  at most once, and a queue entry that is already visited is dropped, so the pair of
  unvisited tasks and queue length decreases.
\<close>

function skip_walk ::
  "CompiledWorkflow \<Rightarrow> time \<Rightarrow> nat list \<Rightarrow> bool list \<Rightarrow> RunSnapshot \<Rightarrow> RunSnapshot res" where
  "skip_walk cw at [] visited s = Inr s"
| "skip_walk cw at (current # queue) visited s =
     (if length visited \<le> current then Inl (GoPanic ''index out of range'')
      else if visited ! current then skip_walk cw at queue visited s
      else
        bindR (if isTaskTerminal (status_of s current) then Inr s
               else transitionTask s current TaskSkipped at ''upstream task failed'')
        (\<lambda>s. if length (cw_successors cw) \<le> current then Inl (GoPanic ''index out of range'')
             else skip_walk cw at (queue @ cw_successors cw ! current) (visited[current := True]) s))"
  by pat_completeness auto
termination
proof (relation "measures [\<lambda>(cw, at, queue, visited, s). length (filter Not visited),
                           \<lambda>(cw, at, queue, visited, s). length queue]")
  fix cw at current queue visited and s x :: RunSnapshot
  assume "\<not> length visited \<le> current" and "\<not> visited ! current"
  then have "length (filter Not (visited[current := True])) < length (filter Not visited)"
    using length_filter_update [of current visited Not True] by simp
  then show "((cw, at, queue @ cw_successors cw ! current, visited[current := True], x),
      cw, at, current # queue, visited, s)
    \<in> measures [\<lambda>(cw, at, queue, visited, s). length (filter Not visited),
                \<lambda>(cw, at, queue, visited, s). length queue]"
    by simp
qed auto

definition skipDescendantsFrom ::
  "RunSnapshot \<Rightarrow> CompiledWorkflow \<Rightarrow> nat list \<Rightarrow> time \<Rightarrow> RunSnapshot res" where
  "skipDescendantsFrom s cw failedTasks at =
     (if list_ex (\<lambda>i. length (cw_successors cw) \<le> i) failedTasks then Inl (GoPanic ''index out of range'')
      else skip_walk cw at (concat (map ((!) (cw_successors cw)) failedTasks))
             (replicate (length (run_tasks s)) False) s)"

definition skipDescendants :: "RunSnapshot \<Rightarrow> CompiledWorkflow \<Rightarrow> nat \<Rightarrow> time \<Rightarrow> RunSnapshot res" where
  "skipDescendants s cw failedTask at = skipDescendantsFrom s cw [failedTask] at"

definition hasFailedTask :: "TaskRun list \<Rightarrow> bool" where
  "hasFailedTask tasks = list_ex (\<lambda>t. tr_Status t = TaskFailed) tasks"

definition allTasksSucceeded :: "TaskRun list \<Rightarrow> bool" where
  "allTasksSucceeded tasks = list_all (\<lambda>t. tr_Status t = TaskSucceeded) tasks"

definition settleWorkflowIfComplete :: "RunSnapshot \<Rightarrow> time \<Rightarrow> RunSnapshot res" where
  "settleWorkflowIfComplete s at =
     (if list_ex (\<lambda>t. \<not> isTaskTerminal (tr_Status t)) (run_tasks s) then Inr s
      else if hasFailedTask (run_tasks s) then transitionWorkflow s WorkflowFailed at ''one or more tasks failed''
      else if \<not> allTasksSucceeded (run_tasks s)
        then Inl (Errorf ''workflow %q reached mixed terminal tasks without failure'')
      else transitionWorkflow s WorkflowSucceeded at ''all tasks succeeded'')"

section \<open>Settling an attempt\<close>

text \<open>
  \<^verbatim>\<open>activeAttempt\<close> returns pointers to the task and to its last attempt; here it
  returns their positions, \<open>None\<close> when the attempt is not the active one.
\<close>

definition activeAttempt :: "RunSnapshot \<Rightarrow> int \<Rightarrow> int \<Rightarrow> (nat \<times> nat) option res" where
  "activeAttempt s taskIndex attemptNumber =
     (if out_of_range s taskIndex then Inl (Errorf ''task index %d is out of range'')
      else
        let i = nat taskIndex; task = run_tasks s ! i; j = length (tr_Attempts task) - 1 in
        if tr_Status task \<noteq> TaskRunning \<or> tr_Attempts task = [] then Inr None
        else if at_Number (tr_Attempts task ! j) \<noteq> attemptNumber \<or>
                at_Status (tr_Attempts task ! j) \<noteq> AttemptRunning then Inr None
        else Inr (Some (i, j)))"

definition applyRetryDecision ::
  "RunSnapshot \<Rightarrow> CompiledWorkflow \<Rightarrow> nat \<Rightarrow> nat \<Rightarrow> time \<Rightarrow> string \<Rightarrow> RunSnapshot res" where
  "applyRetryDecision s cw i j at reason =
     (if length (wd_Tasks (cw_definition cw)) \<le> i then Inl (GoPanic ''index out of range'')
      else
        let retry = td_Retry (wd_Tasks (cw_definition cw) ! i) in
        if at_Number (tr_Attempts (run_tasks s ! i) ! j) < rp_MaxAttempts retry then
          bindR (transitionTask s i TaskWaitingRetry at reason) (\<lambda>s.
          Inr (upd_task i (\<lambda>t. t\<lparr>tr_ReadyAt := Some (at + millis (rp_IntervalMillis retry))\<rparr>) s))
        else
          bindR (transitionTask s i TaskFailed at ''retry attempts exhausted'') (\<lambda>s.
          bindR (skipDescendants s cw i at) (\<lambda>s.
          settleWorkflowIfComplete s at)))"

text \<open>The loop over the successors of a task that succeeded.\<close>

definition release_successor :: "time \<Rightarrow> nat \<Rightarrow> RunSnapshot \<Rightarrow> RunSnapshot res" where
  "release_successor at k s =
     (if length (run_remaining s) \<le> k then Inl (GoPanic ''index out of range'')
      else
        let s = upd_run (\<lambda>r. r\<lparr>wr_RemainingDependencies :=
                  (wr_RemainingDependencies r)[k := wr_RemainingDependencies r ! k - 1]\<rparr>) s
        in if run_remaining s ! k < 0 then Inl (Errorf ''task %q dependency count became negative'')
           else if run_remaining s ! k = 0 then transitionTask s k TaskReady at ''dependencies succeeded''
           else Inr s)"

definition set_result :: "nat \<Rightarrow> nat \<Rightarrow> ExecutionResult \<Rightarrow> RunSnapshot \<Rightarrow> RunSnapshot" where
  "set_result i j res s = upd_attempt i j (\<lambda>a. a\<lparr>at_Result := res\<rparr>) s"

text \<open>The boolean result says whether the operation applied; the snapshot comes with it.\<close>

definition ApplyAttemptResult ::
  "RunSnapshot \<Rightarrow> CompiledWorkflow \<Rightarrow> int \<Rightarrow> int \<Rightarrow> ExecutionResponse \<Rightarrow> time \<Rightarrow> (bool \<times> RunSnapshot) res" where
  "ApplyAttemptResult s cw taskIndex attemptNumber response at =
     bindR (activeAttempt s taskIndex attemptNumber) (\<lambda>active.
     case active of
       None \<Rightarrow> Inr (False, s)
     | Some (i, j) \<Rightarrow>
         let kind = ep_Kind response; key = tr_Key (run_tasks s ! i) in
         if kind \<noteq> ResultSuccess \<and> kind \<noteq> ResultTemporaryFailure \<and> kind \<noteq> ResultPermanentFailure
           then Inl (Errorf ''unsupported execution result %q'')
         else
           let s = set_result i j \<lparr>er_Output = ep_Output response, er_ErrorCode = ep_ErrorCode response,
                                   er_ErrorMessage = ep_ErrorMessage response\<rparr> s in
           if kind = ResultTemporaryFailure then
             bindR (transitionAttempt s key i j AttemptFailed at ''temporary execution failure'') (\<lambda>s.
             bindR (applyRetryDecision s cw i j at ''temporary execution failure'') (\<lambda>s. Inr (True, s)))
           else if kind = ResultPermanentFailure then
             bindR (transitionAttempt s key i j AttemptFailed at ''permanent execution failure'') (\<lambda>s.
             bindR (transitionTask s i TaskFailed at ''permanent execution failure'') (\<lambda>s.
             bindR (skipDescendants s cw i at) (\<lambda>s.
             bindR (settleWorkflowIfComplete s at) (\<lambda>s. Inr (True, s)))))
           else
             bindR (transitionAttempt s key i j AttemptSucceeded at ''execution succeeded'') (\<lambda>s.
             bindR (transitionTask s i TaskSucceeded at ''execution succeeded'') (\<lambda>s.
             if length (cw_successors cw) \<le> i then Inl (GoPanic ''index out of range'') else
             bindR (foldR (release_successor at) (cw_successors cw ! i) s) (\<lambda>s.
             bindR (settleWorkflowIfComplete s at) (\<lambda>s. Inr (True, s))))))"

definition lose_attempt ::
  "RunSnapshot \<Rightarrow> CompiledWorkflow \<Rightarrow> int \<Rightarrow> int \<Rightarrow> time \<Rightarrow> ExecutionResult \<Rightarrow> AttemptStatus \<Rightarrow> string \<Rightarrow>
   (bool \<times> RunSnapshot) res" where
  "lose_attempt s cw taskIndex attemptNumber at res status reason =
     bindR (activeAttempt s taskIndex attemptNumber) (\<lambda>active.
     case active of
       None \<Rightarrow> Inr (False, s)
     | Some (i, j) \<Rightarrow>
         let key = tr_Key (run_tasks s ! i); s = set_result i j res s in
         bindR (transitionAttempt s key i j status at reason) (\<lambda>s.
         bindR (applyRetryDecision s cw i j at reason) (\<lambda>s. Inr (True, s))))"

definition InterruptAttempt ::
  "RunSnapshot \<Rightarrow> CompiledWorkflow \<Rightarrow> int \<Rightarrow> int \<Rightarrow> time \<Rightarrow> string \<Rightarrow> (bool \<times> RunSnapshot) res" where
  "InterruptAttempt s cw taskIndex attemptNumber at reason =
     lose_attempt s cw taskIndex attemptNumber at
       \<lparr>er_Output = '''', er_ErrorCode = ''interrupted'', er_ErrorMessage = reason\<rparr> AttemptInterrupted reason"

definition TimeoutAttempt ::
  "RunSnapshot \<Rightarrow> CompiledWorkflow \<Rightarrow> int \<Rightarrow> int \<Rightarrow> time \<Rightarrow> (bool \<times> RunSnapshot) res" where
  "TimeoutAttempt s cw taskIndex attemptNumber at =
     lose_attempt s cw taskIndex attemptNumber at
       \<lparr>er_Output = '''', er_ErrorCode = ''timeout'', er_ErrorMessage = ''execution timed out''\<rparr>
       AttemptTimedOut ''execution timed out''"

definition MakeRetryReady :: "RunSnapshot \<Rightarrow> int \<Rightarrow> int \<Rightarrow> time \<Rightarrow> (bool \<times> RunSnapshot) res" where
  "MakeRetryReady s taskIndex attemptNumber at =
     (if out_of_range s taskIndex then Inl (Errorf ''invalid retry task index %d'')
      else
        let i = nat taskIndex; task = run_tasks s ! i in
        case tr_ReadyAt task of
          None \<Rightarrow> Inr (False, s)
        | Some readyAt \<Rightarrow>
            if tr_Status task \<noteq> TaskWaitingRetry \<or> tr_Attempts task = [] then Inr (False, s)
            else if at_Number (last (tr_Attempts task)) \<noteq> attemptNumber \<or> at < readyAt then Inr (False, s)
            else bindR (transitionTask s i TaskReady at ''retry interval elapsed'') (\<lambda>s. Inr (True, s)))"

section \<open>Cancellation\<close>

definition cancel_task :: "time \<Rightarrow> nat \<Rightarrow> RunSnapshot \<Rightarrow> RunSnapshot res" where
  "cancel_task at i s =
     (let task = run_tasks s ! i; j = length (tr_Attempts task) - 1 in
      if isTaskTerminal (tr_Status task) then Inr s
      else
        bindR (if tr_Status task = TaskRunning \<and> tr_Attempts task \<noteq> [] \<and>
                  at_Status (tr_Attempts task ! j) = AttemptRunning
               then transitionAttempt
                      (set_result i j \<lparr>er_Output = '''', er_ErrorCode = ''canceled'',
                                       er_ErrorMessage = ''execution canceled''\<rparr> s)
                      (tr_Key task) i j AttemptCanceled at ''workflow canceled''
               else Inr s)
        (\<lambda>s. transitionTask s i TaskCanceled at ''workflow canceled''))"

definition CancelRunSnapshot :: "RunSnapshot \<Rightarrow> time \<Rightarrow> RunSnapshot res" where
  "CancelRunSnapshot s at =
     bindR (foldR (cancel_task at) [0 ..< length (run_tasks s)] s) (\<lambda>s.
     transitionWorkflow s WorkflowCanceled at ''cancellation requested'')"

end
