(* ===== verification/Run_Effects.thy ===== *)
theory Run_Effects
  imports Distributed_State
begin

text \<open>
  What the operations do to a snapshot, field by field: one lemma per primitive step says
  when it succeeds and which task changes, and \<open>evolves\<close> collects what every operation
  keeps (identity, definition, revision, the event log as a prefix with consecutive
  sequence numbers).
\<close>

section \<open>Pointer writes\<close>

lemma upd_run_simps [simp]:
  "rs_Run (upd_run f s) = f (rs_Run s)" "rs_Events (upd_run f s) = rs_Events s"
  "rs_Version (upd_run f s) = rs_Version s" "rs_Definition (upd_run f s) = rs_Definition s"
  by (simp_all add: upd_run_def)

lemma upd_task_simps [simp]:
  "run_tasks (upd_task i f s) = (run_tasks s)[i := f (run_tasks s ! i)]"
  "run_remaining (upd_task i f s) = run_remaining s"
  "run_status (upd_task i f s) = run_status s"
  "rs_Events (upd_task i f s) = rs_Events s"
  "wr_LastEventSequence (rs_Run (upd_task i f s)) = wr_LastEventSequence (rs_Run s)"
  by (simp_all add: upd_task_def)

lemma upd_attempt_simps [simp]:
  "run_tasks (upd_attempt i j f s) = (run_tasks s)[i := (run_tasks s ! i)
     \<lparr>tr_Attempts := (tr_Attempts (run_tasks s ! i))[j := f (tr_Attempts (run_tasks s ! i) ! j)]\<rparr>]"
  "run_remaining (upd_attempt i j f s) = run_remaining s"
  "run_status (upd_attempt i j f s) = run_status s"
  by (simp_all add: upd_attempt_def)

section \<open>What every operation keeps\<close>

definition log_ok :: "RunSnapshot \<Rightarrow> bool" where
  "log_ok s \<longleftrightarrow>
     (\<forall>k < length (rs_Events s). se_Sequence (rs_Events s ! k) = of_nat (Suc k)) \<and>
     wr_LastEventSequence (rs_Run s) = of_nat (length (rs_Events s))"

definition same_frame :: "RunSnapshot \<Rightarrow> RunSnapshot \<Rightarrow> bool" where
  "same_frame s s' \<longleftrightarrow>
     rs_Version s' = rs_Version s \<and> rs_Definition s' = rs_Definition s \<and>
     wr_ID (rs_Run s') = wr_ID (rs_Run s) \<and>
     wr_DefinitionID (rs_Run s') = wr_DefinitionID (rs_Run s) \<and>
     wr_DefinitionVersion (rs_Run s') = wr_DefinitionVersion (rs_Run s) \<and>
     wr_Revision (rs_Run s') = wr_Revision (rs_Run s) \<and>
     wr_CancelRequestedAt (rs_Run s') = wr_CancelRequestedAt (rs_Run s) \<and>
     wr_CreatedAt (rs_Run s') = wr_CreatedAt (rs_Run s) \<and>
     map tr_Key (run_tasks s') = map tr_Key (run_tasks s) \<and>
     length (run_remaining s') = length (run_remaining s)"

definition evolves :: "RunSnapshot \<Rightarrow> RunSnapshot \<Rightarrow> bool" where
  "evolves s s' \<longleftrightarrow> same_frame s s' \<and> prefix (rs_Events s) (rs_Events s') \<and> (log_ok s \<longrightarrow> log_ok s')"

lemma evolves_refl [simp, intro]: "evolves s s"
  by (simp add: evolves_def same_frame_def)

lemma evolves_trans [trans]: "evolves s t \<Longrightarrow> evolves t u \<Longrightarrow> evolves s u"
  unfolding evolves_def same_frame_def by (metis prefix_order.trans)

lemma evolves_length:
  "evolves s s' \<Longrightarrow> length (run_tasks s') = length (run_tasks s)"
  unfolding evolves_def same_frame_def by (metis length_map)

lemma log_ok_last: "log_ok s \<Longrightarrow> snapshotLastEventSequence s = of_nat (length (rs_Events s))"
proof -
  assume log: "log_ok s"
  have "se_Sequence (last (rs_Events s)) = of_nat (length (rs_Events s))" if ne: "rs_Events s \<noteq> []"
  proof -
    have "length (rs_Events s) - 1 < length (rs_Events s)" and "Suc (length (rs_Events s) - 1) = length (rs_Events s)"
      using ne by simp_all
    with log ne show ?thesis by (metis log_ok_def last_conv_nth)
  qed
  with log show ?thesis by (auto simp: log_ok_def snapshotLastEventSequence_def Let_def)
qed

lemma evolves_appendEvent: "evolves s (appendEvent s at entity key from to reason)"
proof -
  have "log_ok (appendEvent s at entity key from to reason)" if "log_ok s"
    using that log_ok_last [OF that]
    by (auto simp: log_ok_def appendEvent_def Let_def nth_append less_Suc_eq add.commute)
  then show ?thesis by (auto simp: evolves_def same_frame_def appendEvent_def Let_def)
qed

lemma appendEvent_simps [simp]:
  "run_tasks (appendEvent s at entity key from to reason) = run_tasks s"
  "run_remaining (appendEvent s at entity key from to reason) = run_remaining s"
  "run_status (appendEvent s at entity key from to reason) = run_status s"
  "wr_StartedAt (rs_Run (appendEvent s at entity key from to reason)) = wr_StartedAt (rs_Run s)"
  "wr_FinishedAt (rs_Run (appendEvent s at entity key from to reason)) = wr_FinishedAt (rs_Run s)"
  by (simp_all add: appendEvent_def Let_def)

lemma evolves_upd_task: "(\<And>t. tr_Key (f t) = tr_Key t) \<Longrightarrow> evolves s (upd_task i f s)"
proof -
  assume key: "\<And>t. tr_Key (f t) = tr_Key t"
  have "map tr_Key ((run_tasks s)[i := f (run_tasks s ! i)]) = map tr_Key (run_tasks s)"
    using key by (metis list_update_id map_update)
  then show ?thesis by (auto simp: evolves_def same_frame_def log_ok_def upd_task_def)
qed

lemma evolves_upd_attempt: "evolves s (upd_attempt i j f s)"
  unfolding upd_attempt_def by (rule evolves_upd_task) simp

lemma evolves_upd_status:
  "evolves s (upd_run (\<lambda>r. r\<lparr>wr_Status := x\<rparr>) s)" "evolves s (upd_run (\<lambda>r. r\<lparr>wr_StartedAt := y\<rparr>) s)"
  "evolves s (upd_run (\<lambda>r. r\<lparr>wr_FinishedAt := z\<rparr>) s)"
  "evolves s (upd_run (\<lambda>r. r\<lparr>wr_RemainingDependencies := (wr_RemainingDependencies r)[k := v r]\<rparr>) s)"
  by (auto simp: evolves_def same_frame_def log_ok_def)

section \<open>The transitions\<close>

definition entered :: "TaskStatus \<Rightarrow> time \<Rightarrow> TaskRun \<Rightarrow> TaskRun" where
  "entered to at t =
     t\<lparr>tr_Status := to,
       tr_ReadyAt := (if to = TaskWaitingRetry then tr_ReadyAt t else None),
       tr_FinishedAt := (if isTaskTerminal to then Some at else tr_FinishedAt t)\<rparr>"

lemma entered_simps [simp]:
  "tr_Key (entered to at t) = tr_Key t" "tr_Status (entered to at t) = to"
  "tr_Attempts (entered to at t) = tr_Attempts t"
  "tr_ReadyAt (entered to at t) = (if to = TaskWaitingRetry then tr_ReadyAt t else None)"
  "tr_FinishedAt (entered to at t) = (if isTaskTerminal to then Some at else tr_FinishedAt t)"
  by (simp_all add: entered_def)

lemma transitionTask_Inr:
  "transitionTask s i to at reason = Inr s' \<longleftrightarrow>
     i < length (run_tasks s) \<and> taskTransitions (status_of s i) to \<and>
     s' = appendEvent (upd_task i (entered to at) s) at ''task'' (tr_Key (run_tasks s ! i))
            (task_str (status_of s i)) (task_str to) reason"
  by (auto simp: transitionTask_def Let_def entered_def upd_task_def upd_run_def isTaskTerminal_def not_le)

lemma transitionTask_effect:
  assumes "transitionTask s i to at reason = Inr s'"
  shows "run_tasks s' = (run_tasks s)[i := entered to at (run_tasks s ! i)]"
    and "run_remaining s' = run_remaining s" and "run_status s' = run_status s" and "evolves s s'"
    and "wr_StartedAt (rs_Run s') = wr_StartedAt (rs_Run s)" and "wr_FinishedAt (rs_Run s') = wr_FinishedAt (rs_Run s)"
    and "i < length (run_tasks s)" and "taskTransitions (status_of s i) to"
  using assms evolves_trans [OF evolves_upd_task evolves_appendEvent]
  by (auto simp: transitionTask_Inr upd_task_def)

lemma transitionTask_returns:
  "i < length (run_tasks s) \<Longrightarrow> taskTransitions (status_of s i) to \<Longrightarrow>
   \<exists>s'. transitionTask s i to at reason = Inr s'"
  by (simp add: transitionTask_Inr)

lemma transitionAttempt_Inr:
  "transitionAttempt s key i j to at reason = Inr s' \<longleftrightarrow>
     attemptTransitions (at_Status (tr_Attempts (run_tasks s ! i) ! j)) to \<and>
     s' = appendEvent (upd_attempt i j (\<lambda>a. a\<lparr>at_Status := to, at_FinishedAt := Some at\<rparr>) s) at ''attempt''
            (key @ ''/'' @ int_str (at_Number (tr_Attempts (run_tasks s ! i) ! j)))
            (attempt_str (at_Status (tr_Attempts (run_tasks s ! i) ! j))) (attempt_str to) reason"
  by (auto simp: transitionAttempt_def Let_def)

lemma transitionAttempt_effect:
  assumes "transitionAttempt s key i j to at reason = Inr s'"
  shows "run_tasks s' = (run_tasks s)[i := (run_tasks s ! i)\<lparr>tr_Attempts := (tr_Attempts (run_tasks s ! i))
           [j := (tr_Attempts (run_tasks s ! i) ! j)\<lparr>at_Status := to, at_FinishedAt := Some at\<rparr>]\<rparr>]"
    and "run_remaining s' = run_remaining s" and "run_status s' = run_status s" and "evolves s s'"
    and "wr_StartedAt (rs_Run s') = wr_StartedAt (rs_Run s)" and "wr_FinishedAt (rs_Run s') = wr_FinishedAt (rs_Run s)"
    and "attemptTransitions (at_Status (tr_Attempts (run_tasks s ! i) ! j)) to"
  using assms evolves_trans [OF evolves_upd_attempt evolves_appendEvent]
  by (auto simp: transitionAttempt_Inr upd_attempt_def upd_task_def)

lemma transitionWorkflow_effect:
  assumes "transitionWorkflow s to at reason = Inr s'"
  shows "run_tasks s' = run_tasks s" and "run_remaining s' = run_remaining s" and "run_status s' = to"
    and "evolves s s'" and "workflowTransitions (run_status s) to"
    and "wr_StartedAt (rs_Run s') =
      (if to = WorkflowRunning \<and> wr_StartedAt (rs_Run s) = None then Some at else wr_StartedAt (rs_Run s))"
    and "wr_FinishedAt (rs_Run s') = (if isWorkflowTerminal to then Some at else wr_FinishedAt (rs_Run s))"
  using assms
  by (auto simp: transitionWorkflow_def Let_def split: if_splits
      intro!: evolves_trans [OF _ evolves_appendEvent] evolves_upd_status
              evolves_trans [OF evolves_upd_status(1) evolves_upd_status(2)]
              evolves_trans [OF evolves_upd_status(1) evolves_upd_status(3)])

lemma transitionWorkflow_returns:
  "workflowTransitions (run_status s) to \<Longrightarrow> \<exists>s'. transitionWorkflow s to at reason = Inr s'"
  by (simp add: transitionWorkflow_def Let_def)

end
