(* ===== verification/Run_Invariant.thy ===== *)
theory Run_Invariant
  imports Run_Effects
begin

text \<open>
  The invariant of a run: the attempt history of every task fits its status, the counter of
  remaining dependencies is the number of dependencies that have not succeeded, a task waits
  exactly while such a dependency can still succeed, and the status of the workflow fits the
  statuses of its tasks.
\<close>

section \<open>The invariant\<close>

abbreviation task_count :: "CompiledWorkflow \<Rightarrow> nat" where
  "task_count cw \<equiv> length (wd_Tasks (cw_definition cw))"

abbreviation deps_of :: "CompiledWorkflow \<Rightarrow> nat \<Rightarrow> nat set" where
  "deps_of cw i \<equiv> set (cw_dependencies cw ! i)"

abbreviation max_attempts :: "CompiledWorkflow \<Rightarrow> nat \<Rightarrow> int" where
  "max_attempts cw i \<equiv> rp_MaxAttempts (td_Retry (wd_Tasks (cw_definition cw) ! i))"

definition isRetryableAttemptStatus :: "AttemptStatus \<Rightarrow> bool" where
  "isRetryableAttemptStatus status \<longleftrightarrow>
     status = AttemptFailed \<or> status = AttemptTimedOut \<or> status = AttemptInterrupted"

text \<open>The last attempt of a task against its status.\<close>

fun last_ok :: "int \<Rightarrow> TaskStatus \<Rightarrow> AttemptStatus list \<Rightarrow> bool" where
  "last_ok limit TaskWaitingDependencies as \<longleftrightarrow> as = []"
| "last_ok limit TaskSkipped as \<longleftrightarrow> as = []"
| "last_ok limit TaskReady as \<longleftrightarrow> int (length as) < limit \<and> (as = [] \<or> isRetryableAttemptStatus (last as))"
| "last_ok limit TaskQueued as \<longleftrightarrow> int (length as) < limit \<and> (as = [] \<or> isRetryableAttemptStatus (last as))"
| "last_ok limit TaskRunning as \<longleftrightarrow> as \<noteq> [] \<and> last as = AttemptRunning"
| "last_ok limit TaskWaitingRetry as \<longleftrightarrow>
     as \<noteq> [] \<and> int (length as) < limit \<and> isRetryableAttemptStatus (last as)"
| "last_ok limit TaskSucceeded as \<longleftrightarrow> as \<noteq> [] \<and> last as = AttemptSucceeded"
| "last_ok limit TaskFailed as \<longleftrightarrow>
     as \<noteq> [] \<and> (last as = AttemptFailed \<or> isRetryableAttemptStatus (last as) \<and> int (length as) = limit)"
| "last_ok limit TaskCanceled as \<longleftrightarrow> as = [] \<or> last as = AttemptCanceled \<or> isRetryableAttemptStatus (last as)"
| "last_ok limit (TaskOther w) as \<longleftrightarrow> False"

definition history_ok :: "int \<Rightarrow> TaskRun \<Rightarrow> bool" where
  "history_ok limit t \<longleftrightarrow>
     (let as = tr_Attempts t in
      map at_Number as = map int [1 ..< Suc (length as)] \<and> int (length as) \<le> limit \<and>
      list_all (\<lambda>a. isRetryableAttemptStatus (at_Status a)) (butlast as) \<and>
      list_all (\<lambda>a. (at_FinishedAt a = None) = (at_Status a = AttemptRunning)) as \<and>
      last_ok limit (tr_Status t) (map at_Status as) \<and>
      (tr_ReadyAt t \<noteq> None) = (tr_Status t = TaskWaitingRetry) \<and>
      (tr_FinishedAt t \<noteq> None) = isTaskTerminal (tr_Status t))"

text \<open>Counters and dependencies, over the statuses of the tasks.\<close>

definition pending :: "CompiledWorkflow \<Rightarrow> (nat \<Rightarrow> TaskStatus) \<Rightarrow> nat \<Rightarrow> nat" where
  "pending cw st i = length (filter (\<lambda>d. st d \<noteq> TaskSucceeded) (cw_dependencies cw ! i))"

definition lost :: "TaskStatus \<Rightarrow> bool" where
  "lost status \<longleftrightarrow> status = TaskFailed \<or> status = TaskSkipped \<or> status = TaskCanceled"

definition active :: "TaskStatus \<Rightarrow> bool" where
  "active status \<longleftrightarrow>
     status = TaskReady \<or> status = TaskQueued \<or> status = TaskRunning \<or> status = TaskWaitingRetry"

definition dep_ok :: "CompiledWorkflow \<Rightarrow> (nat \<Rightarrow> TaskStatus) \<Rightarrow> nat \<Rightarrow> bool" where
  "dep_ok cw st i \<longleftrightarrow>
     (st i = TaskWaitingDependencies \<longrightarrow> 0 < pending cw st i \<and> (\<forall>d \<in> deps_of cw i. \<not> lost (st d))) \<and>
     (active (st i) \<or> st i = TaskSucceeded \<or> st i = TaskFailed \<longrightarrow> pending cw st i = 0) \<and>
     (st i = TaskSkipped \<longrightarrow> (\<exists>d \<in> deps_of cw i. st d = TaskFailed \<or> st d = TaskSkipped))"

definition graph_ok :: "CompiledWorkflow \<Rightarrow> (nat \<Rightarrow> TaskStatus) \<Rightarrow> (nat \<Rightarrow> int) \<Rightarrow> bool" where
  "graph_ok cw st rem \<longleftrightarrow>
     (\<forall>i < task_count cw. rem i = int (pending cw st i) \<and> dep_ok cw st i)"

fun phase_ok :: "WorkflowStatus \<Rightarrow> TaskRun list \<Rightarrow> bool" where
  "phase_ok WorkflowPending ts \<longleftrightarrow>
     list_all (\<lambda>t. (tr_Status t = TaskWaitingDependencies \<or> tr_Status t = TaskReady) \<and> tr_Attempts t = []) ts"
| "phase_ok WorkflowRunning ts \<longleftrightarrow>
     list_ex (\<lambda>t. \<not> isTaskTerminal (tr_Status t)) ts \<and> list_all (\<lambda>t. tr_Status t \<noteq> TaskCanceled) ts"
| "phase_ok WorkflowSucceeded ts \<longleftrightarrow> allTasksSucceeded ts"
| "phase_ok WorkflowFailed ts \<longleftrightarrow>
     list_all (\<lambda>t. isTaskTerminal (tr_Status t) \<and> tr_Status t \<noteq> TaskCanceled) ts \<and> hasFailedTask ts"
| "phase_ok WorkflowCanceled ts \<longleftrightarrow> list_all (\<lambda>t. isTaskTerminal (tr_Status t)) ts"
| "phase_ok (WorkflowOther w) ts \<longleftrightarrow> False"

definition clock_ok :: "WorkflowRun \<Rightarrow> bool" where
  "clock_ok r \<longleftrightarrow>
     (wr_FinishedAt r \<noteq> None) = isWorkflowTerminal (wr_Status r) \<and>
     (wr_Status r = WorkflowPending \<longrightarrow> wr_StartedAt r = None) \<and>
     (wr_Status r = WorkflowRunning \<or> wr_Status r = WorkflowSucceeded \<or> wr_Status r = WorkflowFailed
        \<longrightarrow> wr_StartedAt r \<noteq> None)"

definition shape_ok :: "CompiledWorkflow \<Rightarrow> RunSnapshot \<Rightarrow> bool" where
  "shape_ok cw s \<longleftrightarrow>
     rs_Definition s = Some (cw_definition cw) \<and>
     map tr_Key (run_tasks s) = map td_Key (wd_Tasks (cw_definition cw)) \<and>
     length (run_remaining s) = task_count cw \<and> log_ok s"

definition run_inv :: "CompiledWorkflow \<Rightarrow> RunSnapshot \<Rightarrow> bool" where
  "run_inv cw s \<longleftrightarrow>
     shape_ok cw s \<and> clock_ok (rs_Run s) \<and>
     (\<forall>i < task_count cw. history_ok (max_attempts cw i) (run_tasks s ! i)) \<and>
     graph_ok cw (status_of s) ((!) (run_remaining s)) \<and>
     phase_ok (run_status s) (run_tasks s)"

section \<open>The dependency graph\<close>

definition edges :: "CompiledWorkflow \<Rightarrow> (nat \<times> nat) set" where
  "edges cw = {(d, i). i < task_count cw \<and> d \<in> deps_of cw i}"

definition below :: "CompiledWorkflow \<Rightarrow> nat \<Rightarrow> nat set" where
  "below cw f = {k. (f, k) \<in> (edges cw)\<^sup>+}"

lemma wf_deps: "wf_compiled cw \<Longrightarrow> i < task_count cw \<Longrightarrow>
    distinct (cw_dependencies cw ! i) \<and> deps_of cw i \<subseteq> {..<task_count cw}"
  by (auto simp: wf_compiled_def Let_def)

lemma wf_attributes:
  assumes "wf_compiled cw" and "i < task_count cw"
  shows "1 \<le> max_attempts cw i" and "0 \<le> rp_IntervalMillis (td_Retry (wd_Tasks (cw_definition cw) ! i))"
    and "0 < td_TimeoutMillis (wd_Tasks (cw_definition cw) ! i)"
    and "\<exists>input. cloneTaskInput (td_Input (wd_Tasks (cw_definition cw) ! i)) = Inr input"
  using assms nth_mem [of i "wd_Tasks (cw_definition cw)"] unfolding wf_compiled_def Let_def by blast+

lemma wf_successors:
  assumes "wf_compiled cw"
  shows "length (cw_successors cw) = task_count cw"
    and "d < task_count cw \<Longrightarrow> distinct (cw_successors cw ! d)"
    and "d < task_count cw \<Longrightarrow> set (cw_successors cw ! d) = {i. (d, i) \<in> edges cw}"
  using assms by (auto simp: wf_compiled_def Let_def successors_of_def edges_def)

lemma wf_rank:
  assumes "wf_compiled cw"
  obtains rank :: "nat \<Rightarrow> nat" where "\<And>d i. (d, i) \<in> edges cw \<Longrightarrow> rank d < rank i"
proof -
  have "\<exists>rank :: nat \<Rightarrow> nat. \<forall>i < task_count cw. \<forall>d \<in> deps_of cw i. rank d < rank i"
    using assms by (simp add: wf_compiled_def Let_def)
  then obtain rank :: "nat \<Rightarrow> nat" where "\<forall>i < task_count cw. \<forall>d \<in> deps_of cw i. rank d < rank i" ..
  then show thesis by (intro that [of rank]) (auto simp: edges_def)
qed

lemma below_rank:
  assumes rank: "\<And>d i. (d, i) \<in> edges cw \<Longrightarrow> rank d < (rank i :: nat)" and "k \<in> below cw f"
  shows "rank f < rank k"
  using assms(2) unfolding below_def mem_Collect_eq
  by (induction rule: trancl_induct) (auto dest: rank)

lemma below_irrefl: "wf_compiled cw \<Longrightarrow> f \<notin> below cw f"
  by (metis wf_rank below_rank less_irrefl)

lemma below_closed:
  assumes "k \<in> below cw f" and "(k, i) \<in> edges cw" shows "i \<in> below cw f"
  using assms by (auto simp: below_def)

lemma below_lt: "k \<in> below cw f \<Longrightarrow> k < task_count cw"
  by (auto simp: below_def edges_def elim: trancl.cases)

lemma below_least:
  assumes "{i. (f, i) \<in> edges cw} \<subseteq> V" and "\<And>k i. k \<in> V \<Longrightarrow> (k, i) \<in> edges cw \<Longrightarrow> i \<in> V"
  shows "below cw f \<subseteq> V"
proof
  fix k assume "k \<in> below cw f"
  then have "(f, k) \<in> (edges cw)\<^sup>+" by (simp add: below_def)
  then show "k \<in> V" by (induction rule: trancl_induct) (use assms in auto)
qed

lemma below_dep:
  assumes "k \<in> below cw f"
  obtains d where "(d, k) \<in> edges cw" and "d = f \<or> d \<in> below cw f"
  using assms by (auto simp: below_def elim: trancl.cases)

lemma below_dep_in:
  assumes "(d, k) \<in> edges cw" and "d = f \<or> d \<in> below cw f"
  shows "k \<in> below cw f"
  using assms by (auto simp: below_def)

section \<open>Status changes and the graph\<close>

lemma pending_0_iff: "pending cw st i = 0 \<longleftrightarrow> (\<forall>d \<in> deps_of cw i. st d = TaskSucceeded)"
  by (auto simp: pending_def filter_empty_conv)

lemma pending_cong:
  "(\<And>d. d \<in> deps_of cw i \<Longrightarrow> (st' d = TaskSucceeded) = (st d = TaskSucceeded)) \<Longrightarrow>
   pending cw st' i = pending cw st i"
  unfolding pending_def by (rule filter_eq_if_same) simp

lemma dep_ok_transfer:
  assumes "dep_ok cw st k" and "st' k = st k" and "pending cw st' k = pending cw st k"
    and "\<And>d. d \<in> deps_of cw k \<Longrightarrow> st k = TaskWaitingDependencies \<Longrightarrow> lost (st' d) \<Longrightarrow> lost (st d)"
    and "\<And>d. d \<in> deps_of cw k \<Longrightarrow> st d = TaskFailed \<or> st d = TaskSkipped \<Longrightarrow> st' d = TaskFailed \<or> st' d = TaskSkipped"
  shows "dep_ok cw st' k"
  using assms(1) assms(4,5) unfolding dep_ok_def assms(2,3) by blast

lemma graph_ok_cong:
  assumes wf: "wf_compiled cw" and st: "\<And>i. i < task_count cw \<Longrightarrow> st' i = st i" and rem: "\<And>i. i < task_count cw \<Longrightarrow> rem' i = rem i"
    and g: "graph_ok cw st rem"
  shows "graph_ok cw st' rem'"
proof -
  have "rem' i = int (pending cw st' i) \<and> dep_ok cw st' i" if i: "i < task_count cw" for i
  proof -
    have eq: "st' d = st d" if "d \<in> deps_of cw i" for d
      using that wf_deps [OF wf i] st by blast
    then have p: "pending cw st' i = pending cw st i" by (intro pending_cong) simp
    have "dep_ok cw st i" using g i by (simp add: graph_ok_def)
    then have "dep_ok cw st' i" by (rule dep_ok_transfer [OF _ st [OF i] p]) (simp_all add: eq)
    with p g i rem [OF i] show ?thesis by (simp add: graph_ok_def)
  qed
  then show ?thesis by (simp add: graph_ok_def)
qed

lemma not_ready_if_dep_open:
  assumes "dep_ok cw st k" and "d \<in> deps_of cw k" and "st d \<noteq> TaskSucceeded"
  shows "\<not> active (st k)" and "st k \<noteq> TaskSucceeded" and "st k \<noteq> TaskFailed"
  using assms unfolding dep_ok_def pending_0_iff by blast+

text \<open>Tasks move between the active statuses.\<close>

lemma graph_ok_actives:
  assumes g: "graph_ok cw st rem" and act: "\<And>k. st' k = st k \<or> active (st k) \<and> active (st' k)"
  shows "graph_ok cw st' rem"
proof -
  have cls: "(st' k = x) = (st k = x)" if "\<not> active x" for k x
    using act [of k] that by auto
  have p: "pending cw st' k = pending cw st k" for k
    by (rule pending_cong) (simp add: cls active_def)
  have "dep_ok cw st' k" if "k < task_count cw" for k
  proof -
    have ok: "dep_ok cw st k" using g that by (simp add: graph_ok_def)
    show ?thesis
    proof (cases "st' k = st k")
      case True
      show ?thesis using ok True p
        by (rule dep_ok_transfer) (simp_all add: lost_def cls active_def)
    next
      case False
      then have a: "active (st k)" "active (st' k)" using act [of k] by auto
      then have "pending cw st k = 0" using ok by (simp add: dep_ok_def)
      moreover have "st' k \<noteq> TaskWaitingDependencies" "st' k \<noteq> TaskSkipped" using a(2) by (auto simp: active_def)
      ultimately show ?thesis using p [of k] by (simp add: dep_ok_def)
    qed
  qed
  with g p show ?thesis by (simp add: graph_ok_def)
qed

lemma graph_ok_active:
  assumes "graph_ok cw st rem" and "active (st i)" "active a"
  shows "graph_ok cw (st(i := a)) rem"
  using assms by (intro graph_ok_actives [OF assms(1)]) simp

text \<open>All open tasks are cancelled.\<close>

lemma graph_ok_cancel:
  assumes g: "graph_ok cw st rem"
  shows "graph_ok cw (\<lambda>k. if isTaskTerminal (st k) then st k else TaskCanceled) rem" (is "graph_ok cw ?st rem")
proof -
  have p: "pending cw ?st k = pending cw st k" for k
    by (rule pending_cong) auto
  have "dep_ok cw ?st k" if "k < task_count cw" for k
  proof (cases "isTaskTerminal (st k)")
    case True
    have "dep_ok cw st k" using g that by (simp add: graph_ok_def)
    then show ?thesis by (rule dep_ok_transfer [OF _ _ p]) (use True in \<open>auto simp: dep_ok_def\<close>)
  next
    case False
    then show ?thesis by (simp add: dep_ok_def active_def)
  qed
  with g p show ?thesis by (simp add: graph_ok_def)
qed

text \<open>A task succeeds and releases the successors for which it was the last open dependency.\<close>

definition after_success :: "CompiledWorkflow \<Rightarrow> nat \<Rightarrow> (nat \<Rightarrow> int) \<Rightarrow> (nat \<Rightarrow> TaskStatus) \<Rightarrow> nat \<Rightarrow> TaskStatus" where
  "after_success cw i rem st k =
     (if k = i then TaskSucceeded else if (i, k) \<in> edges cw \<and> rem k = 1 then TaskReady else st k)"

definition rem_after :: "CompiledWorkflow \<Rightarrow> nat \<Rightarrow> (nat \<Rightarrow> int) \<Rightarrow> nat \<Rightarrow> int" where
  "rem_after cw i rem k = rem k - (if (i, k) \<in> edges cw then 1 else 0)"

lemma pending_successor:
  assumes "wf_compiled cw" and "k < task_count cw" and "st i \<noteq> TaskSucceeded"
    and "\<And>d. d \<in> deps_of cw k \<Longrightarrow> d \<noteq> i \<Longrightarrow> (st' d = TaskSucceeded) = (st d = TaskSucceeded)" and "st' i = TaskSucceeded"
  shows "pending cw st k = pending cw st' k + (if i \<in> deps_of cw k then 1 else 0)"
proof (cases "i \<in> deps_of cw k")
  case True
  then have "pending cw st k = Suc (pending cw st' k)"
    unfolding pending_def using wf_deps [OF assms(1,2)] assms(3-5)
    by (intro length_filter_flip [where a = i]) auto
  with True show ?thesis by simp
next
  case False
  then have "pending cw st' k = pending cw st k" using assms(4) by (intro pending_cong) metis
  with False show ?thesis by simp
qed

text \<open>A successor whose last open dependency succeeds was waiting, provided nothing was cancelled.\<close>

lemma released_was_waiting:
  assumes wf: "wf_compiled cw" and g: "graph_ok cw st rem" and e: "(i, k) \<in> edges cw" and one: "rem k = 1"
    and act: "active (st i)" and no: "st k \<noteq> TaskCanceled" "\<And>w. st k \<noteq> TaskOther w"
  shows "st k = TaskWaitingDependencies"
proof -
  have k: "k < task_count cw" and i: "i \<in> deps_of cw k" using e by (auto simp: edges_def)
  have ok: "dep_ok cw st k" and p: "pending cw st k = 1" using g k one by (auto simp: graph_ok_def)
  have "st i \<noteq> TaskSucceeded" using act by (auto simp: active_def)
  note nr = not_ready_if_dep_open [OF ok i this]
  have "st k \<noteq> TaskSkipped"
  proof
    assume "st k = TaskSkipped"
    with ok obtain d where d: "d \<in> deps_of cw k" "st d = TaskFailed \<or> st d = TaskSkipped" by (auto simp: dep_ok_def)
    have "pending cw st k = pending cw (st(i := TaskSucceeded)) k + 1"
      using pending_successor [OF wf k, of st i "st(i := TaskSucceeded)"] i \<open>st i \<noteq> TaskSucceeded\<close> by simp
    with p have "pending cw (st(i := TaskSucceeded)) k = 0" by simp
    with d act show False by (auto simp: pending_0_iff active_def split: if_splits)
  qed
  with nr no show ?thesis by (cases "st k") (auto simp: active_def)
qed

lemma graph_ok_success:
  assumes wf: "wf_compiled cw" and g: "graph_ok cw st rem" and i: "i < task_count cw" "active (st i)"
    and no: "\<And>k. k < task_count cw \<Longrightarrow> st k \<noteq> TaskCanceled" "\<And>k w. k < task_count cw \<Longrightarrow> st k \<noteq> TaskOther w"
  shows "graph_ok cw (after_success cw i rem st) (rem_after cw i rem)"
proof -
  let ?st = "after_success cw i rem st"
  have ni: "(i, i) \<notin> edges cw" using wf by (metis wf_rank less_irrefl)
  have waiting: "st k = TaskWaitingDependencies" if "(i, k) \<in> edges cw" "rem k = 1" for k
    using released_was_waiting [OF wf g that i(2)] no that by (auto simp: edges_def)
  have succ: "(?st d = TaskSucceeded) = (d = i \<or> st d = TaskSucceeded)" for d
    using waiting by (auto simp: after_success_def)
  have p: "pending cw st k = pending cw ?st k + (if i \<in> deps_of cw k then 1 else 0)" if "k < task_count cw" for k
    using pending_successor [OF wf that, of st i ?st] succ i by (auto simp: active_def)
  have "dep_ok cw ?st k" if k: "k < task_count cw" for k
  proof -
    have ok: "dep_ok cw st k" and r: "rem k = int (pending cw st k)" using g k by (auto simp: graph_ok_def)
    have same: "lost (?st d) = lost (st d)" if "d \<noteq> i" for d
      using that waiting [of d] by (auto simp: after_success_def lost_def)
    have skip: "?st d = TaskFailed \<or> ?st d = TaskSkipped" if "st d = TaskFailed \<or> st d = TaskSkipped" for d
      using that waiting [of d] i(2) by (auto simp: after_success_def active_def)
    consider "k = i" | "k \<noteq> i" "(i, k) \<in> edges cw" "rem k = 1" | "k \<noteq> i" "?st k = st k" "(i, k) \<in> edges cw \<longrightarrow> rem k \<noteq> 1"
      by (cases "(i, k) \<in> edges cw \<and> rem k = 1") (auto simp: after_success_def)
    then show ?thesis
    proof cases
      case 1
      have "pending cw st i = 0" using ok i(2) 1 by (simp add: dep_ok_def)
      with p [OF i(1)] have "pending cw ?st i = 0" by simp
      with 1 show ?thesis by (simp add: dep_ok_def after_success_def active_def)
    next
      case 2
      then have "pending cw ?st k = 0" using p [OF k] r by (auto simp: edges_def)
      with 2 show ?thesis by (simp add: dep_ok_def after_success_def)
    next
      case 3
      have "i \<in> deps_of cw k \<Longrightarrow> (i, k) \<in> edges cw" using k by (simp add: edges_def)
      then have pos: "0 < pending cw ?st k" if "0 < pending cw st k" using that p [OF k] r 3(3) by (auto split: if_splits)
      have zero: "pending cw ?st k = 0" if "pending cw st k = 0" using that p [OF k] by simp
      have wait: "\<not> lost (?st d)" if "d \<in> deps_of cw k" "st k = TaskWaitingDependencies" for d
        using that ok same [of d] by (cases "d = i") (auto simp: dep_ok_def after_success_def lost_def)
      show ?thesis using ok skip pos zero wait unfolding dep_ok_def 3(2) by blast
    qed
  qed
  moreover have "rem_after cw i rem k = int (pending cw ?st k)" if "k < task_count cw" for k
    using p [OF that] g that by (auto simp: rem_after_def graph_ok_def edges_def)
  ultimately show ?thesis by (simp add: graph_ok_def)
qed

text \<open>Tasks fail and every open task below one of them is skipped.\<close>

definition below_any :: "CompiledWorkflow \<Rightarrow> nat set \<Rightarrow> nat set" where
  "below_any cw F = (\<Union>f \<in> F. below cw f)"

definition after_failure :: "CompiledWorkflow \<Rightarrow> nat set \<Rightarrow> (nat \<Rightarrow> TaskStatus) \<Rightarrow> nat \<Rightarrow> TaskStatus" where
  "after_failure cw F st k =
     (if k \<in> F then TaskFailed else if k \<in> below_any cw F \<and> \<not> isTaskTerminal (st k) then TaskSkipped else st k)"

lemma below_any_dep:
  assumes "k \<in> below_any cw F"
  obtains d where "(d, k) \<in> edges cw" and "d \<in> F \<or> d \<in> below_any cw F"
proof -
  obtain f where f: "f \<in> F" "k \<in> below cw f" using assms by (auto simp: below_any_def)
  obtain d where "(d, k) \<in> edges cw" "d = f \<or> d \<in> below cw f" using below_dep [OF f(2)] .
  with f(1) show thesis by (intro that [of d]) (auto simp: below_any_def)
qed

lemma below_any_dep_in: "(d, k) \<in> edges cw \<Longrightarrow> d \<in> F \<or> d \<in> below_any cw F \<Longrightarrow> k \<in> below_any cw F"
  unfolding below_any_def using below_dep_in by blast

lemma below_open:
  assumes g: "graph_ok cw st rem" and f: "st f \<noteq> TaskSucceeded" and k: "k \<in> below cw f"
  shows "\<not> active (st k) \<and> st k \<noteq> TaskSucceeded \<and> st k \<noteq> TaskFailed"
proof -
  have step: "\<not> active (st i) \<and> st i \<noteq> TaskSucceeded \<and> st i \<noteq> TaskFailed"
    if "(d, i) \<in> edges cw" "st d \<noteq> TaskSucceeded" for d i
    using that g not_ready_if_dep_open [of cw st i d] by (auto simp: graph_ok_def edges_def)
  from k have "(f, k) \<in> (edges cw)\<^sup>+" by (simp add: below_def)
  then show ?thesis by (induction rule: trancl_induct) (use step f in blast)+
qed

lemma lost_below:
  assumes g: "graph_ok cw st rem" and f: "lost (st f)" and k: "k \<in> below cw f"
    and no: "\<And>i w. i < task_count cw \<Longrightarrow> st i \<noteq> TaskOther w"
  shows "lost (st k)"
proof -
  have step: "lost (st i)" if e: "(d, i) \<in> edges cw" and d: "lost (st d)" for d i
  proof -
    have i: "i < task_count cw" "d \<in> deps_of cw i" using e by (auto simp: edges_def)
    then have ok: "dep_ok cw st i" using g by (simp add: graph_ok_def)
    have "st d \<noteq> TaskSucceeded" using d by (auto simp: lost_def)
    note nr = not_ready_if_dep_open [OF ok i(2) this]
    have "st i \<noteq> TaskWaitingDependencies" using ok d i(2) unfolding dep_ok_def by blast
    with nr no [OF i(1)] show ?thesis by (cases "st i") (auto simp: active_def lost_def)
  qed
  from k have "(f, k) \<in> (edges cw)\<^sup>+" by (simp add: below_def)
  then show ?thesis by (induction rule: trancl_induct) (use step f in blast)+
qed

lemma below_waiting:
  assumes "graph_ok cw st rem" and "st f \<noteq> TaskSucceeded" and "k \<in> below cw f"
    and "st k \<noteq> TaskCanceled" and "\<And>w. st k \<noteq> TaskOther w"
  shows "st k = TaskWaitingDependencies \<or> st k = TaskSkipped"
  using below_open [OF assms(1-3)] assms(4,5) by (cases "st k") (auto simp: active_def)

lemma graph_ok_failure:
  assumes wf: "wf_compiled cw" and g: "graph_ok cw st rem" and F: "\<And>f. f \<in> F \<Longrightarrow> f < task_count cw \<and> active (st f)"
    and no: "\<And>k. k < task_count cw \<Longrightarrow> st k \<noteq> TaskCanceled" "\<And>k w. k < task_count cw \<Longrightarrow> st k \<noteq> TaskOther w"
  shows "graph_ok cw (after_failure cw F st) rem"
proof -
  let ?st = "after_failure cw F st"
  have fs: "st f \<noteq> TaskSucceeded \<and> \<not> isTaskTerminal (st f)" if "f \<in> F" for f using F [OF that] by (auto simp: active_def)
  have p: "pending cw ?st k = pending cw st k" for k
    using fs by (intro pending_cong) (auto simp: after_failure_def)
  have skipped: "?st d = TaskFailed \<or> ?st d = TaskSkipped" if "d \<in> F \<or> d \<in> below_any cw F" for d
  proof (cases "d \<in> F")
    case False
    with that obtain f where f: "f \<in> F" "d \<in> below cw f" by (auto simp: below_any_def)
    have "st d = TaskWaitingDependencies \<or> st d = TaskSkipped"
      using below_waiting [OF g _ f(2)] fs [OF f(1)] no below_lt [OF f(2)] by blast
    with False that show ?thesis by (auto simp: after_failure_def)
  qed (simp add: after_failure_def)
  have "dep_ok cw ?st k" if k: "k < task_count cw" for k
  proof -
    have ok: "dep_ok cw st k" using g k by (simp add: graph_ok_def)
    consider "k \<in> F" | "k \<notin> F" "k \<in> below_any cw F" "\<not> isTaskTerminal (st k)"
      | "k \<notin> F" "?st k = st k" "k \<in> below_any cw F \<longrightarrow> isTaskTerminal (st k)"
      by (cases "k \<in> below_any cw F \<and> \<not> isTaskTerminal (st k)") (auto simp: after_failure_def)
    then show ?thesis
    proof cases
      case 1
      then have "pending cw ?st k = 0" using ok F p by (simp add: dep_ok_def)
      with 1 show ?thesis by (simp add: dep_ok_def after_failure_def)
    next
      case 2
      obtain d where "(d, k) \<in> edges cw" and "d \<in> F \<or> d \<in> below_any cw F" using below_any_dep [OF 2(2)] .
      then have "d \<in> deps_of cw k" and "?st d = TaskFailed \<or> ?st d = TaskSkipped"
        using skipped by (auto simp: edges_def)
      moreover have "?st k = TaskSkipped" using 2 by (simp add: after_failure_def)
      ultimately show ?thesis unfolding dep_ok_def by (auto simp: active_def)
    next
      case 3
      have out: "lost (?st d) = lost (st d)" if "d \<in> deps_of cw k" "st k = TaskWaitingDependencies" for d
        using that 3(3) k below_any_dep_in [of d k cw F] by (auto simp: after_failure_def edges_def)
      have keep: "?st d = st d" if "st d = TaskFailed \<or> st d = TaskSkipped" for d
        using that fs [of d] by (cases "d \<in> F") (auto simp: after_failure_def isTaskTerminal_def)
      show ?thesis using ok 3(2) p
        by (rule dep_ok_transfer) (use out keep in \<open>blast, metis\<close>)
    qed
  qed
  with p g show ?thesis by (simp add: graph_ok_def)
qed

text \<open>When no task is open, none is cancelled and none failed, all have succeeded: a skipped
  task of least rank would have a failed dependency.\<close>

lemma terminal_not_mixed:
  assumes wf: "wf_compiled cw" and g: "graph_ok cw st rem"
    and t: "\<And>k. k < task_count cw \<Longrightarrow> isTaskTerminal (st k) \<and> st k \<noteq> TaskCanceled \<and> st k \<noteq> TaskFailed"
    and k: "k < task_count cw"
  shows "st k = TaskSucceeded"
proof (rule ccontr)
  obtain rank :: "nat \<Rightarrow> nat" where rank: "\<And>d i. (d, i) \<in> edges cw \<Longrightarrow> rank d < rank i" by (rule wf_rank [OF wf]) blast
  assume "st k \<noteq> TaskSucceeded"
  with t k have "k < task_count cw \<and> st k = TaskSkipped" by (auto simp: isTaskTerminal_def)
  then obtain m where m: "m < task_count cw" "st m = TaskSkipped"
    and least: "\<And>j. rank j < rank m \<Longrightarrow> \<not> (j < task_count cw \<and> st j = TaskSkipped)"
    using ex_min_rank [of "\<lambda>j. j < task_count cw \<and> st j = TaskSkipped" k rank] by auto
  then obtain d where d: "d \<in> deps_of cw m" "st d = TaskFailed \<or> st d = TaskSkipped"
    using g by (auto simp: graph_ok_def dep_ok_def)
  have "rank d < rank m" and "d < task_count cw" using d(1) m(1) rank wf_deps [OF wf m(1)] by (auto simp: edges_def)
  with least d(2) t show False by blast
qed

text \<open>A run that waits for something can go on: some task is active.\<close>

lemma some_active:
  assumes wf: "wf_compiled cw" and g: "graph_ok cw st rem"
    and no: "\<And>k w. k < task_count cw \<Longrightarrow> st k \<noteq> TaskOther w"
    and k: "k < task_count cw" "\<not> isTaskTerminal (st k)"
  shows "\<exists>m < task_count cw. active (st m)"
proof (rule ccontr)
  obtain rank :: "nat \<Rightarrow> nat" where rank: "\<And>d i. (d, i) \<in> edges cw \<Longrightarrow> rank d < rank i" by (rule wf_rank [OF wf]) blast
  assume none: "\<not> ?thesis"
  have cls: "isTaskTerminal (st j) \<or> st j = TaskWaitingDependencies" if "j < task_count cw" for j
    using none no that by (cases "st j") (auto simp: active_def)
  then have "k < task_count cw \<and> st k = TaskWaitingDependencies" using k by blast
  then obtain m where m: "m < task_count cw" "st m = TaskWaitingDependencies"
    and least: "\<And>j. rank j < rank m \<Longrightarrow> \<not> (j < task_count cw \<and> st j = TaskWaitingDependencies)"
    using ex_min_rank [of "\<lambda>j. j < task_count cw \<and> st j = TaskWaitingDependencies" k rank] by auto
  then have "0 < pending cw st m" and nl: "\<forall>d \<in> deps_of cw m. \<not> lost (st d)"
    using g by (auto simp: graph_ok_def dep_ok_def)
  then have "pending cw st m \<noteq> 0" by simp
  then obtain d where d: "d \<in> deps_of cw m" "st d \<noteq> TaskSucceeded" by (auto simp: pending_0_iff)
  have "rank d < rank m" and "d < task_count cw" using d(1) m(1) rank wf_deps [OF wf m(1)] by (auto simp: edges_def)
  with least cls have "isTaskTerminal (st d)" by blast
  with d nl show False by (auto simp: isTaskTerminal_def lost_def)
qed

end
