(* ===== verification/Run_Operations.thy ===== *)
theory Run_Operations
  imports Run_Invariant
begin

text \<open>
  Every operation of \<^verbatim>\<open>distributed_state.go\<close> returns without an error on a run
  that satisfies the invariant and keeps the invariant. The two loops are solved first: the
  walk that skips the descendants of a failed task and the loop that releases the successors
  of a task that succeeded.
\<close>

section \<open>Steps that touch tasks only\<close>

definition quiet :: "RunSnapshot \<Rightarrow> RunSnapshot \<Rightarrow> bool" where
  "quiet s s' \<longleftrightarrow>
     evolves s s' \<and> run_remaining s' = run_remaining s \<and> run_status s' = run_status s \<and>
     wr_StartedAt (rs_Run s') = wr_StartedAt (rs_Run s) \<and> wr_FinishedAt (rs_Run s') = wr_FinishedAt (rs_Run s)"

lemma quiet_refl [simp, intro]: "quiet s s"
  by (simp add: quiet_def)

lemma quiet_trans [trans]: "quiet s t \<Longrightarrow> quiet t u \<Longrightarrow> quiet s u"
  by (auto simp: quiet_def intro: evolves_trans)

lemma quietD:
  assumes "quiet s s'"
  shows "evolves s s'" and "run_remaining s' = run_remaining s" and "run_status s' = run_status s"
    and "wr_StartedAt (rs_Run s') = wr_StartedAt (rs_Run s)" and "wr_FinishedAt (rs_Run s') = wr_FinishedAt (rs_Run s)"
    and "length (run_tasks s') = length (run_tasks s)"
  using assms evolves_length by (auto simp: quiet_def)

lemma quiet_transitionTask: "transitionTask s i to at reason = Inr s' \<Longrightarrow> quiet s s'"
  using transitionTask_effect by (auto simp: quiet_def)

lemma quiet_transitionAttempt: "transitionAttempt s key i j to at reason = Inr s' \<Longrightarrow> quiet s s'"
  using transitionAttempt_effect by (auto simp: quiet_def)

lemma quiet_upd_task: "(\<And>t. tr_Key (f t) = tr_Key t) \<Longrightarrow> quiet s (upd_task i f s)"
  using evolves_upd_task by (auto simp: quiet_def upd_task_def)

lemma task_step:
  assumes "i < length (run_tasks s)" and "taskTransitions (status_of s i) to"
  shows "\<exists>s'. transitionTask s i to at reason = Inr s' \<and> quiet s s' \<and>
           run_tasks s' = (run_tasks s)[i := entered to at (run_tasks s ! i)]"
  using transitionTask_returns [OF assms] transitionTask_effect(1) quiet_transitionTask by blast

text \<open>A loop over all tasks whose body changes the task it is at.\<close>

lemma foldR_each_task:
  assumes step: "\<And>i u. i < length (run_tasks s) \<Longrightarrow> quiet s u \<Longrightarrow> run_tasks u ! i = run_tasks s ! i \<Longrightarrow>
      \<exists>u'. f i u = Inr u' \<and> quiet u u' \<and> run_tasks u' = (run_tasks u)[i := g i (run_tasks s ! i)]"
    and "m \<le> length (run_tasks s)"
  shows "\<exists>s'. foldR f [0 ..< m] s = Inr s' \<and> quiet s s' \<and>
    run_tasks s' = map (\<lambda>k. if k < m then g k (run_tasks s ! k) else run_tasks s ! k) [0 ..< length (run_tasks s)]"
  using assms(2)
proof (induction m)
  case 0
  then show ?case by (auto intro!: nth_equalityI)
next
  case (Suc m)
  then obtain u where u: "foldR f [0 ..< m] s = Inr u" "quiet s u"
    and ts: "run_tasks u = map (\<lambda>k. if k < m then g k (run_tasks s ! k) else run_tasks s ! k) [0 ..< length (run_tasks s)]" by auto
  have m: "m < length (run_tasks s)" "run_tasks u ! m = run_tasks s ! m" using Suc.prems by (simp_all add: ts)
  then obtain u' where u': "f m u = Inr u'" "quiet u u'" "run_tasks u' = (run_tasks u)[m := g m (run_tasks s ! m)]"
    using step [OF m(1) u(2) m(2)] by blast
  have "run_tasks u' = map (\<lambda>k. if k < Suc m then g k (run_tasks s ! k) else run_tasks s ! k) [0 ..< length (run_tasks s)]"
    unfolding u'(3) ts using m(1) by (auto simp: nth_list_update less_Suc_eq intro!: nth_equalityI)
  with u(1) u'(1) quiet_trans [OF u(2) u'(2)] show ?case by (simp add: foldR_append)
qed

section \<open>Skipping descendants\<close>

definition skipped_in :: "nat set \<Rightarrow> time \<Rightarrow> TaskRun list \<Rightarrow> TaskRun list" where
  "skipped_in V at ts =
     map (\<lambda>k. if k \<in> V \<and> \<not> isTaskTerminal (tr_Status (ts ! k)) then entered TaskSkipped at (ts ! k) else ts ! k)
       [0 ..< length ts]"

lemma skipped_in_length [simp]: "length (skipped_in V at ts) = length ts"
  by (simp add: skipped_in_def)

lemma skipped_in_nth [simp]:
  "k < length ts \<Longrightarrow> skipped_in V at ts ! k =
     (if k \<in> V \<and> \<not> isTaskTerminal (tr_Status (ts ! k)) then entered TaskSkipped at (ts ! k) else ts ! k)"
  by (simp add: skipped_in_def)

lemma skipped_in_empty [simp]: "skipped_in {} at ts = ts"
  by (auto intro!: nth_equalityI)

lemma skipped_in_insert:
  assumes "k < length ts" and "k \<notin> V"
  shows "skipped_in (insert k V) at ts =
    (if isTaskTerminal (tr_Status (ts ! k)) then skipped_in V at ts
     else (skipped_in V at ts)[k := entered TaskSkipped at (ts ! k)])"
  using assms by (auto intro!: nth_equalityI simp: nth_list_update)

text \<open>The invariant of the walk: \<open>D\<close> is a set of tasks closed under successors that holds the
  queue, the successors of a visited task are visited or queued, and exactly the open visited
  tasks have been skipped.\<close>

definition marked :: "bool list \<Rightarrow> nat set" where
  "marked visited = {k. k < length visited \<and> visited ! k}"

definition walk_inv ::
  "CompiledWorkflow \<Rightarrow> nat set \<Rightarrow> time \<Rightarrow> TaskRun list \<Rightarrow> nat list \<Rightarrow> bool list \<Rightarrow> RunSnapshot \<Rightarrow> bool" where
  "walk_inv cw D at ts queue visited s \<longleftrightarrow>
     (let V = marked visited in
      length visited = length ts \<and> length (cw_successors cw) = length ts \<and> D \<subseteq> {..<length ts} \<and>
      set queue \<subseteq> D \<and> V \<subseteq> D \<and> (\<forall>k \<in> D. set (cw_successors cw ! k) \<subseteq> D) \<and>
      (\<forall>k \<in> D. \<not> isTaskTerminal (tr_Status (ts ! k)) \<longrightarrow> tr_Status (ts ! k) = TaskWaitingDependencies) \<and>
      (\<forall>k \<in> V. set (cw_successors cw ! k) \<subseteq> V \<union> set queue) \<and>
      run_tasks s = skipped_in V at ts)"

lemma visited_insert:
  "k < length visited \<Longrightarrow>
   marked (visited[k := True]) = insert k (marked visited)"
  by (auto simp: marked_def nth_list_update)

lemma walk_visit:
  assumes inv: "walk_inv cw D at ts (k # queue) visited s" and "\<not> visited ! k"
  shows "\<exists>s'. (if isTaskTerminal (status_of s k) then Inr s
               else transitionTask s k TaskSkipped at ''upstream task failed'') = Inr s' \<and> quiet s s' \<and>
           k < length visited \<and> k < length (cw_successors cw) \<and>
           walk_inv cw D at ts (queue @ cw_successors cw ! k) (visited[k := True]) s'"
proof -
  let ?V = "marked visited"
  have k: "k \<in> D" "k < length ts" "k < length visited" "k < length (cw_successors cw)"
    and ts: "run_tasks s = skipped_in ?V at ts" and wait: "isTaskTerminal (tr_Status (ts ! k)) \<or> tr_Status (ts ! k) = TaskWaitingDependencies"
    using inv by (auto simp: walk_inv_def Let_def)
  have new: "k \<notin> ?V" using assms(2) by (simp add: marked_def)
  have same: "run_tasks s ! k = ts ! k" using ts k new by simp
  obtain s' where s': "(if isTaskTerminal (status_of s k) then Inr s
      else transitionTask s k TaskSkipped at ''upstream task failed'') = Inr s'" "quiet s s'"
    "run_tasks s' = skipped_in (insert k ?V) at ts"
  proof (cases "isTaskTerminal (status_of s k)")
    case True
    then show ?thesis using that [of s] ts same skipped_in_insert [of k ts ?V at] k new by simp
  next
    case False
    then have "taskTransitions (status_of s k) TaskSkipped" using wait same by simp
    then show ?thesis using that task_step [of k s TaskSkipped at] ts same k new False
      by (force simp: skipped_in_insert)
  qed
  moreover have "walk_inv cw D at ts (queue @ cw_successors cw ! k) (visited[k := True]) s'"
    using inv k s'(3) unfolding walk_inv_def Let_def visited_insert [OF k(3)] by auto
  ultimately show ?thesis using k by auto
qed

lemma skip_walk_returns:
  assumes "walk_inv cw D at ts queue visited s"
  shows "\<exists>s' V. skip_walk cw at queue visited s = Inr s' \<and> quiet s s' \<and> run_tasks s' = skipped_in V at ts \<and>
           marked visited \<union> set queue \<subseteq> V \<and> V \<subseteq> D \<and>
           (\<forall>k \<in> V. set (cw_successors cw ! k) \<subseteq> V)"
  using assms
proof (induction cw at queue visited s rule: skip_walk.induct)
  case (1 cw at visited s)
  then show ?case
    by (intro exI [of _ s] exI [of _ "marked visited"]) (auto simp: walk_inv_def Let_def)
next
  case (2 cw at k queue visited s)
  have k: "\<not> length visited \<le> k" using 2(3) by (auto simp: walk_inv_def Let_def)
  show ?case
  proof (cases "visited ! k")
    case True
    with k have "k \<in> marked visited" by (simp add: marked_def)
    with 2(3) have "walk_inv cw D at ts queue visited s" and "k \<in> marked visited" by (auto simp: walk_inv_def Let_def)
    with 2(1) k True show ?thesis by fastforce
  next
    case False
    then obtain s1 where s1: "(if isTaskTerminal (status_of s k) then Inr s
        else transitionTask s k TaskSkipped at ''upstream task failed'') = Inr s1" "quiet s s1"
      "\<not> length (cw_successors cw) \<le> k"
      "walk_inv cw D at ts (queue @ cw_successors cw ! k) (visited[k := True]) s1"
      using walk_visit [OF 2(3)] by auto
    from 2(2) [OF k False s1(1,3,4)] obtain s' V where
      rec: "skip_walk cw at (queue @ cw_successors cw ! k) (visited[k := True]) s1 = Inr s'" "quiet s1 s'"
        "run_tasks s' = skipped_in V at ts" "V \<subseteq> D" "\<forall>k \<in> V. set (cw_successors cw ! k) \<subseteq> V"
        "insert k (marked visited) \<union> set (queue @ cw_successors cw ! k) \<subseteq> V"
      using k by (auto simp: visited_insert)
    have "skip_walk cw at (k # queue) visited s = Inr s'" using k False s1(1,3) rec(1) by simp
    with rec quiet_trans [OF s1(2) rec(2)] show ?thesis by (intro exI [of _ s'] exI [of _ V]) auto
  qed
qed

lemma skipDescendantsFrom_returns:
  assumes wf: "wf_compiled cw" and len: "length (run_tasks s) = task_count cw" and F: "set fs \<subseteq> {..<task_count cw}"
    and wait: "\<And>k. k \<in> below_any cw (set fs) \<Longrightarrow> \<not> isTaskTerminal (status_of s k) \<Longrightarrow> status_of s k = TaskWaitingDependencies"
  shows "\<exists>s'. skipDescendantsFrom s cw fs at = Inr s' \<and> quiet s s' \<and>
           run_tasks s' = skipped_in (below_any cw (set fs)) at (run_tasks s)"
proof -
  let ?D = "below_any cw (set fs)" and ?queue = "concat (map ((!) (cw_successors cw)) fs)"
  have succ: "set (cw_successors cw ! k) = {i. (k, i) \<in> edges cw}" if "k < task_count cw" for k
    using wf_successors(3) [OF wf that] .
  have lt: "k < task_count cw" if "k \<in> ?D" for k using that below_lt by (auto simp: below_any_def)
  have none: "marked (replicate (length (run_tasks s)) False) = {}" by (auto simp: marked_def)
  have "set ?queue \<subseteq> ?D"
  proof
    fix k assume "k \<in> set ?queue"
    then obtain f where f: "f \<in> set fs" "k \<in> set (cw_successors cw ! f)" by auto
    then have "(f, k) \<in> edges cw" using succ [of f] F by auto
    with f(1) show "k \<in> ?D" by (blast intro: below_any_dep_in)
  qed
  moreover have "\<forall>k \<in> ?D. set (cw_successors cw ! k) \<subseteq> ?D"
    using succ lt below_any_dep_in [of _ _ cw "set fs"] by blast
  ultimately have "walk_inv cw ?D at (run_tasks s) ?queue (replicate (length (run_tasks s)) False) s"
    using wf_successors(1) [OF wf] lt wait len
    unfolding walk_inv_def none by (simp add: Let_def subset_iff)
  from skip_walk_returns [OF this] obtain s' V where
    w: "skip_walk cw at ?queue (replicate (length (run_tasks s)) False) s = Inr s'" "quiet s s'"
      "run_tasks s' = skipped_in V at (run_tasks s)" "set ?queue \<subseteq> V" "V \<subseteq> ?D"
      "\<forall>k \<in> V. set (cw_successors cw ! k) \<subseteq> V"
    by blast
  have "below cw f \<subseteq> V" if f: "f \<in> set fs" for f
  proof (rule below_least)
    show "{i. (f, i) \<in> edges cw} \<subseteq> V" using w(4) succ f F by fastforce
    show "i \<in> V" if "k \<in> V" "(k, i) \<in> edges cw" for k i
      using that w(5,6) succ [of k] lt by blast
  qed
  with w(5) have "V = ?D" by (auto simp: below_any_def)
  moreover have "\<not> list_ex (\<lambda>i. length (cw_successors cw) \<le> i) fs"
    using F wf_successors(1) [OF wf] by (auto simp: list_ex_iff)
  ultimately show ?thesis using w by (simp add: skipDescendantsFrom_def)
qed

lemma below_any_single [simp]: "below_any cw {f} = below cw f"
  by (simp add: below_any_def)

section \<open>Releasing successors\<close>

definition calm :: "RunSnapshot \<Rightarrow> RunSnapshot \<Rightarrow> bool" where
  "calm s s' \<longleftrightarrow>
     evolves s s' \<and> run_status s' = run_status s \<and>
     wr_StartedAt (rs_Run s') = wr_StartedAt (rs_Run s) \<and> wr_FinishedAt (rs_Run s') = wr_FinishedAt (rs_Run s)"

lemma calm_refl [simp, intro]: "calm s s"
  by (simp add: calm_def)

lemma calm_trans [trans]: "calm s t \<Longrightarrow> calm t u \<Longrightarrow> calm s u"
  by (auto simp: calm_def intro: evolves_trans)

lemma quiet_calm: "quiet s s' \<Longrightarrow> calm s s'"
  by (simp add: quiet_def calm_def)

definition released :: "nat set \<Rightarrow> time \<Rightarrow> int list \<Rightarrow> TaskRun list \<Rightarrow> TaskRun list" where
  "released K at rem ts =
     map (\<lambda>k. if k \<in> K \<and> rem ! k = 1 then entered TaskReady at (ts ! k) else ts ! k) [0 ..< length ts]"

definition lowered :: "nat set \<Rightarrow> int list \<Rightarrow> int list" where
  "lowered K rem = map (\<lambda>k. rem ! k - (if k \<in> K then 1 else 0)) [0 ..< length rem]"

lemma released_simps [simp]:
  "length (released K at rem ts) = length ts"
  "k < length ts \<Longrightarrow> released K at rem ts ! k = (if k \<in> K \<and> rem ! k = 1 then entered TaskReady at (ts ! k) else ts ! k)"
  "released {} at rem ts = ts"
  by (auto simp: released_def intro!: nth_equalityI)

lemma lowered_simps [simp]:
  "length (lowered K rem) = length rem"
  "k < length rem \<Longrightarrow> lowered K rem ! k = rem ! k - (if k \<in> K then 1 else 0)"
  "lowered {} rem = rem"
  by (auto simp: lowered_def intro!: nth_equalityI)

lemma release_one:
  assumes k: "k < length (run_tasks s)" "length (run_remaining s) = length (run_tasks s)"
    and pos: "1 \<le> run_remaining s ! k" and wait: "run_remaining s ! k = 1 \<Longrightarrow> status_of s k = TaskWaitingDependencies"
  shows "\<exists>s'. release_successor at k s = Inr s' \<and> calm s s' \<and>
           run_tasks s' = released {k} at (run_remaining s) (run_tasks s) \<and>
           run_remaining s' = lowered {k} (run_remaining s)"
proof -
  let ?s = "upd_run (\<lambda>r. r\<lparr>wr_RemainingDependencies :=
    (wr_RemainingDependencies r)[k := wr_RemainingDependencies r ! k - 1]\<rparr>) s"
  have calm: "calm s ?s" using evolves_upd_status(4) by (simp add: calm_def)
  have rem: "run_remaining ?s = lowered {k} (run_remaining s)"
    using k by (auto intro!: nth_equalityI simp: nth_list_update)
  show ?thesis
  proof (cases "run_remaining s ! k = 1")
    case True
    then obtain s' where s': "transitionTask ?s k TaskReady at ''dependencies succeeded'' = Inr s'" "quiet ?s s'"
      "run_tasks s' = (run_tasks s)[k := entered TaskReady at (run_tasks s ! k)]"
      using task_step [of k ?s TaskReady at "''dependencies succeeded''"] k wait by auto
    have "run_tasks s' = released {k} at (run_remaining s) (run_tasks s)"
      using s'(3) True k by (auto intro!: nth_equalityI simp: nth_list_update)
    moreover have "run_remaining s' = lowered {k} (run_remaining s)" using quietD(2) [OF s'(2)] rem by simp
    moreover have "release_successor at k s = Inr s'" using True k s'(1) by (simp add: release_successor_def Let_def)
    ultimately show ?thesis using calm_trans [OF calm quiet_calm [OF s'(2)]] by blast
  next
    case False
    have "run_tasks ?s = released {k} at (run_remaining s) (run_tasks s)"
      using False by (auto intro!: nth_equalityI)
    moreover have "release_successor at k s = Inr ?s"
      using False k pos by (simp add: release_successor_def Let_def)
    ultimately show ?thesis using calm rem by blast
  qed
qed

lemma release_returns:
  assumes "distinct xs" and "set xs \<subseteq> {..<length (run_tasks s)}" and "length (run_remaining s) = length (run_tasks s)"
    and "\<And>k. k \<in> set xs \<Longrightarrow> 1 \<le> run_remaining s ! k \<and> (run_remaining s ! k = 1 \<longrightarrow> status_of s k = TaskWaitingDependencies)"
  shows "\<exists>s'. foldR (release_successor at) xs s = Inr s' \<and> calm s s' \<and>
           run_tasks s' = released (set xs) at (run_remaining s) (run_tasks s) \<and>
           run_remaining s' = lowered (set xs) (run_remaining s)"
  using assms
proof (induction xs arbitrary: s)
  case (Cons k xs)
  obtain s1 where s1: "release_successor at k s = Inr s1" "calm s s1"
    "run_tasks s1 = released {k} at (run_remaining s) (run_tasks s)"
    "run_remaining s1 = lowered {k} (run_remaining s)"
    using release_one [of k s at] Cons.prems by auto
  have len: "length (run_remaining s1) = length (run_tasks s1)" using s1 Cons.prems by simp
  have "\<exists>s'. foldR (release_successor at) xs s1 = Inr s' \<and> calm s1 s' \<and>
      run_tasks s' = released (set xs) at (run_remaining s1) (run_tasks s1) \<and>
      run_remaining s' = lowered (set xs) (run_remaining s1)"
    using Cons.prems s1(3,4) len by (intro Cons.IH) (auto simp: subset_iff)
  then obtain s' where s': "foldR (release_successor at) xs s1 = Inr s'" "calm s1 s'"
    "run_tasks s' = released (set xs) at (run_remaining s1) (run_tasks s1)"
    "run_remaining s' = lowered (set xs) (run_remaining s1)" by blast
  have "run_tasks s' = released (set (k # xs)) at (run_remaining s) (run_tasks s)"
    using s'(3) s1(3,4) Cons.prems by (auto intro!: nth_equalityI)
  moreover have "run_remaining s' = lowered (set (k # xs)) (run_remaining s)"
    using s'(4) s1(4) Cons.prems by (auto intro!: nth_equalityI)
  ultimately show ?case using s1(1) s'(1) calm_trans [OF s1(2) s'(2)] by auto
qed simp

section \<open>Settling the workflow\<close>

lemma settle_returns:
  assumes run: "run_status s = WorkflowRunning"
    and mixed: "list_all (\<lambda>t. isTaskTerminal (tr_Status t)) (run_tasks s) \<Longrightarrow> hasFailedTask (run_tasks s) \<or> allTasksSucceeded (run_tasks s)"
  shows "\<exists>s'. settleWorkflowIfComplete s at = Inr s' \<and> evolves s s' \<and> run_tasks s' = run_tasks s \<and>
           run_remaining s' = run_remaining s \<and> wr_StartedAt (rs_Run s') = wr_StartedAt (rs_Run s) \<and>
           (if list_ex (\<lambda>t. \<not> isTaskTerminal (tr_Status t)) (run_tasks s) then s' = s
            else run_status s' = (if hasFailedTask (run_tasks s) then WorkflowFailed else WorkflowSucceeded) \<and>
                 wr_FinishedAt (rs_Run s') = Some at)"
proof (cases "list_ex (\<lambda>t. \<not> isTaskTerminal (tr_Status t)) (run_tasks s)")
  case True
  then show ?thesis by (simp add: settleWorkflowIfComplete_def)
next
  case False
  then have "list_all (\<lambda>t. isTaskTerminal (tr_Status t)) (run_tasks s)" by (auto simp: list_ex_iff list_all_iff)
  note mixed = mixed [OF this]
  define to where "to = (if hasFailedTask (run_tasks s) then WorkflowFailed else WorkflowSucceeded)"
  define reason where "reason = (if hasFailedTask (run_tasks s) then ''one or more tasks failed'' else ''all tasks succeeded'')"
  have "workflowTransitions (run_status s) to" using run by (simp add: to_def)
  then obtain s' where s': "transitionWorkflow s to at reason = Inr s'" using transitionWorkflow_returns by blast
  have "settleWorkflowIfComplete s at = Inr s'"
    using False mixed s' by (auto simp: settleWorkflowIfComplete_def to_def reason_def)
  with transitionWorkflow_effect [OF s'] False show ?thesis by (auto simp: to_def)
qed

section \<open>Attempt histories\<close>

definition finished :: "AttemptStatus \<Rightarrow> time \<Rightarrow> ExecutionResult \<Rightarrow> TaskRun \<Rightarrow> TaskRun" where
  "finished a at res t =
     t\<lparr>tr_Attempts := butlast (tr_Attempts t) @
        [(last (tr_Attempts t))\<lparr>at_Result := res, at_Status := a, at_FinishedAt := Some at\<rparr>]\<rparr>"

lemma finished_simps [simp]:
  "tr_Key (finished a at res t) = tr_Key t" "tr_Status (finished a at res t) = tr_Status t"
  "tr_ReadyAt (finished a at res t) = tr_ReadyAt t" "tr_FinishedAt (finished a at res t) = tr_FinishedAt t"
  by (simp_all add: finished_def)

lemma history_running:
  assumes "history_ok limit t" and "tr_Status t = TaskRunning"
  obtains bs b where "tr_Attempts t = bs @ [b]" and "at_Status b = AttemptRunning"
    and "at_Number b = int (Suc (length bs))" and "Suc (length bs) \<le> nat limit" and "0 < limit"
    and "map at_Number bs = map int [1 ..< Suc (length bs)]"
    and "list_all (\<lambda>a. isRetryableAttemptStatus (at_Status a)) bs"
    and "list_all (\<lambda>a. (at_FinishedAt a = None) = (at_Status a = AttemptRunning)) bs"
    and "tr_ReadyAt t = None" and "tr_FinishedAt t = None"
proof -
  have ne: "tr_Attempts t \<noteq> []" using assms by (auto simp: history_ok_def Let_def)
  define bs b where "bs = butlast (tr_Attempts t)" and "b = last (tr_Attempts t)"
  then have split: "tr_Attempts t = bs @ [b]" using ne by simp
  show thesis
    by (rule that [OF split]) (use assms in \<open>auto simp: history_ok_def Let_def split\<close>)
qed

lemma finished_history:
  assumes "history_ok limit t" and "tr_Status t = TaskRunning" and "a \<noteq> AttemptRunning"
    and "to = TaskWaitingRetry \<and> isRetryableAttemptStatus a \<and> int (length (tr_Attempts t)) < limit \<or>
         to = TaskFailed \<and> (a = AttemptFailed \<or> isRetryableAttemptStatus a \<and> int (length (tr_Attempts t)) = limit) \<or>
         to = TaskSucceeded \<and> a = AttemptSucceeded \<or> to = TaskCanceled \<and> a = AttemptCanceled"
  shows "history_ok limit ((entered to at (finished a at res t))\<lparr>tr_ReadyAt := (if to = TaskWaitingRetry then Some r else None)\<rparr>)"
  by (rule history_running [OF assms(1,2)]) (use assms(3,4) in \<open>auto simp: history_ok_def Let_def finished_def\<close>)

lemma entered_ReadyAt: "to \<noteq> TaskWaitingRetry \<Longrightarrow> (entered to at t)\<lparr>tr_ReadyAt := None\<rparr> = entered to at t"
  by (simp add: entered_def)

lemma retryable_cases: "isRetryableAttemptStatus a \<Longrightarrow> a \<noteq> AttemptRunning"
  by (auto simp: isRetryableAttemptStatus_def)

text \<open>A task that is not running keeps its attempts when its status changes.\<close>

lemma entered_history:
  assumes "history_ok limit t" and "tr_Status t \<noteq> TaskRunning" and "taskTransitions (tr_Status t) to"
    and "to = TaskReady \<and> (tr_Status t = TaskWaitingDependencies \<longrightarrow> 0 < limit) \<or> to = TaskQueued \<or> to = TaskSkipped \<and> tr_Status t = TaskWaitingDependencies \<or> to = TaskCanceled"
  shows "history_ok limit (entered to at t)"
  using assms by (cases "tr_Status t") (auto simp: history_ok_def Let_def)

section \<open>Putting the invariant together\<close>

lemma shape_evolves: "shape_ok cw s \<Longrightarrow> evolves s s' \<Longrightarrow> shape_ok cw s'"
  by (simp add: shape_ok_def evolves_def same_frame_def)

lemma shape_length: "shape_ok cw s \<Longrightarrow> length (run_tasks s) = task_count cw \<and> length (run_remaining s) = task_count cw"
  unfolding shape_ok_def by (metis length_map)

lemma history_not_other: "history_ok limit t \<Longrightarrow> tr_Status t \<noteq> TaskOther w"
  by (auto simp: history_ok_def Let_def)

definition histories_ok :: "CompiledWorkflow \<Rightarrow> TaskRun list \<Rightarrow> bool" where
  "histories_ok cw ts \<longleftrightarrow> (\<forall>i < task_count cw. history_ok (max_attempts cw i) (ts ! i))"

text \<open>What holds of a running workflow between an operation on a task and the settlement.\<close>

definition open_inv :: "CompiledWorkflow \<Rightarrow> RunSnapshot \<Rightarrow> bool" where
  "open_inv cw s \<longleftrightarrow>
     shape_ok cw s \<and> clock_ok (rs_Run s) \<and> run_status s = WorkflowRunning \<and>
     histories_ok cw (run_tasks s) \<and> graph_ok cw (status_of s) ((!) (run_remaining s)) \<and>
     list_all (\<lambda>t. tr_Status t \<noteq> TaskCanceled) (run_tasks s)"

lemma run_inv_open: "run_inv cw s \<Longrightarrow> run_status s = WorkflowRunning \<Longrightarrow> open_inv cw s"
  by (simp add: run_inv_def open_inv_def histories_ok_def)

lemma open_run_inv:
  "open_inv cw s \<Longrightarrow> list_ex (\<lambda>t. \<not> isTaskTerminal (tr_Status t)) (run_tasks s) \<Longrightarrow> run_inv cw s"
  by (simp add: run_inv_def open_inv_def histories_ok_def)

lemma clock_calm: "clock_ok (rs_Run s) \<Longrightarrow> calm s s' \<Longrightarrow> clock_ok (rs_Run s')"
  by (simp add: clock_ok_def calm_def)

lemma open_inv_calm:
  assumes "open_inv cw s" and "calm s s'" and "histories_ok cw (run_tasks s')"
    and "graph_ok cw (status_of s') ((!) (run_remaining s'))"
    and "\<And>k. k < task_count cw \<Longrightarrow> status_of s' k \<noteq> TaskCanceled"
  shows "open_inv cw s'"
proof -
  have "shape_ok cw s'" using assms(1,2) shape_evolves by (auto simp: open_inv_def calm_def)
  with assms shape_length show ?thesis by (auto simp: open_inv_def calm_def list_all_length clock_ok_def)
qed

lemma open_not_mixed:
  assumes wf: "wf_compiled cw" and inv: "open_inv cw s"
    and t: "list_all (\<lambda>t. isTaskTerminal (tr_Status t)) (run_tasks s)"
  shows "hasFailedTask (run_tasks s) \<or> allTasksSucceeded (run_tasks s)"
proof (cases "hasFailedTask (run_tasks s)")
  case False
  have len: "length (run_tasks s) = task_count cw" using inv shape_length by (auto simp: open_inv_def)
  have "status_of s k = TaskSucceeded" if "k < task_count cw" for k
    using inv t False len that
    by (intro terminal_not_mixed [OF wf]) (auto simp: open_inv_def list_all_length list_ex_length hasFailedTask_def)
  then show ?thesis using len by (auto simp: allTasksSucceeded_def list_all_length)
qed simp

lemma settle_inv:
  assumes wf: "wf_compiled cw" and inv: "open_inv cw s"
  shows "\<exists>s'. settleWorkflowIfComplete s at = Inr s' \<and> evolves s s' \<and> run_tasks s' = run_tasks s \<and> run_inv cw s'"
proof -
  have run: "run_status s = WorkflowRunning" and shape: "shape_ok cw s" and clock: "clock_ok (rs_Run s)"
    using inv by (simp_all add: open_inv_def)
  note mixed = open_not_mixed [OF wf inv]
  obtain s' where s': "settleWorkflowIfComplete s at = Inr s'" "evolves s s'" "run_tasks s' = run_tasks s"
    "run_remaining s' = run_remaining s" "wr_StartedAt (rs_Run s') = wr_StartedAt (rs_Run s)"
    and fin: "if list_ex (\<lambda>t. \<not> isTaskTerminal (tr_Status t)) (run_tasks s) then s' = s
            else run_status s' = (if hasFailedTask (run_tasks s) then WorkflowFailed else WorkflowSucceeded) \<and>
                 wr_FinishedAt (rs_Run s') = Some at"
    using settle_returns [OF run mixed, of at] by blast
  have "run_inv cw s'"
  proof (cases "list_ex (\<lambda>t. \<not> isTaskTerminal (tr_Status t)) (run_tasks s)")
    case True
    with fin inv show ?thesis by (simp add: open_run_inv)
  next
    case False
    then have t: "list_all (\<lambda>t. isTaskTerminal (tr_Status t)) (run_tasks s)" by (auto simp: list_ex_iff list_all_iff)
    have "clock_ok (rs_Run s')" using fin False clock run s'(5) by (auto simp: clock_ok_def)
    moreover have "phase_ok (run_status s') (run_tasks s')"
      using fin False mixed [OF t] t inv s'(3) by (auto simp: open_inv_def list_all_iff)
    ultimately show ?thesis using inv s' shape_evolves [OF shape s'(2)]
      by (simp add: run_inv_def open_inv_def histories_ok_def)
  qed
  with s' show ?thesis by blast
qed

section \<open>A running task ends\<close>

text \<open>The situation after the last attempt of task \<open>i\<close> has been given its final status:
  \<open>s\<close> is the run before, \<open>t\<close> the task with the finished attempt.\<close>

definition ending :: "CompiledWorkflow \<Rightarrow> RunSnapshot \<Rightarrow> nat \<Rightarrow> TaskRun \<Rightarrow> RunSnapshot \<Rightarrow> bool" where
  "ending cw s i t s1 \<longleftrightarrow>
     wf_compiled cw \<and> open_inv cw s \<and> i < task_count cw \<and> status_of s i = TaskRunning \<and>
     tr_Status t = TaskRunning \<and> quiet s s1 \<and> run_tasks s1 = (run_tasks s)[i := t]"

lemma endingD:
  assumes "ending cw s i t s1"
  shows "wf_compiled cw" and "open_inv cw s" and "i < task_count cw" and "length (run_tasks s) = task_count cw"
    and "length (run_remaining s) = task_count cw" and "active (status_of s i)" and "status_of s i = TaskRunning"
    and "k < task_count cw \<Longrightarrow> status_of s k \<noteq> TaskCanceled" and "k < task_count cw \<Longrightarrow> status_of s k \<noteq> TaskOther w"
    and "k < task_count cw \<Longrightarrow> history_ok (max_attempts cw k) (run_tasks s ! k)"
    and "graph_ok cw (status_of s) ((!) (run_remaining s))"
  using assms shape_length history_not_other
  by (auto simp: ending_def open_inv_def active_def list_all_length histories_ok_def)

lemma ending_step:
  assumes e: "ending cw s i t s1" and to: "taskTransitions TaskRunning to"
  shows "\<exists>s2. transitionTask s1 i to at reason = Inr s2 \<and> quiet s s2 \<and> run_tasks s2 = (run_tasks s)[i := entered to at t]"
proof -
  have "i < length (run_tasks s1)" "run_tasks s1 ! i = t" using e endingD(3,4) [OF e] by (auto simp: ending_def)
  with task_step [of i s1 to at reason] e to show ?thesis
    by (auto simp: ending_def intro: quiet_trans)
qed

lemma ending_retry:
  assumes e: "ending cw s i t s1" and h: "history_ok (max_attempts cw i) ((entered TaskWaitingRetry at t)\<lparr>tr_ReadyAt := Some r\<rparr>)"
  shows "\<exists>s2 s'. transitionTask s1 i TaskWaitingRetry at reason = Inr s2 \<and>
           s' = upd_task i (\<lambda>t. t\<lparr>tr_ReadyAt := Some r\<rparr>) s2 \<and> evolves s s' \<and> run_inv cw s' \<and>
           run_tasks s' = (run_tasks s)[i := (entered TaskWaitingRetry at t)\<lparr>tr_ReadyAt := Some r\<rparr>]"
proof -
  note d = endingD [OF e]
  obtain s2 where s2: "transitionTask s1 i TaskWaitingRetry at reason = Inr s2" "quiet s s2"
    "run_tasks s2 = (run_tasks s)[i := entered TaskWaitingRetry at t]" using ending_step [OF e, of TaskWaitingRetry at reason] by auto
  define s' where "s' = upd_task i (\<lambda>t. t\<lparr>tr_ReadyAt := Some r\<rparr>) s2"
  have q: "quiet s s'" using s2(2) quiet_upd_task [of "\<lambda>t. t\<lparr>tr_ReadyAt := Some r\<rparr>"] by (auto simp: s'_def intro: quiet_trans)
  have ts: "run_tasks s' = (run_tasks s)[i := (entered TaskWaitingRetry at t)\<lparr>tr_ReadyAt := Some r\<rparr>]"
    using s2(3) d(3,4) by (simp add: s'_def)
  have st: "status_of s' k = ((status_of s)(i := TaskWaitingRetry)) k" if "k < task_count cw" for k
    using ts d(4) that by (simp add: nth_list_update)
  have "open_inv cw s'"
  proof (rule open_inv_calm [OF d(2) quiet_calm [OF q]])
    show "histories_ok cw (run_tasks s')" using d(4,10) h by (auto simp: ts histories_ok_def nth_update_if)
    show "graph_ok cw (status_of s') ((!) (run_remaining s'))"
      by (rule graph_ok_cong [OF d(1) st _ graph_ok_active [OF d(11) d(6)]]) (use quietD(2) [OF q] in \<open>auto simp: active_def\<close>)
    show "status_of s' k \<noteq> TaskCanceled" if "k < task_count cw" for k using st [OF that] d(8) [OF that] by simp
  qed
  moreover have "list_ex (\<lambda>t. \<not> isTaskTerminal (tr_Status t)) (run_tasks s')"
    using st [OF d(3)] d(3,4) ts by (auto simp: list_ex_length intro!: exI [of _ i])
  ultimately have "run_inv cw s'" by (rule open_run_inv)
  with s2(1) quietD(1) [OF q] ts show ?thesis by (simp add: s'_def)
qed

lemma ending_fail:
  assumes e: "ending cw s i t s1" and h: "history_ok (max_attempts cw i) (entered TaskFailed at t)"
  shows "\<exists>s2 s3 s'. transitionTask s1 i TaskFailed at reason = Inr s2 \<and> skipDescendants s2 cw i at = Inr s3 \<and>
           settleWorkflowIfComplete s3 at = Inr s' \<and> evolves s s' \<and> run_inv cw s' \<and>
           run_tasks s' = skipped_in (below cw i) at ((run_tasks s)[i := entered TaskFailed at t])"
proof -
  note d = endingD [OF e]
  let ?ts = "(run_tasks s)[i := entered TaskFailed at t]"
  obtain s2 where s2: "transitionTask s1 i TaskFailed at reason = Inr s2" "quiet s s2"
    "run_tasks s2 = ?ts" using ending_step [OF e, of TaskFailed at reason] by auto
  have wait: "status_of s k = TaskWaitingDependencies \<or> status_of s k = TaskSkipped" if "k \<in> below cw i" for k
    using below_waiting [OF d(11) _ that] d(7,8,9) below_lt [OF that] by simp
  have ni: "i \<notin> below cw i" using below_irrefl [OF d(1)] .
  have "\<exists>s3. skipDescendantsFrom s2 cw [i] at = Inr s3 \<and> quiet s2 s3 \<and> run_tasks s3 = skipped_in (below_any cw (set [i])) at (run_tasks s2)"
  proof (rule skipDescendantsFrom_returns)
    fix k assume "k \<in> below_any cw (set [i])" and "\<not> isTaskTerminal (status_of s2 k)"
    then show "status_of s2 k = TaskWaitingDependencies" using wait [of k] ni s2(3) by (auto simp: nth_update_if)
  qed (use d(1,3,4) s2(3) in auto)
  then obtain s3 where s3: "skipDescendants s2 cw i at = Inr s3" "quiet s2 s3"
    "run_tasks s3 = skipped_in (below cw i) at ?ts" using s2(3) by (auto simp: skipDescendants_def)
  have q: "quiet s s3" using s2(2) s3(2) by (rule quiet_trans)
  have st: "status_of s3 k = after_failure cw {i} (status_of s) k" if "k < task_count cw" for k
    using s3(3) d(4) that ni by (auto simp: nth_list_update after_failure_def)
  have hist: "history_ok (max_attempts cw k) (run_tasks s3 ! k)" if k: "k < task_count cw" for k
  proof -
    consider "k = i" | "k \<noteq> i" "k \<in> below cw i" "\<not> isTaskTerminal (status_of s k)" | "k \<noteq> i" "run_tasks s3 ! k = run_tasks s ! k"
      using s3(3) d(4) k by (cases "k \<in> below cw i \<and> \<not> isTaskTerminal (status_of s k)") (auto simp: nth_update_if)
    then show ?thesis
    proof cases
      case 1 with h s3(3) d(4) k ni show ?thesis by simp
    next
      case 2
      then have "status_of s k = TaskWaitingDependencies" using wait by force
      with 2 s3(3) d(4) k d(10) [OF k] show ?thesis by (auto simp: nth_list_update intro!: entered_history)
    qed (use d(10) k in simp)
  qed
  have "open_inv cw s3"
  proof (rule open_inv_calm [OF d(2) quiet_calm [OF q]])
    show "histories_ok cw (run_tasks s3)" using hist by (simp add: histories_ok_def)
    show "graph_ok cw (status_of s3) ((!) (run_remaining s3))"
      by (rule graph_ok_cong [OF d(1) st _ graph_ok_failure [OF d(1,11) _ d(8,9)]]) (simp_all add: quietD(2) [OF q] d(3,6))
    show "status_of s3 k \<noteq> TaskCanceled" if "k < task_count cw" for k
      using st [OF that] d(8) [OF that] by (simp add: after_failure_def)
  qed
  from settle_inv [OF d(1) this, of at] obtain s' where s': "settleWorkflowIfComplete s3 at = Inr s'" "evolves s3 s'"
    "run_tasks s' = run_tasks s3" "run_inv cw s'" by blast
  have "evolves s s'" using quietD(1) [OF q] s'(2) by (rule evolves_trans)
  with s' s2(1) s3(1,3) show ?thesis by auto
qed

lemma ending_success:
  assumes e: "ending cw s i t s1" and h: "history_ok (max_attempts cw i) (entered TaskSucceeded at t)"
  shows "\<exists>s2 s3 s'. transitionTask s1 i TaskSucceeded at reason = Inr s2 \<and>
           foldR (release_successor at) (cw_successors cw ! i) s2 = Inr s3 \<and>
           settleWorkflowIfComplete s3 at = Inr s' \<and> evolves s s' \<and> run_inv cw s' \<and>
           run_tasks s' = released (set (cw_successors cw ! i)) at (run_remaining s) ((run_tasks s)[i := entered TaskSucceeded at t])"
proof -
  note d = endingD [OF e]
  let ?ts = "(run_tasks s)[i := entered TaskSucceeded at t]"
  let ?rem = "(!) (run_remaining s)"
  note succ = wf_successors(2,3) [OF d(1,3)]
  obtain s2 where s2: "transitionTask s1 i TaskSucceeded at reason = Inr s2" "quiet s s2"
    "run_tasks s2 = ?ts" using ending_step [OF e, of TaskSucceeded at reason] by auto
  note r2 = quietD(2) [OF s2(2)]
  have ni: "(i, i) \<notin> edges cw" using below_irrefl [OF d(1)] below_dep_in by blast
  have pos: "1 \<le> ?rem k" if "(i, k) \<in> edges cw" for k
  proof -
    have k: "k < task_count cw" "i \<in> deps_of cw k" using that by (auto simp: edges_def)
    then have "pending cw (status_of s) k \<noteq> 0" using d(7) unfolding pending_0_iff by force
    with d(11) k show ?thesis by (simp add: graph_ok_def)
  qed
  have wait: "status_of s k = TaskWaitingDependencies" if "(i, k) \<in> edges cw" "?rem k = 1" for k
    using released_was_waiting [OF d(1,11) that d(6)] d(8,9) that by (auto simp: edges_def)
  have "\<exists>s3. foldR (release_successor at) (cw_successors cw ! i) s2 = Inr s3 \<and> calm s2 s3 \<and>
      run_tasks s3 = released (set (cw_successors cw ! i)) at (run_remaining s2) (run_tasks s2) \<and>
      run_remaining s3 = lowered (set (cw_successors cw ! i)) (run_remaining s2)"
  proof (rule release_returns [OF succ(1)])
    fix k assume "k \<in> set (cw_successors cw ! i)"
    then have "(i, k) \<in> edges cw" and "k \<noteq> i" using succ(2) ni by auto
    then show "1 \<le> run_remaining s2 ! k \<and> (run_remaining s2 ! k = 1 \<longrightarrow> status_of s2 k = TaskWaitingDependencies)"
      using pos wait r2 s2(3) by simp
  qed (use succ(2) r2 s2(3) d(4,5) in \<open>auto simp: edges_def\<close>)
  then obtain s3 where s3: "foldR (release_successor at) (cw_successors cw ! i) s2 = Inr s3" "calm s2 s3"
    "run_tasks s3 = released {k. (i, k) \<in> edges cw} at (run_remaining s) ?ts"
    "run_remaining s3 = lowered {k. (i, k) \<in> edges cw} (run_remaining s)" using r2 s2(3) succ(2) by auto
  have c: "calm s s3" using quiet_calm [OF s2(2)] s3(2) by (rule calm_trans)
  have st: "status_of s3 k = after_success cw i ?rem (status_of s) k" if "k < task_count cw" for k
    using s3(3) d(4) that ni by (auto simp: nth_list_update after_success_def)
  have rem: "run_remaining s3 ! k = rem_after cw i ?rem k" if "k < task_count cw" for k
    using s3(4) d(5) that by (simp add: rem_after_def)
  have hist: "history_ok (max_attempts cw k) (run_tasks s3 ! k)" if k: "k < task_count cw" for k
  proof -
    consider "k = i" | "k \<noteq> i" "(i, k) \<in> edges cw" "?rem k = 1" | "k \<noteq> i" "run_tasks s3 ! k = run_tasks s ! k"
      using s3(3) d(4) k by (cases "(i, k) \<in> edges cw \<and> ?rem k = 1") (auto simp: nth_update_if)
    then show ?thesis
    proof cases
      case 1 with h s3(3) d(4) k ni show ?thesis by simp
    next
      case 2
      have "0 < max_attempts cw k" using wf_attributes(1) [OF d(1) k] by simp
      moreover have "run_tasks s3 ! k = entered TaskReady at (run_tasks s ! k)" using 2 s3(3) d(4) k by simp
      ultimately show ?thesis using d(10) [OF k] wait [OF 2(2,3)] by (simp add: entered_history)
    qed (use d(10) k in simp)
  qed
  have "open_inv cw s3"
  proof (rule open_inv_calm [OF d(2) c])
    show "histories_ok cw (run_tasks s3)" using hist by (simp add: histories_ok_def)
    show "graph_ok cw (status_of s3) ((!) (run_remaining s3))"
      by (rule graph_ok_cong [OF d(1) st rem graph_ok_success [OF d(1,11,3,6,8,9)]])
    show "status_of s3 k \<noteq> TaskCanceled" if "k < task_count cw" for k
      using st [OF that] d(8) [OF that] by (simp add: after_success_def)
  qed
  from settle_inv [OF d(1) this, of at] obtain s' where s': "settleWorkflowIfComplete s3 at = Inr s'" "evolves s3 s'"
    "run_tasks s' = run_tasks s3" "run_inv cw s'" by blast
  have "evolves s s'" using c s'(2) by (auto simp: calm_def intro: evolves_trans)
  with s' s2(1) s3(1,3) show ?thesis unfolding succ(2) by auto
qed

section \<open>The operations on an attempt\<close>

lemma run_inv_task:
  assumes "run_inv cw s" and "i < task_count cw"
  shows "history_ok (max_attempts cw i) (run_tasks s ! i)" and "length (run_tasks s) = task_count cw"
    and "length (run_remaining s) = task_count cw" and "i < length (run_tasks s)"
  using assms shape_length by (auto simp: run_inv_def)

lemma run_inv_running:
  assumes "run_inv cw s" and "i < task_count cw" and "active (status_of s i)" and "status_of s i \<noteq> TaskReady"
  shows "run_status s = WorkflowRunning"
proof -
  have "run_tasks s ! i \<in> set (run_tasks s)" using run_inv_task [OF assms(1,2)] by simp
  then show ?thesis using assms
    by (cases "run_status s") (auto simp: run_inv_def active_def list_all_iff allTasksSucceeded_def dest!: bspec)
qed

definition is_active :: "RunSnapshot \<Rightarrow> nat \<Rightarrow> int \<Rightarrow> bool" where
  "is_active s i m \<longleftrightarrow> status_of s i = TaskRunning \<and> m = int (length (tr_Attempts (run_tasks s ! i)))"

lemma activeAttempt_eq:
  assumes inv: "run_inv cw s" and i: "i < task_count cw"
  shows "activeAttempt s (int i) m =
    Inr (if is_active s i m then Some (i, length (tr_Attempts (run_tasks s ! i)) - 1) else None)"
proof (cases "status_of s i = TaskRunning")
  case True
  obtain bs b where "tr_Attempts (run_tasks s ! i) = bs @ [b]" "at_Status b = AttemptRunning"
    "at_Number b = int (Suc (length bs))"
    using history_running [OF run_inv_task(1) [OF inv i] True] by metis
  with True show ?thesis using run_inv_task(4) [OF inv i]
    by (auto simp: activeAttempt_def out_of_range_def is_active_def Let_def nth_append)
next
  case False
  then show ?thesis using run_inv_task(4) [OF inv i]
    by (auto simp: activeAttempt_def out_of_range_def is_active_def Let_def)
qed

lemma finish_active:
  assumes wf: "wf_compiled cw" and inv: "run_inv cw s" and i: "i < task_count cw" and act: "is_active s i m"
    and a: "attemptTransitions AttemptRunning a"
  defines "j \<equiv> length (tr_Attempts (run_tasks s ! i)) - 1"
  shows "\<exists>s1. transitionAttempt (set_result i j res s) key i j a at reason = Inr s1 \<and>
           ending cw s i (finished a at res (run_tasks s ! i)) s1 \<and>
           at_Number (tr_Attempts (run_tasks s1 ! i) ! j) = m"
proof -
  have run: "status_of s i = TaskRunning" and m: "m = int (length (tr_Attempts (run_tasks s ! i)))"
    using act by (simp_all add: is_active_def)
  obtain bs b where b: "tr_Attempts (run_tasks s ! i) = bs @ [b]" "at_Status b = AttemptRunning"
    "at_Number b = int (Suc (length bs))"
    using history_running [OF run_inv_task(1) [OF inv i] run] by metis
  have j: "j = length bs" using b(1) by (simp add: j_def)
  note len = run_inv_task(4) [OF inv i]
  let ?s = "set_result i j res s"
  have q: "quiet s ?s" unfolding set_result_def upd_attempt_def by (rule quiet_upd_task) simp
  have t1: "run_tasks ?s = (run_tasks s)[i := (run_tasks s ! i)\<lparr>tr_Attempts := bs @ [b\<lparr>at_Result := res\<rparr>]\<rparr>]"
    by (simp add: set_result_def b(1) j)
  have "\<exists>s1. transitionAttempt ?s key i j a at reason = Inr s1"
    unfolding transitionAttempt_Inr using len b(2) a by (simp add: t1 [unfolded j] j del: attemptTransitions.simps)
  then obtain s1 where s1: "transitionAttempt ?s key i j a at reason = Inr s1" ..
  have t: "run_tasks s1 = (run_tasks s)[i := finished a at res (run_tasks s ! i)]"
    using transitionAttempt_effect(1) [OF s1] len by (simp add: t1 [unfolded j] j finished_def b(1))
  have "active (status_of s i)" using run by (simp add: active_def)
  then have "open_inv cw s" using run_inv_running [OF inv i] run_inv_open [OF inv] run by simp
  then have "ending cw s i (finished a at res (run_tasks s ! i)) s1"
    using wf i run t quiet_trans [OF q quiet_transitionAttempt [OF s1]] by (simp add: ending_def)
  moreover have "at_Number (tr_Attempts (run_tasks s1 ! i) ! j) = m"
    using t len b(1,3) m j by (simp add: finished_def)
  ultimately show ?thesis using s1 by blast
qed

text \<open>What becomes of the tasks when the attempt of task \<open>i\<close> is lost: it is retried while
  attempts are left, else it fails and takes everything below it along.\<close>

definition retry_outcome ::
  "CompiledWorkflow \<Rightarrow> RunSnapshot \<Rightarrow> nat \<Rightarrow> int \<Rightarrow> time \<Rightarrow> TaskRun \<Rightarrow> TaskRun list" where
  "retry_outcome cw s i m at t =
     (if m < max_attempts cw i
      then (run_tasks s)[i := (entered TaskWaitingRetry at t)
             \<lparr>tr_ReadyAt := Some (at + millis (rp_IntervalMillis (td_Retry (wd_Tasks (cw_definition cw) ! i))))\<rparr>]
      else skipped_in (below cw i) at ((run_tasks s)[i := entered TaskFailed at t]))"

lemma applyRetryDecision_returns:
  assumes e: "ending cw s i (finished a at res (run_tasks s ! i)) s1" (is "ending cw s i ?t s1")
    and m: "at_Number (tr_Attempts (run_tasks s1 ! i) ! j) = m" "m = int (length (tr_Attempts (run_tasks s ! i)))"
    and a: "isRetryableAttemptStatus a"
  shows "\<exists>s'. applyRetryDecision s1 cw i j at reason = Inr s' \<and> evolves s s' \<and> run_inv cw s' \<and>
           run_tasks s' = retry_outcome cw s i m at ?t"
proof -
  note d = endingD [OF e]
  have h: "history_ok (max_attempts cw i) (run_tasks s ! i)" using d(10) [OF d(3)] .
  have le: "m \<le> max_attempts cw i" using h m by (simp add: history_ok_def Let_def)
  note fh = finished_history [OF h d(7) retryable_cases [OF a], of _ _ at res]
  show ?thesis
  proof (cases "m < max_attempts cw i")
    case True
    define r where "r = at + millis (rp_IntervalMillis (td_Retry (wd_Tasks (cw_definition cw) ! i)))"
    have "history_ok (max_attempts cw i) ((entered TaskWaitingRetry at ?t)\<lparr>tr_ReadyAt := Some r\<rparr>)"
      using fh [of TaskWaitingRetry r] a True m by simp
    from ending_retry [OF e this, of reason] obtain s2 s' where
      "transitionTask s1 i TaskWaitingRetry at reason = Inr s2" "s' = upd_task i (\<lambda>t. t\<lparr>tr_ReadyAt := Some r\<rparr>) s2"
      "evolves s s'" "run_inv cw s'" "run_tasks s' = (run_tasks s)[i := (entered TaskWaitingRetry at ?t)\<lparr>tr_ReadyAt := Some r\<rparr>]"
      by blast
    with True m d(3) show ?thesis
      by (simp add: applyRetryDecision_def retry_outcome_def r_def Let_def)
  next
    case False
    with le have eq: "m = max_attempts cw i" by simp
    have "history_ok (max_attempts cw i) (entered TaskFailed at ?t)"
      using fh [of TaskFailed undefined] a eq m by (simp add: entered_ReadyAt)
    from ending_fail [OF e this, of "''retry attempts exhausted''"] False m d(3) show ?thesis
      by (auto simp: applyRetryDecision_def retry_outcome_def Let_def)
  qed
qed

lemma lose_attempt_returns:
  assumes wf: "wf_compiled cw" and inv: "run_inv cw s" and i: "i < task_count cw"
    and a: "a = AttemptTimedOut \<or> a = AttemptInterrupted"
  shows "\<exists>s'. lose_attempt s cw (int i) m at res a reason = Inr (is_active s i m, s') \<and>
           evolves s s' \<and> run_inv cw s' \<and>
           run_tasks s' = (if is_active s i m then retry_outcome cw s i m at (finished a at res (run_tasks s ! i)) else run_tasks s) \<and>
           (\<not> is_active s i m \<longrightarrow> s' = s)"
proof (cases "is_active s i m")
  case True
  have a': "isRetryableAttemptStatus a" "attemptTransitions AttemptRunning a"
    using a by (auto simp: isRetryableAttemptStatus_def)
  let ?j = "length (tr_Attempts (run_tasks s ! i)) - 1"
  obtain s1 where s1: "transitionAttempt (set_result i ?j res s) (tr_Key (run_tasks s ! i)) i ?j a at reason = Inr s1"
    "ending cw s i (finished a at res (run_tasks s ! i)) s1" "at_Number (tr_Attempts (run_tasks s1 ! i) ! ?j) = m"
    using finish_active [OF wf inv i True a'(2)] by blast
  obtain s' where "applyRetryDecision s1 cw i ?j at reason = Inr s'" "evolves s s'" "run_inv cw s'"
    "run_tasks s' = retry_outcome cw s i m at (finished a at res (run_tasks s ! i))"
    using applyRetryDecision_returns [OF s1(2,3) _ a'(1), of reason] True by (auto simp: is_active_def)
  with s1(1) True show ?thesis by (simp add: lose_attempt_def activeAttempt_eq [OF inv i] Let_def)
next
  case False
  with inv show ?thesis by (simp add: lose_attempt_def activeAttempt_eq [OF inv i])
qed

text \<open>The outcome of a reported result.\<close>

definition result_outcome ::
  "CompiledWorkflow \<Rightarrow> RunSnapshot \<Rightarrow> nat \<Rightarrow> int \<Rightarrow> ExecutionResponse \<Rightarrow> time \<Rightarrow> TaskRun list" where
  "result_outcome cw s i m response at =
     (let res = \<lparr>er_Output = ep_Output response, er_ErrorCode = ep_ErrorCode response,
                 er_ErrorMessage = ep_ErrorMessage response\<rparr>;
          ended = (\<lambda>a. finished a at res (run_tasks s ! i)) in
      if ep_Kind response = ResultTemporaryFailure then retry_outcome cw s i m at (ended AttemptFailed)
      else if ep_Kind response = ResultPermanentFailure
        then skipped_in (below cw i) at ((run_tasks s)[i := entered TaskFailed at (ended AttemptFailed)])
      else released (set (cw_successors cw ! i)) at (run_remaining s)
             ((run_tasks s)[i := entered TaskSucceeded at (ended AttemptSucceeded)]))"

abbreviation known_kind :: "ResultKind \<Rightarrow> bool" where
  "known_kind kind \<equiv> kind = ResultSuccess \<or> kind = ResultTemporaryFailure \<or> kind = ResultPermanentFailure"

lemma ApplyAttemptResult_returns:
  assumes wf: "wf_compiled cw" and inv: "run_inv cw s" and i: "i < task_count cw"
    and kind: "known_kind (ep_Kind response)"
  shows "\<exists>s'. ApplyAttemptResult s cw (int i) m response at = Inr (is_active s i m, s') \<and>
           evolves s s' \<and> run_inv cw s' \<and>
           run_tasks s' = (if is_active s i m then result_outcome cw s i m response at else run_tasks s) \<and>
           (\<not> is_active s i m \<longrightarrow> s' = s)"
proof (cases "is_active s i m")
  case act: True
  let ?j = "length (tr_Attempts (run_tasks s ! i)) - 1" and ?key = "tr_Key (run_tasks s ! i)"
  define res where "res = \<lparr>er_Output = ep_Output response, er_ErrorCode = ep_ErrorCode response, er_ErrorMessage = ep_ErrorMessage response\<rparr>"
  have run: "status_of s i = TaskRunning" and m: "m = int (length (tr_Attempts (run_tasks s ! i)))"
    using act by (simp_all add: is_active_def)
  note h = run_inv_task(1) [OF inv i]
  note fh = finished_history [OF h run, of _ _ undefined at res]
  from kind consider "ep_Kind response = ResultTemporaryFailure" | "ep_Kind response = ResultPermanentFailure" | "ep_Kind response = ResultSuccess" by blast
  then show ?thesis
  proof cases
    case 1
    obtain s1 where s1: "transitionAttempt (set_result i ?j res s) ?key i ?j AttemptFailed at ''temporary execution failure'' = Inr s1"
      "ending cw s i (finished AttemptFailed at res (run_tasks s ! i)) s1" "at_Number (tr_Attempts (run_tasks s1 ! i) ! ?j) = m"
      using finish_active [OF wf inv i act, of AttemptFailed] by fastforce
    have "isRetryableAttemptStatus AttemptFailed" by (simp add: isRetryableAttemptStatus_def)
    from applyRetryDecision_returns [OF s1(2,3) m this, of "''temporary execution failure''"] s1(1) act 1 show ?thesis
      by (auto simp: ApplyAttemptResult_def activeAttempt_eq [OF inv i] Let_def result_outcome_def res_def)
  next
    case 2
    obtain s1 where s1: "transitionAttempt (set_result i ?j res s) ?key i ?j AttemptFailed at ''permanent execution failure'' = Inr s1"
      "ending cw s i (finished AttemptFailed at res (run_tasks s ! i)) s1"
      using finish_active [OF wf inv i act, of AttemptFailed] by fastforce
    have "history_ok (max_attempts cw i) (entered TaskFailed at (finished AttemptFailed at res (run_tasks s ! i)))"
      using fh [of AttemptFailed TaskFailed] by (simp add: entered_ReadyAt)
    from ending_fail [OF s1(2) this, of "''permanent execution failure''"] s1(1) act 2 show ?thesis
      by (auto simp: ApplyAttemptResult_def activeAttempt_eq [OF inv i] Let_def result_outcome_def res_def)
  next
    case 3
    obtain s1 where s1: "transitionAttempt (set_result i ?j res s) ?key i ?j AttemptSucceeded at ''execution succeeded'' = Inr s1"
      "ending cw s i (finished AttemptSucceeded at res (run_tasks s ! i)) s1"
      using finish_active [OF wf inv i act, of AttemptSucceeded] by fastforce
    have "history_ok (max_attempts cw i) (entered TaskSucceeded at (finished AttemptSucceeded at res (run_tasks s ! i)))"
      using fh [of AttemptSucceeded TaskSucceeded] by (simp add: entered_ReadyAt)
    from ending_success [OF s1(2) this, of "''execution succeeded''"] s1(1) act 3 i wf_successors(1) [OF wf] show ?thesis
      by (auto simp: ApplyAttemptResult_def activeAttempt_eq [OF inv i] Let_def result_outcome_def res_def)
  qed
next
  case False
  with inv show ?thesis by (simp add: ApplyAttemptResult_def activeAttempt_eq [OF inv i])
qed

section \<open>Queueing, starting and retrying\<close>

lemma run_inv_move:
  assumes wf: "wf_compiled cw" and inv: "run_inv cw s" and i: "i < task_count cw" and run: "run_status s = WorkflowRunning"
    and q: "quiet s s'" and ts: "run_tasks s' = (run_tasks s)[i := t]" and act: "active (status_of s i)" "active (tr_Status t)"
    and h: "history_ok (max_attempts cw i) t"
  shows "run_inv cw s'"
proof -
  have op: "open_inv cw s" using run_inv_open [OF inv run] .
  note len = run_inv_task(2,4) [OF inv i]
  have st: "status_of s' k = ((status_of s)(i := tr_Status t)) k" if "k < task_count cw" for k
    using ts len by (simp add: nth_update_if)
  have "open_inv cw s'"
  proof (rule open_inv_calm [OF op quiet_calm [OF q]])
    show "histories_ok cw (run_tasks s')" using run_inv_task(1) [OF inv] h by (auto simp: ts histories_ok_def nth_update_if)
    have g: "graph_ok cw (status_of s) ((!) (run_remaining s))" using op by (simp add: open_inv_def)
    show "graph_ok cw (status_of s') ((!) (run_remaining s'))"
      by (rule graph_ok_cong [OF wf st _ graph_ok_active [OF g act]]) (simp_all add: quietD(2) [OF q])
    show "status_of s' k \<noteq> TaskCanceled" if "k < task_count cw" for k
      using st [OF that] act(2) op that len by (auto simp: active_def open_inv_def list_all_length)
  qed
  moreover have "list_ex (\<lambda>t. \<not> isTaskTerminal (tr_Status t)) (run_tasks s')"
    using ts len act(2) by (auto simp: list_ex_length active_def isTaskTerminal_def intro!: exI [of _ i])
  ultimately show ?thesis by (rule open_run_inv)
qed

lemma start_workflow:
  assumes inv: "run_inv cw s" and i: "i < task_count cw" and r: "status_of s i = TaskReady"
  shows "\<exists>s1. (if run_status s = WorkflowPending then transitionWorkflow s WorkflowRunning at reason else Inr s) = Inr s1 \<and>
           evolves s s1 \<and> run_tasks s1 = run_tasks s \<and> run_status s1 = WorkflowRunning \<and> run_inv cw s1"
proof (cases "run_status s = WorkflowPending")
  case True
  then obtain s1 where s1: "transitionWorkflow s WorkflowRunning at reason = Inr s1"
    using transitionWorkflow_returns [of s WorkflowRunning at reason] by auto
  note e = transitionWorkflow_effect [OF s1]
  have "\<not> isTaskTerminal (status_of s i)" using r by simp
  then have "list_ex (\<lambda>t. \<not> isTaskTerminal (tr_Status t)) (run_tasks s)"
    using run_inv_task(4) [OF inv i] by (auto simp: list_ex_length)
  then have "run_inv cw s1" using inv True e shape_evolves [OF _ e(4)]
    by (auto simp: run_inv_def clock_ok_def list_all_iff)
  with s1 e True show ?thesis by auto
next
  case False
  have "run_tasks s ! i \<in> set (run_tasks s)" using run_inv_task [OF inv i] by simp
  then have "run_status s = WorkflowRunning" using inv r False
    by (cases "run_status s") (auto simp: run_inv_def list_all_iff allTasksSucceeded_def dest!: bspec)
  with inv False show ?thesis by auto
qed

lemma QueueTask_returns:
  assumes wf: "wf_compiled cw" and inv: "run_inv cw s" and i: "i < task_count cw" and r: "status_of s i = TaskReady"
  shows "\<exists>s'. QueueTask s (int i) at = Inr s' \<and> evolves s s' \<and> run_inv cw s' \<and> run_status s' = WorkflowRunning \<and>
           run_tasks s' = (run_tasks s)[i := entered TaskQueued at (run_tasks s ! i)]"
proof -
  obtain s1 where s1: "(if run_status s = WorkflowPending then transitionWorkflow s WorkflowRunning at ''distributed execution started'' else Inr s) = Inr s1"
    "evolves s s1" "run_tasks s1 = run_tasks s" "run_status s1 = WorkflowRunning" "run_inv cw s1"
    using start_workflow [OF inv i r] by blast
  obtain s' where s': "transitionTask s1 i TaskQueued at ''dispatch created'' = Inr s'" "quiet s1 s'"
    "run_tasks s' = (run_tasks s)[i := entered TaskQueued at (run_tasks s ! i)]"
    using task_step [of i s1 TaskQueued at "''dispatch created''"] run_inv_task(4) [OF inv i] r s1(3) by auto
  have "run_inv cw s'" using s1(3) s'(3) r entered_history [OF run_inv_task(1) [OF inv i]]
    by (intro run_inv_move [OF wf s1(5) i s1(4) s'(2)]) (auto simp: active_def)
  with s1 s' evolves_trans [OF s1(2) quietD(1) [OF s'(2)]] run_inv_task(4) [OF inv i] show ?thesis
    by (auto simp: QueueTask_def out_of_range_def quietD(3))
qed

lemma ReturnQueuedTaskToReady_returns:
  assumes wf: "wf_compiled cw" and inv: "run_inv cw s" and i: "i < task_count cw" and st: "status_of s i = TaskQueued"
  shows "\<exists>s'. ReturnQueuedTaskToReady s (int i) at reason = Inr s' \<and> evolves s s' \<and> run_inv cw s' \<and>
           run_tasks s' = (run_tasks s)[i := entered TaskReady at (run_tasks s ! i)]"
proof -
  obtain s' where s': "transitionTask s i TaskReady at reason = Inr s'" "quiet s s'"
    "run_tasks s' = (run_tasks s)[i := entered TaskReady at (run_tasks s ! i)]"
    using task_step [of i s TaskReady at reason] run_inv_task(4) [OF inv i] st by auto
  have "run_status s = WorkflowRunning" using st by (intro run_inv_running [OF inv i]) (simp_all add: active_def)
  then have "run_inv cw s'" using st s'(3) entered_history [OF run_inv_task(1) [OF inv i]]
    by (intro run_inv_move [OF wf inv i _ s'(2)]) (auto simp: active_def)
  with s' run_inv_task(4) [OF inv i] show ?thesis by (auto simp: ReturnQueuedTaskToReady_def out_of_range_def quietD(1))
qed

definition retry_due :: "RunSnapshot \<Rightarrow> nat \<Rightarrow> int \<Rightarrow> time \<Rightarrow> bool" where
  "retry_due s i m at \<longleftrightarrow>
     status_of s i = TaskWaitingRetry \<and> m = int (length (tr_Attempts (run_tasks s ! i))) \<and>
     (case tr_ReadyAt (run_tasks s ! i) of None \<Rightarrow> False | Some r \<Rightarrow> r \<le> at)"

lemma MakeRetryReady_returns:
  assumes wf: "wf_compiled cw" and inv: "run_inv cw s" and i: "i < task_count cw"
  shows "\<exists>s'. MakeRetryReady s (int i) m at = Inr (retry_due s i m at, s') \<and> evolves s s' \<and> run_inv cw s' \<and>
           run_tasks s' = (if retry_due s i m at then (run_tasks s)[i := entered TaskReady at (run_tasks s ! i)] else run_tasks s) \<and>
           (\<not> retry_due s i m at \<longrightarrow> s' = s)"
proof (cases "status_of s i = TaskWaitingRetry")
  case st: True
  note h = run_inv_task(1) [OF inv i]
  note len = run_inv_task(4) [OF inv i]
  define as where "as = tr_Attempts (run_tasks s ! i)"
  have ne: "as \<noteq> []" and nums: "map at_Number as = map int [1 ..< Suc (length as)]"
    using h st by (auto simp: history_ok_def Let_def as_def)
  have last: "at_Number (last as) = int (length as)"
  proof -
    have "at_Number (last as) = last (map at_Number as)" using ne by (simp add: last_map)
    also have "\<dots> = int (length as)" unfolding nums using ne by (cases "length as") simp_all
    finally show ?thesis .
  qed
  obtain r where r: "tr_ReadyAt (run_tasks s ! i) = Some r" using h st by (auto simp: history_ok_def Let_def)
  show ?thesis
  proof (cases "retry_due s i m at")
    case True
    obtain s' where s': "transitionTask s i TaskReady at ''retry interval elapsed'' = Inr s'" "quiet s s'"
      "run_tasks s' = (run_tasks s)[i := entered TaskReady at (run_tasks s ! i)]"
      using task_step [of i s TaskReady at "''retry interval elapsed''"] len st by auto
    have "run_status s = WorkflowRunning" using st by (intro run_inv_running [OF inv i]) (simp_all add: active_def)
    then have "run_inv cw s'" using st s'(3) entered_history [OF h]
      by (intro run_inv_move [OF wf inv i _ s'(2)]) (auto simp: active_def)
    with s' True st r len ne last show ?thesis
      by (auto simp: MakeRetryReady_def out_of_range_def Let_def retry_due_def as_def quietD(1))
  next
    case False
    with inv st r len ne last show ?thesis
      by (auto simp: MakeRetryReady_def out_of_range_def Let_def retry_due_def as_def)
  qed
next
  case False
  with inv run_inv_task(4) [OF inv i] show ?thesis
    by (auto simp: MakeRetryReady_def out_of_range_def Let_def retry_due_def split: option.splits)
qed

definition started :: "time \<Rightarrow> time \<Rightarrow> string \<Rightarrow> string \<Rightarrow> TaskRun \<Rightarrow> TaskRun" where
  "started at at0 workerID dispatchID t =
     (entered TaskRunning at t)\<lparr>tr_Attempts := tr_Attempts t @
        [\<lparr>at_Number = int (length (tr_Attempts t)) + 1, at_Status = AttemptRunning, at_WorkerID = workerID,
          at_DispatchID = dispatchID, at_StartedAt = at0, at_FinishedAt = None, at_Result = zero_result\<rparr>]\<rparr>"

lemma started_history:
  assumes "history_ok limit t" and "tr_Status t = TaskQueued \<or> tr_Status t = TaskReady"
  shows "history_ok limit (started at at0 workerID dispatchID t)"
proof -
  have "list_all (\<lambda>a. isRetryableAttemptStatus (at_Status a)) (tr_Attempts t)"
    using assms by (cases "tr_Attempts t" rule: rev_cases) (auto simp: history_ok_def Let_def)
  with assms show ?thesis by (auto simp: history_ok_def Let_def started_def)
qed

lemma StartQueuedAttempt_returns:
  assumes wf: "wf_compiled cw" and inv: "run_inv cw s" and i: "i < task_count cw" and st: "status_of s i = TaskQueued"
    and ids: "workerID \<noteq> ''''" "dispatchID \<noteq> ''''"
  shows "\<exists>s' req. StartQueuedAttempt s cw (int i) at workerID dispatchID = Inr (s', req) \<and> evolves s s' \<and> run_inv cw s' \<and>
           run_tasks s' = (run_tasks s)[i := started at at workerID dispatchID (run_tasks s ! i)] \<and>
           eq_RunID req = wr_ID (rs_Run s) \<and> eq_TaskKey req = tr_Key (run_tasks s ! i) \<and>
           eq_Attempt req = int (length (tr_Attempts (run_tasks s ! i))) + 1"
proof -
  note h = run_inv_task(1) [OF inv i]
  note len = run_inv_task(2,4) [OF inv i]
  have keys: "map tr_Key (run_tasks s) = map td_Key (wd_Tasks (cw_definition cw))" using inv by (simp add: run_inv_def shape_ok_def)
  have key: "tr_Key (run_tasks s ! i) = td_Key (wd_Tasks (cw_definition cw) ! i)"
    using arg_cong [OF keys, of "\<lambda>xs. xs ! i"] len i by simp
  obtain s1 where s1: "transitionTask s i TaskRunning at ''lease claimed'' = Inr s1" "quiet s s1"
    "run_tasks s1 = (run_tasks s)[i := entered TaskRunning at (run_tasks s ! i)]"
    using task_step [of i s TaskRunning at "''lease claimed''"] len st by auto
  define a where "a = \<lparr>at_Number = int (length (tr_Attempts (run_tasks s1 ! i))) + 1, at_Status = AttemptRunning, at_WorkerID = workerID,
       at_DispatchID = dispatchID, at_StartedAt = at, at_FinishedAt = None, at_Result = zero_result\<rparr>"
  define s' where "s' = push_attempt i a s1"
  have q: "quiet s s'" unfolding s'_def push_attempt_def
    by (rule quiet_trans [OF s1(2) quiet_upd_task]) simp
  have ts: "run_tasks s' = (run_tasks s)[i := started at at workerID dispatchID (run_tasks s ! i)]"
    using s1(3) len by (simp add: s'_def push_attempt_def a_def started_def)
  have "run_status s = WorkflowRunning" using st by (intro run_inv_running [OF inv i]) (simp_all add: active_def)
  then have "run_inv cw s'" using st started_history [OF h]
    by (intro run_inv_move [OF wf inv i _ q ts]) (auto simp: active_def started_def)
  moreover obtain input where "cloneTaskInput (td_Input (wd_Tasks (cw_definition cw) ! i)) = Inr input"
    using wf_attributes(4) [OF wf i] ..
  moreover have "wr_ID (rs_Run s') = wr_ID (rs_Run s)" using quietD(1) [OF q] by (simp add: evolves_def same_frame_def)
  ultimately show ?thesis using s1(1) i len ids key quietD(1) [OF q] ts s1(3)
    by (auto simp: StartQueuedAttempt_def out_of_range_def Let_def execution_request_def s'_def a_def)
qed

section \<open>Cancellation\<close>

definition canceled :: "time \<Rightarrow> TaskRun \<Rightarrow> TaskRun" where
  "canceled at t =
     (if isTaskTerminal (tr_Status t) then t
      else entered TaskCanceled at
        (if tr_Status t = TaskRunning
         then finished AttemptCanceled at
                \<lparr>er_Output = '''', er_ErrorCode = ''canceled'', er_ErrorMessage = ''execution canceled''\<rparr> t
         else t))"

lemma canceled_history: "history_ok limit t \<Longrightarrow> history_ok limit (canceled at t)"
  using finished_history [of limit t AttemptCanceled TaskCanceled _ at] entered_history [of limit t TaskCanceled at]
    history_not_other [of limit t]
  by (cases "tr_Status t") (auto simp: canceled_def entered_ReadyAt)

lemma canceled_status: "tr_Status (canceled at t) = (if isTaskTerminal (tr_Status t) then tr_Status t else TaskCanceled)"
  by (simp add: canceled_def)

lemma cancel_task_returns:
  assumes i: "i < length (run_tasks s)" and h: "history_ok limit (run_tasks s ! i)"
  shows "\<exists>s'. cancel_task at i s = Inr s' \<and> quiet s s' \<and> run_tasks s' = (run_tasks s)[i := canceled at (run_tasks s ! i)]"
proof (cases "isTaskTerminal (status_of s i)")
  case True
  then show ?thesis by (simp add: cancel_task_def canceled_def)
next
  case live: False
  show ?thesis
  proof (cases "status_of s i = TaskRunning")
    case False
    then have "taskTransitions (status_of s i) TaskCanceled" using live history_not_other [OF h] by (cases "status_of s i") auto
    from task_step [OF i this, of at "''workflow canceled''"] live False show ?thesis
      by (auto simp: cancel_task_def canceled_def Let_def)
  next
    case True
    obtain bs b where b: "tr_Attempts (run_tasks s ! i) = bs @ [b]" "at_Status b = AttemptRunning"
      using history_running [OF h True] by metis
    let ?res = "\<lparr>er_Output = '''', er_ErrorCode = ''canceled'', er_ErrorMessage = ''execution canceled''\<rparr>"
    let ?s = "set_result i (length bs) ?res s"
    have q: "quiet s ?s" unfolding set_result_def upd_attempt_def by (rule quiet_upd_task) simp
    have t1: "run_tasks ?s = (run_tasks s)[i := (run_tasks s ! i)\<lparr>tr_Attempts := bs @ [b\<lparr>at_Result := ?res\<rparr>]\<rparr>]"
      by (simp add: set_result_def b(1))
    have "\<exists>s1. transitionAttempt ?s (tr_Key (run_tasks s ! i)) i (length bs) AttemptCanceled at ''workflow canceled'' = Inr s1"
      unfolding transitionAttempt_Inr using i b(2) by (simp add: t1)
    then obtain s1 where s1: "transitionAttempt ?s (tr_Key (run_tasks s ! i)) i (length bs) AttemptCanceled at ''workflow canceled'' = Inr s1" ..
    have t: "run_tasks s1 = (run_tasks s)[i := finished AttemptCanceled at ?res (run_tasks s ! i)]"
      using transitionAttempt_effect(1) [OF s1] i by (simp add: t1 finished_def b(1))
    note q1 = quiet_trans [OF q quiet_transitionAttempt [OF s1]]
    obtain s' where "transitionTask s1 i TaskCanceled at ''workflow canceled'' = Inr s'" "quiet s1 s'"
      "run_tasks s' = (run_tasks s)[i := canceled at (run_tasks s ! i)]"
      using task_step [of i s1 TaskCanceled at "''workflow canceled''"] t i True by (auto simp: canceled_def)
    with s1 True live b quiet_trans [OF q1] show ?thesis by (auto simp: cancel_task_def Let_def)
  qed
qed

lemma cancel_tasks_returns:
  assumes h: "\<And>i. i < length (run_tasks s) \<Longrightarrow> \<exists>limit. history_ok limit (run_tasks s ! i)"
  shows "\<exists>s'. foldR (cancel_task at) [0 ..< length (run_tasks s)] s = Inr s' \<and> quiet s s' \<and>
           run_tasks s' = map (canceled at) (run_tasks s)"
proof -
  have step: "\<exists>u'. cancel_task at i u = Inr u' \<and> quiet u u' \<and> run_tasks u' = (run_tasks u)[i := canceled at (run_tasks s ! i)]"
    if "i < length (run_tasks s)" "quiet s u" "run_tasks u ! i = run_tasks s ! i" for i u
    using that h [OF that(1)] cancel_task_returns [of i u _ at] quietD(6) [OF that(2)] by auto
  from foldR_each_task [of s "cancel_task at" "\<lambda>_. canceled at" "length (run_tasks s)"] step obtain s' where
    "foldR (cancel_task at) [0 ..< length (run_tasks s)] s = Inr s'" "quiet s s'"
    "run_tasks s' = map (\<lambda>k. if k < length (run_tasks s) then canceled at (run_tasks s ! k) else run_tasks s ! k) [0 ..< length (run_tasks s)]"
    by auto
  then show ?thesis by (auto intro!: nth_equalityI)
qed

lemma CancelRunSnapshot_returns:
  assumes wf: "wf_compiled cw" and inv: "run_inv cw s" and live: "\<not> isWorkflowTerminal (run_status s)"
  shows "\<exists>s'. CancelRunSnapshot s at = Inr s' \<and> evolves s s' \<and> run_inv cw s' \<and> run_status s' = WorkflowCanceled \<and>
           run_tasks s' = map (canceled at) (run_tasks s)"
proof -
  have len: "length (run_tasks s) = task_count cw" using inv shape_length by (auto simp: run_inv_def)
  obtain s1 where s1: "foldR (cancel_task at) [0 ..< length (run_tasks s)] s = Inr s1" "quiet s s1"
    and ts: "run_tasks s1 = map (canceled at) (run_tasks s)"
    using cancel_tasks_returns [of s at] run_inv_task(1) [OF inv] len by auto
  have "workflowTransitions (run_status s1) WorkflowCanceled"
    using live inv quietD(3) [OF s1(2)] by (cases "run_status s") (auto simp: run_inv_def)
  then obtain s' where s': "transitionWorkflow s1 WorkflowCanceled at ''cancellation requested'' = Inr s'"
    using transitionWorkflow_returns by blast
  note e = transitionWorkflow_effect [OF s']
  have ev: "evolves s s'" using quietD(1) [OF s1(2)] e(4) by (rule evolves_trans)
  have g: "graph_ok cw (status_of s) ((!) (run_remaining s))" and shape: "shape_ok cw s" using inv by (simp_all add: run_inv_def)
  have "graph_ok cw (status_of s') ((!) (run_remaining s'))"
    by (rule graph_ok_cong [OF wf _ _ graph_ok_cancel [OF g]])
       (simp_all add: e(1,2) ts len canceled_status quietD(2) [OF s1(2)])
  moreover have "\<forall>i < task_count cw. history_ok (max_attempts cw i) (run_tasks s' ! i)"
    using run_inv_task(1) [OF inv] len by (simp add: e(1) ts canceled_history)
  moreover have "phase_ok (run_status s') (run_tasks s')"
    by (simp add: e(1,3) ts list_all_iff canceled_status)
  moreover have "clock_ok (rs_Run s')" using e(3,7) by (simp add: clock_ok_def)
  ultimately have "run_inv cw s'" using shape_evolves [OF shape ev] by (simp add: run_inv_def)
  with s1(1) s' ev e(1,3) ts show ?thesis by (simp add: CancelRunSnapshot_def)
qed

section \<open>A new run\<close>

lemma newRunSnapshot_inv:
  assumes wf: "wf_compiled cw"
  shows "run_inv cw (newRunSnapshot runID cw now)"
proof -
  let ?s = "newRunSnapshot runID cw now"
  have ts: "run_tasks ?s = map (new_task cw) [0 ..< task_count cw]" by (simp add: newRunSnapshot_def Let_def)
  have rem: "run_remaining ?s = map (\<lambda>i. int (length (cw_dependencies cw ! i))) [0 ..< task_count cw]"
    by (simp add: newRunSnapshot_def Let_def)
  have st: "status_of ?s i = (if cw_dependencies cw ! i = [] then TaskReady else TaskWaitingDependencies)" if "i < task_count cw" for i
    using that by (simp add: ts new_task_def)
  have p: "pending cw (status_of ?s) i = length (cw_dependencies cw ! i)" if "i < task_count cw" for i
  proof -
    have "filter (\<lambda>d. status_of ?s d \<noteq> TaskSucceeded) (cw_dependencies cw ! i) = cw_dependencies cw ! i"
      using wf_deps [OF wf that] st by (intro filter_True) (auto simp: subset_iff)
    then show ?thesis by (simp add: pending_def)
  qed
  have "dep_ok cw (status_of ?s) i" if i: "i < task_count cw" for i
    using wf_deps [OF wf i] st p [OF i] i by (auto simp: dep_ok_def active_def lost_def subset_iff)
  then have "graph_ok cw (status_of ?s) ((!) (run_remaining ?s))" using p rem by (simp add: graph_ok_def)
  moreover have "history_ok (max_attempts cw i) (run_tasks ?s ! i)" if i: "i < task_count cw" for i
    using wf_attributes(1) [OF wf i] i by (auto simp: ts new_task_def history_ok_def)
  moreover have "shape_ok cw ?s"
    by (auto simp: shape_ok_def log_ok_def newRunSnapshot_def Let_def new_task_def intro!: nth_equalityI)
  moreover have "clock_ok (rs_Run ?s)" and "phase_ok (run_status ?s) (run_tasks ?s)"
    by (auto simp: clock_ok_def newRunSnapshot_def Let_def list_all_iff new_task_def)
  ultimately show ?thesis by (simp add: run_inv_def)
qed

end
