(* ===== verification/Run_Machine.thy ===== *)
theory Run_Machine
  imports Run_Operations
begin

text \<open>
  A run as a state machine. The steps are the operations of
  \<^verbatim>\<open>distributed_state.go\<close> that returned without an error and applied, in any
  order, with any task, attempt number, response and time; the two operations whose callers
  check that a dispatch exists (\<^verbatim>\<open>StartQueuedAttempt\<close> for a claimed dispatch and
  \<^verbatim>\<open>ReturnQueuedTaskToReady\<close> for an expired or released one) are guarded by the task
  being queued.
\<close>

section \<open>Steps\<close>

datatype run_action =
    Queue nat
  | Requeue nat
  | Start nat
  | Report nat int ExecutionResponse
  | Interrupt nat int
  | Timeout nat int
  | RetryReady nat int
  | CancelRun

inductive run_step :: "CompiledWorkflow \<Rightarrow> RunSnapshot \<Rightarrow> run_action \<Rightarrow> RunSnapshot \<Rightarrow> bool"
  for cw :: CompiledWorkflow where
  queue: "QueueTask s (int i) at = Inr s' \<Longrightarrow> run_step cw s (Queue i) s'"
| requeue: "status_of s i = TaskQueued \<Longrightarrow> ReturnQueuedTaskToReady s (int i) at reason = Inr s' \<Longrightarrow>
     run_step cw s (Requeue i) s'"
| start: "status_of s i = TaskQueued \<Longrightarrow> StartQueuedAttempt s cw (int i) at workerID dispatchID = Inr (s', req) \<Longrightarrow>
     run_step cw s (Start i) s'"
| report: "ApplyAttemptResult s cw (int i) m response at = Inr (True, s') \<Longrightarrow> run_step cw s (Report i m response) s'"
| interrupt: "InterruptAttempt s cw (int i) m at reason = Inr (True, s') \<Longrightarrow> run_step cw s (Interrupt i m) s'"
| timeout: "TimeoutAttempt s cw (int i) m at = Inr (True, s') \<Longrightarrow> run_step cw s (Timeout i m) s'"
| retry_ready: "MakeRetryReady s (int i) m at = Inr (True, s') \<Longrightarrow> run_step cw s (RetryReady i m) s'"
| cancel_run: "CancelRunSnapshot s at = Inr s' \<Longrightarrow> run_step cw s CancelRun s'"

inductive_cases run_stepE: "run_step cw s a s'"

definition new_run :: "CompiledWorkflow \<Rightarrow> RunSnapshot \<Rightarrow> bool" where
  "new_run cw s \<longleftrightarrow> (\<exists>runID version now. NewRunSnapshotForVersion runID (Some cw) version now = Inr s)"

abbreviation some_step :: "CompiledWorkflow \<Rightarrow> RunSnapshot \<Rightarrow> RunSnapshot \<Rightarrow> bool" where
  "some_step cw s s' \<equiv> \<exists>a. run_step cw s a s'"

abbreviation reachable :: "CompiledWorkflow \<Rightarrow> RunSnapshot \<Rightarrow> bool" where
  "reachable cw \<equiv> reach (new_run cw) (some_step cw)"

section \<open>What the statuses allow\<close>

lemma range_from_op:
  "QueueTask s (int i) at = Inr s' \<Longrightarrow> i < length (run_tasks s)"
  "ReturnQueuedTaskToReady s (int i) at reason = Inr s' \<Longrightarrow> i < length (run_tasks s)"
  "StartQueuedAttempt s cw (int i) at workerID dispatchID = Inr r \<Longrightarrow> i < length (run_tasks s)"
  "ApplyAttemptResult s cw (int i) m response at = Inr q \<Longrightarrow> i < length (run_tasks s)"
  "lose_attempt s cw (int i) m at res a reason = Inr q \<Longrightarrow> i < length (run_tasks s)"
  "MakeRetryReady s (int i) m at = Inr q \<Longrightarrow> i < length (run_tasks s)"
  by (auto simp: QueueTask_def ReturnQueuedTaskToReady_def StartQueuedAttempt_def ApplyAttemptResult_def
      lose_attempt_def MakeRetryReady_def activeAttempt_def out_of_range_def Let_def split: if_splits)

lemma queue_was_ready: "QueueTask s (int i) at = Inr s' \<Longrightarrow> status_of s i = TaskReady"
proof -
  assume "QueueTask s (int i) at = Inr s'"
  then obtain s1 where "(if run_status s = WorkflowPending then transitionWorkflow s WorkflowRunning at ''distributed execution started'' else Inr s) = Inr s1"
    and "transitionTask s1 i TaskQueued at ''dispatch created'' = Inr s'"
    by (auto simp: QueueTask_def bindR_eq_Inr split: if_splits)
  then have "run_tasks s1 = run_tasks s" and "taskTransitions (status_of s1 i) TaskQueued"
    using transitionWorkflow_effect(1) transitionTask_effect(8) by (fastforce split: if_splits)+
  then show ?thesis by (cases "status_of s i") auto
qed

lemma start_ids: "StartQueuedAttempt s cw (int i) at workerID dispatchID = Inr r \<Longrightarrow> workerID \<noteq> '''' \<and> dispatchID \<noteq> ''''"
  by (auto simp: StartQueuedAttempt_def Let_def split: if_splits)

lemma report_kind:
  "ApplyAttemptResult s cw (int i) m response at = Inr (True, s') \<Longrightarrow> known_kind (ep_Kind response)"
  by (auto simp: ApplyAttemptResult_def bindR_eq_Inr Let_def split: option.splits if_splits prod.splits)

text \<open>The effect of each step on the tasks of a run that satisfies the invariant.\<close>

fun step_tasks :: "CompiledWorkflow \<Rightarrow> RunSnapshot \<Rightarrow> run_action \<Rightarrow> TaskRun list \<Rightarrow> bool" where
  "step_tasks cw s (Queue i) ts \<longleftrightarrow> i < task_count cw \<and> status_of s i = TaskReady \<and>
     (\<exists>at. ts = (run_tasks s)[i := entered TaskQueued at (run_tasks s ! i)])"
| "step_tasks cw s (Requeue i) ts \<longleftrightarrow> i < task_count cw \<and> status_of s i = TaskQueued \<and>
     (\<exists>at. ts = (run_tasks s)[i := entered TaskReady at (run_tasks s ! i)])"
| "step_tasks cw s (Start i) ts \<longleftrightarrow> i < task_count cw \<and> status_of s i = TaskQueued \<and>
     (\<exists>at w d. ts = (run_tasks s)[i := started at at w d (run_tasks s ! i)])"
| "step_tasks cw s (Report i m response) ts \<longleftrightarrow> i < task_count cw \<and> is_active s i m \<and>
     known_kind (ep_Kind response) \<and> (\<exists>at. ts = result_outcome cw s i m response at)"
| "step_tasks cw s (Interrupt i m) ts \<longleftrightarrow> i < task_count cw \<and> is_active s i m \<and>
     (\<exists>at res. ts = retry_outcome cw s i m at (finished AttemptInterrupted at res (run_tasks s ! i)))"
| "step_tasks cw s (Timeout i m) ts \<longleftrightarrow> i < task_count cw \<and> is_active s i m \<and>
     (\<exists>at res. ts = retry_outcome cw s i m at (finished AttemptTimedOut at res (run_tasks s ! i)))"
| "step_tasks cw s (RetryReady i m) ts \<longleftrightarrow> i < task_count cw \<and> status_of s i = TaskWaitingRetry \<and>
     (\<exists>at. ts = (run_tasks s)[i := entered TaskReady at (run_tasks s ! i)])"
| "step_tasks cw s CancelRun ts \<longleftrightarrow> \<not> isWorkflowTerminal (run_status s) \<and> (\<exists>at. ts = map (canceled at) (run_tasks s))"

lemma cancel_was_live:
  assumes "CancelRunSnapshot s at = Inr s'" and inv: "run_inv cw s"
  shows "\<not> isWorkflowTerminal (run_status s)"
proof -
  have len: "length (run_tasks s) = task_count cw" using inv shape_length by (auto simp: run_inv_def)
  obtain s1 where s1: "foldR (cancel_task at) [0 ..< length (run_tasks s)] s = Inr s1"
    "transitionWorkflow s1 WorkflowCanceled at ''cancellation requested'' = Inr s'"
    using assms(1) by (auto simp: CancelRunSnapshot_def bindR_eq_Inr)
  have "quiet s s1" using cancel_tasks_returns [of s at] run_inv_task(1) [OF inv] len s1(1) by auto
  then have "run_status s1 = run_status s" by (rule quietD(3))
  with transitionWorkflow_effect(5) [OF s1(2)] show ?thesis
    by (cases "run_status s") auto
qed

lemma lose_step:
  assumes l: "lose_attempt s cw (int i) m at res a reason = Inr (True, s')" and wf: "wf_compiled cw" and inv: "run_inv cw s"
    and a: "a = AttemptTimedOut \<or> a = AttemptInterrupted"
  shows "run_inv cw s' \<and> evolves s s' \<and> i < task_count cw \<and> is_active s i m \<and>
         run_tasks s' = retry_outcome cw s i m at (finished a at res (run_tasks s ! i))"
proof -
  have i: "i < task_count cw" using range_from_op(5) [OF l] inv shape_length by (auto simp: run_inv_def)
  show ?thesis using lose_attempt_returns [OF wf inv i a, of m at res reason] l i by (auto split: if_splits)
qed

lemma run_step_effect:
  assumes step: "run_step cw s a s'" and wf: "wf_compiled cw" and inv: "run_inv cw s"
  shows "run_inv cw s' \<and> evolves s s' \<and> step_tasks cw s a (run_tasks s')"
proof -
  have len: "length (run_tasks s) = task_count cw" using inv shape_length by (auto simp: run_inv_def)
  from step show ?thesis
  proof cases
    case (queue i at)
    with range_from_op(1) queue_was_ready len have "i < task_count cw" "status_of s i = TaskReady" by metis+
    with QueueTask_returns [OF wf inv this, of at] queue show ?thesis by auto
  next
    case (requeue i at reason)
    with range_from_op(2) len have "i < task_count cw" by metis
    with ReturnQueuedTaskToReady_returns [OF wf inv this, of at reason] requeue show ?thesis by auto
  next
    case (start i at workerID dispatchID req)
    with range_from_op(3) start_ids len have "i < task_count cw" "workerID \<noteq> ''''" "dispatchID \<noteq> ''''" by metis+
    with StartQueuedAttempt_returns [OF wf inv this(1) start(2) this(2,3), of at] start show ?thesis by auto
  next
    case (report i m response at)
    with range_from_op(4) len have "i < task_count cw" by metis
    with ApplyAttemptResult_returns [OF wf inv this report_kind [OF report(2)], of m at] report report_kind [OF report(2)]
    show ?thesis by (auto split: if_splits)
  next
    case (interrupt i m at reason)
    then show ?thesis
      using lose_step [OF _ wf inv, of i m at _ AttemptInterrupted reason s'] by (auto simp: InterruptAttempt_def)
  next
    case (timeout i m at)
    then show ?thesis
      using lose_step [OF _ wf inv, of i m at _ AttemptTimedOut _ s'] by (auto simp: TimeoutAttempt_def)
  next
    case (retry_ready i m at)
    with range_from_op(6) len have "i < task_count cw" by metis
    with MakeRetryReady_returns [OF wf inv this, of m at] retry_ready show ?thesis
      by (auto simp: retry_due_def split: if_splits)
  next
    case (cancel_run at)
    note live = cancel_was_live [OF cancel_run(2) inv]
    with CancelRunSnapshot_returns [OF wf inv live, of at] cancel_run show ?thesis by auto
  qed
qed

section \<open>Reachable runs\<close>

lemma new_run_inv: "wf_compiled cw \<Longrightarrow> new_run cw s \<Longrightarrow> run_inv cw s"
proof -
  assume wf: "wf_compiled cw" and "new_run cw s"
  then obtain runID version now where
    s: "s = upd_run (\<lambda>r. r\<lparr>wr_DefinitionVersion := version\<rparr>) (newRunSnapshot runID cw now)"
    by (auto simp: new_run_def NewRunSnapshotForVersion_def split: if_splits)
  have "run_inv cw (newRunSnapshot runID cw now)" using newRunSnapshot_inv [OF wf] .
  then show ?thesis by (simp add: s run_inv_def shape_ok_def log_ok_def clock_ok_def)
qed

interpretation run_machine: invariant_machine "new_run cw" "some_step cw" "\<lambda>s. wf_compiled cw \<longrightarrow> run_inv cw s"
  for cw
proof unfold_locales
  show "wf_compiled cw \<longrightarrow> run_inv cw s" if "new_run cw s" for s using new_run_inv that by blast
  show "wf_compiled cw \<longrightarrow> run_inv cw t" if "wf_compiled cw \<longrightarrow> run_inv cw s" "some_step cw s t" for s t
    using that run_step_effect by blast
qed

lemma reachable_inv: "reachable cw s \<Longrightarrow> wf_compiled cw \<Longrightarrow> run_inv cw s"
  using run_machine.inv_reach by blast

text \<open>A finished task is never touched again, whatever happens to the rest of the run.\<close>

lemma skipped_in_terminal:
  "k < length ts \<Longrightarrow> isTaskTerminal (tr_Status (ts ! k)) \<Longrightarrow> skipped_in V at ts ! k = ts ! k"
  by simp

lemma step_terminal:
  assumes step: "step_tasks cw s a ts" and wf: "wf_compiled cw" and inv: "run_inv cw s"
    and k: "k < task_count cw" "isTaskTerminal (status_of s k)"
  shows "ts ! k = run_tasks s ! k"
proof -
  have len: "length (run_tasks s) = task_count cw" using inv shape_length by (auto simp: run_inv_def)
  have upd: "(run_tasks s)[i := t] ! k = run_tasks s ! k" if "\<not> isTaskTerminal (status_of s i)" for i t
    using that k by (auto simp: nth_update_if)
  have skip: "skipped_in V at ((run_tasks s)[i := t]) ! k = run_tasks s ! k" if "status_of s i = TaskRunning" for V at i t
  proof -
    have "(run_tasks s)[i := t] ! k = run_tasks s ! k" using upd [of i t] that by simp
    with k len show ?thesis by simp
  qed
  have retry: "retry_outcome cw s i m at t ! k = run_tasks s ! k" if "status_of s i = TaskRunning" for i m at t
    using that upd skip by (simp add: retry_outcome_def)
  have rel: "released (set (cw_successors cw ! i)) at (run_remaining s) ((run_tasks s)[i := t]) ! k = run_tasks s ! k"
    if i: "status_of s i = TaskRunning" "i < task_count cw" "run_status s = WorkflowRunning" for i at t
  proof -
    have g: "graph_ok cw (status_of s) ((!) (run_remaining s))" using inv by (simp add: run_inv_def)
    have "status_of s k = TaskWaitingDependencies" if "(i, k) \<in> edges cw" "run_remaining s ! k = 1"
      using released_was_waiting [OF wf g that] i inv len k(1) run_inv_task(1) [OF inv k(1)] history_not_other
      by (auto simp: active_def run_inv_def list_all_length)
    with k have "\<not> (k \<in> set (cw_successors cw ! i) \<and> run_remaining s ! k = 1)"
      using wf_successors(3) [OF wf i(2)] by auto
    with upd [of i t] i k len show ?thesis by auto
  qed
  have run: "run_status s = WorkflowRunning" if "i < task_count cw" "status_of s i = TaskRunning" for i
    using run_inv_running [OF inv that(1)] that(2) by (simp add: active_def)
  show ?thesis
  proof (cases a)
    case (Report i m response)
    with step have "status_of s i = TaskRunning" "i < task_count cw" and "\<exists>at. ts = result_outcome cw s i m response at"
      by (auto simp: is_active_def)
    then show ?thesis using retry skip rel run by (auto simp: result_outcome_def Let_def)
  qed (use step k upd retry len in \<open>auto simp: is_active_def canceled_def\<close>)
qed

section \<open>Progress\<close>

lemma pending_has_ready:
  assumes wf: "wf_compiled cw" and inv: "run_inv cw s" and live: "\<not> isWorkflowTerminal (run_status s)"
  shows "\<exists>i < task_count cw. active (status_of s i)"
proof -
  have len: "length (run_tasks s) = task_count cw" using inv shape_length by (auto simp: run_inv_def)
  have pos: "0 < task_count cw" using wf by (simp add: wf_compiled_def Let_def)
  have "\<exists>k < task_count cw. \<not> isTaskTerminal (status_of s k)"
    using inv live len pos by (cases "run_status s") (auto simp: run_inv_def list_all_length list_ex_length intro!: exI [of _ 0])
  then obtain k where "k < task_count cw" "\<not> isTaskTerminal (status_of s k)" by blast
  moreover have "graph_ok cw (status_of s) ((!) (run_remaining s))" using inv by (simp add: run_inv_def)
  ultimately show ?thesis using some_active [OF wf] run_inv_task(1) [OF inv] history_not_other by blast
qed

text \<open>From every live run some step other than cancelling or requeueing is possible.\<close>

lemma live_step:
  assumes wf: "wf_compiled cw" and inv: "run_inv cw s" and live: "\<not> isWorkflowTerminal (run_status s)"
  shows "\<exists>a s'. run_step cw s a s' \<and> a \<noteq> CancelRun \<and> (\<forall>i. a \<noteq> Requeue i)"
proof -
  obtain i where i: "i < task_count cw" and act: "active (status_of s i)" using pending_has_ready [OF wf inv live] by blast
  let ?m = "int (length (tr_Attempts (run_tasks s ! i)))"
  from act consider "status_of s i = TaskReady" | "status_of s i = TaskQueued" | "status_of s i = TaskRunning" | "status_of s i = TaskWaitingRetry"
    by (auto simp: active_def)
  then show ?thesis
  proof cases
    case 1
    with QueueTask_returns [OF wf inv i] run_step.queue show ?thesis by blast
  next
    case 2
    with StartQueuedAttempt_returns [OF wf inv i 2, of "''w''" "''d''"] run_step.start show ?thesis by blast
  next
    case 3
    then have act: "is_active s i ?m" by (simp add: is_active_def)
    have "known_kind (ep_Kind \<lparr>ep_Kind = ResultSuccess, ep_Output = '''', ep_ErrorCode = '''', ep_ErrorMessage = ''''\<rparr>)" by simp
    from ApplyAttemptResult_returns [OF wf inv i this, of ?m 0] act obtain s' response where
      "ApplyAttemptResult s cw (int i) ?m response 0 = Inr (True, s')" by auto
    then have "run_step cw s (Report i ?m response) s'" by (rule run_step.report)
    then show ?thesis by blast
  next
    case 4
    then obtain r where "tr_ReadyAt (run_tasks s ! i) = Some r" using run_inv_task(1) [OF inv i] by (auto simp: history_ok_def Let_def)
    with 4 have "retry_due s i ?m r" by (simp add: retry_due_def)
    with MakeRetryReady_returns [OF wf inv i, of ?m r] obtain s' where
      "MakeRetryReady s (int i) ?m r = Inr (True, s')" by auto
    then have "run_step cw s (RetryReady i ?m) s'" by (rule run_step.retry_ready)
    then show ?thesis by blast
  qed
qed

section \<open>Termination\<close>

text \<open>The work a task can still cause: four steps per attempt left, and the steps up to the end
  of the attempt under way. Every step but the requeueing of a dispatch uses some of it up.\<close>

fun stage :: "TaskStatus \<Rightarrow> nat" where
  "stage TaskRunning = 4"
| "stage TaskWaitingRetry = 3"
| "stage TaskWaitingDependencies = 3"
| "stage TaskReady = 2"
| "stage _ = 1"

definition task_work :: "int \<Rightarrow> TaskRun \<Rightarrow> nat" where
  "task_work limit t =
     (if isTaskTerminal (tr_Status t) then 0
      else 4 * (nat limit - length (tr_Attempts t)) + stage (tr_Status t))"

definition run_work :: "CompiledWorkflow \<Rightarrow> TaskRun list \<Rightarrow> nat" where
  "run_work cw ts = (\<Sum>i < task_count cw. task_work (max_attempts cw i) (ts ! i))"

lemma run_work_less:
  assumes "\<And>k. k < task_count cw \<Longrightarrow> task_work (max_attempts cw k) (ts' ! k) \<le> task_work (max_attempts cw k) (ts ! k)"
    and "i < task_count cw" "task_work (max_attempts cw i) (ts' ! i) < task_work (max_attempts cw i) (ts ! i)"
  shows "run_work cw ts' < run_work cw ts"
  unfolding run_work_def using assms by (intro sum_strict_mono_ex1) auto

lemma stage_pos: "0 < stage st"
  by (cases st) auto

lemma task_work_pos: "\<not> isTaskTerminal (tr_Status t) \<Longrightarrow> 0 < task_work limit t"
  by (simp add: task_work_def stage_pos)

lemma task_work_terminal [simp]: "isTaskTerminal (tr_Status t) \<Longrightarrow> task_work limit t = 0"
  by (simp add: task_work_def)

lemma finished_length: "tr_Attempts t \<noteq> [] \<Longrightarrow> length (tr_Attempts (finished a at res t)) = length (tr_Attempts t)"
  by (simp add: finished_def)

lemma update_work_less:
  assumes "i < task_count cw" and "i < length ts" and "task_work (max_attempts cw i) t < task_work (max_attempts cw i) (ts ! i)"
  shows "run_work cw (ts[i := t]) < run_work cw ts"
  using assms by (intro run_work_less [where i = i]) (auto simp: nth_update_if)

lemma retry_work:
  assumes inv: "run_inv cw s" and i: "i < task_count cw" and run: "status_of s i = TaskRunning"
  shows "run_work cw (retry_outcome cw s i m at (finished a at res (run_tasks s ! i))) < run_work cw (run_tasks s)"
    and "run_work cw (skipped_in V at ((run_tasks s)[i := entered TaskFailed at (finished a at res (run_tasks s ! i))])) < run_work cw (run_tasks s)"
proof -
  note len = run_inv_task(2,4) [OF inv i]
  have ne: "tr_Attempts (run_tasks s ! i) \<noteq> []" using run_inv_task(1) [OF inv i] run by (auto simp: history_ok_def Let_def)
  have pos: "0 < task_work (max_attempts cw i) (run_tasks s ! i)" using run by (simp add: task_work_pos)
  show skip: "run_work cw (skipped_in V at ((run_tasks s)[i := entered TaskFailed at (finished a at res (run_tasks s ! i))])) < run_work cw (run_tasks s)" for V
    using len i pos by (intro run_work_less [where i = i]) (auto simp: nth_update_if)
  have "task_work (max_attempts cw i) ((entered TaskWaitingRetry at (finished a at res (run_tasks s ! i)))\<lparr>tr_ReadyAt := r\<rparr>)
      < task_work (max_attempts cw i) (run_tasks s ! i)" for r
    using ne run by (simp add: task_work_def finished_length)
  with skip i len show "run_work cw (retry_outcome cw s i m at (finished a at res (run_tasks s ! i))) < run_work cw (run_tasks s)"
    by (auto simp: retry_outcome_def intro: update_work_less)
qed

lemma success_work:
  assumes wf: "wf_compiled cw" and inv: "run_inv cw s" and i: "i < task_count cw" and run: "status_of s i = TaskRunning"
  shows "run_work cw (released (set (cw_successors cw ! i)) at (run_remaining s) ((run_tasks s)[i := entered TaskSucceeded at t])) < run_work cw (run_tasks s)"
proof (rule run_work_less [where i = i])
  note len = run_inv_task(2,4) [OF inv i]
  have g: "graph_ok cw (status_of s) ((!) (run_remaining s))" using inv by (simp add: run_inv_def)
  have "run_status s = WorkflowRunning" using run_inv_running [OF inv i] run by (simp add: active_def)
  then have no: "status_of s k \<noteq> TaskCanceled" if "k < task_count cw" for k using inv len that by (auto simp: run_inv_def list_all_length)
  have wait: "status_of s k = TaskWaitingDependencies" if "k \<in> set (cw_successors cw ! i)" "run_remaining s ! k = 1" for k
  proof -
    have e: "(i, k) \<in> edges cw" using that wf_successors(3) [OF wf i] by simp
    then have k: "k < task_count cw" by (simp add: edges_def)
    show ?thesis using released_was_waiting [OF wf g e that(2)] run no [OF k] history_not_other [OF run_inv_task(1) [OF inv k]]
      by (simp add: active_def)
  qed
  have ni: "i \<notin> set (cw_successors cw ! i)" using wf_successors(3) [OF wf i] below_irrefl [OF wf] below_dep_in by blast
  show "task_work (max_attempts cw i) (released (set (cw_successors cw ! i)) at (run_remaining s) ((run_tasks s)[i := entered TaskSucceeded at t]) ! i) < task_work (max_attempts cw i) (run_tasks s ! i)"
    using ni len run by (simp add: task_work_pos)
  show "task_work (max_attempts cw k) (released (set (cw_successors cw ! i)) at (run_remaining s) ((run_tasks s)[i := entered TaskSucceeded at t]) ! k) \<le> task_work (max_attempts cw k) (run_tasks s ! k)"
    if "k < task_count cw" for k
    using that len wait [of k] ni by (auto simp: nth_update_if task_work_def)
qed (rule i)

lemma step_work:
  assumes wf: "wf_compiled cw" and inv: "run_inv cw s" and step: "step_tasks cw s a ts" and a: "\<forall>i. a \<noteq> Requeue i"
  shows "run_work cw ts < run_work cw (run_tasks s)"
proof (cases a)
  case (Queue i)
  then show ?thesis using step inv by (auto simp: task_work_def run_inv_task(4) intro!: update_work_less)
next
  case (Start i)
  then have i: "i < task_count cw" and q: "status_of s i = TaskQueued" using step by auto
  then have "length (tr_Attempts (run_tasks s ! i)) < nat (max_attempts cw i)"
    using run_inv_task(1) [OF inv i] by (auto simp: history_ok_def Let_def)
  then have "task_work (max_attempts cw i) (started at at w d (run_tasks s ! i)) < task_work (max_attempts cw i) (run_tasks s ! i)" for at w d
    using q by (simp add: task_work_def started_def)
  with Start step i run_inv_task(4) [OF inv i] show ?thesis by (auto intro: update_work_less)
next
  case (Report i m response)
  then have "i < task_count cw" "status_of s i = TaskRunning" using step by (auto simp: is_active_def)
  note rules = retry_work [OF inv this] success_work [OF wf inv this]
  from Report step rules show ?thesis by (auto simp: result_outcome_def Let_def)
next
  case (Interrupt i m)
  then show ?thesis using step retry_work(1) [OF inv] by (auto simp: is_active_def)
next
  case (Timeout i m)
  then show ?thesis using step retry_work(1) [OF inv] by (auto simp: is_active_def)
next
  case (RetryReady i m)
  then show ?thesis using step inv by (auto simp: task_work_def run_inv_task(4) intro!: update_work_less)
next
  case CancelRun
  have len: "length (run_tasks s) = task_count cw" using inv shape_length by (auto simp: run_inv_def)
  obtain i where i: "i < task_count cw" "active (status_of s i)"
    using CancelRun step pending_has_ready [OF wf inv] by auto
  then have "\<not> isTaskTerminal (status_of s i)" by (auto simp: active_def)
  with CancelRun step i(1) len show ?thesis
    by (auto intro!: run_work_less [where i = i] simp: canceled_status task_work_pos)
qed (use a in blast)

lemma requeue_work:
  assumes inv: "run_inv cw s" and step: "step_tasks cw s (Requeue i) ts"
  shows "run_work cw ts = Suc (run_work cw (run_tasks s))"
proof -
  have i: "i < task_count cw" and q: "status_of s i = TaskQueued" using step by auto
  obtain at where ts: "ts = (run_tasks s)[i := entered TaskReady at (run_tasks s ! i)]" using step by auto
  have "task_work (max_attempts cw i) (ts ! i) = Suc (task_work (max_attempts cw i) (run_tasks s ! i))"
    using q run_inv_task(4) [OF inv i] by (simp add: ts task_work_def)
  moreover have "(\<Sum>k \<in> {..<task_count cw} - {i}. task_work (max_attempts cw k) (ts ! k)) =
      (\<Sum>k \<in> {..<task_count cw} - {i}. task_work (max_attempts cw k) (run_tasks s ! k))"
    by (rule sum.cong) (auto simp: ts nth_update_if)
  ultimately show ?thesis using i unfolding run_work_def by (simp add: sum.remove [of "{..<task_count cw}" i])
qed

text \<open>Sequences of steps.\<close>

inductive run_trace :: "CompiledWorkflow \<Rightarrow> RunSnapshot \<Rightarrow> run_action list \<Rightarrow> RunSnapshot \<Rightarrow> bool"
  for cw :: CompiledWorkflow where
  trace_Nil: "run_trace cw s [] s"
| trace_Cons: "run_step cw s a t \<Longrightarrow> run_trace cw t as u \<Longrightarrow> run_trace cw s (a # as) u"

fun is_requeue :: "run_action \<Rightarrow> bool" where
  "is_requeue (Requeue i) = True"
| "is_requeue _ = False"

lemma trace_bound:
  assumes "run_trace cw s as u" and "wf_compiled cw" and "run_inv cw s"
  shows "length as + run_work cw (run_tasks u) \<le> run_work cw (run_tasks s) + 2 * length (filter is_requeue as)"
  using assms
proof (induction rule: run_trace.induct)
  case (trace_Cons s a t as u)
  then have t: "run_inv cw t" "step_tasks cw s a (run_tasks t)" using run_step_effect by blast+
  have IH: "length as + run_work cw (run_tasks u) \<le> run_work cw (run_tasks t) + 2 * length (filter is_requeue as)"
    using trace_Cons t by blast
  show ?case
  proof (cases a)
    case (Requeue i)
    with requeue_work [OF trace_Cons.prems(2)] t(2) IH show ?thesis by fastforce
  qed (use step_work [OF trace_Cons.prems t(2)] IH in auto)
qed simp

lemma trace_inv: "run_trace cw s as u \<Longrightarrow> wf_compiled cw \<Longrightarrow> run_inv cw s \<Longrightarrow> run_inv cw u \<and> evolves s u"
proof (induction rule: run_trace.induct)
  case (trace_Cons s a t as u)
  then show ?case using run_step_effect evolves_trans by blast
qed simp

text \<open>Every run can be driven to its end.\<close>

lemma can_finish:
  assumes wf: "wf_compiled cw" and inv: "run_inv cw s"
  shows "\<exists>as u. run_trace cw s as u \<and> isWorkflowTerminal (run_status u) \<and> CancelRun \<notin> set as"
  using inv
proof (induction "run_work cw (run_tasks s)" arbitrary: s rule: less_induct)
  case less
  show ?case
  proof (cases "isWorkflowTerminal (run_status s)")
    case True
    then show ?thesis using run_trace.trace_Nil by fastforce
  next
    case False
    then obtain a t where a: "run_step cw s a t" "a \<noteq> CancelRun" "\<forall>i. a \<noteq> Requeue i" using live_step [OF wf less.prems] by blast
    note e = run_step_effect [OF a(1) wf less.prems]
    then have "run_work cw (run_tasks t) < run_work cw (run_tasks s)" using step_work [OF wf less.prems _ a(3)] by blast
    then obtain as u where "run_trace cw t as u" "isWorkflowTerminal (run_status u)" "CancelRun \<notin> set as" using less.hyps e by blast
    with a run_trace.trace_Cons [of cw s a t as u] show ?thesis by (metis set_ConsD)
  qed
qed

section \<open>Effects of the operations on the attempts that run\<close>

text \<open>Task \<open>i\<close> stops running; every other task is as it was, or was waiting for its
  dependencies and now is ready or skipped.\<close>

definition only_stops :: "CompiledWorkflow \<Rightarrow> nat \<Rightarrow> TaskRun list \<Rightarrow> TaskRun list \<Rightarrow> bool" where
  "only_stops cw i ts us \<longleftrightarrow>
     length us = length ts \<and> tr_Status (us ! i) \<noteq> TaskRunning \<and> tr_Status (us ! i) \<noteq> TaskQueued \<and>
     length (tr_Attempts (us ! i)) = length (tr_Attempts (ts ! i)) \<and>
     (\<forall>k < task_count cw. k \<noteq> i \<longrightarrow> us ! k = ts ! k \<or>
        tr_Status (ts ! k) = TaskWaitingDependencies \<and> tr_Attempts (us ! k) = tr_Attempts (ts ! k) \<and>
        (tr_Status (us ! k) = TaskReady \<or> tr_Status (us ! k) = TaskSkipped))"

lemma running_waiting:
  assumes wf: "wf_compiled cw" and inv: "run_inv cw s" and i: "i < task_count cw" and run: "status_of s i = TaskRunning"
  shows "k \<in> below cw i \<Longrightarrow> \<not> isTaskTerminal (status_of s k) \<Longrightarrow> status_of s k = TaskWaitingDependencies"
    and "k \<in> set (cw_successors cw ! i) \<Longrightarrow> run_remaining s ! k = 1 \<Longrightarrow> status_of s k = TaskWaitingDependencies"
proof -
  note len = run_inv_task(2,4) [OF inv i]
  have g: "graph_ok cw (status_of s) ((!) (run_remaining s))" using inv by (simp add: run_inv_def)
  have "run_status s = WorkflowRunning" using run_inv_running [OF inv i] run by (simp add: active_def)
  then have no: "status_of s k \<noteq> TaskCanceled" "status_of s k \<noteq> TaskOther w" if "k < task_count cw" for k w
    using inv len that history_not_other [OF run_inv_task(1) [OF inv that]] by (auto simp: run_inv_def list_all_length)
  have ns: "status_of s i \<noteq> TaskSucceeded" using run by simp
  show "status_of s k = TaskWaitingDependencies" if k: "k \<in> below cw i" "\<not> isTaskTerminal (status_of s k)"
    using below_waiting [OF g ns k(1)] no [OF below_lt [OF k(1)]] k(2) by auto
  show "status_of s k = TaskWaitingDependencies" if k: "k \<in> set (cw_successors cw ! i)" "run_remaining s ! k = 1"
  proof -
    have e: "(i, k) \<in> edges cw" using k wf_successors(3) [OF wf i] by simp
    then have "k < task_count cw" by (simp add: edges_def)
    then show ?thesis using released_was_waiting [OF wf g e k(2)] run no by (simp add: active_def)
  qed
qed

lemma failure_only_stops:
  assumes wf: "wf_compiled cw" and inv: "run_inv cw s" and i: "i < task_count cw" and run: "status_of s i = TaskRunning"
  shows "only_stops cw i (run_tasks s) (skipped_in (below cw i) at ((run_tasks s)[i := entered TaskFailed at (finished a at res (run_tasks s ! i))]))"
    and "only_stops cw i (run_tasks s) (retry_outcome cw s i m at (finished a at res (run_tasks s ! i)))"
proof -
  note len = run_inv_task(2,4) [OF inv i] and wait = running_waiting(1) [OF assms]
  have ne: "tr_Attempts (run_tasks s ! i) \<noteq> []" using run_inv_task(1) [OF inv i] run by (auto simp: history_ok_def Let_def)
  show fail: "only_stops cw i (run_tasks s) (skipped_in (below cw i) at ((run_tasks s)[i := entered TaskFailed at (finished a at res (run_tasks s ! i))]))"
    using len i ne wait by (auto simp: only_stops_def nth_update_if finished_length)
  show "only_stops cw i (run_tasks s) (retry_outcome cw s i m at (finished a at res (run_tasks s ! i)))"
    using fail len i ne by (auto simp: retry_outcome_def only_stops_def nth_update_if finished_length)
qed

lemma result_only_stops:
  assumes wf: "wf_compiled cw" and inv: "run_inv cw s" and i: "i < task_count cw" and run: "status_of s i = TaskRunning"
  shows "only_stops cw i (run_tasks s) (result_outcome cw s i m response at)"
proof -
  note len = run_inv_task(2,4) [OF inv i] and wait = running_waiting(2) [OF assms]
  have ne: "tr_Attempts (run_tasks s ! i) \<noteq> []" using run_inv_task(1) [OF inv i] run by (auto simp: history_ok_def Let_def)
  have ni: "i \<notin> set (cw_successors cw ! i)" using wf_successors(3) [OF wf i] below_irrefl [OF wf] below_dep_in by blast
  have "only_stops cw i (run_tasks s) (released (set (cw_successors cw ! i)) at (run_remaining s)
      ((run_tasks s)[i := entered TaskSucceeded at (finished a at res (run_tasks s ! i))]))" for a res
    using len i ne ni wait by (auto simp: only_stops_def nth_update_if finished_length)
  then show ?thesis using failure_only_stops [OF assms] by (simp add: result_outcome_def Let_def)
qed

end
