(* ===== verification/Samples.thy ===== *)
theory Samples
  imports Run_Machine
begin

text \<open>
  A small workflow on which the theorems are applied: task \<open>c\<close> depends on \<open>a\<close> and
  \<open>b\<close>; \<open>a\<close> has one attempt, \<open>b\<close> two with a pause of one second between them. The
  states of one run are computed by the operations themselves.
\<close>

definition sample_task :: "string \<Rightarrow> string list \<Rightarrow> int \<Rightarrow> int \<Rightarrow> TaskDefinition" where
  "sample_task key deps attempts interval =
     \<lparr>td_Key = key, td_Executor = ExecutorMock, td_Action = ''echo'', td_Input = None, td_DependsOn = deps,
      td_Retry = \<lparr>rp_MaxAttempts = attempts, rp_IntervalMillis = interval\<rparr>, td_TimeoutMillis = 1000\<rparr>"

definition sample_def :: WorkflowDefinition where
  "sample_def = \<lparr>wd_ID = ''demo'', wd_Concurrency = 2,
     wd_Tasks = [sample_task ''a'' [] 1 0, sample_task ''b'' [] 2 1000, sample_task ''c'' [''a'', ''b''] 1 0]\<rparr>"

definition sample_cw :: CompiledWorkflow where
  "sample_cw = \<lparr>cw_definition = sample_def, cw_index = [(''c'', 2), (''b'', 1), (''a'', 0)],
     cw_dependencies = [[], [], [0, 1]], cw_successors = [[2], [2], []]\<rparr>"

lemma sample_inputs: "check_inputs (wd_Tasks sample_def) = Inr ()"
  by (simp add: sample_def_def sample_task_def check_input_def maxTaskInputBytes_def)

lemma sample_checked:
  "check_tasks (wd_Tasks sample_def) 0 [] = Inr (wd_Tasks sample_def, [(''c'', 2), (''b'', 1), (''a'', 0)])"
  by code_simp

lemma sample_compiled: "Compile sample_def = Inr sample_cw"
proof -
  have "cloneDefinition sample_def = Inr sample_def" by code_simp
  moreover have "identifierPattern (wd_ID sample_def)" by code_simp
  moreover have "link_tasks [(''c'', 2), (''b'', 1), (''a'', 0)] 0 (wd_Tasks sample_def)
      (replicate 3 [], replicate 3 [], replicate 3 0) = Inr ([[], [], [0, 1]], [[2], [2], []], [0, 0, 2])" by code_simp
  moreover have "kahn [[2], [2], []] (sources [0, 0, 2]) [0, 0, 2] 0 = 3" by code_simp
  moreover have "length (wd_Tasks sample_def) = 3" "wd_Tasks sample_def \<noteq> []" "wd_Concurrency sample_def = 2" "wd_ID sample_def \<noteq> ''''"
    by (simp_all add: sample_def_def)
  ultimately show ?thesis
    by (simp add: Compile_def sample_inputs sample_checked maxWorkflowTasks_def sample_cw_def)
qed

lemma sample_wf: "wf_compiled sample_cw"
  using compiled_wf [OF sample_compiled] .

definition or_else :: "'a \<Rightarrow> 'e + 'a \<Rightarrow> 'a" where
  "or_else d r = (case r of Inl _ \<Rightarrow> d | Inr x \<Rightarrow> x)"

definition s_new :: RunSnapshot where
  "s_new = upd_run (\<lambda>r. r\<lparr>wr_DefinitionVersion := 1\<rparr>) (newRunSnapshot ''r1'' sample_cw 0)"

definition s_queued :: RunSnapshot where
  "s_queued = or_else s_new (QueueTask s_new 1 10)"

definition s_started :: RunSnapshot where
  "s_started = fst (or_else (s_queued, undefined) (StartQueuedAttempt s_queued sample_cw 1 20 ''w1'' ''d1''))"

definition sample_response :: "ResultKind \<Rightarrow> ExecutionResponse" where
  "sample_response kind = \<lparr>ep_Kind = kind, ep_Output = ''out'', ep_ErrorCode = '''', ep_ErrorMessage = ''''\<rparr>"

definition s_retry :: RunSnapshot where
  "s_retry = snd (or_else (False, s_started)
     (ApplyAttemptResult s_started sample_cw 1 1 (sample_response ResultTemporaryFailure) 30))"

definition s_failed :: RunSnapshot where
  "s_failed = snd (or_else (False, s_started)
     (ApplyAttemptResult s_started sample_cw 1 1 (sample_response ResultPermanentFailure) 30))"

definition s_canceled :: RunSnapshot where
  "s_canceled = or_else s_started (CancelRunSnapshot s_started 40)"

lemma sample_queued: "QueueTask s_new 1 10 = Inr s_queued"
  by code_simp

lemma sample_started:
  "StartQueuedAttempt s_queued sample_cw 1 20 ''w1'' ''d1'' =
     Inr (s_started, \<lparr>eq_DefinitionID = ''demo'', eq_RunID = ''r1'', eq_TaskKey = ''b'', eq_Action = ''echo'',
                      eq_Input = None, eq_Attempt = 1\<rparr>)"
  by code_simp

lemma sample_retry:
  "ApplyAttemptResult s_started sample_cw 1 1 (sample_response ResultTemporaryFailure) 30 = Inr (True, s_retry)"
  by code_simp

lemma sample_failed:
  "ApplyAttemptResult s_started sample_cw 1 1 (sample_response ResultPermanentFailure) 30 = Inr (True, s_failed)"
  by code_simp

lemma sample_canceled: "CancelRunSnapshot s_started 40 = Inr s_canceled"
  by code_simp

lemma sample_new: "new_run sample_cw s_new"
  unfolding new_run_def NewRunSnapshotForVersion_def s_new_def
  by (intro exI [of _ "''r1''"] exI [of _ 1] exI [of _ 0]) simp

lemma step_queued: "run_step sample_cw s_new (Queue 1) s_queued"
  using run_step.queue [of s_new 1 10 s_queued sample_cw] sample_queued by simp

lemma step_started: "run_step sample_cw s_queued (Start 1) s_started"
proof -
  have "status_of s_queued 1 = TaskQueued" by code_simp
  then show ?thesis using run_step.start [of s_queued 1 sample_cw 20 "''w1''" "''d1''" s_started] sample_started by simp
qed

lemma step_failed: "run_step sample_cw s_started (Report 1 1 (sample_response ResultPermanentFailure)) s_failed"
  using run_step.report [of s_started sample_cw 1 1 "sample_response ResultPermanentFailure" 30 s_failed] sample_failed by simp

lemma step_retry: "run_step sample_cw s_started (Report 1 1 (sample_response ResultTemporaryFailure)) s_retry"
  using run_step.report [of s_started sample_cw 1 1 "sample_response ResultTemporaryFailure" 30 s_retry] sample_retry by simp

lemma reach_new: "reachable sample_cw s_new"
  using sample_new by (rule reach_init)

lemma reach_started: "reachable sample_cw s_started"
  using reach_new step_queued step_started by (blast intro: reach_step)

lemma reach_failed: "reachable sample_cw s_failed"
  using reach_started step_failed by (blast intro: reach_step)

lemma reach_retry: "reachable sample_cw s_retry"
  using reach_started step_retry by (blast intro: reach_step)

lemma trace_failed:
  "run_trace sample_cw s_new [Queue 1, Start 1, Report 1 1 (sample_response ResultPermanentFailure)] s_failed"
  using step_queued step_started step_failed by (blast intro: run_trace.intros)

text \<open>The run in which \<open>b\<close> and then \<open>a\<close> succeed, which releases \<open>c\<close>.\<close>

definition s_b :: RunSnapshot where
  "s_b = snd (or_else (False, s_started)
     (ApplyAttemptResult s_started sample_cw 1 1 (sample_response ResultSuccess) 30))"

definition s_a_queued :: RunSnapshot where
  "s_a_queued = or_else s_b (QueueTask s_b 0 40)"

definition s_a_started :: RunSnapshot where
  "s_a_started = fst (or_else (s_a_queued, undefined) (StartQueuedAttempt s_a_queued sample_cw 0 50 ''w1'' ''d2''))"

definition s_c_ready :: RunSnapshot where
  "s_c_ready = snd (or_else (False, s_a_started)
     (ApplyAttemptResult s_a_started sample_cw 0 1 (sample_response ResultSuccess) 60))"

lemma step_b: "run_step sample_cw s_started (Report 1 1 (sample_response ResultSuccess)) s_b"
proof -
  have "ApplyAttemptResult s_started sample_cw 1 1 (sample_response ResultSuccess) 30 = Inr (True, s_b)" by code_simp
  then show ?thesis using run_step.report [of s_started sample_cw 1 1 "sample_response ResultSuccess" 30 s_b] by simp
qed

lemma step_a_queued: "run_step sample_cw s_b (Queue 0) s_a_queued"
proof -
  have "QueueTask s_b 0 40 = Inr s_a_queued" by code_simp
  then show ?thesis using run_step.queue [of s_b 0 40 s_a_queued sample_cw] by simp
qed

lemma step_a_started: "run_step sample_cw s_a_queued (Start 0) s_a_started"
proof -
  have "StartQueuedAttempt s_a_queued sample_cw 0 50 ''w1'' ''d2'' = Inr (s_a_started,
      \<lparr>eq_DefinitionID = ''demo'', eq_RunID = ''r1'', eq_TaskKey = ''a'', eq_Action = ''echo'',
       eq_Input = None, eq_Attempt = 1\<rparr>)" and "status_of s_a_queued 0 = TaskQueued" by code_simp+
  then show ?thesis using run_step.start [of s_a_queued 0 sample_cw 50 "''w1''" "''d2''" s_a_started] by simp
qed

lemma sample_c_ready: "ApplyAttemptResult s_a_started sample_cw 0 1 (sample_response ResultSuccess) 60 = Inr (True, s_c_ready)"
  by code_simp

lemma step_c_ready: "run_step sample_cw s_a_started (Report 0 1 (sample_response ResultSuccess)) s_c_ready"
  using run_step.report [of s_a_started sample_cw 0 1 "sample_response ResultSuccess" 60 s_c_ready] sample_c_ready by simp

lemma reach_a_started: "reachable sample_cw s_a_started"
  using reach_started step_b step_a_queued step_a_started by (blast intro: reach_step)

lemma reach_c_ready: "reachable sample_cw s_c_ready"
  using reach_a_started step_c_ready by (blast intro: reach_step)

text \<open>The run in which \<open>a\<close> and \<open>b\<close> run together and \<open>a\<close> fails for good: \<open>c\<close> is
  skipped while \<open>b\<close> is still running.\<close>

definition s_both :: RunSnapshot where
  "s_both = fst (or_else (s_started, undefined)
     (StartQueuedAttempt (or_else s_started (QueueTask s_started 0 22)) sample_cw 0 25 ''w2'' ''d2''))"

definition s_skipped :: RunSnapshot where
  "s_skipped = snd (or_else (False, s_both)
     (ApplyAttemptResult s_both sample_cw 0 1 (sample_response ResultPermanentFailure) 30))"

lemma sample_statuses_skipped: "map tr_Status (run_tasks s_skipped) = [TaskFailed, TaskRunning, TaskSkipped]"
  by code_simp

lemma step_both:
  "QueueTask s_started 0 22 = Inr (or_else s_started (QueueTask s_started 0 22))"
  "\<exists>req. StartQueuedAttempt (or_else s_started (QueueTask s_started 0 22)) sample_cw 0 25 ''w2'' ''d2'' = Inr (s_both, req)"
  "status_of (or_else s_started (QueueTask s_started 0 22)) 0 = TaskQueued"
  "ApplyAttemptResult s_both sample_cw 0 1 (sample_response ResultPermanentFailure) 30 = Inr (True, s_skipped)"
proof -
  have "StartQueuedAttempt (or_else s_started (QueueTask s_started 0 22)) sample_cw 0 25 ''w2'' ''d2'' = Inr (s_both,
      \<lparr>eq_DefinitionID = ''demo'', eq_RunID = ''r1'', eq_TaskKey = ''a'', eq_Action = ''echo'', eq_Input = None, eq_Attempt = 1\<rparr>)"
    by code_simp
  then show "\<exists>req. StartQueuedAttempt (or_else s_started (QueueTask s_started 0 22)) sample_cw 0 25 ''w2'' ''d2'' = Inr (s_both, req)" ..
qed code_simp+

lemma reach_skipped: "reachable sample_cw s_skipped"
proof -
  let ?q = "or_else s_started (QueueTask s_started 0 22)"
  have "run_step sample_cw s_started (Queue 0) ?q" using run_step.queue [of s_started 0 22 ?q sample_cw] step_both(1) by simp
  moreover have "run_step sample_cw ?q (Start 0) s_both"
    using step_both(2,3) run_step.start [of ?q 0 sample_cw 25 "''w2''" "''d2''" s_both] by auto
  moreover have "run_step sample_cw s_both (Report 0 1 (sample_response ResultPermanentFailure)) s_skipped"
    using step_both(4) run_step.report [of s_both sample_cw 0 1 "sample_response ResultPermanentFailure" 30 s_skipped] by simp
  ultimately show ?thesis using reach_started by (blast intro: reach_step)
qed

end
