(* ===== verification/Change_Set.thy ===== *)
theory Change_Set
  imports Run_Machine
begin

text \<open>
  Row-level change sets (\<^verbatim>\<open>workflow/change.go\<close>, \<^verbatim>\<open>ChangeSetBetween\<close> of
  \<^verbatim>\<open>distributed_state.go\<close>): the difference of two snapshots as rows, and its
  application with the revision check. The main results are the round trip, for every change
  a run can make, and the optimistic concurrency control.
\<close>

section \<open>Data\<close>

record TaskRunChange =
  tc_RunID :: RunID
  tc_Index :: int
  tc_Task :: TaskRun
  tc_RemainingDependencies :: int

datatype ChangeOperation = ChangeInsert | ChangeUpdate | ChangeOther string

record AttemptChange =
  ac_RunID :: RunID
  ac_TaskKey :: TaskKey
  ac_TaskIndex :: int
  ac_Attempt :: Attempt
  ac_Operation :: ChangeOperation

record ChangeSet =
  cs_RunID :: RunID
  cs_ExpectedRevision :: u64
  cs_Run :: "WorkflowRun option"
  cs_Tasks :: "TaskRunChange list"
  cs_Attempts :: "AttemptChange list"
  cs_Events :: "StateEvent list"

definition zero_task :: TaskRun where
  "zero_task = \<lparr>tr_Key = '''', tr_Status = TaskOther '''', tr_Attempts = [], tr_ReadyAt = None, tr_FinishedAt = None\<rparr>"

section \<open>The difference of two snapshots\<close>

definition task_at :: "RunSnapshot \<Rightarrow> nat \<Rightarrow> TaskRun" where
  "task_at s i = (if i < length (run_tasks s) then run_tasks s ! i else zero_task)"

definition remaining_at :: "RunSnapshot \<Rightarrow> nat \<Rightarrow> int" where
  "remaining_at s i = (if i < length (run_remaining s) then run_remaining s ! i else 0)"

definition task_changes :: "RunSnapshot \<Rightarrow> RunSnapshot \<Rightarrow> nat \<Rightarrow> TaskRunChange list" where
  "task_changes base after i =
     (let b = task_at base i; a = run_tasks after ! i in
      if tr_Key b \<noteq> tr_Key a \<or> tr_Status b \<noteq> tr_Status a \<or> remaining_at base i \<noteq> remaining_at after i \<or>
         tr_ReadyAt b \<noteq> tr_ReadyAt a \<or> tr_FinishedAt b \<noteq> tr_FinishedAt a
      then [\<lparr>tc_RunID = wr_ID (rs_Run after), tc_Index = int i, tc_Task = a\<lparr>tr_Attempts := []\<rparr>,
             tc_RemainingDependencies = remaining_at after i\<rparr>]
      else [])"

definition attempt_change :: "RunSnapshot \<Rightarrow> RunSnapshot \<Rightarrow> nat \<Rightarrow> nat \<Rightarrow> AttemptChange list" where
  "attempt_change base after i j =
     (let bs = tr_Attempts (task_at base i); a = run_tasks after ! i; attempt = tr_Attempts a ! j;
          row = (\<lambda>operation. [\<lparr>ac_RunID = wr_ID (rs_Run after), ac_TaskKey = tr_Key a, ac_TaskIndex = int i,
                               ac_Attempt = attempt, ac_Operation = operation\<rparr>]) in
      if j < length bs then (if bs ! j = attempt then [] else row ChangeUpdate)
      else row ChangeInsert)"

definition attempt_changes :: "RunSnapshot \<Rightarrow> RunSnapshot \<Rightarrow> nat \<Rightarrow> AttemptChange list" where
  "attempt_changes base after i =
     concat (map (attempt_change base after i) [0 ..< length (tr_Attempts (run_tasks after ! i))])"

definition changeSetFromSnapshots :: "RunSnapshot \<Rightarrow> RunSnapshot \<Rightarrow> ChangeSet res" where
  "changeSetFromSnapshots base after =
     (if length (rs_Events after) < length (rs_Events base) then Inl (GoPanic ''slice bounds out of range'')
      else
        let run = (rs_Run after)\<lparr>wr_LastEventSequence := snapshotLastEventSequence after,
                                 wr_Tasks := [], wr_RemainingDependencies := []\<rparr>;
            indices = [0 ..< length (run_tasks after)]
        in Inr \<lparr>cs_RunID = wr_ID (rs_Run after), cs_ExpectedRevision = wr_Revision (rs_Run base),
                cs_Run = Some run,
                cs_Tasks = concat (map (task_changes base after) indices),
                cs_Attempts = concat (map (attempt_changes base after) indices),
                cs_Events = drop (length (rs_Events base)) (rs_Events after)\<rparr>)"

definition ChangeSetBetween :: "RunSnapshot \<Rightarrow> RunSnapshot \<Rightarrow> ChangeSet res" where
  "ChangeSetBetween base after =
     (if wr_ID (rs_Run base) = '''' \<or> wr_ID (rs_Run base) \<noteq> wr_ID (rs_Run after)
        then Inl (Errorf ''before and after snapshots must identify the same Run'')
      else if wr_Revision (rs_Run after) \<noteq> wr_Revision (rs_Run base) + 1
        then Inl (Errorf ''after revision %d must follow before revision %d'')
      else changeSetFromSnapshots base after)"

section \<open>Applying a change set\<close>

text \<open>The two loops carry the set of rows already changed.\<close>

definition apply_task_change ::
  "RunID \<Rightarrow> TaskRunChange \<Rightarrow> int list \<times> RunSnapshot \<Rightarrow> (int list \<times> RunSnapshot) res" where
  "apply_task_change runID c = (\<lambda>(changed, s).
     let i = nat (tc_Index c) in
     if tc_RunID c \<noteq> runID then Inl (ErrInvalidChangeSet ''task RunID %q does not match ChangeSet RunID %q'')
     else if tc_Index c < 0 \<or> int (length (run_tasks s)) \<le> tc_Index c
       then Inl (ErrInvalidChangeSet ''task index %d is out of range'')
     else if tc_Index c \<in> set changed then Inl (ErrInvalidChangeSet ''task index %d is changed more than once'')
     else if tr_Key (tc_Task c) \<noteq> tr_Key (run_tasks s ! i)
       then Inl (ErrInvalidChangeSet ''task key %q does not match index %d'')
     else if tr_Attempts (tc_Task c) \<noteq> [] then Inl (ErrInvalidChangeSet ''task %q embeds attempt rows'')
     else if tc_RemainingDependencies c < 0
       then Inl (ErrInvalidChangeSet ''task %q has negative remaining dependencies'')
     else
       let s = upd_task i (\<lambda>t. (tc_Task c)\<lparr>tr_Attempts := tr_Attempts t\<rparr>) s;
           s = upd_run (\<lambda>r. r\<lparr>wr_RemainingDependencies :=
                 (wr_RemainingDependencies r)[i := tc_RemainingDependencies c]\<rparr>) s
       in Inr (tc_Index c # changed, s))"

definition apply_attempt_change ::
  "RunID \<Rightarrow> AttemptChange \<Rightarrow> (int \<times> int) list \<times> RunSnapshot \<Rightarrow> ((int \<times> int) list \<times> RunSnapshot) res" where
  "apply_attempt_change runID c = (\<lambda>(changed, s).
     let i = nat (ac_TaskIndex c); number = at_Number (ac_Attempt c); key = (ac_TaskIndex c, number) in
     if ac_RunID c \<noteq> runID then Inl (ErrInvalidChangeSet ''attempt RunID %q does not match ChangeSet RunID %q'')
     else if ac_TaskIndex c < 0 \<or> int (length (run_tasks s)) \<le> ac_TaskIndex c
       then Inl (ErrInvalidChangeSet ''attempt task index %d is out of range'')
     else if ac_TaskKey c \<noteq> tr_Key (run_tasks s ! i)
       then Inl (ErrInvalidChangeSet ''attempt task key %q does not match index %d'')
     else if key \<in> set changed then Inl (ErrInvalidChangeSet ''attempt %q/%d is changed more than once'')
     else
       let attempts = tr_Attempts (run_tasks s ! i) in
       case ac_Operation c of
         ChangeInsert \<Rightarrow>
           if number \<noteq> int (length attempts) + 1
           then Inl (ErrInvalidChangeSet ''inserted attempt number %d must follow existing history length %d'')
           else Inr (key # changed, upd_task i (\<lambda>t. t\<lparr>tr_Attempts := tr_Attempts t @ [ac_Attempt c]\<rparr>) s)
       | ChangeUpdate \<Rightarrow>
           let index = number - 1 in
           if index < 0 \<or> int (length attempts) \<le> index \<or> at_Number (attempts ! nat index) \<noteq> number
           then Inl (ErrInvalidChangeSet ''updated attempt number %d does not exist'')
           else Inr (key # changed, upd_task i (\<lambda>t. t\<lparr>tr_Attempts := (tr_Attempts t)[nat index := ac_Attempt c]\<rparr>) s)
       | ChangeOther w \<Rightarrow> Inl (ErrInvalidChangeSet ''unknown attempt operation %q''))"

fun check_events :: "u64 \<Rightarrow> StateEvent list \<Rightarrow> unit res" where
  "check_events nextSequence [] = Inr ()"
| "check_events nextSequence (event # events) =
     (if se_Sequence event \<noteq> nextSequence then Inl (ErrInvalidChangeSet ''event sequence %d must be %d'')
      else check_events (nextSequence + 1) events)"

definition applyChangeSet :: "RunSnapshot \<Rightarrow> ChangeSet \<Rightarrow> RunSnapshot res" where
  "applyChangeSet s change =
     (if cs_RunID change \<noteq> wr_ID (rs_Run s)
        then Inl (ErrInvalidChangeSet ''change RunID %q does not match snapshot RunID %q'')
      else if cs_ExpectedRevision change \<noteq> wr_Revision (rs_Run s) then Inl ErrRevisionConflict
      else case cs_Run change of
        None \<Rightarrow> Inl (ErrInvalidChangeSet ''run row is required'')
      | Some run \<Rightarrow>
          if wr_ID run \<noteq> cs_RunID change
            then Inl (ErrInvalidChangeSet ''run row ID %q does not match ChangeSet RunID %q'')
          else if wr_Revision run \<noteq> cs_ExpectedRevision change + 1
            then Inl (ErrInvalidChangeSet ''run revision %d must follow expected revision %d'')
          else if wr_Tasks run \<noteq> [] \<or> wr_RemainingDependencies run \<noteq> []
            then Inl (ErrInvalidChangeSet ''run row must not embed task rows'')
          else if length (run_tasks s) \<noteq> length (run_remaining s)
            then Inl (ErrInvalidChangeSet ''snapshot task and dependency counts differ'')
          else
            let updated = s\<lparr>rs_Run := run\<lparr>wr_Tasks := run_tasks s, wr_RemainingDependencies := run_remaining s\<rparr>\<rparr> in
            bindR (foldR (apply_task_change (cs_RunID change)) (cs_Tasks change) ([], updated)) (\<lambda>(_, updated).
            bindR (foldR (apply_attempt_change (cs_RunID change)) (cs_Attempts change) ([], updated)) (\<lambda>(_, updated).
            let persisted = snapshotLastEventSequence s in
            bindR (check_events (persisted + 1) (cs_Events change)) (\<lambda>_.
            let want = (if cs_Events change \<noteq> [] then se_Sequence (last (cs_Events change)) else persisted) in
            if wr_LastEventSequence (rs_Run updated) \<noteq> want
              then Inl (ErrInvalidChangeSet ''run last event sequence %d must be %d'')
            else Inr (updated\<lparr>rs_Events := rs_Events updated @ cs_Events change\<rparr>)))))"

definition ApplyChangeSetForStore :: "RunSnapshot \<Rightarrow> ChangeSet \<Rightarrow> RunSnapshot res" where
  "ApplyChangeSetForStore s change = applyChangeSet s change"

section \<open>Round trip\<close>

text \<open>The pairs of snapshots a change set can carry: the same run one revision later, with
  the same tasks, grown histories and a grown log.\<close>

definition numbered :: "Attempt list \<Rightarrow> bool" where
  "numbered as \<longleftrightarrow> map at_Number as = map int [1 ..< Suc (length as)]"

definition diffable :: "RunSnapshot \<Rightarrow> RunSnapshot \<Rightarrow> bool" where
  "diffable b a \<longleftrightarrow>
     wr_ID (rs_Run a) = wr_ID (rs_Run b) \<and> wr_Revision (rs_Run a) = wr_Revision (rs_Run b) + 1 \<and>
     rs_Version a = rs_Version b \<and> rs_Definition a = rs_Definition b \<and>
     prefix (rs_Events b) (rs_Events a) \<and> log_ok b \<and> log_ok a \<and>
     map tr_Key (run_tasks a) = map tr_Key (run_tasks b) \<and>
     length (run_remaining b) = length (run_tasks b) \<and> length (run_remaining a) = length (run_tasks a) \<and>
     list_all (\<lambda>r. 0 \<le> r) (run_remaining a) \<and>
     (\<forall>i < length (run_tasks a).
        numbered (tr_Attempts (run_tasks b ! i)) \<and> numbered (tr_Attempts (run_tasks a ! i)) \<and>
        length (tr_Attempts (run_tasks b ! i)) \<le> length (tr_Attempts (run_tasks a ! i)))"

lemma numbered_nth: "numbered as \<Longrightarrow> j < length as \<Longrightarrow> at_Number (as ! j) = int (Suc j)"
proof -
  assume "numbered as" and j: "j < length as"
  then have "map at_Number as ! j = map int [1 ..< Suc (length as)] ! j" by (simp add: numbered_def)
  with j show ?thesis by (simp del: upt_Suc)
qed

lemma diffable_length:
  assumes "diffable b a"
  shows "length (run_tasks b) = length (run_tasks a)" and "length (run_remaining b) = length (run_tasks a)"
    and "length (run_remaining a) = length (run_tasks a)"
    and "i < length (run_tasks a) \<Longrightarrow> tr_Key (run_tasks b ! i) = tr_Key (run_tasks a ! i)"
    and "i < length (run_tasks a) \<Longrightarrow> 0 \<le> run_remaining a ! i"
proof -
  have keys: "map tr_Key (run_tasks a) = map tr_Key (run_tasks b)" using assms by (simp add: diffable_def)
  show len: "length (run_tasks b) = length (run_tasks a)" using keys by (metis length_map)
  show "length (run_remaining b) = length (run_tasks a)" and r: "length (run_remaining a) = length (run_tasks a)"
    using assms len by (simp_all add: diffable_def)
  show "tr_Key (run_tasks b ! i) = tr_Key (run_tasks a ! i)" if "i < length (run_tasks a)"
    using arg_cong [OF keys, of "\<lambda>xs. xs ! i"] that len by simp
  show "0 \<le> run_remaining a ! i" if "i < length (run_tasks a)"
    using assms that r by (simp add: diffable_def list_all_length)
qed

text \<open>The task rows: after the rows of the tasks below \<open>m\<close>.\<close>

definition rows_done :: "RunSnapshot \<Rightarrow> RunSnapshot \<Rightarrow> nat \<Rightarrow> TaskRun list" where
  "rows_done b a m =
     map (\<lambda>k. if k < m then (run_tasks a ! k)\<lparr>tr_Attempts := tr_Attempts (run_tasks b ! k)\<rparr> else run_tasks b ! k)
       [0 ..< length (run_tasks a)]"

definition rem_done :: "RunSnapshot \<Rightarrow> RunSnapshot \<Rightarrow> nat \<Rightarrow> int list" where
  "rem_done b a m = map (\<lambda>k. if k < m then run_remaining a ! k else run_remaining b ! k) [0 ..< length (run_tasks a)]"

definition with_rows :: "TaskRun list \<Rightarrow> int list \<Rightarrow> RunSnapshot \<Rightarrow> RunSnapshot" where
  "with_rows ts rem s = upd_run (\<lambda>r. r\<lparr>wr_Tasks := ts, wr_RemainingDependencies := rem\<rparr>) s"

lemma with_rows_simps [simp]:
  "run_tasks (with_rows ts rem s) = ts" "run_remaining (with_rows ts rem s) = rem"
  "with_rows ts' rem' (with_rows ts rem s) = with_rows ts' rem' s"
  "upd_task i f (with_rows ts rem s) = with_rows (ts[i := f (ts ! i)]) rem s"
  "upd_run (\<lambda>r. r\<lparr>wr_RemainingDependencies := (wr_RemainingDependencies r)[i := v]\<rparr>) (with_rows ts rem s) = with_rows ts (rem[i := v]) s"
  by (simp_all add: with_rows_def upd_run_def upd_task_def)

lemma task_rows_step:
  assumes d: "diffable b a" and m: "m < length (run_tasks a)" and fresh: "\<forall>c \<in> set changed. c < int m"
  shows "\<exists>changed'. foldR (apply_task_change (wr_ID (rs_Run a))) (task_changes b a m)
      (changed, with_rows (rows_done b a m) (rem_done b a m) s) =
    Inr (changed', with_rows (rows_done b a (Suc m)) (rem_done b a (Suc m)) s) \<and> (\<forall>c \<in> set changed'. c < int (Suc m))"
proof -
  note len = diffable_length [OF d]
  have ta: "task_at b m = run_tasks b ! m" "remaining_at b m = run_remaining b ! m" "remaining_at a m = run_remaining a ! m"
    using m len by (simp_all add: task_at_def remaining_at_def)
  have rows: "(rows_done b a m)[m := (run_tasks a ! m)\<lparr>tr_Attempts := tr_Attempts (run_tasks b ! m)\<rparr>] = rows_done b a (Suc m)"
    using m by (auto simp: rows_done_def nth_list_update less_Suc_eq intro!: nth_equalityI)
  have rem: "(rem_done b a m)[m := run_remaining a ! m] = rem_done b a (Suc m)"
    using m by (auto simp: rem_done_def nth_list_update less_Suc_eq intro!: nth_equalityI)
  have at: "rows_done b a m ! m = run_tasks b ! m" "length (rows_done b a m) = length (run_tasks a)"
    using m by (simp_all add: rows_done_def)
  show ?thesis
  proof (cases "task_changes b a m = []")
    case True
    then have "run_tasks b ! m = (run_tasks a ! m)\<lparr>tr_Attempts := tr_Attempts (run_tasks b ! m)\<rparr>" and "run_remaining b ! m = run_remaining a ! m"
      by (auto simp: task_changes_def Let_def ta split: if_splits)
    then have "rows_done b a (Suc m) = rows_done b a m" and "rem_done b a (Suc m) = rem_done b a m"
      using m by (auto simp: rows_done_def rem_done_def less_Suc_eq)
    with True fresh show ?thesis by force
  next
    case False
    then have c: "task_changes b a m = [\<lparr>tc_RunID = wr_ID (rs_Run a), tc_Index = int m,
        tc_Task = (run_tasks a ! m)\<lparr>tr_Attempts := []\<rparr>, tc_RemainingDependencies = run_remaining a ! m\<rparr>]"
      by (auto simp: task_changes_def Let_def ta split: if_splits)
    have "int m \<notin> set changed" using fresh by auto
    with m len(4,5) [OF m] fresh show ?thesis
      by (auto simp: c apply_task_change_def Let_def at rows rem)
  qed
qed

lemma task_rows:
  assumes d: "diffable b a" and "m \<le> length (run_tasks a)"
  shows "\<exists>changed. foldR (apply_task_change (wr_ID (rs_Run a))) (concat (map (task_changes b a) [0 ..< m]))
      ([], with_rows (rows_done b a 0) (rem_done b a 0) s) =
    Inr (changed, with_rows (rows_done b a m) (rem_done b a m) s) \<and> (\<forall>c \<in> set changed. c < int m)"
  using assms(2)
proof (induction m)
  case (Suc m)
  then obtain changed where "foldR (apply_task_change (wr_ID (rs_Run a))) (concat (map (task_changes b a) [0 ..< m]))
      ([], with_rows (rows_done b a 0) (rem_done b a 0) s) = Inr (changed, with_rows (rows_done b a m) (rem_done b a m) s)"
    and "\<forall>c \<in> set changed. c < int m" by auto
  with task_rows_step [OF d, of m changed s] Suc.prems show ?case by (simp add: foldR_append)
qed simp

text \<open>The attempt rows: after the rows of the tasks below \<open>m\<close> and the first \<open>p\<close> attempts of
  task \<open>m\<close>.\<close>

definition history_done :: "RunSnapshot \<Rightarrow> RunSnapshot \<Rightarrow> nat \<Rightarrow> nat \<Rightarrow> Attempt list" where
  "history_done b a i p = take p (tr_Attempts (run_tasks a ! i)) @ drop p (tr_Attempts (run_tasks b ! i))"

definition hist_done :: "RunSnapshot \<Rightarrow> RunSnapshot \<Rightarrow> nat \<Rightarrow> nat \<Rightarrow> TaskRun list" where
  "hist_done b a m p =
     map (\<lambda>k. if k < m then run_tasks a ! k
              else (run_tasks a ! k)\<lparr>tr_Attempts := (if k = m then history_done b a m p else tr_Attempts (run_tasks b ! k))\<rparr>)
       [0 ..< length (run_tasks a)]"

lemma history_done_Suc:
  assumes "p < length (tr_Attempts (run_tasks a ! i))"
  shows "history_done b a i (Suc p) =
    (if p < length (tr_Attempts (run_tasks b ! i)) then (history_done b a i p)[p := tr_Attempts (run_tasks a ! i) ! p]
     else history_done b a i p @ [tr_Attempts (run_tasks a ! i) ! p])"
  using assms
  by (auto simp: history_done_def take_Suc_conv_app_nth list_update_append Cons_nth_drop_Suc [symmetric])

lemma history_done_nth:
  "p < length (tr_Attempts (run_tasks b ! i)) \<Longrightarrow> p < length (tr_Attempts (run_tasks a ! i)) \<Longrightarrow>
   history_done b a i p ! p = tr_Attempts (run_tasks b ! i) ! p"
  by (simp add: history_done_def nth_append)

lemma attempt_row_step:
  assumes d: "diffable b a" and m: "m < length (run_tasks a)" and p: "p < length (tr_Attempts (run_tasks a ! m))"
    and fresh: "\<forall>(c, n) \<in> set changed. c < int m \<or> c = int m \<and> n \<le> int p"
  shows "\<exists>changed'. foldR (apply_attempt_change (wr_ID (rs_Run a))) (attempt_change b a m p)
      (changed, with_rows (hist_done b a m p) rem s) =
    Inr (changed', with_rows (hist_done b a m (Suc p)) rem s) \<and>
    (\<forall>(c, n) \<in> set changed'. c < int m \<or> c = int m \<and> n \<le> int (Suc p))"
proof -
  let ?as = "tr_Attempts (run_tasks a ! m)" and ?bs = "tr_Attempts (run_tasks b ! m)"
  have le: "length ?bs \<le> length ?as" and num: "numbered ?as" "numbered ?bs" using d m by (simp_all add: diffable_def)
  have ta: "task_at b m = run_tasks b ! m" using m diffable_length(1) [OF d] by (simp add: task_at_def)
  have n: "at_Number (?as ! p) = int (Suc p)" using numbered_nth [OF num(1) p] .
  have at: "hist_done b a m p ! m = (run_tasks a ! m)\<lparr>tr_Attempts := history_done b a m p\<rparr>" "length (hist_done b a m p) = length (run_tasks a)"
    using m by (simp_all add: hist_done_def)
  have upd: "(hist_done b a m p)[m := (run_tasks a ! m)\<lparr>tr_Attempts := history_done b a m (Suc p)\<rparr>] = hist_done b a m (Suc p)"
    using m by (auto simp: hist_done_def nth_list_update intro!: nth_equalityI)
  have len: "length (history_done b a m p) = (if p < length ?bs then length ?bs else p)"
    using p le by (auto simp: history_done_def)
  have new: "(int m, int (Suc p)) \<notin> set changed" using fresh by auto
  show ?thesis
  proof (cases "p < length ?bs")
    case True
    note nth = history_done_nth [OF True p]
    show ?thesis
    proof (cases "?bs ! p = ?as ! p")
      case same: True
      have "history_done b a m (Suc p) = history_done b a m p"
        using history_done_Suc [OF p, of b] True nth same by (metis list_update_id)
      then have "hist_done b a m (Suc p) = hist_done b a m p" by (simp add: hist_done_def)
      with same True fresh show ?thesis by (fastforce simp: attempt_change_def Let_def ta)
    next
      case False
      with True new n nth m len numbered_nth [OF num(2) True] fresh history_done_Suc [OF p, of b] upd show ?thesis
        by (fastforce simp: attempt_change_def Let_def ta apply_attempt_change_def at)
    qed
  next
    case False
    with new n m len fresh history_done_Suc [OF p, of b] upd show ?thesis
      by (fastforce simp: attempt_change_def Let_def ta apply_attempt_change_def at)
  qed
qed

lemma attempt_rows_of:
  assumes d: "diffable b a" and m: "m < length (run_tasks a)" and "p \<le> length (tr_Attempts (run_tasks a ! m))"
    and fresh: "\<forall>(c, n) \<in> set changed. c < int m"
  shows "\<exists>changed'. foldR (apply_attempt_change (wr_ID (rs_Run a))) (concat (map (attempt_change b a m) [0 ..< p]))
      (changed, with_rows (hist_done b a m 0) rem s) =
    Inr (changed', with_rows (hist_done b a m p) rem s) \<and>
    (\<forall>(c, n) \<in> set changed'. c < int m \<or> c = int m \<and> n \<le> int p)"
  using assms(3)
proof (induction p)
  case 0
  with fresh show ?case by fastforce
next
  case (Suc p)
  then obtain changed' where "foldR (apply_attempt_change (wr_ID (rs_Run a))) (concat (map (attempt_change b a m) [0 ..< p]))
      (changed, with_rows (hist_done b a m 0) rem s) = Inr (changed', with_rows (hist_done b a m p) rem s)"
    and "\<forall>(c, n) \<in> set changed'. c < int m \<or> c = int m \<and> n \<le> int p" by auto
  with attempt_row_step [OF d m, of p changed' rem s] Suc.prems show ?case by (simp add: foldR_append)
qed

lemma hist_done_next:
  assumes d: "diffable b a" and m: "m < length (run_tasks a)"
  shows "hist_done b a m (length (tr_Attempts (run_tasks a ! m))) = hist_done b a (Suc m) 0"
proof -
  have "history_done b a m (length (tr_Attempts (run_tasks a ! m))) = tr_Attempts (run_tasks a ! m)"
    using d m by (simp add: history_done_def diffable_def)
  then show ?thesis using m by (auto simp: hist_done_def history_done_def less_Suc_eq)
qed

lemma attempt_rows:
  assumes d: "diffable b a" and "m \<le> length (run_tasks a)"
  shows "\<exists>changed. foldR (apply_attempt_change (wr_ID (rs_Run a))) (concat (map (attempt_changes b a) [0 ..< m]))
      ([], with_rows (hist_done b a 0 0) rem s) =
    Inr (changed, with_rows (hist_done b a m 0) rem s) \<and> (\<forall>(c, n) \<in> set changed. c < int m)"
  using assms(2)
proof (induction m)
  case (Suc m)
  then obtain changed where c: "foldR (apply_attempt_change (wr_ID (rs_Run a))) (concat (map (attempt_changes b a) [0 ..< m]))
      ([], with_rows (hist_done b a 0 0) rem s) = Inr (changed, with_rows (hist_done b a m 0) rem s)"
    and fresh: "\<forall>(c, n) \<in> set changed. c < int m" by auto
  have m: "m < length (run_tasks a)" using Suc.prems by simp
  from attempt_rows_of [OF d m order_refl fresh, of rem s] obtain changed' where
    "foldR (apply_attempt_change (wr_ID (rs_Run a))) (attempt_changes b a m) (changed, with_rows (hist_done b a m 0) rem s) =
      Inr (changed', with_rows (hist_done b a (Suc m) 0) rem s)"
    and "\<forall>(c, n) \<in> set changed'. c < int (Suc m)"
    unfolding hist_done_next [OF d m] attempt_changes_def by fastforce
  with c show ?case by (simp add: foldR_append)
qed simp

lemma check_events_iff:
  "check_events q es = Inr () \<longleftrightarrow> (\<forall>k < length es. se_Sequence (es ! k) = q + of_nat k)"
proof (induction es arbitrary: q)
  case (Cons e es)
  show ?case unfolding length_Cons All_less_Suc2 using Cons.IH [of "q + 1"] by (auto simp: add.assoc add.commute)
qed simp

lemma log_tail:
  assumes "log_ok b" and "log_ok a" and "prefix (rs_Events b) (rs_Events a)"
  defines "tail \<equiv> drop (length (rs_Events b)) (rs_Events a)"
  shows "check_events (snapshotLastEventSequence b + 1) tail = Inr ()"
    and "wr_LastEventSequence (rs_Run a) = (if tail \<noteq> [] then se_Sequence (last tail) else snapshotLastEventSequence b)"
    and "rs_Events b @ tail = rs_Events a"
proof -
  obtain es where es: "rs_Events a = rs_Events b @ es" using assms(3) by (auto simp: prefix_def)
  then have tail: "tail = es" by (simp add: tail_def)
  have sq: "se_Sequence (es ! k) = of_nat (Suc (length (rs_Events b) + k))" if "k < length es" for k
    using assms(2) that unfolding log_ok_def es by (metis add.commute length_append nat_add_left_cancel_less nth_append_length_plus)
  then show "check_events (snapshotLastEventSequence b + 1) tail = Inr ()"
    by (auto simp: check_events_iff tail log_ok_last [OF assms(1)])
  show "wr_LastEventSequence (rs_Run a) = (if tail \<noteq> [] then se_Sequence (last tail) else snapshotLastEventSequence b)"
  proof (cases "es = []")
    case True
    then show ?thesis using assms(1,2) es tail by (simp add: log_ok_last log_ok_def)
  next
    case False
    then have "se_Sequence (last es) = of_nat (Suc (length (rs_Events b) + (length es - 1)))"
      using sq [of "length es - 1"] by (simp add: last_conv_nth)
    moreover have "Suc (length (rs_Events b) + (length es - 1)) = length (rs_Events a)" using False es by (cases es) auto
    ultimately have "se_Sequence (last es) = of_nat (length (rs_Events a))" by (simp only:)
    then show ?thesis using assms(2) False tail by (simp add: log_ok_def)
  qed
  show "rs_Events b @ tail = rs_Events a" using es tail by simp
qed

lemma change_set_round_trip:
  assumes d: "diffable b a"
  shows "\<exists>c. changeSetFromSnapshots b a = Inr c \<and> applyChangeSet b c = Inr a"
proof -
  note len = diffable_length [OF d]
  let ?n = "length (run_tasks a)"
  have pre: "prefix (rs_Events b) (rs_Events a)" and logs: "log_ok b" "log_ok a" using d by (simp_all add: diffable_def)
  note tail = log_tail [OF logs pre]
  have le: "\<not> length (rs_Events a) < length (rs_Events b)" using prefix_length_le [OF pre] by simp
  define run where "run = (rs_Run a)\<lparr>wr_LastEventSequence := snapshotLastEventSequence a, wr_Tasks := [], wr_RemainingDependencies := []\<rparr>"
  have lastseq: "snapshotLastEventSequence a = wr_LastEventSequence (rs_Run a)" using logs(2) by (simp add: log_ok_last log_ok_def)
  define u0 where "u0 = b\<lparr>rs_Run := run\<lparr>wr_Tasks := run_tasks b, wr_RemainingDependencies := run_remaining b\<rparr>\<rparr>"
  have u0: "u0 = with_rows (rows_done b a 0) (rem_done b a 0) u0"
  proof -
    have "rows_done b a 0 = run_tasks b" "rem_done b a 0 = run_remaining b"
      using len by (auto simp: rows_done_def rem_done_def intro!: nth_equalityI)
    then show ?thesis by (simp add: u0_def with_rows_def upd_run_def)
  qed
  have mid: "rows_done b a ?n = hist_done b a 0 0" by (auto simp: rows_done_def hist_done_def history_done_def)
  have fin: "hist_done b a ?n 0 = run_tasks a" "rem_done b a ?n = run_remaining a"
    using len(3) by (auto simp: hist_done_def rem_done_def intro!: nth_equalityI)
  obtain ch1 where t: "foldR (apply_task_change (wr_ID (rs_Run a))) (concat (map (task_changes b a) [0 ..< ?n])) ([], u0) =
      Inr (ch1, with_rows (rows_done b a ?n) (rem_done b a ?n) u0)"
    using task_rows [OF d, of ?n u0] u0 by auto
  obtain ch2 where h: "foldR (apply_attempt_change (wr_ID (rs_Run a))) (concat (map (attempt_changes b a) [0 ..< ?n]))
      ([], with_rows (rows_done b a ?n) (rem_done b a ?n) u0) = Inr (ch2, with_rows (run_tasks a) (run_remaining a) u0)"
    using attempt_rows [OF d, of ?n "rem_done b a ?n" u0] fin unfolding mid by auto
  have "(with_rows (run_tasks a) (run_remaining a) u0)\<lparr>rs_Events := rs_Events a\<rparr> = a"
    using d lastseq by (simp add: with_rows_def u0_def run_def upd_run_def diffable_def)
  moreover have "rs_Events (with_rows (run_tasks a) (run_remaining a) u0) = rs_Events b"
    "wr_LastEventSequence (rs_Run (with_rows (run_tasks a) (run_remaining a) u0)) = wr_LastEventSequence (rs_Run a)"
    using lastseq by (simp_all add: with_rows_def u0_def run_def)
  moreover have "wr_ID (rs_Run a) = wr_ID (rs_Run b)" "wr_Revision (rs_Run a) = wr_Revision (rs_Run b) + 1"
    using d by (simp_all add: diffable_def)
  ultimately show ?thesis using le t h tail len
    by (simp add: changeSetFromSnapshots_def applyChangeSet_def Let_def run_def [symmetric] u0_def [symmetric])
       (simp add: run_def)
qed

section \<open>Optimistic concurrency\<close>

lemma foldR_frame:
  assumes "foldR f xs (c, s) = Inr (c', s')"
    and "\<And>x c s c' s'. f x (c, s) = Inr (c', s') \<Longrightarrow> g (s :: RunSnapshot) = g s'"
  shows "g s = g s'"
  using assms(1)
proof (induction xs arbitrary: c s)
  case (Cons x xs)
  then obtain c1 s1 where "f x (c, s) = Inr (c1, s1)" "foldR f xs (c1, s1) = Inr (c', s')" by (auto simp: bindR_eq_Inr)
  with Cons.IH assms(2) show ?case by metis
qed simp

definition run_row :: "RunSnapshot \<Rightarrow> RunID \<times> u64 \<times> WorkflowStatus \<times> WorkflowDefinition option" where
  "run_row s = (wr_ID (rs_Run s), wr_Revision (rs_Run s), wr_Status (rs_Run s), rs_Definition s)"

lemma apply_rows_frame:
  "apply_task_change runID x (c, s) = Inr (c', s') \<Longrightarrow> run_row s = run_row s'"
  "apply_attempt_change runID y (d, s) = Inr (d', s') \<Longrightarrow> run_row s = run_row s'"
  by (auto simp: apply_task_change_def apply_attempt_change_def run_row_def upd_task_def upd_run_def Let_def
      split: if_splits ChangeOperation.splits)

lemma applyChangeSet_revision:
  assumes "applyChangeSet s c = Inr s'"
  shows "wr_ID (rs_Run s') = wr_ID (rs_Run s)" and "cs_ExpectedRevision c = wr_Revision (rs_Run s)"
    and "wr_Revision (rs_Run s') = wr_Revision (rs_Run s) + 1" and "rs_Definition s' = rs_Definition s"
    and "cs_RunID c = wr_ID (rs_Run s)"
proof -
  obtain run ch1 u1 ch2 u2 where run: "cs_Run c = Some run" "wr_ID run = cs_RunID c" "cs_RunID c = wr_ID (rs_Run s)"
      "cs_ExpectedRevision c = wr_Revision (rs_Run s)" "wr_Revision run = cs_ExpectedRevision c + 1"
    and f1: "foldR (apply_task_change (cs_RunID c)) (cs_Tasks c)
       ([], s\<lparr>rs_Run := run\<lparr>wr_Tasks := run_tasks s, wr_RemainingDependencies := run_remaining s\<rparr>\<rparr>) = Inr (ch1, u1)"
    and f2: "foldR (apply_attempt_change (cs_RunID c)) (cs_Attempts c) ([], u1) = Inr (ch2, u2)"
    and s': "s' = u2\<lparr>rs_Events := rs_Events u2 @ cs_Events c\<rparr>"
    using assms by (auto simp: applyChangeSet_def Let_def bindR_eq_Inr split: if_splits option.splits)
  have "run_row s' = run_row u2" by (simp add: s' run_row_def)
  also have "\<dots> = run_row u1" using foldR_frame [OF f2, of run_row] apply_rows_frame(2) by metis
  also have "\<dots> = run_row (s\<lparr>rs_Run := run\<lparr>wr_Tasks := run_tasks s, wr_RemainingDependencies := run_remaining s\<rparr>\<rparr>)"
    using foldR_frame [OF f1, of run_row] apply_rows_frame(1) by metis
  finally show "wr_ID (rs_Run s') = wr_ID (rs_Run s)" and "cs_ExpectedRevision c = wr_Revision (rs_Run s)"
    and "wr_Revision (rs_Run s') = wr_Revision (rs_Run s) + 1" and "rs_Definition s' = rs_Definition s"
    and "cs_RunID c = wr_ID (rs_Run s)"
    using run by (simp_all add: run_row_def)
qed

lemma stale_change_rejected:
  assumes "applyChangeSet s c = Inr s'" and "cs_RunID c' = wr_ID (rs_Run s)" and "cs_ExpectedRevision c' = wr_Revision (rs_Run s)"
  shows "applyChangeSet s' c' = Inl ErrRevisionConflict"
  using applyChangeSet_revision [OF assms(1)] assms(2,3) by (simp add: applyChangeSet_def)

section \<open>Changes of a run\<close>

text \<open>No operation removes attempts.\<close>

lemma step_attempts:
  assumes inv: "run_inv cw s" and step: "step_tasks cw s a ts" and k: "k < task_count cw"
  shows "length (tr_Attempts (run_tasks s ! k)) \<le> length (tr_Attempts (ts ! k))"
proof -
  note len = run_inv_task(2,4) [OF inv k]
  let ?grown = "\<lambda>t. length (tr_Attempts (run_tasks s ! k)) \<le> length (tr_Attempts t)"
  have fin: "length (tr_Attempts t) \<le> length (tr_Attempts (finished a at res t))" for t a at res
    by (simp add: finished_def)
  have upd: "?grown ((run_tasks s)[i := t] ! k)" if "length (tr_Attempts (run_tasks s ! i)) \<le> length (tr_Attempts t)" for i t
    using that by (auto simp: nth_update_if)
  have skip: "?grown (skipped_in V at ((run_tasks s)[i := t]) ! k)" if "length (tr_Attempts (run_tasks s ! i)) \<le> length (tr_Attempts t)" for V at i t
    using upd [OF that] len by simp
  have rel: "?grown (released K at rem ((run_tasks s)[i := t]) ! k)" if "length (tr_Attempts (run_tasks s ! i)) \<le> length (tr_Attempts t)" for K at rem i t
    using upd [OF that] len by simp
  have retry: "?grown (retry_outcome cw s i m at (finished a at res (run_tasks s ! i)) ! k)" for i m at a res
    using upd skip fin by (simp add: retry_outcome_def)
  show ?thesis
  proof (cases a)
    case (Report i m response)
    then show ?thesis using step retry skip rel fin by (auto simp: result_outcome_def Let_def)
  next
    case CancelRun
    then show ?thesis using step len fin by (auto simp: canceled_def)
  qed (use step upd retry in \<open>auto simp: started_def\<close>)
qed

lemma trace_attempts:
  assumes "run_trace cw s as u" and "wf_compiled cw" and "run_inv cw s" and "k < task_count cw"
  shows "length (tr_Attempts (run_tasks s ! k)) \<le> length (tr_Attempts (run_tasks u ! k))"
  using assms
proof (induction rule: run_trace.induct)
  case (trace_Cons s a t as u)
  have "run_inv cw t" "step_tasks cw s a (run_tasks t)" using run_step_effect trace_Cons by blast+
  with trace_Cons step_attempts show ?case using order_trans by blast
qed simp

definition next_revision :: "RunSnapshot \<Rightarrow> RunSnapshot" where
  "next_revision s = upd_run (\<lambda>r. r\<lparr>wr_Revision := wr_Revision r + 1\<rparr>) s"

lemma evolved_diffable:
  assumes inv: "run_inv cw s" and u: "run_inv cw u" "evolves s u"
    and grown: "\<And>k. k < task_count cw \<Longrightarrow> length (tr_Attempts (run_tasks s ! k)) \<le> length (tr_Attempts (run_tasks u ! k))"
  shows "diffable s (next_revision u)"
proof -
  have num: "numbered (tr_Attempts (run_tasks v ! i))" if "run_inv cw v" "i < task_count cw" for v i
    using run_inv_task(1) [OF that] by (simp add: history_ok_def Let_def numbered_def)
  have "0 \<le> r" if r: "r \<in> set (run_remaining u)" for r
    using r u(1) run_inv_task(3) [OF u(1)] shape_length by (fastforce simp: in_set_conv_nth run_inv_def graph_ok_def)
  moreover have "length (run_tasks s) = task_count cw" "length (run_remaining s) = task_count cw"
    "length (run_tasks u) = task_count cw" "length (run_remaining u) = task_count cw"
    using inv u(1) shape_length by (auto simp: run_inv_def)
  ultimately show ?thesis
    using u inv num grown
    by (auto simp: diffable_def next_revision_def evolves_def same_frame_def run_inv_def shape_ok_def log_ok_def list_all_iff)
qed

lemma trace_diffable:
  assumes wf: "wf_compiled cw" and inv: "run_inv cw s" and tr: "run_trace cw s as u"
  shows "diffable s (next_revision u)"
  using trace_inv [OF tr wf inv] evolved_diffable [OF inv] trace_attempts [OF tr wf inv] by blast

lemma next_revision_simps [simp]:
  "run_tasks (next_revision s) = run_tasks s" "run_remaining (next_revision s) = run_remaining s"
  "run_status (next_revision s) = run_status s" "wr_ID (rs_Run (next_revision s)) = wr_ID (rs_Run s)"
  "rs_Events (next_revision s) = rs_Events s" "rs_Definition (next_revision s) = rs_Definition s"
  by (simp_all add: next_revision_def)

lemma next_revision_inv [simp]: "run_inv cw (next_revision s) = run_inv cw s"
proof -
  have "log_ok (next_revision s) = log_ok s" by (simp add: log_ok_def next_revision_def)
  then show ?thesis by (simp add: run_inv_def shape_ok_def clock_ok_def next_revision_def)
qed

end
