(* ===== verification/File_Store.thy ===== *)
theory File_Store
  imports Change_Set "HOL-Library.List_Lexorder" "HOL-Library.Char_ord"
begin

text \<open>
  Persistence of the workflow package: the interface of \<^verbatim>\<open>store.go\<close> and
  \<^verbatim>\<open>persistence.go\<close> as a locale, the adapter from whole snapshots to change sets, and
  the file store (\<^verbatim>\<open>workflow/filestore/store.go\<close>) with its atomic replacement of
  one JSON file per run. The mutex makes every operation of the store one step. A file that
  holds an encoded snapshot is represented by that snapshot; reading it back decodes it.
  Strings are taken to be valid UTF-8 and times to be in the range of RFC 3339, which
  \<^verbatim>\<open>encoding/json\<close> reproduces exactly.
\<close>

section \<open>The JSON round trip of a snapshot\<close>

text \<open>Only the inputs of the stored definition change: an input is decoded again with
  \<^verbatim>\<open>UseNumber\<close>, and an empty one is dropped by \<^verbatim>\<open>omitempty\<close>.\<close>

fun wire_input :: "task_input \<Rightarrow> task_input res" where
  "wire_input None = Inr None"
| "wire_input (Some (p, [])) = Inr None"
| "wire_input (Some (p, e # es)) = cloneTaskInput (Some (p, e # es))"

fun wire_tasks :: "TaskDefinition list \<Rightarrow> TaskDefinition list res" where
  "wire_tasks [] = Inr []"
| "wire_tasks (task # tasks) =
     bindR (wire_input (td_Input task)) (\<lambda>input.
     bindR (wire_tasks tasks) (\<lambda>rest. Inr (task\<lparr>td_Input := input\<rparr> # rest)))"

definition wire :: "RunSnapshot \<Rightarrow> RunSnapshot res" where
  "wire s =
     (case rs_Definition s of
        None \<Rightarrow> Inr s
      | Some def \<Rightarrow> bindR (wire_tasks (wd_Tasks def)) (\<lambda>tasks.
          Inr (s\<lparr>rs_Definition := Some (def\<lparr>wd_Tasks := tasks\<rparr>)\<rparr>)))"

lemma cloneTaskInput_length: "cloneTaskInput (Some (p, es)) = Inr (Some (q, es')) \<Longrightarrow> length es' = length es"
  by (auto simp: cloneTaskInput_eq_Some)

lemma wire_input_idem: "wire_input i = Inr j \<Longrightarrow> wire_input j = Inr j"
proof (induction i rule: wire_input.induct)
  case (3 p e es)
  then have c: "cloneTaskInput (Some (p, e # es)) = Inr j" by simp
  note idem = cloneTaskInput_idem [OF c]
  show ?case using idem c cloneTaskInput_length by (cases j rule: wire_input.cases) fastforce+
qed auto

lemma wire_tasks_idem: "wire_tasks ts = Inr us \<Longrightarrow> wire_tasks us = Inr us"
  by (induction ts arbitrary: us) (auto simp: bindR_eq_Inr dest: wire_input_idem)

lemma wire_idem: "wire s = Inr s' \<Longrightarrow> wire s' = Inr s'"
  using wire_tasks_idem by (fastforce simp: wire_def bindR_eq_Inr split: option.splits)

lemma wire_run: "wire s = Inr s' \<Longrightarrow> rs_Run s' = rs_Run s \<and> rs_Events s' = rs_Events s \<and> rs_Version s' = rs_Version s"
  by (auto simp: wire_def bindR_eq_Inr split: option.splits)

lemma wire_same_definition: "wire s = Inr s \<Longrightarrow> rs_Definition t = rs_Definition s \<Longrightarrow> wire t = Inr t"
  by (cases s; cases t) (auto simp: wire_def bindR_eq_Inr split: option.splits)

section \<open>The directory\<close>

datatype entry = JsonFile RunSnapshot | OtherFile | SubDir

type_synonym dir = "(string \<times> entry) list"

definition put :: "string \<Rightarrow> entry \<Rightarrow> dir \<Rightarrow> dir" where
  "put name e d = (name, e) # filter (\<lambda>p. fst p \<noteq> name) d"

definition remove :: "string \<Rightarrow> dir \<Rightarrow> dir" where
  "remove name d = filter (\<lambda>p. fst p \<noteq> name) d"

lemma map_of_put [simp]: "map_of (put name e d) n = (if n = name then Some e else map_of d n)"
  by (induction d) (auto simp: put_def)

lemma map_of_remove [simp]: "map_of (remove name d) n = (if n = name then None else map_of d n)"
  by (induction d) (auto simp: remove_def)

section \<open>The file store\<close>

definition path :: "RunID \<Rightarrow> string res" where
  "path runID =
     (if runID = '''' \<or> CHR ''/'' \<in> set runID \<or> CHR 0x5C \<in> set runID \<or> runID = ''.'' \<or> runID = ''..''
      then Inl (Errorf ''invalid run id %q'') else Inr (runID @ ''.json''))"

text \<open>Where the operating system can refuse, in the order of the calls.\<close>

datatype write_fault =
  NoFault | CreateTempFault | WriteFault | SyncFault | CloseFault | RenameFault | OpenDirFault | SyncDirFault

definition writeLocked ::
  "werror option \<Rightarrow> write_fault \<Rightarrow> string \<Rightarrow> string \<Rightarrow> RunSnapshot \<Rightarrow> dir \<Rightarrow> unit res \<times> dir" where
  "writeLocked ctx fault tempName target s d =
     (case ctx of Some e \<Rightarrow> (Inl e, d) | None \<Rightarrow>
      (case wire s of Inl e \<Rightarrow> (Inl (Errorf ''encode snapshot: %w''), d) | Inr _ \<Rightarrow>
       if fault = CreateTempFault then (Inl (Errorf ''create temporary snapshot: %w''), d)
       else
         let partial = put tempName OtherFile d; full = put tempName (JsonFile s) d in
         if fault = WriteFault then (Inl (Errorf ''write temporary snapshot: %w''), remove tempName partial)
         else if fault = SyncFault then (Inl (Errorf ''sync temporary snapshot: %w''), remove tempName full)
         else if fault = CloseFault then (Inl (Errorf ''close temporary snapshot: %w''), remove tempName full)
         else if fault = RenameFault then (Inl (Errorf ''replace snapshot: %w''), remove tempName full)
         else
           let renamed = put target (JsonFile s) (remove tempName full) in
           if fault = OpenDirFault then (Inl (Errorf ''open snapshot directory: %w''), renamed)
           else if fault = SyncDirFault then (Inl (Errorf ''sync snapshot directory: %w''), renamed)
           else (Inr (), renamed)))"

definition loadPath :: "werror option \<Rightarrow> string \<Rightarrow> RunID \<Rightarrow> dir \<Rightarrow> RunSnapshot res" where
  "loadPath ctx name expectedID d =
     (case ctx of Some e \<Rightarrow> Inl e | None \<Rightarrow>
      (case map_of d name of
         None \<Rightarrow> Inl ErrRunNotFound
       | Some SubDir \<Rightarrow> Inl (Errorf ''is a directory'')
       | Some OtherFile \<Rightarrow> Inl (Errorf ''decode snapshot: %w'')
       | Some (JsonFile s) \<Rightarrow>
           bindR (wire s) (\<lambda>s.
           if wr_ID (rs_Run s) \<noteq> expectedID
           then Inl (Errorf ''stored run id %q does not match requested run %q'') else Inr s)))"

definition loadLocked :: "string \<Rightarrow> RunID \<Rightarrow> dir \<Rightarrow> RunSnapshot res" where
  "loadLocked name expectedID d = loadPath None name expectedID d"

definition fs_Load :: "werror option \<Rightarrow> RunID \<Rightarrow> dir \<Rightarrow> RunSnapshot res" where
  "fs_Load ctx runID d =
     (case ctx of Some e \<Rightarrow> Inl e | None \<Rightarrow> bindR (path runID) (\<lambda>name. loadPath ctx name runID d))"

definition fs_Create ::
  "werror option \<Rightarrow> write_fault \<Rightarrow> string \<Rightarrow> RunSnapshot \<Rightarrow> dir \<Rightarrow> unit res \<times> dir" where
  "fs_Create ctx fault tempName s d =
     (case path (wr_ID (rs_Run s)) of
        Inl e \<Rightarrow> (Inl e, d)
      | Inr name \<Rightarrow>
          (case map_of d name of
             Some _ \<Rightarrow> (Inl ErrRunExists, d)
           | None \<Rightarrow> writeLocked ctx fault tempName name s d))"

definition fs_Save ::
  "werror option \<Rightarrow> write_fault \<Rightarrow> string \<Rightarrow> RunSnapshot \<Rightarrow> dir \<Rightarrow> unit res \<times> dir" where
  "fs_Save ctx fault tempName s d =
     (case path (wr_ID (rs_Run s)) of
        Inl e \<Rightarrow> (Inl e, d)
      | Inr name \<Rightarrow>
          (case map_of d name of
             None \<Rightarrow> (Inl ErrRunNotFound, d)
           | Some _ \<Rightarrow> writeLocked ctx fault tempName name s d))"

definition fs_Apply ::
  "werror option \<Rightarrow> write_fault \<Rightarrow> string \<Rightarrow> ChangeSet \<Rightarrow> dir \<Rightarrow> unit res \<times> dir" where
  "fs_Apply ctx fault tempName change d =
     (case bindR (path (cs_RunID change)) (\<lambda>name.
           bindR (loadLocked name (cs_RunID change) d) (\<lambda>s.
           if wr_Revision (rs_Run s) \<noteq> cs_ExpectedRevision change then Inl ErrRevisionConflict
           else bindR (ApplyChangeSetForStore s change) (\<lambda>after. Inr (name, after)))) of
        Inl e \<Rightarrow> (Inl e, d)
      | Inr (name, after) \<Rightarrow> writeLocked ctx fault tempName name after d)"

definition IsWorkflowTerminalForStore :: "WorkflowStatus \<Rightarrow> bool" where
  "IsWorkflowTerminalForStore status = isWorkflowTerminal status"

definition fs_RequestCancel ::
  "werror option \<Rightarrow> write_fault \<Rightarrow> string \<Rightarrow> RunID \<Rightarrow> time \<Rightarrow> dir \<Rightarrow> WorkflowRun res \<times> dir" where
  "fs_RequestCancel ctx fault tempName runID at d =
     (case ctx of Some e \<Rightarrow> (Inl e, d) | None \<Rightarrow>
      (case bindR (path runID) (\<lambda>name. bindR (loadLocked name runID d) (\<lambda>s. Inr (name, s))) of
         Inl e \<Rightarrow> (Inl e, d)
       | Inr (name, s) \<Rightarrow>
           if IsWorkflowTerminalForStore (run_status s) then (Inr (rs_Run s), d)
           else if wr_CancelRequestedAt (rs_Run s) \<noteq> None then (Inr (rs_Run s), d)
           else
             let s = upd_run (\<lambda>r. r\<lparr>wr_CancelRequestedAt := Some at, wr_Revision := wr_Revision r + 1\<rparr>) s in
             (case writeLocked ctx fault tempName name s d of
                (Inl e, d) \<Rightarrow> (Inl e, d)
              | (Inr _, d) \<Rightarrow> (Inr (rs_Run s), d))))"

definition json_name :: "string \<Rightarrow> bool" where
  "json_name name \<longleftrightarrow> suffix ''.json'' name"

fun list_names :: "string list \<Rightarrow> dir \<Rightarrow> RunID list res" where
  "list_names [] d = Inr []"
| "list_names (name # names) d =
     (if map_of d name = Some SubDir \<or> \<not> json_name name then list_names names d
      else
        let runID = take (length name - 5) name in
        bindR (fs_Load None runID d) (\<lambda>s.
        bindR (list_names names d) (\<lambda>ids.
        Inr (if IsWorkflowTerminalForStore (run_status s) then ids else runID # ids))))"

definition fs_ListNonTerminal :: "werror option \<Rightarrow> dir \<Rightarrow> RunID list res" where
  "fs_ListNonTerminal ctx d =
     (case ctx of Some e \<Rightarrow> Inl e | None \<Rightarrow> list_names (sort (map fst d)) d)"

section \<open>The interfaces\<close>

text \<open>\<^verbatim>\<open>enginePersistence\<close>: what the engine relies on. A change set is applied to the
  stored snapshot of its run, whole or not at all, and nothing else changes.\<close>

locale run_store =
  fixes create :: "RunSnapshot \<Rightarrow> 'st \<Rightarrow> unit res \<times> 'st"
    and load :: "RunID \<Rightarrow> 'st \<Rightarrow> RunSnapshot res"
    and apply_change :: "ChangeSet \<Rightarrow> 'st \<Rightarrow> unit res \<times> 'st"
  assumes load_id: "load i st = Inr s \<Longrightarrow> wr_ID (rs_Run s) = i"
    and create_new: "create s st = (Inr (), st') \<Longrightarrow>
      (\<exists>s'. load (wr_ID (rs_Run s)) st' = Inr s' \<and> rs_Run s' = rs_Run s \<and> rs_Events s' = rs_Events s) \<and>
      (\<forall>i. i \<noteq> wr_ID (rs_Run s) \<longrightarrow> load i st' = load i st)"
    and create_existing: "load (wr_ID (rs_Run s)) st = Inr s' \<Longrightarrow> create s st = (Inl ErrRunExists, st)"
    and apply_valid: "load (cs_RunID c) st = Inr b \<Longrightarrow> applyChangeSet b c = Inr a \<Longrightarrow>
      \<exists>st'. apply_change c st = (Inr (), st') \<and> load (cs_RunID c) st' = Inr a \<and>
        (\<forall>i. i \<noteq> cs_RunID c \<longrightarrow> load i st' = load i st)"
    and apply_invalid: "load (cs_RunID c) st = Inr b \<Longrightarrow> applyChangeSet b c = Inl e \<Longrightarrow> apply_change c st = (Inl e, st)"
begin

text \<open>Of two writers that start from the same revision, the second is refused.\<close>

lemma no_lost_update:
  assumes "load (cs_RunID c) st = Inr b" and "applyChangeSet b c = Inr a"
    and "apply_change c st = (Inr (), st')"
    and "cs_RunID c' = cs_RunID c" and "cs_ExpectedRevision c' = cs_ExpectedRevision c"
  shows "apply_change c' st' = (Inl ErrRevisionConflict, st')"
proof -
  have l: "load (cs_RunID c) st' = Inr a" using apply_valid [OF assms(1,2)] assms(3) by auto
  have "cs_ExpectedRevision c' = wr_Revision (rs_Run b)" "cs_RunID c' = wr_ID (rs_Run b)"
    using applyChangeSet_revision(2) [OF assms(2)] assms(4,5) load_id [OF assms(1)] by simp_all
  then have "applyChangeSet a c' = Inl ErrRevisionConflict" using stale_change_rejected [OF assms(2)] by blast
  then show ?thesis using apply_invalid l assms(4) by metis
qed

end

text \<open>\<^verbatim>\<open>Store\<close>: whole snapshots. A snapshot with the stored definition can be saved.\<close>

locale snapshot_store =
  fixes create :: "RunSnapshot \<Rightarrow> 'st \<Rightarrow> unit res \<times> 'st"
    and load :: "RunID \<Rightarrow> 'st \<Rightarrow> RunSnapshot res"
    and save :: "RunSnapshot \<Rightarrow> 'st \<Rightarrow> unit res \<times> 'st"
  assumes sload_id: "load i st = Inr s \<Longrightarrow> wr_ID (rs_Run s) = i"
    and screate_new: "create s st = (Inr (), st') \<Longrightarrow>
      (\<exists>s'. load (wr_ID (rs_Run s)) st' = Inr s' \<and> rs_Run s' = rs_Run s \<and> rs_Events s' = rs_Events s) \<and>
      (\<forall>i. i \<noteq> wr_ID (rs_Run s) \<longrightarrow> load i st' = load i st)"
    and screate_existing: "load (wr_ID (rs_Run s)) st = Inr s' \<Longrightarrow> create s st = (Inl ErrRunExists, st)"
    and save_stored: "load (wr_ID (rs_Run s)) st = Inr b \<Longrightarrow> rs_Definition s = rs_Definition b \<Longrightarrow>
      \<exists>st'. save s st = (Inr (), st') \<and> load (wr_ID (rs_Run s)) st' = Inr s \<and>
        (\<forall>i. i \<noteq> wr_ID (rs_Run s) \<longrightarrow> load i st' = load i st)"

text \<open>\<^verbatim>\<open>snapshotStoreAdapter.Apply\<close>.\<close>

definition adapter_Apply ::
  "(RunID \<Rightarrow> 'st \<Rightarrow> RunSnapshot res) \<Rightarrow> (RunSnapshot \<Rightarrow> 'st \<Rightarrow> unit res \<times> 'st) \<Rightarrow> ChangeSet \<Rightarrow> 'st \<Rightarrow> unit res \<times> 'st" where
  "adapter_Apply load save change st =
     (case bindR (load (cs_RunID change) st) (\<lambda>base.
           if wr_Revision (rs_Run base) \<noteq> cs_ExpectedRevision change then Inl ErrRevisionConflict
           else applyChangeSet base change) of
        Inl e \<Rightarrow> (Inl e, st)
      | Inr after \<Rightarrow> save after st)"

lemma applyChangeSet_conflict_first:
  "wr_ID (rs_Run b) = cs_RunID c \<Longrightarrow> wr_Revision (rs_Run b) \<noteq> cs_ExpectedRevision c \<Longrightarrow>
   applyChangeSet b c = Inl ErrRevisionConflict"
  by (auto simp: applyChangeSet_def)

sublocale snapshot_store \<subseteq> run_store create load "adapter_Apply load save"
proof unfold_locales
  fix i st s s' st' b a e and c :: ChangeSet
  show "load i st = Inr s \<Longrightarrow> wr_ID (rs_Run s) = i" by (rule sload_id)
  show "create s st = (Inr (), st') \<Longrightarrow>
      (\<exists>s'. load (wr_ID (rs_Run s)) st' = Inr s' \<and> rs_Run s' = rs_Run s \<and> rs_Events s' = rs_Events s) \<and>
      (\<forall>i. i \<noteq> wr_ID (rs_Run s) \<longrightarrow> load i st' = load i st)" by (rule screate_new)
  show "load (wr_ID (rs_Run s)) st = Inr s' \<Longrightarrow> create s st = (Inl ErrRunExists, st)" by (rule screate_existing)
  assume l: "load (cs_RunID c) st = Inr b"
  note ids = sload_id [OF l]
  show "\<exists>st'. adapter_Apply load save c st = (Inr (), st') \<and> load (cs_RunID c) st' = Inr a \<and>
        (\<forall>i. i \<noteq> cs_RunID c \<longrightarrow> load i st' = load i st)" if a: "applyChangeSet b c = Inr a"
  proof -
    note r = applyChangeSet_revision [OF a]
    have "adapter_Apply load save c st = save a st" using l a r(2) by (simp add: adapter_Apply_def)
    moreover have "wr_ID (rs_Run a) = cs_RunID c" using r(1) ids by simp
    ultimately show ?thesis using save_stored [of a st b] l r(4) by simp
  qed
  show "applyChangeSet b c = Inl e \<Longrightarrow> adapter_Apply load save c st = (Inl e, st)"
    using l ids applyChangeSet_conflict_first [of b c] by (auto simp: adapter_Apply_def)
qed

section \<open>The file store meets both\<close>

definition temp_name :: "nat \<Rightarrow> string" where
  "temp_name n = ''.snapshot-'' @ nat_str n @ ''.tmp''"

lemma path_inject: "path i = Inr name \<Longrightarrow> path j = Inr name \<Longrightarrow> i = j"
  by (auto simp: path_def split: if_splits)

lemma path_not_temp: "path i = Inr name \<Longrightarrow> name \<noteq> temp_name n"
proof
  assume "path i = Inr name" "name = temp_name n"
  then have "i @ ''.json'' = ''.snapshot-'' @ nat_str n @ ''.tmp''" by (simp add: path_def temp_name_def split: if_splits)
  then have "last (i @ ''.json'') = last (''.snapshot-'' @ nat_str n @ ''.tmp'')" by simp
  then show False by simp
qed

lemma fs_load_Inr:
  "fs_Load None i d = Inr s \<longleftrightarrow>
     (\<exists>name x. path i = Inr name \<and> map_of d name = Some (JsonFile x) \<and> wire x = Inr s \<and> wr_ID (rs_Run s) = i)"
proof (cases "path i")
  case (Inr name)
  then show ?thesis
    by (cases "map_of d name" rule: option.exhaust [case_names None Some])
       (auto simp: fs_Load_def loadPath_def bindR_eq_Inr split: entry.splits)
qed (simp add: fs_Load_def)

lemma writeLocked_ok:
  "wire s = Inr s' \<Longrightarrow> writeLocked None NoFault t name s d = (Inr (), put name (JsonFile s) (remove t (put t (JsonFile s) d)))"
  by (simp add: writeLocked_def Let_def)

lemma fs_load_written:
  assumes p: "path i = Inr name" and w: "wire s = Inr s'" and i: "wr_ID (rs_Run s) = i"
  shows "fs_Load None i (put name (JsonFile s) (remove (temp_name n) (put (temp_name n) (JsonFile s) d))) = Inr s'"
    and "j \<noteq> i \<Longrightarrow> fs_Load None j (put name (JsonFile s) (remove (temp_name n) (put (temp_name n) (JsonFile s) d))) = fs_Load None j d"
proof -
  show "fs_Load None i (put name (JsonFile s) (remove (temp_name n) (put (temp_name n) (JsonFile s) d))) = Inr s'"
    using p w i wire_run [OF w] by (simp add: fs_load_Inr)
  assume "j \<noteq> i"
  then have "path j \<noteq> Inr name" using path_inject p by blast
  then show "fs_Load None j (put name (JsonFile s) (remove (temp_name n) (put (temp_name n) (JsonFile s) d))) = fs_Load None j d"
    using path_not_temp [of j _ n] by (cases "path j") (auto simp: fs_Load_def loadPath_def)
qed

interpretation file_snapshots: snapshot_store "fs_Create None NoFault (temp_name n)" "fs_Load None" "fs_Save None NoFault (temp_name n)"
  for n
proof unfold_locales
  fix i d s s' d' b
  show "fs_Load None i d = Inr s \<Longrightarrow> wr_ID (rs_Run s) = i" by (auto simp: fs_load_Inr)
  show "(\<exists>s'. fs_Load None (wr_ID (rs_Run s)) d' = Inr s' \<and> rs_Run s' = rs_Run s \<and> rs_Events s' = rs_Events s) \<and>
      (\<forall>i. i \<noteq> wr_ID (rs_Run s) \<longrightarrow> fs_Load None i d' = fs_Load None i d)"
    if c: "fs_Create None NoFault (temp_name n) s d = (Inr (), d')"
  proof -
    obtain name where p: "path (wr_ID (rs_Run s)) = Inr name" and w: "writeLocked None NoFault (temp_name n) name s d = (Inr (), d')"
      using c by (auto simp: fs_Create_def split: sum.splits option.splits)
    then obtain s' where s': "wire s = Inr s'" by (auto simp: writeLocked_def split: sum.splits)
    then have "d' = put name (JsonFile s) (remove (temp_name n) (put (temp_name n) (JsonFile s) d))" using w by (simp add: writeLocked_ok)
    with fs_load_written [OF p s' refl] wire_run [OF s'] show ?thesis by blast
  qed
  show "fs_Create None NoFault (temp_name n) s d = (Inl ErrRunExists, d)" if "fs_Load None (wr_ID (rs_Run s)) d = Inr s'"
    using that by (auto simp: fs_load_Inr fs_Create_def)
  show "\<exists>d'. fs_Save None NoFault (temp_name n) s d = (Inr (), d') \<and> fs_Load None (wr_ID (rs_Run s)) d' = Inr s \<and>
      (\<forall>i. i \<noteq> wr_ID (rs_Run s) \<longrightarrow> fs_Load None i d' = fs_Load None i d)"
    if l: "fs_Load None (wr_ID (rs_Run s)) d = Inr b" and def: "rs_Definition s = rs_Definition b"
  proof -
    obtain name x where p: "path (wr_ID (rs_Run s)) = Inr name" "map_of d name = Some (JsonFile x)" "wire x = Inr b"
      using l by (auto simp: fs_load_Inr)
    have w: "wire s = Inr s" using wire_same_definition [OF wire_idem [OF p(3)] def] .
    show ?thesis using fs_load_written [OF p(1) w refl] p writeLocked_ok [OF w] by (simp add: fs_Save_def)
  qed
qed

lemma fs_Apply_adapter:
  assumes "fs_Load None (cs_RunID c) d = Inr b"
  shows "fs_Apply None NoFault t c d = adapter_Apply (fs_Load None) (fs_Save None NoFault t) c d"
proof -
  obtain name x where p: "path (cs_RunID c) = Inr name" "map_of d name = Some (JsonFile x)"
    using assms by (auto simp: fs_load_Inr)
  have l: "loadLocked name (cs_RunID c) d = Inr b" using assms p by (simp add: fs_Load_def loadLocked_def)
  have "wr_ID (rs_Run a) = cs_RunID c" if "applyChangeSet b c = Inr a" for a
    using applyChangeSet_revision(1) [OF that] applyChangeSet_revision(5) [OF that] by simp
  with p l assms show ?thesis
    by (auto simp: fs_Apply_def adapter_Apply_def ApplyChangeSetForStore_def fs_Save_def split: sum.splits)
qed

interpretation file_store: run_store "fs_Create None NoFault (temp_name n)" "fs_Load None" "fs_Apply None NoFault (temp_name n)"
  for n
proof unfold_locales
  fix i d s s' d' b a e and c :: ChangeSet
  show "fs_Load None i d = Inr s \<Longrightarrow> wr_ID (rs_Run s) = i" by (rule file_snapshots.load_id)
  show "fs_Create None NoFault (temp_name n) s d = (Inr (), d') \<Longrightarrow>
      (\<exists>s'. fs_Load None (wr_ID (rs_Run s)) d' = Inr s' \<and> rs_Run s' = rs_Run s \<and> rs_Events s' = rs_Events s) \<and>
      (\<forall>i. i \<noteq> wr_ID (rs_Run s) \<longrightarrow> fs_Load None i d' = fs_Load None i d)" by (rule file_snapshots.create_new)
  show "fs_Load None (wr_ID (rs_Run s)) d = Inr s' \<Longrightarrow> fs_Create None NoFault (temp_name n) s d = (Inl ErrRunExists, d)"
    by (rule file_snapshots.create_existing)
  show "fs_Load None (cs_RunID c) d = Inr b \<Longrightarrow> applyChangeSet b c = Inr a \<Longrightarrow>
      \<exists>d'. fs_Apply None NoFault (temp_name n) c d = (Inr (), d') \<and> fs_Load None (cs_RunID c) d' = Inr a \<and>
        (\<forall>i. i \<noteq> cs_RunID c \<longrightarrow> fs_Load None i d' = fs_Load None i d)"
    using file_snapshots.apply_valid by (simp add: fs_Apply_adapter)
  show "fs_Load None (cs_RunID c) d = Inr b \<Longrightarrow> applyChangeSet b c = Inl e \<Longrightarrow>
      fs_Apply None NoFault (temp_name n) c d = (Inl e, d)"
    using file_snapshots.apply_invalid by (simp add: fs_Apply_adapter)
qed

section \<open>Failures, cancellation requests and the recovery list\<close>

text \<open>Whatever fails while a snapshot is written, its file holds the old or the new snapshot,
  and no other run is affected.\<close>

lemma writeLocked_atomic:
  assumes "writeLocked ctx fault t name s d = (r, d')" and "t \<noteq> name"
  shows "map_of d' name = map_of d name \<or> map_of d' name = Some (JsonFile s)"
    and "r = Inr () \<Longrightarrow> map_of d' name = Some (JsonFile s)"
    and "n \<noteq> name \<Longrightarrow> n \<noteq> t \<Longrightarrow> map_of d' n = map_of d n"
    and "map_of d t = None \<Longrightarrow> map_of d' t = None"
  using assms by (auto simp: writeLocked_def Let_def split: option.splits sum.splits if_splits)

lemma fs_RequestCancel_Inr:
  assumes "fs_RequestCancel None NoFault t i at d = (Inr r, d')" and "t = temp_name n"
  shows "\<exists>s. fs_Load None i d' = Inr s \<and> rs_Run s = r \<and> (isWorkflowTerminal (wr_Status r) \<or> wr_CancelRequestedAt r \<noteq> None)"
proof -
  obtain name s where p: "path i = Inr name" and l: "loadLocked name i d = Inr s"
    using assms(1) by (auto simp: fs_RequestCancel_def bindR_eq_Inr split: sum.splits)
  have load: "fs_Load None i d = Inr s" using p l by (simp add: fs_Load_def loadLocked_def)
  show ?thesis
  proof (cases "isWorkflowTerminal (run_status s) \<or> wr_CancelRequestedAt (rs_Run s) \<noteq> None")
    case True
    then have "fs_RequestCancel None NoFault t i at d = (Inr (rs_Run s), d)"
      using p l by (cases "isWorkflowTerminal (run_status s)") (simp_all add: fs_RequestCancel_def IsWorkflowTerminalForStore_def)
    with True assms(1) load show ?thesis by auto
  next
    case False
    let ?s = "upd_run (\<lambda>r. r\<lparr>wr_CancelRequestedAt := Some at, wr_Revision := wr_Revision r + 1\<rparr>) s"
    obtain x where "wire x = Inr s" and i: "wr_ID (rs_Run s) = i" using load by (auto simp: fs_load_Inr)
    then have w: "wire ?s = Inr ?s" using wire_same_definition [OF wire_idem, of x s ?s] by simp
    have "wr_ID (rs_Run ?s) = i" using i by simp
    from fs_load_written(1) [OF p w this, of n d] False assms p l writeLocked_ok [OF w, of t name d] show ?thesis
      by (auto simp: fs_RequestCancel_def IsWorkflowTerminalForStore_def Let_def)
  qed
qed

lemma fs_RequestCancel_again:
  assumes "fs_RequestCancel None NoFault (temp_name n) i at d = (Inr r, d')"
  shows "fs_RequestCancel None f t i at' d' = (Inr r, d')"
proof -
  obtain s where "fs_Load None i d' = Inr s" "rs_Run s = r" "isWorkflowTerminal (wr_Status r) \<or> wr_CancelRequestedAt r \<noteq> None"
    using fs_RequestCancel_Inr [OF assms refl] by blast
  then show ?thesis
    by (cases "path i") (auto simp: fs_RequestCancel_def fs_Load_def loadLocked_def IsWorkflowTerminalForStore_def)
qed

lemma list_names_set:
  assumes "list_names names d = Inr ids"
  shows "set ids = {i. i @ ''.json'' \<in> set names \<and> (\<exists>s. fs_Load None i d = Inr s \<and> \<not> isWorkflowTerminal (run_status s))}"
  using assms
proof (induction names arbitrary: ids)
  case (Cons name names)
  have suffix: "i @ ''.json'' = name \<longleftrightarrow> json_name name \<and> i = take (length name - 5) name" for i
    by (auto simp: json_name_def suffix_def)
  show ?case
  proof (cases "map_of d name = Some SubDir \<or> \<not> json_name name")
    case True
    have "fs_Load None i d \<noteq> Inr s" if "i @ ''.json'' = name" for i s
    proof
      assume "fs_Load None i d = Inr s"
      then obtain n x where "path i = Inr n" "map_of d n = Some (JsonFile x)" unfolding fs_load_Inr by blast
      moreover from this(1) have "n = name" using that by (simp add: path_def split: if_splits)
      moreover have "json_name name" using suffix [of i] that by blast
      ultimately show False using True by simp
    qed
    moreover have "list_names names d = Inr ids" using Cons.prems True by (simp split: if_splits)
    ultimately show ?thesis using Cons.IH by auto
  next
    case False
    define i0 where "i0 = take (length name - 5) name"
    have eq: "i @ ''.json'' = name \<longleftrightarrow> i = i0" for i unfolding i0_def using False suffix by blast
    from Cons.prems False obtain s ids' where s: "fs_Load None i0 d = Inr s" and "list_names names d = Inr ids'"
      and ids: "ids = (if isWorkflowTerminal (run_status s) then ids' else i0 # ids')"
      unfolding i0_def by (auto simp: bindR_eq_Inr Let_def IsWorkflowTerminalForStore_def)
    with Cons.IH [of ids'] have IH: "set ids' = {i. i @ ''.json'' \<in> set names \<and> (\<exists>s. fs_Load None i d = Inr s \<and> \<not> isWorkflowTerminal (run_status s))}"
      by blast
    have "i \<in> set ids \<longleftrightarrow> i @ ''.json'' \<in> set (name # names) \<and> (\<exists>s. fs_Load None i d = Inr s \<and> \<not> isWorkflowTerminal (run_status s))" for i
      unfolding ids set_simps insert_iff eq using IH s by auto
    then show ?thesis by blast
  qed
qed simp

lemma fs_ListNonTerminal_set:
  assumes "fs_ListNonTerminal None d = Inr ids"
  shows "i \<in> set ids \<longleftrightarrow> (\<exists>s. fs_Load None i d = Inr s \<and> \<not> isWorkflowTerminal (run_status s))"
proof -
  have "i @ ''.json'' \<in> set (sort (map fst d))" if "fs_Load None i d = Inr s" for s
  proof -
    obtain name x where "path i = Inr name" "map_of d name = Some (JsonFile x)" using \<open>fs_Load None i d = Inr s\<close> by (auto simp: fs_load_Inr)
    then have "name = i @ ''.json''" "name \<in> set (map fst d)"
      by (auto simp: path_def split: if_splits dest: map_of_SomeD intro: rev_image_eqI)
    then show ?thesis by simp
  qed
  then show ?thesis using list_names_set [of "sort (map fst d)" d ids] assms by (auto simp: fs_ListNonTerminal_def)
qed

lemma fs_Apply_atomic:
  assumes l: "fs_Load None (cs_RunID c) d = Inr b" and a: "fs_Apply ctx fault (temp_name n) c d = (r, d')"
  shows "(fs_Load None (cs_RunID c) d' = Inr b \<or> (\<exists>a. applyChangeSet b c = Inr a \<and> fs_Load None (cs_RunID c) d' = Inr a)) \<and>
    (r = Inr () \<longrightarrow> (\<exists>a. applyChangeSet b c = Inr a \<and> fs_Load None (cs_RunID c) d' = Inr a)) \<and>
    (\<forall>i. i \<noteq> cs_RunID c \<longrightarrow> fs_Load None i d' = fs_Load None i d)"
proof -
  obtain name x where p: "path (cs_RunID c) = Inr name" "map_of d name = Some (JsonFile x)" "wire x = Inr b"
    using l by (auto simp: fs_load_Inr)
  have ll: "loadLocked name (cs_RunID c) d = Inr b" using l p by (simp add: fs_Load_def loadLocked_def)
  show ?thesis
  proof (cases "wr_Revision (rs_Run b) = cs_ExpectedRevision c \<and> (\<exists>u. applyChangeSet b c = Inr u)")
    case True
    then obtain u where u: "applyChangeSet b c = Inr u" by blast
    note rev = applyChangeSet_revision [OF u]
    have w: "writeLocked ctx fault (temp_name n) name u d = (r, d')" using a p ll True u by (simp add: fs_Apply_def ApplyChangeSetForStore_def)
    have ne: "temp_name n \<noteq> name" using path_not_temp [OF p(1)] by metis
    note at = writeLocked_atomic [OF w ne]
    have wire: "wire u = Inr u" using wire_same_definition [OF wire_idem [OF p(3)] rev(4)] .
    have uid: "wr_ID (rs_Run u) = cs_RunID c" using rev(1,5) by simp
    have old: "fs_Load None (cs_RunID c) d' = Inr b" if "map_of d' name = map_of d name"
      using that p l by (auto simp: fs_load_Inr)
    have new: "fs_Load None (cs_RunID c) d' = Inr u" if "map_of d' name = Some (JsonFile u)"
      using that p wire uid by (auto simp: fs_load_Inr)
    have "fs_Load None i d' = fs_Load None i d" if i: "i \<noteq> cs_RunID c" for i
    proof (cases "path i")
      case (Inr other)
      then have "other \<noteq> name" "other \<noteq> temp_name n" using path_inject p(1) path_not_temp i by blast+
      with at(3) Inr show ?thesis by (simp add: fs_Load_def loadPath_def)
    qed (simp add: fs_Load_def)
    with at(1,2) old new u show ?thesis by blast
  next
    case False
    then have "d' = d \<and> r \<noteq> Inr ()" using a p ll by (cases "applyChangeSet b c") (auto simp: fs_Apply_def ApplyChangeSetForStore_def split: if_splits)
    with l show ?thesis by blast
  qed
qed

text \<open>A request to cancel a stored run is accepted.\<close>

lemma fs_RequestCancel_returns:
  assumes "fs_Load None i d = Inr s"
  shows "\<exists>r d'. fs_RequestCancel None NoFault (temp_name n) i at d = (Inr r, d')"
proof -
  obtain name x where p: "path i = Inr name" "wire x = Inr s" using assms by (auto simp: fs_load_Inr)
  have l: "loadLocked name i d = Inr s" using assms p by (simp add: fs_Load_def loadLocked_def)
  let ?s = "upd_run (\<lambda>r. r\<lparr>wr_CancelRequestedAt := Some at, wr_Revision := wr_Revision r + 1\<rparr>) s"
  have "wire ?s = Inr ?s" using wire_same_definition [OF wire_idem [OF p(2)], of ?s] by simp
  with p l show ?thesis by (simp add: fs_RequestCancel_def Let_def writeLocked_ok)
qed

end
