(* ===== verification/Recovery.thy ===== *)
theory Recovery
  imports Run_Machine
begin

text \<open>
  Preparation of a stored run for resumption (\<^verbatim>\<open>workflow/recovery.go\<close>): the
  validation of attempt histories and \<^verbatim>\<open>prepareForResume\<close>, which interrupts the
  attempts of the lost process, spreads failures and rebuilds the dependency counters.
  \<^verbatim>\<open>isRetryableAttemptStatus\<close> is in the theory of the invariant.
\<close>

section \<open>Validation\<close>

fun check_attempts :: "TaskStatus \<Rightarrow> nat \<Rightarrow> nat \<Rightarrow> Attempt list \<Rightarrow> unit res" where
  "check_attempts status n i [] = Inr ()"
| "check_attempts status n i (attempt # attempts) =
     (if at_Number attempt \<noteq> int i + 1 then Inl (Errorf ''task %q attempt number %d at index %d, want %d'')
      else
        bindR (case at_Status attempt of
                 AttemptRunning \<Rightarrow>
                   if i \<noteq> n - 1 \<or> status \<noteq> TaskRunning
                   then Inl (Errorf ''task %q has historical running attempt %d'') else Inr ()
               | AttemptOther w \<Rightarrow> Inl (Errorf ''task %q attempt %d has unsupported status %q'')
               | _ \<Rightarrow> Inr ())
        (\<lambda>_. if int i < int n - 1 \<and> \<not> isRetryableAttemptStatus (at_Status attempt)
             then Inl (Errorf ''task %q has non-retryable historical attempt %d with status %q'')
             else check_attempts status n (Suc i) attempts))"

definition check_status :: "TaskRun \<Rightarrow> int \<Rightarrow> AttemptStatus \<Rightarrow> unit res" where
  "check_status task limit lastStatus =
     (let count = int (length (tr_Attempts task)) in
      case tr_Status task of
        TaskWaitingDependencies \<Rightarrow>
          if count \<noteq> 0 then Inl (Errorf ''task %q is waiting_dependencies with attempt history'') else Inr ()
      | TaskReady \<Rightarrow>
          if limit \<le> count then Inl (Errorf ''task %q is ready after exhausted retry attempts'')
          else if 0 < count \<and> \<not> isRetryableAttemptStatus lastStatus
            then Inl (Errorf ''task %q is ready after attempt status %q'')
          else Inr ()
      | TaskRunning \<Rightarrow>
          if count = 0 \<or> lastStatus \<noteq> AttemptRunning
          then Inl (Errorf ''task %q is running without a running attempt'') else Inr ()
      | TaskWaitingRetry \<Rightarrow>
          if count = 0 \<or> tr_ReadyAt task = None
            then Inl (Errorf ''task %q is waiting_retry without attempt or ready_at'')
          else if limit \<le> count then Inl (Errorf ''task %q is waiting_retry after exhausted retry attempts'')
          else if \<not> isRetryableAttemptStatus lastStatus
            then Inl (Errorf ''task %q is waiting_retry after attempt status %q'')
          else Inr ()
      | TaskSucceeded \<Rightarrow>
          if count = 0 \<or> lastStatus \<noteq> AttemptSucceeded
          then Inl (Errorf ''task %q succeeded after attempt status %q'') else Inr ()
      | TaskFailed \<Rightarrow>
          if count = 0 \<or> lastStatus \<noteq> AttemptFailed \<and> lastStatus \<noteq> AttemptTimedOut \<and> lastStatus \<noteq> AttemptInterrupted
            then Inl (Errorf ''task %q failed after attempt status %q'')
          else if (lastStatus = AttemptTimedOut \<or> lastStatus = AttemptInterrupted) \<and> count < limit
            then Inl (Errorf ''task %q failed before retry attempts were exhausted'')
          else Inr ()
      | TaskCanceled \<Rightarrow>
          if 0 < count \<and> lastStatus \<noteq> AttemptCanceled \<and> \<not> isRetryableAttemptStatus lastStatus
          then Inl (Errorf ''task %q canceled after attempt status %q'') else Inr ()
      | TaskSkipped \<Rightarrow>
          if count \<noteq> 0 then Inl (Errorf ''task %q is skipped with attempt history'') else Inr ()
      | _ \<Rightarrow> Inl (Errorf ''task %q has unsupported stored status %q''))"

definition validateAttemptHistoryForResume :: "TaskRun \<Rightarrow> TaskDefinition \<Rightarrow> unit res" where
  "validateAttemptHistoryForResume task definition =
     (let attempts = tr_Attempts task; limit = rp_MaxAttempts (td_Retry definition);
          lastStatus = (if attempts \<noteq> [] then at_Status (last attempts) else AttemptOther '''') in
      if tr_Status task \<noteq> TaskWaitingRetry \<and> tr_ReadyAt task \<noteq> None
        then Inl (Errorf ''task %q has ready_at outside waiting_retry'')
      else if limit < int (length attempts) then Inl (Errorf ''task %q has %d attempts, maximum is %d'')
      else
        bindR (check_status task limit lastStatus) (\<lambda>_.
        check_attempts (tr_Status task) (length attempts) 0 attempts))"

section \<open>Preparation\<close>

text \<open>The first loop.\<close>

definition resume_task :: "CompiledWorkflow \<Rightarrow> time \<Rightarrow> nat \<Rightarrow> RunSnapshot \<Rightarrow> RunSnapshot res" where
  "resume_task cw now i s =
     (let task = run_tasks s ! i; definition = wd_Tasks (cw_definition cw) ! i; j = length (tr_Attempts task) - 1 in
      if tr_Key task \<noteq> td_Key definition then Inl (Errorf ''stored task %d key %q does not match definition key %q'')
      else
        bindR (validateAttemptHistoryForResume task definition) (\<lambda>_.
        if tr_Status task = TaskRunning then
          bindR (transitionAttempt s (tr_Key task) i j AttemptInterrupted now ''process restarted'') (\<lambda>s.
          if rp_MaxAttempts (td_Retry definition) \<le> int (length (tr_Attempts (run_tasks s ! i)))
          then transitionTask s i TaskFailed now ''attempts exhausted after restart''
          else
            bindR (transitionTask s i TaskWaitingRetry now ''retry interrupted attempt'') (\<lambda>s.
            Inr (upd_task i (\<lambda>t. t\<lparr>tr_ReadyAt := Some now\<rparr>) s)))
        else Inr s))"

definition blocked_sources :: "RunSnapshot \<Rightarrow> nat list" where
  "blocked_sources s =
     filter (\<lambda>i. status_of s i = TaskFailed \<or> status_of s i = TaskCanceled \<or> status_of s i = TaskSkipped)
       [0 ..< length (run_tasks s)]"

text \<open>The last loop.\<close>

definition restore_task :: "CompiledWorkflow \<Rightarrow> time \<Rightarrow> nat \<Rightarrow> RunSnapshot \<Rightarrow> RunSnapshot res" where
  "restore_task cw now i s =
     (if isTaskTerminal (status_of s i) then Inr s
      else
        let statuses = map (status_of s) (cw_dependencies cw ! i);
            blocked = list_ex (\<lambda>st. st = TaskFailed \<or> st = TaskCanceled \<or> st = TaskSkipped) statuses;
            remaining = int (length (filter (\<lambda>st. \<not> isTaskTerminal st) statuses));
            s = upd_run (\<lambda>r. r\<lparr>wr_RemainingDependencies := (wr_RemainingDependencies r)[i := remaining]\<rparr>) s
        in if blocked then transitionTask s i TaskSkipped now ''upstream terminal failure''
           else
             bindR (if remaining = 0 \<and> status_of s i = TaskWaitingDependencies
                    then transitionTask s i TaskReady now ''dependencies restored'' else Inr s)
             (\<lambda>s. if 0 < remaining \<and> (status_of s i = TaskReady \<or> status_of s i = TaskWaitingRetry)
                  then Inl (Errorf ''task %q is %s before dependencies succeeded'') else Inr s))"

definition prepareForResume :: "RunSnapshot \<Rightarrow> CompiledWorkflow \<Rightarrow> time \<Rightarrow> RunSnapshot res" where
  "prepareForResume s cw now =
     (if length (run_tasks s) \<noteq> length (wd_Tasks (cw_definition cw))
        then Inl (Errorf ''stored task count does not match definition'')
      else
        let indices = [0 ..< length (run_tasks s)];
            s = upd_run (\<lambda>r. r\<lparr>wr_RemainingDependencies := replicate (length (wr_Tasks r)) 0\<rparr>) s in
        bindR (foldR (resume_task cw now) indices s) (\<lambda>s.
        bindR (skipDescendantsFrom s cw (blocked_sources s) now) (\<lambda>s.
        foldR (restore_task cw now) indices s)))"

section \<open>The validation is the specification of stored histories\<close>

definition resumable :: "int \<Rightarrow> TaskRun \<Rightarrow> bool" where
  "resumable limit t \<longleftrightarrow>
     (let as = tr_Attempts t in
      map at_Number as = map int [1 ..< Suc (length as)] \<and> int (length as) \<le> limit \<and>
      list_all (\<lambda>a. isRetryableAttemptStatus (at_Status a)) (butlast as) \<and>
      last_ok limit (tr_Status t) (map at_Status as) \<and> tr_Status t \<noteq> TaskQueued \<and>
      (tr_ReadyAt t \<noteq> None) = (tr_Status t = TaskWaitingRetry))"

lemma check_attempts_iff:
  "check_attempts status n i as = Inr () \<longleftrightarrow>
     (\<forall>j < length as. at_Number (as ! j) = int (i + j) + 1 \<and>
        (at_Status (as ! j) = AttemptRunning \<longrightarrow> i + j = n - 1 \<and> status = TaskRunning) \<and>
        (\<forall>w. at_Status (as ! j) \<noteq> AttemptOther w) \<and>
        (int (i + j) < int n - 1 \<longrightarrow> isRetryableAttemptStatus (at_Status (as ! j))))"
proof (induction as arbitrary: i)
  case (Cons a as)
  show ?case unfolding length_Cons All_less_Suc2
    using Cons.IH [of "Suc i"] by (cases "at_Status a") (auto simp: bindR_eq_Inr)
qed simp

lemma numbers_iff: "map at_Number as = map int [1 ..< Suc (length as)] \<longleftrightarrow> (\<forall>j < length as. at_Number (as ! j) = int j + 1)"
  unfolding list_eq_iff_nth_eq by (simp add: add.commute del: upt_Suc)

lemma check_attempts_snoc:
  "check_attempts status (length (bs @ [b])) 0 (bs @ [b]) = Inr () \<longleftrightarrow>
     map at_Number (bs @ [b]) = map int [1 ..< Suc (length (bs @ [b]))] \<and>
     list_all (\<lambda>a. isRetryableAttemptStatus (at_Status a)) bs \<and>
     (at_Status b = AttemptRunning \<longrightarrow> status = TaskRunning) \<and> (\<forall>w. at_Status b \<noteq> AttemptOther w)"
  unfolding check_attempts_iff numbers_iff
  by (auto simp: nth_append list_all_length less_Suc_eq isRetryableAttemptStatus_def)

lemma check_status_iff:
  assumes "tr_Attempts t = bs @ [b]" and "int (Suc (length bs)) \<le> limit"
  shows "check_status t limit (at_Status b) = Inr () \<longleftrightarrow>
    last_ok limit (tr_Status t) (map at_Status (bs @ [b])) \<and> tr_Status t \<noteq> TaskQueued \<and>
    (tr_Status t = TaskWaitingRetry \<longrightarrow> tr_ReadyAt t \<noteq> None)"
  using assms(2)
  by (cases "tr_Status t") (auto simp: check_status_def Let_def assms(1) isRetryableAttemptStatus_def split: if_splits)

lemma last_ok_known:
  assumes "last_ok limit status (as @ [a])"
  shows "(a = AttemptRunning \<longrightarrow> status = TaskRunning) \<and> (\<forall>w. a \<noteq> AttemptOther w)"
  using assms by (cases status) (auto simp: isRetryableAttemptStatus_def)

lemma validate_iff:
  "validateAttemptHistoryForResume t definition = Inr () \<longleftrightarrow> resumable (rp_MaxAttempts (td_Retry definition)) t"
proof (cases "tr_Attempts t" rule: rev_cases)
  case Nil
  then show ?thesis
    by (cases "tr_Status t")
       (auto simp: validateAttemptHistoryForResume_def check_status_def resumable_def Let_def bindR_eq_Inr
          isRetryableAttemptStatus_def)
next
  case (snoc bs b)
  let ?limit = "rp_MaxAttempts (td_Retry definition)"
  show ?thesis
  proof (cases "int (Suc (length bs)) \<le> ?limit \<and> (tr_Status t \<noteq> TaskWaitingRetry \<longrightarrow> tr_ReadyAt t = None)")
    case True
    then show ?thesis
      using check_status_iff [OF snoc, of ?limit] check_attempts_snoc [of "tr_Status t" bs b]
        last_ok_known [of ?limit "tr_Status t" "map at_Status bs" "at_Status b"]
      by (auto simp: validateAttemptHistoryForResume_def resumable_def Let_def snoc bindR_eq_Inr simp del: upt_Suc)
  next
    case False
    then show ?thesis by (auto simp: validateAttemptHistoryForResume_def resumable_def Let_def snoc)
  qed
qed

lemma history_resumable: "history_ok limit t \<Longrightarrow> tr_Status t \<noteq> TaskQueued \<Longrightarrow> resumable limit t"
  by (simp add: history_ok_def resumable_def Let_def)

section \<open>The loops\<close>

definition exhausted :: "CompiledWorkflow \<Rightarrow> RunSnapshot \<Rightarrow> nat \<Rightarrow> bool" where
  "exhausted cw s i \<longleftrightarrow> max_attempts cw i \<le> int (length (tr_Attempts (run_tasks s ! i)))"

definition interrupted :: "CompiledWorkflow \<Rightarrow> time \<Rightarrow> nat \<Rightarrow> TaskRun \<Rightarrow> TaskRun" where
  "interrupted cw now i t =
     (if tr_Status t \<noteq> TaskRunning then t
      else
        let t' = finished AttemptInterrupted now (at_Result (last (tr_Attempts t))) t in
        if max_attempts cw i \<le> int (length (tr_Attempts t)) then entered TaskFailed now t'
        else (entered TaskWaitingRetry now t')\<lparr>tr_ReadyAt := Some now\<rparr>)"

lemma interrupted_history:
  assumes h: "history_ok (max_attempts cw i) t"
  shows "history_ok (max_attempts cw i) (interrupted cw now i t)"
proof (cases "tr_Status t = TaskRunning")
  case True
  have le: "int (length (tr_Attempts t)) \<le> max_attempts cw i" using h by (simp add: history_ok_def Let_def)
  have r: "isRetryableAttemptStatus AttemptInterrupted" by (simp add: isRetryableAttemptStatus_def)
  note fh = finished_history [OF h True, of AttemptInterrupted _ now now "at_Result (last (tr_Attempts t))"]
  show ?thesis using fh [of TaskFailed] fh [of TaskWaitingRetry] le r True
    by (auto simp: interrupted_def Let_def entered_ReadyAt)
qed (use h in \<open>simp add: interrupted_def\<close>)

lemma resume_task_returns:
  assumes i: "i < length (run_tasks u)" and h: "history_ok (max_attempts cw i) (run_tasks u ! i)" and q: "status_of u i \<noteq> TaskQueued"
    and key: "tr_Key (run_tasks u ! i) = td_Key (wd_Tasks (cw_definition cw) ! i)"
  shows "\<exists>u'. resume_task cw now i u = Inr u' \<and> quiet u u' \<and>
    run_tasks u' = (run_tasks u)[i := interrupted cw now i (run_tasks u ! i)]"
proof -
  have v: "validateAttemptHistoryForResume (run_tasks u ! i) (wd_Tasks (cw_definition cw) ! i) = Inr ()"
    using validate_iff history_resumable [OF h q] by blast
  show ?thesis
  proof (cases "status_of u i = TaskRunning")
    case False
    with v key show ?thesis by (simp add: resume_task_def Let_def interrupted_def)
  next
    case True
    obtain bs b where b: "tr_Attempts (run_tasks u ! i) = bs @ [b]" "at_Status b = AttemptRunning"
      using history_running [OF h True] by metis
    let ?t = "finished AttemptInterrupted now (at_Result b) (run_tasks u ! i)"
    have "\<exists>s1. transitionAttempt u (tr_Key (run_tasks u ! i)) i (length bs) AttemptInterrupted now ''process restarted'' = Inr s1"
      unfolding transitionAttempt_Inr using b by simp
    then obtain s1 where s1: "transitionAttempt u (tr_Key (run_tasks u ! i)) i (length bs) AttemptInterrupted now ''process restarted'' = Inr s1" ..
    have t: "run_tasks s1 = (run_tasks u)[i := ?t]"
      using transitionAttempt_effect(1) [OF s1] by (simp add: finished_def b(1))
    note q1 = quiet_transitionAttempt [OF s1]
    have step: "\<exists>s2. transitionTask s1 i to now reason = Inr s2 \<and> quiet u s2 \<and> run_tasks s2 = (run_tasks u)[i := entered to now ?t]"
      if "taskTransitions TaskRunning to" for to reason
      using task_step [of i s1 to now reason] t i that True quiet_trans [OF q1] by auto
    show ?thesis
    proof (cases "max_attempts cw i \<le> int (length (tr_Attempts (run_tasks u ! i)))")
      case ex: True
      obtain s2 where "transitionTask s1 i TaskFailed now ''attempts exhausted after restart'' = Inr s2" "quiet u s2"
        "run_tasks s2 = (run_tasks u)[i := entered TaskFailed now ?t]" using step [of TaskFailed] by auto
      with ex True v key s1 b t i show ?thesis by (simp add: resume_task_def Let_def interrupted_def finished_def)
    next
      case more: False
      obtain s2 where s2: "transitionTask s1 i TaskWaitingRetry now ''retry interrupted attempt'' = Inr s2" "quiet u s2"
        "run_tasks s2 = (run_tasks u)[i := entered TaskWaitingRetry now ?t]" using step [of TaskWaitingRetry] by auto
      have "quiet u (upd_task i (\<lambda>t. t\<lparr>tr_ReadyAt := Some now\<rparr>) s2)"
        using s2(2) quiet_upd_task [of "\<lambda>t. t\<lparr>tr_ReadyAt := Some now\<rparr>" s2 i] by (auto intro: quiet_trans)
      with more True v key s1 b t i s2 show ?thesis by (simp add: resume_task_def Let_def interrupted_def finished_def)
    qed
  qed
qed

text \<open>On statuses in which no open task has a lost dependency, the last loop only rebuilds
  the counters of the open tasks.\<close>

definition restored :: "CompiledWorkflow \<Rightarrow> (nat \<Rightarrow> TaskStatus) \<Rightarrow> nat \<Rightarrow> int" where
  "restored cw st i = (if isTaskTerminal (st i) then 0 else int (pending cw st i))"

lemma restore_task_returns:
  assumes g: "graph_ok cw (status_of s) rem" and i: "i < task_count cw" and no: "\<And>w. status_of s i \<noteq> TaskOther w"
  shows "restore_task cw now i s = Inr (if isTaskTerminal (status_of s i) then s
    else upd_run (\<lambda>r. r\<lparr>wr_RemainingDependencies := (wr_RemainingDependencies r)[i := int (pending cw (status_of s) i)]\<rparr>) s)"
proof (cases "isTaskTerminal (status_of s i)")
  case False
  have ok: "dep_ok cw (status_of s) i" using g i by (simp add: graph_ok_def)
  have cls: "status_of s i = TaskWaitingDependencies \<or> active (status_of s i)"
    using False no by (cases "status_of s i") (auto simp: active_def)
  have nl: "\<not> lost (status_of s d)" if "d \<in> deps_of cw i" for d
    using cls ok that unfolding dep_ok_def pending_0_iff by (metis TaskStatus.distinct lost_def)
  have cnt: "length (filter (\<lambda>d. \<not> isTaskTerminal (status_of s d)) (cw_dependencies cw ! i)) = pending cw (status_of s) i"
    unfolding pending_def using nl by (intro filter_eq_if_same) (auto simp: isTaskTerminal_def lost_def)
  have "\<not> list_ex (\<lambda>st. st = TaskFailed \<or> st = TaskCanceled \<or> st = TaskSkipped) (map (status_of s) (cw_dependencies cw ! i))"
    using nl by (auto simp: list_ex_iff lost_def)
  moreover have "\<not> (pending cw (status_of s) i = 0 \<and> status_of s i = TaskWaitingDependencies)"
    and "\<not> (0 < pending cw (status_of s) i \<and> (status_of s i = TaskReady \<or> status_of s i = TaskWaitingRetry))"
    using ok by (auto simp: dep_ok_def active_def)
  ultimately show ?thesis using False cnt
    by (auto simp: restore_task_def Let_def filter_map comp_def)
qed (simp add: restore_task_def)

lemma restore_returns:
  assumes g: "graph_ok cw (status_of s) rem" and len: "length (run_tasks s) = task_count cw" "run_remaining s = replicate (task_count cw) 0"
    and no: "\<And>i w. i < task_count cw \<Longrightarrow> status_of s i \<noteq> TaskOther w" and "m \<le> task_count cw"
  shows "\<exists>s'. foldR (restore_task cw now) [0 ..< m] s = Inr s' \<and> calm s s' \<and> run_tasks s' = run_tasks s \<and>
    run_remaining s' = map (\<lambda>i. if i < m then restored cw (status_of s) i else 0) [0 ..< task_count cw]"
  using assms(5)
proof (induction m)
  case 0
  then show ?case using len by (auto intro!: nth_equalityI)
next
  case (Suc m)
  then obtain u where u: "foldR (restore_task cw now) [0 ..< m] s = Inr u" "calm s u" "run_tasks u = run_tasks s"
    "run_remaining u = map (\<lambda>i. if i < m then restored cw (status_of s) i else 0) [0 ..< task_count cw]" by auto
  have m: "m < task_count cw" using Suc.prems by simp
  define u' where "u' = (if isTaskTerminal (status_of u m) then u
    else upd_run (\<lambda>r. r\<lparr>wr_RemainingDependencies := (wr_RemainingDependencies r)[m := int (pending cw (status_of u) m)]\<rparr>) u)"
  have "restore_task cw now m u = Inr u'" unfolding u'_def
    using restore_task_returns [of cw u rem m now] g m no u(3) by simp
  moreover have "calm u u'" using evolves_upd_status(4) by (auto simp: u'_def calm_def)
  moreover have "run_remaining u' = map (\<lambda>i. if i < Suc m then restored cw (status_of s) i else 0) [0 ..< task_count cw]"
    using m u(3,4) by (auto simp: u'_def restored_def nth_list_update less_Suc_eq intro!: nth_equalityI)
  moreover have "run_tasks u' = run_tasks s" using u(3) by (simp add: u'_def)
  ultimately show ?case using u(1) calm_trans [OF u(2)] by (auto simp: foldR_append)
qed

section \<open>Preparation succeeds\<close>

definition broken :: "CompiledWorkflow \<Rightarrow> RunSnapshot \<Rightarrow> nat set" where
  "broken cw s = {i. i < task_count cw \<and> status_of s i = TaskRunning \<and> exhausted cw s i}"

definition resumed_status :: "CompiledWorkflow \<Rightarrow> RunSnapshot \<Rightarrow> nat \<Rightarrow> TaskStatus" where
  "resumed_status cw s =
     after_failure cw (broken cw s) (\<lambda>k. if status_of s k = TaskRunning then TaskWaitingRetry else status_of s k)"

lemma resumed_graph:
  assumes wf: "wf_compiled cw" and g: "graph_ok cw (status_of s) rem"
    and no: "\<And>k. k < task_count cw \<Longrightarrow> status_of s k \<noteq> TaskCanceled" "\<And>k w. k < task_count cw \<Longrightarrow> status_of s k \<noteq> TaskOther w"
  shows "graph_ok cw (resumed_status cw s) rem"
  unfolding resumed_status_def
proof (rule graph_ok_failure [OF wf])
  show "graph_ok cw (\<lambda>k. if status_of s k = TaskRunning then TaskWaitingRetry else status_of s k) rem"
    by (rule graph_ok_actives [OF g]) (simp add: active_def)
qed (use no in \<open>auto simp: broken_def active_def\<close>)

lemma interrupted_status:
  "k < task_count cw \<Longrightarrow> tr_Status (interrupted cw now k (run_tasks s ! k)) =
     (if k \<in> broken cw s then TaskFailed else if status_of s k = TaskRunning then TaskWaitingRetry else status_of s k)"
  by (auto simp: interrupted_def Let_def broken_def exhausted_def)

lemma graph_ok_counts: "graph_ok cw st rem \<Longrightarrow> graph_ok cw st (\<lambda>k. int (pending cw st k))"
  by (simp add: graph_ok_def)

lemma prepareForResume_returns:
  assumes wf: "wf_compiled cw" and inv: "run_inv cw s" and live: "\<not> isWorkflowTerminal (run_status s)"
    and nq: "\<And>i. i < task_count cw \<Longrightarrow> status_of s i \<noteq> TaskQueued"
  shows "\<exists>s'. prepareForResume s cw now = Inr s' \<and> calm s s' \<and> histories_ok cw (run_tasks s') \<and>
    (\<forall>k < task_count cw. status_of s' k = resumed_status cw s k \<and>
       run_remaining s' ! k = restored cw (status_of s') k) \<and>
    length (run_remaining s') = task_count cw"
proof -
  let ?n = "task_count cw"
  have shape: "shape_ok cw s" and g: "graph_ok cw (status_of s) ((!) (run_remaining s))" using inv by (simp_all add: run_inv_def)
  have len: "length (run_tasks s) = ?n" "length (run_remaining s) = ?n" using shape_length [OF shape] by simp_all
  have no: "status_of s k \<noteq> TaskCanceled" "status_of s k \<noteq> TaskOther w" if "k < ?n" for k w
    using that inv live len history_not_other [OF run_inv_task(1) [OF inv that]]
    by (cases "run_status s"; force simp: run_inv_def list_all_length)+
  have keys: "tr_Key (run_tasks s ! k) = td_Key (wd_Tasks (cw_definition cw) ! k)" if "k < ?n" for k
    using shape len that unfolding shape_ok_def by (metis nth_map)
  define s0 where "s0 = upd_run (\<lambda>r. r\<lparr>wr_RemainingDependencies := replicate (length (wr_Tasks r)) 0\<rparr>) s"
  have c0: "calm s s0" using len by (simp add: s0_def calm_def evolves_def same_frame_def log_ok_def)
  have s0: "run_tasks s0 = run_tasks s" "run_remaining s0 = replicate ?n 0" using len by (simp_all add: s0_def)
  have step: "\<exists>u'. resume_task cw now i u = Inr u' \<and> quiet u u' \<and>
      run_tasks u' = (run_tasks u)[i := interrupted cw now i (run_tasks s0 ! i)]"
    if "i < length (run_tasks s0)" "quiet s0 u" "run_tasks u ! i = run_tasks s0 ! i" for i u
    using that resume_task_returns [of i u cw now] run_inv_task(1) [OF inv] nq keys len s0 quietD(6) [OF that(2)] by simp
  from foldR_each_task [of s0 "resume_task cw now" "interrupted cw now" ?n] step obtain s1 where
    s1: "foldR (resume_task cw now) [0 ..< ?n] s0 = Inr s1" "quiet s0 s1"
    and ts1: "run_tasks s1 = map (\<lambda>k. if k < ?n then interrupted cw now k (run_tasks s ! k) else run_tasks s ! k) [0 ..< ?n]"
    using len s0 by auto
  have st1: "status_of s1 k = (if k \<in> broken cw s then TaskFailed else if status_of s k = TaskRunning then TaskWaitingRetry else status_of s k)"
    if "k < ?n" for k using that ts1 interrupted_status [OF that] by simp
  let ?F = "set (blocked_sources s1)"
  have lenF: "length (run_tasks s1) = ?n" using ts1 by simp
  have F: "?F = {k. k < ?n \<and> (k \<in> broken cw s \<or> lost (status_of s k))}"
  proof -
    have "lost (status_of s1 k) = (k \<in> broken cw s \<or> lost (status_of s k))" if "k < ?n" for k
      unfolding st1 [OF that] by (simp add: lost_def)
    moreover have "?F = {k. k < ?n \<and> lost (status_of s1 k)}" using lenF by (auto simp: blocked_sources_def lost_def)
    ultimately show ?thesis by blast
  qed
  have lostb: "lost (status_of s k)" if "f < ?n" "lost (status_of s f)" "k \<in> below cw f" for f k
    using lost_below [OF g that(2,3)] no by blast
  have openb: "k \<in> below_any cw (broken cw s)" if k: "k \<in> below_any cw ?F" "\<not> isTaskTerminal (status_of s k)" for k
  proof -
    obtain f where f: "f \<in> ?F" "k \<in> below cw f" using k(1) by (auto simp: below_any_def)
    have "\<not> lost (status_of s k)" using k(2) by (auto simp: lost_def)
    with f lostb F have "f \<in> broken cw s" by blast
    with f(2) show ?thesis by (auto simp: below_any_def)
  qed
  have wait: "status_of s k = TaskWaitingDependencies" if k: "k \<in> below_any cw (broken cw s)" "\<not> isTaskTerminal (status_of s k)" for k
  proof -
    obtain f where f: "f \<in> broken cw s" "k \<in> below cw f" using k(1) by (auto simp: below_any_def)
    have "status_of s f \<noteq> TaskSucceeded" using f(1) by (simp add: broken_def)
    from below_waiting [OF g this f(2)] no [OF below_lt [OF f(2)]] k(2) show ?thesis by auto
  qed
  have nb: "k \<notin> broken cw s \<and> status_of s k \<noteq> TaskRunning" if "k \<in> below_any cw (broken cw s)" for k
  proof -
    obtain f where f: "f \<in> broken cw s" "k \<in> below cw f" using \<open>k \<in> below_any cw (broken cw s)\<close> by (auto simp: below_any_def)
    have "status_of s f \<noteq> TaskSucceeded" using f(1) by (simp add: broken_def)
    from below_open [OF g this f(2)] have "status_of s k \<noteq> TaskRunning" by (auto simp: active_def)
    then show ?thesis by (simp add: broken_def)
  qed
  have "\<exists>s2. skipDescendantsFrom s1 cw (blocked_sources s1) now = Inr s2 \<and> quiet s1 s2 \<and>
      run_tasks s2 = skipped_in (below_any cw ?F) now (run_tasks s1)"
  proof (rule skipDescendantsFrom_returns [OF wf lenF])
    show "?F \<subseteq> {..<?n}" using F by auto
    fix k assume k: "k \<in> below_any cw ?F" "\<not> isTaskTerminal (status_of s1 k)"
    have kn: "k < ?n" using k(1) below_lt by (auto simp: below_any_def)
    with k(2) st1 have "\<not> isTaskTerminal (status_of s k)" by (auto split: if_splits)
    with openb [OF k(1)] wait nb st1 kn show "status_of s1 k = TaskWaitingDependencies" by auto
  qed
  then obtain s2 where s2: "skipDescendantsFrom s1 cw (blocked_sources s1) now = Inr s2" "quiet s1 s2"
    and ts2: "run_tasks s2 = skipped_in (below_any cw ?F) now (run_tasks s1)" by blast
  have sub: "k \<in> below_any cw ?F" if "k \<in> below_any cw (broken cw s)" for k
    using that F by (auto simp: below_any_def broken_def)
  have st2: "status_of s2 k = resumed_status cw s k" if k: "k < ?n" for k
  proof (cases "isTaskTerminal (status_of s1 k)")
    case True
    then show ?thesis using k lenF ts2 st1 by (auto simp: resumed_status_def after_failure_def split: if_splits)
  next
    case False
    then show ?thesis using k lenF ts2 st1 openb [of k] sub [of k]
      by (auto simp: resumed_status_def after_failure_def split: if_splits)
  qed
  have "\<exists>s'. foldR (restore_task cw now) [0 ..< ?n] s2 = Inr s' \<and> calm s2 s' \<and> run_tasks s' = run_tasks s2 \<and>
      run_remaining s' = map (\<lambda>i. if i < ?n then restored cw (status_of s2) i else 0) [0 ..< ?n]"
  proof (rule restore_returns)
    show "graph_ok cw (status_of s2) ((!) (run_remaining s))"
      by (rule graph_ok_cong [OF wf st2 _ resumed_graph [OF wf g no]]) simp_all
    show "length (run_tasks s2) = ?n" "run_remaining s2 = replicate ?n 0"
      using ts2 lenF quietD(2) [OF s1(2)] quietD(2) [OF s2(2)] s0 by simp_all
    show "status_of s2 i \<noteq> TaskOther w" if "i < ?n" for i w
      using st2 [OF that] no(2) [OF that] by (auto simp: resumed_status_def after_failure_def)
  qed simp
  then obtain s' where s': "foldR (restore_task cw now) [0 ..< ?n] s2 = Inr s'" "calm s2 s'" "run_tasks s' = run_tasks s2"
    "run_remaining s' = map (\<lambda>i. if i < ?n then restored cw (status_of s2) i else 0) [0 ..< ?n]" by blast
  have "prepareForResume s cw now = Inr s'"
    using len s1(1) s2(1) s'(1) unfolding prepareForResume_def s0_def [symmetric] by (simp add: s0_def [symmetric])
  moreover have "calm s s'"
    using calm_trans [OF c0 calm_trans [OF quiet_calm [OF s1(2)] calm_trans [OF quiet_calm [OF s2(2)] s'(2)]]] .
  moreover have "histories_ok cw (run_tasks s')"
    unfolding histories_ok_def
  proof (intro allI impI)
    fix k assume k: "k < ?n"
    have h1: "history_ok (max_attempts cw k) (run_tasks s1 ! k)"
      using k ts1 interrupted_history [OF run_inv_task(1) [OF inv k]] by simp
    show "history_ok (max_attempts cw k) (run_tasks s' ! k)"
    proof (cases "k \<in> below_any cw ?F \<and> \<not> isTaskTerminal (status_of s1 k)")
      case True
      then have "\<not> isTaskTerminal (status_of s k)" using st1 [OF k] by (auto split: if_splits)
      then have "status_of s1 k = TaskWaitingDependencies" using True openb wait nb st1 [OF k] by auto
      then have "history_ok (max_attempts cw k) (entered TaskSkipped now (run_tasks s1 ! k))" by (intro entered_history [OF h1]) auto
      with True k lenF s'(3) ts2 show ?thesis by simp
    next
      case False
      then show ?thesis using h1 k lenF s'(3) ts2 by auto
    qed
  qed
  ultimately show ?thesis using s'(3,4) st2 by auto
qed

text \<open>When nothing had to be skipped the counters are exact again and the run satisfies the
  invariant of a running workflow.\<close>

lemma resumed_open:
  assumes wf: "wf_compiled cw" and inv: "run_inv cw s" and run: "run_status s = WorkflowRunning"
    and nq: "\<And>i. i < task_count cw \<Longrightarrow> status_of s i \<noteq> TaskQueued"
    and prep: "prepareForResume s cw now = Inr s'"
    and ns: "\<And>i. i < task_count cw \<Longrightarrow> status_of s' i \<noteq> TaskSkipped"
  shows "open_inv cw s'"
proof -
  have live: "\<not> isWorkflowTerminal (run_status s)" using run by simp
  have r: "calm s s'" "histories_ok cw (run_tasks s')" "length (run_remaining s') = task_count cw"
    and st: "\<And>k. k < task_count cw \<Longrightarrow> status_of s' k = resumed_status cw s k"
    and rem: "\<And>k. k < task_count cw \<Longrightarrow> run_remaining s' ! k = restored cw (status_of s') k"
    using prepareForResume_returns [OF wf inv live nq, of now] prep by auto
  have no: "status_of s k \<noteq> TaskCanceled" "status_of s k \<noteq> TaskOther w" if "k < task_count cw" for k w
    using that inv run run_inv_task(2) [OF inv that] history_not_other [OF run_inv_task(1) [OF inv that]]
    by (auto simp: run_inv_def list_all_length)
  have g: "graph_ok cw (status_of s) ((!) (run_remaining s))" using inv by (simp add: run_inv_def)
  have g': "graph_ok cw (status_of s') (\<lambda>k. int (pending cw (status_of s') k))"
    by (rule graph_ok_counts, rule graph_ok_cong [OF wf st _ resumed_graph [OF wf g no]]) simp_all
  have canc: "status_of s' k \<noteq> TaskCanceled" if "k < task_count cw" for k
    using st [OF that] no(1) [OF that] by (auto simp: resumed_status_def after_failure_def)
  have "run_remaining s' ! k = int (pending cw (status_of s') k)" if k: "k < task_count cw" for k
  proof (cases "isTaskTerminal (status_of s' k)")
    case True
    then have "status_of s' k = TaskSucceeded \<or> status_of s' k = TaskFailed" using ns [OF k] canc [OF k] by (auto simp: isTaskTerminal_def)
    then have "pending cw (status_of s') k = 0" using g' k by (auto simp: graph_ok_def dep_ok_def)
    with True rem [OF k] show ?thesis by (simp add: restored_def)
  qed (use rem [OF k] in \<open>simp add: restored_def\<close>)
  then have "graph_ok cw (status_of s') ((!) (run_remaining s'))"
    by (intro graph_ok_cong [OF wf _ _ g']) simp_all
  then show ?thesis using open_inv_calm [OF run_inv_open [OF inv run] r(1,2)] canc by blast
qed

end
