(* ===== verification/Engine.thy ===== *)
theory Engine
  imports File_Store Recovery
begin

text \<open>
  The in-process engine (\<^verbatim>\<open>workflow/engine.go\<close>, \<^verbatim>\<open>Resume\<close> of
  \<^verbatim>\<open>recovery.go\<close>). One goroutine owns the snapshot of a run and handles the events
  of the others one at a time: completions, timeouts, retry timers. The model is that
  goroutine. The events arrive as a list in the order it receives them; the clock is a
  stream of readings, the run context is cancelled at some moment with some cause and stays
  so, and both are read at a counter that every \<^verbatim>\<open>clock.Now()\<close> and every
  \<^verbatim>\<open>runCtx.Err()\<close> advances; the store is a parameter, used through \<^verbatim>\<open>Load\<close> and
  \<^verbatim>\<open>Apply\<close>. The requests handed to the executor, with their timeouts, and the retry
  timers started are recorded in the loop's state.
\<close>

section \<open>State\<close>

text \<open>Why a run context was cancelled: \<^verbatim>\<open>errBusinessCancel\<close> or anything else.\<close>

datatype stop_cause = BusinessCancel | OtherCause werror

record env =
  en_clock :: "nat \<Rightarrow> time"
  en_stop :: "(nat \<times> stop_cause) option"

type_synonym attemptKey = "nat \<times> int"

record 'st loop =
  lp_snapshot :: RunSnapshot
  lp_active :: "attemptKey list"
  lp_running :: int
  lp_timers :: "(attemptKey \<times> duration) list"
  lp_requests :: "(ExecutionRequest \<times> duration) list"
  lp_store :: 'st
  lp_tick :: nat

datatype event =
    Completion nat int ExecutionResponse time
  | AttemptTimeout nat int time
  | RetryTimer nat int time

text \<open>The outcome of a part of the loop: it goes on, or the function returns.\<close>

datatype 'st flow = Go "'st loop" | Return "WorkflowRun res" "'st loop"

definition clock_now :: "env \<Rightarrow> 'st loop \<Rightarrow> time \<times> 'st loop" where
  "clock_now env lp = (en_clock env (lp_tick lp), lp\<lparr>lp_tick := Suc (lp_tick lp)\<rparr>)"

definition ctx_err :: "env \<Rightarrow> 'st loop \<Rightarrow> stop_cause option \<times> 'st loop" where
  "ctx_err env lp =
     (case en_stop env of
        None \<Rightarrow> None
      | Some (t, cause) \<Rightarrow> if t \<le> lp_tick lp then Some cause else None,
      lp\<lparr>lp_tick := Suc (lp_tick lp)\<rparr>)"

fun cause_error :: "stop_cause \<Rightarrow> werror" where
  "cause_error BusinessCancel = CtxError ''context canceled''"
| "cause_error (OtherCause e) = e"

type_synonym 'st loader = "RunID \<Rightarrow> 'st \<Rightarrow> RunSnapshot res"
type_synonym 'st applier = "ChangeSet \<Rightarrow> 'st \<Rightarrow> unit res \<times> 'st"

section \<open>Saving\<close>

text \<open>\<^verbatim>\<open>saveSnapshot\<close> writes the revision into the candidate it is given, so the result is
  the candidate as it was saved.\<close>

definition saveSnapshot :: "'st applier \<Rightarrow> RunSnapshot \<Rightarrow> RunSnapshot \<Rightarrow> 'st \<Rightarrow> RunSnapshot res \<times> 'st" where
  "saveSnapshot store_apply base after st =
     (let after = upd_run (\<lambda>r. r\<lparr>wr_Revision := wr_Revision (rs_Run base) + 1\<rparr>) after;
          after = upd_run (\<lambda>r. r\<lparr>wr_LastEventSequence := snapshotLastEventSequence after\<rparr>) after in
      case changeSetFromSnapshots base after of
        Inl e \<Rightarrow> (Inl e, st)
      | Inr change \<Rightarrow>
          (case store_apply change st of (Inl e, st) \<Rightarrow> (Inl e, st) | (Inr _, st) \<Rightarrow> (Inr after, st)))"

section \<open>Stopping\<close>

text \<open>The loop of \<^verbatim>\<open>finalizeCancellation\<close> with the number of rounds left.\<close>

fun finalize_rounds ::
  "'st loader \<Rightarrow> 'st applier \<Rightarrow> time \<Rightarrow> nat \<Rightarrow> RunSnapshot \<Rightarrow> 'st \<Rightarrow> WorkflowRun res \<times> 'st" where
  "finalize_rounds load store_apply at 0 s st = (Inl ErrRevisionConflict, st)"
| "finalize_rounds load store_apply at (Suc rounds) s st =
     (if isWorkflowTerminal (run_status s) then (Inr (rs_Run s), st)
      else
        case CancelRunSnapshot s at of
          Inl e \<Rightarrow> (Inl e, st)
        | Inr updated \<Rightarrow>
            (case saveSnapshot store_apply s updated st of
               (Inr updated, st) \<Rightarrow> (Inr (rs_Run updated), st)
             | (Inl e, st) \<Rightarrow>
                 if e \<noteq> ErrRevisionConflict \<or> rounds = 0 then (Inl e, st)
                 else
                   (case load (wr_ID (rs_Run s)) st of
                      Inl e \<Rightarrow> (Inl e, st)
                    | Inr s \<Rightarrow> finalize_rounds load store_apply at rounds s st)))"

definition finalizeCancellation ::
  "env \<Rightarrow> 'st loader \<Rightarrow> 'st applier \<Rightarrow> RunSnapshot \<Rightarrow> 'st loop \<Rightarrow> WorkflowRun res \<times> 'st loop" where
  "finalizeCancellation env load store_apply s lp =
     (let (at, lp) = clock_now env lp;
          (r, st) = finalize_rounds load store_apply at 2 s (lp_store lp)
      in (r, lp\<lparr>lp_store := st\<rparr>))"

definition stoppedRunResult ::
  "env \<Rightarrow> 'st loader \<Rightarrow> 'st applier \<Rightarrow> stop_cause \<Rightarrow> 'st loop \<Rightarrow> 'st flow" where
  "stoppedRunResult env load store_apply cause lp =
     (case cause of
        BusinessCancel \<Rightarrow> (case finalizeCancellation env load store_apply (lp_snapshot lp) lp of (r, lp) \<Rightarrow> Return r lp)
      | OtherCause e \<Rightarrow> Return (Inl e) lp)"

text \<open>The recurring \<^verbatim>\<open>if runCtx.Err() != nil { return e.stoppedRunResult(...) }\<close>.\<close>

definition unless_stopped ::
  "env \<Rightarrow> 'st loader \<Rightarrow> 'st applier \<Rightarrow> ('st loop \<Rightarrow> 'st flow) \<Rightarrow> 'st loop \<Rightarrow> 'st flow" where
  "unless_stopped env load store_apply k lp =
     (case ctx_err env lp of
        (Some cause, lp) \<Rightarrow> stoppedRunResult env load store_apply cause lp
      | (None, lp) \<Rightarrow> k lp)"

section \<open>Starting attempts\<close>

definition prepareTask ::
  "RunSnapshot \<Rightarrow> CompiledWorkflow \<Rightarrow> nat \<Rightarrow> time \<Rightarrow> time \<Rightarrow> (RunSnapshot \<times> ExecutionRequest \<times> int) res" where
  "prepareTask s cw i now startedAt =
     bindR (transitionTask s i TaskRunning now ''execution started'') (\<lambda>s.
     let number = int (length (tr_Attempts (run_tasks s ! i))) + 1;
         attempt = \<lparr>at_Number = number, at_Status = AttemptRunning, at_WorkerID = '''', at_DispatchID = '''',
                    at_StartedAt = startedAt, at_FinishedAt = None, at_Result = zero_result\<rparr>;
         s = push_attempt i attempt s
     in if length (wd_Tasks (cw_definition cw)) \<le> i then Inl (GoPanic ''index out of range'')
        else bindR (execution_request s (wd_Tasks (cw_definition cw) ! i) number) (\<lambda>request. Inr (s, request, number)))"

fun start_loop ::
  "env \<Rightarrow> 'st applier \<Rightarrow> CompiledWorkflow \<Rightarrow> TaskRun list \<Rightarrow> nat list \<Rightarrow> 'st loop \<Rightarrow> werror option \<times> 'st loop" where
  "start_loop env store_apply cw tasks [] lp = (None, lp)"
| "start_loop env store_apply cw tasks (i # is) lp =
     (if lp_running lp = wd_Concurrency (cw_definition cw) then (None, lp)
      else if tr_Status (tasks ! i) \<noteq> TaskReady then start_loop env store_apply cw tasks is lp
      else
        let (now, lp) = clock_now env lp; (startedAt, lp) = clock_now env lp in
        case prepareTask (lp_snapshot lp) cw i now startedAt of
          Inl e \<Rightarrow> (Some e, lp)
        | Inr (updated, request, number) \<Rightarrow>
            (case saveSnapshot store_apply (lp_snapshot lp) updated (lp_store lp) of
               (Inl e, st) \<Rightarrow> (Some e, lp\<lparr>lp_store := st\<rparr>)
             | (Inr updated, st) \<Rightarrow>
                 (case ctx_err env (lp\<lparr>lp_store := st, lp_snapshot := updated\<rparr>) of
                    (Some cause, lp) \<Rightarrow> (Some (cause_error cause), lp)
                  | (None, lp) \<Rightarrow>
                      start_loop env store_apply cw tasks is
                        (lp\<lparr>lp_active := (i, number) # lp_active lp, lp_running := lp_running lp + 1,
                            lp_requests := lp_requests lp @ [(request, millis (td_TimeoutMillis (wd_Tasks (cw_definition cw) ! i)))]\<rparr>))))"

definition startReadyTasks :: "env \<Rightarrow> 'st applier \<Rightarrow> CompiledWorkflow \<Rightarrow> 'st loop \<Rightarrow> werror option \<times> 'st loop" where
  "startReadyTasks env store_apply cw lp =
     (case ctx_err env lp of
        (Some cause, lp) \<Rightarrow> (Some (cause_error cause), lp)
      | (None, lp) \<Rightarrow>
          start_loop env store_apply cw (run_tasks (lp_snapshot lp)) [0 ..< length (run_tasks (lp_snapshot lp))] lp)"

definition start_ready :: "env \<Rightarrow> 'st loader \<Rightarrow> 'st applier \<Rightarrow> CompiledWorkflow \<Rightarrow> 'st loop \<Rightarrow> 'st flow" where
  "start_ready env load store_apply cw lp =
     (case startReadyTasks env store_apply cw lp of
        (None, lp) \<Rightarrow> Go lp
      | (Some e, lp) \<Rightarrow> unless_stopped env load store_apply (Return (Inl e)) lp)"

section \<open>Handling events\<close>

definition finishActiveAttempt :: "attemptKey list \<Rightarrow> attemptKey \<Rightarrow> attemptKey list option" where
  "finishActiveAttempt keys key = (if key \<in> set keys then Some (removeAll key keys) else None)"

definition scheduleRetry :: "env \<Rightarrow> nat \<Rightarrow> TaskRun \<Rightarrow> 'st loop \<Rightarrow> 'st loop" where
  "scheduleRetry env i task lp =
     (case tr_ReadyAt task of
        None \<Rightarrow> lp
      | Some readyAt \<Rightarrow>
          if tr_Attempts task = [] then lp
          else
            let (now, lp) = clock_now env lp; delay = readyAt - now in
            lp\<lparr>lp_timers := lp_timers lp @
                [((i, at_Number (last (tr_Attempts task))), if delay < 0 then 0 else delay)]\<rparr>)"

text \<open>Saving a candidate after an event; \<open>k\<close> is what follows the commit.\<close>

definition commit ::
  "env \<Rightarrow> 'st loader \<Rightarrow> 'st applier \<Rightarrow> (bool \<times> RunSnapshot) res \<Rightarrow> ('st loop \<Rightarrow> 'st loop) \<Rightarrow> 'st loop \<Rightarrow> 'st flow" where
  "commit env load store_apply applied k lp =
     (case applied of
        Inl e \<Rightarrow> Return (Inl e) lp
      | Inr (False, _) \<Rightarrow> Go lp
      | Inr (True, updated) \<Rightarrow>
          (case saveSnapshot store_apply (lp_snapshot lp) updated (lp_store lp) of
             (Inl e, st) \<Rightarrow> unless_stopped env load store_apply (Return (Inl e)) (lp\<lparr>lp_store := st\<rparr>)
           | (Inr updated, st) \<Rightarrow> Go (k (lp\<lparr>lp_store := st, lp_snapshot := updated\<rparr>))))"

definition schedule_if_waiting :: "env \<Rightarrow> nat \<Rightarrow> 'st loop \<Rightarrow> 'st loop" where
  "schedule_if_waiting env i lp =
     (if status_of (lp_snapshot lp) i = TaskWaitingRetry
      then scheduleRetry env i (run_tasks (lp_snapshot lp) ! i) lp else lp)"

definition then_start ::
  "env \<Rightarrow> 'st loader \<Rightarrow> 'st applier \<Rightarrow> CompiledWorkflow \<Rightarrow> 'st flow \<Rightarrow> 'st flow" where
  "then_start env load store_apply cw flow =
     (case flow of Return r lp \<Rightarrow> Return r lp | Go lp \<Rightarrow> start_ready env load store_apply cw lp)"

text \<open>One round of the event loop with the event the \<^verbatim>\<open>select\<close> received.
  \<^verbatim>\<open>stop(errBusinessCancel)\<close> has no effect on a context that is already cancelled. A completion or
  timeout whose key is not active is dropped with \<^verbatim>\<open>continue\<close>. While no attempt is
  running only retry timers are received; any other event stays in its channel.\<close>

definition handle_event ::
  "env \<Rightarrow> 'st loader \<Rightarrow> 'st applier \<Rightarrow> CompiledWorkflow \<Rightarrow> event \<Rightarrow> 'st loop \<Rightarrow> 'st flow" where
  "handle_event env load store_apply cw ev lp =
     (case ev of
        Completion i m response finishedAt \<Rightarrow>
          if lp_running lp \<le> 0 then Go lp
          else unless_stopped env load store_apply (\<lambda>lp.
            case finishActiveAttempt (lp_active lp) (i, m) of
              None \<Rightarrow> Go lp
            | Some keys \<Rightarrow>
                let lp = lp\<lparr>lp_active := keys, lp_running := lp_running lp - 1\<rparr> in
                if ep_Kind response = ResultCanceled
                then (case ctx_err env lp of
                        (Some cause, lp) \<Rightarrow> stoppedRunResult env load store_apply cause lp
                      | (None, lp) \<Rightarrow> stoppedRunResult env load store_apply BusinessCancel lp)
                else then_start env load store_apply cw
                  (commit env load store_apply
                    (ApplyAttemptResult (lp_snapshot lp) cw (int i) m response finishedAt)
                    (schedule_if_waiting env i) lp)) lp
      | AttemptTimeout i m at \<Rightarrow>
          if lp_running lp \<le> 0 then Go lp
          else unless_stopped env load store_apply (\<lambda>lp.
            case finishActiveAttempt (lp_active lp) (i, m) of
              None \<Rightarrow> Go lp
            | Some keys \<Rightarrow>
                let lp = lp\<lparr>lp_active := keys, lp_running := lp_running lp - 1\<rparr> in
                then_start env load store_apply cw
                  (commit env load store_apply (TimeoutAttempt (lp_snapshot lp) cw (int i) m at)
                    (schedule_if_waiting env i) lp)) lp
      | RetryTimer i m at \<Rightarrow>
          unless_stopped env load store_apply (\<lambda>lp.
            then_start env load store_apply cw
              (commit env load store_apply (MakeRetryReady (lp_snapshot lp) (int i) m at) (\<lambda>lp. lp) lp)) lp)"

section \<open>The run of the loop\<close>

definition hasWaitingRetry :: "TaskRun list \<Rightarrow> bool" where
  "hasWaitingRetry tasks = list_ex (\<lambda>t. tr_Status t = TaskWaitingRetry) tasks"

definition finish_run :: "env \<Rightarrow> 'st loader \<Rightarrow> 'st applier \<Rightarrow> 'st loop \<Rightarrow> 'st flow" where
  "finish_run env load store_apply lp =
     (let s = lp_snapshot lp in
      if isWorkflowTerminal (run_status s) then Return (Inr (rs_Run s)) lp
      else if \<not> hasFailedTask (run_tasks s) \<and> \<not> allTasksSucceeded (run_tasks s)
        then Return (Inl (Errorf ''workflow %q has no runnable tasks'')) lp
      else
        let (finalStatus, reason) = (if hasFailedTask (run_tasks s) then (WorkflowFailed, ''one or more tasks failed'')
                                     else (WorkflowSucceeded, ''all tasks succeeded''));
            (now, lp) = clock_now env lp in
        case transitionWorkflow s finalStatus now reason of
          Inl e \<Rightarrow> Return (Inl e) lp
        | Inr updated \<Rightarrow>
            (case saveSnapshot store_apply s updated (lp_store lp) of
               (Inl e, st) \<Rightarrow> unless_stopped env load store_apply (Return (Inl e)) (lp\<lparr>lp_store := st\<rparr>)
             | (Inr updated, st) \<Rightarrow> Return (Inr (rs_Run updated)) (lp\<lparr>lp_store := st, lp_snapshot := updated\<rparr>)))"

text \<open>The head of the loop decides whether to wait for an event, to finish or to stop. The loop
  runs on the events given; with none left it is still waiting, which is \<open>Go\<close>.\<close>

fun event_loop ::
  "env \<Rightarrow> 'st loader \<Rightarrow> 'st applier \<Rightarrow> CompiledWorkflow \<Rightarrow> event list \<Rightarrow> 'st loop \<Rightarrow> 'st flow" where
  "event_loop env load store_apply cw evs lp =
     (case unless_stopped env load store_apply Go lp of
        Return r lp \<Rightarrow> Return r lp
      | Go lp \<Rightarrow>
          if lp_running lp \<le> 0 \<and> \<not> hasWaitingRetry (run_tasks (lp_snapshot lp))
          then finish_run env load store_apply lp
          else
            (case evs of
               [] \<Rightarrow> Go lp
             | ev # evs \<Rightarrow>
                 (case handle_event env load store_apply cw ev lp of
                    Return r lp \<Rightarrow> Return r lp
                  | Go lp \<Rightarrow> event_loop env load store_apply cw evs lp)))"

declare event_loop.simps [simp del]

definition restore_timers :: "env \<Rightarrow> 'st loop \<Rightarrow> 'st loop" where
  "restore_timers env lp =
     fold (\<lambda>i lp. if tr_Status (run_tasks (lp_snapshot lp) ! i) = TaskWaitingRetry
                  then scheduleRetry env i (run_tasks (lp_snapshot lp) ! i) lp else lp)
       [0 ..< length (run_tasks (lp_snapshot lp))] lp"

definition begin_run :: "env \<Rightarrow> 'st loader \<Rightarrow> 'st applier \<Rightarrow> 'st loop \<Rightarrow> 'st flow" where
  "begin_run env load store_apply lp =
     (if run_status (lp_snapshot lp) \<noteq> WorkflowPending then Go lp
      else
        let (now, lp) = clock_now env lp in
        case transitionWorkflow (lp_snapshot lp) WorkflowRunning now ''execution started'' of
          Inl e \<Rightarrow> Return (Inl e) lp
        | Inr updated \<Rightarrow>
            (case saveSnapshot store_apply (lp_snapshot lp) updated (lp_store lp) of
               (Inl e, st) \<Rightarrow> unless_stopped env load store_apply (Return (Inl e)) (lp\<lparr>lp_store := st\<rparr>)
             | (Inr updated, st) \<Rightarrow> unless_stopped env load store_apply Go (lp\<lparr>lp_store := st, lp_snapshot := updated\<rparr>)))"

definition executeSnapshot ::
  "env \<Rightarrow> 'st loader \<Rightarrow> 'st applier \<Rightarrow> CompiledWorkflow \<Rightarrow> event list \<Rightarrow> 'st loop \<Rightarrow> 'st flow" where
  "executeSnapshot env load store_apply cw evs lp =
     (case begin_run env load store_apply lp of
        Return r lp \<Rightarrow> Return r lp
      | Go lp \<Rightarrow>
          (case start_ready env load store_apply cw (restore_timers env lp) of
             Return r lp \<Rightarrow> Return r lp
           | Go lp \<Rightarrow> event_loop env load store_apply cw evs lp))"

section \<open>The engine\<close>

text \<open>\<^verbatim>\<open>active\<close> and \<^verbatim>\<open>compiled\<close> are the two maps under the engine's mutex.\<close>

record 'st engine =
  eg_active :: "RunID list"
  eg_compiled :: "(RunID \<times> CompiledWorkflow) list"
  eg_store :: 'st

definition new_loop :: "RunSnapshot \<Rightarrow> 'st \<Rightarrow> nat \<Rightarrow> 'st loop" where
  "new_loop s st tick =
     \<lparr>lp_snapshot = s, lp_active = [], lp_running = 0, lp_timers = [], lp_requests = [], lp_store = st, lp_tick = tick\<rparr>"

definition CreateRun ::
  "(RunSnapshot \<Rightarrow> 'st \<Rightarrow> unit res \<times> 'st) \<Rightarrow> RunID res \<Rightarrow> time \<Rightarrow> CompiledWorkflow option \<Rightarrow> 'st engine \<Rightarrow> RunID res \<times> 'st engine" where
  "CreateRun create newRunID now compiled eg =
     (case compiled of
        None \<Rightarrow> (Inl (Errorf ''compiled workflow is required''), eg)
      | Some cw \<Rightarrow>
          (case newRunID of
             Inl e \<Rightarrow> (Inl e, eg)
           | Inr runID \<Rightarrow>
               (case create (newRunSnapshot runID cw now) (eg_store eg) of
                  (Inl e, st) \<Rightarrow> (Inl e, eg\<lparr>eg_store := st\<rparr>)
                | (Inr _, st) \<Rightarrow> (Inr runID, eg\<lparr>eg_store := st, eg_compiled := (runID, cw) # eg_compiled eg\<rparr>))))"

definition validateStoredRunID :: "RunSnapshot \<Rightarrow> RunID \<Rightarrow> unit res" where
  "validateStoredRunID s requestedID =
     (if wr_ID (rs_Run s) \<noteq> requestedID
      then Inl (Errorf ''stored run id %q does not match requested run %q'') else Inr ())"

definition GetRun :: "'st loader \<Rightarrow> RunID \<Rightarrow> 'st engine \<Rightarrow> WorkflowRun res" where
  "GetRun load runID eg =
     bindR (load runID (eg_store eg)) (\<lambda>s. bindR (validateStoredRunID s runID) (\<lambda>_. Inr (rs_Run s)))"

definition compiledForRun :: "RunID \<Rightarrow> RunSnapshot \<Rightarrow> 'st engine \<Rightarrow> CompiledWorkflow res" where
  "compiledForRun runID s eg =
     (case map_of (eg_compiled eg) runID of
        Some cw \<Rightarrow> Inr cw
      | None \<Rightarrow>
          (case rs_Definition s of
             None \<Rightarrow> Inl (Errorf ''run %q has no stored definition'')
           | Some def \<Rightarrow>
               (case Compile def of Inl e \<Rightarrow> Inl (Errorf ''compile stored definition: %w'') | Inr cw \<Rightarrow> Inr cw)))"

definition reconcilePersistedCancellation ::
  "env \<Rightarrow> 'st loader \<Rightarrow> 'st applier \<Rightarrow> RunID \<Rightarrow> werror \<Rightarrow> 'st loop \<Rightarrow> WorkflowRun res \<times> 'st loop" where
  "reconcilePersistedCancellation env load store_apply runID saveErr lp =
     (if saveErr \<noteq> ErrRevisionConflict then (Inl saveErr, lp)
      else
        case load runID (lp_store lp) of
          Inl e \<Rightarrow> (Inl e, lp)
        | Inr s \<Rightarrow>
            if wr_CancelRequestedAt (rs_Run s) = None then (Inl saveErr, lp)
            else finalizeCancellation env load store_apply s lp)"

text \<open>\<^verbatim>\<open>forgetCompiled\<close>, and the end of \<^verbatim>\<open>Execute\<close> and \<^verbatim>\<open>Resume\<close>: the
  deferred \<^verbatim>\<open>release\<close> and, where the run is over, the cache entry dropped on the way.\<close>

definition forgetCompiled :: "RunID \<Rightarrow> 'st engine \<Rightarrow> 'st engine" where
  "forgetCompiled runID eg = eg\<lparr>eg_compiled := filter (\<lambda>p. fst p \<noteq> runID) (eg_compiled eg)\<rparr>"

definition release :: "RunID \<Rightarrow> 'st engine \<Rightarrow> 'st engine" where
  "release runID eg = eg\<lparr>eg_active := removeAll runID (eg_active eg)\<rparr>"

definition leave :: "RunID \<Rightarrow> WorkflowRun res \<Rightarrow> 'st loop \<Rightarrow> 'st engine \<Rightarrow> WorkflowRun res \<times> 'st engine" where
  "leave runID r lp eg =
     (let eg = release runID (eg\<lparr>eg_store := lp_store lp\<rparr>) in
      case r of Inl e \<Rightarrow> (Inl e, eg) | Inr run \<Rightarrow> (Inr run, forgetCompiled runID eg))"

text \<open>The loop may still be waiting when the events are used up; then there is no result yet and
  the run stays active.\<close>

definition run_loop ::
  "env \<Rightarrow> 'st loader \<Rightarrow> 'st applier \<Rightarrow> RunID \<Rightarrow> CompiledWorkflow \<Rightarrow> event list \<Rightarrow> 'st loop \<Rightarrow> 'st engine
   \<Rightarrow> WorkflowRun res option \<times> 'st engine" where
  "run_loop env load store_apply runID cw evs lp eg =
     (case executeSnapshot env load store_apply cw evs lp of
        Go lp \<Rightarrow> (None, eg\<lparr>eg_store := lp_store lp\<rparr>)
      | Return (Inr run) lp \<Rightarrow> (case leave runID (Inr run) lp eg of (r, eg) \<Rightarrow> (Some r, eg))
      | Return (Inl e) lp \<Rightarrow>
          (case reconcilePersistedCancellation env load store_apply runID e lp of
             (r, lp) \<Rightarrow> (case leave runID r lp eg of (r, eg) \<Rightarrow> (Some r, eg))))"

definition Execute ::
  "env \<Rightarrow> 'st loader \<Rightarrow> 'st applier \<Rightarrow> RunID \<Rightarrow> event list \<Rightarrow> 'st engine \<Rightarrow> WorkflowRun res option \<times> 'st engine" where
  "Execute env load store_apply runID evs eg =
     (if runID \<in> set (eg_active eg) then (Some (Inl (Errorf ''run %q is already executing'')), eg)
      else
        let eg = eg\<lparr>eg_active := runID # eg_active eg\<rparr>;
            fail = (\<lambda>e. (Some (Inl e), release runID eg)) in
        case load runID (eg_store eg) of
          Inl e \<Rightarrow> fail e
        | Inr s \<Rightarrow>
            (case validateStoredRunID s runID of
               Inl e \<Rightarrow> fail e
             | Inr _ \<Rightarrow>
                 if isWorkflowTerminal (run_status s) then (Some (Inr (rs_Run s)), release runID eg)
                 else
                   let lp = new_loop s (eg_store eg) 0;
                       stop = (\<lambda>eg flow. case flow of
                           Return r lp \<Rightarrow> (case leave runID r lp eg of (r, eg) \<Rightarrow> (Some r, eg))
                         | Go lp \<Rightarrow> (None, eg)) in
                   if wr_CancelRequestedAt (rs_Run s) \<noteq> None
                   then (case finalizeCancellation env load store_apply s lp of
                           (r, lp) \<Rightarrow> (case leave runID r lp eg of (r, eg) \<Rightarrow> (Some r, eg)))
                   else
                     case ctx_err env lp of
                       (Some cause, lp) \<Rightarrow> stop eg (stoppedRunResult env load store_apply cause lp)
                     | (None, lp) \<Rightarrow>
                         (case compiledForRun runID s eg of
                            Inl e \<Rightarrow> fail e
                          | Inr cw \<Rightarrow>
                              let eg = eg\<lparr>eg_compiled := (runID, cw) # filter (\<lambda>p. fst p \<noteq> runID) (eg_compiled eg)\<rparr> in
                              (case ctx_err env lp of
                                 (Some cause, lp) \<Rightarrow> stop eg (stoppedRunResult env load store_apply cause lp)
                               | (None, lp) \<Rightarrow> run_loop env load store_apply runID cw evs lp eg))))"

definition Resume ::
  "env \<Rightarrow> 'st loader \<Rightarrow> 'st applier \<Rightarrow> RunID \<Rightarrow> event list \<Rightarrow> 'st engine \<Rightarrow> WorkflowRun res option \<times> 'st engine" where
  "Resume env load store_apply runID evs eg =
     (if runID \<in> set (eg_active eg) then (Some (Inl (Errorf ''run %q is already executing'')), eg)
      else
        let eg = eg\<lparr>eg_active := runID # eg_active eg\<rparr>;
            fail = (\<lambda>e. (Some (Inl e), release runID eg));
            done = (\<lambda>(r, lp). case leave runID r lp eg of (r, eg) \<Rightarrow> (Some r, eg));
            stop = (\<lambda>flow. case flow of
                Return r lp \<Rightarrow> (case leave runID r lp eg of (r, eg) \<Rightarrow> (Some r, eg))
              | Go lp \<Rightarrow> (None, eg)) in
        case load runID (eg_store eg) of
          Inl e \<Rightarrow> fail e
        | Inr s \<Rightarrow>
            if rs_Version s \<noteq> currentSnapshotVersion then fail (Errorf ''unsupported snapshot version %d'')
            else
              (case validateStoredRunID s runID of
                 Inl e \<Rightarrow> fail e
               | Inr _ \<Rightarrow>
                   if isWorkflowTerminal (run_status s) then (Some (Inr (rs_Run s)), release runID eg)
                   else if run_status s \<noteq> WorkflowPending \<and> run_status s \<noteq> WorkflowRunning
                     then fail (Errorf ''run %q has unsupported workflow status %q'')
                   else
                     let lp = new_loop s (eg_store eg) 0 in
                     if wr_CancelRequestedAt (rs_Run s) \<noteq> None then done (finalizeCancellation env load store_apply s lp)
                     else
                       case ctx_err env lp of
                         (Some cause, lp) \<Rightarrow> stop (stoppedRunResult env load store_apply cause lp)
                       | (None, lp) \<Rightarrow>
                           (case rs_Definition s of
                              None \<Rightarrow> fail (Errorf ''run %q has no stored definition'')
                            | Some def \<Rightarrow>
                                (case Compile def of
                                   Inl e \<Rightarrow> fail (Errorf ''compile stored definition: %w'')
                                 | Inr cw \<Rightarrow>
                                     if wr_DefinitionID (rs_Run s) \<noteq> wd_ID (cw_definition cw)
                                       then fail (Errorf ''run %q definition id %q does not match stored definition %q'')
                                     else
                                       let (now, lp) = clock_now env lp in
                                       case prepareForResume s cw now of
                                         Inl e \<Rightarrow> fail e
                                       | Inr updated \<Rightarrow>
                                           (case saveSnapshot store_apply s updated (lp_store lp) of
                                              (Inl e, st) \<Rightarrow>
                                                (case ctx_err env (lp\<lparr>lp_store := st\<rparr>) of
                                                   (Some cause, lp) \<Rightarrow> stop (stoppedRunResult env load store_apply cause lp)
                                                 | (None, lp) \<Rightarrow> done (reconcilePersistedCancellation env load store_apply runID e lp))
                                            | (Inr updated, st) \<Rightarrow>
                                                (case ctx_err env (lp\<lparr>lp_store := st, lp_snapshot := updated\<rparr>) of
                                                   (Some cause, lp) \<Rightarrow> stop (stoppedRunResult env load store_apply cause lp)
                                                 | (None, lp) \<Rightarrow>
                                                     run_loop env load store_apply runID cw evs lp
                                                       (eg\<lparr>eg_compiled := (runID, cw) # filter (\<lambda>p. fst p \<noteq> runID) (eg_compiled eg)\<rparr>)))))))"

text \<open>\<^verbatim>\<open>Cancel\<close>: an active run is only told to stop, which its context shows
  (\<open>True\<close>); otherwise the cancelled snapshot is saved here.\<close>

definition Cancel ::
  "'st loader \<Rightarrow> 'st applier \<Rightarrow> RunID \<Rightarrow> time \<Rightarrow> 'st engine \<Rightarrow> bool res \<times> 'st engine" where
  "Cancel load store_apply runID now eg =
     (if runID \<in> set (eg_active eg) then (Inr True, eg)
      else
        case load runID (eg_store eg) of
          Inl e \<Rightarrow> (Inl e, eg)
        | Inr s \<Rightarrow>
            if isWorkflowTerminal (run_status s) then (Inr False, eg)
            else
              (case CancelRunSnapshot s now of
                 Inl e \<Rightarrow> (Inl e, eg)
               | Inr updated \<Rightarrow>
                   (case saveSnapshot store_apply s updated (eg_store eg) of
                      (Inl e, st) \<Rightarrow> (Inl e, eg\<lparr>eg_store := st\<rparr>)
                    | (Inr _, st) \<Rightarrow> (Inr False, forgetCompiled runID (eg\<lparr>eg_store := st\<rparr>)))))"

end
