(* ===== verification/Engine_Correct.thy ===== *)
theory Engine_Correct
  imports Engine
begin

text \<open>
  Correctness of the in-process engine on any store that meets the interface
  \<open>run_store\<close>: every state it reaches is stored before it acts on it, an attempt is handed
  to the executor once and only after it was stored as running, no more attempts run than
  the definition allows, and the loop neither fails by itself nor gives up a run that is not
  finished.
\<close>

section \<open>Attempts that run\<close>

definition running_keys :: "CompiledWorkflow \<Rightarrow> TaskRun list \<Rightarrow> attemptKey set" where
  "running_keys cw ts = {(k, int (length (tr_Attempts (ts ! k)))) |k. k < task_count cw \<and> tr_Status (ts ! k) = TaskRunning}"

definition none_queued :: "CompiledWorkflow \<Rightarrow> TaskRun list \<Rightarrow> bool" where
  "none_queued cw ts \<longleftrightarrow> (\<forall>k < task_count cw. tr_Status (ts ! k) \<noteq> TaskQueued)"

definition grown :: "CompiledWorkflow \<Rightarrow> TaskRun list \<Rightarrow> TaskRun list \<Rightarrow> bool" where
  "grown cw ts us \<longleftrightarrow> (\<forall>k < task_count cw. length (tr_Attempts (ts ! k)) \<le> length (tr_Attempts (us ! k)))"

lemma only_stopsD:
  assumes o: "only_stops cw i ts us"
  shows "running_keys cw us = running_keys cw ts - {(i, int (length (tr_Attempts (ts ! i))))}"
    and "none_queued cw ts \<Longrightarrow> none_queued cw us" and "grown cw ts us"
proof -
  have other: "us ! k = ts ! k \<or> tr_Status (ts ! k) = TaskWaitingDependencies \<and> tr_Attempts (us ! k) = tr_Attempts (ts ! k) \<and>
      (tr_Status (us ! k) = TaskReady \<or> tr_Status (us ! k) = TaskSkipped)" if "k < task_count cw" "k \<noteq> i" for k
    using o that unfolding only_stops_def by blast
  have i: "tr_Status (us ! i) \<noteq> TaskRunning" "tr_Status (us ! i) \<noteq> TaskQueued"
    "length (tr_Attempts (us ! i)) = length (tr_Attempts (ts ! i))"
    using o by (simp_all add: only_stops_def)
  have run: "tr_Status (us ! k) = TaskRunning \<longleftrightarrow> k \<noteq> i \<and> tr_Status (ts ! k) = TaskRunning" if "k < task_count cw" for k
    using i other [OF that] by (cases "k = i") auto
  have len: "length (tr_Attempts (us ! k)) = length (tr_Attempts (ts ! k))" if "k < task_count cw" for k
    using i(3) other [OF that] by (cases "k = i") auto
  show "running_keys cw us = running_keys cw ts - {(i, int (length (tr_Attempts (ts ! i))))}"
    using run len by (auto simp: running_keys_def)
  show "none_queued cw ts \<Longrightarrow> none_queued cw us"
    unfolding none_queued_def using i(2) other by (metis TaskStatus.distinct)
  show "grown cw ts us" using len by (simp add: grown_def)
qed

lemma cancel_grown: "length ts = task_count cw \<Longrightarrow> grown cw ts (map (canceled at) ts)"
  by (auto simp: grown_def canceled_def finished_def)

lemma history_last_number:
  assumes "history_ok limit t" and "tr_Attempts t \<noteq> []"
  shows "at_Number (last (tr_Attempts t)) = int (length (tr_Attempts t))"
proof -
  have nums: "map at_Number (tr_Attempts t) = map int [1 ..< Suc (length (tr_Attempts t))]"
    using assms(1) by (simp add: history_ok_def Let_def)
  have "at_Number (last (tr_Attempts t)) = last (map at_Number (tr_Attempts t))" using assms(2) by (simp add: last_map)
  also have "\<dots> = int (length (tr_Attempts t))" unfolding nums using assms(2) by (cases "length (tr_Attempts t)") simp_all
  finally show ?thesis .
qed

lemma run_inv_key:
  assumes "run_inv cw s" and "i < task_count cw"
  shows "tr_Key (run_tasks s ! i) = td_Key (wd_Tasks (cw_definition cw) ! i)"
proof -
  have "map tr_Key (run_tasks s) ! i = map td_Key (wd_Tasks (cw_definition cw)) ! i"
    using assms(1) by (simp add: run_inv_def shape_ok_def)
  then show ?thesis using assms(2) run_inv_task(4) [OF assms] by simp
qed

text \<open>A ready task of a run that is under way is started.\<close>

lemma ready_running:
  assumes inv: "run_inv cw s" and i: "i < task_count cw" and r: "status_of s i = TaskReady" and p: "run_status s \<noteq> WorkflowPending"
  shows "run_status s = WorkflowRunning"
  using start_workflow [OF inv i r] p by auto

lemma prepareTask_returns:
  assumes wf: "wf_compiled cw" and inv: "run_inv cw s" and i: "i < task_count cw" and r: "status_of s i = TaskReady"
    and p: "run_status s \<noteq> WorkflowPending"
  shows "\<exists>s' req. prepareTask s cw i now at0 = Inr (s', req, int (length (tr_Attempts (run_tasks s ! i))) + 1) \<and>
    evolves s s' \<and> run_inv cw s' \<and> run_status s' = WorkflowRunning \<and>
    run_tasks s' = (run_tasks s)[i := started now at0 '''' '''' (run_tasks s ! i)] \<and>
    eq_RunID req = wr_ID (rs_Run s) \<and> eq_TaskKey req = td_Key (wd_Tasks (cw_definition cw) ! i) \<and>
    eq_Attempt req = int (length (tr_Attempts (run_tasks s ! i))) + 1"
proof -
  note h = run_inv_task(1) [OF inv i] and len = run_inv_task(2,4) [OF inv i] and key = run_inv_key [OF inv i]
  obtain s1 where s1: "transitionTask s i TaskRunning now ''execution started'' = Inr s1" "quiet s s1"
    "run_tasks s1 = (run_tasks s)[i := entered TaskRunning now (run_tasks s ! i)]"
    using task_step [of i s TaskRunning now "''execution started''"] len r by auto
  define a where "a = \<lparr>at_Number = int (length (tr_Attempts (run_tasks s1 ! i))) + 1, at_Status = AttemptRunning, at_WorkerID = '''',
       at_DispatchID = '''', at_StartedAt = at0, at_FinishedAt = None, at_Result = zero_result\<rparr>"
  define s' where "s' = push_attempt i a s1"
  have q: "quiet s s'" unfolding s'_def push_attempt_def by (rule quiet_trans [OF s1(2) quiet_upd_task]) simp
  have ts: "run_tasks s' = (run_tasks s)[i := started now at0 '''' '''' (run_tasks s ! i)]"
    using s1(3) len by (simp add: s'_def push_attempt_def a_def started_def)
  have run: "run_status s = WorkflowRunning" using ready_running [OF inv i r p] .
  then have "run_inv cw s'" using r started_history [OF h]
    by (intro run_inv_move [OF wf inv i _ q ts]) (auto simp: active_def started_def)
  moreover obtain input where "cloneTaskInput (td_Input (wd_Tasks (cw_definition cw) ! i)) = Inr input"
    using wf_attributes(4) [OF wf i] ..
  moreover have "wr_ID (rs_Run s') = wr_ID (rs_Run s)" using quietD(1) [OF q] by (simp add: evolves_def same_frame_def)
  moreover have "run_status s' = run_status s" using q by (simp add: quiet_def)
  ultimately show ?thesis using s1(1) i len key quietD(1) [OF q] ts s1(3) run
    by (auto simp: prepareTask_def Let_def execution_request_def s'_def a_def)
qed

section \<open>What the loop maintains\<close>

text \<open>The requests handed to the executor: each attempt at most once, each recorded as
  started, with the timeout of its task.\<close>

definition request_key :: "ExecutionRequest \<times> duration \<Rightarrow> TaskKey \<times> int" where
  "request_key p = (eq_TaskKey (fst p), eq_Attempt (fst p))"

definition request_ok :: "RunID \<Rightarrow> CompiledWorkflow \<Rightarrow> TaskRun list \<Rightarrow> ExecutionRequest \<times> duration \<Rightarrow> bool" where
  "request_ok runID cw ts p \<longleftrightarrow>
     eq_RunID (fst p) = runID \<and>
     (\<exists>k < task_count cw. eq_TaskKey (fst p) = td_Key (wd_Tasks (cw_definition cw) ! k) \<and>
        1 \<le> eq_Attempt (fst p) \<and> eq_Attempt (fst p) \<le> int (length (tr_Attempts (ts ! k))) \<and>
        snd p = millis (td_TimeoutMillis (wd_Tasks (cw_definition cw) ! k)))"

definition requests_ok :: "RunID \<Rightarrow> CompiledWorkflow \<Rightarrow> TaskRun list \<Rightarrow> (ExecutionRequest \<times> duration) list \<Rightarrow> bool" where
  "requests_ok runID cw ts reqs \<longleftrightarrow> distinct (map request_key reqs) \<and> (\<forall>p \<in> set reqs. request_ok runID cw ts p)"

definition timers_ok :: "CompiledWorkflow \<Rightarrow> TaskRun list \<Rightarrow> (attemptKey \<times> duration) list \<Rightarrow> bool" where
  "timers_ok cw ts timers \<longleftrightarrow>
     (\<forall>k < task_count cw. tr_Status (ts ! k) = TaskWaitingRetry \<longrightarrow>
        (k, int (length (tr_Attempts (ts ! k)))) \<in> fst ` set timers)"

text \<open>The snapshot in memory is the stored one and satisfies the invariant.\<close>

definition saved :: "'st loader \<Rightarrow> RunID \<Rightarrow> CompiledWorkflow \<Rightarrow> 'st loop \<Rightarrow> bool" where
  "saved load runID cw lp \<longleftrightarrow>
     run_inv cw (lp_snapshot lp) \<and> wr_ID (rs_Run (lp_snapshot lp)) = runID \<and>
     load runID (lp_store lp) = Inr (lp_snapshot lp) \<and>
     requests_ok runID cw (run_tasks (lp_snapshot lp)) (lp_requests lp)"

definition loop_inv :: "'st loader \<Rightarrow> RunID \<Rightarrow> CompiledWorkflow \<Rightarrow> 'st loop \<Rightarrow> bool" where
  "loop_inv load runID cw lp \<longleftrightarrow>
     saved load runID cw lp \<and> run_status (lp_snapshot lp) \<noteq> WorkflowPending \<and>
     none_queued cw (run_tasks (lp_snapshot lp)) \<and> timers_ok cw (run_tasks (lp_snapshot lp)) (lp_timers lp) \<and>
     distinct (lp_active lp) \<and> set (lp_active lp) = running_keys cw (run_tasks (lp_snapshot lp)) \<and>
     lp_running lp = int (length (lp_active lp)) \<and> lp_running lp \<le> wd_Concurrency (cw_definition cw)"

definition full :: "CompiledWorkflow \<Rightarrow> 'st loop \<Rightarrow> bool" where
  "full cw lp \<longleftrightarrow> lp_running lp = wd_Concurrency (cw_definition cw) \<or>
     (\<forall>k < task_count cw. status_of (lp_snapshot lp) k \<noteq> TaskReady)"

definition stopped :: "env \<Rightarrow> 'st loop \<Rightarrow> bool" where
  "stopped env lp \<longleftrightarrow> (\<exists>t cause. en_stop env = Some (t, cause) \<and> t \<le> lp_tick lp)"

text \<open>How the function may return: with the finished run that is stored, or with the cause
  for which the process is being stopped; what is stored satisfies the invariant.\<close>

definition ends_well :: "'st loader \<Rightarrow> env \<Rightarrow> RunID \<Rightarrow> CompiledWorkflow \<Rightarrow> WorkflowRun res \<Rightarrow> 'st loop \<Rightarrow> bool" where
  "ends_well load env runID cw r lp \<longleftrightarrow>
     (\<exists>u. load runID (lp_store lp) = Inr u \<and> run_inv cw u \<and> requests_ok runID cw (run_tasks u) (lp_requests lp) \<and>
        (case r of
           Inr run \<Rightarrow> run = rs_Run u \<and> isWorkflowTerminal (wr_Status run)
         | Inl e \<Rightarrow> \<exists>t. en_stop env = Some (t, OtherCause e)))"

definition flow_ok ::
  "'st loader \<Rightarrow> env \<Rightarrow> RunID \<Rightarrow> CompiledWorkflow \<Rightarrow> ('st loop \<Rightarrow> bool) \<Rightarrow> 'st flow \<Rightarrow> bool" where
  "flow_ok load env runID cw P flow \<longleftrightarrow>
     (case flow of Go lp \<Rightarrow> P lp | Return r lp \<Rightarrow> ends_well load env runID cw r lp)"

lemma requests_ok_grown: "requests_ok runID cw ts reqs \<Longrightarrow> grown cw ts us \<Longrightarrow> requests_ok runID cw us reqs"
  unfolding requests_ok_def request_ok_def grown_def by (meson order_trans of_nat_le_iff)

lemma saved_tick [simp]: "saved load runID cw (lp\<lparr>lp_tick := n\<rparr>) = saved load runID cw lp"
  by (simp add: saved_def)

lemma loop_inv_tick [simp]: "loop_inv load runID cw (lp\<lparr>lp_tick := n\<rparr>) = loop_inv load runID cw lp"
  by (simp add: loop_inv_def)

section \<open>Saving and stopping\<close>

lemma saveSnapshot_diff:
  assumes "run_inv cw a" and "evolves s a"
  shows "saveSnapshot store_apply s a st =
    (case changeSetFromSnapshots s (next_revision a) of
       Inl e \<Rightarrow> (Inl e, st)
     | Inr change \<Rightarrow> (case store_apply change st of (Inl e, st) \<Rightarrow> (Inl e, st) | (Inr _, st) \<Rightarrow> (Inr (next_revision a), st)))"
proof -
  have rev: "wr_Revision (rs_Run a) = wr_Revision (rs_Run s)" using assms(2) by (simp add: evolves_def same_frame_def)
  have "run_inv cw (next_revision a)" using assms(1) by simp
  then have "log_ok (next_revision a)" unfolding run_inv_def shape_ok_def by blast
  then have "snapshotLastEventSequence (next_revision a) = wr_LastEventSequence (rs_Run (next_revision a))"
    using log_ok_last by (simp add: log_ok_def)
  then have seq: "upd_run (\<lambda>r. r\<lparr>wr_LastEventSequence := snapshotLastEventSequence (next_revision a)\<rparr>) (next_revision a) = next_revision a"
    by (simp add: upd_run_def)
  have rev1: "upd_run (\<lambda>r. r\<lparr>wr_Revision := wr_Revision (rs_Run s) + 1\<rparr>) a = next_revision a"
    by (simp add: next_revision_def upd_run_def rev)
  show ?thesis unfolding saveSnapshot_def Let_def rev1 seq ..
qed

context run_store
begin

text \<open>A candidate that a run can reach from the stored snapshot is saved, and then is the
  stored snapshot.\<close>

lemma save_ok:
  assumes inv: "run_inv cw s" "run_inv cw a" and e: "evolves s a" and g: "grown cw (run_tasks s) (run_tasks a)"
    and l: "load (wr_ID (rs_Run s)) st = Inr s"
  shows "\<exists>st'. saveSnapshot apply_change s a st = (Inr (next_revision a), st') \<and>
    load (wr_ID (rs_Run s)) st' = Inr (next_revision a) \<and> (\<forall>i. i \<noteq> wr_ID (rs_Run s) \<longrightarrow> load i st' = load i st)"
proof -
  have "diffable s (next_revision a)" using evolved_diffable [OF inv e] g by (simp add: grown_def)
  then obtain c where c: "changeSetFromSnapshots s (next_revision a) = Inr c" "applyChangeSet s c = Inr (next_revision a)"
    using change_set_round_trip by blast
  have i: "cs_RunID c = wr_ID (rs_Run s)" using applyChangeSet_revision(5) [OF c(2)] .
  obtain st' where "apply_change c st = (Inr (), st')" "load (cs_RunID c) st' = Inr (next_revision a)"
    "\<forall>i. i \<noteq> cs_RunID c \<longrightarrow> load i st' = load i st"
    using apply_valid [of c st s] l c(2) i by auto
  then show ?thesis using saveSnapshot_diff [OF inv(2) e, of apply_change st] c(1) i by auto
qed

lemma finalize_ok:
  assumes wf: "wf_compiled cw" and inv: "run_inv cw s" and l: "load (wr_ID (rs_Run s)) st = Inr s"
  shows "\<exists>u st'. finalize_rounds load apply_change at (Suc n) s st = (Inr (rs_Run u), st') \<and>
    load (wr_ID (rs_Run s)) st' = Inr u \<and> run_inv cw u \<and> isWorkflowTerminal (run_status u) \<and>
    grown cw (run_tasks s) (run_tasks u) \<and> (\<forall>i. i \<noteq> wr_ID (rs_Run s) \<longrightarrow> load i st' = load i st)"
proof (cases "isWorkflowTerminal (run_status s)")
  case True
  with inv l show ?thesis by (auto simp: grown_def)
next
  case False
  obtain a where a: "CancelRunSnapshot s at = Inr a" "evolves s a" "run_inv cw a" "run_status a = WorkflowCanceled"
    "run_tasks a = map (canceled at) (run_tasks s)"
    using CancelRunSnapshot_returns [OF wf inv False] by blast
  have g: "grown cw (run_tasks s) (run_tasks a)" using cancel_grown inv shape_length a(5) by (auto simp: run_inv_def)
  show ?thesis using save_ok [OF inv a(3,2) g l] a g False by auto
qed

lemma stopped_ok:
  assumes wf: "wf_compiled cw" and s: "saved load runID cw lp"
    and c: "cause = BusinessCancel \<or> (\<exists>t. en_stop env = Some (t, cause))"
  shows "flow_ok load env runID cw P (stoppedRunResult env load apply_change cause lp)"
proof (cases cause)
  case BusinessCancel
  have "run_inv cw (lp_snapshot lp)" "load (wr_ID (rs_Run (lp_snapshot lp))) (lp_store lp) = Inr (lp_snapshot lp)"
    using s by (simp_all add: saved_def)
  from finalize_ok [OF wf this, of _ 1] obtain u st' where
    "finalize_rounds load apply_change (en_clock env (lp_tick lp)) (Suc 1) (lp_snapshot lp) (lp_store lp) = (Inr (rs_Run u), st')"
    "load runID st' = Inr u" "run_inv cw u" "isWorkflowTerminal (run_status u)" "grown cw (run_tasks (lp_snapshot lp)) (run_tasks u)"
    using s unfolding saved_def by metis
  moreover from this(5) have "requests_ok runID cw (run_tasks u) (lp_requests lp)"
    using s requests_ok_grown unfolding saved_def by blast
  ultimately show ?thesis using BusinessCancel
    by (simp add: stoppedRunResult_def finalizeCancellation_def clock_now_def flow_ok_def ends_well_def Let_def
        numeral_2_eq_2 del: finalize_rounds.simps)
next
  case (OtherCause e)
  with s c show ?thesis by (auto simp: stoppedRunResult_def flow_ok_def ends_well_def saved_def)
qed

lemma unless_stopped_ok:
  assumes wf: "wf_compiled cw" and s: "saved load runID cw lp"
    and k: "\<not> stopped env lp \<Longrightarrow> flow_ok load env runID cw P (k (lp\<lparr>lp_tick := Suc (lp_tick lp)\<rparr>))"
  shows "flow_ok load env runID cw P (unless_stopped env load apply_change k lp)"
  using stopped_ok [OF wf, of runID "lp\<lparr>lp_tick := Suc (lp_tick lp)\<rparr>"] s k
  by (auto simp: unless_stopped_def ctx_err_def stopped_def split: option.splits)

end

section \<open>Starting attempts\<close>

text \<open>The effect of starting task \<open>i\<close> on what the loop maintains.\<close>

lemma started_keys:
  fixes now begun :: time and w d :: string
  assumes i: "i < task_count cw" "length ts = task_count cw" and r: "tr_Status (ts ! i) = TaskReady"
  defines "us \<equiv> ts[i := started now begun w d (ts ! i)]" and "m \<equiv> int (length (tr_Attempts (ts ! i))) + 1"
  shows "running_keys cw us = insert (i, m) (running_keys cw ts)" and "(i, m) \<notin> running_keys cw ts"
    and "none_queued cw ts \<Longrightarrow> none_queued cw us" and "timers_ok cw ts timers \<Longrightarrow> timers_ok cw us timers"
    and "grown cw ts us"
proof -
  have eq: "us ! k = (if k = i then started now begun w d (ts ! i) else ts ! k)" if "k < task_count cw" for k
    using that i by (simp add: us_def nth_update_if)
  show "running_keys cw us = insert (i, m) (running_keys cw ts)"
    using i r eq by (auto simp: running_keys_def m_def started_def)
  show "(i, m) \<notin> running_keys cw ts" using r by (simp add: running_keys_def)
  show "none_queued cw ts \<Longrightarrow> none_queued cw us" and "timers_ok cw ts timers \<Longrightarrow> timers_ok cw us timers" and "grown cw ts us"
    using eq by (simp_all add: none_queued_def timers_ok_def grown_def started_def)
qed

lemma started_requests:
  assumes wf: "wf_compiled cw" and i: "i < task_count cw" "length ts = task_count cw"
    and ok: "requests_ok runID cw ts reqs" and req: "eq_RunID req = runID" "eq_TaskKey req = td_Key (wd_Tasks (cw_definition cw) ! i)"
      "eq_Attempt req = int (length (tr_Attempts (ts ! i))) + 1"
  shows "requests_ok runID cw (ts[i := started now at0 w d (ts ! i)])
    (reqs @ [(req, millis (td_TimeoutMillis (wd_Tasks (cw_definition cw) ! i)))])" (is "requests_ok _ _ ?us (_ @ [?p])")
proof -
  have keys: "unique_keys (wd_Tasks (cw_definition cw))" using wf by (simp add: wf_compiled_def Let_def)
  have "request_key ?p \<noteq> request_key q" if q: "q \<in> set reqs" for q
  proof
    assume eq: "request_key ?p = request_key q"
    obtain k where k: "k < task_count cw" "eq_TaskKey (fst q) = td_Key (wd_Tasks (cw_definition cw) ! k)"
      "eq_Attempt (fst q) \<le> int (length (tr_Attempts (ts ! k)))"
      using ok q unfolding requests_ok_def request_ok_def by blast
    then have "k = i" using unique_keysD [OF keys k(1) i(1)] eq req(2) by (simp add: request_key_def)
    with k(3) eq req(3) show False by (simp add: request_key_def)
  qed
  moreover have "grown cw ts ?us" by (auto simp: grown_def nth_update_if started_def)
  moreover have "request_ok runID cw ?us ?p"
    using i req by (auto simp: request_ok_def started_def intro!: exI [of _ i])
  ultimately show ?thesis using requests_ok_grown [OF ok] by (auto simp: requests_ok_def)
qed

context run_store
begin

lemma start_one:
  assumes wf: "wf_compiled cw" and L: "loop_inv load runID cw lp" and i: "i < task_count cw"
    and r: "status_of (lp_snapshot lp) i = TaskReady" and room: "lp_running lp \<noteq> wd_Concurrency (cw_definition cw)"
  shows "\<exists>updated req m st'. prepareTask (lp_snapshot lp) cw i now at0 = Inr (updated, req, m) \<and>
    saveSnapshot apply_change (lp_snapshot lp) updated (lp_store lp) = (Inr (next_revision updated), st') \<and>
    run_tasks updated = (run_tasks (lp_snapshot lp))[i := started now at0 '''' '''' (run_tasks (lp_snapshot lp) ! i)] \<and>
    saved load runID cw (lp\<lparr>lp_store := st', lp_snapshot := next_revision updated\<rparr>) \<and>
    loop_inv load runID cw (lp\<lparr>lp_store := st', lp_snapshot := next_revision updated,
      lp_active := (i, m) # lp_active lp, lp_running := lp_running lp + 1,
      lp_requests := lp_requests lp @ [(req, millis (td_TimeoutMillis (wd_Tasks (cw_definition cw) ! i)))]\<rparr>)"
proof -
  let ?s = "lp_snapshot lp" and ?m = "int (length (tr_Attempts (run_tasks (lp_snapshot lp) ! i))) + 1"
  have S: "run_inv cw ?s" "wr_ID (rs_Run ?s) = runID" "load runID (lp_store lp) = Inr ?s"
    "requests_ok runID cw (run_tasks ?s) (lp_requests lp)" and np: "run_status ?s \<noteq> WorkflowPending"
    using L by (simp_all add: loop_inv_def saved_def)
  obtain a req where a: "prepareTask ?s cw i now at0 = Inr (a, req, ?m)" "evolves ?s a" "run_inv cw a" "run_status a = WorkflowRunning"
    "run_tasks a = (run_tasks ?s)[i := started now at0 '''' '''' (run_tasks ?s ! i)]"
    and req: "eq_RunID req = wr_ID (rs_Run ?s)" "eq_TaskKey req = td_Key (wd_Tasks (cw_definition cw) ! i)" "eq_Attempt req = ?m"
    using prepareTask_returns [OF wf S(1) i r np] by blast
  note len = run_inv_task(2) [OF S(1) i]
  note K = started_keys(1,3,4,5) [OF i len r, where now = now and begun = at0 and w = "''''" and d = "''''"] started_keys(2) [OF i len r]
  obtain st' where st': "saveSnapshot apply_change ?s a (lp_store lp) = (Inr (next_revision a), st')" "load runID st' = Inr (next_revision a)"
    using save_ok [OF S(1) a(3,2)] K(4) a(5) S(2,3) by auto
  have aid: "wr_ID (rs_Run a) = runID" using a(2) S(2) by (simp add: evolves_def same_frame_def)
  have reqs: "requests_ok runID cw (run_tasks a) (lp_requests lp @ [(req, millis (td_TimeoutMillis (wd_Tasks (cw_definition cw) ! i)))])"
    using started_requests [OF wf i len S(4)] req S(2) a(5) by simp
  have save: "saved load runID cw (lp\<lparr>lp_store := st', lp_snapshot := next_revision a\<rparr>)"
    using a(3) aid st' requests_ok_grown [OF S(4)] K(4) a(5) by (simp add: saved_def)
  moreover have "loop_inv load runID cw (lp\<lparr>lp_store := st', lp_snapshot := next_revision a,
      lp_active := (i, ?m) # lp_active lp, lp_running := lp_running lp + 1,
      lp_requests := lp_requests lp @ [(req, millis (td_TimeoutMillis (wd_Tasks (cw_definition cw) ! i)))]\<rparr>)"
    using L a st' reqs aid K room by (auto simp: loop_inv_def saved_def)
  ultimately show ?thesis using a(1,5) st'(1) by blast
qed

lemma start_loop_ok:
  assumes wf: "wf_compiled cw" and "loop_inv load runID cw lp" and "distinct is" and "set is \<subseteq> {..<task_count cw}"
    and "\<forall>i \<in> set is. status_of (lp_snapshot lp) i = tr_Status (tasks ! i)"
    and "\<forall>k < task_count cw. k \<notin> set is \<longrightarrow> status_of (lp_snapshot lp) k \<noteq> TaskReady"
  shows "case start_loop env apply_change cw tasks is lp of
    (None, lp') \<Rightarrow> loop_inv load runID cw lp' \<and> full cw lp'
  | (Some e, lp') \<Rightarrow> saved load runID cw lp' \<and> stopped env lp'"
  using assms(2-)
proof (induction "is" arbitrary: lp)
  case Nil
  then show ?case by (simp add: full_def)
next
  case (Cons i "is")
  show ?case
  proof (cases "lp_running lp = wd_Concurrency (cw_definition cw) \<or> tr_Status (tasks ! i) \<noteq> TaskReady")
    case True
    have "\<forall>k < task_count cw. k \<notin> set is \<longrightarrow> status_of (lp_snapshot lp) k \<noteq> TaskReady"
      if "tr_Status (tasks ! i) \<noteq> TaskReady" using that Cons.prems(4,5) by auto
    with True Cons.IH [of lp] Cons.prems show ?thesis by (auto simp: full_def)
  next
    case False
    have i: "i < task_count cw" and r: "status_of (lp_snapshot lp) i = TaskReady" using False Cons.prems by auto
    define lp0 where "lp0 = lp\<lparr>lp_tick := Suc (Suc (lp_tick lp))\<rparr>"
    have L: "loop_inv load runID cw lp0" "status_of (lp_snapshot lp0) i = TaskReady" "lp_running lp0 \<noteq> wd_Concurrency (cw_definition cw)"
      using Cons.prems False r by (simp_all add: lp0_def)
    obtain a req m st' where a: "prepareTask (lp_snapshot lp) cw i (en_clock env (lp_tick lp)) (en_clock env (Suc (lp_tick lp))) = Inr (a, req, m)"
      "saveSnapshot apply_change (lp_snapshot lp) a (lp_store lp) = (Inr (next_revision a), st')"
      and ts: "run_tasks a = (run_tasks (lp_snapshot lp))[i := started (en_clock env (lp_tick lp)) (en_clock env (Suc (lp_tick lp))) '''' '''' (run_tasks (lp_snapshot lp) ! i)]"
      and s1: "saved load runID cw (lp0\<lparr>lp_store := st', lp_snapshot := next_revision a\<rparr>)"
      and l1: "loop_inv load runID cw (lp0\<lparr>lp_store := st', lp_snapshot := next_revision a,
        lp_active := (i, m) # lp_active lp, lp_running := lp_running lp + 1,
        lp_requests := lp_requests lp @ [(req, millis (td_TimeoutMillis (wd_Tasks (cw_definition cw) ! i)))]\<rparr>)"
      using start_one [OF wf L(1) i L(2,3), of "en_clock env (lp_tick lp)" "en_clock env (Suc (lp_tick lp))"] by (auto simp: lp0_def)
    show ?thesis
    proof (cases "fst (ctx_err env lp0)")
      case None
      define lp1 where "lp1 = lp0\<lparr>lp_store := st', lp_snapshot := next_revision a, lp_tick := Suc (lp_tick lp0),
        lp_active := (i, m) # lp_active lp, lp_running := lp_running lp + 1,
        lp_requests := lp_requests lp @ [(req, millis (td_TimeoutMillis (wd_Tasks (cw_definition cw) ! i)))]\<rparr>"
      have "start_loop env apply_change cw tasks (i # is) lp = start_loop env apply_change cw tasks is lp1"
        using False a None by (auto simp: clock_now_def ctx_err_def lp0_def lp1_def Let_def split: option.splits)
      moreover have "loop_inv load runID cw lp1" using l1 by (simp add: lp1_def loop_inv_def saved_def)
      moreover have "status_of (lp_snapshot lp1) k = (if k = i then TaskRunning else status_of (lp_snapshot lp) k)" if "k < task_count cw" for k
        using that i ts run_inv_task(2) [of cw "lp_snapshot lp" i] Cons.prems(1)
        by (auto simp: lp1_def nth_update_if started_def loop_inv_def saved_def)
      ultimately show ?thesis using Cons.IH [of lp1] Cons.prems(2-) i by (auto simp: subset_iff)
    next
      case (Some cause)
      then have "start_loop env apply_change cw tasks (i # is) lp =
          (Some (cause_error cause), lp0\<lparr>lp_store := st', lp_snapshot := next_revision a, lp_tick := Suc (lp_tick lp0)\<rparr>)"
        and "stopped env (lp0\<lparr>lp_store := st', lp_snapshot := next_revision a, lp_tick := Suc (lp_tick lp0)\<rparr>)"
        using False a by (auto simp: clock_now_def ctx_err_def lp0_def Let_def stopped_def split: option.splits if_splits)
      with s1 show ?thesis by simp
    qed
  qed
qed

end

section \<open>Events\<close>

lemma scheduleRetry_waiting:
  assumes "history_ok limit t" and "tr_Status t = TaskWaitingRetry"
  shows "\<exists>delay. scheduleRetry env i t lp =
    lp\<lparr>lp_timers := lp_timers lp @ [((i, int (length (tr_Attempts t))), delay)], lp_tick := Suc (lp_tick lp)\<rparr>"
proof -
  obtain r where "tr_ReadyAt t = Some r" and ne: "tr_Attempts t \<noteq> []"
    using assms by (auto simp: history_ok_def Let_def)
  then show ?thesis using history_last_number [OF assms(1) ne] by (cases lp) (auto simp: scheduleRetry_def clock_now_def Let_def)
qed

lemma timers_ok_mono: "timers_ok cw ts timers \<Longrightarrow> timers_ok cw ts (timers @ ts')"
  by (auto simp: timers_ok_def)

lemma schedule_if_waiting_cases:
  assumes "run_inv cw (lp_snapshot lp)" and "i < task_count cw"
  shows "(status_of (lp_snapshot lp) i = TaskWaitingRetry \<and> (\<exists>delay. schedule_if_waiting env i lp =
      lp\<lparr>lp_timers := lp_timers lp @ [((i, int (length (tr_Attempts (run_tasks (lp_snapshot lp) ! i)))), delay)],
         lp_tick := Suc (lp_tick lp)\<rparr>)) \<or>
    status_of (lp_snapshot lp) i \<noteq> TaskWaitingRetry \<and> schedule_if_waiting env i lp = lp"
  using scheduleRetry_waiting [OF run_inv_task(1) [OF assms]] by (auto simp: schedule_if_waiting_def)

lemma attempted_not_pending:
  assumes "run_inv cw u" and "i < task_count cw" and "tr_Attempts (run_tasks u ! i) \<noteq> []"
  shows "run_status u \<noteq> WorkflowPending"
  using assms run_inv_task(4) [OF assms(1,2)] by (auto simp: run_inv_def list_all_length)

lemma stops_not_pending:
  assumes "run_inv cw s" and "i < task_count cw" and "status_of s i = TaskRunning" and "run_inv cw u"
    and "only_stops cw i (run_tasks s) (run_tasks u)"
  shows "run_status u \<noteq> WorkflowPending"
proof (rule attempted_not_pending [OF assms(4,2)])
  have "tr_Attempts (run_tasks s ! i) \<noteq> []" using run_inv_task(1) [OF assms(1,2)] assms(3) by (auto simp: history_ok_def Let_def)
  then show "tr_Attempts (run_tasks u ! i) \<noteq> []" using assms(5) by (auto simp: only_stops_def)
qed

lemma removeAll_key: "distinct xs \<Longrightarrow> x \<in> set xs \<Longrightarrow> int (length (removeAll x xs)) = int (length xs) - 1"
  by (induction xs) (auto simp: removeAll_id dest: length_pos_if_in_set)

context run_store
begin

lemma start_ready_ok:
  assumes wf: "wf_compiled cw" and L: "loop_inv load runID cw lp"
  shows "flow_ok load env runID cw (\<lambda>lp. loop_inv load runID cw lp \<and> full cw lp) (start_ready env load apply_change cw lp)"
proof -
  have S: "saved load runID cw lp'" if "loop_inv load runID cw lp'" for lp' using that by (simp add: loop_inv_def)
  define lp1 where "lp1 = lp\<lparr>lp_tick := Suc (lp_tick lp)\<rparr>"
  have L1: "loop_inv load runID cw lp1" using L by (simp add: lp1_def)
  have len: "length (run_tasks (lp_snapshot lp1)) = task_count cw" using L1 shape_length by (auto simp: loop_inv_def saved_def run_inv_def)
  have go: "case start_loop env apply_change cw (run_tasks (lp_snapshot lp1)) [0 ..< length (run_tasks (lp_snapshot lp1))] lp1 of
      (None, lp') \<Rightarrow> loop_inv load runID cw lp' \<and> full cw lp'
    | (Some e, lp') \<Rightarrow> saved load runID cw lp' \<and> stopped env lp'"
    by (rule start_loop_ok [OF wf L1]) (auto simp: len)
  have "case startReadyTasks env apply_change cw lp of
      (None, lp') \<Rightarrow> loop_inv load runID cw lp' \<and> full cw lp'
    | (Some e, lp') \<Rightarrow> saved load runID cw lp' \<and> stopped env lp'"
  proof (cases "stopped env lp")
    case True
    with S [OF L] show ?thesis by (auto simp: startReadyTasks_def ctx_err_def stopped_def)
  next
    case False
    then have "startReadyTasks env apply_change cw lp =
        start_loop env apply_change cw (run_tasks (lp_snapshot lp1)) [0 ..< length (run_tasks (lp_snapshot lp1))] lp1"
      by (auto simp: startReadyTasks_def ctx_err_def lp1_def stopped_def split: option.splits)
    with go show ?thesis by simp
  qed
  moreover have "flow_ok load env runID cw P (unless_stopped env load apply_change (Return (Inl e)) lp')"
    if "saved load runID cw lp'" "stopped env lp'" for lp' e P
    using unless_stopped_ok [OF wf that(1)] that(2) by blast
  ultimately show ?thesis
    by (cases "startReadyTasks env apply_change cw lp" rule: prod.exhaust)
       (auto simp: start_ready_def flow_ok_def split: option.splits)
qed

lemma then_start_ok:
  assumes "wf_compiled cw" and "flow_ok load env runID cw (loop_inv load runID cw) flow"
  shows "flow_ok load env runID cw (\<lambda>lp. loop_inv load runID cw lp \<and> full cw lp) (then_start env load apply_change cw flow)"
  using assms start_ready_ok [OF assms(1)] by (cases flow) (auto simp: then_start_def flow_ok_def)

text \<open>The end of an active attempt, after its slot was freed.\<close>

lemma settle_ok:
  assumes wf: "wf_compiled cw" and L: "loop_inv load runID cw lp" and key: "(i, m) \<in> set (lp_active lp)"
    and u: "run_inv cw u" "evolves (lp_snapshot lp) u" "only_stops cw i (run_tasks (lp_snapshot lp)) (run_tasks u)"
  defines "lp1 \<equiv> lp\<lparr>lp_active := removeAll (i, m) (lp_active lp), lp_running := lp_running lp - 1\<rparr>"
  shows "flow_ok load env runID cw (loop_inv load runID cw) (commit env load apply_change (Inr (True, u)) (schedule_if_waiting env i) lp1)"
proof -
  let ?s = "lp_snapshot lp"
  have S: "run_inv cw ?s" "wr_ID (rs_Run ?s) = runID" "load runID (lp_store lp) = Inr ?s"
    "requests_ok runID cw (run_tasks ?s) (lp_requests lp)" "timers_ok cw (run_tasks ?s) (lp_timers lp)"
    using L by (simp_all add: loop_inv_def saved_def)
  have k: "i < task_count cw" "status_of ?s i = TaskRunning" "m = int (length (tr_Attempts (run_tasks ?s ! i)))"
    using key L by (auto simp: loop_inv_def running_keys_def)
  note o = only_stopsD [OF u(3)] and np = stops_not_pending [OF S(1) k(1,2) u(1,3)]
  obtain st' where st': "saveSnapshot apply_change ?s u (lp_store lp) = (Inr (next_revision u), st')" "load runID st' = Inr (next_revision u)"
    using save_ok [OF S(1) u(1,2) o(3)] S(2,3) by auto
  define lp2 where "lp2 = lp1\<lparr>lp_store := st', lp_snapshot := next_revision u\<rparr>"
  have "wr_ID (rs_Run u) = runID" using u(2) S(2) by (simp add: evolves_def same_frame_def)
  then have sv: "saved load runID cw (lp2\<lparr>lp_timers := x, lp_tick := y\<rparr>)" for y x
    using u(1) st'(2) requests_ok_grown [OF S(4) o(3)] by (simp add: saved_def lp2_def lp1_def)
  have tm: "timers_ok cw (run_tasks u) (lp_timers lp @ ts)"
    if "status_of u i = TaskWaitingRetry \<longrightarrow> (i, int (length (tr_Attempts (run_tasks u ! i)))) \<in> fst ` set ts" for ts
    unfolding timers_ok_def
  proof (intro allI impI)
    fix j assume j: "j < task_count cw" "status_of u j = TaskWaitingRetry"
    show "(j, int (length (tr_Attempts (run_tasks u ! j)))) \<in> fst ` set (lp_timers lp @ ts)"
    proof (cases "j = i")
      case False
      then have "run_tasks u ! j = run_tasks ?s ! j" using u(3) j by (auto simp: only_stops_def)
      with S(5) j show ?thesis by (auto simp: timers_ok_def)
    qed (use that j in auto)
  qed
  have "loop_inv load runID cw (lp2\<lparr>lp_timers := lp_timers lp @ ts, lp_tick := y\<rparr>)"
    if "status_of u i = TaskWaitingRetry \<longrightarrow> (i, int (length (tr_Attempts (run_tasks u ! i)))) \<in> fst ` set ts" for ts y
    using L sv [of y "lp_timers lp @ ts"] tm [OF that] o(1,2) k(3) np removeAll_key [OF _ key]
    by (auto simp: loop_inv_def lp2_def lp1_def distinct_removeAll)
  note inv = this
  have snap: "run_inv cw (lp_snapshot lp2)" using u(1) by (simp add: lp2_def)
  have "loop_inv load runID cw (schedule_if_waiting env i lp2)"
    using schedule_if_waiting_cases [OF snap k(1), of env] inv [of "[]" "lp_tick lp2"] inv
    by (auto simp: lp2_def lp1_def)
  then show ?thesis using st' by (simp add: commit_def flow_ok_def lp2_def lp1_def)
qed

end

text \<open>What the sources of events may send: known results, and timers of tasks of the run.\<close>

fun event_ok :: "CompiledWorkflow \<Rightarrow> event \<Rightarrow> bool" where
  "event_ok cw (Completion i m response at) \<longleftrightarrow> known_kind (ep_Kind response) \<or> ep_Kind response = ResultCanceled"
| "event_ok cw (AttemptTimeout i m at) \<longleftrightarrow> True"
| "event_ok cw (RetryTimer i m at) \<longleftrightarrow> i < task_count cw"

lemma entered_ready_keys:
  assumes "i < task_count cw" and "length ts = task_count cw" and "tr_Status (ts ! i) = TaskWaitingRetry"
  shows "running_keys cw (ts[i := entered TaskReady at (ts ! i)]) = running_keys cw ts"
    and "none_queued cw ts \<Longrightarrow> none_queued cw (ts[i := entered TaskReady at (ts ! i)])"
    and "timers_ok cw ts timers \<Longrightarrow> timers_ok cw (ts[i := entered TaskReady at (ts ! i)]) timers"
    and "grown cw ts (ts[i := entered TaskReady at (ts ! i)])"
proof -
  have eq: "ts[i := entered TaskReady at (ts ! i)] ! k = (if k = i then entered TaskReady at (ts ! i) else ts ! k)"
    if "k < task_count cw" for k using that assms(2) by (simp add: nth_update_if)
  have "tr_Status (ts[i := entered TaskReady at (ts ! i)] ! k) = TaskRunning \<longleftrightarrow> tr_Status (ts ! k) = TaskRunning"
    "tr_Attempts (ts[i := entered TaskReady at (ts ! i)] ! k) = tr_Attempts (ts ! k)" if "k < task_count cw" for k
    using eq [OF that] assms(3) by auto
  then show "running_keys cw (ts[i := entered TaskReady at (ts ! i)]) = running_keys cw ts"
    unfolding running_keys_def by (metis (no_types, lifting))
qed (use assms in \<open>auto simp: none_queued_def timers_ok_def grown_def nth_update_if\<close>)

context run_store
begin

lemma retry_ok:
  assumes wf: "wf_compiled cw" and L: "loop_inv load runID cw lp" and i: "i < task_count cw"
  shows "flow_ok load env runID cw (loop_inv load runID cw)
    (commit env load apply_change (MakeRetryReady (lp_snapshot lp) (int i) m at) (\<lambda>lp. lp) lp)"
proof -
  let ?s = "lp_snapshot lp"
  have S: "run_inv cw ?s" "wr_ID (rs_Run ?s) = runID" "load runID (lp_store lp) = Inr ?s"
    "requests_ok runID cw (run_tasks ?s) (lp_requests lp)"
    using L by (simp_all add: loop_inv_def saved_def)
  obtain u where u: "MakeRetryReady ?s (int i) m at = Inr (retry_due ?s i m at, u)" "evolves ?s u" "run_inv cw u"
    "run_tasks u = (if retry_due ?s i m at then (run_tasks ?s)[i := entered TaskReady at (run_tasks ?s ! i)] else run_tasks ?s)"
    using MakeRetryReady_returns [OF wf S(1) i] by blast
  show ?thesis
  proof (cases "retry_due ?s i m at")
    case True
    then have w: "status_of ?s i = TaskWaitingRetry" by (simp add: retry_due_def)
    have ne: "tr_Attempts (run_tasks ?s ! i) \<noteq> []" using run_inv_task(1) [OF S(1) i] w by (auto simp: history_ok_def Let_def)
    note K = entered_ready_keys [OF i run_inv_task(2) [OF S(1) i] w, where at = at]
    have ts: "run_tasks u = (run_tasks ?s)[i := entered TaskReady at (run_tasks ?s ! i)]" using u(4) True by simp
    obtain st' where st': "saveSnapshot apply_change ?s u (lp_store lp) = (Inr (next_revision u), st')" "load runID st' = Inr (next_revision u)"
      using save_ok [OF S(1) u(3,2)] K(4) ts S(2,3) by auto
    have "run_status u \<noteq> WorkflowPending"
      using attempted_not_pending [OF u(3) i] ts ne run_inv_task(4) [OF S(1) i] by simp
    moreover have "wr_ID (rs_Run u) = runID" using u(2) S(2) by (simp add: evolves_def same_frame_def)
    ultimately have "loop_inv load runID cw (lp\<lparr>lp_store := st', lp_snapshot := next_revision u\<rparr>)"
      using L u(3) st'(2) K requests_ok_grown [OF S(4)] by (auto simp: loop_inv_def saved_def ts)
    then show ?thesis using u(1) True st'(1) by (simp add: commit_def flow_ok_def)
  next
    case False
    with u(1) L show ?thesis by (simp add: commit_def flow_ok_def)
  qed
qed

lemma lost_key_ok:
  assumes "wf_compiled cw" and "loop_inv load runID cw lp" and "finishActiveAttempt (lp_active lp) (i, m) = Some keys"
  shows "i < task_count cw" and "is_active (lp_snapshot lp) i m" and "status_of (lp_snapshot lp) i = TaskRunning"
    and "(i, m) \<in> set (lp_active lp)" and "keys = removeAll (i, m) (lp_active lp)" and "run_inv cw (lp_snapshot lp)"
  using assms by (auto simp: finishActiveAttempt_def loop_inv_def saved_def running_keys_def is_active_def split: if_splits)

lemma completion_ok:
  assumes wf: "wf_compiled cw" and L: "loop_inv load runID cw lp" and key: "finishActiveAttempt (lp_active lp) (i, m) = Some keys"
    and kind: "known_kind (ep_Kind response)"
  defines "lp1 \<equiv> lp\<lparr>lp_active := keys, lp_running := lp_running lp - 1\<rparr>"
  shows "flow_ok load env runID cw (loop_inv load runID cw)
    (commit env load apply_change (ApplyAttemptResult (lp_snapshot lp1) cw (int i) m response at) (schedule_if_waiting env i) lp1)"
proof -
  note k = lost_key_ok [OF wf L key]
  obtain u where u: "ApplyAttemptResult (lp_snapshot lp) cw (int i) m response at = Inr (True, u)" "evolves (lp_snapshot lp) u" "run_inv cw u"
    "run_tasks u = result_outcome cw (lp_snapshot lp) i m response at"
    using ApplyAttemptResult_returns [OF wf k(6,1) kind, of m at] k(2) by auto
  have "only_stops cw i (run_tasks (lp_snapshot lp)) (run_tasks u)" using result_only_stops [OF wf k(6,1,3)] u(4) by simp
  from settle_ok [OF wf L k(4) u(3,2) this] u(1) k(5) show ?thesis by (simp add: lp1_def)
qed

lemma timeout_ok:
  assumes wf: "wf_compiled cw" and L: "loop_inv load runID cw lp" and key: "finishActiveAttempt (lp_active lp) (i, m) = Some keys"
  defines "lp1 \<equiv> lp\<lparr>lp_active := keys, lp_running := lp_running lp - 1\<rparr>"
  shows "flow_ok load env runID cw (loop_inv load runID cw)
    (commit env load apply_change (TimeoutAttempt (lp_snapshot lp1) cw (int i) m at) (schedule_if_waiting env i) lp1)"
proof -
  note k = lost_key_ok [OF wf L key]
  obtain u where u: "TimeoutAttempt (lp_snapshot lp) cw (int i) m at = Inr (True, u)" "evolves (lp_snapshot lp) u" "run_inv cw u"
    and ts: "\<exists>a res. run_tasks u = retry_outcome cw (lp_snapshot lp) i m at (finished a at res (run_tasks (lp_snapshot lp) ! i))"
    unfolding TimeoutAttempt_def using lose_attempt_returns [OF wf k(6,1), of AttemptTimedOut] k(2) by auto metis
  have "only_stops cw i (run_tasks (lp_snapshot lp)) (run_tasks u)" using failure_only_stops(2) [OF wf k(6,1,3)] ts by auto
  from settle_ok [OF wf L k(4) u(3,2) this] u(1) k(5) show ?thesis by (simp add: lp1_def)
qed

lemma handle_event_ok:
  assumes wf: "wf_compiled cw" and L: "loop_inv load runID cw lp" and F: "full cw lp" and ev: "event_ok cw ev"
  shows "flow_ok load env runID cw (\<lambda>lp. loop_inv load runID cw lp \<and> full cw lp) (handle_event env load apply_change cw ev lp)"
proof -
  have S: "saved load runID cw lp" using L by (simp add: loop_inv_def)
  define lp1 where "lp1 = lp\<lparr>lp_tick := Suc (lp_tick lp)\<rparr>"
  have L1: "loop_inv load runID cw lp1" and F1: "full cw lp1" and S1: "saved load runID cw lp1"
    using L F S by (simp_all add: lp1_def full_def)
  note us = unless_stopped_ok [OF wf S, folded lp1_def] and ts = then_start_ok [OF wf]
  show ?thesis
  proof (cases ev)
    case (Completion i m response at)
    have "flow_ok load env runID cw P (stoppedRunResult env load apply_change BusinessCancel lp')"
      and "en_stop env = Some (t, cause) \<Longrightarrow> flow_ok load env runID cw P (stoppedRunResult env load apply_change cause lp')"
      if "saved load runID cw lp'" for lp' P t cause
      using stopped_ok [OF wf that] by blast+
    note stop = this
    have sv: "saved load runID cw (lp1\<lparr>lp_active := ks, lp_running := n, lp_tick := t\<rparr>)" for ks n t
      using S1 by (simp add: saved_def)
    show ?thesis
      using Completion ev L F L1 F1 completion_ok [OF wf L1] stop sv
      by (auto simp: handle_event_def flow_ok_def [of _ _ _ _ _ "Go _"] ctx_err_def Let_def intro!: us ts split: option.splits)
  next
    case (AttemptTimeout i m at)
    then show ?thesis using L F L1 F1 timeout_ok [OF wf L1]
      by (auto simp: handle_event_def flow_ok_def [of _ _ _ _ _ "Go _"] Let_def intro!: us ts split: option.splits)
  next
    case (RetryTimer i m at)
    then show ?thesis using ev retry_ok [OF wf L1] by (auto simp: handle_event_def intro!: us ts)
  qed
qed

end

section \<open>The loop\<close>

text \<open>The loop waits only while something can still happen.\<close>

definition waiting :: "'st loop \<Rightarrow> bool" where
  "waiting lp \<longleftrightarrow> 0 < lp_running lp \<or> hasWaitingRetry (run_tasks (lp_snapshot lp))"

text \<open>Before the loop: nothing of this run is under way in this process.\<close>

definition fresh :: "'st loader \<Rightarrow> RunID \<Rightarrow> CompiledWorkflow \<Rightarrow> 'st loop \<Rightarrow> bool" where
  "fresh load runID cw lp \<longleftrightarrow>
     saved load runID cw lp \<and> lp_active lp = [] \<and> lp_running lp = 0 \<and>
     (\<forall>k < task_count cw. status_of (lp_snapshot lp) k \<noteq> TaskRunning \<and> status_of (lp_snapshot lp) k \<noteq> TaskQueued)"

lemma idle_terminal:
  assumes wf: "wf_compiled cw" and L: "loop_inv load runID cw lp" and F: "full cw lp" and w: "\<not> waiting lp"
  shows "isWorkflowTerminal (run_status (lp_snapshot lp))"
proof (rule ccontr)
  let ?s = "lp_snapshot lp"
  assume "\<not> isWorkflowTerminal (run_status ?s)"
  moreover have inv: "run_inv cw ?s" using L by (simp add: loop_inv_def saved_def)
  ultimately obtain i where i: "i < task_count cw" "active (status_of ?s i)" using pending_has_ready [OF wf] by blast
  have "lp_active lp = []" and run: "lp_running lp = 0" using w L by (auto simp: waiting_def loop_inv_def)
  then have "running_keys cw (run_tasks ?s) = {}" using L by (auto simp: loop_inv_def)
  then have "status_of ?s i \<noteq> TaskRunning" using i(1) by (auto simp: running_keys_def)
  moreover have "status_of ?s i \<noteq> TaskWaitingRetry"
    using w run_inv_task(4) [OF inv i(1)] i(1) by (auto simp: waiting_def hasWaitingRetry_def list_ex_length)
  moreover have "status_of ?s i \<noteq> TaskQueued" using L i(1) by (simp add: loop_inv_def none_queued_def)
  moreover have "status_of ?s i \<noteq> TaskReady"
    using F wf run i(1) by (auto simp: full_def wf_compiled_def Let_def)
  ultimately show False using i(2) by (simp add: active_def)
qed

lemma restore_timers_ok:
  fixes lp :: "'st loop"
  assumes "saved load runID cw lp"
  shows "saved load runID cw (restore_timers env lp) \<and> timers_ok cw (run_tasks (lp_snapshot lp)) (lp_timers (restore_timers env lp)) \<and>
    lp_snapshot (restore_timers env lp) = lp_snapshot lp \<and> lp_active (restore_timers env lp) = lp_active lp \<and>
    lp_running (restore_timers env lp) = lp_running lp"
proof -
  let ?s = "lp_snapshot lp"
  define f where "f = (\<lambda>i (lp :: 'st loop). if tr_Status (run_tasks (lp_snapshot lp) ! i) = TaskWaitingRetry
    then scheduleRetry env i (run_tasks (lp_snapshot lp) ! i) lp else lp)"
  have inv: "run_inv cw ?s" using assms by (simp add: saved_def)
  have len: "length (run_tasks ?s) = task_count cw" using inv shape_length by (auto simp: run_inv_def)
  have "saved load runID cw (fold f [0 ..< n] lp) \<and> lp_snapshot (fold f [0 ..< n] lp) = ?s \<and>
      lp_active (fold f [0 ..< n] lp) = lp_active lp \<and> lp_running (fold f [0 ..< n] lp) = lp_running lp \<and>
      (\<forall>k < n. status_of ?s k = TaskWaitingRetry \<longrightarrow>
         (k, int (length (tr_Attempts (run_tasks ?s ! k)))) \<in> fst ` set (lp_timers (fold f [0 ..< n] lp)))"
    if "n \<le> task_count cw" for n
    using that
  proof (induction n)
    case (Suc n)
    define lp' where "lp' = fold f [0 ..< n] lp"
    have IH: "saved load runID cw lp'" "lp_snapshot lp' = ?s" "lp_active lp' = lp_active lp" "lp_running lp' = lp_running lp"
      "\<forall>k < n. status_of ?s k = TaskWaitingRetry \<longrightarrow> (k, int (length (tr_Attempts (run_tasks ?s ! k)))) \<in> fst ` set (lp_timers lp')"
      using Suc by (simp_all add: lp'_def)
    have step: "fold f [0 ..< Suc n] lp = f n lp'" by (simp add: lp'_def)
    show ?case unfolding step
    proof (cases "status_of ?s n = TaskWaitingRetry")
      case True
      have "history_ok (max_attempts cw n) (run_tasks ?s ! n)" using run_inv_task(1) [OF inv] Suc.prems by simp
      from scheduleRetry_waiting [OF this True, of env n lp'] obtain delay where
        "f n lp' = lp'\<lparr>lp_timers := lp_timers lp' @ [((n, int (length (tr_Attempts (run_tasks ?s ! n)))), delay)], lp_tick := Suc (lp_tick lp')\<rparr>"
        using True IH(2) by (auto simp: f_def)
      with IH show "saved load runID cw (f n lp') \<and> lp_snapshot (f n lp') = ?s \<and> lp_active (f n lp') = lp_active lp \<and>
          lp_running (f n lp') = lp_running lp \<and> (\<forall>k < Suc n. status_of ?s k = TaskWaitingRetry \<longrightarrow>
           (k, int (length (tr_Attempts (run_tasks ?s ! k)))) \<in> fst ` set (lp_timers (f n lp')))"
        by (auto simp: less_Suc_eq saved_def)
    next
      case False
      with IH show "saved load runID cw (f n lp') \<and> lp_snapshot (f n lp') = ?s \<and> lp_active (f n lp') = lp_active lp \<and>
          lp_running (f n lp') = lp_running lp \<and> (\<forall>k < Suc n. status_of ?s k = TaskWaitingRetry \<longrightarrow>
           (k, int (length (tr_Attempts (run_tasks ?s ! k)))) \<in> fst ` set (lp_timers (f n lp')))"
        by (auto simp: less_Suc_eq f_def)
    qed
  qed (use assms in simp)
  from this [of "task_count cw"] show ?thesis by (simp add: restore_timers_def f_def len timers_ok_def)
qed

lemma fresh_loop:
  assumes wf: "wf_compiled cw" and f: "fresh load runID cw lp" and np: "run_status (lp_snapshot lp) \<noteq> WorkflowPending"
  shows "loop_inv load runID cw (restore_timers env lp)"
proof -
  have "saved load runID cw lp" "lp_active lp = []" "lp_running lp = 0"
    and st: "\<And>k. k < task_count cw \<Longrightarrow> status_of (lp_snapshot lp) k \<noteq> TaskRunning \<and> status_of (lp_snapshot lp) k \<noteq> TaskQueued"
    using f by (auto simp: fresh_def)
  moreover have "running_keys cw (run_tasks (lp_snapshot lp)) = {}" "none_queued cw (run_tasks (lp_snapshot lp))"
    using st by (auto simp: running_keys_def none_queued_def)
  moreover have "0 \<le> wd_Concurrency (cw_definition cw)" using wf by (simp add: wf_compiled_def Let_def)
  ultimately show ?thesis using restore_timers_ok [of load runID cw lp env] np by (simp add: loop_inv_def)
qed

context run_store
begin

lemma finish_run_ok:
  assumes wf: "wf_compiled cw" and L: "loop_inv load runID cw lp" and F: "full cw lp" and w: "\<not> waiting lp"
  shows "flow_ok load env runID cw P (finish_run env load apply_change lp)"
  using idle_terminal [OF assms] L by (simp add: finish_run_def Let_def flow_ok_def ends_well_def loop_inv_def saved_def)

lemma event_loop_ok:
  assumes wf: "wf_compiled cw" and "loop_inv load runID cw lp" and "full cw lp" and "\<forall>ev \<in> set evs. event_ok cw ev"
  shows "flow_ok load env runID cw (\<lambda>lp. loop_inv load runID cw lp \<and> full cw lp \<and> waiting lp) (event_loop env load apply_change cw evs lp)"
  using assms(2-)
proof (induction evs arbitrary: lp)
  have head: "flow_ok load env runID cw P (event_loop env load apply_change cw evs lp)"
    if L: "loop_inv load runID cw lp" and F: "full cw lp"
      and go: "\<And>lp'. loop_inv load runID cw lp' \<Longrightarrow> full cw lp' \<Longrightarrow> waiting lp' \<Longrightarrow>
        flow_ok load env runID cw P (case evs of [] \<Rightarrow> Go lp' | ev # evs \<Rightarrow>
          (case handle_event env load apply_change cw ev lp' of Return r lp \<Rightarrow> Return r lp
           | Go lp \<Rightarrow> event_loop env load apply_change cw evs lp))"
    for lp evs P
  proof -
    have S: "saved load runID cw lp" using L by (simp add: loop_inv_def)
    have "flow_ok load env runID cw (\<lambda>lp. loop_inv load runID cw lp \<and> full cw lp) (unless_stopped env load apply_change Go lp)"
      by (rule unless_stopped_ok [OF wf S]) (use L F in \<open>simp add: flow_ok_def full_def\<close>)
    then show ?thesis using go finish_run_ok [OF wf]
      by (cases "unless_stopped env load apply_change Go lp")
         (auto simp: event_loop.simps [of env load apply_change cw evs lp] flow_ok_def waiting_def)
  qed
  { case Nil
    show ?case by (rule head [OF Nil(1,2)]) (simp add: flow_ok_def)
  next
    case (Cons ev evs)
    show ?case
    proof (rule head [OF Cons.prems(1,2)])
      fix lp' assume lp': "loop_inv load runID cw lp'" "full cw lp'"
      then have "flow_ok load env runID cw (\<lambda>lp. loop_inv load runID cw lp \<and> full cw lp) (handle_event env load apply_change cw ev lp')"
        using handle_event_ok [OF wf] Cons.prems(3) by simp
      then show "flow_ok load env runID cw (\<lambda>lp. loop_inv load runID cw lp \<and> full cw lp \<and> waiting lp)
          (case ev # evs of [] \<Rightarrow> Go lp' | ev # evs \<Rightarrow>
            (case handle_event env load apply_change cw ev lp' of Return r lp \<Rightarrow> Return r lp
             | Go lp \<Rightarrow> event_loop env load apply_change cw evs lp))"
        using Cons.IH Cons.prems(3) by (cases "handle_event env load apply_change cw ev lp'") (auto simp: flow_ok_def)
    qed
  }
qed

lemma begin_run_ok:
  assumes wf: "wf_compiled cw" and f: "fresh load runID cw lp"
  shows "flow_ok load env runID cw (\<lambda>lp. fresh load runID cw lp \<and> run_status (lp_snapshot lp) \<noteq> WorkflowPending)
    (begin_run env load apply_change lp)"
proof (cases "run_status (lp_snapshot lp) = WorkflowPending")
  case True
  let ?s = "lp_snapshot lp" and ?at = "en_clock env (lp_tick lp)"
  have S: "run_inv cw ?s" "wr_ID (rs_Run ?s) = runID" "load runID (lp_store lp) = Inr ?s"
    "requests_ok runID cw (run_tasks ?s) (lp_requests lp)"
    using f by (simp_all add: fresh_def saved_def)
  obtain i where i: "i < task_count cw" "active (status_of ?s i)" using pending_has_ready [OF wf S(1)] True by auto
  then have r: "status_of ?s i = TaskReady"
    using S(1) True run_inv_task(4) [OF S(1) i(1)] by (auto simp: run_inv_def list_all_length active_def)
  obtain u where u: "transitionWorkflow ?s WorkflowRunning ?at ''execution started'' = Inr u" "evolves ?s u" "run_tasks u = run_tasks ?s"
    "run_status u = WorkflowRunning" "run_inv cw u"
    using start_workflow [OF S(1) i(1) r, of ?at "''execution started''"] True by auto
  have g: "grown cw (run_tasks ?s) (run_tasks u)" by (simp add: grown_def u(3))
  obtain st' where st': "saveSnapshot apply_change ?s u (lp_store lp) = (Inr (next_revision u), st')" "load runID st' = Inr (next_revision u)"
    using save_ok [OF S(1) u(5,2) g] S(2,3) by auto
  define lp1 where "lp1 = lp\<lparr>lp_tick := Suc (lp_tick lp), lp_store := st', lp_snapshot := next_revision u\<rparr>"
  have "wr_ID (rs_Run u) = runID" using u(2) S(2) by (simp add: evolves_def same_frame_def)
  then have f1: "fresh load runID cw (lp1\<lparr>lp_tick := t\<rparr>)" for t
    using f u st' S(4) by (simp add: fresh_def saved_def lp1_def)
  have s1: "saved load runID cw lp1" using f1 [of "lp_tick lp1"] by (simp add: fresh_def)
  have eq: "begin_run env load apply_change lp = unless_stopped env load apply_change Go lp1"
    using True u(1) st' by (simp add: begin_run_def clock_now_def lp1_def)
  show ?thesis unfolding eq
    by (rule unless_stopped_ok [OF wf s1]) (use f1 u(4) in \<open>simp add: flow_ok_def lp1_def\<close>)
next
  case False
  with f show ?thesis by (simp add: begin_run_def flow_ok_def)
qed

lemma executeSnapshot_ok:
  assumes wf: "wf_compiled cw" and f: "fresh load runID cw lp" and evs: "\<forall>ev \<in> set evs. event_ok cw ev"
  shows "flow_ok load env runID cw (\<lambda>lp. loop_inv load runID cw lp \<and> full cw lp \<and> waiting lp)
    (executeSnapshot env load apply_change cw evs lp)"
proof -
  let ?P = "\<lambda>lp. loop_inv load runID cw lp \<and> full cw lp \<and> waiting lp"
  have "flow_ok load env runID cw ?P (case start_ready env load apply_change cw (restore_timers env lp') of
      Return r lp \<Rightarrow> Return r lp | Go lp \<Rightarrow> event_loop env load apply_change cw evs lp)"
    if lp': "fresh load runID cw lp'" "run_status (lp_snapshot lp') \<noteq> WorkflowPending" for lp'
    using start_ready_ok [OF wf fresh_loop [OF wf lp'], of env env] event_loop_ok [OF wf _ _ evs]
    by (cases "start_ready env load apply_change cw (restore_timers env lp')") (auto simp: flow_ok_def)
  with begin_run_ok [OF wf f, of env] show ?thesis
    by (cases "begin_run env load apply_change lp") (auto simp: executeSnapshot_def flow_ok_def)
qed

end

section \<open>The engine\<close>

definition settled :: "'st loader \<Rightarrow> env \<Rightarrow> RunID \<Rightarrow> CompiledWorkflow \<Rightarrow> WorkflowRun res \<Rightarrow> 'st \<Rightarrow> bool" where
  "settled load env runID cw r st \<longleftrightarrow>
     (\<exists>u. load runID st = Inr u \<and> run_inv cw u \<and>
        (case r of
           Inr run \<Rightarrow> run = rs_Run u \<and> isWorkflowTerminal (wr_Status run)
         | Inl e \<Rightarrow> \<exists>t. en_stop env = Some (t, OtherCause e)))"

lemma ends_settled: "ends_well load env runID cw r lp \<Longrightarrow> settled load env runID cw r (lp_store lp)"
  by (auto simp: ends_well_def settled_def)

lemma leave_settled:
  assumes "leave runID r lp eg = (r', eg')"
  shows "r' = r \<and> eg_store eg' = lp_store lp \<and> eg_active eg' = removeAll runID (eg_active eg)"
  using assms by (auto simp: leave_def release_def forgetCompiled_def Let_def split: sum.splits)

context run_store
begin

lemma finalizeCancellation_ok:
  assumes wf: "wf_compiled cw" and inv: "run_inv cw s" and l: "load runID (lp_store lp) = Inr s"
    and f: "finalizeCancellation env load apply_change s lp = (r, lp')"
  shows "settled load env runID cw r (lp_store lp')"
proof -
  have i: "wr_ID (rs_Run s) = runID" using load_id [OF l] .
  obtain u st' where "finalize_rounds load apply_change (en_clock env (lp_tick lp)) (Suc 1) s (lp_store lp) = (Inr (rs_Run u), st')"
    "load runID st' = Inr u" "run_inv cw u" "isWorkflowTerminal (run_status u)"
    using finalize_ok [OF wf inv, of "lp_store lp" "en_clock env (lp_tick lp)" 1] l i by auto
  with f show ?thesis
    by (auto simp: finalizeCancellation_def clock_now_def settled_def Let_def numeral_2_eq_2 simp del: finalize_rounds.simps)
qed

lemma reconcile_ok:
  assumes wf: "wf_compiled cw" and s: "settled load env runID cw (Inl e) (lp_store lp)"
    and r: "reconcilePersistedCancellation env load apply_change runID e lp = (r, lp')"
  shows "settled load env runID cw r (lp_store lp')"
proof -
  obtain u where u: "load runID (lp_store lp) = Inr u" "run_inv cw u" using s by (auto simp: settled_def)
  show ?thesis using r s u finalizeCancellation_ok [OF wf u(2,1)]
    by (auto simp: reconcilePersistedCancellation_def split: if_splits)
qed

lemma run_loop_ok:
  assumes wf: "wf_compiled cw" and f: "fresh load runID cw lp" and evs: "\<forall>ev \<in> set evs. event_ok cw ev"
  shows "case run_loop env load apply_change runID cw evs lp eg of
    (None, eg') \<Rightarrow> eg_active eg' = eg_active eg \<and>
      (\<exists>lp. eg_store eg' = lp_store lp \<and> loop_inv load runID cw lp \<and> full cw lp \<and> waiting lp)
  | (Some r, eg') \<Rightarrow> eg_active eg' = removeAll runID (eg_active eg) \<and> settled load env runID cw r (eg_store eg')"
proof (cases "executeSnapshot env load apply_change cw evs lp")
  case (Go lp')
  with executeSnapshot_ok [OF assms, of env] show ?thesis by (auto simp: run_loop_def flow_ok_def)
next
  case (Return r lp')
  then have s: "settled load env runID cw r (lp_store lp')"
    using executeSnapshot_ok [OF assms, of env] ends_settled by (auto simp: flow_ok_def)
  show ?thesis
  proof (cases r)
    case (Inr run)
    with Return s show ?thesis
      by (auto simp: run_loop_def split: prod.split dest!: leave_settled)
  next
    case (Inl e)
    with Return s reconcile_ok [OF wf] show ?thesis
      by (auto simp: run_loop_def split: prod.split dest!: leave_settled)
  qed
qed

text \<open>\<^verbatim>\<open>Execute\<close> on a stored run that no process works on.\<close>

lemma Execute_ok:
  assumes wf: "wf_compiled cw" and free: "runID \<notin> set (eg_active eg)" and l: "load runID (eg_store eg) = Inr s"
    and inv: "run_inv cw s" and idle: "\<forall>k < task_count cw. status_of s k \<noteq> TaskRunning \<and> status_of s k \<noteq> TaskQueued"
    and comp: "compiledForRun runID s eg = Inr cw" and evs: "\<forall>ev \<in> set evs. event_ok cw ev"
  shows "case Execute env load apply_change runID evs eg of
    (None, eg') \<Rightarrow> runID \<in> set (eg_active eg') \<and>
      (\<exists>lp. eg_store eg' = lp_store lp \<and> loop_inv load runID cw lp \<and> full cw lp \<and> waiting lp)
  | (Some r, eg') \<Rightarrow> eg_active eg' = eg_active eg \<and> settled load env runID cw r (eg_store eg')"
proof -
  have i: "wr_ID (rs_Run s) = runID" using load_id [OF l] .
  have sv: "saved load runID cw (new_loop s (eg_store eg) t)" for t
    using inv i l by (simp add: saved_def new_loop_def requests_ok_def)
  have fr: "fresh load runID cw (new_loop s (eg_store eg) t)" for t
    using sv idle by (simp add: fresh_def) (simp add: new_loop_def)
  define eg1 where "eg1 = eg\<lparr>eg_active := runID # eg_active eg\<rparr>"
  have rel: "removeAll runID (eg_active eg1) = eg_active eg" using free by (simp add: eg1_def)
  have stop: "\<exists>r lp'. stoppedRunResult env load apply_change cause (new_loop s (eg_store eg) t) = Return r lp' \<and>
      settled load env runID cw r (lp_store lp')" if "en_stop env = Some (t0, cause)" for cause t t0
    using stopped_ok [OF wf sv [of t], of cause env "\<lambda>_. False"] that ends_settled by (auto simp: flow_ok_def split: flow.splits)
  have tick: "(new_loop s st t)\<lparr>lp_tick := t'\<rparr> = new_loop s st t'" for st :: 'st and t t' by (simp add: new_loop_def)
  have comp1: "compiledForRun runID s eg1 = Inr cw" using comp by (simp add: compiledForRun_def eg1_def)
  have valid: "validateStoredRunID s runID = Inr ()" using i by (simp add: validateStoredRunID_def)
  have store: "eg_store eg1 = eg_store eg" by (simp add: eg1_def)
  note start = Execute_def free if_False Let_def eg1_def [symmetric] l store valid sum.case
  have left: "case (case leave runID r lp' eg1 of (r, eg) \<Rightarrow> (Some r, eg)) of
      (None, eg') \<Rightarrow> P eg'
    | (Some r, eg') \<Rightarrow> eg_active eg' = eg_active eg \<and> settled load env runID cw r (eg_store eg')"
    if "settled load env runID cw r (lp_store lp')" for r lp' P
    using that rel by (auto split: prod.split dest!: leave_settled)
  consider (over) "isWorkflowTerminal (run_status s)"
    | (cancel) "\<not> isWorkflowTerminal (run_status s)" "wr_CancelRequestedAt (rs_Run s) \<noteq> None"
    | (go) "\<not> isWorkflowTerminal (run_status s)" "wr_CancelRequestedAt (rs_Run s) = None"
    by blast
  then show ?thesis
  proof cases
    case over
    then have "Execute env load apply_change runID evs eg = (Some (Inr (rs_Run s)), release runID eg1)"
      by (simp add: start)
    with over rel l inv store show ?thesis by (simp add: release_def settled_def)
  next
    case cancel
    obtain r lp' where f: "finalizeCancellation env load apply_change s (new_loop s (eg_store eg) 0) = (r, lp')" by fastforce
    have "load runID (lp_store (new_loop s (eg_store eg) 0)) = Inr s" using l by (simp add: new_loop_def)
    then have "settled load env runID cw r (lp_store lp')" using finalizeCancellation_ok [OF wf inv _ f] by simp
    moreover have "Execute env load apply_change runID evs eg = (case leave runID r lp' eg1 of (r, eg) \<Rightarrow> (Some r, eg))"
      using cancel f by (simp add: start)
    ultimately show ?thesis using left by simp
  next
    case go
    let ?lp = "\<lambda>t. new_loop s (eg_store eg) t"
    define halt where "halt t = (case en_stop env of None \<Rightarrow> None | Some (t0, cause) \<Rightarrow> if t0 \<le> t then Some cause else None)" for t :: nat
    have ctx: "ctx_err env (?lp t) = (halt t, ?lp (Suc t))" for t by (auto simp: halt_def ctx_err_def new_loop_def split: option.split)
    let ?eg2 = "eg1\<lparr>eg_compiled := (runID, cw) # filter (\<lambda>p. fst p \<noteq> runID) (eg_compiled eg1)\<rparr>"
    have left2: "case (case leave runID r lp' ?eg2 of (r, eg) \<Rightarrow> (Some r, eg)) of
        (None, eg') \<Rightarrow> P eg'
      | (Some r, eg') \<Rightarrow> eg_active eg' = eg_active eg \<and> settled load env runID cw r (eg_store eg')"
      if "settled load env runID cw r (lp_store lp')" for r lp' P
      using that rel by (auto split: prod.split dest!: leave_settled)
    show ?thesis
    proof (cases "halt (Suc 0)")
      case None
      then have "halt 0 = None" by (auto simp: halt_def split: option.splits if_splits)
      with None go comp1 have "Execute env load apply_change runID evs eg = run_loop env load apply_change runID cw evs (?lp 2) ?eg2"
        by (simp add: start ctx numeral_2_eq_2)
      with run_loop_ok [OF wf fr [of 2] evs, of ?eg2 env] rel show ?thesis by (auto simp: eg1_def split: prod.splits option.splits)
    next
      case (Some cause)
      then obtain t0 where "en_stop env = Some (t0, cause)" by (auto simp: halt_def split: option.splits if_splits)
      note st = stop [OF this]
      show ?thesis
      proof (cases "halt 0")
        case None
        obtain r lp' where r: "stoppedRunResult env load apply_change cause (?lp 2) = Return r lp'" "settled load env runID cw r (lp_store lp')"
          using st by blast
        have "Execute env load apply_change runID evs eg = (case leave runID r lp' ?eg2 of (r, eg) \<Rightarrow> (Some r, eg))"
          using None Some go comp1 r(1) by (simp add: start ctx numeral_2_eq_2)
        with left2 r(2) show ?thesis by simp
      next
        case c: (Some cause')
        then have "cause' = cause" using Some by (auto simp: halt_def split: option.splits if_splits)
        obtain r lp' where r: "stoppedRunResult env load apply_change cause (?lp (Suc 0)) = Return r lp'" "settled load env runID cw r (lp_store lp')"
          using st by blast
        have "Execute env load apply_change runID evs eg = (case leave runID r lp' eg1 of (r, eg) \<Rightarrow> (Some r, eg))"
          using c go \<open>cause' = cause\<close> r(1) by (simp add: start ctx)
        with left r(2) show ?thesis by simp
      qed
    qed
  qed
qed

end

end
