(* ===== verification/Sql_Tables.thy ===== *)
theory Sql_Tables
  imports Change_Set "HOL-Library.Multiset"
begin

text \<open>
  The tables of \<^verbatim>\<open>internal/postgres/migrations\<close> as lists of rows, their CHECK
  constraints, and the two statements the repository is built from. A transaction is a
  function into \<open>('a \<times> db) res\<close>: an error rolls it back, so that the caller goes on with
  the old state. Columns of Go's \<^verbatim>\<open>uint64\<close> are BIGINT, counters are INTEGER, and a text
  column does not take the character with code zero.
\<close>

section \<open>Rows\<close>

record run_row =
  rr_run_id :: RunID
  rr_workflow_id :: string
  rr_workflow_version :: int
  rr_snapshot_version :: int
  rr_status :: WorkflowStatus
  rr_revision :: int
  rr_last_event_sequence :: int
  rr_cancel_requested_at :: "time option"
  rr_created_at :: time
  rr_started_at :: "time option"
  rr_finished_at :: "time option"
  rr_created_by :: "string option"

record task_row =
  tk_run_id :: RunID
  tk_task_key :: TaskKey
  tk_task_index :: int
  tk_status :: TaskStatus
  tk_remaining_dependencies :: int
  tk_ready_at :: "time option"
  tk_finished_at :: "time option"

record attempt_row =
  ar_run_id :: RunID
  ar_task_key :: TaskKey
  ar_attempt_number :: int
  ar_status :: AttemptStatus
  ar_started_at :: time
  ar_finished_at :: "time option"
  ar_output :: string
  ar_error_code :: string
  ar_error_message :: string
  ar_worker_id :: "string option"
  ar_dispatch_id :: "string option"

record event_row =
  ev_run_id :: RunID
  ev_sequence :: int
  ev_entity_type :: string
  ev_entity_key :: string
  ev_from_status :: string
  ev_to_status :: string
  ev_reason :: string
  ev_occurred_at :: time

datatype WorkerStatus = WorkerActive | WorkerDraining | WorkerOffline | WorkerStopped

record worker_row =
  wk_worker_id :: string
  wk_display_name :: string
  wk_protocol_version :: int
  wk_executor_kinds :: "ExecutorKind list"
  wk_max_concurrency :: int
  wk_status :: WorkerStatus
  wk_session_token_hash :: string
  wk_registered_at :: time
  wk_last_heartbeat_at :: time
  wk_stopped_at :: "time option"

datatype dispatch_status = DispatchPending | DispatchLeased | DispatchCompleted | DispatchExpired | DispatchCanceled

record dispatch_row =
  dr_dispatch_id :: string
  dr_run_id :: RunID
  dr_task_key :: TaskKey
  dr_executor_kind :: ExecutorKind
  dr_status :: dispatch_status
  dr_worker_id :: "string option"
  dr_attempt_number :: "int option"
  dr_lease_token_hash :: "string option"
  dr_lease_expires_at :: "time option"
  dr_attempt_deadline :: "time option"
  dr_result_hash :: "string option"
  dr_created_at :: time
  dr_leased_at :: "time option"
  dr_completed_at :: "time option"

record idem_row =
  ir_principal_id :: string
  ir_operation :: string
  ir_idempotency_key :: string
  ir_request_hash :: string
  ir_resource_type :: string
  ir_resource_id :: string
  ir_resource_version :: "int option"

record workflow_row =
  wo_id :: string
  wo_latest_version :: int
  wo_created_at :: time
  wo_created_by :: string

text \<open>A version holds its definition as it is decoded from the JSON column.\<close>

record version_row =
  ve_workflow_id :: string
  ve_version :: int
  ve_definition :: WorkflowDefinition
  ve_definition_hash :: string
  ve_created_at :: time
  ve_created_by :: string

record db =
  db_workflows :: "workflow_row list"
  db_versions :: "version_row list"
  db_runs :: "run_row list"
  db_tasks :: "task_row list"
  db_attempts :: "attempt_row list"
  db_events :: "event_row list"
  db_workers :: "worker_row list"
  db_dispatches :: "dispatch_row list"
  db_idempotency :: "idem_row list"

section \<open>Constraints\<close>

text \<open>A TIMESTAMPTZ column has a resolution of one microsecond.\<close>

definition timestamptz :: "time \<Rightarrow> time" where
  "timestamptz t = t div 1000 * 1000"

lemma timestamptz_idem [simp]: "timestamptz (timestamptz t) = timestamptz t"
  by (simp add: timestamptz_def)

definition int64 :: "u64 \<Rightarrow> int" where
  "int64 x = sint x"

definition int4 :: "int \<Rightarrow> bool" where
  "int4 n \<longleftrightarrow> - (2 ^ 31) \<le> n \<and> n < 2 ^ 31"

definition text_ok :: "string \<Rightarrow> bool" where
  "text_ok w \<longleftrightarrow> CHR 0x00 \<notin> set w"

definition run_row_ok :: "run_row \<Rightarrow> bool" where
  "run_row_ok r \<longleftrightarrow>
     rr_status r \<in> {WorkflowPending, WorkflowRunning, WorkflowSucceeded, WorkflowFailed, WorkflowCanceled} \<and>
     0 < rr_workflow_version r \<and> int4 (rr_workflow_version r) \<and>
     0 < rr_snapshot_version r \<and> int4 (rr_snapshot_version r) \<and>
     0 \<le> rr_revision r \<and> 0 \<le> rr_last_event_sequence r \<and> text_ok (rr_run_id r)"

definition task_row_ok :: "task_row \<Rightarrow> bool" where
  "task_row_ok t \<longleftrightarrow>
     tk_status t \<in> {TaskWaitingDependencies, TaskReady, TaskQueued, TaskRunning, TaskWaitingRetry,
                    TaskSucceeded, TaskFailed, TaskCanceled, TaskSkipped} \<and>
     0 \<le> tk_task_index t \<and> int4 (tk_task_index t) \<and>
     0 \<le> tk_remaining_dependencies t \<and> int4 (tk_remaining_dependencies t) \<and> text_ok (tk_task_key t)"

definition attempt_row_ok :: "attempt_row \<Rightarrow> bool" where
  "attempt_row_ok a \<longleftrightarrow>
     ar_status a \<in> {AttemptRunning, AttemptSucceeded, AttemptFailed, AttemptTimedOut, AttemptCanceled, AttemptInterrupted} \<and>
     0 < ar_attempt_number a \<and> int4 (ar_attempt_number a) \<and>
     text_ok (ar_output a) \<and> text_ok (ar_error_code a) \<and> text_ok (ar_error_message a) \<and>
     (ar_worker_id a = None) = (ar_dispatch_id a = None)"

definition event_row_ok :: "event_row \<Rightarrow> bool" where
  "event_row_ok e \<longleftrightarrow>
     0 < ev_sequence e \<and> ev_entity_type e \<in> {''workflow'', ''task'', ''attempt''} \<and>
     text_ok (ev_entity_key e) \<and> text_ok (ev_from_status e) \<and> text_ok (ev_to_status e) \<and> text_ok (ev_reason e)"

section \<open>Statements\<close>

definition sql_update :: "('r \<Rightarrow> bool) \<Rightarrow> ('r \<Rightarrow> 'r) \<Rightarrow> 'r list \<Rightarrow> 'r list" where
  "sql_update matching change rows = map (\<lambda>r. if matching r then change r else r) rows"

text \<open>The number of rows an UPDATE matches and the new table; a changed row that violates a
  constraint fails the statement.\<close>

definition checked_update ::
  "('r \<Rightarrow> bool) \<Rightarrow> ('r \<Rightarrow> bool) \<Rightarrow> ('r \<Rightarrow> 'r) \<Rightarrow> 'r list \<Rightarrow> (nat \<times> 'r list) res" where
  "checked_update ok matching change rows =
     (if list_ex (\<lambda>r. matching r \<and> \<not> ok (change r)) rows then Inl (SqlError ''check_violation'')
      else Inr (length (filter matching rows), sql_update matching change rows))"

definition affected :: "('r \<Rightarrow> bool) \<Rightarrow> 'r list \<Rightarrow> nat" where
  "affected matching rows = length (filter matching rows)"

text \<open>ORDER BY with the smallest key first; rows with equal keys keep the order of the table.\<close>

definition order_by :: "('r \<Rightarrow> 'k :: linorder) \<Rightarrow> 'r list \<Rightarrow> 'r list" where
  "order_by key rows = sort_key key rows"

section \<open>Rows in order\<close>

lemma insort_key_map: "(\<And>x. f (g x) = f x) \<Longrightarrow> insort_key f (g x) (map g ys) = map g (insort_key f x ys)"
  by (induction ys) auto

lemma order_by_map: "(\<And>x. f (g x) = f x) \<Longrightarrow> order_by f (map g xs) = map g (order_by f xs)"
  unfolding order_by_def by (induction xs) (auto simp: insort_key_map)

lemma insort_key_snoc: "f y \<le> f x \<Longrightarrow> insort_key f y (zs @ [x]) = insort_key f y zs @ [x]"
  by (induction zs) auto

lemma order_by_snoc:
  assumes "\<And>y. y \<in> set xs \<Longrightarrow> f y \<le> f x"
  shows "order_by f (xs @ [x]) = order_by f xs @ [x]"
  using assms unfolding order_by_def by (induction xs) (auto simp: insort_key_snoc)

lemma affected_order_by: "affected P xs = length (filter P (order_by f xs))"
proof -
  have "mset (filter P (order_by f xs)) = mset (filter P xs)" by (simp add: order_by_def)
  then show ?thesis unfolding affected_def by (metis mset_eq_length)
qed

lemma filter_sql_update:
  assumes "\<And>r. Q (change r) = Q r"
  shows "filter Q (sql_update matching change rows) = sql_update matching change (filter Q rows)"
  using assms by (induction rows) (auto simp: sql_update_def)

lemma order_by_sql_update:
  assumes "\<And>r. f (change r) = f r"
  shows "order_by f (sql_update matching change rows) = sql_update matching change (order_by f rows)"
  unfolding sql_update_def using assms by (intro order_by_map) simp

lemma sql_update_none: "(\<And>r. r \<in> set rows \<Longrightarrow> \<not> matching r) \<Longrightarrow> sql_update matching change rows = rows"
  unfolding sql_update_def by (induction rows) auto

lemma sql_update_nth:
  assumes "\<And>j. j < length rows \<Longrightarrow> matching (rows ! j) \<longleftrightarrow> j = i"
  shows "sql_update matching change rows = rows[i := change (rows ! i)]"
  using assms by (intro nth_equalityI) (auto simp: sql_update_def nth_list_update)

lemma filter_only:
  assumes "i < length rows" and "\<And>j. j < length rows \<Longrightarrow> matching (rows ! j) \<longleftrightarrow> j = i"
  shows "length (filter matching rows) = 1"
proof -
  have "{j. j < length rows \<and> matching (rows ! j)} = {i}" using assms by auto
  then show ?thesis by (simp add: length_filter_conv_card)
qed

end
