(* ===== verification/Sql_Runs.thy ===== *)
theory Sql_Runs
  imports Sql_Tables
begin

text \<open>
  The run store over PostgreSQL (\<^verbatim>\<open>internal/postgres/run_store.go\<close>) and the
  idempotency records of \<^verbatim>\<open>repository.go\<close>: creation, loading from the relational
  rows, the application of a change set row by row, and the request to cancel. The main
  result is the refinement of \<^verbatim>\<open>applyChangeSet\<close>: what is loaded after the row
  updates is what the change set makes of the snapshot loaded before, with the times of the
  columns' resolution.
\<close>

section \<open>Definitions as JSON\<close>

definition json_field :: "string \<Rightarrow> string \<Rightarrow> string" where
  "json_field name body = json_quote name @ '':'' @ body"

definition json_object :: "string list \<Rightarrow> string" where
  "json_object members = ''{'' @ join '','' members @ ''}''"

definition retry_json :: "RetryPolicy \<Rightarrow> string" where
  "retry_json p = json_object
     ((if rp_MaxAttempts p \<noteq> 0 then [json_field ''max_attempts'' (int_str (rp_MaxAttempts p))] else []) @
      (if rp_IntervalMillis p \<noteq> 0 then [json_field ''interval_ms'' (int_str (rp_IntervalMillis p))] else []))"

definition input_fields :: "task_input \<Rightarrow> string list option" where
  "input_fields input =
     (case input of
        None \<Rightarrow> Some []
      | Some (p, es) \<Rightarrow>
          if es = [] then Some []
          else map_option (\<lambda>w. [json_field ''input'' w]) (json_marshal (input_value input)))"

definition task_json :: "TaskDefinition \<Rightarrow> string option" where
  "task_json t = map_option (\<lambda>input. json_object
     ([json_field ''key'' (json_quote (td_Key t))] @
      (if executor_str (td_Executor t) \<noteq> '''' then [json_field ''executor'' (json_quote (executor_str (td_Executor t)))] else []) @
      [json_field ''action'' (json_quote (td_Action t))] @ input @
      (if td_DependsOn t \<noteq> []
       then [json_field ''depends_on'' (''['' @ join '','' (map json_quote (td_DependsOn t)) @ '']'')] else []) @
      [json_field ''retry'' (retry_json (td_Retry t)), json_field ''timeout_ms'' (int_str (td_TimeoutMillis t))]))
     (input_fields (td_Input t))"

definition definition_json :: "WorkflowDefinition \<Rightarrow> string option" where
  "definition_json def = map_option (\<lambda>tasks. json_object
     [json_field ''id'' (json_quote (wd_ID def)), json_field ''concurrency'' (int_str (wd_Concurrency def)),
      json_field ''tasks'' (''['' @ join '','' tasks @ '']'')])
     (all_some (map task_json (wd_Tasks def)))"

section \<open>Loading\<close>

definition find_run :: "db \<Rightarrow> RunID \<Rightarrow> run_row option" where
  "find_run d runID = find (\<lambda>r. rr_run_id r = runID) (db_runs d)"

definition find_version :: "db \<Rightarrow> string \<Rightarrow> int \<Rightarrow> version_row option" where
  "find_version d workflow version =
     find (\<lambda>v. ve_workflow_id v = workflow \<and> ve_version v = version) (db_versions d)"

definition task_rows :: "db \<Rightarrow> RunID \<Rightarrow> task_row list" where
  "task_rows d runID = order_by tk_task_index (filter (\<lambda>t. tk_run_id t = runID) (db_tasks d))"

text \<open>The join with \<^verbatim>\<open>task_runs\<close>, ordered by task index and attempt number.\<close>

definition attempt_rows_of :: "db \<Rightarrow> RunID \<Rightarrow> TaskKey \<Rightarrow> attempt_row list" where
  "attempt_rows_of d runID key =
     order_by ar_attempt_number (filter (\<lambda>a. ar_run_id a = runID \<and> ar_task_key a = key) (db_attempts d))"

definition joined_attempts :: "db \<Rightarrow> RunID \<Rightarrow> (int \<times> attempt_row) list" where
  "joined_attempts d runID =
     concat (map (\<lambda>t. map (Pair (tk_task_index t)) (attempt_rows_of d runID (tk_task_key t))) (task_rows d runID))"

definition event_rows :: "db \<Rightarrow> RunID \<Rightarrow> event_row list" where
  "event_rows d runID = order_by ev_sequence (filter (\<lambda>e. ev_run_id e = runID) (db_events d))"

definition coalesce :: "string option \<Rightarrow> string" where
  "coalesce w = (case w of None \<Rightarrow> '''' | Some v \<Rightarrow> v)"

definition task_of_row :: "task_row \<Rightarrow> TaskRun" where
  "task_of_row t = \<lparr>tr_Key = tk_task_key t, tr_Status = tk_status t, tr_Attempts = [],
     tr_ReadyAt = tk_ready_at t, tr_FinishedAt = tk_finished_at t\<rparr>"

definition attempt_of_row :: "attempt_row \<Rightarrow> Attempt" where
  "attempt_of_row a = \<lparr>at_Number = ar_attempt_number a, at_Status = ar_status a,
     at_WorkerID = coalesce (ar_worker_id a), at_DispatchID = coalesce (ar_dispatch_id a),
     at_StartedAt = ar_started_at a, at_FinishedAt = ar_finished_at a,
     at_Result = \<lparr>er_Output = ar_output a, er_ErrorCode = ar_error_code a, er_ErrorMessage = ar_error_message a\<rparr>\<rparr>"

definition event_of_row :: "event_row \<Rightarrow> StateEvent" where
  "event_of_row e = \<lparr>se_Sequence = of_int (ev_sequence e), se_At = ev_occurred_at e, se_Entity = ev_entity_type e,
     se_Key = ev_entity_key e, se_From = ev_from_status e, se_To = ev_to_status e, se_Reason = ev_reason e\<rparr>"

definition scan_task :: "task_row \<Rightarrow> TaskRun list \<times> int list \<Rightarrow> (TaskRun list \<times> int list) res" where
  "scan_task row = (\<lambda>(tasks, remaining).
     if tk_task_index row \<noteq> int (length tasks) then Inl (Errorf ''stored TaskRun index %d is not contiguous'')
     else Inr (tasks @ [task_of_row row], remaining @ [tk_remaining_dependencies row]))"

definition scan_attempt :: "int \<times> attempt_row \<Rightarrow> TaskRun list \<Rightarrow> TaskRun list res" where
  "scan_attempt = (\<lambda>(index, row) tasks.
     let i = nat index in
     if index < 0 \<or> int (length tasks) \<le> index \<or> tr_Key (tasks ! i) \<noteq> ar_task_key row
       then Inl (Errorf ''stored Attempt task %q has invalid index %d'')
     else if ar_attempt_number row \<noteq> int (length (tr_Attempts (tasks ! i))) + 1
       then Inl (Errorf ''stored Attempt %s/%d is not contiguous'')
     else Inr (tasks[i := (tasks ! i)\<lparr>tr_Attempts := tr_Attempts (tasks ! i) @ [attempt_of_row row]\<rparr>]))"

definition scan_event :: "event_row \<Rightarrow> StateEvent list \<Rightarrow> StateEvent list res" where
  "scan_event row events =
     (if ev_sequence row \<le> 0 \<or> (of_int (ev_sequence row) :: u64) \<noteq> of_nat (length events + 1)
        then Inl (Errorf ''stored StateEvent sequence %d is not contiguous'')
      else Inr (events @ [event_of_row row]))"

definition loadSnapshot :: "db \<Rightarrow> RunID \<Rightarrow> RunSnapshot res" where
  "loadSnapshot d runID =
     (case find_run d runID of None \<Rightarrow> Inl ErrRunNotFound | Some r \<Rightarrow>
      (case find_version d (rr_workflow_id r) (rr_workflow_version r) of None \<Rightarrow> Inl ErrRunNotFound | Some v \<Rightarrow>
       if rr_revision r < 0 \<or> rr_last_event_sequence r < 0
         then Inl (Errorf ''stored Run has negative revision or event sequence'')
       else
         bindR (case Compile (ve_definition v) of
                  Inl e \<Rightarrow> Inl (Errorf ''compile stored workflow definition: %w'') | Inr cw \<Rightarrow> Inr (cw_definition cw)) (\<lambda>def.
         bindR (foldR scan_task (task_rows d runID) ([], [])) (\<lambda>(tasks, remaining).
         if length tasks \<noteq> length (wd_Tasks def)
           then Inl (Errorf ''stored TaskRun count %d does not match definition count %d'')
         else
           bindR (foldR scan_attempt (joined_attempts d runID) tasks) (\<lambda>tasks.
           bindR (foldR scan_event (event_rows d runID) []) (\<lambda>events.
           if (of_int (rr_last_event_sequence r) :: u64) \<noteq> of_nat (length events)
             then Inl (Errorf ''stored last event sequence %d does not match event count %d'')
           else Inr \<lparr>rs_Version = rr_snapshot_version r, rs_Definition = Some def,
                     rs_Run = \<lparr>wr_ID = rr_run_id r, wr_DefinitionID = rr_workflow_id r,
                       wr_DefinitionVersion = rr_workflow_version r, wr_Status = rr_status r,
                       wr_Revision = of_int (rr_revision r), wr_LastEventSequence = of_int (rr_last_event_sequence r),
                       wr_CancelRequestedAt = rr_cancel_requested_at r, wr_Tasks = tasks,
                       wr_RemainingDependencies = remaining, wr_CreatedAt = rr_created_at r,
                       wr_StartedAt = rr_started_at r, wr_FinishedAt = rr_finished_at r\<rparr>,
                     rs_Events = events\<rparr>))))))"

definition pg_Load :: "db \<Rightarrow> RunID \<Rightarrow> RunSnapshot res" where
  "pg_Load d runID = loadSnapshot d runID"

section \<open>Rows from values\<close>

definition nullableText :: "string \<Rightarrow> string option" where
  "nullableText w = (if w = '''' then None else Some w)"

abbreviation tz_opt :: "time option \<Rightarrow> time option" where
  "tz_opt \<equiv> map_option timestamptz"

definition attempt_values :: "Attempt \<Rightarrow> attempt_row \<Rightarrow> attempt_row" where
  "attempt_values a row = row\<lparr>ar_status := at_Status a, ar_started_at := timestamptz (at_StartedAt a),
     ar_finished_at := tz_opt (at_FinishedAt a), ar_output := er_Output (at_Result a),
     ar_error_code := er_ErrorCode (at_Result a), ar_error_message := er_ErrorMessage (at_Result a),
     ar_worker_id := nullableText (at_WorkerID a), ar_dispatch_id := nullableText (at_DispatchID a)\<rparr>"

definition new_attempt_row :: "RunID \<Rightarrow> TaskKey \<Rightarrow> Attempt \<Rightarrow> attempt_row" where
  "new_attempt_row runID key a = attempt_values a
     \<lparr>ar_run_id = runID, ar_task_key = key, ar_attempt_number = at_Number a, ar_status = at_Status a,
      ar_started_at = 0, ar_finished_at = None, ar_output = '''', ar_error_code = '''', ar_error_message = '''',
      ar_worker_id = None, ar_dispatch_id = None\<rparr>"

definition new_event_row :: "RunID \<Rightarrow> StateEvent \<Rightarrow> event_row" where
  "new_event_row runID e = \<lparr>ev_run_id = runID, ev_sequence = int64 (se_Sequence e), ev_entity_type = se_Entity e,
     ev_entity_key = se_Key e, ev_from_status = se_From e, ev_to_status = se_To e, ev_reason = se_Reason e,
     ev_occurred_at = timestamptz (se_At e)\<rparr>"

text \<open>The foreign keys of an attempt and the unique index on its dispatch.\<close>

definition attempt_refs_ok :: "db \<Rightarrow> attempt_row \<Rightarrow> bool" where
  "attempt_refs_ok d a \<longleftrightarrow> attempt_row_ok a \<and>
     (case ar_worker_id a of None \<Rightarrow> True | Some w \<Rightarrow> list_ex (\<lambda>r. wk_worker_id r = w) (db_workers d)) \<and>
     (case ar_dispatch_id a of None \<Rightarrow> True | Some w \<Rightarrow> list_ex (\<lambda>r. dr_dispatch_id r = w) (db_dispatches d))"

definition dispatches_unique :: "attempt_row list \<Rightarrow> bool" where
  "dispatches_unique rows = distinct (List.map_filter ar_dispatch_id rows)"

section \<open>Inserting\<close>

definition insertAttempt :: "RunID \<Rightarrow> TaskKey \<Rightarrow> int \<Rightarrow> Attempt \<Rightarrow> db \<Rightarrow> db res" where
  "insertAttempt runID key index attempt d =
     (let source = filter (\<lambda>t. tk_run_id t = runID \<and> tk_task_key t = key \<and> tk_task_index t = index) (db_tasks d);
          numbers = map ar_attempt_number (filter (\<lambda>a. ar_run_id a = runID \<and> ar_task_key a = key) (db_attempts d));
          next_number = (if numbers = [] then 1 else fold max numbers 0 + 1);
          rows = (if at_Number attempt = next_number then map (\<lambda>_. new_attempt_row runID key attempt) source else [])
      in if list_ex (\<lambda>r. \<not> attempt_refs_ok d r) rows \<or> \<not> dispatches_unique (db_attempts d @ rows)
           then Inl (SqlError ''attempts'')
         else if length rows \<noteq> 1 then Inl (ErrInvalidChangeSet ''Attempt task %q does not match index %d'')
         else Inr (d\<lparr>db_attempts := db_attempts d @ rows\<rparr>))"

definition insertEvent :: "RunID \<Rightarrow> StateEvent \<Rightarrow> db \<Rightarrow> db res" where
  "insertEvent runID event d =
     (let row = new_event_row runID event in
      if \<not> event_row_ok row then Inl (SqlError ''check_violation'')
      else if list_ex (\<lambda>e. ev_run_id e = runID \<and> ev_sequence e = ev_sequence row) (db_events d)
        then Inl (SqlError ''state_events_pkey'')
      else if find_run d runID = None then Inl (SqlError ''state_events_run_id_fkey'')
      else Inr (d\<lparr>db_events := db_events d @ [row]\<rparr>))"

definition ensureDefinitionMatches :: "db \<Rightarrow> RunSnapshot \<Rightarrow> unit res" where
  "ensureDefinitionMatches d s =
     (case find_version d (wr_DefinitionID (rs_Run s)) (wr_DefinitionVersion (rs_Run s)) of
        None \<Rightarrow> Inl ErrDefinitionNotFound
      | Some v \<Rightarrow>
          (case Compile (ve_definition v) of Inl e \<Rightarrow> Inl (Errorf ''compile stored Run definition: %w'') | Inr stored \<Rightarrow>
           (case rs_Definition s of None \<Rightarrow> Inl (GoPanic ''nil pointer dereference'') | Some def \<Rightarrow>
            (case Compile def of Inl e \<Rightarrow> Inl (Errorf ''compile Run definition: %w'') | Inr wanted \<Rightarrow>
             (case definition_json (cw_definition stored) of
                None \<Rightarrow> Inl (Errorf ''encode stored Run definition: %w'')
              | Some storedCanonical \<Rightarrow>
                  (case definition_json (cw_definition wanted) of
                     None \<Rightarrow> Inl (Errorf ''encode Run definition: %w'')
                   | Some wantedCanonical \<Rightarrow>
                       if storedCanonical \<noteq> wantedCanonical
                         then Inl (Errorf ''Run snapshot definition does not match workflow version'')
                       else Inr ()))))))"

definition new_run_row :: "RunSnapshot \<Rightarrow> string option \<Rightarrow> run_row" where
  "new_run_row s createdBy =
     (let r = rs_Run s in
      \<lparr>rr_run_id = wr_ID r, rr_workflow_id = wr_DefinitionID r, rr_workflow_version = wr_DefinitionVersion r,
       rr_snapshot_version = rs_Version s, rr_status = wr_Status r, rr_revision = int64 (wr_Revision r),
       rr_last_event_sequence = int64 (wr_LastEventSequence r), rr_cancel_requested_at = tz_opt (wr_CancelRequestedAt r),
       rr_created_at = timestamptz (wr_CreatedAt r), rr_started_at = tz_opt (wr_StartedAt r),
       rr_finished_at = tz_opt (wr_FinishedAt r), rr_created_by = createdBy\<rparr>)"

definition insert_run :: "RunSnapshot \<Rightarrow> string option \<Rightarrow> db \<Rightarrow> db res" where
  "insert_run s createdBy d =
     (let row = new_run_row s createdBy in
      if \<not> run_row_ok row then Inl (SqlError ''check_violation'')
      else if find_run d (rr_run_id row) \<noteq> None then Inl (SqlError ''workflow_runs_pkey'')
      else Inr (d\<lparr>db_runs := db_runs d @ [row]\<rparr>))"

definition insert_task_run :: "RunSnapshot \<Rightarrow> nat \<Rightarrow> db \<Rightarrow> db res" where
  "insert_task_run s index d =
     (let task = run_tasks s ! index; runID = wr_ID (rs_Run s);
          row = \<lparr>tk_run_id = runID, tk_task_key = tr_Key task, tk_task_index = int index, tk_status = tr_Status task,
                 tk_remaining_dependencies = run_remaining s ! index, tk_ready_at = tz_opt (tr_ReadyAt task),
                 tk_finished_at = tz_opt (tr_FinishedAt task)\<rparr> in
      if \<not> task_row_ok row then Inl (SqlError ''check_violation'')
      else if list_ex (\<lambda>t. tk_run_id t = runID \<and> tk_task_key t = tr_Key task) (db_tasks d)
        then Inl (SqlError ''task_runs_pkey'')
      else if list_ex (\<lambda>t. tk_run_id t = runID \<and> tk_task_index t = int index) (db_tasks d)
        then Inl (SqlError ''task_runs_run_id_task_index_key'')
      else foldR (insertAttempt runID (tr_Key task) (int index)) (tr_Attempts task) (d\<lparr>db_tasks := db_tasks d @ [row]\<rparr>))"

definition insertSnapshot :: "RunSnapshot \<Rightarrow> string option \<Rightarrow> db \<Rightarrow> db res" where
  "insertSnapshot s createdBy d =
     bindR (ensureDefinitionMatches d s) (\<lambda>_.
     bindR (insert_run s createdBy d) (\<lambda>d.
     bindR (foldR (insert_task_run s) [0 ..< length (run_tasks s)] d) (\<lambda>d.
     foldR (insertEvent (wr_ID (rs_Run s))) (rs_Events s) d)))"

section \<open>Creating a run\<close>

definition check_initial_task :: "RunSnapshot \<Rightarrow> WorkflowDefinition \<Rightarrow> nat \<Rightarrow> unit \<Rightarrow> unit res" where
  "check_initial_task s def index u =
     (if tr_Key (run_tasks s ! index) \<noteq> td_Key (wd_Tasks def ! index)
        then Inl (Errorf ''task key %q does not match definition index %d'')
      else if run_remaining s ! index < 0 then Inl (Errorf ''task %q has negative remaining dependencies'')
      else Inr ())"

fun check_initial_events :: "nat \<Rightarrow> u64 \<Rightarrow> StateEvent list \<Rightarrow> u64 res" where
  "check_initial_events index lastSequence [] = Inr lastSequence"
| "check_initial_events index lastSequence (event # events) =
     (if se_Sequence event \<noteq> of_nat (index + 1) then Inl (Errorf ''initial event sequence %d must be %d'')
      else check_initial_events (index + 1) (se_Sequence event) events)"

definition validateInitialSnapshot :: "RunSnapshot \<Rightarrow> unit res" where
  "validateInitialSnapshot s =
     (if rs_Version s \<le> 0 then Inl (Errorf ''snapshot version must be positive'')
      else case rs_Definition s of
        None \<Rightarrow> Inl (Errorf ''snapshot definition is required'')
      | Some def \<Rightarrow>
          if wr_ID (rs_Run s) = '''' then Inl (Errorf ''RunID is required'')
          else if wr_DefinitionID (rs_Run s) \<noteq> wd_ID def
            then Inl (Errorf ''Run definition ID %q does not match snapshot definition ID %q'')
          else if wr_DefinitionVersion (rs_Run s) \<le> 0 then Inl (Errorf ''Run definition version must be positive'')
          else if run_status s \<noteq> WorkflowPending \<or> wr_Revision (rs_Run s) \<noteq> 0
            then Inl (Errorf ''new Run must be pending at revision 0'')
          else if length (run_tasks s) \<noteq> length (wd_Tasks def) \<or> length (run_tasks s) \<noteq> length (run_remaining s)
            then Inl (Errorf ''Run task, definition, and dependency counts must match'')
          else
            bindR (foldR (check_initial_task s def) [0 ..< length (run_tasks s)] ()) (\<lambda>_.
            bindR (check_initial_events 0 0 (rs_Events s)) (\<lambda>lastSequence.
            if wr_LastEventSequence (rs_Run s) \<noteq> lastSequence
              then Inl (Errorf ''Run last event sequence %d must be %d'')
            else Inr ())))"

definition as_run_exists :: "'a res \<Rightarrow> 'a res" where
  "as_run_exists r = (if r = Inl (SqlError ''workflow_runs_pkey'') then Inl ErrRunExists else r)"

definition pg_Create :: "RunSnapshot \<Rightarrow> db \<Rightarrow> db res" where
  "pg_Create s d = bindR (validateInitialSnapshot s) (\<lambda>_. as_run_exists (insertSnapshot s None d))"

section \<open>Idempotency\<close>

definition operationStartRun :: string where
  "operationStartRun = ''start_run''"

definition resourceRun :: string where
  "resourceRun = ''run''"

definition lock_key :: "string \<Rightarrow> string \<Rightarrow> string \<Rightarrow> string" where
  "lock_key principalID operation key =
     nat_str (length principalID) @ '':'' @ principalID @ nat_str (length operation) @ '':'' @ operation @
     nat_str (length key) @ '':'' @ key"

text \<open>The advisory lock makes the transactions of one key follow each other.\<close>

definition lockIdempotency :: "string \<Rightarrow> string \<Rightarrow> string \<Rightarrow> unit res" where
  "lockIdempotency principalID operation key =
     (if text_ok (lock_key principalID operation key) then Inr () else Inl (SqlError ''invalid byte sequence''))"

definition loadIdempotency :: "db \<Rightarrow> string \<Rightarrow> string \<Rightarrow> string \<Rightarrow> idem_row option" where
  "loadIdempotency d principalID operation key =
     find (\<lambda>r. ir_principal_id r = principalID \<and> ir_operation r = operation \<and> ir_idempotency_key r = key) (db_idempotency d)"

definition insertIdempotency ::
  "string \<Rightarrow> string \<Rightarrow> string \<Rightarrow> string \<Rightarrow> string \<Rightarrow> string \<Rightarrow> int option \<Rightarrow> db \<Rightarrow> db res" where
  "insertIdempotency principalID operation key requestHash resourceType resourceID resourceVersion d =
     (let row = \<lparr>ir_principal_id = principalID, ir_operation = operation, ir_idempotency_key = key,
                 ir_request_hash = requestHash, ir_resource_type = resourceType, ir_resource_id = resourceID,
                 ir_resource_version = resourceVersion\<rparr> in
      if \<not> list_all (\<lambda>w. w \<noteq> '''' \<and> text_ok w) [principalID, operation, key, requestHash, resourceType, resourceID] \<or>
         \<not> (case resourceVersion of None \<Rightarrow> True | Some n \<Rightarrow> int4 n)
        then Inl (SqlError ''check_violation'')
      else if loadIdempotency d principalID operation key \<noteq> None then Inl (SqlError ''idempotency_records_pkey'')
      else Inr (d\<lparr>db_idempotency := db_idempotency d @ [row]\<rparr>))"

definition validateIdempotencyInput :: "string \<Rightarrow> string \<Rightarrow> string \<Rightarrow> unit res" where
  "validateIdempotencyInput principalID key requestHash =
     (if blank principalID then Inl (Errorf ''principal is required'')
      else if blank key then Inl (Errorf ''idempotency key is required'')
      else if blank requestHash then Inl (Errorf ''request hash is required'')
      else Inr ())"

definition validateReplay :: "idem_row \<Rightarrow> string \<Rightarrow> string \<Rightarrow> unit res" where
  "validateReplay record requestHash resourceType =
     (if ir_request_hash record \<noteq> requestHash \<or> ir_resource_type record \<noteq> resourceType then Inl ErrIdempotencyConflict
      else Inr ())"

definition pg_CreateRun :: "RunSnapshot \<Rightarrow> string \<Rightarrow> string \<Rightarrow> string \<Rightarrow> db \<Rightarrow> ((RunID \<times> bool) \<times> db) res" where
  "pg_CreateRun s principalID idemKey requestHash d =
     bindR (validateInitialSnapshot s) (\<lambda>_.
     bindR (validateIdempotencyInput principalID idemKey requestHash) (\<lambda>_.
     bindR (lockIdempotency principalID operationStartRun idemKey) (\<lambda>_.
     case loadIdempotency d principalID operationStartRun idemKey of
       Some record \<Rightarrow>
         bindR (validateReplay record requestHash resourceRun) (\<lambda>_. Inr ((ir_resource_id record, False), d))
     | None \<Rightarrow>
         bindR (as_run_exists (insertSnapshot s (Some principalID) d)) (\<lambda>d.
         bindR (insertIdempotency principalID operationStartRun idemKey requestHash resourceRun (wr_ID (rs_Run s)) None d) (\<lambda>d.
         Inr ((wr_ID (rs_Run s), True), d))))))"

section \<open>Applying a change set\<close>

definition check_task_shape :: "RunID \<Rightarrow> TaskRunChange \<Rightarrow> int list \<Rightarrow> int list res" where
  "check_task_shape runID c seen =
     (if tc_RunID c \<noteq> runID \<or> tc_Index c < 0 \<or> tr_Key (tc_Task c) = '''' \<or> tr_Attempts (tc_Task c) \<noteq> [] \<or>
         tc_RemainingDependencies c < 0
        then Inl (ErrInvalidChangeSet ''invalid TaskRun change for key %q'')
      else if tc_Index c \<in> set seen then Inl (ErrInvalidChangeSet ''task index %d is changed more than once'')
      else Inr (tc_Index c # seen))"

definition check_attempt_shape :: "RunID \<Rightarrow> AttemptChange \<Rightarrow> string list \<Rightarrow> string list res" where
  "check_attempt_shape runID c seen =
     (if ac_RunID c \<noteq> runID \<or> ac_TaskIndex c < 0 \<or> ac_TaskKey c = '''' \<or> at_Number (ac_Attempt c) \<le> 0
        then Inl (ErrInvalidChangeSet ''invalid Attempt change for task %q'')
      else
        let key = ac_TaskKey c @ ''/'' @ int_str (at_Number (ac_Attempt c)) in
        if key \<in> set seen then Inl (ErrInvalidChangeSet ''Attempt %s is changed more than once'')
        else Inr (key # seen))"

definition validateChangeSetShape :: "ChangeSet \<Rightarrow> WorkflowRun res" where
  "validateChangeSetShape change =
     (case cs_Run change of
        None \<Rightarrow> Inl (ErrInvalidChangeSet ''RunID and Run row are required'')
      | Some run \<Rightarrow>
          if cs_RunID change = '''' then Inl (ErrInvalidChangeSet ''RunID and Run row are required'')
          else if wr_ID run \<noteq> cs_RunID change
            then Inl (ErrInvalidChangeSet ''Run row ID %q does not match ChangeSet RunID %q'')
          else if wr_Revision run \<noteq> cs_ExpectedRevision change + 1
            then Inl (ErrInvalidChangeSet ''Run revision %d must follow expected revision %d'')
          else if wr_Tasks run \<noteq> [] \<or> wr_RemainingDependencies run \<noteq> []
            then Inl (ErrInvalidChangeSet ''Run row must not embed TaskRun rows'')
          else
            bindR (foldR (check_task_shape (cs_RunID change)) (cs_Tasks change) []) (\<lambda>_.
            bindR (foldR (check_attempt_shape (cs_RunID change)) (cs_Attempts change) []) (\<lambda>_.
            case cs_Events change of
              [] \<Rightarrow> Inr run
            | event # events \<Rightarrow>
                if se_Sequence event = 0 then Inl (ErrInvalidChangeSet ''event sequence must be positive'')
                else
                  bindR (check_events (se_Sequence event) (event # events)) (\<lambda>_.
                  if wr_LastEventSequence run \<noteq> se_Sequence event + of_nat (length (event # events)) - 1
                    then Inl (ErrInvalidChangeSet ''Run last event sequence does not match appended events'')
                  else Inr run))))"

definition classifyRunUpdateMiss :: "db \<Rightarrow> RunID \<Rightarrow> u64 \<Rightarrow> u64 \<Rightarrow> unit res" where
  "classifyRunUpdateMiss d runID revision lastSequence =
     (case find_run d runID of
        None \<Rightarrow> Inl ErrRunNotFound
      | Some r \<Rightarrow>
          if of_int (rr_revision r) \<noteq> revision then Inl ErrRevisionConflict
          else if of_int (rr_last_event_sequence r) \<noteq> lastSequence
            then Inl (ErrInvalidChangeSet ''stored event sequence %d does not match expected %d'')
          else Inr ())"

definition update_run :: "ChangeSet \<Rightarrow> WorkflowRun \<Rightarrow> u64 \<Rightarrow> db \<Rightarrow> db res" where
  "update_run change run expectedLastSequence d =
     bindR (checked_update run_row_ok
        (\<lambda>r. rr_run_id r = cs_RunID change \<and> rr_revision r = int64 (cs_ExpectedRevision change) \<and>
             rr_last_event_sequence r = int64 expectedLastSequence)
        (\<lambda>r. r\<lparr>rr_status := wr_Status run, rr_revision := int64 (wr_Revision run),
               rr_last_event_sequence := int64 (wr_LastEventSequence run),
               rr_cancel_requested_at := tz_opt (wr_CancelRequestedAt run), rr_created_at := timestamptz (wr_CreatedAt run),
               rr_started_at := tz_opt (wr_StartedAt run), rr_finished_at := tz_opt (wr_FinishedAt run)\<rparr>)
        (db_runs d)) (\<lambda>(n, rows).
     if n \<noteq> 1 then
       bindR (classifyRunUpdateMiss d (cs_RunID change) (cs_ExpectedRevision change) expectedLastSequence) (\<lambda>_.
       Inl ErrRevisionConflict)
     else Inr (d\<lparr>db_runs := rows\<rparr>))"

definition update_task_run :: "TaskRunChange \<Rightarrow> db \<Rightarrow> db res" where
  "update_task_run c d =
     bindR (checked_update task_row_ok
        (\<lambda>t. tk_run_id t = tc_RunID c \<and> tk_task_index t = tc_Index c \<and> tk_task_key t = tr_Key (tc_Task c))
        (\<lambda>t. t\<lparr>tk_status := tr_Status (tc_Task c), tk_remaining_dependencies := tc_RemainingDependencies c,
               tk_ready_at := tz_opt (tr_ReadyAt (tc_Task c)), tk_finished_at := tz_opt (tr_FinishedAt (tc_Task c))\<rparr>)
        (db_tasks d)) (\<lambda>(n, rows).
     if n \<noteq> 1 then Inl (ErrInvalidChangeSet ''TaskRun %q does not match index %d'')
     else Inr (d\<lparr>db_tasks := rows\<rparr>))"

definition update_attempt :: "AttemptChange \<Rightarrow> db \<Rightarrow> db res" where
  "update_attempt c d =
     bindR (checked_update (attempt_refs_ok d)
        (\<lambda>a. ar_run_id a = ac_RunID c \<and> ar_task_key a = ac_TaskKey c \<and> ar_attempt_number a = at_Number (ac_Attempt c) \<and>
             list_ex (\<lambda>t. tk_run_id t = ac_RunID c \<and> tk_task_key t = ac_TaskKey c \<and> tk_task_index t = ac_TaskIndex c) (db_tasks d))
        (attempt_values (ac_Attempt c)) (db_attempts d)) (\<lambda>(n, rows).
     if \<not> dispatches_unique rows then Inl (SqlError ''attempts_dispatch_unique'')
     else if n \<noteq> 1 then Inl (ErrInvalidChangeSet ''Attempt %s/%d does not exist'')
     else Inr (d\<lparr>db_attempts := rows\<rparr>))"

definition apply_attempt_row :: "AttemptChange \<Rightarrow> db \<Rightarrow> db res" where
  "apply_attempt_row c d =
     (case ac_Operation c of
        ChangeInsert \<Rightarrow> insertAttempt (ac_RunID c) (ac_TaskKey c) (ac_TaskIndex c) (ac_Attempt c) d
      | ChangeUpdate \<Rightarrow> update_attempt c d
      | ChangeOther w \<Rightarrow> Inl (ErrInvalidChangeSet ''unknown Attempt operation %q''))"

definition applyChangeSetTx :: "ChangeSet \<Rightarrow> db \<Rightarrow> db res" where
  "applyChangeSetTx change d =
     bindR (validateChangeSetShape change) (\<lambda>run.
     let expectedLastSequence =
           (if cs_Events change \<noteq> [] then se_Sequence (hd (cs_Events change)) - 1 else wr_LastEventSequence run) in
     bindR (update_run change run expectedLastSequence d) (\<lambda>d.
     bindR (foldR update_task_run (cs_Tasks change) d) (\<lambda>d.
     bindR (foldR apply_attempt_row (cs_Attempts change) d) (\<lambda>d.
     foldR (insertEvent (cs_RunID change)) (cs_Events change) d))))"

definition pg_Apply :: "ChangeSet \<Rightarrow> db \<Rightarrow> db res" where
  "pg_Apply change d = bindR (validateChangeSetShape change) (\<lambda>_. applyChangeSetTx change d)"

section \<open>Recovery list and cancellation\<close>

definition pg_ListNonTerminal :: "db \<Rightarrow> RunID list" where
  "pg_ListNonTerminal d =
     map rr_run_id (order_by rr_created_at (order_by rr_run_id
       (filter (\<lambda>r. rr_status r \<notin> {WorkflowSucceeded, WorkflowFailed, WorkflowCanceled}) (db_runs d))))"

definition pg_RequestCancel :: "RunID \<Rightarrow> time \<Rightarrow> db \<Rightarrow> (WorkflowRun \<times> db) res" where
  "pg_RequestCancel runID at d =
     (case find_run d runID of
        None \<Rightarrow> Inl ErrRunNotFound
      | Some r \<Rightarrow>
          bindR (if \<not> isWorkflowTerminal (rr_status r) \<and> rr_cancel_requested_at r = None
                 then if rr_revision r + 1 \<ge> 2 ^ 63 then Inl (SqlError ''bigint out of range'')
                      else Inr (d\<lparr>db_runs := sql_update (\<lambda>r. rr_run_id r = runID)
                             (\<lambda>r. r\<lparr>rr_cancel_requested_at := Some (timestamptz at), rr_revision := rr_revision r + 1\<rparr>)
                             (db_runs d)\<rparr>)
                 else Inr d) (\<lambda>d.
          bindR (loadSnapshot d runID) (\<lambda>s. Inr (rs_Run s, d))))"

end
