(* ===== verification/Sql_Refine.thy ===== *)
theory Sql_Refine
  imports Sql_Runs
begin

text \<open>
  The relational run store refines the change sets on snapshots: loading after
  \<^verbatim>\<open>applyChangeSetTx\<close> gives the snapshot \<^verbatim>\<open>applyChangeSet\<close> computes.
\<close>

section \<open>The columns' resolution\<close>

definition stored_attempt :: "Attempt \<Rightarrow> Attempt" where
  "stored_attempt a = a\<lparr>at_StartedAt := timestamptz (at_StartedAt a), at_FinishedAt := tz_opt (at_FinishedAt a)\<rparr>"

definition stored_task :: "TaskRun \<Rightarrow> TaskRun" where
  "stored_task t = t\<lparr>tr_Attempts := map stored_attempt (tr_Attempts t), tr_ReadyAt := tz_opt (tr_ReadyAt t),
     tr_FinishedAt := tz_opt (tr_FinishedAt t)\<rparr>"

definition stored_event :: "StateEvent \<Rightarrow> StateEvent" where
  "stored_event e = e\<lparr>se_At := timestamptz (se_At e)\<rparr>"

definition as_stored :: "RunSnapshot \<Rightarrow> RunSnapshot" where
  "as_stored s = s\<lparr>rs_Run := (rs_Run s)\<lparr>wr_CancelRequestedAt := tz_opt (wr_CancelRequestedAt (rs_Run s)),
       wr_Tasks := map stored_task (run_tasks s), wr_CreatedAt := timestamptz (wr_CreatedAt (rs_Run s)),
       wr_StartedAt := tz_opt (wr_StartedAt (rs_Run s)), wr_FinishedAt := tz_opt (wr_FinishedAt (rs_Run s))\<rparr>,
     rs_Events := map stored_event (rs_Events s)\<rparr>"

lemma tz_opt_idem [simp]: "tz_opt (tz_opt x) = tz_opt x"
  by (cases x) simp_all

lemma stored_idem [simp]:
  "stored_attempt (stored_attempt a) = stored_attempt a" "stored_task (stored_task t) = stored_task t"
  "stored_event (stored_event e) = stored_event e" "as_stored (as_stored s) = as_stored s"
  by (simp_all add: stored_attempt_def stored_task_def stored_event_def as_stored_def comp_def)

lemma stored_simps [simp]:
  "at_Number (stored_attempt a) = at_Number a" "at_Status (stored_attempt a) = at_Status a"
  "(at_FinishedAt (stored_attempt a) = None) = (at_FinishedAt a = None)"
  "at_WorkerID (stored_attempt a) = at_WorkerID a" "at_DispatchID (stored_attempt a) = at_DispatchID a"
  "tr_Key (stored_task t) = tr_Key t" "tr_Status (stored_task t) = tr_Status t"
  "tr_Attempts (stored_task t) = map stored_attempt (tr_Attempts t)"
  "(tr_ReadyAt (stored_task t) = None) = (tr_ReadyAt t = None)"
  "(tr_FinishedAt (stored_task t) = None) = (tr_FinishedAt t = None)"
  "se_Sequence (stored_event e) = se_Sequence e"
  by (simp_all add: stored_attempt_def stored_task_def stored_event_def)

lemma as_stored_simps [simp]:
  "run_tasks (as_stored s) = map stored_task (run_tasks s)" "run_remaining (as_stored s) = run_remaining s"
  "run_status (as_stored s) = run_status s" "wr_ID (rs_Run (as_stored s)) = wr_ID (rs_Run s)"
  "wr_Revision (rs_Run (as_stored s)) = wr_Revision (rs_Run s)"
  "wr_LastEventSequence (rs_Run (as_stored s)) = wr_LastEventSequence (rs_Run s)"
  "wr_DefinitionID (rs_Run (as_stored s)) = wr_DefinitionID (rs_Run s)"
  "wr_DefinitionVersion (rs_Run (as_stored s)) = wr_DefinitionVersion (rs_Run s)"
  "(wr_CancelRequestedAt (rs_Run (as_stored s)) = None) = (wr_CancelRequestedAt (rs_Run s) = None)"
  "(wr_StartedAt (rs_Run (as_stored s)) = None) = (wr_StartedAt (rs_Run s) = None)"
  "(wr_FinishedAt (rs_Run (as_stored s)) = None) = (wr_FinishedAt (rs_Run s) = None)"
  "rs_Events (as_stored s) = map stored_event (rs_Events s)" "rs_Definition (as_stored s) = rs_Definition s"
  "rs_Version (as_stored s) = rs_Version s"
  by (simp_all add: as_stored_def)

text \<open>The invariant of a run does not depend on fractions of a microsecond.\<close>

lemma history_ok_stored: "history_ok limit (stored_task t) = history_ok limit t"
proof -
  have "map at_Number (map stored_attempt as) = map at_Number as" "map at_Status (map stored_attempt as) = map at_Status as"
    for as by simp_all
  moreover have "list_all (\<lambda>a. isRetryableAttemptStatus (at_Status a)) (butlast (map stored_attempt as)) =
      list_all (\<lambda>a. isRetryableAttemptStatus (at_Status a)) (butlast as)" for as
    by (simp add: map_butlast [symmetric] list.pred_map comp_def)
  ultimately show ?thesis
    by (simp add: history_ok_def Let_def list.pred_map comp_def del: map_map)
qed

lemma phase_ok_stored: "phase_ok st (map stored_task ts) = phase_ok st ts"
  by (cases st) (simp_all add: list.pred_map comp_def list_ex_iff allTasksSucceeded_def hasFailedTask_def)

lemma run_inv_as_stored:
  assumes inv: "run_inv cw s" and wf: "wf_compiled cw"
  shows "run_inv cw (as_stored s)"
proof -
  have len: "length (run_tasks s) = task_count cw" using inv shape_length by (auto simp: run_inv_def)
  have graph: "graph_ok cw (status_of (as_stored s)) ((!) (run_remaining (as_stored s)))"
  proof (rule graph_ok_cong [OF wf])
    show "graph_ok cw (status_of s) ((!) (run_remaining s))" using inv by (simp add: run_inv_def)
  qed (use len in simp_all)
  have "log_ok (as_stored s)" using inv by (auto simp: run_inv_def shape_ok_def log_ok_def)
  moreover have "map tr_Key (run_tasks (as_stored s)) = map tr_Key (run_tasks s)" by simp
  ultimately have "shape_ok cw (as_stored s)" using inv by (simp only: run_inv_def shape_ok_def) simp
  moreover have "clock_ok (rs_Run (as_stored s))" using inv by (simp add: run_inv_def clock_ok_def)
  moreover have "history_ok (max_attempts cw i) (run_tasks (as_stored s) ! i)" if "i < task_count cw" for i
    using inv that len by (simp add: run_inv_def history_ok_stored)
  moreover have "phase_ok (run_status (as_stored s)) (run_tasks (as_stored s))" using inv by (simp add: run_inv_def phase_ok_stored)
  ultimately show ?thesis using graph unfolding run_inv_def by blast
qed

section \<open>What is loaded\<close>

text \<open>Which table a query reads.\<close>

lemma rows_frame [simp]:
  "find_run (db_workflows_update fwo d) = find_run d" "find_run (db_versions_update fve d) = find_run d" "find_run (db_tasks_update fta d) = find_run d" "find_run (db_attempts_update fat d) = find_run d" "find_run (db_events_update fev d) = find_run d" "find_run (db_workers_update g d) = find_run d" "find_run (db_dispatches_update fdi d) = find_run d" "find_run (db_idempotency_update fid d) = find_run d"
  "find_version (db_workflows_update fwo d) = find_version d" "find_version (db_runs_update fru d) = find_version d" "find_version (db_tasks_update fta d) = find_version d" "find_version (db_attempts_update fat d) = find_version d" "find_version (db_events_update fev d) = find_version d" "find_version (db_workers_update g d) = find_version d" "find_version (db_dispatches_update fdi d) = find_version d" "find_version (db_idempotency_update fid d) = find_version d"
  "task_rows (db_workflows_update fwo d) = task_rows d" "task_rows (db_versions_update fve d) = task_rows d" "task_rows (db_runs_update fru d) = task_rows d" "task_rows (db_attempts_update fat d) = task_rows d" "task_rows (db_events_update fev d) = task_rows d" "task_rows (db_workers_update g d) = task_rows d" "task_rows (db_dispatches_update fdi d) = task_rows d" "task_rows (db_idempotency_update fid d) = task_rows d"
  "attempt_rows_of (db_workflows_update fwo d) = attempt_rows_of d" "attempt_rows_of (db_versions_update fve d) = attempt_rows_of d" "attempt_rows_of (db_runs_update fru d) = attempt_rows_of d" "attempt_rows_of (db_tasks_update fta d) = attempt_rows_of d" "attempt_rows_of (db_events_update fev d) = attempt_rows_of d" "attempt_rows_of (db_workers_update g d) = attempt_rows_of d" "attempt_rows_of (db_dispatches_update fdi d) = attempt_rows_of d" "attempt_rows_of (db_idempotency_update fid d) = attempt_rows_of d"
  "event_rows (db_workflows_update fwo d) = event_rows d" "event_rows (db_versions_update fve d) = event_rows d" "event_rows (db_runs_update fru d) = event_rows d" "event_rows (db_tasks_update fta d) = event_rows d" "event_rows (db_attempts_update fat d) = event_rows d" "event_rows (db_workers_update g d) = event_rows d" "event_rows (db_dispatches_update fdi d) = event_rows d" "event_rows (db_idempotency_update fid d) = event_rows d"
  by (simp_all add: fun_eq_iff find_run_def find_version_def task_rows_def attempt_rows_of_def event_rows_def)

definition tables_ok :: "db \<Rightarrow> bool" where
  "tables_ok d \<longleftrightarrow>
     distinct (map rr_run_id (db_runs d)) \<and> list_all run_row_ok (db_runs d) \<and>
     list_all (\<lambda>r. rr_revision r < 2 ^ 63 \<and> rr_last_event_sequence r < 2 ^ 63) (db_runs d) \<and>
     distinct (map (\<lambda>t. (tk_run_id t, tk_task_key t)) (db_tasks d)) \<and> list_all task_row_ok (db_tasks d) \<and>
     list_all (\<lambda>e. ev_sequence e < 2 ^ 63) (db_events d) \<and>
     set (map tk_run_id (db_tasks d)) \<subseteq> set (map rr_run_id (db_runs d)) \<and>
     set (map ev_run_id (db_events d)) \<subseteq> set (map rr_run_id (db_runs d)) \<and>
     set (map (\<lambda>a. (ar_run_id a, ar_task_key a)) (db_attempts d)) \<subseteq> set (map (\<lambda>t. (tk_run_id t, tk_task_key t)) (db_tasks d))"

definition loaded_task :: "db \<Rightarrow> RunID \<Rightarrow> task_row \<Rightarrow> TaskRun" where
  "loaded_task d runID t = (task_of_row t)\<lparr>tr_Attempts := map attempt_of_row (attempt_rows_of d runID (tk_task_key t))\<rparr>"

definition tasks_contiguous :: "db \<Rightarrow> RunID \<Rightarrow> bool" where
  "tasks_contiguous d runID \<longleftrightarrow>
     map tk_task_index (task_rows d runID) = map int [0 ..< length (task_rows d runID)] \<and>
     (\<forall>t \<in> set (task_rows d runID). numbered (map attempt_of_row (attempt_rows_of d runID (tk_task_key t))))"

definition events_contiguous :: "db \<Rightarrow> RunID \<Rightarrow> bool" where
  "events_contiguous d runID \<longleftrightarrow>
     map ev_sequence (event_rows d runID) = map int [1 ..< Suc (length (event_rows d runID))]"

definition run_of_row :: "run_row \<Rightarrow> WorkflowRun" where
  "run_of_row r = \<lparr>wr_ID = rr_run_id r, wr_DefinitionID = rr_workflow_id r,
     wr_DefinitionVersion = rr_workflow_version r, wr_Status = rr_status r,
     wr_Revision = of_int (rr_revision r), wr_LastEventSequence = of_int (rr_last_event_sequence r),
     wr_CancelRequestedAt = rr_cancel_requested_at r, wr_Tasks = [], wr_RemainingDependencies = [],
     wr_CreatedAt = rr_created_at r, wr_StartedAt = rr_started_at r, wr_FinishedAt = rr_finished_at r\<rparr>"

definition loaded :: "db \<Rightarrow> RunID \<Rightarrow> run_row \<Rightarrow> CompiledWorkflow \<Rightarrow> RunSnapshot" where
  "loaded d runID r cw =
     \<lparr>rs_Version = rr_snapshot_version r, rs_Definition = Some (cw_definition cw),
      rs_Run = (run_of_row r)\<lparr>wr_Tasks := map (loaded_task d runID) (task_rows d runID),
        wr_RemainingDependencies := map tk_remaining_dependencies (task_rows d runID)\<rparr>,
      rs_Events = map event_of_row (event_rows d runID)\<rparr>"

definition loadable :: "db \<Rightarrow> RunID \<Rightarrow> run_row \<Rightarrow> CompiledWorkflow \<Rightarrow> bool" where
  "loadable d runID r cw \<longleftrightarrow>
     find_run d runID = Some r \<and>
     (\<exists>v. find_version d (rr_workflow_id r) (rr_workflow_version r) = Some v \<and> Compile (ve_definition v) = Inr cw) \<and>
     tasks_contiguous d runID \<and> length (task_rows d runID) = task_count cw \<and>
     events_contiguous d runID \<and> rr_last_event_sequence r = int (length (event_rows d runID))"

lemma scan_tasks:
  "foldR scan_task rows (tasks, rem) = Inr (tasks', rem') \<longleftrightarrow>
   map tk_task_index rows = map int [length tasks ..< length tasks + length rows] \<and>
   tasks' = tasks @ map task_of_row rows \<and> rem' = rem @ map tk_remaining_dependencies rows"
proof (induction rows arbitrary: tasks rem)
  case (Cons row rows)
  have "map int [length tasks ..< length tasks + length (row # rows)] =
      int (length tasks) # map int [length (tasks @ [task_of_row row]) ..< length (tasks @ [task_of_row row]) + length rows]"
    by (simp add: upt_conv_Cons del: upt_Suc)
  then show ?case using Cons.IH [of "tasks @ [task_of_row row]" "rem @ [tk_remaining_dependencies row]"]
    by (auto simp: scan_task_def bindR_eq_Inr)
qed auto

lemma scan_attempts_of:
  assumes "i < length ts" and "\<forall>a \<in> set rows. ar_task_key a = tr_Key (ts ! i)"
  shows "foldR scan_attempt (map (Pair (int i)) rows) ts = Inr us \<longleftrightarrow>
    map ar_attempt_number rows = map int [Suc (length (tr_Attempts (ts ! i))) ..< Suc (length (tr_Attempts (ts ! i)) + length rows)] \<and>
    us = ts[i := (ts ! i)\<lparr>tr_Attempts := tr_Attempts (ts ! i) @ map attempt_of_row rows\<rparr>]"
  using assms
proof (induction rows arbitrary: ts)
  case (Cons a rows)
  let ?ts = "ts[i := (ts ! i)\<lparr>tr_Attempts := tr_Attempts (ts ! i) @ [attempt_of_row a]\<rparr>]"
  let ?n = "length (tr_Attempts (ts ! i))"
  have "map int [Suc ?n ..< Suc (?n + length (a # rows))] = int (Suc ?n) # map int [Suc (Suc ?n) ..< Suc (Suc ?n + length rows)]"
    by (simp add: upt_conv_Cons del: upt_Suc)
  then show ?case using Cons.IH [of ?ts] Cons.prems
    by (auto simp: scan_attempt_def bindR_eq_Inr Let_def simp del: upt_Suc)
qed auto

lemma attempt_rows_key: "a \<in> set (attempt_rows_of d runID key) \<Longrightarrow> ar_task_key a = key"
  by (simp add: attempt_rows_of_def order_by_def)

lemma numbered_rows:
  "numbered (map attempt_of_row rows) \<longleftrightarrow> map ar_attempt_number rows = map int [1 ..< Suc (length rows)]"
proof -
  have "at_Number (attempt_of_row a) = ar_attempt_number a" for a by (simp add: attempt_of_row_def)
  then show ?thesis by (simp add: numbered_def comp_def)
qed

lemma scan_attempts:
  assumes "map tk_task_index rows = map int [length pre ..< length pre + length rows]"
  shows "foldR scan_attempt (concat (map (\<lambda>t. map (Pair (tk_task_index t)) (attempt_rows_of d runID (tk_task_key t))) rows))
      (pre @ map task_of_row rows) = Inr us \<longleftrightarrow>
    (\<forall>t \<in> set rows. numbered (map attempt_of_row (attempt_rows_of d runID (tk_task_key t)))) \<and>
    us = pre @ map (loaded_task d runID) rows"
  using assms
proof (induction rows arbitrary: pre)
  case (Cons t rows)
  let ?as = "attempt_rows_of d runID (tk_task_key t)" and ?ts = "pre @ map task_of_row (t # rows)"
  have idx: "tk_task_index t = int (length pre)"
    and rest: "map tk_task_index rows = map int [length (pre @ [loaded_task d runID t]) ..< length (pre @ [loaded_task d runID t]) + length rows]"
    using Cons.prems by (simp_all add: upt_conv_Cons del: upt_Suc)
  have at: "?ts ! length pre = task_of_row t" by simp
  have keys: "\<forall>a \<in> set ?as. ar_task_key a = tr_Key (?ts ! length pre)"
    using attempt_rows_key unfolding at by (auto simp: task_of_row_def)
  have one: "foldR scan_attempt (map (Pair (int (length pre))) ?as) ?ts = Inr vs \<longleftrightarrow>
      numbered (map attempt_of_row ?as) \<and> vs = (pre @ [loaded_task d runID t]) @ map task_of_row rows" for vs
    using scan_attempts_of [OF _ keys, of vs]
    by (simp add: numbered_rows loaded_task_def task_of_row_def del: upt_Suc)
  show ?case using one Cons.IH [OF rest] by (auto simp: idx foldR_append bindR_eq_Inr)
qed auto

lemma uint_of_bigint: "0 \<le> x \<Longrightarrow> x < 2 ^ 63 \<Longrightarrow> uint (of_int x :: u64) = x"
  by (simp add: unsigned_of_int take_bit_int_eq_self)

lemma uint_of_count: "n < 2 ^ 64 \<Longrightarrow> uint (of_nat n :: u64) = int n"
  by (simp add: unsigned_of_nat take_bit_nat_eq_self)

lemma of_int_int64 [simp]: "(of_int (int64 x) :: u64) = x"
  by (simp add: int64_def)

lemma int64_of_bigint: "0 \<le> x \<Longrightarrow> x < 2 ^ 63 \<Longrightarrow> int64 (of_int x) = x"
  by (simp add: int64_def signed_of_int signed_take_bit_int_eq_self)

lemma int64_less: "int64 x < 2 ^ 63"
  using sint_lt [of x] by (simp add: int64_def)

lemma scan_events:
  assumes "\<forall>e \<in> set rows. ev_sequence e < 2 ^ 63" and "length es < 2 ^ 63"
  shows "foldR scan_event rows es = Inr us \<longleftrightarrow>
    map ev_sequence rows = map int [Suc (length es) ..< Suc (length es + length rows)] \<and> us = es @ map event_of_row rows"
  using assms
proof (induction rows arbitrary: es)
  case (Cons e rows)
  have split: "map int [Suc (length es) ..< Suc (length es + length (e # rows))] =
      int (Suc (length es)) # map int [Suc (length (es @ [event_of_row e])) ..< Suc (length (es @ [event_of_row e]) + length rows)]"
    by (simp add: upt_conv_Cons del: upt_Suc)
  have e: "ev_sequence e < 2 ^ 63" using Cons.prems by simp
  have seq: "(0 < ev_sequence e \<and> (of_int (ev_sequence e) :: u64) = of_nat (length es + 1)) = (ev_sequence e = int (Suc (length es)))"
  proof
    assume a: "0 < ev_sequence e \<and> (of_int (ev_sequence e) :: u64) = of_nat (length es + 1)"
    have "uint (of_int (ev_sequence e) :: u64) = ev_sequence e" using a e by (intro uint_of_bigint) auto
    moreover have "uint (of_nat (length es + 1) :: u64) = int (length es + 1)"
      using Cons.prems(2) by (intro uint_of_count) simp
    ultimately show "ev_sequence e = int (Suc (length es))" using a by (metis Suc_eq_plus1)
  qed simp
  show ?case
  proof (cases "ev_sequence e = int (Suc (length es))")
    case True
    then have "length (es @ [event_of_row e]) < 2 ^ 63" using e by simp
    with Cons.IH [of "es @ [event_of_row e]"] Cons.prems True seq split show ?thesis
      by (simp add: scan_event_def del: upt_Suc)
  next
    case False
    with seq split show ?thesis by (auto simp: scan_event_def simp del: upt_Suc)
  qed
qed auto

lemma find_run_SomeD: "find_run d runID = Some r \<Longrightarrow> r \<in> set (db_runs d) \<and> rr_run_id r = runID"
  by (auto simp: find_run_def find_Some_iff)

lemma tables_run:
  assumes "tables_ok d" and "find_run d runID = Some r"
  shows "run_row_ok r" and "0 \<le> rr_revision r" and "rr_revision r < 2 ^ 63"
    and "0 \<le> rr_last_event_sequence r" and "rr_last_event_sequence r < 2 ^ 63" and "rr_run_id r = runID"
  using assms find_run_SomeD [OF assms(2)] by (auto simp: tables_ok_def list_all_iff run_row_ok_def)

lemma event_rows_mem: "e \<in> set (event_rows d runID) \<longleftrightarrow> e \<in> set (db_events d) \<and> ev_run_id e = runID"
  by (auto simp: event_rows_def order_by_def)

lemma task_rows_mem: "t \<in> set (task_rows d runID) \<longleftrightarrow> t \<in> set (db_tasks d) \<and> tk_run_id t = runID"
  by (auto simp: task_rows_def order_by_def)

lemma events_count:
  assumes "tables_ok d" and "events_contiguous d runID"
  shows "int (length (event_rows d runID)) < 2 ^ 63"
proof (cases "event_rows d runID = []")
  case False
  let ?E = "event_rows d runID"
  have "ev_sequence (?E ! (length ?E - 1)) = int (length ?E)"
    using arg_cong [OF assms(2) [unfolded events_contiguous_def], of "\<lambda>xs. xs ! (length ?E - 1)"] False
    by (simp del: upt_Suc)
  moreover have "?E ! (length ?E - 1) \<in> set (db_events d)" using False event_rows_mem by (metis diff_less length_greater_0_conv less_one nth_mem)
  ultimately show ?thesis using assms(1) by (auto simp: tables_ok_def list_all_iff)
qed simp

lemma scan_all_tasks:
  "foldR scan_task (task_rows d runID) ([], []) = Inr (tasks, rem) \<and> foldR scan_attempt (joined_attempts d runID) tasks = Inr us \<longleftrightarrow>
   tasks_contiguous d runID \<and> tasks = map task_of_row (task_rows d runID) \<and>
   rem = map tk_remaining_dependencies (task_rows d runID) \<and> us = map (loaded_task d runID) (task_rows d runID)"
  using scan_tasks [of "task_rows d runID" "[]" "[]"] scan_attempts [of "task_rows d runID" "[]" d runID us]
  by (auto simp: tasks_contiguous_def joined_attempts_def)

lemma load_iff:
  assumes t: "tables_ok d"
  shows "loadSnapshot d runID = Inr s \<longleftrightarrow> (\<exists>r cw. loadable d runID r cw \<and> s = loaded d runID r cw)"
proof -
  have last: "(of_int (rr_last_event_sequence r) :: u64) = of_nat (length (event_rows d runID)) \<longleftrightarrow>
      rr_last_event_sequence r = int (length (event_rows d runID))" if "find_run d runID = Some r" "events_contiguous d runID" for r
  proof
    assume eq: "(of_int (rr_last_event_sequence r) :: u64) = of_nat (length (event_rows d runID))"
    have "uint (of_int (rr_last_event_sequence r) :: u64) = rr_last_event_sequence r"
      using tables_run [OF t that(1)] by (intro uint_of_bigint) auto
    moreover have "uint (of_nat (length (event_rows d runID)) :: u64) = int (length (event_rows d runID))"
      using events_count [OF t that(2)] by (intro uint_of_count) simp
    ultimately show "rr_last_event_sequence r = int (length (event_rows d runID))" using eq by metis
  qed simp
  have events: "foldR scan_event (event_rows d runID) [] = Inr es \<longleftrightarrow>
      events_contiguous d runID \<and> es = map event_of_row (event_rows d runID)" for es
    using scan_events [of "event_rows d runID" "[]" es] t
    by (simp add: events_contiguous_def event_rows_mem tables_ok_def list_all_iff del: upt_Suc)
  have tasks: "length (map task_of_row (task_rows d runID)) = length (task_rows d runID)" by simp
  show ?thesis
  proof
    assume l: "loadSnapshot d runID = Inr s"
    then obtain r v cw ts rem us es where r: "find_run d runID = Some r" "find_version d (rr_workflow_id r) (rr_workflow_version r) = Some v"
        "Compile (ve_definition v) = Inr cw"
      and sc: "foldR scan_task (task_rows d runID) ([], []) = Inr (ts, rem)" "foldR scan_attempt (joined_attempts d runID) ts = Inr us"
        "length ts = task_count cw" "foldR scan_event (event_rows d runID) [] = Inr es"
        "(of_int (rr_last_event_sequence r) :: u64) = of_nat (length es)"
      and s: "s = \<lparr>rs_Version = rr_snapshot_version r, rs_Definition = Some (cw_definition cw),
         rs_Run = (run_of_row r)\<lparr>wr_Tasks := us, wr_RemainingDependencies := rem\<rparr>, rs_Events = es\<rparr>"
      by (auto simp: loadSnapshot_def bindR_eq_Inr run_of_row_def split: option.splits sum.splits if_splits)
    have "loadable d runID r cw" "s = loaded d runID r cw"
      using r sc s scan_all_tasks [of d runID ts rem us] events [of es] last [OF r(1)]
      by (auto simp: loadable_def loaded_def)
    then show "\<exists>r cw. loadable d runID r cw \<and> s = loaded d runID r cw" by blast
  next
    assume "\<exists>r cw. loadable d runID r cw \<and> s = loaded d runID r cw"
    then obtain r cw v where l: "loadable d runID r cw" and s: "s = loaded d runID r cw"
      and v: "find_version d (rr_workflow_id r) (rr_workflow_version r) = Some v" "Compile (ve_definition v) = Inr cw"
      by (auto simp: loadable_def)
    note r = tables_run [OF t, of runID r]
    have sc: "foldR scan_task (task_rows d runID) ([], []) =
          Inr (map task_of_row (task_rows d runID), map tk_remaining_dependencies (task_rows d runID))"
        "foldR scan_attempt (joined_attempts d runID) (map task_of_row (task_rows d runID)) = Inr (map (loaded_task d runID) (task_rows d runID))"
      using scan_all_tasks [of d runID] l by (auto simp: loadable_def)
    have "foldR scan_event (event_rows d runID) [] = Inr (map event_of_row (event_rows d runID))"
      using events l by (simp add: loadable_def)
    then show "loadSnapshot d runID = Inr s"
      using l v r sc s by (simp add: loadSnapshot_def loadable_def loaded_def run_of_row_def)
  qed
qed

section \<open>Task rows\<close>

definition tasks_rep :: "db \<Rightarrow> RunID \<Rightarrow> TaskRun list \<Rightarrow> int list \<Rightarrow> bool" where
  "tasks_rep d runID ts rem \<longleftrightarrow>
     tasks_contiguous d runID \<and> map (loaded_task d runID) (task_rows d runID) = map stored_task ts \<and>
     map tk_remaining_dependencies (task_rows d runID) = rem"

lemma tasks_rep_cong:
  assumes "task_rows d' = task_rows d" and "attempt_rows_of d' = attempt_rows_of d"
  shows "tasks_rep d' runID ts rem = tasks_rep d runID ts rem"
proof -
  have "loaded_task d' runID = loaded_task d runID" using assms by (simp add: loaded_task_def fun_eq_iff)
  then show ?thesis using assms by (simp add: tasks_rep_def tasks_contiguous_def)
qed

text \<open>Rows of the other runs and the tables beside the runs.\<close>

definition view :: "db \<Rightarrow> RunID \<Rightarrow> run_row option \<times> task_row list \<times> (TaskKey \<Rightarrow> attempt_row list) \<times> event_row list" where
  "view d runID = (find_run d runID, task_rows d runID, attempt_rows_of d runID, event_rows d runID)"

definition outside :: "db \<Rightarrow> workflow_row list \<times> version_row list \<times> worker_row list \<times> dispatch_row list \<times> idem_row list" where
  "outside d = (db_workflows d, db_versions d, db_workers d, db_dispatches d, db_idempotency d)"

definition only_run :: "RunID \<Rightarrow> db \<Rightarrow> db \<Rightarrow> bool" where
  "only_run runID d d' \<longleftrightarrow> outside d' = outside d \<and> (\<forall>i. i \<noteq> runID \<longrightarrow> view d' i = view d i)"

lemma only_run_refl [simp]: "only_run runID d d"
  by (simp add: only_run_def)

lemma only_run_trans [trans]: "only_run runID d e \<Longrightarrow> only_run runID e f \<Longrightarrow> only_run runID d f"
  by (simp add: only_run_def)

lemma load_only_view:
  assumes "view d' runID = view d runID" and "db_versions d' = db_versions d"
  shows "loadSnapshot d' runID = loadSnapshot d runID"
proof -
  have eq: "find_run d' runID = find_run d runID" "task_rows d' runID = task_rows d runID"
    "attempt_rows_of d' runID = attempt_rows_of d runID" "event_rows d' runID = event_rows d runID"
    "find_version d' = find_version d"
    using assms by (simp_all add: view_def find_version_def fun_eq_iff)
  then have "joined_attempts d' runID = joined_attempts d runID" by (simp add: joined_attempts_def)
  then show ?thesis unfolding loadSnapshot_def eq by (simp only:)
qed

lemma only_run_load: "only_run runID d d' \<Longrightarrow> i \<noteq> runID \<Longrightarrow> loadSnapshot d' i = loadSnapshot d i"
  by (intro load_only_view) (auto simp: only_run_def outside_def)

lemma distinct_filter_snd:
  "distinct (map (\<lambda>x. (f x, g x)) xs) \<Longrightarrow> distinct (map g (filter (\<lambda>x. f x = c) xs))"
  by (induction xs) (force simp: image_iff)+

lemma order_by_mset: "mset (order_by f xs) = mset xs"
  by (simp add: order_by_def)

lemma task_rows_keys: "tables_ok d \<Longrightarrow> distinct (map tk_task_key (task_rows d runID))"
proof -
  assume "tables_ok d"
  then have "distinct (map tk_task_key (filter (\<lambda>t. tk_run_id t = runID) (db_tasks d)))"
    by (intro distinct_filter_snd) (simp add: tables_ok_def)
  moreover have "mset (map tk_task_key (task_rows d runID)) = mset (map tk_task_key (filter (\<lambda>t. tk_run_id t = runID) (db_tasks d)))"
    by (simp add: task_rows_def order_by_mset)
  ultimately show ?thesis by (metis mset_eq_imp_distinct_iff)
qed

lemma tasks_rep_nth:
  assumes "tasks_rep d runID ts rem"
  shows "length (task_rows d runID) = length ts" and "length rem = length ts"
    and "i < length ts \<Longrightarrow> tk_task_index (task_rows d runID ! i) = int i"
    and "i < length ts \<Longrightarrow> tk_task_key (task_rows d runID ! i) = tr_Key (ts ! i)"
    and "i < length ts \<Longrightarrow> map attempt_of_row (attempt_rows_of d runID (tr_Key (ts ! i))) = map stored_attempt (tr_Attempts (ts ! i))"
    and "i < length ts \<Longrightarrow> loaded_task d runID (task_rows d runID ! i) = stored_task (ts ! i)"
proof -
  have eq: "map (loaded_task d runID) (task_rows d runID) = map stored_task ts" using assms by (simp add: tasks_rep_def)
  show len: "length (task_rows d runID) = length ts" using arg_cong [OF eq, of length] by simp
  show "length rem = length ts" using assms len by (auto simp: tasks_rep_def)
  have idx: "map tk_task_index (task_rows d runID) = map int [0 ..< length ts]"
    using assms len by (simp add: tasks_rep_def tasks_contiguous_def)
  show "tk_task_index (task_rows d runID ! i) = int i" if "i < length ts"
    using arg_cong [OF idx, of "\<lambda>xs. xs ! i"] that len by simp
  show at: "loaded_task d runID (task_rows d runID ! i) = stored_task (ts ! i)" if "i < length ts"
    using arg_cong [OF eq, of "\<lambda>xs. xs ! i"] that len by simp
  show key: "tk_task_key (task_rows d runID ! i) = tr_Key (ts ! i)" if "i < length ts"
    using arg_cong [OF at [OF that], of tr_Key] by (simp add: loaded_task_def task_of_row_def)
  show "map attempt_of_row (attempt_rows_of d runID (tr_Key (ts ! i))) = map stored_attempt (tr_Attempts (ts ! i))" if "i < length ts"
    using arg_cong [OF at [OF that], of tr_Attempts] key [OF that] by (simp add: loaded_task_def)
qed

lemma distinct_nth_key:
  assumes "tables_ok d" and "tasks_rep d runID ts rem" and "i < length ts" and "j < length ts" and "tr_Key (ts ! j) = tr_Key (ts ! i)"
  shows "j = i"
  using task_rows_keys [OF assms(1), of runID] tasks_rep_nth [OF assms(2)] assms(3-5)
  by (metis length_map nth_eq_iff_index_eq nth_map)

lemma checked_update_iff:
  "checked_update ok matching change rows = Inr (n, rows') \<longleftrightarrow>
   (\<forall>r \<in> set rows. matching r \<longrightarrow> ok (change r)) \<and> n = length (filter matching rows) \<and> rows' = sql_update matching change rows"
  by (auto simp: checked_update_def list_ex_iff)

lemma length_filter_order_by: "length (filter P (order_by f xs)) = length (filter P xs)"
  by (metis affected_def affected_order_by)

abbreviation task_match :: "TaskRunChange \<Rightarrow> task_row \<Rightarrow> bool" where
  "task_match c t \<equiv> tk_run_id t = tc_RunID c \<and> tk_task_index t = tc_Index c \<and> tk_task_key t = tr_Key (tc_Task c)"

abbreviation task_change :: "TaskRunChange \<Rightarrow> task_row \<Rightarrow> task_row" where
  "task_change c t \<equiv> t\<lparr>tk_status := tr_Status (tc_Task c), tk_remaining_dependencies := tc_RemainingDependencies c,
     tk_ready_at := tz_opt (tr_ReadyAt (tc_Task c)), tk_finished_at := tz_opt (tr_FinishedAt (tc_Task c))\<rparr>"

lemma task_update_rows:
  assumes t: "tables_ok d" and rep: "tasks_rep d runID ts rem" and i: "i < length ts"
    and c: "tc_RunID c = runID" "tc_Index c = int i" "tr_Key (tc_Task c) = tr_Key (ts ! i)"
  shows "j < length ts \<Longrightarrow> task_match c (task_rows d runID ! j) \<longleftrightarrow> j = i"
    and "length (filter (task_match c) (db_tasks d)) = 1"
    and "task_rows (d\<lparr>db_tasks := sql_update (task_match c) (task_change c) (db_tasks d)\<rparr>) runID =
      (task_rows d runID)[i := task_change c (task_rows d runID ! i)]"
    and "k \<noteq> runID \<Longrightarrow> task_rows (d\<lparr>db_tasks := sql_update (task_match c) (task_change c) (db_tasks d)\<rparr>) k = task_rows d k"
proof -
  note n = tasks_rep_nth [OF rep]
  have run: "tk_run_id (task_rows d runID ! j) = runID" if "j < length ts" for j
    using task_rows_mem [of "task_rows d runID ! j" d runID] that n(1) by simp
  show m: "task_match c (task_rows d runID ! j) \<longleftrightarrow> j = i" if "j < length ts" for j
    using n(3,4) [OF that] run [OF that] c that by auto
  have "filter (task_match c) (db_tasks d) = filter (task_match c) (filter (\<lambda>t. tk_run_id t = runID) (db_tasks d))"
    using c(1) by (auto simp: filter_filter intro: filter_cong)
  then have "length (filter (task_match c) (db_tasks d)) = length (filter (task_match c) (task_rows d runID))"
    unfolding task_rows_def length_filter_order_by by simp
  also have "\<dots> = 1" using filter_only [of i "task_rows d runID" "task_match c"] m i n(1) by simp
  finally show "length (filter (task_match c) (db_tasks d)) = 1" .
  have upd: "task_rows (d\<lparr>db_tasks := sql_update (task_match c) (task_change c) (db_tasks d)\<rparr>) k =
      sql_update (task_match c) (task_change c) (task_rows d k)" for k
    unfolding task_rows_def by (simp add: filter_sql_update order_by_sql_update)
  show "task_rows (d\<lparr>db_tasks := sql_update (task_match c) (task_change c) (db_tasks d)\<rparr>) runID =
      (task_rows d runID)[i := task_change c (task_rows d runID ! i)]"
    unfolding upd using m n(1) by (intro sql_update_nth) simp
  show "task_rows (d\<lparr>db_tasks := sql_update (task_match c) (task_change c) (db_tasks d)\<rparr>) k = task_rows d k" if "k \<noteq> runID" for k
    unfolding upd using that c(1) by (intro sql_update_none) (auto simp: task_rows_mem)
qed

lemma map_upd_same: "(\<And>x. f (g x) = f x) \<Longrightarrow> map f (sql_update matching g rows) = map f rows"
  by (auto simp: sql_update_def)

lemma list_all_sql_update:
  "list_all P rows \<Longrightarrow> (\<And>r. r \<in> set rows \<Longrightarrow> matching r \<Longrightarrow> P (change r)) \<Longrightarrow> list_all P (sql_update matching change rows)"
  by (auto simp: sql_update_def list_all_iff)

lemma update_task_sim:
  assumes t: "tables_ok d" and rep: "tasks_rep d runID ts rem" and i: "i < length ts"
    and c: "tc_RunID c = runID" "tc_Index c = int i" "tr_Key (tc_Task c) = tr_Key (ts ! i)"
    and u: "update_task_run c d = Inr d'"
  shows "tables_ok d'" and "only_run runID d d'"
    and "tasks_rep d' runID (ts[i := (tc_Task c)\<lparr>tr_Attempts := tr_Attempts (ts ! i)\<rparr>]) (rem[i := tc_RemainingDependencies c])"
    and "find_run d' = find_run d" and "event_rows d' = event_rows d"
proof -
  note rows = task_update_rows [OF t rep i c] and n = tasks_rep_nth [OF rep]
  have d': "d' = d\<lparr>db_tasks := sql_update (task_match c) (task_change c) (db_tasks d)\<rparr>"
    and ok: "\<forall>r \<in> set (db_tasks d). task_match c r \<longrightarrow> task_row_ok (task_change c r)"
    using u by (auto simp: update_task_run_def bindR_eq_Inr checked_update_iff split: if_splits)
  show "find_run d' = find_run d" and "event_rows d' = event_rows d"
    by (simp_all add: d')
  have attempts: "attempt_rows_of d' = attempt_rows_of d" by (simp add: d')
  show "only_run runID d d'"
    using rows(4) by (simp add: only_run_def view_def outside_def d')
  show "tables_ok d'"
    using t ok by (simp add: tables_ok_def d' map_upd_same list_all_sql_update)
  have row: "task_rows d' runID = (task_rows d runID)[i := task_change c (task_rows d runID ! i)]"
    using rows(3) d' by simp
  have load: "loaded_task d' runID = loaded_task d runID" by (simp add: loaded_task_def attempts fun_eq_iff)
  have new: "loaded_task d runID (task_change c (task_rows d runID ! i)) = stored_task ((tc_Task c)\<lparr>tr_Attempts := tr_Attempts (ts ! i)\<rparr>)"
    using n(4,5) [OF i] c(3) by (simp add: loaded_task_def task_of_row_def stored_task_def)
  have "tasks_contiguous d' runID"
  proof -
    have "map tk_task_index (task_rows d' runID) = map tk_task_index (task_rows d runID)"
      using i n(1) by (intro nth_equalityI) (auto simp: row nth_list_update)
    moreover have "map tk_task_key (task_rows d' runID) = map tk_task_key (task_rows d runID)"
      using i n(1) by (intro nth_equalityI) (auto simp: row nth_list_update)
    then have "tk_task_key ` set (task_rows d' runID) = tk_task_key ` set (task_rows d runID)" by (metis list.set_map)
    moreover have "length (task_rows d' runID) = length (task_rows d runID)" by (simp add: row)
    ultimately show ?thesis using rep unfolding tasks_rep_def tasks_contiguous_def attempts
      by (metis (mono_tags, lifting) image_iff)
  qed
  moreover have "map (loaded_task d' runID) (task_rows d' runID) = map stored_task (ts[i := (tc_Task c)\<lparr>tr_Attempts := tr_Attempts (ts ! i)\<rparr>])"
    using rep new unfolding load row by (simp add: map_update tasks_rep_def)
  moreover have "map tk_remaining_dependencies (task_rows d' runID) = rem[i := tc_RemainingDependencies c]"
    using rep unfolding row by (simp add: map_update tasks_rep_def)
  ultimately show "tasks_rep d' runID (ts[i := (tc_Task c)\<lparr>tr_Attempts := tr_Attempts (ts ! i)\<rparr>]) (rem[i := tc_RemainingDependencies c])"
    unfolding tasks_rep_def by blast
qed

section \<open>Attempt rows\<close>

lemma numbered_stored [simp]: "numbered (map stored_attempt as) = numbered as"
  by (simp add: numbered_def comp_def)

lemma numbered_update:
  assumes "numbered as" and "j < length as" and "at_Number a = int (Suc j)"
  shows "numbered (as[j := a])"
proof -
  have "map at_Number (as[j := a]) = (map at_Number as)[j := map at_Number as ! j]"
    using numbered_nth [OF assms(1,2)] assms(2,3) by (simp add: map_update)
  then show ?thesis using assms(1) by (simp add: numbered_def)
qed

lemma attempts_changed:
  assumes t: "tables_ok d" and rep: "tasks_rep d runID ts rem" and i: "i < length ts"
    and rows: "task_rows d' runID = task_rows d runID"
    and other: "\<And>k. k \<noteq> tr_Key (ts ! i) \<Longrightarrow> attempt_rows_of d' runID k = attempt_rows_of d runID k"
    and new: "map attempt_of_row (attempt_rows_of d' runID (tr_Key (ts ! i))) = map stored_attempt as" and num: "numbered as"
  shows "tasks_rep d' runID (ts[i := (ts ! i)\<lparr>tr_Attempts := as\<rparr>]) rem"
proof -
  note n = tasks_rep_nth [OF rep]
  have key: "tk_task_key (task_rows d runID ! j) = tr_Key (ts ! i) \<longleftrightarrow> j = i" if "j < length ts" for j
    using n(4) [OF that] distinct_nth_key [OF t rep i that] by auto
  have "numbered (map attempt_of_row (attempt_rows_of d' runID (tk_task_key r)))" if "r \<in> set (task_rows d runID)" for r
  proof (cases "tk_task_key r = tr_Key (ts ! i)")
    case False
    then show ?thesis using that rep other by (simp add: tasks_rep_def tasks_contiguous_def)
  qed (use new num in simp)
  then have "tasks_contiguous d' runID" using rep rows by (simp add: tasks_rep_def tasks_contiguous_def)
  moreover have "map (loaded_task d' runID) (task_rows d runID) = map stored_task (ts[i := (ts ! i)\<lparr>tr_Attempts := as\<rparr>])"
  proof (rule nth_equalityI)
    fix j assume "j < length (map (loaded_task d' runID) (task_rows d runID))"
    then have j: "j < length ts" using n(1) by simp
    have at: "loaded_task d' runID (task_rows d runID ! j) =
        (loaded_task d runID (task_rows d runID ! j))\<lparr>tr_Attempts := map attempt_of_row (attempt_rows_of d' runID (tk_task_key (task_rows d runID ! j)))\<rparr>"
      by (simp add: loaded_task_def)
    show "map (loaded_task d' runID) (task_rows d runID) ! j = map stored_task (ts[i := (ts ! i)\<lparr>tr_Attempts := as\<rparr>]) ! j"
    proof (cases "j = i")
      case True
      then show ?thesis using j n(1,4) n(6) [OF i] new at by (simp add: stored_task_def)
    next
      case False
      then have "attempt_rows_of d' runID (tk_task_key (task_rows d runID ! j)) = attempt_rows_of d runID (tk_task_key (task_rows d runID ! j))"
        using key [OF j] by (intro other) simp
      then show ?thesis using j n(1) n(6) [OF j] at False by (simp add: loaded_task_def)
    qed
  qed (simp add: n(1))
  ultimately show ?thesis using rep rows by (simp add: tasks_rep_def)
qed

lemma attempt_of_new_row [simp]: "attempt_of_row (attempt_values a row) = (stored_attempt a)\<lparr>at_Number := ar_attempt_number row\<rparr>"
  by (simp add: attempt_of_row_def attempt_values_def coalesce_def nullableText_def stored_attempt_def)

lemma attempt_values_simps [simp]:
  "ar_run_id (attempt_values a row) = ar_run_id row" "ar_task_key (attempt_values a row) = ar_task_key row"
  "ar_attempt_number (attempt_values a row) = ar_attempt_number row"
  by (simp_all add: attempt_values_def)

lemma new_attempt_row_simps [simp]:
  "ar_run_id (new_attempt_row runID key a) = runID" "ar_task_key (new_attempt_row runID key a) = key"
  "ar_attempt_number (new_attempt_row runID key a) = at_Number a"
  "attempt_of_row (new_attempt_row runID key a) = stored_attempt a"
  by (simp_all add: new_attempt_row_def)

lemma attempt_rows_numbers:
  assumes rep: "tasks_rep d runID ts rem" and i: "i < length ts"
  shows "map ar_attempt_number (attempt_rows_of d runID (tr_Key (ts ! i))) = map int [1 ..< Suc (length (tr_Attempts (ts ! i)))]"
    and "length (attempt_rows_of d runID (tr_Key (ts ! i))) = length (tr_Attempts (ts ! i))"
    and "numbered (tr_Attempts (ts ! i))"
proof -
  note n = tasks_rep_nth [OF rep]
  show len: "length (attempt_rows_of d runID (tr_Key (ts ! i))) = length (tr_Attempts (ts ! i))"
    using arg_cong [OF n(5) [OF i], of length] by simp
  have "numbered (map attempt_of_row (attempt_rows_of d runID (tr_Key (ts ! i))))"
    using rep n(4) [OF i] nth_mem [of i "task_rows d runID"] i n(1) by (metis tasks_rep_def tasks_contiguous_def)
  then show "map ar_attempt_number (attempt_rows_of d runID (tr_Key (ts ! i))) = map int [1 ..< Suc (length (tr_Attempts (ts ! i)))]"
    and "numbered (tr_Attempts (ts ! i))"
    using n(5) [OF i] numbered_rows len by (metis, simp)
qed

lemma insertAttempt_row:
  assumes "insertAttempt runID key index a d = Inr d'"
  shows "d' = d\<lparr>db_attempts := db_attempts d @ [new_attempt_row runID key a]\<rparr>"
    and "attempt_refs_ok d (new_attempt_row runID key a)"
    and "dispatches_unique (db_attempts d @ [new_attempt_row runID key a])"
    and "(runID, key) \<in> set (map (\<lambda>t. (tk_run_id t, tk_task_key t)) (db_tasks d))"
proof -
  define source where "source = filter (\<lambda>t. tk_run_id t = runID \<and> tk_task_key t = key \<and> tk_task_index t = index) (db_tasks d)"
  define numbers where "numbers = map ar_attempt_number (filter (\<lambda>a. ar_run_id a = runID \<and> ar_task_key a = key) (db_attempts d))"
  define rows where "rows = (if at_Number a = (if numbers = [] then 1 else fold max numbers 0 + 1)
    then map (\<lambda>_. new_attempt_row runID key a) source else [])"
  have r: "\<not> list_ex (\<lambda>r. \<not> attempt_refs_ok d r) rows" "dispatches_unique (db_attempts d @ rows)" "length rows = 1"
      "d' = d\<lparr>db_attempts := db_attempts d @ rows\<rparr>"
    using assms unfolding insertAttempt_def Let_def source_def [symmetric] numbers_def [symmetric] rows_def [symmetric]
    by (simp_all split: if_splits)
  have "set rows \<subseteq> {new_attempt_row runID key a}" by (auto simp: rows_def)
  with r(3) have "rows = [new_attempt_row runID key a]" by (cases rows) auto
  moreover have "source \<noteq> []" using r(3) by (auto simp: rows_def split: if_splits)
  then show "(runID, key) \<in> set (map (\<lambda>t. (tk_run_id t, tk_task_key t)) (db_tasks d))"
    by (force simp: source_def filter_empty_conv)
  ultimately show "d' = d\<lparr>db_attempts := db_attempts d @ [new_attempt_row runID key a]\<rparr>"
    and "attempt_refs_ok d (new_attempt_row runID key a)" and "dispatches_unique (db_attempts d @ [new_attempt_row runID key a])"
    using r by simp_all
qed

lemma insertAttempt_number:
  assumes "insertAttempt runID key index a d = Inr d'"
  defines "numbers \<equiv> map ar_attempt_number (filter (\<lambda>a. ar_run_id a = runID \<and> ar_task_key a = key) (db_attempts d))"
  shows "at_Number a = (if numbers = [] then 1 else fold max numbers 0 + 1)"
  using assms(1) unfolding insertAttempt_def Let_def numbers_def [symmetric] by (auto split: if_splits)

lemma insert_attempt_sim:
  assumes t: "tables_ok d" and rep: "tasks_rep d runID ts rem" and i: "i < length ts"
    and a: "at_Number a = int (length (tr_Attempts (ts ! i))) + 1"
    and u: "insertAttempt runID (tr_Key (ts ! i)) (int i) a d = Inr d'"
  shows "tables_ok d'" and "only_run runID d d'"
    and "tasks_rep d' runID (ts[i := (ts ! i)\<lparr>tr_Attempts := tr_Attempts (ts ! i) @ [a]\<rparr>]) rem"
    and "find_run d' = find_run d" and "event_rows d' = event_rows d"
proof -
  let ?key = "tr_Key (ts ! i)"
  let ?row = "new_attempt_row runID ?key a"
  note d' = insertAttempt_row(1) [OF u]
  show "find_run d' = find_run d" and "event_rows d' = event_rows d" and "tables_ok d'"
    using t insertAttempt_row(4) [OF u] by (simp_all add: d' tables_ok_def)
  have same: "attempt_rows_of d' r k = attempt_rows_of d r k" if "r \<noteq> runID \<or> k \<noteq> ?key" for r k
    using that by (auto simp: d' attempt_rows_of_def)
  then show "only_run runID d d'" by (simp add: only_run_def view_def outside_def d' fun_eq_iff)
  note num = attempt_rows_numbers [OF rep i]
  have "r \<in> set (attempt_rows_of d runID ?key) \<Longrightarrow> ar_attempt_number r \<le> ar_attempt_number ?row" for r
  proof -
    assume "r \<in> set (attempt_rows_of d runID ?key)"
    then have "ar_attempt_number r \<in> set (map int [1 ..< Suc (length (tr_Attempts (ts ! i)))])"
      unfolding num(1) [symmetric] by simp
    then show ?thesis using a by auto
  qed
  then have "attempt_rows_of d' runID ?key = attempt_rows_of d runID ?key @ [?row]"
    unfolding attempt_rows_of_def d' by (simp add: order_by_snoc) (intro order_by_snoc, simp add: order_by_def)
  then have "map attempt_of_row (attempt_rows_of d' runID ?key) = map stored_attempt (tr_Attempts (ts ! i) @ [a])"
    using tasks_rep_nth(5) [OF rep i] by simp
  moreover have "numbered (tr_Attempts (ts ! i) @ [a])" using num(3) a by (simp add: numbered_def)
  ultimately show "tasks_rep d' runID (ts[i := (ts ! i)\<lparr>tr_Attempts := tr_Attempts (ts ! i) @ [a]\<rparr>]) rem"
    using same by (intro attempts_changed [OF t rep i]) (simp_all add: d')
qed

definition attempt_match :: "db \<Rightarrow> AttemptChange \<Rightarrow> attempt_row \<Rightarrow> bool" where
  "attempt_match d c a \<longleftrightarrow>
     ar_run_id a = ac_RunID c \<and> ar_task_key a = ac_TaskKey c \<and> ar_attempt_number a = at_Number (ac_Attempt c) \<and>
     list_ex (\<lambda>t. tk_run_id t = ac_RunID c \<and> tk_task_key t = ac_TaskKey c \<and> tk_task_index t = ac_TaskIndex c) (db_tasks d)"

lemma attempt_update_rows:
  assumes rep: "tasks_rep d runID ts rem" and i: "i < length ts"
    and c: "ac_RunID c = runID" "ac_TaskKey c = tr_Key (ts ! i)" "ac_TaskIndex c = int i"
      "at_Number (ac_Attempt c) = int (Suc j)" and j: "j < length (tr_Attempts (ts ! i))"
  shows "k < length (attempt_rows_of d runID (tr_Key (ts ! i))) \<Longrightarrow>
      attempt_match d c (attempt_rows_of d runID (tr_Key (ts ! i)) ! k) \<longleftrightarrow> k = j"
    and "length (filter (attempt_match d c) (db_attempts d)) = 1"
proof -
  let ?key = "tr_Key (ts ! i)"
  note n = tasks_rep_nth [OF rep] and num = attempt_rows_numbers [OF rep i]
  have ex: "list_ex (\<lambda>t. tk_run_id t = ac_RunID c \<and> tk_task_key t = ac_TaskKey c \<and> tk_task_index t = ac_TaskIndex c) (db_tasks d)"
    using nth_mem [of i "task_rows d runID"] i n(1) n(3,4) [OF i] c(1-3) by (auto simp: list_ex_iff task_rows_mem)
  show m: "attempt_match d c (attempt_rows_of d runID ?key ! k) \<longleftrightarrow> k = j" if k: "k < length (attempt_rows_of d runID ?key)" for k
  proof -
    have "ar_attempt_number (attempt_rows_of d runID ?key ! k) = int (Suc k)"
      using arg_cong [OF num(1), of "\<lambda>xs. xs ! k"] k num(2) by (simp del: upt_Suc)
    moreover have "attempt_rows_of d runID ?key ! k \<in> set (attempt_rows_of d runID ?key)" using k by simp
    then have "ar_run_id (attempt_rows_of d runID ?key ! k) = runID" "ar_task_key (attempt_rows_of d runID ?key ! k) = ?key"
      by (simp_all add: attempt_rows_of_def order_by_def)
    ultimately show ?thesis using c ex by (auto simp: attempt_match_def)
  qed
  have "filter (attempt_match d c) (db_attempts d) =
      filter (attempt_match d c) (filter (\<lambda>a. ar_run_id a = runID \<and> ar_task_key a = ?key) (db_attempts d))"
    using c(1,2) by (auto simp: filter_filter attempt_match_def intro: filter_cong)
  then have "length (filter (attempt_match d c) (db_attempts d)) = length (filter (attempt_match d c) (attempt_rows_of d runID ?key))"
    unfolding attempt_rows_of_def length_filter_order_by by simp
  also have "\<dots> = 1" using filter_only [of j "attempt_rows_of d runID ?key" "attempt_match d c"] m j num(2) by simp
  finally show "length (filter (attempt_match d c) (db_attempts d)) = 1" .
qed

lemma update_attempt_sim:
  assumes t: "tables_ok d" and rep: "tasks_rep d runID ts rem" and i: "i < length ts"
    and c: "ac_RunID c = runID" "ac_TaskKey c = tr_Key (ts ! i)" "ac_TaskIndex c = int i"
      "at_Number (ac_Attempt c) = int (Suc j)" and j: "j < length (tr_Attempts (ts ! i))"
    and u: "update_attempt c d = Inr d'"
  shows "tables_ok d'" and "only_run runID d d'"
    and "tasks_rep d' runID (ts[i := (ts ! i)\<lparr>tr_Attempts := (tr_Attempts (ts ! i))[j := ac_Attempt c]\<rparr>]) rem"
    and "find_run d' = find_run d" and "event_rows d' = event_rows d"
proof -
  let ?key = "tr_Key (ts ! i)"
  have d': "d' = d\<lparr>db_attempts := sql_update (attempt_match d c) (attempt_values (ac_Attempt c)) (db_attempts d)\<rparr>"
    using u unfolding update_attempt_def attempt_match_def [symmetric] by (auto simp: bindR_eq_Inr checked_update_iff split: if_splits)
  show "find_run d' = find_run d" and "event_rows d' = event_rows d" and "tables_ok d'"
    using t by (simp_all add: d' tables_ok_def map_upd_same)
  have upd: "attempt_rows_of d' r k = sql_update (attempt_match d c) (attempt_values (ac_Attempt c)) (attempt_rows_of d r k)" for r k
    unfolding attempt_rows_of_def d' by (simp add: filter_sql_update order_by_sql_update)
  have same: "attempt_rows_of d' r k = attempt_rows_of d r k" if "r \<noteq> runID \<or> k \<noteq> ?key" for r k
    unfolding upd using that c(1,2) by (intro sql_update_none) (auto simp: attempt_match_def attempt_rows_of_def order_by_def)
  then show "only_run runID d d'" by (simp add: only_run_def view_def outside_def d' fun_eq_iff)
  note n = tasks_rep_nth [OF rep] and num = attempt_rows_numbers [OF rep i] and m = attempt_update_rows(1) [OF rep i c j]
  have "attempt_rows_of d' runID ?key = (attempt_rows_of d runID ?key)[j := attempt_values (ac_Attempt c) (attempt_rows_of d runID ?key ! j)]"
    unfolding upd using m by (rule sql_update_nth)
  moreover have "attempt_match d c (attempt_rows_of d runID ?key ! j)" using m j num(2) by simp
  then have "ar_attempt_number (attempt_rows_of d runID ?key ! j) = at_Number (ac_Attempt c)" by (simp add: attempt_match_def)
  ultimately have "map attempt_of_row (attempt_rows_of d' runID ?key) = map stored_attempt ((tr_Attempts (ts ! i))[j := ac_Attempt c])"
    using n(5) [OF i] by (simp add: map_update stored_attempt_def)
  moreover have "numbered ((tr_Attempts (ts ! i))[j := ac_Attempt c])"
    using num(3) j c(4) by (rule numbered_update)
  ultimately show "tasks_rep d' runID (ts[i := (ts ! i)\<lparr>tr_Attempts := (tr_Attempts (ts ! i))[j := ac_Attempt c]\<rparr>]) rem"
    using same by (intro attempts_changed [OF t rep i]) (simp_all add: d')
qed

section \<open>Change sets\<close>

text \<open>A database between two statements, against the snapshot between two row changes.\<close>

definition sim :: "RunID \<Rightarrow> db \<Rightarrow> RunSnapshot \<Rightarrow> db \<Rightarrow> bool" where
  "sim runID d s d' \<longleftrightarrow>
     tables_ok d' \<and> only_run runID d d' \<and> tasks_rep d' runID (run_tasks s) (run_remaining s) \<and>
     find_run d' = find_run d \<and> event_rows d' = event_rows d"

lemma apply_task_change_Inr:
  assumes "apply_task_change runID c (ch, s) = Inr (ch', s')"
  obtains i where "tc_Index c = int i" "i < length (run_tasks s)" "tc_RunID c = runID"
    "tr_Key (tc_Task c) = tr_Key (run_tasks s ! i)" "tr_Attempts (tc_Task c) = []" "0 \<le> tc_RemainingDependencies c"
    "run_tasks s' = (run_tasks s)[i := (tc_Task c)\<lparr>tr_Attempts := tr_Attempts (run_tasks s ! i)\<rparr>]"
    "run_remaining s' = (run_remaining s)[i := tc_RemainingDependencies c]"
    "tc_Index c \<notin> set ch" "ch' = tc_Index c # ch"
proof -
  have c: "0 \<le> tc_Index c" "tc_Index c < int (length (run_tasks s))" "tc_RunID c = runID"
    "tr_Key (tc_Task c) = tr_Key (run_tasks s ! nat (tc_Index c))" "tr_Attempts (tc_Task c) = []" "0 \<le> tc_RemainingDependencies c"
    "tc_Index c \<notin> set ch" "ch' = tc_Index c # ch"
    "s' = upd_run (\<lambda>r. r\<lparr>wr_RemainingDependencies := (wr_RemainingDependencies r)[nat (tc_Index c) := tc_RemainingDependencies c]\<rparr>)
       (upd_task (nat (tc_Index c)) (\<lambda>t. (tc_Task c)\<lparr>tr_Attempts := tr_Attempts t\<rparr>) s)"
    using assms by (auto simp: apply_task_change_def Let_def split: if_splits)
  show thesis using c by (intro that [of "nat (tc_Index c)"]) (auto simp: upd_task_def upd_run_def)
qed

lemma task_rows_sim:
  assumes "foldR (apply_task_change runID) cs (ch, s) = Inr (ch', s')" and "sim runID d0 s d"
    and "foldR update_task_run cs d = Inr d'"
  shows "sim runID d0 s' d'"
  using assms
proof (induction cs arbitrary: ch s d)
  case (Cons c cs)
  then obtain ch1 s1 d1 where a: "apply_task_change runID c (ch, s) = Inr (ch1, s1)"
      "foldR (apply_task_change runID) cs (ch1, s1) = Inr (ch', s')"
    and u: "update_task_run c d = Inr d1" "foldR update_task_run cs d1 = Inr d'"
    by (auto simp: bindR_eq_Inr)
  obtain i where i: "tc_Index c = int i" "i < length (run_tasks s)" "tc_RunID c = runID"
    "tr_Key (tc_Task c) = tr_Key (run_tasks s ! i)"
    "run_tasks s1 = (run_tasks s)[i := (tc_Task c)\<lparr>tr_Attempts := tr_Attempts (run_tasks s ! i)\<rparr>]"
    "run_remaining s1 = (run_remaining s)[i := tc_RemainingDependencies c]"
    using apply_task_change_Inr [OF a(1)] by metis
  have d: "tables_ok d" "tasks_rep d runID (run_tasks s) (run_remaining s)" using Cons.prems(2) by (simp_all add: sim_def)
  have "sim runID d0 s1 d1"
    using update_task_sim [OF d i(2,3,1,4) u(1)] Cons.prems(2) only_run_trans unfolding sim_def i(5,6) by metis
  with Cons.IH a(2) u(2) show ?case by blast
qed simp

lemma apply_attempt_change_Inr:
  assumes "apply_attempt_change runID c (ch, s) = Inr (ch', s')"
  obtains i as where "ac_TaskIndex c = int i" "i < length (run_tasks s)" "ac_RunID c = runID" "ac_TaskKey c = tr_Key (run_tasks s ! i)"
    "run_tasks s' = (run_tasks s)[i := (run_tasks s ! i)\<lparr>tr_Attempts := as\<rparr>]" "run_remaining s' = run_remaining s"
    "(int i, at_Number (ac_Attempt c)) \<notin> set ch" "ch' = (int i, at_Number (ac_Attempt c)) # ch"
    "ac_Operation c = ChangeInsert \<and> at_Number (ac_Attempt c) = int (length (tr_Attempts (run_tasks s ! i))) + 1 \<and>
       as = tr_Attempts (run_tasks s ! i) @ [ac_Attempt c] \<or>
     ac_Operation c = ChangeUpdate \<and> (\<exists>j < length (tr_Attempts (run_tasks s ! i)). at_Number (ac_Attempt c) = int (Suc j) \<and>
       as = (tr_Attempts (run_tasks s ! i))[j := ac_Attempt c])"
proof -
  let ?i = "nat (ac_TaskIndex c)" and ?n = "at_Number (ac_Attempt c)"
  have c: "0 \<le> ac_TaskIndex c" "ac_TaskIndex c < int (length (run_tasks s))" "ac_RunID c = runID"
      "ac_TaskKey c = tr_Key (run_tasks s ! ?i)" "(ac_TaskIndex c, ?n) \<notin> set ch" "ch' = (ac_TaskIndex c, ?n) # ch"
    using assms by (auto simp: apply_attempt_change_def Let_def split: if_splits ChangeOperation.splits)
  let ?s = "\<lambda>as. upd_task ?i (\<lambda>t. t\<lparr>tr_Attempts := as (tr_Attempts t)\<rparr>) s"
  consider "ac_Operation c = ChangeInsert" "?n = int (length (tr_Attempts (run_tasks s ! ?i))) + 1" "s' = ?s (\<lambda>as. as @ [ac_Attempt c])"
    | "ac_Operation c = ChangeUpdate" "0 \<le> ?n - 1" "?n - 1 < int (length (tr_Attempts (run_tasks s ! ?i)))"
        "s' = ?s (\<lambda>as. as[nat (?n - 1) := ac_Attempt c])"
    using assms by (auto simp: apply_attempt_change_def Let_def split: if_splits ChangeOperation.splits)
  then show thesis
  proof cases
    case 1
    then show ?thesis using c by (intro that [of ?i "tr_Attempts (run_tasks s ! ?i) @ [ac_Attempt c]"]) (auto simp: upd_task_def upd_run_def)
  next
    case 2
    then have "\<exists>j < length (tr_Attempts (run_tasks s ! ?i)). ?n = int (Suc j) \<and>
        (tr_Attempts (run_tasks s ! ?i))[nat (?n - 1) := ac_Attempt c] = (tr_Attempts (run_tasks s ! ?i))[j := ac_Attempt c]"
      by (intro exI [of _ "nat (?n - 1)"]) auto
    then show ?thesis using c 2
      by (intro that [of ?i "(tr_Attempts (run_tasks s ! ?i))[nat (?n - 1) := ac_Attempt c]"]) (auto simp: upd_task_def upd_run_def)
  qed
qed

lemma attempt_row_sim:
  assumes a: "apply_attempt_change runID c (ch, s) = Inr (ch1, s1)" and sim: "sim runID d0 s d"
    and u: "apply_attempt_row c d = Inr d1"
  shows "sim runID d0 s1 d1"
proof -
  obtain i as where i: "ac_TaskIndex c = int i" "i < length (run_tasks s)" "ac_RunID c = runID" "ac_TaskKey c = tr_Key (run_tasks s ! i)"
    "run_tasks s1 = (run_tasks s)[i := (run_tasks s ! i)\<lparr>tr_Attempts := as\<rparr>]" "run_remaining s1 = run_remaining s"
    and op: "ac_Operation c = ChangeInsert \<and> at_Number (ac_Attempt c) = int (length (tr_Attempts (run_tasks s ! i))) + 1 \<and>
       as = tr_Attempts (run_tasks s ! i) @ [ac_Attempt c] \<or>
     ac_Operation c = ChangeUpdate \<and> (\<exists>j < length (tr_Attempts (run_tasks s ! i)). at_Number (ac_Attempt c) = int (Suc j) \<and>
       as = (tr_Attempts (run_tasks s ! i))[j := ac_Attempt c])"
    using apply_attempt_change_Inr [OF a] by metis
  have d: "tables_ok d" "tasks_rep d runID (run_tasks s) (run_remaining s)" using sim by (simp_all add: sim_def)
  have "tables_ok d1 \<and> only_run runID d d1 \<and> tasks_rep d1 runID (run_tasks s1) (run_remaining s1) \<and>
      find_run d1 = find_run d \<and> event_rows d1 = event_rows d"
    using op
  proof
    assume o: "ac_Operation c = ChangeInsert \<and> at_Number (ac_Attempt c) = int (length (tr_Attempts (run_tasks s ! i))) + 1 \<and>
       as = tr_Attempts (run_tasks s ! i) @ [ac_Attempt c]"
    then have "insertAttempt runID (tr_Key (run_tasks s ! i)) (int i) (ac_Attempt c) d = Inr d1"
      using u i by (simp add: apply_attempt_row_def)
    then show ?thesis using insert_attempt_sim [OF d i(2)] o unfolding i(5,6) by metis
  next
    assume o: "ac_Operation c = ChangeUpdate \<and> (\<exists>j < length (tr_Attempts (run_tasks s ! i)). at_Number (ac_Attempt c) = int (Suc j) \<and>
       as = (tr_Attempts (run_tasks s ! i))[j := ac_Attempt c])"
    then have "update_attempt c d = Inr d1" using u by (simp add: apply_attempt_row_def)
    then show ?thesis using update_attempt_sim [OF d i(2,3,4,1)] o unfolding i(5,6) by metis
  qed
  then show ?thesis using sim only_run_trans unfolding sim_def by metis
qed

lemma attempt_rows_sim:
  assumes "foldR (apply_attempt_change runID) cs (ch, s) = Inr (ch', s')" and "sim runID d0 s d"
    and "foldR apply_attempt_row cs d = Inr d'"
  shows "sim runID d0 s' d'"
  using assms
proof (induction cs arbitrary: ch s d)
  case (Cons c cs)
  then show ?case using attempt_row_sim by (fastforce simp: bindR_eq_Inr)
qed simp

section \<open>Event rows\<close>

lemma event_of_new_row [simp]: "event_of_row (new_event_row runID e) = stored_event e"
  by (simp add: event_of_row_def new_event_row_def stored_event_def)

lemma int64_of_count:
  assumes "n < 2 ^ 63"
  shows "int64 (of_nat n) = int n"
proof -
  have "(of_nat n :: u64) = of_int (int n)" by simp
  then show ?thesis using int64_of_bigint [of "int n"] assms by simp
qed

lemma insert_event_sim:
  assumes t: "tables_ok d" and con: "events_contiguous d runID" and e: "se_Sequence e = of_nat (Suc (length (event_rows d runID)))"
    and u: "insertEvent runID e d = Inr d'"
  shows "tables_ok d'" and "only_run runID d d'" and "events_contiguous d' runID"
    and "event_rows d' runID = event_rows d runID @ [new_event_row runID e]"
    and "find_run d' = find_run d" and "task_rows d' = task_rows d" and "attempt_rows_of d' = attempt_rows_of d"
proof -
  let ?row = "new_event_row runID e" and ?n = "length (event_rows d runID)"
  have d': "d' = d\<lparr>db_events := db_events d @ [?row]\<rparr>" and ok: "event_row_ok ?row" and "find_run d runID \<noteq> None"
    using u by (auto simp: insertEvent_def Let_def split: if_splits)
  then have "runID \<in> rr_run_id ` set (db_runs d)" using find_run_SomeD [of d runID] by auto
  have "int ?n < 2 ^ 63" by (rule events_count [OF t con])
  moreover have "int ?n + 1 \<noteq> 2 ^ 63"
  proof
    assume "int ?n + 1 = 2 ^ 63"
    then have "Suc ?n = 2 ^ 63" by simp
    then have "se_Sequence e = 2 ^ 63" using e by (metis of_nat_numeral of_nat_power)
    then show False using ok by (simp add: event_row_ok_def new_event_row_def int64_def)
  qed
  ultimately have small: "Suc ?n < 2 ^ 63" by simp
  then have seq: "ev_sequence ?row = int (Suc ?n)" using e int64_of_count by (simp add: new_event_row_def del: of_nat_Suc)
  show "find_run d' = find_run d" and "task_rows d' = task_rows d" and "attempt_rows_of d' = attempt_rows_of d"
    by (simp_all add: d')
  have run: "ev_run_id ?row = runID" by (simp add: new_event_row_def)
  then show "tables_ok d'" using t seq small \<open>runID \<in> rr_run_id ` set (db_runs d)\<close> by (simp add: tables_ok_def d')
  have "ev_sequence r \<le> ev_sequence ?row" if "r \<in> set (event_rows d runID)" for r
  proof -
    have "ev_sequence r \<in> set (map int [1 ..< Suc ?n])"
      using that con unfolding events_contiguous_def by (metis image_eqI list.set_map)
    then show ?thesis using seq by auto
  qed
  then show rows: "event_rows d' runID = event_rows d runID @ [?row]"
    unfolding event_rows_def d' using run by simp (intro order_by_snoc, simp add: order_by_def)
  show "events_contiguous d' runID" using con seq by (simp add: events_contiguous_def rows)
  show "only_run runID d d'" using run by (simp add: only_run_def view_def outside_def d') (simp add: event_rows_def)
qed

lemma insert_events_sim:
  assumes "foldR (insertEvent runID) es d = Inr d'" and "tables_ok d" and "events_contiguous d runID"
    and "check_events (of_nat (Suc (length (event_rows d runID)))) es = Inr ()"
  shows "tables_ok d' \<and> only_run runID d d' \<and> events_contiguous d' runID \<and>
    event_rows d' runID = event_rows d runID @ map (new_event_row runID) es \<and>
    find_run d' = find_run d \<and> task_rows d' = task_rows d \<and> attempt_rows_of d' = attempt_rows_of d"
  using assms
proof (induction es arbitrary: d)
  case (Cons e es)
  then obtain d1 where u: "insertEvent runID e d = Inr d1" and rest: "foldR (insertEvent runID) es d1 = Inr d'"
    by (auto simp: bindR_eq_Inr)
  have e: "se_Sequence e = of_nat (Suc (length (event_rows d runID)))"
    and es: "check_events (of_nat (Suc (length (event_rows d runID))) + 1) es = Inr ()"
    using Cons.prems(4) by (simp_all split: if_splits)
  note s = insert_event_sim [OF Cons.prems(2,3) e u]
  have "of_nat (Suc (length (event_rows d runID))) + 1 = (of_nat (Suc (length (event_rows d1 runID))) :: u64)" unfolding s(4) by simp
  with es have "check_events (of_nat (Suc (length (event_rows d1 runID)))) es = Inr ()" by (simp only:)
  from Cons.IH [OF rest s(1,3) this] s only_run_trans [OF s(2)] show ?case by simp
qed simp

section \<open>The run row\<close>

lemma find_sql_update:
  "(\<And>r. f (change r) = f r) \<Longrightarrow> find (\<lambda>r. f r = k) (sql_update matching change rows) =
   map_option (\<lambda>r. if matching r then change r else r) (find (\<lambda>r. f r = k) rows)"
  by (induction rows) (auto simp: sql_update_def)

abbreviation run_change :: "WorkflowRun \<Rightarrow> run_row \<Rightarrow> run_row" where
  "run_change run r \<equiv> r\<lparr>rr_status := wr_Status run, rr_revision := int64 (wr_Revision run),
     rr_last_event_sequence := int64 (wr_LastEventSequence run),
     rr_cancel_requested_at := tz_opt (wr_CancelRequestedAt run), rr_created_at := timestamptz (wr_CreatedAt run),
     rr_started_at := tz_opt (wr_StartedAt run), rr_finished_at := tz_opt (wr_FinishedAt run)\<rparr>"

abbreviation run_match :: "ChangeSet \<Rightarrow> u64 \<Rightarrow> run_row \<Rightarrow> bool" where
  "run_match c q r \<equiv> rr_run_id r = cs_RunID c \<and> rr_revision r = int64 (cs_ExpectedRevision c) \<and>
     rr_last_event_sequence r = int64 q"

lemma find_run_unique:
  assumes "tables_ok d" and "r \<in> set (db_runs d)"
  shows "find_run d (rr_run_id r) = Some r"
proof -
  have "distinct (map rr_run_id xs) \<Longrightarrow> r \<in> set xs \<Longrightarrow> find (\<lambda>x. rr_run_id x = rr_run_id r) xs = Some r" for xs
    by (induction xs) (auto simp: image_iff)
  then show ?thesis using assms by (simp add: find_run_def tables_ok_def)
qed

lemma update_run_sim:
  assumes t: "tables_ok d" and u: "update_run c run q d = Inr d'"
  obtains r where "find_run d (cs_RunID c) = Some r" and "run_match c q r"
    and "find_run d' (cs_RunID c) = Some (run_change run r)"
    and "tables_ok d'" and "only_run (cs_RunID c) d d'"
    and "task_rows d' = task_rows d" and "attempt_rows_of d' = attempt_rows_of d" and "event_rows d' = event_rows d"
proof -
  have d': "d' = d\<lparr>db_runs := sql_update (run_match c q) (run_change run) (db_runs d)\<rparr>"
    and ok: "\<forall>r \<in> set (db_runs d). run_match c q r \<longrightarrow> run_row_ok (run_change run r)"
    and n: "length (filter (run_match c q) (db_runs d)) = 1"
    using u by (auto simp: update_run_def bindR_eq_Inr checked_update_iff split: if_splits)
  have "filter (run_match c q) (db_runs d) \<noteq> []" using n by (metis list.size(3) zero_neq_one)
  then obtain r where r: "r \<in> set (db_runs d)" "run_match c q r" by (auto simp: filter_empty_conv)
  have find: "find_run d' k = map_option (\<lambda>r. if run_match c q r then run_change run r else r) (find_run d k)" for k
    unfolding find_run_def d' by (simp add: find_sql_update)
  have fr: "find_run d (cs_RunID c) = Some r" using find_run_unique [OF t r(1)] r(2) by simp
  have "tables_ok d'" using t ok int64_less by (simp add: tables_ok_def d' map_upd_same list_all_sql_update)
  moreover have "only_run (cs_RunID c) d d'"
  proof -
    have "find_run d' k = find_run d k" if "k \<noteq> cs_RunID c" for k
      using find [of k] that find_run_SomeD [of d k] by (cases "find_run d k") auto
    then show ?thesis by (simp add: only_run_def view_def outside_def d')
  qed
  ultimately show thesis using that [OF fr r(2)] find [of "cs_RunID c"] fr r(2) by (simp add: d')
qed

section \<open>The refinement\<close>

lemma word_pred_succ: "(x :: u64) + 1 - 1 = x"
  by simp

lemma check_events_last:
  assumes "check_events (q + 1) es = Inr ()" and "es \<noteq> []"
  shows "se_Sequence (hd es) = q + 1" and "se_Sequence (last es) = q + of_nat (length es)"
proof -
  show "se_Sequence (hd es) = q + 1" using assms by (cases es) (auto split: if_splits)
  have "se_Sequence (es ! (length es - 1)) = q + 1 + of_nat (length es - 1)"
    using assms by (simp add: check_events_iff)
  moreover have "(of_nat (length es) :: u64) = 1 + of_nat (length es - 1)"
    using assms(2) by (cases es) simp_all
  ultimately show "se_Sequence (last es) = q + of_nat (length es)" using assms(2) by (simp add: last_conv_nth)
qed

definition run_head :: "RunSnapshot \<Rightarrow> RunSnapshot" where
  "run_head s = s\<lparr>rs_Run := (rs_Run s)\<lparr>wr_Tasks := [], wr_RemainingDependencies := []\<rparr>\<rparr>"

lemma apply_rows_head:
  "apply_task_change runID x (c, s) = Inr (c', s') \<Longrightarrow> run_head s = run_head s'"
  "apply_attempt_change runID y (d, s) = Inr (d', s') \<Longrightarrow> run_head s = run_head s'"
  by (auto simp: apply_task_change_def apply_attempt_change_def run_head_def upd_task_def upd_run_def Let_def
      split: if_splits ChangeOperation.splits)

lemma apply_rows_length:
  "apply_task_change runID x (c, s) = Inr (c', s') \<Longrightarrow> length (run_tasks s) = length (run_tasks s')"
  "apply_attempt_change runID y (d, s) = Inr (d', s') \<Longrightarrow> length (run_tasks s) = length (run_tasks s')"
  using apply_task_change_Inr apply_attempt_change_Inr by (metis length_list_update)+

lemma apply_task_keys:
  "apply_task_change runID x (c, s) = Inr (c', s') \<Longrightarrow> map tr_Key (run_tasks s) = map tr_Key (run_tasks s')"
proof -
  assume "apply_task_change runID x (c, s) = Inr (c', s')"
  then obtain i where i: "i < length (run_tasks s)" "tr_Key (tc_Task x) = tr_Key (run_tasks s ! i)"
    "run_tasks s' = (run_tasks s)[i := (tc_Task x)\<lparr>tr_Attempts := tr_Attempts (run_tasks s ! i)\<rparr>]"
    using apply_task_change_Inr by metis
  then show ?thesis by (simp add: map_update) (metis list_update_id nth_map)
qed

lemma loaded_log_ok:
  assumes "events_contiguous d runID" and "rr_last_event_sequence r = int (length (event_rows d runID))"
  shows "log_ok (loaded d runID r cw)"
proof -
  have "ev_sequence (event_rows d runID ! k) = int (Suc k)" if "k < length (event_rows d runID)" for k
    using arg_cong [OF assms(1) [unfolded events_contiguous_def], of "\<lambda>xs. xs ! k"] that by (simp del: upt_Suc)
  then show ?thesis using assms(2) by (simp add: log_ok_def loaded_def run_of_row_def event_of_row_def)
qed

lemma load_rebuilt:
  assumes t': "tables_ok d'" and ld: "loadable d runID r cw" and st: "as_stored (loaded d runID r cw) = loaded d runID r cw"
    and row: "find_run d' runID = Some (run_change run r)" and versions: "db_versions d' = db_versions d"
    and rep: "tasks_rep d' runID (run_tasks u) (run_remaining u)" and len: "length (task_rows d' runID) = length (task_rows d runID)"
    and con: "events_contiguous d' runID" and events: "event_rows d' runID = event_rows d runID @ map (new_event_row runID) es"
    and head: "run_head u = run_head ((loaded d runID r cw)\<lparr>rs_Run := run\<rparr>)"
    and run: "wr_ID run = runID" "wr_DefinitionID run = rr_workflow_id r" "wr_DefinitionVersion run = rr_workflow_version r"
      "wr_LastEventSequence run = of_nat (length (event_rows d' runID))"
  shows "loadSnapshot d' runID = Inr (as_stored (u\<lparr>rs_Events := rs_Events u @ es\<rparr>))"
proof -
  have count: "int64 (wr_LastEventSequence run) = int (length (event_rows d' runID))"
    unfolding run(4) using events_count [OF t' con] by (intro int64_of_count) simp
  have "rr_run_id r = runID" using ld find_run_SomeD [of d runID r] by (simp add: loadable_def)
  moreover have "find_version d' = find_version d" using versions by (simp add: find_version_def fun_eq_iff)
  ultimately have ld': "loadable d' runID (run_change run r) cw"
    using ld row rep con count len by (simp add: loadable_def tasks_rep_def)
  have "map stored_event (map event_of_row (event_rows d runID)) = map event_of_row (event_rows d runID)"
    using arg_cong [OF st, of rs_Events] by (simp add: loaded_def)
  then have "map event_of_row (event_rows d' runID) = map stored_event (rs_Events (loaded d runID r cw) @ es)"
    unfolding events by (simp add: loaded_def comp_def)
  moreover obtain ts rem where u: "u = \<lparr>rs_Version = rr_snapshot_version r, rs_Definition = Some (cw_definition cw),
      rs_Run = run\<lparr>wr_Tasks := ts, wr_RemainingDependencies := rem\<rparr>, rs_Events = rs_Events (loaded d runID r cw)\<rparr>"
  proof (rule that)
    have "rs_Events u = rs_Events (loaded d runID r cw)" "rs_Version u = rr_snapshot_version r" "rs_Definition u = Some (cw_definition cw)"
      using arg_cong [OF head, of rs_Events] arg_cong [OF head, of rs_Version] arg_cong [OF head, of rs_Definition]
      by (simp_all add: run_head_def loaded_def)
    moreover have "(rs_Run u)\<lparr>wr_Tasks := [], wr_RemainingDependencies := []\<rparr> = run\<lparr>wr_Tasks := [], wr_RemainingDependencies := []\<rparr>"
      using arg_cong [OF head, of rs_Run] by (simp add: run_head_def)
    then have "rs_Run u = run\<lparr>wr_Tasks := run_tasks u, wr_RemainingDependencies := run_remaining u\<rparr>"
      by (cases "rs_Run u"; cases run) simp
    ultimately show "u = \<lparr>rs_Version = rr_snapshot_version r, rs_Definition = Some (cw_definition cw),
      rs_Run = run\<lparr>wr_Tasks := run_tasks u, wr_RemainingDependencies := run_remaining u\<rparr>, rs_Events = rs_Events (loaded d runID r cw)\<rparr>"
      by (cases u) simp
  qed
  ultimately have "loaded d' runID (run_change run r) cw = as_stored (u\<lparr>rs_Events := rs_Events u @ es\<rparr>)"
    using rep run(1-3) \<open>rr_run_id r = runID\<close> unfolding u
    by (simp add: loaded_def run_of_row_def as_stored_def tasks_rep_def)
  then show ?thesis using load_iff [OF t'] ld' by metis
qed

lemma apply_tx_refines:
  assumes t: "tables_ok d" and l: "loadSnapshot d runID = Inr b" and st: "as_stored b = b"
    and a: "applyChangeSet b c = Inr a"
    and same: "\<And>run. cs_Run c = Some run \<Longrightarrow>
      wr_DefinitionID run = wr_DefinitionID (rs_Run b) \<and> wr_DefinitionVersion run = wr_DefinitionVersion (rs_Run b)"
    and u: "applyChangeSetTx c d = Inr d'"
  shows "tables_ok d'" and "only_run runID d d'" and "loadSnapshot d' runID = Inr (as_stored a)"
proof -
  obtain r cw where ld: "loadable d runID r cw" and b: "b = loaded d runID r cw" using l load_iff [OF t] by metis
  obtain run ch1 u1 ch2 u2 where run: "cs_Run c = Some run" "wr_ID run = cs_RunID c" "cs_RunID c = wr_ID (rs_Run b)"
      "wr_Tasks run = []" "wr_RemainingDependencies run = []"
    and f1: "foldR (apply_task_change (cs_RunID c)) (cs_Tasks c)
       ([], b\<lparr>rs_Run := run\<lparr>wr_Tasks := run_tasks b, wr_RemainingDependencies := run_remaining b\<rparr>\<rparr>) = Inr (ch1, u1)"
    and f2: "foldR (apply_attempt_change (cs_RunID c)) (cs_Attempts c) ([], u1) = Inr (ch2, u2)"
    and ev: "check_events (snapshotLastEventSequence b + 1) (cs_Events c) = Inr ()"
    and lastq: "wr_LastEventSequence (rs_Run u2) = (if cs_Events c \<noteq> [] then se_Sequence (last (cs_Events c)) else snapshotLastEventSequence b)"
    and a2: "a = u2\<lparr>rs_Events := rs_Events u2 @ cs_Events c\<rparr>"
    using a by (auto simp: applyChangeSet_def Let_def bindR_eq_Inr split: if_splits option.splits)
  have rid: "rr_run_id r = runID" using ld find_run_SomeD [of d runID r] by (simp add: loadable_def)
  then have cid: "cs_RunID c = runID" using run b by (simp add: loaded_def run_of_row_def)
  define q where "q = (if cs_Events c \<noteq> [] then se_Sequence (hd (cs_Events c)) - 1 else wr_LastEventSequence run)"
  obtain d1 d2 d3 where u1: "update_run c run q d = Inr d1" and u2: "foldR update_task_run (cs_Tasks c) d1 = Inr d2"
    and u3: "foldR apply_attempt_row (cs_Attempts c) d2 = Inr d3" and u4: "foldR (insertEvent runID) (cs_Events c) d3 = Inr d'"
    using u run(1) cid by (auto simp: applyChangeSetTx_def bindR_eq_Inr Let_def q_def validateChangeSetShape_def split: if_splits list.splits)
  obtain d1: "find_run d1 runID = Some (run_change run r)" "tables_ok d1" "only_run runID d d1"
    "task_rows d1 = task_rows d" "attempt_rows_of d1 = attempt_rows_of d" "event_rows d1 = event_rows d"
    using update_run_sim [OF t u1] ld unfolding cid loadable_def by (metis option.inject)
  define u0 where "u0 = b\<lparr>rs_Run := run\<lparr>wr_Tasks := run_tasks b, wr_RemainingDependencies := run_remaining b\<rparr>\<rparr>"
  have "tasks_rep d1 runID (run_tasks u0) (run_remaining u0)"
  proof -
    have "map stored_task (run_tasks b) = run_tasks b" using arg_cong [OF st, of run_tasks] by simp
    then have "tasks_rep d runID (run_tasks u0) (run_remaining u0)"
      using ld by (simp add: tasks_rep_def u0_def loadable_def) (simp add: b loaded_def)
    then show ?thesis using tasks_rep_cong [OF d1(4,5)] by simp
  qed
  then have "sim runID d1 u0 d1" using d1(2) by (simp add: sim_def)
  then have "sim runID d1 u2 d3"
    using task_rows_sim [OF f1 [unfolded cid, folded u0_def] _ u2] attempt_rows_sim [OF f2 [unfolded cid] _ u3] by blast
  then have d3: "tables_ok d3" "only_run runID d1 d3" "tasks_rep d3 runID (run_tasks u2) (run_remaining u2)"
      "find_run d3 = find_run d1" "event_rows d3 = event_rows d" using d1(6) by (simp_all add: sim_def)
  have log: "events_contiguous d runID" "snapshotLastEventSequence b = of_nat (length (event_rows d runID))"
    using ld loaded_log_ok [of d runID r cw] log_ok_last [of b] by (simp_all add: loadable_def b) (simp add: loaded_def)
  have ev3: "check_events (of_nat (Suc (length (event_rows d3 runID)))) (cs_Events c) = Inr ()"
    using ev unfolding log(2) d3(5) by (simp add: add.commute)
  have con3: "events_contiguous d3 runID" using log(1) d3(5) by (simp add: events_contiguous_def)
  note e = insert_events_sim [OF u4 d3(1) con3 ev3]
  show t': "tables_ok d'" using e by blast
  show only: "only_run runID d d'" using e only_run_trans [OF only_run_trans [OF d1(3) d3(2)]] by blast
  have head: "run_head u2 = run_head u0"
    using foldR_frame [OF f2, of run_head] foldR_frame [OF f1, of run_head] apply_rows_head unfolding u0_def by metis
  have "wr_LastEventSequence run = of_nat (length (event_rows d' runID))"
  proof -
    have "wr_LastEventSequence (rs_Run u2) = wr_LastEventSequence run"
      using arg_cong [OF head, of "\<lambda>s. wr_LastEventSequence (rs_Run s)"] by (simp add: run_head_def u0_def)
    then show ?thesis using lastq ev check_events_last [of "snapshotLastEventSequence b" "cs_Events c"] e d3(5) log(2)
      by (cases "cs_Events c = []") (simp_all add: add.commute)
  qed
  moreover have "run_head u2 = run_head ((loaded d runID r cw)\<lparr>rs_Run := run\<rparr>)"
    unfolding head b u0_def by (simp add: run_head_def)
  moreover have "tasks_rep d' runID (run_tasks u2) (run_remaining u2)"
    using d3(3) e tasks_rep_cong [of d' d3] by simp
  moreover have "length (task_rows d' runID) = length (task_rows d runID)"
  proof -
    have "length (run_tasks u2) = length (run_tasks u0)"
      using foldR_frame [OF f2, of "\<lambda>s. length (run_tasks s)"] foldR_frame [OF f1, of "\<lambda>s. length (run_tasks s)"]
        apply_rows_length unfolding u0_def by metis
    then show ?thesis using tasks_rep_nth(1) [OF d3(3)] e by (simp add: u0_def) (simp add: b loaded_def)
  qed
  moreover have "find_run d' runID = Some (run_change run r)" "db_versions d' = db_versions d"
    using d1(1) d3(4) e only by (simp_all add: only_run_def outside_def)
  moreover have "event_rows d' runID = event_rows d runID @ map (new_event_row runID) (cs_Events c)" using e d3(5) by simp
  moreover have "wr_DefinitionID run = rr_workflow_id r" "wr_DefinitionVersion run = rr_workflow_version r"
    using same [OF run(1)] by (simp_all add: b loaded_def run_of_row_def)
  ultimately show "loadSnapshot d' runID = Inr (as_stored a)"
    unfolding a2 using t' ld st e run(2) cid by (intro load_rebuilt [where d = d]) (simp_all add: b)
qed

section \<open>When a statement fails\<close>

text \<open>A change set that applies to the loaded snapshot can only be refused by a constraint
  of a table.\<close>

definition refused :: "'a res \<Rightarrow> bool" where
  "refused r \<longleftrightarrow> (\<exists>w. r = Inl (SqlError w))"

lemma refused_bindR: "refused (bindR m f) \<longleftrightarrow> refused m \<or> (\<exists>x. m = Inr x \<and> refused (f x))"
  by (cases m) (auto simp: refused_def)

lemma foldR_refused:
  assumes "P s ch" and "\<And>x s ch s' ch'. x \<in> set xs \<Longrightarrow> P s ch \<Longrightarrow> f x ch = Inr ch' \<Longrightarrow> (\<exists>s'. g x s = Inr s' \<and> P s' ch') \<or> refused (g x s)"
    and "foldR f xs ch = Inr ch'"
  shows "(\<exists>s'. foldR g xs s = Inr s' \<and> P s' ch') \<or> refused (foldR g xs s)"
  using assms
proof (induction xs arbitrary: s ch)
  case (Cons x xs)
  then obtain ch1 where f: "f x ch = Inr ch1" "foldR f xs ch1 = Inr ch'" by (auto simp: bindR_eq_Inr)
  from Cons.prems(2) [OF list.set_intros(1) Cons.prems(1) f(1)] show ?case
  proof
    assume "\<exists>s'. g x s = Inr s' \<and> P s' ch1"
    then obtain s1 where s1: "g x s = Inr s1" "P s1 ch1" by blast
    have "(\<exists>s'. foldR g xs s1 = Inr s' \<and> P s' ch') \<or> refused (foldR g xs s1)"
      using Cons.prems(2) by (intro Cons.IH [OF s1(2) _ f(2)]) auto
    then show ?thesis using s1(1) by simp
  next
    assume "refused (g x s)"
    then show ?thesis by (auto simp: refused_def)
  qed
qed auto

lemma update_task_returns:
  assumes "tables_ok d" and "tasks_rep d runID ts rem" and "i < length ts"
    and "tc_RunID c = runID" "tc_Index c = int i" "tr_Key (tc_Task c) = tr_Key (ts ! i)"
  shows "(\<exists>d'. update_task_run c d = Inr d') \<or> refused (update_task_run c d)"
  using task_update_rows(2) [OF assms] by (auto simp: update_task_run_def checked_update_def refused_def)

lemma task_rows_return:
  assumes "foldR (apply_task_change runID) cs (ch, s) = Inr (ch', s')" and "sim runID d0 s d"
  shows "(\<exists>d'. foldR update_task_run cs d = Inr d' \<and> sim runID d0 s' d') \<or> refused (foldR update_task_run cs d)"
proof -
  have "(\<exists>d'. foldR update_task_run cs d = Inr d' \<and> sim runID d0 (snd (ch', s')) d') \<or> refused (foldR update_task_run cs d)"
  proof (rule foldR_refused [OF _ _ assms(1), where P = "\<lambda>d p. sim runID d0 (snd p) d"])
    fix c d p p' assume sim: "sim runID d0 (snd p) d" and a: "apply_task_change runID c p = Inr p'"
    obtain ch s ch1 s1 where p: "p = (ch, s)" "p' = (ch1, s1)" by (metis prod.exhaust)
    obtain i where i: "tc_Index c = int i" "i < length (run_tasks s)" "tc_RunID c = runID" "tr_Key (tc_Task c) = tr_Key (run_tasks s ! i)"
      using apply_task_change_Inr [OF a [unfolded p]] by metis
    have "(\<exists>d'. update_task_run c d = Inr d') \<or> refused (update_task_run c d)"
      using update_task_returns [of d runID "run_tasks s" "run_remaining s" i c] sim i p by (simp add: sim_def)
    moreover have "sim runID d0 s1 d'" if "update_task_run c d = Inr d'" for d'
      using task_rows_sim [of runID "[c]" ch s ch1 s1 d0 d d'] a sim that p by simp
    ultimately show "(\<exists>d'. update_task_run c d = Inr d' \<and> sim runID d0 (snd p') d') \<or> refused (update_task_run c d)"
      using p by auto
  qed (use assms(2) in simp)
  then show ?thesis by simp
qed

lemma fold_max_upto: "(\<And>x. x \<in> set xs \<Longrightarrow> x \<le> (m :: int)) \<Longrightarrow> m \<in> set xs \<or> m = a \<Longrightarrow> a \<le> m \<Longrightarrow> fold max xs a = m"
proof (induction xs arbitrary: a)
  case (Cons x xs)
  have "fold max xs (max x a) = m" using Cons.prems by (intro Cons.IH) auto
  then show ?case by simp
qed simp

lemma next_number:
  assumes rep: "tasks_rep d runID ts rem" and i: "i < length ts"
  defines "numbers \<equiv> map ar_attempt_number (filter (\<lambda>a. ar_run_id a = runID \<and> ar_task_key a = tr_Key (ts ! i)) (db_attempts d))"
  shows "(if numbers = [] then 1 else fold max numbers 0 + 1) = int (length (tr_Attempts (ts ! i))) + 1"
proof -
  let ?n = "length (tr_Attempts (ts ! i))"
  have "mset numbers = mset (map ar_attempt_number (attempt_rows_of d runID (tr_Key (ts ! i))))"
    by (simp add: numbers_def attempt_rows_of_def order_by_mset)
  then have set: "set numbers = set (map int [1 ..< Suc ?n])" unfolding attempt_rows_numbers(1) [OF rep i] by (rule mset_eq_setD)
  moreover have "x \<le> int ?n" if "x \<in> set (map int [1 ..< Suc ?n])" for x using that by auto
  moreover have "int ?n \<in> set (map int [1 ..< Suc ?n]) \<or> int ?n = 0" by (cases ?n) auto
  ultimately have "fold max numbers 0 = int ?n" by (intro fold_max_upto) simp_all
  moreover have "numbers = [] \<longrightarrow> ?n = 0" using set by (auto simp del: upt_Suc)
  ultimately show ?thesis by simp
qed

lemma insert_attempt_returns:
  assumes t: "tables_ok d" and rep: "tasks_rep d runID ts rem" and i: "i < length ts"
    and a: "at_Number a = int (length (tr_Attempts (ts ! i))) + 1"
  shows "(\<exists>d'. insertAttempt runID (tr_Key (ts ! i)) (int i) a d = Inr d') \<or> refused (insertAttempt runID (tr_Key (ts ! i)) (int i) a d)"
proof -
  let ?c = "\<lparr>tc_RunID = runID, tc_Index = int i, tc_Task = ts ! i, tc_RemainingDependencies = 0\<rparr>"
  have "length (filter (\<lambda>t. tk_run_id t = runID \<and> tk_task_key t = tr_Key (ts ! i) \<and> tk_task_index t = int i) (db_tasks d)) = 1"
    using task_update_rows(2) [OF t rep i, of ?c] by (simp add: conj_commute)
  with next_number [OF rep i] a show ?thesis by (simp add: insertAttempt_def Let_def refused_def)
qed

lemma attempt_row_returns:
  assumes a: "apply_attempt_change runID c (ch, s) = Inr (ch1, s1)" and sim: "sim runID d0 s d"
  shows "(\<exists>d1. apply_attempt_row c d = Inr d1 \<and> sim runID d0 s1 d1) \<or> refused (apply_attempt_row c d)"
proof -
  have d: "tables_ok d" "tasks_rep d runID (run_tasks s) (run_remaining s)" using sim by (simp_all add: sim_def)
  obtain i as where i: "ac_TaskIndex c = int i" "i < length (run_tasks s)" "ac_RunID c = runID" "ac_TaskKey c = tr_Key (run_tasks s ! i)"
    and op: "ac_Operation c = ChangeInsert \<and> at_Number (ac_Attempt c) = int (length (tr_Attempts (run_tasks s ! i))) + 1 \<or>
     ac_Operation c = ChangeUpdate \<and> (\<exists>j < length (tr_Attempts (run_tasks s ! i)). at_Number (ac_Attempt c) = int (Suc j))"
    using apply_attempt_change_Inr [OF a] by metis
  from op have "(\<exists>d1. apply_attempt_row c d = Inr d1) \<or> refused (apply_attempt_row c d)"
  proof
    assume "ac_Operation c = ChangeInsert \<and> at_Number (ac_Attempt c) = int (length (tr_Attempts (run_tasks s ! i))) + 1"
    then show ?thesis using insert_attempt_returns [OF d i(2)] i by (simp add: apply_attempt_row_def)
  next
    assume o: "ac_Operation c = ChangeUpdate \<and> (\<exists>j < length (tr_Attempts (run_tasks s ! i)). at_Number (ac_Attempt c) = int (Suc j))"
    then have "length (filter (attempt_match d c) (db_attempts d)) = 1"
      using attempt_update_rows(2) [OF d(2) i(2,3,4,1)] by blast
    then show ?thesis using o unfolding apply_attempt_row_def update_attempt_def attempt_match_def [symmetric]
      by (auto simp: checked_update_def refused_def)
  qed
  then show ?thesis using attempt_row_sim [OF a sim] by blast
qed

lemma attempt_rows_return:
  assumes "foldR (apply_attempt_change runID) cs (ch, s) = Inr (ch', s')" and "sim runID d0 s d"
  shows "(\<exists>d'. foldR apply_attempt_row cs d = Inr d' \<and> sim runID d0 s' d') \<or> refused (foldR apply_attempt_row cs d)"
proof -
  have "(\<exists>d'. foldR apply_attempt_row cs d = Inr d' \<and> sim runID d0 (snd (ch', s')) d') \<or> refused (foldR apply_attempt_row cs d)"
  proof (rule foldR_refused [OF _ _ assms(1), where P = "\<lambda>d p. sim runID d0 (snd p) d"])
    fix c d p p' assume "sim runID d0 (snd p) d" and "apply_attempt_change runID c p = Inr p'"
    then show "(\<exists>d'. apply_attempt_row c d = Inr d' \<and> sim runID d0 (snd p') d') \<or> refused (apply_attempt_row c d)"
      using attempt_row_returns by (cases p; cases p') auto
  qed (use assms(2) in simp)
  then show ?thesis by simp
qed

lemma insert_events_return:
  assumes "find_run d runID \<noteq> None"
  shows "(\<exists>d'. foldR (insertEvent runID) es d = Inr d') \<or> refused (foldR (insertEvent runID) es d)"
  using assms
proof (induction es arbitrary: d)
  case (Cons e es)
  show ?case
  proof (cases "\<exists>d1. insertEvent runID e d = Inr d1")
    case True
    then obtain d1 where d1: "insertEvent runID e d = Inr d1" ..
    then have "find_run d1 = find_run d" by (auto simp: insertEvent_def Let_def split: if_splits)
    with Cons.IH [of d1] Cons.prems d1 show ?thesis by simp
  next
    case False
    then have "refused (insertEvent runID e d)" by (auto simp: insertEvent_def Let_def refused_def split: if_splits)
    then show ?thesis by (auto simp: refused_def)
  qed
qed simp

section \<open>Keys in decimal\<close>

lemma nat_str_digit: "c \<in> set (nat_str n) \<Longrightarrow> 48 \<le> (of_char c :: nat) \<and> (of_char c :: nat) < 58"
proof (induction n rule: nat_str.induct)
  case (1 n)
  have digit: "48 \<le> (of_char (char_of (48 + k)) :: nat) \<and> (of_char (char_of (48 + k)) :: nat) < 58" if "k < 10" for k :: nat
    using that by (simp add: of_char_of)
  show ?case
  proof (cases "n < 10")
    case True
    then show ?thesis using 1 digit [of n] by (simp add: nat_str.simps [of n])
  next
    case False
    then have "c \<in> set (nat_str (n div 10)) \<or> c = char_of (48 + n mod 10)" using "1.prems" by (auto simp: nat_str.simps [of n])
    then show ?thesis using "1.IH" [OF False] digit [of "n mod 10"] by auto
  qed
qed

lemma nat_str_nonempty [simp]: "nat_str n \<noteq> []" "[] \<noteq> nat_str n"
  by (simp_all add: nat_str.simps [of n])

lemma nat_str_inject: "nat_str n = nat_str m \<longleftrightarrow> n = m"
proof
  have digit: "j = k" if "char_of (48 + j) = (char_of (48 + k) :: char)" "j < 10" "k < 10" for j k :: nat
    using arg_cong [OF that(1), of "of_char :: char \<Rightarrow> nat"] that(2,3) by (simp add: of_char_of)
  show "n = m" if "nat_str n = nat_str m"
    using that
  proof (induction n arbitrary: m rule: nat_str.induct)
    case (1 n)
    consider "n < 10" "m < 10" | "n < 10" "\<not> m < 10" | "\<not> n < 10" "m < 10" | "\<not> n < 10" "\<not> m < 10" by blast
    then show ?case
    proof cases
      case 4
      then have "nat_str (n div 10) @ [char_of (48 + n mod 10)] = nat_str (m div 10) @ [char_of (48 + m mod 10)]"
        using "1.prems" by (simp add: nat_str.simps [of n] nat_str.simps [of m])
      then have eq: "nat_str (n div 10) = nat_str (m div 10)" "char_of (48 + n mod 10) = (char_of (48 + m mod 10) :: char)" by simp_all
      have q: "n div 10 = m div 10" by (rule "1.IH" [OF 4(1) eq(1)])
      have r: "n mod 10 = m mod 10" by (rule digit [OF eq(2)]) simp_all
      have "n = n div 10 * 10 + n mod 10" by (rule div_mult_mod_eq [symmetric])
      also have "\<dots> = m" unfolding q r by (rule div_mult_mod_eq)
      finally show ?thesis .
    qed (use "1.prems" digit in \<open>simp_all add: nat_str.simps [of n] nat_str.simps [of m]\<close>)
  qed
qed simp

lemma append_sep_inject:
  assumes "xs @ c # ys = xs' @ c # ys'" and "c \<notin> set ys" and "c \<notin> set ys'"
  shows "xs = xs' \<and> ys = ys'"
proof -
  have "takeWhile (\<lambda>x. x \<noteq> c) (rev (xs @ c # ys)) = rev ys" if "c \<notin> set ys" for xs ys
    using that by (simp add: takeWhile_append)
  then have "rev ys = rev ys'" using assms by metis
  then show ?thesis using assms(1) by simp
qed

lemma attempt_key_inject:
  assumes "k @ ''/'' @ int_str n = k' @ ''/'' @ int_str n'" and "0 < n" and "0 < n'"
  shows "k = k' \<and> n = n'"
proof -
  have "CHR ''/'' \<notin> set (nat_str m)" for m using nat_str_digit [of "CHR ''/''" m] by auto
  with append_sep_inject [of k "CHR ''/''" "int_str n" k' "int_str n'"] assms show ?thesis
    by (auto simp: int_str_def nat_str_inject)
qed

text \<open>The length prefixes keep the parts of a lock key apart.\<close>

lemma prefixed_inject:
  assumes "nat_str (length x) @ '':'' @ x @ r = nat_str (length y) @ '':'' @ y @ s"
  shows "x = y \<and> r = s"
proof -
  have no: "CHR '':'' \<notin> set (nat_str m)" for m using nat_str_digit [of "CHR '':''" m] by auto
  have "takeWhile (\<lambda>c. c \<noteq> CHR '':'') (nat_str m @ '':'' @ w) = nat_str m" for m w
    using no [of m] by (auto simp: takeWhile_append)
  then have "nat_str (length x) = nat_str (length y)" using assms by metis
  then have "length x = length y" by (simp add: nat_str_inject)
  then show ?thesis using assms by simp
qed

lemma lock_key_inject: "lock_key p op k = lock_key p' op' k' \<longleftrightarrow> p = p' \<and> op = op' \<and> k = k'"
proof
  assume eq: "lock_key p op k = lock_key p' op' k'"
  have 1: "p = p' \<and> nat_str (length op) @ '':'' @ op @ nat_str (length k) @ '':'' @ k =
      nat_str (length op') @ '':'' @ op' @ nat_str (length k') @ '':'' @ k'"
    using eq unfolding lock_key_def by (rule prefixed_inject)
  then have 2: "op = op' \<and> nat_str (length k) @ '':'' @ k = nat_str (length k') @ '':'' @ k'" using prefixed_inject by blast
  then have "k = k'" using prefixed_inject [of k "[]" k' "[]"] by simp
  with 1 2 show "p = p' \<and> op = op' \<and> k = k'" by blast
qed simp

section \<open>Applying returns\<close>

lemma task_shapes:
  assumes "foldR (apply_task_change runID) cs (ch, s) = Inr (ch', s')" and "\<forall>k \<in> tr_Key ` set (run_tasks s). k \<noteq> ''''"
  shows "\<exists>seen. foldR (check_task_shape runID) cs ch = Inr seen"
  using assms
proof (induction cs arbitrary: ch s)
  case (Cons c cs)
  then obtain ch1 s1 where a: "apply_task_change runID c (ch, s) = Inr (ch1, s1)"
      "foldR (apply_task_change runID) cs (ch1, s1) = Inr (ch', s')"
    by (auto simp: bindR_eq_Inr)
  obtain i where i: "tc_Index c = int i" "i < length (run_tasks s)" "tc_RunID c = runID"
    "tr_Key (tc_Task c) = tr_Key (run_tasks s ! i)" "tr_Attempts (tc_Task c) = []" "0 \<le> tc_RemainingDependencies c"
    "run_tasks s1 = (run_tasks s)[i := (tc_Task c)\<lparr>tr_Attempts := tr_Attempts (run_tasks s ! i)\<rparr>]"
    "tc_Index c \<notin> set ch" "ch1 = tc_Index c # ch"
    using apply_task_change_Inr [OF a(1)] by metis
  have "map tr_Key (run_tasks s1) = map tr_Key (run_tasks s)" using apply_task_keys [OF a(1)] by simp
  then have "tr_Key ` set (run_tasks s1) = tr_Key ` set (run_tasks s)" by (metis list.set_map)
  with Cons.IH [OF a(2)] Cons.prems(2) obtain seen where "foldR (check_task_shape runID) cs ch1 = Inr seen" by auto
  moreover have "tr_Key (tc_Task c) \<noteq> ''''" using Cons.prems(2) i(2,4) by auto
  then have "check_task_shape runID c ch = Inr ch1" using i by (simp add: check_task_shape_def)
  ultimately show ?case by simp
qed simp

text \<open>The keys an attempt change is remembered under, in memory and in the store.\<close>

definition attempt_key :: "TaskRun list \<Rightarrow> int \<times> int \<Rightarrow> string" where
  "attempt_key ts p = tr_Key (ts ! nat (fst p)) @ ''/'' @ int_str (snd p)"

lemma attempt_key_mem:
  assumes "distinct (map tr_Key ts)" and "\<forall>(j, m) \<in> set ch. 0 \<le> j \<and> j < int (length ts) \<and> 0 < m"
    and "i < length ts" and "0 < n" and "attempt_key ts (int i, n) \<in> attempt_key ts ` set ch"
  shows "(int i, n) \<in> set ch"
proof -
  obtain j m where p: "(j, m) \<in> set ch" "attempt_key ts (int i, n) = attempt_key ts (j, m)" using assms(5) by auto
  then have j: "0 \<le> j" "j < int (length ts)" "0 < m" using assms(2) by auto
  have "tr_Key (ts ! i) = tr_Key (ts ! nat j) \<and> n = m"
    using p(2) attempt_key_inject assms(4) j(3) unfolding attempt_key_def by simp
  moreover have "nat j < length ts" using j by simp
  ultimately have "i = nat j" "n = m" using assms(1,3) by (metis length_map nth_eq_iff_index_eq nth_map, simp)
  then show ?thesis using p(1) j(1) by simp
qed

lemma attempt_shapes:
  assumes "foldR (apply_attempt_change runID) cs (ch, s) = Inr (ch', s')"
    and keys: "map tr_Key (run_tasks s) = map tr_Key ts" "distinct (map tr_Key ts)" "\<forall>k \<in> set (map tr_Key ts). k \<noteq> ''''"
    and "\<forall>(j, m) \<in> set ch. 0 \<le> j \<and> j < int (length ts) \<and> 0 < m"
  shows "\<exists>seen. foldR (check_attempt_shape runID) cs (map (attempt_key ts) ch) = Inr seen"
  using assms
proof (induction cs arbitrary: ch s)
  case (Cons c cs)
  then obtain ch1 s1 where a: "apply_attempt_change runID c (ch, s) = Inr (ch1, s1)"
      "foldR (apply_attempt_change runID) cs (ch1, s1) = Inr (ch', s')"
    by (auto simp: bindR_eq_Inr)
  obtain i as where i: "ac_TaskIndex c = int i" "i < length (run_tasks s)" "ac_RunID c = runID" "ac_TaskKey c = tr_Key (run_tasks s ! i)"
    "run_tasks s1 = (run_tasks s)[i := (run_tasks s ! i)\<lparr>tr_Attempts := as\<rparr>]"
    "(int i, at_Number (ac_Attempt c)) \<notin> set ch" "ch1 = (int i, at_Number (ac_Attempt c)) # ch" "0 < at_Number (ac_Attempt c)"
  proof (rule apply_attempt_change_Inr [OF a(1)], goal_cases)
    case (1 i as)
    then have "0 < at_Number (ac_Attempt c)" by auto
    with 1 show ?case by blast
  qed
  have len: "length (run_tasks s) = length ts" using Cons.prems(2) by (metis length_map)
  have key: "tr_Key (run_tasks s ! i) = tr_Key (ts ! i)" using arg_cong [OF Cons.prems(2), of "\<lambda>xs. xs ! i"] i(2) len by simp
  have "map tr_Key (run_tasks s1) = map tr_Key ts"
    unfolding i(5) using Cons.prems(2) i(2) by (simp add: map_update) (metis list_update_id nth_map)
  moreover have "\<forall>(j, m) \<in> set ch1. 0 \<le> j \<and> j < int (length ts) \<and> 0 < m" using Cons.prems(5) i len by auto
  ultimately obtain seen where seen: "foldR (check_attempt_shape runID) cs (map (attempt_key ts) ch1) = Inr seen"
    using Cons.IH [OF a(2)] Cons.prems(3,4) by blast
  have "attempt_key ts (int i, at_Number (ac_Attempt c)) \<notin> attempt_key ts ` set ch"
    using attempt_key_mem [OF Cons.prems(3,5)] i(2,6,8) len by metis
  moreover have "tr_Key (ts ! i) \<noteq> ''''" using Cons.prems(4) i(2) len by simp
  ultimately have "check_attempt_shape runID c (map (attempt_key ts) ch) = Inr (map (attempt_key ts) ch1)"
    using i key by (simp add: check_attempt_shape_def attempt_key_def Let_def)
  with seen show ?case by simp
qed simp

lemma filter_key_single:
  "distinct (map f xs) \<Longrightarrow> x \<in> set xs \<Longrightarrow> P x \<Longrightarrow> (\<And>y. P y \<Longrightarrow> f y = f x) \<Longrightarrow> filter P xs = [x]"
proof (induction xs)
  case (Cons y ys)
  show ?case
  proof (cases "x = y")
    case True
    have "\<not> P z" if "z \<in> set ys" for z
    proof
      assume "P z"
      then have "f z = f y" using Cons.prems(4) True by simp
      then have "f y \<in> f ` set ys" using that by (metis imageI)
      then show False using Cons.prems(1) by simp
    qed
    then show ?thesis using True Cons.prems(3) by (simp add: filter_empty_conv)
  next
    case False
    then have x: "f x \<in> f ` set ys" using Cons.prems(2) by simp
    have "\<not> P y"
    proof
      assume "P y"
      then have "f y = f x" by (rule Cons.prems(4))
      then show False using Cons.prems(1) x by simp
    qed
    moreover have "filter P ys = [x]" by (rule Cons.IH [OF _ _ Cons.prems(3,4)]) (use Cons.prems(1,2) False in simp_all)
    ultimately show ?thesis by simp
  qed
qed simp

lemma update_run_returns:
  assumes t: "tables_ok d" and r: "find_run d (cs_RunID c) = Some r" and m: "run_match c q r"
  shows "(\<exists>d'. update_run c run q d = Inr d') \<or> refused (update_run c run q d)"
proof -
  have "filter (run_match c q) (db_runs d) = [r]"
    using t m find_run_SomeD [OF r] by (intro filter_key_single [where f = rr_run_id]) (auto simp: tables_ok_def)
  then show ?thesis by (auto simp: update_run_def checked_update_def refused_def)
qed

lemma shape_returns:
  assumes a: "applyChangeSet b c = Inr a" and run: "cs_Run c = Some run" and log: "snapshotLastEventSequence b = of_nat n" "n < 2 ^ 63"
    and keys: "distinct (map tr_Key (run_tasks b))" "\<forall>k \<in> set (map tr_Key (run_tasks b)). k \<noteq> ''''" and ne: "wr_ID (rs_Run b) \<noteq> ''''"
  shows "validateChangeSetShape c = Inr run"
    and "(if cs_Events c \<noteq> [] then se_Sequence (hd (cs_Events c)) - 1 else wr_LastEventSequence run) = snapshotLastEventSequence b"
proof -
  define u0 where "u0 = b\<lparr>rs_Run := run\<lparr>wr_Tasks := run_tasks b, wr_RemainingDependencies := run_remaining b\<rparr>\<rparr>"
  obtain ch1 u1 ch2 u2 where c: "wr_ID run = cs_RunID c" "cs_RunID c = wr_ID (rs_Run b)"
      "wr_Tasks run = []" "wr_RemainingDependencies run = []" "wr_Revision run = cs_ExpectedRevision c + 1"
    and f1: "foldR (apply_task_change (cs_RunID c)) (cs_Tasks c) ([], u0) = Inr (ch1, u1)"
    and f2: "foldR (apply_attempt_change (cs_RunID c)) (cs_Attempts c) ([], u1) = Inr (ch2, u2)"
    and ev: "check_events (snapshotLastEventSequence b + 1) (cs_Events c) = Inr ()"
    and lastq: "wr_LastEventSequence (rs_Run u2) = (if cs_Events c \<noteq> [] then se_Sequence (last (cs_Events c)) else snapshotLastEventSequence b)"
    using a run unfolding u0_def by (auto simp: applyChangeSet_def Let_def bindR_eq_Inr split: if_splits option.splits)
  have head: "run_head u0 = run_head u2"
    using foldR_frame [OF f2, of run_head] foldR_frame [OF f1, of run_head] apply_rows_head by metis
  have "wr_LastEventSequence (rs_Run u2) = wr_LastEventSequence (rs_Run u0)"
    using arg_cong [OF head, of "\<lambda>s. wr_LastEventSequence (rs_Run s)"] by (simp add: run_head_def)
  then have last: "wr_LastEventSequence run = (if cs_Events c \<noteq> [] then se_Sequence (last (cs_Events c)) else snapshotLastEventSequence b)"
    using lastq by (simp add: u0_def)
  note e = check_events_last [OF ev]
  show "(if cs_Events c \<noteq> [] then se_Sequence (hd (cs_Events c)) - 1 else wr_LastEventSequence run) = snapshotLastEventSequence b"
    using e(1) last by simp
  obtain seen1 where s1: "foldR (check_task_shape (cs_RunID c)) (cs_Tasks c) [] = Inr seen1"
    using task_shapes [OF f1] keys(2) by (auto simp: u0_def)
  have "map tr_Key (run_tasks u1) = map tr_Key (run_tasks u0)"
    using foldR_frame [OF f1, of "\<lambda>s. map tr_Key (run_tasks s)", OF apply_task_keys] by simp
  then obtain seen2 where s2: "foldR (check_attempt_shape (cs_RunID c)) (cs_Attempts c) [] = Inr seen2"
    using attempt_shapes [OF f2, of "run_tasks b"] keys by (auto simp: u0_def)
  have nz: "of_nat n + 1 \<noteq> (0 :: u64)"
  proof
    assume "of_nat n + 1 = (0 :: u64)"
    then have "uint (of_nat (n + 1) :: u64) = 0" by (simp add: add.commute)
    then show False using uint_of_count [of "n + 1"] log(2) by simp
  qed
  show "validateChangeSetShape c = Inr run"
  proof (cases "cs_Events c")
    case Nil
    then show ?thesis using run c ne s1 s2 by (simp add: validateChangeSetShape_def)
  next
    case (Cons x xs)
    then have "se_Sequence x = of_nat n + 1" "wr_LastEventSequence run = of_nat n + of_nat (length (x # xs))"
      using e last log(1) by simp_all
    moreover have "check_events (se_Sequence x) (x # xs) = Inr ()" using ev Cons \<open>se_Sequence x = of_nat n + 1\<close> log(1) by simp
    ultimately show ?thesis using run c ne s1 s2 nz Cons
      by (simp add: validateChangeSetShape_def del: check_events.simps)
  qed
qed

text \<open>The two together: applying a change set that is valid for the stored snapshot commits
  the new snapshot, or is refused by a constraint.\<close>

lemma load_keys:
  assumes t: "tables_ok d" and l: "loadSnapshot d runID = Inr b"
  shows "distinct (map tr_Key (run_tasks b))" and "wr_ID (rs_Run b) = runID" and "log_ok b"
    and "length (rs_Events b) < 2 ^ 63"
proof -
  obtain r cw where ld: "loadable d runID r cw" and b: "b = loaded d runID r cw" using l load_iff [OF t] by metis
  have "tr_Key (loaded_task d runID x) = tk_task_key x" for x by (simp add: loaded_task_def task_of_row_def)
  then show "distinct (map tr_Key (run_tasks b))" using task_rows_keys [OF t, of runID] by (simp add: b loaded_def comp_def)
  show "wr_ID (rs_Run b) = runID" using ld find_run_SomeD [of d runID r] by (simp add: b loaded_def run_of_row_def loadable_def)
  show "log_ok b" using ld loaded_log_ok by (simp add: b loadable_def)
  show "length (rs_Events b) < 2 ^ 63" using ld events_count [OF t, of runID] by (simp add: b loadable_def loaded_def)
qed

lemma apply_tx_returns:
  assumes t: "tables_ok d" and l: "loadSnapshot d runID = Inr b" and st: "as_stored b = b"
    and a: "applyChangeSet b c = Inr a" and ne: "runID \<noteq> ''''" "\<forall>k \<in> set (map tr_Key (run_tasks b)). k \<noteq> ''''"
  shows "(\<exists>d'. applyChangeSetTx c d = Inr d') \<or> refused (applyChangeSetTx c d)"
proof -
  note k = load_keys [OF t l]
  obtain r cw where ld: "loadable d runID r cw" and b: "b = loaded d runID r cw" using l load_iff [OF t] by metis
  obtain run ch1 u1 ch2 u2 where run: "cs_Run c = Some run" "cs_RunID c = wr_ID (rs_Run b)" "cs_ExpectedRevision c = wr_Revision (rs_Run b)"
    and f1: "foldR (apply_task_change (cs_RunID c)) (cs_Tasks c)
       ([], b\<lparr>rs_Run := run\<lparr>wr_Tasks := run_tasks b, wr_RemainingDependencies := run_remaining b\<rparr>\<rparr>) = Inr (ch1, u1)"
    and f2: "foldR (apply_attempt_change (cs_RunID c)) (cs_Attempts c) ([], u1) = Inr (ch2, u2)"
    using a by (auto simp: applyChangeSet_def Let_def bindR_eq_Inr split: if_splits option.splits)
  have cid: "cs_RunID c = runID" using run k(2) by simp
  have q: "snapshotLastEventSequence b = of_nat (length (rs_Events b))" using log_ok_last [OF k(3)] .
  note shape = shape_returns [OF a run(1) q k(4) k(1) ne(2)]
  have fr: "find_run d runID = Some r" using ld by (simp add: loadable_def)
  have m: "run_match c (snapshotLastEventSequence b) r"
  proof -
    note tr = tables_run [OF t fr]
    have "rr_last_event_sequence r = int (length (rs_Events b))" using ld by (simp add: loadable_def b loaded_def)
    then have "int64 (snapshotLastEventSequence b) = rr_last_event_sequence r" unfolding q using int64_of_count [OF k(4)] by simp
    moreover have "int64 (cs_ExpectedRevision c) = rr_revision r"
      unfolding run(3) using int64_of_bigint [OF tr(2,3)] by (simp add: b loaded_def run_of_row_def)
    ultimately show ?thesis using tr(6) cid by simp
  qed
  define u0 where "u0 = b\<lparr>rs_Run := run\<lparr>wr_Tasks := run_tasks b, wr_RemainingDependencies := run_remaining b\<rparr>\<rparr>"
  have tx: "applyChangeSetTx c d = bindR (update_run c run (snapshotLastEventSequence b) d) (\<lambda>d.
     bindR (foldR update_task_run (cs_Tasks c) d) (\<lambda>d. bindR (foldR apply_attempt_row (cs_Attempts c) d) (\<lambda>d.
     foldR (insertEvent runID) (cs_Events c) d)))"
    using shape k(2) ne(1) cid by (simp add: applyChangeSetTx_def Let_def)
  show ?thesis
  proof (cases "refused (update_run c run (snapshotLastEventSequence b) d)")
    case True
    then show ?thesis unfolding tx by (auto simp: refused_bindR)
  next
    case False
    then obtain d1 where u1: "update_run c run (snapshotLastEventSequence b) d = Inr d1"
      using update_run_returns [OF t fr [folded cid] m, of run] by blast
    obtain d1: "find_run d1 runID \<noteq> None" "tables_ok d1" "task_rows d1 = task_rows d" "attempt_rows_of d1 = attempt_rows_of d"
      using update_run_sim [OF t u1] unfolding cid by (metis option.distinct(1))
    have "tasks_rep d runID (run_tasks u0) (run_remaining u0)"
      using ld arg_cong [OF st, of run_tasks] by (simp add: tasks_rep_def u0_def loadable_def) (simp add: b loaded_def)
    then have "sim runID d1 u0 d1" using d1 tasks_rep_cong [OF d1(3,4)] by (simp add: sim_def)
    from task_rows_return [OF f1 [unfolded cid, folded u0_def] this] show ?thesis
    proof
      assume "\<exists>d2. foldR update_task_run (cs_Tasks c) d1 = Inr d2 \<and> sim runID d1 u1 d2"
      then obtain d2 where d2: "foldR update_task_run (cs_Tasks c) d1 = Inr d2" "sim runID d1 u1 d2" by blast
      from attempt_rows_return [OF f2 [unfolded cid] d2(2)] show ?thesis
      proof
        assume "\<exists>d3. foldR apply_attempt_row (cs_Attempts c) d2 = Inr d3 \<and> sim runID d1 u2 d3"
        then obtain d3 where d3: "foldR apply_attempt_row (cs_Attempts c) d2 = Inr d3" "sim runID d1 u2 d3" by blast
        then show ?thesis using insert_events_return [of d3 runID "cs_Events c"] d1(1) u1 d2(1)
          unfolding tx by (simp add: sim_def)
      qed (simp add: tx u1 d2(1) refused_bindR)
    qed (simp add: tx u1 refused_bindR)
  qed
qed

end
