(* ===== verification/Sql_Create.thy ===== *)
theory Sql_Create
  imports Sql_Refine
begin

text \<open>
  Creating a run in the relational store, replaying a creation under its idempotency key,
  and requesting cancellation: what is loaded afterwards. Errors of
  \<^verbatim>\<open>applyChangeSetTx\<close> for a stale or unknown run.
\<close>

section \<open>Stale and unknown runs\<close>

lemma update_run_miss:
  assumes "\<And>x. x \<in> set (db_runs d) \<Longrightarrow> \<not> run_match c q x"
  shows "update_run c run q d =
    bindR (classifyRunUpdateMiss d (cs_RunID c) (cs_ExpectedRevision c) q) (\<lambda>_. Inl ErrRevisionConflict)"
proof -
  have "filter (run_match c q) (db_runs d) = []" using assms by (simp add: filter_empty_conv)
  moreover have "\<not> list_ex (\<lambda>r. run_match c q r \<and> \<not> run_row_ok (run_change run r)) (db_runs d)"
    using assms unfolding list_ex_iff by blast
  ultimately show ?thesis unfolding update_run_def checked_update_def by simp
qed

lemma apply_tx_stale:
  assumes t: "tables_ok d" and l: "loadSnapshot d (cs_RunID c) = Inr b"
    and shape: "validateChangeSetShape c = Inr run" and stale: "cs_ExpectedRevision c \<noteq> wr_Revision (rs_Run b)"
  shows "applyChangeSetTx c d = Inl ErrRevisionConflict"
proof -
  obtain r cw where ld: "loadable d (cs_RunID c) r cw" and b: "b = loaded d (cs_RunID c) r cw" using l load_iff [OF t] by metis
  have fr: "find_run d (cs_RunID c) = Some r" using ld by (simp add: loadable_def)
  have rev: "wr_Revision (rs_Run b) = of_int (rr_revision r)" by (simp add: b loaded_def run_of_row_def)
  have "\<not> run_match c q x" if "x \<in> set (db_runs d)" for x q
  proof
    assume m: "run_match c q x"
    then have "x = r" using find_run_unique [OF t that] fr by simp
    then show False using m stale rev by auto
  qed
  then have "update_run c run q d = Inl ErrRevisionConflict" for q
    using fr stale rev by (subst update_run_miss) (simp_all add: classifyRunUpdateMiss_def)
  then show ?thesis using shape by (simp add: applyChangeSetTx_def Let_def)
qed

lemma apply_tx_missing:
  assumes "find_run d (cs_RunID c) = None" and shape: "validateChangeSetShape c = Inr run"
  shows "applyChangeSetTx c d = Inl ErrRunNotFound"
proof -
  have "\<not> run_match c q x" if "x \<in> set (db_runs d)" for x q
    using assms(1) that by (auto simp: find_run_def find_None_iff)
  then have "update_run c run q d = Inl ErrRunNotFound" for q
    using assms(1) by (subst update_run_miss) (simp_all add: classifyRunUpdateMiss_def)
  then show ?thesis using shape by (simp add: applyChangeSetTx_def Let_def)
qed

section \<open>Requesting cancellation\<close>

definition cancel_requested :: "time \<Rightarrow> RunSnapshot \<Rightarrow> RunSnapshot" where
  "cancel_requested at s =
     (if \<not> isWorkflowTerminal (run_status s) \<and> wr_CancelRequestedAt (rs_Run s) = None
      then upd_run (\<lambda>r. r\<lparr>wr_CancelRequestedAt := Some (timestamptz at), wr_Revision := wr_Revision r + 1\<rparr>) s
      else s)"

definition cancel_row :: "time \<Rightarrow> run_row \<Rightarrow> run_row" where
  "cancel_row at r = r\<lparr>rr_cancel_requested_at := Some (timestamptz at), rr_revision := rr_revision r + 1\<rparr>"

lemma cancel_row_load:
  fixes at :: time
  assumes t: "tables_ok d" and ld: "loadable d runID r cw"
    and live: "\<not> isWorkflowTerminal (rr_status r)" "rr_cancel_requested_at r = None" and small: "rr_revision r + 1 < 2 ^ 63"
  defines "e \<equiv> d\<lparr>db_runs := sql_update (\<lambda>r. rr_run_id r = runID) (cancel_row at) (db_runs d)\<rparr>"
  shows "tables_ok e" and "only_run runID d e" and "loadSnapshot e runID = Inr (cancel_requested at (loaded d runID r cw))"
proof -
  have fr: "find_run d runID = Some r" using ld by (simp add: loadable_def)
  note tr = tables_run [OF t fr]
  have find: "find_run e k = map_option (\<lambda>r. if rr_run_id r = runID then cancel_row at r else r) (find_run d k)" for k
    unfolding find_run_def e_def by (simp add: find_sql_update cancel_row_def)
  have "x = r" if "x \<in> set (db_runs d)" "rr_run_id x = runID" for x
    using find_run_unique [OF t that(1)] that(2) fr by simp
  then have "run_row_ok (cancel_row at x) \<and> rr_revision (cancel_row at x) < 2 ^ 63 \<and> rr_last_event_sequence (cancel_row at x) < 2 ^ 63"
    if "x \<in> set (db_runs d)" "rr_run_id x = runID" for x
    using that tr small by (simp add: run_row_ok_def cancel_row_def)
  moreover have "map rr_run_id (sql_update (\<lambda>r. rr_run_id r = runID) (cancel_row at) rows) = map rr_run_id rows" for rows
    by (simp add: map_upd_same cancel_row_def)
  ultimately show t': "tables_ok e" using t by (simp add: tables_ok_def list_all_sql_update e_def)
  have "find_run e k = find_run d k" if "k \<noteq> runID" for k
    using find [of k] that find_run_SomeD [of d k] by (cases "find_run d k") auto
  then show "only_run runID d e" by (simp add: only_run_def view_def outside_def e_def)
  have "loadable e runID (cancel_row at r) cw"
    using ld find [of runID] tr(6) by (simp add: loadable_def tasks_contiguous_def events_contiguous_def e_def cancel_row_def)
  moreover have "loaded_task e = loaded_task d" by (simp add: loaded_task_def fun_eq_iff e_def)
  then have "loaded e runID (cancel_row at r) cw = cancel_requested at (loaded d runID r cw)"
    using live by (simp add: cancel_requested_def upd_run_def loaded_def run_of_row_def cancel_row_def e_def)
  ultimately show "loadSnapshot e runID = Inr (cancel_requested at (loaded d runID r cw))" using load_iff [OF t'] by metis
qed

lemma request_cancel_load:
  assumes t: "tables_ok d" and l: "loadSnapshot d runID = Inr b" and small: "wr_Revision (rs_Run b) < 2 ^ 63 - 1"
  shows "\<exists>d'. pg_RequestCancel runID at d = Inr (rs_Run (cancel_requested at b), d') \<and> tables_ok d' \<and> only_run runID d d' \<and>
    loadSnapshot d' runID = Inr (cancel_requested at b)"
proof -
  obtain r cw where ld: "loadable d runID r cw" and b: "b = loaded d runID r cw" using l load_iff [OF t] by metis
  have fr: "find_run d runID = Some r" using ld by (simp add: loadable_def)
  note tr = tables_run [OF t fr]
  have "wr_Revision (rs_Run b) = of_int (rr_revision r)" by (simp add: b loaded_def run_of_row_def)
  then have "uint (wr_Revision (rs_Run b)) = rr_revision r" using uint_of_bigint tr(2,3) by simp
  then have rev: "rr_revision r + 1 < 2 ^ 63" using small by (simp add: word_less_def)
  show ?thesis
  proof (cases "\<not> isWorkflowTerminal (rr_status r) \<and> rr_cancel_requested_at r = None")
    case True
    then have "pg_RequestCancel runID at d = bindR (loadSnapshot (d\<lparr>db_runs := sql_update (\<lambda>r. rr_run_id r = runID) (cancel_row at) (db_runs d)\<rparr>) runID)
        (\<lambda>s. Inr (rs_Run s, d\<lparr>db_runs := sql_update (\<lambda>r. rr_run_id r = runID) (cancel_row at) (db_runs d)\<rparr>))"
      using fr rev by (simp add: pg_RequestCancel_def cancel_row_def [abs_def])
    then show ?thesis using cancel_row_load [OF t ld _ _ rev, of at] True b by simp
  next
    case False
    then have "cancel_requested at b = b" by (auto simp: cancel_requested_def b loaded_def run_of_row_def)
    then show ?thesis using False fr l t by (auto simp: pg_RequestCancel_def)
  qed
qed

lemma cancel_requested_idem: "cancel_requested at' (cancel_requested at s) = cancel_requested at s"
  by (auto simp: cancel_requested_def upd_run_def)

section \<open>Creating a run\<close>

lemma insert_attempts_sim:
  assumes "foldR (insertAttempt runID (tr_Key (ts ! i)) (int i)) as d = Inr d'" and "tables_ok d" and "tasks_rep d runID ts rem"
    and "i < length ts"
  shows "tables_ok d' \<and> only_run runID d d' \<and> find_run d' = find_run d \<and> event_rows d' = event_rows d \<and>
    tasks_rep d' runID (ts[i := (ts ! i)\<lparr>tr_Attempts := tr_Attempts (ts ! i) @ as\<rparr>]) rem"
  using assms
proof (induction as arbitrary: ts d)
  case (Cons a as)
  let ?ts = "ts[i := (ts ! i)\<lparr>tr_Attempts := tr_Attempts (ts ! i) @ [a]\<rparr>]"
  obtain d1 where u: "insertAttempt runID (tr_Key (ts ! i)) (int i) a d = Inr d1"
    and rest: "foldR (insertAttempt runID (tr_Key (ts ! i)) (int i)) as d1 = Inr d'"
    using Cons.prems(1) by (auto simp: bindR_eq_Inr)
  have n: "at_Number a = int (length (tr_Attempts (ts ! i))) + 1"
    using insertAttempt_number [OF u] next_number [OF Cons.prems(3,4)] by simp
  note s = insert_attempt_sim [OF Cons.prems(2-4) n u]
  have "tr_Key (?ts ! i) = tr_Key (ts ! i)" using Cons.prems(4) by simp
  with rest have "foldR (insertAttempt runID (tr_Key (?ts ! i)) (int i)) as d1 = Inr d'" by (simp only:)
  from Cons.IH [OF this s(1,3)] Cons.prems(4) s(4,5) only_run_trans [OF s(2)] show ?case by simp
qed simp

lemma insert_task_sim:
  assumes t: "tables_ok d" and rep: "tasks_rep d runID ts rem" and i: "i = length ts" and id: "wr_ID (rs_Run s) = runID"
    and fr: "find_run d runID \<noteq> None" and u: "insert_task_run s i d = Inr d'"
  shows "tables_ok d' \<and> only_run runID d d' \<and> find_run d' = find_run d \<and> event_rows d' = event_rows d \<and>
    tasks_rep d' runID (ts @ [run_tasks s ! i]) (rem @ [run_remaining s ! i])"
proof -
  let ?task = "run_tasks s ! i"
  define row where "row = \<lparr>tk_run_id = runID, tk_task_key = tr_Key ?task, tk_task_index = int i, tk_status = tr_Status ?task,
    tk_remaining_dependencies = run_remaining s ! i, tk_ready_at = tz_opt (tr_ReadyAt ?task), tk_finished_at = tz_opt (tr_FinishedAt ?task)\<rparr>"
  let ?d = "d\<lparr>db_tasks := db_tasks d @ [row]\<rparr>"
  have ok: "task_row_ok row" and fresh: "(runID, tr_Key ?task) \<notin> set (map (\<lambda>t. (tk_run_id t, tk_task_key t)) (db_tasks d))"
    and u: "foldR (insertAttempt runID (tr_Key ?task) (int i)) (tr_Attempts ?task) ?d = Inr d'"
    using u id unfolding insert_task_run_def Let_def row_def by (auto simp: list_ex_iff split: if_splits)
  note n = tasks_rep_nth [OF rep]
  have idx: "map tk_task_index (task_rows d runID) = map int [0 ..< i]"
    using rep n(1) i by (simp add: tasks_rep_def tasks_contiguous_def)
  have len: "length (task_rows d runID) = i" using n(1) i by simp
  have row [simp]: "tk_run_id row = runID" "tk_task_key row = tr_Key ?task" "tk_task_index row = int i"
    "tk_remaining_dependencies row = run_remaining s ! i" by (simp_all add: row_def)
  have "tk_task_index x \<le> tk_task_index row" if "x \<in> set (task_rows d runID)" for x
  proof -
    have "tk_task_index x \<in> set (map int [0 ..< i])" using that idx by (metis image_eqI list.set_map)
    then show ?thesis by auto
  qed
  then have rows: "task_rows ?d runID = task_rows d runID @ [row]"
    unfolding task_rows_def by simp (intro order_by_snoc, simp add: order_by_def)
  have "filter (\<lambda>a. ar_run_id a = runID \<and> ar_task_key a = tr_Key ?task) (db_attempts d) = []"
  proof -
    have "(ar_run_id a, ar_task_key a) \<in> set (map (\<lambda>t. (tk_run_id t, tk_task_key t)) (db_tasks d))" if "a \<in> set (db_attempts d)" for a
      using t that by (auto simp: tables_ok_def)
    with fresh have "\<not> (ar_run_id a = runID \<and> ar_task_key a = tr_Key ?task)" if "a \<in> set (db_attempts d)" for a
      using that by metis
    then show ?thesis by (simp add: filter_empty_conv)
  qed
  then have none: "attempt_rows_of d runID (tr_Key ?task) = []" by (simp add: attempt_rows_of_def order_by_def)
  have "runID \<in> rr_run_id ` set (db_runs d)" using fr find_run_SomeD [of d runID] by auto
  then have t1: "tables_ok ?d" using t ok fresh by (auto simp: tables_ok_def)
  have only1: "only_run runID d ?d" by (simp add: only_run_def view_def outside_def) (simp add: task_rows_def)
  have load: "loaded_task ?d = loaded_task d" by (simp add: loaded_task_def fun_eq_iff)
  have "loaded_task d runID row = stored_task (?task\<lparr>tr_Attempts := []\<rparr>)"
    by (simp add: loaded_task_def none task_of_row_def stored_task_def row_def)
  then have "tasks_rep ?d runID (ts @ [?task\<lparr>tr_Attempts := []\<rparr>]) (rem @ [run_remaining s ! i])"
    using rep idx len none unfolding tasks_rep_def tasks_contiguous_def load rows by (simp add: numbered_def)
  from insert_attempts_sim [OF _ t1 this, of i "tr_Attempts ?task"] u i have
    d': "tables_ok d' \<and> only_run runID ?d d' \<and> find_run d' = find_run ?d \<and> event_rows d' = event_rows ?d \<and>
      tasks_rep d' runID (ts @ [?task]) (rem @ [run_remaining s ! i])"
    by (simp add: nth_append list_update_append)
  then show ?thesis using only_run_trans [OF only1] by simp
qed

lemma insert_tasks_sim:
  assumes "foldR (insert_task_run s) [0 ..< n] d = Inr d'" and "n \<le> length (run_tasks s)" and "n \<le> length (run_remaining s)"
    and "tables_ok d" and "tasks_rep d runID [] []" and "wr_ID (rs_Run s) = runID" and "find_run d runID \<noteq> None"
  shows "tables_ok d' \<and> only_run runID d d' \<and> find_run d' = find_run d \<and> event_rows d' = event_rows d \<and>
    tasks_rep d' runID (take n (run_tasks s)) (take n (run_remaining s))"
  using assms(1-3)
proof (induction n arbitrary: d')
  case 0
  then show ?case using assms(4,5) by simp
next
  case (Suc n)
  obtain d1 where "foldR (insert_task_run s) [0 ..< n] d = Inr d1" and u: "insert_task_run s n d1 = Inr d'"
    using Suc.prems(1) by (auto simp: foldR_append bindR_eq_Inr)
  then have d1: "tables_ok d1" "only_run runID d d1" "find_run d1 = find_run d" "event_rows d1 = event_rows d"
      "tasks_rep d1 runID (take n (run_tasks s)) (take n (run_remaining s))" using Suc by simp_all
  have "find_run d1 runID \<noteq> None" using d1(3) assms(7) by simp
  from insert_task_sim [OF d1(1,5) _ assms(6) this u] Suc.prems d1 only_run_trans [OF d1(2)] show ?case
    by (simp add: take_Suc_conv_app_nth)
qed

lemma insert_run_sim:
  assumes t: "tables_ok d" and u: "insert_run s by d = Inr d'" and id: "wr_ID (rs_Run s) = runID"
  shows "tables_ok d'" and "only_run runID d d'" and "find_run d runID = None" and "find_run d' runID = Some (new_run_row s by)"
    and "tasks_rep d' runID [] []" and "event_rows d' runID = []" and "run_row_ok (new_run_row s by)"
proof -
  let ?row = "new_run_row s by"
  have rid: "rr_run_id ?row = runID" using id by (simp add: new_run_row_def Let_def)
  then have d': "d' = d\<lparr>db_runs := db_runs d @ [?row]\<rparr>" and no: "find_run d runID = None" and ok: "run_row_ok ?row"
    using u by (auto simp: insert_run_def Let_def split: if_splits)
  show "find_run d runID = None" and "run_row_ok ?row" by fact+
  have find: "find_run d' k = (if k = runID then Some ?row else find_run d k)" for k
  proof -
    have "find P (xs @ [x]) = (case find P xs of None \<Rightarrow> if P x then Some x else None | Some y \<Rightarrow> Some y)" for P and x :: run_row and xs
      by (induction xs) auto
    then show ?thesis using no rid by (auto simp: find_run_def d' split: option.splits)
  qed
  then show "find_run d' runID = Some ?row" by simp
  have fresh: "runID \<notin> rr_run_id ` set (db_runs d)" using no by (auto simp: find_run_def find_None_iff)
  have "int64 x < 2 ^ 63" for x by (rule int64_less)
  then have "rr_revision ?row < 2 ^ 63" "rr_last_event_sequence ?row < 2 ^ 63" by (simp_all add: new_run_row_def Let_def)
  then show "tables_ok d'" using t ok fresh rid by (auto simp: tables_ok_def d')
  show "only_run runID d d'" using find by (simp add: only_run_def view_def outside_def) (simp add: d')
  have "filter (\<lambda>x. tk_run_id x = runID) (db_tasks d) = []" "filter (\<lambda>x. ev_run_id x = runID) (db_events d) = []"
    using t fresh by (auto simp: tables_ok_def filter_empty_conv)
  then show "tasks_rep d' runID [] []" "event_rows d' runID = []"
    by (simp_all add: tasks_rep_def tasks_contiguous_def event_rows_def task_rows_def d' order_by_def)
qed

lemma check_initial_events_iff:
  "check_initial_events i q es = Inr q' \<longleftrightarrow> check_events (of_nat (Suc i)) es = Inr () \<and> q' = (if es = [] then q else of_nat (i + length es))"
proof (induction es arbitrary: i q)
  case (Cons e es)
  show ?case using Cons.IH [of "Suc i" "of_nat (Suc i)"] by (auto simp: add.commute)
qed auto

text \<open>The parts of a valid initial snapshot the store relies on.\<close>

lemma validateInitialSnapshot_Inr:
  assumes "validateInitialSnapshot s = Inr ()"
  obtains def where "rs_Definition s = Some def" "wr_ID (rs_Run s) \<noteq> ''''" "run_status s = WorkflowPending" "wr_Revision (rs_Run s) = 0"
    "length (run_tasks s) = length (wd_Tasks def)" "length (run_remaining s) = length (run_tasks s)"
    "check_events 1 (rs_Events s) = Inr ()" "wr_LastEventSequence (rs_Run s) = of_nat (length (rs_Events s))"
proof -
  obtain def q where d: "rs_Definition s = Some def" "wr_ID (rs_Run s) \<noteq> ''''" "run_status s = WorkflowPending" "wr_Revision (rs_Run s) = 0"
    "length (run_tasks s) = length (wd_Tasks def)" "length (run_remaining s) = length (run_tasks s)"
    "check_initial_events 0 0 (rs_Events s) = Inr q" "wr_LastEventSequence (rs_Run s) = q"
    using assms by (auto simp: validateInitialSnapshot_def bindR_eq_Inr split: if_splits option.splits)
  have "check_events 1 (rs_Events s) = Inr ()" "q = of_nat (length (rs_Events s))"
    using d(7) by (auto simp: check_initial_events_iff)
  with d that show thesis by simp
qed

lemma create_load:
  assumes t: "tables_ok d" and v: "validateInitialSnapshot s = Inr ()" and u: "insertSnapshot s by d = Inr d'"
    and def: "find_version d (wr_DefinitionID (rs_Run s)) (wr_DefinitionVersion (rs_Run s)) = Some row" "Compile (ve_definition row) = Inr cw"
      "length (run_tasks s) = task_count cw"
  shows "tables_ok d'" and "only_run (wr_ID (rs_Run s)) d d'" and "loadSnapshot d (wr_ID (rs_Run s)) = Inl ErrRunNotFound"
    and "loadSnapshot d' (wr_ID (rs_Run s)) = Inr (as_stored (s\<lparr>rs_Definition := Some (cw_definition cw)\<rparr>))"
proof -
  let ?id = "wr_ID (rs_Run s)"
  obtain iv': "length (run_remaining s) = length (run_tasks s)"
    "check_events 1 (rs_Events s) = Inr ()" "wr_LastEventSequence (rs_Run s) = of_nat (length (rs_Events s))"
    using validateInitialSnapshot_Inr [OF v] by metis
  note iv = def(3) iv'
  obtain d1 d2 where u1: "insert_run s by d = Inr d1" and u2: "foldR (insert_task_run s) [0 ..< length (run_tasks s)] d1 = Inr d2"
    and u3: "foldR (insertEvent ?id) (rs_Events s) d2 = Inr d'"
    using u by (auto simp: insertSnapshot_def bindR_eq_Inr)
  note d1 = insert_run_sim [OF t u1 refl]
  have d2: "tables_ok d2 \<and> only_run ?id d1 d2 \<and> find_run d2 = find_run d1 \<and> event_rows d2 = event_rows d1 \<and>
    tasks_rep d2 ?id (run_tasks s) (run_remaining s)"
    using insert_tasks_sim [OF u2 _ _ d1(1,5) refl] d1(4) iv(2) by simp
  have none: "event_rows d2 ?id = []" using d1(6) d2 by simp
  then have "events_contiguous d2 ?id" by (simp add: events_contiguous_def)
  moreover have "check_events (of_nat (Suc (length (event_rows d2 ?id)))) (rs_Events s) = Inr ()" using none iv(3) by simp
  ultimately have d': "tables_ok d' \<and> only_run ?id d2 d' \<and> events_contiguous d' ?id \<and>
    event_rows d' ?id = map (new_event_row ?id) (rs_Events s) \<and>
    find_run d' = find_run d2 \<and> task_rows d' = task_rows d2 \<and> attempt_rows_of d' = attempt_rows_of d2"
    using insert_events_sim [OF u3] d2 none by simp
  then show t': "tables_ok d'" by blast
  show only: "only_run ?id d d'" using only_run_trans [OF only_run_trans [OF d1(2)]] d2 d' by blast
  show "loadSnapshot d ?id = Inl ErrRunNotFound" using d1(3) by (simp add: loadSnapshot_def)
  have rep: "tasks_rep d' ?id (run_tasks s) (run_remaining s)" using d2 d' tasks_rep_cong [of d' d2] by simp
  have fr: "find_run d' ?id = Some (new_run_row s by)" using d1(4) d2 d' by simp
  have n: "int (length (event_rows d' ?id)) < 2 ^ 63" using events_count [OF t'] d' by blast
  then have "int64 (wr_LastEventSequence (rs_Run s)) = int (length (event_rows d' ?id))"
    unfolding iv(4) using int64_of_count [of "length (rs_Events s)"] d' by simp
  moreover have "find_version d' = find_version d" using only by (simp add: only_run_def outside_def find_version_def fun_eq_iff)
  ultimately have "loadable d' ?id (new_run_row s by) cw"
    using fr def(1,2) d' rep tasks_rep_nth(1) [OF rep] iv(1) by (auto simp: loadable_def tasks_rep_def) (simp_all add: new_run_row_def Let_def)
  moreover have "loaded d' ?id (new_run_row s by) cw = as_stored (s\<lparr>rs_Definition := Some (cw_definition cw)\<rparr>)"
    using rep d' by (simp add: loaded_def as_stored_def run_of_row_def new_run_row_def Let_def tasks_rep_def comp_def)
  ultimately show "loadSnapshot d' ?id = Inr (as_stored (s\<lparr>rs_Definition := Some (cw_definition cw)\<rparr>))" using load_iff [OF t'] by metis
qed

section \<open>Replaying a creation\<close>

lemma foldR_frame_db:
  assumes "foldR f xs d = Inr d'" and "\<And>x d d'. f x d = Inr d' \<Longrightarrow> g d' = g d"
  shows "g d' = g d"
  using assms(1)
proof (induction xs arbitrary: d)
  case (Cons x xs)
  then obtain d1 where "f x d = Inr d1" "foldR f xs d1 = Inr d'" by (auto simp: bindR_eq_Inr)
  then show ?case using Cons.IH assms(2) by metis
qed simp

lemma insert_outside:
  "insertAttempt runID key index a d = Inr d' \<Longrightarrow> outside d' = outside d"
  "insertEvent runID e d = Inr d' \<Longrightarrow> outside d' = outside d"
  "insert_run s by d = Inr d' \<Longrightarrow> outside d' = outside d"
  by (auto simp: insertAttempt_def insertEvent_def insert_run_def outside_def Let_def split: if_splits)

lemma insert_task_outside: "insert_task_run s i d = Inr d' \<Longrightarrow> outside d' = outside d"
proof -
  assume u: "insert_task_run s i d = Inr d'"
  then obtain rows where "foldR (insertAttempt (wr_ID (rs_Run s)) (tr_Key (run_tasks s ! i)) (int i)) (tr_Attempts (run_tasks s ! i))
      (d\<lparr>db_tasks := rows\<rparr>) = Inr d'"
    by (auto simp: insert_task_run_def Let_def split: if_splits)
  from foldR_frame_db [OF this, of outside] insert_outside(1) have "outside d' = outside (d\<lparr>db_tasks := rows\<rparr>)" by blast
  then show ?thesis by (simp add: outside_def)
qed

lemma insertSnapshot_outside:
  assumes "insertSnapshot s by d = Inr d'"
  shows "outside d' = outside d"
proof -
  obtain d1 d2 where u: "insert_run s by d = Inr d1" "foldR (insert_task_run s) [0 ..< length (run_tasks s)] d1 = Inr d2"
      "foldR (insertEvent (wr_ID (rs_Run s))) (rs_Events s) d2 = Inr d'"
    using assms by (auto simp: insertSnapshot_def bindR_eq_Inr)
  have "outside d' = outside d2" by (rule foldR_frame_db [OF u(3), of outside]) (rule insert_outside(2))
  also have "\<dots> = outside d1" by (rule foldR_frame_db [OF u(2), of outside]) (rule insert_task_outside)
  also have "\<dots> = outside d" by (rule insert_outside(3) [OF u(1)])
  finally show ?thesis .
qed

lemma create_run_replay:
  assumes c: "pg_CreateRun s p k h d = Inr ((i, True), d')" and v: "validateInitialSnapshot s' = Inr ()"
  shows "i = wr_ID (rs_Run s)" and "pg_CreateRun s' p k h d' = Inr ((i, False), d')"
    and "\<not> blank h' \<Longrightarrow> h' \<noteq> h \<Longrightarrow> pg_CreateRun s' p k h' d' = Inl ErrIdempotencyConflict"
proof -
  have none: "loadIdempotency d p operationStartRun k = None"
    using c by (auto simp: pg_CreateRun_def bindR_eq_Inr split: option.splits)
  obtain d1 where d1: "insertSnapshot s (Some p) d = Inr d1" and i: "i = wr_ID (rs_Run s)"
    and ins: "insertIdempotency p operationStartRun k h resourceRun (wr_ID (rs_Run s)) None d1 = Inr d'"
    and ok: "validateIdempotencyInput p k h = Inr ()" "lockIdempotency p operationStartRun k = Inr ()"
    using c none by (auto simp: pg_CreateRun_def bindR_eq_Inr as_run_exists_def split: if_splits)
  show "i = wr_ID (rs_Run s)" by fact
  have "db_idempotency d1 = db_idempotency d" using insertSnapshot_outside [OF d1] by (simp add: outside_def)
  then have none1: "loadIdempotency d1 p operationStartRun k = None" using none by (simp add: loadIdempotency_def)
  define row where "row = \<lparr>ir_principal_id = p, ir_operation = operationStartRun, ir_idempotency_key = k,
    ir_request_hash = h, ir_resource_type = resourceRun, ir_resource_id = i, ir_resource_version = None\<rparr>"
  have "d' = d1\<lparr>db_idempotency := db_idempotency d1 @ [row]\<rparr>"
    using ins by (auto simp: insertIdempotency_def Let_def row_def i split: if_splits)
  moreover have "find P (xs @ [x]) = Some x" if "find P xs = None" "P x" for P and x :: idem_row and xs
    using that by (induction xs) (auto split: if_splits)
  ultimately have found: "loadIdempotency d' p operationStartRun k = Some row"
    using none1 by (simp add: loadIdempotency_def row_def)
  show "pg_CreateRun s' p k h d' = Inr ((i, False), d')"
    using found v ok by (simp add: pg_CreateRun_def validateReplay_def row_def)
  show "pg_CreateRun s' p k h' d' = Inl ErrIdempotencyConflict" if "\<not> blank h'" "h' \<noteq> h"
    using found v ok that by (auto simp: pg_CreateRun_def validateReplay_def row_def validateIdempotencyInput_def split: if_splits)
qed

end
