(* ===== verification/Dispatch_Store.thy ===== *)
theory Dispatch_Store
  imports Sql_Runs "HOL-Library.AList"
begin

text \<open>
  Workers, dispatches and leases over PostgreSQL: \<^verbatim>\<open>worker_repository.go\<close>,
  \<^verbatim>\<open>dispatch_schedule.go\<close>, \<^verbatim>\<open>dispatch_claim.go\<close>,
  \<^verbatim>\<open>dispatch_heartbeat.go\<close>, \<^verbatim>\<open>dispatch_complete.go\<close> and
  \<^verbatim>\<open>dispatch_recovery.go\<close> of \<^verbatim>\<open>internal/postgres\<close>, with the tokens of
  \<^verbatim>\<open>internal/workerauth\<close>. A transaction runs as one step; the rows that a
  concurrent transaction holds locked, which SKIP LOCKED leaves out, are an argument
  (\<open>skip\<close>). The clock of the database is an argument of every transaction and is read at
  the resolution of its columns. SHA-256 and the random source are arguments too.
\<close>

section \<open>Credentials\<close>

definition url_char :: "nat \<Rightarrow> char" where
  "url_char n =
     (if n < 26 then char_of (65 + n) else if n < 52 then char_of (71 + n) else if n < 62 then char_of (n - 4)
      else if n = 62 then CHR ''-'' else CHR ''_'')"

text \<open>\<^verbatim>\<open>base64.RawURLEncoding\<close>: six bits per character, no padding.\<close>

fun base64url :: "nat list \<Rightarrow> string" where
  "base64url [] = []"
| "base64url [a] = [url_char (a div 4), url_char (a mod 4 * 16)]"
| "base64url [a, b] = [url_char (a div 4), url_char (a mod 4 * 16 + b div 16), url_char (b mod 16 * 4)]"
| "base64url (a # b # c # bytes) =
     url_char (a div 4) # url_char (a mod 4 * 16 + b div 16) # url_char (b mod 16 * 4 + c div 64) #
     url_char (c mod 64) # base64url bytes"

text \<open>The n-th read of the random source: the bytes, or nothing when the read fails.\<close>

type_synonym random = "nat \<Rightarrow> nat list option"

definition GenerateToken :: "random \<Rightarrow> nat \<Rightarrow> string res" where
  "GenerateToken random n =
     (case random n of None \<Rightarrow> Inl (Errorf ''generate random token: %w'') | Some raw \<Rightarrow> Inr (base64url raw))"

definition DigestToken :: "(string \<Rightarrow> string) \<Rightarrow> string \<Rightarrow> string" where
  "DigestToken sha token = sha token"

definition MatchesToken :: "(string \<Rightarrow> string) \<Rightarrow> string \<Rightarrow> string option \<Rightarrow> bool" where
  "MatchesToken sha token expectedDigest =
     (case expectedDigest of
        None \<Rightarrow> False
      | Some digest \<Rightarrow> token \<noteq> '''' \<and> length digest = 32 \<and> sha token = digest)"

section \<open>Constraints\<close>

text \<open>Characters of a valid UTF-8 string: its bytes less the continuation bytes.\<close>

definition rune_count :: "string \<Rightarrow> nat" where
  "rune_count w = length (filter (\<lambda>c. let n = (of_char c :: nat) in n < 128 \<or> 192 \<le> n) w)"

definition worker_row_ok :: "worker_row \<Rightarrow> bool" where
  "worker_row_ok w \<longleftrightarrow>
     1 \<le> length (wk_worker_id w) \<and> length (wk_worker_id w) \<le> 128 \<and> text_ok (wk_worker_id w) \<and>
     1 \<le> rune_count (wk_display_name w) \<and> rune_count (wk_display_name w) \<le> 128 \<and> text_ok (wk_display_name w) \<and> 0 < wk_protocol_version w \<and>
     1 \<le> length (wk_executor_kinds w) \<and> length (wk_executor_kinds w) \<le> 16 \<and>
     1 \<le> wk_max_concurrency w \<and> wk_max_concurrency w \<le> 1024 \<and> length (wk_session_token_hash w) = 32 \<and>
     wk_registered_at w \<le> wk_last_heartbeat_at w \<and>
     (case wk_stopped_at w of None \<Rightarrow> True | Some t \<Rightarrow> wk_registered_at w \<le> t) \<and>
     (wk_status w = WorkerStopped) = (wk_stopped_at w \<noteq> None)"

definition dispatch_row_ok :: "dispatch_row \<Rightarrow> bool" where
  "dispatch_row_ok r \<longleftrightarrow>
     1 \<le> length (dr_dispatch_id r) \<and> length (dr_dispatch_id r) \<le> 128 \<and> text_ok (dr_dispatch_id r) \<and>
     executor_str (dr_executor_kind r) \<noteq> '''' \<and> text_ok (executor_str (dr_executor_kind r)) \<and>
     (case dr_attempt_number r of None \<Rightarrow> True | Some n \<Rightarrow> 0 < n \<and> int4 n) \<and>
     (case dr_lease_token_hash r of None \<Rightarrow> True | Some h \<Rightarrow> length h = 32) \<and>
     (case dr_result_hash r of None \<Rightarrow> True | Some h \<Rightarrow> length h = 32) \<and>
     (dr_worker_id r = None \<and> dr_attempt_number r = None \<and> dr_lease_token_hash r = None \<and>
        dr_lease_expires_at r = None \<and> dr_attempt_deadline r = None \<and> dr_leased_at r = None \<or>
      dr_worker_id r \<noteq> None \<and> dr_attempt_number r \<noteq> None \<and> dr_lease_token_hash r \<noteq> None \<and>
        dr_lease_expires_at r \<noteq> None \<and> dr_attempt_deadline r \<noteq> None \<and> dr_leased_at r \<noteq> None) \<and>
     (case dr_status r of
        DispatchPending \<Rightarrow> dr_worker_id r = None \<and> dr_completed_at r = None \<and> dr_result_hash r = None
      | DispatchLeased \<Rightarrow> dr_worker_id r \<noteq> None \<and> dr_completed_at r = None \<and> dr_result_hash r = None
      | DispatchCompleted \<Rightarrow> dr_worker_id r \<noteq> None \<and> dr_completed_at r \<noteq> None \<and> dr_result_hash r \<noteq> None
      | DispatchExpired \<Rightarrow> dr_worker_id r \<noteq> None \<and> dr_completed_at r \<noteq> None \<and> dr_result_hash r = None
      | DispatchCanceled \<Rightarrow> dr_completed_at r \<noteq> None \<and> dr_result_hash r = None) \<and>
     (case (dr_lease_expires_at r, dr_attempt_deadline r) of (Some e, Some a) \<Rightarrow> e \<le> a | _ \<Rightarrow> True) \<and>
     (case dr_leased_at r of None \<Rightarrow> True | Some t \<Rightarrow> dr_created_at r \<le> t) \<and>
     (case dr_completed_at r of None \<Rightarrow> True | Some t \<Rightarrow> dr_created_at r \<le> t)"

definition is_active_dispatch :: "dispatch_row \<Rightarrow> bool" where
  "is_active_dispatch r \<longleftrightarrow> dr_status r = DispatchPending \<or> dr_status r = DispatchLeased"

text \<open>The three unique indexes of \<^verbatim>\<open>task_dispatches\<close>.\<close>

definition dispatch_indexes_ok :: "dispatch_row list \<Rightarrow> bool" where
  "dispatch_indexes_ok rows \<longleftrightarrow>
     distinct (map (\<lambda>r. (dr_run_id r, dr_task_key r)) (filter is_active_dispatch rows)) \<and>
     distinct (List.map_filter dr_lease_token_hash rows) \<and>
     distinct (map (\<lambda>r. (dr_run_id r, dr_task_key r, dr_attempt_number r)) (filter (\<lambda>r. dr_attempt_number r \<noteq> None) rows))"

definition update_dispatches ::
  "(dispatch_row \<Rightarrow> bool) \<Rightarrow> (dispatch_row \<Rightarrow> dispatch_row) \<Rightarrow> db \<Rightarrow> (nat \<times> db) res" where
  "update_dispatches matching change d =
     bindR (checked_update dispatch_row_ok matching change (db_dispatches d)) (\<lambda>(n, rows).
     if \<not> dispatch_indexes_ok rows then Inl (SqlError ''task_dispatches'')
     else Inr (n, d\<lparr>db_dispatches := rows\<rparr>))"

definition update_workers :: "(worker_row \<Rightarrow> bool) \<Rightarrow> (worker_row \<Rightarrow> worker_row) \<Rightarrow> db \<Rightarrow> db res" where
  "update_workers matching change d =
     bindR (checked_update worker_row_ok matching change (db_workers d)) (\<lambda>(n, rows). Inr (d\<lparr>db_workers := rows\<rparr>))"

definition find_dispatch :: "db \<Rightarrow> string \<Rightarrow> dispatch_row option" where
  "find_dispatch d dispatchID = find (\<lambda>r. dr_dispatch_id r = dispatchID) (db_dispatches d)"

definition find_worker :: "db \<Rightarrow> string \<Rightarrow> worker_row option" where
  "find_worker d workerID = find (\<lambda>w. wk_worker_id w = workerID) (db_workers d)"

definition active_leases :: "db \<Rightarrow> string \<Rightarrow> int" where
  "active_leases d workerID =
     int (length (filter (\<lambda>r. dr_worker_id r = Some workerID \<and> dr_status r = DispatchLeased) (db_dispatches d)))"

section \<open>Shared steps\<close>

text \<open>Every transaction stores a changed snapshot the same way: the next revision, the
  difference to the loaded one, and its rows.\<close>

definition store_change :: "RunSnapshot \<Rightarrow> RunSnapshot \<Rightarrow> db \<Rightarrow> db res" where
  "store_change snapshot updated d =
     (let updated = upd_run (\<lambda>r. r\<lparr>wr_Revision := wr_Revision (rs_Run snapshot) + 1\<rparr>) updated in
      bindR (ChangeSetBetween snapshot updated) (\<lambda>change. applyChangeSetTx change d))"

fun first_index :: "('a \<Rightarrow> bool) \<Rightarrow> nat \<Rightarrow> 'a list \<Rightarrow> int" where
  "first_index P index [] = -1"
| "first_index P index (x # xs) = (if P x then int index else first_index P (Suc index) xs)"

definition firstTaskWithStatus :: "TaskRun list \<Rightarrow> TaskStatus \<Rightarrow> int" where
  "firstTaskWithStatus tasks status = first_index (\<lambda>t. tr_Status t = status) 0 tasks"

definition firstDueRetry :: "TaskRun list \<Rightarrow> time \<Rightarrow> int" where
  "firstDueRetry tasks at =
     first_index (\<lambda>t. tr_Status t = TaskWaitingRetry \<and> (case tr_ReadyAt t of None \<Rightarrow> False | Some r \<Rightarrow> \<not> at < r)) 0 tasks"

definition taskIndexByKey :: "TaskRun list \<Rightarrow> TaskKey \<Rightarrow> int" where
  "taskIndexByKey tasks key = first_index (\<lambda>t. tr_Key t = key) 0 tasks"

section \<open>Scheduling\<close>

definition returnOrphan :: "time \<Rightarrow> dispatch_row \<Rightarrow> db \<Rightarrow> db res" where
  "returnOrphan at item d =
     (if find_run d (dr_run_id item) = None then Inl ErrRunNotFound
      else case find_dispatch d (dr_dispatch_id item) of
        None \<Rightarrow> Inr d
      | Some row \<Rightarrow>
          if dr_status row \<noteq> DispatchPending then Inr d
          else
            bindR (loadSnapshot d (dr_run_id item)) (\<lambda>snapshot.
            let taskIndex = taskIndexByKey (run_tasks snapshot) (dr_task_key row) in
            if taskIndex < 0 \<or> status_of snapshot (nat taskIndex) \<noteq> TaskQueued
              then Inl (Errorf ''pending Dispatch %s does not match a queued Task'')
            else
              bindR (ReturnQueuedTaskToReady snapshot taskIndex at ''no compatible active Worker'') (\<lambda>updated.
              bindR (store_change snapshot updated d) (\<lambda>d.
              bindR (update_dispatches (\<lambda>r. dr_dispatch_id r = dr_dispatch_id item \<and> dr_status r = DispatchPending)
                       (\<lambda>r. r\<lparr>dr_status := DispatchCanceled, dr_completed_at := Some at\<rparr>) d) (\<lambda>(n, d).
              if n \<noteq> 1 then Inl (Errorf ''orphaned pending Dispatch %s changed concurrently'')
              else Inr d)))))"

definition returnOrphanedPendingDispatches :: "time \<Rightarrow> int \<Rightarrow> db \<Rightarrow> db res" where
  "returnOrphanedPendingDispatches at limit d =
     (let orphans = take (nat limit) (order_by dr_created_at (order_by dr_dispatch_id
            (filter (\<lambda>r. dr_status r = DispatchPending \<and>
               (case find_run d (dr_run_id r) of None \<Rightarrow> False | Some run \<Rightarrow> rr_cancel_requested_at run = None) \<and>
               \<not> list_ex (\<lambda>w. wk_status w = WorkerActive \<and> dr_executor_kind r \<in> set (wk_executor_kinds w)) (db_workers d))
             (db_dispatches d))))
      in foldR (returnOrphan at) orphans d)"

definition is_live_run :: "run_row \<Rightarrow> bool" where
  "is_live_run r \<longleftrightarrow> (rr_status r = WorkflowPending \<or> rr_status r = WorkflowRunning) \<and> rr_cancel_requested_at r = None"

definition promoteRetry :: "time \<Rightarrow> RunID \<Rightarrow> db \<Rightarrow> db res" where
  "promoteRetry at runID d =
     bindR (loadSnapshot d runID) (\<lambda>snapshot.
     let taskIndex = firstDueRetry (run_tasks snapshot) at in
     if taskIndex < 0 then Inr d
     else
       let attempts = tr_Attempts (run_tasks snapshot ! nat taskIndex) in
       if attempts = [] then Inl (GoPanic ''index out of range'')
       else
         bindR (MakeRetryReady snapshot taskIndex (at_Number (last attempts)) at) (\<lambda>(applied, updated).
         if \<not> applied then Inl (Errorf ''due retry %s/%s no longer matches its current Attempt'')
         else store_change snapshot updated d))"

definition promoteDueRetries :: "(RunID \<Rightarrow> bool) \<Rightarrow> time \<Rightarrow> int \<Rightarrow> db \<Rightarrow> db res" where
  "promoteDueRetries skip at limit d =
     (let runIDs = map rr_run_id (take (nat limit) (order_by rr_created_at (order_by rr_run_id
            (filter (\<lambda>r. is_live_run r \<and> \<not> skip (rr_run_id r) \<and>
               list_ex (\<lambda>t. tk_run_id t = rr_run_id r \<and> tk_status t = TaskWaitingRetry \<and>
                  (case tk_ready_at t of None \<Rightarrow> False | Some ready \<Rightarrow> ready \<le> at)) (db_tasks d))
             (db_runs d)))))
      in foldR (promoteRetry at) runIDs d)"

text \<open>Free slots per executor kind: the free leases of the active workers, less the pending
  dispatches, never below zero.\<close>

definition capacity_of :: "(ExecutorKind \<times> int) list \<Rightarrow> ExecutorKind \<Rightarrow> int" where
  "capacity_of capacity kind = (case map_of capacity kind of None \<Rightarrow> 0 | Some n \<Rightarrow> n)"

definition add_worker_capacity :: "db \<Rightarrow> worker_row \<Rightarrow> (ExecutorKind \<times> int) list \<Rightarrow> (ExecutorKind \<times> int) list" where
  "add_worker_capacity d w capacity =
     (let free = max 0 (wk_max_concurrency w - active_leases d (wk_worker_id w)) in
      fold (\<lambda>kind capacity. AList.update kind (capacity_of capacity kind + free) capacity) (wk_executor_kinds w) capacity)"

definition loadExecutorCapacity :: "db \<Rightarrow> (ExecutorKind \<times> int) list" where
  "loadExecutorCapacity d =
     (let capacity = fold (add_worker_capacity d) (filter (\<lambda>w. wk_status w = WorkerActive) (db_workers d)) [];
          pending = filter (\<lambda>r. dr_status r = DispatchPending) (db_dispatches d)
      in fold (\<lambda>kind capacity.
           AList.update kind (max 0 (capacity_of capacity kind -
             int (length (filter (\<lambda>r. dr_executor_kind r = kind) pending)))) capacity)
         (remdups (map dr_executor_kind pending)) capacity)"

definition insert_dispatch :: "dispatch_row \<Rightarrow> db \<Rightarrow> db res" where
  "insert_dispatch row d =
     (if \<not> dispatch_row_ok row then Inl (SqlError ''check_violation'')
      else if find_dispatch d (dr_dispatch_id row) \<noteq> None \<or> \<not> dispatch_indexes_ok (db_dispatches d @ [row])
        then Inl (SqlError ''task_dispatches'')
      else if \<not> list_ex (\<lambda>t. tk_run_id t = dr_run_id row \<and> tk_task_key t = dr_task_key row) (db_tasks d)
        then Inl (SqlError ''task_dispatches_run_id_task_key_fkey'')
      else Inr (d\<lparr>db_dispatches := db_dispatches d @ [row]\<rparr>))"

definition pending_dispatch :: "string \<Rightarrow> RunID \<Rightarrow> TaskKey \<Rightarrow> ExecutorKind \<Rightarrow> time \<Rightarrow> dispatch_row" where
  "pending_dispatch dispatchID runID key kind now =
     \<lparr>dr_dispatch_id = dispatchID, dr_run_id = runID, dr_task_key = key, dr_executor_kind = kind,
      dr_status = DispatchPending, dr_worker_id = None, dr_attempt_number = None, dr_lease_token_hash = None,
      dr_lease_expires_at = None, dr_attempt_deadline = None, dr_result_hash = None, dr_created_at = now,
      dr_leased_at = None, dr_completed_at = None\<rparr>"

definition createDispatch ::
  "random \<Rightarrow> time \<Rightarrow> int \<Rightarrow> RunID \<Rightarrow> int \<times> (ExecutorKind \<times> int) list \<times> db \<Rightarrow> (int \<times> (ExecutorKind \<times> int) list \<times> db) res" where
  "createDispatch random now available runID = (\<lambda>(created, capacity, d).
     if available \<le> created then Inr (created, capacity, d)
     else
       bindR (loadSnapshot d runID) (\<lambda>snapshot.
       let taskIndex = firstTaskWithStatus (run_tasks snapshot) TaskReady; i = nat taskIndex in
       if taskIndex < 0 then Inr (created, capacity, d)
       else case rs_Definition snapshot of None \<Rightarrow> Inl (GoPanic ''nil pointer dereference'') | Some def \<Rightarrow>
         if length (wd_Tasks def) \<le> i then Inl (GoPanic ''index out of range'')
         else
           let kind = td_Executor (wd_Tasks def ! i) in
           if capacity_of capacity kind \<le> 0 then Inr (created, capacity, d)
           else
             bindR (GenerateToken random (nat created)) (\<lambda>suffix.
             bindR (insert_dispatch (pending_dispatch (''dsp_'' @ suffix) runID (tr_Key (run_tasks snapshot ! i)) kind now) d) (\<lambda>d.
             bindR (QueueTask snapshot taskIndex now) (\<lambda>updated.
             bindR (store_change snapshot updated d) (\<lambda>d.
             Inr (created + 1, AList.update kind (capacity_of capacity kind - 1) capacity, d)))))))"

text \<open>The runs that may get another dispatch, longest without one first. The cast of the
  concurrency to \<^verbatim>\<open>integer\<close> fails the query when the value does not fit.\<close>

definition previous_dispatch :: "db \<Rightarrow> RunID \<Rightarrow> time option" where
  "previous_dispatch d runID =
     (case map dr_created_at (filter (\<lambda>r. dr_run_id r = runID) (db_dispatches d)) of
        [] \<Rightarrow> None | t # ts \<Rightarrow> Some (fold max ts t))"

definition run_concurrency :: "db \<Rightarrow> run_row \<Rightarrow> int option" where
  "run_concurrency d r = map_option (\<lambda>v. wd_Concurrency (ve_definition v)) (find_version d (rr_workflow_id r) (rr_workflow_version r))"

definition active_tasks :: "db \<Rightarrow> RunID \<Rightarrow> int" where
  "active_tasks d runID =
     int (length (filter (\<lambda>t. tk_run_id t = runID \<and> (tk_status t = TaskQueued \<or> tk_status t = TaskRunning)) (db_tasks d)))"

definition dispatch_candidates :: "(RunID \<Rightarrow> bool) \<Rightarrow> int \<Rightarrow> db \<Rightarrow> RunID list res" where
  "dispatch_candidates skip available d =
     (let ready = filter (\<lambda>r. is_live_run r \<and> run_concurrency d r \<noteq> None \<and>
            list_ex (\<lambda>t. tk_run_id t = rr_run_id r \<and> tk_status t = TaskReady) (db_tasks d)) (db_runs d)
      in if list_ex (\<lambda>r. \<not> int4 (the (run_concurrency d r))) ready then Inl (SqlError ''integer out of range'')
         else Inr (map rr_run_id (take (nat available)
           (order_by (\<lambda>r. if previous_dispatch d (rr_run_id r) = None then 0 else 1 :: nat)
             (order_by (\<lambda>r. case previous_dispatch d (rr_run_id r) of None \<Rightarrow> 0 | Some t \<Rightarrow> t)
               (order_by rr_created_at (order_by rr_run_id
                 (filter (\<lambda>r. \<not> skip (rr_run_id r) \<and> active_tasks d (rr_run_id r) < the (run_concurrency d r)) ready))))))))"

definition CreateDispatches :: "random \<Rightarrow> (RunID \<Rightarrow> bool) \<Rightarrow> time \<Rightarrow> int \<Rightarrow> db \<Rightarrow> (int \<times> db) res" where
  "CreateDispatches random skip clock limit d =
     (if limit \<le> 0 then Inl (Errorf ''dispatch limit must be positive'')
      else
        let now = timestamptz clock in
        bindR (returnOrphanedPendingDispatches now limit d) (\<lambda>d.
        bindR (promoteDueRetries skip now limit d) (\<lambda>d.
        let available = limit - int (length (filter is_active_dispatch (db_dispatches d))) in
        if available \<le> 0 then Inr (0, d)
        else
          let capacity = loadExecutorCapacity d in
          if capacity = [] then Inr (0, d)
          else
            bindR (dispatch_candidates skip available d) (\<lambda>runIDs.
            bindR (foldR (createDispatch random now available) runIDs (0, capacity, d)) (\<lambda>(created, _, d).
            Inr (created, d))))))"

section \<open>Claiming\<close>

record Lease =
  le_DispatchID :: string
  le_LeaseToken :: string
  le_DefinitionID :: string
  le_DefinitionVersion :: int
  le_RunID :: RunID
  le_TaskKey :: TaskKey
  le_ExecutorKind :: ExecutorKind
  le_Action :: string
  le_Input :: task_input
  le_Attempt :: int
  le_AttemptDeadline :: time
  le_LeaseExpiresAt :: time

text \<open>The configuration of the repository: \<^verbatim>\<open>NewWithOptions\<close> refuses values outside
  \<open>options_ok\<close>.\<close>

record options =
  op_WorkerHeartbeatInterval :: duration
  op_LeaseDuration :: duration

definition options_ok :: "options \<Rightarrow> bool" where
  "options_ok op \<longleftrightarrow> 0 < op_WorkerHeartbeatInterval op \<and> op_WorkerHeartbeatInterval op < op_LeaseDuration op"

definition claimDispatch ::
  "(string \<Rightarrow> string) \<Rightarrow> random \<Rightarrow> options \<Rightarrow> time \<Rightarrow> string \<Rightarrow> dispatch_row \<Rightarrow> Lease list \<times> db \<Rightarrow> (Lease list \<times> db) res" where
  "claimDispatch sha random op now workerID item = (\<lambda>(leases, d).
     bindR (loadSnapshot d (dr_run_id item)) (\<lambda>snapshot.
     let taskIndex = taskIndexByKey (run_tasks snapshot) (dr_task_key item); i = nat taskIndex in
     if taskIndex < 0 \<or> status_of snapshot i \<noteq> TaskQueued
       then Inl (Errorf ''Dispatch %s does not match a queued Task'')
     else case rs_Definition snapshot of None \<Rightarrow> Inl (GoPanic ''nil pointer dereference'') | Some def \<Rightarrow>
       (case Compile def of Inl e \<Rightarrow> Inl (Errorf ''compile Run definition for claim: %w'') | Inr cw \<Rightarrow>
        bindR (StartQueuedAttempt snapshot cw taskIndex now workerID (dr_dispatch_id item)) (\<lambda>(updated, request).
        let task = wd_Tasks def ! i;
            attemptDeadline = now + millis (td_TimeoutMillis task);
            leaseExpiresAt = min (now + op_LeaseDuration op) attemptDeadline in
        bindR (GenerateToken random (length leases)) (\<lambda>leaseToken.
        bindR (update_dispatches (\<lambda>r. dr_dispatch_id r = dr_dispatch_id item \<and> dr_status r = DispatchPending)
                 (\<lambda>r. r\<lparr>dr_status := DispatchLeased, dr_worker_id := Some workerID, dr_attempt_number := Some (eq_Attempt request),
                        dr_lease_token_hash := Some (DigestToken sha leaseToken), dr_lease_expires_at := Some (timestamptz leaseExpiresAt),
                        dr_attempt_deadline := Some (timestamptz attemptDeadline), dr_leased_at := Some now\<rparr>) d) (\<lambda>(n, d).
        if n \<noteq> 1 then Inl (Errorf ''Dispatch %s is no longer pending'')
        else
          bindR (store_change snapshot updated d) (\<lambda>d.
          Inr (leases @ [\<lparr>le_DispatchID = dr_dispatch_id item, le_LeaseToken = leaseToken,
                 le_DefinitionID = eq_DefinitionID request, le_DefinitionVersion = wr_DefinitionVersion (rs_Run snapshot),
                 le_RunID = eq_RunID request, le_TaskKey = eq_TaskKey request, le_ExecutorKind = td_Executor task,
                 le_Action = eq_Action request, le_Input = eq_Input request, le_Attempt = eq_Attempt request,
                 le_AttemptDeadline = attemptDeadline, le_LeaseExpiresAt = leaseExpiresAt\<rparr>], d))))))))"

definition claim_candidates :: "(dispatch_row \<Rightarrow> bool) \<Rightarrow> ExecutorKind list \<Rightarrow> int \<Rightarrow> db \<Rightarrow> dispatch_row list" where
  "claim_candidates skip executorKinds slots d =
     take (nat slots) (order_by dr_created_at (order_by dr_dispatch_id
       (filter (\<lambda>r. dr_status r = DispatchPending \<and> \<not> skip r \<and>
          list_ex (\<lambda>t. tk_run_id t = dr_run_id r \<and> tk_task_key t = dr_task_key r \<and> tk_status t = TaskQueued) (db_tasks d) \<and>
          (case find_run d (dr_run_id r) of None \<Rightarrow> False
           | Some run \<Rightarrow> rr_status run = WorkflowRunning \<and> rr_cancel_requested_at run = None) \<and>
          dr_executor_kind r \<in> set executorKinds)
        (db_dispatches d))))"

definition Claim ::
  "(string \<Rightarrow> string) \<Rightarrow> random \<Rightarrow> options \<Rightarrow> (dispatch_row \<Rightarrow> bool) \<Rightarrow> time \<Rightarrow> string \<Rightarrow> int \<Rightarrow> db \<Rightarrow> (Lease list \<times> db) res" where
  "Claim sha random op skip clock workerID slots d =
     (if slots \<le> 0 then Inl ErrWorkerCapacityExceeded
      else case find_worker d workerID of
        None \<Rightarrow> Inl ErrWorkerSessionInvalid
      | Some w \<Rightarrow>
          if wk_status w = WorkerDraining then Inl ErrWorkerDraining
          else if wk_status w \<noteq> WorkerActive then Inl ErrWorkerSessionInvalid
          else if wk_max_concurrency w - active_leases d workerID < slots then Inl ErrWorkerCapacityExceeded
          else foldR (claimDispatch sha random op (timestamptz clock) workerID)
                 (claim_candidates skip (wk_executor_kinds w) slots d) ([], d))"

section \<open>Heartbeats\<close>

record LeaseRef =
  lr_DispatchID :: string
  lr_LeaseToken :: string

datatype LeaseHeartbeatStatus = LeaseRenewed | LeaseRevoked | LeaseUnknown

record LeaseHeartbeat =
  lh_DispatchID :: string
  lh_Status :: LeaseHeartbeatStatus
  lh_LeaseRemainingMillis :: int

definition heartbeat_item :: "string \<Rightarrow> LeaseHeartbeatStatus \<Rightarrow> int \<Rightarrow> LeaseHeartbeat" where
  "heartbeat_item dispatchID status remaining =
     \<lparr>lh_DispatchID = dispatchID, lh_Status = status, lh_LeaseRemainingMillis = remaining\<rparr>"

text \<open>Scanning a NULL into a \<^verbatim>\<open>string\<close> or a \<^verbatim>\<open>time.Time\<close> is an error.\<close>

definition renewLease ::
  "(string \<Rightarrow> string) \<Rightarrow> options \<Rightarrow> time \<Rightarrow> string \<Rightarrow> LeaseRef \<Rightarrow> LeaseHeartbeat list \<times> db \<Rightarrow> (LeaseHeartbeat list \<times> db) res" where
  "renewLease sha op now workerID ref = (\<lambda>(items, d).
     let answer = (\<lambda>status remaining. items @ [heartbeat_item (lr_DispatchID ref) status remaining]) in
     case find_dispatch d (lr_DispatchID ref) of
       None \<Rightarrow> Inr (answer LeaseUnknown 0, d)
     | Some r \<Rightarrow>
         (case (dr_worker_id r, dr_lease_expires_at r, dr_attempt_deadline r) of
            (Some storedWorkerID, Some leaseExpiresAt, Some attemptDeadline) \<Rightarrow>
              if storedWorkerID \<noteq> workerID \<or> \<not> MatchesToken sha (lr_LeaseToken ref) (dr_lease_token_hash r)
                then Inr (answer LeaseUnknown 0, d)
              else if dr_status r \<noteq> DispatchLeased \<or> leaseExpiresAt \<le> now \<or> attemptDeadline \<le> now
                then Inr (answer LeaseRevoked 0, d)
              else
                let newExpiry = min (now + op_LeaseDuration op) attemptDeadline in
                bindR (update_dispatches (\<lambda>r. dr_dispatch_id r = lr_DispatchID ref \<and> dr_status r = DispatchLeased)
                         (\<lambda>r. r\<lparr>dr_lease_expires_at := Some (timestamptz newExpiry)\<rparr>) d) (\<lambda>(n, d).
                Inr (answer LeaseRenewed ((newExpiry - now) div 1000000), d))
          | _ \<Rightarrow> Inl (Errorf ''load heartbeat Dispatch %s: %w'')))"

definition Heartbeat ::
  "(string \<Rightarrow> string) \<Rightarrow> options \<Rightarrow> time \<Rightarrow> string \<Rightarrow> LeaseRef list \<Rightarrow> db \<Rightarrow> (LeaseHeartbeat list \<times> db) res" where
  "Heartbeat sha op clock workerID leases d =
     (case find_worker d workerID of
        None \<Rightarrow> Inl ErrWorkerSessionInvalid
      | Some w \<Rightarrow>
          if wk_status w \<noteq> WorkerActive \<and> wk_status w \<noteq> WorkerDraining then Inl ErrWorkerSessionInvalid
          else
            let now = timestamptz clock in
            bindR (update_workers (\<lambda>w. wk_worker_id w = workerID) (\<lambda>w. w\<lparr>wk_last_heartbeat_at := now\<rparr>) d) (\<lambda>d.
            foldR (renewLease sha op now workerID) leases ([], d)))"

section \<open>Completing\<close>

primrec result_str :: "ResultKind \<Rightarrow> string" where
  "result_str ResultSuccess = ''success''"
| "result_str ResultTemporaryFailure = ''temporary_failure''"
| "result_str ResultPermanentFailure = ''permanent_failure''"
| "result_str ResultCanceled = ''canceled''"
| "result_str (ResultOther w) = w"

definition canonical_result :: "ExecutionResponse \<Rightarrow> string" where
  "canonical_result result = json_object
     [json_field ''kind'' (json_quote (result_str (ep_Kind result))), json_field ''output'' (json_quote (ep_Output result)),
      json_field ''error_code'' (json_quote (ep_ErrorCode result)), json_field ''error_message'' (json_quote (ep_ErrorMessage result))]"

definition digestWorkerResult :: "(string \<Rightarrow> string) \<Rightarrow> ExecutionResponse \<Rightarrow> string res" where
  "digestWorkerResult sha result =
     (if ep_Kind result \<noteq> ResultSuccess \<and> ep_Kind result \<noteq> ResultTemporaryFailure \<and> ep_Kind result \<noteq> ResultPermanentFailure
        then Inl (ErrInvalidResult ''unsupported result kind %q'')
      else if length (ep_Output result) > 64 * 1024 then Inl (ErrInvalidResult ''output exceeds %d bytes'')
      else if length (ep_ErrorCode result) > 128 then Inl (ErrInvalidResult ''error code exceeds %d bytes'')
      else if length (ep_ErrorMessage result) > 8 * 1024 then Inl (ErrInvalidResult ''error message exceeds %d bytes'')
      else Inr (sha (canonical_result result)))"

lemma digestWorkerResult_code [code]:
  "digestWorkerResult sha result =
     (if ep_Kind result \<noteq> ResultSuccess \<and> ep_Kind result \<noteq> ResultTemporaryFailure \<and> ep_Kind result \<noteq> ResultPermanentFailure
        then Inl (ErrInvalidResult ''unsupported result kind %q'')
      else if int (length (ep_Output result)) > 65536 then Inl (ErrInvalidResult ''output exceeds %d bytes'')
      else if int (length (ep_ErrorCode result)) > 128 then Inl (ErrInvalidResult ''error code exceeds %d bytes'')
      else if int (length (ep_ErrorMessage result)) > 8192 then Inl (ErrInvalidResult ''error message exceeds %d bytes'')
      else Inr (sha (canonical_result result)))"
  by (simp add: digestWorkerResult_def)

definition Complete ::
  "(string \<Rightarrow> string) \<Rightarrow> time \<Rightarrow> string \<Rightarrow> string \<Rightarrow> string \<Rightarrow> ExecutionResponse \<Rightarrow> db \<Rightarrow> (bool \<times> db) res" where
  "Complete sha clock workerID dispatchID leaseToken result d =
     bindR (digestWorkerResult sha result) (\<lambda>resultHash.
     let now = timestamptz clock in
     case find_dispatch d dispatchID of None \<Rightarrow> Inl ErrLeaseLost | Some r \<Rightarrow>
     if find_run d (dr_run_id r) = None then Inl (Errorf ''lock Run for completion: %w'')
     else if dr_worker_id r \<noteq> Some workerID \<or> \<not> MatchesToken sha leaseToken (dr_lease_token_hash r) then Inl ErrLeaseLost
     else if dr_status r = DispatchCompleted then
       (if dr_result_hash r \<noteq> Some resultHash then Inl ErrResultConflict else Inr (True, d))
     else
       (case (dr_attempt_number r, dr_lease_expires_at r, dr_attempt_deadline r) of
          (Some attemptNumber, Some leaseExpiresAt, Some attemptDeadline) \<Rightarrow>
            if dr_status r \<noteq> DispatchLeased \<or> leaseExpiresAt \<le> now \<or> attemptDeadline \<le> now then Inl ErrLeaseLost
            else
              bindR (loadSnapshot d (dr_run_id r)) (\<lambda>snapshot.
              if wr_CancelRequestedAt (rs_Run snapshot) \<noteq> None \<or> run_status snapshot \<noteq> WorkflowRunning then Inl ErrLeaseLost
              else
                let taskIndex = taskIndexByKey (run_tasks snapshot) (dr_task_key r); task = run_tasks snapshot ! nat taskIndex in
                if taskIndex < 0 then Inl ErrLeaseLost
                else if tr_Status task \<noteq> TaskRunning \<or> tr_Attempts task = [] then Inl ErrLeaseLost
                else if at_Number (last (tr_Attempts task)) \<noteq> attemptNumber \<or> at_WorkerID (last (tr_Attempts task)) \<noteq> workerID \<or>
                        at_DispatchID (last (tr_Attempts task)) \<noteq> dispatchID then Inl ErrLeaseLost
                else case rs_Definition snapshot of None \<Rightarrow> Inl (GoPanic ''nil pointer dereference'') | Some def \<Rightarrow>
                  (case Compile def of Inl e \<Rightarrow> Inl (Errorf ''compile Run definition for completion: %w'') | Inr cw \<Rightarrow>
                   bindR (ApplyAttemptResult snapshot cw taskIndex attemptNumber result now) (\<lambda>(applied, updated).
                   if \<not> applied then Inl ErrLeaseLost
                   else
                     bindR (store_change snapshot updated d) (\<lambda>d.
                     bindR (update_dispatches (\<lambda>r. dr_dispatch_id r = dispatchID \<and> dr_status r = DispatchLeased)
                              (\<lambda>r. r\<lparr>dr_status := DispatchCompleted, dr_result_hash := Some resultHash, dr_completed_at := Some now\<rparr>) d) (\<lambda>(n, d).
                     if n \<noteq> 1 then Inl ErrLeaseLost else Inr (True, d))))))
        | _ \<Rightarrow> Inl ErrLeaseLost))"

section \<open>Recovery\<close>

definition reapDispatch :: "(string \<Rightarrow> time) \<Rightarrow> dispatch_row \<Rightarrow> db \<Rightarrow> db res" where
  "reapDispatch current item d =
     (case find_dispatch d (dr_dispatch_id item) of
        None \<Rightarrow> Inr d
      | Some r \<Rightarrow>
          (case (dr_lease_expires_at r, dr_attempt_deadline r) of
             (Some leaseExpiresAt, Some attemptDeadline) \<Rightarrow>
               let currentTime = timestamptz (current (dr_dispatch_id item)) in
               if dr_status r \<noteq> DispatchLeased then Inr d
               else if currentTime < leaseExpiresAt \<and> currentTime < attemptDeadline then Inr d
               else
                 bindR (loadSnapshot d (dr_run_id item)) (\<lambda>snapshot.
                 let taskIndex = taskIndexByKey (run_tasks snapshot) (dr_task_key item) in
                 if taskIndex < 0 then Inl (Errorf ''expired Dispatch %s has no matching Task'')
                 else case rs_Definition snapshot of None \<Rightarrow> Inl (GoPanic ''nil pointer dereference'') | Some def \<Rightarrow>
                   (case Compile def of Inl e \<Rightarrow> Inl (Errorf ''compile Run definition for lease reap: %w'') | Inr cw \<Rightarrow>
                    (case dr_attempt_number item of None \<Rightarrow> Inl (Errorf ''scan expired Dispatch: %w'') | Some attemptNumber \<Rightarrow>
                     bindR (if attemptDeadline \<le> currentTime
                            then TimeoutAttempt snapshot cw taskIndex attemptNumber currentTime
                            else InterruptAttempt snapshot cw taskIndex attemptNumber currentTime ''Worker lease expired'')
                     (\<lambda>(applied, updated).
                     if \<not> applied then Inl (Errorf ''expired Dispatch %s no longer owns the current Attempt'')
                     else
                       bindR (store_change snapshot updated d) (\<lambda>d.
                       bindR (update_dispatches (\<lambda>r. dr_dispatch_id r = dr_dispatch_id item \<and> dr_status r = DispatchLeased)
                                (\<lambda>r. r\<lparr>dr_status := DispatchExpired, dr_completed_at := Some currentTime\<rparr>) d) (\<lambda>(n, d).
                       if n \<noteq> 1 then Inl (Errorf ''expired Dispatch %s changed concurrently'') else Inr d))))))
           | _ \<Rightarrow> Inl (Errorf ''lock expired Dispatch %s: %w'')))"

definition lease_end :: "dispatch_row \<Rightarrow> time option" where
  "lease_end r = (case (dr_lease_expires_at r, dr_attempt_deadline r) of (Some e, Some a) \<Rightarrow> Some (min e a) | _ \<Rightarrow> None)"

definition expired_dispatches :: "(dispatch_row \<Rightarrow> bool) \<Rightarrow> time \<Rightarrow> int \<Rightarrow> db \<Rightarrow> dispatch_row list" where
  "expired_dispatches skip now limit d =
     take (nat limit) (order_by (\<lambda>r. case lease_end r of None \<Rightarrow> 0 | Some t \<Rightarrow> t) (order_by dr_dispatch_id
       (filter (\<lambda>r. dr_status r = DispatchLeased \<and> \<not> skip r \<and> find_run d (dr_run_id r) \<noteq> None \<and>
          (case lease_end r of None \<Rightarrow> False | Some t \<Rightarrow> t \<le> now)) (db_dispatches d))))"

definition ReapExpired ::
  "options \<Rightarrow> (dispatch_row \<Rightarrow> bool) \<Rightarrow> time \<Rightarrow> (string \<Rightarrow> time) \<Rightarrow> int \<Rightarrow> db \<Rightarrow> (int \<times> db) res" where
  "ReapExpired op skip clock current limit d =
     (if limit \<le> 0 then Inl (Errorf ''reap limit must be positive'')
      else
        let now = timestamptz clock; offlineBefore = now - 3 * op_WorkerHeartbeatInterval op in
        bindR (update_workers (\<lambda>w. (wk_status w = WorkerActive \<or> wk_status w = WorkerDraining) \<and> wk_last_heartbeat_at w < timestamptz offlineBefore)
                 (\<lambda>w. w\<lparr>wk_status := WorkerOffline\<rparr>) d) (\<lambda>d.
        let expired = expired_dispatches skip now limit d in
        bindR (foldR (reapDispatch current) expired d) (\<lambda>d. Inr (int (length expired), d))))"

definition pg_CancelRun :: "time \<Rightarrow> RunID \<Rightarrow> db \<Rightarrow> db res" where
  "pg_CancelRun clock runID d =
     (let now = timestamptz clock in
      if find_run d runID = None then Inl ErrRunNotFound
      else
        bindR (loadSnapshot d runID) (\<lambda>snapshot.
        if isWorkflowTerminal (run_status snapshot) then Inr d
        else if wr_CancelRequestedAt (rs_Run snapshot) = None then Inl (Errorf ''Run %s cancellation was not requested'')
        else
          bindR (CancelRunSnapshot snapshot now) (\<lambda>updated.
          bindR (store_change snapshot updated d) (\<lambda>d.
          bindR (update_dispatches (\<lambda>r. dr_run_id r = runID \<and> is_active_dispatch r)
                   (\<lambda>r. r\<lparr>dr_status := DispatchCanceled, dr_completed_at := Some now\<rparr>) d) (\<lambda>(n, d). Inr d)))))"

text \<open>Every run is cancelled in a transaction of its own: a failure leaves the ones before
  it committed. The argument \<open>clock\<close> gives the time of each transaction.\<close>

fun cancel_runs :: "(RunID \<Rightarrow> time) \<Rightarrow> RunID list \<Rightarrow> db \<Rightarrow> unit res \<times> db" where
  "cancel_runs clock [] d = (Inr (), d)"
| "cancel_runs clock (i # ids) d =
     (case pg_CancelRun (clock i) i d of
        Inl e \<Rightarrow> (Inl (Errorf ''reconcile cancellation for Run %s: %w''), d)
      | Inr d \<Rightarrow> cancel_runs clock ids d)"

definition CancelRequestedRuns :: "(RunID \<Rightarrow> time) \<Rightarrow> int \<Rightarrow> db \<Rightarrow> int res \<times> db" where
  "CancelRequestedRuns clock limit d =
     (if limit \<le> 0 then (Inl (Errorf ''cancellation reconciliation limit must be positive''), d)
      else
        let ids = map rr_run_id (take (nat limit) (order_by (\<lambda>r. case rr_cancel_requested_at r of None \<Rightarrow> 0 | Some t \<Rightarrow> t) (order_by rr_run_id
              (filter (\<lambda>r. rr_cancel_requested_at r \<noteq> None \<and> (rr_status r = WorkflowPending \<or> rr_status r = WorkflowRunning)) (db_runs d))))) in
        case cancel_runs clock ids d of
          (Inl e, d) \<Rightarrow> (Inl e, d)
        | (Inr _, d) \<Rightarrow> (Inr (int (length ids)), d))"

section \<open>Workers\<close>

definition ProtocolVersion :: int where
  "ProtocolVersion = 1"

datatype WorkerOperation = OperationClaim | OperationHeartbeat | OperationComplete | OperationDrain | OperationOther string

record RegisterRequest =
  rq_DisplayName :: string
  rq_ProtocolVersion :: int
  rq_ExecutorKinds :: "ExecutorKind list"
  rq_MaxConcurrency :: int

record WorkerSummary =
  ws_WorkerID :: string
  ws_DisplayName :: string
  ws_ProtocolVersion :: int
  ws_ExecutorKinds :: "ExecutorKind list"
  ws_MaxConcurrency :: int
  ws_Status :: WorkerStatus
  ws_ActiveLeases :: int
  ws_RegisteredAt :: time
  ws_LastHeartbeatAt :: time
  ws_StoppedAt :: "time option"

record WorkerSession =
  se_WorkerID :: string
  se_ProtocolVersion :: int
  se_ExecutorKinds :: "ExecutorKind list"
  se_MaxConcurrency :: int
  se_Status :: WorkerStatus

text \<open>The first occurrence of every kind, in order; only the mock executor is accepted.\<close>

fun normalize_kinds :: "ExecutorKind list \<Rightarrow> ExecutorKind list \<Rightarrow> ExecutorKind list res" where
  "normalize_kinds [] normalized = Inr normalized"
| "normalize_kinds (kind # kinds) normalized =
     (if kind \<noteq> ExecutorMock then Inl ErrInvalidWorkerRegistration
      else if kind \<in> set normalized then normalize_kinds kinds normalized
      else normalize_kinds kinds (normalized @ [kind]))"

text \<open>\<^verbatim>\<open>strings.TrimSpace\<close>: the code points of \<^verbatim>\<open>unicode.IsSpace\<close>, as
  their UTF-8 bytes, are taken from the front and, with the bytes reversed, from the back.\<close>

definition space1 :: "nat \<Rightarrow> bool" where
  "space1 b \<longleftrightarrow> 9 \<le> b \<and> b \<le> 13 \<or> b = 32"

definition space2 :: "nat \<Rightarrow> nat \<Rightarrow> bool" where
  "space2 b c \<longleftrightarrow> b = 194 \<and> (c = 133 \<or> c = 160)"

definition space3 :: "nat \<Rightarrow> nat \<Rightarrow> nat \<Rightarrow> bool" where
  "space3 b c d \<longleftrightarrow>
     b = 225 \<and> c = 154 \<and> d = 128 \<or> b = 226 \<and> c = 128 \<and> (128 \<le> d \<and> d \<le> 138 \<or> d = 168 \<or> d = 169 \<or> d = 175) \<or>
     b = 226 \<and> c = 129 \<and> d = 159 \<or> b = 227 \<and> c = 128 \<and> d = 128"

fun trim_front :: "(nat \<Rightarrow> nat \<Rightarrow> bool) \<Rightarrow> (nat \<Rightarrow> nat \<Rightarrow> nat \<Rightarrow> bool) \<Rightarrow> nat list \<Rightarrow> nat list" where
  "trim_front two three (b # c # d # bytes) =
     (if space1 b then trim_front two three (c # d # bytes) else if two b c then trim_front two three (d # bytes)
      else if three b c d then trim_front two three bytes else b # c # d # bytes)"
| "trim_front two three [b, c] = (if space1 b then trim_front two three [c] else if two b c then [] else [b, c])"
| "trim_front two three [b] = (if space1 b then [] else [b])"
| "trim_front two three [] = []"

definition TrimSpace :: "string \<Rightarrow> string" where
  "TrimSpace w =
     map char_of (rev (trim_front (\<lambda>c b. space2 b c) (\<lambda>d c b. space3 b c d) (rev (trim_front space2 space3 (map of_char w)))))"

definition normalizeWorkerRegistration :: "RegisterRequest \<Rightarrow> RegisterRequest res" where
  "normalizeWorkerRegistration request =
     (let name = TrimSpace (rq_DisplayName request) in
      if rq_ProtocolVersion request \<noteq> ProtocolVersion then Inl ErrWorkerProtocolUnsupported
      else if name = '''' \<or> rune_count name > 128 then Inl ErrInvalidWorkerRegistration
      else if rq_MaxConcurrency request \<le> 0 \<or> rq_MaxConcurrency request > 1024 then Inl ErrInvalidWorkerRegistration
      else if rq_ExecutorKinds request = [] \<or> length (rq_ExecutorKinds request) > 16 then Inl ErrInvalidWorkerRegistration
      else bindR (normalize_kinds (rq_ExecutorKinds request) []) (\<lambda>kinds.
           Inr (request\<lparr>rq_DisplayName := name, rq_ExecutorKinds := kinds\<rparr>)))"

definition summary_of :: "db \<Rightarrow> worker_row \<Rightarrow> WorkerSummary" where
  "summary_of d w =
     \<lparr>ws_WorkerID = wk_worker_id w, ws_DisplayName = wk_display_name w, ws_ProtocolVersion = wk_protocol_version w,
      ws_ExecutorKinds = wk_executor_kinds w, ws_MaxConcurrency = wk_max_concurrency w, ws_Status = wk_status w,
      ws_ActiveLeases = active_leases d (wk_worker_id w), ws_RegisteredAt = wk_registered_at w,
      ws_LastHeartbeatAt = wk_last_heartbeat_at w, ws_StoppedAt = wk_stopped_at w\<rparr>"

definition insert_worker :: "worker_row \<Rightarrow> db \<Rightarrow> db res" where
  "insert_worker w d =
     (if \<not> worker_row_ok w then Inl (SqlError ''check_violation'')
      else if find_worker d (wk_worker_id w) \<noteq> None then Inl (SqlError ''worker_sessions_pkey'')
      else if list_ex (\<lambda>x. wk_session_token_hash x = wk_session_token_hash w) (db_workers d)
        then Inl (SqlError ''worker_sessions_token_hash_unique'')
      else Inr (d\<lparr>db_workers := db_workers d @ [w]\<rparr>))"

text \<open>At most \<open>tries\<close> draws of credentials; two reads of the random source each.\<close>

fun register_attempts ::
  "(string \<Rightarrow> string) \<Rightarrow> random \<Rightarrow> time \<Rightarrow> RegisterRequest \<Rightarrow> nat \<Rightarrow> nat \<Rightarrow> db \<Rightarrow> ((WorkerSummary \<times> string) \<times> db) res" where
  "register_attempts sha random now request 0 n d = Inl (Errorf ''generate unique Worker credentials'')"
| "register_attempts sha random now request (Suc tries) n d =
     bindR (GenerateToken random n) (\<lambda>suffix.
     bindR (GenerateToken random (n + 1)) (\<lambda>sessionToken.
     let w = \<lparr>wk_worker_id = ''wrk_'' @ suffix, wk_display_name = rq_DisplayName request,
              wk_protocol_version = rq_ProtocolVersion request, wk_executor_kinds = rq_ExecutorKinds request,
              wk_max_concurrency = rq_MaxConcurrency request, wk_status = WorkerActive,
              wk_session_token_hash = DigestToken sha sessionToken, wk_registered_at = now, wk_last_heartbeat_at = now,
              wk_stopped_at = None\<rparr> in
     case insert_worker w d of
       Inr d \<Rightarrow> Inr (((summary_of d w)\<lparr>ws_ActiveLeases := 0\<rparr>, sessionToken), d)
     | Inl e \<Rightarrow>
         if e \<noteq> SqlError ''worker_sessions_pkey'' \<and> e \<noteq> SqlError ''worker_sessions_token_hash_unique''
           then Inl (Errorf ''insert Worker session: %w'')
         else register_attempts sha random now request tries (n + 2) d))"

definition RegisterWorker ::
  "(string \<Rightarrow> string) \<Rightarrow> random \<Rightarrow> time \<Rightarrow> RegisterRequest \<Rightarrow> db \<Rightarrow> ((WorkerSummary \<times> string) \<times> db) res" where
  "RegisterWorker sha random clock request d =
     bindR (normalizeWorkerRegistration request) (\<lambda>normalized.
     register_attempts sha random (timestamptz clock) normalized 3 0 d)"

definition AuthenticateWorker ::
  "(string \<Rightarrow> string) \<Rightarrow> db \<Rightarrow> string \<Rightarrow> string \<Rightarrow> int \<Rightarrow> WorkerOperation \<Rightarrow> WorkerSession res" where
  "AuthenticateWorker sha d workerID sessionToken protocolVersion operation =
     (if protocolVersion \<noteq> ProtocolVersion then Inl ErrWorkerProtocolUnsupported
      else case find_worker d workerID of
        None \<Rightarrow> Inl ErrWorkerSessionInvalid
      | Some w \<Rightarrow>
          if wk_protocol_version w \<noteq> ProtocolVersion then Inl ErrWorkerProtocolUnsupported
          else if \<not> MatchesToken sha sessionToken (Some (wk_session_token_hash w)) then Inl ErrWorkerSessionInvalid
          else if operation \<noteq> OperationClaim \<and> operation \<noteq> OperationHeartbeat \<and> operation \<noteq> OperationComplete \<and> operation \<noteq> OperationDrain
            then Inl ErrWorkerSessionInvalid
          else if wk_status w = WorkerOffline \<or> wk_status w = WorkerStopped then Inl ErrWorkerSessionInvalid
          else if wk_status w = WorkerDraining \<and> operation = OperationClaim then Inl ErrWorkerDraining
          else if wk_status w \<noteq> WorkerActive \<and> wk_status w \<noteq> WorkerDraining then Inl ErrWorkerSessionInvalid
          else Inr \<lparr>se_WorkerID = wk_worker_id w, se_ProtocolVersion = wk_protocol_version w,
                    se_ExecutorKinds = wk_executor_kinds w, se_MaxConcurrency = wk_max_concurrency w, se_Status = wk_status w\<rparr>)"

definition DrainWorker :: "time \<Rightarrow> string \<Rightarrow> db \<Rightarrow> (WorkerSummary \<times> db) res" where
  "DrainWorker clock workerID d =
     (case find (\<lambda>w. wk_worker_id w = workerID \<and> (wk_status w = WorkerActive \<or> wk_status w = WorkerDraining)) (db_workers d) of
        None \<Rightarrow> Inl ErrWorkerSessionInvalid
      | Some w \<Rightarrow>
          let nextStatus = (if active_leases d (wk_worker_id w) = 0 then WorkerStopped else WorkerDraining);
              stoppedAt = (if nextStatus = WorkerStopped then Some (timestamptz clock) else None) in
          bindR (update_workers (\<lambda>x. wk_worker_id x = wk_worker_id w)
                   (\<lambda>x. x\<lparr>wk_status := nextStatus, wk_stopped_at := stoppedAt\<rparr>) d) (\<lambda>d'.
          Inr ((summary_of d w)\<lparr>ws_Status := nextStatus, ws_StoppedAt := stoppedAt\<rparr>, d')))"

definition queryWorkerSummaries :: "db \<Rightarrow> string \<Rightarrow> string \<Rightarrow> int \<Rightarrow> bool \<Rightarrow> WorkerSummary list" where
  "queryWorkerSummaries d workerID afterWorkerID limit exact =
     map (summary_of d) (take (nat limit) (order_by wk_worker_id
       (filter (\<lambda>w. exact \<and> wk_worker_id w = workerID \<or> \<not> exact \<and> afterWorkerID < wk_worker_id w) (db_workers d))))"

definition GetWorkerSummary :: "db \<Rightarrow> string \<Rightarrow> WorkerSummary res" where
  "GetWorkerSummary d workerID =
     (case queryWorkerSummaries d workerID '''' 1 True of [] \<Rightarrow> Inl ErrWorkerNotFound | summary # _ \<Rightarrow> Inr summary)"

definition ListWorkerSummaries :: "db \<Rightarrow> string \<Rightarrow> int \<Rightarrow> (WorkerSummary list \<times> bool) res" where
  "ListWorkerSummaries d afterWorkerID limit =
     (if limit \<le> 0 \<or> limit > 100 then Inl (Errorf ''Worker page limit must be between 1 and %d'')
      else
        let summaries = queryWorkerSummaries d '''' afterWorkerID (limit + 1) False; more_rows = length summaries > nat limit in
        Inr (if more_rows then take (nat limit) summaries else summaries, more_rows))"

end
