(* ===== verification/Dispatch_Invariant.thy ===== *)
theory Dispatch_Invariant
  imports Sql_Create Dispatch_Store
begin

text \<open>
  What the rows of \<^verbatim>\<open>task_dispatches\<close> say about the runs: a task that is queued or
  running has exactly one pending or leased dispatch, the lease belongs to the task's last
  attempt, no run is above its concurrency and no worker above its slots. The transactions
  of \<^verbatim>\<open>internal/postgres\<close> change one run and its dispatches at a time; the lemmas
  here say when such a change keeps the invariant.
\<close>

section \<open>Runs and their dispatches\<close>

definition idle :: "TaskStatus \<Rightarrow> bool" where
  "idle status \<longleftrightarrow> status \<noteq> TaskQueued \<and> status \<noteq> TaskRunning"

definition busy :: "TaskRun list \<Rightarrow> nat" where
  "busy ts = length (filter (\<lambda>t. \<not> idle (tr_Status t)) ts)"

definition owner :: "dispatch_row list \<Rightarrow> RunID \<Rightarrow> TaskKey \<Rightarrow> dispatch_row option" where
  "owner rows runID key = find (\<lambda>r. dr_run_id r = runID \<and> dr_task_key r = key \<and> is_active_dispatch r) rows"

definition leased_for :: "dispatch_row \<Rightarrow> Attempt \<Rightarrow> bool" where
  "leased_for r a \<longleftrightarrow>
     dr_attempt_number r = Some (at_Number a) \<and> dr_worker_id r = Some (at_WorkerID a) \<and> dr_dispatch_id r = at_DispatchID a"

definition fits :: "dispatch_row option \<Rightarrow> TaskRun \<Rightarrow> bool" where
  "fits row t \<longleftrightarrow>
     (case row of
        None \<Rightarrow> idle (tr_Status t)
      | Some r \<Rightarrow>
          if dr_status r = DispatchPending then tr_Status t = TaskQueued
          else tr_Status t = TaskRunning \<and> tr_Attempts t \<noteq> [] \<and> leased_for r (last (tr_Attempts t)))"

definition owned :: "dispatch_row list \<Rightarrow> RunID \<Rightarrow> TaskRun list \<Rightarrow> bool" where
  "owned rows runID ts \<longleftrightarrow>
     (\<forall>t \<in> set ts. fits (owner rows runID (tr_Key t)) t) \<and>
     (\<forall>r \<in> set rows. dr_run_id r = runID \<longrightarrow> dr_task_key r \<in> tr_Key ` set ts)"

definition rows_ok :: "dispatch_row list \<Rightarrow> bool" where
  "rows_ok rows \<longleftrightarrow> distinct (map dr_dispatch_id rows) \<and> list_all dispatch_row_ok rows \<and> dispatch_indexes_ok rows"

definition run_good :: "db \<Rightarrow> RunID \<Rightarrow> RunSnapshot \<Rightarrow> CompiledWorkflow \<Rightarrow> bool" where
  "run_good d runID s cw \<longleftrightarrow>
     runID \<noteq> '''' \<and> loadSnapshot d runID = Inr s \<and> as_stored s = s \<and> Compile (cw_definition cw) = Inr cw \<and> run_inv cw s"

definition run_ok :: "db \<Rightarrow> RunID \<Rightarrow> bool" where
  "run_ok d runID \<longleftrightarrow>
     (\<exists>s cw. run_good d runID s cw \<and> owned (db_dispatches d) runID (run_tasks s) \<and>
        int (busy (run_tasks s)) \<le> wd_Concurrency (cw_definition cw))"

definition workers_ok :: "db \<Rightarrow> bool" where
  "workers_ok d \<longleftrightarrow>
     distinct (map wk_worker_id (db_workers d)) \<and> list_all worker_row_ok (db_workers d) \<and>
     list_all (\<lambda>w. active_leases d (wk_worker_id w) \<le> wk_max_concurrency w) (db_workers d) \<and>
     (\<forall>r \<in> set (db_dispatches d). \<forall>w. dr_worker_id r = Some w \<longrightarrow> w \<in> wk_worker_id ` set (db_workers d))"

definition world_ok :: "db \<Rightarrow> bool" where
  "world_ok d \<longleftrightarrow>
     tables_ok d \<and> rows_ok (db_dispatches d) \<and> workers_ok d \<and>
     (\<forall>r \<in> set (db_dispatches d). find_run d (dr_run_id r) \<noteq> None) \<and>
     (\<forall>runID. find_run d runID \<noteq> None \<longrightarrow> run_ok d runID)"

lemma world_okD:
  assumes "world_ok d"
  shows "tables_ok d" and "rows_ok (db_dispatches d)" and "workers_ok d"
    and "r \<in> set (db_dispatches d) \<Longrightarrow> find_run d (dr_run_id r) \<noteq> None"
    and "find_run d runID \<noteq> None \<Longrightarrow> run_ok d runID"
  using assms by (auto simp: world_ok_def)

lemma run_goodD:
  assumes "run_good d runID s cw"
  shows "loadSnapshot d runID = Inr s" and "as_stored s = s" and "wf_compiled cw" and "run_inv cw s"
    and "rs_Definition s = Some (cw_definition cw)" and "Compile (cw_definition cw) = Inr cw"
    and "length (run_tasks s) = task_count cw" and "runID \<noteq> ''''"
  using assms compiled_wf [of "cw_definition cw" cw] shape_length [of cw s] by (auto simp: run_good_def run_inv_def shape_ok_def)

lemma run_good_unique:
  assumes "run_good d runID s cw" and "run_good d runID s' cw'"
  shows "s' = s \<and> cw' = cw"
  using run_goodD(1,5,6) [OF assms(1)] run_goodD(1,5,6) [OF assms(2)] by auto

lemma run_ok_load:
  assumes "run_ok d runID" and "loadSnapshot d runID = Inr s"
  obtains cw where "run_good d runID s cw" "owned (db_dispatches d) runID (run_tasks s)"
    "int (busy (run_tasks s)) \<le> wd_Concurrency (cw_definition cw)"
  using assms by (auto simp: run_ok_def run_good_def)

lemma load_find: "loadSnapshot d runID = Inr s \<Longrightarrow> find_run d runID \<noteq> None"
  by (auto simp: loadSnapshot_def split: option.splits)

text \<open>The unique indexes make the owner of a task a matter of membership.\<close>

lemma distinct_map_unique: "distinct (map f xs) \<Longrightarrow> x \<in> set xs \<Longrightarrow> y \<in> set xs \<Longrightarrow> f x = f y \<Longrightarrow> x = y"
  by (simp add: distinct_map inj_on_def)

lemma find_unique:
  assumes "\<And>x y. x \<in> set xs \<Longrightarrow> y \<in> set xs \<Longrightarrow> P x \<Longrightarrow> P y \<Longrightarrow> x = y"
  shows "find P xs = Some r \<longleftrightarrow> r \<in> set xs \<and> P r"
proof
  assume "find P xs = Some r"
  then show "r \<in> set xs \<and> P r" by (auto simp: find_Some_iff)
next
  assume r: "r \<in> set xs \<and> P r"
  then obtain x where "find P xs = Some x" by (cases "find P xs") (auto simp: find_None_iff)
  then show "find P xs = Some r" using r assms by (auto simp: find_Some_iff)
qed

lemma owner_iff:
  assumes "rows_ok rows"
  shows "owner rows runID key = Some r \<longleftrightarrow> r \<in> set rows \<and> dr_run_id r = runID \<and> dr_task_key r = key \<and> is_active_dispatch r"
proof -
  have "distinct (map (\<lambda>r. (dr_run_id r, dr_task_key r)) (filter is_active_dispatch rows))"
    using assms by (simp add: rows_ok_def dispatch_indexes_ok_def)
  from distinct_map_unique [OF this] show ?thesis unfolding owner_def by (intro find_unique) auto
qed

lemma find_dispatch_iff:
  assumes "rows_ok (db_dispatches d)"
  shows "find_dispatch d dispatchID = Some r \<longleftrightarrow> r \<in> set (db_dispatches d) \<and> dr_dispatch_id r = dispatchID"
proof -
  have "distinct (map dr_dispatch_id (db_dispatches d))" using assms by (simp add: rows_ok_def)
  from distinct_map_unique [OF this] show ?thesis unfolding find_dispatch_def by (intro find_unique) auto
qed

lemma fits_stored [simp]: "fits row (stored_task t) = fits row t"
  by (cases row) (auto simp: fits_def leased_for_def last_map)

lemma owned_stored [simp]: "owned rows runID (map stored_task ts) = owned rows runID ts"
  by (simp add: owned_def image_image)

lemma busy_stored [simp]: "busy (map stored_task ts) = busy ts"
  by (simp add: busy_def filter_map comp_def)

section \<open>Storing a step of a run\<close>

lemma store_change_as:
  assumes t: "tables_ok d" and g: "run_good d runID s cw" and step: "run_step cw s a u"
  obtains c where "changeSetFromSnapshots s (next_revision u) = Inr c" "applyChangeSet s c = Inr (next_revision u)"
    "\<And>e. store_change s u e = applyChangeSetTx c e"
proof -
  note g' = run_goodD [OF g]
  note e = run_step_effect [OF step g'(3,4)]
  have tr: "run_trace cw s [a] u" using step run_trace.intros by blast
  have "upd_run (\<lambda>r. r\<lparr>wr_Revision := wr_Revision (rs_Run s) + 1\<rparr>) u = next_revision u"
    using e by (simp add: next_revision_def evolves_def same_frame_def upd_run_def)
  moreover have "wr_ID (rs_Run s) = runID" "wr_ID (rs_Run (next_revision u)) = runID"
      "wr_Revision (rs_Run (next_revision u)) = wr_Revision (rs_Run s) + 1"
    using e load_keys(2) [OF t g'(1)] by (simp_all add: evolves_def same_frame_def next_revision_def)
  moreover obtain c where c: "changeSetFromSnapshots s (next_revision u) = Inr c" "applyChangeSet s c = Inr (next_revision u)"
    using change_set_round_trip [OF trace_diffable [OF g'(3,4) tr]] by blast
  ultimately have "store_change s u e = applyChangeSetTx c e" for e
    using g'(8) by (simp add: store_change_def Let_def ChangeSetBetween_def)
  with c that show thesis by blast
qed

lemma store_change_step:
  assumes t: "tables_ok d" and g: "run_good d runID s cw" and step: "run_step cw s a u" and st: "store_change s u d = Inr d'"
  shows "tables_ok d'" and "only_run runID d d'" and "run_good d' runID (as_stored (next_revision u)) cw"
proof -
  note g' = run_goodD [OF g]
  note e = run_step_effect [OF step g'(3,4)]
  obtain c where c: "changeSetFromSnapshots s (next_revision u) = Inr c" "applyChangeSet s c = Inr (next_revision u)"
    and tx: "applyChangeSetTx c d = Inr d'"
    using store_change_as [OF t g step] st by metis
  have same: "wr_DefinitionID run = wr_DefinitionID (rs_Run s) \<and> wr_DefinitionVersion run = wr_DefinitionVersion (rs_Run s)"
    if "cs_Run c = Some run" for run
    using c(1) that e by (auto simp: changeSetFromSnapshots_def Let_def bindR_eq_Inr next_revision_def evolves_def same_frame_def split: if_splits)
  note r = apply_tx_refines [OF t g'(1,2) c(2) same tx]
  show "tables_ok d'" "only_run runID d d'" using r by blast+
  show "run_good d' runID (as_stored (next_revision u)) cw"
    using r(3) e g'(3,6,8) run_inv_as_stored [of cw "next_revision u"] stored_idem by (simp add: run_good_def)
qed

lemma run_good_keys:
  assumes "run_good d runID s cw"
  shows "\<forall>k \<in> set (map tr_Key (run_tasks s)). k \<noteq> ''''"
proof -
  note g = run_goodD [OF assms]
  have "\<forall>k \<in> set (map td_Key (wd_Tasks (cw_definition cw))). k \<noteq> ''''"
    using g(6) compile_accepts_iff [of "cw_definition cw"] by (auto simp: definition_ok_def attributes_ok_def identifierPattern_def list_all_iff)
  then show ?thesis using g(4) by (simp only: run_inv_def shape_ok_def)
qed

lemma store_change_returns:
  assumes t: "tables_ok d" and g: "run_good d runID s cw" and step: "run_step cw s a u"
  shows "(\<exists>d'. store_change s u d = Inr d') \<or> refused (store_change s u d)"
proof -
  note g' = run_goodD [OF g]
  obtain c where c: "applyChangeSet s c = Inr (next_revision u)" "store_change s u d = applyChangeSetTx c d"
    using store_change_as [OF t g step] by metis
  then show ?thesis unfolding c(2) using apply_tx_returns [OF t g'(1,2) c(1) g'(8) run_good_keys [OF g]] by metis
qed

section \<open>The tasks a step touches\<close>

fun target :: "run_action \<Rightarrow> nat option" where
  "target (Queue i) = Some i"
| "target (Requeue i) = Some i"
| "target (Start i) = Some i"
| "target (Report i m response) = Some i"
| "target (Interrupt i m) = Some i"
| "target (Timeout i m) = Some i"
| "target (RetryReady i m) = Some i"
| "target CancelRun = None"

definition others_kept :: "nat \<Rightarrow> TaskRun list \<Rightarrow> TaskRun list \<Rightarrow> bool" where
  "others_kept i ts us \<longleftrightarrow>
     length us = length ts \<and> (\<forall>k < length ts. tr_Key (us ! k) = tr_Key (ts ! k)) \<and>
     (\<forall>k < length ts. k \<noteq> i \<longrightarrow> us ! k = ts ! k \<or> idle (tr_Status (ts ! k)) \<and> idle (tr_Status (us ! k)))"

lemma only_stops_idle:
  assumes "only_stops cw i ts us" and "length ts = task_count cw"
  shows "k < length ts \<Longrightarrow> k \<noteq> i \<Longrightarrow> us ! k = ts ! k \<or> idle (tr_Status (ts ! k)) \<and> idle (tr_Status (us ! k))"
    and "idle (tr_Status (us ! i))"
  using assms unfolding only_stops_def idle_def by fastforce+

lemma settled_or_moved:
  assumes wf: "wf_compiled cw" and inv: "run_inv cw s" and tasks: "step_tasks cw s a ts" and a: "target a = Some i"
  shows "only_stops cw i (run_tasks s) ts \<or> (\<exists>t. ts = (run_tasks s)[i := t] \<and>
    ((\<forall>i. a \<noteq> Queue i \<and> a \<noteq> Start i) \<longrightarrow> idle (tr_Status t)))"
proof (cases a)
  case (Report j m response)
  then obtain at where "i = j" "i < task_count cw" "status_of s i = TaskRunning" "ts = result_outcome cw s i m response at"
    using tasks a by (auto simp: is_active_def)
  then show ?thesis using result_only_stops [OF wf inv] by simp
next
  case (Interrupt j m)
  then obtain at res where "i = j" "i < task_count cw" "status_of s i = TaskRunning"
      "ts = retry_outcome cw s i m at (finished AttemptInterrupted at res (run_tasks s ! i))"
    using tasks a by (auto simp: is_active_def)
  then show ?thesis using failure_only_stops(2) [OF wf inv] by simp
next
  case (Timeout j m)
  then obtain at res where "i = j" "i < task_count cw" "status_of s i = TaskRunning"
      "ts = retry_outcome cw s i m at (finished AttemptTimedOut at res (run_tasks s ! i))"
    using tasks a by (auto simp: is_active_def)
  then show ?thesis using failure_only_stops(2) [OF wf inv] by simp
qed (use tasks a in \<open>auto simp: idle_def\<close>)

lemma step_others:
  assumes wf: "wf_compiled cw" and inv: "run_inv cw s" and step: "run_step cw s a u" and a: "target a = Some i"
  shows "others_kept i (run_tasks s) (run_tasks u)" and "i < length (run_tasks s)"
proof -
  note e = run_step_effect [OF step wf inv]
  then have tasks: "step_tasks cw s a (run_tasks u)" and keys: "map tr_Key (run_tasks u) = map tr_Key (run_tasks s)"
    by (simp_all add: evolves_def same_frame_def)
  have len: "length (run_tasks s) = task_count cw" using inv shape_length by (auto simp: run_inv_def)
  have "tr_Key (run_tasks u ! k) = tr_Key (run_tasks s ! k)" if "k < length (run_tasks s)" for k
    using arg_cong [OF keys, of "\<lambda>xs. xs ! k"] that evolves_length [of s u] e by simp
  moreover have "run_tasks u ! k = run_tasks s ! k \<or> idle (status_of s k) \<and> idle (status_of u k)"
    if "k < length (run_tasks s)" "k \<noteq> i" for k
    using settled_or_moved [OF wf inv tasks a]
  proof
    assume "only_stops cw i (run_tasks s) (run_tasks u)"
    from only_stops_idle(1) [OF this len that] show ?thesis .
  qed (use that in auto)
  ultimately show "others_kept i (run_tasks s) (run_tasks u)" using evolves_length e by (simp add: others_kept_def)
  show "i < length (run_tasks s)" using tasks a len by (cases a) auto
qed

lemma step_idle:
  assumes wf: "wf_compiled cw" and inv: "run_inv cw s" and step: "run_step cw s a u" and a: "target a = Some i"
    and "\<forall>i. a \<noteq> Queue i \<and> a \<noteq> Start i"
  shows "idle (status_of u i)"
proof -
  have tasks: "step_tasks cw s a (run_tasks u)" using run_step_effect [OF step wf inv] by simp
  have len: "length (run_tasks s) = task_count cw" using inv shape_length by (auto simp: run_inv_def)
  from settled_or_moved [OF wf inv tasks a] show ?thesis
  proof
    assume "only_stops cw i (run_tasks s) (run_tasks u)"
    from only_stops_idle(2) [OF this len] show ?thesis .
  qed (use step_others(2) [OF wf inv step a] assms(5) in auto)
qed

lemma busy_card: "busy ts = card {k. k < length ts \<and> \<not> idle (tr_Status (ts ! k))}"
  by (simp add: busy_def length_filter_conv_card)

lemma busy_step:
  assumes "others_kept i ts us" and "i < length ts"
  shows "busy us \<le> Suc (busy ts)" and "\<not> idle (tr_Status (ts ! i)) \<or> idle (tr_Status (us ! i)) \<Longrightarrow> busy us \<le> busy ts"
proof -
  have sub: "{k. k < length us \<and> \<not> idle (tr_Status (us ! k))} \<subseteq> insert i {k. k < length ts \<and> \<not> idle (tr_Status (ts ! k))}"
    using assms by (auto simp: others_kept_def)
  show "busy us \<le> Suc (busy ts)"
    unfolding busy_card using card_mono [OF _ sub] by (auto simp: card_insert_if split: if_splits)
  show "busy us \<le> busy ts" if c: "\<not> idle (tr_Status (ts ! i)) \<or> idle (tr_Status (us ! i))"
  proof -
    have "{k. k < length us \<and> \<not> idle (tr_Status (us ! k))} \<subseteq> {k. k < length ts \<and> \<not> idle (tr_Status (ts ! k))}"
      using sub c assms(2) by auto
    then show ?thesis unfolding busy_card by (intro card_mono) auto
  qed
qed

lemma owned_step:
  assumes own: "owned rows runID ts" and keys: "distinct (map tr_Key ts)" and kept: "others_kept i ts us" and i: "i < length ts"
    and same: "\<And>key. key \<noteq> tr_Key (ts ! i) \<Longrightarrow> owner rows' runID key = owner rows runID key"
    and new: "\<And>r. r \<in> set rows' \<Longrightarrow> dr_run_id r = runID \<Longrightarrow>
      (\<exists>x \<in> set rows. dr_run_id x = runID \<and> dr_task_key x = dr_task_key r) \<or> dr_task_key r = tr_Key (ts ! i)"
    and fit: "fits (owner rows' runID (tr_Key (ts ! i))) (us ! i)"
  shows "owned rows' runID us"
  unfolding owned_def
proof (intro conjI ballI impI)
  have len: "length us = length ts" and key: "\<And>k. k < length ts \<Longrightarrow> tr_Key (us ! k) = tr_Key (ts ! k)" using kept by (auto simp: others_kept_def)
  fix t assume "t \<in> set us"
  then obtain k where k: "k < length ts" "t = us ! k" using len by (auto simp: in_set_conv_nth)
  show "fits (owner rows' runID (tr_Key t)) t"
  proof (cases "k = i")
    case True
    with fit k key i show ?thesis by simp
  next
    case False
    with keys k i have "tr_Key (ts ! k) \<noteq> tr_Key (ts ! i)" by (simp add: distinct_conv_nth)
    then have o: "owner rows' runID (tr_Key t) = owner rows runID (tr_Key (ts ! k))" using same k key by simp
    have f: "fits (owner rows runID (tr_Key (ts ! k))) (ts ! k)" using own k(1) by (simp add: owned_def)
    from kept k(1) False have "us ! k = ts ! k \<or> idle (tr_Status (ts ! k)) \<and> idle (tr_Status (us ! k))" by (simp add: others_kept_def)
    then show ?thesis using f o k(2) by (auto simp: fits_def idle_def split: option.splits if_splits)
  qed
next
  have len: "length us = length ts" and key: "\<And>k. k < length ts \<Longrightarrow> tr_Key (us ! k) = tr_Key (ts ! k)" using kept by (auto simp: others_kept_def)
  fix r assume "r \<in> set rows'" "dr_run_id r = runID"
  from new [OF this] have "dr_task_key r \<in> tr_Key ` set ts" using own i unfolding owned_def by (metis image_eqI nth_mem)
  moreover have "map tr_Key us = map tr_Key ts" using len key by (intro nth_equalityI) simp_all
  then have "tr_Key ` set us = tr_Key ` set ts" by (metis set_map)
  ultimately show "dr_task_key r \<in> tr_Key ` set us" by simp
qed

section \<open>Changed dispatch rows\<close>

definition leases :: "dispatch_row list \<Rightarrow> string \<Rightarrow> nat" where
  "leases rows workerID = length (filter (\<lambda>r. dr_worker_id r = Some workerID \<and> dr_status r = DispatchLeased) rows)"

lemma active_leases_rows: "active_leases d workerID = int (leases (db_dispatches d) workerID)"
  by (simp add: active_leases_def leases_def)

lemma update_dispatches_Inr:
  "update_dispatches matching change d = Inr (n, d') \<longleftrightarrow>
     n = length (filter matching (db_dispatches d)) \<and>
     (\<forall>r \<in> set (db_dispatches d). matching r \<longrightarrow> dispatch_row_ok (change r)) \<and>
     dispatch_indexes_ok (sql_update matching change (db_dispatches d)) \<and>
     d' = d\<lparr>db_dispatches := sql_update matching change (db_dispatches d)\<rparr>"
  by (auto simp: update_dispatches_def checked_update_def bindR_eq_Inr list_ex_iff split: if_splits)

lemma sql_update_mem: "x \<in> set (sql_update matching change rows) \<longleftrightarrow> (\<exists>r \<in> set rows. x = (if matching r then change r else r))"
  by (auto simp: sql_update_def)

lemma sql_update_rows_ok:
  assumes "rows_ok rows" and "\<And>r. dr_dispatch_id (change r) = dr_dispatch_id r"
    and "\<forall>r \<in> set rows. matching r \<longrightarrow> dispatch_row_ok (change r)" and "dispatch_indexes_ok (sql_update matching change rows)"
  shows "rows_ok (sql_update matching change rows)"
  using assms by (auto simp: rows_ok_def map_upd_same list_all_iff sql_update_mem)

lemma leases_update:
  assumes "\<And>r. r \<in> set rows \<Longrightarrow> matching r \<Longrightarrow> dr_worker_id (change r) = Some workerID \<Longrightarrow> dr_status (change r) = DispatchLeased \<Longrightarrow>
    dr_worker_id r = Some workerID \<and> dr_status r = DispatchLeased"
  shows "leases (sql_update matching change rows) workerID \<le> leases rows workerID"
  using assms by (induction rows) (auto simp: leases_def sql_update_def)

text \<open>One active row is changed.\<close>

lemma option_eqI: "(\<And>x. a = Some x \<longleftrightarrow> b = Some x) \<Longrightarrow> a = b"
  by (cases a; cases b) auto

lemma owner_update:
  assumes rows: "rows_ok rows" and rows': "rows_ok (sql_update matching change rows)"
    and r: "r \<in> set rows" "is_active_dispatch r" and one: "\<And>x. x \<in> set rows \<Longrightarrow> matching x \<longleftrightarrow> x = r"
    and keep: "\<And>x. dr_run_id (change x) = dr_run_id x" "\<And>x. dr_task_key (change x) = dr_task_key x"
  shows "owner (sql_update matching change rows) runID key =
    (if runID = dr_run_id r \<and> key = dr_task_key r then if is_active_dispatch (change r) then Some (change r) else None
     else owner rows runID key)"
proof (rule option_eqI)
  fix x
  have mem: "y \<in> set (sql_update matching change rows) \<longleftrightarrow> y = change r \<or> y \<in> set rows \<and> y \<noteq> r" for y
    using r one by (auto simp: sql_update_mem)
  have uniq: "y = r" if "y \<in> set rows" "dr_run_id y = dr_run_id r" "dr_task_key y = dr_task_key r" "is_active_dispatch y" for y
    using owner_iff [OF rows, of "dr_run_id r" "dr_task_key r"] that r by (metis option.inject)
  show "owner (sql_update matching change rows) runID key = Some x \<longleftrightarrow>
    (if runID = dr_run_id r \<and> key = dr_task_key r then if is_active_dispatch (change r) then Some (change r) else None
     else owner rows runID key) = Some x"
    using owner_iff [OF rows, of runID key] keep [of r] r uniq by (auto simp: owner_iff [OF rows'] mem)
qed

section \<open>A run and its dispatches change together\<close>

lemma only_runD:
  assumes "only_run runID (d\<lparr>db_dispatches := rows\<rparr>) d'"
  shows "db_dispatches d' = rows" and "db_workers d' = db_workers d" and "db_versions d' = db_versions d"
    and "j \<noteq> runID \<Longrightarrow> find_run d' j = find_run d j" and "j \<noteq> runID \<Longrightarrow> loadSnapshot d' j = loadSnapshot d j"
proof -
  show "db_dispatches d' = rows" "db_workers d' = db_workers d" "db_versions d' = db_versions d"
    using assms by (simp_all add: only_run_def outside_def)
  show "find_run d' j = find_run d j" if "j \<noteq> runID" using assms that by (simp add: only_run_def view_def)
  have "loadSnapshot (d\<lparr>db_dispatches := rows\<rparr>) j = loadSnapshot d j" by (rule load_only_view) (simp_all add: view_def)
  then show "loadSnapshot d' j = loadSnapshot d j" if "j \<noteq> runID" using only_run_load [OF assms that] by simp
qed

lemma only_run_dispatches:
  "only_run runID d d1 \<Longrightarrow> only_run runID (d\<lparr>db_dispatches := rows\<rparr>) (d1\<lparr>db_dispatches := rows\<rparr>)"
  by (simp add: only_run_def outside_def view_def)

lemma dispatches_frame:
  "tables_ok (d\<lparr>db_dispatches := rows\<rparr>) = tables_ok d" "loadSnapshot (d\<lparr>db_dispatches := rows\<rparr>) = loadSnapshot d"
  "run_good (d\<lparr>db_dispatches := rows\<rparr>) = run_good d"
proof -
  show "tables_ok (d\<lparr>db_dispatches := rows\<rparr>) = tables_ok d" by (simp add: tables_ok_def)
  show l: "loadSnapshot (d\<lparr>db_dispatches := rows\<rparr>) = loadSnapshot d"
    by (rule ext, rule load_only_view) (simp_all add: view_def)
  then show "run_good (d\<lparr>db_dispatches := rows\<rparr>) = run_good d" by (simp add: run_good_def fun_eq_iff)
qed

lemma workers_okI:
  assumes "workers_ok d" and "db_workers d' = db_workers d"
    and "\<And>r w. r \<in> set (db_dispatches d') \<Longrightarrow> dr_worker_id r = Some w \<Longrightarrow> w \<in> wk_worker_id ` set (db_workers d)"
    and "\<And>w. w \<in> set (db_workers d) \<Longrightarrow> int (leases (db_dispatches d') (wk_worker_id w)) \<le> wk_max_concurrency w"
  shows "workers_ok d'"
  using assms by (auto simp: workers_ok_def active_leases_rows list_all_iff)

lemma worker_slots:
  "workers_ok d \<Longrightarrow> w \<in> set (db_workers d) \<Longrightarrow> int (leases (db_dispatches d) (wk_worker_id w)) \<le> wk_max_concurrency w"
  by (simp add: workers_ok_def list_all_iff active_leases_rows)

lemma worker_known:
  "workers_ok d \<Longrightarrow> r \<in> set (db_dispatches d) \<Longrightarrow> dr_worker_id r = Some w \<Longrightarrow> w \<in> wk_worker_id ` set (db_workers d)"
  by (auto simp: workers_ok_def)

lemma workers_ok_fewer:
  assumes "workers_ok d" and "db_workers d' = db_workers d"
    and known: "\<And>r w. r \<in> set (db_dispatches d') \<Longrightarrow> dr_worker_id r = Some w \<Longrightarrow> \<exists>x \<in> set (db_dispatches d). dr_worker_id x = Some w"
    and "\<And>w. leases (db_dispatches d') w \<le> leases (db_dispatches d) w"
  shows "workers_ok d'"
proof (rule workers_okI [OF assms(1,2)])
  show "w \<in> wk_worker_id ` set (db_workers d)" if "r \<in> set (db_dispatches d')" "dr_worker_id r = Some w" for r w
    using known [OF that] worker_known [OF assms(1)] by blast
  fix w assume "w \<in> set (db_workers d)"
  then show "int (leases (db_dispatches d') (wk_worker_id w)) \<le> wk_max_concurrency w"
    using worker_slots [OF assms(1)] assms(4) [of "wk_worker_id w"] by fastforce
qed

lemma run_ok_other:
  assumes ok: "run_ok d j" and load: "loadSnapshot d' j = loadSnapshot d j"
    and own: "\<And>key. owner (db_dispatches d') j key = owner (db_dispatches d) j key"
    and ids: "\<And>r. r \<in> set (db_dispatches d') \<Longrightarrow> dr_run_id r = j \<Longrightarrow>
      \<exists>x \<in> set (db_dispatches d). dr_run_id x = j \<and> dr_task_key x = dr_task_key r"
  shows "run_ok d' j"
proof -
  obtain s cw where s: "run_good d j s cw" "owned (db_dispatches d) j (run_tasks s)"
      "int (busy (run_tasks s)) \<le> wd_Concurrency (cw_definition cw)"
    using ok by (auto simp: run_ok_def)
  have "owned (db_dispatches d') j (run_tasks s)" using s(2) own ids unfolding owned_def by metis
  moreover have "run_good d' j s cw" using s(1) load by (simp add: run_good_def)
  ultimately show ?thesis using s(3) run_ok_def by blast
qed

lemma world_step:
  assumes w: "world_ok d" and g: "run_good d runID s cw" and step: "run_step cw s a u" and a: "target a = Some i"
    and key: "key = tr_Key (run_tasks s ! i)" and rows': "rows_ok rows'"
    and t': "tables_ok d'" and only: "only_run runID (d\<lparr>db_dispatches := rows'\<rparr>) d'" and good: "run_good d' runID (as_stored (next_revision u)) cw"
    and own: "\<And>j k. j \<noteq> runID \<or> k \<noteq> key \<Longrightarrow> owner rows' j k = owner (db_dispatches d) j k"
    and ids: "\<And>r. r \<in> set rows' \<Longrightarrow> (\<exists>x \<in> set (db_dispatches d). dr_run_id x = dr_run_id r \<and> dr_task_key x = dr_task_key r) \<or>
      dr_run_id r = runID \<and> dr_task_key r = key"
    and fit: "fits (owner rows' runID key) (run_tasks u ! i)"
    and busy: "int (busy (run_tasks u)) \<le> wd_Concurrency (cw_definition cw)"
    and slots: "\<And>w. w \<in> set (db_workers d) \<Longrightarrow> int (leases rows' (wk_worker_id w)) \<le> wk_max_concurrency w"
    and known: "\<And>r w. r \<in> set rows' \<Longrightarrow> dr_worker_id r = Some w \<Longrightarrow> w \<in> wk_worker_id ` set (db_workers d)"
  shows "world_ok d'"
proof -
  note wd = world_okD [OF w] and o = only_runD [OF only]
  note g' = run_goodD [OF g]
  have runs: "find_run d' j \<noteq> None \<longleftrightarrow> find_run d j \<noteq> None" for j
    using o(4) [of j] load_find [OF run_goodD(1) [OF good]] load_find [OF g'(1)] by (cases "j = runID") auto
  have own_s: "owned (db_dispatches d) runID (run_tasks s)"
    using run_ok_load [OF wd(5) [OF load_find [OF g'(1)]] g'(1)] by metis
  have "owned rows' runID (run_tasks u)"
  proof (rule owned_step [OF own_s load_keys(1) [OF wd(1) g'(1)] step_others [OF g'(3,4) step a]])
    show "fits (owner rows' runID (tr_Key (run_tasks s ! i))) (run_tasks u ! i)" using fit key by simp
    show "owner rows' runID k = owner (db_dispatches d) runID k" if "k \<noteq> tr_Key (run_tasks s ! i)" for k
      using own that key by simp
    show "(\<exists>x \<in> set (db_dispatches d). dr_run_id x = runID \<and> dr_task_key x = dr_task_key r) \<or> dr_task_key r = tr_Key (run_tasks s ! i)"
      if "r \<in> set rows'" "dr_run_id r = runID" for r
      using ids [OF that(1)] that(2) key by auto
  qed
  then have this_run: "run_ok d' runID" unfolding run_ok_def o(1) using good busy by (intro exI [of _ "as_stored (next_revision u)"] exI [of _ cw]) simp
  have other: "run_ok d' j" if j: "j \<noteq> runID" "find_run d j \<noteq> None" for j
  proof (rule run_ok_other [OF wd(5) [OF j(2)] o(5) [OF j(1)]])
    show "owner (db_dispatches d') j k = owner (db_dispatches d) j k" for k using own j(1) o(1) by simp
    show "\<exists>x \<in> set (db_dispatches d). dr_run_id x = j \<and> dr_task_key x = dr_task_key r"
      if "r \<in> set (db_dispatches d')" "dr_run_id r = j" for r
      using ids [of r] that j(1) o(1) by auto
  qed
  have "find_run d (dr_run_id r) \<noteq> None" if "r \<in> set rows'" for r
    using ids [OF that] wd(4) load_find [OF g'(1)] by metis
  moreover have "run_ok d' j" if "find_run d' j \<noteq> None" for j
    using that this_run other [of j] runs [of j] by (cases "j = runID") auto
  moreover have "workers_ok d'" using known slots o(1) by (intro workers_okI [OF wd(3) o(2)]) simp_all
  ultimately show ?thesis using t' rows' runs by (simp add: world_ok_def o(1))
qed

text \<open>An active dispatch of the task is closed as the task leaves its state.\<close>

lemma world_close:
  assumes w: "world_ok d" and g: "run_good d runID s cw" and step: "run_step cw s a u" and a: "target a = Some i"
    "\<forall>i. a \<noteq> Queue i \<and> a \<noteq> Start i"
    and r: "r \<in> set (db_dispatches d)" "is_active_dispatch r" "dr_run_id r = runID" "dr_task_key r = tr_Key (run_tasks s ! i)"
    and st: "store_change s u d = Inr d1" and up: "update_dispatches matching change d1 = Inr (n, d')"
    and one: "\<And>x. x \<in> set (db_dispatches d) \<Longrightarrow> matching x \<longleftrightarrow> x = r"
    and keep: "\<And>x. dr_dispatch_id (change x) = dr_dispatch_id x" "\<And>x. dr_run_id (change x) = dr_run_id x"
      "\<And>x. dr_task_key (change x) = dr_task_key x" "\<And>x. dr_worker_id (change x) = dr_worker_id x"
    and closed: "\<not> is_active_dispatch (change r)"
  shows "world_ok d'" and "run_good d' runID (as_stored (next_revision u)) cw" and "n = 1"
    and "db_dispatches d' = sql_update matching change (db_dispatches d)" and "db_workers d' = db_workers d"
    and "only_run runID (d\<lparr>db_dispatches := db_dispatches d'\<rparr>) d'"
proof -
  note wd = world_okD [OF w] and g' = run_goodD [OF g]
  note d1 = store_change_step [OF wd(1) g step st]
  have rows1: "db_dispatches d1 = db_dispatches d" using d1(2) by (simp add: only_run_def outside_def)
  let ?rows = "sql_update matching change (db_dispatches d)"
  have up': "n = length (filter matching (db_dispatches d))" "\<forall>r \<in> set (db_dispatches d). matching r \<longrightarrow> dispatch_row_ok (change r)"
      "dispatch_indexes_ok ?rows" "d' = d1\<lparr>db_dispatches := ?rows\<rparr>"
    using up unfolding update_dispatches_Inr rows1 by simp_all
  show rows: "db_dispatches d' = ?rows" by (simp add: up'(4))
  have ok: "rows_ok ?rows" by (rule sql_update_rows_ok [OF wd(2) keep(1) up'(2,3)])
  show good: "run_good d' runID (as_stored (next_revision u)) cw" using d1(3) by (simp add: up'(4) dispatches_frame)
  have only: "only_run runID (d\<lparr>db_dispatches := ?rows\<rparr>) d'" using only_run_dispatches [OF d1(2)] up'(4) by simp
  then show "only_run runID (d\<lparr>db_dispatches := db_dispatches d'\<rparr>) d'" using rows by simp
  show "db_workers d' = db_workers d" using only_runD(2) [OF only] .
  have own: "owner ?rows j k = (if j = runID \<and> k = tr_Key (run_tasks s ! i) then None else owner (db_dispatches d) j k)" for j k
    using owner_update [OF wd(2) ok r(1,2) one keep(2,3), of j k] closed r(3,4) by simp
  have kept: "others_kept i (run_tasks s) (run_tasks u)" "i < length (run_tasks s)" using step_others [OF g'(3,4) step a(1)] .
  have idle: "idle (status_of u i)" using step_idle [OF g'(3,4) step a] .
  show "world_ok d'"
  proof (rule world_step [OF w g step a(1) refl ok _ only good])
    show "tables_ok d'" using d1(1) by (simp add: up'(4) dispatches_frame)
    show "owner ?rows j k = owner (db_dispatches d) j k" if "j \<noteq> runID \<or> k \<noteq> tr_Key (run_tasks s ! i)" for j k
      using own that by auto
    show "fits (owner ?rows runID (tr_Key (run_tasks s ! i))) (run_tasks u ! i)" using own idle by (simp add: fits_def)
    have "int (busy (run_tasks s)) \<le> wd_Concurrency (cw_definition cw)"
      using run_ok_load [OF wd(5) [OF load_find [OF g'(1)]] g'(1)] run_good_unique [OF g] by metis
    then show "int (busy (run_tasks u)) \<le> wd_Concurrency (cw_definition cw)" using busy_step(2) [OF kept] idle by simp
    show "(\<exists>x \<in> set (db_dispatches d). dr_run_id x = dr_run_id y \<and> dr_task_key x = dr_task_key y) \<or>
      dr_run_id y = runID \<and> dr_task_key y = tr_Key (run_tasks s ! i)" if "y \<in> set ?rows" for y
      using that keep by (auto simp: sql_update_mem split: if_splits)
    show "wid \<in> wk_worker_id ` set (db_workers d)" if "y \<in> set ?rows" "dr_worker_id y = Some wid" for y wid
      using that keep worker_known [OF wd(3)] by (auto simp: sql_update_mem split: if_splits)
    fix x assume x: "x \<in> set (db_workers d)"
    have "leases ?rows (wk_worker_id x) \<le> leases (db_dispatches d) (wk_worker_id x)"
      using one closed by (intro leases_update) (auto simp: is_active_dispatch_def)
    moreover have "int (leases (db_dispatches d) (wk_worker_id x)) \<le> wk_max_concurrency x"
      by (rule worker_slots [OF wd(3) x])
    ultimately show "int (leases ?rows (wk_worker_id x)) \<le> wk_max_concurrency x" by linarith
  qed
  have "filter matching (db_dispatches d) = filter (\<lambda>x. x = r) (db_dispatches d)" using one by (auto intro: filter_cong)
  moreover have "distinct (db_dispatches d)" using wd(2) by (simp add: rows_ok_def distinct_map)
  ultimately show "n = 1" using up'(1) r(1) by (simp add: distinct_length_filter)
qed

end
