(* ===== verification/Dispatch_Correct.thy ===== *)
theory Dispatch_Correct
  imports Dispatch_Invariant
begin

text \<open>
  The transactions on dispatches keep the invariant, and the checks they make against
  inconsistent rows never fail: a transaction on consistent tables commits, is refused by a
  constraint of a table or fails to draw a random token.
\<close>

section \<open>Outcomes\<close>

definition outcome :: "(werror \<Rightarrow> bool) \<Rightarrow> ('a \<Rightarrow> bool) \<Rightarrow> 'a res \<Rightarrow> bool" where
  "outcome E P r \<longleftrightarrow> (case r of Inl e \<Rightarrow> E e | Inr x \<Rightarrow> P x)"

definition db_error :: "werror \<Rightarrow> bool" where
  "db_error e \<longleftrightarrow> (\<exists>w. e = SqlError w) \<or> e = Errorf ''generate random token: %w''"

lemma outcome_simps [simp]: "outcome E P (Inr x) = P x" "outcome E P (Inl e) = E e" "db_error (SqlError w)"
  by (simp_all add: outcome_def db_error_def)

lemma outcome_bindR: "outcome E P m \<Longrightarrow> (\<And>x. P x \<Longrightarrow> m = Inr x \<Longrightarrow> outcome E Q (f x)) \<Longrightarrow> outcome E Q (bindR m f)"
  by (cases m) auto

lemma outcome_mono: "outcome E P r \<Longrightarrow> (\<And>x. P x \<Longrightarrow> Q x) \<Longrightarrow> outcome E Q r"
  by (cases r) auto

lemma outcome_foldR:
  assumes "P s" and "\<And>x t. x \<in> set xs \<Longrightarrow> P t \<Longrightarrow> outcome E P (f x t)"
  shows "outcome E P (foldR f xs s)"
  using assms
proof (induction xs arbitrary: s)
  case (Cons x xs)
  then have "outcome E P (f x s)" by simp
  then show ?case unfolding foldR.simps by (rule outcome_bindR) (use Cons in auto)
qed simp

lemma outcome_update_dispatches:
  assumes "\<And>n d'. update_dispatches matching change d = Inr (n, d') \<Longrightarrow> P (n, d')"
  shows "outcome db_error P (update_dispatches matching change d)"
  using assms by (cases "update_dispatches matching change d")
    (auto simp: update_dispatches_def checked_update_def bindR_eq_Inl split: if_splits)

lemma outcome_GenerateToken: "outcome db_error (\<lambda>_. True) (GenerateToken random n)"
  by (auto simp: GenerateToken_def db_error_def split: option.splits)

lemma outcome_store_change:
  assumes "tables_ok d" and "run_good d runID s cw" and "run_step cw s a u"
  shows "outcome db_error (\<lambda>d'. store_change s u d = Inr d') (store_change s u d)"
  using store_change_returns [OF assms] by (auto simp: refused_def)

section \<open>Looking a task up\<close>

lemma first_index_cases:
  "first_index P n xs = -1 \<and> (\<forall>x \<in> set xs. \<not> P x) \<or> (\<exists>i < length xs. first_index P n xs = int (n + i) \<and> P (xs ! i))"
proof (induction xs arbitrary: n)
  case (Cons x xs)
  show ?case using Cons [of "Suc n"] by (cases "P x") force+
qed simp

lemma first_index_pos:
  assumes "\<not> first_index P 0 xs < 0"
  obtains i where "i < length xs" "first_index P 0 xs = int i" "P (xs ! i)"
  using first_index_cases [of P 0 xs] assms by auto

lemma taskIndexByKey_eq:
  assumes "distinct (map tr_Key ts)" and "i < length ts" and "key = tr_Key (ts ! i)"
  shows "taskIndexByKey ts key = int i"
  using first_index_cases [of "\<lambda>t. tr_Key t = key" 0 ts] assms
  by (auto simp: taskIndexByKey_def distinct_conv_nth)

text \<open>The task behind an active dispatch.\<close>

lemma active_row_task:
  assumes w: "world_ok d" and r: "r \<in> set (db_dispatches d)" "is_active_dispatch r"
  obtains s cw i where "run_good d (dr_run_id r) s cw" "i < length (run_tasks s)" "dr_task_key r = tr_Key (run_tasks s ! i)"
    "taskIndexByKey (run_tasks s) (dr_task_key r) = int i" "fits (Some r) (run_tasks s ! i)"
    "int (busy (run_tasks s)) \<le> wd_Concurrency (cw_definition cw)"
proof -
  note wd = world_okD [OF w]
  obtain s cw where s: "run_good d (dr_run_id r) s cw" "owned (db_dispatches d) (dr_run_id r) (run_tasks s)"
      "int (busy (run_tasks s)) \<le> wd_Concurrency (cw_definition cw)"
    using wd(5) [OF wd(4) [OF r(1)]] by (auto simp: run_ok_def)
  then have "dr_task_key r \<in> tr_Key ` set (run_tasks s)" using r(1) by (simp add: owned_def)
  then obtain i where i: "i < length (run_tasks s)" "dr_task_key r = tr_Key (run_tasks s ! i)" by (auto simp: in_set_conv_nth)
  have "owner (db_dispatches d) (dr_run_id r) (dr_task_key r) = Some r" using owner_iff [OF wd(2)] r by blast
  then have "fits (Some r) (run_tasks s ! i)" using s(2) i by (simp add: owned_def) (metis nth_mem)
  with s i taskIndexByKey_eq [OF load_keys(1) [OF wd(1) run_goodD(1) [OF s(1)]] i] that show thesis by blast
qed

lemma row_by_id:
  assumes "world_ok d" and "r \<in> set (db_dispatches d)" and "x \<in> set (db_dispatches d)"
  shows "dr_dispatch_id x = dr_dispatch_id r \<longleftrightarrow> x = r"
  using assms find_dispatch_iff [OF world_okD(2) [OF assms(1)]] by (metis option.inject)

text \<open>Storing a step and closing the dispatch behind it, as three transactions end.\<close>

lemma outcome_close:
  assumes w: "world_ok d" and g: "run_good d runID s cw" and step: "run_step cw s a u" and a: "target a = Some i"
    "\<forall>i. a \<noteq> Queue i \<and> a \<noteq> Start i"
    and r: "r \<in> set (db_dispatches d)" "is_active_dispatch r" "dr_run_id r = runID" "dr_task_key r = tr_Key (run_tasks s ! i)"
    and one: "\<And>x. x \<in> set (db_dispatches d) \<Longrightarrow> matching x \<longleftrightarrow> x = r"
    and keep: "\<And>x. dr_dispatch_id (change x) = dr_dispatch_id x" "\<And>x. dr_run_id (change x) = dr_run_id x"
      "\<And>x. dr_task_key (change x) = dr_task_key x" "\<And>x. dr_worker_id (change x) = dr_worker_id x"
    and closed: "\<not> is_active_dispatch (change r)"
    and P: "\<And>d'. world_ok d' \<Longrightarrow> run_good d' runID (as_stored (next_revision u)) cw \<Longrightarrow>
      db_dispatches d' = sql_update matching change (db_dispatches d) \<Longrightarrow> db_workers d' = db_workers d \<Longrightarrow>
      only_run runID (d\<lparr>db_dispatches := db_dispatches d'\<rparr>) d' \<Longrightarrow> P (f d')"
  shows "outcome db_error P (bindR (store_change s u d) (\<lambda>d. bindR (update_dispatches matching change d) (\<lambda>(n, d).
    if n \<noteq> 1 then Inl e else Inr (f d))))"
proof (rule outcome_bindR [OF outcome_store_change [OF world_okD(1) [OF w] g step]])
  fix d1 assume st: "store_change s u d = Inr d1"
  show "outcome db_error P (bindR (update_dispatches matching change d1) (\<lambda>(n, d). if n \<noteq> 1 then Inl e else Inr (f d)))"
  proof (rule outcome_bindR [where P = "\<lambda>(n, d'). update_dispatches matching change d1 = Inr (n, d')"])
    show "outcome db_error (\<lambda>(n, d'). update_dispatches matching change d1 = Inr (n, d')) (update_dispatches matching change d1)"
      by (rule outcome_update_dispatches) simp
  next
    fix q assume "case q of (n, d') \<Rightarrow> update_dispatches matching change d1 = Inr (n, d')"
    then obtain n d' where q: "q = (n, d')" and up: "update_dispatches matching change d1 = Inr (n, d')" by (cases q) auto
    note c = world_close [OF w g step a r st up one keep closed]
    show "outcome db_error P (case q of (n, d) \<Rightarrow> if n \<noteq> 1 then Inl e else Inr (f d))"
      using P [OF c(1,2,4-6)] c(3) by (simp add: q)
  qed
qed

section \<open>Returning orphaned dispatches and promoting retries\<close>

definition ident :: "dispatch_row \<Rightarrow> string \<times> RunID \<times> TaskKey" where
  "ident r = (dr_dispatch_id r, dr_run_id r, dr_task_key r)"

lemma ident_update: "(\<And>x. ident (change x) = ident x) \<Longrightarrow> map ident (sql_update matching change rows) = map ident rows"
  by (rule map_upd_same)

lemma known_row:
  assumes w: "world_ok d" and item: "ident item \<in> ident ` set (db_dispatches d)"
  obtains row where "row \<in> set (db_dispatches d)" "find_dispatch d (dr_dispatch_id item) = Some row"
    "dr_dispatch_id row = dr_dispatch_id item" "dr_run_id row = dr_run_id item" "dr_task_key row = dr_task_key item"
proof -
  obtain row where "row \<in> set (db_dispatches d)" "ident row = ident item" using item by force
  then show thesis using that [of row] find_dispatch_iff [OF world_okD(2) [OF w]] by (simp add: ident_def)
qed

lemma returnOrphan_outcome:
  assumes w: "world_ok d" and item: "ident item \<in> ident ` set (db_dispatches d)"
  shows "outcome db_error (\<lambda>d'. world_ok d' \<and> map ident (db_dispatches d') = map ident (db_dispatches d)) (returnOrphan at item d)"
proof -
  obtain row where row: "row \<in> set (db_dispatches d)" "find_dispatch d (dr_dispatch_id item) = Some row"
      "dr_dispatch_id row = dr_dispatch_id item" "dr_run_id row = dr_run_id item" "dr_task_key row = dr_task_key item"
    using known_row [OF w item] .
  have run: "find_run d (dr_run_id item) \<noteq> None" using world_okD(4) [OF w row(1)] row(4) by simp
  show ?thesis
  proof (cases "dr_status row = DispatchPending")
    case False
    then show ?thesis using run row(2) w by (auto simp: returnOrphan_def)
  next
    case pend: True
    then have act: "is_active_dispatch row" by (simp add: is_active_dispatch_def)
    obtain s cw i where s: "run_good d (dr_run_id item) s cw" "i < length (run_tasks s)" "dr_task_key row = tr_Key (run_tasks s ! i)"
        "taskIndexByKey (run_tasks s) (dr_task_key row) = int i" "fits (Some row) (run_tasks s ! i)"
      using active_row_task [OF w row(1) act] unfolding row(4) by metis
    note g = run_goodD [OF s(1)]
    have q: "status_of s i = TaskQueued" using s(5) pend by (simp add: fits_def)
    obtain u where u: "ReturnQueuedTaskToReady s (int i) at ''no compatible active Worker'' = Inr u"
      using ReturnQueuedTaskToReady_returns [OF g(3,4) _ q] s(2) g(7) by metis
    have eq: "returnOrphan at item d = bindR (store_change s u d) (\<lambda>d.
      bindR (update_dispatches (\<lambda>r. dr_dispatch_id r = dr_dispatch_id item \<and> dr_status r = DispatchPending)
               (\<lambda>r. r\<lparr>dr_status := DispatchCanceled, dr_completed_at := Some at\<rparr>) d) (\<lambda>(n, d).
      if n \<noteq> 1 then Inl (Errorf ''orphaned pending Dispatch %s changed concurrently'') else Inr d))"
      using run row(2) pend g(1) s(4) q u by (auto simp: returnOrphan_def)
    show ?thesis unfolding eq
    proof (rule outcome_close [OF w s(1) requeue [OF q u] _ _ row(1) act row(4) s(3)])
      show "dr_dispatch_id x = dr_dispatch_id item \<and> dr_status x = DispatchPending \<longleftrightarrow> x = row" if "x \<in> set (db_dispatches d)" for x
        using row_by_id [OF w row(1) that] row(3) pend by auto
    qed (simp_all add: is_active_dispatch_def ident_update ident_def)
  qed
qed

lemma returnOrphans_outcome:
  assumes w: "world_ok d"
  shows "outcome db_error world_ok (returnOrphanedPendingDispatches at limit d)"
  unfolding returnOrphanedPendingDispatches_def Let_def
proof (rule outcome_mono)
  let ?xs = "take (nat limit) (order_by dr_created_at (order_by dr_dispatch_id (filter (\<lambda>r. dr_status r = DispatchPending \<and>
               (case find_run d (dr_run_id r) of None \<Rightarrow> False | Some run \<Rightarrow> rr_cancel_requested_at run = None) \<and>
               \<not> list_ex (\<lambda>w. wk_status w = WorkerActive \<and> dr_executor_kind r \<in> set (wk_executor_kinds w)) (db_workers d))
             (db_dispatches d))))"
  show "outcome db_error (\<lambda>e. world_ok e \<and> map ident (db_dispatches e) = map ident (db_dispatches d)) (foldR (returnOrphan at) ?xs d)"
  proof (rule outcome_foldR)
    fix x e assume x: "x \<in> set ?xs" and e: "world_ok e \<and> map ident (db_dispatches e) = map ident (db_dispatches d)"
    from e have eq: "ident ` set (db_dispatches e) = ident ` set (db_dispatches d)" by (metis set_map)
    have "x \<in> set (db_dispatches d)" using x by (auto dest!: in_set_takeD simp: order_by_def)
    then have "ident x \<in> ident ` set (db_dispatches e)" unfolding eq by simp
    with e show "outcome db_error (\<lambda>e. world_ok e \<and> map ident (db_dispatches e) = map ident (db_dispatches d)) (returnOrphan at x e)"
      using returnOrphan_outcome [of e x at] by simp
  qed (use w in simp)
qed simp

lemma last_number:
  assumes "run_inv cw s" and "i < task_count cw" and "tr_Attempts (run_tasks s ! i) \<noteq> []"
  shows "at_Number (last (tr_Attempts (run_tasks s ! i))) = int (length (tr_Attempts (run_tasks s ! i)))"
proof -
  let ?as = "tr_Attempts (run_tasks s ! i)"
  have "map at_Number ?as = map int [1 ..< Suc (length ?as)]"
    using run_inv_task(1) [OF assms(1,2)] by (simp add: history_ok_def Let_def del: upt_Suc)
  from arg_cong [OF this, of last] assms(3) show ?thesis by (cases "length ?as") (simp_all add: last_map)
qed

definition same_runs :: "db \<Rightarrow> db \<Rightarrow> bool" where
  "same_runs d d' \<longleftrightarrow> (\<forall>j. (find_run d' j = None) = (find_run d j = None))"

lemma only_run_same_runs:
  assumes "only_run runID (d\<lparr>db_dispatches := rows\<rparr>) d'" and "find_run d runID \<noteq> None" and "find_run d' runID \<noteq> None"
  shows "same_runs d d'"
  unfolding same_runs_def
proof
  fix j show "(find_run d' j = None) = (find_run d j = None)"
    using only_runD(4) [OF assms(1), of j] assms(2,3) by (cases "j = runID") auto
qed

lemma promoteRetry_outcome:
  assumes w: "world_ok d" and run: "find_run d runID \<noteq> None"
  shows "outcome db_error (\<lambda>d'. world_ok d' \<and> same_runs d d') (promoteRetry at runID d)"
proof -
  note wd = world_okD [OF w]
  obtain s cw where s: "run_good d runID s cw" "owned (db_dispatches d) runID (run_tasks s)"
      "int (busy (run_tasks s)) \<le> wd_Concurrency (cw_definition cw)"
    using wd(5) [OF run] by (auto simp: run_ok_def)
  note g = run_goodD [OF s(1)]
  show ?thesis
  proof (cases "firstDueRetry (run_tasks s) at < 0")
    case True
    then show ?thesis using g(1) w by (simp add: promoteRetry_def same_runs_def)
  next
    case False
    then obtain i where i: "i < length (run_tasks s)" "firstDueRetry (run_tasks s) at = int i" "status_of s i = TaskWaitingRetry"
        "case tr_ReadyAt (run_tasks s ! i) of None \<Rightarrow> False | Some r \<Rightarrow> \<not> at < r"
      unfolding firstDueRetry_def by (rule first_index_pos) auto
    have ne: "tr_Attempts (run_tasks s ! i) \<noteq> []"
      using run_inv_task(1) [OF g(4), of i] i g(7) by (auto simp: history_ok_def Let_def)
    let ?m = "at_Number (last (tr_Attempts (run_tasks s ! i)))"
    have due: "retry_due s i ?m at"
      using i last_number [OF g(4) _ ne] g(7) by (auto simp: retry_due_def not_less split: option.splits)
    then obtain u where u: "MakeRetryReady s (int i) ?m at = Inr (True, u)"
      using MakeRetryReady_returns [OF g(3,4)] i(1) g(7) by metis
    note step = retry_ready [OF u, of cw]
    have eq: "promoteRetry at runID d = store_change s u d" using g(1) i(2) ne u by (simp add: promoteRetry_def)
    show ?thesis unfolding eq
    proof (rule outcome_mono [OF outcome_store_change [OF wd(1) s(1) step]])
      fix d' assume st: "store_change s u d = Inr d'"
      note d' = store_change_step [OF wd(1) s(1) step st]
      have only: "only_run runID (d\<lparr>db_dispatches := db_dispatches d\<rparr>) d'" using d'(2) by simp
      have kept: "others_kept i (run_tasks s) (run_tasks u)" using step_others(1) [OF g(3,4) step] by simp
      have idle: "idle (status_of u i)" using step_idle [OF g(3,4) step, of i] by simp
      have "fits (owner (db_dispatches d) runID (tr_Key (run_tasks s ! i))) (run_tasks s ! i)" using s(2) i(1) by (simp add: owned_def)
      then have own: "owner (db_dispatches d) runID (tr_Key (run_tasks s ! i)) = None"
        using i(3) by (auto simp: fits_def split: option.splits if_splits)
      have "world_ok d'"
      proof (rule world_step [OF w s(1) step _ refl wd(2) d'(1) only d'(3)])
        show "fits (owner (db_dispatches d) runID (tr_Key (run_tasks s ! i))) (run_tasks u ! i)" using own idle by (simp add: fits_def)
        show "int (busy (run_tasks u)) \<le> wd_Concurrency (cw_definition cw)" using busy_step(2) [OF kept i(1)] idle s(3) by simp
        show "int (leases (db_dispatches d) (wk_worker_id x)) \<le> wk_max_concurrency x" if "x \<in> set (db_workers d)" for x
          by (rule worker_slots [OF wd(3) that])
        show "wid \<in> wk_worker_id ` set (db_workers d)" if "r \<in> set (db_dispatches d)" "dr_worker_id r = Some wid" for r wid
          by (rule worker_known [OF wd(3) that])
      qed auto
      then show "world_ok d' \<and> same_runs d d'"
        using only_run_same_runs [OF only run load_find [OF run_goodD(1) [OF d'(3)]]] by simp
    qed
  qed
qed

lemma same_runs_trans: "same_runs d e \<Longrightarrow> same_runs e f \<Longrightarrow> same_runs d f"
  by (simp add: same_runs_def)

lemma find_run_mem: "r \<in> set (db_runs d) \<Longrightarrow> find_run d (rr_run_id r) \<noteq> None"
  by (auto simp: find_run_def find_None_iff)

lemma promoteDueRetries_outcome:
  assumes w: "world_ok d"
  shows "outcome db_error world_ok (promoteDueRetries skip at limit d)"
  unfolding promoteDueRetries_def Let_def
proof (rule outcome_mono)
  let ?xs = "map rr_run_id (take (nat limit) (order_by rr_created_at (order_by rr_run_id
            (filter (\<lambda>r. is_live_run r \<and> \<not> skip (rr_run_id r) \<and>
               list_ex (\<lambda>t. tk_run_id t = rr_run_id r \<and> tk_status t = TaskWaitingRetry \<and>
                  (case tk_ready_at t of None \<Rightarrow> False | Some ready \<Rightarrow> ready \<le> at)) (db_tasks d))
             (db_runs d)))))"
  show "outcome db_error (\<lambda>e. world_ok e \<and> same_runs d e) (foldR (promoteRetry at) ?xs d)"
  proof (rule outcome_foldR)
    fix x e assume x: "x \<in> set ?xs" and e: "world_ok e \<and> same_runs d e"
    have "find_run d x \<noteq> None" using x find_run_mem by (auto dest!: in_set_takeD simp: order_by_def)
    then have run: "find_run e x \<noteq> None" using e by (simp add: same_runs_def)
    show "outcome db_error (\<lambda>e. world_ok e \<and> same_runs d e) (promoteRetry at x e)"
      using e same_runs_trans by (intro outcome_mono [OF promoteRetry_outcome [OF conjunct1 [OF e] run]]) blast
  qed (use w in \<open>simp add: same_runs_def\<close>)
qed simp

section \<open>Creating dispatches\<close>

lemma outcome_foldR_rest:
  assumes "Q xs s" and "\<And>x xs t. Q (x # xs) t \<Longrightarrow> outcome E (Q xs) (f x t)"
  shows "outcome E (Q []) (foldR f xs s)"
  using assms(1)
proof (induction xs arbitrary: s)
  case (Cons x xs)
  from assms(2) [OF Cons.prems] show ?case unfolding foldR.simps by (rule outcome_bindR) (rule Cons.IH)
qed simp

text \<open>A run below its concurrency, in the tables and in the snapshot.\<close>

definition room :: "db \<Rightarrow> RunID \<Rightarrow> bool" where
  "room d runID \<longleftrightarrow> (\<exists>s cw. run_good d runID s cw \<and> int (busy (run_tasks s)) < wd_Concurrency (cw_definition cw))"

lemma compile_head:
  assumes "Compile def = Inr cw"
  shows "wd_ID (cw_definition cw) = wd_ID def" and "wd_Concurrency (cw_definition cw) = wd_Concurrency def"
  using assms by (auto simp: Compile_def cloneDefinition_def bindR_eq_Inr Let_def split: if_splits prod.splits)

lemma active_tasks_busy:
  assumes t: "tables_ok d" and l: "loadSnapshot d runID = Inr s"
  shows "active_tasks d runID = int (busy (run_tasks s))"
proof -
  obtain r cw where "s = loaded d runID r cw" using l load_iff [OF t] by metis
  then have s: "run_tasks s = map (loaded_task d runID) (task_rows d runID)" by (simp add: loaded_def)
  have "tr_Status (loaded_task d runID x) = tk_status x" for x by (simp add: loaded_task_def task_of_row_def)
  then have "busy (run_tasks s) = length (filter (\<lambda>x. \<not> idle (tk_status x)) (task_rows d runID))" by (simp add: s busy_def filter_map comp_def)
  also have "\<dots> = length (filter (\<lambda>x. \<not> idle (tk_status x)) (filter (\<lambda>x. tk_run_id x = runID) (db_tasks d)))"
    by (simp add: task_rows_def length_filter_order_by)
  finally show ?thesis by (simp add: active_tasks_def idle_def conj_commute)
qed

lemma run_concurrency_eq:
  assumes t: "tables_ok d" and g: "run_good d runID s cw" and r: "find_run d runID = Some r"
  shows "run_concurrency d r = Some (wd_Concurrency (cw_definition cw))"
proof -
  obtain r' cw' where ld: "loadable d runID r' cw'" and s: "s = loaded d runID r' cw'" using run_goodD(1) [OF g] load_iff [OF t] by metis
  then obtain v where v: "find_version d (rr_workflow_id r) (rr_workflow_version r) = Some v" "Compile (ve_definition v) = Inr cw'"
    using r by (auto simp: loadable_def)
  have "cw_definition cw = cw_definition cw'" using run_goodD(5) [OF g] by (simp add: s loaded_def)
  then show ?thesis using v compile_head(2) [OF v(2)] by (simp add: run_concurrency_def)
qed

lemma candidates_room:
  assumes w: "world_ok d" and c: "dispatch_candidates skip available d = Inr runIDs"
  shows "distinct runIDs" and "\<forall>j \<in> set runIDs. room d j"
proof -
  let ?ok = "\<lambda>r. is_live_run r \<and> run_concurrency d r \<noteq> None \<and> list_ex (\<lambda>t. tk_run_id t = rr_run_id r \<and> tk_status t = TaskReady) (db_tasks d)"
  let ?rows = "filter (\<lambda>r. \<not> skip (rr_run_id r) \<and> active_tasks d (rr_run_id r) < the (run_concurrency d r)) (filter ?ok (db_runs d))"
  obtain rows where rows: "runIDs = map rr_run_id (take (nat available) rows)" "mset rows = mset ?rows"
  proof (rule that)
    show "runIDs = map rr_run_id (take (nat available)
           (order_by (\<lambda>r. if previous_dispatch d (rr_run_id r) = None then 0 else 1 :: nat)
             (order_by (\<lambda>r. case previous_dispatch d (rr_run_id r) of None \<Rightarrow> 0 | Some t \<Rightarrow> t)
               (order_by rr_created_at (order_by rr_run_id ?rows)))))"
      using c unfolding dispatch_candidates_def Let_def by (simp only: split: if_splits) simp_all
  qed (simp only: order_by_mset)
  note wd = world_okD [OF w]
  have dist: "distinct (map rr_run_id ?rows)" using wd(1) by (simp add: tables_ok_def distinct_map_filter)
  have "mset (map rr_run_id rows) = mset (map rr_run_id ?rows)" by (simp only: mset_map rows(2))
  from iffD2 [OF mset_eq_imp_distinct_iff [OF this] dist] have "distinct (map rr_run_id rows)" .
  then show "distinct runIDs" unfolding rows(1) take_map [symmetric] by simp
  show "\<forall>j \<in> set runIDs. room d j"
  proof
    fix j assume "j \<in> set runIDs"
    then obtain r where "r \<in> set rows" "j = rr_run_id r" using rows(1) by (auto dest: in_set_takeD)
    moreover from this have "r \<in> set ?rows" using mset_eq_setD [OF rows(2)] by simp
    ultimately have r: "r \<in> set (db_runs d)" "rr_run_id r = j" "active_tasks d j < the (run_concurrency d r)" by auto
    have fr: "find_run d j = Some r" using find_run_unique [OF wd(1) r(1)] r(2) by simp
    then obtain s cw where g: "run_good d j s cw" using wd(5) [of j] by (auto simp: run_ok_def)
    show "room d j"
      unfolding room_def using g r(3) run_concurrency_eq [OF wd(1) g fr] active_tasks_busy [OF wd(1) run_goodD(1) [OF g]] by auto
  qed
qed

lemma insert_dispatch_rows:
  assumes rows: "rows_ok (db_dispatches d)" and ins: "insert_dispatch row d = Inr d'" and pend: "is_active_dispatch row"
  shows "d' = d\<lparr>db_dispatches := db_dispatches d @ [row]\<rparr>" and "rows_ok (db_dispatches d @ [row])"
    and "owner (db_dispatches d @ [row]) j k = (if j = dr_run_id row \<and> k = dr_task_key row then Some row else owner (db_dispatches d) j k)"
proof -
  have i: "dispatch_row_ok row" "find_dispatch d (dr_dispatch_id row) = None" "dispatch_indexes_ok (db_dispatches d @ [row])"
    and d': "d' = d\<lparr>db_dispatches := db_dispatches d @ [row]\<rparr>"
    using ins by (auto simp: insert_dispatch_def split: if_splits)
  show "d' = d\<lparr>db_dispatches := db_dispatches d @ [row]\<rparr>" by fact
  have "dr_dispatch_id row \<notin> set (map dr_dispatch_id (db_dispatches d))" using i(2) by (auto simp: find_dispatch_def find_None_iff)
  then show rows': "rows_ok (db_dispatches d @ [row])" using rows i by (simp add: rows_ok_def)
  show "owner (db_dispatches d @ [row]) j k = (if j = dr_run_id row \<and> k = dr_task_key row then Some row else owner (db_dispatches d) j k)"
  proof (rule option_eqI)
    fix x
    have uniq: "owner (db_dispatches d @ [row]) (dr_run_id row) (dr_task_key row) = Some row" using owner_iff [OF rows'] pend by simp
    show "owner (db_dispatches d @ [row]) j k = Some x \<longleftrightarrow>
      (if j = dr_run_id row \<and> k = dr_task_key row then Some row else owner (db_dispatches d) j k) = Some x"
    proof (cases "j = dr_run_id row \<and> k = dr_task_key row")
      case True
      then show ?thesis using uniq by simp
    next
      case False
      then show ?thesis using owner_iff [OF rows', of j k x] owner_iff [OF rows, of j k x] by auto
    qed
  qed
qed

lemma queue_world:
  assumes w: "world_ok d" and g: "run_good d runID s cw" and i: "i < length (run_tasks s)" and step: "run_step cw s (Queue i) u"
    and room: "int (busy (run_tasks s)) < wd_Concurrency (cw_definition cw)"
    and row: "row = pending_dispatch dispatchID runID (tr_Key (run_tasks s ! i)) kind now"
    and ins: "insert_dispatch row d = Inr d1" and st: "store_change s u d1 = Inr d'"
  shows "world_ok d'" and "only_run runID (d\<lparr>db_dispatches := db_dispatches d @ [row]\<rparr>) d'"
    and "run_good d' runID (as_stored (next_revision u)) cw"
proof -
  note wd = world_okD [OF w] and g' = run_goodD [OF g]
  have row': "is_active_dispatch row" "dr_run_id row = runID" "dr_task_key row = tr_Key (run_tasks s ! i)" "dr_status row = DispatchPending"
    by (simp_all add: row pending_dispatch_def is_active_dispatch_def)
  note d1 = insert_dispatch_rows [OF wd(2) ins row'(1)]
  have g1: "tables_ok d1" "run_good d1 runID s cw" using wd(1) g by (simp_all add: d1(1) dispatches_frame)
  note d' = store_change_step [OF g1 step st]
  show only: "only_run runID (d\<lparr>db_dispatches := db_dispatches d @ [row]\<rparr>) d'" using d'(2) by (simp add: d1(1))
  show "run_good d' runID (as_stored (next_revision u)) cw" by (rule d'(3))
  have kept: "others_kept i (run_tasks s) (run_tasks u)" using step_others(1) [OF g'(3,4) step] by simp
  have q: "status_of u i = TaskQueued"
    using run_step_effect [OF step g'(3,4)] i by auto
  show "world_ok d'"
  proof (rule world_step [OF w g step _ refl d1(2) d'(1) only d'(3)])
    show "fits (owner (db_dispatches d @ [row]) runID (tr_Key (run_tasks s ! i))) (run_tasks u ! i)"
      using d1(3) row' q by (simp add: fits_def)
    show "int (busy (run_tasks u)) \<le> wd_Concurrency (cw_definition cw)" using busy_step(1) [OF kept i] room by linarith
    show "int (leases (db_dispatches d @ [row]) (wk_worker_id x)) \<le> wk_max_concurrency x" if "x \<in> set (db_workers d)" for x
      using worker_slots [OF wd(3) that] row'(4) by (simp add: leases_def)
    show "wid \<in> wk_worker_id ` set (db_workers d)" if "r \<in> set (db_dispatches d @ [row])" "dr_worker_id r = Some wid" for r wid
      using that worker_known [OF wd(3)] by (auto simp: row pending_dispatch_def)
    show "owner (db_dispatches d @ [row]) j k = owner (db_dispatches d) j k" if "j \<noteq> runID \<or> k \<noteq> tr_Key (run_tasks s ! i)" for j k
      using d1(3) row' that by auto
  qed (use row' in auto)
qed

lemma queue_outcome:
  assumes w: "world_ok d" and g: "run_good d runID s cw" and i: "i < length (run_tasks s)" and u: "QueueTask s (int i) now = Inr u"
    and room: "int (busy (run_tasks s)) < wd_Concurrency (cw_definition cw)"
    and P: "\<And>d'. world_ok d' \<Longrightarrow> (\<And>j. j \<noteq> runID \<Longrightarrow> room d j \<Longrightarrow> room d' j) \<Longrightarrow> P (f d')"
  shows "outcome db_error P (bindR (insert_dispatch (pending_dispatch dispatchID runID (tr_Key (run_tasks s ! i)) kind now) d) (\<lambda>d.
    bindR (store_change s u d) (\<lambda>d. Inr (f d))))" (is "outcome _ _ (bindR (insert_dispatch ?row d) _)")
proof (rule outcome_bindR [where P = "\<lambda>d1. insert_dispatch ?row d = Inr d1"])
  show "outcome db_error (\<lambda>d1. insert_dispatch ?row d = Inr d1) (insert_dispatch ?row d)"
    by (auto simp: insert_dispatch_def)
next
  note wd = world_okD [OF w]
  fix d1 assume ins: "insert_dispatch ?row d = Inr d1"
  have act: "is_active_dispatch ?row" by (simp add: pending_dispatch_def is_active_dispatch_def)
  have "tables_ok d1" "run_good d1 runID s cw"
    using insert_dispatch_rows(1) [OF wd(2) ins act] wd(1) g by (simp_all add: dispatches_frame)
  from outcome_store_change [OF this queue [OF u]]
  show "outcome db_error P (bindR (store_change s u d1) (\<lambda>d. Inr (f d)))"
  proof (rule outcome_bindR)
    fix d' assume st: "store_change s u d1 = Inr d'"
    note d' = queue_world [OF w g i queue [OF u] room refl ins st]
    have "room d' j" if "j \<noteq> runID" "room d j" for j
      using only_runD(5) [OF d'(2) that(1)] that(2) by (simp add: run_good_def room_def)
    then show "outcome db_error P (Inr (f d'))" using P [OF d'(1)] by simp
  qed
qed

definition queueable :: "RunID list \<Rightarrow> int \<times> (ExecutorKind \<times> int) list \<times> db \<Rightarrow> bool" where
  "queueable runIDs = (\<lambda>(created, capacity, d). world_ok d \<and> distinct runIDs \<and> (\<forall>j \<in> set runIDs. room d j))"

lemma createDispatch_outcome:
  assumes "queueable (runID # runIDs) q"
  shows "outcome db_error (queueable runIDs) (createDispatch random now available runID q)"
proof -
  obtain created capacity d where q: "q = (created, capacity, d)" by (cases q)
  have w: "world_ok d" and dist: "runID \<notin> set runIDs" "distinct runIDs" and rooms: "\<forall>j \<in> set runIDs. room d j" and "room d runID"
    using assms by (auto simp: queueable_def q)
  then obtain s cw where g: "run_good d runID s cw" and room: "int (busy (run_tasks s)) < wd_Concurrency (cw_definition cw)"
    by (auto simp: room_def)
  note g' = run_goodD [OF g] and wd = world_okD [OF w]
  have same: "outcome db_error (queueable runIDs) (Inr (created, capacity, d))" using w dist rooms by (simp add: queueable_def)
  show ?thesis
  proof (cases "available \<le> created \<or> firstTaskWithStatus (run_tasks s) TaskReady < 0")
    case True
    then show ?thesis using same g'(1) by (auto simp: createDispatch_def q)
  next
    case False
    then obtain i where i: "i < length (run_tasks s)" "firstTaskWithStatus (run_tasks s) TaskReady = int i" "status_of s i = TaskReady"
      unfolding firstTaskWithStatus_def by (auto elim: first_index_pos)
    let ?kind = "td_Executor (wd_Tasks (cw_definition cw) ! i)"
    have len: "\<not> length (wd_Tasks (cw_definition cw)) \<le> i" using i(1) g'(7) by simp
    obtain u where u: "QueueTask s (int i) now = Inr u" using QueueTask_returns [OF g'(3,4) _ i(3)] i(1) g'(7) by metis
    show ?thesis
    proof (cases "capacity_of capacity ?kind \<le> 0")
      case True
      then show ?thesis using same g'(1,5) i(2) len False by (simp add: createDispatch_def q)
    next
      case cap: False
      have eq: "createDispatch random now available runID q =
        bindR (GenerateToken random (nat created)) (\<lambda>suffix.
        bindR (insert_dispatch (pending_dispatch (''dsp_'' @ suffix) runID (tr_Key (run_tasks s ! i)) ?kind now) d) (\<lambda>d.
        bindR (store_change s u d) (\<lambda>d.
        Inr (created + 1, AList.update ?kind (capacity_of capacity ?kind - 1) capacity, d))))"
        using g'(1,5) i(2) len False cap u by (simp add: createDispatch_def q Let_def)
      show ?thesis unfolding eq
      proof (rule outcome_bindR [OF outcome_GenerateToken])
        fix suffix
        show "outcome db_error (queueable runIDs) (bindR (insert_dispatch (pending_dispatch (''dsp_'' @ suffix) runID (tr_Key (run_tasks s ! i)) ?kind now) d)
          (\<lambda>d. bindR (store_change s u d) (\<lambda>d. Inr (created + 1, AList.update ?kind (capacity_of capacity ?kind - 1) capacity, d))))"
          using dist rooms by (intro queue_outcome [OF w g i(1) u room]) (simp add: queueable_def, metis)
      qed
    qed
  qed
qed

lemma CreateDispatches_outcome:
  assumes w: "world_ok d"
  shows "outcome (\<lambda>e. limit \<le> 0 \<or> db_error e) (\<lambda>(n, d'). world_ok d') (CreateDispatches random skip clock limit d)"
proof (cases "limit \<le> 0")
  case False
  let ?now = "timestamptz clock"
  have "outcome db_error (\<lambda>(n, d'). world_ok d') (CreateDispatches random skip clock limit d)"
    unfolding CreateDispatches_def Let_def if_not_P [OF False]
  proof (rule outcome_bindR [OF returnOrphans_outcome [OF w]])
    fix d1 assume d1: "world_ok d1"
    show "outcome db_error (\<lambda>(n, d'). world_ok d') (bindR (promoteDueRetries skip ?now limit d1) (\<lambda>d.
        if limit - int (length (filter is_active_dispatch (db_dispatches d))) \<le> 0 then Inr (0, d)
        else if loadExecutorCapacity d = [] then Inr (0, d)
        else bindR (dispatch_candidates skip (limit - int (length (filter is_active_dispatch (db_dispatches d)))) d) (\<lambda>runIDs.
          bindR (foldR (createDispatch random ?now (limit - int (length (filter is_active_dispatch (db_dispatches d))))) runIDs
            (0, loadExecutorCapacity d, d)) (\<lambda>(created, _, d). Inr (created, d)))))"
    proof (rule outcome_bindR [OF promoteDueRetries_outcome [OF d1]])
      fix d2 assume d2: "world_ok d2"
      let ?n = "limit - int (length (filter is_active_dispatch (db_dispatches d2)))"
      have "outcome db_error (\<lambda>runIDs. dispatch_candidates skip ?n d2 = Inr runIDs) (dispatch_candidates skip ?n d2)"
        by (simp add: dispatch_candidates_def Let_def)
      then have "outcome db_error (\<lambda>(n, d'). world_ok d') (bindR (dispatch_candidates skip ?n d2) (\<lambda>runIDs.
          bindR (foldR (createDispatch random ?now ?n) runIDs (0, loadExecutorCapacity d2, d2)) (\<lambda>(created, _, d). Inr (created, d))))"
      proof (rule outcome_bindR)
        fix runIDs assume "dispatch_candidates skip ?n d2 = Inr runIDs"
        from candidates_room [OF d2 this] have "queueable runIDs (0, loadExecutorCapacity d2, d2)" using d2 by (simp add: queueable_def)
        then have "outcome db_error (queueable []) (foldR (createDispatch random ?now ?n) runIDs (0, loadExecutorCapacity d2, d2))"
          by (rule outcome_foldR_rest) (rule createDispatch_outcome)
        then show "outcome db_error (\<lambda>(n, d'). world_ok d') (bindR (foldR (createDispatch random ?now ?n) runIDs (0, loadExecutorCapacity d2, d2))
            (\<lambda>(created, _, d). Inr (created, d)))"
          by (rule outcome_bindR) (auto simp: queueable_def)
      qed
      then show "outcome db_error (\<lambda>(n, d'). world_ok d') (if ?n \<le> 0 then Inr (0, d2) else if loadExecutorCapacity d2 = [] then Inr (0, d2)
        else bindR (dispatch_candidates skip ?n d2) (\<lambda>runIDs.
          bindR (foldR (createDispatch random ?now ?n) runIDs (0, loadExecutorCapacity d2, d2)) (\<lambda>(created, _, d). Inr (created, d))))"
        using d2 by simp
    qed
  qed
  with False show ?thesis by (simp add: outcome_def)
qed (simp add: CreateDispatches_def)

end
