(* ===== verification/Dispatch_Leases.thy ===== *)
theory Dispatch_Leases
  imports Dispatch_Correct
begin

text \<open>
  Claiming, renewing, completing, reaping and cancelling leases: every transaction keeps the
  invariant, and its effect on the run is the step of the run machine that belongs to it.
\<close>

section \<open>Claiming\<close>

lemma leases_matched:
  "leases (sql_update matching change rows) workerID \<le> leases rows workerID + length (filter matching rows)"
  by (induction rows) (auto simp: leases_def sql_update_def)

lemma claim_world:
  assumes w: "world_ok d" and g: "run_good d (dr_run_id item) s cw" and i: "i < length (run_tasks s)"
    and item: "item \<in> set (db_dispatches d)" "dr_status item = DispatchPending" "dr_task_key item = tr_Key (run_tasks s ! i)"
    and q: "status_of s i = TaskQueued" and u: "StartQueuedAttempt s cw (int i) now workerID (dr_dispatch_id item) = Inr (u, req)"
    and busy: "int (busy (run_tasks s)) \<le> wd_Concurrency (cw_definition cw)"
    and change: "change = (\<lambda>r. r\<lparr>dr_status := DispatchLeased, dr_worker_id := Some workerID, dr_attempt_number := Some (eq_Attempt req),
      dr_lease_token_hash := hash, dr_lease_expires_at := expires, dr_attempt_deadline := deadline, dr_leased_at := at0\<rparr>)"
    and up: "update_dispatches (\<lambda>r. dr_dispatch_id r = dr_dispatch_id item \<and> dr_status r = DispatchPending) change d = Inr (n, d1)"
    and st: "store_change s u d1 = Inr d'"
    and slots: "\<And>w. w \<in> set (db_workers d) \<Longrightarrow> wk_worker_id w = workerID \<Longrightarrow> int (leases (db_dispatches d) workerID) < wk_max_concurrency w"
    and known: "workerID \<in> wk_worker_id ` set (db_workers d)"
  shows "world_ok d'" and "n = 1" and "only_run (dr_run_id item) (d\<lparr>db_dispatches := db_dispatches d'\<rparr>) d'"
    and "x \<in> set (db_dispatches d') \<longleftrightarrow> x = change item \<or> x \<in> set (db_dispatches d) \<and> x \<noteq> item"
    and "leases (db_dispatches d') workerID \<le> Suc (leases (db_dispatches d) workerID)"
    and "run_good d' (dr_run_id item) (as_stored (next_revision u)) cw"
proof -
  note wd = world_okD [OF w] and g' = run_goodD [OF g]
  let ?m = "\<lambda>r. dr_dispatch_id r = dr_dispatch_id item \<and> dr_status r = DispatchPending"
  let ?rows = "sql_update ?m change (db_dispatches d)"
  have keep: "dr_dispatch_id (change x) = dr_dispatch_id x" "dr_run_id (change x) = dr_run_id x" "dr_task_key (change x) = dr_task_key x"
    "dr_status (change x) = DispatchLeased" "dr_worker_id (change x) = Some workerID" "dr_attempt_number (change x) = Some (eq_Attempt req)" for x
    by (simp_all add: change)
  have up': "n = length (filter ?m (db_dispatches d))" "\<forall>r \<in> set (db_dispatches d). ?m r \<longrightarrow> dispatch_row_ok (change r)"
      "dispatch_indexes_ok ?rows" "d1 = d\<lparr>db_dispatches := ?rows\<rparr>"
    using up unfolding update_dispatches_Inr by simp_all
  have one: "?m x \<longleftrightarrow> x = item" if "x \<in> set (db_dispatches d)" for x using row_by_id [OF w item(1) that] item(2) by auto
  have ok: "rows_ok ?rows" by (rule sql_update_rows_ok [OF wd(2) keep(1) up'(2,3)])
  have g1: "tables_ok d1" "run_good d1 (dr_run_id item) s cw" using wd(1) g by (simp_all add: up'(4) dispatches_frame)
  have step: "run_step cw s (Start i) u" using start [OF q u] .
  note d' = store_change_step [OF g1 step st]
  have only: "only_run (dr_run_id item) (d\<lparr>db_dispatches := ?rows\<rparr>) d'" using d'(2) by (simp add: up'(4))
  have rows: "db_dispatches d' = ?rows" using only_runD(1) [OF only] .
  show "only_run (dr_run_id item) (d\<lparr>db_dispatches := db_dispatches d'\<rparr>) d'" using only rows by simp
  show "run_good d' (dr_run_id item) (as_stored (next_revision u)) cw" by (rule d'(3))
  show "x \<in> set (db_dispatches d') \<longleftrightarrow> x = change item \<or> x \<in> set (db_dispatches d) \<and> x \<noteq> item"
    unfolding rows sql_update_mem using one item(1) by auto
  have "filter ?m (db_dispatches d) = filter (\<lambda>x. x = item) (db_dispatches d)" using one by (intro filter_cong) auto
  moreover have "distinct (db_dispatches d)" using wd(2) by (simp add: rows_ok_def distinct_map)
  ultimately show n: "n = 1" using up'(1) item(1) by (simp add: distinct_length_filter)
  show lease: "leases (db_dispatches d') workerID \<le> Suc (leases (db_dispatches d) workerID)"
    unfolding rows using leases_matched [of ?m change "db_dispatches d" workerID] n up'(1) by simp
  have own: "owner ?rows j k = (if j = dr_run_id item \<and> k = tr_Key (run_tasks s ! i) then Some (change item) else owner (db_dispatches d) j k)" for j k
    using owner_update [OF wd(2) ok item(1) _ one keep(2,3), of j k] item(2,3) keep(4) by (simp add: is_active_dispatch_def)
  have kept: "others_kept i (run_tasks s) (run_tasks u)" using step_others(1) [OF g'(3,4) step] by simp
  have ids: "workerID \<noteq> ''''" "dr_dispatch_id item \<noteq> ''''" using start_ids [OF u] by auto
  then have us: "run_tasks u = (run_tasks s)[i := started now now workerID (dr_dispatch_id item) (run_tasks s ! i)]"
      "eq_Attempt req = int (length (tr_Attempts (run_tasks s ! i))) + 1"
    using StartQueuedAttempt_returns [OF g'(3,4) _ q ids, of now] u i g'(7) by auto
  show "world_ok d'"
  proof (rule world_step [OF w g step _ refl ok d'(1) only d'(3)])
    show "fits (owner ?rows (dr_run_id item) (tr_Key (run_tasks s ! i))) (run_tasks u ! i)"
      using own keep us i by (simp add: fits_def leased_for_def started_def)
    show "int (busy (run_tasks u)) \<le> wd_Concurrency (cw_definition cw)" using busy_step(2) [OF kept i] q busy by (simp add: idle_def)
    show "(\<exists>x \<in> set (db_dispatches d). dr_run_id x = dr_run_id y \<and> dr_task_key x = dr_task_key y) \<or>
      dr_run_id y = dr_run_id item \<and> dr_task_key y = tr_Key (run_tasks s ! i)" if "y \<in> set ?rows" for y
      using that keep by (auto simp: sql_update_mem split: if_splits)
    show "wid \<in> wk_worker_id ` set (db_workers d)" if "y \<in> set ?rows" "dr_worker_id y = Some wid" for y wid
      using that keep(5) known worker_known [OF wd(3)] by (auto simp: sql_update_mem split: if_splits)
    fix x assume x: "x \<in> set (db_workers d)"
    show "int (leases ?rows (wk_worker_id x)) \<le> wk_max_concurrency x"
    proof (cases "wk_worker_id x = workerID")
      case True
      then show ?thesis using slots [OF x] lease rows by simp
    next
      case False
      then have "leases ?rows (wk_worker_id x) \<le> leases (db_dispatches d) (wk_worker_id x)" using keep by (intro leases_update) auto
      then show ?thesis using worker_slots [OF wd(3) x] by linarith
    qed
  qed (use own in auto)
qed

lemma claim_outcome:
  assumes w: "world_ok d" and g: "run_good d (dr_run_id item) s cw" and i: "i < length (run_tasks s)"
    and item: "item \<in> set (db_dispatches d)" "dr_status item = DispatchPending" "dr_task_key item = tr_Key (run_tasks s ! i)"
    and q: "status_of s i = TaskQueued" and u: "StartQueuedAttempt s cw (int i) now workerID (dr_dispatch_id item) = Inr (u, req)"
    and busy: "int (busy (run_tasks s)) \<le> wd_Concurrency (cw_definition cw)"
    and change: "change = (\<lambda>r. r\<lparr>dr_status := DispatchLeased, dr_worker_id := Some workerID, dr_attempt_number := Some (eq_Attempt req),
      dr_lease_token_hash := hash, dr_lease_expires_at := expires, dr_attempt_deadline := deadline, dr_leased_at := at0\<rparr>)"
    and slots: "\<And>w. w \<in> set (db_workers d) \<Longrightarrow> wk_worker_id w = workerID \<Longrightarrow> int (leases (db_dispatches d) workerID) < wk_max_concurrency w"
    and known: "workerID \<in> wk_worker_id ` set (db_workers d)"
    and P: "\<And>d'. world_ok d' \<Longrightarrow> db_workers d' = db_workers d \<Longrightarrow> run_good d' (dr_run_id item) (as_stored (next_revision u)) cw \<Longrightarrow>
      (\<And>x. x \<in> set (db_dispatches d') \<longleftrightarrow> x = change item \<or> x \<in> set (db_dispatches d) \<and> x \<noteq> item) \<Longrightarrow>
      leases (db_dispatches d') workerID \<le> Suc (leases (db_dispatches d) workerID) \<Longrightarrow> P (f d')"
  shows "outcome db_error P (bindR (update_dispatches (\<lambda>r. dr_dispatch_id r = dr_dispatch_id item \<and> dr_status r = DispatchPending) change d)
    (\<lambda>(n, d). if n \<noteq> 1 then Inl e else bindR (store_change s u d) (\<lambda>d. Inr (f d))))" (is "outcome _ _ (bindR ?up ?next)")
proof (rule outcome_bindR [where P = "\<lambda>nd. ?up = Inr nd"])
  show "outcome db_error (\<lambda>nd. ?up = Inr nd) ?up" by (rule outcome_update_dispatches) simp
next
  fix nd assume "?up = Inr nd"
  then obtain n d1 where nd: "nd = (n, d1)" and up: "?up = Inr (n, d1)" by (cases nd) auto
  have "tables_ok d1" "run_good d1 (dr_run_id item) s cw"
    using up world_okD(1) [OF w] g by (auto simp: update_dispatches_Inr dispatches_frame)
  note st = outcome_store_change [OF this start [OF q u]]
  have "n = 1"
  proof -
    have "filter (\<lambda>r. dr_dispatch_id r = dr_dispatch_id item \<and> dr_status r = DispatchPending) (db_dispatches d) =
        filter (\<lambda>x. x = item) (db_dispatches d)"
      using row_by_id [OF w item(1)] item(2) by (intro filter_cong) auto
    moreover have "distinct (db_dispatches d)" using world_okD(2) [OF w] by (simp add: rows_ok_def distinct_map)
    moreover have "n = length (filter (\<lambda>r. dr_dispatch_id r = dr_dispatch_id item \<and> dr_status r = DispatchPending) (db_dispatches d))"
      using up by (simp only: update_dispatches_Inr)
    ultimately show ?thesis using item(1) by (simp only: distinct_length_filter) simp
  qed
  moreover have "outcome db_error P (bindR (store_change s u d1) (\<lambda>d. Inr (f d)))"
  proof (rule outcome_bindR [OF st])
    fix d' assume "store_change s u d1 = Inr d'"
    note c = claim_world [OF w g i item q u busy change up this slots known]
    show "outcome db_error P (Inr (f d'))" unfolding outcome_simps by (rule P [OF c(1) only_runD(2) [OF c(3)] c(6,4,5)])
  qed
  ultimately show "outcome db_error P (?next nd)" by (simp add: nd)
qed

text \<open>A lease that was handed out, against its row.\<close>

definition granted :: "(string \<Rightarrow> string) \<Rightarrow> string \<Rightarrow> db \<Rightarrow> Lease \<Rightarrow> bool" where
  "granted sha workerID d l \<longleftrightarrow>
     (\<exists>r \<in> set (db_dispatches d). dr_dispatch_id r = le_DispatchID l \<and> dr_run_id r = le_RunID l \<and> dr_task_key r = le_TaskKey l \<and>
        dr_status r = DispatchLeased \<and> dr_worker_id r = Some workerID \<and> dr_attempt_number r = Some (le_Attempt l) \<and>
        dr_lease_token_hash r = Some (sha (le_LeaseToken l)) \<and>
        dr_lease_expires_at r = Some (timestamptz (le_LeaseExpiresAt l)) \<and> le_LeaseExpiresAt l \<le> le_AttemptDeadline l)"

definition claimable :: "(string \<Rightarrow> string) \<Rightarrow> worker_row \<Rightarrow> nat \<Rightarrow> dispatch_row list \<Rightarrow> Lease list \<times> db \<Rightarrow> bool" where
  "claimable sha w wanted items = (\<lambda>(ls, d).
     world_ok d \<and> w \<in> set (db_workers d) \<and> distinct items \<and> set items \<subseteq> set (db_dispatches d) \<and>
     (\<forall>r \<in> set items. dr_status r = DispatchPending) \<and>
     int (leases (db_dispatches d) (wk_worker_id w)) + int (length items) \<le> wk_max_concurrency w \<and>
     list_all (granted sha (wk_worker_id w) d) ls \<and> length ls + length items = wanted)"

lemma claimable_next:
  assumes c: "claimable sha w wanted (item # items) (ls, d)" and w': "world_ok d'"
    and rows: "\<And>x. x \<in> set (db_dispatches d') \<longleftrightarrow> x = leased \<or> x \<in> set (db_dispatches d) \<and> x \<noteq> item"
    and lease: "leases (db_dispatches d') (wk_worker_id w) \<le> Suc (leases (db_dispatches d) (wk_worker_id w))"
    and workers: "db_workers d' = db_workers d" and l: "granted sha (wk_worker_id w) d' l"
  shows "claimable sha w wanted items (ls @ [l], d')"
proof -
  have item: "dr_status item = DispatchPending" and sub: "set items \<subseteq> set (db_dispatches d')"
    using c rows by (auto simp: claimable_def)
  have keep: "granted sha (wk_worker_id w) d' x" if g: "granted sha (wk_worker_id w) d x" for x
  proof -
    obtain r where r: "r \<in> set (db_dispatches d)" "dr_dispatch_id r = le_DispatchID x" "dr_run_id r = le_RunID x" "dr_task_key r = le_TaskKey x"
        "dr_status r = DispatchLeased" "dr_worker_id r = Some (wk_worker_id w)" "dr_attempt_number r = Some (le_Attempt x)"
        "dr_lease_token_hash r = Some (sha (le_LeaseToken x))" "dr_lease_expires_at r = Some (timestamptz (le_LeaseExpiresAt x))"
        "le_LeaseExpiresAt x \<le> le_AttemptDeadline x"
      using g unfolding granted_def by blast
    have "r \<noteq> item" using item r(5) by auto
    then have "r \<in> set (db_dispatches d')" using rows r(1) by blast
    with r show ?thesis unfolding granted_def by blast
  qed
  have "list_all (granted sha (wk_worker_id w) d) ls" using c by (simp add: claimable_def)
  then have "list_all (granted sha (wk_worker_id w) d') ls" by (rule list.pred_mono_strong) (rule keep)
  then show ?thesis using c w' sub lease workers l by (auto simp: claimable_def)
qed

lemma claimDispatch_outcome:
  assumes c: "claimable sha w wanted (item # items) q"
  shows "outcome db_error (claimable sha w wanted items) (claimDispatch sha random op now (wk_worker_id w) item q)"
proof -
  obtain ls d where q: "q = (ls, d)" by (cases q)
  note c' = c [unfolded q]
  have wo: "world_ok d" and ww: "w \<in> set (db_workers d)" and item: "item \<in> set (db_dispatches d)" "dr_status item = DispatchPending"
    and cap: "int (leases (db_dispatches d) (wk_worker_id w)) < wk_max_concurrency w"
    using c' by (auto simp: claimable_def)
  note wd = world_okD [OF wo]
  have act: "is_active_dispatch item" using item(2) by (simp add: is_active_dispatch_def)
  obtain s cw i where s: "run_good d (dr_run_id item) s cw" "i < length (run_tasks s)" "dr_task_key item = tr_Key (run_tasks s ! i)"
      "taskIndexByKey (run_tasks s) (dr_task_key item) = int i" "fits (Some item) (run_tasks s ! i)"
      "int (busy (run_tasks s)) \<le> wd_Concurrency (cw_definition cw)"
    using active_row_task [OF wo item(1) act] by metis
  note g = run_goodD [OF s(1)]
  have qd: "status_of s i = TaskQueued" using s(5) item(2) by (simp add: fits_def)
  have ids: "wk_worker_id w \<noteq> ''''" "dr_dispatch_id item \<noteq> ''''"
    using wd(2,3) ww item(1) by (auto simp: workers_ok_def rows_ok_def list_all_iff worker_row_ok_def dispatch_row_ok_def)
  obtain u req where u: "StartQueuedAttempt s cw (int i) now (wk_worker_id w) (dr_dispatch_id item) = Inr (u, req)"
      "eq_RunID req = wr_ID (rs_Run s)" "eq_TaskKey req = tr_Key (run_tasks s ! i)"
    using StartQueuedAttempt_returns [OF g(3,4) _ qd ids, of now] s(2) g(7) by auto
  define deadline where "deadline = now + millis (td_TimeoutMillis (wd_Tasks (cw_definition cw) ! i))"
  define expires where "expires = min (now + op_LeaseDuration op) deadline"
  define change where "change token = (\<lambda>r :: dispatch_row. r\<lparr>dr_status := DispatchLeased, dr_worker_id := Some (wk_worker_id w), dr_attempt_number := Some (eq_Attempt req),
    dr_lease_token_hash := Some (DigestToken sha token), dr_lease_expires_at := Some (timestamptz expires),
    dr_attempt_deadline := Some (timestamptz deadline), dr_leased_at := Some now\<rparr>)" for token
  let ?m = "\<lambda>r. dr_dispatch_id r = dr_dispatch_id item \<and> dr_status r = DispatchPending"
  let ?l = "\<lambda>token. \<lparr>le_DispatchID = dr_dispatch_id item, le_LeaseToken = token,
     le_DefinitionID = eq_DefinitionID req, le_DefinitionVersion = wr_DefinitionVersion (rs_Run s),
     le_RunID = eq_RunID req, le_TaskKey = eq_TaskKey req, le_ExecutorKind = td_Executor (wd_Tasks (cw_definition cw) ! i),
     le_Action = eq_Action req, le_Input = eq_Input req, le_Attempt = eq_Attempt req,
     le_AttemptDeadline = deadline, le_LeaseExpiresAt = expires\<rparr>"
  have eq: "claimDispatch sha random op now (wk_worker_id w) item q =
    bindR (GenerateToken random (length ls)) (\<lambda>token. bindR (update_dispatches ?m (change token) d) (\<lambda>(n, d).
    if n \<noteq> 1 then Inl (Errorf ''Dispatch %s is no longer pending'')
    else bindR (store_change s u d) (\<lambda>d. Inr (ls @ [?l token], d))))"
    unfolding change_def expires_def deadline_def using g(1,5,6) s(4) qd u(1) by (simp add: claimDispatch_def q Let_def)
  show ?thesis unfolding eq
  proof (rule outcome_bindR [OF outcome_GenerateToken])
    fix token
    show "outcome db_error (claimable sha w wanted items) (bindR (update_dispatches ?m (change token) d) (\<lambda>(n, d).
      if n \<noteq> 1 then Inl (Errorf ''Dispatch %s is no longer pending'') else bindR (store_change s u d) (\<lambda>d. Inr (ls @ [?l token], d))))"
    proof (rule claim_outcome [OF wo s(1,2) item s(3) qd u(1) s(6)])
      show "change token = (\<lambda>r. r\<lparr>dr_status := DispatchLeased, dr_worker_id := Some (wk_worker_id w), dr_attempt_number := Some (eq_Attempt req),
        dr_lease_token_hash := Some (DigestToken sha token), dr_lease_expires_at := Some (timestamptz expires),
        dr_attempt_deadline := Some (timestamptz deadline), dr_leased_at := Some now\<rparr>)" by (rule change_def)
      show "int (leases (db_dispatches d) (wk_worker_id w)) < wk_max_concurrency x" if "x \<in> set (db_workers d)" "wk_worker_id x = wk_worker_id w" for x
        using cap distinct_map_unique [OF conjunct1 [OF wd(3) [unfolded workers_ok_def]] that(1) ww that(2)] by simp
      show "wk_worker_id w \<in> wk_worker_id ` set (db_workers d)" using ww by simp
      fix d' assume d': "world_ok d'" "db_workers d' = db_workers d"
        and rows: "\<And>x. x \<in> set (db_dispatches d') \<longleftrightarrow> x = change token item \<or> x \<in> set (db_dispatches d) \<and> x \<noteq> item"
        and lease: "leases (db_dispatches d') (wk_worker_id w) \<le> Suc (leases (db_dispatches d) (wk_worker_id w))"
      have "change token item \<in> set (db_dispatches d')" using rows by blast
      then have "granted sha (wk_worker_id w) d' (?l token)"
        unfolding granted_def using u(2,3) s(3) load_keys(2) [OF wd(1) g(1)]
        by (intro bexI [of _ "change token item"]) (simp_all add: change_def DigestToken_def expires_def)
      from claimable_next [OF c' d'(1) rows lease d'(2) this]
      show "claimable sha w wanted items (ls @ [?l token], d')" .
    qed
  qed
qed

lemma candidates_pending:
  assumes "rows_ok (db_dispatches d)"
  shows "distinct (claim_candidates skip kinds slots d)" and "set (claim_candidates skip kinds slots d) \<subseteq> set (db_dispatches d)"
    and "\<forall>r \<in> set (claim_candidates skip kinds slots d). dr_status r = DispatchPending \<and> dr_executor_kind r \<in> set kinds"
    and "length (claim_candidates skip kinds slots d) \<le> nat slots"
proof -
  have "distinct (db_dispatches d)" using assms by (simp add: rows_ok_def distinct_map)
  then show "distinct (claim_candidates skip kinds slots d)" by (simp add: claim_candidates_def order_by_def)
  show "set (claim_candidates skip kinds slots d) \<subseteq> set (db_dispatches d)"
    "\<forall>r \<in> set (claim_candidates skip kinds slots d). dr_status r = DispatchPending \<and> dr_executor_kind r \<in> set kinds"
    by (auto simp: claim_candidates_def order_by_def dest!: in_set_takeD)
  show "length (claim_candidates skip kinds slots d) \<le> nat slots" by (simp add: claim_candidates_def)
qed

lemma find_worker_mem: "find_worker d workerID = Some w \<Longrightarrow> w \<in> set (db_workers d) \<and> wk_worker_id w = workerID"
  by (auto simp: find_worker_def find_Some_iff)

definition claim_error :: "werror \<Rightarrow> bool" where
  "claim_error e \<longleftrightarrow> e = ErrWorkerCapacityExceeded \<or> e = ErrWorkerSessionInvalid \<or> e = ErrWorkerDraining \<or> db_error e"

lemma outcome_weaken: "outcome E P r \<Longrightarrow> (\<And>e. E e \<Longrightarrow> F e) \<Longrightarrow> (\<And>x. P x \<Longrightarrow> Q x) \<Longrightarrow> outcome F Q r"
  by (cases r) auto

lemma Claim_outcome:
  assumes w: "world_ok d"
  shows "outcome claim_error (\<lambda>(ls, d'). world_ok d' \<and> int (length ls) \<le> slots \<and> list_all (granted sha workerID d') ls)
    (Claim sha random op skip clock workerID slots d)"
proof (cases "slots \<le> 0 \<or> find_worker d workerID = None")
  case True
  then show ?thesis by (auto simp: Claim_def claim_error_def)
next
  case False
  then obtain x where f: "find_worker d workerID = Some x" and pos: "\<not> slots \<le> 0" by auto
  note x = find_worker_mem [OF f] and wd = world_okD [OF w]
  show ?thesis
  proof (cases "wk_status x = WorkerActive \<and> slots \<le> wk_max_concurrency x - active_leases d workerID")
    case False
    then show ?thesis using f pos by (auto simp: Claim_def claim_error_def not_le not_less)
  next
    case True
    let ?items = "claim_candidates skip (wk_executor_kinds x) slots d"
    note c = candidates_pending [OF wd(2), of skip "wk_executor_kinds x" slots]
    have "claimable sha x (length ?items) ?items ([], d)"
      using w x c True pos by (auto simp: claimable_def active_leases_rows)
    then have "outcome db_error (claimable sha x (length ?items) []) (foldR (claimDispatch sha random op (timestamptz clock) (wk_worker_id x)) ?items ([], d))"
      by (rule outcome_foldR_rest) (rule claimDispatch_outcome)
    moreover have "Claim sha random op skip clock workerID slots d = foldR (claimDispatch sha random op (timestamptz clock) (wk_worker_id x)) ?items ([], d)"
      using f pos True x by (simp add: Claim_def)
    ultimately show ?thesis using c(4) pos x
      by (auto elim!: outcome_weaken simp: claim_error_def claimable_def)
  qed
qed

section \<open>Heartbeats\<close>

text \<open>A change that the owners do not see.\<close>

lemma world_frame:
  assumes w: "world_ok d" and t: "tables_ok d'" and load: "\<And>j. loadSnapshot d' j = loadSnapshot d j" and find: "\<And>j. find_run d' j = find_run d j"
    and rows: "rows_ok (db_dispatches d')" and workers: "workers_ok d'"
    and fit: "\<And>j k t. fits (owner (db_dispatches d') j k) t = fits (owner (db_dispatches d) j k) t"
    and ids: "ident ` set (db_dispatches d') \<subseteq> ident ` set (db_dispatches d)"
  shows "world_ok d'"
proof -
  note wd = world_okD [OF w]
  have old: "\<exists>x \<in> set (db_dispatches d). dr_run_id x = dr_run_id r \<and> dr_task_key x = dr_task_key r" if "r \<in> set (db_dispatches d')" for r
  proof -
    have "ident r \<in> ident ` set (db_dispatches d)" using ids that by blast
    then show ?thesis by (auto simp: ident_def)
  qed
  have "run_ok d' j" if j: "find_run d' j \<noteq> None" for j
  proof -
    obtain s cw where s: "run_good d j s cw" "owned (db_dispatches d) j (run_tasks s)"
        "int (busy (run_tasks s)) \<le> wd_Concurrency (cw_definition cw)"
      using wd(5) [of j] j find by (auto simp: run_ok_def)
    have "owned (db_dispatches d') j (run_tasks s)" using s(2) fit old unfolding owned_def by metis
    moreover have "run_good d' j s cw" using s(1) load by (simp add: run_good_def)
    ultimately show ?thesis using s(3) run_ok_def by blast
  qed
  moreover have "find_run d' (dr_run_id r) \<noteq> None" if "r \<in> set (db_dispatches d')" for r
    using old [OF that] wd(4) find by metis
  ultimately show ?thesis using t rows workers by (simp add: world_ok_def)
qed

lemma owner_same:
  assumes rows: "rows_ok rows" and rows': "rows_ok (sql_update matching change rows)"
    and keep: "\<And>x. ident (change x) = ident x" "\<And>x. is_active_dispatch (change x) = is_active_dispatch x"
  shows "owner (sql_update matching change rows) j k = map_option (\<lambda>r. if matching r then change r else r) (owner rows j k)"
proof (rule option_eqI)
  fix x
  have k: "dr_run_id (change y) = dr_run_id y" "dr_task_key (change y) = dr_task_key y" for y using keep(1) [of y] by (simp_all add: ident_def)
  show "owner (sql_update matching change rows) j k = Some x \<longleftrightarrow> map_option (\<lambda>r. if matching r then change r else r) (owner rows j k) = Some x"
    using k keep(2) by (auto simp: owner_iff [OF rows'] owner_iff [OF rows] sql_update_mem split: if_splits)
qed

lemma renew_world:
  assumes w: "world_ok d" and up: "update_dispatches matching (\<lambda>r. r\<lparr>dr_lease_expires_at := expires\<rparr>) d = Inr (n, d')"
  shows "world_ok d'" and "db_workers d' = db_workers d"
proof -
  note wd = world_okD [OF w]
  let ?c = "\<lambda>r :: dispatch_row. r\<lparr>dr_lease_expires_at := expires\<rparr>"
  let ?rows = "sql_update matching ?c (db_dispatches d)"
  have up': "\<forall>r \<in> set (db_dispatches d). matching r \<longrightarrow> dispatch_row_ok (?c r)" "dispatch_indexes_ok ?rows" "d' = d\<lparr>db_dispatches := ?rows\<rparr>"
    using up unfolding update_dispatches_Inr by simp_all
  show "db_workers d' = db_workers d" by (simp add: up'(3))
  have ok: "rows_ok ?rows" by (rule sql_update_rows_ok [OF wd(2) _ up'(1,2)]) simp
  have own: "owner ?rows j k = map_option (\<lambda>r. if matching r then ?c r else r) (owner (db_dispatches d) j k)" for j k
    by (rule owner_same [OF wd(2) ok]) (simp_all add: ident_def is_active_dispatch_def)
  show "world_ok d'"
  proof (rule world_frame [OF w])
    show "fits (owner (db_dispatches d') j k) t = fits (owner (db_dispatches d) j k) t" for j k t
      using own [of j k] by (cases "owner (db_dispatches d) j k") (simp_all add: up'(3) fits_def leased_for_def)
    have "leases ?rows x \<le> leases (db_dispatches d) x" for x by (rule leases_update) simp
    then show "workers_ok d'" by (intro workers_ok_fewer [OF wd(3)]) (auto simp: up'(3) sql_update_mem split: if_splits)
    show "ident ` set (db_dispatches d') \<subseteq> ident ` set (db_dispatches d)"
      by (auto simp: up'(3) sql_update_mem ident_def)
  qed (use ok wd(1) in \<open>simp_all add: up'(3) dispatches_frame\<close>)
qed

lemma workers_frame:
  "tables_ok (d\<lparr>db_workers := ws\<rparr>) = tables_ok d" "loadSnapshot (d\<lparr>db_workers := ws\<rparr>) = loadSnapshot d"
proof -
  show "tables_ok (d\<lparr>db_workers := ws\<rparr>) = tables_ok d" by (simp add: tables_ok_def)
  show "loadSnapshot (d\<lparr>db_workers := ws\<rparr>) = loadSnapshot d"
    by (rule ext, rule load_only_view) (simp_all add: view_def)
qed

lemma update_workers_world:
  assumes w: "world_ok d" and up: "update_workers matching change d = Inr d'"
    and keep: "\<And>x. wk_worker_id (change x) = wk_worker_id x" "\<And>x. wk_max_concurrency (change x) = wk_max_concurrency x"
  shows "world_ok d'" and "db_dispatches d' = db_dispatches d" and "db_workers d' = sql_update matching change (db_workers d)"
    and "loadSnapshot d' = loadSnapshot d"
proof -
  note wd = world_okD [OF w]
  let ?ws = "sql_update matching change (db_workers d)"
  have up': "\<forall>x \<in> set (db_workers d). matching x \<longrightarrow> worker_row_ok (change x)" "d' = d\<lparr>db_workers := ?ws\<rparr>"
    using up by (auto simp: update_workers_def checked_update_def bindR_eq_Inr list_ex_iff split: if_splits)
  show "db_dispatches d' = db_dispatches d" "db_workers d' = ?ws" "loadSnapshot d' = loadSnapshot d" by (simp_all add: up'(2) workers_frame)
  have ids: "wk_worker_id ` set ?ws = wk_worker_id ` set (db_workers d)"
    using arg_cong [OF map_upd_same [of wk_worker_id change matching "db_workers d"], of set] keep(1) by simp
  have "workers_ok d'"
    using wd(3) up'(1) keep by (auto simp: workers_ok_def up'(2) map_upd_same list_all_iff sql_update_mem active_leases_rows ids)
  then show "world_ok d'"
    by (intro world_frame [OF w]) (use wd in \<open>simp_all add: up'(2) workers_frame\<close>)
qed

lemma outcome_update_workers: "outcome db_error (\<lambda>d'. update_workers matching change d = Inr d') (update_workers matching change d)"
  by (auto simp: update_workers_def checked_update_def)

text \<open>The row of a lease that its holder can still use.\<close>

definition current_lease :: "(string \<Rightarrow> string) \<Rightarrow> db \<Rightarrow> string \<Rightarrow> string \<Rightarrow> string \<Rightarrow> time \<Rightarrow> dispatch_row \<Rightarrow> bool" where
  "current_lease sha d workerID dispatchID token now r \<longleftrightarrow>
     find_dispatch d dispatchID = Some r \<and> dr_worker_id r = Some workerID \<and> MatchesToken sha token (dr_lease_token_hash r) \<and>
     dr_status r = DispatchLeased \<and> (\<exists>e a. dr_lease_expires_at r = Some e \<and> dr_attempt_deadline r = Some a \<and> now < e \<and> now < a)"

lemma renewLease_spec:
  assumes "renewLease sha op now workerID ref (items, d) = Inr (items', d')"
  obtains item where "items' = items @ [item]" "lh_DispatchID item = lr_DispatchID ref"
    "lh_Status item = LeaseRenewed \<longleftrightarrow> (\<exists>r. current_lease sha d workerID (lr_DispatchID ref) (lr_LeaseToken ref) now r)"
    "lh_Status item \<noteq> LeaseRenewed \<Longrightarrow> d' = d"
proof (rule that [of "last items'"])
  show "items' = items @ [last items']" "lh_DispatchID (last items') = lr_DispatchID ref"
    "lh_Status (last items') = LeaseRenewed \<longleftrightarrow> (\<exists>r. current_lease sha d workerID (lr_DispatchID ref) (lr_LeaseToken ref) now r)"
    "lh_Status (last items') \<noteq> LeaseRenewed \<Longrightarrow> d' = d"
    using assms
    by (auto simp: renewLease_def Let_def heartbeat_item_def current_lease_def bindR_eq_Inr not_le split: option.splits if_splits prod.splits)
qed

definition heartbeat_error :: "werror \<Rightarrow> bool" where
  "heartbeat_error e \<longleftrightarrow> e = ErrWorkerSessionInvalid \<or> e = Errorf ''load heartbeat Dispatch %s: %w'' \<or> db_error e"

lemma renewLease_outcome:
  assumes "case q of (items, d) \<Rightarrow> world_ok d"
  shows "outcome heartbeat_error (\<lambda>(items, d). world_ok d) (renewLease sha op now workerID ref q)"
proof -
  obtain items d where q: "q = (items, d)" and w: "world_ok d" using assms by (cases q) auto
  have "outcome heartbeat_error (\<lambda>(items, d). world_ok d) (bindR (update_dispatches matching (\<lambda>r. r\<lparr>dr_lease_expires_at := x\<rparr>) d) (\<lambda>(n, d). Inr (f d, d)))"
    for matching x and f :: "db \<Rightarrow> LeaseHeartbeat list"
  proof (rule outcome_bindR [OF outcome_weaken [OF outcome_update_dispatches [where P = "\<lambda>(n, d). world_ok d"]]])
    show "case (n, d') of (n, d) \<Rightarrow> world_ok d" if "update_dispatches matching (\<lambda>r. r\<lparr>dr_lease_expires_at := x\<rparr>) d = Inr (n, d')" for n d'
      using renew_world(1) [OF w that] by simp
  qed (auto simp: heartbeat_error_def)
  then show ?thesis using w
    by (auto simp: q renewLease_def Let_def heartbeat_error_def split: option.splits)
qed

lemma Heartbeat_outcome:
  assumes w: "world_ok d"
  shows "outcome heartbeat_error (\<lambda>(items, d'). world_ok d') (Heartbeat sha op clock workerID refs d)"
proof -
  have "outcome heartbeat_error (\<lambda>(items, d'). world_ok d')
     (bindR (update_workers (\<lambda>w. wk_worker_id w = workerID) (\<lambda>w. w\<lparr>wk_last_heartbeat_at := timestamptz clock\<rparr>) d) (\<lambda>d.
      foldR (renewLease sha op (timestamptz clock) workerID) refs ([], d)))"
  proof (rule outcome_bindR [OF outcome_weaken [OF outcome_update_workers]])
    fix d' assume "update_workers (\<lambda>w. wk_worker_id w = workerID) (\<lambda>w. w\<lparr>wk_last_heartbeat_at := timestamptz clock\<rparr>) d = Inr d'"
    from update_workers_world(1) [OF w this] have "world_ok d'" by simp
    then show "outcome heartbeat_error (\<lambda>(items, d'). world_ok d') (foldR (renewLease sha op (timestamptz clock) workerID) refs ([], d'))"
      by (intro outcome_foldR renewLease_outcome) auto
  qed (simp_all add: heartbeat_error_def)
  then show ?thesis by (auto simp: Heartbeat_def Let_def heartbeat_error_def split: option.splits)
qed

section \<open>Completing\<close>

lemma closed_row:
  assumes w: "world_ok d'" and r: "r \<in> set (db_dispatches d)" "matching r" and rows: "db_dispatches d' = sql_update matching change (db_dispatches d)"
    and keep: "dr_dispatch_id (change r) = dr_dispatch_id r"
  shows "find_dispatch d' (dr_dispatch_id r) = Some (change r)"
  unfolding find_dispatch_iff [OF world_okD(2) [OF w]] rows sql_update_mem using r keep by (auto intro!: bexI [of _ r])

lemma leased_task:
  assumes w: "world_ok d" and r: "r \<in> set (db_dispatches d)" "dr_status r = DispatchLeased"
  obtains s cw i where "run_good d (dr_run_id r) s cw" "i < task_count cw" "dr_task_key r = tr_Key (run_tasks s ! i)"
    "taskIndexByKey (run_tasks s) (dr_task_key r) = int i" "status_of s i = TaskRunning" "tr_Attempts (run_tasks s ! i) \<noteq> []"
    "leased_for r (last (tr_Attempts (run_tasks s ! i)))" "run_status s = WorkflowRunning"
    "dr_attempt_number r = Some (int (length (tr_Attempts (run_tasks s ! i))))"
proof -
  have act: "is_active_dispatch r" using r(2) by (simp add: is_active_dispatch_def)
  obtain s cw i where s: "run_good d (dr_run_id r) s cw" "i < length (run_tasks s)" "dr_task_key r = tr_Key (run_tasks s ! i)"
      "taskIndexByKey (run_tasks s) (dr_task_key r) = int i" "fits (Some r) (run_tasks s ! i)"
    using active_row_task [OF w r(1) act] by metis
  note g = run_goodD [OF s(1)]
  have f: "status_of s i = TaskRunning" "tr_Attempts (run_tasks s ! i) \<noteq> []" "leased_for r (last (tr_Attempts (run_tasks s ! i)))"
    using s(5) r(2) by (simp_all add: fits_def)
  have i: "i < task_count cw" using s(2) g(7) by simp
  have "run_status s = WorkflowRunning" using run_inv_running [OF g(4) i] f(1) by (simp add: active_def)
  moreover have "dr_attempt_number r = Some (int (length (tr_Attempts (run_tasks s ! i))))"
    using f(3) last_number [OF g(4) i f(2)] by (simp add: leased_for_def)
  ultimately show thesis using that s(1,3,4) i f by blast
qed

lemma digest_kind: "digestWorkerResult sha result = Inr h \<Longrightarrow> known_kind (ep_Kind result) \<and> h = sha (canonical_result result)"
  by (auto simp: digestWorkerResult_def split: if_splits)

definition completed_row :: "string \<Rightarrow> time \<Rightarrow> dispatch_row \<Rightarrow> dispatch_row" where
  "completed_row h now r = r\<lparr>dr_status := DispatchCompleted, dr_result_hash := Some h, dr_completed_at := Some now\<rparr>"

lemma Complete_current:
  assumes w: "world_ok d" and h: "digestWorkerResult sha result = Inr h"
    and cur: "current_lease sha d workerID dispatchID token (timestamptz clock) r"
    and l: "loadSnapshot d (dr_run_id r) = Inr s" "wr_CancelRequestedAt (rs_Run s) = None"
  shows "outcome db_error (\<lambda>(b, d'). b \<and> world_ok d' \<and> find_dispatch d' dispatchID = Some (completed_row h (timestamptz clock) r) \<and>
      (\<forall>j. j \<noteq> dr_run_id r \<longrightarrow> loadSnapshot d' j = loadSnapshot d j) \<and>
      (\<exists>cw i m u. run_good d (dr_run_id r) s cw \<and> i < task_count cw \<and> tr_Key (run_tasks s ! i) = dr_task_key r \<and> dr_attempt_number r = Some m \<and>
         ApplyAttemptResult s cw (int i) m result (timestamptz clock) = Inr (True, u) \<and>
         loadSnapshot d' (dr_run_id r) = Inr (as_stored (next_revision u))))
    (Complete sha clock workerID dispatchID token result d)"
proof -
  note wd = world_okD [OF w]
  obtain e a where c: "find_dispatch d dispatchID = Some r" "dr_worker_id r = Some workerID" "MatchesToken sha token (dr_lease_token_hash r)"
      "dr_status r = DispatchLeased" "dr_lease_expires_at r = Some e" "dr_attempt_deadline r = Some a" "timestamptz clock < e" "timestamptz clock < a"
    using cur by (auto simp: current_lease_def)
  have r: "r \<in> set (db_dispatches d)" "dr_dispatch_id r = dispatchID" using c(1) find_dispatch_iff [OF wd(2)] by blast+
  obtain s' cw i where s': "run_good d (dr_run_id r) s' cw" "i < task_count cw" "dr_task_key r = tr_Key (run_tasks s' ! i)"
    "taskIndexByKey (run_tasks s') (dr_task_key r) = int i" "status_of s' i = TaskRunning" "tr_Attempts (run_tasks s' ! i) \<noteq> []"
    "leased_for r (last (tr_Attempts (run_tasks s' ! i)))" "run_status s' = WorkflowRunning"
    "dr_attempt_number r = Some (int (length (tr_Attempts (run_tasks s' ! i))))"
    using leased_task [OF w r(1) c(4)] .
  have eqs: "s' = s" using run_goodD(1) [OF s'(1)] l(1) by simp
  note s = s' [unfolded eqs]
  note g = run_goodD [OF s(1)]
  let ?m = "int (length (tr_Attempts (run_tasks s ! i)))"
  obtain u where u: "ApplyAttemptResult s cw (int i) ?m result (timestamptz clock) = Inr (True, u)"
    using ApplyAttemptResult_returns [OF g(3,4) s(2) conjunct1 [OF digest_kind [OF h]], of ?m "timestamptz clock"] s(5)
    by (auto simp: is_active_def)
  have lf: "at_Number (last (tr_Attempts (run_tasks s ! i))) = ?m" "at_WorkerID (last (tr_Attempts (run_tasks s ! i))) = workerID"
    "at_DispatchID (last (tr_Attempts (run_tasks s ! i))) = dispatchID"
    using s(7,9) c(2) r(2) by (auto simp: leased_for_def)
  have eq: "Complete sha clock workerID dispatchID token result d = bindR (store_change s u d) (\<lambda>d.
    bindR (update_dispatches (\<lambda>r. dr_dispatch_id r = dispatchID \<and> dr_status r = DispatchLeased) (completed_row h (timestamptz clock)) d) (\<lambda>(n, d).
    if n \<noteq> 1 then Inl ErrLeaseLost else Inr (True, d)))"
    unfolding completed_row_def
    using h c l s(4,5,6,8,9) lf u g(5,6) wd(4) [OF r(1)] by (auto simp: Complete_def Let_def)
  show ?thesis unfolding eq
  proof (rule outcome_close [OF w s(1) report [OF u] _ _ r(1) _ refl s(3)])
    show one: "dr_dispatch_id x = dispatchID \<and> dr_status x = DispatchLeased \<longleftrightarrow> x = r" if "x \<in> set (db_dispatches d)" for x
      using row_by_id [OF w r(1) that] r(2) c(4) by auto
    fix d' assume d': "world_ok d'" "run_good d' (dr_run_id r) (as_stored (next_revision u)) cw"
      "db_dispatches d' = sql_update (\<lambda>r. dr_dispatch_id r = dispatchID \<and> dr_status r = DispatchLeased) (completed_row h (timestamptz clock)) (db_dispatches d)"
      "only_run (dr_run_id r) (d\<lparr>db_dispatches := db_dispatches d'\<rparr>) d'"
    have "find_dispatch d' dispatchID = Some (completed_row h (timestamptz clock) r)"
      using closed_row [OF d'(1) r(1) _ d'(3)] one [OF r(1)] r(2) by (simp add: completed_row_def)
    then show "case (True, d') of (b, d') \<Rightarrow> b \<and> world_ok d' \<and> find_dispatch d' dispatchID = Some (completed_row h (timestamptz clock) r) \<and>
      (\<forall>j. j \<noteq> dr_run_id r \<longrightarrow> loadSnapshot d' j = loadSnapshot d j) \<and>
      (\<exists>cw i m u. run_good d (dr_run_id r) s cw \<and> i < task_count cw \<and> tr_Key (run_tasks s ! i) = dr_task_key r \<and> dr_attempt_number r = Some m \<and>
         ApplyAttemptResult s cw (int i) m result (timestamptz clock) = Inr (True, u) \<and>
         loadSnapshot d' (dr_run_id r) = Inr (as_stored (next_revision u)))"
      using d'(1) only_runD(5) [OF d'(4)] s(1,2,3,9) u run_goodD(1) [OF d'(2)] by auto
  qed (use c(4) in \<open>simp_all add: completed_row_def is_active_dispatch_def\<close>)
qed

definition completed_by :: "(string \<Rightarrow> string) \<Rightarrow> db \<Rightarrow> string \<Rightarrow> string \<Rightarrow> string \<Rightarrow> dispatch_row \<Rightarrow> bool" where
  "completed_by sha d workerID dispatchID token r \<longleftrightarrow>
     find_dispatch d dispatchID = Some r \<and> dr_worker_id r = Some workerID \<and> MatchesToken sha token (dr_lease_token_hash r) \<and>
     dr_status r = DispatchCompleted"

lemma Complete_completed:
  assumes w: "world_ok d" and h: "digestWorkerResult sha result = Inr h" and r: "completed_by sha d workerID dispatchID token r"
  shows "Complete sha clock workerID dispatchID token result d = (if dr_result_hash r = Some h then Inr (True, d) else Inl ErrResultConflict)"
proof -
  note wd = world_okD [OF w]
  have "r \<in> set (db_dispatches d)" using r find_dispatch_iff [OF wd(2)] by (auto simp: completed_by_def)
  from wd(4) [OF this] show ?thesis using h r by (auto simp: Complete_def completed_by_def Let_def)
qed

lemma Complete_lost:
  assumes w: "world_ok d" and h: "digestWorkerResult sha result = Inr h"
    and nc: "\<And>r. \<not> completed_by sha d workerID dispatchID token r"
    and nl: "\<And>r s. current_lease sha d workerID dispatchID token (timestamptz clock) r \<Longrightarrow> loadSnapshot d (dr_run_id r) = Inr s \<Longrightarrow>
      wr_CancelRequestedAt (rs_Run s) \<noteq> None"
  shows "Complete sha clock workerID dispatchID token result d = Inl ErrLeaseLost"
proof (cases "find_dispatch d dispatchID")
  case None
  then show ?thesis using h by (simp add: Complete_def Let_def)
next
  case (Some r)
  note wd = world_okD [OF w]
  have r: "r \<in> set (db_dispatches d)" using Some find_dispatch_iff [OF wd(2)] by blast
  then obtain s cw where s: "run_good d (dr_run_id r) s cw" using wd(5) [OF wd(4) [OF r]] by (auto simp: run_ok_def)
  note l = run_goodD(1) [OF s] and fr = wd(4) [OF r]
  show ?thesis
  proof (cases "dr_worker_id r = Some workerID \<and> MatchesToken sha token (dr_lease_token_hash r)")
    case False
    then show ?thesis using h Some fr by (auto simp: Complete_def Let_def)
  next
    case mine: True
    then have ns: "dr_status r \<noteq> DispatchCompleted" using nc [of r] Some by (simp add: completed_by_def)
    have "dispatch_row_ok r" using wd(2) r by (simp add: rows_ok_def list_all_iff)
    then obtain m e a where f: "dr_attempt_number r = Some m" "dr_lease_expires_at r = Some e" "dr_attempt_deadline r = Some a"
      using mine by (auto simp: dispatch_row_ok_def)
    show ?thesis
    proof (cases "dr_status r = DispatchLeased \<and> timestamptz clock < e \<and> timestamptz clock < a")
      case False
      then show ?thesis using h Some fr mine ns f by (auto simp: Complete_def Let_def not_le)
    next
      case True
      then have "wr_CancelRequestedAt (rs_Run s) \<noteq> None"
        using nl [OF _ l] Some mine f by (simp add: current_lease_def)
      then show ?thesis using h Some fr mine ns f True l by (auto simp: Complete_def Let_def)
    qed
  qed
qed

definition complete_error :: "werror \<Rightarrow> bool" where
  "complete_error e \<longleftrightarrow> e = ErrLeaseLost \<or> e = ErrResultConflict \<or> (\<exists>w. e = ErrInvalidResult w) \<or> db_error e"

lemma Complete_outcome:
  assumes w: "world_ok d"
  shows "outcome complete_error (\<lambda>(b, d'). b \<and> world_ok d') (Complete sha clock workerID dispatchID token result d)"
proof (cases "digestWorkerResult sha result")
  case (Inl e)
  then show ?thesis by (auto simp: Complete_def complete_error_def digestWorkerResult_def split: if_splits)
next
  case h: (Inr h)
  consider r where "completed_by sha d workerID dispatchID token r"
    | r s where "current_lease sha d workerID dispatchID token (timestamptz clock) r" "loadSnapshot d (dr_run_id r) = Inr s" "wr_CancelRequestedAt (rs_Run s) = None"
    | "\<And>r. \<not> completed_by sha d workerID dispatchID token r"
      "\<And>r s. current_lease sha d workerID dispatchID token (timestamptz clock) r \<Longrightarrow> loadSnapshot d (dr_run_id r) = Inr s \<Longrightarrow> wr_CancelRequestedAt (rs_Run s) \<noteq> None"
    by blast
  then show ?thesis
  proof cases
    case 1
    then show ?thesis using Complete_completed [OF w h] w by (simp add: complete_error_def)
  next
    case 2
    then show ?thesis by (rule outcome_weaken [OF Complete_current [OF w h]]) (auto simp: complete_error_def)
  next
    case 3
    then show ?thesis using Complete_lost [OF w h, of workerID dispatchID token clock] by (simp add: complete_error_def)
  qed
qed

section \<open>Reaping\<close>

definition due :: "(string \<Rightarrow> time) \<Rightarrow> dispatch_row \<Rightarrow> bool" where
  "due current r \<longleftrightarrow> (case lease_end r of None \<Rightarrow> False | Some t \<Rightarrow> t \<le> timestamptz (current (dr_dispatch_id r)))"

definition reaped :: "(string \<Rightarrow> time) \<Rightarrow> db \<Rightarrow> dispatch_row \<Rightarrow> bool" where
  "reaped current d r \<longleftrightarrow> (\<exists>x \<in> set (db_dispatches d). ident x = ident r \<and> (due current r \<longrightarrow> dr_status x = DispatchExpired))"

definition reapable :: "(string \<Rightarrow> time) \<Rightarrow> dispatch_row list \<Rightarrow> dispatch_row list \<Rightarrow> db \<Rightarrow> bool" where
  "reapable current items rest d \<longleftrightarrow>
     world_ok d \<and> distinct rest \<and> set rest \<subseteq> set (db_dispatches d) \<and> (\<forall>r \<in> set rest. dr_status r = DispatchLeased) \<and>
     (\<forall>r \<in> set items - set rest. reaped current d r)"

lemma lease_end_leased:
  assumes "rows_ok rows" and "r \<in> set rows" and "dr_status r = DispatchLeased"
  obtains e a where "dr_lease_expires_at r = Some e" "dr_attempt_deadline r = Some a" "lease_end r = Some e" "e \<le> a"
proof -
  have "dispatch_row_ok r" using assms by (simp add: rows_ok_def list_all_iff)
  then show thesis using that assms(3) by (auto simp: dispatch_row_ok_def lease_end_def min_def)
qed

lemma reapable_next:
  assumes c: "reapable current items (item # rest) d" and w': "world_ok d'"
    and mem: "\<And>x. x \<in> set (db_dispatches d') \<longleftrightarrow> x = item' \<or> x \<in> set (db_dispatches d) \<and> x \<noteq> item"
    and item': "ident item' = ident item" "dr_status item' = DispatchExpired"
  shows "reapable current items rest d'"
proof -
  have item: "dr_status item = DispatchLeased" "item \<notin> set rest" "item' \<in> set (db_dispatches d')" using c mem by (auto simp: reapable_def)
  have "reaped current d' r" if r: "r \<in> set items - set rest" for r
  proof (cases "r = item")
    case True
    then show ?thesis using item item' by (auto simp: reaped_def)
  next
    case False
    then obtain x where x: "x \<in> set (db_dispatches d)" "ident x = ident r" "due current r \<longrightarrow> dr_status x = DispatchExpired"
      using c r unfolding reapable_def reaped_def by (metis Diff_iff list.set_intros(2) set_ConsD DiffD2)
    show ?thesis
    proof (cases "x = item")
      case True
      then show ?thesis using x item item' unfolding reaped_def by metis
    next
      case False
      then have "x \<in> set (db_dispatches d')" using mem x(1) by blast
      then show ?thesis using x(2,3) by (auto simp: reaped_def)
    qed
  qed
  moreover have "set rest \<subseteq> set (db_dispatches d')" using c item(2) mem by (auto simp: reapable_def)
  ultimately show ?thesis using c w' by (auto simp: reapable_def)
qed

lemma reapDispatch_outcome:
  assumes c: "reapable current items (item # rest) d"
  shows "outcome db_error (reapable current items rest) (reapDispatch current item d)"
proof -
  have w: "world_ok d" and item: "item \<in> set (db_dispatches d)" "dr_status item = DispatchLeased"
    using c by (auto simp: reapable_def)
  note wd = world_okD [OF w]
  have f: "find_dispatch d (dr_dispatch_id item) = Some item" using find_dispatch_iff [OF wd(2)] item(1) by blast
  obtain e a where t: "dr_lease_expires_at item = Some e" "dr_attempt_deadline item = Some a" "lease_end item = Some e" "e \<le> a"
    using lease_end_leased [OF wd(2) item] .
  let ?now = "timestamptz (current (dr_dispatch_id item))"
  show ?thesis
  proof (cases "?now < e")
    case True
    then have "reaped current d item" using item(1) t(3) by (auto simp: reaped_def due_def)
    then have "reapable current items rest d" using c by (auto simp: reapable_def)
    then show ?thesis using True f t item(2) by (simp add: reapDispatch_def Let_def)
  next
    case False
    obtain s cw i where s: "run_good d (dr_run_id item) s cw" "i < task_count cw" "dr_task_key item = tr_Key (run_tasks s ! i)"
      "taskIndexByKey (run_tasks s) (dr_task_key item) = int i" "status_of s i = TaskRunning"
      "dr_attempt_number item = Some (int (length (tr_Attempts (run_tasks s ! i))))"
      using leased_task [OF w item] by metis
    note g = run_goodD [OF s(1)]
    let ?m = "int (length (tr_Attempts (run_tasks s ! i)))"
    let ?op = "if a \<le> ?now then TimeoutAttempt s cw (int i) ?m ?now else InterruptAttempt s cw (int i) ?m ?now ''Worker lease expired''"
    obtain act u where u: "?op = Inr (True, u)" "run_step cw s act u" "target act = Some i" "\<forall>i. act \<noteq> Queue i \<and> act \<noteq> Start i"
    proof (cases "a \<le> ?now")
      case True
      obtain u where u: "TimeoutAttempt s cw (int i) ?m ?now = Inr (True, u)"
        using lose_attempt_returns [OF g(3,4) s(2), of AttemptTimedOut ?m ?now] s(5) by (auto simp: TimeoutAttempt_def is_active_def)
      with True timeout [OF u] that show ?thesis by fastforce
    next
      case False
      obtain u where u: "InterruptAttempt s cw (int i) ?m ?now ''Worker lease expired'' = Inr (True, u)"
        using lose_attempt_returns [OF g(3,4) s(2), of AttemptInterrupted ?m ?now] s(5) by (auto simp: InterruptAttempt_def is_active_def)
      with False interrupt [OF u] that show ?thesis by fastforce
    qed
    let ?M = "\<lambda>r. dr_dispatch_id r = dr_dispatch_id item \<and> dr_status r = DispatchLeased"
    let ?C = "\<lambda>r. r\<lparr>dr_status := DispatchExpired, dr_completed_at := Some ?now\<rparr>"
    have eq: "reapDispatch current item d = bindR (store_change s u d) (\<lambda>d. bindR (update_dispatches ?M ?C d) (\<lambda>(n, d).
      if n \<noteq> 1 then Inl (Errorf ''expired Dispatch %s changed concurrently'') else Inr d))"
      using f t item(2) False g(1,5,6) s(4,6) u(1) by (cases "a \<le> ?now") (simp_all add: reapDispatch_def Let_def)
    show ?thesis unfolding eq
    proof (rule outcome_close [OF w s(1) u(2,3,4) item(1) _ refl s(3)])
      show one: "?M x \<longleftrightarrow> x = item" if "x \<in> set (db_dispatches d)" for x using row_by_id [OF w item(1) that] item(2) by auto
      fix d' assume d': "world_ok d'" "db_dispatches d' = sql_update ?M ?C (db_dispatches d)"
      have mem: "x \<in> set (db_dispatches d') \<longleftrightarrow> x = ?C item \<or> x \<in> set (db_dispatches d) \<and> x \<noteq> item" for x
        unfolding d'(2) sql_update_mem using one item(1) by auto
      show "reapable current items rest d'" by (rule reapable_next [OF c d'(1) mem]) (simp_all add: ident_def)
    qed (use item(2) in \<open>simp_all add: is_active_dispatch_def\<close>)
  qed
qed

end
