(* ===== verification/Dispatch_System.thy ===== *)
theory Dispatch_System
  imports Dispatch_Leases
begin

text \<open>
  The remaining transactions: reaping expired leases, cancelling runs, registering and
  draining workers, creating definitions and runs. Together with the ones before they are
  the steps of the database, and every database they can reach satisfies the invariant.
\<close>

section \<open>Reaping\<close>

lemma expired_leased:
  assumes "rows_ok (db_dispatches d)"
  shows "distinct (expired_dispatches skip now limit d)" and "set (expired_dispatches skip now limit d) \<subseteq> set (db_dispatches d)"
    and "\<forall>r \<in> set (expired_dispatches skip now limit d). dr_status r = DispatchLeased"
proof -
  have "distinct (db_dispatches d)" using assms by (simp add: rows_ok_def distinct_map)
  then show "distinct (expired_dispatches skip now limit d)" by (simp add: expired_dispatches_def order_by_def)
  show "set (expired_dispatches skip now limit d) \<subseteq> set (db_dispatches d)" "\<forall>r \<in> set (expired_dispatches skip now limit d). dr_status r = DispatchLeased"
    by (auto simp: expired_dispatches_def order_by_def dest!: in_set_takeD)
qed

lemma ReapExpired_outcome:
  assumes w: "world_ok d" and pos: "0 < limit"
  shows "outcome db_error (\<lambda>(n, d'). world_ok d' \<and>
      (\<forall>r \<in> set (expired_dispatches skip (timestamptz clock) limit d). reaped current d' r))
    (ReapExpired op skip clock current limit d)"
proof -
  let ?M = "\<lambda>w. (wk_status w = WorkerActive \<or> wk_status w = WorkerDraining) \<and>
      wk_last_heartbeat_at w < timestamptz (timestamptz clock - 3 * op_WorkerHeartbeatInterval op)"
  let ?C = "\<lambda>w. w\<lparr>wk_status := WorkerOffline\<rparr>"
  have eq: "ReapExpired op skip clock current limit d = bindR (update_workers ?M ?C d) (\<lambda>d.
      bindR (foldR (reapDispatch current) (expired_dispatches skip (timestamptz clock) limit d) d)
        (\<lambda>d'. Inr (int (length (expired_dispatches skip (timestamptz clock) limit d)), d')))"
    using pos by (simp add: ReapExpired_def Let_def)
  show ?thesis unfolding eq
  proof (rule outcome_bindR [OF outcome_update_workers])
    fix d1 assume up: "update_workers ?M ?C d = Inr d1"
    have d1: "world_ok d1" "db_dispatches d1 = db_dispatches d" using update_workers_world(1,2) [OF w up] by simp_all
    have "find_run d1 = find_run d" using up by (auto simp: update_workers_def bindR_eq_Inr)
    then have ex: "expired_dispatches skip (timestamptz clock) limit d1 = expired_dispatches skip (timestamptz clock) limit d"
      by (simp add: expired_dispatches_def d1(2))
    let ?xs = "expired_dispatches skip (timestamptz clock) limit d"
    note x = expired_leased [OF world_okD(2) [OF d1(1)], of skip "timestamptz clock" limit]
    have "reapable current ?xs ?xs d1" using d1(1) x by (simp add: reapable_def ex)
    then have "outcome db_error (reapable current ?xs []) (foldR (reapDispatch current) ?xs d1)"
      by (rule outcome_foldR_rest) (rule reapDispatch_outcome)
    then show "outcome db_error (\<lambda>(n, d'). world_ok d' \<and> (\<forall>r \<in> set ?xs. reaped current d' r))
       (bindR (foldR (reapDispatch current) (expired_dispatches skip (timestamptz clock) limit d1) d1)
        (\<lambda>d'. Inr (int (length (expired_dispatches skip (timestamptz clock) limit d1)), d')))"
      unfolding ex by (rule outcome_bindR) (simp add: reapable_def)
  qed
qed

section \<open>Cancelling\<close>

lemma canceled_idle: "idle (tr_Status (canceled at t))"
  by (cases "tr_Status t") (auto simp: canceled_status idle_def)

lemma cancel_world:
  assumes w: "world_ok d" and g: "run_good d runID s cw" and u: "CancelRunSnapshot s at = Inr u" and live: "\<not> isWorkflowTerminal (run_status s)"
    and st: "store_change s u d = Inr d1"
    and up: "update_dispatches (\<lambda>r. dr_run_id r = runID \<and> is_active_dispatch r)
      (\<lambda>r. r\<lparr>dr_status := DispatchCanceled, dr_completed_at := Some at\<rparr>) d1 = Inr (n, d')"
  shows "world_ok d'" and "loadSnapshot d' runID = Inr (as_stored (next_revision u))" and "run_status u = WorkflowCanceled"
    and "\<forall>r \<in> set (db_dispatches d'). dr_run_id r = runID \<longrightarrow> \<not> is_active_dispatch r"
    and "j \<noteq> runID \<Longrightarrow> loadSnapshot d' j = loadSnapshot d j" and "same_runs d d'"
proof -
  note wd = world_okD [OF w] and g' = run_goodD [OF g]
  let ?M = "\<lambda>r. dr_run_id r = runID \<and> is_active_dispatch r"
  let ?C = "\<lambda>r :: dispatch_row. r\<lparr>dr_status := DispatchCanceled, dr_completed_at := Some at\<rparr>"
  let ?rows = "sql_update ?M ?C (db_dispatches d)"
  note d1 = store_change_step [OF wd(1) g cancel_run [OF u] st]
  have "db_dispatches d1 = db_dispatches d" using d1(2) by (simp add: only_run_def outside_def)
  then have up': "\<forall>r \<in> set (db_dispatches d). ?M r \<longrightarrow> dispatch_row_ok (?C r)" "dispatch_indexes_ok ?rows" "d' = d1\<lparr>db_dispatches := ?rows\<rparr>"
    using up unfolding update_dispatches_Inr by simp_all
  have ok: "rows_ok ?rows" by (rule sql_update_rows_ok [OF wd(2) _ up'(1,2)]) simp
  have only: "only_run runID (d\<lparr>db_dispatches := ?rows\<rparr>) d'" using only_run_dispatches [OF d1(2)] up'(3) by simp
  note o = only_runD [OF only]
  have good: "run_good d' runID (as_stored (next_revision u)) cw" using d1(3) by (simp add: up'(3) dispatches_frame)
  show "loadSnapshot d' runID = Inr (as_stored (next_revision u))" by (rule run_goodD(1) [OF good])
  show "loadSnapshot d' j = loadSnapshot d j" if "j \<noteq> runID" using o(5) [OF that] .
  show none: "\<forall>r \<in> set (db_dispatches d'). dr_run_id r = runID \<longrightarrow> \<not> is_active_dispatch r"
  proof (intro ballI impI)
    fix r assume "r \<in> set (db_dispatches d')" and run: "dr_run_id r = runID"
    then obtain x where r: "r = (if ?M x then ?C x else x)" by (auto simp: o(1) sql_update_mem)
    show "\<not> is_active_dispatch r"
    proof (cases "?M x")
      case True
      then have "r = ?C x" using r by simp
      then show ?thesis by (simp add: is_active_dispatch_def)
    next
      case False
      then have "r = x" using r by auto
      with False run show ?thesis by simp
    qed
  qed
  have ts: "run_status u = WorkflowCanceled" "run_tasks u = map (canceled at) (run_tasks s)"
    using CancelRunSnapshot_returns [OF g'(3,4) live, of at] u by auto
  show "run_status u = WorkflowCanceled" by fact
  have none': "owner ?rows runID k = None" for k
    using none owner_iff [OF ok, of runID k] by (cases "owner ?rows runID k") (auto simp: o(1))
  have ids: "\<exists>x \<in> set (db_dispatches d). dr_run_id x = dr_run_id r \<and> dr_task_key x = dr_task_key r" if "r \<in> set ?rows" for r
    using that by (auto simp: sql_update_mem split: if_splits)
  have own: "owned (db_dispatches d) runID (run_tasks s)" using run_ok_load [OF wd(5) [OF load_find [OF g'(1)]] g'(1)] by metis
  have "map tr_Key (run_tasks u) = map tr_Key (run_tasks s)"
    using run_step_effect [OF cancel_run [OF u] g'(3,4)] by (simp add: evolves_def same_frame_def)
  then have keys: "tr_Key ` set (run_tasks u) = tr_Key ` set (run_tasks s)" by (metis set_map)
  have "dr_task_key r \<in> tr_Key ` set (run_tasks u)" if "r \<in> set ?rows" "dr_run_id r = runID" for r
    using ids [OF that(1)] that(2) own unfolding keys owned_def by metis
  moreover have "fits None t" if "t \<in> set (run_tasks u)" for t using that by (auto simp: ts(2) fits_def canceled_idle)
  ultimately have "owned ?rows runID (run_tasks u)" by (simp add: owned_def none')
  moreover have "busy (run_tasks u) = 0" by (simp add: busy_def ts(2) filter_empty_conv canceled_idle)
  moreover have "0 < wd_Concurrency (cw_definition cw)" using g'(3) by (simp add: wf_compiled_def Let_def)
  ultimately have this_run: "run_ok d' runID"
    unfolding run_ok_def o(1) using good by (intro exI [of _ "as_stored (next_revision u)"] exI [of _ cw]) simp
  have other: "run_ok d' j" if j: "j \<noteq> runID" "find_run d j \<noteq> None" for j
  proof (rule run_ok_other [OF wd(5) [OF j(2)] o(5) [OF j(1)]])
    show "owner (db_dispatches d') j k = owner (db_dispatches d) j k" for k
    proof (rule option_eqI)
      show "owner (db_dispatches d') j k = Some x \<longleftrightarrow> owner (db_dispatches d) j k = Some x" for x
        unfolding o(1) owner_iff [OF ok] owner_iff [OF wd(2)] sql_update_mem using j(1) by (auto split: if_splits)
    qed
    show "\<exists>x \<in> set (db_dispatches d). dr_run_id x = j \<and> dr_task_key x = dr_task_key r"
      if "r \<in> set (db_dispatches d')" "dr_run_id r = j" for r
      using ids [of r] that o(1) by auto
  qed
  have runs: "find_run d' j \<noteq> None \<longleftrightarrow> find_run d j \<noteq> None" for j
    using o(4) [of j] load_find [OF run_goodD(1) [OF good]] load_find [OF g'(1)] by (cases "j = runID") auto
  then show "same_runs d d'" unfolding same_runs_def by blast
  have "find_run d' (dr_run_id r) \<noteq> None" if "r \<in> set ?rows" for r using ids [OF that] wd(4) runs by metis
  moreover have "run_ok d' j" if "find_run d' j \<noteq> None" for j
    using that this_run other [of j] runs [of j] by (cases "j = runID") auto
  moreover have "workers_ok d'"
  proof (rule workers_ok_fewer [OF wd(3) o(2)])
    show "leases (db_dispatches d') x \<le> leases (db_dispatches d) x" for x unfolding o(1) by (rule leases_update) simp
    show "\<exists>x \<in> set (db_dispatches d). dr_worker_id x = Some wid" if "r \<in> set (db_dispatches d')" "dr_worker_id r = Some wid" for r wid
      using that by (auto simp: o(1) sql_update_mem split: if_splits)
  qed
  moreover have "tables_ok d'" using d1(1) by (simp add: up'(3) dispatches_frame)
  ultimately show "world_ok d'" using ok by (simp add: world_ok_def o(1))
qed

lemma CancelRun_outcome:
  assumes w: "world_ok d" and run: "find_run d runID \<noteq> None"
  shows "outcome (\<lambda>e. db_error e \<or> e = Errorf ''Run %s cancellation was not requested'')
    (\<lambda>d'. world_ok d' \<and> same_runs d d' \<and> (\<exists>s. loadSnapshot d' runID = Inr s \<and> isWorkflowTerminal (run_status s)) \<and>
       (\<forall>r \<in> set (db_dispatches d'). dr_run_id r = runID \<longrightarrow> \<not> is_active_dispatch r))
    (pg_CancelRun clock runID d)"
proof -
  let ?E = "\<lambda>e. db_error e \<or> e = Errorf ''Run %s cancellation was not requested''"
  let ?P = "\<lambda>d'. world_ok d' \<and> same_runs d d' \<and> (\<exists>s. loadSnapshot d' runID = Inr s \<and> isWorkflowTerminal (run_status s)) \<and>
       (\<forall>r \<in> set (db_dispatches d'). dr_run_id r = runID \<longrightarrow> \<not> is_active_dispatch r)"
  note wd = world_okD [OF w]
  obtain s cw where s: "run_good d runID s cw" "owned (db_dispatches d) runID (run_tasks s)" using wd(5) [OF run] by (auto simp: run_ok_def)
  note g = run_goodD [OF s(1)]
  consider "isWorkflowTerminal (run_status s)" | "\<not> isWorkflowTerminal (run_status s)" "wr_CancelRequestedAt (rs_Run s) = None"
    | "\<not> isWorkflowTerminal (run_status s)" "wr_CancelRequestedAt (rs_Run s) \<noteq> None" by blast
  then show ?thesis
  proof cases
    case 1
    have "\<not> is_active_dispatch r" if r: "r \<in> set (db_dispatches d)" "dr_run_id r = runID" for r
    proof
      assume a: "is_active_dispatch r"
      obtain s' cw' i where i: "run_good d (dr_run_id r) s' cw'" "i < length (run_tasks s')" "fits (Some r) (run_tasks s' ! i)"
        using active_row_task [OF w r(1) a] by metis
      then have "s' = s" "cw' = cw" using run_good_unique [OF s(1)] r(2) by auto
      then have "i < task_count cw" "active (status_of s i)" "status_of s i \<noteq> TaskReady"
        using i g(7) by (auto simp: fits_def active_def split: if_splits)
      from run_inv_running [OF g(4) this] show False using 1 by simp
    qed
    then have "?P d" using w g(1) 1 unfolding same_runs_def by blast
    then show ?thesis using 1 run g(1) by (auto simp: pg_CancelRun_def Let_def)
  next
    case 2
    then show ?thesis using run g(1) by (auto simp: pg_CancelRun_def Let_def)
  next
    case 3
    obtain u where u: "CancelRunSnapshot s (timestamptz clock) = Inr u" using CancelRunSnapshot_returns [OF g(3,4) 3(1)] by blast
    let ?up = "update_dispatches (\<lambda>r. dr_run_id r = runID \<and> is_active_dispatch r)
      (\<lambda>r. r\<lparr>dr_status := DispatchCanceled, dr_completed_at := Some (timestamptz clock)\<rparr>)"
    have eq: "pg_CancelRun clock runID d = bindR (store_change s u d) (\<lambda>d. bindR (?up d) (\<lambda>(n, d). Inr d))"
      using run g(1) 3 u by (auto simp: pg_CancelRun_def Let_def)
    have "outcome db_error ?P (pg_CancelRun clock runID d)" unfolding eq
    proof (rule outcome_bindR [OF outcome_store_change [OF wd(1) s(1) cancel_run [OF u]]])
      fix d1 assume st: "store_change s u d = Inr d1"
      show "outcome db_error ?P (bindR (?up d1) (\<lambda>(n, d). Inr d))"
      proof (rule outcome_bindR [where P = "\<lambda>nd. ?up d1 = Inr nd"])
        show "outcome db_error (\<lambda>nd. ?up d1 = Inr nd) (?up d1)" by (rule outcome_update_dispatches) simp
      next
        fix nd assume "?up d1 = Inr nd"
        then obtain n d' where nd: "nd = (n, d')" and up: "?up d1 = Inr (n, d')" by (cases nd) auto
        note c = cancel_world [OF w s(1) u 3(1) st up]
        show "outcome db_error ?P (case nd of (n, d) \<Rightarrow> Inr d)" using c(1-4,6) by (simp add: nd)
      qed
    qed
    then show ?thesis by (rule outcome_weaken) auto
  qed
qed

section \<open>Workers\<close>

lemma insert_worker_world:
  assumes w: "world_ok d" and ins: "insert_worker x d = Inr d'"
  shows "world_ok d'" and "d' = d\<lparr>db_workers := db_workers d @ [x]\<rparr>"
proof -
  note wd = world_okD [OF w]
  have i: "worker_row_ok x" "find_worker d (wk_worker_id x) = None" and d': "d' = d\<lparr>db_workers := db_workers d @ [x]\<rparr>"
    using ins by (auto simp: insert_worker_def split: if_splits)
  show "d' = d\<lparr>db_workers := db_workers d @ [x]\<rparr>" by fact
  have new: "wk_worker_id x \<notin> wk_worker_id ` set (db_workers d)" using i(2) by (auto simp: find_worker_def find_None_iff)
  then have fresh: "leases (db_dispatches d) (wk_worker_id x) = 0"
    using worker_known [OF wd(3)] by (auto simp: leases_def filter_empty_conv)
  moreover have "1 \<le> wk_max_concurrency x" using i(1) by (simp add: worker_row_ok_def)
  ultimately have "workers_ok d'" using wd(3) i(1) new by (auto simp: workers_ok_def d' active_leases_rows)
  then show "world_ok d'" by (intro world_frame [OF w]) (use wd in \<open>simp_all add: d' workers_frame\<close>)
qed

lemma register_attempts_outcome:
  "world_ok d \<Longrightarrow> outcome (\<lambda>e. True) (\<lambda>((summary, token), d'). world_ok d' \<and>
     (\<exists>w. d' = d\<lparr>db_workers := db_workers d @ [w]\<rparr> \<and> ws_WorkerID summary = wk_worker_id w \<and>
        find_worker d (wk_worker_id w) = None \<and> wk_status w = WorkerActive \<and>
        wk_session_token_hash w = DigestToken sha token))
   (register_attempts sha random now request tries n d)"
proof (induction tries arbitrary: n)
  case (Suc tries)
  show ?case
  proof (cases "GenerateToken random n")
    case (Inr suffix)
    show ?thesis
    proof (cases "GenerateToken random (n + 1)")
      case (Inr token)
      define w where "w = \<lparr>wk_worker_id = ''wrk_'' @ suffix, wk_display_name = rq_DisplayName request,
              wk_protocol_version = rq_ProtocolVersion request, wk_executor_kinds = rq_ExecutorKinds request,
              wk_max_concurrency = rq_MaxConcurrency request, wk_status = WorkerActive,
              wk_session_token_hash = DigestToken sha token, wk_registered_at = now, wk_last_heartbeat_at = now,
              wk_stopped_at = None\<rparr>"
      have eq: "register_attempts sha random now request (Suc tries) n d =
        (case insert_worker w d of
           Inr d \<Rightarrow> Inr (((summary_of d w)\<lparr>ws_ActiveLeases := 0\<rparr>, token), d)
         | Inl e \<Rightarrow>
             if e \<noteq> SqlError ''worker_sessions_pkey'' \<and> e \<noteq> SqlError ''worker_sessions_token_hash_unique''
               then Inl (Errorf ''insert Worker session: %w'')
             else register_attempts sha random now request tries (n + 2) d)"
        unfolding register_attempts.simps \<open>GenerateToken random n = Inr suffix\<close> Inr bindR.simps Let_def w_def by (rule refl)
      show ?thesis
      proof (cases "insert_worker w d")
        case (Inl e)
        then show ?thesis unfolding eq using Suc.IH [OF Suc.prems, of "n + 2"] by simp
      next
        case (Inr d')
        have "find_worker d (wk_worker_id w) = None" using Inr by (auto simp: insert_worker_def split: if_splits)
        then show ?thesis unfolding eq using Inr insert_worker_world [OF Suc.prems Inr]
          by (auto simp: summary_of_def intro!: exI [of _ w]) (simp_all add: w_def)
      qed
    qed (simp add: Inr)
  qed simp
qed simp

lemma RegisterWorker_world:
  assumes "world_ok d" and "RegisterWorker sha random clock request d = Inr ((summary, token), d')"
  shows "world_ok d'"
proof -
  obtain normalized where "register_attempts sha random (timestamptz clock) normalized 3 0 d = Inr ((summary, token), d')"
    using assms(2) by (auto simp: RegisterWorker_def bindR_eq_Inr)
  then show ?thesis using register_attempts_outcome [OF assms(1), of sha random "timestamptz clock" normalized 3 0] by simp
qed

lemma DrainWorker_world:
  assumes w: "world_ok d" and dr: "DrainWorker clock workerID d = Inr (summary, d')"
  shows "world_ok d'"
  using dr by (auto simp: DrainWorker_def Let_def bindR_eq_Inr split: option.splits intro: update_workers_world(1) [OF w])

section \<open>Requesting cancellation\<close>

lemma cancel_requested_inv: "run_inv cw s \<Longrightarrow> run_inv cw (cancel_requested at s)"
  by (auto simp: cancel_requested_def upd_run_def run_inv_def shape_ok_def clock_ok_def log_ok_def)

lemma cancel_requested_frame [simp]:
  "run_tasks (cancel_requested at s) = run_tasks s" "run_status (cancel_requested at s) = run_status s"
  "rs_Definition (cancel_requested at s) = rs_Definition s"
  by (simp_all add: cancel_requested_def upd_run_def)

lemma as_stored_cancel_requested: "as_stored (cancel_requested at s) = cancel_requested at (as_stored s)"
  by (cases s; cases "rs_Run s") (auto simp: cancel_requested_def as_stored_def upd_run_def timestamptz_def)

lemma cancel_requested_stored: "as_stored s = s \<Longrightarrow> as_stored (cancel_requested at s) = cancel_requested at s"
  by (simp add: as_stored_cancel_requested)

text \<open>A change of one run's record that keeps its tasks.\<close>

lemma world_run_change:
  assumes w: "world_ok d" and g: "run_good d runID s cw" and good: "run_good d' runID s' cw" and tasks: "run_tasks s' = run_tasks s"
    and t: "tables_ok d'" and only: "only_run runID d d'"
  shows "world_ok d'"
proof -
  note wd = world_okD [OF w]
  have o: "only_run runID (d\<lparr>db_dispatches := db_dispatches d\<rparr>) d'" using only by simp
  note o = only_runD [OF o]
  have runs: "find_run d' j \<noteq> None \<longleftrightarrow> find_run d j \<noteq> None" for j
    using o(4) [of j] load_find [OF run_goodD(1) [OF good]] load_find [OF run_goodD(1) [OF g]] by (cases "j = runID") auto
  have "run_ok d' j" if j: "find_run d' j \<noteq> None" for j
  proof (cases "j = runID")
    case True
    obtain cw' where c: "run_good d runID s cw'" "owned (db_dispatches d) runID (run_tasks s)" "int (busy (run_tasks s)) \<le> wd_Concurrency (cw_definition cw')"
      using run_ok_load [OF wd(5) run_goodD(1) [OF g]] load_find [OF run_goodD(1) [OF g]] by metis
    then have "cw' = cw" using run_good_unique [OF g] by blast
    then show ?thesis using c good tasks True o(1) unfolding run_ok_def by metis
  next
    case False
    with j have "find_run d j \<noteq> None" using o(4) by simp
    from run_ok_other [OF wd(5) [OF this] o(5) [OF False]] o(1) show ?thesis by auto
  qed
  moreover have "find_run d' (dr_run_id r) \<noteq> None" if "r \<in> set (db_dispatches d')" for r using that wd(4) runs o(1) by metis
  moreover have "workers_ok d'" using workers_ok_fewer [OF wd(3) o(2)] o(1) by auto
  ultimately show ?thesis using t wd(2) o(1) by (simp add: world_ok_def)
qed

lemma RequestCancel_world:
  assumes w: "world_ok d" and rc: "pg_RequestCancel runID at d = Inr (run, d')"
  shows "world_ok d'"
proof -
  note wd = world_okD [OF w]
  have f: "find_run d runID \<noteq> None" using rc by (auto simp: pg_RequestCancel_def split: option.splits)
  obtain s cw where g: "run_good d runID s cw" using wd(5) [OF f] by (auto simp: run_ok_def)
  note g' = run_goodD [OF g]
  show ?thesis
  proof (cases "wr_Revision (rs_Run s) < 2 ^ 63 - 1")
    case True
    from request_cancel_load [OF wd(1) g'(1) True, of at] rc
    have d': "tables_ok d'" "only_run runID d d'" "loadSnapshot d' runID = Inr (cancel_requested at s)" by auto
    have "run_good d' runID (cancel_requested at s) cw"
      using g d'(3) cancel_requested_inv cancel_requested_stored unfolding run_good_def by metis
    from world_run_change [OF w g this _ d'(1,2)] show ?thesis by simp
  next
    case False
    obtain r cw where ld: "loadable d runID r cw" and s: "s = loaded d runID r cw" using g'(1) load_iff [OF wd(1)] by metis
    have fr: "find_run d runID = Some r" using ld by (simp add: loadable_def)
    have "wr_Revision (rs_Run s) = of_int (rr_revision r)" by (simp add: s loaded_def run_of_row_def)
    then have "uint (wr_Revision (rs_Run s)) = rr_revision r" using uint_of_bigint tables_run(2,3) [OF wd(1) fr] by simp
    then have "\<not> rr_revision r + 1 < 2 ^ 63" using False by (simp add: word_less_def)
    then have "d' = d" using rc fr by (auto simp: pg_RequestCancel_def bindR_eq_Inr split: if_splits)
    then show ?thesis using w by simp
  qed
qed

end
