(* ===== verification/Coordinator.thy ===== *)
theory Coordinator
  imports Dispatch_System
begin

text \<open>
  The dispatch coordinator (\<^verbatim>\<open>internal/dispatch/coordinator.go\<close>): it holds the
  single-coordinator lock and drives the scans of the dispatch store. Its two background
  loops, the callers of \<^verbatim>\<open>Start\<close>, \<^verbatim>\<open>Wake\<close>,
  \<^verbatim>\<open>Cancel\<close> and \<^verbatim>\<open>Close\<close> and the critical sections of its mutex
  are the steps of a relation, so that every interleaving is covered. Metrics are not
  modelled: no decision depends on them.
\<close>

section \<open>State\<close>

record CoordinatorOptions =
  oo_ScanInterval :: duration
  oo_LockCheckInterval :: duration
  oo_LockCheckTimeout :: duration
  oo_BatchSize :: int

definition normalize_options :: "CoordinatorOptions \<Rightarrow> CoordinatorOptions" where
  "normalize_options o' =
     \<lparr>oo_ScanInterval = (if oo_ScanInterval o' \<le> 0 then 1000000000 else oo_ScanInterval o'),
      oo_LockCheckInterval = (if oo_LockCheckInterval o' \<le> 0 then 5 * 1000000000 else oo_LockCheckInterval o'),
      oo_LockCheckTimeout = (if oo_LockCheckTimeout o' \<le> 0 then 2 * 1000000000 else oo_LockCheckTimeout o'),
      oo_BatchSize = (if oo_BatchSize o' \<le> 0 then 100 else oo_BatchSize o')\<rparr>"

text \<open>
  \<open>co_acquiring\<close>: a \<^verbatim>\<open>Start\<close> is between its two critical sections.
  \<open>co_running\<close>: the run context exists and is not cancelled. \<open>co_lock\<close>: the lock was
  acquired and is not released. \<open>co_scanning\<close> and \<open>co_checking\<close>: the two loops run.
  \<open>co_release\<close>: \<^verbatim>\<open>Close\<close> found a lock to release. \<open>co_done\<close>: the closed channel \<^verbatim>\<open>closeDone\<close> with \<^verbatim>\<open>closeErr\<close>.
\<close>

record DispatchCoordinator =
  co_options :: CoordinatorOptions
  co_ready :: bool
  co_started :: bool
  co_acquiring :: bool
  co_closing :: bool
  co_lock :: bool
  co_running :: bool
  co_wake :: bool
  co_errors :: "werror option"
  co_fatal :: bool
  co_scanning :: bool
  co_checking :: bool
  co_release :: bool
  co_done :: "unit res option"

definition NewCoordinator :: "CoordinatorOptions \<Rightarrow> DispatchCoordinator" where
  "NewCoordinator o' =
     \<lparr>co_options = normalize_options o', co_ready = False, co_started = False, co_acquiring = False, co_closing = False, co_lock = False,
      co_running = False, co_wake = False, co_errors = None, co_fatal = False, co_scanning = False, co_checking = False,
      co_release = False, co_done = None\<rparr>"

section \<open>Operations\<close>

text \<open>The two critical sections of \<^verbatim>\<open>Start\<close>, before and after the lock is acquired.\<close>

definition start_check :: "bool \<Rightarrow> DispatchCoordinator \<Rightarrow> DispatchCoordinator res" where
  "start_check dependencies c =
     (if co_started c \<or> co_closing c then Inl (Errorf ''dispatch coordinator has already been started or closed'')
      else if \<not> dependencies then Inl (Errorf ''dispatch coordinator dependencies are required'')
      else Inr (c\<lparr>co_started := True, co_acquiring := True\<rparr>))"

definition start_run :: "DispatchCoordinator \<Rightarrow> DispatchCoordinator" where
  "start_run c = c\<lparr>co_acquiring := False, co_lock := True, co_running := True, co_ready := True, co_scanning := True, co_checking := True\<rparr>"

definition coordinator_Start :: "bool \<Rightarrow> unit res \<Rightarrow> DispatchCoordinator \<Rightarrow> unit res \<times> DispatchCoordinator" where
  "coordinator_Start dependencies acquired c =
     (case start_check dependencies c of
        Inl e \<Rightarrow> (Inl e, c)
      | Inr c \<Rightarrow>
          (case acquired of
             Inl e \<Rightarrow> (Inl (Errorf ''acquire dispatch coordinator lock: %w''), c\<lparr>co_acquiring := False\<rparr>)
           | Inr _ \<Rightarrow> (Inr (), start_run c)))"

definition Ready :: "DispatchCoordinator \<Rightarrow> bool" where
  "Ready c \<longleftrightarrow> co_ready c \<and> \<not> co_closing c"

definition Wake :: "DispatchCoordinator \<Rightarrow> DispatchCoordinator" where
  "Wake c = (if Ready c then c\<lparr>co_wake := True\<rparr> else c)"

definition coordinator_Cancel ::
  "time \<Rightarrow> RunID \<Rightarrow> DispatchCoordinator \<Rightarrow> db \<Rightarrow> unit res \<times> DispatchCoordinator \<times> db" where
  "coordinator_Cancel clock runID c d =
     (if \<not> Ready c then (Inl ErrCoordinatorNotReady, c, d)
      else case pg_CancelRun clock runID d of
        Inl e \<Rightarrow> (Inl e, c, d)
      | Inr d \<Rightarrow> (Inr (), Wake c, d))"

definition fail :: "werror \<Rightarrow> DispatchCoordinator \<Rightarrow> DispatchCoordinator" where
  "fail e c =
     (if co_fatal c then c
      else c\<lparr>co_fatal := True, co_ready := False, co_running := False,
             co_errors := (case co_errors c of None \<Rightarrow> Some e | Some e' \<Rightarrow> Some e')\<rparr>)"

text \<open>What one round of the scan reads from its surroundings: the options of the store, the
  random source, the rows other transactions hold, and the clocks of the transactions.\<close>

record scan_env =
  en_options :: options
  en_random :: random
  en_held_runs :: "RunID \<Rightarrow> bool"
  en_held_dispatches :: "dispatch_row \<Rightarrow> bool"
  en_cancel_clock :: "RunID \<Rightarrow> time"
  en_reap_clock :: time
  en_reap_times :: "string \<Rightarrow> time"
  en_schedule_clock :: time

definition scan_round :: "scan_env \<Rightarrow> int \<Rightarrow> db \<Rightarrow> int res \<times> db" where
  "scan_round env batch d =
     (case CancelRequestedRuns (en_cancel_clock env) batch d of
        (Inl e, d) \<Rightarrow> (Inl (Errorf ''reconcile requested Run cancellations: %w''), d)
      | (Inr _, d) \<Rightarrow>
          (case ReapExpired (en_options env) (en_held_dispatches env) (en_reap_clock env) (en_reap_times env) batch d of
             Inl e \<Rightarrow> (Inl (Errorf ''reap expired task leases: %w''), d)
           | Inr (_, d) \<Rightarrow>
               (case CreateDispatches (en_random env) (en_held_runs env) (en_schedule_clock env) batch d of
                  Inl e \<Rightarrow> (Inl (Errorf ''create task dispatches: %w''), d)
                | Inr (created, d) \<Rightarrow> (Inr created, d))))"

text \<open>An iteration of \<^verbatim>\<open>scanLoop\<close> up to its \<^verbatim>\<open>select\<close>; the flag says that
  it goes on at once because tasks were dispatched.\<close>

definition scan_failed :: "werror \<Rightarrow> DispatchCoordinator \<Rightarrow> DispatchCoordinator" where
  "scan_failed e c = (if co_running c then fail e c else c)\<lparr>co_scanning := False\<rparr>"

definition scan_iteration :: "scan_env \<Rightarrow> DispatchCoordinator \<Rightarrow> db \<Rightarrow> bool \<times> DispatchCoordinator \<times> db" where
  "scan_iteration env c d =
     (case scan_round env (oo_BatchSize (co_options c)) d of
        (Inl e, d) \<Rightarrow> (False, scan_failed e c, d)
      | (Inr created, d) \<Rightarrow> (created > 0, c, d))"

definition lock_check :: "unit res \<Rightarrow> DispatchCoordinator \<Rightarrow> DispatchCoordinator" where
  "lock_check checked c =
     (case checked of
        Inr _ \<Rightarrow> c
      | Inl e \<Rightarrow> (if co_running c then fail (Errorf ''check dispatch coordinator lock: %w'') c else c)\<lparr>co_checking := False\<rparr>)"

text \<open>
  \<^verbatim>\<open>Close\<close>: what it does once, and what follows when the loops have ended. The
  lock and the cancel function it uses are those it finds when it begins.
\<close>

definition close_begin :: "DispatchCoordinator \<Rightarrow> DispatchCoordinator" where
  "close_begin c =
     (if co_closing c then c
      else c\<lparr>co_closing := True, co_ready := False, co_running := False, co_release := co_lock c\<rparr>)"

definition close_finish :: "unit res \<Rightarrow> DispatchCoordinator \<Rightarrow> DispatchCoordinator" where
  "close_finish unlocked c =
     (if co_release c then c\<lparr>co_done := Some unlocked, co_lock := False\<rparr> else c\<lparr>co_done := Some (Inr ())\<rparr>)"

section \<open>Steps\<close>

text \<open>
  An iteration of the scan may happen at once or transaction by transaction, with other
  steps in between; the connection may fail at any of them. \<open>co_parent\<close>: the context that
  \<^verbatim>\<open>Start\<close> was given ends, which nothing records in the coordinator.
\<close>

inductive co_step :: "DispatchCoordinator \<times> db \<Rightarrow> DispatchCoordinator \<times> db \<Rightarrow> bool" where
  co_start: "start_check dependencies c = Inr c' \<Longrightarrow> co_step (c, d) (c', d)"
| co_acquired: "co_acquiring c \<Longrightarrow> co_step (c, d) (start_run c, d)"
| co_refused: "co_acquiring c \<Longrightarrow> co_step (c, d) (c\<lparr>co_acquiring := False\<rparr>, d)"
| co_wake: "co_step (c, d) (Wake c, d)"
| co_cancel: "coordinator_Cancel clock runID c d = (r, c', d') \<Longrightarrow> co_step (c, d) (c', d')"
| co_scan: "co_scanning c \<Longrightarrow> scan_iteration env c d = (again, c', d') \<Longrightarrow> co_step (c, d) (c', d')"
| co_reconcile: "co_scanning c \<Longrightarrow> pg_CancelRun clock runID d = Inr d' \<Longrightarrow> co_step (c, d) (c, d')"
| co_reap: "co_scanning c \<Longrightarrow> ReapExpired op held clock current (oo_BatchSize (co_options c)) d = Inr (n, d') \<Longrightarrow> co_step (c, d) (c, d')"
| co_dispatch: "co_scanning c \<Longrightarrow> CreateDispatches random held clock (oo_BatchSize (co_options c)) d = Inr (n, d') \<Longrightarrow> co_step (c, d) (c, d')"
| co_broken: "co_scanning c \<Longrightarrow> co_step (c, d) (scan_failed e c, d)"
| co_parent: "co_step (c, d) (c\<lparr>co_running := False\<rparr>, d)"
| co_stop_scanning: "co_scanning c \<Longrightarrow> \<not> co_running c \<Longrightarrow> co_step (c, d) (c\<lparr>co_scanning := False\<rparr>, d)"
| co_woken: "co_scanning c \<Longrightarrow> co_step (c, d) (c\<lparr>co_wake := False\<rparr>, d)"
| co_check: "co_checking c \<Longrightarrow> co_step (c, d) (lock_check checked c, d)"
| co_stop_checking: "co_checking c \<Longrightarrow> \<not> co_running c \<Longrightarrow> co_step (c, d) (c\<lparr>co_checking := False\<rparr>, d)"
| co_read_error: "co_step (c, d) (c\<lparr>co_errors := None\<rparr>, d)"
| co_close: "co_step (c, d) (close_begin c, d)"
| co_closed: "co_closing c \<Longrightarrow> \<not> co_scanning c \<Longrightarrow> \<not> co_checking c \<Longrightarrow> co_done c = None \<Longrightarrow>
    co_step (c, d) (close_finish unlocked c, d)"

text \<open>The life cycle: ready only with the lock and no failure, a live context only while ready; the loops run
  only with the lock; a close that found the lock releases it after the loops.\<close>

definition co_ok :: "DispatchCoordinator \<Rightarrow> bool" where
  "co_ok c \<longleftrightarrow>
     (co_running c \<longrightarrow> co_ready c) \<and>
     (co_ready c \<longrightarrow> co_lock c \<and> \<not> co_fatal c) \<and>
     (co_scanning c \<or> co_checking c \<longrightarrow> co_lock c) \<and>
     (co_lock c \<or> co_acquiring c \<or> co_fatal c \<longrightarrow> co_started c) \<and>
     (co_acquiring c \<longrightarrow> \<not> co_lock c \<and> \<not> co_fatal c \<and> \<not> co_release c) \<and>
     (co_release c \<longrightarrow> co_closing c \<and> co_started c \<and> \<not> co_ready c) \<and>
     (co_done c \<noteq> None \<longrightarrow> co_closing c \<and> (co_release c \<longrightarrow> \<not> co_lock c)) \<and>
     0 < oo_BatchSize (co_options c)"

section \<open>Rounds of the scan keep the database invariant\<close>

lemma cancel_runs_world:
  assumes "world_ok d" and "\<forall>i \<in> set ids. find_run d i \<noteq> None"
  shows "world_ok (snd (cancel_runs clock ids d))"
  using assms
proof (induction ids arbitrary: d)
  case (Cons i ids)
  show ?case
  proof (cases "pg_CancelRun (clock i) i d")
    case (Inr d1)
    have o: "world_ok d1" "same_runs d d1" using CancelRun_outcome [OF Cons.prems(1), of i "clock i"] Cons.prems(2) Inr by simp_all
    have "\<forall>i \<in> set ids. find_run d1 i \<noteq> None" using Cons.prems(2) o(2) by (simp add: same_runs_def)
    then show ?thesis using Cons.IH [OF o(1)] Inr by simp
  qed (use Cons.prems in simp)
qed simp

lemma find_run_row: "r \<in> set (db_runs d) \<Longrightarrow> find_run d (rr_run_id r) \<noteq> None"
  by (auto simp: find_run_def find_None_iff)

lemma CancelRequestedRuns_world:
  assumes "world_ok d"
  shows "world_ok (snd (CancelRequestedRuns clock limit d))"
proof -
  let ?ids = "map rr_run_id (take (nat limit) (order_by (\<lambda>r. case rr_cancel_requested_at r of None \<Rightarrow> 0 | Some t \<Rightarrow> t) (order_by rr_run_id
              (filter (\<lambda>r. rr_cancel_requested_at r \<noteq> None \<and> (rr_status r = WorkflowPending \<or> rr_status r = WorkflowRunning)) (db_runs d)))))"
  have "\<forall>i \<in> set ?ids. find_run d i \<noteq> None"
    by (auto simp: order_by_def dest!: in_set_takeD find_run_row)
  from cancel_runs_world [OF assms this, of clock] show ?thesis
    using assms by (auto simp: CancelRequestedRuns_def Let_def split: prod.splits sum.splits)
qed

lemma ReapExpired_world:
  assumes "world_ok d" and "ReapExpired op skip clock current limit d = Inr (n, d')"
  shows "world_ok d'"
proof -
  have "0 < limit" using assms(2) by (auto simp: ReapExpired_def split: if_splits)
  from ReapExpired_outcome [OF assms(1) this, of skip clock current op] assms(2) show ?thesis by simp
qed

lemma CreateDispatches_world:
  assumes "world_ok d" and "CreateDispatches random skip clock limit d = Inr (n, d')"
  shows "world_ok d'"
  using CreateDispatches_outcome [OF assms(1), of limit random skip clock] assms(2) by simp

lemma scan_round_world: "world_ok d \<Longrightarrow> world_ok (snd (scan_round env batch d))"
  using CancelRequestedRuns_world [of d "en_cancel_clock env" batch]
  by (auto simp: scan_round_def split: prod.splits sum.splits dest: ReapExpired_world CreateDispatches_world)

lemma CancelRun_world:
  assumes "world_ok d" and "pg_CancelRun clock runID d = Inr d'"
  shows "world_ok d'"
proof (cases "find_run d runID = None")
  case False
  then show ?thesis using assms CancelRun_outcome [of d runID clock] by simp
qed (use assms(2) in \<open>simp add: pg_CancelRun_def Let_def\<close>)

lemma co_step_world: "co_step s t \<Longrightarrow> world_ok (snd s) \<Longrightarrow> world_ok (snd t)"
proof (induction rule: co_step.induct)
  case (co_cancel clock runID c d r c' d')
  then show ?case by (auto simp: coordinator_Cancel_def split: if_splits sum.splits dest: CancelRun_world)
next
  case (co_scan c env d again c' d')
  then show ?case using scan_round_world [of d env "oo_BatchSize (co_options c)"]
    by (auto simp: scan_iteration_def split: prod.splits sum.splits)
qed (auto dest: CancelRun_world ReapExpired_world CreateDispatches_world)

lemma co_step_ok: "co_step s t \<Longrightarrow> co_ok (fst s) \<Longrightarrow> co_ok (fst t)"
  by (induction rule: co_step.induct)
     (auto simp: co_ok_def start_check_def start_run_def Wake_def Ready_def coordinator_Cancel_def scan_iteration_def scan_failed_def fail_def
       lock_check_def close_begin_def close_finish_def split: if_splits sum.splits prod.splits option.splits)

definition co_initial :: "DispatchCoordinator \<times> db \<Rightarrow> bool" where
  "co_initial s \<longleftrightarrow> (\<exists>o'. fst s = NewCoordinator o') \<and> world_ok (snd s)"

interpretation coordinator: invariant_machine co_initial co_step "\<lambda>s. co_ok (fst s) \<and> world_ok (snd s)"
proof
  show "co_initial s \<Longrightarrow> co_ok (fst s) \<and> world_ok (snd s)" for s
    by (auto simp: co_initial_def co_ok_def NewCoordinator_def normalize_options_def)
  show "co_ok (fst s) \<and> world_ok (snd s) \<Longrightarrow> co_step s t \<Longrightarrow> co_ok (fst t) \<and> world_ok (snd t)" for s t
    using co_step_world co_step_ok by blast
qed

text \<open>A coordinator that has failed or is closing, with no start under way, stays so.\<close>

definition gone :: "DispatchCoordinator \<Rightarrow> bool" where
  "gone c \<longleftrightarrow> co_ok c \<and> (co_fatal c \<or> co_closing c) \<and> (co_fatal c \<longrightarrow> co_started c) \<and> \<not> co_acquiring c"

lemma gone_step: "co_step s t \<Longrightarrow> gone (fst s) \<Longrightarrow> gone (fst t)"
proof -
  assume st: "co_step s t" and g: "gone (fst s)"
  have "co_ok (fst t)" using co_step_ok [OF st] g by (simp add: gone_def)
  moreover from st g have "(co_fatal (fst t) \<or> co_closing (fst t)) \<and> (co_fatal (fst t) \<longrightarrow> co_started (fst t)) \<and> \<not> co_acquiring (fst t)"
    by (induction rule: co_step.induct)
       (auto simp: gone_def start_check_def start_run_def Wake_def Ready_def coordinator_Cancel_def scan_iteration_def scan_failed_def fail_def
         lock_check_def close_begin_def close_finish_def co_ok_def split: if_splits sum.splits prod.splits option.splits)
  ultimately show "gone (fst t)" by (simp add: gone_def)
qed

lemma gone_run: "co_step\<^sup>*\<^sup>* s t \<Longrightarrow> gone (fst s) \<Longrightarrow> gone (fst t)"
  by (induction rule: rtranclp_induct) (auto intro: gone_step)

end
