(* ===== verification/Sql_Definitions.thy ===== *)
theory Sql_Definitions
  imports Sql_Create
begin

text \<open>
  Workflow definitions in the relational store (\<^verbatim>\<open>definitions.go\<close>) and the
  bounded reads of \<^verbatim>\<open>queries.go\<close>. A definition is stored in a
  \<^verbatim>\<open>JSONB\<close> column. The column keeps the values, not the text: a number comes
  back in the spelling of the \<^verbatim>\<open>numeric\<close> type, and a string with the code
  point 0 or a number out of range is refused. The spelling of numbers is PostgreSQL's and
  a parameter here.
\<close>

section \<open>The JSONB column\<close>

type_synonym numeric = "string \<Rightarrow> string option"

primrec jsonb :: "numeric \<Rightarrow> goval \<Rightarrow> goval option" where
  "jsonb numeric GNil = Some GNil"
| "jsonb numeric (GBool b) = Some (GBool b)"
| "jsonb numeric (GString w) = (if text_ok w then Some (GString w) else None)"
| "jsonb numeric (GNumber n) = (case n of None \<Rightarrow> None | Some w \<Rightarrow> map_option (\<lambda>v. GNumber (Some v)) (numeric w))"
| "jsonb numeric (GMap p string_keys es) =
     (case map_option (map (map_prod id (jsonb numeric))) es of
        None \<Rightarrow> Some GNil
      | Some entries \<Rightarrow>
          if \<not> list_all (\<lambda>(k, _). text_ok k) entries then None
          else map_option (\<lambda>vs. GMap p string_keys (Some (zip (map fst entries) vs))) (all_some (map snd entries)))"
| "jsonb numeric (GSlice p bytes es) =
     (case map_option (map (jsonb numeric)) es of
        None \<Rightarrow> Some GNil
      | Some elements \<Rightarrow> map_option (\<lambda>vs. GSlice p bytes (Some vs)) (all_some elements))"
| "jsonb numeric (GArray es) = map_option GArray (all_some (map (jsonb numeric) es))"
| "jsonb numeric GMarshaler = None"
| "jsonb numeric GTextMarshaler = None"
| "jsonb numeric GOther = None"

text \<open>An empty input is left out by \<^verbatim>\<open>omitempty\<close> and decoded as nil.\<close>

definition stored_input :: "numeric \<Rightarrow> task_input \<Rightarrow> task_input option" where
  "stored_input numeric input =
     (case input of
        None \<Rightarrow> Some None
      | Some (p, es) \<Rightarrow>
          if es = [] then Some None
          else (case jsonb numeric (json_decoded (input_value input) 0) of
                  Some (GMap q b (Some es')) \<Rightarrow> Some (Some (q, es'))
                | _ \<Rightarrow> None))"

definition stored_task_definition :: "numeric \<Rightarrow> TaskDefinition \<Rightarrow> TaskDefinition option" where
  "stored_task_definition numeric task =
     (if \<not> text_ok (td_Key task) \<or> \<not> text_ok (executor_str (td_Executor task)) \<or> \<not> text_ok (td_Action task) \<or>
         \<not> list_all text_ok (td_DependsOn task)
        then None
      else map_option (\<lambda>input. task\<lparr>td_Input := input\<rparr>) (stored_input numeric (td_Input task)))"

definition stored_definition :: "numeric \<Rightarrow> WorkflowDefinition \<Rightarrow> WorkflowDefinition option" where
  "stored_definition numeric def =
     (if \<not> text_ok (wd_ID def) then None
      else map_option (\<lambda>tasks. def\<lparr>wd_Tasks := tasks\<rparr>) (all_some (map (stored_task_definition numeric) (wd_Tasks def))))"

section \<open>Creating definitions and versions\<close>

definition operationCreateWorkflow :: string where
  "operationCreateWorkflow = ''create_workflow''"

definition operationCreateVersion :: string where
  "operationCreateVersion = ''create_workflow_version''"

definition resourceWorkflowVersion :: string where
  "resourceWorkflowVersion = ''workflow_version''"

record DefinitionRecord =
  dn_WorkflowID :: string
  dn_Version :: int

definition find_workflow :: "db \<Rightarrow> string \<Rightarrow> workflow_row option" where
  "find_workflow d workflowID = find (\<lambda>w. wo_id w = workflowID) (db_workflows d)"

definition insert_workflow :: "workflow_row \<Rightarrow> db \<Rightarrow> db res" where
  "insert_workflow row d =
     (if \<not> text_ok (wo_id row) \<or> \<not> text_ok (wo_created_by row) then Inl (SqlError ''invalid byte sequence'')
      else if find_workflow d (wo_id row) \<noteq> None then Inl (SqlError ''workflows_pkey'')
      else Inr (d\<lparr>db_workflows := db_workflows d @ [row]\<rparr>))"

definition insert_version :: "numeric \<Rightarrow> version_row \<Rightarrow> db \<Rightarrow> db res" where
  "insert_version numeric row d =
     (case stored_definition numeric (ve_definition row) of
        None \<Rightarrow> Inl (SqlError ''invalid jsonb value'')
      | Some stored \<Rightarrow>
          if \<not> text_ok (ve_workflow_id row) \<or> \<not> text_ok (ve_definition_hash row) \<or> \<not> text_ok (ve_created_by row)
            then Inl (SqlError ''invalid byte sequence'')
          else if \<not> int4 (ve_version row) then Inl (SqlError ''integer out of range'')
          else if find_version d (ve_workflow_id row) (ve_version row) \<noteq> None then Inl (SqlError ''workflow_versions_pkey'')
          else if find_workflow d (ve_workflow_id row) = None then Inl (SqlError ''workflow_versions_workflow_id_fkey'')
          else Inr (d\<lparr>db_versions := db_versions d @ [row\<lparr>ve_definition := stored\<rparr>]\<rparr>))"

definition replay_definition :: "idem_row \<Rightarrow> string \<Rightarrow> DefinitionRecord res" where
  "replay_definition record requestHash =
     bindR (validateReplay record requestHash resourceWorkflowVersion) (\<lambda>_.
     case ir_resource_version record of
       None \<Rightarrow> Inl (Errorf ''stored workflow idempotency record has no version'')
     | Some version \<Rightarrow> Inr \<lparr>dn_WorkflowID = ir_resource_id record, dn_Version = version\<rparr>)"

definition CreateDefinition ::
  "numeric \<Rightarrow> time \<Rightarrow> WorkflowDefinition \<Rightarrow> string \<Rightarrow> string \<Rightarrow> string \<Rightarrow> db \<Rightarrow> (DefinitionRecord \<times> db) res" where
  "CreateDefinition numeric clock def principalID idemKey requestHash d =
     bindR (validateIdempotencyInput principalID idemKey requestHash) (\<lambda>_.
     case definition_json def of None \<Rightarrow> Inl (Errorf ''encode workflow definition: %w'') | Some body \<Rightarrow>
     bindR (lockIdempotency principalID operationCreateWorkflow idemKey) (\<lambda>_.
     case loadIdempotency d principalID operationCreateWorkflow idemKey of
       Some record \<Rightarrow> bindR (replay_definition record requestHash) (\<lambda>r. Inr (r, d))
     | None \<Rightarrow>
         let now = timestamptz clock in
         case insert_workflow \<lparr>wo_id = wd_ID def, wo_latest_version = 1, wo_created_at = now, wo_created_by = principalID\<rparr> d of
           Inl e \<Rightarrow> Inl (if e = SqlError ''workflows_pkey'' then ErrWorkflowExists else e)
         | Inr d \<Rightarrow>
             bindR (insert_version numeric \<lparr>ve_workflow_id = wd_ID def, ve_version = 1, ve_definition = def,
                      ve_definition_hash = requestHash, ve_created_at = now, ve_created_by = principalID\<rparr> d) (\<lambda>d.
             bindR (insertIdempotency principalID operationCreateWorkflow idemKey requestHash resourceWorkflowVersion (wd_ID def) (Some 1) d) (\<lambda>d.
             Inr (\<lparr>dn_WorkflowID = wd_ID def, dn_Version = 1\<rparr>, d)))))"

text \<open>\<^verbatim>\<open>latest + 1\<close> is computed on a 64-bit \<^verbatim>\<open>int\<close> from a 32-bit column.\<close>

definition update_latest :: "string \<Rightarrow> int \<Rightarrow> db \<Rightarrow> db res" where
  "update_latest workflowID version d =
     (if \<not> int4 version then Inl (SqlError ''integer out of range'')
      else Inr (d\<lparr>db_workflows := sql_update (\<lambda>w. wo_id w = workflowID) (\<lambda>w. w\<lparr>wo_latest_version := version\<rparr>) (db_workflows d)\<rparr>))"

definition pg_CreateVersion ::
  "numeric \<Rightarrow> time \<Rightarrow> string \<Rightarrow> WorkflowDefinition \<Rightarrow> string \<Rightarrow> string \<Rightarrow> string \<Rightarrow> db \<Rightarrow> (DefinitionRecord \<times> db) res" where
  "pg_CreateVersion numeric clock workflowID def principalID idemKey requestHash d =
     (if wd_ID def \<noteq> workflowID then Inl (Errorf ''definition ID %q does not match workflow ID %q'')
      else
     bindR (validateIdempotencyInput principalID idemKey requestHash) (\<lambda>_.
     case definition_json def of None \<Rightarrow> Inl (Errorf ''encode workflow definition: %w'') | Some body \<Rightarrow>
     bindR (lockIdempotency principalID operationCreateVersion idemKey) (\<lambda>_.
     case loadIdempotency d principalID operationCreateVersion idemKey of
       Some record \<Rightarrow> bindR (replay_definition record requestHash) (\<lambda>r. Inr (r, d))
     | None \<Rightarrow>
         (case find_workflow d workflowID of None \<Rightarrow> Inl ErrWorkflowNotFound | Some w \<Rightarrow>
          let version = wo_latest_version w + 1; now = timestamptz clock in
          bindR (update_latest workflowID version d) (\<lambda>d.
          bindR (insert_version numeric \<lparr>ve_workflow_id = workflowID, ve_version = version, ve_definition = def,
                   ve_definition_hash = requestHash, ve_created_at = now, ve_created_by = principalID\<rparr> d) (\<lambda>d.
          bindR (insertIdempotency principalID operationCreateVersion idemKey requestHash resourceWorkflowVersion workflowID (Some version) d) (\<lambda>d.
          Inr (\<lparr>dn_WorkflowID = workflowID, dn_Version = version\<rparr>, d))))))))"

definition LoadDefinition :: "db \<Rightarrow> string \<Rightarrow> int \<Rightarrow> WorkflowDefinition res" where
  "LoadDefinition d workflowID version =
     (case find_version d workflowID version of
        None \<Rightarrow> Inl ErrDefinitionNotFound
      | Some row \<Rightarrow>
          (case Compile (ve_definition row) of
             Inl e \<Rightarrow> Inl (Errorf ''compile stored workflow definition: %w'')
           | Inr compiled \<Rightarrow> Definition (Some compiled)))"

section \<open>Definitions that differ in their inputs\<close>

definition bare :: "TaskDefinition \<Rightarrow> TaskDefinition" where
  "bare task = task\<lparr>td_Input := None\<rparr>"

definition same_but_inputs :: "WorkflowDefinition \<Rightarrow> WorkflowDefinition \<Rightarrow> bool" where
  "same_but_inputs def def' \<longleftrightarrow>
     wd_ID def' = wd_ID def \<and> wd_Concurrency def' = wd_Concurrency def \<and> map bare (wd_Tasks def') = map bare (wd_Tasks def)"

definition alike :: "CompiledWorkflow \<Rightarrow> CompiledWorkflow \<Rightarrow> bool" where
  "alike cw cw' \<longleftrightarrow>
     same_but_inputs (cw_definition cw) (cw_definition cw') \<and> cw_dependencies cw' = cw_dependencies cw"

lemma alike_refl [simp]: "alike cw cw"
  by (simp add: alike_def same_but_inputs_def)

lemma bare_fields:
  assumes "map bare ts' = map bare ts"
  shows "length ts' = length ts" and "map td_Key ts' = map td_Key ts"
    and "i < length ts \<Longrightarrow> td_Retry (ts' ! i) = td_Retry (ts ! i) \<and> td_DependsOn (ts' ! i) = td_DependsOn (ts ! i) \<and> td_Key (ts' ! i) = td_Key (ts ! i)"
proof -
  show len: "length ts' = length ts" using arg_cong [OF assms, of length] by simp
  have "map (td_Key \<circ> bare) ts' = map (td_Key \<circ> bare) ts" using arg_cong [OF assms, of "map td_Key"] by simp
  then show "map td_Key ts' = map td_Key ts" by (simp add: bare_def comp_def)
  show "td_Retry (ts' ! i) = td_Retry (ts ! i) \<and> td_DependsOn (ts' ! i) = td_DependsOn (ts ! i) \<and> td_Key (ts' ! i) = td_Key (ts ! i)"
    if "i < length ts"
  proof -
    have "bare (ts' ! i) = bare (ts ! i)" using arg_cong [OF assms, of "\<lambda>xs. xs ! i"] that len by simp
    from arg_cong [OF this, of td_Retry] arg_cong [OF this, of td_DependsOn] arg_cong [OF this, of td_Key]
    show ?thesis by (simp add: bare_def)
  qed
qed

lemma compile_bare:
  assumes "Compile def = Inr cw"
  shows "wd_ID (cw_definition cw) = wd_ID def" and "wd_Concurrency (cw_definition cw) = wd_Concurrency def"
    and "map bare (wd_Tasks (cw_definition cw)) = map (bare \<circ> normalize_task) (map bare (wd_Tasks def))"
proof -
  obtain tasks0 where c: "list_all2 cloned (wd_Tasks def) tasks0" and a: "after_clone (def\<lparr>wd_Tasks := tasks0\<rparr>) = Inr cw"
    using assms by (auto simp: Compile_stages)
  have "second_pass (def\<lparr>wd_Tasks := map normalize_task tasks0\<rparr>) = Inr cw" "unique_keys (map normalize_task tasks0)"
    using a by (auto simp: after_clone_Inr comp_def)
  then have d: "cw_definition cw = def\<lparr>wd_Tasks := map normalize_task tasks0\<rparr>"
    using second_pass_Inr [of "def\<lparr>wd_Tasks := map normalize_task tasks0\<rparr>" cw] by auto
  then show "wd_ID (cw_definition cw) = wd_ID def" "wd_Concurrency (cw_definition cw) = wd_Concurrency def" by simp_all
  have "bare (normalize_task t') = bare (normalize_task (bare t))" if "cloned t t'" for t t'
    using that by (auto simp: cloned_def bare_def normalize_task_def)
  with c have "map bare (map normalize_task tasks0) = map (bare \<circ> normalize_task) (map bare (wd_Tasks def))"
    by (induction rule: list_all2_induct) auto
  then show "map bare (wd_Tasks (cw_definition cw)) = map (bare \<circ> normalize_task) (map bare (wd_Tasks def))" by (simp add: d)
qed

lemma compile_alike:
  assumes c: "Compile def = Inr cw" and c': "Compile def' = Inr cw'" and same: "same_but_inputs def def'"
  shows "alike cw cw'"
proof -
  have tasks: "map bare (wd_Tasks def') = map bare (wd_Tasks def)" using same by (simp add: same_but_inputs_def)
  note l = compiled_links [OF c] and l' = compiled_links [OF c'] and b = bare_fields [OF tasks]
  note wf = compiled_wf [OF c] and wf' = compiled_wf [OF c']
  have len: "length (cw_dependencies cw') = length (cw_dependencies cw)"
    using wf wf' l(1) l'(1) b(1) by (simp add: wf_compiled_def Let_def)
  have "cw_dependencies cw' ! i = cw_dependencies cw ! i" if i: "i < length (wd_Tasks def)" for i
  proof -
    have inj: "inj_on (\<lambda>d. td_Key (wd_Tasks def ! d)) {..<length (wd_Tasks def)}"
    proof -
      have "unique_keys (wd_Tasks def)" using wf l(2) by (simp add: wf_compiled_def Let_def)
      then show ?thesis by (auto simp: inj_on_def dest: unique_keysD)
    qed
    have "set (cw_dependencies cw ! i) \<subseteq> {..<length (wd_Tasks def)}" "set (cw_dependencies cw' ! i) \<subseteq> {..<length (wd_Tasks def)}"
      using wf_deps [OF wf] wf_deps [OF wf'] i l(1) l'(1) b(1) by simp_all
    moreover have "map (\<lambda>d. td_Key (wd_Tasks def ! d)) (cw_dependencies cw' ! i) = map (\<lambda>d. td_Key (wd_Tasks def' ! d)) (cw_dependencies cw' ! i)"
      using calculation(2) b(3) by (intro map_cong) auto
    then have "map (\<lambda>d. td_Key (wd_Tasks def ! d)) (cw_dependencies cw' ! i) = map (\<lambda>d. td_Key (wd_Tasks def ! d)) (cw_dependencies cw ! i)"
      using l(3) [OF i] l'(3) [of i] b i by simp
    ultimately show ?thesis using inj by (metis inj_on_map_eq_map inj_on_subset le_sup_iff)
  qed
  then have "cw_dependencies cw' = cw_dependencies cw"
    using len wf l(1) by (intro nth_equalityI) (simp_all add: wf_compiled_def Let_def)
  moreover have "same_but_inputs (cw_definition cw) (cw_definition cw')"
    using same compile_bare [OF c] compile_bare [OF c'] by (simp add: same_but_inputs_def)
  ultimately show ?thesis by (simp add: alike_def)
qed

lemma run_inv_alike:
  assumes "alike cw cw'" and "run_inv cw' s"
  shows "run_inv cw (s\<lparr>rs_Definition := Some (cw_definition cw)\<rparr>)"
proof -
  have tasks: "map bare (wd_Tasks (cw_definition cw')) = map bare (wd_Tasks (cw_definition cw))" and deps: "cw_dependencies cw' = cw_dependencies cw"
    using assms(1) by (simp_all add: alike_def same_but_inputs_def)
  note b = bare_fields [OF tasks]
  have p: "pending cw' = pending cw" "dep_ok cw' = dep_ok cw" using deps by (auto simp: pending_def dep_ok_def fun_eq_iff)
  show ?thesis using assms(2) b deps p unfolding run_inv_def shape_ok_def graph_ok_def log_ok_def by simp
qed

lemma all_some_iff: "all_some xs = Some ys \<longleftrightarrow> xs = map Some ys"
proof (induction xs arbitrary: ys)
  case (Cons x xs)
  then show ?case by (cases x) auto
qed auto

lemma stored_same:
  assumes "stored_definition numeric def = Some def'"
  shows "same_but_inputs def def'"
proof -
  obtain tasks where t: "map (stored_task_definition numeric) (wd_Tasks def) = map Some tasks" and def': "def' = def\<lparr>wd_Tasks := tasks\<rparr>"
    using assms by (auto simp: stored_definition_def all_some_iff split: if_splits)
  have "bare t' = bare t" if "stored_task_definition numeric t = Some t'" for t t'
    using that by (auto simp: stored_task_definition_def bare_def split: if_splits)
  with t have "map bare tasks = map bare (wd_Tasks def)"
  proof (induction tasks arbitrary: def)
    case (Cons x xs)
    then obtain y ys where y: "wd_Tasks def = y # ys" by (cases "wd_Tasks def") auto
    with Cons.prems Cons.IH [of "def\<lparr>wd_Tasks := ys\<rparr>"] show ?case by simp
  qed simp
  then show ?thesis by (simp add: same_but_inputs_def def')
qed

end
