(* ===== verification/Sql_Queries.thy ===== *)
theory Sql_Queries
  imports Sql_Definitions "HOL-Library.Product_Lexorder"
begin

text \<open>
  The bounded reads of \<^verbatim>\<open>queries.go\<close>. Every list is read by a key: the rows after
  a given key, in the order of the key, one more than asked for, and the extra row says that
  there are more. Text keys are compared byte by byte.
\<close>

section \<open>Pages\<close>

text \<open>\<^verbatim>\<open>more := len(items) > limit; if more { items = items[:limit] }\<close>\<close>

definition cut_page :: "int \<Rightarrow> 'a list \<Rightarrow> 'a list \<times> bool" where
  "cut_page limit items = (if int (length items) > limit then (take (nat limit) items, True) else (items, False))"

record WorkflowRecord =
  wf_WorkflowID :: string
  wf_LatestVersion :: int
  wf_CreatedAt :: time
  wf_CreatedBy :: string

record VersionRecord =
  vr_WorkflowID :: string
  vr_Version :: int
  vr_CreatedAt :: time
  vr_CreatedBy :: string

record RunRecord =
  rn_ID :: RunID
  rn_DefinitionID :: string
  rn_DefinitionVersion :: int
  rn_Status :: WorkflowStatus
  rn_Revision :: u64
  rn_TaskCount :: int
  rn_CreatedAt :: time
  rn_StartedAt :: "time option"
  rn_FinishedAt :: "time option"

record RunQuery =
  ry_WorkflowID :: string
  ry_Status :: WorkflowStatus
  ry_AfterCreated :: "time option"
  ry_AfterRunID :: RunID

record TaskRecord =
  tx_Index :: int
  tx_Task :: TaskRun

section \<open>Workflows and versions\<close>

definition workflow_record :: "workflow_row \<Rightarrow> WorkflowRecord" where
  "workflow_record w = \<lparr>wf_WorkflowID = wo_id w, wf_LatestVersion = wo_latest_version w,
     wf_CreatedAt = wo_created_at w, wf_CreatedBy = wo_created_by w\<rparr>"

definition LoadWorkflowSummary :: "db \<Rightarrow> string \<Rightarrow> WorkflowRecord res" where
  "LoadWorkflowSummary d workflowID =
     (case find_workflow d workflowID of None \<Rightarrow> Inl ErrWorkflowNotFound | Some w \<Rightarrow> Inr (workflow_record w))"

definition ListWorkflows :: "db \<Rightarrow> string \<Rightarrow> int \<Rightarrow> (WorkflowRecord list \<times> bool) res" where
  "ListWorkflows d afterID limit =
     Inr (cut_page limit (map workflow_record
       (take (nat (limit + 1)) (order_by wo_id (filter (\<lambda>w. afterID < wo_id w) (db_workflows d))))))"

definition ensureWorkflowExists :: "db \<Rightarrow> string \<Rightarrow> unit res" where
  "ensureWorkflowExists d workflowID = (if find_workflow d workflowID = None then Inl ErrWorkflowNotFound else Inr ())"

definition version_record :: "version_row \<Rightarrow> VersionRecord" where
  "version_record v = \<lparr>vr_WorkflowID = ve_workflow_id v, vr_Version = ve_version v,
     vr_CreatedAt = ve_created_at v, vr_CreatedBy = ve_created_by v\<rparr>"

definition pg_ListVersions :: "db \<Rightarrow> string \<Rightarrow> int \<Rightarrow> int \<Rightarrow> (VersionRecord list \<times> bool) res" where
  "pg_ListVersions d workflowID afterVersion limit =
     (let items = map version_record (take (nat (limit + 1)) (order_by ve_version
            (filter (\<lambda>v. ve_workflow_id v = workflowID \<and> afterVersion < ve_version v) (db_versions d)))) in
      bindR (if items = [] then ensureWorkflowExists d workflowID else Inr ()) (\<lambda>_. Inr (cut_page limit items)))"

section \<open>Runs\<close>

definition task_total :: "db \<Rightarrow> RunID \<Rightarrow> int" where
  "task_total d runID = int (length (filter (\<lambda>t. tk_run_id t = runID) (db_tasks d)))"

definition run_selected :: "RunQuery \<Rightarrow> run_row \<Rightarrow> bool" where
  "run_selected query r \<longleftrightarrow>
     (ry_WorkflowID query = '''' \<or> rr_workflow_id r = ry_WorkflowID query) \<and>
     (workflow_str (ry_Status query) = '''' \<or> rr_status r = ry_Status query) \<and>
     (case ry_AfterCreated query of
        None \<Rightarrow> True
      | Some created \<Rightarrow> (timestamptz created, ry_AfterRunID query) < (rr_created_at r, rr_run_id r))"

definition run_record :: "db \<Rightarrow> run_row \<Rightarrow> RunRecord list \<Rightarrow> RunRecord list res" where
  "run_record d r items =
     (if rr_revision r < 0 then Inl (Errorf ''stored Run has negative revision'')
      else Inr (items @ [\<lparr>rn_ID = rr_run_id r, rn_DefinitionID = rr_workflow_id r, rn_DefinitionVersion = rr_workflow_version r,
        rn_Status = rr_status r, rn_Revision = of_int (rr_revision r), rn_TaskCount = task_total d (rr_run_id r),
        rn_CreatedAt = rr_created_at r, rn_StartedAt = rr_started_at r, rn_FinishedAt = rr_finished_at r\<rparr>]))"

definition ListRunSummaries :: "db \<Rightarrow> RunQuery \<Rightarrow> int \<Rightarrow> (RunRecord list \<times> bool) res" where
  "ListRunSummaries d query limit =
     (if (ry_AfterCreated query = None) \<noteq> (ry_AfterRunID query = '''')
        then Inl (Errorf ''Run keyset cursor requires both created_at and run_id'')
      else
        bindR (foldR (run_record d) (take (nat (limit + 1)) (order_by (\<lambda>r. (rr_created_at r, rr_run_id r))
                 (filter (run_selected query) (db_runs d)))) []) (\<lambda>items.
        Inr (cut_page limit items)))"

text \<open>The task list of the result has the length of the run's and zero values only.\<close>

definition LoadRun :: "db \<Rightarrow> RunID \<Rightarrow> WorkflowRun res" where
  "LoadRun d runID =
     (case find_run d runID of
        None \<Rightarrow> Inl ErrRunNotFound
      | Some r \<Rightarrow>
          if rr_revision r < 0 \<or> rr_last_event_sequence r < 0
            then Inl (Errorf ''stored Run has negative revision or event sequence'')
          else Inr \<lparr>wr_ID = rr_run_id r, wr_DefinitionID = rr_workflow_id r, wr_DefinitionVersion = rr_workflow_version r,
            wr_Status = rr_status r, wr_Revision = of_int (rr_revision r), wr_LastEventSequence = of_int (rr_last_event_sequence r),
            wr_CancelRequestedAt = rr_cancel_requested_at r, wr_Tasks = replicate (nat (task_total d runID)) zero_task,
            wr_RemainingDependencies = [], wr_CreatedAt = rr_created_at r, wr_StartedAt = rr_started_at r,
            wr_FinishedAt = rr_finished_at r\<rparr>)"

definition ensureRunExists :: "db \<Rightarrow> RunID \<Rightarrow> unit res" where
  "ensureRunExists d runID = (if find_run d runID = None then Inl ErrRunNotFound else Inr ())"

definition ListTaskRuns :: "db \<Rightarrow> RunID \<Rightarrow> int \<Rightarrow> int \<Rightarrow> (TaskRecord list \<times> bool) res" where
  "ListTaskRuns d runID afterIndex limit =
     (let items = map (\<lambda>t. \<lparr>tx_Index = tk_task_index t, tx_Task = task_of_row t\<rparr>) (take (nat (limit + 1)) (order_by tk_task_index
            (filter (\<lambda>t. tk_run_id t = runID \<and> afterIndex < tk_task_index t) (db_tasks d)))) in
      bindR (if items = [] then ensureRunExists d runID else Inr ()) (\<lambda>_. Inr (cut_page limit items)))"

definition LoadTaskRun :: "db \<Rightarrow> RunID \<Rightarrow> TaskKey \<Rightarrow> TaskRun res" where
  "LoadTaskRun d runID key =
     (case find (\<lambda>t. tk_run_id t = runID \<and> tk_task_key t = key) (db_tasks d) of
        None \<Rightarrow> bindR (ensureRunExists d runID) (\<lambda>_. Inl ErrTaskNotFound)
      | Some t \<Rightarrow> Inr ((task_of_row t)\<lparr>tr_Attempts := map attempt_of_row (attempt_rows_of d runID key)\<rparr>))"

definition scan_page_event :: "event_row \<Rightarrow> StateEvent list \<Rightarrow> StateEvent list res" where
  "scan_page_event e items =
     (if ev_sequence e \<le> 0 then Inl (Errorf ''stored StateEvent has invalid sequence %d'')
      else Inr (items @ [event_of_row e]))"

definition ListStateEvents :: "db \<Rightarrow> RunID \<Rightarrow> u64 \<Rightarrow> int \<Rightarrow> (StateEvent list \<times> bool) res" where
  "ListStateEvents d runID after limit =
     bindR (foldR scan_page_event (take (nat (limit + 1)) (order_by ev_sequence
              (filter (\<lambda>e. ev_run_id e = runID \<and> int64 after < ev_sequence e) (db_events d)))) []) (\<lambda>items.
     bindR (if items = [] then ensureRunExists d runID else Inr ()) (\<lambda>_. Inr (cut_page limit items)))"

end
