(* ===== verification/Services.thy ===== *)
theory Services
  imports Coordinator Sql_Queries
begin

text \<open>
  The application services (\<^verbatim>\<open>internal/app\<close>): workflow definitions with the cache
  of compiled versions, the creation of runs, their reads and their cancellation. The state
  of the control plane is the database, the cache and the coordinator. The lists with the page cursors
  of \<^verbatim>\<open>cursor.go\<close> are in the theory Cursors; the queries behind them are those of
  \<^verbatim>\<open>queries.go\<close>.
\<close>

section \<open>State\<close>

record control =
  cp_db :: db
  cp_cache :: "string \<times> int \<Rightarrow> CompiledWorkflow option"
  cp_coordinator :: DispatchCoordinator

record StartRunResponse =
  sr_RunID :: RunID
  sr_Status :: WorkflowStatus

record CancelRunResponse =
  cr_RunID :: RunID
  cr_Status :: WorkflowStatus
  cr_CancelRequestedAt :: time

record RunSummary =
  rv_ID :: RunID
  rv_DefinitionID :: string
  rv_DefinitionVersion :: int
  rv_Status :: WorkflowStatus
  rv_Revision :: u64
  rv_TaskCount :: int
  rv_CreatedAt :: time
  rv_StartedAt :: "time option"
  rv_FinishedAt :: "time option"

section \<open>Hashes\<close>

text \<open>\<^verbatim>\<open>hex.EncodeToString\<close>\<close>

definition hex_string :: "string \<Rightarrow> string" where
  "hex_string w = concat (map (\<lambda>c. let n = (of_char c :: nat) in [hex_digit (n div 16), hex_digit (n mod 16)]) w)"

definition definitionHash :: "(string \<Rightarrow> string) \<Rightarrow> WorkflowDefinition \<Rightarrow> string" where
  "definitionHash sha def =
     (let def = def\<lparr>wd_Tasks := map (\<lambda>t. if td_Executor t = ExecutorMock then t\<lparr>td_Executor := ExecutorOther ''''\<rparr> else t) (wd_Tasks def)\<rparr>
      in hex_string (sha (case definition_json def of None \<Rightarrow> '''' | Some body \<Rightarrow> body)))"

definition startRequestHash :: "(string \<Rightarrow> string) \<Rightarrow> string \<Rightarrow> int \<Rightarrow> string" where
  "startRequestHash sha workflowID version = hex_string (sha (workflowID @ ''@'' @ int_str version))"

text \<open>Two big-endian 64-bit numbers, each written with sixteen hexadecimal digits.\<close>

definition big_endian :: "nat list \<Rightarrow> nat" where
  "big_endian bytes = foldl (\<lambda>n b. n * 256 + b) 0 bytes"

fun hex_padded :: "nat \<Rightarrow> nat \<Rightarrow> string" where
  "hex_padded 0 n = []"
| "hex_padded (Suc k) n = hex_padded k (n div 16) @ [hex_digit (n mod 16)]"

definition randomRunID :: "nat list option \<Rightarrow> RunID res" where
  "randomRunID raw =
     (case raw of
        None \<Rightarrow> Inl (Errorf ''read random bytes'')
      | Some bytes \<Rightarrow> Inr (hex_padded 16 (big_endian (take 8 bytes)) @ hex_padded 16 (big_endian (drop 8 bytes))))"

section \<open>Workflow definitions\<close>

definition putCache :: "DefinitionRecord \<Rightarrow> CompiledWorkflow \<Rightarrow> control \<Rightarrow> control" where
  "putCache ref compiled s = s\<lparr>cp_cache := (cp_cache s)((dn_WorkflowID ref, dn_Version ref) \<mapsto> compiled)\<rparr>"

definition svc_Create ::
  "(string \<Rightarrow> string) \<Rightarrow> numeric \<Rightarrow> time \<Rightarrow> string \<Rightarrow> string \<Rightarrow> WorkflowDefinition \<Rightarrow> control \<Rightarrow> (DefinitionRecord \<times> control) res" where
  "svc_Create sha numeric clock principalID key def s =
     (case Compile def of
        Inl e \<Rightarrow> Inl (ErrInvalidArgument ''%w: %w'')
      | Inr compiled \<Rightarrow>
          bindR (Definition (Some compiled)) (\<lambda>canonical.
          bindR (CreateDefinition numeric clock canonical principalID key (definitionHash sha canonical) (cp_db s)) (\<lambda>(ref, d).
          Inr (ref, putCache ref compiled (s\<lparr>cp_db := d\<rparr>)))))"

definition svc_CreateVersion ::
  "(string \<Rightarrow> string) \<Rightarrow> numeric \<Rightarrow> time \<Rightarrow> string \<Rightarrow> string \<Rightarrow> string \<Rightarrow> WorkflowDefinition \<Rightarrow> control \<Rightarrow>
   (DefinitionRecord \<times> control) res" where
  "svc_CreateVersion sha numeric clock principalID workflowID key def s =
     (if wd_ID def \<noteq> workflowID then Inl (ErrInvalidArgument ''%w: definition ID %q does not match workflow ID %q'')
      else case Compile def of
        Inl e \<Rightarrow> Inl (ErrInvalidArgument ''%w: %w'')
      | Inr compiled \<Rightarrow>
          bindR (Definition (Some compiled)) (\<lambda>canonical.
          bindR (pg_CreateVersion numeric clock workflowID canonical principalID key (definitionHash sha canonical) (cp_db s)) (\<lambda>(ref, d).
          Inr (ref, putCache ref compiled (s\<lparr>cp_db := d\<rparr>)))))"

definition svc_Get :: "control \<Rightarrow> string \<Rightarrow> int \<Rightarrow> WorkflowDefinition res" where
  "svc_Get s workflowID version = LoadDefinition (cp_db s) workflowID version"

definition svc_compiled :: "string \<Rightarrow> int \<Rightarrow> control \<Rightarrow> (CompiledWorkflow \<times> control) res" where
  "svc_compiled workflowID version s =
     (case cp_cache s (workflowID, version) of
        Some compiled \<Rightarrow> Inr (compiled, s)
      | None \<Rightarrow>
          bindR (svc_Get s workflowID version) (\<lambda>def.
          case Compile def of
            Inl e \<Rightarrow> Inl (Errorf ''compile workflow %s@%d: %w'')
          | Inr compiled \<Rightarrow> Inr (compiled, putCache \<lparr>dn_WorkflowID = workflowID, dn_Version = version\<rparr> compiled s)))"

section \<open>Runs\<close>

text \<open>An error after the version was looked up leaves the filled cache behind.\<close>

definition svc_Start ::
  "(string \<Rightarrow> string) \<Rightarrow> RunID res \<Rightarrow> time \<Rightarrow> string \<Rightarrow> string \<Rightarrow> int \<Rightarrow> string \<Rightarrow> control \<Rightarrow> StartRunResponse res \<times> control" where
  "svc_Start sha newRunID clock principalID workflowID version key s =
     (case svc_compiled workflowID version s of
        Inl e \<Rightarrow> (Inl e, s)
      | Inr (compiled, s) \<Rightarrow>
          (case newRunID of Inl e \<Rightarrow> (Inl e, s) | Inr runID \<Rightarrow>
           (case NewRunSnapshotForVersion runID (Some compiled) version clock of Inl e \<Rightarrow> (Inl e, s) | Inr snapshot \<Rightarrow>
            (case pg_CreateRun snapshot principalID key (startRequestHash sha workflowID version) (cp_db s) of
               Inl e \<Rightarrow> (Inl e, s)
             | Inr ((createdID, created), d) \<Rightarrow>
                 (Inr \<lparr>sr_RunID = createdID, sr_Status = WorkflowPending\<rparr>,
                  s\<lparr>cp_db := d, cp_coordinator := (if created then Wake (cp_coordinator s) else cp_coordinator s)\<rparr>)))))"

definition svc_GetRun :: "control \<Rightarrow> RunID \<Rightarrow> RunSummary res" where
  "svc_GetRun s runID =
     bindR (LoadRun (cp_db s) runID) (\<lambda>run.
     Inr \<lparr>rv_ID = wr_ID run, rv_DefinitionID = wr_DefinitionID run, rv_DefinitionVersion = wr_DefinitionVersion run,
          rv_Status = wr_Status run, rv_Revision = wr_Revision run, rv_TaskCount = int (length (wr_Tasks run)),
          rv_CreatedAt = wr_CreatedAt run, rv_StartedAt = wr_StartedAt run, rv_FinishedAt = wr_FinishedAt run\<rparr>)"

definition svc_GetTask :: "control \<Rightarrow> RunID \<Rightarrow> TaskKey \<Rightarrow> TaskRun res" where
  "svc_GetTask s runID key = LoadTaskRun (cp_db s) runID key"

text \<open>The request is committed first; the coordinator then cancels in a transaction of its own.\<close>

definition svc_Cancel :: "time \<Rightarrow> time \<Rightarrow> RunID \<Rightarrow> control \<Rightarrow> CancelRunResponse res \<times> control" where
  "svc_Cancel clock cancelClock runID s =
     (case pg_RequestCancel runID clock (cp_db s) of
        Inl e \<Rightarrow> (Inl e, s)
      | Inr (run, d) \<Rightarrow>
          (case coordinator_Cancel cancelClock runID (cp_coordinator s) d of
             (Inl e, c, d) \<Rightarrow> (Inl e, s\<lparr>cp_db := d, cp_coordinator := c\<rparr>)
           | (Inr _, c, d) \<Rightarrow>
               ((case wr_CancelRequestedAt run of
                   None \<Rightarrow> Inl (Errorf ''cancel request for Run %s was not persisted'')
                 | Some at \<Rightarrow> Inr \<lparr>cr_RunID = wr_ID run, cr_Status = wr_Status run, cr_CancelRequestedAt = at\<rparr>),
                s\<lparr>cp_db := d, cp_coordinator := c\<rparr>)))"

definition defaultPageSize :: int where
  "defaultPageSize = 50"

definition maxPageSize :: int where
  "maxPageSize = 100"

definition normalizeLimit :: "int \<Rightarrow> int res" where
  "normalizeLimit limit =
     (if limit = 0 then Inr defaultPageSize
      else if limit < 0 \<or> limit > maxPageSize then Inl (ErrInvalidArgument ''%w: page limit must be between 1 and %d'')
      else Inr limit)"

definition parseRunStatus :: "string \<Rightarrow> WorkflowStatus res" where
  "parseRunStatus value =
     (let status = workflow_of_str value in
      if workflow_str status = '''' \<or> status = WorkflowPending \<or> status = WorkflowRunning \<or> status = WorkflowSucceeded \<or>
         status = WorkflowFailed \<or> status = WorkflowCanceled
      then Inr status else Inl (ErrInvalidArgument ''%w: invalid Run status %q''))"

end
