(* ===== verification/Json_Text.thy ===== *)
theory Json_Text
  imports Sql_Definitions
begin

text \<open>
  The JSON text of a definition determines the definition, but for the inputs of its tasks:
  \<^verbatim>\<open>ensureDefinitionMatches\<close>, which compares texts, compares definitions. The proof
  cuts a text at its outermost commas, with a scanner that follows strings and brackets.
\<close>

section \<open>Cutting a text at its outermost commas\<close>

datatype mode = Out | In | Esc

fun cut :: "nat \<Rightarrow> mode \<Rightarrow> string \<Rightarrow> string \<Rightarrow> string list" where
  "cut k m acc [] = [rev acc]"
| "cut k Out acc (c # w) =
     (if of_char c = (34 :: nat) then cut k In (c # acc) w
      else if c = CHR ''{'' \<or> c = CHR ''['' then cut (Suc k) Out (c # acc) w
      else if c = CHR ''}'' \<or> c = CHR '']'' then cut (k - 1) Out (c # acc) w
      else if c = CHR '','' \<and> k = 0 then rev acc # cut 0 Out [] w
      else cut k Out (c # acc) w)"
| "cut k In acc (c # w) =
     (if of_char c = (92 :: nat) then cut k Esc (c # acc) w
      else if of_char c = (34 :: nat) then cut k Out (c # acc) w
      else cut k In (c # acc) w)"
| "cut k Esc acc (c # w) = cut k In (c # acc) w"

definition self_contained :: "string \<Rightarrow> bool" where
  "self_contained w \<longleftrightarrow> (\<forall>k acc rest. cut k Out acc (w @ rest) = cut k Out (rev w @ acc) rest)"

definition bracketed :: "string \<Rightarrow> bool" where
  "bracketed w \<longleftrightarrow> (\<forall>k acc rest. cut (Suc k) Out acc (w @ rest) = cut (Suc k) Out (rev w @ acc) rest)"

lemma self_containedD: "self_contained w \<Longrightarrow> cut k Out acc (w @ rest) = cut k Out (rev w @ acc) rest"
  by (simp add: self_contained_def)

lemma self_contained_append [intro]: "self_contained v \<Longrightarrow> self_contained w \<Longrightarrow> self_contained (v @ w)"
  by (simp add: self_contained_def)

lemma self_contained_Nil [simp]: "self_contained []"
  by (simp add: self_contained_def)

lemma self_contained_bracketed: "self_contained w \<Longrightarrow> bracketed w"
  by (simp add: self_contained_def bracketed_def)

lemma self_contained_plain:
  assumes "\<And>c. c \<in> set w \<Longrightarrow> of_char c \<noteq> (34 :: nat) \<and> c \<notin> set ''{}[],''"
  shows "self_contained w"
  unfolding self_contained_def
proof (intro allI)
  fix k acc rest
  show "cut k Out acc (w @ rest) = cut k Out (rev w @ acc) rest"
    using assms by (induction w arbitrary: acc) auto
qed

lemma bracketed_join: "list_all self_contained ws \<Longrightarrow> bracketed (join '','' ws)"
proof (induction ws rule: induct_list012)
  case (3 w v ws)
  then show ?case by (simp add: bracketed_def self_contained_def)
qed (simp_all add: bracketed_def self_contained_def)

lemma self_contained_bracket:
  assumes "bracketed w" and "(a, b) \<in> {(CHR ''{'', CHR ''}''), (CHR ''['', CHR '']'')}"
  shows "self_contained (a # w @ [b])"
  unfolding self_contained_def
proof (intro allI)
  fix k acc rest
  have "cut k Out acc ((a # w @ [b]) @ rest) = cut (Suc k) Out (a # acc) (w @ b # rest)" using assms(2) by auto
  also have "\<dots> = cut (Suc k) Out (rev w @ a # acc) (b # rest)" using assms(1) by (simp add: bracketed_def)
  also have "\<dots> = cut k Out (rev (a # w @ [b]) @ acc) rest" using assms(2) by auto
  finally show "cut k Out acc ((a # w @ [b]) @ rest) = cut k Out (rev (a # w @ [b]) @ acc) rest" .
qed

lemma cut_join: "list_all self_contained ws \<Longrightarrow> ws \<noteq> [] \<Longrightarrow> cut 0 Out acc (join '','' ws) = (rev acc @ hd ws) # tl ws"
proof (induction ws arbitrary: acc rule: induct_list012)
  case (2 w)
  then have "cut 0 Out acc (w @ []) = cut 0 Out (rev w @ acc) []" by (intro self_containedD) simp
  then show ?case by simp
next
  case (3 w v ws)
  have "cut 0 Out acc (w @ '','' @ join '','' (v # ws)) = cut 0 Out (rev w @ acc) ('','' @ join '','' (v # ws))"
    using 3 unfolding self_contained_def by simp
  then show ?case using 3 by simp
qed simp

lemma join_inject:
  assumes "join '','' vs = join '','' ws" and "list_all (\<lambda>w. self_contained w \<and> w \<noteq> []) vs" and "list_all (\<lambda>w. self_contained w \<and> w \<noteq> []) ws"
  shows "vs = ws"
proof -
  have empty: "xs = []" if "join '','' xs = []" "list_all (\<lambda>w. self_contained w \<and> w \<noteq> []) xs" for xs
    using that by (induction xs rule: induct_list012) auto
  show ?thesis
  proof (cases "vs = [] \<or> ws = []")
    case True
    then show ?thesis using assms empty [of vs] empty [of ws] by auto
  next
    case False
    have "list_all self_contained vs" "list_all self_contained ws" using assms(2,3) by (simp_all add: list_all_iff)
    then have "cut 0 Out [] (join '','' vs) = vs" "cut 0 Out [] (join '','' ws) = ws" using False cut_join [of vs "[]"] cut_join [of ws "[]"] by auto
    then show ?thesis using assms(1) by metis
  qed
qed

section \<open>Strings\<close>

lemma same_code: "of_char c = (n :: nat) \<Longrightarrow> of_char d = n \<Longrightarrow> c = d"
  by (metis char_of_char)

lemma char_div [simp]: "of_char c div 16 < (16 :: nat)"
  using nat_of_char_less_256 [of c] by (intro less_mult_imp_div_less) simp

lemma json_escape_cases:
  obtains (plain) "json_escape c = [c]" "of_char c \<noteq> (92 :: nat)" "of_char c \<noteq> (34 :: nat)"
    | (short) x where "json_escape c = [char_of (92 :: nat), x]" "of_char x \<noteq> (117 :: nat)" 
      "(of_char c, of_char x) \<in> {(34, 34), (92, 92), (8, 98), (12, 102), (10, 110), (13, 114), (9 :: nat, 116 :: nat)}"
    | (unicode) "json_escape c = [char_of (92 :: nat)] @ ''u00'' @ [hex_digit (of_char c div 16), hex_digit (of_char c mod 16)]"
proof -
  let ?n = "of_char c :: nat"
  consider "?n = 34" | "?n = 92" | "?n = 8" | "?n = 12" | "?n = 10" | "?n = 13" | "?n = 9"
    | (u) "?n \<noteq> 34" "?n \<noteq> 92" "?n \<noteq> 8" "?n \<noteq> 12" "?n \<noteq> 10" "?n \<noteq> 13" "?n \<noteq> 9" "?n < 32 \<or> ?n = 60 \<or> ?n = 62 \<or> ?n = 38"
    | (p) "?n \<noteq> 34" "?n \<noteq> 92" "?n \<noteq> 8" "?n \<noteq> 12" "?n \<noteq> 10" "?n \<noteq> 13" "?n \<noteq> 9" "\<not> (?n < 32 \<or> ?n = 60 \<or> ?n = 62 \<or> ?n = 38)"
    by blast
  then show thesis
  proof cases
    case u
    then have "json_escape c = [char_of (92 :: nat)] @ ''u00'' @ [hex_digit (of_char c div 16), hex_digit (of_char c mod 16)]"
      unfolding json_escape_def Let_def by (simp only: if_False if_True refl)
    then show thesis by (rule unicode)
  next
    case p
    then have "json_escape c = [c]" unfolding json_escape_def Let_def by (simp only: if_False if_True refl)
    then show thesis using p plain by blast
  qed (auto intro!: short simp: json_escape_def Let_def)
qed

lemma hex_digit_inject: "m < 16 \<Longrightarrow> n < 16 \<Longrightarrow> hex_digit m = hex_digit n \<Longrightarrow> m = n"
proof -
  assume b: "m < 16" "n < 16" and "hex_digit m = hex_digit n"
  then have "of_char (hex_digit m) = (of_char (hex_digit n) :: nat)" by simp
  then show "m = n" using b by (simp add: hex_digit_def split: if_splits)
qed

lemma json_escape_prefix: "json_escape c @ v = json_escape d @ w \<Longrightarrow> c = d \<and> v = w"
proof -
  assume eq: "json_escape c @ v = json_escape d @ w"
  show ?thesis
  proof (cases c rule: json_escape_cases)
    case plain
    then have c: "c \<noteq> char_of (92 :: nat)" by auto
    show ?thesis using eq c by (cases d rule: json_escape_cases) (auto simp: plain)
  next
    case (short x)
    show ?thesis
    proof (cases d rule: json_escape_cases)
      case s: (short y)
      have "x = y" "v = w" using eq by (simp_all add: short(1) s(1))
      moreover have "c = d" using short(3) s(3) unfolding \<open>x = y\<close> by (auto intro: same_code)
      ultimately show ?thesis by blast
    next
      case plain
      then have "d \<noteq> char_of (92 :: nat)" by auto
      then show ?thesis using eq by (simp add: short(1) plain(1))
    qed (use eq short(2) in \<open>auto simp: short(1)\<close>)
  next
    case unicode
    then show ?thesis
    proof (cases d rule: json_escape_cases)
      case u: unicode
      have "of_char c div 16 = (of_char d div 16 :: nat)" "of_char c mod 16 = (of_char d mod 16 :: nat)"
        using eq by (auto simp: unicode u intro!: hex_digit_inject)
      then have "c = d" by (metis div_mult_mod_eq char_of_char)
      then show ?thesis using eq by (simp add: unicode u)
    next
      case plain
      then have "d \<noteq> char_of (92 :: nat)" by auto
      then show ?thesis using eq by (simp add: unicode plain(1))
    next
      case (short y)
      then show ?thesis using eq by (auto simp: unicode)
    qed
  qed
qed

lemma escape_no_quote: "json_escape c @ v \<noteq> char_of (34 :: nat) # w"
proof (cases c rule: json_escape_cases)
  case plain
  then show ?thesis by auto
qed (auto dest: arg_cong [of _ _ "of_char :: char \<Rightarrow> nat"])

lemma escapes_split:
  "concat (map json_escape k) @ char_of (34 :: nat) # v = concat (map json_escape l) @ char_of (34 :: nat) # w \<Longrightarrow> k = l \<and> v = w"
proof (induction k arbitrary: l)
  case Nil
  show ?case
  proof (cases l)
    case (Cons d l')
    have "json_escape d @ (concat (map json_escape l') @ char_of (34 :: nat) # w) = char_of (34 :: nat) # v"
      using Nil by (simp add: Cons)
    then show ?thesis using escape_no_quote by blast
  qed (use Nil in simp)
next
  case (Cons c k)
  show ?case
  proof (cases l)
    case Nil
    have "json_escape c @ (concat (map json_escape k) @ char_of (34 :: nat) # v) = char_of (34 :: nat) # w"
      using Cons.prems by (simp add: Nil)
    then show ?thesis using escape_no_quote by blast
  next
    case (Cons d l')
    have "json_escape c @ (concat (map json_escape k) @ char_of (34 :: nat) # v) =
      json_escape d @ (concat (map json_escape l') @ char_of (34 :: nat) # w)" using Cons.prems by (simp add: Cons)
    from json_escape_prefix [OF this] Cons.IH [of l'] show ?thesis by (simp add: Cons)
  qed
qed

lemma json_quote_split: "json_quote k @ v = json_quote l @ w \<Longrightarrow> k = l \<and> v = w"
proof -
  assume "json_quote k @ v = json_quote l @ w"
  then have "concat (map json_escape k) @ char_of (34 :: nat) # v = concat (map json_escape l) @ char_of (34 :: nat) # w"
    by (simp add: json_quote_def)
  then show ?thesis by (rule escapes_split)
qed

lemma json_quote_inject: "json_quote v = json_quote w \<longleftrightarrow> v = w"
  using json_quote_split [of v "[]" w "[]"] by auto

lemma cut_escape: "cut k In acc (json_escape c @ w) = cut k In (rev (json_escape c) @ acc) w"
proof (cases c rule: json_escape_cases)
  case unicode
  have "of_char (hex_digit n) \<noteq> (92 :: nat) \<and> of_char (hex_digit n) \<noteq> (34 :: nat)" if "n < 16" for n
    using that by (simp add: hex_digit_def)
  moreover have "of_char c div 16 < (16 :: nat)"
    by simp
  ultimately show ?thesis by (simp add: unicode)
qed simp_all

lemma self_contained_quote: "self_contained (json_quote w)"
proof -
  have "cut k In acc (concat (map json_escape w) @ rest) = cut k In (rev (concat (map json_escape w)) @ acc) rest" for k acc rest
    by (induction w arbitrary: acc) (simp_all add: cut_escape)
  then show ?thesis by (simp add: self_contained_def json_quote_def)
qed

section \<open>Values\<close>

abbreviation number_char :: "char \<Rightarrow> bool" where
  "number_char c \<equiv> digit_char c \<or> c \<in> set ''+-.eE''"

lemma number_char_plain: "number_char c \<Longrightarrow> of_char c \<noteq> (34 :: nat) \<and> c \<notin> set ''{}[],''"
  by (auto simp: digit_char_def Let_def)

lemma dropWhile_chars: "set (dropWhile digit_char w) \<subseteq> {c. number_char c} \<Longrightarrow> set w \<subseteq> {c. number_char c}"
  by (induction w) (auto split: if_splits)

lemma drop_exponent_chars: "drop_exponent w = Some [] \<Longrightarrow> set w \<subseteq> {c. number_char c}"
proof -
  assume d: "drop_exponent w = Some []"
  show ?thesis
  proof (cases w)
    case (Cons c v)
    show ?thesis
    proof (cases v)
      case Nil
      then show ?thesis using d Cons by (simp add: drop_exponent_def)
    next
      case v: (Cons x rest)
      have e: "c = CHR ''e'' \<or> c = CHR ''E''" using d Cons v by (auto simp: drop_exponent_def split: if_splits)
      have "dropWhile digit_char rest = [] \<and> (x = CHR ''+'' \<or> x = CHR ''-'') \<or> dropWhile digit_char (x # rest) = []"
        using d Cons v e by (auto simp: drop_exponent_def split: if_splits)
      then have "set (x # rest) \<subseteq> {c. number_char c}" using dropWhile_chars [of rest] dropWhile_chars [of "x # rest"] by auto
      then show ?thesis using Cons v e by auto
    qed
  qed simp
qed

lemma drop_fraction_chars: "set (drop_fraction w) \<subseteq> {c. number_char c} \<Longrightarrow> set w \<subseteq> {c. number_char c}"
proof -
  assume s: "set (drop_fraction w) \<subseteq> {c. number_char c}"
  show ?thesis
  proof (cases "\<exists>x rest. w = CHR ''.'' # x # rest \<and> digit_char x")
    case True
    then obtain x rest where w: "w = CHR ''.'' # x # rest" "digit_char x" by blast
    then have "set rest \<subseteq> {c. number_char c}" using s dropWhile_chars [of rest] by (simp add: drop_fraction_def)
    then show ?thesis using w by simp
  next
    case False
    then have "drop_fraction w = w" by (auto simp: drop_fraction_def split: list.splits)
    then show ?thesis using s by simp
  qed
qed

lemma isValidNumber_chars: "isValidNumber w \<Longrightarrow> set w \<subseteq> {c. number_char c}"
proof -
  have main: "set v \<subseteq> {c. number_char c}"
    if "v = c # rest" "digit_char c" "drop_exponent (drop_fraction (if c = CHR ''0'' then rest else dropWhile digit_char rest)) = Some []" for v c rest
  proof -
    have "set (if c = CHR ''0'' then rest else dropWhile digit_char rest) \<subseteq> {c. number_char c}"
      using drop_fraction_chars [OF drop_exponent_chars [OF that(3)]] .
    then have "set rest \<subseteq> {c. number_char c}" using dropWhile_chars [of rest] by (simp split: if_splits)
    then show ?thesis using that(1,2) by simp
  qed
  assume v: "isValidNumber w"
  then obtain a u where w: "w = a # u" by (cases w) (auto simp: isValidNumber_def)
  show ?thesis
  proof (cases "a = CHR ''-''")
    case True
    then have "set u \<subseteq> {c. number_char c}" using v w main by (auto simp: isValidNumber_def split: list.splits if_splits)
    then show ?thesis using w True by simp
  next
    case False
    then show ?thesis using v w main by (auto simp: isValidNumber_def split: if_splits)
  qed
qed

lemma self_contained_number: "isValidNumber w \<Longrightarrow> self_contained w"
  using isValidNumber_chars number_char_plain by (intro self_contained_plain) blast

lemma self_contained_member: "self_contained v \<Longrightarrow> self_contained (json_quote k @ '':'' @ v)"
  using self_contained_plain [of "'':''"] by (intro self_contained_append self_contained_quote) auto

lemma json_marshal_self_contained: "json_marshal v = Some w \<Longrightarrow> self_contained w \<and> w \<noteq> []"
proof (induction v arbitrary: w)
  case (GNumber n)
  then have "isValidNumber w" by (auto split: option.splits if_splits)
  moreover from this have "w \<noteq> []" by (auto simp: isValidNumber_def)
  ultimately show ?case using self_contained_number by blast
next
  case (GMap p k es)
  show ?case
  proof (cases es)
    case None
    then show ?thesis using GMap.prems by (auto intro!: self_contained_plain)
  next
    case (Some entries)
    let ?ms = "map (\<lambda>(k, w). map_option (\<lambda>v. json_quote k @ '':'' @ v) w) (sort_key fst (map (map_prod id json_marshal) entries))"
    obtain ws where ws: "all_some ?ms = Some ws" and w: "w = ''{'' @ join '','' ws @ ''}''" using GMap.prems Some by auto
    have "self_contained x" if "x \<in> set ws" for x
    proof -
      have "Some x \<in> set ?ms" using ws that by (auto simp: all_some_iff)
      then obtain k v y where "(k, v) \<in> set entries" "json_marshal v = Some y" "x = json_quote k @ '':'' @ y"
        by (auto dest!: sym [of "Some x"])
      then show ?thesis using GMap.IH Some self_contained_member by fastforce
    qed
    then have "bracketed (join '','' ws)" by (intro bracketed_join) (simp add: list_all_iff)
    then show ?thesis using w self_contained_bracket [of _ "CHR ''{''" "CHR ''}''"] by simp
  qed
next
  case (GSlice p b es)
  show ?case
  proof (cases es)
    case None
    then show ?thesis using GSlice.prems by (auto intro!: self_contained_plain)
  next
    case (Some vs)
    obtain ws where ws: "all_some (map json_marshal vs) = Some ws" and w: "w = ''['' @ join '','' ws @ '']''" using GSlice.prems Some by auto
    have "self_contained x" if "x \<in> set ws" for x
    proof -
      have "Some x \<in> set (map json_marshal vs)" using ws that by (auto simp: all_some_iff)
      then show ?thesis using GSlice.IH Some by fastforce
    qed
    then have "bracketed (join '','' ws)" by (intro bracketed_join) (simp add: list_all_iff)
    then show ?thesis using w self_contained_bracket [of _ "CHR ''[''" "CHR '']''"] by simp
  qed
next
  case (GArray vs)
  obtain ws where ws: "all_some (map json_marshal vs) = Some ws" and w: "w = ''['' @ join '','' ws @ '']''" using GArray.prems by auto
  have "self_contained x" if "x \<in> set ws" for x
  proof -
    have "Some x \<in> set (map json_marshal vs)" using ws that by (auto simp: all_some_iff)
    then show ?thesis using GArray.IH by fastforce
  qed
  then have "bracketed (join '','' ws)" by (intro bracketed_join) (simp add: list_all_iff)
  then show ?case using w self_contained_bracket [of _ "CHR ''[''" "CHR '']''"] by simp
qed (auto simp: self_contained_quote intro!: self_contained_plain, simp add: json_quote_def)

section \<open>Definitions\<close>

lemma json_field_simps:
  "self_contained w \<Longrightarrow> self_contained (json_field k w)" "json_field k w \<noteq> []"
  using self_contained_member by (simp_all add: json_field_def json_quote_def)

lemma json_field_value: "json_field k v = json_field k w \<longleftrightarrow> v = w"
  by (simp add: json_field_def)

lemma self_contained_int: "self_contained (int_str i)"
proof (rule self_contained_plain)
  fix c assume "c \<in> set (int_str i)"
  then have "c = CHR ''-'' \<or> 48 \<le> (of_char c :: nat) \<and> (of_char c :: nat) < 58"
    using nat_str_digit by (auto simp: int_str_def split: if_splits)
  then show "of_char c \<noteq> (34 :: nat) \<and> c \<notin> set ''{}[],''" by auto
qed

lemma int_str_inject: "int_str i = int_str j \<longleftrightarrow> i = j"
proof -
  have "CHR ''-'' \<notin> set (nat_str n)" for n using nat_str_digit [of "CHR ''-''" n] by auto
  then have "int_str i = int_str j \<longrightarrow> (i < 0) = (j < 0)" by (auto simp: int_str_def) (metis list.set_intros(1))+
  then show ?thesis by (auto simp: int_str_def nat_str_inject split: if_splits)
qed

lemma json_field_name: "json_field k v = json_field l w \<Longrightarrow> k = l"
  using json_quote_split unfolding json_field_def by blast

lemma json_object_inject:
  assumes "json_object vs = json_object ws" and "list_all (\<lambda>w. self_contained w \<and> w \<noteq> []) vs" and "list_all (\<lambda>w. self_contained w \<and> w \<noteq> []) ws"
  shows "vs = ws"
  using assms join_inject by (simp add: json_object_def)

lemma self_contained_object: "list_all self_contained ws \<Longrightarrow> self_contained (json_object ws) \<and> json_object ws \<noteq> []"
  using self_contained_bracket [OF bracketed_join, of ws "CHR ''{''" "CHR ''}''"] by (simp add: json_object_def)

lemma self_contained_array: "list_all self_contained ws \<Longrightarrow> self_contained (''['' @ join '','' ws @ '']'')"
  using self_contained_bracket [OF bracketed_join, of ws "CHR ''[''" "CHR '']''"] by simp

lemma retry_json_inject:
  assumes "retry_json p = retry_json q" and "1 \<le> rp_MaxAttempts p" and "1 \<le> rp_MaxAttempts q"
  shows "p = q"
proof -
  let ?i = "\<lambda>p. if rp_IntervalMillis p \<noteq> 0 then [json_field ''interval_ms'' (int_str (rp_IntervalMillis p))] else []"
  have "json_field ''max_attempts'' (int_str (rp_MaxAttempts p)) # ?i p = json_field ''max_attempts'' (int_str (rp_MaxAttempts q)) # ?i q"
    by (rule json_object_inject) (use assms in \<open>simp_all add: retry_json_def json_field_simps self_contained_int\<close>)
  then have "rp_MaxAttempts p = rp_MaxAttempts q \<and> rp_IntervalMillis p = rp_IntervalMillis q"
    by (auto simp: json_field_value int_str_inject split: if_splits)
  then show ?thesis by (cases p; cases q) simp
qed

lemma self_contained_retry: "self_contained (retry_json p)"
  unfolding retry_json_def using self_contained_object by (auto simp: json_field_simps self_contained_int)

definition task_members :: "TaskDefinition \<Rightarrow> string list \<Rightarrow> string list" where
  "task_members t input =
     [json_field ''key'' (json_quote (td_Key t))] @
     (if executor_str (td_Executor t) \<noteq> '''' then [json_field ''executor'' (json_quote (executor_str (td_Executor t)))] else []) @
     [json_field ''action'' (json_quote (td_Action t))] @ input @
     (if td_DependsOn t \<noteq> [] then [json_field ''depends_on'' (''['' @ join '','' (map json_quote (td_DependsOn t)) @ '']'')] else []) @
     [json_field ''retry'' (retry_json (td_Retry t)), json_field ''timeout_ms'' (int_str (td_TimeoutMillis t))]"

lemma task_json_members:
  assumes "task_json t = Some w"
  obtains input where "w = json_object (task_members t input)" "input = [] \<or> (\<exists>v. input = [json_field ''input'' v] \<and> self_contained v)"
proof -
  obtain input where i: "input_fields (td_Input t) = Some input" and w: "w = json_object (task_members t input)"
    using assms by (auto simp: task_json_def task_members_def)
  have "input = [] \<or> (\<exists>v. input = [json_field ''input'' v] \<and> self_contained v)"
  proof (cases "input = []")
    case False
    then obtain v where "json_marshal (input_value (td_Input t)) = Some v" "input = [json_field ''input'' v]"
      using i unfolding input_fields_def by (auto simp del: input_value.simps json_marshal.simps split: option.splits if_splits)
    then show ?thesis using json_marshal_self_contained by blast
  qed simp
  with w that show thesis by blast
qed

lemma task_members_ok:
  assumes "input = [] \<or> (\<exists>v. input = [json_field ''input'' v] \<and> self_contained v)"
  shows "list_all (\<lambda>w. self_contained w \<and> w \<noteq> []) (task_members t input)"
proof -
  have "self_contained (''['' @ join '','' (map json_quote ks) @ '']'')" for ks
    by (rule self_contained_array) (simp add: list_all_iff self_contained_quote)
  then show ?thesis using assms
    by (auto simp: task_members_def json_field_simps self_contained_quote self_contained_retry self_contained_int)
qed

lemma quotes_inject: "join '','' (map json_quote ks) = join '','' (map json_quote ls) \<Longrightarrow> ks = ls"
proof -
  assume "join '','' (map json_quote ks) = join '','' (map json_quote ls)"
  then have "map json_quote ks = map json_quote ls"
    by (rule join_inject) (simp_all add: list_all_iff self_contained_quote, simp_all add: json_quote_def)
  then show "ks = ls" by (rule map_injective) (simp add: inj_def json_quote_inject)
qed

definition compiled_task :: "TaskDefinition \<Rightarrow> bool" where
  "compiled_task t \<longleftrightarrow> (td_Executor t = ExecutorMock \<or> td_Executor t = ExecutorContainer) \<and> 1 \<le> rp_MaxAttempts (td_Retry t)"

lemma task_json_inject:
  assumes t: "task_json t = Some w" "compiled_task t" and u: "task_json u = Some w" "compiled_task u"
  shows "bare t = bare u"
proof -
  obtain input where w: "w = json_object (task_members t input)" and i: "input = [] \<or> (\<exists>v. input = [json_field ''input'' v] \<and> self_contained v)"
    using task_json_members [OF t(1)] .
  obtain input' where w': "w = json_object (task_members u input')" and i': "input' = [] \<or> (\<exists>v. input' = [json_field ''input'' v] \<and> self_contained v)"
    using task_json_members [OF u(1)] .
  have eq: "task_members t input = task_members u input'"
    by (rule json_object_inject) (use w w' task_members_ok i i' in auto)
  have ex: "executor_str (td_Executor t) \<noteq> ''''" "executor_str (td_Executor u) \<noteq> ''''"
    using t(2) u(2) by (auto simp: compiled_task_def)
  let ?deps = "\<lambda>t. if td_DependsOn t \<noteq> [] then [json_field ''depends_on'' (''['' @ join '','' (map json_quote (td_DependsOn t)) @ '']'')] else []"
  let ?tail = "\<lambda>t. [json_field ''retry'' (retry_json (td_Retry t)), json_field ''timeout_ms'' (int_str (td_TimeoutMillis t))]"
  have head: "td_Key t = td_Key u" "executor_str (td_Executor t) = executor_str (td_Executor u)" "td_Action t = td_Action u"
    and rest: "(input @ ?deps t) @ ?tail t = (input' @ ?deps u) @ ?tail u"
    using eq unfolding task_members_def by (simp_all add: ex json_field_value json_quote_inject)
  from rest have last: "td_Retry t = td_Retry u" "td_TimeoutMillis t = td_TimeoutMillis u" and mid: "input @ ?deps t = input' @ ?deps u"
    using retry_json_inject t(2) u(2) by (simp_all add: json_field_value int_str_inject compiled_task_def)
  have "?deps t = ?deps u"
    using mid i i' by (auto dest: json_field_name split: if_splits)
  then have "td_DependsOn t = td_DependsOn u"
    using quotes_inject by (auto simp: json_field_value split: if_splits)
  moreover have "td_Executor t = td_Executor u" using head(2) t(2) u(2) by (auto simp: compiled_task_def)
  ultimately show ?thesis using head last by (cases t; cases u) (simp add: bare_def)
qed

lemma compile_tasks:
  assumes "Compile def = Inr cw"
  shows "list_all compiled_task (wd_Tasks (cw_definition cw))"
proof -
  obtain tasks0 where a: "after_clone (def\<lparr>wd_Tasks := tasks0\<rparr>) = Inr cw" using assms by (auto simp: Compile_stages)
  then have "second_pass (def\<lparr>wd_Tasks := map normalize_task tasks0\<rparr>) = Inr cw" "unique_keys (map normalize_task tasks0)" "list_all attributes_ok tasks0"
    by (auto simp: after_clone_Inr comp_def)
  then have "cw_definition cw = def\<lparr>wd_Tasks := map normalize_task tasks0\<rparr>"
    using second_pass_Inr [of "def\<lparr>wd_Tasks := map normalize_task tasks0\<rparr>" cw] by auto
  then show ?thesis using \<open>list_all attributes_ok tasks0\<close>
    by (auto simp: list_all_iff attributes_ok_def compiled_task_def normalize_task_def)
qed

lemma definition_json_inject:
  assumes def: "definition_json def = Some w" "list_all compiled_task (wd_Tasks def)"
    and def': "definition_json def' = Some w" "list_all compiled_task (wd_Tasks def')"
  shows "same_but_inputs def def'"
proof -
  let ?ms = "\<lambda>def ts. [json_field ''id'' (json_quote (wd_ID def)), json_field ''concurrency'' (int_str (wd_Concurrency def)),
      json_field ''tasks'' (''['' @ join '','' ts @ '']'')]"
  obtain ts where ts: "map task_json (wd_Tasks def) = map Some ts" and w: "w = json_object (?ms def ts)"
    using def(1) by (auto simp: definition_json_def all_some_iff)
  obtain us where us: "map task_json (wd_Tasks def') = map Some us" and w': "w = json_object (?ms def' us)"
    using def'(1) by (auto simp: definition_json_def all_some_iff)
  have ok: "list_all (\<lambda>w. self_contained w \<and> w \<noteq> []) ts" if "map task_json tasks = map Some ts" for tasks ts
  proof -
    have "self_contained w \<and> w \<noteq> []" if tw: "task_json t = Some w" for t w
    proof -
      obtain input where w: "w = json_object (task_members t input)"
        and i: "input = [] \<or> (\<exists>v. input = [json_field ''input'' v] \<and> self_contained v)"
        using task_json_members [OF tw] .
      have "list_all self_contained (task_members t input)" using task_members_ok [OF i, of t] by (simp add: list_all_iff)
      then show ?thesis unfolding w by (rule self_contained_object)
    qed
    then show ?thesis using that by (metis (mono_tags, lifting) imageE list_all_iff list.set_map rev_image_eqI)
  qed
  have "?ms def ts = ?ms def' us"
  proof (rule json_object_inject)
    show "json_object (?ms def ts) = json_object (?ms def' us)" using w w' by simp
    have "list_all self_contained ts" "list_all self_contained us" using ok [OF ts] ok [OF us] by (simp_all add: list_all_iff)
    from self_contained_array [OF this(1)] self_contained_array [OF this(2)]
    show "list_all (\<lambda>w. self_contained w \<and> w \<noteq> []) (?ms def ts)" "list_all (\<lambda>w. self_contained w \<and> w \<noteq> []) (?ms def' us)"
      by (simp_all add: json_field_simps self_contained_quote self_contained_int)
  qed
  then have head: "wd_ID def = wd_ID def'" "wd_Concurrency def = wd_Concurrency def'" and "join '','' ts = join '','' us"
    by (simp_all add: json_field_value json_quote_inject int_str_inject)
  then have "ts = us" using join_inject ok [OF ts] ok [OF us] by blast
  then have "map task_json (wd_Tasks def) = map task_json (wd_Tasks def')" using ts us by simp
  moreover have "bare t = bare u" if tu: "task_json t = task_json u" "t \<in> set (wd_Tasks def)" "u \<in> set (wd_Tasks def')" for t u
  proof -
    obtain x where x: "task_json t = Some x" using ts tu(2) by (metis (no_types, lifting) imageE imageI list.set_map)
    show ?thesis
      by (rule task_json_inject [OF x _ x [unfolded tu(1)]]) (use tu def(2) def'(2) in \<open>simp_all add: list_all_iff\<close>)
  qed
  ultimately have "map bare (wd_Tasks def) = map bare (wd_Tasks def')"
    by (simp add: list_eq_iff_nth_eq)
  then show ?thesis using head by (simp add: same_but_inputs_def)
qed

lemma ensureDefinitionMatches_alike:
  assumes "ensureDefinitionMatches d s = Inr ()"
  obtains row cw def wanted where "find_version d (wr_DefinitionID (rs_Run s)) (wr_DefinitionVersion (rs_Run s)) = Some row"
    "Compile (ve_definition row) = Inr cw" "rs_Definition s = Some def" "Compile def = Inr wanted" "alike cw wanted"
proof -
  obtain row cw def wanted w where r: "find_version d (wr_DefinitionID (rs_Run s)) (wr_DefinitionVersion (rs_Run s)) = Some row"
    "Compile (ve_definition row) = Inr cw" "rs_Definition s = Some def" "Compile def = Inr wanted"
    and w: "definition_json (cw_definition cw) = Some w" "definition_json (cw_definition wanted) = Some w"
    using assms by (auto simp: ensureDefinitionMatches_def split: option.splits sum.splits if_splits)
  have "same_but_inputs (cw_definition cw) (cw_definition wanted)"
    using definition_json_inject w compile_tasks r(2,4) by blast
  then have "alike cw wanted" using compile_alike compile_idempotent r(2,4) by blast
  with r that show thesis by blast
qed

end
