(* ===== verification/Platform.thy ===== *)
theory Platform
  imports Services Json_Text
begin

text \<open>
  The control plane as a whole: the services, the worker protocol and the coordinator's scans
  are the steps of one machine over the database, the cache and the coordinator. Every
  database it can reach satisfies the invariant of the dispatch store.
\<close>

section \<open>Definitions\<close>

lemma find_append: "find P (xs @ ys) = (case find P xs of None \<Rightarrow> find P ys | Some x \<Rightarrow> Some x)"
  by (induction xs) auto

text \<open>New versions do not change what is loaded for the runs there are.\<close>

lemma world_definitions:
  assumes w: "world_ok d"
    and same: "db_runs d' = db_runs d" "db_tasks d' = db_tasks d" "db_attempts d' = db_attempts d" "db_events d' = db_events d"
      "db_workers d' = db_workers d" "db_dispatches d' = db_dispatches d"
    and versions: "db_versions d' = db_versions d @ vs"
  shows "world_ok d'"
proof -
  note wd = world_okD [OF w]
  have rows: "find_run d' = find_run d" "task_rows d' = task_rows d" "joined_attempts d' = joined_attempts d" "event_rows d' = event_rows d"
    using same by (simp_all add: fun_eq_iff find_run_def task_rows_def joined_attempts_def attempt_rows_of_def event_rows_def)
  have load: "loadSnapshot d' j = loadSnapshot d j" for j
  proof (cases "find_run d j")
    case None
    then show ?thesis using rows(1) by (simp add: loadSnapshot_def)
  next
    case (Some r)
    obtain s where "loadSnapshot d j = Inr s" using wd(5) [of j] Some by (auto simp: run_ok_def run_good_def)
    then obtain v where v: "find_version d (rr_workflow_id r) (rr_workflow_version r) = Some v"
      using Some by (auto simp: loadSnapshot_def split: option.splits)
    then have "find_version d' (rr_workflow_id r) (rr_workflow_version r) = Some v"
      by (simp add: find_version_def versions find_append)
    then show ?thesis using v Some rows unfolding loadSnapshot_def by (simp only: option.case)
  qed
  have "tables_ok d'" using wd(1) same by (simp add: tables_ok_def)
  moreover have "workers_ok d'" using wd(3) same by (simp add: workers_ok_def active_leases_def)
  ultimately show ?thesis
    by (intro world_frame [OF w _ load]) (use wd(2) rows(1) same in simp_all)
qed

lemma insert_version_frame:
  assumes "insert_version numeric row d = Inr d'"
  obtains stored where "d' = d\<lparr>db_versions := db_versions d @ [row\<lparr>ve_definition := stored\<rparr>]\<rparr>"
  using assms by (auto simp: insert_version_def split: option.splits if_splits)

lemma insertIdempotency_frame:
  assumes "insertIdempotency p op k h t i v d = Inr d'"
  obtains rows where "d' = d\<lparr>db_idempotency := rows\<rparr>"
  using assms by (auto simp: insertIdempotency_def Let_def split: if_splits)

lemma CreateDefinition_world:
  assumes w: "world_ok d" and c: "CreateDefinition numeric clock def p k h d = Inr (ref, d')"
  shows "world_ok d'"
proof (cases "loadIdempotency d p operationCreateWorkflow k")
  case (Some prior)
  then show ?thesis using c w by (auto simp: CreateDefinition_def bindR_eq_Inr split: option.splits)
next
  case None
  obtain row row' d1 d2 where "insert_workflow row d = Inr d1" "insert_version numeric row' d1 = Inr d2"
      and i: "insertIdempotency p operationCreateWorkflow k h resourceWorkflowVersion (wd_ID def) (Some 1) d2 = Inr d'"
    using c None by (auto simp: CreateDefinition_def Let_def bindR_eq_Inr split: option.splits sum.splits)
  moreover from this have "d1 = d\<lparr>db_workflows := db_workflows d @ [row]\<rparr>" by (auto simp: insert_workflow_def split: if_splits)
  ultimately show ?thesis by (auto elim!: insert_version_frame insertIdempotency_frame intro!: world_definitions [OF w])
qed

lemma CreateVersion_world:
  assumes w: "world_ok d" and c: "pg_CreateVersion numeric clock workflowID def p k h d = Inr (ref, d')"
  shows "world_ok d'"
proof (cases "loadIdempotency d p operationCreateVersion k")
  case (Some prior)
  then show ?thesis using c w by (auto simp: pg_CreateVersion_def bindR_eq_Inr split: option.splits if_splits)
next
  case None
  obtain row version d1 d2 where "update_latest workflowID version d = Inr d1" "insert_version numeric row d1 = Inr d2"
      and i: "insertIdempotency p operationCreateVersion k h resourceWorkflowVersion workflowID (Some version) d2 = Inr d'"
    using c None by (auto simp: pg_CreateVersion_def Let_def bindR_eq_Inr split: option.splits sum.splits if_splits)
  then show ?thesis
    by (auto simp: update_latest_def elim!: insert_version_frame insertIdempotency_frame intro!: world_definitions [OF w] split: if_splits)
qed

section \<open>Creating a run\<close>

lemma new_snapshot:
  assumes "NewRunSnapshotForVersion runID (Some cw) version now = Inr s"
  shows "wr_ID (rs_Run s) = runID" and "runID \<noteq> ''''" and "rs_Definition s = Some (cw_definition cw)"
    and "length (run_tasks s) = task_count cw" and "t \<in> set (run_tasks s) \<Longrightarrow> idle (tr_Status t)" and "new_run cw s"
  using assms
  by (auto simp: new_run_def NewRunSnapshotForVersion_def newRunSnapshot_def upd_run_def Let_def new_task_def idle_def split: if_splits)

text \<open>A run that appears in the database with idle tasks and no dispatches.\<close>

lemma world_new_run:
  assumes w: "world_ok d" and none: "find_run d runID = None" and t: "tables_ok d'" and only: "only_run runID d d'"
    and good: "run_good d' runID s cw" and idle: "\<And>t. t \<in> set (run_tasks s) \<Longrightarrow> idle (tr_Status t)"
  shows "world_ok d'"
proof -
  note wd = world_okD [OF w]
  have o: "only_run runID (d\<lparr>db_dispatches := db_dispatches d\<rparr>) d'" using only by simp
  note o = only_runD [OF o]
  have no_rows: "dr_run_id r \<noteq> runID" if "r \<in> set (db_dispatches d)" for r using wd(4) [OF that] none by auto
  have "owner (db_dispatches d) runID k = None" for k
    using no_rows by (auto simp: owner_def find_None_iff)
  then have "owned (db_dispatches d) runID (run_tasks s)" using idle no_rows by (auto simp: owned_def fits_def)
  moreover have "busy (run_tasks s) = 0" using idle by (simp add: busy_def filter_empty_conv)
  moreover have "0 < wd_Concurrency (cw_definition cw)" using run_goodD(3) [OF good] by (simp add: wf_compiled_def Let_def)
  ultimately have this_run: "run_ok d' runID" unfolding run_ok_def o(1) using good by (intro exI [of _ s] exI [of _ cw]) simp
  have "run_ok d' j" if j: "find_run d' j \<noteq> None" for j
  proof (cases "j = runID")
    case False
    with j have "find_run d j \<noteq> None" using o(4) by simp
    from run_ok_other [OF wd(5) [OF this] o(5) [OF False]] o(1) show ?thesis by auto
  qed (use this_run in simp)
  moreover have "find_run d' (dr_run_id r) \<noteq> None" if "r \<in> set (db_dispatches d')" for r
    using that wd(4) no_rows o(1,4) by metis
  moreover have "workers_ok d'" using workers_ok_fewer [OF wd(3) o(2)] o(1) by auto
  ultimately show ?thesis using t wd(2) o(1) by (simp add: world_ok_def)
qed

text \<open>A committed creation stores the new run, on the definition as it was stored.\<close>

lemma CreateRun_created:
  assumes w: "world_ok d" and c: "Compile (cw_definition cw) = Inr cw" and n: "NewRunSnapshotForVersion runID (Some cw) version now = Inr s"
    and cr: "pg_CreateRun s p k h d = Inr ((i, True), d')"
  obtains stored where "world_ok d'" "i = runID" "find_run d runID = None" "alike stored cw"
    "loadSnapshot d' runID = Inr (as_stored (s\<lparr>rs_Definition := Some (cw_definition stored)\<rparr>))"
proof -
  note s = new_snapshot [OF n] and wd = world_okD [OF w]
  obtain d1 where v: "validateInitialSnapshot s = Inr ()" and ins: "insertSnapshot s (Some p) d = Inr d1" and i: "i = wr_ID (rs_Run s)"
    and idem: "insertIdempotency p operationStartRun k h resourceRun (wr_ID (rs_Run s)) None d1 = Inr d'"
    using cr by (auto simp: pg_CreateRun_def bindR_eq_Inr as_run_exists_def split: option.splits if_splits)
  have "ensureDefinitionMatches d s = Inr ()" using ins by (auto simp: insertSnapshot_def bindR_eq_Inr)
  then obtain row stored def wanted where st: "find_version d (wr_DefinitionID (rs_Run s)) (wr_DefinitionVersion (rs_Run s)) = Some row"
    "Compile (ve_definition row) = Inr stored" "rs_Definition s = Some def" "Compile def = Inr wanted" and al: "alike stored wanted"
    by (rule ensureDefinitionMatches_alike)
  have wanted: "wanted = cw" using st(3,4) s(3) c by simp
  have "length (run_tasks s) = task_count stored"
    using s(4) al bare_fields(1) [of "wd_Tasks (cw_definition wanted)" "wd_Tasks (cw_definition stored)"] wanted
    by (simp add: alike_def same_but_inputs_def)
  note cl = create_load [OF wd(1) v ins st(1,2) this, unfolded s(1)]
  let ?s = "as_stored (s\<lparr>rs_Definition := Some (cw_definition stored)\<rparr>)"
  have "run_inv cw s" using new_run_inv [OF compiled_wf [OF c] s(6)] .
  then have "run_inv stored (s\<lparr>rs_Definition := Some (cw_definition stored)\<rparr>)" using run_inv_alike al wanted by blast
  then have inv: "run_inv stored ?s" using run_inv_as_stored compiled_wf [OF st(2)] by blast
  have "run_good d1 runID ?s stored"
    using s(2) cl(4) inv compile_idempotent [OF st(2)] by (simp add: run_good_def)
  moreover have none: "find_run d runID = None" using cl(3) wd(5) [of runID] by (cases "find_run d runID") (auto simp: run_ok_def run_good_def)
  moreover have "idle (tr_Status t)" if "t \<in> set (run_tasks ?s)" for t
    using that s(5) by (auto simp: as_stored_def stored_task_def)
  ultimately have w1: "world_ok d1" by (intro world_new_run [OF w _ cl(1,2)])
  obtain rows where d': "d' = d1\<lparr>db_idempotency := rows\<rparr>" using insertIdempotency_frame [OF idem] .
  then have "world_ok d'" by (intro world_definitions [OF w1, where vs = "[]"]) simp_all
  moreover have "loadSnapshot d' runID = loadSnapshot d1 runID" by (rule load_only_view) (simp_all add: d' view_def find_run_def task_rows_def attempt_rows_of_def event_rows_def fun_eq_iff)
  ultimately show thesis using that none al wanted i s(1) cl(4) by metis
qed

lemma CreateRun_replayed:
  assumes "pg_CreateRun s p k h d = Inr ((i, False), d')"
  shows "d' = d"
  using assms by (auto simp: pg_CreateRun_def bindR_eq_Inr as_run_exists_def split: option.splits if_splits)

section \<open>The machine\<close>

text \<open>
  The steps are the requests of users and workers that change the state, the steps of the
  coordinator, and a restart of the process, which loses the cache and the coordinator. A
  transaction that returns an error changes nothing.
\<close>

inductive platform_step :: "control \<Rightarrow> control \<Rightarrow> bool" where
  p_create: "svc_Create sha numeric clock principalID key def s = Inr (ref, s') \<Longrightarrow> platform_step s s'"
| p_version: "svc_CreateVersion sha numeric clock principalID workflowID key def s = Inr (ref, s') \<Longrightarrow> platform_step s s'"
| p_start: "svc_Start sha newRunID clock principalID workflowID version key s = (r, s') \<Longrightarrow> platform_step s s'"
| p_cancel: "svc_Cancel clock cancelClock runID s = (r, s') \<Longrightarrow> platform_step s s'"
| p_register: "RegisterWorker sha random clock request (cp_db s) = Inr (r, d) \<Longrightarrow> platform_step s (s\<lparr>cp_db := d\<rparr>)"
| p_drain: "DrainWorker clock workerID (cp_db s) = Inr (r, d) \<Longrightarrow> platform_step s (s\<lparr>cp_db := d\<rparr>)"
| p_claim: "Claim sha random op held clock workerID slots (cp_db s) = Inr (ls, d) \<Longrightarrow> platform_step s (s\<lparr>cp_db := d\<rparr>)"
| p_heartbeat: "Heartbeat sha op clock workerID refs (cp_db s) = Inr (items, d) \<Longrightarrow> platform_step s (s\<lparr>cp_db := d\<rparr>)"
| p_complete: "Complete sha clock workerID dispatchID token result (cp_db s) = Inr (b, d) \<Longrightarrow> platform_step s (s\<lparr>cp_db := d\<rparr>)"
| p_coordinator: "co_step (cp_coordinator s, cp_db s) (c, d) \<Longrightarrow> platform_step s (s\<lparr>cp_coordinator := c, cp_db := d\<rparr>)"
| p_restart: "platform_step s (s\<lparr>cp_cache := (\<lambda>_. None), cp_coordinator := NewCoordinator o'\<rparr>)"

definition empty_db :: db where
  "empty_db = \<lparr>db_workflows = [], db_versions = [], db_runs = [], db_tasks = [], db_attempts = [], db_events = [],
     db_workers = [], db_dispatches = [], db_idempotency = []\<rparr>"

definition platform_initial :: "control \<Rightarrow> bool" where
  "platform_initial s \<longleftrightarrow> (\<exists>o'. s = \<lparr>cp_db = empty_db, cp_cache = (\<lambda>_. None), cp_coordinator = NewCoordinator o'\<rparr>)"

definition cache_ok :: "(string \<times> int \<Rightarrow> CompiledWorkflow option) \<Rightarrow> bool" where
  "cache_ok cache \<longleftrightarrow> (\<forall>ref cw. cache ref = Some cw \<longrightarrow> Compile (cw_definition cw) = Inr cw)"

definition platform_ok :: "control \<Rightarrow> bool" where
  "platform_ok s \<longleftrightarrow> world_ok (cp_db s) \<and> cache_ok (cp_cache s) \<and> co_ok (cp_coordinator s)"

lemma world_empty: "world_ok empty_db"
  by (simp add: world_ok_def empty_db_def tables_ok_def rows_ok_def dispatch_indexes_ok_def workers_ok_def find_run_def)

lemma cache_ok_put: "cache_ok (cp_cache s) \<Longrightarrow> Compile (cw_definition cw) = Inr cw \<Longrightarrow> cache_ok (cp_cache (putCache ref cw s))"
  by (simp add: cache_ok_def putCache_def)

lemma putCache_frame [simp]: "cp_db (putCache ref cw s) = cp_db s" "cp_coordinator (putCache ref cw s) = cp_coordinator s"
  by (simp_all add: putCache_def)

lemma svc_compiled_ok:
  assumes "svc_compiled workflowID version s = Inr (cw, s')" and "cache_ok (cp_cache s)"
  shows "cache_ok (cp_cache s')" and "Compile (cw_definition cw) = Inr cw" and "cp_db s' = cp_db s" and "cp_coordinator s' = cp_coordinator s"
proof -
  have "cache_ok (cp_cache s') \<and> Compile (cw_definition cw) = Inr cw \<and> cp_db s' = cp_db s \<and> cp_coordinator s' = cp_coordinator s"
  proof (cases "cp_cache s (workflowID, version)")
    case (Some cw')
    then show ?thesis using assms by (auto simp: svc_compiled_def cache_ok_def)
  next
    case None
    show ?thesis
    proof (cases "svc_Get s workflowID version")
      case (Inr def)
      show ?thesis
      proof (cases "Compile def")
        case cw': (Inr cw')
        then have "cw = cw'" "s' = putCache \<lparr>dn_WorkflowID = workflowID, dn_Version = version\<rparr> cw s"
          using assms(1) None Inr by (auto simp: svc_compiled_def)
        then show ?thesis using compile_idempotent [OF cw'] cache_ok_put [OF assms(2)] by simp
      qed (use assms(1) None Inr in \<open>simp add: svc_compiled_def\<close>)
    qed (use assms(1) None in \<open>simp add: svc_compiled_def\<close>)
  qed
  then show "cache_ok (cp_cache s')" "Compile (cw_definition cw) = Inr cw" "cp_db s' = cp_db s" "cp_coordinator s' = cp_coordinator s"
    by blast+
qed

lemma CreateRun_world:
  assumes "world_ok d" and "Compile (cw_definition cw) = Inr cw" and "NewRunSnapshotForVersion runID (Some cw) version now = Inr s"
    and "pg_CreateRun s p k h d = Inr ((i, b), d')"
  shows "world_ok d'"
proof (cases b)
  case True
  then show ?thesis using CreateRun_created [OF assms(1-3)] assms(4) by metis
next
  case False
  then have "d' = d" using CreateRun_replayed assms(4) by simp
  then show ?thesis using assms(1) by simp
qed

lemma co_ok_Wake: "co_ok c \<Longrightarrow> co_ok (Wake c)"
  by (auto simp: co_ok_def Wake_def)

lemma svc_Start_ok:
  assumes "svc_Start sha newRunID clock principalID workflowID version key s = (r, s')" and "platform_ok s"
  shows "platform_ok s'"
proof (cases "svc_compiled workflowID version s")
  case (Inr q)
  obtain cw s1 where q: "q = (cw, s1)" by (cases q)
  note c = svc_compiled_ok [OF Inr [unfolded q]]
  have ok: "platform_ok s1" and comp: "Compile (cw_definition cw) = Inr cw" using assms(2) c by (simp_all add: platform_ok_def)
  show ?thesis
  proof (cases newRunID)
    case id: (Inr runID)
    show ?thesis
    proof (cases "NewRunSnapshotForVersion runID (Some cw) version clock")
      case n: (Inr snapshot)
      show ?thesis
      proof (cases "pg_CreateRun snapshot principalID key (startRequestHash sha workflowID version) (cp_db s1)")
        case cr: (Inr x)
        obtain i b d where x: "x = ((i, b), d)" by (cases x) auto
        have "world_ok d" using CreateRun_world [OF _ comp n cr [unfolded x]] ok by (simp add: platform_ok_def)
        then show ?thesis using assms(1) ok Inr q id n cr x by (auto simp: svc_Start_def platform_ok_def co_ok_Wake)
      qed (use assms(1) ok Inr q id n in \<open>simp add: svc_Start_def\<close>)
    qed (use assms(1) ok Inr q id in \<open>simp add: svc_Start_def\<close>)
  qed (use assms(1) ok Inr q in \<open>simp add: svc_Start_def\<close>)
qed (use assms in \<open>simp add: svc_Start_def\<close>)

lemma coordinator_Cancel_world:
  assumes "coordinator_Cancel clock runID c d = (r, c', d')" and "world_ok d" and "co_ok c"
  shows "world_ok d' \<and> co_ok c'"
  using co_step_world [OF co_cancel [OF assms(1)]] co_step_ok [OF co_cancel [OF assms(1)]] assms(2,3) by simp

lemma svc_Cancel_ok:
  assumes "svc_Cancel clock cancelClock runID s = (r, s')" and "platform_ok s"
  shows "platform_ok s'"
proof (cases "pg_RequestCancel runID clock (cp_db s)")
  case (Inr x)
  obtain run d where x: "x = (run, d)" by (cases x)
  have w: "world_ok d" using RequestCancel_world Inr x assms(2) by (auto simp: platform_ok_def)
  obtain q c d' where q: "coordinator_Cancel cancelClock runID (cp_coordinator s) d = (q, c, d')"
    by (cases "coordinator_Cancel cancelClock runID (cp_coordinator s) d")
  have "world_ok d' \<and> co_ok c" using coordinator_Cancel_world [OF q w] assms(2) by (simp add: platform_ok_def)
  moreover have "s' = s\<lparr>cp_db := d', cp_coordinator := c\<rparr>" using assms(1) Inr x q by (cases q) (simp_all add: svc_Cancel_def)
  ultimately show ?thesis using assms(2) by (simp add: platform_ok_def)
qed (use assms in \<open>simp add: svc_Cancel_def\<close>)

lemma platform_step_ok: "platform_step s t \<Longrightarrow> platform_ok s \<Longrightarrow> platform_ok t"
proof (induction rule: platform_step.induct)
  case (p_create sha numeric clock principalID key def s ref s')
  then show ?case
    by (auto simp: svc_Create_def platform_ok_def bindR_eq_Inr split: sum.splits dest: CreateDefinition_world
        intro!: cache_ok_put dest: compile_idempotent)
next
  case (p_version sha numeric clock principalID workflowID key def s ref s')
  then show ?case
    by (auto simp: svc_CreateVersion_def platform_ok_def bindR_eq_Inr split: sum.splits if_splits dest: CreateVersion_world
        intro!: cache_ok_put dest: compile_idempotent)
next
  case (p_register sha random clock request s r d)
  then show ?case using RegisterWorker_world [of "cp_db s" sha random clock request "fst r" "snd r" d] by (simp add: platform_ok_def)
next
  case (p_claim sha random op held clock workerID slots s ls d)
  then show ?case using Claim_outcome [of "cp_db s" slots sha workerID random op held clock] by (simp add: platform_ok_def)
next
  case (p_heartbeat sha op clock workerID refs s items d)
  then show ?case using Heartbeat_outcome [of "cp_db s" sha op clock workerID refs] by (simp add: platform_ok_def)
next
  case (p_complete sha clock workerID dispatchID token result s b d)
  then show ?case using Complete_outcome [of "cp_db s" sha clock workerID dispatchID token result] by (simp add: platform_ok_def)
next
  case (p_coordinator s c d)
  then show ?case using co_step_world co_step_ok by (fastforce simp: platform_ok_def)
next
  case (p_restart s o')
  then show ?case by (simp add: platform_ok_def cache_ok_def co_ok_def NewCoordinator_def normalize_options_def)
qed (auto simp: platform_ok_def dest: svc_Start_ok svc_Cancel_ok DrainWorker_world)

interpretation platform: invariant_machine platform_initial platform_step platform_ok
proof
  show "platform_initial s \<Longrightarrow> platform_ok s" for s
    using world_empty by (auto simp: platform_initial_def platform_ok_def cache_ok_def co_ok_def NewCoordinator_def normalize_options_def)
  show "platform_ok s \<Longrightarrow> platform_step s t \<Longrightarrow> platform_ok t" for s t using platform_step_ok by blast
qed

end
