(* ===== verification/Cursors.thy ===== *)
theory Cursors
  imports Services
begin

text \<open>
  Page cursors (\<^verbatim>\<open>internal/app/cursor.go\<close>) and the paged lists of the two services.
  A cursor is a small struct, written as JSON and then in base64. The JSON of a struct is an
  argument of the model (\<open>codec\<close>): what \<^verbatim>\<open>json.Marshal\<close> writes and what a decoder
  that refuses unknown fields and trailing text reads. Base64 is defined here.
\<close>

section \<open>Base64\<close>

definition url_value :: "char \<Rightarrow> nat option" where
  "url_value ch =
     (let n = (of_char ch :: nat) in
      if 65 \<le> n \<and> n \<le> 90 then Some (n - 65) else if 97 \<le> n \<and> n \<le> 122 then Some (n - 71)
      else if 48 \<le> n \<and> n \<le> 57 then Some (n + 4) else if n = 45 then Some 62 else if n = 95 then Some 63 else None)"

fun sextets_bytes :: "nat list \<Rightarrow> nat list option" where
  "sextets_bytes [] = Some []"
| "sextets_bytes [x] = None"
| "sextets_bytes [x, y] = Some [x * 4 + y div 16]"
| "sextets_bytes [x, y, z] = Some [x * 4 + y div 16, y mod 16 * 16 + z div 4]"
| "sextets_bytes (x # y # z # w # rest) =
     map_option (\<lambda>bytes. (x * 4 + y div 16) # (y mod 16 * 16 + z div 4) # (z mod 4 * 64 + w) # bytes) (sextets_bytes rest)"

text \<open>\<^verbatim>\<open>RawURLEncoding.DecodeString\<close> passes over line ends.\<close>

definition base64url_decode :: "string \<Rightarrow> string option" where
  "base64url_decode value =
     (case all_some (map url_value (filter (\<lambda>ch. ch \<noteq> char_of (10::nat) \<and> ch \<noteq> char_of (13::nat)) value)) of
        None \<Rightarrow> None
      | Some sextets \<Rightarrow> map_option (map char_of) (sextets_bytes sextets))"

definition decoded_len :: "nat \<Rightarrow> nat" where
  "decoded_len n = n div 4 * 3 + n mod 4 * 6 div 8"

section \<open>Cursors\<close>

record workflowCursor =
  wc_Version :: int
  wc_Kind :: string
  wc_WorkflowID :: string

record versionCursor =
  vc_Version :: int
  vc_Kind :: string
  vc_WorkflowID :: string
  vc_AfterVersion :: int

record runCursor =
  rc_Version :: int
  rc_Kind :: string
  rc_CreatedAt :: time
  rc_RunID :: RunID
  rc_FilterHash :: string

record taskCursor =
  kc_Version :: int
  kc_Kind :: string
  kc_RunID :: RunID
  kc_TaskIndex :: int

record eventCursor =
  xc_Version :: int
  xc_Kind :: string
  xc_RunID :: RunID
  xc_Sequence :: u64

record 'c codec =
  cc_marshal :: "'c \<Rightarrow> string option"
  cc_unmarshal :: "string \<Rightarrow> 'c option"

definition cursorVersion :: int where
  "cursorVersion = 1"

definition maxCursorBytes :: nat where
  "maxCursorBytes = 4096"

definition invalidCursor :: werror where
  "invalidCursor = ErrInvalidArgument ''%w: invalid page cursor''"

definition encodeCursor :: "'c codec \<Rightarrow> 'c \<Rightarrow> string res" where
  "encodeCursor codec cursor =
     (case cc_marshal codec cursor of
        None \<Rightarrow> Inl (Errorf ''encode page cursor: %w'')
      | Some body \<Rightarrow> if maxCursorBytes < length body then Inl invalidCursor else Inr (base64url (map of_char body)))"

definition decodeCursor :: "'c codec \<Rightarrow> string \<Rightarrow> 'c res" where
  "decodeCursor codec value =
     (if value = '''' \<or> maxCursorBytes < decoded_len (length value) then Inl invalidCursor
      else case base64url_decode value of
        None \<Rightarrow> Inl invalidCursor
      | Some body \<Rightarrow>
          if maxCursorBytes < length body then Inl invalidCursor
          else case cc_unmarshal codec body of None \<Rightarrow> Inl invalidCursor | Some cursor \<Rightarrow> Inr cursor)"

definition runFilterHash :: "(string \<Rightarrow> string) \<Rightarrow> string \<Rightarrow> WorkflowStatus \<Rightarrow> string" where
  "runFilterHash sha workflowID status = hex_string (sha (workflowID @ [char_of (0::nat)] @ workflow_str status))"

definition run_cursor :: "(string \<Rightarrow> string) \<Rightarrow> time \<Rightarrow> RunID \<Rightarrow> string \<Rightarrow> WorkflowStatus \<Rightarrow> runCursor" where
  "run_cursor sha createdAt runID workflowID status = \<lparr>rc_Version = cursorVersion, rc_Kind = ''run'', rc_CreatedAt = createdAt,
     rc_RunID = runID, rc_FilterHash = runFilterHash sha workflowID status\<rparr>"

definition encodeRunCursor ::
  "runCursor codec \<Rightarrow> (string \<Rightarrow> string) \<Rightarrow> time \<Rightarrow> RunID \<Rightarrow> string \<Rightarrow> WorkflowStatus \<Rightarrow> string res" where
  "encodeRunCursor codec sha createdAt runID workflowID status = encodeCursor codec (run_cursor sha createdAt runID workflowID status)"

definition decodeRunCursor ::
  "runCursor codec \<Rightarrow> (string \<Rightarrow> string) \<Rightarrow> string \<Rightarrow> string \<Rightarrow> WorkflowStatus \<Rightarrow> runCursor res" where
  "decodeRunCursor codec sha value workflowID status =
     bindR (decodeCursor codec value) (\<lambda>cursor.
     if rc_Version cursor \<noteq> cursorVersion \<or> rc_Kind cursor \<noteq> ''run'' \<or> rc_CreatedAt cursor = zeroTime \<or> rc_RunID cursor = '''' \<or>
        rc_FilterHash cursor \<noteq> runFilterHash sha workflowID status
     then Inl invalidCursor else Inr cursor)"

definition workflow_cursor :: "string \<Rightarrow> workflowCursor" where
  "workflow_cursor workflowID = \<lparr>wc_Version = cursorVersion, wc_Kind = ''workflow'', wc_WorkflowID = workflowID\<rparr>"

definition encodeWorkflowCursor :: "workflowCursor codec \<Rightarrow> string \<Rightarrow> string res" where
  "encodeWorkflowCursor codec workflowID = encodeCursor codec (workflow_cursor workflowID)"

definition decodeWorkflowCursor :: "workflowCursor codec \<Rightarrow> string \<Rightarrow> workflowCursor res" where
  "decodeWorkflowCursor codec value =
     bindR (decodeCursor codec value) (\<lambda>cursor.
     if wc_Version cursor \<noteq> cursorVersion \<or> wc_Kind cursor \<noteq> ''workflow'' \<or> wc_WorkflowID cursor = ''''
     then Inl invalidCursor else Inr cursor)"

definition version_cursor :: "string \<Rightarrow> int \<Rightarrow> versionCursor" where
  "version_cursor workflowID version =
     \<lparr>vc_Version = cursorVersion, vc_Kind = ''version'', vc_WorkflowID = workflowID, vc_AfterVersion = version\<rparr>"

definition encodeVersionCursor :: "versionCursor codec \<Rightarrow> string \<Rightarrow> int \<Rightarrow> string res" where
  "encodeVersionCursor codec workflowID version = encodeCursor codec (version_cursor workflowID version)"

definition decodeVersionCursor :: "versionCursor codec \<Rightarrow> string \<Rightarrow> string \<Rightarrow> versionCursor res" where
  "decodeVersionCursor codec value workflowID =
     bindR (decodeCursor codec value) (\<lambda>cursor.
     if vc_Version cursor \<noteq> cursorVersion \<or> vc_Kind cursor \<noteq> ''version'' \<or> vc_WorkflowID cursor \<noteq> workflowID \<or> vc_AfterVersion cursor \<le> 0
     then Inl invalidCursor else Inr cursor)"

definition task_cursor :: "RunID \<Rightarrow> int \<Rightarrow> taskCursor" where
  "task_cursor runID taskIndex = \<lparr>kc_Version = cursorVersion, kc_Kind = ''task'', kc_RunID = runID, kc_TaskIndex = taskIndex\<rparr>"

definition encodeTaskCursor :: "taskCursor codec \<Rightarrow> RunID \<Rightarrow> int \<Rightarrow> string res" where
  "encodeTaskCursor codec runID taskIndex = encodeCursor codec (task_cursor runID taskIndex)"

definition decodeTaskCursor :: "taskCursor codec \<Rightarrow> string \<Rightarrow> RunID \<Rightarrow> taskCursor res" where
  "decodeTaskCursor codec value runID =
     bindR (decodeCursor codec value) (\<lambda>cursor.
     if kc_Version cursor \<noteq> cursorVersion \<or> kc_Kind cursor \<noteq> ''task'' \<or> kc_RunID cursor \<noteq> runID \<or> kc_TaskIndex cursor < 0
     then Inl invalidCursor else Inr cursor)"

definition event_cursor :: "RunID \<Rightarrow> u64 \<Rightarrow> eventCursor" where
  "event_cursor runID sequence = \<lparr>xc_Version = cursorVersion, xc_Kind = ''event'', xc_RunID = runID, xc_Sequence = sequence\<rparr>"

definition encodeEventCursor :: "eventCursor codec \<Rightarrow> RunID \<Rightarrow> u64 \<Rightarrow> string res" where
  "encodeEventCursor codec runID sequence = encodeCursor codec (event_cursor runID sequence)"

definition decodeEventCursor :: "eventCursor codec \<Rightarrow> string \<Rightarrow> RunID \<Rightarrow> eventCursor res" where
  "decodeEventCursor codec value runID =
     bindR (decodeCursor codec value) (\<lambda>cursor.
     if xc_Version cursor \<noteq> cursorVersion \<or> xc_Kind cursor \<noteq> ''event'' \<or> xc_RunID cursor \<noteq> runID \<or> xc_Sequence cursor = 0
     then Inl invalidCursor else Inr cursor)"

section \<open>Lists\<close>

record WorkflowSummary =
  ws_WorkflowID :: string
  ws_LatestVersion :: int
  ws_CreatedAt :: time
  ws_CreatedBy :: string

record VersionSummary =
  vs_WorkflowID :: string
  vs_Version :: int
  vs_CreatedAt :: time
  vs_CreatedBy :: string

record TaskSummary =
  ts_Key :: TaskKey
  ts_Status :: TaskStatus
  ts_ReadyAt :: "time option"
  ts_FinishedAt :: "time option"

text \<open>\<^verbatim>\<open>WorkflowPage\<close>, \<^verbatim>\<open>VersionPage\<close>, \<^verbatim>\<open>RunPage\<close>,
  \<^verbatim>\<open>TaskPage\<close> and \<^verbatim>\<open>EventPage\<close>: the items and the cursor of the next page.\<close>

type_synonym 'a page = "'a list \<times> string"

record RunListOptions =
  ro_Cursor :: string
  ro_Limit :: int
  ro_WorkflowID :: string
  ro_Status :: string

definition workflowSummary :: "WorkflowRecord \<Rightarrow> WorkflowSummary" where
  "workflowSummary item = \<lparr>ws_WorkflowID = wf_WorkflowID item, ws_LatestVersion = wf_LatestVersion item,
     ws_CreatedAt = wf_CreatedAt item, ws_CreatedBy = wf_CreatedBy item\<rparr>"

definition version_summary :: "VersionRecord \<Rightarrow> VersionSummary" where
  "version_summary item = \<lparr>vs_WorkflowID = vr_WorkflowID item, vs_Version = vr_Version item,
     vs_CreatedAt = vr_CreatedAt item, vs_CreatedBy = vr_CreatedBy item\<rparr>"

definition run_summary :: "RunRecord \<Rightarrow> RunSummary" where
  "run_summary item = \<lparr>rv_ID = rn_ID item, rv_DefinitionID = rn_DefinitionID item, rv_DefinitionVersion = rn_DefinitionVersion item,
     rv_Status = rn_Status item, rv_Revision = rn_Revision item, rv_TaskCount = rn_TaskCount item,
     rv_CreatedAt = rn_CreatedAt item, rv_StartedAt = rn_StartedAt item, rv_FinishedAt = rn_FinishedAt item\<rparr>"

definition task_summary :: "TaskRecord \<Rightarrow> TaskSummary" where
  "task_summary item = \<lparr>ts_Key = tr_Key (tx_Task item), ts_Status = tr_Status (tx_Task item),
     ts_ReadyAt = tr_ReadyAt (tx_Task item), ts_FinishedAt = tr_FinishedAt (tx_Task item)\<rparr>"

text \<open>\<^verbatim>\<open>if more && len(items) > 0 { page.NextCursor, err = encode(items[len(items)-1]) }\<close>\<close>

definition next_cursor :: "('a \<Rightarrow> string res) \<Rightarrow> 'a list \<Rightarrow> bool \<Rightarrow> string res" where
  "next_cursor encode items more' = (if more' \<and> items \<noteq> [] then encode (last items) else Inr '''')"

definition svc_GetSummary :: "control \<Rightarrow> string \<Rightarrow> WorkflowSummary res" where
  "svc_GetSummary s workflowID = bindR (LoadWorkflowSummary (cp_db s) workflowID) (\<lambda>item. Inr (workflowSummary item))"

definition svc_ListWorkflows :: "workflowCursor codec \<Rightarrow> control \<Rightarrow> string \<Rightarrow> int \<Rightarrow> WorkflowSummary page res" where
  "svc_ListWorkflows codec s cursor limit =
     bindR (normalizeLimit limit) (\<lambda>size.
     bindR (if cursor \<noteq> '''' then bindR (decodeWorkflowCursor codec cursor) (\<lambda>decoded. Inr (wc_WorkflowID decoded)) else Inr '''') (\<lambda>afterID.
     bindR (ListWorkflows (cp_db s) afterID size) (\<lambda>(items, more').
     bindR (next_cursor (\<lambda>item. encodeWorkflowCursor codec (wf_WorkflowID item)) items more') (\<lambda>next_page.
     Inr (map workflowSummary items, next_page)))))"

definition svc_ListVersions :: "versionCursor codec \<Rightarrow> control \<Rightarrow> string \<Rightarrow> string \<Rightarrow> int \<Rightarrow> VersionSummary page res" where
  "svc_ListVersions codec s workflowID cursor limit =
     bindR (normalizeLimit limit) (\<lambda>size.
     bindR (if cursor \<noteq> '''' then bindR (decodeVersionCursor codec cursor workflowID) (\<lambda>decoded. Inr (vc_AfterVersion decoded)) else Inr 0) (\<lambda>afterVersion.
     bindR (pg_ListVersions (cp_db s) workflowID afterVersion size) (\<lambda>(items, more').
     bindR (next_cursor (\<lambda>item. encodeVersionCursor codec workflowID (vr_Version item)) items more') (\<lambda>next_page.
     Inr (map version_summary items, next_page)))))"

definition run_query :: "string \<Rightarrow> WorkflowStatus \<Rightarrow> (time \<times> RunID) option \<Rightarrow> RunQuery" where
  "run_query workflowID status after =
     (case after of
        None \<Rightarrow> \<lparr>ry_WorkflowID = workflowID, ry_Status = status, ry_AfterCreated = None, ry_AfterRunID = ''''\<rparr>
      | Some (created, runID) \<Rightarrow> \<lparr>ry_WorkflowID = workflowID, ry_Status = status, ry_AfterCreated = Some created, ry_AfterRunID = runID\<rparr>)"

definition svc_ListRuns :: "runCursor codec \<Rightarrow> (string \<Rightarrow> string) \<Rightarrow> control \<Rightarrow> RunListOptions \<Rightarrow> RunSummary page res" where
  "svc_ListRuns codec sha s options =
     bindR (normalizeLimit (ro_Limit options)) (\<lambda>size.
     bindR (parseRunStatus (ro_Status options)) (\<lambda>status.
     bindR (if ro_Cursor options \<noteq> ''''
            then bindR (decodeRunCursor codec sha (ro_Cursor options) (ro_WorkflowID options) status)
                   (\<lambda>cursor. Inr (Some (rc_CreatedAt cursor, rc_RunID cursor)))
            else Inr None) (\<lambda>after.
     bindR (ListRunSummaries (cp_db s) (run_query (ro_WorkflowID options) status after) size) (\<lambda>(items, more').
     bindR (next_cursor (\<lambda>item. encodeRunCursor codec sha (rn_CreatedAt item) (rn_ID item) (ro_WorkflowID options) status) items more') (\<lambda>next_page.
     Inr (map run_summary items, next_page))))))"

definition svc_ListTasks :: "taskCursor codec \<Rightarrow> control \<Rightarrow> RunID \<Rightarrow> string \<Rightarrow> int \<Rightarrow> TaskSummary page res" where
  "svc_ListTasks codec s runID cursor limit =
     bindR (normalizeLimit limit) (\<lambda>size.
     bindR (if cursor \<noteq> '''' then bindR (decodeTaskCursor codec cursor runID) (\<lambda>decoded. Inr (kc_TaskIndex decoded)) else Inr (- 1)) (\<lambda>afterIndex.
     bindR (ListTaskRuns (cp_db s) runID afterIndex size) (\<lambda>(tasks, more').
     bindR (next_cursor (\<lambda>task. encodeTaskCursor codec runID (tx_Index task)) tasks more') (\<lambda>next_page.
     Inr (map task_summary tasks, next_page)))))"

definition svc_ListEvents :: "eventCursor codec \<Rightarrow> control \<Rightarrow> RunID \<Rightarrow> string \<Rightarrow> int \<Rightarrow> StateEvent page res" where
  "svc_ListEvents codec s runID cursor limit =
     bindR (normalizeLimit limit) (\<lambda>size.
     bindR (if cursor \<noteq> '''' then bindR (decodeEventCursor codec cursor runID) (\<lambda>decoded. Inr (xc_Sequence decoded)) else Inr 0) (\<lambda>startSequence.
     bindR (ListStateEvents (cp_db s) runID startSequence size) (\<lambda>(events, more').
     bindR (next_cursor (\<lambda>ev. encodeEventCursor codec runID (se_Sequence ev)) events more') (\<lambda>next_page.
     Inr (events, next_page)))))"

end
