(* ===== verification/Pages.thy ===== *)
theory Pages
  imports Cursors
begin

text \<open>
  Reading a list page by page. Cursors are read back as they were written, and a client that
  follows the cursors of the pages sees every row of the list exactly once, in order.
\<close>

section \<open>Cursors are read back\<close>

lemma url_value_char [simp]: "n < 64 \<Longrightarrow> url_value (url_char n) = Some n"
  by (auto simp: url_value_def url_char_def Let_def)

lemma url_char_line_end [simp]: "n < 64 \<Longrightarrow> url_char n \<noteq> char_of (10::nat)" "n < 64 \<Longrightarrow> url_char n \<noteq> char_of (13::nat)"
proof -
  have "url_value (char_of (10::nat)) = None" "url_value (char_of (13::nat)) = None" by (simp_all add: url_value_def)
  then show "n < 64 \<Longrightarrow> url_char n \<noteq> char_of (10::nat)" "n < 64 \<Longrightarrow> url_char n \<noteq> char_of (13::nat)"
    by (metis option.distinct(1) url_value_char)+
qed

fun sextets :: "nat list \<Rightarrow> nat list" where
  "sextets [] = []"
| "sextets [a] = [a div 4, a mod 4 * 16]"
| "sextets [a, b] = [a div 4, a mod 4 * 16 + b div 16, b mod 16 * 4]"
| "sextets (a # b # c # bytes) = (a div 4) # (a mod 4 * 16 + b div 16) # (b mod 16 * 4 + c div 64) # (c mod 64) # sextets bytes"

lemma sextets_less: "\<forall>b \<in> set bytes. b < 256 \<Longrightarrow> x \<in> set (sextets bytes) \<Longrightarrow> x < 64"
  by (induction bytes rule: sextets.induct) auto

lemma base64url_sextets: "base64url bytes = map url_char (sextets bytes)"
  by (induction bytes rule: sextets.induct) simp_all

lemma sextets_bytes_sextets: "\<forall>b \<in> set bytes. b < 256 \<Longrightarrow> sextets_bytes (sextets bytes) = Some bytes"
  by (induction bytes rule: sextets.induct) auto

lemma all_some_url: "\<forall>x \<in> set xs. x < 64 \<Longrightarrow> all_some (map (\<lambda>x. url_value (url_char x)) xs) = Some xs"
  by (induction xs) simp_all

lemma length_sextets: "decoded_len (length (sextets bytes)) = length bytes"
proof (induction bytes rule: sextets.induct)
  case (4 a b c bytes)
  have "decoded_len (Suc (Suc (Suc (Suc n)))) = Suc (Suc (Suc (decoded_len n)))" for n
    using div_add_self1 [of 4 n] mod_add_self1 [of 4 n] by (simp add: decoded_len_def)
  with 4 show ?case by simp
qed (simp_all add: decoded_len_def)

lemma base64url_round_trip: "base64url_decode (base64url (map of_char body)) = Some body"
proof -
  let ?bytes = "map of_char body :: nat list"
  have b: "\<forall>b \<in> set ?bytes. b < 256" by (auto simp: nat_of_char_less_256)
  then have x: "\<forall>x \<in> set (sextets ?bytes). x < 64" using sextets_less by blast
  then have "filter (\<lambda>ch. ch \<noteq> char_of (10::nat) \<and> ch \<noteq> char_of (13::nat)) (base64url ?bytes) = base64url ?bytes"
    by (auto simp: base64url_sextets filter_id_conv)
  with x b show ?thesis
    by (simp add: base64url_decode_def base64url_sextets all_some_url sextets_bytes_sextets comp_def)
qed

text \<open>
  What is relied on of \<^verbatim>\<open>encoding/json\<close>: a struct is read back from the text that was
  written for it, and a JSON text is not empty.
\<close>

definition codec_ok :: "'c codec \<Rightarrow> 'c \<Rightarrow> bool" where
  "codec_ok codec c \<longleftrightarrow>
     (\<exists>body. cc_marshal codec c = Some body \<and> body \<noteq> [] \<and> length body \<le> maxCursorBytes \<and> cc_unmarshal codec body = Some c)"

lemma cursor_round_trip:
  assumes "codec_ok codec c"
  obtains token where "encodeCursor codec c = Inr token" "token \<noteq> ''''" "decodeCursor codec token = Inr c"
proof -
  obtain body where body: "cc_marshal codec c = Some body" "body \<noteq> []" "length body \<le> maxCursorBytes" "cc_unmarshal codec body = Some c"
    using assms by (auto simp: codec_ok_def)
  let ?token = "base64url (map of_char body)"
  have len: "decoded_len (length ?token) = length body" by (simp add: base64url_sextets length_sextets)
  with body(2) have "?token \<noteq> ''''" by (auto simp: decoded_len_def)
  with body len show thesis by (intro that [of ?token]) (simp_all add: encodeCursor_def decodeCursor_def base64url_round_trip)
qed

section \<open>Following the cursors\<close>

text \<open>The client of a paged list, with fuel for the number of pages it is ready to read.\<close>

fun follow :: "(string \<Rightarrow> 'a page res) \<Rightarrow> nat \<Rightarrow> string \<Rightarrow> 'a list res" where
  "follow list 0 cursor = Inl (Errorf ''too many pages'')"
| "follow list (Suc n) cursor =
     bindR (list cursor) (\<lambda>(items, next_page).
     if next_page = '''' then Inr items else bindR (follow list n next_page) (\<lambda>rest. Inr (items @ rest)))"

definition beyond :: "('r \<Rightarrow> 'k :: linorder) \<Rightarrow> 'k option \<Rightarrow> 'r \<Rightarrow> bool" where
  "beyond key after r = (case after of None \<Rightarrow> True | Some k \<Rightarrow> k < key r)"

definition rows_beyond :: "('r \<Rightarrow> 'k :: linorder) \<Rightarrow> 'r list \<Rightarrow> 'k option \<Rightarrow> 'r list" where
  "rows_beyond key rows after = order_by key (filter (beyond key after) rows)"

lemma filter_order_by: "filter P (order_by key rows) = order_by key (filter P rows)"
  by (simp add: order_by_def filter_sort)

lemma order_by_idem: "order_by key (order_by key xs) = order_by key xs"
  unfolding order_by_def by (rule properties_for_sort_key) (simp_all add: sort_key_stable)

lemma rows_beyond_where:
  "rows_beyond key (order_by key (filter P rows)) after = order_by key (filter (\<lambda>r. P r \<and> beyond key after r) rows)"
  by (simp add: rows_beyond_def filter_order_by order_by_idem conj_commute)

lemma rows_after_page:
  assumes "distinct (map key rows)" and "n < length (rows_beyond key rows after)"
  shows "rows_beyond key rows (Some (key (rows_beyond key rows after ! n))) = drop (Suc n) (rows_beyond key rows after)"
proof -
  define xs where "xs = rows_beyond key rows after"
  have "distinct (map key xs)" using assms(1) unfolding xs_def rows_beyond_def order_by_def
    by (simp add: distinct_map inj_on_def)
  moreover have "sorted (map key xs)" by (simp add: xs_def rows_beyond_def order_by_def)
  ultimately have s: "sorted_wrt (<) (map key xs)" using strict_sorted_iff by blast
  have n: "n < length xs" using assms(2) by (simp add: xs_def)
  have "beyond key after (xs ! n)" using nth_mem [OF n] by (simp add: xs_def rows_beyond_def order_by_def)
  then have "filter (beyond key (Some (key (xs ! n)))) rows = filter (beyond key (Some (key (xs ! n)))) (filter (beyond key after) rows)"
    by (auto simp: beyond_def filter_filter intro!: filter_cong split: option.splits dest: order.strict_trans)
  then have "rows_beyond key rows (Some (key (xs ! n))) = filter (beyond key (Some (key (xs ! n)))) xs"
    by (simp add: rows_beyond_def xs_def filter_order_by)
  also have "\<dots> = filter (beyond key (Some (key (xs ! n)))) (take (Suc n) xs) @ filter (beyond key (Some (key (xs ! n)))) (drop (Suc n) xs)"
    by (metis append_take_drop_id filter_append)
  also have "filter (beyond key (Some (key (xs ! n)))) (take (Suc n) xs) = []"
  proof -
    have "\<not> key (xs ! n) < key r" if r: "r \<in> set (take (Suc n) xs)" for r
    proof -
      obtain i where "i \<le> n" "r = xs ! i" using r n by (auto simp: in_set_conv_nth less_Suc_eq_le)
      then show ?thesis using \<open>sorted (map key xs)\<close> n by (auto simp: sorted_iff_nth_mono not_less)
    qed
    then show ?thesis by (simp add: filter_empty_conv beyond_def)
  qed
  also have "filter (beyond key (Some (key (xs ! n)))) (drop (Suc n) xs) = drop (Suc n) xs"
  proof -
    have "key (xs ! n) < key r" if r: "r \<in> set (drop (Suc n) xs)" for r
    proof -
      obtain i where "i < length (drop (Suc n) xs)" "r = drop (Suc n) xs ! i" using r by (metis in_set_conv_nth)
      then have "Suc n + i < length xs" "r = xs ! (Suc n + i)" using n by simp_all
      then show ?thesis using sorted_wrt_nth_less [OF s, of n "Suc n + i"] by simp
    qed
    then show ?thesis by (simp add: filter_id_conv beyond_def)
  qed
  finally show ?thesis by (simp add: xs_def)
qed

text \<open>
  A paged list: of a state that is in order, the page at a cursor holds the first rows after the
  key the cursor stands for, and its own cursor stands for the key of its last row.
\<close>

locale paged_list =
  fixes in_order :: "'s \<Rightarrow> bool" and rows :: "'s \<Rightarrow> 'r list" and key :: "'r \<Rightarrow> 'k :: linorder" and item :: "'s \<Rightarrow> 'r \<Rightarrow> 'a"
    and stands_for :: "'s \<Rightarrow> string \<Rightarrow> 'k option \<Rightarrow> bool" and list_page :: "'s \<Rightarrow> nat \<Rightarrow> string \<Rightarrow> 'a page res"
  assumes distinct_keys: "in_order s \<Longrightarrow> distinct (map key (rows s))"
    and first_page: "in_order s \<Longrightarrow> stands_for s '''' None"
    and page: "in_order s \<Longrightarrow> stands_for s cursor after \<Longrightarrow> 0 < size' \<Longrightarrow> size' \<le> 100 \<Longrightarrow> xs = rows_beyond key (rows s) after \<Longrightarrow>
      \<exists>next_page. list_page s size' cursor = Inr (map (item s) (take size' xs), next_page) \<and>
        (if size' < length xs then next_page \<noteq> '''' \<and> stands_for s next_page (Some (key (xs ! (size' - 1)))) else next_page = '''')"
begin

lemma follow_from:
  assumes s: "in_order s" and size: "0 < n" "n \<le> 100"
  shows "stands_for s cursor after \<Longrightarrow> length (rows_beyond key (rows s) after) \<le> n * fuel \<Longrightarrow>
    follow (list_page s n) (Suc fuel) cursor = Inr (map (item s) (rows_beyond key (rows s) after))"
proof (induction fuel arbitrary: cursor after)
  case (Suc fuel)
  let ?xs = "rows_beyond key (rows s) after"
  obtain next_page where p: "list_page s n cursor = Inr (map (item s) (take n ?xs), next_page)"
    and nx: "if n < length ?xs then next_page \<noteq> '''' \<and> stands_for s next_page (Some (key (?xs ! (n - 1)))) else next_page = ''''"
    using page [OF s Suc.prems(1) size refl] by blast
  show ?case
  proof (cases "n < length ?xs")
    case True
    let ?after = "Some (key (?xs ! (n - 1)))"
    have rest: "rows_beyond key (rows s) ?after = drop n ?xs"
      using rows_after_page [OF distinct_keys [OF s], of "n - 1" after] True size by simp
    then have "follow (list_page s n) (Suc fuel) next_page = Inr (map (item s) (drop n ?xs))"
      using Suc.IH [of next_page ?after] Suc.prems(2) nx True by simp
    then show ?thesis using p nx True by (simp flip: map_append del: follow.simps add: follow.simps(2) [of _ "Suc fuel"])
  next
    case False
    then show ?thesis using p nx by simp
  qed
next
  case 0
  then show ?case using page [OF s 0(1) size refl] by auto
qed

theorem follow_all:
  assumes "in_order s" and "0 < n" "n \<le> 100" and "length (rows s) \<le> n * fuel"
  shows "follow (list_page s n) (Suc fuel) '''' = Inr (map (item s) (order_by key (rows s)))"
proof -
  have "rows_beyond key (rows s) None = order_by key (rows s)" by (simp add: rows_beyond_def beyond_def)
  then show ?thesis using follow_from [OF assms(1-3) first_page [OF assms(1)]] assms(4) by (simp add: order_by_def)
qed

end

section \<open>The lists of the services\<close>

lemma cut_page_take:
  "cut_page (int n) (map f (take (nat (int n + 1)) xs)) = (map f (take n xs), n < length xs)"
proof (cases "n < length xs")
  case True
  then have "nat (int n + 1) = Suc n" "length (take (Suc n) xs) = Suc n" by simp_all
  then show ?thesis using True by (simp add: cut_page_def take_map [symmetric] min_def)
next
  case False
  then have "take (nat (int n + 1)) xs = xs" "take n xs = xs" by simp_all
  then show ?thesis using False by (simp add: cut_page_def)
qed

lemma normalizeLimit_page: "0 < n \<Longrightarrow> n \<le> 100 \<Longrightarrow> normalizeLimit (int n) = Inr (int n)"
  by (simp add: normalizeLimit_def maxPageSize_def)

lemma Nil_less [simp]: "[] < (xs :: string) \<longleftrightarrow> xs \<noteq> []"
  by (cases xs) simp_all

text \<open>The cursor of a page of \<open>n\<close> rows out of \<open>xs\<close>.\<close>

lemma next_cursor_page:
  assumes "0 < n" and "\<And>r. r \<in> set xs \<Longrightarrow> \<exists>token. encode (f r) = Inr token \<and> token \<noteq> '''' \<and> stands token r"
  shows "\<exists>next_page. next_cursor encode (map f (take n xs)) (n < length xs) = Inr next_page \<and>
    (if n < length xs then next_page \<noteq> '''' \<and> stands next_page (xs ! (n - 1)) else next_page = '''')"
proof (cases "n < length xs")
  case True
  then have ne: "take n xs \<noteq> []" using assms(1) by auto
  then have "last (map f (take n xs)) = f (xs ! (n - 1))" using True assms(1) by (simp add: last_map last_conv_nth min_def)
  moreover have "xs ! (n - 1) \<in> set xs" using True by simp
  ultimately show ?thesis using assms(2) [of "xs ! (n - 1)"] True ne by (auto simp: next_cursor_def)
qed (simp add: next_cursor_def)

definition workflows_in_order :: "workflowCursor codec \<times> control \<Rightarrow> bool" where
  "workflows_in_order = (\<lambda>(codec, s). distinct (map wo_id (db_workflows (cp_db s))) \<and>
     (\<forall>w \<in> set (db_workflows (cp_db s)). wo_id w \<noteq> '''' \<and> codec_ok codec (workflow_cursor (wo_id w))))"

definition workflow_stands :: "workflowCursor codec \<times> control \<Rightarrow> string \<Rightarrow> string option \<Rightarrow> bool" where
  "workflow_stands = (\<lambda>(codec, s) cursor after. case after of None \<Rightarrow> cursor = ''''
     | Some workflowID \<Rightarrow> cursor \<noteq> '''' \<and> decodeWorkflowCursor codec cursor = Inr (workflow_cursor workflowID))"

interpretation workflow_list: paged_list workflows_in_order "\<lambda>(codec, s). db_workflows (cp_db s)" wo_id
  "\<lambda>_ w. workflowSummary (workflow_record w)" workflow_stands "\<lambda>(codec, s) n cursor. svc_ListWorkflows codec s cursor (int n)"
proof (unfold_locales, goal_cases)
  case (3 cs cursor after n xs)
  obtain codec s where cs: "cs = (codec, s)" by (cases cs)
  let ?d = "cp_db s"
  define afterID where "afterID = (case after of None \<Rightarrow> '''' | Some workflowID \<Rightarrow> workflowID)"
  have decoded: "(if cursor \<noteq> '''' then bindR (decodeWorkflowCursor codec cursor) (\<lambda>decoded. Inr (wc_WorkflowID decoded)) else Inr '''') = Inr afterID"
    using 3(2) by (auto simp: cs workflow_stands_def afterID_def workflow_cursor_def split: option.splits)
  have "afterID < wo_id w \<longleftrightarrow> beyond wo_id after w" if "w \<in> set (db_workflows ?d)" for w
    using that 3(1) by (auto simp: cs beyond_def afterID_def workflows_in_order_def split: option.splits)
  then have "filter (\<lambda>w. afterID < wo_id w) (db_workflows ?d) = filter (beyond wo_id after) (db_workflows ?d)"
    by (auto intro: filter_cong)
  then have xs: "order_by wo_id (filter (\<lambda>w. afterID < wo_id w) (db_workflows ?d)) = xs"
    using 3(5) by (simp add: cs rows_beyond_def)
  have "\<exists>next_page. next_cursor (\<lambda>item. encodeWorkflowCursor codec (wf_WorkflowID item)) (map workflow_record (take n xs)) (n < length xs) = Inr next_page \<and>
    (if n < length xs then next_page \<noteq> '''' \<and> workflow_stands cs next_page (Some (wo_id (xs ! (n - 1)))) else next_page = '''')"
  proof (rule next_cursor_page [OF 3(3)])
    fix w assume "w \<in> set xs"
    then have w: "w \<in> set (db_workflows ?d)" using xs by (auto simp: order_by_def)
    then have "codec_ok codec (workflow_cursor (wo_id w))" and "wo_id w \<noteq> ''''" using 3(1) by (auto simp: cs workflows_in_order_def)
    then show "\<exists>token. encodeWorkflowCursor codec (wf_WorkflowID (workflow_record w)) = Inr token \<and> token \<noteq> '''' \<and>
        workflow_stands cs token (Some (wo_id w))"
      by (elim cursor_round_trip) (auto simp: cs workflow_stands_def encodeWorkflowCursor_def decodeWorkflowCursor_def workflow_record_def workflow_cursor_def)
  qed
  then show ?case
    unfolding cs svc_ListWorkflows_def prod.case normalizeLimit_page [OF 3(3,4)] bindR.simps decoded ListWorkflows_def xs cut_page_take
    by (auto simp: comp_def)
qed (auto simp: workflows_in_order_def workflow_stands_def)

definition versions_in_order :: "versionCursor codec \<times> control \<times> string \<Rightarrow> bool" where
  "versions_in_order = (\<lambda>(codec, s, workflowID).
     find_workflow (cp_db s) workflowID \<noteq> None \<and> distinct (map ve_version (filter (\<lambda>v. ve_workflow_id v = workflowID) (db_versions (cp_db s)))) \<and>
     (\<forall>v \<in> set (db_versions (cp_db s)). 0 < ve_version v \<and> codec_ok codec (version_cursor workflowID (ve_version v))))"

definition version_stands :: "versionCursor codec \<times> control \<times> string \<Rightarrow> string \<Rightarrow> int option \<Rightarrow> bool" where
  "version_stands = (\<lambda>(codec, s, workflowID) cursor after. case after of None \<Rightarrow> cursor = ''''
     | Some version \<Rightarrow> cursor \<noteq> '''' \<and> decodeVersionCursor codec cursor workflowID = Inr (version_cursor workflowID version))"

interpretation version_list: paged_list versions_in_order
  "\<lambda>(codec, s, workflowID). filter (\<lambda>v. ve_workflow_id v = workflowID) (db_versions (cp_db s))" ve_version
  "\<lambda>_ v. version_summary (version_record v)" version_stands "\<lambda>(codec, s, workflowID) n cursor. svc_ListVersions codec s workflowID cursor (int n)"
proof (unfold_locales, goal_cases)
  case (3 cs cursor after n xs)
  obtain codec s workflowID where cs: "cs = (codec, s, workflowID)" by (cases cs) auto
  let ?d = "cp_db s"
  define afterVersion where "afterVersion = (case after of None \<Rightarrow> 0 | Some version \<Rightarrow> version)"
  have decoded: "(if cursor \<noteq> '''' then bindR (decodeVersionCursor codec cursor workflowID) (\<lambda>decoded. Inr (vc_AfterVersion decoded)) else Inr 0) =
      Inr afterVersion"
    using 3(2) by (auto simp: cs version_stands_def afterVersion_def version_cursor_def split: option.splits)
  have "afterVersion < ve_version v \<longleftrightarrow> beyond ve_version after v" if "v \<in> set (db_versions ?d)" for v
    using that 3(1) by (auto simp: cs beyond_def afterVersion_def versions_in_order_def split: option.splits)
  then have "filter (\<lambda>v. ve_workflow_id v = workflowID \<and> afterVersion < ve_version v) (db_versions ?d) =
      filter (beyond ve_version after) (filter (\<lambda>v. ve_workflow_id v = workflowID) (db_versions ?d))"
    by (auto intro: filter_cong)
  then have xs: "order_by ve_version (filter (\<lambda>v. ve_workflow_id v = workflowID \<and> afterVersion < ve_version v) (db_versions ?d)) = xs"
    using 3(5) by (simp add: cs rows_beyond_def)
  have ex: "ensureWorkflowExists ?d workflowID = Inr ()" using 3(1) by (simp add: cs versions_in_order_def ensureWorkflowExists_def)
  have "\<exists>next_page. next_cursor (\<lambda>item. encodeVersionCursor codec workflowID (vr_Version item)) (map version_record (take n xs)) (n < length xs) = Inr next_page \<and>
    (if n < length xs then next_page \<noteq> '''' \<and> version_stands cs next_page (Some (ve_version (xs ! (n - 1)))) else next_page = '''')"
  proof (rule next_cursor_page [OF 3(3)])
    fix v assume "v \<in> set xs"
    then have "v \<in> set (db_versions ?d)" using xs by (auto simp: order_by_def)
    then have "codec_ok codec (version_cursor workflowID (ve_version v))" and "0 < ve_version v" using 3(1) by (auto simp: cs versions_in_order_def)
    then show "\<exists>token. encodeVersionCursor codec workflowID (vr_Version (version_record v)) = Inr token \<and> token \<noteq> '''' \<and>
        version_stands cs token (Some (ve_version v))"
      by (elim cursor_round_trip) (auto simp: cs version_stands_def encodeVersionCursor_def decodeVersionCursor_def version_record_def version_cursor_def)
  qed
  then show ?case
    unfolding cs svc_ListVersions_def prod.case normalizeLimit_page [OF 3(3,4)] bindR.simps decoded pg_ListVersions_def xs Let_def ex if_cancel cut_page_take
    by (auto simp: comp_def)
qed (auto simp: versions_in_order_def version_stands_def)

text \<open>Of a run in a database that satisfies the invariant, the tasks and the events are
  contiguous, and the lists are those of the snapshot.\<close>

lemma world_loadable:
  assumes "world_ok d" and "find_run d runID = Some r"
  obtains s cw where "loadable d runID r cw" "loadSnapshot d runID = Inr s" "s = loaded d runID r cw" "as_stored s = s" "runID \<noteq> ''''"
proof -
  obtain s cw where g: "run_good d runID s cw" using world_okD(5) [OF assms(1), of runID] assms(2) by (auto simp: run_ok_def)
  note l = run_goodD [OF g]
  obtain r' cw' where "loadable d runID r' cw'" "s = loaded d runID r' cw'"
    using l(1) load_iff [OF world_okD(1) [OF assms(1)]] by blast
  moreover from this have "r' = r" using assms(2) by (simp add: loadable_def)
  ultimately show thesis using that l(1,2,8) by blast
qed

definition tasks_in_order :: "taskCursor codec \<times> control \<times> RunID \<Rightarrow> bool" where
  "tasks_in_order = (\<lambda>(codec, s, runID). world_ok (cp_db s) \<and> find_run (cp_db s) runID \<noteq> None \<and>
     (\<forall>t \<in> set (task_rows (cp_db s) runID). codec_ok codec (task_cursor runID (tk_task_index t))))"

definition task_stands :: "taskCursor codec \<times> control \<times> RunID \<Rightarrow> string \<Rightarrow> int option \<Rightarrow> bool" where
  "task_stands = (\<lambda>(codec, s, runID) cursor after. case after of None \<Rightarrow> cursor = ''''
     | Some index \<Rightarrow> cursor \<noteq> '''' \<and> decodeTaskCursor codec cursor runID = Inr (task_cursor runID index))"

lemma world_task_indexes:
  assumes "world_ok d" and "find_run d runID \<noteq> None"
  shows "map tk_task_index (task_rows d runID) = map int [0 ..< length (task_rows d runID)]"
proof -
  obtain r where "find_run d runID = Some r" using assms(2) by blast
  then show ?thesis using world_loadable [OF assms(1)] by (metis loadable_def tasks_contiguous_def)
qed

interpretation task_list: paged_list tasks_in_order "\<lambda>(codec, s, runID). task_rows (cp_db s) runID" tk_task_index
  "\<lambda>_ t. task_summary \<lparr>tx_Index = tk_task_index t, tx_Task = task_of_row t\<rparr>" task_stands
  "\<lambda>(codec, s, runID) n cursor. svc_ListTasks codec s runID cursor (int n)"
proof (unfold_locales, goal_cases)
  case (1 cs)
  obtain codec s runID where cs: "cs = (codec, s, runID)" by (cases cs) auto
  have "map tk_task_index (task_rows (cp_db s) runID) = map int [0 ..< length (task_rows (cp_db s) runID)]"
    using 1 world_task_indexes by (simp add: cs tasks_in_order_def)
  then show ?case by (simp only: cs prod.case) (simp add: distinct_map inj_on_def)
next
  case (3 cs cursor after n xs)
  obtain codec s runID where cs: "cs = (codec, s, runID)" by (cases cs) auto
  let ?d = "cp_db s" and ?item = "\<lambda>t. \<lparr>tx_Index = tk_task_index t, tx_Task = task_of_row t\<rparr>"
  have w: "world_ok ?d" "find_run ?d runID \<noteq> None" using 3(1) by (simp_all add: cs tasks_in_order_def)
  define afterIndex where "afterIndex = (case after of None \<Rightarrow> - 1 | Some index \<Rightarrow> index)"
  have decoded: "(if cursor \<noteq> '''' then bindR (decodeTaskCursor codec cursor runID) (\<lambda>decoded. Inr (kc_TaskIndex decoded)) else Inr (- 1)) =
      Inr afterIndex"
    using 3(2) by (auto simp: cs task_stands_def afterIndex_def task_cursor_def split: option.splits)
  have "0 \<le> tk_task_index t" if "t \<in> set (task_rows ?d runID)" for t
  proof -
    have "tk_task_index t \<in> set (map tk_task_index (task_rows ?d runID))" using that by simp
    then show ?thesis unfolding world_task_indexes [OF w] by auto
  qed
  then have index: "0 \<le> tk_task_index t" if "t \<in> set (db_tasks ?d)" "tk_run_id t = runID" for t
    using that by (simp add: task_rows_def order_by_def)
  have "- 1 < tk_task_index t" if "t \<in> set (db_tasks ?d)" "tk_run_id t = runID" for t using index [OF that] by simp
  then have "filter (\<lambda>t. tk_run_id t = runID \<and> afterIndex < tk_task_index t) (db_tasks ?d) =
      filter (\<lambda>t. tk_run_id t = runID \<and> beyond tk_task_index after t) (db_tasks ?d)"
    by (intro filter_cong) (auto simp: beyond_def afterIndex_def split: option.splits)
  then have xs: "order_by tk_task_index (filter (\<lambda>t. tk_run_id t = runID \<and> afterIndex < tk_task_index t) (db_tasks ?d)) = xs"
    using 3(5) by (simp add: cs task_rows_def rows_beyond_where)
  have ex: "ensureRunExists ?d runID = Inr ()" using w by (simp add: ensureRunExists_def)
  have "\<exists>next_page. next_cursor (\<lambda>task. encodeTaskCursor codec runID (tx_Index task)) (map ?item (take n xs)) (n < length xs) = Inr next_page \<and>
    (if n < length xs then next_page \<noteq> '''' \<and> task_stands cs next_page (Some (tk_task_index (xs ! (n - 1)))) else next_page = '''')"
  proof (rule next_cursor_page [OF 3(3)])
    fix t assume "t \<in> set xs"
    then have "t \<in> set (db_tasks ?d)" "tk_run_id t = runID" using xs by (auto simp: order_by_def)
    then have "codec_ok codec (task_cursor runID (tk_task_index t))" and "0 \<le> tk_task_index t"
      using 3(1) index by (auto simp: cs tasks_in_order_def task_rows_def order_by_def)
    then show "\<exists>token. encodeTaskCursor codec runID (tx_Index (?item t)) = Inr token \<and> token \<noteq> '''' \<and> task_stands cs token (Some (tk_task_index t))"
      by (elim cursor_round_trip) (auto simp: cs task_stands_def encodeTaskCursor_def decodeTaskCursor_def task_cursor_def)
  qed
  then show ?case
    unfolding cs svc_ListTasks_def prod.case normalizeLimit_page [OF 3(3,4)] bindR.simps decoded ListTaskRuns_def xs Let_def ex if_cancel cut_page_take
    by (auto simp: comp_def)
qed (auto simp: task_stands_def)

definition events_in_order :: "eventCursor codec \<times> control \<times> RunID \<Rightarrow> bool" where
  "events_in_order = (\<lambda>(codec, s, runID). world_ok (cp_db s) \<and> find_run (cp_db s) runID \<noteq> None \<and>
     (\<forall>e \<in> set (event_rows (cp_db s) runID). codec_ok codec (event_cursor runID (of_int (ev_sequence e)))))"

definition event_stands :: "eventCursor codec \<times> control \<times> RunID \<Rightarrow> string \<Rightarrow> int option \<Rightarrow> bool" where
  "event_stands = (\<lambda>(codec, s, runID) cursor after. case after of None \<Rightarrow> cursor = ''''
     | Some sequence \<Rightarrow> cursor \<noteq> '''' \<and> 0 < sequence \<and> sequence < 2 ^ 63 \<and>
         decodeEventCursor codec cursor runID = Inr (event_cursor runID (of_int sequence)))"

lemma world_event_sequences:
  assumes "world_ok d" and "find_run d runID \<noteq> None"
  shows "map ev_sequence (event_rows d runID) = map int [1 ..< Suc (length (event_rows d runID))]"
    and "e \<in> set (event_rows d runID) \<Longrightarrow> 0 < ev_sequence e \<and> ev_sequence e < 2 ^ 63"
proof -
  obtain r where "find_run d runID = Some r" using assms(2) by blast
  then show s: "map ev_sequence (event_rows d runID) = map int [1 ..< Suc (length (event_rows d runID))]"
    using world_loadable [OF assms(1)] by (metis loadable_def events_contiguous_def)
  assume e: "e \<in> set (event_rows d runID)"
  then have "ev_sequence e \<in> set (map ev_sequence (event_rows d runID))" by simp
  then have "0 < ev_sequence e" unfolding s by auto
  moreover have "list_all (\<lambda>e. ev_sequence e < 2 ^ 63) (db_events d)" using world_okD(1) [OF assms(1)] by (simp add: tables_ok_def)
  ultimately show "0 < ev_sequence e \<and> ev_sequence e < 2 ^ 63" using e by (auto simp: list_all_iff event_rows_def order_by_def)
qed

lemma scan_page_events: "(\<And>e. e \<in> set es \<Longrightarrow> 0 < ev_sequence e) \<Longrightarrow> foldR scan_page_event es items = Inr (items @ map event_of_row es)"
  by (induction es arbitrary: items) (simp_all add: scan_page_event_def not_le)

interpretation event_list: paged_list events_in_order "\<lambda>(codec, s, runID). event_rows (cp_db s) runID" ev_sequence
  "\<lambda>_. event_of_row" event_stands "\<lambda>(codec, s, runID) n cursor. svc_ListEvents codec s runID cursor (int n)"
proof (unfold_locales, goal_cases)
  case (1 cs)
  obtain codec s runID where cs: "cs = (codec, s, runID)" by (cases cs) auto
  have "map ev_sequence (event_rows (cp_db s) runID) = map int [1 ..< Suc (length (event_rows (cp_db s) runID))]"
    using 1 world_event_sequences(1) by (simp add: cs events_in_order_def)
  then show ?case by (simp only: cs prod.case) (simp add: distinct_map inj_on_def)
next
  case (3 cs cursor after n xs)
  obtain codec s runID where cs: "cs = (codec, s, runID)" by (cases cs) auto
  let ?d = "cp_db s"
  have w: "world_ok ?d" "find_run ?d runID \<noteq> None" using 3(1) by (simp_all add: cs events_in_order_def)
  have seq: "0 < ev_sequence e \<and> ev_sequence e < 2 ^ 63" if "e \<in> set (db_events ?d)" "ev_run_id e = runID" for e
    using world_event_sequences(2) [OF w, of e] that by (simp add: event_rows_def order_by_def)
  define start :: u64 where "start = (case after of None \<Rightarrow> 0 | Some sequence \<Rightarrow> of_int sequence)"
  have decoded: "(if cursor \<noteq> '''' then bindR (decodeEventCursor codec cursor runID) (\<lambda>decoded. Inr (xc_Sequence decoded)) else Inr 0) = Inr start"
    using 3(2) by (auto simp: cs event_stands_def start_def event_cursor_def split: option.splits)
  have start: "int64 start = (case after of None \<Rightarrow> 0 | Some sequence \<Rightarrow> sequence)"
    using 3(2) int64_of_bigint by (auto simp: cs event_stands_def start_def int64_def split: option.splits)
  have "filter (\<lambda>e. ev_run_id e = runID \<and> int64 start < ev_sequence e) (db_events ?d) =
      filter (\<lambda>e. ev_run_id e = runID \<and> beyond ev_sequence after e) (db_events ?d)"
    using seq by (intro filter_cong) (auto simp: beyond_def start split: option.splits)
  then have xs: "order_by ev_sequence (filter (\<lambda>e. ev_run_id e = runID \<and> int64 start < ev_sequence e) (db_events ?d)) = xs"
    using 3(5) by (simp add: cs event_rows_def rows_beyond_where)
  have mem: "e \<in> set xs \<Longrightarrow> e \<in> set (db_events ?d) \<and> ev_run_id e = runID" for e using xs by (auto simp: order_by_def)
  have scan: "foldR scan_page_event (take (nat (int n + 1)) xs) [] = Inr (map event_of_row (take (nat (int n + 1)) xs))"
    using scan_page_events [of "take (nat (int n + 1)) xs" "[]"] seq mem by (auto dest: in_set_takeD)
  have ex: "ensureRunExists ?d runID = Inr ()" using w by (simp add: ensureRunExists_def)
  have "\<exists>next_page. next_cursor (\<lambda>ev. encodeEventCursor codec runID (se_Sequence ev)) (map event_of_row (take n xs)) (n < length xs) = Inr next_page \<and>
    (if n < length xs then next_page \<noteq> '''' \<and> event_stands cs next_page (Some (ev_sequence (xs ! (n - 1)))) else next_page = '''')"
  proof (rule next_cursor_page [OF 3(3)])
    fix e assume "e \<in> set xs"
    then have e: "e \<in> set (db_events ?d)" "ev_run_id e = runID" using mem by auto
    then have "codec_ok codec (event_cursor runID (of_int (ev_sequence e)))"
      using 3(1) by (auto simp: cs events_in_order_def event_rows_def order_by_def)
    moreover have "(of_int (ev_sequence e) :: u64) \<noteq> 0"
      using int64_of_bigint [of "ev_sequence e"] seq [OF e] by (auto simp: int64_def)
    ultimately show "\<exists>token. encodeEventCursor codec runID (se_Sequence (event_of_row e)) = Inr token \<and> token \<noteq> '''' \<and>
        event_stands cs token (Some (ev_sequence e))"
      using seq [OF e]
      by (elim cursor_round_trip) (auto simp: cs event_stands_def encodeEventCursor_def decodeEventCursor_def event_cursor_def event_of_row_def)
  qed
  then show ?case
    unfolding cs svc_ListEvents_def prod.case normalizeLimit_page [OF 3(3,4)] bindR.simps decoded ListStateEvents_def xs scan ex if_cancel cut_page_take
    by auto
qed (auto simp: event_stands_def)

text \<open>Runs are listed by creation time and identifier, within a filter that the cursor carries along.\<close>

definition listed_runs :: "control \<times> string \<times> string \<Rightarrow> run_row list" where
  "listed_runs = (\<lambda>(s, workflowID, status). filter (run_selected (run_query workflowID (workflow_of_str status) None)) (db_runs (cp_db s)))"

definition runs_in_order :: "runCursor codec \<times> (string \<Rightarrow> string) \<times> control \<times> string \<times> string \<Rightarrow> bool" where
  "runs_in_order = (\<lambda>(codec, sha, q). case q of (s, workflowID, status) \<Rightarrow>
     world_ok (cp_db s) \<and> parseRunStatus status = Inr (workflow_of_str status) \<and>
     (\<forall>r \<in> set (listed_runs q). rr_created_at r \<noteq> zeroTime \<and>
        codec_ok codec (run_cursor sha (rr_created_at r) (rr_run_id r) workflowID (workflow_of_str status))))"

definition run_stands :: "runCursor codec \<times> (string \<Rightarrow> string) \<times> control \<times> string \<times> string \<Rightarrow> string \<Rightarrow> (time \<times> RunID) option \<Rightarrow> bool" where
  "run_stands = (\<lambda>(codec, sha, s, workflowID, status) cursor after. case after of None \<Rightarrow> cursor = ''''
     | Some (created, runID) \<Rightarrow> cursor \<noteq> '''' \<and> timestamptz created = created \<and> runID \<noteq> '''' \<and>
         decodeRunCursor codec sha cursor workflowID (workflow_of_str status) =
           Inr (run_cursor sha created runID workflowID (workflow_of_str status)))"

lemma world_run_row:
  assumes "world_ok d" and "r \<in> set (db_runs d)"
  shows "timestamptz (rr_created_at r) = rr_created_at r" and "rr_run_id r \<noteq> ''''" and "0 \<le> rr_revision r"
proof -
  note t = world_okD(1) [OF assms(1)]
  from world_loadable [OF assms(1) find_run_unique [OF t assms(2)]] obtain s cw where s: "s = loaded d (rr_run_id r) r cw" "as_stored s = s" "rr_run_id r \<noteq> ''''" .
  have "timestamptz (wr_CreatedAt (rs_Run s)) = wr_CreatedAt (rs_Run s)" using arg_cong [OF s(2), of "\<lambda>s. wr_CreatedAt (rs_Run s)"]
    by (simp add: as_stored_def)
  then show "timestamptz (rr_created_at r) = rr_created_at r" using s(1) by (simp add: loaded_def run_of_row_def)
  show "rr_run_id r \<noteq> ''''" using s(3) .
  show "0 \<le> rr_revision r" using t assms(2) by (auto simp: tables_ok_def list_all_iff run_row_ok_def)
qed

definition run_record_of :: "db \<Rightarrow> run_row \<Rightarrow> RunRecord" where
  "run_record_of d r = \<lparr>rn_ID = rr_run_id r, rn_DefinitionID = rr_workflow_id r, rn_DefinitionVersion = rr_workflow_version r,
     rn_Status = rr_status r, rn_Revision = of_int (rr_revision r), rn_TaskCount = task_total d (rr_run_id r),
     rn_CreatedAt = rr_created_at r, rn_StartedAt = rr_started_at r, rn_FinishedAt = rr_finished_at r\<rparr>"

lemma run_records: "(\<And>r. r \<in> set rs \<Longrightarrow> 0 \<le> rr_revision r) \<Longrightarrow> foldR (run_record d) rs items = Inr (items @ map (run_record_of d) rs)"
  by (induction rs arbitrary: items) (simp_all add: run_record_def run_record_of_def not_less)

lemma run_selected_beyond:
  "(case after of None \<Rightarrow> True | Some (created, _) \<Rightarrow> timestamptz created = created) \<Longrightarrow>
   run_selected (run_query workflowID status after) r \<longleftrightarrow>
     run_selected (run_query workflowID status None) r \<and> beyond (\<lambda>r. (rr_created_at r, rr_run_id r)) after r"
  by (auto simp: run_selected_def run_query_def beyond_def split: option.splits)

interpretation run_list: paged_list runs_in_order "\<lambda>(codec, sha, q). listed_runs q" "\<lambda>r. (rr_created_at r, rr_run_id r)"
  "\<lambda>(codec, sha, s, workflowID, status) r. run_summary (run_record_of (cp_db s) r)" run_stands
  "\<lambda>(codec, sha, s, workflowID, status) n cursor.
     svc_ListRuns codec sha s \<lparr>ro_Cursor = cursor, ro_Limit = int n, ro_WorkflowID = workflowID, ro_Status = status\<rparr>"
proof (unfold_locales, goal_cases)
  case (1 cs)
  obtain codec sha s workflowID status where cs: "cs = (codec, sha, s, workflowID, status)" by (cases cs) auto
  have "distinct (map rr_run_id (db_runs (cp_db s)))"
    using 1 world_okD(1) [of "cp_db s"] by (simp add: cs runs_in_order_def tables_ok_def)
  then have "distinct (map rr_run_id (listed_runs (s, workflowID, status)))" by (simp add: listed_runs_def distinct_map_filter)
  then show ?case by (simp add: cs) (auto simp: distinct_map inj_on_def)
next
  case (3 cs cursor after n xs)
  obtain codec sha s workflowID status where cs: "cs = (codec, sha, s, workflowID, status)" by (cases cs) auto
  let ?d = "cp_db s" and ?st = "workflow_of_str status" and ?key = "\<lambda>r. (rr_created_at r, rr_run_id r)"
  have w: "world_ok ?d" and st: "parseRunStatus status = Inr ?st" using 3(1) by (simp_all add: cs runs_in_order_def)
  have decoded: "(if cursor \<noteq> '''' then bindR (decodeRunCursor codec sha cursor workflowID ?st)
        (\<lambda>cursor. Inr (Some (rc_CreatedAt cursor, rc_RunID cursor))) else Inr None) = Inr after"
    using 3(2) by (auto simp: cs run_stands_def run_cursor_def split: option.splits)
  have whole: "case after of None \<Rightarrow> True | Some (created, _) \<Rightarrow> timestamptz created = created"
    using 3(2) by (auto simp: cs run_stands_def split: option.splits)
  have guard: "((ry_AfterCreated (run_query workflowID ?st after) = None) \<noteq> (ry_AfterRunID (run_query workflowID ?st after) = '''')) = False"
    using 3(2) by (auto simp: cs run_stands_def run_query_def split: option.splits)
  have "filter (run_selected (run_query workflowID ?st after)) (db_runs ?d) = filter (beyond ?key after) (listed_runs (s, workflowID, status))"
    unfolding listed_runs_def prod.case filter_filter by (intro filter_cong refl run_selected_beyond [OF whole])
  then have xs: "order_by ?key (filter (run_selected (run_query workflowID ?st after)) (db_runs ?d)) = xs"
    using 3(5) by (simp add: cs rows_beyond_def)
  have mem: "r \<in> set xs \<Longrightarrow> r \<in> set (listed_runs (s, workflowID, status)) \<and> r \<in> set (db_runs ?d)" for r
    using 3(5) by (auto simp: cs rows_beyond_def order_by_def listed_runs_def)
  have recs: "foldR (run_record ?d) (take (nat (int n + 1)) xs) [] = Inr (map (run_record_of ?d) (take (nat (int n + 1)) xs))"
    using run_records [of "take (nat (int n + 1)) xs" ?d "[]"] world_run_row(3) [OF w] mem by (auto dest: in_set_takeD)
  have "\<exists>next_page. next_cursor (\<lambda>item. encodeRunCursor codec sha (rn_CreatedAt item) (rn_ID item) workflowID ?st)
      (map (run_record_of ?d) (take n xs)) (n < length xs) = Inr next_page \<and>
    (if n < length xs then next_page \<noteq> '''' \<and> run_stands cs next_page (Some (?key (xs ! (n - 1)))) else next_page = '''')"
  proof (rule next_cursor_page [OF 3(3)])
    fix r assume "r \<in> set xs"
    then have r: "r \<in> set (listed_runs (s, workflowID, status))" "r \<in> set (db_runs ?d)" using mem by auto
    then have "codec_ok codec (run_cursor sha (rr_created_at r) (rr_run_id r) workflowID ?st)" "rr_created_at r \<noteq> zeroTime"
      using 3(1) by (simp_all add: cs runs_in_order_def)
    then show "\<exists>token. encodeRunCursor codec sha (rn_CreatedAt (run_record_of ?d r)) (rn_ID (run_record_of ?d r)) workflowID ?st = Inr token \<and>
        token \<noteq> '''' \<and> run_stands cs token (Some (?key r))"
      using world_run_row(1,2) [OF w r(2)]
      by (elim cursor_round_trip) (auto simp: cs run_stands_def encodeRunCursor_def decodeRunCursor_def run_cursor_def run_record_of_def)
  qed
  then show ?case
    unfolding cs svc_ListRuns_def prod.case RunListOptions.simps normalizeLimit_page [OF 3(3,4)] bindR.simps st decoded ListRunSummaries_def guard if_False
      xs recs cut_page_take
    by (auto simp: comp_def)
qed (auto simp: run_stands_def)

end
