(* ===== verification/Sample_Db.thy ===== *)
theory Sample_Db
  imports Platform Pages
begin

text \<open>
  A small database, step by step: a workflow with one task is created, a run of it started, a
  worker registered, the task dispatched and its dispatch claimed. The digest and the random
  source of the samples are simple stand-ins.
\<close>

definition tiny_task :: TaskDefinition where
  "tiny_task = \<lparr>td_Key = ''a'', td_Executor = ExecutorMock, td_Action = ''x'', td_Input = None, td_DependsOn = [],
     td_Retry = \<lparr>rp_MaxAttempts = 2, rp_IntervalMillis = 1\<rparr>, td_TimeoutMillis = 1\<rparr>"

definition tiny_def :: WorkflowDefinition where
  "tiny_def = \<lparr>wd_ID = ''w'', wd_Concurrency = 1, wd_Tasks = [tiny_task]\<rparr>"

definition tiny_cw :: CompiledWorkflow where
  "tiny_cw = \<lparr>cw_definition = tiny_def, cw_index = [(''a'', 0)], cw_dependencies = [[]], cw_successors = [[]]\<rparr>"

definition tiny_sha :: "string \<Rightarrow> string" where
  "tiny_sha w = take 32 (w @ ''00000000000000000000000000000000'')"

definition tiny_random :: random where
  "tiny_random n = Some [n]"

definition tiny_options :: options where
  "tiny_options = \<lparr>op_WorkerHeartbeatInterval = 1000, op_LeaseDuration = 20000\<rparr>"

text \<open>The hashes of the two requests.\<close>

definition tiny_hash1 :: string where
  "tiny_hash1 = ''7b226964223a2277222c22636f6e63757272656e6379223a312c227461736b73''"

definition tiny_hash2 :: string where
  "tiny_hash2 = ''7740313030303030303030303030303030303030303030303030303030303030''"

definition tiny_snapshot :: RunSnapshot where
  "tiny_snapshot = \<lparr>rs_Version = 1, rs_Definition = Some tiny_def,
     rs_Run = \<lparr>wr_ID = ''r'', wr_DefinitionID = ''w'', wr_DefinitionVersion = 1, wr_Status = WorkflowPending, wr_Revision = 0,
       wr_LastEventSequence = 0, wr_CancelRequestedAt = None,
       wr_Tasks = [\<lparr>tr_Key = ''a'', tr_Status = TaskReady, tr_Attempts = [], tr_ReadyAt = None, tr_FinishedAt = None\<rparr>],
       wr_RemainingDependencies = [0], wr_CreatedAt = 5000, wr_StartedAt = None, wr_FinishedAt = None\<rparr>,
     rs_Events = []\<rparr>"

definition db_defined :: db where
  "db_defined = empty_db\<lparr>
     db_workflows := [\<lparr>wo_id = ''w'', wo_latest_version = 1, wo_created_at = 0, wo_created_by = ''u''\<rparr>],
     db_versions := [\<lparr>ve_workflow_id = ''w'', ve_version = 1, ve_definition = tiny_def, ve_definition_hash = tiny_hash1, ve_created_at = 0,
       ve_created_by = ''u''\<rparr>],
     db_idempotency := [\<lparr>ir_principal_id = ''u'', ir_operation = ''create_workflow'', ir_idempotency_key = ''k'', ir_request_hash = tiny_hash1,
       ir_resource_type = ''workflow_version'', ir_resource_id = ''w'', ir_resource_version = Some 1\<rparr>]\<rparr>"

definition tiny_run_row :: run_row where
  "tiny_run_row = \<lparr>rr_run_id = ''r'', rr_workflow_id = ''w'', rr_workflow_version = 1, rr_snapshot_version = 1,
     rr_status = WorkflowPending, rr_revision = 0, rr_last_event_sequence = 0, rr_cancel_requested_at = None,
     rr_created_at = 5000, rr_started_at = None, rr_finished_at = None, rr_created_by = Some ''u''\<rparr>"

definition tiny_task_row :: task_row where
  "tiny_task_row = \<lparr>tk_run_id = ''r'', tk_task_key = ''a'', tk_task_index = 0, tk_status = TaskReady, tk_remaining_dependencies = 0,
     tk_ready_at = None, tk_finished_at = None\<rparr>"

definition db_started :: db where
  "db_started = db_defined\<lparr>db_runs := [tiny_run_row], db_tasks := [tiny_task_row],
     db_idempotency := db_idempotency db_defined @ [\<lparr>ir_principal_id = ''u'', ir_operation = ''start_run'', ir_idempotency_key = ''k2'',
       ir_request_hash = tiny_hash2, ir_resource_type = ''run'', ir_resource_id = ''r'', ir_resource_version = None\<rparr>]\<rparr>"

definition tiny_register :: RegisterRequest where
  "tiny_register = \<lparr>rq_DisplayName = ''n'', rq_ProtocolVersion = 1, rq_ExecutorKinds = [ExecutorMock], rq_MaxConcurrency = 1\<rparr>"

definition db_registered :: db where
  "db_registered = db_started\<lparr>
     db_workers := [\<lparr>wk_worker_id = ''wrk_AA'', wk_display_name = ''n'', wk_protocol_version = 1, wk_executor_kinds = [ExecutorMock],
       wk_max_concurrency = 1, wk_status = WorkerActive, wk_session_token_hash = ''AQ000000000000000000000000000000'',
       wk_registered_at = 6000, wk_last_heartbeat_at = 6000, wk_stopped_at = None\<rparr>]\<rparr>"

definition tiny_dispatch :: dispatch_row where
  "tiny_dispatch = \<lparr>dr_dispatch_id = ''dsp_AA'', dr_run_id = ''r'', dr_task_key = ''a'', dr_executor_kind = ExecutorMock,
     dr_status = DispatchPending, dr_worker_id = None, dr_attempt_number = None, dr_lease_token_hash = None,
     dr_lease_expires_at = None, dr_attempt_deadline = None, dr_result_hash = None, dr_created_at = 7000,
     dr_leased_at = None, dr_completed_at = None\<rparr>"

definition tiny_event :: "int \<Rightarrow> string \<Rightarrow> string \<Rightarrow> string \<Rightarrow> string \<Rightarrow> string \<Rightarrow> time \<Rightarrow> event_row" where
  "tiny_event n entity key from_status to_status reason at = \<lparr>ev_run_id = ''r'', ev_sequence = n, ev_entity_type = entity, ev_entity_key = key,
     ev_from_status = from_status, ev_to_status = to_status, ev_reason = reason, ev_occurred_at = at\<rparr>"

definition db_dispatched :: db where
  "db_dispatched = db_registered\<lparr>
     db_runs := [tiny_run_row\<lparr>rr_status := WorkflowRunning, rr_revision := 1, rr_last_event_sequence := 2, rr_started_at := Some 7000\<rparr>],
     db_tasks := [tiny_task_row\<lparr>tk_status := TaskQueued\<rparr>],
     db_events := [tiny_event 1 ''workflow'' ''r'' ''pending'' ''running'' ''distributed execution started'' 7000,
       tiny_event 2 ''task'' ''a'' ''ready'' ''queued'' ''dispatch created'' 7000],
     db_dispatches := [tiny_dispatch]\<rparr>"

definition tiny_lease :: Lease where
  "tiny_lease = \<lparr>le_DispatchID = ''dsp_AA'', le_LeaseToken = ''AA'', le_DefinitionID = ''w'', le_DefinitionVersion = 1,
     le_RunID = ''r'', le_TaskKey = ''a'', le_ExecutorKind = ExecutorMock, le_Action = ''x'', le_Input = None, le_Attempt = 1,
     le_AttemptDeadline = 1008000, le_LeaseExpiresAt = 28000\<rparr>"

definition db_claimed :: db where
  "db_claimed = db_dispatched\<lparr>
     db_runs := [tiny_run_row\<lparr>rr_status := WorkflowRunning, rr_revision := 2, rr_last_event_sequence := 3, rr_started_at := Some 7000\<rparr>],
     db_tasks := [tiny_task_row\<lparr>tk_status := TaskRunning\<rparr>],
     db_attempts := [\<lparr>ar_run_id = ''r'', ar_task_key = ''a'', ar_attempt_number = 1, ar_status = AttemptRunning, ar_started_at = 8000,
       ar_finished_at = None, ar_output = [], ar_error_code = [], ar_error_message = [], ar_worker_id = Some ''wrk_AA'',
       ar_dispatch_id = Some ''dsp_AA''\<rparr>],
     db_events := db_events db_dispatched @ [tiny_event 3 ''task'' ''a'' ''queued'' ''running'' ''lease claimed'' 8000],
     db_dispatches := [tiny_dispatch\<lparr>dr_status := DispatchLeased, dr_worker_id := Some ''wrk_AA'', dr_attempt_number := Some 1,
       dr_lease_token_hash := Some ''AA000000000000000000000000000000'', dr_lease_expires_at := Some 28000,
       dr_attempt_deadline := Some 1008000, dr_leased_at := Some 8000\<rparr>]\<rparr>"

section \<open>The steps\<close>

lemma tiny_compiled: "Compile tiny_def = Inr tiny_cw"
  by code_simp

lemma tiny_defined: "CreateDefinition Some 0 tiny_def ''u'' ''k'' tiny_hash1 empty_db = Inr (\<lparr>dn_WorkflowID = ''w'', dn_Version = 1\<rparr>, db_defined)"
  by code_simp

lemma tiny_new: "NewRunSnapshotForVersion ''r'' (Some tiny_cw) 1 5000 = Inr tiny_snapshot"
  by code_simp

lemma tiny_started: "pg_CreateRun tiny_snapshot ''u'' ''k2'' tiny_hash2 db_defined = Inr ((''r'', True), db_started)"
  by code_simp

lemma tiny_registered: "\<exists>r. RegisterWorker tiny_sha tiny_random 6000 tiny_register db_started = Inr (r, db_registered)"
proof -
  have "map_sum (\<lambda>x. x) snd (RegisterWorker tiny_sha tiny_random 6000 tiny_register db_started) = Inr db_registered" by code_simp
  then show ?thesis by (auto simp: map_sum_def split: sum.splits)
qed

lemma tiny_dispatched: "CreateDispatches tiny_random (\<lambda>_. False) 7000 10 db_registered = Inr (1, db_dispatched)"
  by code_simp

lemma tiny_claimed: "Claim tiny_sha tiny_random tiny_options (\<lambda>_. False) 8000 ''wrk_AA'' 1 db_dispatched = Inr ([tiny_lease], db_claimed)"
  by code_simp

section \<open>The control plane reaches the samples\<close>

definition tiny_coordinator :: DispatchCoordinator where
  "tiny_coordinator = NewCoordinator \<lparr>oo_ScanInterval = 0, oo_LockCheckInterval = 0, oo_LockCheckTimeout = 0, oo_BatchSize = 10\<rparr>"

definition running_coordinator :: DispatchCoordinator where
  "running_coordinator = start_run (tiny_coordinator\<lparr>co_started := True, co_acquiring := True\<rparr>)"

definition tiny_control :: "db \<Rightarrow> DispatchCoordinator \<Rightarrow> control" where
  "tiny_control d c = \<lparr>cp_db = d, cp_cache = (\<lambda>_. None)((''w'', 1) \<mapsto> tiny_cw), cp_coordinator = c\<rparr>"

lemma tiny_hashes: "definitionHash tiny_sha tiny_def = tiny_hash1" "startRequestHash tiny_sha ''w'' 1 = tiny_hash2"
proof -
  let ?q = "[CHR 0x22]"
  let ?bare = "tiny_def\<lparr>wd_Tasks := [tiny_task\<lparr>td_Executor := ExecutorOther ''''\<rparr>]\<rparr>"
  have "map_option tiny_sha (definition_json ?bare) =
      Some (''{'' @ ?q @ ''id'' @ ?q @ '':'' @ ?q @ ''w'' @ ?q @ '','' @ ?q @ ''concurrency'' @ ?q @ '':1,'' @ ?q @ ''tasks'')"
    by code_simp
  then obtain body where body: "definition_json ?bare = Some body"
    "tiny_sha body = ''{'' @ ?q @ ''id'' @ ?q @ '':'' @ ?q @ ''w'' @ ?q @ '','' @ ?q @ ''concurrency'' @ ?q @ '':1,'' @ ?q @ ''tasks''"
    by (auto simp del: append.simps)
  have "tiny_def\<lparr>wd_Tasks := map (\<lambda>t. if td_Executor t = ExecutorMock then t\<lparr>td_Executor := ExecutorOther ''''\<rparr> else t) (wd_Tasks tiny_def)\<rparr> = ?bare"
    by (simp add: tiny_def_def tiny_task_def)
  then show "definitionHash tiny_sha tiny_def = tiny_hash1"
    by (simp add: definitionHash_def body) (simp add: hex_string_def hex_digit_def tiny_hash1_def char_of_def bit_Suc_0_iff)
  show "startRequestHash tiny_sha ''w'' 1 = tiny_hash2"
    by (simp add: startRequestHash_def tiny_sha_def int_str_def nat_str.simps hex_string_def hex_digit_def tiny_hash2_def char_of_def bit_Suc_0_iff)
qed

lemma tiny_reach_defined: "reach platform_initial platform_step (tiny_control db_defined tiny_coordinator)"
proof -
  let ?s = "\<lparr>cp_db = empty_db, cp_cache = (\<lambda>_. None), cp_coordinator = tiny_coordinator\<rparr>"
  have "platform_initial ?s" by (auto simp: platform_initial_def tiny_coordinator_def)
  moreover have "Definition (Some tiny_cw) = Inr tiny_def" by code_simp
  then have "svc_Create tiny_sha Some 0 ''u'' ''k'' tiny_def ?s = Inr (\<lparr>dn_WorkflowID = ''w'', dn_Version = 1\<rparr>, tiny_control db_defined tiny_coordinator)"
    by (simp add: svc_Create_def tiny_compiled tiny_hashes tiny_defined putCache_def tiny_control_def)
  ultimately show ?thesis by (blast intro: reach.intros p_create)
qed

lemma tiny_reach_started: "reach platform_initial platform_step (tiny_control db_started tiny_coordinator)"
proof -
  have "svc_compiled ''w'' 1 (tiny_control db_defined tiny_coordinator) = Inr (tiny_cw, tiny_control db_defined tiny_coordinator)"
    by (simp add: svc_compiled_def tiny_control_def)
  then have "svc_Start tiny_sha (Inr ''r'') 5000 ''u'' ''w'' 1 ''k2'' (tiny_control db_defined tiny_coordinator) =
      (Inr \<lparr>sr_RunID = ''r'', sr_Status = WorkflowPending\<rparr>, tiny_control db_started tiny_coordinator)"
    by (simp add: svc_Start_def tiny_new tiny_hashes tiny_control_def tiny_started)
       (simp add: Wake_def Ready_def tiny_coordinator_def NewCoordinator_def)
  then show ?thesis using tiny_reach_defined by (blast intro: reach.intros p_start)
qed

lemma tiny_reach_registered: "reach platform_initial platform_step (tiny_control db_registered running_coordinator)"
proof -
  obtain r where "RegisterWorker tiny_sha tiny_random 6000 tiny_register db_started = Inr (r, db_registered)" using tiny_registered by blast
  then have "RegisterWorker tiny_sha tiny_random 6000 tiny_register (cp_db (tiny_control db_started tiny_coordinator)) = Inr (r, db_registered)"
    by (simp add: tiny_control_def)
  from reach_step [OF tiny_reach_started p_register [OF this]]
  have "reach platform_initial platform_step (tiny_control db_registered tiny_coordinator)" by (simp add: tiny_control_def)
  moreover have "start_check True tiny_coordinator = Inr (tiny_coordinator\<lparr>co_started := True, co_acquiring := True\<rparr>)"
    by (simp add: start_check_def tiny_coordinator_def NewCoordinator_def)
  then have "platform_step (tiny_control db_registered tiny_coordinator)
      (tiny_control db_registered (tiny_coordinator\<lparr>co_started := True, co_acquiring := True\<rparr>))"
    using p_coordinator [of "tiny_control db_registered tiny_coordinator"] co_start by (fastforce simp: tiny_control_def)
  moreover have "platform_step (tiny_control db_registered (tiny_coordinator\<lparr>co_started := True, co_acquiring := True\<rparr>))
      (tiny_control db_registered running_coordinator)"
    using p_coordinator [of "tiny_control db_registered (tiny_coordinator\<lparr>co_started := True, co_acquiring := True\<rparr>)"]
      co_acquired [of "tiny_coordinator\<lparr>co_started := True, co_acquiring := True\<rparr>" db_registered]
    by (fastforce simp: tiny_control_def running_coordinator_def)
  ultimately show ?thesis by (blast intro: reach_step)
qed

lemma tiny_reach_dispatched: "reach platform_initial platform_step (tiny_control db_dispatched running_coordinator)"
proof -
  have "oo_BatchSize (co_options running_coordinator) = 10" "co_scanning running_coordinator"
    by (simp_all add: running_coordinator_def start_run_def tiny_coordinator_def NewCoordinator_def normalize_options_def)
  then have "co_step (running_coordinator, db_registered) (running_coordinator, db_dispatched)"
    using co_dispatch [of running_coordinator tiny_random "\<lambda>_. False" 7000 db_registered 1 db_dispatched] tiny_dispatched by simp
  then have "platform_step (tiny_control db_registered running_coordinator) (tiny_control db_dispatched running_coordinator)"
    using p_coordinator [of "tiny_control db_registered running_coordinator"] by (fastforce simp: tiny_control_def)
  then show ?thesis using tiny_reach_registered by (blast intro: reach_step)
qed

lemma tiny_reach_claimed: "reach platform_initial platform_step (tiny_control db_claimed running_coordinator)"
proof -
  have "Claim tiny_sha tiny_random tiny_options (\<lambda>_. False) 8000 ''wrk_AA'' 1 (cp_db (tiny_control db_dispatched running_coordinator)) =
      Inr ([tiny_lease], db_claimed)"
    using tiny_claimed by (simp add: tiny_control_def)
  from reach_step [OF tiny_reach_dispatched p_claim [OF this]] show ?thesis by (simp add: tiny_control_def)
qed

lemma tiny_worlds: "world_ok db_defined" "world_ok db_started" "world_ok db_dispatched" "world_ok db_claimed"
  using platform.inv_reach [OF tiny_reach_defined] platform.inv_reach [OF tiny_reach_started] platform.inv_reach [OF tiny_reach_dispatched]
    platform.inv_reach [OF tiny_reach_claimed]
  by (simp_all add: platform_ok_def tiny_control_def)

end
