(* ===== verification/Platform_Correct.thy ===== *)
theory Platform_Correct
  imports Sample_Db Samples
begin

text \<open>
  The properties of the control plane: what every reachable database satisfies, and what the
  transactions of the run store and the dispatch store, the coordinator and the paged lists do.
\<close>

section \<open>The platform\<close>

text \<open>
  C27. Whatever users, workers and the coordinator do, in any order, with failures of
  transactions and restarts of the process in between: every run stored in the database can be
  loaded, belongs to an accepted definition and satisfies the run invariant, and the tasks that
  are queued or running are at most as many as the definition's concurrency.
\<close>

theorem platform_runs:
  assumes "reach platform_initial platform_step s" and "find_run (cp_db s) runID \<noteq> None"
  shows "\<exists>snapshot cw. loadSnapshot (cp_db s) runID = Inr snapshot \<and> rs_Definition snapshot = Some (cw_definition cw) \<and>
    Compile (cw_definition cw) = Inr cw \<and> run_inv cw snapshot \<and>
    int (length (filter (\<lambda>t. tr_Status t = TaskQueued \<or> tr_Status t = TaskRunning) (run_tasks snapshot))) \<le> wd_Concurrency (cw_definition cw)"
proof -
  have "world_ok (cp_db s)" using platform.inv_reach [OF assms(1)] by (simp add: platform_ok_def)
  from world_okD(5) [OF this assms(2)] obtain snapshot cw where s: "run_good (cp_db s) runID snapshot cw"
    "int (busy (run_tasks snapshot)) \<le> wd_Concurrency (cw_definition cw)" by (auto simp: run_ok_def)
  have "busy (run_tasks snapshot) = length (filter (\<lambda>t. tr_Status t = TaskQueued \<or> tr_Status t = TaskRunning) (run_tasks snapshot))"
    unfolding busy_def idle_def by (intro arg_cong [where f = length] filter_cong) auto
  then show ?thesis using s run_goodD [OF s(1)] by (intro exI [of _ snapshot] exI [of _ cw]) simp
qed

theorem platform_runs_witness: "\<exists>snapshot cw. loadSnapshot db_claimed ''r'' = Inr snapshot \<and> run_inv cw snapshot"
proof -
  have "find_run db_claimed ''r'' \<noteq> None" by code_simp
  then have "find_run (cp_db (tiny_control db_claimed running_coordinator)) ''r'' \<noteq> None" by (simp add: tiny_control_def)
  from platform_runs [OF tiny_reach_claimed this] show ?thesis by (auto simp: tiny_control_def)
qed

text \<open>
  C28. In every state the platform can reach, a task is executed by at most one worker: of the
  dispatches of a task at most one is pending or leased; a leased dispatch is that of the running
  attempt of its task, with the worker and the number of the attempt; every running task has a
  leased dispatch and every queued one a pending dispatch; and no worker holds more leases than
  its capacity.
\<close>

theorem platform_leases:
  assumes "reach platform_initial platform_step s" and "d = cp_db s"
  shows "(\<forall>r \<in> set (db_dispatches d). \<forall>r' \<in> set (db_dispatches d). is_active_dispatch r \<and> is_active_dispatch r' \<and>
       dr_run_id r = dr_run_id r' \<and> dr_task_key r = dr_task_key r' \<longrightarrow> r = r') \<and>
    (\<forall>r \<in> set (db_dispatches d). dr_status r = DispatchLeased \<longrightarrow>
       (\<exists>snapshot. \<exists>t \<in> set (run_tasks snapshot). loadSnapshot d (dr_run_id r) = Inr snapshot \<and> tr_Key t = dr_task_key r \<and>
          tr_Status t = TaskRunning \<and> tr_Attempts t \<noteq> [] \<and> dr_attempt_number r = Some (at_Number (last (tr_Attempts t))) \<and>
          dr_worker_id r = Some (at_WorkerID (last (tr_Attempts t))))) \<and>
    (\<forall>runID snapshot. \<forall>t \<in> set (run_tasks snapshot). loadSnapshot d runID = Inr snapshot \<longrightarrow>
       (tr_Status t = TaskRunning \<longrightarrow> (\<exists>r \<in> set (db_dispatches d). dr_run_id r = runID \<and> dr_task_key r = tr_Key t \<and> dr_status r = DispatchLeased)) \<and>
       (tr_Status t = TaskQueued \<longrightarrow> (\<exists>r \<in> set (db_dispatches d). dr_run_id r = runID \<and> dr_task_key r = tr_Key t \<and> dr_status r = DispatchPending))) \<and>
    (\<forall>w \<in> set (db_workers d). active_leases d (wk_worker_id w) \<le> wk_max_concurrency w)"
proof (intro conjI ballI allI impI; (elim conjE)?)
  have w: "world_ok d" using platform.inv_reach [OF assms(1)] assms(2) by (simp add: platform_ok_def)
  note wd = world_okD [OF w] and own = owner_iff [OF world_okD(2) [OF w]]
  show "r = r'" if "r \<in> set (db_dispatches d)" "r' \<in> set (db_dispatches d)" "is_active_dispatch r" "is_active_dispatch r'"
    "dr_run_id r = dr_run_id r'" "dr_task_key r = dr_task_key r'" for r r'
    using own [of "dr_run_id r" "dr_task_key r" r] own [of "dr_run_id r" "dr_task_key r" r'] that by simp
  show "\<exists>snapshot. \<exists>t \<in> set (run_tasks snapshot). loadSnapshot d (dr_run_id r) = Inr snapshot \<and> tr_Key t = dr_task_key r \<and>
      tr_Status t = TaskRunning \<and> tr_Attempts t \<noteq> [] \<and> dr_attempt_number r = Some (at_Number (last (tr_Attempts t))) \<and>
      dr_worker_id r = Some (at_WorkerID (last (tr_Attempts t)))"
    if "r \<in> set (db_dispatches d)" "dr_status r = DispatchLeased" for r
  proof -
    have "is_active_dispatch r" using that(2) by (simp add: is_active_dispatch_def)
    from active_row_task [OF w that(1) this] obtain snapshot cw i where s: "run_good d (dr_run_id r) snapshot cw" "i < length (run_tasks snapshot)"
      "dr_task_key r = tr_Key (run_tasks snapshot ! i)" "fits (Some r) (run_tasks snapshot ! i)" by metis
    then show ?thesis using run_goodD(1) [OF s(1)] that(2)
      by (intro exI [of _ snapshot] bexI [of _ "run_tasks snapshot ! i"]) (simp_all add: fits_def leased_for_def)
  qed
  show "active_leases d (wk_worker_id x) \<le> wk_max_concurrency x" if "x \<in> set (db_workers d)" for x
    using wd(3) that by (simp add: workers_ok_def list_all_iff)
  fix runID snapshot t
  assume t: "t \<in> set (run_tasks snapshot)" and l: "loadSnapshot d runID = Inr snapshot"
  have "find_run d runID \<noteq> None" using l load_find by blast
  then have "fits (owner (db_dispatches d) runID (tr_Key t)) t" using wd(5) l t by (fastforce simp: run_ok_def run_good_def owned_def)
  then show "\<exists>r \<in> set (db_dispatches d). dr_run_id r = runID \<and> dr_task_key r = tr_Key t \<and> dr_status r = DispatchLeased" if "tr_Status t = TaskRunning"
    using that own by (auto simp: fits_def idle_def is_active_dispatch_def split: option.splits if_splits)
  show "\<exists>r \<in> set (db_dispatches d). dr_run_id r = runID \<and> dr_task_key r = tr_Key t \<and> dr_status r = DispatchPending" if "tr_Status t = TaskQueued"
    using \<open>fits (owner (db_dispatches d) runID (tr_Key t)) t\<close> that own by (auto simp: fits_def idle_def split: option.splits if_splits)
qed

theorem platform_leases_witness: "active_leases db_claimed ''wrk_AA'' \<le> 1"
proof -
  have "map (\<lambda>w. (wk_worker_id w, wk_max_concurrency w)) (db_workers db_claimed) = [(''wrk_AA'', 1)]" by code_simp
  moreover have "\<forall>w \<in> set (db_workers db_claimed). active_leases db_claimed (wk_worker_id w) \<le> wk_max_concurrency w"
    using platform_leases [OF tiny_reach_claimed, of db_claimed] by (simp add: tiny_control_def)
  ultimately show ?thesis by auto
qed



section \<open>The stores\<close>

text \<open>
  C30. The SQL of the run store implements the abstract change sets: when a change applies to
  the snapshot a run is loaded as, then \<^verbatim>\<open>Apply\<close> either is refused by the database, or
  the run is loaded afterwards as the changed snapshot, with times in the resolution of the
  database, and no other run changes. A change made for another revision is a conflict.
\<close>

theorem store_apply_refines:
  assumes "world_ok d" and "loadSnapshot d runID = Inr b" and "applyChangeSet b c = Inr a"
    and "\<forall>run. cs_Run c = Some run \<longrightarrow>
      wr_DefinitionID run = wr_DefinitionID (rs_Run b) \<and> wr_DefinitionVersion run = wr_DefinitionVersion (rs_Run b)"
  shows "((\<exists>d'. pg_Apply c d = Inr d' \<and> loadSnapshot d' runID = Inr (as_stored a) \<and> (\<forall>j. j \<noteq> runID \<longrightarrow> loadSnapshot d' j = loadSnapshot d j)) \<or>
      (\<exists>w. pg_Apply c d = Inl (SqlError w))) \<and>
    (\<forall>c' run. validateChangeSetShape c' = Inr run \<longrightarrow> cs_RunID c' = runID \<longrightarrow> cs_ExpectedRevision c' \<noteq> wr_Revision (rs_Run b) \<longrightarrow>
      pg_Apply c' d = Inl ErrRevisionConflict)"
proof -
  note wd = world_okD [OF assms(1)]
  have fr: "find_run d runID \<noteq> None" using assms(2) load_find by blast
  obtain cw where g: "run_good d runID b cw" using wd(5) [OF fr] assms(2) by (auto simp: run_ok_def run_good_def)
  note g' = run_goodD [OF g]
  have tx: "pg_Apply c d = applyChangeSetTx c d" for c by (cases "validateChangeSetShape c") (simp_all add: pg_Apply_def applyChangeSetTx_def)
  have "(\<exists>d'. applyChangeSetTx c d = Inr d') \<or> refused (applyChangeSetTx c d)"
    by (rule apply_tx_returns [OF wd(1) assms(2) g'(2) assms(3) g'(8) run_good_keys [OF g]])
  moreover have "loadSnapshot d' runID = Inr (as_stored a) \<and> (\<forall>j. j \<noteq> runID \<longrightarrow> loadSnapshot d' j = loadSnapshot d j)"
    if "applyChangeSetTx c d = Inr d'" for d'
    using apply_tx_refines(2,3) [OF wd(1) assms(2) g'(2) assms(3) _ that] assms(4) only_run_load by blast
  moreover have "applyChangeSetTx c' d = Inl ErrRevisionConflict"
    if "validateChangeSetShape c' = Inr run" "cs_RunID c' = runID" "cs_ExpectedRevision c' \<noteq> wr_Revision (rs_Run b)" for c' run
    using apply_tx_stale [OF wd(1) _ that(1)] assms(2) that(2,3) by blast
  ultimately show ?thesis unfolding tx refused_def by blast
qed

definition tiny_queued :: RunSnapshot where
  "tiny_queued = next_revision (or_else tiny_snapshot (QueueTask tiny_snapshot 0 7000))"

definition tiny_change :: ChangeSet where
  "tiny_change = or_else undefined (ChangeSetBetween tiny_snapshot tiny_queued)"

theorem store_apply_refines_witness:
  "loadSnapshot db_started ''r'' = Inr tiny_snapshot \<and> applyChangeSet tiny_snapshot tiny_change = Inr tiny_queued \<and>
   (\<exists>d'. pg_Apply tiny_change db_started = Inr d' \<and> loadSnapshot d' ''r'' = Inr (as_stored tiny_queued))"
proof -
  have l: "loadSnapshot db_started ''r'' = Inr tiny_snapshot" by code_simp
  have a: "applyChangeSet tiny_snapshot tiny_change = Inr tiny_queued" by code_simp
  have "map_option (\<lambda>run. (wr_DefinitionID run, wr_DefinitionVersion run)) (cs_Run tiny_change) = Some (''w'', 1)" by code_simp
  moreover have "wr_DefinitionID (rs_Run tiny_snapshot) = ''w''" "wr_DefinitionVersion (rs_Run tiny_snapshot) = 1" by (simp_all add: tiny_snapshot_def)
  moreover have "\<not> isl (pg_Apply tiny_change db_started)" by code_simp
  ultimately show ?thesis using store_apply_refines [OF tiny_worlds(2) l a] l a by auto
qed

text \<open>
  C31. Starting a run is idempotent and lasting. A committed creation stores exactly the new run,
  on a definition that differs from the compiled one at most in the spelling of inputs; a
  repetition of the request with the same key returns the run of the first one and creates
  nothing, and a different request with that key is a conflict.
\<close>

theorem create_run_once:
  assumes "world_ok d" and "Compile (cw_definition cw) = Inr cw" and "NewRunSnapshotForVersion runID (Some cw) version now = Inr s"
    and "pg_CreateRun s p k h d = Inr ((i, True), d')" and "NewRunSnapshotForVersion runID' (Some cw) version now' = Inr s'"
  shows "i = runID \<and> loadSnapshot d runID = Inl ErrRunNotFound \<and>
    (\<exists>stored. alike stored cw \<and> loadSnapshot d' runID = Inr (as_stored (s\<lparr>rs_Definition := Some (cw_definition stored)\<rparr>))) \<and>
    (validateInitialSnapshot s' = Inr () \<longrightarrow>
      pg_CreateRun s' p k h d' = Inr ((runID, False), d') \<and>
      (\<forall>h'. \<not> blank h' \<longrightarrow> h' \<noteq> h \<longrightarrow> pg_CreateRun s' p k h' d' = Inl ErrIdempotencyConflict))"
proof -
  obtain stored where c: "i = runID" "find_run d runID = None" "alike stored cw"
    "loadSnapshot d' runID = Inr (as_stored (s\<lparr>rs_Definition := Some (cw_definition stored)\<rparr>))"
    using CreateRun_created [OF assms(1-4)] by metis
  then show ?thesis using create_run_replay [OF assms(4)] by (auto simp: loadSnapshot_def)
qed

theorem create_run_once_witness: "pg_CreateRun tiny_snapshot ''u'' ''k2'' tiny_hash2 db_started = Inr ((''r'', False), db_started)"
proof -
  have "Compile (cw_definition tiny_cw) = Inr tiny_cw" using tiny_compiled by (simp add: tiny_cw_def)
  moreover have "validateInitialSnapshot tiny_snapshot = Inr ()" by code_simp
  ultimately show ?thesis using create_run_once [OF tiny_worlds(1) _ tiny_new tiny_started tiny_new] by simp
qed

section \<open>Leases\<close>

text \<open>
  C32. A successful claim hands out at most the slots that were asked for and never more than
  the capacity of the worker; every lease is recorded with the worker, the attempt and the digest
  of its token, ends no later than the attempt's deadline, and belongs to a task that is running
  for this worker.
\<close>

theorem claim_grants:
  assumes "world_ok d" and "Claim sha random op held clock workerID slots d = Inr (ls, d')"
  shows "world_ok d' \<and> int (length ls) \<le> slots \<and>
    (\<forall>w \<in> set (db_workers d'). active_leases d' (wk_worker_id w) \<le> wk_max_concurrency w) \<and>
    (\<forall>l \<in> set ls. \<exists>r \<in> set (db_dispatches d'). dr_dispatch_id r = le_DispatchID l \<and> dr_status r = DispatchLeased \<and> dr_worker_id r = Some workerID \<and>
       dr_attempt_number r = Some (le_Attempt l) \<and> dr_lease_token_hash r = Some (sha (le_LeaseToken l)) \<and>
       dr_lease_expires_at r = Some (timestamptz (le_LeaseExpiresAt l)) \<and> le_LeaseExpiresAt l \<le> le_AttemptDeadline l \<and>
       (\<exists>snapshot. \<exists>t \<in> set (run_tasks snapshot). loadSnapshot d' (le_RunID l) = Inr snapshot \<and> tr_Key t = le_TaskKey l \<and> tr_Status t = TaskRunning))"
proof -
  have c: "world_ok d'" "int (length ls) \<le> slots" "list_all (granted sha workerID d') ls"
    using Claim_outcome [OF assms(1), of slots sha workerID random op held clock] assms(2) by auto
  note wd = world_okD [OF c(1)]
  have "\<exists>snapshot. \<exists>t \<in> set (run_tasks snapshot). loadSnapshot d' (dr_run_id r) = Inr snapshot \<and> tr_Key t = dr_task_key r \<and> tr_Status t = TaskRunning"
    if r: "r \<in> set (db_dispatches d')" "dr_status r = DispatchLeased" for r
  proof -
    have "is_active_dispatch r" using r(2) by (simp add: is_active_dispatch_def)
    from active_row_task [OF c(1) r(1) this] obtain snapshot cw i where s: "run_good d' (dr_run_id r) snapshot cw" "i < length (run_tasks snapshot)"
      "dr_task_key r = tr_Key (run_tasks snapshot ! i)" "fits (Some r) (run_tasks snapshot ! i)" by metis
    then show ?thesis using run_goodD(1) [OF s(1)] r(2)
      by (intro exI [of _ snapshot] bexI [of _ "run_tasks snapshot ! i"]) (simp_all add: fits_def)
  qed
  moreover have "active_leases d' (wk_worker_id w) \<le> wk_max_concurrency w" if "w \<in> set (db_workers d')" for w
    using wd(3) that by (simp add: workers_ok_def list_all_iff)
  ultimately show ?thesis using c by (fastforce simp: list_all_iff granted_def)
qed

theorem claim_grants_witness: "\<exists>r \<in> set (db_dispatches db_claimed). dr_dispatch_id r = ''dsp_AA'' \<and> dr_worker_id r = Some ''wrk_AA''"
  using claim_grants [OF tiny_worlds(3) tiny_claimed] by (auto simp: tiny_lease_def)

text \<open>
  C33. The result a worker reports for a dispatch is applied once. Under a current lease, of a
  run that is not being cancelled, the outcome of the attempt is applied to the run and
  the dispatch is completed; a repetition by the same worker is confirmed without effect, and
  another result is a conflict; without a current lease the report is rejected as lost and
  nothing changes.
\<close>

theorem complete_once:
  assumes "world_ok d" and "digestWorkerResult sha result = Inr h"
  shows "(\<forall>r s. current_lease sha d workerID dispatchID token (timestamptz clock) r \<longrightarrow> loadSnapshot d (dr_run_id r) = Inr s \<longrightarrow>
        wr_CancelRequestedAt (rs_Run s) = None \<longrightarrow>
      outcome db_error (\<lambda>(b, d'). b \<and> world_ok d' \<and>
          (\<forall>j. j \<noteq> dr_run_id r \<longrightarrow> loadSnapshot d' j = loadSnapshot d j) \<and>
          (\<exists>cw i m u. i < task_count cw \<and> tr_Key (run_tasks s ! i) = dr_task_key r \<and> dr_attempt_number r = Some m \<and>
             ApplyAttemptResult s cw (int i) m result (timestamptz clock) = Inr (True, u) \<and>
             loadSnapshot d' (dr_run_id r) = Inr (as_stored (next_revision u))) \<and>
          (\<forall>clock'. Complete sha clock' workerID dispatchID token result d' = Inr (True, d')) \<and>
          (\<forall>clock' result' h'. digestWorkerResult sha result' = Inr h' \<longrightarrow> h' \<noteq> h \<longrightarrow>
             Complete sha clock' workerID dispatchID token result' d' = Inl ErrResultConflict))
        (Complete sha clock workerID dispatchID token result d)) \<and>
    ((\<forall>r. \<not> completed_by sha d workerID dispatchID token r) \<longrightarrow>
      (\<forall>r s. current_lease sha d workerID dispatchID token (timestamptz clock) r \<longrightarrow> loadSnapshot d (dr_run_id r) = Inr s \<longrightarrow>
        wr_CancelRequestedAt (rs_Run s) \<noteq> None) \<longrightarrow>
      Complete sha clock workerID dispatchID token result d = Inl ErrLeaseLost)"
proof (intro conjI allI impI)
  fix r s
  assume c: "current_lease sha d workerID dispatchID token (timestamptz clock) r" and l: "loadSnapshot d (dr_run_id r) = Inr s"
    "wr_CancelRequestedAt (rs_Run s) = None"
  show "outcome db_error (\<lambda>(b, d'). b \<and> world_ok d' \<and>
          (\<forall>j. j \<noteq> dr_run_id r \<longrightarrow> loadSnapshot d' j = loadSnapshot d j) \<and>
          (\<exists>cw i m u. i < task_count cw \<and> tr_Key (run_tasks s ! i) = dr_task_key r \<and> dr_attempt_number r = Some m \<and>
             ApplyAttemptResult s cw (int i) m result (timestamptz clock) = Inr (True, u) \<and>
             loadSnapshot d' (dr_run_id r) = Inr (as_stored (next_revision u))) \<and>
          (\<forall>clock'. Complete sha clock' workerID dispatchID token result d' = Inr (True, d')) \<and>
          (\<forall>clock' result' h'. digestWorkerResult sha result' = Inr h' \<longrightarrow> h' \<noteq> h \<longrightarrow>
             Complete sha clock' workerID dispatchID token result' d' = Inl ErrResultConflict))
        (Complete sha clock workerID dispatchID token result d)"
  proof (rule outcome_mono [OF Complete_current [OF assms c l]], goal_cases)
    case (1 x)
    then obtain d' where x: "x = (True, d')" and w: "world_ok d'"
      and f: "find_dispatch d' dispatchID = Some (completed_row h (timestamptz clock) r)" by auto
    have cb: "completed_by sha d' workerID dispatchID token (completed_row h (timestamptz clock) r)"
      using f c by (simp add: completed_by_def completed_row_def current_lease_def)
    have "Complete sha clock' workerID dispatchID token result d' = Inr (True, d')" for clock'
      using Complete_completed [OF w assms(2) cb] by (simp add: completed_row_def)
    moreover have "Complete sha clock' workerID dispatchID token result' d' = Inl ErrResultConflict"
      if "digestWorkerResult sha result' = Inr h'" "h' \<noteq> h" for clock' result' h'
      using Complete_completed [OF w that(1) cb] that(2) by (simp add: completed_row_def)
    ultimately show ?case using 1 x by blast
  qed
next
  assume "\<forall>r. \<not> completed_by sha d workerID dispatchID token r" and "\<forall>r s. current_lease sha d workerID dispatchID token (timestamptz clock) r \<longrightarrow>
      loadSnapshot d (dr_run_id r) = Inr s \<longrightarrow> wr_CancelRequestedAt (rs_Run s) \<noteq> None"
  then show "Complete sha clock workerID dispatchID token result d = Inl ErrLeaseLost"
    using Complete_lost [OF assms] by blast
qed

theorem complete_once_witness:
  "\<exists>d'. Complete tiny_sha 9000 ''wrk_AA'' ''dsp_AA'' ''AA'' (sample_response ResultSuccess) db_claimed = Inr (True, d') \<and>
     Complete tiny_sha 9500 ''wrk_AA'' ''dsp_AA'' ''AA'' (sample_response ResultSuccess) d' = Inr (True, d')"
proof -
  let ?r = "hd (db_dispatches db_claimed)" and ?result = "sample_response ResultSuccess"
  obtain h where h: "digestWorkerResult tiny_sha ?result = Inr h"
  proof -
    have "\<not> isl (digestWorkerResult tiny_sha ?result)" by code_simp
    with that show thesis by (cases "digestWorkerResult tiny_sha ?result") auto
  qed
  have "find_dispatch db_claimed ''dsp_AA'' = Some ?r" by code_simp
  moreover have "MatchesToken tiny_sha ''AA'' (dr_lease_token_hash ?r)" by code_simp
  ultimately have c: "current_lease tiny_sha db_claimed ''wrk_AA'' ''dsp_AA'' ''AA'' (timestamptz 9000) ?r"
    by (simp add: current_lease_def) (simp add: db_claimed_def tiny_dispatch_def timestamptz_def)
  have r: "dr_run_id ?r = ''r''" by (simp add: db_claimed_def tiny_dispatch_def)
  have "map_sum (\<lambda>x. x) (\<lambda>s. wr_CancelRequestedAt (rs_Run s)) (loadSnapshot db_claimed ''r'') = Inr None" by code_simp
  then obtain s where s: "loadSnapshot db_claimed (dr_run_id ?r) = Inr s" "wr_CancelRequestedAt (rs_Run s) = None"
    by (cases "loadSnapshot db_claimed ''r''") (auto simp: r)
  have "\<not> isl (Complete tiny_sha 9000 ''wrk_AA'' ''dsp_AA'' ''AA'' ?result db_claimed)" by code_simp
  then obtain q where q: "Complete tiny_sha 9000 ''wrk_AA'' ''dsp_AA'' ''AA'' ?result db_claimed = Inr q"
    by (cases "Complete tiny_sha 9000 ''wrk_AA'' ''dsp_AA'' ''AA'' ?result db_claimed") auto
  from complete_once [THEN conjunct1, rule_format, OF tiny_worlds(4) h c s] q show ?thesis by (auto split: prod.splits)
qed






section \<open>Cancellation\<close>



section \<open>The coordinator\<close>

text \<open>
  C37. The life cycle of the coordinator, over every interleaving of its loops, its callers and
  its failures: it is ready only while it holds the lock and has not failed; the loops run only
  under the lock; after a failure or a close it never becomes ready again unless a start was
  still waiting for the lock; and a close that found the lock has released it when it is done.
\<close>

theorem coordinator_life_cycle:
  assumes "reach co_initial co_step (c, d)"
  shows "world_ok d \<and> (Ready c \<longrightarrow> co_lock c \<and> co_started c \<and> \<not> co_fatal c) \<and> (co_scanning c \<or> co_checking c \<longrightarrow> co_lock c) \<and>
    (co_done c \<noteq> None \<longrightarrow> co_release c \<longrightarrow> \<not> co_lock c \<and> \<not> Ready c) \<and>
    (\<forall>c' d'. co_step\<^sup>*\<^sup>* (c, d) (c', d') \<longrightarrow> co_fatal c \<or> co_closing c \<longrightarrow> \<not> co_acquiring c \<longrightarrow> \<not> Ready c')"
proof (intro conjI)
  have ok: "co_ok c" "world_ok d" using coordinator.inv_reach [OF assms] by simp_all
  then show "world_ok d" "Ready c \<longrightarrow> co_lock c \<and> co_started c \<and> \<not> co_fatal c" "co_scanning c \<or> co_checking c \<longrightarrow> co_lock c"
    "co_done c \<noteq> None \<longrightarrow> co_release c \<longrightarrow> \<not> co_lock c \<and> \<not> Ready c"
    by (auto simp: co_ok_def Ready_def)
  show "\<forall>c' d'. co_step\<^sup>*\<^sup>* (c, d) (c', d') \<longrightarrow> co_fatal c \<or> co_closing c \<longrightarrow> \<not> co_acquiring c \<longrightarrow> \<not> Ready c'"
  proof (intro allI impI)
    fix c' d' assume "co_step\<^sup>*\<^sup>* (c, d) (c', d')" "co_fatal c \<or> co_closing c" "\<not> co_acquiring c"
    then have "gone c'" using gone_run [of "(c, d)" "(c', d')"] ok by (simp add: gone_def co_ok_def)
    then show "\<not> Ready c'" by (auto simp: gone_def Ready_def co_ok_def)
  qed
qed

lemma tiny_coordinator_started:
  "reach co_initial co_step (tiny_coordinator\<lparr>co_started := True, co_acquiring := True\<rparr>, db_defined)"
proof -
  have "co_initial (tiny_coordinator, db_defined)" using tiny_worlds(1) by (auto simp: co_initial_def tiny_coordinator_def)
  moreover have "start_check True tiny_coordinator = Inr (tiny_coordinator\<lparr>co_started := True, co_acquiring := True\<rparr>)"
    by (simp add: start_check_def tiny_coordinator_def NewCoordinator_def)
  ultimately show ?thesis by (blast intro: reach.intros co_start)
qed

theorem coordinator_life_cycle_witness: "reach co_initial co_step (running_coordinator, db_defined) \<and> Ready running_coordinator \<and> co_lock running_coordinator"
proof -
  have "co_step (tiny_coordinator\<lparr>co_started := True, co_acquiring := True\<rparr>, db_defined) (running_coordinator, db_defined)"
    unfolding running_coordinator_def by (rule co_acquired) simp
  then have r: "reach co_initial co_step (running_coordinator, db_defined)" using tiny_coordinator_started by (blast intro: reach_step)
  have "Ready running_coordinator" by code_simp
  with coordinator_life_cycle [OF r] r show ?thesis by blast
qed

text \<open>
  A start does not look again whether a close has begun while it waited for the lock. Then the
  close is done without a lock to release, and the coordinator keeps the lock and its loops for good.
\<close>

lemma close_during_start:
  "\<exists>c. reach co_initial co_step (c, db_defined) \<and> co_done c = Some (Inr ()) \<and> co_lock c \<and> co_scanning c \<and> co_running c"
proof -
  let ?c = "tiny_coordinator\<lparr>co_started := True, co_acquiring := True\<rparr>"
  have "reach co_initial co_step (close_begin ?c, db_defined)" using tiny_coordinator_started by (blast intro: reach_step co_close)
  moreover have "co_closing (close_begin ?c)" "\<not> co_scanning (close_begin ?c)" "\<not> co_checking (close_begin ?c)" "co_done (close_begin ?c) = None"
    by (simp_all add: close_begin_def tiny_coordinator_def NewCoordinator_def)
  ultimately have "reach co_initial co_step (close_finish (Inr ()) (close_begin ?c), db_defined)" by (blast intro: reach_step co_closed)
  moreover have "co_acquiring (close_finish (Inr ()) (close_begin ?c))"
    by (simp add: close_finish_def close_begin_def tiny_coordinator_def NewCoordinator_def)
  ultimately have "reach co_initial co_step (start_run (close_finish (Inr ()) (close_begin ?c)), db_defined)" by (blast intro: reach_step co_acquired)
  then show ?thesis
    by (intro exI [of _ "start_run (close_finish (Inr ()) (close_begin ?c))"])
       (simp add: start_run_def close_finish_def close_begin_def tiny_coordinator_def NewCoordinator_def)
qed






section \<open>Lists\<close>

text \<open>
  C39. A client that follows the cursors of the event list or the task list of a run, with any
  page size from 1 to 100, gets exactly the event log of the run's snapshot and the summaries of
  its tasks, each once and in order. The codec of the cursors is only asked to read back what
  it has written, within 4 KiB.
\<close>

theorem run_pages_complete:
  assumes "world_ok (cp_db s)" and "loadSnapshot (cp_db s) runID = Inr snapshot" and "0 < n" and "n \<le> 100"
    and "\<forall>k < length (rs_Events snapshot). codec_ok events (event_cursor runID (of_nat (Suc k)))"
    and "\<forall>k < length (run_tasks snapshot). codec_ok tasks (task_cursor runID (int k))"
    and "length (rs_Events snapshot) \<le> n * pages" and "length (run_tasks snapshot) \<le> n * pages"
  shows "follow (\<lambda>cursor. svc_ListEvents events s runID cursor (int n)) (Suc pages) '''' = Inr (rs_Events snapshot) \<and>
    follow (\<lambda>cursor. svc_ListTasks tasks s runID cursor (int n)) (Suc pages) '''' =
      Inr (map (\<lambda>t. \<lparr>ts_Key = tr_Key t, ts_Status = tr_Status t, ts_ReadyAt = tr_ReadyAt t, ts_FinishedAt = tr_FinishedAt t\<rparr>) (run_tasks snapshot))"
proof -
  let ?d = "cp_db s"
  obtain r where r: "find_run ?d runID = Some r" using load_find [OF assms(2)] by blast
  obtain cw where l: "snapshot = loaded ?d runID r cw" using world_loadable [OF assms(1) r] assms(2) by (metis sum.inject(2))
  have ev: "map event_of_row (event_rows ?d runID) = rs_Events snapshot" by (simp add: l loaded_def)
  have ts: "map (loaded_task ?d runID) (task_rows ?d runID) = run_tasks snapshot" by (simp add: l loaded_def)
  have len: "length (event_rows ?d runID) = length (rs_Events snapshot)" "length (task_rows ?d runID) = length (run_tasks snapshot)"
    by (simp_all flip: ev ts)
  have "codec_ok events (event_cursor runID (of_int (ev_sequence e)))" if "e \<in> set (event_rows ?d runID)" for e
  proof -
    have "ev_sequence e \<in> set (map int [1 ..< Suc (length (rs_Events snapshot))])"
      using that world_event_sequences(1) [OF assms(1), of runID] r len by (metis imageI list.set_map option.distinct(1))
    then obtain k where "k < length (rs_Events snapshot)" "ev_sequence e = int (Suc k)" by (auto simp del: upt_Suc) (metis Suc_le_D Suc_less_eq of_nat_Suc)
    then show ?thesis using assms(5) by simp
  qed
  moreover have "codec_ok tasks (task_cursor runID (tk_task_index t))" if "t \<in> set (task_rows ?d runID)" for t
  proof -
    have "tk_task_index t \<in> set (map int [0 ..< length (run_tasks snapshot)])"
      using that world_task_indexes [OF assms(1), of runID] r len by (metis imageI list.set_map option.distinct(1))
    then show ?thesis using assms(6) by auto
  qed
  ultimately have "events_in_order (events, s, runID)" "tasks_in_order (tasks, s, runID)"
    using assms(1) r by (simp_all add: events_in_order_def tasks_in_order_def)
  moreover have "length (event_rows ?d runID) \<le> n * pages" "length (task_rows ?d runID) \<le> n * pages"
    using assms(7,8) len by simp_all
  ultimately have "follow (\<lambda>cursor. svc_ListEvents events s runID cursor (int n)) (Suc pages) '''' = Inr (map event_of_row (event_rows ?d runID))"
      and t: "follow (\<lambda>cursor. svc_ListTasks tasks s runID cursor (int n)) (Suc pages) '''' =
        Inr (map (\<lambda>t. task_summary \<lparr>tx_Index = tk_task_index t, tx_Task = task_of_row t\<rparr>) (task_rows ?d runID))"
    using event_list.follow_all [of "(events, s, runID)" n pages] task_list.follow_all [of "(tasks, s, runID)" n pages] assms(3,4)
    by (simp_all add: event_rows_def task_rows_def order_by_idem del: follow.simps)
  moreover have "map (\<lambda>t. task_summary \<lparr>tx_Index = tk_task_index t, tx_Task = task_of_row t\<rparr>) (task_rows ?d runID) =
      map (\<lambda>t. \<lparr>ts_Key = tr_Key t, ts_Status = tr_Status t, ts_ReadyAt = tr_ReadyAt t, ts_FinishedAt = tr_FinishedAt t\<rparr>) (run_tasks snapshot)"
    unfolding ts [symmetric] by (simp add: task_summary_def loaded_task_def)
  ultimately show ?thesis unfolding ev by (simp del: follow.simps)
qed

definition tiny_events_codec :: "eventCursor codec" where
  "tiny_events_codec = \<lparr>cc_marshal = (\<lambda>c. Some (replicate (unat (xc_Sequence c)) (CHR ''1''))),
     cc_unmarshal = (\<lambda>body. Some (event_cursor ''r'' (of_nat (length body))))\<rparr>"

definition tiny_tasks_codec :: "taskCursor codec" where
  "tiny_tasks_codec = \<lparr>cc_marshal = (\<lambda>c. Some (replicate (Suc (nat (kc_TaskIndex c))) (CHR ''1''))),
     cc_unmarshal = (\<lambda>body. Some (task_cursor ''r'' (int (length body) - 1)))\<rparr>"

theorem run_pages_complete_witness:
  "\<exists>snapshot. loadSnapshot db_claimed ''r'' = Inr snapshot \<and> length (rs_Events snapshot) = 3 \<and>
     follow (\<lambda>cursor. svc_ListEvents tiny_events_codec (tiny_control db_claimed running_coordinator) ''r'' cursor (int 2)) (Suc 2) '''' =
       Inr (rs_Events snapshot)"
proof -
  let ?s = "tiny_control db_claimed running_coordinator"
  have "map_sum (\<lambda>x. x) (\<lambda>s. (length (rs_Events s), length (run_tasks s))) (loadSnapshot db_claimed ''r'') = Inr (3, 1)" by code_simp
  then obtain snapshot where s: "loadSnapshot db_claimed ''r'' = Inr snapshot" "length (rs_Events snapshot) = 3" "length (run_tasks snapshot) = 1"
    by (cases "loadSnapshot db_claimed ''r''") auto
  have "codec_ok tiny_events_codec (event_cursor ''r'' (of_nat (Suc k)))" if "k < 3" for k
  proof -
    have "unat (of_nat (Suc k) :: u64) = Suc k" using that by (simp add: unat_of_nat take_bit_nat_eq_self del: of_nat_Suc)
    then show ?thesis using that by (simp add: codec_ok_def tiny_events_codec_def event_cursor_def maxCursorBytes_def)
  qed
  moreover have "codec_ok tiny_tasks_codec (task_cursor ''r'' (int k))" if "k < 1" for k
    using that by (simp add: codec_ok_def tiny_tasks_codec_def task_cursor_def maxCursorBytes_def)
  moreover have "cp_db ?s = db_claimed" by (simp add: tiny_control_def)
  ultimately show ?thesis
    using run_pages_complete [of ?s "''r''" snapshot 2 tiny_events_codec tiny_tasks_codec 2] tiny_worlds(4) s by (simp del: follow.simps)
qed

end
