(* ===== verification/Alerting.thy ===== *)
theory Alerting
  imports Dispatch_Store
begin

text \<open>
  Alerting (\<^verbatim>\<open>internal/alerting\<close>): the rules over aggregated counts, their state
  machine with hysteresis, the bounded notification queue of the runner, the retries of the
  webhook and the aggregation in \<^verbatim>\<open>internal/postgres/observability.go\<close>. The quotients
  of counters that the rules compare with decimal thresholds are compared as fractions: for
  counters below \<open>2^40\<close> the rounded quotients compare in the same way. Logging and metrics
  are not modelled.
\<close>

section \<open>Rules\<close>

record Rules =
  ru_QueueBacklogFor :: duration
  ru_WorkersOfflineFor :: duration
  ru_LeaseReclaimErrorsFor :: duration
  ru_CompleteErrorRateFor :: duration
  ru_DBPoolExhaustionFor :: duration
  ru_RecoveryFor :: duration
  ru_DBPoolRecoveryFor :: duration

definition DefaultRules :: Rules where
  "DefaultRules = \<lparr>ru_QueueBacklogFor = 10 * 1000000000, ru_WorkersOfflineFor = 5 * 1000000000, ru_LeaseReclaimErrorsFor = 1000000000,
     ru_CompleteErrorRateFor = 30 * 1000000000, ru_DBPoolExhaustionFor = 10 * 1000000000, ru_RecoveryFor = 5 * 1000000000,
     ru_DBPoolRecoveryFor = 10 * 1000000000\<rparr>"

datatype RuleName = QueueBacklog | WorkersOffline | LeaseReclaimErrors | CompleteErrorRate | DBPoolNearExhaustion

fun rule_str :: "RuleName \<Rightarrow> string" where
  "rule_str QueueBacklog = ''queue_backlog''"
| "rule_str WorkersOffline = ''workers_offline''"
| "rule_str LeaseReclaimErrors = ''lease_reclaim_errors''"
| "rule_str CompleteErrorRate = ''complete_error_rate''"
| "rule_str DBPoolNearExhaustion = ''db_pool_near_exhaustion''"

datatype AlertStatus = StatusFiring | StatusResolved | StatusUnknown

record Snapshot =
  sn_Now :: time
  sn_QueueDepth :: int
  sn_AvailableSlots :: int
  sn_OnlineWorkers :: int
  sn_ActiveLeases :: int
  sn_LeaseReclaimErrors :: int
  sn_CompleteTotal :: int
  sn_CompleteErrors :: int
  sn_DBInUse :: int
  sn_DBMax :: int

record AlertEvent =
  al_Rule :: RuleName
  al_Status :: AlertStatus
  al_Summary :: string
  al_StartsAt :: time
  al_EndsAt :: time
  al_RuleVersion :: string
  al_Labels :: "(string \<times> string) list"

record ruleState =
  st_conditionSince :: time
  st_recoverySince :: time
  st_firing :: bool
  st_unknown :: bool

definition zero_state :: ruleState where
  "zero_state = \<lparr>st_conditionSince = zeroTime, st_recoverySince = zeroTime, st_firing = False, st_unknown = False\<rparr>"

text \<open>A rule without a state in the map has the zero state.\<close>

record AlertEngine =
  ae_rules :: Rules
  ae_active :: "RuleName \<Rightarrow> ruleState"

definition positive_or :: "duration \<Rightarrow> duration \<Rightarrow> duration" where
  "positive_or configured standard = (if configured \<le> 0 then standard else configured)"

definition NewAlertEngine :: "Rules \<Rightarrow> AlertEngine" where
  "NewAlertEngine rules =
     \<lparr>ae_rules =
        \<lparr>ru_QueueBacklogFor = positive_or (ru_QueueBacklogFor rules) (ru_QueueBacklogFor DefaultRules),
         ru_WorkersOfflineFor = positive_or (ru_WorkersOfflineFor rules) (ru_WorkersOfflineFor DefaultRules),
         ru_LeaseReclaimErrorsFor = positive_or (ru_LeaseReclaimErrorsFor rules) (ru_LeaseReclaimErrorsFor DefaultRules),
         ru_CompleteErrorRateFor = positive_or (ru_CompleteErrorRateFor rules) (ru_CompleteErrorRateFor DefaultRules),
         ru_DBPoolExhaustionFor = positive_or (ru_DBPoolExhaustionFor rules) (ru_DBPoolExhaustionFor DefaultRules),
         ru_RecoveryFor = positive_or (ru_RecoveryFor rules) (ru_RecoveryFor DefaultRules),
         ru_DBPoolRecoveryFor = positive_or (ru_DBPoolRecoveryFor rules) (ru_DBPoolRecoveryFor DefaultRules)\<rparr>,
      ae_active = (\<lambda>_. zero_state)\<rparr>"

section \<open>Evaluation\<close>

record rule_check =
  ck_rule :: RuleName
  ck_bad :: bool
  ck_recovered :: bool
  ck_duration :: duration
  ck_recovery :: duration
  ck_unknown :: bool

definition alert_checks :: "Rules \<Rightarrow> Snapshot \<Rightarrow> rule_check list" where
  "alert_checks rules sn =
     [\<lparr>ck_rule = QueueBacklog, ck_bad = (sn_QueueDepth sn > 0 \<and> sn_AvailableSlots sn = 0),
        ck_recovered = (sn_QueueDepth sn = 0 \<or> sn_AvailableSlots sn > 0), ck_duration = ru_QueueBacklogFor rules,
        ck_recovery = ru_RecoveryFor rules, ck_unknown = False\<rparr>,
      \<lparr>ck_rule = WorkersOffline, ck_bad = (sn_QueueDepth sn > 0 \<and> sn_OnlineWorkers sn = 0),
        ck_recovered = (sn_QueueDepth sn = 0 \<or> sn_OnlineWorkers sn > 0), ck_duration = ru_WorkersOfflineFor rules,
        ck_recovery = ru_RecoveryFor rules, ck_unknown = False\<rparr>,
      \<lparr>ck_rule = LeaseReclaimErrors, ck_bad = (sn_LeaseReclaimErrors sn > 0), ck_recovered = (sn_LeaseReclaimErrors sn = 0),
        ck_duration = ru_LeaseReclaimErrorsFor rules, ck_recovery = ru_RecoveryFor rules, ck_unknown = False\<rparr>,
      \<lparr>ck_rule = CompleteErrorRate, ck_bad = (sn_CompleteTotal sn \<ge> 20 \<and> 20 * sn_CompleteErrors sn > sn_CompleteTotal sn),
        ck_recovered = (sn_CompleteTotal sn \<ge> 20 \<and> 100 * sn_CompleteErrors sn < sn_CompleteTotal sn),
        ck_duration = ru_CompleteErrorRateFor rules, ck_recovery = ru_RecoveryFor rules, ck_unknown = (sn_CompleteTotal sn < 20)\<rparr>,
      \<lparr>ck_rule = DBPoolNearExhaustion, ck_bad = (sn_DBMax sn > 0 \<and> 5 * sn_DBInUse sn \<ge> 4 * sn_DBMax sn),
        ck_recovered = (sn_DBMax sn > 0 \<and> 10 * sn_DBInUse sn < 7 * sn_DBMax sn), ck_duration = ru_DBPoolExhaustionFor rules,
        ck_recovery = ru_DBPoolRecoveryFor rules, ck_unknown = (sn_DBMax sn \<le> 0)\<rparr>]"

definition alert_summary :: "RuleName \<Rightarrow> string" where
  "alert_summary rule = rule_str rule @ '' condition is active''"

definition alert_event :: "RuleName \<Rightarrow> AlertStatus \<Rightarrow> string \<Rightarrow> time \<Rightarrow> time \<Rightarrow> AlertEvent" where
  "alert_event rule status summary starts ends = \<lparr>al_Rule = rule, al_Status = status, al_Summary = summary, al_StartsAt = starts,
     al_EndsAt = ends, al_RuleVersion = ''v1'', al_Labels = []\<rparr>"

text \<open>The body of the loop over the checks: the new state of the rule and the events.\<close>

definition check_rule :: "time \<Rightarrow> rule_check \<Rightarrow> ruleState \<Rightarrow> ruleState \<times> AlertEvent list" where
  "check_rule now ck st =
     (if ck_unknown ck then
        (st\<lparr>st_conditionSince := zeroTime, st_recoverySince := zeroTime, st_unknown := True\<rparr>,
         if st_firing st \<and> \<not> st_unknown st
         then [alert_event (ck_rule ck) StatusUnknown ''alert input is insufficient'' zeroTime zeroTime] else [])
      else
        let st = st\<lparr>st_unknown := False\<rparr> in
        if ck_bad ck then
          let st = st\<lparr>st_recoverySince := zeroTime,
                      st_conditionSince := (if st_conditionSince st = zeroTime then now else st_conditionSince st)\<rparr> in
          if \<not> st_firing st \<and> time_sub now (st_conditionSince st) \<ge> ck_duration ck
          then (st\<lparr>st_firing := True\<rparr>, [alert_event (ck_rule ck) StatusFiring (alert_summary (ck_rule ck)) (st_conditionSince st) zeroTime])
          else (st, [])
        else
          let st = st\<lparr>st_conditionSince := zeroTime\<rparr> in
          if \<not> st_firing st then (st, [])
          else if \<not> ck_recovered ck then (st\<lparr>st_recoverySince := zeroTime\<rparr>, [])
          else
            let st = st\<lparr>st_recoverySince := (if st_recoverySince st = zeroTime then now else st_recoverySince st)\<rparr> in
            if time_sub now (st_recoverySince st) \<ge> ck_recovery ck
            then (st\<lparr>st_firing := False, st_recoverySince := zeroTime\<rparr>,
                  [alert_event (ck_rule ck) StatusResolved (alert_summary (ck_rule ck)) zeroTime now])
            else (st, []))"

fun run_checks :: "time \<Rightarrow> rule_check list \<Rightarrow> (RuleName \<Rightarrow> ruleState) \<Rightarrow> (RuleName \<Rightarrow> ruleState) \<times> AlertEvent list" where
  "run_checks now [] active' = (active', [])"
| "run_checks now (ck # cks) active' =
     (let (st, events) = check_rule now ck (active' (ck_rule ck));
          (active', later) = run_checks now cks (active'(ck_rule ck := st))
      in (active', events @ later))"

definition Evaluate :: "time \<Rightarrow> Snapshot \<Rightarrow> AlertEngine \<Rightarrow> AlertEvent list \<times> AlertEngine" where
  "Evaluate clock sn e =
     (let now = (if sn_Now sn = zeroTime then clock else sn_Now sn);
          (active', events) = run_checks now (alert_checks (ae_rules e) sn) (ae_active e)
      in (events, e\<lparr>ae_active := active'\<rparr>))"

section \<open>Notification\<close>

definition queue_limit :: nat where
  "queue_limit = 16"

text \<open>Events that find the queue full are dropped.\<close>

definition enqueue_events :: "AlertEvent list \<Rightarrow> AlertEvent list \<Rightarrow> AlertEvent list" where
  "enqueue_events events queue = foldl (\<lambda>q ev. if length q < queue_limit then q @ [ev] else q) queue events"

definition runner_evaluate :: "time \<Rightarrow> Snapshot res \<Rightarrow> AlertEngine \<times> AlertEvent list \<Rightarrow> AlertEngine \<times> AlertEvent list" where
  "runner_evaluate clock provided = (\<lambda>(e, queue).
     case provided of
       Inl err \<Rightarrow> (e, queue)
     | Inr sn \<Rightarrow> let (events, e) = Evaluate clock sn e in (e, enqueue_events events queue))"

definition allowed_label :: "string \<times> string \<Rightarrow> bool" where
  "allowed_label = (\<lambda>(key, v).
     key = ''component'' \<and> (v = ''control_plane'' \<or> v = ''worker'' \<or> v = ''database'') \<or>
     key = ''severity'' \<and> (v = ''warning'' \<or> v = ''critical''))"

definition sanitizeAlertLabels :: "(string \<times> string) list \<Rightarrow> (string \<times> string) list" where
  "sanitizeAlertLabels labels = filter allowed_label labels"

text \<open>What one request of the webhook gives: a status code, or a failed request.\<close>

datatype http_result = Responded int | RequestFailed

text \<open>
  The retries of \<^verbatim>\<open>Send\<close>: the results of the requests in order, the number of
  attempts left, and whether the caller's context ends while waiting after the n-th request.
\<close>

fun send_attempts :: "(nat \<Rightarrow> http_result) \<Rightarrow> (nat \<Rightarrow> bool) \<Rightarrow> nat \<Rightarrow> nat \<Rightarrow> unit res \<times> nat" where
  "send_attempts result canceled' attempt 0 = (Inr (), attempt)"
| "send_attempts result canceled' attempt (Suc left) =
     (let retry = (\<lambda>e. if left = 0 then (Inl e, Suc attempt)
                       else if canceled' attempt then (Inl (CtxError ''context canceled''), Suc attempt)
                       else send_attempts result canceled' (Suc attempt) left)
      in case result attempt of
           Responded code \<Rightarrow>
             if 200 \<le> code \<and> code < 300 then (Inr (), Suc attempt)
             else if code < 500 then (Inl (Errorf ''webhook returned HTTP %d''), Suc attempt)
             else retry (Errorf ''webhook returned HTTP %d'')
         | RequestFailed \<Rightarrow> retry (Errorf ''webhook request failed: %w''))"

section \<open>Aggregation\<close>

definition AlertSnapshot :: "time \<Rightarrow> int \<Rightarrow> int \<Rightarrow> db \<Rightarrow> Snapshot" where
  "AlertSnapshot clock inUse maxConns d =
     \<lparr>sn_Now = timestamptz clock,
      sn_QueueDepth = int (length (filter (\<lambda>r. dr_status r = DispatchPending) (db_dispatches d))),
      sn_AvailableSlots = (\<Sum>w \<leftarrow> filter (\<lambda>w. wk_status w = WorkerActive) (db_workers d).
         max (wk_max_concurrency w - active_leases d (wk_worker_id w)) 0),
      sn_OnlineWorkers = int (length (filter (\<lambda>w. wk_status w = WorkerActive) (db_workers d))),
      sn_ActiveLeases = int (length (filter (\<lambda>r. dr_status r = DispatchLeased) (db_dispatches d))),
      sn_LeaseReclaimErrors = 0, sn_CompleteTotal = 0, sn_CompleteErrors = 0, sn_DBInUse = inUse, sn_DBMax = maxConns\<rparr>"

section \<open>What the rules mean\<close>

text \<open>
  The history of one rule is the list of its observations, with their times. A rule fires when
  its condition has held in every observation for the duration of the rule, and it is resolved
  when the recovery condition has held in every observation for the recovery duration.
\<close>

type_synonym observation = "time \<times> rule_check"

definition is_bad :: "observation \<Rightarrow> bool" where
  "is_bad x \<longleftrightarrow> \<not> ck_unknown (snd x) \<and> ck_bad (snd x)"

definition is_good :: "observation \<Rightarrow> bool" where
  "is_good x \<longleftrightarrow> \<not> ck_unknown (snd x) \<and> \<not> ck_bad (snd x) \<and> ck_recovered (snd x)"

definition streak :: "(observation \<Rightarrow> bool) \<Rightarrow> observation list \<Rightarrow> observation list" where
  "streak P h = rev (takeWhile P (rev h))"

definition since :: "(observation \<Rightarrow> bool) \<Rightarrow> observation list \<Rightarrow> time" where
  "since P h = (case streak P h of [] \<Rightarrow> zeroTime | x # _ \<Rightarrow> fst x)"

definition lasted :: "(observation \<Rightarrow> bool) \<Rightarrow> duration \<Rightarrow> observation list \<Rightarrow> bool" where
  "lasted P d h \<longleftrightarrow> streak P h \<noteq> [] \<and> d \<le> time_sub (fst (last h)) (since P h)"

fun fires_rev :: "observation list \<Rightarrow> bool" where
  "fires_rev [] = False"
| "fires_rev (x # h) =
     (if fires_rev h then \<not> lasted is_good (ck_recovery (snd x)) (rev (x # h)) else lasted is_bad (ck_duration (snd x)) (rev (x # h)))"

definition fires :: "observation list \<Rightarrow> bool" where
  "fires h = fires_rev (rev h)"

definition specified_events :: "observation list \<Rightarrow> observation \<Rightarrow> AlertEvent list" where
  "specified_events h x =
     (let rule = ck_rule (snd x) in
      if fires h \<and> lasted is_good (ck_recovery (snd x)) (h @ [x]) then [alert_event rule StatusResolved (alert_summary rule) zeroTime (fst x)]
      else if \<not> fires h \<and> lasted is_bad (ck_duration (snd x)) (h @ [x])
        then [alert_event rule StatusFiring (alert_summary rule) (since is_bad (h @ [x])) zeroTime]
      else if fires h \<and> ck_unknown (snd x) \<and> (h = [] \<or> \<not> ck_unknown (snd (last h)))
        then [alert_event rule StatusUnknown ''alert input is insufficient'' zeroTime zeroTime]
      else [])"

definition rule_after :: "observation list \<Rightarrow> ruleState" where
  "rule_after h = foldl (\<lambda>st x. fst (check_rule (fst x) (snd x) st)) zero_state h"

lemma streak_snoc: "streak P (h @ [x]) = (if P x then streak P h @ [x] else [])"
  by (simp add: streak_def)

lemma streak_Nil [simp]: "streak P [] = []"
  by (simp add: streak_def)

lemma since_snoc: "since P (h @ [x]) = (if P x then if streak P h = [] then fst x else since P h else zeroTime)"
  by (cases "streak P h") (simp_all add: since_def streak_snoc)

lemma since_zero: "\<forall>x \<in> set h. fst x \<noteq> zeroTime \<Longrightarrow> since P h = zeroTime \<longleftrightarrow> streak P h = []"
proof -
  assume "\<forall>x \<in> set h. fst x \<noteq> zeroTime"
  moreover have "set (streak P h) \<subseteq> set h" using set_takeWhileD by (fastforce simp: streak_def)
  ultimately show ?thesis by (cases "streak P h") (auto simp: since_def)
qed

lemma lasted_snoc:
  "lasted P d (h @ [x]) \<longleftrightarrow> P x \<and> d \<le> time_sub (fst x) (if streak P h = [] then fst x else since P h)"
  by (auto simp: lasted_def streak_snoc since_snoc)

lemma fires_snoc:
  "fires (h @ [x]) = (if fires h then \<not> lasted is_good (ck_recovery (snd x)) (h @ [x]) else lasted is_bad (ck_duration (snd x)) (h @ [x]))"
  by (simp add: fires_def)

text \<open>The state of a rule after a history, and the events of the next observation.\<close>

lemma rule_after_state:
  assumes "\<forall>x \<in> set h. fst x \<noteq> zeroTime"
  shows "rule_after h = \<lparr>st_conditionSince = since is_bad h, st_recoverySince = (if fires h then since is_good h else zeroTime),
    st_firing = fires h, st_unknown = (h \<noteq> [] \<and> ck_unknown (snd (last h)))\<rparr>"
  using assms
proof (induction h rule: rev_induct)
  case Nil
  show ?case by (simp add: rule_after_def zero_state_def since_def fires_def)
next
  case (snoc x h)
  then have z: "since P h = zeroTime \<longleftrightarrow> streak P h = []" for P using since_zero [of h P] by simp
  have x: "fst x \<noteq> zeroTime" using snoc.prems by simp
  have "rule_after (h @ [x]) = fst (check_rule (fst x) (snd x) (rule_after h))" by (simp add: rule_after_def)
  then show ?case using snoc x z [of is_bad] z [of is_good]
    by (simp add: check_rule_def Let_def since_snoc fires_snoc lasted_snoc)
       (auto simp: is_bad_def is_good_def)
qed

lemma rule_events:
  assumes "\<forall>x \<in> set (h @ [x]). fst x \<noteq> zeroTime"
  shows "snd (check_rule (fst x) (snd x) (rule_after h)) = specified_events h x"
proof -
  have h: "\<forall>x \<in> set h. fst x \<noteq> zeroTime" using assms by simp
  have z: "since P h = zeroTime \<longleftrightarrow> streak P h = []" for P using since_zero [OF h] .
  show ?thesis using z [of is_bad] z [of is_good]
    by (simp add: rule_after_state [OF h] check_rule_def specified_events_def Let_def since_snoc lasted_snoc)
       (auto simp: is_bad_def is_good_def)
qed

section \<open>The rules of the engine\<close>

lemma run_checks_spec:
  "distinct (map ck_rule cks) \<Longrightarrow> run_checks now cks a =
    ((\<lambda>r. case find (\<lambda>ck. ck_rule ck = r) cks of None \<Rightarrow> a r | Some ck \<Rightarrow> fst (check_rule now ck (a r))),
     concat (map (\<lambda>ck. snd (check_rule now ck (a (ck_rule ck)))) cks))"
proof (induction cks arbitrary: a)
  case (Cons ck cks)
  have other: "ck_rule c \<noteq> ck_rule ck" if "c \<in> set cks" for c using Cons.prems that by (metis distinct.simps(2) image_eqI list.set_map list.simps(9))
  then have none: "find (\<lambda>c. ck_rule c = ck_rule ck) cks = None" by (simp add: find_None_iff)
  have same: "map (\<lambda>c. snd (check_rule now c ((a(ck_rule ck := st)) (ck_rule c)))) cks = map (\<lambda>c. snd (check_rule now c (a (ck_rule c)))) cks" for st
    using other by (intro map_cong) auto
  obtain st es where c: "check_rule now ck (a (ck_rule ck)) = (st, es)" by (cases "check_rule now ck (a (ck_rule ck))")
  have "distinct (map ck_rule cks)" using Cons.prems by simp
  note IH = Cons.IH [OF this, of "a(ck_rule ck := st)"]
  have "(case find (\<lambda>ck. ck_rule ck = r) cks of None \<Rightarrow> (a(ck_rule ck := st)) r | Some c \<Rightarrow> fst (check_rule now c ((a(ck_rule ck := st)) r))) =
      (case find (\<lambda>ck. ck_rule ck = r) (ck # cks) of None \<Rightarrow> a r | Some c \<Rightarrow> fst (check_rule now c (a r)))" for r
    using c none by (cases "r = ck_rule ck") (auto split: option.splits)
  then show ?case unfolding run_checks.simps c prod.case Let_def IH same by (simp add: c del: find.simps)
qed simp

definition the_check :: "Rules \<Rightarrow> RuleName \<Rightarrow> Snapshot \<Rightarrow> rule_check" where
  "the_check rules r sn = the (find (\<lambda>ck. ck_rule ck = r) (alert_checks rules sn))"

definition all_rules :: "RuleName list" where
  "all_rules = [QueueBacklog, WorkersOffline, LeaseReclaimErrors, CompleteErrorRate, DBPoolNearExhaustion]"

lemma the_check_simps:
  "ck_rule (the_check rules r sn) = r" "find (\<lambda>ck. ck_rule ck = r) (alert_checks rules sn) = Some (the_check rules r sn)"
  "alert_checks rules sn = map (\<lambda>r. the_check rules r sn) all_rules" "distinct (map ck_rule (alert_checks rules sn))"
  by (cases r; simp add: the_check_def alert_checks_def all_rules_def)+

definition rule_history :: "Rules \<Rightarrow> RuleName \<Rightarrow> Snapshot list \<Rightarrow> observation list" where
  "rule_history rules r sns = map (\<lambda>sn. (sn_Now sn, the_check rules r sn)) sns"

fun evaluate_all :: "time \<Rightarrow> Snapshot list \<Rightarrow> AlertEngine \<Rightarrow> AlertEngine" where
  "evaluate_all clock [] e = e"
| "evaluate_all clock (sn # sns) e = evaluate_all clock sns (snd (Evaluate clock sn e))"

lemma Evaluate_spec:
  assumes "sn_Now sn \<noteq> zeroTime"
  shows "Evaluate clock sn e =
    (concat (map (\<lambda>r. snd (check_rule (sn_Now sn) (the_check (ae_rules e) r sn) (ae_active e r))) all_rules),
     e\<lparr>ae_active := (\<lambda>r. fst (check_rule (sn_Now sn) (the_check (ae_rules e) r sn) (ae_active e r)))\<rparr>)"
  using assms
  by (simp add: Evaluate_def Let_def run_checks_spec the_check_simps(4) the_check_simps(2))
     (simp add: the_check_simps(3) the_check_simps(1) comp_def)

lemma evaluate_all_spec:
  assumes "\<forall>sn \<in> set sns. sn_Now sn \<noteq> zeroTime"
  shows "ae_rules (evaluate_all clock sns e) = ae_rules e \<and>
    ae_active (evaluate_all clock sns e) =
      (\<lambda>r. foldl (\<lambda>st x. fst (check_rule (fst x) (snd x) st)) (ae_active e r) (rule_history (ae_rules e) r sns))"
  using assms by (induction sns arbitrary: e) (simp_all add: rule_history_def Evaluate_spec)

text \<open>
  C40. After any sequence of snapshots, the next evaluation of the alert engine emits exactly the
  specified events, rule by rule: a rule that is not firing fires when its condition has held in
  every observation since a time at least the rule's duration ago, and the event carries that
  time; a firing rule is resolved when the recovery condition has held without interruption for the
  recovery duration; missing input is reported once; nothing else is emitted.
\<close>

theorem alerts_follow_rules:
  assumes "\<forall>x \<in> set (sns @ [sn]). sn_Now x \<noteq> zeroTime" and "rules = ae_rules (NewAlertEngine configured)"
  shows "fst (Evaluate clock sn (evaluate_all clock sns (NewAlertEngine configured))) =
    concat (map (\<lambda>r. specified_events (rule_history rules r sns) (sn_Now sn, the_check rules r sn)) all_rules)"
proof -
  let ?e = "evaluate_all clock sns (NewAlertEngine configured)"
  have "\<forall>x \<in> set sns. sn_Now x \<noteq> zeroTime" "sn_Now sn \<noteq> zeroTime" using assms(1) by simp_all
  note e = evaluate_all_spec [OF this(1), of clock "NewAlertEngine configured"] and sn = this(2)
  have st: "ae_active ?e r = rule_after (rule_history rules r sns)" for r
    using e assms(2) by (simp add: rule_after_def NewAlertEngine_def)
  have times: "\<forall>x \<in> set (rule_history rules r sns @ [(sn_Now sn, the_check rules r sn)]). fst x \<noteq> zeroTime" for r
    using assms(1) by (auto simp: rule_history_def)
  have "ae_rules ?e = rules" using e assms(2) by simp
  then show ?thesis unfolding Evaluate_spec [OF sn] st fst_conv using rule_events [OF times] by simp
qed

definition calm_snapshot :: "time \<Rightarrow> int \<Rightarrow> Snapshot" where
  "calm_snapshot t depth = \<lparr>sn_Now = t, sn_QueueDepth = depth, sn_AvailableSlots = 0, sn_OnlineWorkers = 1, sn_ActiveLeases = 0,
     sn_LeaseReclaimErrors = 0, sn_CompleteTotal = 0, sn_CompleteErrors = 0, sn_DBInUse = 0, sn_DBMax = 10\<rparr>"

theorem alerts_follow_rules_witness:
  "fst (Evaluate 0 (calm_snapshot 20000000000 3) (evaluate_all 0 [calm_snapshot 1000000000 3, calm_snapshot 9000000000 1] (NewAlertEngine DefaultRules))) =
   [alert_event QueueBacklog StatusFiring ''queue_backlog condition is active'' 1000000000 zeroTime]"
proof -
  let ?sns = "[calm_snapshot 1000000000 3, calm_snapshot 9000000000 1]" and ?sn = "calm_snapshot 20000000000 3"
  have "\<forall>x \<in> set (?sns @ [?sn]). sn_Now x \<noteq> zeroTime" by (simp add: calm_snapshot_def zeroTime_def)
  from alerts_follow_rules [OF this refl, of 0 DefaultRules] show ?thesis
    by (simp add: all_rules_def) code_simp
qed

end
