(* ===== verification/Worker_Api.thy ===== *)
theory Worker_Api
  imports Platform Cursors
begin

text \<open>
  The authenticated boundary: bearer tokens and roles (\<^verbatim>\<open>internal/auth/token.go\<close>), the parts of
  a request the handlers read, and the worker routes (\<^verbatim>\<open>internal/workerapi/server.go\<close>)
  over the dispatch store and the coordinator's \<^verbatim>\<open>Wake\<close>. Spans, metrics and logs
  are left out. The JSON decoders of the request bodies are parameters.
\<close>

section \<open>Roles\<close>

datatype Role = ViewerRole | OperatorRole | OtherRole string

primrec role_str :: "Role \<Rightarrow> string" where
  "role_str ViewerRole = ''viewer''"
| "role_str OperatorRole = ''operator''"
| "role_str (OtherRole w) = w"

datatype auth_error = ErrUnauthorized | AuthErrorf string

definition ParseBearerToken :: "string \<Rightarrow> auth_error + string" where
  "ParseBearerToken header =
     (if header = '''' \<or> length (filter ((=) CHR '' '') header) \<noteq> 1 then Inl ErrUnauthorized
      else
        let first = takeWhile ((\<noteq>) CHR '' '') header; second = tl (dropWhile ((\<noteq>) CHR '' '') header) in
        if first \<noteq> ''Bearer'' \<or> second = '''' \<or>
           list_ex (\<lambda>c. let n = (of_char c :: nat) in n = 32 \<or> n = 9 \<or> n = 13 \<or> n = 10) second
          then Inl ErrUnauthorized
        else Inr second)"

record Authenticator =
  au_viewerToken :: string
  au_operatorToken :: string

definition NewAuthenticator :: "string \<Rightarrow> string \<Rightarrow> auth_error + Authenticator" where
  "NewAuthenticator viewerToken operatorToken =
     (if TrimSpace viewerToken = '''' \<or> TrimSpace operatorToken = '''' then Inl (AuthErrorf ''viewer and operator tokens are required'')
      else if viewerToken = operatorToken then Inl (AuthErrorf ''viewer and operator tokens must differ'')
      else Inr \<lparr>au_viewerToken = viewerToken, au_operatorToken = operatorToken\<rparr>)"

definition auth_Role :: "Authenticator \<Rightarrow> string \<Rightarrow> auth_error + Role" where
  "auth_Role a header =
     (case ParseBearerToken header of
        Inl e \<Rightarrow> Inl ErrUnauthorized
      | Inr token \<Rightarrow>
          if token = au_viewerToken a then Inr ViewerRole
          else if token = au_operatorToken a then Inr OperatorRole
          else Inl ErrUnauthorized)"

text \<open>The two wrappers of handlers: a status, or the next handler with the role of its context.\<close>

definition role_refused :: "Role \<Rightarrow> Role \<Rightarrow> bool" where
  "role_refused required role \<longleftrightarrow>
     required = OperatorRole \<and> role \<noteq> OperatorRole \<or> required = ViewerRole \<and> role \<noteq> ViewerRole \<and> role \<noteq> OperatorRole"

definition RequireRole :: "Role \<Rightarrow> Role option \<Rightarrow> int + Role option" where
  "RequireRole required actual =
     (case actual of None \<Rightarrow> Inl 403 | Some role \<Rightarrow> if role_refused required role then Inl 403 else Inr actual)"

definition Middleware :: "Authenticator \<Rightarrow> Role \<Rightarrow> string \<Rightarrow> int + Role option" where
  "Middleware a required header =
     (case auth_Role a header of
        Inl e \<Rightarrow> Inl 401
      | Inr role \<Rightarrow> if role_refused required role then Inl 403 else Inr (Some role))"

section \<open>Requests\<close>

text \<open>The path is the decoded path of the URL; a header or query parameter that is absent is
  the empty string.\<close>

record http_request =
  hq_Method :: string
  hq_Path :: string
  hq_Authorization :: string
  hq_IdempotencyKey :: string
  hq_ProtocolVersion :: string
  hq_RequestID :: string
  hq_Query :: "string \<Rightarrow> string"
  hq_Body :: string

fun split_slash :: "string \<Rightarrow> string list" where
  "split_slash [] = [[]]"
| "split_slash (c # w) =
     (if c = CHR ''/'' then [] # split_slash w
      else case split_slash w of [] \<Rightarrow> [[c]] | p # ps \<Rightarrow> (c # p) # ps)"

definition splitPath :: "string \<Rightarrow> string list" where
  "splitPath p =
     (let trimmed = rev (dropWhile ((=) CHR ''/'') (rev (dropWhile ((=) CHR ''/'') p)))
      in if trimmed = '''' then [] else split_slash trimmed)"

definition hex_value :: "char \<Rightarrow> nat option" where
  "hex_value c = (let n = (of_char c :: nat) in
     if 48 \<le> n \<and> n \<le> 57 then Some (n - 48) else if 97 \<le> n \<and> n \<le> 102 then Some (n - 87)
     else if 65 \<le> n \<and> n \<le> 70 then Some (n - 55) else None)"

text \<open>\<^verbatim>\<open>url.PathUnescape\<close> and \<^verbatim>\<open>strconv.Atoi\<close>\<close>

fun PathUnescape :: "string \<Rightarrow> string option" where
  "PathUnescape [] = Some []"
| "PathUnescape (c # w) =
     (if c \<noteq> CHR ''%'' then map_option (Cons c) (PathUnescape w)
      else case w of
        a # b # rest \<Rightarrow> (case (hex_value a, hex_value b) of
             (Some m, Some n) \<Rightarrow> map_option (Cons (char_of (16 * m + n))) (PathUnescape rest) | _ \<Rightarrow> None)
      | _ \<Rightarrow> None)"

definition decimal :: "string \<Rightarrow> int option" where
  "decimal w = (if w \<noteq> '''' \<and> list_all digit_char w
     then Some (foldl (\<lambda>n c. 10 * n + (int (of_char c) - 48)) 0 w) else None)"

definition Atoi :: "string \<Rightarrow> int option" where
  "Atoi w =
     (case (case w of
              c # rest \<Rightarrow> if c = CHR ''-'' then map_option uminus (decimal rest) else if c = CHR ''+'' then decimal rest else decimal w
            | [] \<Rightarrow> None) of
        None \<Rightarrow> None
      | Some n \<Rightarrow> if - (2 ^ 63) \<le> n \<and> n < 2 ^ 63 then Some n else None)"

text \<open>What a decoder finds at the start of a body: nothing, something malformed, or a value
  and whether only white space follows. A body over the limit is refused whatever it holds:
  the second call of the decoder reads on to the end.\<close>

datatype 'a decoded = AtEOF | Malformed | Decoded 'a bool

definition decodeJSON :: "(string \<Rightarrow> 'a decoded) \<Rightarrow> int \<Rightarrow> bool \<Rightarrow> string \<Rightarrow> string + 'a option" where
  "decodeJSON decode maxBytes required body =
     (if int (length body) > maxBytes then Inl ''http: request body too large''
      else case decode body of
        AtEOF \<Rightarrow> if required then Inl ''EOF'' else Inr None
      | Malformed \<Rightarrow> Inl ''%v''
      | Decoded x at_end \<Rightarrow>
          if at_end then Inr (Some x) else Inl ''request body must contain exactly one JSON value'')"

record decoders =
  dq_definition :: "string \<Rightarrow> WorkflowDefinition decoded"
  dq_register :: "string \<Rightarrow> RegisterRequest decoded"
  dq_claim :: "string \<Rightarrow> int decoded"
  dq_heartbeat :: "string \<Rightarrow> LeaseRef list decoded"
  dq_complete :: "string \<Rightarrow> (string \<times> ExecutionResponse) decoded"
  dq_empty :: "string \<Rightarrow> unit decoded"

section \<open>Worker routes\<close>

record APIError =
  ap_Status :: int
  ap_Code :: string
  ap_Message :: string

definition apiError :: "int \<Rightarrow> string \<Rightarrow> string \<Rightarrow> APIError" where
  "apiError status code message = \<lparr>ap_Status = status, ap_Code = code, ap_Message = message\<rparr>"

definition methodError :: APIError where
  "methodError = apiError 405 ''method_not_allowed'' ''method not allowed''"

definition mapError :: "werror \<Rightarrow> APIError" where
  "mapError err =
     (case err of
        ErrWorkerSessionInvalid \<Rightarrow> apiError 401 ''worker_session_invalid'' ''Worker session is invalid''
      | ErrWorkerProtocolUnsupported \<Rightarrow> apiError 400 ''worker_protocol_unsupported'' ''Worker protocol version is not supported''
      | ErrWorkerDraining \<Rightarrow> apiError 409 ''worker_draining'' ''Worker is draining''
      | ErrWorkerCapacityExceeded \<Rightarrow> apiError 409 ''worker_capacity_exceeded'' ''Worker capacity is exceeded''
      | ErrLeaseLost \<Rightarrow> apiError 409 ''lease_lost'' ''Worker lease is no longer current''
      | ErrResultConflict \<Rightarrow> apiError 409 ''result_conflict'' ''Worker lease result conflicts with an earlier result''
      | ErrInvalidWorkerRegistration \<Rightarrow> apiError 400 ''invalid_request'' ''request is invalid''
      | ErrInvalidResult _ \<Rightarrow> apiError 400 ''invalid_request'' ''request is invalid''
      | ErrWorkerNotFound \<Rightarrow> apiError 404 ''not_found'' ''resource not found''
      | _ \<Rightarrow> apiError 500 ''internal_error'' ''internal server error'')"

datatype worker_payload =
    Registered string string int int int
  | WorkersPage "WorkerSummary list" string
  | WorkerFound WorkerSummary
  | Claimed "Lease list"
  | Beaten "LeaseHeartbeat list"
  | Completed bool
  | Drained WorkerSummary
  | EmptyAnswer

text \<open>What one request sees of the outside: the token digest, randomness, the clock, the rows other
  transactions hold, the options of the server.\<close>

record worker_env =
  we_sha :: "string \<Rightarrow> string"
  we_random :: random
  we_clock :: time
  we_options :: options
  we_held :: "dispatch_row \<Rightarrow> bool"
  we_decoders :: decoders
  we_bootstrapToken :: string
  we_maxBodyBytes :: int

definition worker_New :: "bool \<Rightarrow> worker_env \<Rightarrow> string + worker_env" where
  "worker_New has_store env =
     (if \<not> has_store then Inl ''Worker store is required''
      else if TrimSpace (we_bootstrapToken env) = '''' then Inl ''Worker bootstrap token is required''
      else if op_WorkerHeartbeatInterval (we_options env) \<le> 0 \<or> op_LeaseDuration (we_options env) \<le> op_WorkerHeartbeatInterval (we_options env)
        then Inl ''Worker lease duration must exceed the heartbeat interval''
      else Inr (if we_maxBodyBytes env \<le> 0 then env\<lparr>we_maxBodyBytes := 2 ^ 20\<rparr> else env))"

definition worker_Routes :: "string list" where
  "worker_Routes =
     [''/api/v1/workers/register'', ''/api/v1/workers/{worker-id}/claims'', ''/api/v1/workers/{worker-id}/heartbeat'',
      ''/api/v1/workers/{worker-id}/leases/{dispatch-id}/complete'', ''/api/v1/workers/{worker-id}/drain'',
      ''/api/v1/workers'', ''/api/v1/workers/{worker-id}'']"

definition matchesBootstrapToken :: "string \<Rightarrow> string \<Rightarrow> bool" where
  "matchesBootstrapToken bootstrapToken header =
     (case ParseBearerToken header of Inl e \<Rightarrow> False | Inr token \<Rightarrow> length token = length bootstrapToken \<and> token = bootstrapToken)"

definition worker_Matches :: "string \<Rightarrow> bool" where
  "worker_Matches p =
     (let parts = splitPath p in 3 \<le> length parts \<and> parts ! 0 = ''api'' \<and> parts ! 1 = ''v1'' \<and> parts ! 2 = ''workers'')"

definition RequiresWorkerCredentials :: "string \<Rightarrow> bool" where
  "RequiresWorkerCredentials p =
     (let parts = splitPath p in length parts = 4 \<and> parts ! 3 = ''register'' \<or> 5 \<le> length parts)"

definition workerOperation :: "string list \<Rightarrow> (WorkerOperation \<times> string) option" where
  "workerOperation parts =
     (if length parts = 5 \<and> parts ! 4 = ''claims'' then Some (OperationClaim, '''')
      else if length parts = 5 \<and> parts ! 4 = ''heartbeat'' then Some (OperationHeartbeat, '''')
      else if length parts = 5 \<and> parts ! 4 = ''drain'' then Some (OperationDrain, '''')
      else if length parts = 7 \<and> parts ! 4 = ''leases'' \<and> parts ! 6 = ''complete'' then
        (case PathUnescape (parts ! 5) of
           None \<Rightarrow> None
         | Some dispatchID \<Rightarrow> if TrimSpace dispatchID \<noteq> '''' then Some (OperationComplete, dispatchID) else None)
      else None)"

definition requestProtocolVersion :: "string \<Rightarrow> werror + int" where
  "requestProtocolVersion header =
     (case Atoi header of
        None \<Rightarrow> Inl ErrWorkerProtocolUnsupported
      | Some version \<Rightarrow> if version \<noteq> ProtocolVersion then Inl ErrWorkerProtocolUnsupported else Inr version)"

definition pageLimit :: "string \<Rightarrow> string + int" where
  "pageLimit w =
     (if w = '''' then Inr 50
      else case Atoi w of
        None \<Rightarrow> Inl ''limit must be between 1 and %d''
      | Some limit \<Rightarrow> if limit \<le> 0 \<or> limit > 100 then Inl ''limit must be between 1 and %d'' else Inr limit)"

definition worker_encodeCursor :: "string \<Rightarrow> string" where
  "worker_encodeCursor workerID = base64url (map of_char workerID)"

definition worker_decodeCursor :: "string \<Rightarrow> string option" where
  "worker_decodeCursor cursor =
     (if cursor = '''' then Some ''''
      else case base64url_decode cursor of
        None \<Rightarrow> None
      | Some decoded \<Rightarrow> if decoded = '''' then None else Some decoded)"

definition bad_request :: "string \<Rightarrow> APIError" where
  "bad_request message = apiError 400 ''invalid_request'' message"

definition wake_db :: "control \<Rightarrow> db \<Rightarrow> control" where
  "wake_db s d = s\<lparr>cp_coordinator := Wake (cp_coordinator s), cp_db := d\<rparr>"

text \<open>A \<^verbatim>\<open>time.Duration\<close> in whole milliseconds.\<close>

definition duration_millis :: "duration \<Rightarrow> int" where
  "duration_millis t = (if t < 0 then - ((- t) div 1000000) else t div 1000000)"

type_synonym worker_answer = "APIError + int \<times> worker_payload"

definition handle_register :: "worker_env \<Rightarrow> http_request \<Rightarrow> control \<Rightarrow> worker_answer \<times> control" where
  "handle_register env r s =
     (if hq_Method r \<noteq> ''POST'' then (Inl methodError, s)
      else if \<not> matchesBootstrapToken (we_bootstrapToken env) (hq_Authorization r)
        then (Inl (apiError 401 ''unauthorized'' ''authentication required''), s)
      else case decodeJSON (dq_register (we_decoders env)) (we_maxBodyBytes env) True (hq_Body r) of
        Inl e \<Rightarrow> (Inl (bad_request e), s)
      | Inr None \<Rightarrow> (Inl (bad_request ''EOF''), s)
      | Inr (Some request) \<Rightarrow>
          (case RegisterWorker (we_sha env) (we_random env) (we_clock env) request (cp_db s) of
             Inl e \<Rightarrow> (Inl (mapError e), s)
           | Inr ((summary, token), d) \<Rightarrow>
               (Inr (201, Registered (ws_WorkerID summary) token (duration_millis (op_WorkerHeartbeatInterval (we_options env)))
                  (duration_millis (op_LeaseDuration (we_options env))) ProtocolVersion), wake_db s d)))"

definition handle_workers :: "http_request \<Rightarrow> control \<Rightarrow> worker_answer" where
  "handle_workers r s =
     (if hq_Method r \<noteq> ''GET'' then Inl methodError
      else case pageLimit (hq_Query r ''limit'') of
        Inl e \<Rightarrow> Inl (bad_request e)
      | Inr limit \<Rightarrow>
          (case worker_decodeCursor (hq_Query r ''cursor'') of
             None \<Rightarrow> Inl (bad_request ''invalid Worker cursor'')
           | Some afterID \<Rightarrow>
               (case ListWorkerSummaries (cp_db s) afterID limit of
                  Inl e \<Rightarrow> Inl (mapError e)
                | Inr (summaries, more') \<Rightarrow>
                    Inr (200, WorkersPage summaries (if more' \<and> summaries \<noteq> [] then worker_encodeCursor (ws_WorkerID (last summaries)) else '''')))))"

definition handle_worker :: "http_request \<Rightarrow> string \<Rightarrow> control \<Rightarrow> worker_answer" where
  "handle_worker r workerID s =
     (if hq_Method r \<noteq> ''GET'' then Inl methodError
      else case GetWorkerSummary (cp_db s) workerID of Inl e \<Rightarrow> Inl (mapError e) | Inr summary \<Rightarrow> Inr (200, WorkerFound summary))"

text \<open>The four operations of an authenticated session.\<close>

definition with_body :: "worker_env \<Rightarrow> (string \<Rightarrow> 'a decoded) \<Rightarrow> http_request \<Rightarrow> control \<Rightarrow> ('a \<Rightarrow> worker_answer \<times> control) \<Rightarrow> worker_answer \<times> control" where
  "with_body env decode r s f =
     (case decodeJSON decode (we_maxBodyBytes env) True (hq_Body r) of
        Inl e \<Rightarrow> (Inl (bad_request e), s)
      | Inr None \<Rightarrow> (Inl (bad_request ''EOF''), s)
      | Inr (Some x) \<Rightarrow> f x)"

definition session_operation ::
  "worker_env \<Rightarrow> http_request \<Rightarrow> string \<Rightarrow> WorkerOperation \<Rightarrow> string \<Rightarrow> control \<Rightarrow> worker_answer \<times> control" where
  "session_operation env r workerID operation dispatchID s =
     (case operation of
        OperationClaim \<Rightarrow> with_body env (dq_claim (we_decoders env)) r s (\<lambda>slots.
          case Claim (we_sha env) (we_random env) (we_options env) (we_held env) (we_clock env) workerID slots (cp_db s) of
            Inl e \<Rightarrow> (Inl (mapError e), s)
          | Inr (newLeases, d) \<Rightarrow> (Inr (200, Claimed newLeases), s\<lparr>cp_db := d\<rparr>))
      | OperationHeartbeat \<Rightarrow> with_body env (dq_heartbeat (we_decoders env)) r s (\<lambda>refs.
          case Heartbeat (we_sha env) (we_options env) (we_clock env) workerID refs (cp_db s) of
            Inl e \<Rightarrow> (Inl (mapError e), s)
          | Inr (beats, d) \<Rightarrow> (Inr (200, Beaten beats), s\<lparr>cp_db := d\<rparr>))
      | OperationComplete \<Rightarrow> with_body env (dq_complete (we_decoders env)) r s (\<lambda>(leaseToken, verdict).
          case Complete (we_sha env) (we_clock env) workerID dispatchID leaseToken verdict (cp_db s) of
            Inl e \<Rightarrow> (Inl (mapError e), s)
          | Inr (applied, d) \<Rightarrow> (Inr (200, Completed applied), wake_db s d))
      | OperationDrain \<Rightarrow>
          (case decodeJSON (dq_empty (we_decoders env)) (we_maxBodyBytes env) False (hq_Body r) of
             Inl e \<Rightarrow> (Inl (bad_request e), s)
           | Inr _ \<Rightarrow>
               (case DrainWorker (we_clock env) workerID (cp_db s) of
                  Inl e \<Rightarrow> (Inl (mapError e), s)
                | Inr (summary, d) \<Rightarrow> (Inr (200, Drained summary), s\<lparr>cp_db := d\<rparr>)))
      | OperationOther w \<Rightarrow> (Inr (200, EmptyAnswer), s))"

definition worker_Handle :: "worker_env \<Rightarrow> http_request \<Rightarrow> control \<Rightarrow> worker_answer \<times> control" where
  "worker_Handle env r s =
     (let parts = splitPath (hq_Path r) in
      if length parts < 3 \<or> parts ! 0 \<noteq> ''api'' \<or> parts ! 1 \<noteq> ''v1'' \<or> parts ! 2 \<noteq> ''workers''
        then (Inl (apiError 404 ''not_found'' ''resource not found''), s)
      else if length parts = 4 \<and> parts ! 3 = ''register'' then handle_register env r s
      else if length parts = 3 then (handle_workers r s, s)
      else case PathUnescape (parts ! 3) of
        None \<Rightarrow> (Inl (bad_request ''invalid Worker ID''), s)
      | Some workerID \<Rightarrow>
          if TrimSpace workerID = '''' then (Inl (bad_request ''invalid Worker ID''), s)
          else if length parts = 4 then (handle_worker r workerID s, s)
          else if hq_Method r \<noteq> ''POST'' then (Inl methodError, s)
          else case workerOperation parts of
            None \<Rightarrow> (Inl (apiError 404 ''not_found'' ''resource not found''), s)
          | Some (operation, dispatchID) \<Rightarrow>
              (case requestProtocolVersion (hq_ProtocolVersion r) of
                 Inl e \<Rightarrow> (Inl (apiError 400 ''worker_protocol_unsupported'' ''Worker protocol version is not supported''), s)
               | Inr version \<Rightarrow>
                   (case ParseBearerToken (hq_Authorization r) of
                      Inl e \<Rightarrow> (Inl (apiError 401 ''worker_session_invalid'' ''Worker session is invalid''), s)
                    | Inr sessionToken \<Rightarrow>
                        (case AuthenticateWorker (we_sha env) (cp_db s) workerID sessionToken version operation of
                           Inl e \<Rightarrow> (Inl (mapError e), s)
                         | Inr session \<Rightarrow> session_operation env r workerID operation dispatchID s))))"

section \<open>Credentials and steps\<close>

lemma ParseBearerToken_Inr: "ParseBearerToken header = Inr token \<Longrightarrow> header = ''Bearer '' @ token"
proof -
  assume parsed: "ParseBearerToken header = Inr token"
  let ?P = "(\<noteq>) CHR '' ''"
  have one: "length (filter ((=) CHR '' '') header) = 1" and first: "takeWhile ?P header = ''Bearer''" and rest: "token = tl (dropWhile ?P header)"
    using parsed by (auto simp: ParseBearerToken_def Let_def split: if_splits)
  have "dropWhile ?P header \<noteq> []"
  proof
    assume "dropWhile ?P header = []"
    then have "\<forall>c \<in> set header. c \<noteq> CHR '' ''" by (auto simp: dropWhile_eq_Nil_conv)
    then have "filter ((=) CHR '' '') header = []" by (auto simp: filter_empty_conv)
    with one show False by simp
  qed
  then have "dropWhile ?P header = CHR '' '' # token" using rest hd_dropWhile [of ?P header] by (cases "dropWhile ?P header") auto
  then show ?thesis using takeWhile_dropWhile_id [of ?P header] first by simp
qed

text \<open>What a request must carry to change the state through a worker route.\<close>

definition worker_credentials :: "worker_env \<Rightarrow> http_request \<Rightarrow> control \<Rightarrow> bool" where
  "worker_credentials env r s \<longleftrightarrow>
     splitPath (hq_Path r) = [''api'', ''v1'', ''workers'', ''register''] \<and> hq_Authorization r = ''Bearer '' @ we_bootstrapToken env \<or>
     (\<exists>w token. w \<in> set (db_workers (cp_db s)) \<and> hq_Authorization r = ''Bearer '' @ token \<and>
        MatchesToken (we_sha env) token (Some (wk_session_token_hash w)) \<and>
        PathUnescape (splitPath (hq_Path r) ! 3) = Some (wk_worker_id w))"

lemma AuthenticateWorker_Inr:
  assumes "AuthenticateWorker sha d workerID token version operation = Inr session"
  obtains w where "w \<in> set (db_workers d)" "wk_worker_id w = workerID" "MatchesToken sha token (Some (wk_session_token_hash w))"
proof -
  obtain w where w: "find_worker d workerID = Some w" "MatchesToken sha token (Some (wk_session_token_hash w))"
    using assms by (auto simp: AuthenticateWorker_def split: option.splits if_splits)
  then show thesis using that find_worker_mem [OF w(1)] by auto
qed

lemma wake_step: "platform_step\<^sup>*\<^sup>* s (s\<lparr>cp_db := d\<rparr>) \<Longrightarrow> platform_step\<^sup>*\<^sup>* s (wake_db s d)"
proof -
  assume "platform_step\<^sup>*\<^sup>* s (s\<lparr>cp_db := d\<rparr>)"
  moreover have "platform_step (s\<lparr>cp_db := d\<rparr>) (wake_db s d)"
    using p_coordinator [of "s\<lparr>cp_db := d\<rparr>" "Wake (cp_coordinator s)" d] co_wake [of "cp_coordinator s" d]
    by (simp add: wake_db_def)
  ultimately show ?thesis by simp
qed

lemma session_operation_steps:
  assumes "session_operation env r workerID operation dispatchID s = (a, s')"
  shows "platform_step\<^sup>*\<^sup>* s s'"
proof -
  note steps = p_claim p_heartbeat p_complete p_drain
  show ?thesis
    using assms wake_step [OF r_into_rtranclp, OF p_complete]
    by (cases operation)
      (auto simp: session_operation_def with_body_def intro: r_into_rtranclp steps split: sum.splits option.splits)
qed

lemma handle_register_steps:
  assumes "handle_register env r s = (a, s')"
  shows "platform_step\<^sup>*\<^sup>* s s' \<and> (s' \<noteq> s \<longrightarrow> hq_Method r = ''POST'' \<and> hq_Authorization r = ''Bearer '' @ we_bootstrapToken env)"
  using assms wake_step [OF r_into_rtranclp, OF p_register] ParseBearerToken_Inr
  by (auto simp: handle_register_def matchesBootstrapToken_def split: sum.splits option.splits if_splits)

lemma worker_Handle_steps:
  assumes "worker_Handle env r s = (a, s')"
  shows "platform_step\<^sup>*\<^sup>* s s' \<and> (s' \<noteq> s \<longrightarrow> hq_Method r = ''POST'' \<and> worker_credentials env r s)"
proof (cases "length (splitPath (hq_Path r)) = 4 \<and> splitPath (hq_Path r) ! 3 = ''register''")
  case True
  let ?p = "splitPath (hq_Path r)"
  have parts: "?p = [?p ! 0, ?p ! 1, ?p ! 2, ?p ! 3]" if "length ?p = 4"
    using that by (auto simp: numeral_eq_Suc length_Suc_conv)
  show ?thesis
  proof (cases "s' = s")
    case False
    then have "handle_register env r s = (a, s')" "?p = [''api'', ''v1'', ''workers'', ''register'']"
      using assms True parts by (auto simp: worker_Handle_def Let_def split: if_splits)
    then show ?thesis using handle_register_steps False by (auto simp: worker_credentials_def)
  qed simp
next
  case False
  show ?thesis
  proof (cases "s' = s")
    case changed: False
    with False assms obtain workerID operation dispatchID version token session
      where post: "hq_Method r = ''POST''" and worker: "PathUnescape (splitPath (hq_Path r) ! 3) = Some workerID"
        and token: "ParseBearerToken (hq_Authorization r) = Inr token"
        and auth: "AuthenticateWorker (we_sha env) (cp_db s) workerID token version operation = Inr session"
        and run: "session_operation env r workerID operation dispatchID s = (a, s')"
      unfolding worker_Handle_def Let_def by (auto split: if_splits option.splits sum.splits)
    from AuthenticateWorker_Inr [OF auth] obtain w
      where "w \<in> set (db_workers (cp_db s))" "wk_worker_id w = workerID"
        "MatchesToken (we_sha env) token (Some (wk_session_token_hash w))" by metis
    then have "worker_credentials env r s"
      unfolding worker_credentials_def using worker ParseBearerToken_Inr [OF token] by blast
    then show ?thesis using session_operation_steps [OF run] post by simp
  qed simp
qed

end
