(* ===== verification/Agent_Draft.thy ===== *)
theory Agent_Draft
  imports Services Json_Text
begin

text \<open>
  The parts of the agent runtime without a session: errors (\<^verbatim>\<open>agent/errors.go\<close>), the
  budget of one generation (\<^verbatim>\<open>budget.go\<close>), drafts with their content hash and
  life cycle (\<^verbatim>\<open>draft.go\<close>), task templates and the catalog (\<^verbatim>\<open>tool.go\<close>,
  \<^verbatim>\<open>catalog/catalog.go\<close>), the validator (\<^verbatim>\<open>validator.go\<close>) and the redaction
  of audit metadata (\<^verbatim>\<open>audit.go\<close>). The content hash is shown to fix what it covers,
  and a draft without validation errors to be exactly one that meets the declarative
  specification \<open>draft_acceptable\<close>.
\<close>

section \<open>Errors\<close>

datatype ErrorCode =
  CodeModelTimeout | CodeModelUnavailable | CodeModelInvalidResponse | CodeToolNotAllowed
| CodeToolInvalidInput | CodeToolTimeout | CodeBudgetExceeded | CodeDraftInvalid
| CodeApprovalRequired | CodeDraftChanged | CodeCanceled | CodeInternal

primrec code_str :: "ErrorCode \<Rightarrow> string" where
  "code_str CodeModelTimeout = ''model_timeout''"
| "code_str CodeModelUnavailable = ''model_unavailable''"
| "code_str CodeModelInvalidResponse = ''model_invalid_response''"
| "code_str CodeToolNotAllowed = ''tool_not_allowed''"
| "code_str CodeToolInvalidInput = ''tool_invalid_input''"
| "code_str CodeToolTimeout = ''tool_timeout''"
| "code_str CodeBudgetExceeded = ''budget_exceeded''"
| "code_str CodeDraftInvalid = ''draft_invalid''"
| "code_str CodeApprovalRequired = ''approval_required''"
| "code_str CodeDraftChanged = ''draft_changed''"
| "code_str CodeCanceled = ''canceled''"
| "code_str CodeInternal = ''internal''"

record agent_Error =
  ae_Code :: ErrorCode
  ae_Message :: string
  ae_Temporary :: bool

text \<open>An error is an \<^verbatim>\<open>*agent.Error\<close> or some other error; of the other one the
  code only asks what \<^verbatim>\<open>errors.As\<close> finds in its chain.\<close>

datatype aerr = RuntimeError agent_Error | OtherError "agent_Error option"

fun errors_As :: "aerr \<Rightarrow> agent_Error option" where
  "errors_As (RuntimeError e) = Some e"
| "errors_As (OtherError found) = found"

definition CodeOf :: "aerr \<Rightarrow> ErrorCode" where
  "CodeOf err = (case errors_As err of Some e \<Rightarrow> ae_Code e | None \<Rightarrow> CodeInternal)"

definition agent_error :: "ErrorCode \<Rightarrow> string \<Rightarrow> aerr" where
  "agent_error code message = RuntimeError \<lparr>ae_Code = code, ae_Message = message, ae_Temporary = False\<rparr>"

section \<open>The budget of one generation\<close>

record Limits =
  li_MaxModelTurns :: int
  li_MaxToolCalls :: int
  li_MaxResponseBytes :: int
  li_RuntimeTimeout :: duration
  li_ToolTimeout :: duration

definition DefaultLimits :: Limits where
  "DefaultLimits = \<lparr>li_MaxModelTurns = 4, li_MaxToolCalls = 8, li_MaxResponseBytes = 64 * 1024,
     li_RuntimeTimeout = 30 * 1000000000, li_ToolTimeout = 5 * 1000000000\<rparr>"

record Budget =
  bu_limits :: Limits
  bu_modelTurns :: int
  bu_toolCalls :: int

record ModelLimits =
  ml_MaxResponseBytes :: int
  ml_RemainingModelTurns :: int
  ml_RemainingToolCalls :: int

definition NewBudget :: "Limits \<Rightarrow> Budget" where
  "NewBudget limits = \<lparr>bu_limits = limits, bu_modelTurns = 0, bu_toolCalls = 0\<rparr>"

definition UseModelTurn :: "Budget \<Rightarrow> aerr + Budget" where
  "UseModelTurn b =
     (if bu_modelTurns b \<ge> li_MaxModelTurns (bu_limits b)
      then Inl (agent_error CodeBudgetExceeded ''model turn limit reached'')
      else Inr (b\<lparr>bu_modelTurns := bu_modelTurns b + 1\<rparr>))"

definition UseToolCall :: "Budget \<Rightarrow> aerr + Budget" where
  "UseToolCall b =
     (if bu_toolCalls b \<ge> li_MaxToolCalls (bu_limits b)
      then Inl (agent_error CodeBudgetExceeded ''tool call limit reached'')
      else Inr (b\<lparr>bu_toolCalls := bu_toolCalls b + 1\<rparr>))"

definition CheckResponseSize :: "Budget \<Rightarrow> int \<Rightarrow> aerr + unit" where
  "CheckResponseSize b n =
     (if n > li_MaxResponseBytes (bu_limits b)
      then Inl (agent_error CodeBudgetExceeded ''response exceeds %d bytes'') else Inr ())"

definition budget_ModelLimits :: "Budget \<Rightarrow> ModelLimits" where
  "budget_ModelLimits b = \<lparr>ml_MaxResponseBytes = li_MaxResponseBytes (bu_limits b),
     ml_RemainingModelTurns = li_MaxModelTurns (bu_limits b) - bu_modelTurns b,
     ml_RemainingToolCalls = li_MaxToolCalls (bu_limits b) - bu_toolCalls b\<rparr>"

section \<open>Drafts\<close>

datatype DraftStatus = DraftGenerated | DraftValidated | DraftNeedsConfirmation | DraftConfirmed | DraftRejected | DraftOther string

primrec draft_str :: "DraftStatus \<Rightarrow> string" where
  "draft_str DraftGenerated = ''generated''"
| "draft_str DraftValidated = ''validated''"
| "draft_str DraftNeedsConfirmation = ''needs_confirmation''"
| "draft_str DraftConfirmed = ''confirmed''"
| "draft_str DraftRejected = ''rejected''"
| "draft_str (DraftOther w) = w"

record Evidence =
  ev_Statement :: string
  ev_Source :: string

record Question =
  qu_ID :: string
  qu_Text :: string
  qu_Answer :: string
  qu_Resolved :: bool

record ValidationIssue =
  vi_Code :: string
  vi_Path :: string
  vi_Message :: string

text \<open>The JSON of a nil slice differs from that of an empty one, and with it the hash: the
  slices of a draft are options, \<open>None\<close> the nil slice.\<close>

record ValidationReport =
  vr_Errors :: "ValidationIssue list option"
  vr_Warnings :: "ValidationIssue list option"

record ToolCallRecord =
  tc_CallID :: string
  tc_Name :: string
  tc_Result :: string

record WorkflowDraft =
  wf_DraftID :: string
  wf_Goal :: string
  wf_Definition :: WorkflowDefinition
  wf_Facts :: "Evidence list option"
  wf_Assumptions :: "Evidence list option"
  wf_Questions :: "Question list option"
  wf_Validation :: ValidationReport
  wf_ToolCalls :: "ToolCallRecord list option"
  wf_Status :: DraftStatus
  wf_ContentHash :: string
  wf_CreatedAt :: time
  wf_ConfirmedAt :: "time option"

definition items :: "'a list option \<Rightarrow> 'a list" where
  "items xs = (case xs of None \<Rightarrow> [] | Some ys \<Rightarrow> ys)"

subsection \<open>The content hash\<close>

definition json_array :: "('a \<Rightarrow> string) \<Rightarrow> 'a list option \<Rightarrow> string" where
  "json_array f xs = (case xs of None \<Rightarrow> ''null'' | Some ys \<Rightarrow> ''['' @ join '','' (map f ys) @ '']'')"

definition json_bool :: "bool \<Rightarrow> string" where
  "json_bool b = (if b then ''true'' else ''false'')"

definition evidence_json :: "Evidence \<Rightarrow> string" where
  "evidence_json e = json_object [json_field ''statement'' (json_quote (ev_Statement e)), json_field ''source'' (json_quote (ev_Source e))]"

definition question_json :: "Question \<Rightarrow> string" where
  "question_json q = json_object
     ([json_field ''id'' (json_quote (qu_ID q)), json_field ''text'' (json_quote (qu_Text q))]
      @ (if qu_Answer q = '''' then [] else [json_field ''answer'' (json_quote (qu_Answer q))])
      @ [json_field ''resolved'' (json_bool (qu_Resolved q))])"

definition issue_json :: "ValidationIssue \<Rightarrow> string" where
  "issue_json i = json_object
     ([json_field ''code'' (json_quote (vi_Code i))]
      @ (if vi_Path i = '''' then [] else [json_field ''path'' (json_quote (vi_Path i))])
      @ [json_field ''message'' (json_quote (vi_Message i))])"

definition report_json :: "ValidationReport \<Rightarrow> string" where
  "report_json r = json_object
     [json_field ''errors'' (json_array issue_json (vr_Errors r)), json_field ''warnings'' (json_array issue_json (vr_Warnings r))]"

definition tool_call_json :: "ToolCallRecord \<Rightarrow> string" where
  "tool_call_json t = json_object
     [json_field ''call_id'' (json_quote (tc_CallID t)), json_field ''name'' (json_quote (tc_Name t)),
      json_field ''result'' (json_quote (tc_Result t))]"

text \<open>The struct \<^verbatim>\<open>reviewed\<close>: timestamps and the hash itself are left out.\<close>

definition reviewed_json :: "WorkflowDraft \<Rightarrow> string option" where
  "reviewed_json draft = map_option (\<lambda>body. json_object
     [json_field ''draft_id'' (json_quote (wf_DraftID draft)), json_field ''goal'' (json_quote (wf_Goal draft)),
      json_field ''definition'' body,
      json_field ''facts'' (json_array evidence_json (wf_Facts draft)),
      json_field ''assumptions'' (json_array evidence_json (wf_Assumptions draft)),
      json_field ''questions'' (json_array question_json (wf_Questions draft)),
      json_field ''validation'' (report_json (wf_Validation draft)),
      json_field ''tool_calls'' (json_array tool_call_json (wf_ToolCalls draft)),
      json_field ''status'' (json_quote (draft_str (wf_Status draft)))])
     (definition_json (wf_Definition draft))"

definition ComputeDraftHash :: "(string \<Rightarrow> string) \<Rightarrow> WorkflowDraft \<Rightarrow> aerr + string" where
  "ComputeDraftHash sha draft =
     (case reviewed_json draft of
        None \<Rightarrow> Inl (OtherError None)
      | Some body \<Rightarrow> Inr (hex_string (sha body)))"

subsection \<open>The life cycle\<close>

fun draft_allowed :: "DraftStatus \<Rightarrow> DraftStatus \<Rightarrow> bool" where
  "draft_allowed DraftGenerated next = (next \<in> {DraftValidated, DraftRejected})"
| "draft_allowed DraftValidated next = (next \<in> {DraftValidated, DraftNeedsConfirmation, DraftRejected})"
| "draft_allowed DraftNeedsConfirmation next = (next \<in> {DraftValidated, DraftConfirmed, DraftRejected})"
| "draft_allowed _ next = False"

definition TransitionDraft :: "WorkflowDraft option \<Rightarrow> DraftStatus \<Rightarrow> aerr + WorkflowDraft" where
  "TransitionDraft draft next =
     (case draft of
        None \<Rightarrow> Inl (agent_error CodeDraftInvalid ''draft is required'')
      | Some draft \<Rightarrow>
          if \<not> draft_allowed (wf_Status draft) next
            then Inl (agent_error CodeDraftInvalid ''cannot transition draft from %s to %s'')
          else if next = DraftConfirmed \<and> list_ex (\<lambda>q. \<not> qu_Resolved q) (items (wf_Questions draft))
            then Inl (agent_error CodeApprovalRequired ''draft contains unresolved questions'')
          else Inr (draft\<lparr>wf_Status := next\<rparr>))"

section \<open>Text\<close>

text \<open>
  \<^verbatim>\<open>strings.ToLower\<close>: ASCII letters, and the two other characters whose
  lower case is ASCII (the Kelvin sign, a dotted capital I); other letters are taken to have
  no case.
\<close>

fun ToLower :: "string \<Rightarrow> string" where
  "ToLower [] = []"
| "ToLower (c # w) =
     (if prefix ([CHR 0xE2, CHR 0x84, CHR 0xAA]) (c # w) then CHR ''k'' # ToLower (drop 2 w)
      else if prefix ([CHR 0xC4, CHR 0xB0]) (c # w) then CHR ''i'' # ToLower (drop 1 w)
      else (let n = (of_char c :: nat) in if 65 \<le> n \<and> n \<le> 90 then char_of (n + 32) else c) # ToLower w)"

definition contains :: "string \<Rightarrow> string \<Rightarrow> bool" where
  "contains w pattern = list_ex (prefix pattern) (suffixes w)"

section \<open>Audit metadata\<close>

text \<open>A metadata value: a nested map of any values or of strings, a list of any values, or anything else.\<close>

datatype audit_value =
    AMap "(string \<times> audit_value) list"
  | AStrings "(string \<times> string) list"
  | AList "audit_value list"
  | AScalar goval

definition redactedValue :: string where
  "redactedValue = ''[REDACTED]''"

definition sensitive_key :: "string \<Rightarrow> bool" where
  "sensitive_key key =
     (let normalized = ToLower (map (\<lambda>c. if c = CHR ''-'' then CHR ''_'' else c) key)
      in contains normalized ''authorization'' \<or> contains normalized ''api_key'' \<or>
         contains normalized ''password'' \<or> contains normalized ''token'')"

primrec redactAuditValue :: "audit_value \<Rightarrow> audit_value" where
  "redactAuditValue (AMap es) =
     AMap (map (\<lambda>(key, v). (key, if sensitive_key key then AScalar (GString redactedValue) else v))
       (map (map_prod id redactAuditValue) es))"
| "redactAuditValue (AStrings es) =
     AStrings (map (\<lambda>(key, item). (key, if sensitive_key key then redactedValue else item)) es)"
| "redactAuditValue (AList vs) = AList (map redactAuditValue vs)"
| "redactAuditValue (AScalar v) = AScalar v"

definition redactMetadata :: "(string \<times> audit_value) list \<Rightarrow> (string \<times> audit_value) list" where
  "redactMetadata metadata =
     map (\<lambda>(key, v). (key, if sensitive_key key then AScalar (GString redactedValue) else redactAuditValue v)) metadata"

record AuditEvent =
  ad_Type :: string
  ad_At :: time
  ad_DraftID :: string
  ad_Result :: string
  ad_Metadata :: "(string \<times> audit_value) list"

definition sink_Record :: "bool \<Rightarrow> AuditEvent \<Rightarrow> AuditEvent list \<Rightarrow> AuditEvent list option" where
  "sink_Record ctx_done event events =
     (if ctx_done then None else Some (events @ [event\<lparr>ad_Metadata := redactMetadata (ad_Metadata event)\<rparr>]))"

definition sink_Events :: "AuditEvent list \<Rightarrow> AuditEvent list" where
  "sink_Events events = map (\<lambda>e. e\<lparr>ad_Metadata := redactMetadata (ad_Metadata e)\<rparr>) events"

section \<open>Task templates and the catalog\<close>

record ParameterSpec =
  ps_Type :: string
  ps_Required :: bool
  ps_Enum :: "string list"

record TaskTemplate =
  tt_ID :: string
  tt_Action :: string
  tt_Description :: string
  tt_Parameters :: "(string \<times> ParameterSpec) list"
  tt_RequiredPermission :: string
  tt_MaxTimeoutMillis :: int
  tt_AgentAllowed :: bool

record Catalog =
  ct_templates :: "(string \<times> TaskTemplate) list"
  ct_byAction :: "(string \<times> string) list"

text \<open>\<^verbatim>\<open>catalog.New\<close> and one round of its loop\<close>

definition add_template :: "TaskTemplate \<Rightarrow> Catalog \<Rightarrow> string + Catalog" where
  "add_template t c =
     (if tt_ID t = '''' \<or> tt_Action t = '''' then Inl ''template ID and action are required''
      else if map_of (ct_templates c) (tt_ID t) \<noteq> None then Inl ''duplicate template %q''
      else if map_of (ct_byAction c) (tt_Action t) \<noteq> None then Inl ''duplicate action %q''
      else Inr \<lparr>ct_templates = (tt_ID t, t) # ct_templates c, ct_byAction = (tt_Action t, tt_ID t) # ct_byAction c\<rparr>)"

definition catalog_New :: "TaskTemplate list \<Rightarrow> string + Catalog" where
  "catalog_New templates = foldR add_template templates \<lparr>ct_templates = [], ct_byAction = []\<rparr>"

definition zero_template :: TaskTemplate where
  "zero_template = \<lparr>tt_ID = '''', tt_Action = '''', tt_Description = '''', tt_Parameters = [],
     tt_RequiredPermission = '''', tt_MaxTimeoutMillis = 0, tt_AgentAllowed = False\<rparr>"

definition catalog_template :: "Catalog \<Rightarrow> string \<Rightarrow> TaskTemplate" where
  "catalog_template c i = (case map_of (ct_templates c) i of None \<Rightarrow> zero_template | Some t \<Rightarrow> t)"

definition FindByAction :: "Catalog \<Rightarrow> string \<Rightarrow> TaskTemplate option" where
  "FindByAction c action = map_option (catalog_template c) (map_of (ct_byAction c) action)"

definition catalog_Query :: "Catalog \<Rightarrow> string \<Rightarrow> TaskTemplate list" where
  "catalog_Query c query =
     (let query = ToLower (TrimSpace query);
          ids = map fst (filter (\<lambda>(i, t). query = '''' \<or>
                  contains (ToLower (i @ '' '' @ tt_Action t @ '' '' @ tt_Description t)) query) (ct_templates c))
      in map (catalog_template c) (sort ids))"

text \<open>The three templates of the document workflow; their descriptions are written as UTF-8 bytes.\<close>

definition DefaultTemplates :: "TaskTemplate list" where
  "DefaultTemplates =
     [\<lparr>tt_ID = ''read-document'', tt_Action = ''read-document'', tt_Description =
         [CHR 0xE8, CHR 0xAF, CHR 0xBB, CHR 0xE5, CHR 0x8F, CHR 0x96, CHR 0xE6, CHR 0x8C, CHR 0x87,
          CHR 0xE5, CHR 0xAE, CHR 0x9A, CHR 0xE7, CHR 0x9A, CHR 0x84, CHR 0xE5, CHR 0x85, CHR 0xAC,
          CHR 0xE5, CHR 0xBC, CHR 0x80, CHR 0xE7, CHR 0xA4, CHR 0xBA, CHR 0xE4, CHR 0xBE, CHR 0x8B,
          CHR 0xE6, CHR 0x96, CHR 0x87, CHR 0xE6, CHR 0xA1, CHR 0xA3],
       tt_Parameters = [(''source'', \<lparr>ps_Type = ''string'', ps_Required = True, ps_Enum = []\<rparr>)],
       tt_RequiredPermission = ''document:read'', tt_MaxTimeoutMillis = 30000, tt_AgentAllowed = True\<rparr>,
      \<lparr>tt_ID = ''clean-document'', tt_Action = ''clean-document'', tt_Description =
         [CHR 0xE6, CHR 0xB8, CHR 0x85, CHR 0xE6, CHR 0xB4, CHR 0x97, CHR 0xE6, CHR 0x96, CHR 0x87,
          CHR 0xE6, CHR 0xA1, CHR 0xA3, CHR 0xE5, CHR 0x86, CHR 0x85, CHR 0xE5, CHR 0xAE, CHR 0xB9],
       tt_Parameters = [(''mode'', \<lparr>ps_Type = ''string'', ps_Required = False, ps_Enum = [''standard'', ''strict'']\<rparr>)],
       tt_RequiredPermission = '''', tt_MaxTimeoutMillis = 30000, tt_AgentAllowed = True\<rparr>,
      \<lparr>tt_ID = ''summarize-document'', tt_Action = ''summarize-document'', tt_Description =
         [CHR 0xE7, CHR 0x94, CHR 0x9F, CHR 0xE6, CHR 0x88, CHR 0x90, CHR 0xE6, CHR 0x96, CHR 0x87,
          CHR 0xE6, CHR 0xA1, CHR 0xA3, CHR 0xE6, CHR 0x91, CHR 0x98, CHR 0xE8, CHR 0xA6, CHR 0x81],
       tt_Parameters = [(''max_words'', \<lparr>ps_Type = ''number'', ps_Required = False, ps_Enum = []\<rparr>)],
       tt_RequiredPermission = '''', tt_MaxTimeoutMillis = 60000, tt_AgentAllowed = True\<rparr>]"

section \<open>The validator\<close>

datatype ctx_error = Canceled | DeadlineExceeded

definition MaxWorkflowConcurrency :: int where
  "MaxWorkflowConcurrency = 32"

record DraftValidator =
  dv_catalog :: "Catalog option"
  dv_permissions :: "string list"

definition mk_issue :: "string \<Rightarrow> string \<Rightarrow> string \<Rightarrow> ValidationIssue" where
  "mk_issue code p message = \<lparr>vi_Code = code, vi_Path = p, vi_Message = message\<rparr>"

text \<open>Inputs are decoded JSON: a string is a Go \<^verbatim>\<open>string\<close>, a number a
  \<^verbatim>\<open>json.Number\<close> or a \<^verbatim>\<open>float64\<close>, a map a \<^verbatim>\<open>map[string]any\<close>.\<close>

definition matchesType :: "goval \<Rightarrow> string \<Rightarrow> bool" where
  "matchesType v expected =
     (if expected = ''string'' then (case v of GString _ \<Rightarrow> True | _ \<Rightarrow> False)
      else if expected = ''number'' then (case v of GNumber _ \<Rightarrow> True | _ \<Rightarrow> False)
      else if expected = ''boolean'' then (case v of GBool _ \<Rightarrow> True | _ \<Rightarrow> False)
      else if expected = ''object'' then (case v of GMap _ _ _ \<Rightarrow> True | _ \<Rightarrow> False)
      else if expected = ''array'' then (case v of GSlice _ _ _ \<Rightarrow> True | _ \<Rightarrow> False)
      else False)"

definition input_entries :: "task_input \<Rightarrow> (string \<times> goval) list" where
  "input_entries input = (case input of None \<Rightarrow> [] | Some (p, es) \<Rightarrow> es)"

definition parameter_issues :: "string \<Rightarrow> task_input \<Rightarrow> string \<times> ParameterSpec \<Rightarrow> ValidationIssue list" where
  "parameter_issues p input = (\<lambda>(name, spec).
     case map_of (input_entries input) name of
       None \<Rightarrow> if ps_Required spec then [mk_issue ''required_input_missing'' (p @ ''.'' @ name) ''required input is missing''] else []
     | Some v \<Rightarrow>
         if \<not> matchesType v (ps_Type spec)
           then [mk_issue ''input_type_mismatch'' (p @ ''.'' @ name) ''input type does not match template'']
         else if ps_Enum spec \<noteq> [] \<and> (case v of GString text \<Rightarrow> text \<notin> set (ps_Enum spec) | _ \<Rightarrow> True)
           then [mk_issue ''input_enum_mismatch'' (p @ ''.'' @ name) ''input value is outside the allowed enum'']
         else [])"

text \<open>Both loops range over maps, whose order Go leaves open: here it is that of the lists.\<close>

definition validateInput :: "string \<Rightarrow> task_input \<Rightarrow> (string \<times> ParameterSpec) list \<Rightarrow> ValidationIssue list" where
  "validateInput p input parameters =
     concat (map (parameter_issues p input) parameters) @
     map (\<lambda>(name, _). mk_issue ''unknown_input'' (p @ ''.'' @ name) ''input is not declared by the task template'')
       (filter (\<lambda>(name, _). map_of parameters name = None) (input_entries input))"

definition task_issues :: "Catalog \<Rightarrow> string list \<Rightarrow> nat \<times> TaskDefinition \<Rightarrow> ValidationIssue list" where
  "task_issues c permissions = (\<lambda>(i, task).
     let p = ''definition.tasks['' @ nat_str i @ '']'' in
     case FindByAction c (td_Action task) of
       None \<Rightarrow> [mk_issue ''unknown_action'' (p @ ''.action'') ''action is not available to Agent'']
     | Some t \<Rightarrow>
         if \<not> tt_AgentAllowed t then [mk_issue ''unknown_action'' (p @ ''.action'') ''action is not available to Agent'']
         else
           (if tt_RequiredPermission t \<noteq> '''' \<and> tt_RequiredPermission t \<notin> set permissions
            then [mk_issue ''permission_missing'' (p @ ''.action'') ''required task permission is missing''] else []) @
           (if tt_MaxTimeoutMillis t > 0 \<and> td_TimeoutMillis task > tt_MaxTimeoutMillis t
            then [mk_issue ''timeout_limit_exceeded'' (p @ ''.timeout_ms'') ''task timeout exceeds template limit''] else []) @
           validateInput (p @ ''.input'') (td_Input task) (tt_Parameters t))"

definition indexed :: "'a list \<Rightarrow> (nat \<times> 'a) list" where
  "indexed xs = zip [0 ..< length xs] xs"

definition draft_errors :: "Catalog \<Rightarrow> string list \<Rightarrow> WorkflowDraft \<Rightarrow> ValidationIssue list" where
  "draft_errors c permissions draft =
     (let def = wf_Definition draft in
      (if wf_DraftID draft = '''' then [mk_issue ''draft_id_required'' ''draft_id'' ''draft ID is required''] else []) @
      (if wf_Goal draft = '''' then [mk_issue ''goal_required'' ''goal'' ''goal is required''] else []) @
      (if wd_Concurrency def > MaxWorkflowConcurrency \<or> wd_Concurrency def > int (length (wd_Tasks def))
       then [mk_issue ''concurrency_limit_exceeded'' ''definition.concurrency'' ''Agent workflow concurrency exceeds the safe limit''] else []) @
      (case Compile def of Inl err \<Rightarrow> [mk_issue ''workflow_definition_invalid'' ''definition'' ''%v''] | Inr _ \<Rightarrow> []) @
      concat (map (task_issues c permissions) (indexed (wd_Tasks def))) @
      map (\<lambda>(i, q). mk_issue ''question_unresolved'' (''questions['' @ nat_str i @ '']'') ''question must be resolved before confirmation'')
        (filter (\<lambda>(i, q). \<not> qu_Resolved q) (indexed (items (wf_Questions draft)))))"

definition draft_warnings :: "WorkflowDraft \<Rightarrow> ValidationIssue list" where
  "draft_warnings draft =
     map (\<lambda>(i, a). mk_issue ''assumption_present'' (''assumptions['' @ nat_str i @ '']'') ''Agent assumption requires user review'')
       (indexed (items (wf_Assumptions draft)))"

definition Validate :: "DraftValidator option \<Rightarrow> ctx_error option \<Rightarrow> WorkflowDraft \<Rightarrow> aerr + ValidationReport" where
  "Validate v ctx draft =
     (case v of
        None \<Rightarrow> Inl (agent_error CodeDraftInvalid ''template catalog is required'')
      | Some v \<Rightarrow>
     (case dv_catalog v of
        None \<Rightarrow> Inl (agent_error CodeDraftInvalid ''template catalog is required'')
      | Some c \<Rightarrow>
          if ctx \<noteq> None then Inl (agent_error CodeCanceled ''draft validation canceled'')
          else Inr \<lparr>vr_Errors = Some (draft_errors c (dv_permissions v) draft), vr_Warnings = Some (draft_warnings draft)\<rparr>))"

section \<open>The content hash fixes the reviewed content\<close>

text \<open>Values whose JSON text is self-contained and determines them: so do the texts of lists of them.\<close>

locale json_encoded =
  fixes enc :: "'a \<Rightarrow> string"
  assumes enc_inject: "enc x = enc y \<Longrightarrow> x = y"
    and enc_text: "self_contained (enc x) \<and> enc x \<noteq> []"
begin

lemma array_text: "self_contained (json_array enc xs) \<and> json_array enc xs \<noteq> []"
proof (cases xs)
  case None
  moreover have "self_contained ''null''" by (rule self_contained_plain) auto
  ultimately show ?thesis by (simp add: json_array_def)
next
  case (Some ys)
  then show ?thesis using self_contained_array [of "map enc ys"] enc_text by (simp add: json_array_def list_all_iff)
qed

lemma array_inject:
  assumes "json_array enc xs = json_array enc ys"
  shows "xs = ys"
proof (cases "xs = None \<or> ys = None")
  case True
  then show ?thesis using assms by (auto simp: json_array_def split: option.splits)
next
  case False
  then obtain us vs where some: "xs = Some us" "ys = Some vs" by auto
  then have "join '','' (map enc us) = join '','' (map enc vs)" using assms by (simp add: json_array_def)
  then have "map enc us = map enc vs"
    by (rule join_inject) (simp_all add: list_all_iff enc_text)
  then have "us = vs" by (rule map_injective) (auto simp: inj_def intro: enc_inject)
  with some show ?thesis by simp
qed

end

lemma json_bool_text: "self_contained (json_bool b) \<and> json_bool b \<noteq> []"
proof -
  have "self_contained ''true''" "self_contained ''false''" by (rule self_contained_plain; auto)+
  then show ?thesis by (simp add: json_bool_def)
qed

lemmas member_simps = json_field_simps json_field_value json_quote_inject self_contained_quote json_bool_text

interpretation evidence: json_encoded evidence_json
proof
  fix x y :: Evidence
  show "self_contained (evidence_json x) \<and> evidence_json x \<noteq> []"
    unfolding evidence_json_def by (rule self_contained_object) (simp add: member_simps)
  assume "evidence_json x = evidence_json y"
  then have "[json_field ''statement'' (json_quote (ev_Statement x)), json_field ''source'' (json_quote (ev_Source x))] =
      [json_field ''statement'' (json_quote (ev_Statement y)), json_field ''source'' (json_quote (ev_Source y))]"
    unfolding evidence_json_def by (rule json_object_inject) (simp_all add: member_simps)
  then show "x = y" by (simp add: member_simps)
qed

interpretation tool_call: json_encoded tool_call_json
proof
  fix x y :: ToolCallRecord
  show "self_contained (tool_call_json x) \<and> tool_call_json x \<noteq> []"
    unfolding tool_call_json_def by (rule self_contained_object) (simp add: member_simps)
  assume "tool_call_json x = tool_call_json y"
  then have "[json_field ''call_id'' (json_quote (tc_CallID x)), json_field ''name'' (json_quote (tc_Name x)), json_field ''result'' (json_quote (tc_Result x))] =
      [json_field ''call_id'' (json_quote (tc_CallID y)), json_field ''name'' (json_quote (tc_Name y)), json_field ''result'' (json_quote (tc_Result y))]"
    unfolding tool_call_json_def by (rule json_object_inject) (simp_all add: member_simps)
  then show "x = y" by (simp add: member_simps)
qed

definition issue_members :: "ValidationIssue \<Rightarrow> string list" where
  "issue_members i = [json_field ''code'' (json_quote (vi_Code i))]
      @ (if vi_Path i = '''' then [] else [json_field ''path'' (json_quote (vi_Path i))])
      @ [json_field ''message'' (json_quote (vi_Message i))]"

interpretation issue: json_encoded issue_json
proof
  fix x y :: ValidationIssue
  have json: "issue_json i = json_object (issue_members i)" for i by (simp add: issue_json_def issue_members_def)
  show "self_contained (issue_json x) \<and> issue_json x \<noteq> []"
    unfolding json by (rule self_contained_object) (simp add: issue_members_def member_simps)
  assume "issue_json x = issue_json y"
  then have "issue_members x = issue_members y"
    unfolding json by (rule json_object_inject) (auto simp: issue_members_def member_simps)
  then show "x = y" by (auto simp: issue_members_def member_simps split: if_splits)
qed

definition question_members :: "Question \<Rightarrow> string list" where
  "question_members q = [json_field ''id'' (json_quote (qu_ID q)), json_field ''text'' (json_quote (qu_Text q))]
      @ (if qu_Answer q = '''' then [] else [json_field ''answer'' (json_quote (qu_Answer q))])
      @ [json_field ''resolved'' (json_bool (qu_Resolved q))]"

interpretation question: json_encoded question_json
proof
  fix x y :: Question
  have json: "question_json q = json_object (question_members q)" for q by (simp add: question_json_def question_members_def)
  show "self_contained (question_json x) \<and> question_json x \<noteq> []"
    unfolding json by (rule self_contained_object) (simp add: question_members_def member_simps)
  have bool: "json_bool a = json_bool b \<longleftrightarrow> a = b" for a b by (simp add: json_bool_def)
  assume "question_json x = question_json y"
  then have "question_members x = question_members y"
    unfolding json by (rule json_object_inject) (auto simp: question_members_def member_simps)
  then show "x = y" by (auto simp: question_members_def member_simps bool split: if_splits)
qed

interpretation report: json_encoded report_json
proof
  fix x y :: ValidationReport
  show "self_contained (report_json x) \<and> report_json x \<noteq> []"
    unfolding report_json_def by (rule self_contained_object) (simp add: member_simps issue.array_text)
  assume "report_json x = report_json y"
  then have "[json_field ''errors'' (json_array issue_json (vr_Errors x)), json_field ''warnings'' (json_array issue_json (vr_Warnings x))] =
      [json_field ''errors'' (json_array issue_json (vr_Errors y)), json_field ''warnings'' (json_array issue_json (vr_Warnings y))]"
    unfolding report_json_def by (rule json_object_inject) (simp_all add: member_simps issue.array_text)
  then show "x = y" using issue.array_inject by (auto simp: member_simps)
qed

lemma definition_json_text:
  assumes "definition_json def = Some w"
  shows "self_contained w \<and> w \<noteq> []"
proof -
  obtain ts where ts: "map task_json (wd_Tasks def) = map Some ts"
    and w: "w = json_object [json_field ''id'' (json_quote (wd_ID def)), json_field ''concurrency'' (int_str (wd_Concurrency def)),
      json_field ''tasks'' (''['' @ join '','' ts @ '']'')]"
    using assms by (auto simp: definition_json_def all_some_iff)
  have "self_contained v" if "v \<in> set ts" for v
  proof -
    have "Some v \<in> task_json ` set (wd_Tasks def)" using that ts by (metis imageI list.set_map)
    then obtain task where task: "task_json task = Some v" by (metis imageE)
    obtain input where v: "v = json_object (task_members task input)"
      and i: "input = [] \<or> (\<exists>v. input = [json_field ''input'' v] \<and> self_contained v)"
      using task_json_members [OF task] .
    have "list_all self_contained (task_members task input)" using task_members_ok [OF i, of task] by (simp add: list_all_iff)
    then show ?thesis unfolding v using self_contained_object by blast
  qed
  then have "self_contained (''['' @ join '','' ts @ '']'')" by (intro self_contained_array) (simp add: list_all_iff)
  then show ?thesis unfolding w by (intro self_contained_object) (simp add: member_simps self_contained_int)
qed

definition same_review :: "WorkflowDraft \<Rightarrow> WorkflowDraft \<Rightarrow> bool" where
  "same_review a b \<longleftrightarrow> wf_DraftID a = wf_DraftID b \<and> wf_Goal a = wf_Goal b \<and>
     definition_json (wf_Definition a) = definition_json (wf_Definition b) \<and> wf_Facts a = wf_Facts b \<and>
     wf_Assumptions a = wf_Assumptions b \<and> wf_Questions a = wf_Questions b \<and> wf_Validation a = wf_Validation b \<and>
     wf_ToolCalls a = wf_ToolCalls b \<and> draft_str (wf_Status a) = draft_str (wf_Status b)"

lemma reviewed_json_inject:
  assumes "reviewed_json a = Some body" and "reviewed_json b = Some body"
  shows "same_review a b"
proof -
  let ?ms = "\<lambda>d w. [json_field ''draft_id'' (json_quote (wf_DraftID d)), json_field ''goal'' (json_quote (wf_Goal d)),
      json_field ''definition'' w, json_field ''facts'' (json_array evidence_json (wf_Facts d)),
      json_field ''assumptions'' (json_array evidence_json (wf_Assumptions d)),
      json_field ''questions'' (json_array question_json (wf_Questions d)),
      json_field ''validation'' (report_json (wf_Validation d)),
      json_field ''tool_calls'' (json_array tool_call_json (wf_ToolCalls d)),
      json_field ''status'' (json_quote (draft_str (wf_Status d)))]"
  obtain v w where v: "definition_json (wf_Definition a) = Some v" and w: "definition_json (wf_Definition b) = Some w"
    and eq: "json_object (?ms a v) = json_object (?ms b w)"
    using assms by (auto simp: reviewed_json_def)
  have ok: "list_all (\<lambda>w. self_contained w \<and> w \<noteq> []) (?ms d w)" if "definition_json def = Some w" for d def w
    using definition_json_text [OF that]
    by (simp add: member_simps evidence.array_text question.array_text report.enc_text tool_call.array_text)
  have "?ms a v = ?ms b w" by (rule json_object_inject [OF eq ok [OF v] ok [OF w]])
  then show ?thesis
    using v w by (auto simp: same_review_def member_simps intro: evidence.array_inject question.array_inject report.enc_inject tool_call.array_inject)
qed

lemma hex_string_inject: "hex_string v = hex_string w \<Longrightarrow> v = w"
proof (induction v arbitrary: w)
  case (Cons c v)
  then obtain d w' where w: "w = d # w'" by (cases w) (auto simp: hex_string_def Let_def)
  have small: "of_char x mod 16 < (16 :: nat)" for x by simp
  have "hex_digit (of_char c div 16) = hex_digit (of_char d div 16)" "hex_digit (of_char c mod 16) = hex_digit (of_char d mod 16)"
    "hex_string v = hex_string w'"
    using Cons.prems w by (simp_all add: hex_string_def Let_def)
  then have "of_char c div 16 = (of_char d div 16 :: nat)" "of_char c mod 16 = (of_char d mod 16 :: nat)" "v = w'"
    using hex_digit_inject small char_div Cons.IH by blast+
  then show ?case using w by (metis same_code div_mult_mod_eq)
qed (auto simp: hex_string_def Let_def)

lemma same_hash_same_review:
  assumes "ComputeDraftHash sha a = Inr h" and "ComputeDraftHash sha b = Inr h"
    and "\<And>v w. reviewed_json a = Some v \<Longrightarrow> reviewed_json b = Some w \<Longrightarrow> sha v = sha w \<Longrightarrow> v = w"
  shows "same_review a b"
proof -
  obtain v w where v: "reviewed_json a = Some v" "h = hex_string (sha v)" and w: "reviewed_json b = Some w" "h = hex_string (sha w)"
    using assms(1,2) by (auto simp: ComputeDraftHash_def split: option.splits)
  then have "v = w" using assms(3) hex_string_inject by metis
  with v w show ?thesis using reviewed_json_inject by blast
qed

section \<open>The catalog and the validator\<close>

definition catalog_ok :: "TaskTemplate list \<Rightarrow> Catalog \<Rightarrow> bool" where
  "catalog_ok ts c \<longleftrightarrow> set (ct_templates c) = (\<lambda>t. (tt_ID t, t)) ` set ts \<and> set (ct_byAction c) = (\<lambda>t. (tt_Action t, tt_ID t)) ` set ts \<and>
     distinct (map fst (ct_templates c)) \<and> distinct (map fst (ct_byAction c))"

lemma catalog_New_ok:
  assumes "catalog_New templates = Inr c"
  shows "catalog_ok templates c"
proof -
  have "foldR add_template ts c0 = Inr c \<Longrightarrow> catalog_ok ts0 c0 \<Longrightarrow> catalog_ok (ts0 @ ts) c" for ts ts0 c0
  proof (induction ts arbitrary: ts0 c0)
    case (Cons t ts)
    then obtain c1 where c1: "add_template t c0 = Inr c1" "foldR add_template ts c1 = Inr c" by (auto simp: bindR_eq_Inr)
    then have "catalog_ok (ts0 @ [t]) c1"
      using Cons.prems(2) by (auto simp: add_template_def catalog_ok_def map_of_eq_None_iff image_image split: if_splits)
    from Cons.IH [OF c1(2) this] show ?case by simp
  qed simp
  from this [of templates _ "[]"] assms show ?thesis by (auto simp: catalog_New_def catalog_ok_def)
qed

lemma FindByAction_iff:
  assumes "catalog_New templates = Inr c"
  shows "FindByAction c action = Some t \<longleftrightarrow> t \<in> set templates \<and> tt_Action t = action"
proof -
  note ok = catalog_New_ok [OF assms, unfolded catalog_ok_def]
  have tmpl: "catalog_template c (tt_ID u) = u" if "u \<in> set templates" for u
  proof -
    have "map_of (ct_templates c) (tt_ID u) = Some u" by (rule map_of_is_SomeI) (use ok that in auto)
    then show ?thesis by (simp add: catalog_template_def)
  qed
  have act: "map_of (ct_byAction c) a = Some i \<longleftrightarrow> (\<exists>u \<in> set templates. a = tt_Action u \<and> i = tt_ID u)" for a i
    using ok by (auto simp: map_of_eq_Some_iff)
  show ?thesis using tmpl by (auto simp: FindByAction_def act)
qed

text \<open>What a draft must meet, stated over the templates the catalog was made from.\<close>

definition input_acceptable :: "TaskTemplate \<Rightarrow> task_input \<Rightarrow> bool" where
  "input_acceptable t input \<longleftrightarrow>
     (\<forall>(name, spec) \<in> set (tt_Parameters t). case map_of (input_entries input) name of
        None \<Rightarrow> \<not> ps_Required spec
      | Some v \<Rightarrow> matchesType v (ps_Type spec) \<and> (ps_Enum spec \<noteq> [] \<longrightarrow> (\<exists>text \<in> set (ps_Enum spec). v = GString text))) \<and>
     fst ` set (input_entries input) \<subseteq> fst ` set (tt_Parameters t)"

definition task_acceptable :: "TaskTemplate list \<Rightarrow> string list \<Rightarrow> TaskDefinition \<Rightarrow> bool" where
  "task_acceptable templates permissions task \<longleftrightarrow>
     (\<exists>t \<in> set templates. tt_Action t = td_Action task \<and> tt_AgentAllowed t \<and>
        (tt_RequiredPermission t = '''' \<or> tt_RequiredPermission t \<in> set permissions) \<and>
        (tt_MaxTimeoutMillis t > 0 \<longrightarrow> td_TimeoutMillis task \<le> tt_MaxTimeoutMillis t) \<and>
        input_acceptable t (td_Input task))"

definition draft_acceptable :: "TaskTemplate list \<Rightarrow> string list \<Rightarrow> WorkflowDraft \<Rightarrow> bool" where
  "draft_acceptable templates permissions draft \<longleftrightarrow>
     wf_DraftID draft \<noteq> '''' \<and> wf_Goal draft \<noteq> '''' \<and> wd_Concurrency (wf_Definition draft) \<le> 32 \<and>
     wd_Concurrency (wf_Definition draft) \<le> int (length (wd_Tasks (wf_Definition draft))) \<and>
     definition_ok (wf_Definition draft) \<and>
     (\<forall>task \<in> set (wd_Tasks (wf_Definition draft)). task_acceptable templates permissions task) \<and>
     (\<forall>q \<in> set (items (wf_Questions draft)). qu_Resolved q)"

lemma parameter_issues_empty:
  "parameter_issues p input (name, spec) = [] \<longleftrightarrow> (case map_of (input_entries input) name of
     None \<Rightarrow> \<not> ps_Required spec
   | Some v \<Rightarrow> matchesType v (ps_Type spec) \<and> (ps_Enum spec \<noteq> [] \<longrightarrow> (\<exists>text \<in> set (ps_Enum spec). v = GString text)))"
  by (auto simp: parameter_issues_def split: option.splits goval.splits)

lemma validateInput_empty: "validateInput p input (tt_Parameters t) = [] \<longleftrightarrow> input_acceptable t input"
proof -
  have "filter (\<lambda>(name, _). map_of (tt_Parameters t) name = None) (input_entries input) = [] \<longleftrightarrow>
      fst ` set (input_entries input) \<subseteq> fst ` set (tt_Parameters t)"
    by (force simp: map_of_eq_None_iff filter_empty_conv)
  moreover have "(\<forall>x \<in> set (tt_Parameters t). parameter_issues p input x = []) \<longleftrightarrow>
      (\<forall>(name, spec) \<in> set (tt_Parameters t). case map_of (input_entries input) name of
        None \<Rightarrow> \<not> ps_Required spec
      | Some v \<Rightarrow> matchesType v (ps_Type spec) \<and> (ps_Enum spec \<noteq> [] \<longrightarrow> (\<exists>text \<in> set (ps_Enum spec). v = GString text)))"
    by (intro ball_cong refl) (auto simp: parameter_issues_empty)
  ultimately show ?thesis
    unfolding validateInput_def input_acceptable_def by (simp add: concat_eq_Nil_conv)
qed

lemma task_issues_empty:
  assumes "catalog_New templates = Inr c"
  shows "task_issues c permissions (i, task) = [] \<longleftrightarrow> task_acceptable templates permissions task"
proof -
  have uniq: "FindByAction c (td_Action task) = Some t \<longleftrightarrow> t \<in> set templates \<and> tt_Action t = td_Action task" for t
    by (rule FindByAction_iff [OF assms])
  show ?thesis
  proof (cases "FindByAction c (td_Action task)")
    case None
    then show ?thesis using uniq by (auto simp: task_issues_def task_acceptable_def)
  next
    case (Some t)
    have "u = t" if "u \<in> set templates" "tt_Action u = td_Action task" for u using uniq [of u] Some that by simp
    then have "task_acceptable templates permissions task \<longleftrightarrow> tt_AgentAllowed t \<and>
        (tt_RequiredPermission t = '''' \<or> tt_RequiredPermission t \<in> set permissions) \<and>
        (tt_MaxTimeoutMillis t > 0 \<longrightarrow> td_TimeoutMillis task \<le> tt_MaxTimeoutMillis t) \<and> input_acceptable t (td_Input task)"
      using Some uniq by (auto simp: task_acceptable_def)
    then show ?thesis using Some by (auto simp: task_issues_def Let_def validateInput_empty)
  qed
qed

lemma set_indexed: "(\<forall>x \<in> set (indexed xs). P (snd x)) \<longleftrightarrow> (\<forall>x \<in> set xs. P x)"
proof -
  have "snd ` set (indexed xs) = set xs" by (simp add: indexed_def flip: set_map)
  then show ?thesis by (auto simp flip: \<open>snd ` set (indexed xs) = set xs\<close>)
qed

lemma draft_errors_empty:
  assumes "catalog_New templates = Inr c"
  shows "draft_errors c permissions draft = [] \<longleftrightarrow> draft_acceptable templates permissions draft"
proof -
  have tasks: "(\<forall>x \<in> set (indexed ts). task_issues c permissions x = []) \<longleftrightarrow> (\<forall>task \<in> set ts. task_acceptable templates permissions task)" for ts
    using set_indexed [of ts "task_acceptable templates permissions"] task_issues_empty [OF assms] by fastforce
  have questions: "filter (\<lambda>(i, q). \<not> qu_Resolved q) (indexed qs) = [] \<longleftrightarrow> (\<forall>q \<in> set qs. qu_Resolved q)" for qs
    using set_indexed [of qs qu_Resolved] by (simp add: case_prod_beta filter_empty_conv)
  have compile: "(case Compile def of Inl err \<Rightarrow> [i] | Inr _ \<Rightarrow> []) = [] \<longleftrightarrow> definition_ok def" for def and i :: ValidationIssue
    using compile_accepts_iff [of def] by (cases "Compile def") auto
  have opt: "(if b then [i] else []) = [] \<longleftrightarrow> \<not> b" for b and i :: ValidationIssue by simp
  show ?thesis
    unfolding draft_errors_def Let_def append_is_Nil_conv opt compile map_is_Nil_conv questions draft_acceptable_def
      MaxWorkflowConcurrency_def concat_eq_Nil_conv not_less de_Morgan_disj set_map ball_simps tasks by blast
qed

lemma validate_empty:
  assumes "catalog_New templates = Inr c" and "dv_catalog v = Some c" and "Validate (Some v) ctx draft = Inr report"
  shows "items (vr_Errors report) = [] \<longleftrightarrow> draft_acceptable templates (dv_permissions v) draft"
  using assms(2,3) draft_errors_empty [OF assms(1)] by (auto simp: Validate_def items_def split: if_splits)

end
