(* ===== verification/Agent.thy ===== *)
theory Agent
  imports Agent_Draft
begin

text \<open>
  The agent service (\<^verbatim>\<open>agent/service.go\<close>, \<^verbatim>\<open>tool.go\<close>, \<^verbatim>\<open>model.go\<close>): the
  loop that asks a model for a workflow draft and runs the tools it calls, and the validation and
  confirmation of drafts. A session is a computation on the state \<open>session\<close> that may end
  in an error. What it observes outside (the state of its context, the answers of model, tools
  and audit sink, the clock) is given by a \<open>world\<close>: the answer to the n-th observation.
\<close>

section \<open>Models and tools\<close>

record ToolSummary =
  ts_Name :: string
  ts_Description :: string
  ts_InputSchema :: string

record ToolResult =
  to_CallID :: string
  to_Name :: string
  to_Content :: string

record ModelToolCall =
  mc_ID :: string
  mc_Name :: string
  mc_Arguments :: string

record ToolExchange =
  te_Calls :: "ModelToolCall list"
  te_Results :: "ToolResult list"

record ModelRequest =
  mq_Goal :: string
  mq_Tools :: "ToolSummary list"
  mq_ToolResults :: "ToolResult list"
  mq_ToolHistory :: "ToolExchange list"
  mq_Limits :: ModelLimits

record ModelResponse =
  mp_DraftJSON :: string
  mp_ToolCalls :: "ModelToolCall list"
  mp_Model :: string

record Tool =
  tl_Name :: string
  tl_Description :: string
  tl_InputSchema :: string
  tl_Invoke :: "nat \<Rightarrow> string \<Rightarrow> aerr + string"

record RegisteredTool =
  rt_Tool :: "Tool option"
  rt_RequiredPermission :: string

type_synonym ToolRegistry = "(string \<times> RegisteredTool) list"

definition register_tool :: "RegisteredTool \<Rightarrow> ToolRegistry \<Rightarrow> string + ToolRegistry" where
  "register_tool registered tools =
     (case rt_Tool registered of
        None \<Rightarrow> Inl ''registered tool and name are required''
      | Some t \<Rightarrow>
          if tl_Name t = '''' then Inl ''registered tool and name are required''
          else if map_of tools (tl_Name t) \<noteq> None then Inl ''duplicate tool %q''
          else Inr ((tl_Name t, registered) # tools))"

definition NewToolRegistry :: "RegisteredTool list \<Rightarrow> string + ToolRegistry" where
  "NewToolRegistry tools = foldR register_tool tools []"

definition Summaries :: "ToolRegistry \<Rightarrow> ToolSummary list" where
  "Summaries tools =
     concat (map (\<lambda>name. case map_of tools name of None \<Rightarrow> [] | Some registered \<Rightarrow>
         (case rt_Tool registered of None \<Rightarrow> [] | Some t \<Rightarrow>
            [\<lparr>ts_Name = name, ts_Description = tl_Description t, ts_InputSchema = tl_InputSchema t\<rparr>]))
       (sort (map fst tools)))"

text \<open>The tool that \<^verbatim>\<open>Invoke\<close> runs, or its refusal.\<close>

definition authorized_tool :: "ToolRegistry \<Rightarrow> string \<Rightarrow> string list \<Rightarrow> aerr + Tool" where
  "authorized_tool tools name permissions =
     (case map_of tools name of
        None \<Rightarrow> Inl (agent_error CodeToolNotAllowed ''tool is not registered'')
      | Some registered \<Rightarrow>
          if rt_RequiredPermission registered \<noteq> '''' \<and> rt_RequiredPermission registered \<notin> set permissions
            then Inl (agent_error CodeToolNotAllowed ''tool permission is missing'')
          else (case rt_Tool registered of
            None \<Rightarrow> Inl (OtherError None)
          | Some t \<Rightarrow> Inr t))"

subsection \<open>Arguments of tool calls\<close>

text \<open>\<^verbatim>\<open>json.Valid\<close>: the scanner of \<^verbatim>\<open>encoding/json\<close> with its stack of open
  objects and arrays.\<close>

datatype parse_state = ObjectKey | ObjectValue | ArrayValue

datatype scan_state =
    BeginValue | BeginValueOrEmpty | BeginStringOrEmpty | BeginString | EndValue | EndTop
  | InString | InStringEsc | InStringEscU nat | InNeg | In1 | In0 | InDot | InDot0 | InE | InESign | InE0
  | InLiteral string

definition isSpace :: "char \<Rightarrow> bool" where
  "isSpace c \<longleftrightarrow> (let n = (of_char c :: nat) in n = 32 \<or> n = 9 \<or> n = 13 \<or> n = 10)"

definition is_hex :: "char \<Rightarrow> bool" where
  "is_hex c \<longleftrightarrow> digit_char c \<or> c \<in> set ''abcdefABCDEF''"

definition maxNestingDepth :: nat where
  "maxNestingDepth = 10000"

definition pushParseState :: "parse_state \<Rightarrow> scan_state \<Rightarrow> parse_state list \<Rightarrow> (scan_state \<times> parse_state list) option" where
  "pushParseState p next stack = (if Suc (length stack) \<le> maxNestingDepth then Some (next, p # stack) else None)"

definition stateBeginValue :: "char \<Rightarrow> parse_state list \<Rightarrow> (scan_state \<times> parse_state list) option" where
  "stateBeginValue c stack =
     (if isSpace c then Some (BeginValue, stack)
      else if c = CHR ''{'' then pushParseState ObjectKey BeginStringOrEmpty stack
      else if c = CHR ''['' then pushParseState ArrayValue BeginValueOrEmpty stack
      else if of_char c = (34 :: nat) then Some (InString, stack)
      else if c = CHR ''-'' then Some (InNeg, stack)
      else if c = CHR ''0'' then Some (In0, stack)
      else if c = CHR ''t'' then Some (InLiteral ''rue'', stack)
      else if c = CHR ''f'' then Some (InLiteral ''alse'', stack)
      else if c = CHR ''n'' then Some (InLiteral ''ull'', stack)
      else if digit_char c then Some (In1, stack)
      else None)"

definition popParseState :: "parse_state list \<Rightarrow> scan_state \<times> parse_state list" where
  "popParseState stack = (case stack of [] \<Rightarrow> (EndTop, []) | _ # rest \<Rightarrow> (if rest = [] then EndTop else EndValue, rest))"

definition stateEndValue :: "char \<Rightarrow> parse_state list \<Rightarrow> (scan_state \<times> parse_state list) option" where
  "stateEndValue c stack =
     (case stack of
        [] \<Rightarrow> if isSpace c then Some (EndTop, []) else None
      | p # rest \<Rightarrow>
          if isSpace c then Some (EndValue, stack)
          else (case p of
             ObjectKey \<Rightarrow> if c = CHR '':'' then Some (BeginValue, ObjectValue # rest) else None
           | ObjectValue \<Rightarrow>
               if c = CHR '','' then Some (BeginString, ObjectKey # rest)
               else if c = CHR ''}'' then Some (popParseState stack) else None
           | ArrayValue \<Rightarrow>
               if c = CHR '','' then Some (BeginValue, stack)
               else if c = CHR '']'' then Some (popParseState stack) else None))"

definition stateBeginString :: "char \<Rightarrow> parse_state list \<Rightarrow> (scan_state \<times> parse_state list) option" where
  "stateBeginString c stack =
     (if isSpace c then Some (BeginString, stack)
      else if of_char c = (34 :: nat) then Some (InString, stack) else None)"

fun scan_step :: "char \<Rightarrow> scan_state \<times> parse_state list \<Rightarrow> (scan_state \<times> parse_state list) option" where
  "scan_step c (BeginValue, stack) = stateBeginValue c stack"
| "scan_step c (BeginValueOrEmpty, stack) =
     (if isSpace c then Some (BeginValueOrEmpty, stack)
      else if c = CHR '']'' then stateEndValue c stack else stateBeginValue c stack)"
| "scan_step c (BeginStringOrEmpty, stack) =
     (if isSpace c then Some (BeginStringOrEmpty, stack)
      else if c = CHR ''}'' then stateEndValue c (ObjectValue # tl stack)
      else stateBeginString c stack)"
| "scan_step c (BeginString, stack) = stateBeginString c stack"
| "scan_step c (EndValue, stack) = stateEndValue c stack"
| "scan_step c (EndTop, stack) = (if isSpace c then Some (EndTop, stack) else None)"
| "scan_step c (InString, stack) =
     (if of_char c = (34 :: nat) then Some (EndValue, stack)
      else if of_char c = (92 :: nat) then Some (InStringEsc, stack)
      else if of_char c < (32 :: nat) then None else Some (InString, stack))"
| "scan_step c (InStringEsc, stack) =
     (if c \<in> set ''bfnrt/'' \<or> of_char c = (92 :: nat) \<or> of_char c = (34 :: nat) then Some (InString, stack)
      else if c = CHR ''u'' then Some (InStringEscU 3, stack) else None)"
| "scan_step c (InStringEscU n, stack) =
     (if is_hex c then Some (case n of 0 \<Rightarrow> InString | Suc m \<Rightarrow> InStringEscU m, stack) else None)"
| "scan_step c (InNeg, stack) =
     (if c = CHR ''0'' then Some (In0, stack) else if digit_char c then Some (In1, stack) else None)"
| "scan_step c (In1, stack) =
     (if digit_char c then Some (In1, stack)
      else if c = CHR ''.'' then Some (InDot, stack)
      else if c = CHR ''e'' \<or> c = CHR ''E'' then Some (InE, stack)
      else stateEndValue c stack)"
| "scan_step c (In0, stack) =
     (if c = CHR ''.'' then Some (InDot, stack)
      else if c = CHR ''e'' \<or> c = CHR ''E'' then Some (InE, stack)
      else stateEndValue c stack)"
| "scan_step c (InDot, stack) = (if digit_char c then Some (InDot0, stack) else None)"
| "scan_step c (InDot0, stack) =
     (if digit_char c then Some (InDot0, stack)
      else if c = CHR ''e'' \<or> c = CHR ''E'' then Some (InE, stack)
      else stateEndValue c stack)"
| "scan_step c (InE, stack) =
     (if c = CHR ''+'' \<or> c = CHR ''-'' then Some (InESign, stack)
      else if digit_char c then Some (InE0, stack) else None)"
| "scan_step c (InESign, stack) = (if digit_char c then Some (InE0, stack) else None)"
| "scan_step c (InE0, stack) = (if digit_char c then Some (InE0, stack) else stateEndValue c stack)"
| "scan_step c (InLiteral w, stack) =
     (case w of [] \<Rightarrow> None | x # rest \<Rightarrow>
        if c = x then Some (if rest = [] then EndValue else InLiteral rest, stack) else None)"

fun scan_text :: "string \<Rightarrow> scan_state \<times> parse_state list \<Rightarrow> (scan_state \<times> parse_state list) option" where
  "scan_text [] st = Some st"
| "scan_text (c # w) st = (case scan_step c st of None \<Rightarrow> None | Some st' \<Rightarrow> scan_text w st')"

text \<open>At the end of the text the scanner is fed one more space.\<close>

definition json_Valid :: "string \<Rightarrow> bool" where
  "json_Valid w \<longleftrightarrow> map_option fst (scan_text (w @ '' '') (BeginValue, [])) = Some EndTop"

definition check_call :: "ModelToolCall \<Rightarrow> string list \<Rightarrow> aerr + string list" where
  "check_call call seen =
     (let callID = TrimSpace (mc_ID call) in
      if callID = '''' \<or> TrimSpace (mc_Name call) = '''' \<or> \<not> json_Valid (mc_Arguments call)
        then Inl (agent_error CodeModelInvalidResponse ''model returned an incomplete or malformed tool call'')
      else if callID \<in> set seen
        then Inl (agent_error CodeModelInvalidResponse ''model returned duplicate tool call IDs'')
      else Inr (callID # seen))"

definition validateToolCalls :: "ModelToolCall list \<Rightarrow> aerr + unit" where
  "validateToolCalls calls = bindR (foldR check_call calls []) (\<lambda>_. Inr ())"

definition responseSize :: "ModelResponse \<Rightarrow> int" where
  "responseSize response = int (length (mp_DraftJSON response)) +
     sum_list (map (\<lambda>call. int (length (mc_ID call) + length (mc_Name call) + length (mc_Arguments call))) (mp_ToolCalls response))"

section \<open>Sessions\<close>

text \<open>What a session sees of the outside, by the number of the observation: the state of its
  context (once done, \<^verbatim>\<open>ctx.Err()\<close> keeps its answer), the state of the context of the tool call
  just made, the model's answer, whether the audit sink accepts an event, the time. \<open>aw_decode\<close>
  is the decoder of drafts: the first JSON value of a text and whether the text ends there.\<close>

record world =
  aw_ctx :: "nat \<Rightarrow> ctx_error option"
  aw_tool_ctx :: "nat \<Rightarrow> ctx_error option"
  aw_model :: "nat \<Rightarrow> ModelRequest \<Rightarrow> aerr + ModelResponse"
  aw_audit :: "nat \<Rightarrow> AuditEvent \<Rightarrow> bool"
  aw_now :: "nat \<Rightarrow> time"
  aw_random :: "string option"
  aw_sha :: "string \<Rightarrow> string"
  aw_decode :: "string \<Rightarrow> (WorkflowDraft \<times> bool) option"

text \<open>Calls that leave the runtime, in order.\<close>

datatype outside_call = ModelCalled ModelRequest | ToolInvoked string string

record session =
  ss_budget :: Budget
  ss_request :: ModelRequest
  ss_records :: "ToolCallRecord list"
  ss_audit :: "AuditEvent list"
  ss_calls :: "outside_call list"
  ss_tick :: nat

record agent_Service =
  sv_tools :: ToolRegistry
  sv_validator :: "DraftValidator option"
  sv_limits :: Limits
  sv_permissions :: "string list"

definition agent_NewService ::
  "'m option \<Rightarrow> ToolRegistry option \<Rightarrow> DraftValidator option \<Rightarrow> 'a option \<Rightarrow> Limits \<Rightarrow> string list \<Rightarrow> string + agent_Service" where
  "agent_NewService model tools validator audit limits permissions =
     (if model = None \<or> tools = None \<or> validator = None \<or> audit = None
        then Inl ''model, tools, validator and audit are required''
      else if li_MaxModelTurns limits \<le> 0 \<or> li_MaxToolCalls limits \<le> 0 \<or> li_MaxResponseBytes limits \<le> 0 \<or>
              li_RuntimeTimeout limits \<le> 0 \<or> li_ToolTimeout limits \<le> 0
        then Inl ''all runtime limits must be positive''
      else Inr \<lparr>sv_tools = the tools, sv_validator = validator, sv_limits = limits, sv_permissions = permissions\<rparr>)"

type_synonym 'a agent = "session \<Rightarrow> (aerr + 'a) \<times> session"

definition returnA :: "'a \<Rightarrow> 'a agent" where
  "returnA x s = (Inr x, s)"

definition failA :: "aerr \<Rightarrow> 'a agent" where
  "failA e s = (Inl e, s)"

definition bindA :: "'a agent \<Rightarrow> ('a \<Rightarrow> 'b agent) \<Rightarrow> 'b agent" where
  "bindA m f s = (case m s of (Inl e, s') \<Rightarrow> (Inl e, s') | (Inr x, s') \<Rightarrow> f x s')"

definition observe :: "(nat \<Rightarrow> 'a) \<Rightarrow> 'a agent" where
  "observe f s = (Inr (f (ss_tick s)), s\<lparr>ss_tick := Suc (ss_tick s)\<rparr>)"

definition spend :: "(Budget \<Rightarrow> aerr + Budget) \<Rightarrow> unit agent" where
  "spend use s = (case use (ss_budget s) of Inl e \<Rightarrow> (Inl e, s) | Inr b \<Rightarrow> (Inr (), s\<lparr>ss_budget := b\<rparr>))"

definition liftA :: "aerr + 'a \<Rightarrow> 'a agent" where
  "liftA r s = (r, s)"

definition canceledError :: aerr where
  "canceledError = agent_error CodeCanceled ''Agent Runtime canceled''"

definition mapContextError :: "ctx_error option \<Rightarrow> aerr \<Rightarrow> aerr" where
  "mapContextError ctx err =
     (case ctx of
        Some DeadlineExceeded \<Rightarrow> agent_error CodeModelTimeout ''model call exceeded Runtime deadline''
      | Some Canceled \<Rightarrow> canceledError
      | None \<Rightarrow> err)"

text \<open>\<^verbatim>\<open>return mapContextError(ctx, err)\<close>, and the check of the context before a step.\<close>

definition fail_mapped :: "world \<Rightarrow> aerr \<Rightarrow> 'a agent" where
  "fail_mapped w err = bindA (observe (aw_ctx w)) (\<lambda>ctx. failA (mapContextError ctx err))"

definition check_ctx :: "world \<Rightarrow> unit agent" where
  "check_ctx w = bindA (observe (aw_ctx w)) (\<lambda>ctx.
     if ctx = None then returnA () else failA (mapContextError ctx (OtherError None)))"

definition audit_event :: "string \<Rightarrow> string \<Rightarrow> string \<Rightarrow> (string \<times> audit_value) list \<Rightarrow> time \<Rightarrow> AuditEvent" where
  "audit_event kind draftID verdict metadata now =
     \<lparr>ad_Type = kind, ad_At = now, ad_DraftID = draftID, ad_Result = verdict, ad_Metadata = metadata\<rparr>"

definition agent_record :: "world \<Rightarrow> (time \<Rightarrow> AuditEvent) \<Rightarrow> unit agent" where
  "agent_record w event s =
     (let e = event (aw_now w (ss_tick s)); e = e\<lparr>ad_Metadata := redactMetadata (ad_Metadata e)\<rparr>;
          s' = s\<lparr>ss_tick := Suc (ss_tick s)\<rparr> in
      if aw_audit w (ss_tick s) e then (Inr (), s'\<lparr>ss_audit := ss_audit s @ [e]\<rparr>)
      else (Inl (agent_error CodeInternal ''record audit event''), s'))"

definition try_record :: "world \<Rightarrow> (time \<Rightarrow> AuditEvent) \<Rightarrow> unit agent" where
  "try_record w event s = (Inr (), snd (agent_record w event s))"

definition record_mapped :: "world \<Rightarrow> (time \<Rightarrow> AuditEvent) \<Rightarrow> unit agent" where
  "record_mapped w event s =
     (case agent_record w event s of (Inl e, s') \<Rightarrow> fail_mapped w e s' | (Inr _, s') \<Rightarrow> (Inr (), s'))"

subsection \<open>One turn of the model\<close>

definition call_model :: "world \<Rightarrow> (aerr + ModelResponse) agent" where
  "call_model w s =
     (let request = (ss_request s)\<lparr>mq_Limits := budget_ModelLimits (ss_budget s)\<rparr>
      in (Inr (aw_model w (ss_tick s) request),
          s\<lparr>ss_request := request, ss_calls := ss_calls s @ [ModelCalled request], ss_tick := Suc (ss_tick s)\<rparr>))"

definition ask_model :: "world \<Rightarrow> ModelResponse agent" where
  "ask_model w =
     bindA (check_ctx w) (\<lambda>_.
     bindA (spend UseModelTurn) (\<lambda>_.
     bindA (call_model w) (\<lambda>answer.
     case answer of
       Inr response \<Rightarrow> returnA response
     | Inl err \<Rightarrow>
         (case errors_As err of
            Some e \<Rightarrow>
              if ae_Temporary e then
                bindA (spend UseModelTurn) (\<lambda>_.
                bindA (record_mapped w (audit_event ''model.retry'' '''' (code_str (ae_Code e)) [])) (\<lambda>_.
                bindA (check_ctx w) (\<lambda>_.
                bindA (call_model w) (\<lambda>answer.
                case answer of Inr response \<Rightarrow> returnA response | Inl err \<Rightarrow> fail_mapped w err))))
              else fail_mapped w err
          | None \<Rightarrow> fail_mapped w err))))"

subsection \<open>Tool calls\<close>

definition invoke_tool :: "agent_Service \<Rightarrow> ModelToolCall \<Rightarrow> (aerr + string) agent" where
  "invoke_tool svc call s =
     (case authorized_tool (sv_tools svc) (mc_Name call) (sv_permissions svc) of
        Inl e \<Rightarrow> (Inr (Inl e), s)
      | Inr t \<Rightarrow>
          (Inr (tl_Invoke t (ss_tick s) (mc_Arguments call)),
           s\<lparr>ss_calls := ss_calls s @ [ToolInvoked (mc_Name call) (mc_Arguments call)], ss_tick := Suc (ss_tick s)\<rparr>))"

definition keep_result :: "ToolResult \<Rightarrow> unit agent" where
  "keep_result r s =
     (Inr (), s\<lparr>ss_request := (ss_request s)\<lparr>mq_ToolResults := mq_ToolResults (ss_request s) @ [r]\<rparr>,
                ss_records := ss_records s @ [\<lparr>tc_CallID = to_CallID r, tc_Name = to_Name r, tc_Result = ''allowed''\<rparr>]\<rparr>)"

definition run_call :: "world \<Rightarrow> agent_Service \<Rightarrow> ModelToolCall \<Rightarrow> ToolResult agent" where
  "run_call w svc call =
     bindA (check_ctx w) (\<lambda>_.
     bindA (spend UseToolCall) (\<lambda>_.
     bindA (invoke_tool svc call) (\<lambda>answer.
     bindA (observe (aw_tool_ctx w)) (\<lambda>toolContextErr.
     bindA (check_ctx w) (\<lambda>_.
     case answer of
       Inl err \<Rightarrow>
         bindA (observe (aw_ctx w)) (\<lambda>ctx.
         let err = (if toolContextErr = Some DeadlineExceeded \<and> ctx = None
                    then agent_error CodeToolTimeout ''tool call timed out''
                    else mapContextError ctx err) in
         bindA (try_record w (audit_event ''tool.denied'' '''' (code_str (CodeOf err)) [(''tool'', AScalar (GString (mc_Name call)))]))
           (\<lambda>_. failA err))
     | Inr content \<Rightarrow>
         bindA (\<lambda>s. liftA (CheckResponseSize (ss_budget s) (int (length content))) s) (\<lambda>_.
         let verdict = \<lparr>to_CallID = mc_ID call, to_Name = mc_Name call, to_Content = content\<rparr> in
         bindA (keep_result verdict) (\<lambda>_.
         bindA (record_mapped w (audit_event ''tool.allowed'' '''' ''success'' [(''tool'', AScalar (GString (mc_Name call)))]))
           (\<lambda>_. returnA verdict))))))))"

fun run_calls :: "world \<Rightarrow> agent_Service \<Rightarrow> ModelToolCall list \<Rightarrow> ToolResult list agent" where
  "run_calls w svc [] = returnA []"
| "run_calls w svc (call # calls) =
     bindA (run_call w svc call) (\<lambda>r. bindA (run_calls w svc calls) (\<lambda>rs. returnA (r # rs)))"

definition keep_exchange :: "ToolExchange \<Rightarrow> unit agent" where
  "keep_exchange exchange s =
     (Inr (), s\<lparr>ss_request := (ss_request s)\<lparr>mq_ToolHistory := mq_ToolHistory (ss_request s) @ [exchange]\<rparr>\<rparr>)"

subsection \<open>The draft\<close>

definition decodeDraft :: "(string \<Rightarrow> (WorkflowDraft \<times> bool) option) \<Rightarrow> string \<Rightarrow> aerr + WorkflowDraft" where
  "decodeDraft decode body =
     (case decode body of
        None \<Rightarrow> Inl (agent_error CodeModelInvalidResponse ''model draft is not valid structured JSON'')
      | Some (draft, at_end) \<Rightarrow>
          if \<not> at_end then Inl (agent_error CodeModelInvalidResponse ''model response contains trailing JSON'')
          else if wd_ID (wf_Definition draft) = '''' \<or> wd_Tasks (wf_Definition draft) = []
            then Inl (agent_error CodeModelInvalidResponse ''model draft is missing workflow definition'')
          else Inr draft)"

definition newDraftID :: "string option \<Rightarrow> string option" where
  "newDraftID raw = map_option (\<lambda>w. ''draft_'' @ hex_string w) raw"

definition accept_draft :: "world \<Rightarrow> string \<Rightarrow> ModelResponse \<Rightarrow> WorkflowDraft agent" where
  "accept_draft w goal response =
     (if mp_DraftJSON response = ''''
      then failA (agent_error CodeModelInvalidResponse ''model returned neither tool calls nor draft'')
      else
        bindA (liftA (decodeDraft (aw_decode w) (mp_DraftJSON response))) (\<lambda>draft.
        case newDraftID (aw_random w) of
          None \<Rightarrow> failA (agent_error CodeInternal ''generate draft ID'')
        | Some draftID \<Rightarrow>
            bindA (observe (aw_now w)) (\<lambda>now.
            bindA (\<lambda>s. (Inr (draft\<lparr>wf_Goal := goal, wf_ToolCalls := Some (ss_records s),
                     wf_Validation := \<lparr>vr_Errors = Some [], vr_Warnings = Some []\<rparr>, wf_ConfirmedAt := None,
                     wf_DraftID := draftID, wf_CreatedAt := now, wf_Status := DraftGenerated\<rparr>), s)) (\<lambda>draft.
            case ComputeDraftHash (aw_sha w) draft of
              Inl err \<Rightarrow> failA (agent_error CodeModelInvalidResponse ''draft cannot be hashed'')
            | Inr hash \<Rightarrow>
                bindA (\<lambda>s. record_mapped w (audit_event ''draft.generated'' draftID ''success''
                   [(''content_hash'', AScalar (GString hash)),
                    (''model_turns'', AScalar (GNumber (Some (int_str (bu_modelTurns (ss_budget s)))))),
                    (''tool_calls'', AScalar (GNumber (Some (int_str (bu_toolCalls (ss_budget s))))))]) s) (\<lambda>_.
                returnA (draft\<lparr>wf_ContentHash := hash\<rparr>))))))"

text \<open>One round of the loop: \<open>None\<close> stands for its \<^verbatim>\<open>continue\<close>.\<close>

definition generate_turn :: "world \<Rightarrow> agent_Service \<Rightarrow> string \<Rightarrow> WorkflowDraft option agent" where
  "generate_turn w svc goal =
     bindA (ask_model w) (\<lambda>response.
     bindA (check_ctx w) (\<lambda>_.
     bindA (\<lambda>s. liftA (CheckResponseSize (ss_budget s) (responseSize response)) s) (\<lambda>_.
     bindA (record_mapped w (audit_event ''model.completed'' '''' ''success'' [(''model'', AScalar (GString (mp_Model response)))])) (\<lambda>_.
     if mp_ToolCalls response \<noteq> [] then
       bindA (liftA (validateToolCalls (mp_ToolCalls response))) (\<lambda>_.
       bindA (run_calls w svc (mp_ToolCalls response)) (\<lambda>results.
       bindA (keep_exchange \<lparr>te_Calls = mp_ToolCalls response, te_Results = results\<rparr>) (\<lambda>_.
       returnA None)))
     else bindA (accept_draft w goal response) (\<lambda>draft. returnA (Some draft))))))"

section \<open>Reasoning about sessions\<close>

text \<open>From a state with \<open>P\<close> the computation ends in \<open>Q\<close> when it returns and in
  \<open>F\<close> when it fails.\<close>

definition triple :: "(session \<Rightarrow> bool) \<Rightarrow> 'a agent \<Rightarrow> ('a \<Rightarrow> session \<Rightarrow> bool) \<Rightarrow> (session \<Rightarrow> bool) \<Rightarrow> bool" where
  "triple P m Q F \<longleftrightarrow> (\<forall>s. P s \<longrightarrow> (case m s of (Inl e, s') \<Rightarrow> F s' | (Inr x, s') \<Rightarrow> Q x s'))"

named_theorems triple_rules \<open>triples of the session steps\<close>

lemma triple_bind [triple_rules]:
  assumes "triple P m R F" and "\<And>x. triple (R x) (f x) Q F"
  shows "triple P (bindA m f) Q F"
  unfolding triple_def
proof (intro allI impI)
  fix s assume "P s"
  obtain r s' where m: "m s = (r, s')" by (cases "m s")
  show "case bindA m f s of (Inl e, s') \<Rightarrow> F s' | (Inr x, s') \<Rightarrow> Q x s'"
  proof (cases r)
    case (Inl e)
    then show ?thesis using assms(1) \<open>P s\<close> m unfolding triple_def bindA_def by (auto dest!: spec [of _ s])
  next
    case (Inr x)
    then have "R x s'" using assms(1) \<open>P s\<close> m unfolding triple_def by (auto dest!: spec [of _ s])
    then show ?thesis using assms(2) [of x] Inr m unfolding triple_def bindA_def by auto
  qed
qed

lemma bindA_assoc: "bindA (bindA m f) g = bindA m (\<lambda>x. bindA (f x) g)"
  by (auto simp: bindA_def fun_eq_iff split: prod.split sum.split)

lemma triple_return: "(\<And>s. P s \<Longrightarrow> Q x s) \<Longrightarrow> triple P (returnA x) Q F"
  by (simp add: triple_def returnA_def)

lemma triple_fail: "(\<And>s. P s \<Longrightarrow> F s) \<Longrightarrow> triple P (failA e) Q F"
  by (simp add: triple_def failA_def)

lemma triple_lift: "(\<And>s x. P s \<Longrightarrow> f s = Inr x \<Longrightarrow> Q x s) \<Longrightarrow> (\<And>s. P s \<Longrightarrow> F s) \<Longrightarrow> triple P (\<lambda>s. liftA (f s) s) Q F"
  by (auto simp: triple_def liftA_def split: sum.splits)

text \<open>
  What a session keeps, as an interface: \<open>J\<close> holds before a turn, \<open>I\<close> between the calls
  that leave the runtime, \<open>M\<close> and \<open>T\<close> when a model call or a tool call has been paid for and
  not yet made, \<open>F\<close> when the session has failed.
\<close>

locale session_rules =
  fixes w :: world and svc :: agent_Service
    and J I M T F :: "session \<Rightarrow> bool"
  assumes tick: "J s \<Longrightarrow> J (s\<lparr>ss_tick := n\<rparr>)" "I s \<Longrightarrow> I (s\<lparr>ss_tick := n\<rparr>)"
      "M s \<Longrightarrow> M (s\<lparr>ss_tick := n\<rparr>)" "T s \<Longrightarrow> T (s\<lparr>ss_tick := n\<rparr>)"
    and audit: "I s \<Longrightarrow> I (s\<lparr>ss_tick := n, ss_audit := ss_audit s @ [e\<lparr>ad_Metadata := redactMetadata (ad_Metadata e)\<rparr>]\<rparr>)"
      "M s \<Longrightarrow> M (s\<lparr>ss_tick := n, ss_audit := ss_audit s @ [e\<lparr>ad_Metadata := redactMetadata (ad_Metadata e)\<rparr>]\<rparr>)"
    and weaken: "J s \<Longrightarrow> F s" "I s \<Longrightarrow> F s" "M s \<Longrightarrow> I s" "T s \<Longrightarrow> I s"
    and model_paid: "J s \<or> I s \<Longrightarrow> UseModelTurn (ss_budget s) = Inr b \<Longrightarrow> M (s\<lparr>ss_budget := b\<rparr>)"
    and tool_paid: "I s \<Longrightarrow> UseToolCall (ss_budget s) = Inr b \<Longrightarrow> T (s\<lparr>ss_budget := b\<rparr>)"
    and model_called: "M s \<Longrightarrow> mq_Limits r = budget_ModelLimits (ss_budget s) \<Longrightarrow>
      mq_ToolResults r = mq_ToolResults (ss_request s) \<Longrightarrow>
      I (s\<lparr>ss_request := r, ss_calls := ss_calls s @ [ModelCalled r], ss_tick := n\<rparr>)"
    and tool_called: "T s \<Longrightarrow> authorized_tool (sv_tools svc) name (sv_permissions svc) = Inr t \<Longrightarrow>
      I (s\<lparr>ss_calls := ss_calls s @ [ToolInvoked name arguments], ss_tick := n\<rparr>)"
    and result_kept: "I s \<Longrightarrow> CheckResponseSize (ss_budget s) (int (length (to_Content answer))) = Inr () \<Longrightarrow>
      I (s\<lparr>ss_request := (ss_request s)\<lparr>mq_ToolResults := mq_ToolResults (ss_request s) @ [answer]\<rparr>, ss_records := rs\<rparr>)"
    and exchange_kept: "I s \<Longrightarrow> I (s\<lparr>ss_request := (ss_request s)\<lparr>mq_ToolHistory := h\<rparr>\<rparr>)"
begin

lemma observe_I [triple_rules]: "triple I (observe f) (\<lambda>_. I) F"
  by (simp add: triple_def observe_def tick)

lemma check_J: "triple J (check_ctx w) (\<lambda>_. J) F"
  by (auto simp: triple_def check_ctx_def bindA_def observe_def returnA_def failA_def tick weaken)

lemma check_I [triple_rules]: "triple I (check_ctx w) (\<lambda>_. I) F"
  by (auto simp: triple_def check_ctx_def bindA_def observe_def returnA_def failA_def tick weaken)

lemma check_M [triple_rules]: "triple M (check_ctx w) (\<lambda>_. M) F"
  by (auto simp: triple_def check_ctx_def bindA_def observe_def returnA_def failA_def tick intro!: weaken(2,3))

lemma mapped_I [triple_rules]: "triple I (fail_mapped w e) Q F"
  by (auto simp: triple_def fail_mapped_def bindA_def observe_def failA_def tick intro: weaken)

lemma fail_I [triple_rules]: "triple I (failA e) Q F"
  by (auto simp: triple_def failA_def intro: weaken)

lemma return_I [triple_rules]: "triple I (returnA x) (\<lambda>_. I) F"
  by (simp add: triple_def returnA_def)

lemma lift_I [triple_rules]: "triple I (\<lambda>s. liftA (f s) s) (\<lambda>_. I) F"
  by (rule triple_lift) (auto intro: weaken)

lemma lift_const_I [triple_rules]: "triple I (liftA r) (\<lambda>_. I) F"
  using lift_I [of "\<lambda>_. r"] by simp

lemma record_I [triple_rules]: "triple I (record_mapped w event) (\<lambda>_. I) F"
  by (auto simp: triple_def record_mapped_def agent_record_def Let_def fail_mapped_def bindA_def observe_def failA_def
      tick audit intro: weaken)

lemma record_M [triple_rules]: "triple M (record_mapped w event) (\<lambda>_. M) F"
  by (auto simp: triple_def record_mapped_def agent_record_def Let_def fail_mapped_def bindA_def observe_def failA_def
      tick audit intro!: weaken(2,3))

lemma try_I [triple_rules]: "triple I (try_record w event) (\<lambda>_. I) F"
  by (auto simp: triple_def try_record_def agent_record_def Let_def tick audit)

lemma pay_model: "P = J \<or> P = I \<Longrightarrow> triple P (spend UseModelTurn) (\<lambda>_. M) F"
  using model_paid weaken by (fastforce simp: triple_def spend_def split: sum.splits)

lemma pay_tool [triple_rules]: "triple I (spend UseToolCall) (\<lambda>_. T) F"
  using tool_paid weaken by (fastforce simp: triple_def spend_def split: sum.splits)

lemma call_model_M [triple_rules]: "triple M (call_model w) (\<lambda>_. I) F"
  by (auto simp: triple_def call_model_def Let_def intro!: model_called)

lemma invoke_T [triple_rules]: "triple T (invoke_tool svc call) (\<lambda>_. I) F"
  by (auto simp: triple_def invoke_tool_def intro: tool_called weaken split: sum.splits)

lemma exchange_I [triple_rules]: "triple I (keep_exchange e) (\<lambda>_. I) F"
  by (simp add: triple_def keep_exchange_def exchange_kept)

lemma keep_checked [triple_rules]:
  "triple I (bindA (\<lambda>s. liftA (CheckResponseSize (ss_budget s) (int (length (to_Content r)))) s) (\<lambda>_. keep_result r)) (\<lambda>_. I) F"
  by (auto simp: triple_def bindA_def liftA_def keep_result_def intro: result_kept weaken split: sum.splits)

lemma ask_model_ok: "triple J (ask_model w) (\<lambda>_. I) F" "triple I (ask_model w) (\<lambda>_. I) F"
proof -
  have retry: "triple I (bindA (spend UseModelTurn) (\<lambda>_. bindA (record_mapped w event) (\<lambda>_. bindA (check_ctx w) (\<lambda>_.
      bindA (call_model w) (\<lambda>answer. case answer of Inr response \<Rightarrow> returnA response | Inl err \<Rightarrow> fail_mapped w err))))) (\<lambda>_. I) F" for event
    by (rule triple_bind [OF pay_model], simp) (auto intro!: triple_rules split: sum.split)
  have answered: "triple M (bindA (call_model w) (\<lambda>answer. case answer of Inr response \<Rightarrow> returnA response | Inl err \<Rightarrow>
      (case errors_As err of Some e \<Rightarrow> if ae_Temporary e then
          bindA (spend UseModelTurn) (\<lambda>_. bindA (record_mapped w (audit_event ''model.retry'' '''' (code_str (ae_Code e)) [])) (\<lambda>_.
          bindA (check_ctx w) (\<lambda>_. bindA (call_model w) (\<lambda>answer.
          case answer of Inr response \<Rightarrow> returnA response | Inl err \<Rightarrow> fail_mapped w err))))
        else fail_mapped w err | None \<Rightarrow> fail_mapped w err))) (\<lambda>_. I) F"
    by (rule triple_bind [OF call_model_M]) (auto intro: mapped_I return_I retry split: sum.split option.split)
  show "triple J (ask_model w) (\<lambda>_. I) F" "triple I (ask_model w) (\<lambda>_. I) F"
    unfolding ask_model_def
    by (rule triple_bind [OF check_J] triple_bind [OF check_I], rule triple_bind [OF pay_model], simp, rule answered)+
qed

lemma run_call_ok: "triple I (run_call w svc call) (\<lambda>_. I) F"
proof -
  have kept: "triple I (bindA (\<lambda>s. liftA (CheckResponseSize (ss_budget s) (int (length (to_Content answer)))) s) (\<lambda>_.
      bindA (keep_result answer) (\<lambda>_. bindA (record_mapped w event) (\<lambda>_. returnA answer)))) (\<lambda>_. I) F" for answer event
    using triple_bind [OF keep_checked [of answer], of "\<lambda>_. bindA (record_mapped w event) (\<lambda>_. returnA answer)" "\<lambda>_. I"]
    by (auto simp: bindA_assoc intro: triple_rules)
  have denied: "triple I (bindA (observe (aw_ctx w)) (\<lambda>ctx. bindA (try_record w (event ctx)) (\<lambda>_. failA (err ctx)))) Q F" for event err Q
    by (rule triple_rules)+
  have settled: "triple I (case answer of Inl err \<Rightarrow> bindA (observe (aw_ctx w)) (\<lambda>ctx. bindA (try_record w (event err ctx)) (\<lambda>_. failA (err' err ctx)))
      | Inr content \<Rightarrow> bindA (\<lambda>s. liftA (CheckResponseSize (ss_budget s) (int (length content))) s) (\<lambda>_.
          bindA (keep_result \<lparr>to_CallID = c, to_Name = n, to_Content = content\<rparr>) (\<lambda>_. bindA (record_mapped w event') (\<lambda>_.
          returnA \<lparr>to_CallID = c, to_Name = n, to_Content = content\<rparr>)))) (\<lambda>_. I) F" for answer event event' err' c n
    using kept [of "\<lparr>to_CallID = c, to_Name = n, to_Content = projr answer\<rparr>" event'] denied by (cases answer) simp_all
  show ?thesis
    unfolding run_call_def Let_def by (rule settled triple_rules)+
qed

lemma run_calls_ok: "triple I (run_calls w svc calls) (\<lambda>_. I) F"
proof (induction calls)
  case (Cons call calls)
  then show ?case by (auto intro!: triple_rules run_call_ok)
qed (simp add: return_I)

lemma accept_ok: "triple I (accept_draft w goal response) (\<lambda>_. I) F"
proof -
  have state: "triple I (\<lambda>s. (Inr (f s), s)) (\<lambda>_. I) F" for f :: "session \<Rightarrow> WorkflowDraft"
    using lift_I [of "\<lambda>s. Inr (f s)"] by (simp add: liftA_def)
  have rec: "triple I (\<lambda>s. record_mapped w (event s) s) (\<lambda>_. I) F" for event
    using record_I by (simp add: triple_def)
  show ?thesis
    unfolding accept_draft_def
    by (auto intro!: triple_rules state rec split: option.split sum.split)
qed

lemma turn_ok: "triple J (generate_turn w svc goal) (\<lambda>_. I) F" "triple I (generate_turn w svc goal) (\<lambda>_. I) F"
proof -
  have rest: "triple I (bindA (check_ctx w) (\<lambda>_.
     bindA (\<lambda>s. liftA (CheckResponseSize (ss_budget s) (responseSize response)) s) (\<lambda>_.
     bindA (record_mapped w (audit_event ''model.completed'' '''' ''success'' [(''model'', AScalar (GString (mp_Model response)))])) (\<lambda>_.
     if mp_ToolCalls response \<noteq> [] then
       bindA (liftA (validateToolCalls (mp_ToolCalls response))) (\<lambda>_.
       bindA (run_calls w svc (mp_ToolCalls response)) (\<lambda>results.
       bindA (keep_exchange \<lparr>te_Calls = mp_ToolCalls response, te_Results = results\<rparr>) (\<lambda>_.
       returnA None)))
     else bindA (accept_draft w goal response) (\<lambda>draft. returnA (Some draft)))))) (\<lambda>_. I) F" for response
    by (auto intro!: triple_rules run_calls_ok accept_ok)
  show "triple J (generate_turn w svc goal) (\<lambda>_. I) F" "triple I (generate_turn w svc goal) (\<lambda>_. I) F"
    unfolding generate_turn_def by (rule triple_bind [OF ask_model_ok(1)] triple_bind [OF ask_model_ok(2)], rule rest)+
qed

end

section \<open>The loop\<close>

text \<open>Every round that does not end the session has paid for at least one more turn.\<close>

definition paid_since :: "Limits \<Rightarrow> int \<Rightarrow> session \<Rightarrow> bool" where
  "paid_since L t s \<longleftrightarrow> bu_limits (ss_budget s) = L \<and> t < bu_modelTurns (ss_budget s) \<and> bu_modelTurns (ss_budget s) \<le> li_MaxModelTurns L"

interpretation paid: session_rules w svc "\<lambda>s. bu_limits (ss_budget s) = L \<and> bu_modelTurns (ss_budget s) = t"
    "paid_since L t" "paid_since L t" "paid_since L t" "\<lambda>_. True" for w svc L t
  by unfold_locales (auto simp: paid_since_def UseModelTurn_def UseToolCall_def split: if_splits)

lemma turn_pays:
  assumes "generate_turn w svc goal s = (Inr x, s')"
  shows "paid_since (bu_limits (ss_budget s)) (bu_modelTurns (ss_budget s)) s'"
  using paid.turn_ok(1) [of "bu_limits (ss_budget s)" "bu_modelTurns (ss_budget s)" w svc goal] assms
  unfolding triple_def by (auto dest!: spec [of _ s])

function generate_loop :: "world \<Rightarrow> agent_Service \<Rightarrow> string \<Rightarrow> WorkflowDraft agent" where
  "generate_loop w svc goal s =
     (case generate_turn w svc goal s of
        (Inl e, s') \<Rightarrow> (Inl e, s')
      | (Inr (Some draft), s') \<Rightarrow> (Inr draft, s')
      | (Inr None, s') \<Rightarrow> generate_loop w svc goal s')"
  by pat_completeness auto
termination
proof (relation "measure (\<lambda>(w, svc, goal, s). nat (li_MaxModelTurns (bu_limits (ss_budget s)) - bu_modelTurns (ss_budget s)))", goal_cases)
  case (2 w svc goal s x s')
  then show ?case using turn_pays [of w svc goal s None s'] by (auto simp: paid_since_def)
qed simp

declare generate_loop.simps [simp del]

text \<open>\<^verbatim>\<open>GenerateDraft\<close>; a failure is recorded by the deferred function whatever its audit says.
  The parent context is checked before the session's own context is made.\<close>

definition new_session :: "agent_Service \<Rightarrow> string \<Rightarrow> session" where
  "new_session svc goal = \<lparr>ss_budget = NewBudget (sv_limits svc),
     ss_request = \<lparr>mq_Goal = goal, mq_Tools = Summaries (sv_tools svc), mq_ToolResults = [], mq_ToolHistory = [],
                   mq_Limits = \<lparr>ml_MaxResponseBytes = 0, ml_RemainingModelTurns = 0, ml_RemainingToolCalls = 0\<rparr>\<rparr>,
     ss_records = [], ss_audit = [], ss_calls = [], ss_tick = 0\<rparr>"

definition generate_body :: "world \<Rightarrow> agent_Service \<Rightarrow> ctx_error option \<Rightarrow> string \<Rightarrow> WorkflowDraft agent" where
  "generate_body w svc parent goal =
     (if parent \<noteq> None then failA canceledError
      else if goal = '''' then failA (agent_error CodeDraftInvalid ''goal is required'')
      else bindA (record_mapped w (audit_event ''draft.generation_started'' '''' '''' [])) (\<lambda>_. generate_loop w svc goal))"

definition GenerateDraft :: "world \<Rightarrow> agent_Service \<Rightarrow> ctx_error option \<Rightarrow> string \<Rightarrow> (aerr + WorkflowDraft) \<times> session" where
  "GenerateDraft w svc parent goal =
     (case generate_body w svc parent goal (new_session svc goal) of
        (Inr draft, s) \<Rightarrow> (Inr draft, s)
      | (Inl err, s) \<Rightarrow>
          (Inl err, snd (try_record w (audit_event ''draft.generation_failed'' '''' (code_str (CodeOf err))
             [(''model_turns'', AScalar (GNumber (Some (int_str (bu_modelTurns (ss_budget s)))))),
              (''tool_calls'', AScalar (GNumber (Some (int_str (bu_toolCalls (ss_budget s))))))]) s)))"

section \<open>Validation and confirmation\<close>

definition validationResult :: "ValidationReport \<Rightarrow> string" where
  "validationResult report = (if items (vr_Errors report) \<noteq> [] then ''invalid'' else ''valid'')"

text \<open>\<open>ctx\<close> is the state of the caller's context when \<^verbatim>\<open>Validate\<close> looks at it; the state
  passed along is only used for the audit.\<close>

definition ValidateDraft :: "world \<Rightarrow> agent_Service \<Rightarrow> ctx_error option \<Rightarrow> WorkflowDraft \<Rightarrow> WorkflowDraft agent" where
  "ValidateDraft w svc ctx draft =
     bindA (liftA (Validate (sv_validator svc) ctx draft)) (\<lambda>report.
     bindA (liftA (TransitionDraft (Some (draft\<lparr>wf_Validation := report\<rparr>)) DraftValidated)) (\<lambda>draft.
     bindA (liftA (if items (vr_Errors report) = [] then TransitionDraft (Some draft) DraftNeedsConfirmation else Inr draft)) (\<lambda>draft.
     case ComputeDraftHash (aw_sha w) draft of
       Inl err \<Rightarrow> failA (agent_error CodeDraftInvalid ''validated draft cannot be hashed'')
     | Inr hash \<Rightarrow>
         bindA (agent_record w (audit_event ''draft.validated'' (wf_DraftID draft) (validationResult report) [(''content_hash'', AScalar (GString hash))]))
           (\<lambda>_. returnA (draft\<lparr>wf_ContentHash := hash\<rparr>)))))"

definition ConfirmDraft ::
  "world \<Rightarrow> agent_Service \<Rightarrow> ctx_error option \<Rightarrow> WorkflowDraft \<Rightarrow> string \<Rightarrow> WorkflowDefinition agent" where
  "ConfirmDraft w svc ctx draft expectedHash =
     (if wf_Status draft \<noteq> DraftNeedsConfirmation
        then failA (agent_error CodeApprovalRequired ''draft must be validated before confirmation'')
      else case ComputeDraftHash (aw_sha w) draft of
        Inl err \<Rightarrow> failA (agent_error CodeDraftInvalid ''draft cannot be hashed'')
      | Inr currentHash \<Rightarrow>
          if expectedHash = '''' \<or> expectedHash \<noteq> wf_ContentHash draft \<or> expectedHash \<noteq> currentHash
            then failA (agent_error CodeDraftChanged ''draft content changed after review'')
          else if list_ex (\<lambda>q. \<not> qu_Resolved q) (items (wf_Questions draft))
            then failA (agent_error CodeApprovalRequired ''draft contains unresolved questions'')
          else
            bindA (liftA (Validate (sv_validator svc) ctx draft)) (\<lambda>report.
            if items (vr_Errors report) \<noteq> [] then failA (agent_error CodeDraftInvalid ''draft no longer passes validation'')
            else case Compile (wf_Definition draft) of
              Inl err \<Rightarrow> failA (agent_error CodeDraftInvalid ''confirmed definition cannot be compiled'')
            | Inr compiled \<Rightarrow>
                bindA (liftA (TransitionDraft (Some draft) DraftConfirmed)) (\<lambda>draft.
                bindA (agent_record w (audit_event ''draft.confirmed'' (wf_DraftID draft) ''success'' [(''content_hash'', AScalar (GString expectedHash))])) (\<lambda>_.
                (case Definition (Some compiled) of Inl err \<Rightarrow> failA (OtherError None) | Inr def \<Rightarrow> returnA def)))))"

section \<open>What a session keeps\<close>

text \<open>No value stands under a sensitive key.\<close>

primrec value_redacted :: "audit_value \<Rightarrow> bool" where
  "value_redacted (AMap es) = list_all (\<lambda>(key, v, ok). sensitive_key key \<and> v = AScalar (GString redactedValue) \<or> \<not> sensitive_key key \<and> ok)
     (map (\<lambda>(e, e'). (fst e, snd e, snd e')) (zip es (map (map_prod id value_redacted) es)))"
| "value_redacted (AStrings es) = list_all (\<lambda>(key, item). sensitive_key key \<longrightarrow> item = redactedValue) es"
| "value_redacted (AList vs) = list_all id (map value_redacted vs)"
| "value_redacted (AScalar v) = True"

definition metadata_redacted :: "(string \<times> audit_value) list \<Rightarrow> bool" where
  "metadata_redacted metadata \<longleftrightarrow>
     (\<forall>(key, v) \<in> set metadata. if sensitive_key key then v = AScalar (GString redactedValue) else value_redacted v)"

lemma value_redacted_AMap: "value_redacted (AMap es) \<longleftrightarrow> metadata_redacted es"
proof -
  have "set (zip es (map f es)) = (\<lambda>e. (e, f e)) ` set es" for f :: "string \<times> audit_value \<Rightarrow> string \<times> bool"
    by (induction es) auto
  then show ?thesis by (auto simp: metadata_redacted_def list_all_iff)
qed

lemma redactAuditValue_redacts: "value_redacted (redactAuditValue v)"
proof (induction v)
  case (AMap es)
  then show ?case unfolding redactAuditValue.simps value_redacted_AMap by (fastforce simp: metadata_redacted_def)
qed (auto simp: list_all_iff)

lemma redactMetadata_redacts: "metadata_redacted (redactMetadata metadata)"
  by (auto simp: metadata_redacted_def redactMetadata_def redactAuditValue_redacts)

definition model_calls :: "session \<Rightarrow> ModelRequest list" where
  "model_calls s = concat (map (\<lambda>c. case c of ModelCalled r \<Rightarrow> [r] | _ \<Rightarrow> []) (ss_calls s))"

definition tool_invocations :: "session \<Rightarrow> (string \<times> string) list" where
  "tool_invocations s = concat (map (\<lambda>c. case c of ToolInvoked name arguments \<Rightarrow> [(name, arguments)] | _ \<Rightarrow> []) (ss_calls s))"

definition session_ok :: "agent_Service \<Rightarrow> session \<Rightarrow> bool" where
  "session_ok svc s \<longleftrightarrow> bu_limits (ss_budget s) = sv_limits svc \<and>
     int (length (model_calls s)) \<le> bu_modelTurns (ss_budget s) \<and> bu_modelTurns (ss_budget s) \<le> li_MaxModelTurns (sv_limits svc) \<and>
     int (length (tool_invocations s)) \<le> bu_toolCalls (ss_budget s) \<and> bu_toolCalls (ss_budget s) \<le> li_MaxToolCalls (sv_limits svc) \<and>
     (\<forall>(name, arguments) \<in> set (tool_invocations s). \<exists>t. authorized_tool (sv_tools svc) name (sv_permissions svc) = Inr t) \<and>
     (\<forall>r \<in> set (model_calls s). 0 \<le> ml_RemainingModelTurns (mq_Limits r) \<and> 0 \<le> ml_RemainingToolCalls (mq_Limits r) \<and>
        (\<forall>a \<in> set (mq_ToolResults r). int (length (to_Content a)) \<le> li_MaxResponseBytes (sv_limits svc))) \<and>
     (\<forall>a \<in> set (mq_ToolResults (ss_request s)). int (length (to_Content a)) \<le> li_MaxResponseBytes (sv_limits svc)) \<and>
     (\<forall>e \<in> set (ss_audit s). metadata_redacted (ad_Metadata e))"

interpretation kept: session_rules w svc "session_ok svc" "session_ok svc"
    "\<lambda>s. session_ok svc s \<and> int (length (model_calls s)) < bu_modelTurns (ss_budget s)"
    "\<lambda>s. session_ok svc s \<and> int (length (tool_invocations s)) < bu_toolCalls (ss_budget s)" "session_ok svc" for w svc
proof unfold_locales
  fix svc s n and r :: ModelRequest
  assume "session_ok svc s \<and> int (length (model_calls s)) < bu_modelTurns (ss_budget s)"
    "mq_Limits r = budget_ModelLimits (ss_budget s)" "mq_ToolResults r = mq_ToolResults (ss_request s)"
  then show "session_ok svc (s\<lparr>ss_request := r, ss_calls := ss_calls s @ [ModelCalled r], ss_tick := n\<rparr>)"
    by (auto simp: session_ok_def model_calls_def tool_invocations_def budget_ModelLimits_def)
qed (auto simp: session_ok_def model_calls_def tool_invocations_def UseModelTurn_def UseToolCall_def CheckResponseSize_def
       redactMetadata_redacts split: if_splits)

lemma loop_ok: "session_ok svc s \<Longrightarrow> session_ok svc (snd (generate_loop w svc goal s))"
proof (induction w svc goal s rule: generate_loop.induct)
  case (1 w svc goal s)
  obtain r s' where turn: "generate_turn w svc goal s = (r, s')" by (cases "generate_turn w svc goal s")
  have "session_ok svc s'"
    using kept.turn_ok(1) [of svc w goal] 1(2) turn unfolding triple_def by (auto dest!: spec [of _ s] split: sum.splits)
  with 1(1) turn show ?case
    by (subst generate_loop.simps) (auto split: sum.split option.split)
qed

lemma generate_ok:
  assumes "0 \<le> li_MaxModelTurns (sv_limits svc)" and "0 \<le> li_MaxToolCalls (sv_limits svc)"
  shows "session_ok svc (snd (GenerateDraft w svc parent goal))"
proof -
  have new: "session_ok svc (new_session svc goal)"
    using assms by (simp add: session_ok_def new_session_def NewBudget_def model_calls_def tool_invocations_def)
  have start: "session_ok svc (snd (record_mapped w event s))" if "session_ok svc s" for event s
    using kept.record_I [of svc w event] that unfolding triple_def by (cases "record_mapped w event s"; cases "try_record w event s") (auto dest!: spec [of _ s] split: sum.splits)
  have stop: "session_ok svc (snd (try_record w event s))" if "session_ok svc s" for event s
    using kept.try_I [of svc w event] that unfolding triple_def by (cases "record_mapped w event s"; cases "try_record w event s") (auto dest!: spec [of _ s] split: sum.splits)
  obtain r s1 where first: "record_mapped w (audit_event ''draft.generation_started'' '''' '''' []) (new_session svc goal) = (r, s1)"
    by (cases "record_mapped w (audit_event ''draft.generation_started'' '''' '''' []) (new_session svc goal)")
  then have "session_ok svc s1" using start [OF new, of "audit_event ''draft.generation_started'' '''' '''' []"] by simp
  then have "session_ok svc (snd (generate_body w svc parent goal (new_session svc goal)))"
    using new first loop_ok by (auto simp: generate_body_def failA_def bindA_def split: sum.split)
  with stop show ?thesis by (auto simp: GenerateDraft_def split: prod.split sum.split)
qed

text \<open>The draft of a session that succeeds.\<close>

definition fresh_draft :: "world \<Rightarrow> string \<Rightarrow> WorkflowDraft \<Rightarrow> bool" where
  "fresh_draft w goal draft \<longleftrightarrow> wf_Goal draft = goal \<and> wf_Status draft = DraftGenerated \<and> wf_ConfirmedAt draft = None \<and>
     wf_Validation draft = \<lparr>vr_Errors = Some [], vr_Warnings = Some []\<rparr> \<and>
     wd_ID (wf_Definition draft) \<noteq> '''' \<and> wd_Tasks (wf_Definition draft) \<noteq> [] \<and>
     ComputeDraftHash (aw_sha w) draft = Inr (wf_ContentHash draft)"

lemma bindA_Inr: "bindA m f s = (Inr y, s'') \<longleftrightarrow> (\<exists>x s'. m s = (Inr x, s') \<and> f x s' = (Inr y, s''))"
  by (auto simp: bindA_def split: prod.splits sum.splits)

lemma hash_ignores [simp]: "reviewed_json (draft\<lparr>wf_ContentHash := h\<rparr>) = reviewed_json draft"
  by (simp add: reviewed_json_def)

lemma accept_fresh:
  assumes "accept_draft w goal response s = (Inr draft, s')"
  shows "fresh_draft w goal draft"
proof -
  obtain d where d: "decodeDraft (aw_decode w) (mp_DraftJSON response) = Inr d"
    and rest: "(case newDraftID (aw_random w) of None \<Rightarrow> failA (agent_error CodeInternal ''generate draft ID'')
        | Some draftID \<Rightarrow>
            bindA (observe (aw_now w)) (\<lambda>now.
            bindA (\<lambda>s. (Inr (d\<lparr>wf_Goal := goal, wf_ToolCalls := Some (ss_records s),
                     wf_Validation := \<lparr>vr_Errors = Some [], vr_Warnings = Some []\<rparr>, wf_ConfirmedAt := None,
                     wf_DraftID := draftID, wf_CreatedAt := now, wf_Status := DraftGenerated\<rparr>), s)) (\<lambda>draft.
            case ComputeDraftHash (aw_sha w) draft of
              Inl err \<Rightarrow> failA (agent_error CodeModelInvalidResponse ''draft cannot be hashed'')
            | Inr hash \<Rightarrow>
                bindA (\<lambda>s. record_mapped w (audit_event ''draft.generated'' draftID ''success''
                   [(''content_hash'', AScalar (GString hash)),
                    (''model_turns'', AScalar (GNumber (Some (int_str (bu_modelTurns (ss_budget s)))))),
                    (''tool_calls'', AScalar (GNumber (Some (int_str (bu_toolCalls (ss_budget s))))))]) s) (\<lambda>_.
                returnA (draft\<lparr>wf_ContentHash := hash\<rparr>))))) s = (Inr draft, s')"
    using assms by (auto simp: accept_draft_def bindA_Inr liftA_def failA_def split: if_splits)
  have "wd_ID (wf_Definition d) \<noteq> '''' \<and> wd_Tasks (wf_Definition d) \<noteq> []"
    using d by (auto simp: decodeDraft_def split: option.splits if_splits)
  with rest show ?thesis
    by (auto simp: bindA_Inr observe_def failA_def returnA_def fresh_draft_def ComputeDraftHash_def split: option.splits)
qed

lemma loop_fresh: "generate_loop w svc goal s = (Inr draft, s') \<Longrightarrow> fresh_draft w goal draft"
proof (induction w svc goal s rule: generate_loop.induct)
  case (1 w svc goal s)
  obtain r s1 where turn: "generate_turn w svc goal s = (r, s1)" by (cases "generate_turn w svc goal s")
  then consider "r = Inr (Some draft)" | "r = Inr None" "generate_loop w svc goal s1 = (Inr draft, s')"
    using 1(2) by (subst (asm) generate_loop.simps) (auto split: sum.splits option.splits)
  then show ?case
  proof cases
    case 1
    with turn obtain response s0 where "accept_draft w goal response s0 = (Inr draft, s1)"
      unfolding generate_turn_def by (auto simp: bindA_Inr returnA_def split: if_splits)
    then show ?thesis by (rule accept_fresh)
  next
    case 2
    then show ?thesis using "1.IH" turn by simp
  qed
qed

lemma generate_fresh:
  assumes "GenerateDraft w svc parent goal = (Inr draft, s)"
  shows "parent = None \<and> goal \<noteq> '''' \<and> fresh_draft w goal draft"
  using assms loop_fresh
  by (auto simp: GenerateDraft_def generate_body_def failA_def bindA_Inr split: prod.splits sum.splits if_splits)

section \<open>Validated and confirmed drafts\<close>

lemma compiled_definition:
  assumes "Compile def = Inr cw"
  shows "Definition (Some cw) = Inr (cw_definition cw)"
proof -
  obtain tasks0 where c: "list_all2 cloned (wd_Tasks def) tasks0" and a: "after_clone (def\<lparr>wd_Tasks := tasks0\<rparr>) = Inr cw"
    using assms by (auto simp: Compile_stages)
  let ?def = "def\<lparr>wd_Tasks := map normalize_task tasks0\<rparr>"
  have "second_pass ?def = Inr cw" "unique_keys (map normalize_task tasks0)" using a by (auto simp: after_clone_Inr comp_def)
  then have d: "cw_definition cw = ?def" using second_pass_Inr [of ?def cw] by auto
  have "cloned (normalize_task task') (normalize_task task')" if "cloned task task'" for task task'
    using cloned_self that by (fastforce simp: cloned_def normalize_task_def)
  then have "list_all2 cloned (map normalize_task tasks0) (map normalize_task tasks0)"
    using c by (auto simp: list_all2_conv_all_nth)
  then have "clone_tasks (map normalize_task tasks0) = Inr (map normalize_task tasks0)" by (simp add: clone_tasks_iff)
  then show ?thesis by (simp add: Definition_def d cloneDefinition_def)
qed

definition no_collision :: "(string \<Rightarrow> string) \<Rightarrow> WorkflowDraft \<Rightarrow> WorkflowDraft \<Rightarrow> bool" where
  "no_collision sha a b \<longleftrightarrow> (case (reviewed_json a, reviewed_json b) of
     (Some v, Some w) \<Rightarrow> sha v = sha w \<longrightarrow> v = w | _ \<Rightarrow> True)"

lemma record_Inr:
  assumes "agent_record w event s = (Inr u, s')"
  shows "ss_calls s' = ss_calls s \<and> ss_audit s' = ss_audit s @ [(event (aw_now w (ss_tick s)))\<lparr>ad_Metadata := redactMetadata (ad_Metadata (event (aw_now w (ss_tick s))))\<rparr>]"
  using assms by (auto simp: agent_record_def Let_def split: if_splits)

lemma ConfirmDraft_Inr:
  assumes "ConfirmDraft w svc ctx draft expectedHash s = (Inr def, s')"
  shows "wf_Status draft = DraftNeedsConfirmation \<and> ComputeDraftHash (aw_sha w) draft = Inr expectedHash \<and>
     wf_ContentHash draft = expectedHash \<and> (\<exists>report. Validate (sv_validator svc) ctx draft = Inr report \<and> items (vr_Errors report) = []) \<and>
     (\<exists>cw. Compile (wf_Definition draft) = Inr cw \<and> Definition (Some cw) = Inr def) \<and>
     agent_record w (audit_event ''draft.confirmed'' (wf_DraftID draft) ''success'' [(''content_hash'', AScalar (GString expectedHash))]) s = (Inr (), s')"
  using assms unfolding ConfirmDraft_def
  by (auto simp: bindA_Inr liftA_def failA_def returnA_def TransitionDraft_def split: if_splits sum.splits)

text \<open>A draft that was validated without errors is confirmed by its content hash, whenever the
  confirmation can be recorded.\<close>

lemma validated_confirms:
  assumes "ValidateDraft w svc ctx draft s = (Inr d, s')" and "items (vr_Errors (wf_Validation d)) = []"
    and "\<And>body. aw_sha w body \<noteq> ''''"
    and "\<And>n e. aw_audit w n e"
  shows "\<exists>def t. ConfirmDraft w svc None d (wf_ContentHash d) s' = (Inr def, t)"
proof -
  obtain report where v: "Validate (sv_validator svc) ctx draft = Inr report"
    and d: "wf_Validation d = report" "wf_Status d = (if items (vr_Errors report) = [] then DraftNeedsConfirmation else DraftValidated)"
      "wf_DraftID d = wf_DraftID draft" "wf_Goal d = wf_Goal draft" "wf_Definition d = wf_Definition draft"
      "wf_Questions d = wf_Questions draft" "wf_Assumptions d = wf_Assumptions draft"
      "ComputeDraftHash (aw_sha w) d = Inr (wf_ContentHash d)"
    using assms(1) unfolding ValidateDraft_def
    by (auto simp: bindA_Inr liftA_def failA_def returnA_def TransitionDraft_def ComputeDraftHash_def
        split: if_splits sum.splits option.splits)
  obtain v' c where vc: "sv_validator svc = Some v'" "dv_catalog v' = Some c" and none: "ctx = None"
    and errors: "draft_errors c (dv_permissions v') draft = []"
    using v assms(2) unfolding d(1) by (auto simp: Validate_def items_def split: option.splits if_splits)
  have again: "Validate (sv_validator svc) None d = Inr report"
    using v none d unfolding vc Validate_def by (simp add: draft_errors_def draft_warnings_def Let_def vc)
  have "list_all qu_Resolved (items (wf_Questions d))" and "\<exists>cw. Compile (wf_Definition d) = Inr cw"
    using errors d(5,6) set_indexed [of "items (wf_Questions draft)" qu_Resolved]
    by (auto simp: draft_errors_def Let_def list_all_iff filter_empty_conv split: sum.splits)
  then obtain cw where cw: "Compile (wf_Definition d) = Inr cw" and resolved: "\<not> list_ex (\<lambda>q. \<not> qu_Resolved q) (items (wf_Questions d))"
    by (auto simp: list_ex_iff list_all_iff)
  have "wf_ContentHash d \<noteq> ''''"
    using d(8) assms(3) by (auto simp: ComputeDraftHash_def hex_string_def Let_def split: option.splits)
  then show ?thesis
    using assms(2,4) d(1,2,8) again cw resolved compiled_definition [OF cw]
    by (auto simp: ConfirmDraft_def bindA_def liftA_def returnA_def TransitionDraft_def agent_record_def Let_def split: if_splits)
qed

section \<open>The catalog tool and the default service\<close>

text \<open>\<^verbatim>\<open>catalog.Tool\<close>: a query of the templates. The decoder gives the query and whether
  the text ends after the first value.\<close>

definition parameter_json :: "ParameterSpec \<Rightarrow> string" where
  "parameter_json p = json_object
     ([json_field ''type'' (json_quote (ps_Type p))]
      @ (if ps_Required p then [json_field ''required'' ''true''] else [])
      @ (if ps_Enum p = [] then [] else [json_field ''enum'' (json_array json_quote (Some (ps_Enum p)))]))"

definition template_json :: "TaskTemplate \<Rightarrow> string" where
  "template_json t = json_object
     ([json_field ''id'' (json_quote (tt_ID t)), json_field ''action'' (json_quote (tt_Action t)),
       json_field ''description'' (json_quote (tt_Description t))]
      @ (if tt_Parameters t = [] then []
         else [json_field ''parameters'' (json_object (map (\<lambda>(name, p). json_field name (parameter_json p)) (sort_key fst (tt_Parameters t))))])
      @ (if tt_RequiredPermission t = '''' then [] else [json_field ''required_permission'' (json_quote (tt_RequiredPermission t))])
      @ [json_field ''resources'' (json_object [json_field ''max_timeout_ms'' (int_str (tt_MaxTimeoutMillis t))]),
         json_field ''agent_allowed'' (json_bool (tt_AgentAllowed t))])"

definition catalog_Invoke ::
  "(string \<Rightarrow> (string \<times> bool) option) \<Rightarrow> ctx_error option \<Rightarrow> Catalog \<Rightarrow> string \<Rightarrow> aerr + string" where
  "catalog_Invoke decode ctx c raw =
     (if ctx \<noteq> None then Inl (agent_error CodeCanceled ''catalog query canceled'')
      else case decode raw of
        None \<Rightarrow> Inl (agent_error CodeToolInvalidInput ''catalog query must contain only query'')
      | Some (query, at_end) \<Rightarrow>
          if \<not> at_end then Inl (agent_error CodeToolInvalidInput ''catalog query contains trailing JSON'')
          else if length query > 1024 then Inl (agent_error CodeToolInvalidInput ''catalog query exceeds 1024 bytes'')
          else Inr (json_object [json_field ''items'' (json_array template_json (Some (catalog_Query c query)))]))"

definition query_schema :: string where
  "query_schema = json_object [json_field ''type'' (json_quote ''object''),
     json_field ''properties'' (json_object [json_field ''query'' (json_object
       [json_field ''type'' (json_quote ''string''), json_field ''maxLength'' ''1024''])]),
     json_field ''additionalProperties'' ''false'']"

definition NewTool :: "(string \<Rightarrow> (string \<times> bool) option) \<Rightarrow> (nat \<Rightarrow> ctx_error option) \<Rightarrow> Catalog \<Rightarrow> Tool" where
  "NewTool decode ctx c = \<lparr>tl_Name = ''workflow_catalog_query'',
     tl_Description = [CHR 0xE6, CHR 0x9F, CHR 0xA5, CHR 0xE8, CHR 0xAF, CHR 0xA2, CHR 0xE5, CHR 0x85, CHR 0x81,
          CHR 0xE8, CHR 0xAE, CHR 0xB8, CHR 0x20, CHR 0x41, CHR 0x67, CHR 0x65, CHR 0x6E, CHR 0x74,
          CHR 0x20, CHR 0xE4, CHR 0xBD, CHR 0xBF, CHR 0xE7, CHR 0x94, CHR 0xA8, CHR 0xE7, CHR 0x9A,
          CHR 0x84, CHR 0xE5, CHR 0xB7, CHR 0xA5, CHR 0xE4, CHR 0xBD, CHR 0x9C, CHR 0xE6, CHR 0xB5,
          CHR 0x81, CHR 0xE4, CHR 0xBB, CHR 0xBB, CHR 0xE5, CHR 0x8A, CHR 0xA1, CHR 0xE6, CHR 0xA8,
          CHR 0xA1, CHR 0xE6, CHR 0x9D, CHR 0xBF],
     tl_InputSchema = query_schema, tl_Invoke = (\<lambda>n. catalog_Invoke decode (ctx n) c)\<rparr>"

text \<open>\<^verbatim>\<open>agentapp.NewService\<close>; \<open>http\<close> is what the constructor of the HTTP model returns.\<close>

definition agentapp_NewService ::
  "(string \<Rightarrow> (string \<times> bool) option) \<Rightarrow> (nat \<Rightarrow> ctx_error option) \<Rightarrow> string + unit \<Rightarrow> string \<Rightarrow> string + agent_Service" where
  "agentapp_NewService decode ctx http modelName =
     bindR (catalog_New DefaultTemplates) (\<lambda>directory.
     bindR (NewToolRegistry [\<lparr>rt_Tool = Some (NewTool decode ctx directory), rt_RequiredPermission = ''catalog:read''\<rparr>]) (\<lambda>registry.
     bindR (if modelName = '''' \<or> modelName = ''mock'' then Inr () else if modelName = ''http'' then http
            else Inl ''unsupported model adapter %q'') (\<lambda>model.
     agent_NewService (Some model) (Some registry) (Some \<lparr>dv_catalog = Some directory, dv_permissions = [''document:read'']\<rparr>)
       (Some ()) DefaultLimits [''catalog:read''])))"

lemma default_service:
  "\<exists>svc. agentapp_NewService decode ctx http ''mock'' = Inr svc \<and>
     (\<exists>t. authorized_tool (sv_tools svc) ''workflow_catalog_query'' (sv_permissions svc) = Inr t) \<and> sv_limits svc = DefaultLimits"
proof -
  have "\<not> isl (catalog_New DefaultTemplates)" by (simp add: catalog_New_def add_template_def DefaultTemplates_def)
  then obtain c where "catalog_New DefaultTemplates = Inr c" by (cases "catalog_New DefaultTemplates") auto
  then show ?thesis
    by (simp add: agentapp_NewService_def NewToolRegistry_def register_tool_def NewTool_def agent_NewService_def DefaultLimits_def authorized_tool_def)
qed

section \<open>Properties\<close>

text \<open>The document workflow of the samples: one task with a template of the catalog.\<close>

definition agent_def :: WorkflowDefinition where
  "agent_def = \<lparr>wd_ID = ''doc'', wd_Concurrency = 1, wd_Tasks = [
     \<lparr>td_Key = ''clean'', td_Executor = ExecutorMock, td_Action = ''clean-document'', td_Input = Some (0, [(''mode'', GString ''strict'')]),
      td_DependsOn = [], td_Retry = \<lparr>rp_MaxAttempts = 1, rp_IntervalMillis = 0\<rparr>, td_TimeoutMillis = 1000\<rparr>]\<rparr>"

definition agent_draft :: WorkflowDraft where
  "agent_draft = \<lparr>wf_DraftID = ''draft_1'', wf_Goal = ''clean it'', wf_Definition = agent_def, wf_Facts = None, wf_Assumptions = None,
     wf_Questions = Some [\<lparr>qu_ID = ''q'', qu_Text = ''which mode'', qu_Answer = ''strict'', qu_Resolved = True\<rparr>],
     wf_Validation = \<lparr>vr_Errors = Some [], vr_Warnings = Some []\<rparr>, wf_ToolCalls = Some [],
     wf_Status = DraftNeedsConfirmation, wf_ContentHash = ''6f'', wf_CreatedAt = 5, wf_ConfirmedAt = None\<rparr>"

definition sample_tool :: Tool where
  "sample_tool = \<lparr>tl_Name = ''workflow_catalog_query'', tl_Description = ''query'', tl_InputSchema = ''{}'',
     tl_Invoke = (\<lambda>n arguments. Inr ''[]'')\<rparr>"

definition agent_registry :: ToolRegistry where
  "agent_registry = [(''workflow_catalog_query'', \<lparr>rt_Tool = Some sample_tool, rt_RequiredPermission = ''catalog:read''\<rparr>)]"

definition sample_template :: TaskTemplate where
  "sample_template = \<lparr>tt_ID = ''clean-document'', tt_Action = ''clean-document'', tt_Description = '''',
     tt_Parameters = [(''mode'', \<lparr>ps_Type = ''string'', ps_Required = False, ps_Enum = [''standard'', ''strict'']\<rparr>)],
     tt_RequiredPermission = '''', tt_MaxTimeoutMillis = 30000, tt_AgentAllowed = True\<rparr>"

definition sample_catalog :: Catalog where
  "sample_catalog = \<lparr>ct_templates = [(''clean-document'', sample_template)], ct_byAction = [(''clean-document'', ''clean-document'')]\<rparr>"

definition agent_svc :: agent_Service where
  "agent_svc = \<lparr>sv_tools = agent_registry, sv_validator = Some \<lparr>dv_catalog = Some sample_catalog, dv_permissions = [''document:read'']\<rparr>,
     sv_limits = DefaultLimits, sv_permissions = [''catalog:read'']\<rparr>"

text \<open>A model that asks the catalog first and then answers with the draft.\<close>

definition agent_world :: world where
  "agent_world = \<lparr>aw_ctx = (\<lambda>n. None), aw_tool_ctx = (\<lambda>n. None),
     aw_model = (\<lambda>n r. if mq_ToolHistory r = []
       then Inr \<lparr>mp_DraftJSON = '''', mp_ToolCalls = [\<lparr>mc_ID = ''1'', mc_Name = ''workflow_catalog_query'', mc_Arguments = ''{}''\<rparr>], mp_Model = ''m''\<rparr>
       else Inr \<lparr>mp_DraftJSON = ''draft'', mp_ToolCalls = [], mp_Model = ''m''\<rparr>),
     aw_audit = (\<lambda>n e. True), aw_now = int, aw_random = Some ''o'', aw_sha = (\<lambda>w. ''o''),
     aw_decode = (\<lambda>w. Some (agent_draft, True))\<rparr>"

lemma bindA_weak: "m = m' \<Longrightarrow> bindA m f s = bindA m' f s"
  by simp

lemmas run_simps = bindA_def returnA_def failA_def liftA_def observe_def spend_def Let_def

lemma agent_sample_confirms:
  "fst (ConfirmDraft agent_world agent_svc None agent_draft ''6f'' (new_session agent_svc ''clean it'')) = Inr agent_def"
proof -
  have "definition_json (wf_Definition agent_draft) \<noteq> None" "hex_string ''o'' = ''6f''" by code_simp+
  then have hash: "ComputeDraftHash (aw_sha agent_world) agent_draft = Inr ''6f''"
    by (auto simp: ComputeDraftHash_def reviewed_json_def agent_world_def)
  have valid: "Validate (sv_validator agent_svc) None agent_draft = Inr \<lparr>vr_Errors = Some [], vr_Warnings = Some []\<rparr>" by code_simp
  have draft: "wf_Status agent_draft = DraftNeedsConfirmation" "wf_ContentHash agent_draft = ''6f''"
    "\<not> list_ex (\<lambda>q. \<not> qu_Resolved q) (items (wf_Questions agent_draft))" "wf_Definition agent_draft = agent_def" by code_simp+
  have "\<not> isl (Compile agent_def)" by code_simp
  then obtain cw where cw: "Compile agent_def = Inr cw" by (cases "Compile agent_def") auto
  have "cw_definition (projr (Compile agent_def)) = agent_def" by code_simp
  then have "Definition (Some cw) = Inr agent_def" using compiled_definition [OF cw] cw by simp
  with hash valid draft cw show ?thesis
    by (simp add: ConfirmDraft_def run_simps TransitionDraft_def items_def agent_record_def agent_world_def)
qed

lemma agent_sample_generates:
  "\<not> isl (fst (GenerateDraft agent_world agent_svc None ''clean it''))"
  "length (model_calls (snd (GenerateDraft agent_world agent_svc None ''clean it''))) = 2"
  "map fst (tool_invocations (snd (GenerateDraft agent_world agent_svc None ''clean it''))) = [''workflow_catalog_query'']"
proof -
  have valid: "validateToolCalls [\<lparr>mc_ID = ''1'', mc_Name = ''workflow_catalog_query'', mc_Arguments = ''{}''\<rparr>] = Inr ()" by code_simp
  have fresh_id: "newDraftID (Some ''o'') = Some ''draft_6f''" by code_simp
  have decoded: "decodeDraft (\<lambda>w. Some (agent_draft, True)) x = Inr agent_draft" for x
    by (simp add: decodeDraft_def agent_draft_def agent_def_def)
  have "definition_json agent_def \<noteq> None" by code_simp
  then obtain body where body: "definition_json (wf_Definition agent_draft) = Some body" by (auto simp: agent_draft_def)
  note sample = GenerateDraft_def generate_body_def generate_loop.simps generate_turn_def ask_model_def check_ctx_def
    record_mapped_def agent_record_def new_session_def agent_svc_def DefaultLimits_def NewBudget_def UseModelTurn_def
    UseToolCall_def call_model_def run_call_def invoke_tool_def keep_result_def keep_exchange_def CheckResponseSize_def
    responseSize_def valid fresh_id decoded agent_world_def accept_draft_def authorized_tool_def agent_registry_def
    sample_tool_def ComputeDraftHash_def reviewed_json_def body run_simps model_calls_def tool_invocations_def
  have "case GenerateDraft agent_world agent_svc None ''clean it'' of (r, s) \<Rightarrow>
      \<not> isl r \<and> length (model_calls s) = 2 \<and> map fst (tool_invocations s) = [''workflow_catalog_query'']"
    by (simp add: sample cong: bindA_weak)
  then show "\<not> isl (fst (GenerateDraft agent_world agent_svc None ''clean it''))"
    "length (model_calls (snd (GenerateDraft agent_world agent_svc None ''clean it''))) = 2"
    "map fst (tool_invocations (snd (GenerateDraft agent_world agent_svc None ''clean it''))) = [''workflow_catalog_query'']"
    by (simp_all add: case_prod_beta)
qed

text \<open>
  C19. A confirmed draft is what was reviewed and is safe to run: when \<^verbatim>\<open>ConfirmDraft\<close> returns a
  definition, the draft had been validated, meets the specification of acceptable drafts (every
  task uses a template of the catalog that is open to the agent and permitted, within its timeout
  and with inputs it declares; the definition compiles; no question is open), its content hash
  is the one the user gave, and every draft with this hash, unless it collides, has the same reviewed
  content. The definition is the compiled one, compiling it again changes nothing, no model or
  tool was called, and the confirmation is in the audit log.
\<close>

theorem confirm_draft_safe:
  assumes "catalog_New templates = Inr c"
    and "sv_validator svc = Some \<lparr>dv_catalog = Some c, dv_permissions = permissions\<rparr>"
    and "ConfirmDraft w svc ctx draft expectedHash s = (Inr def, s')"
  shows "wf_Status draft = DraftNeedsConfirmation \<and> draft_acceptable templates permissions draft \<and>
    ComputeDraftHash (aw_sha w) draft = Inr expectedHash \<and>
    (\<forall>reviewed. ComputeDraftHash (aw_sha w) reviewed = Inr expectedHash \<longrightarrow> no_collision (aw_sha w) reviewed draft \<longrightarrow> same_review reviewed draft) \<and>
    (\<exists>cw. Compile (wf_Definition draft) = Inr cw \<and> def = cw_definition cw \<and> Compile def = Inr cw) \<and>
    ss_calls s' = ss_calls s \<and> map ad_Type (ss_audit s') = map ad_Type (ss_audit s) @ [''draft.confirmed'']"
proof -
  note confirmed = ConfirmDraft_Inr [OF assms(3)]
  then obtain report cw where report: "Validate (sv_validator svc) ctx draft = Inr report" "items (vr_Errors report) = []"
    and cw: "Compile (wf_Definition draft) = Inr cw" "Definition (Some cw) = Inr def"
    by blast
  have "draft_acceptable templates permissions draft"
    using validate_empty [OF assms(1), of "\<lparr>dv_catalog = Some c, dv_permissions = permissions\<rparr>" ctx draft report] report assms(2) by simp
  moreover have "same_review reviewed draft"
    if "ComputeDraftHash (aw_sha w) reviewed = Inr expectedHash" "no_collision (aw_sha w) reviewed draft" for reviewed
    by (rule same_hash_same_review [OF that(1)]) (use that(2) confirmed in \<open>auto simp: no_collision_def\<close>)
  moreover have "def = cw_definition cw" using compiled_definition [OF cw(1)] cw(2) by simp
  then have "Compile def = Inr cw" using compile_idempotent [OF cw(1)] by simp
  moreover have "ss_calls s' = ss_calls s \<and> map ad_Type (ss_audit s') = map ad_Type (ss_audit s) @ [''draft.confirmed'']"
    using record_Inr confirmed by (fastforce simp: audit_event_def)
  ultimately show ?thesis using confirmed cw(1) \<open>def = cw_definition cw\<close> by blast
qed

theorem confirm_draft_safe_witness:
  "fst (ConfirmDraft agent_world agent_svc None agent_draft ''6f'' (new_session agent_svc ''clean it'')) = Inr agent_def \<and>
   draft_acceptable [sample_template] [''document:read''] agent_draft \<and> Compile agent_def \<noteq> Inl ErrRunExists"
proof -
  have cat: "catalog_New [sample_template] = Inr sample_catalog" by code_simp
  have svc: "sv_validator agent_svc = Some \<lparr>dv_catalog = Some sample_catalog, dv_permissions = [''document:read'']\<rparr>"
    by (simp add: agent_svc_def)
  obtain s' where run: "ConfirmDraft agent_world agent_svc None agent_draft ''6f'' (new_session agent_svc ''clean it'') = (Inr agent_def, s')"
    using agent_sample_confirms by (metis prod.collapse)
  show ?thesis using confirm_draft_safe [OF cat svc run] run by auto
qed

text \<open>
  C20. A session keeps to its budget: whatever model, tools, sink and clock answer,
  \<^verbatim>\<open>GenerateDraft\<close> ends, with at most \<^verbatim>\<open>MaxModelTurns\<close> calls of the model (retries
  included) and at most \<^verbatim>\<open>MaxToolCalls\<close> calls of tools, all of them registered and
  permitted; no result passed to the model exceeds the response limit, and no audit event
  carries a value under a sensitive key. A draft it returns is for the given goal, is not validated or
  confirmed, names a definition with tasks and carries its content hash.
\<close>

theorem generate_bounded:
  assumes "agent_NewService model tools validator audit limits permissions = Inr svc"
    and "GenerateDraft w svc parent goal = (r, s)"
  shows "int (length (model_calls s)) \<le> li_MaxModelTurns limits \<and> int (length (tool_invocations s)) \<le> li_MaxToolCalls limits \<and>
    (\<forall>(name, arguments) \<in> set (tool_invocations s). \<exists>t. authorized_tool (sv_tools svc) name permissions = Inr t) \<and>
    (\<forall>q \<in> set (model_calls s). \<forall>a \<in> set (mq_ToolResults q). int (length (to_Content a)) \<le> li_MaxResponseBytes limits) \<and>
    (\<forall>e \<in> set (ss_audit s). metadata_redacted (ad_Metadata e)) \<and>
    (\<forall>draft. r = Inr draft \<longrightarrow> parent = None \<and> goal \<noteq> '''' \<and> fresh_draft w goal draft)"
proof -
  have svc: "sv_limits svc = limits" "sv_permissions svc = permissions" "0 < li_MaxModelTurns limits" "0 < li_MaxToolCalls limits"
    using assms(1) by (auto simp: agent_NewService_def split: if_splits)
  have "session_ok svc s" using generate_ok [of svc w parent goal] svc assms(2) by simp
  moreover have "r = Inr draft \<Longrightarrow> parent = None \<and> goal \<noteq> '''' \<and> fresh_draft w goal draft" for draft
    using generate_fresh [of w svc parent goal draft s] assms(2) by simp
  ultimately show ?thesis unfolding session_ok_def svc by (auto simp: svc)
qed

theorem generate_bounded_witness:
  "length (model_calls (snd (GenerateDraft agent_world agent_svc None ''clean it''))) = 2 \<and>
   map fst (tool_invocations (snd (GenerateDraft agent_world agent_svc None ''clean it''))) = [''workflow_catalog_query''] \<and>
   fresh_draft agent_world ''clean it'' (projr (fst (GenerateDraft agent_world agent_svc None ''clean it'')))"
proof -
  have svc: "agent_NewService (Some ()) (Some agent_registry) (sv_validator agent_svc) (Some ()) DefaultLimits [''catalog:read''] = Inr agent_svc"
    by (simp add: agent_NewService_def agent_svc_def DefaultLimits_def)
  obtain r s where run: "GenerateDraft agent_world agent_svc None ''clean it'' = (r, s)" by (cases "GenerateDraft agent_world agent_svc None ''clean it''")
  then obtain draft where "r = Inr draft" using agent_sample_generates(1) by (cases r) auto
  then show ?thesis using generate_bounded [OF svc run] run agent_sample_generates(2,3) by auto
qed

end
