(* ===== verification/Http_Api.thy ===== *)
theory Http_Api
  imports Worker_Api Agent Sample_Db
begin

text \<open>
  The HTTP API of the control plane (\<^verbatim>\<open>internal/httpapi/server.go\<close>, \<^verbatim>\<open>draft.go\<close>):
  readiness, authentication, the routes to the application services, to the agent and to the worker
  routes, and the mapping of errors to statuses. One request is a function of the state of the
  control plane. Shown here: every request is a number of steps of the platform's
  machine, and one that changes anything carries the credentials for it. Spans, metrics,
  logs and the encoding of the responses are left out.
\<close>

section \<open>Errors\<close>

datatype herror =
    HNotFound | HMethodNotAllowed | HForbidden | HBadRequest string | HInternal string | HService werror | HAgent aerr

definition mapAgentError :: "agent_Error \<Rightarrow> int \<times> string \<times> string" where
  "mapAgentError e =
     (let code = code_str (ae_Code e); message = (if ae_Message e = '''' then ''agent request failed'' else ae_Message e) in
      if ae_Code e \<in> {CodeDraftChanged, CodeApprovalRequired} then (409, code, message)
      else if ae_Code e \<in> {CodeModelUnavailable, CodeModelTimeout} then (503, code, message)
      else if ae_Code e \<in> {CodeModelInvalidResponse, CodeToolNotAllowed, CodeToolInvalidInput, CodeToolTimeout, CodeBudgetExceeded, CodeDraftInvalid}
        then (400, code, message)
      else if ae_Code e = CodeCanceled then (409, code, message)
      else (500, ''internal_error'', ''internal server error''))"

definition service_error :: "werror \<Rightarrow> int \<times> string \<times> string" where
  "service_error err =
     (case err of
        ErrDefinitionNotFound \<Rightarrow> (404, ''not_found'', ''resource not found'')
      | ErrWorkflowNotFound \<Rightarrow> (404, ''not_found'', ''resource not found'')
      | ErrRunNotFound \<Rightarrow> (404, ''not_found'', ''resource not found'')
      | ErrTaskNotFound \<Rightarrow> (404, ''not_found'', ''resource not found'')
      | ErrWorkflowExists \<Rightarrow> (409, ''workflow_exists'', ''workflow already exists'')
      | ErrIdempotencyConflict \<Rightarrow> (409, ''idempotency_conflict'', ''idempotency key conflicts with an earlier request'')
      | ErrWorkerSessionInvalid \<Rightarrow> (401, ''worker_session_invalid'', ''Worker session is invalid'')
      | ErrWorkerProtocolUnsupported \<Rightarrow> (400, ''worker_protocol_unsupported'', ''Worker protocol version is not supported'')
      | ErrWorkerDraining \<Rightarrow> (409, ''worker_draining'', ''Worker is draining'')
      | ErrWorkerCapacityExceeded \<Rightarrow> (409, ''worker_capacity_exceeded'', ''Worker capacity is exceeded'')
      | ErrLeaseLost \<Rightarrow> (409, ''lease_lost'', ''Worker lease is no longer current'')
      | ErrResultConflict \<Rightarrow> (409, ''result_conflict'', ''Worker lease result conflicts with an earlier result'')
      | ErrInvalidArgument message \<Rightarrow> (400, ''invalid_request'', message)
      | _ \<Rightarrow> (500, ''internal_error'', ''internal server error''))"

text \<open>A missing role is answered by the handler itself; its answer is listed with the others.\<close>

definition mappedError :: "herror \<Rightarrow> int \<times> string \<times> string" where
  "mappedError err =
     (case err of
        HNotFound \<Rightarrow> (404, ''not_found'', ''resource not found'')
      | HService e \<Rightarrow> service_error e
      | HAgent e \<Rightarrow> (case errors_As e of Some runtimeErr \<Rightarrow> mapAgentError runtimeErr
                     | None \<Rightarrow> (500, ''internal_error'', ''internal server error''))
      | HBadRequest message \<Rightarrow> (400, ''invalid_request'', message)
      | HMethodNotAllowed \<Rightarrow> (405, ''method_not_allowed'', ''method not allowed'')
      | HForbidden \<Rightarrow> (403, ''forbidden'', ''operator role required'')
      | HInternal _ \<Rightarrow> (500, ''internal_error'', ''internal server error''))"

section \<open>The environment of a request\<close>

datatype api_payload =
    HealthStatus string
  | MetricsText
  | WorkflowsPage "WorkflowSummary page"
  | WorkflowCreated DefinitionRecord
  | WorkflowFound WorkflowSummary
  | VersionsPage "VersionSummary page"
  | DefinitionFound WorkflowDefinition
  | RunStarted StartRunResponse
  | RunsPage "RunSummary page"
  | RunFound RunSummary
  | TasksPage "TaskSummary page"
  | TaskFound TaskRun
  | EventsPage "StateEvent page"
  | RunCancelled CancelRunResponse
  | DraftMade WorkflowDraft
  | WorkerAnswer worker_payload
  | ErrorBody string string

record http_env =
  he_worker :: worker_env
  he_numeric :: numeric
  he_newRunID :: "RunID res"
  he_clock :: time
  he_cancelClock :: time
  he_workflowCodec :: "workflowCursor codec"
  he_versionCodec :: "versionCursor codec"
  he_runCodec :: "runCursor codec"
  he_taskCodec :: "taskCursor codec"
  he_eventCodec :: "eventCursor codec"
  he_decodeGoal :: "string \<Rightarrow> string decoded"
  he_decodeDraft :: "string \<Rightarrow> WorkflowDraft decoded"
  he_decodeConfirm :: "string \<Rightarrow> (WorkflowDraft \<times> string) decoded"
  he_world :: world
  he_agent :: agent_Service
  he_viewerToken :: string
  he_operatorToken :: string
  he_maxBodyBytes :: int
  he_hasWorkflows :: bool
  he_hasRuns :: bool
  he_hasDrafts :: bool
  he_hasWorkers :: bool
  he_hasMetrics :: bool
  he_checksReady :: bool

type_synonym api_answer = "herror + int \<times> api_payload"

definition body_limit :: "http_env \<Rightarrow> int" where
  "body_limit env = (if he_maxBodyBytes env \<le> 0 then 2 ^ 20 else he_maxBodyBytes env)"

definition requiredHeader :: "string \<Rightarrow> string + string" where
  "requiredHeader header = (let v = TrimSpace header in if v = '''' then Inl ''%s header is required'' else Inr v)"

definition queryLimit :: "http_request \<Rightarrow> int" where
  "queryLimit r = (let w = hq_Query r ''limit'' in if w = '''' then 0 else case Atoi w of None \<Rightarrow> -1 | Some n \<Rightarrow> n)"

definition principal_of :: "Role \<Rightarrow> string" where
  "principal_of role = role_str role"

definition answered :: "(werror + 'a) \<Rightarrow> int \<Rightarrow> ('a \<Rightarrow> api_payload) \<Rightarrow> api_answer" where
  "answered r status payload = (case r of Inl e \<Rightarrow> Inl (HService e) | Inr x \<Rightarrow> Inr (status, payload x))"

text \<open>A body and an idempotency key, in the order the handlers read them.\<close>

definition body_and_key :: "http_env \<Rightarrow> (string \<Rightarrow> 'a decoded) \<Rightarrow> bool \<Rightarrow> http_request \<Rightarrow> herror + 'a option \<times> string" where
  "body_and_key env decode required r =
     (case decodeJSON decode (body_limit env) required (hq_Body r) of
        Inl e \<Rightarrow> Inl (HBadRequest e)
      | Inr x \<Rightarrow> (case requiredHeader (hq_IdempotencyKey r) of Inl e \<Rightarrow> Inl (HBadRequest e) | Inr key \<Rightarrow> Inr (x, key)))"

section \<open>Routes\<close>

subsection \<open>Drafts\<close>

definition dispatchDraft :: "http_env \<Rightarrow> http_request \<Rightarrow> Role \<Rightarrow> string list \<Rightarrow> api_answer" where
  "dispatchDraft env r role parts =
     (if length parts = 4 \<and> parts ! 3 = ''drafts'' then
        if hq_Method r \<noteq> ''POST'' then Inl HMethodNotAllowed
        else if role \<noteq> OperatorRole then Inl HForbidden
        else if \<not> he_hasDrafts env then Inl (HInternal ''draft service is unavailable'')
        else case decodeJSON (he_decodeGoal env) (body_limit env) True (hq_Body r) of
          Inl e \<Rightarrow> Inl (HBadRequest e)
        | Inr None \<Rightarrow> Inl (HBadRequest ''EOF'')
        | Inr (Some goal) \<Rightarrow>
            if TrimSpace goal = '''' then Inl (HBadRequest ''goal is required'')
            else (case fst (GenerateDraft (he_world env) (he_agent env) None goal) of
              Inl e \<Rightarrow> Inl (HAgent e) | Inr draft \<Rightarrow> Inr (201, DraftMade draft))
      else if length parts \<noteq> 6 \<or> parts ! 3 \<noteq> ''drafts'' \<or> parts ! 5 \<noteq> ''validate'' \<and> parts ! 5 \<noteq> ''confirm'' then Inl HNotFound
      else if hq_Method r \<noteq> ''POST'' then Inl HMethodNotAllowed
      else if role \<noteq> OperatorRole then Inl HForbidden
      else if \<not> he_hasDrafts env then Inl (HInternal ''draft service is unavailable'')
      else case PathUnescape (parts ! 4) of
        None \<Rightarrow> Inl (HBadRequest ''invalid draft ID'')
      | Some draftID \<Rightarrow>
          if TrimSpace draftID = '''' then Inl (HBadRequest ''invalid draft ID'')
          else if parts ! 5 = ''validate'' then
            (case decodeJSON (he_decodeDraft env) (body_limit env) True (hq_Body r) of
               Inl e \<Rightarrow> Inl (HBadRequest e)
             | Inr None \<Rightarrow> Inl (HBadRequest ''EOF'')
             | Inr (Some draft) \<Rightarrow>
                 if wf_DraftID draft \<noteq> draftID then Inl (HBadRequest ''draft ID does not match path'')
                 else (case fst (ValidateDraft (he_world env) (he_agent env) None draft (new_session (he_agent env) '''')) of
                   Inl e \<Rightarrow> Inl (HAgent e) | Inr validated \<Rightarrow> Inr (200, DraftMade validated)))
          else
            (case decodeJSON (he_decodeConfirm env) (body_limit env) True (hq_Body r) of
               Inl e \<Rightarrow> Inl (HBadRequest e)
             | Inr None \<Rightarrow> Inl (HBadRequest ''EOF'')
             | Inr (Some (draft, contentHash)) \<Rightarrow>
                 if wf_DraftID draft \<noteq> draftID then Inl (HBadRequest ''draft ID does not match path'')
                 else (case fst (ConfirmDraft (he_world env) (he_agent env) None draft contentHash (new_session (he_agent env) '''')) of
                   Inl e \<Rightarrow> Inl (HAgent e) | Inr def \<Rightarrow> Inr (200, DefinitionFound def))))"

subsection \<open>Workflows\<close>

definition post_workflow :: "http_env \<Rightarrow> http_request \<Rightarrow> Role \<Rightarrow> string option \<Rightarrow> control \<Rightarrow> api_answer \<times> control" where
  "post_workflow env r role workflowID s =
     (if hq_Method r \<noteq> ''POST'' then (Inl HMethodNotAllowed, s)
      else if role \<noteq> OperatorRole then (Inl HForbidden, s)
      else if \<not> he_hasWorkflows env then (Inl (HInternal ''workflow service is unavailable''), s)
      else case body_and_key env (dq_definition (we_decoders (he_worker env))) True r of
        Inl e \<Rightarrow> (Inl e, s)
      | Inr (None, key) \<Rightarrow> (Inl (HBadRequest ''EOF''), s)
      | Inr (Some def, key) \<Rightarrow>
          (case (case workflowID of
                   None \<Rightarrow> svc_Create (we_sha (he_worker env)) (he_numeric env) (he_clock env) (principal_of role) key def s
                 | Some i \<Rightarrow> svc_CreateVersion (we_sha (he_worker env)) (he_numeric env) (he_clock env) (principal_of role) i key def s) of
             Inl e \<Rightarrow> (Inl (HService e), s)
           | Inr (ref, s') \<Rightarrow> (Inr (201, WorkflowCreated ref), s')))"

definition workflows_route :: "http_env \<Rightarrow> http_request \<Rightarrow> Role \<Rightarrow> control \<Rightarrow> api_answer \<times> control" where
  "workflows_route env r role s =
     (if hq_Method r = ''GET'' then
        (if \<not> he_hasWorkflows env then Inl (HInternal ''workflow service is unavailable'')
         else answered (svc_ListWorkflows (he_workflowCodec env) s (hq_Query r ''cursor'') (queryLimit r)) 200 WorkflowsPage, s)
      else post_workflow env r role None s)"

definition post_run :: "http_env \<Rightarrow> http_request \<Rightarrow> Role \<Rightarrow> string \<Rightarrow> int \<Rightarrow> control \<Rightarrow> api_answer \<times> control" where
  "post_run env r role workflowID version s =
     (if hq_Method r \<noteq> ''POST'' then (Inl HMethodNotAllowed, s)
      else if role \<noteq> OperatorRole then (Inl HForbidden, s)
      else if \<not> he_hasRuns env then (Inl (HInternal ''run service is unavailable''), s)
      else case body_and_key env (dq_empty (we_decoders (he_worker env))) False r of
        Inl e \<Rightarrow> (Inl e, s)
      | Inr (_, key) \<Rightarrow>
          (case svc_Start (we_sha (he_worker env)) (he_newRunID env) (he_clock env) (principal_of role) workflowID version key s of
             (Inl e, s') \<Rightarrow> (Inl (HService e), s')
           | (Inr response, s') \<Rightarrow> (Inr (202, RunStarted response), s')))"

text \<open>The paths below one workflow. The path that is left over falls through to the routes of
  runs, where it is not found.\<close>

definition workflow_route :: "http_env \<Rightarrow> http_request \<Rightarrow> Role \<Rightarrow> string list \<Rightarrow> control \<Rightarrow> api_answer \<times> control" where
  "workflow_route env r role parts s =
     (case PathUnescape (parts ! 3) of
        None \<Rightarrow> (Inl (HBadRequest ''invalid URL escape''), s)
      | Some workflowID \<Rightarrow>
          if parts ! 4 = ''versions'' \<and> length parts = 5 then
            (if hq_Method r = ''GET'' then
               (if \<not> he_hasWorkflows env then Inl (HInternal ''workflow service is unavailable'')
                else answered (svc_ListVersions (he_versionCodec env) s workflowID (hq_Query r ''cursor'') (queryLimit r)) 200 VersionsPage, s)
             else post_workflow env r role (Some workflowID) s)
          else if length parts < 6 \<or> parts ! 4 \<noteq> ''versions'' then (Inl HNotFound, s)
          else case Atoi (parts ! 5) of
            None \<Rightarrow> (Inl (HBadRequest ''invalid version''), s)
          | Some version \<Rightarrow>
              if version \<le> 0 then (Inl (HBadRequest ''invalid version''), s)
              else if length parts = 7 \<and> parts ! 6 = ''runs'' then post_run env r role workflowID version s
              else if length parts = 6 \<and> hq_Method r = ''GET'' then
                (if \<not> he_hasWorkflows env then Inl (HInternal ''workflow service is unavailable'')
                 else answered (svc_Get s workflowID version) 200 DefinitionFound, s)
              else (Inl HNotFound, s))"

subsection \<open>Runs\<close>

definition runs_route :: "http_env \<Rightarrow> http_request \<Rightarrow> control \<Rightarrow> api_answer" where
  "runs_route env r s =
     (if \<not> he_hasRuns env then Inl (HInternal ''run service is unavailable'')
      else answered (svc_ListRuns (he_runCodec env) (we_sha (he_worker env)) s
             \<lparr>ro_Cursor = hq_Query r ''cursor'', ro_Limit = queryLimit r, ro_WorkflowID = hq_Query r ''workflow_id'', ro_Status = hq_Query r ''status''\<rparr>)
             200 RunsPage)"

definition post_cancel :: "http_env \<Rightarrow> http_request \<Rightarrow> Role \<Rightarrow> RunID \<Rightarrow> control \<Rightarrow> api_answer \<times> control" where
  "post_cancel env r role runID s =
     (if role \<noteq> OperatorRole then (Inl HForbidden, s)
      else case decodeJSON (dq_empty (we_decoders (he_worker env))) (body_limit env) False (hq_Body r) of
        Inl e \<Rightarrow> (Inl (HBadRequest e), s)
      | Inr _ \<Rightarrow>
          (case svc_Cancel (he_clock env) (he_cancelClock env) runID s of
             (Inl e, s') \<Rightarrow> (Inl (HService e), s')
           | (Inr response, s') \<Rightarrow> (Inr (200, RunCancelled response), s')))"

definition run_route :: "http_env \<Rightarrow> http_request \<Rightarrow> Role \<Rightarrow> string list \<Rightarrow> control \<Rightarrow> api_answer \<times> control" where
  "run_route env r role parts s =
     (let runID = parts ! 3; get = hq_Method r = ''GET'' in
      if \<not> he_hasRuns env then (Inl (HInternal ''run service is unavailable''), s)
      else if length parts = 4 \<and> get then (answered (svc_GetRun s runID) 200 RunFound, s)
      else if length parts = 5 \<and> parts ! 4 = ''tasks'' \<and> get
        then (answered (svc_ListTasks (he_taskCodec env) s runID (hq_Query r ''cursor'') (queryLimit r)) 200 TasksPage, s)
      else if length parts = 6 \<and> parts ! 4 = ''tasks'' \<and> get then
        (case PathUnescape (parts ! 5) of
           None \<Rightarrow> Inl (HBadRequest ''invalid URL escape'')
         | Some key \<Rightarrow> answered (svc_GetTask s runID key) 200 TaskFound, s)
      else if length parts = 5 \<and> parts ! 4 = ''events'' \<and> get
        then (answered (svc_ListEvents (he_eventCodec env) s runID (hq_Query r ''cursor'') (queryLimit r)) 200 EventsPage, s)
      else if length parts = 5 \<and> parts ! 4 = ''cancel'' \<and> hq_Method r = ''POST'' then post_cancel env r role runID s
      else (Inl HNotFound, s))"

definition dispatch :: "http_env \<Rightarrow> http_request \<Rightarrow> Role \<Rightarrow> control \<Rightarrow> api_answer \<times> control" where
  "dispatch env r role s =
     (let parts = splitPath (hq_Path r); under = (\<lambda>name. parts ! 0 = ''api'' \<and> parts ! 1 = ''v1'' \<and> parts ! 2 = name) in
      if length parts \<ge> 3 \<and> under ''agent'' then (dispatchDraft env r role parts, s)
      else if length parts = 3 \<and> under ''workflows'' then workflows_route env r role s
      else if length parts = 4 \<and> under ''workflows'' \<and> hq_Method r = ''GET'' then
        (if \<not> he_hasWorkflows env then Inl (HInternal ''workflow service is unavailable'')
         else case PathUnescape (parts ! 3) of
           None \<Rightarrow> Inl (HBadRequest ''invalid URL escape'')
         | Some workflowID \<Rightarrow> answered (svc_GetSummary s workflowID) 200 WorkflowFound, s)
      else if length parts \<ge> 5 \<and> under ''workflows'' then workflow_route env r role parts s
      else if length parts = 3 \<and> under ''runs'' \<and> hq_Method r = ''GET'' then (runs_route env r s, s)
      else if length parts \<ge> 4 \<and> under ''runs'' then run_route env r role parts s
      else (Inl HNotFound, s))"

section \<open>The handler\<close>

definition from_workers :: "http_env \<Rightarrow> http_request \<Rightarrow> control \<Rightarrow> (int \<times> api_payload) \<times> control" where
  "from_workers env r s =
     (case worker_Handle (he_worker env) r s of
        (Inl e, s') \<Rightarrow> ((ap_Status e, ErrorBody (ap_Code e) (ap_Message e)), s')
      | (Inr (status, payload), s') \<Rightarrow> ((status, WorkerAnswer payload), s'))"

definition not_ready :: "int \<times> api_payload" where
  "not_ready = (503, ErrorBody ''not_ready'' ''service is not ready'')"

definition http_handle :: "http_env \<Rightarrow> http_request \<Rightarrow> control \<Rightarrow> (int \<times> api_payload) \<times> control" where
  "http_handle env r s =
     (if hq_Path r = ''/health/live'' then ((200, HealthStatus ''live''), s)
      else if hq_Path r = ''/health/ready'' then
        (if he_checksReady env \<and> Ready (cp_coordinator s) then (200, HealthStatus ''ready'') else not_ready, s)
      else if he_checksReady env \<and> \<not> Ready (cp_coordinator s) then (not_ready, s)
      else if he_hasWorkers env \<and> worker_Matches (hq_Path r) \<and> RequiresWorkerCredentials (hq_Path r) then from_workers env r s
      else case NewAuthenticator (he_viewerToken env) (he_operatorToken env) of
        Inl e \<Rightarrow> ((500, ErrorBody ''auth_config_invalid'' ''authentication configuration is invalid''), s)
      | Inr authenticator \<Rightarrow>
          (case auth_Role authenticator (hq_Authorization r) of
             Inl e \<Rightarrow> ((401, ErrorBody ''unauthorized'' ''authentication required''), s)
           | Inr role \<Rightarrow>
               if hq_Path r = ''/metrics'' then
                 (if hq_Method r \<noteq> ''GET'' then (405, ErrorBody ''method_not_allowed'' ''method not allowed'')
                  else if \<not> he_hasMetrics env then (404, ErrorBody ''not_found'' ''metrics are disabled'')
                  else (200, MetricsText), s)
               else if he_hasWorkers env \<and> worker_Matches (hq_Path r) then from_workers env r s
               else (case dispatch env r role s of
                  (Inl e, s') \<Rightarrow> (case mappedError e of (status, code, message) \<Rightarrow> ((status, ErrorBody code message), s'))
                | (Inr answer, s') \<Rightarrow> (answer, s'))))"

text \<open>Request identifiers and the route templates of the logs.\<close>

definition validRequestID :: "string \<Rightarrow> bool" where
  "validRequestID w \<longleftrightarrow> w \<noteq> '''' \<and> length w \<le> 64 \<and>
     list_all (\<lambda>c. let n = (of_char c :: nat) in 97 \<le> n \<and> n \<le> 122 \<or> 65 \<le> n \<and> n \<le> 90 \<or> 48 \<le> n \<and> n \<le> 57 \<or> c \<in> set ''-_.'') w"

definition requestID :: "string option \<Rightarrow> http_request \<Rightarrow> string" where
  "requestID raw r =
     (if validRequestID (hq_RequestID r) then hq_RequestID r
      else case raw of None \<Rightarrow> ''req_unknown'' | Some bytes \<Rightarrow> ''req_'' @ hex_string bytes)"

definition Routes :: "string list" where
  "Routes =
     [''/metrics'', ''/api/v1/workflows'', ''/api/v1/workflows/{workflow-id}'', ''/api/v1/workflows/{workflow-id}/versions'',
      ''/api/v1/workflows/{workflow-id}/versions/{version}'', ''/api/v1/workflows/{workflow-id}/versions/{version}/runs'',
      ''/api/v1/agent/drafts'', ''/api/v1/agent/drafts/{draft-id}/validate'', ''/api/v1/agent/drafts/{draft-id}/confirm'',
      ''/api/v1/runs'', ''/api/v1/runs/{run-id}'', ''/api/v1/runs/{run-id}/tasks'', ''/api/v1/runs/{run-id}/tasks/{task-key}'',
      ''/api/v1/runs/{run-id}/events'', ''/api/v1/runs/{run-id}/cancel''] @ worker_Routes"

definition normalizedPath :: "string \<Rightarrow> string" where
  "normalizedPath p =
     (let parts = splitPath p; n = length parts; part = (\<lambda>i. parts ! i) in
      if p = ''/health/live'' \<or> p = ''/health/ready'' \<or> p = ''/metrics'' then p
      else if n < 3 \<or> part 0 \<noteq> ''api'' \<or> part 1 \<noteq> ''v1'' then ''unmatched''
      else if n = 3 \<and> (part 2 = ''workflows'' \<or> part 2 = ''runs'') then ''/api/v1/'' @ part 2
      else if part 2 = ''workflows'' \<and> n = 4 then ''/api/v1/workflows/{workflow-id}''
      else if part 2 = ''workflows'' \<and> n = 5 \<and> part 4 = ''versions'' then ''/api/v1/workflows/{workflow-id}/versions''
      else if part 2 = ''workflows'' \<and> n = 6 \<and> part 4 = ''versions'' then ''/api/v1/workflows/{workflow-id}/versions/{version}''
      else if part 2 = ''workflows'' \<and> n = 7 \<and> part 4 = ''versions'' \<and> part 6 = ''runs''
        then ''/api/v1/workflows/{workflow-id}/versions/{version}/runs''
      else if part 2 = ''agent'' \<and> n = 4 \<and> part 3 = ''drafts'' then ''/api/v1/agent/drafts''
      else if part 2 = ''agent'' \<and> n = 6 \<and> part 3 = ''drafts'' \<and> (part 5 = ''validate'' \<or> part 5 = ''confirm'')
        then ''/api/v1/agent/drafts/{draft-id}/'' @ part 5
      else if part 2 = ''runs'' \<and> n = 4 then ''/api/v1/runs/{run-id}''
      else if part 2 = ''runs'' \<and> n = 5 \<and> (part 4 = ''tasks'' \<or> part 4 = ''events'' \<or> part 4 = ''cancel'')
        then ''/api/v1/runs/{run-id}/'' @ part 4
      else if part 2 = ''runs'' \<and> n = 6 \<and> part 4 = ''tasks'' then ''/api/v1/runs/{run-id}/tasks/{task-key}''
      else if part 2 = ''workers'' \<and> n = 3 then ''/api/v1/workers''
      else if part 2 = ''workers'' \<and> n = 4 \<and> part 3 = ''register'' then ''/api/v1/workers/register''
      else if part 2 = ''workers'' \<and> n = 4 then ''/api/v1/workers/{worker-id}''
      else if part 2 = ''workers'' \<and> n = 5 \<and> (part 4 = ''claims'' \<or> part 4 = ''heartbeat'' \<or> part 4 = ''drain'')
        then ''/api/v1/workers/{worker-id}/'' @ part 4
      else if part 2 = ''workers'' \<and> n = 7 \<and> part 4 = ''leases'' \<and> part 6 = ''complete''
        then ''/api/v1/workers/{worker-id}/leases/{dispatch-id}/complete''
      else ''unmatched'')"

text \<open>The label of a request in logs and metrics is one of the routes, however many paths are asked for.\<close>

lemma if_memI: "(P \<Longrightarrow> a \<in> S) \<Longrightarrow> b \<in> S \<Longrightarrow> (if P then a else b) \<in> S"
  by simp

lemma normalizedPath_bounded: "normalizedPath p \<in> set ([''unmatched'', ''/health/live'', ''/health/ready''] @ Routes)"
proof -
  let ?labels = "[''unmatched'', ''/health/live'', ''/health/ready''] @ Routes"
  have bounded: "normalizedPath p \<in> S" if all: "list_all (\<lambda>x. x \<in> S) ?labels" for S
  proof -
    note labels = all [unfolded Routes_def worker_Routes_def append.simps list.pred_inject]
    show ?thesis
      unfolding normalizedPath_def Let_def
      by (intro if_memI; (elim conjE disjE)?; simp only: append.simps labels)
  qed
  show ?thesis by (rule bounded, unfold list_all_iff, rule ballI)
qed

section \<open>Access\<close>

text \<open>A route that is not a worker route changes the state only for an operator's POST.\<close>

definition operator_step :: "http_request \<Rightarrow> Role \<Rightarrow> control \<Rightarrow> control \<Rightarrow> bool" where
  "operator_step r role s s' \<longleftrightarrow> platform_step\<^sup>*\<^sup>* s s' \<and> (s' \<noteq> s \<longrightarrow> hq_Method r = ''POST'' \<and> role = OperatorRole)"

lemma operator_step_refl [simp]: "operator_step r role s s"
  by (simp add: operator_step_def)

lemma operator_stepI: "platform_step s s' \<Longrightarrow> hq_Method r = ''POST'' \<Longrightarrow> role = OperatorRole \<Longrightarrow> operator_step r role s s'"
  by (simp add: operator_step_def)

lemmas operator_steps = p_create [THEN operator_stepI] p_version [THEN operator_stepI] p_start [THEN operator_stepI] p_cancel [THEN operator_stepI]

lemma post_workflow_step: "post_workflow env r role workflowID s = (a, s') \<Longrightarrow> operator_step r role s s'"
  by (auto simp: post_workflow_def intro: operator_steps split: if_splits sum.splits option.splits)

lemma post_run_step: "post_run env r role workflowID version s = (a, s') \<Longrightarrow> operator_step r role s s'"
  by (auto simp: post_run_def intro: operator_steps split: if_splits sum.splits prod.splits)

lemma post_cancel_step: "post_cancel env r role runID s = (a, s') \<Longrightarrow> hq_Method r = ''POST'' \<Longrightarrow> operator_step r role s s'"
  by (auto simp: post_cancel_def intro: operator_steps split: if_splits sum.splits prod.splits)

lemma workflows_route_step: "workflows_route env r role s = (a, s') \<Longrightarrow> operator_step r role s s'"
  by (auto simp: workflows_route_def post_workflow_step split: if_splits)

lemma workflow_route_step: "workflow_route env r role parts s = (a, s') \<Longrightarrow> operator_step r role s s'"
  by (auto simp: workflow_route_def post_workflow_step post_run_step split: if_splits option.splits)

lemma run_route_step: "run_route env r role parts s = (a, s') \<Longrightarrow> operator_step r role s s'"
  by (auto simp: run_route_def Let_def post_cancel_step split: if_splits)

lemma dispatch_step: "dispatch env r role s = (a, s') \<Longrightarrow> operator_step r role s s'"
  unfolding dispatch_def Let_def
  by (auto simp: workflows_route_step workflow_route_step run_route_step simp del: One_nat_def split: if_splits)

lemma auth_Role_operator:
  assumes "NewAuthenticator viewer operator = Inr au" and "auth_Role au header = Inr OperatorRole"
  shows "header = ''Bearer '' @ operator"
  using assms ParseBearerToken_Inr [of header operator]
  by (auto simp: NewAuthenticator_def auth_Role_def split: if_splits sum.splits)

lemma from_workers_step:
  assumes "from_workers env r s = (a, s')"
  shows "platform_step\<^sup>*\<^sup>* s s' \<and> (s' \<noteq> s \<longrightarrow> hq_Method r = ''POST'' \<and> worker_credentials (he_worker env) r s)"
proof -
  obtain b where "worker_Handle (he_worker env) r s = (b, s')"
    using assms by (auto simp: from_workers_def split: prod.splits sum.splits)
  then show ?thesis by (rule worker_Handle_steps)
qed

text \<open>
  C21. A request to the API is a number of steps of the platform's machine, whatever it asks for and however
  it ends. One that changes the state is a POST while the coordinator is ready, and it
  carries the operator's token, or is a worker's: a registration with the bootstrap token, or an operation
  with the session token that the database keeps for the worker of the path.
\<close>

theorem http_access:
  assumes "http_handle env r s = (a, s')"
  shows "platform_step\<^sup>*\<^sup>* s s' \<and>
    (s' \<noteq> s \<longrightarrow> hq_Method r = ''POST'' \<and> (he_checksReady env \<longrightarrow> Ready (cp_coordinator s)) \<and>
      (hq_Authorization r = ''Bearer '' @ he_operatorToken env \<or> worker_credentials (he_worker env) r s))"
proof (cases "s' = s")
  case False
  have ready: "he_checksReady env \<Longrightarrow> Ready (cp_coordinator s)" using assms False by (auto simp: http_handle_def split: if_splits)
  from assms False consider (worker) "from_workers env r s = (a, s')"
    | (user) au role b where "NewAuthenticator (he_viewerToken env) (he_operatorToken env) = Inr au"
        "auth_Role au (hq_Authorization r) = Inr role" "dispatch env r role s = (b, s')"
    by (auto simp: http_handle_def split: if_splits sum.splits prod.splits)
  then show ?thesis
  proof cases
    case worker
    then show ?thesis using from_workers_step ready by blast
  next
    case user
    then show ?thesis using dispatch_step [OF user(3)] auth_Role_operator [OF user(1)] False ready by (auto simp: operator_step_def)
  qed
qed simp

text \<open>A worker that registers through the API; the decoders stand for one body each.\<close>

definition no_codec :: "'c codec" where
  "no_codec = \<lparr>cc_marshal = (\<lambda>c. None), cc_unmarshal = (\<lambda>body. None)\<rparr>"

definition sample_decoders :: decoders where
  "sample_decoders = \<lparr>dq_definition = (\<lambda>body. Decoded tiny_def True), dq_register = (\<lambda>body. Decoded tiny_register True),
     dq_claim = (\<lambda>body. Decoded 1 True), dq_heartbeat = (\<lambda>body. Decoded [] True), dq_complete = (\<lambda>body. Malformed),
     dq_empty = (\<lambda>body. AtEOF)\<rparr>"

definition sample_worker_env :: worker_env where
  "sample_worker_env = \<lparr>we_sha = tiny_sha, we_random = tiny_random, we_clock = 6000, we_options = tiny_options, we_held = (\<lambda>d. False),
     we_decoders = sample_decoders, we_bootstrapToken = ''boot'', we_maxBodyBytes = 1024\<rparr>"

definition sample_env :: http_env where
  "sample_env = \<lparr>he_worker = sample_worker_env, he_numeric = Some, he_newRunID = Inr ''r'', he_clock = 6000, he_cancelClock = 6000,
     he_workflowCodec = no_codec, he_versionCodec = no_codec, he_runCodec = no_codec, he_taskCodec = no_codec, he_eventCodec = no_codec,
     he_decodeGoal = (\<lambda>body. Malformed), he_decodeDraft = (\<lambda>body. Malformed), he_decodeConfirm = (\<lambda>body. Malformed),
     he_world = agent_world, he_agent = agent_svc, he_viewerToken = ''view'', he_operatorToken = ''oper'', he_maxBodyBytes = 0,
     he_hasWorkflows = True, he_hasRuns = True, he_hasDrafts = True, he_hasWorkers = True, he_hasMetrics = False, he_checksReady = True\<rparr>"

definition sample_request :: http_request where
  "sample_request = \<lparr>hq_Method = ''POST'', hq_Path = ''/api/v1/workers/register'', hq_Authorization = ''Bearer boot'', hq_IdempotencyKey = '''',
     hq_ProtocolVersion = '''', hq_RequestID = '''', hq_Query = (\<lambda>name. ''''), hq_Body = ''{}''\<rparr>"

lemma sample_registers:
  "\<exists>answer. http_handle sample_env sample_request (tiny_control db_started running_coordinator) =
     (answer, tiny_control db_registered (Wake running_coordinator))"
proof -
  obtain summary token where "RegisterWorker tiny_sha tiny_random 6000 tiny_register db_started = Inr ((summary, token), db_registered)"
    using tiny_registered by auto
  moreover have "splitPath ''/api/v1/workers/register'' = [''api'', ''v1'', ''workers'', ''register'']"
    "ParseBearerToken ''Bearer boot'' = Inr ''boot''" "Ready running_coordinator" by code_simp+
  ultimately show ?thesis
    by (simp add: http_handle_def from_workers_def sample_env_def sample_request_def sample_worker_env_def sample_decoders_def worker_Matches_def
      RequiresWorkerCredentials_def worker_Handle_def handle_register_def matchesBootstrapToken_def decodeJSON_def wake_db_def tiny_control_def)
qed

theorem http_access_witness:
  "platform_step\<^sup>*\<^sup>* (tiny_control db_started running_coordinator) (tiny_control db_registered (Wake running_coordinator)) \<and>
   worker_credentials sample_worker_env sample_request (tiny_control db_started running_coordinator) \<and> db_registered \<noteq> db_started"
proof -
  obtain a where "http_handle sample_env sample_request (tiny_control db_started running_coordinator) =
      (a, tiny_control db_registered (Wake running_coordinator))" using sample_registers by blast
  note access = http_access [OF this]
  have "db_workers db_registered \<noteq> db_workers db_started" by code_simp
  then have changed: "db_registered \<noteq> db_started" by metis
  then have "tiny_control db_registered (Wake running_coordinator) \<noteq> tiny_control db_started running_coordinator"
    by (simp add: tiny_control_def)
  with access have "platform_step\<^sup>*\<^sup>* (tiny_control db_started running_coordinator) (tiny_control db_registered (Wake running_coordinator))"
    "hq_Authorization sample_request = ''Bearer '' @ he_operatorToken sample_env \<or>
     worker_credentials (he_worker sample_env) sample_request (tiny_control db_started running_coordinator)"
    by blast+
  moreover have "hq_Authorization sample_request \<noteq> ''Bearer '' @ he_operatorToken sample_env" "he_worker sample_env = sample_worker_env"
    by (simp_all add: sample_request_def sample_env_def)
  ultimately show ?thesis using changed by simp
qed

end
