(* ===== verification/Dispatch_History.thy ===== *)
theory Dispatch_History
  imports Platform
begin

text \<open>
  The life of a dispatch: a row of \<^verbatim>\<open>task_dispatches\<close> is never deleted, keeps its run and its task, leaves
  \<^verbatim>\<open>pending\<close> once, and does not change after its end. The lemmas follow every statement of the store that
  writes the table, then every step of the platform.
\<close>

definition row_next :: "dispatch_row \<Rightarrow> dispatch_row \<Rightarrow> bool" where
  "row_next r r' \<longleftrightarrow>
     dr_dispatch_id r' = dr_dispatch_id r \<and> dr_run_id r' = dr_run_id r \<and> dr_task_key r' = dr_task_key r \<and>
     (dr_status r \<noteq> DispatchPending \<longrightarrow> dr_status r' \<noteq> DispatchPending) \<and> (\<not> is_active_dispatch r \<longrightarrow> r' = r)"

definition rows_next :: "db \<Rightarrow> db \<Rightarrow> bool" where
  "rows_next d d' \<longleftrightarrow> (\<forall>r \<in> set (db_dispatches d). \<exists>r' \<in> set (db_dispatches d'). row_next r r')"

lemma row_next_refl [simp]: "row_next r r"
  by (simp add: row_next_def)

lemma row_next_trans: "row_next r r' \<Longrightarrow> row_next r' r'' \<Longrightarrow> row_next r r''"
  by (auto simp: row_next_def is_active_dispatch_def)

lemma rows_next_same: "db_dispatches d' = db_dispatches d \<Longrightarrow> rows_next d d'"
  by (force simp: rows_next_def intro: row_next_refl)

lemma rows_next_then: "rows_next d d1 \<Longrightarrow> db_dispatches d2 = db_dispatches d1 \<Longrightarrow> rows_next d d2"
  by (simp add: rows_next_def)

lemma rows_next_refl [simp]: "rows_next d d"
  by (simp add: rows_next_same)

lemma rows_next_trans: "rows_next d d' \<Longrightarrow> rows_next d' d'' \<Longrightarrow> rows_next d d''"
  unfolding rows_next_def by (meson row_next_trans)

section \<open>Statements\<close>

lemma rows_next_update:
  assumes "update_dispatches matching change d = Inr (n, d')" and "\<And>r. matching r \<Longrightarrow> row_next r (change r)"
  shows "rows_next d d'"
  unfolding rows_next_def
proof
  fix r assume "r \<in> set (db_dispatches d)"
  then have "(if matching r then change r else r) \<in> set (db_dispatches d')"
    using assms(1) by (auto simp: update_dispatches_Inr sql_update_mem)
  then show "\<exists>r' \<in> set (db_dispatches d'). row_next r r'" using assms(2) by (metis row_next_refl)
qed

lemma rows_next_insert: "insert_dispatch row d = Inr d' \<Longrightarrow> rows_next d d'"
  by (force simp: insert_dispatch_def rows_next_def intro: row_next_refl split: if_splits)

lemma rows_next_foldR:
  assumes "foldR f xs q = Inr q'" and "\<And>x t t'. f x t = Inr t' \<Longrightarrow> rows_next (g t) (g t')"
  shows "rows_next (g q) (g q')"
  by (rule foldR_keeps [where P = "\<lambda>t. rows_next (g q) (g t)", OF assms(1)]) (auto intro: rows_next_trans dest: assms(2))

lemma same_foldR:
  assumes "foldR f xs q = Inr q'" and "\<And>x t t'. f x t = Inr t' \<Longrightarrow> db_dispatches t' = db_dispatches t"
  shows "db_dispatches q' = db_dispatches q"
  by (rule foldR_keeps [where P = "\<lambda>t. db_dispatches t = db_dispatches q", OF assms(1)]) (auto dest: assms(2))

lemma store_change_same: "store_change s u d = Inr d' \<Longrightarrow> db_dispatches d' = db_dispatches d"
proof -
  have task: "db_dispatches t' = db_dispatches t" if "update_task_run c t = Inr t'" for c t t'
    using that by (auto simp: update_task_run_def bindR_eq_Inr split: if_splits)
  have attempt: "db_dispatches t' = db_dispatches t" if "apply_attempt_row c t = Inr t'" for c t t'
    using that by (auto simp: apply_attempt_row_def insertAttempt_def update_attempt_def bindR_eq_Inr Let_def split: if_splits ChangeOperation.splits)
  have event: "db_dispatches t' = db_dispatches t" if "insertEvent i e t = Inr t'" for i e t t'
    using that by (auto simp: insertEvent_def Let_def split: if_splits)
  assume "store_change s u d = Inr d'"
  then obtain c where "applyChangeSetTx c d = Inr d'" by (auto simp: store_change_def bindR_eq_Inr Let_def)
  then obtain run k d1 d2 d3 where "update_run c run k d = Inr d1" and folds: "foldR update_task_run (cs_Tasks c) d1 = Inr d2"
    "foldR apply_attempt_row (cs_Attempts c) d2 = Inr d3" "foldR (insertEvent (cs_RunID c)) (cs_Events c) d3 = Inr d'"
    by (auto simp: applyChangeSetTx_def bindR_eq_Inr Let_def)
  moreover have "db_dispatches d1 = db_dispatches d" using calculation(1) by (auto simp: update_run_def bindR_eq_Inr split: if_splits)
  ultimately show ?thesis using same_foldR [OF folds(1) task] same_foldR [OF folds(2) attempt] same_foldR [OF folds(3) event] by simp
qed

lemma update_workers_same: "update_workers matching change d = Inr d' \<Longrightarrow> db_dispatches d' = db_dispatches d"
  by (auto simp: update_workers_def bindR_eq_Inr split: if_splits)

text \<open>A transaction stores the change of the run before or after it writes the dispatch.\<close>

lemma rows_next_store:
  assumes "store_change s u d = Inr d1" and "update_dispatches matching change d1 = Inr (n, d')" and "\<And>r. matching r \<Longrightarrow> row_next r (change r)"
  shows "rows_next d d'"
  using rows_next_trans [OF rows_next_same [OF store_change_same [OF assms(1)]] rows_next_update [OF assms(2,3)]] .

section \<open>Transactions\<close>

lemma returnOrphan_next: "returnOrphan at item d = Inr d' \<Longrightarrow> rows_next d d'"
  unfolding returnOrphan_def
  by (auto simp: bindR_eq_Inr Let_def row_next_def is_active_dispatch_def elim!: rows_next_store split: if_splits option.splits)

lemma promoteRetry_next: "promoteRetry at runID d = Inr d' \<Longrightarrow> rows_next d d'"
  by (auto simp: promoteRetry_def bindR_eq_Inr Let_def dest!: store_change_same intro: rows_next_same split: if_splits)

lemma createDispatch_next:
  assumes "createDispatch random now available runID q = Inr q'"
  shows "rows_next (snd (snd q)) (snd (snd q'))"
proof -
  obtain created cap d where q: "q = (created, cap, d)" by (cases q)
  have "rows_next d (snd (snd q'))"
    using assms unfolding q createDispatch_def
    by (auto simp: bindR_eq_Inr Let_def dest!: store_change_same rows_next_insert intro: rows_next_then split: if_splits option.splits)
  then show ?thesis by (simp add: q)
qed

lemma CreateDispatches_next:
  assumes "CreateDispatches random skip clock limit d = Inr (n, d')"
  shows "rows_next d d'"
proof -
  let ?now = "timestamptz clock"
  obtain d1 d2 where d1: "returnOrphanedPendingDispatches ?now limit d = Inr d1" and d2: "promoteDueRetries skip ?now limit d1 = Inr d2"
    and rest: "d' = d2 \<or> (\<exists>available runIDs cap cap'. foldR (createDispatch random ?now available) runIDs (0, cap, d2) = Inr (n, cap', d'))"
    using assms by (simp add: CreateDispatches_def bindR_eq_Inr Let_def split: if_splits) blast+
  have "rows_next d d1" using d1 rows_next_foldR [where g = "\<lambda>d. d", OF _ returnOrphan_next] by (auto simp: returnOrphanedPendingDispatches_def Let_def)
  moreover have "rows_next d1 d2" using d2 rows_next_foldR [where g = "\<lambda>d. d", OF _ promoteRetry_next] by (auto simp: promoteDueRetries_def Let_def)
  moreover have "rows_next d2 d'" using rest rows_next_foldR [where g = "\<lambda>q. snd (snd q)", OF _ createDispatch_next] by fastforce
  ultimately show ?thesis by (blast intro: rows_next_trans)
qed

lemma claimDispatch_next: "claimDispatch sha random op now workerID item q = Inr q' \<Longrightarrow> rows_next (snd q) (snd q')"
proof -
  assume a: "claimDispatch sha random op now workerID item q = Inr q'"
  obtain ls d where q: "q = (ls, d)" by (cases q)
  let ?M = "\<lambda>r. dr_dispatch_id r = dr_dispatch_id item \<and> dr_status r = DispatchPending"
  obtain change n d1 s u where up: "update_dispatches ?M change d = Inr (n, d1)" and st: "store_change s u d1 = Inr (snd q')"
    and change: "\<And>r. dr_dispatch_id (change r) = dr_dispatch_id r \<and> dr_run_id (change r) = dr_run_id r \<and> dr_task_key (change r) = dr_task_key r \<and>
      dr_status (change r) = DispatchLeased"
    using a unfolding q claimDispatch_def by (fastforce simp: bindR_eq_Inr Let_def split: if_splits option.splits sum.splits)
  have "rows_next d d1" by (rule rows_next_update [OF up]) (auto simp: row_next_def change is_active_dispatch_def)
  then show ?thesis using store_change_same [OF st] rows_next_same rows_next_trans q by (metis snd_conv)
qed

lemma Claim_next: "Claim sha random op skip clock workerID slots d = Inr (ls, d') \<Longrightarrow> rows_next d d'"
  using rows_next_foldR [where g = snd, OF _ claimDispatch_next] by (fastforce simp: Claim_def split: if_splits option.splits)

lemma renewLease_next: "renewLease sha op now workerID ref q = Inr q' \<Longrightarrow> rows_next (snd q) (snd q')"
proof (cases q)
  case (Pair beats d)
  assume "renewLease sha op now workerID ref q = Inr q'"
  then show ?thesis unfolding Pair renewLease_def
    by (auto simp: bindR_eq_Inr Let_def row_next_def is_active_dispatch_def elim!: rows_next_update split: if_splits option.splits)
qed

lemma Heartbeat_next: "Heartbeat sha op clock workerID refs d = Inr (beats, d') \<Longrightarrow> rows_next d d'"
proof -
  assume "Heartbeat sha op clock workerID refs d = Inr (beats, d')"
  then obtain d1 matching change where up: "update_workers matching change d = Inr d1"
    and beat: "foldR (renewLease sha op (timestamptz clock) workerID) refs ([], d1) = Inr (beats, d')"
    by (auto simp: Heartbeat_def bindR_eq_Inr Let_def split: if_splits option.splits)
  from rows_next_trans [OF rows_next_same [OF update_workers_same [OF up]]] rows_next_foldR [where g = snd, OF beat renewLease_next]
  show ?thesis by simp
qed

lemma Complete_next:
  assumes "Complete sha clock workerID dispatchID token result d = Inr (b, d')"
  shows "rows_next d d'"
proof -
  obtain h where "digestWorkerResult sha result = Inr h" using assms by (auto simp: Complete_def bindR_eq_Inr)
  moreover obtain r where "find_dispatch d dispatchID = Some r" using assms by (auto simp: Complete_def bindR_eq_Inr Let_def split: option.splits)
  ultimately show ?thesis
    using assms unfolding Complete_def
    by (cases "dr_attempt_number r"; cases "dr_lease_expires_at r"; cases "dr_attempt_deadline r")
      (auto simp: bindR_eq_Inr Let_def row_next_def is_active_dispatch_def elim!: rows_next_store split: if_splits option.splits sum.splits)
qed

lemma reapDispatch_next: "reapDispatch current item d = Inr d' \<Longrightarrow> rows_next d d'"
  unfolding reapDispatch_def
  by (auto simp: bindR_eq_Inr Let_def row_next_def is_active_dispatch_def elim!: rows_next_store split: if_splits option.splits sum.splits)

lemma ReapExpired_next: "ReapExpired op skip clock current limit d = Inr (n, d') \<Longrightarrow> rows_next d d'"
proof -
  assume "ReapExpired op skip clock current limit d = Inr (n, d')"
  then obtain d1 matching change xs where up: "update_workers matching change d = Inr d1" and reap: "foldR (reapDispatch current) xs d1 = Inr d'"
    by (auto simp: ReapExpired_def bindR_eq_Inr Let_def split: if_splits)
  from rows_next_trans [OF rows_next_same [OF update_workers_same [OF up]] rows_next_foldR [where g = "\<lambda>d. d", OF reap reapDispatch_next]]
  show ?thesis .
qed

lemma CancelRun_next: "pg_CancelRun clock runID d = Inr d' \<Longrightarrow> rows_next d d'"
  unfolding pg_CancelRun_def
  by (auto simp: bindR_eq_Inr Let_def row_next_def is_active_dispatch_def elim!: rows_next_store split: if_splits)

section \<open>Steps of the platform\<close>

lemma CancelRequestedRuns_next: "rows_next d (snd (CancelRequestedRuns clock limit d))"
proof -
  have "rows_next d (snd (cancel_runs clock ids d))" for ids d
    by (induction clock ids d rule: cancel_runs.induct) (auto split: sum.splits dest: CancelRun_next intro: rows_next_trans)
  then have chain: "\<And>ids r e. cancel_runs clock ids d = (r, e) \<Longrightarrow> rows_next d e" by (metis snd_conv)
  then show ?thesis
    unfolding CancelRequestedRuns_def Let_def by (auto split: prod.split sum.split dest: chain)
qed

lemma scan_round_next: "rows_next d (snd (scan_round env batch d))"
proof -
  obtain r d1 where q: "CancelRequestedRuns (en_cancel_clock env) batch d = (r, d1)" by (cases "CancelRequestedRuns (en_cancel_clock env) batch d")
  then have d1: "rows_next d d1" using CancelRequestedRuns_next [of d "en_cancel_clock env" batch] by simp
  have "rows_next d1 (snd (scan_round env batch d))"
    unfolding scan_round_def q by (auto split: sum.splits dest!: ReapExpired_next CreateDispatches_next intro: rows_next_trans)
  then show ?thesis by (rule rows_next_trans [OF d1])
qed

lemma co_step_next: "co_step s t \<Longrightarrow> rows_next (snd s) (snd t)"
proof (induction rule: co_step.induct)
  case (co_cancel clock runID c d r c' d')
  then show ?case by (auto simp: coordinator_Cancel_def split: if_splits sum.splits dest: CancelRun_next)
next
  case (co_scan c env d again c' d')
  then show ?case using scan_round_next [of d env "oo_BatchSize (co_options c)"]
    by (auto simp: scan_iteration_def split: prod.splits sum.splits)
qed (auto dest: CancelRun_next ReapExpired_next CreateDispatches_next)

lemma register_attempts_same: "register_attempts sha random now request tries n d = Inr (r, d') \<Longrightarrow> db_dispatches d' = db_dispatches d"
  by (induction sha random now request tries n d rule: register_attempts.induct)
    (auto simp: bindR_eq_Inr Let_def insert_worker_def split: sum.splits if_splits)

lemma definition_rows_same:
  "insert_workflow w d = Inr d' \<Longrightarrow> db_dispatches d' = db_dispatches d"
  "insert_version numeric v d = Inr d' \<Longrightarrow> db_dispatches d' = db_dispatches d"
  "insertIdempotency p operation key h kind resource version d = Inr d' \<Longrightarrow> db_dispatches d' = db_dispatches d"
  "update_latest workflowID latest d = Inr d' \<Longrightarrow> db_dispatches d' = db_dispatches d"
  by (auto simp: insert_workflow_def insert_version_def insertIdempotency_def update_latest_def bindR_eq_Inr Let_def split: if_splits option.splits)

lemma CreateDefinition_same: "CreateDefinition numeric clock def p key h d = Inr (ref, d') \<Longrightarrow> db_dispatches d' = db_dispatches d"
  by (auto simp: CreateDefinition_def bindR_eq_Inr Let_def dest!: definition_rows_same split: sum.splits option.splits)

lemma CreateVersion_same: "pg_CreateVersion numeric clock workflowID def p key h d = Inr (ref, d') \<Longrightarrow> db_dispatches d' = db_dispatches d"
  by (auto simp: pg_CreateVersion_def bindR_eq_Inr Let_def dest!: definition_rows_same split: option.splits if_splits)

lemma svc_Create_same: "svc_Create sha numeric clock p key def s = Inr (ref, s') \<Longrightarrow> db_dispatches (cp_db s') = db_dispatches (cp_db s)"
  by (cases "Compile def") (auto simp: svc_Create_def bindR_eq_Inr dest!: CreateDefinition_same)

lemma svc_CreateVersion_same:
  "svc_CreateVersion sha numeric clock p workflowID key def s = Inr (ref, s') \<Longrightarrow> db_dispatches (cp_db s') = db_dispatches (cp_db s)"
  by (cases "Compile def") (auto simp: svc_CreateVersion_def bindR_eq_Inr dest!: CreateVersion_same split: if_splits)

lemma svc_compiled_same: "svc_compiled workflowID version s = Inr (cw, s') \<Longrightarrow> cp_db s' = cp_db s"
proof (cases "cp_cache s (workflowID, version)")
  case None
  assume a: "svc_compiled workflowID version s = Inr (cw, s')"
  then obtain def where "svc_Get s workflowID version = Inr def" using None by (auto simp: svc_compiled_def bindR_eq_Inr)
  then show ?thesis using a None by (cases "Compile def") (auto simp: svc_compiled_def)
qed (simp add: svc_compiled_def)

lemma svc_Start_same:
  assumes "svc_Start sha newRunID clock p workflowID version key s = (r, s')"
  shows "db_dispatches (cp_db s') = db_dispatches (cp_db s)"
proof -
  have run: "db_dispatches d' = db_dispatches d" if "pg_CreateRun snapshot p key h d = Inr (q, d')" for snapshot h d q d'
    using that insertSnapshot_outside [of snapshot "Some p" d]
    by (auto simp: pg_CreateRun_def bindR_eq_Inr as_run_exists_def insertIdempotency_def outside_def Let_def split: option.splits sum.splits if_splits)
  show ?thesis
    using assms by (auto simp: svc_Start_def dest!: svc_compiled_same run split: sum.splits prod.splits)
qed

lemma svc_Cancel_next:
  assumes "svc_Cancel clock cancelClock runID s = (r, s')"
  shows "rows_next (cp_db s) (cp_db s')"
proof (cases "pg_RequestCancel runID clock (cp_db s)")
  case (Inr q)
  obtain run d where q: "q = (run, d)" by (cases q)
  have same: "db_dispatches d = db_dispatches (cp_db s)"
    using Inr q by (auto simp: pg_RequestCancel_def bindR_eq_Inr split: option.splits if_splits)
  obtain x c d' where x: "coordinator_Cancel cancelClock runID (cp_coordinator s) d = (x, c, d')"
    by (cases "coordinator_Cancel cancelClock runID (cp_coordinator s) d")
  then have "rows_next d d'" by (auto simp: coordinator_Cancel_def split: if_splits sum.splits dest: CancelRun_next)
  moreover have "cp_db s' = d'" using assms Inr q x by (auto simp: svc_Cancel_def split: sum.splits)
  ultimately show ?thesis using rows_next_trans [OF rows_next_same [OF same]] by simp
qed (use assms in \<open>simp add: svc_Cancel_def\<close>)

lemma platform_step_next: "platform_step s t \<Longrightarrow> rows_next (cp_db s) (cp_db t)"
proof (induction rule: platform_step.induct)
  case (p_register sha random clock request s r d)
  then show ?case by (auto simp: RegisterWorker_def bindR_eq_Inr dest!: register_attempts_same intro: rows_next_same)
next
  case (p_drain clock workerID s r d)
  then show ?case by (auto simp: DrainWorker_def bindR_eq_Inr Let_def dest!: update_workers_same intro: rows_next_same split: option.splits)
next
  case (p_coordinator s c d)
  then show ?case using co_step_next by fastforce
qed (auto dest: svc_Create_same svc_CreateVersion_same svc_Start_same svc_Cancel_next Claim_next Heartbeat_next Complete_next intro: rows_next_same)

lemma platform_run_next: "platform_step\<^sup>*\<^sup>* s t \<Longrightarrow> rows_next (cp_db s) (cp_db t)"
  by (induction rule: rtranclp_induct) (auto intro: rows_next_trans platform_step_next)

section \<open>What a claim returns\<close>

lemma claimDispatch_id: "claimDispatch sha random op now workerID item q = Inr q' \<Longrightarrow> \<exists>l. fst q' = fst q @ [l] \<and> le_DispatchID l = dr_dispatch_id item"
  by (cases q) (auto simp: claimDispatch_def bindR_eq_Inr Let_def split: if_splits option.splits sum.splits)

lemma claim_ids: "foldR (claimDispatch sha random op now workerID) rows q = Inr q' \<Longrightarrow>
    map le_DispatchID (fst q') = map le_DispatchID (fst q) @ map dr_dispatch_id rows"
  by (induction rows arbitrary: q) (fastforce simp: bindR_eq_Inr dest: claimDispatch_id)+

text \<open>The dispatches that have left \<^verbatim>\<open>pending\<close>; they only grow.\<close>

definition left_pending :: "db \<Rightarrow> string set" where
  "left_pending d = {dr_dispatch_id r | r. r \<in> set (db_dispatches d) \<and> dr_status r \<noteq> DispatchPending}"

lemma left_pending_grows: "rows_next d d' \<Longrightarrow> left_pending d \<subseteq> left_pending d'"
  by (fastforce simp: left_pending_def rows_next_def row_next_def)

lemma Claim_ids:
  assumes w: "world_ok d" and claim: "Claim sha random op skip clock workerID slots d = Inr (ls, d')"
  shows "distinct (map le_DispatchID ls)" and "set (map le_DispatchID ls) \<inter> left_pending d = {}" and "set (map le_DispatchID ls) \<subseteq> left_pending d'"
proof -
  obtain kinds where "foldR (claimDispatch sha random op (timestamptz clock) workerID) (claim_candidates skip kinds slots d) ([], d) = Inr (ls, d')"
    using claim by (auto simp: Claim_def split: if_splits option.splits)
  from claim_ids [OF this] have rows: "map le_DispatchID ls = map dr_dispatch_id (claim_candidates skip kinds slots d)" by simp
  note wd = world_okD [OF w]
  let ?c = "claim_candidates skip kinds slots d"
  have sub: "set ?c \<subseteq> {r \<in> set (db_dispatches d). dr_status r = DispatchPending}" using candidates_pending(2,3) [OF wd(2)] by blast
  have ids: "inj_on dr_dispatch_id (set (db_dispatches d))" using wd(2) by (simp add: rows_ok_def distinct_map)
  show "distinct (map le_DispatchID ls)" unfolding rows distinct_map
    using candidates_pending(1) [OF wd(2)] inj_on_subset [OF ids candidates_pending(2) [OF wd(2)]] by simp
  show "set (map le_DispatchID ls) \<inter> left_pending d = {}"
  proof -
    have "dr_status r = DispatchPending" if "r \<in> set (db_dispatches d)" "x \<in> set ?c" "dr_dispatch_id r = dr_dispatch_id x" for r x
    proof -
      have "r = x" using that sub by (intro inj_onD [OF ids]) auto
      then show ?thesis using that(2) sub by auto
    qed
    then show ?thesis unfolding rows by (auto simp: left_pending_def)
  qed
  have "list_all (granted sha workerID d') ls" using Claim_outcome [OF w, of slots sha workerID random op skip clock] claim by auto
  then have "\<exists>r \<in> set (db_dispatches d'). dr_dispatch_id r = le_DispatchID l \<and> dr_status r = DispatchLeased" if "l \<in> set ls" for l
    using that by (auto simp: list_all_iff granted_def)
  then show "set (map le_DispatchID ls) \<subseteq> left_pending d'" unfolding left_pending_def by force
qed

end
