(* ===== verification/Worker_Runtime.thy ===== *)
theory Worker_Runtime
  imports Worker_Api Dispatch_History Sample_Db "HOL-Library.AList"
begin

text \<open>
  The worker process (\<^verbatim>\<open>internal/workerruntime/runtime.go\<close>): one session that registers, polls for
  leases, executes them concurrently, renews them and drains at the end. Its goroutines (the main
  loop, the heartbeat loop, and for every lease one for the execution and one for the
  local deadline) are the components of one state; a step is a step of one of them, between two
  points where it waits or takes a lock. The answers of the server and of the executors, the
  firing of timers and the cancellation of the parent context are choices of the relation.
  Shown here: over all interleavings the worker stays within its concurrency, reports one result
  for a lease and none for a cancelled execution, and leaves nothing running behind. What it needs
  of the server is a locale, interpreted on the store's \<^const>\<open>Claim\<close>.
\<close>

section \<open>Pure parts\<close>

datatype client_error = ClientAPIError int string | ClientFailure string

definition isPermanentSessionError :: "client_error option \<Rightarrow> bool" where
  "isPermanentSessionError err =
     (case err of
        Some (ClientAPIError status code) \<Rightarrow> status = 401 \<or> code = ''worker_session_invalid'' \<or> code = ''worker_protocol_unsupported''
      | _ \<Rightarrow> False)"

definition nextPollDelay :: "duration \<Rightarrow> duration \<Rightarrow> duration \<Rightarrow> duration" where
  "nextPollDelay current minimum maximum =
     (if current \<le> 0 then minimum
      else if current > maximum div 2 then maximum
      else if current * 2 > maximum then maximum
      else current * 2)"

definition localSafetyDelay :: "Lease \<Rightarrow> duration \<Rightarrow> time \<Rightarrow> duration" where
  "localSafetyDelay lease margin now =
     (let deadline = (if le_LeaseExpiresAt lease < le_AttemptDeadline lease then le_LeaseExpiresAt lease else le_AttemptDeadline lease)
      in deadline - now - margin)"

text \<open>The delay after a renewal with the remaining time that the server has sent.\<close>

definition renewed_delay :: "Lease \<Rightarrow> duration \<Rightarrow> time \<Rightarrow> duration \<Rightarrow> duration" where
  "renewed_delay lease margin now remaining = min (remaining - margin) (le_AttemptDeadline lease - now - margin)"

record worker_options =
  wo_BootstrapToken :: string
  wo_Registration :: RegisterRequest
  wo_PollMin :: duration
  wo_PollMax :: duration
  wo_HeartbeatInterval :: duration
  wo_RetryInterval :: duration
  wo_SafetyMargin :: duration
  wo_ShutdownTimeout :: duration

text \<open>Executors are names; a missing name is \<^verbatim>\<open>nil\<close>.\<close>

record Runtime =
  rt_executor :: "string option"
  rt_executors :: "ExecutorKind \<Rightarrow> string option"
  rt_options :: worker_options

definition runtime_New :: "bool \<Rightarrow> string option \<Rightarrow> (ExecutorKind \<times> string option) list \<Rightarrow> worker_options \<Rightarrow> string + Runtime" where
  "runtime_New has_client executor executors options =
     (if \<not> has_client \<or> executor = None \<and> executors = [] then Inl ''Worker client and executor are required''
      else if wo_BootstrapToken options = '''' then Inl ''Worker bootstrap token is required''
      else if rq_ProtocolVersion (wo_Registration options) \<noteq> ProtocolVersion then Inl ''unsupported Worker protocol version''
      else if rq_MaxConcurrency (wo_Registration options) \<le> 0 then Inl ''Worker max concurrency must be positive''
      else if wo_PollMin options \<le> 0 \<or> wo_PollMax options < wo_PollMin options then Inl ''invalid Worker poll interval range''
      else if wo_HeartbeatInterval options \<le> 0 \<or> wo_RetryInterval options \<le> 0
        then Inl ''Worker heartbeat and retry intervals must be positive''
      else if wo_SafetyMargin options < 0 \<or> wo_ShutdownTimeout options \<le> 0 then Inl ''invalid Worker shutdown timing''
      else
        let named = (\<lambda>kind. Option.bind (map_of executors kind) (\<lambda>e. e)) in
        Inr \<lparr>rt_executor = executor,
             rt_executors = (if executor \<noteq> None \<and> named ExecutorMock = None then named(ExecutorMock := executor) else named),
             rt_options = options\<rparr>)"

definition executorFor :: "Runtime \<Rightarrow> ExecutorKind \<Rightarrow> string option" where
  "executorFor rt kind =
     (case rt_executors rt kind of
        Some executor \<Rightarrow> Some executor
      | None \<Rightarrow> if kind = ExecutorMock then rt_executor rt else None)"

definition capacity :: "Runtime \<Rightarrow> int" where
  "capacity rt = rq_MaxConcurrency (wo_Registration (rt_options rt))"

section \<open>The state of a session\<close>

text \<open>One lease: its execution, its context, the channel for renewals and the goroutine of the deadline.\<close>

datatype execution = Starting | Executing | Submitting | Sending | Retrying | Leaving | Removing | Gone

datatype safety = SafetyStart | SafetyTimer time | SafetyEnd

record activeLease =
  al_lease :: Lease
  al_canceled :: bool
  al_renew :: "duration option"
  al_execution :: execution
  al_result :: "ExecutionResponse option"
  al_safety :: safety

definition new_lease :: "Lease \<Rightarrow> activeLease" where
  "new_lease lease = \<lparr>al_lease = lease, al_canceled = False, al_renew = None, al_execution = Starting, al_result = None, al_safety = SafetyStart\<rparr>"

datatype main_loop =
    Registering
  | Polling
  | Claiming int
  | StartingLeases "Lease list"
  | WaitingForCapacity
  | AfterLoop "client_error option"
  | Failing client_error bool
  | FailJoined client_error bool
  | Draining
  | DrainWaiting "WorkerStatus option" "client_error option"
  | DrainJoining "WorkerStatus option" "client_error option"
  | DrainJoined "WorkerStatus option" "client_error option"
  | FinalDraining "client_error option"
  | Stopping "client_error option"
  | Returned "client_error option"

datatype heartbeat_loop =
    NotStarted
  | Ticking
  | Beating "LeaseRef list"
  | Applying "LeaseHeartbeat list"
  | SentError
  | StoppedPolling
  | Ended

text \<open>
  The jobs are the goroutines of leases in the order they were started; \<^verbatim>\<open>active\<close> is the map of
  \<^verbatim>\<open>leaseState\<close> from dispatch to job. The list of completions records the requests that were sent.
\<close>

record session_state =
  st_main :: main_loop
  st_heartbeat :: heartbeat_loop
  st_heartbeatDone :: "client_error option option"
  st_parentDone :: bool
  st_runDone :: bool
  st_pollDone :: bool
  st_drainDone :: bool
  st_pollDelay :: duration
  st_jobs :: "activeLease list"
  st_active :: "(string \<times> nat) list"
  st_capacityAvailable :: bool
  st_wg :: int
  st_now :: time
  st_completions :: "(nat \<times> string \<times> ExecutionResponse) list"

definition new_session_state :: "Runtime \<Rightarrow> time \<Rightarrow> session_state" where
  "new_session_state rt now =
     \<lparr>st_main = Registering, st_heartbeat = NotStarted, st_heartbeatDone = None, st_parentDone = False, st_runDone = False, st_pollDone = False,
      st_drainDone = False, st_pollDelay = wo_PollMin (rt_options rt), st_jobs = [], st_active = [], st_capacityAvailable = False, st_wg = 0,
      st_now = now, st_completions = []\<rparr>"

definition job_update :: "nat \<Rightarrow> (activeLease \<Rightarrow> activeLease) \<Rightarrow> session_state \<Rightarrow> session_state" where
  "job_update i f s = s\<lparr>st_jobs := (st_jobs s)[i := f (st_jobs s ! i)]\<rparr>"

text \<open>The context of a lease is done when it was cancelled or the session was stopped.\<close>

definition lease_done :: "session_state \<Rightarrow> nat \<Rightarrow> bool" where
  "lease_done s i \<longleftrightarrow> al_canceled (st_jobs s ! i) \<or> st_runDone s"

definition poll_done :: "session_state \<Rightarrow> bool" where
  "poll_done s \<longleftrightarrow> st_pollDone s \<or> st_parentDone s"

section \<open>The table of active leases\<close>

definition lease_add :: "Lease \<Rightarrow> session_state \<Rightarrow> session_state" where
  "lease_add lease s =
     s\<lparr>st_jobs := st_jobs s @ [new_lease lease],
       st_active := AList.update (le_DispatchID lease) (length (st_jobs s)) (st_active s), st_wg := st_wg s + 1\<rparr>"

definition lease_remove :: "string \<Rightarrow> session_state \<Rightarrow> session_state" where
  "lease_remove dispatchID s =
     (if map_of (st_active s) dispatchID = None then s
      else s\<lparr>st_active := AList.delete dispatchID (st_active s), st_wg := st_wg s - 1, st_capacityAvailable := True\<rparr>)"

definition lease_count :: "session_state \<Rightarrow> int" where
  "lease_count s = int (length (st_active s))"

definition lease_refs :: "session_state \<Rightarrow> LeaseRef list" where
  "lease_refs s = map (\<lambda>(_, i). \<lparr>lr_DispatchID = le_DispatchID (al_lease (st_jobs s ! i)), lr_LeaseToken = le_LeaseToken (al_lease (st_jobs s ! i))\<rparr>) (st_active s)"

definition lease_cancel :: "string \<Rightarrow> session_state \<Rightarrow> session_state" where
  "lease_cancel dispatchID s =
     (case map_of (st_active s) dispatchID of None \<Rightarrow> s | Some i \<Rightarrow> job_update i (\<lambda>j. j\<lparr>al_canceled := True\<rparr>) s)"

text \<open>The channel keeps the latest value: a full one is emptied first.\<close>

definition lease_renew :: "string \<Rightarrow> duration \<Rightarrow> session_state \<Rightarrow> session_state" where
  "lease_renew dispatchID remaining s =
     (case map_of (st_active s) dispatchID of
        None \<Rightarrow> s
      | Some i \<Rightarrow>
          if remaining \<le> 0 then job_update i (\<lambda>j. j\<lparr>al_canceled := True\<rparr>) s
          else job_update i (\<lambda>j. j\<lparr>al_renew := Some remaining\<rparr>) s)"

definition cancelAll :: "session_state \<Rightarrow> session_state" where
  "cancelAll s = foldr (\<lambda>(dispatchID, i). job_update i (\<lambda>j. j\<lparr>al_canceled := True\<rparr>)) (st_active s) s"

text \<open>One entry of a heartbeat's response.\<close>

definition apply_heartbeat :: "LeaseHeartbeat \<Rightarrow> session_state \<Rightarrow> session_state" where
  "apply_heartbeat item s =
     (case lh_Status item of
        LeaseRenewed \<Rightarrow> lease_renew (lh_DispatchID item) (millis (lh_LeaseRemainingMillis item)) s
      | LeaseRevoked \<Rightarrow> lease_cancel (lh_DispatchID item) s
      | LeaseUnknown \<Rightarrow> lease_cancel (lh_DispatchID item) s)"

definition joined_error :: "client_error option \<Rightarrow> client_error option \<Rightarrow> client_error option" where
  "joined_error drainErr finalErr =
     (case (finalErr, drainErr) of
        (None, _) \<Rightarrow> None
      | (Some e, None) \<Rightarrow> Some e
      | (Some e, Some e') \<Rightarrow> Some (ClientFailure ''errors.Join''))"

section \<open>Steps\<close>

definition waiting_state :: "Runtime \<Rightarrow> session_state \<Rightarrow> session_state" where
  "waiting_state rt s =
     s\<lparr>st_main := WaitingForCapacity, st_pollDelay := nextPollDelay (st_pollDelay s) (wo_PollMin (rt_options rt)) (wo_PollMax (rt_options rt))\<rparr>"

definition run_result :: "session_state \<Rightarrow> client_error option \<Rightarrow> client_error option" where
  "run_result s drainErr =
     (if drainErr \<noteq> None \<and> \<not> st_parentDone s then drainErr
      else if st_parentDone s then Some (ClientFailure ''context canceled'') else None)"

definition in_drain :: "main_loop \<Rightarrow> bool" where
  "in_drain m = (case m of Draining \<Rightarrow> True | DrainWaiting _ _ \<Rightarrow> True | DrainJoining _ _ \<Rightarrow> True | DrainJoined _ _ \<Rightarrow> True
     | FinalDraining _ \<Rightarrow> True | Stopping _ \<Rightarrow> True | _ \<Rightarrow> False)"

definition seen :: "session_state \<Rightarrow> string set" where
  "seen s = set (map (\<lambda>j. le_DispatchID (al_lease j)) (st_jobs s))"

text \<open>\<^verbatim>\<open>grants\<close> relates the dispatches seen before and the slots asked for to the leases a claim may return.
  An error of a registration includes the one for incomplete credentials.\<close>

inductive main_step :: "Runtime \<Rightarrow> (string set \<Rightarrow> int \<Rightarrow> Lease list \<Rightarrow> bool) \<Rightarrow> session_state \<Rightarrow> session_state \<Rightarrow> bool"
  for rt grants where
  m_register_fails: "st_main s = Registering \<Longrightarrow> main_step rt grants s (s\<lparr>st_main := Returned (Some e)\<rparr>)"
| m_register: "st_main s = Registering \<Longrightarrow> main_step rt grants s (s\<lparr>st_main := Polling, st_heartbeat := Ticking\<rparr>)"
| m_poll_end: "st_main s = Polling \<Longrightarrow> st_parentDone s \<or> st_runDone s \<Longrightarrow> main_step rt grants s (s\<lparr>st_main := AfterLoop None\<rparr>)"
| m_claim: "st_main s = Polling \<Longrightarrow> \<not> st_parentDone s \<Longrightarrow> \<not> st_runDone s \<Longrightarrow> slots = capacity rt - lease_count s \<Longrightarrow> 0 < slots \<Longrightarrow>
    main_step rt grants s (s\<lparr>st_main := Claiming slots\<rparr>)"
| m_full: "st_main s = Polling \<Longrightarrow> \<not> st_parentDone s \<Longrightarrow> \<not> st_runDone s \<Longrightarrow> capacity rt - lease_count s \<le> 0 \<Longrightarrow>
    main_step rt grants s (waiting_state rt s)"
| m_claimed: "st_main s = Claiming slots \<Longrightarrow> grants (seen s) slots ls \<Longrightarrow> ls \<noteq> [] \<Longrightarrow>
    main_step rt grants s (s\<lparr>st_main := StartingLeases ls, st_pollDelay := wo_PollMin (rt_options rt)\<rparr>)"
| m_claimed_nothing: "st_main s = Claiming slots \<Longrightarrow> \<not> isPermanentSessionError err \<Longrightarrow> main_step rt grants s (waiting_state rt s)"
| m_claim_fails: "st_main s = Claiming slots \<Longrightarrow> isPermanentSessionError (Some e) \<Longrightarrow>
    main_step rt grants s (s\<lparr>st_main := AfterLoop (Some e), st_pollDone := True, st_runDone := True\<rparr>)"
| m_start: "st_main s = StartingLeases (l # ls) \<Longrightarrow> main_step rt grants s ((lease_add l s)\<lparr>st_main := StartingLeases ls\<rparr>)"
| m_started: "st_main s = StartingLeases [] \<Longrightarrow> main_step rt grants s (s\<lparr>st_main := Polling\<rparr>)"
| m_wait_done: "st_main s = WaitingForCapacity \<Longrightarrow> poll_done s \<Longrightarrow> main_step rt grants s (s\<lparr>st_main := AfterLoop None\<rparr>)"
| m_wait_capacity: "st_main s = WaitingForCapacity \<Longrightarrow> st_capacityAvailable s \<Longrightarrow>
    main_step rt grants s (s\<lparr>st_main := Polling, st_capacityAvailable := False, st_pollDelay := wo_PollMin (rt_options rt)\<rparr>)"
| m_wait_timer: "st_main s = WaitingForCapacity \<Longrightarrow> main_step rt grants s (s\<lparr>st_main := Polling\<rparr>)"
| m_session_error: "st_main s = AfterLoop (Some e) \<Longrightarrow> main_step rt grants s ((cancelAll s)\<lparr>st_main := Failing e False, st_runDone := True\<rparr>)"
| m_heartbeat_error: "st_main s = AfterLoop None \<Longrightarrow> \<not> st_parentDone s \<Longrightarrow> st_runDone s \<Longrightarrow> st_heartbeatDone s = Some (Some e) \<Longrightarrow>
    main_step rt grants s ((cancelAll s)\<lparr>st_main := Failing e True, st_heartbeatDone := None\<rparr>)"
| m_heartbeat_ended: "st_main s = AfterLoop None \<Longrightarrow> \<not> st_parentDone s \<Longrightarrow> st_runDone s \<Longrightarrow> st_heartbeatDone s = Some None \<Longrightarrow>
    main_step rt grants s (s\<lparr>st_main := Draining, st_heartbeatDone := None\<rparr>)"
| m_to_drain: "st_main s = AfterLoop None \<Longrightarrow> st_parentDone s \<or> \<not> st_runDone s \<Longrightarrow> main_step rt grants s (s\<lparr>st_main := Draining\<rparr>)"
| m_fail_joined: "st_main s = Failing e b \<Longrightarrow> st_wg s = 0 \<Longrightarrow> main_step rt grants s (s\<lparr>st_main := FailJoined e b\<rparr>)"
| m_fail_return: "st_main s = FailJoined e True \<Longrightarrow> main_step rt grants s (s\<lparr>st_main := Returned (Some e)\<rparr>)"
| m_fail_wait: "st_main s = FailJoined e False \<Longrightarrow> st_heartbeatDone s \<noteq> None \<Longrightarrow>
    main_step rt grants s (s\<lparr>st_main := Returned (Some e), st_heartbeatDone := None\<rparr>)"
| m_drained: "st_main s = Draining \<Longrightarrow> main_step rt grants s (s\<lparr>st_main := DrainWaiting (Some status) None\<rparr>)"
| m_drain_fails: "st_main s = Draining \<Longrightarrow> main_step rt grants s (s\<lparr>st_main := DrainWaiting None (Some e)\<rparr>)"
| m_drain_idle: "st_main s = DrainWaiting status err \<Longrightarrow> lease_count s = 0 \<Longrightarrow> main_step rt grants s (s\<lparr>st_main := DrainJoining status err\<rparr>)"
| m_drain_timeout: "st_main s = DrainWaiting status err \<Longrightarrow> st_drainDone s \<Longrightarrow> 0 < lease_count s \<Longrightarrow>
    main_step rt grants s ((cancelAll s)\<lparr>st_main := DrainJoining status err\<rparr>)"
| m_drain_joined: "st_main s = DrainJoining status err \<Longrightarrow> st_wg s = 0 \<Longrightarrow> main_step rt grants s (s\<lparr>st_main := DrainJoined status err\<rparr>)"
| m_final_drain: "st_main s = DrainJoined status err \<Longrightarrow> status \<noteq> Some WorkerStopped \<Longrightarrow> \<not> st_drainDone s \<Longrightarrow>
    main_step rt grants s (s\<lparr>st_main := FinalDraining err\<rparr>)"
| m_no_final_drain: "st_main s = DrainJoined status err \<Longrightarrow> status = Some WorkerStopped \<or> st_drainDone s \<Longrightarrow>
    main_step rt grants s (s\<lparr>st_main := Stopping err, st_runDone := True\<rparr>)"
| m_final_drained: "st_main s = FinalDraining err \<Longrightarrow>
    main_step rt grants s (s\<lparr>st_main := Stopping (joined_error err finalErr), st_runDone := True\<rparr>)"
| m_return: "st_main s = Stopping err \<Longrightarrow> st_heartbeatDone s \<noteq> None \<Longrightarrow>
    main_step rt grants s (s\<lparr>st_main := Returned (run_result s err), st_heartbeatDone := None\<rparr>)"

inductive heartbeat_step :: "session_state \<Rightarrow> session_state \<Rightarrow> bool" where
  h_stop: "st_heartbeat s = Ticking \<Longrightarrow> st_runDone s \<Longrightarrow> heartbeat_step s (s\<lparr>st_heartbeat := Ended, st_heartbeatDone := Some None\<rparr>)"
| h_tick: "st_heartbeat s = Ticking \<Longrightarrow> heartbeat_step s (s\<lparr>st_heartbeat := Beating (lease_refs s)\<rparr>)"
| h_response: "st_heartbeat s = Beating refs \<Longrightarrow> heartbeat_step s (s\<lparr>st_heartbeat := Applying beats\<rparr>)"
| h_apply: "st_heartbeat s = Applying (b # beats) \<Longrightarrow> heartbeat_step s ((apply_heartbeat b s)\<lparr>st_heartbeat := Applying beats\<rparr>)"
| h_applied: "st_heartbeat s = Applying [] \<Longrightarrow> heartbeat_step s (s\<lparr>st_heartbeat := Ticking\<rparr>)"
| h_error: "st_heartbeat s = Beating refs \<Longrightarrow> \<not> isPermanentSessionError (Some e) \<Longrightarrow> heartbeat_step s (s\<lparr>st_heartbeat := Ticking\<rparr>)"
| h_fatal: "st_heartbeat s = Beating refs \<Longrightarrow> isPermanentSessionError (Some e) \<Longrightarrow>
    heartbeat_step s (s\<lparr>st_heartbeat := SentError, st_heartbeatDone := Some (Some e)\<rparr>)"
| h_stop_polling: "st_heartbeat s = SentError \<Longrightarrow> heartbeat_step s (s\<lparr>st_heartbeat := StoppedPolling, st_pollDone := True\<rparr>)"
| h_stop_session: "st_heartbeat s = StoppedPolling \<Longrightarrow> heartbeat_step s (s\<lparr>st_heartbeat := Ended, st_runDone := True\<rparr>)"

text \<open>The goroutine of one lease. A submission goes on until it is accepted, or refused with
  \<^verbatim>\<open>lease_lost\<close> or \<^verbatim>\<open>result_conflict\<close>, or the lease ends.\<close>

definition submission_final :: "client_error option \<Rightarrow> bool" where
  "submission_final err =
     (case err of None \<Rightarrow> True | Some (ClientAPIError status code) \<Rightarrow> code = ''lease_lost'' \<or> code = ''result_conflict'' | Some (ClientFailure _) \<Rightarrow> False)"

definition job_to :: "nat \<Rightarrow> execution \<Rightarrow> session_state \<Rightarrow> session_state" where
  "job_to i e = job_update i (\<lambda>j. j\<lparr>al_execution := e\<rparr>)"

inductive job_step :: "Runtime \<Rightarrow> nat \<Rightarrow> session_state \<Rightarrow> session_state \<Rightarrow> bool" for rt i where
  j_unsupported: "al_execution (st_jobs s ! i) = Starting \<Longrightarrow> executorFor rt (le_ExecutorKind (al_lease (st_jobs s ! i))) = None \<Longrightarrow>
    job_step rt i s (job_to i Leaving s)"
| j_execute: "al_execution (st_jobs s ! i) = Starting \<Longrightarrow> executorFor rt (le_ExecutorKind (al_lease (st_jobs s ! i))) \<noteq> None \<Longrightarrow>
    job_step rt i s (job_to i Executing s)"
| j_result: "al_execution (st_jobs s ! i) = Executing \<Longrightarrow> \<not> lease_done s i \<Longrightarrow> ep_Kind response \<noteq> ResultCanceled \<Longrightarrow>
    job_step rt i s (job_update i (\<lambda>j. j\<lparr>al_execution := Submitting, al_result := Some response\<rparr>) s)"
| j_stopped: "al_execution (st_jobs s ! i) = Executing \<Longrightarrow> lease_done s i \<or> ep_Kind (response :: ExecutionResponse) = ResultCanceled \<Longrightarrow>
    job_step rt i s (job_to i Leaving s)"
| j_send: "al_execution (st_jobs s ! i) = Submitting \<Longrightarrow> \<not> lease_done s i \<Longrightarrow> al_result (st_jobs s ! i) = Some response \<Longrightarrow>
    job_step rt i s ((job_to i Sending s)\<lparr>st_completions := st_completions s @ [(i, le_LeaseToken (al_lease (st_jobs s ! i)), response)]\<rparr>)"
| j_sent: "al_execution (st_jobs s ! i) = Sending \<Longrightarrow> submission_final err \<Longrightarrow> job_step rt i s (job_to i Leaving s)"
| j_retry: "al_execution (st_jobs s ! i) = Sending \<Longrightarrow> \<not> submission_final err \<Longrightarrow> job_step rt i s (job_to i Retrying s)"
| j_again: "al_execution (st_jobs s ! i) = Retrying \<Longrightarrow> job_step rt i s (job_to i Submitting s)"
| j_give_up: "al_execution (st_jobs s ! i) \<in> {Submitting, Retrying} \<Longrightarrow> lease_done s i \<Longrightarrow> job_step rt i s (job_to i Leaving s)"
| j_cancel: "al_execution (st_jobs s ! i) = Leaving \<Longrightarrow> job_step rt i s (job_update i (\<lambda>j. j\<lparr>al_execution := Removing, al_canceled := True\<rparr>) s)"
| j_remove: "al_execution (st_jobs s ! i) = Removing \<Longrightarrow>
    job_step rt i s (lease_remove (le_DispatchID (al_lease (st_jobs s ! i))) (job_to i Gone s))"

definition safety_to :: "nat \<Rightarrow> safety \<Rightarrow> session_state \<Rightarrow> session_state" where
  "safety_to i t = job_update i (\<lambda>j. j\<lparr>al_safety := t\<rparr>)"

definition safety_cancel :: "nat \<Rightarrow> session_state \<Rightarrow> session_state" where
  "safety_cancel i = job_update i (\<lambda>j. j\<lparr>al_canceled := True, al_renew := None, al_safety := SafetyEnd\<rparr>)"

inductive safety_step :: "Runtime \<Rightarrow> nat \<Rightarrow> session_state \<Rightarrow> session_state \<Rightarrow> bool" for rt i where
  s_expired: "al_safety (st_jobs s ! i) = SafetyStart \<Longrightarrow>
    localSafetyDelay (al_lease (st_jobs s ! i)) (wo_SafetyMargin (rt_options rt)) (st_now s) \<le> 0 \<Longrightarrow>
    safety_step rt i s (job_update i (\<lambda>j. j\<lparr>al_canceled := True, al_safety := SafetyEnd\<rparr>) s)"
| s_start: "al_safety (st_jobs s ! i) = SafetyStart \<Longrightarrow>
    delay = localSafetyDelay (al_lease (st_jobs s ! i)) (wo_SafetyMargin (rt_options rt)) (st_now s) \<Longrightarrow> 0 < delay \<Longrightarrow>
    safety_step rt i s (safety_to i (SafetyTimer (st_now s + delay)) s)"
| s_done: "al_safety (st_jobs s ! i) = SafetyTimer t \<Longrightarrow> lease_done s i \<Longrightarrow> safety_step rt i s (safety_to i SafetyEnd s)"
| s_fire: "al_safety (st_jobs s ! i) = SafetyTimer t \<Longrightarrow> t \<le> st_now s \<Longrightarrow>
    safety_step rt i s (job_update i (\<lambda>j. j\<lparr>al_canceled := True, al_safety := SafetyEnd\<rparr>) s)"
| s_renew: "al_safety (st_jobs s ! i) = SafetyTimer t \<Longrightarrow> al_renew (st_jobs s ! i) = Some remaining \<Longrightarrow>
    delay = renewed_delay (al_lease (st_jobs s ! i)) (wo_SafetyMargin (rt_options rt)) (st_now s) remaining \<Longrightarrow> 0 < delay \<Longrightarrow>
    safety_step rt i s (job_update i (\<lambda>j. j\<lparr>al_renew := None, al_safety := SafetyTimer (st_now s + delay)\<rparr>) s)"
| s_renew_late: "al_safety (st_jobs s ! i) = SafetyTimer t \<Longrightarrow> al_renew (st_jobs s ! i) = Some remaining \<Longrightarrow>
    renewed_delay (al_lease (st_jobs s ! i)) (wo_SafetyMargin (rt_options rt)) (st_now s) remaining \<le> 0 \<Longrightarrow>
    safety_step rt i s (safety_cancel i s)"

inductive session_step :: "Runtime \<Rightarrow> (string set \<Rightarrow> int \<Rightarrow> Lease list \<Rightarrow> bool) \<Rightarrow> session_state \<Rightarrow> session_state \<Rightarrow> bool" for rt grants where
  ss_main: "main_step rt grants s s' \<Longrightarrow> session_step rt grants s s'"
| ss_heartbeat: "heartbeat_step s s' \<Longrightarrow> session_step rt grants s s'"
| ss_job: "i < length (st_jobs s) \<Longrightarrow> job_step rt i s s' \<Longrightarrow> session_step rt grants s s'"
| ss_safety: "i < length (st_jobs s) \<Longrightarrow> safety_step rt i s s' \<Longrightarrow> session_step rt grants s s'"
| ss_time: "st_now s \<le> t \<Longrightarrow> session_step rt grants s (s\<lparr>st_now := t\<rparr>)"
| ss_interrupt: "session_step rt grants s (s\<lparr>st_parentDone := True\<rparr>)"
| ss_drain_timeout: "in_drain (st_main s) \<Longrightarrow> session_step rt grants s (s\<lparr>st_drainDone := True\<rparr>)"

section \<open>The invariant\<close>

text \<open>What a claim owes the worker: no more leases than slots, and no dispatch twice.\<close>

locale lease_server =
  fixes grants :: "string set \<Rightarrow> int \<Rightarrow> Lease list \<Rightarrow> bool"
  assumes grants_bounded: "grants known slots ls \<Longrightarrow> int (length ls) \<le> slots"
    and grants_distinct: "grants known slots ls \<Longrightarrow> distinct (map le_DispatchID ls)"
    and grants_new: "grants known slots ls \<Longrightarrow> set (map le_DispatchID ls) \<inter> known = {}"

definition job_view :: "activeLease \<Rightarrow> string \<times> bool" where
  "job_view j = (le_DispatchID (al_lease j), al_execution j = Gone)"

primrec reserved :: "main_loop \<Rightarrow> int" where
  "reserved Registering = 0"
| "reserved Polling = 0"
| "reserved (Claiming slots) = slots"
| "reserved (StartingLeases ls) = int (length ls)"
| "reserved WaitingForCapacity = 0"
| "reserved (AfterLoop _) = 0"
| "reserved (Failing _ _) = 0"
| "reserved (FailJoined _ _) = 0"
| "reserved Draining = 0"
| "reserved (DrainWaiting _ _) = 0"
| "reserved (DrainJoining _ _) = 0"
| "reserved (DrainJoined _ _) = 0"
| "reserved (FinalDraining _) = 0"
| "reserved (Stopping _) = 0"
| "reserved (Returned _) = 0"

definition starting :: "main_loop \<Rightarrow> Lease list" where
  "starting m = (case m of StartingLeases ls \<Rightarrow> ls | _ \<Rightarrow> [])"

definition all_left :: "main_loop \<Rightarrow> bool" where
  "all_left m = (case m of Registering \<Rightarrow> True | FailJoined _ _ \<Rightarrow> True | DrainJoined _ _ \<Rightarrow> True | FinalDraining _ \<Rightarrow> True | Stopping _ \<Rightarrow> True | Returned _ \<Rightarrow> True | _ \<Rightarrow> False)"

text \<open>The table of active leases: it lists exactly the jobs that have not left.\<close>

definition table_ok :: "int \<Rightarrow> (string \<times> bool) list \<Rightarrow> (string \<times> nat) list \<Rightarrow> int \<Rightarrow> main_loop \<Rightarrow> bool" where
  "table_ok cap views act wg m \<longleftrightarrow>
     distinct (map fst views @ map le_DispatchID (starting m)) \<and>
     distinct (map fst act) \<and> (\<forall>p. p \<in> set act \<longleftrightarrow> snd p < length views \<and> fst p = fst (views ! snd p) \<and> \<not> snd (views ! snd p)) \<and>
     wg = int (length act) \<and> 0 \<le> reserved m \<and> int (length act) + reserved m \<le> cap \<and> (all_left m \<longrightarrow> act = [])"

definition table_inv :: "Runtime \<Rightarrow> session_state \<Rightarrow> bool" where
  "table_inv rt s \<longleftrightarrow> table_ok (capacity rt) (map job_view (st_jobs s)) (st_active s) (st_wg s) (st_main s)"

lemma job_update_fields [simp]:
  "st_main (job_update i f s) = st_main s" "st_heartbeat (job_update i f s) = st_heartbeat s" "st_active (job_update i f s) = st_active s"
  "st_wg (job_update i f s) = st_wg s" "st_completions (job_update i f s) = st_completions s" "st_now (job_update i f s) = st_now s"
  "st_heartbeatDone (job_update i f s) = st_heartbeatDone s" "st_runDone (job_update i f s) = st_runDone s" "st_parentDone (job_update i f s) = st_parentDone s"
  "st_jobs (job_update i f s) = (st_jobs s)[i := f (st_jobs s ! i)]" "st_capacityAvailable (job_update i f s) = st_capacityAvailable s"
  by (simp_all add: job_update_def)

lemma map_update_same: "(i < length xs \<Longrightarrow> g (f (xs ! i)) = g (xs ! i)) \<Longrightarrow> map g (xs[i := f (xs ! i)]) = map g xs"
  by (cases "i < length xs") (auto simp: map_update list_update_same_conv list_update_beyond)

lemma table_inv_job_update:
  "(i < length (st_jobs s) \<Longrightarrow> job_view (f (st_jobs s ! i)) = job_view (st_jobs s ! i)) \<Longrightarrow> table_inv rt (job_update i f s) = table_inv rt s"
  by (simp add: table_inv_def map_update_same)

lemma table_ok_main:
  "table_ok cap views act wg m \<Longrightarrow> reserved m' = 0 \<Longrightarrow> starting m' = [] \<Longrightarrow> all_left m' \<longrightarrow> all_left m \<or> wg = 0 \<Longrightarrow> table_ok cap views act wg m'"
  by (auto simp: table_ok_def)

lemma table_ok_start:
  assumes "table_ok cap views act wg (StartingLeases (l # ls))"
  shows "table_ok cap (views @ [(le_DispatchID l, False)]) (AList.update (le_DispatchID l) (length views) act) (wg + 1) (StartingLeases ls)"
proof -
  have act: "p \<in> set act \<longleftrightarrow> snd p < length views \<and> fst p = fst (views ! snd p) \<and> \<not> snd (views ! snd p)" for p
    using assms unfolding table_ok_def by blast
  have fresh_id: "le_DispatchID l \<notin> fst ` set views" using assms by (auto simp: table_ok_def starting_def)
  have new_id: "le_DispatchID l \<notin> fst ` set act"
  proof
    assume "le_DispatchID l \<in> fst ` set act"
    then obtain p where "p \<in> set act" "fst p = le_DispatchID l" by auto
    then have "le_DispatchID l \<in> fst ` set views" using act [of p] by (metis image_eqI nth_mem)
    with fresh_id show False by simp
  qed
  then have upd: "AList.update (le_DispatchID l) (length views) act = act @ [(le_DispatchID l, length views)]"
  proof (induction act)
    case (Cons p act)
    then show ?case by (cases p) auto
  qed simp
  have "p \<in> set (act @ [(le_DispatchID l, length views)]) \<longleftrightarrow> snd p < length (views @ [(le_DispatchID l, False)]) \<and>
      fst p = fst ((views @ [(le_DispatchID l, False)]) ! snd p) \<and> \<not> snd ((views @ [(le_DispatchID l, False)]) ! snd p)" for p
    using act [of p] by (cases p) (auto simp: nth_append less_Suc_eq)
  moreover have "distinct (map fst (views @ [(le_DispatchID l, False)]) @ map le_DispatchID ls)" "wg + 1 = int (length act) + 1"
    "int (length act) + 1 + int (length ls) \<le> cap" "distinct (map fst act)"
    using assms by (auto simp: table_ok_def starting_def)
  ultimately show ?thesis
    unfolding upd table_ok_def using new_id by (simp add: starting_def all_left_def)
qed

lemma length_delete: "distinct (map fst act) \<Longrightarrow> k \<in> fst ` set act \<Longrightarrow> length (AList.delete k act) + 1 = length act"
proof (induction act)
  case (Cons p act)
  have "AList.delete k act = act" if "k \<notin> fst ` set act" using that by (simp add: AList.delete_idem)
  then show ?case using Cons by (cases p) auto
qed simp

lemma table_ok_remove:
  assumes ok: "table_ok cap views act wg m" and i: "i < length views" "\<not> snd (views ! i)"
  shows "map_of act (fst (views ! i)) = Some i"
    and "table_ok cap (views[i := (fst (views ! i), True)]) (AList.delete (fst (views ! i)) act) (wg - 1) m"
proof -
  have act: "p \<in> set act \<longleftrightarrow> snd p < length views \<and> fst p = fst (views ! snd p) \<and> \<not> snd (views ! snd p)" for p
    using ok unfolding table_ok_def by blast
  have d: "distinct (map fst act)" and dv: "distinct (map fst views)" using ok by (simp_all add: table_ok_def)
  have mem: "(fst (views ! i), i) \<in> set act" using i act by simp
  then show "map_of act (fst (views ! i)) = Some i" using d by simp
  have same: "fst (views ! k) = fst (views ! i) \<longleftrightarrow> k = i" if "k < length views" for k
    using dv i that nth_eq_iff_index_eq [of "map fst views" k i] by simp
  have del: "set (AList.delete (fst (views ! i)) act) = {p \<in> set act. fst p \<noteq> fst (views ! i)}"
    by (auto simp: AList.delete_eq)
  have "length (AList.delete (fst (views ! i)) act) + 1 = length act"
    using d mem by (intro length_delete) force+
  moreover have "p \<in> set (AList.delete (fst (views ! i)) act) \<longleftrightarrow> snd p < length (views[i := (fst (views ! i), True)]) \<and>
      fst p = fst (views[i := (fst (views ! i), True)] ! snd p) \<and> \<not> snd (views[i := (fst (views ! i), True)] ! snd p)" for p
    unfolding del using act [of p] i same [of "snd p"] by (auto simp: nth_list_update)
  moreover have "map fst (views[i := (fst (views ! i), True)]) = map fst views"
    using i by (simp add: map_update list_update_same_conv)
  moreover have "act \<noteq> []" using mem by auto
  ultimately show "table_ok cap (views[i := (fst (views ! i), True)]) (AList.delete (fst (views ! i)) act) (wg - 1) m"
    using ok d by (simp add: table_ok_def distinct_delete map_append del: map_map)
qed

subsection \<open>Steps that keep the table\<close>

definition cancels :: "session_state \<Rightarrow> session_state \<Rightarrow> bool" where
  "cancels s s' \<longleftrightarrow> (\<exists>f. s' = s\<lparr>st_jobs := map2 (\<lambda>j b. j\<lparr>al_canceled := b\<rparr>) (st_jobs s) f\<rparr> \<and> length f = length (st_jobs s))"

lemma cancels_refl: "cancels s s"
proof -
  have "st_jobs s = map2 (\<lambda>j b. j\<lparr>al_canceled := b\<rparr>) (st_jobs s) (map al_canceled (st_jobs s))"
    by (rule nth_equalityI) auto
  then show ?thesis unfolding cancels_def by (intro exI [of _ "map al_canceled (st_jobs s)"]) simp
qed

lemma cancels_update: "cancels s s' \<Longrightarrow> cancels s (job_update i (\<lambda>j. j\<lparr>al_canceled := True\<rparr>) s')"
proof -
  assume "cancels s s'"
  then obtain f where f: "s' = s\<lparr>st_jobs := map2 (\<lambda>j b. j\<lparr>al_canceled := b\<rparr>) (st_jobs s) f\<rparr>" "length f = length (st_jobs s)"
    by (auto simp: cancels_def)
  have "(st_jobs s')[i := (st_jobs s' ! i)\<lparr>al_canceled := True\<rparr>] = map2 (\<lambda>j b. j\<lparr>al_canceled := b\<rparr>) (st_jobs s) (f[i := True])"
    using f(2) by (cases "i < length f"; intro nth_equalityI) (auto simp: f(1) nth_list_update list_update_beyond)
  then show ?thesis unfolding cancels_def by (intro exI [of _ "f[i := True]"]) (simp add: job_update_def f)
qed

lemma cancelAll_cancels: "cancels s (cancelAll s)"
proof -
  have "cancels s (foldr (\<lambda>(dispatchID, i). job_update i (\<lambda>j. j\<lparr>al_canceled := True\<rparr>)) xs s)" for xs
    by (induction xs) (auto simp: cancels_refl intro: cancels_update)
  then show ?thesis by (simp add: cancelAll_def)
qed

lemma cancelsD:
  assumes "cancels s s'"
  shows "st_main s' = st_main s" "st_heartbeat s' = st_heartbeat s" "st_active s' = st_active s" "st_wg s' = st_wg s" "st_completions s' = st_completions s"
    "st_heartbeatDone s' = st_heartbeatDone s" "length (st_jobs s') = length (st_jobs s)" "map job_view (st_jobs s') = map job_view (st_jobs s)"
    "k < length (st_jobs s) \<Longrightarrow> \<exists>b. st_jobs s' ! k = (st_jobs s ! k)\<lparr>al_canceled := b\<rparr>"
proof -
  obtain f where f: "s' = s\<lparr>st_jobs := map2 (\<lambda>j b. j\<lparr>al_canceled := b\<rparr>) (st_jobs s) f\<rparr>" "length f = length (st_jobs s)"
    using assms by (auto simp: cancels_def)
  then show "st_main s' = st_main s" "st_heartbeat s' = st_heartbeat s" "st_active s' = st_active s" "st_wg s' = st_wg s" "st_completions s' = st_completions s"
    "st_heartbeatDone s' = st_heartbeatDone s" "length (st_jobs s') = length (st_jobs s)" by simp_all
  show "map job_view (st_jobs s') = map job_view (st_jobs s)" by (rule nth_equalityI) (auto simp: f job_view_def)
  show "k < length (st_jobs s) \<Longrightarrow> \<exists>b. st_jobs s' ! k = (st_jobs s ! k)\<lparr>al_canceled := b\<rparr>" using f by auto
qed

lemmas cancelAll_fields [simp] = cancelsD(1-8) [OF cancelAll_cancels]

lemma lease_cancel_cases: "lease_cancel d s = s \<or> (\<exists>i. lease_cancel d s = job_update i (\<lambda>j. j\<lparr>al_canceled := True\<rparr>) s)"
  by (auto simp: lease_cancel_def split: option.splits)

lemma apply_heartbeat_cases:
  obtains "apply_heartbeat b s = s" | i where "apply_heartbeat b s = job_update i (\<lambda>j. j\<lparr>al_canceled := True\<rparr>) s"
  | i remaining where "apply_heartbeat b s = job_update i (\<lambda>j. j\<lparr>al_renew := Some remaining\<rparr>) s"
  unfolding apply_heartbeat_def lease_renew_def lease_cancel_def
  by (cases "lh_Status b"; cases "map_of (st_active s) (lh_DispatchID b)"; cases "millis (lh_LeaseRemainingMillis b) \<le> 0") auto

context lease_server
begin

lemma main_step_table:
  assumes "main_step rt grants s s'" and "table_inv rt s"
  shows "table_inv rt s'"
  using assms
proof (induction rule: main_step.induct)
  case (m_claim s slots)
  then show ?case by (auto simp: table_inv_def table_ok_def starting_def all_left_def lease_count_def)
next
  case (m_claimed s slots ls)
  then have "table_ok (capacity rt) (map job_view (st_jobs s)) (st_active s) (st_wg s) (Claiming slots)" by (simp add: table_inv_def)
  moreover have "map fst (map job_view (st_jobs s)) = map (\<lambda>j. le_DispatchID (al_lease j)) (st_jobs s)" by (simp add: job_view_def)
  ultimately show ?case
    using grants_bounded [OF m_claimed(2)] grants_distinct [OF m_claimed(2)] grants_new [OF m_claimed(2)]
    unfolding table_inv_def table_ok_def by (auto simp: starting_def all_left_def seen_def)
next
  case (m_start s l ls)
  then show ?case using table_ok_start [of "capacity rt" "map job_view (st_jobs s)" "st_active s" "st_wg s" l ls]
    by (simp add: table_inv_def lease_add_def job_view_def new_lease_def)
qed (auto simp: table_inv_def waiting_state_def starting_def all_left_def lease_count_def elim!: table_ok_main)

lemma session_step_table:
  assumes "session_step rt grants s s'" and "table_inv rt s"
  shows "table_inv rt s'"
  using assms(1)
proof cases
  case ss_main
  then show ?thesis using main_step_table assms(2) by blast
next
  case ss_heartbeat
  then show ?thesis
  proof cases
    case (h_apply b beats)
    have "table_inv rt (apply_heartbeat b s)"
      by (rule apply_heartbeat_cases [of b s]) (simp_all add: assms(2) table_inv_job_update job_view_def)
    then show ?thesis using h_apply by (simp add: table_inv_def)
  qed (use assms(2) in \<open>simp_all add: table_inv_def\<close>)
next
  case (ss_job i)
  from ss_job(2) show ?thesis
  proof cases
    case j_remove
    let ?v = "map job_view (st_jobs s)"
    have ok: "table_ok (capacity rt) ?v (st_active s) (st_wg s) (st_main s)" using assms(2) by (simp add: table_inv_def)
    have i: "i < length ?v" "\<not> snd (?v ! i)" "fst (?v ! i) = le_DispatchID (al_lease (st_jobs s ! i))"
      using ss_job(1) j_remove by (simp_all add: job_view_def)
    have "map job_view ((st_jobs s)[i := (st_jobs s ! i)\<lparr>al_execution := Gone\<rparr>]) = ?v[i := (fst (?v ! i), True)]"
      using i by (simp add: map_update job_view_def)
    then show ?thesis using table_ok_remove [OF ok i(1,2)] i(3) j_remove by (simp add: table_inv_def lease_remove_def job_to_def)
  next
    case (j_send response)
    then show ?thesis using table_inv_job_update [of i s "\<lambda>j. j\<lparr>al_execution := Sending\<rparr>" rt] assms(2)
      by (simp add: table_inv_def job_to_def job_view_def)
  qed (use assms(2) in \<open>auto simp: job_to_def table_inv_job_update job_view_def\<close>)
next
  case (ss_safety i)
  from ss_safety(2) show ?thesis
    by cases (use assms(2) in \<open>simp_all add: safety_to_def safety_cancel_def table_inv_job_update job_view_def\<close>)
qed (use assms(2) in \<open>simp_all add: table_inv_def\<close>)

end

subsection \<open>Results, deadlines and the end of the session\<close>

definition job_ok :: "duration \<Rightarrow> activeLease \<Rightarrow> bool" where
  "job_ok margin j \<longleftrightarrow>
     (\<forall>r. al_result j = Some r \<longrightarrow> ep_Kind r \<noteq> ResultCanceled \<and> al_execution j \<notin> {Starting, Executing}) \<and>
     (\<forall>t. al_safety j = SafetyTimer t \<longrightarrow> t + margin \<le> le_AttemptDeadline (al_lease j))"

definition report_ok :: "activeLease list \<Rightarrow> nat \<times> string \<times> ExecutionResponse \<Rightarrow> bool" where
  "report_ok jobs = (\<lambda>(i, token, response). i < length jobs \<and> token = le_LeaseToken (al_lease (jobs ! i)) \<and> al_result (jobs ! i) = Some response)"

definition heartbeat_over :: "heartbeat_loop \<Rightarrow> bool" where
  "heartbeat_over h \<longleftrightarrow> h \<in> {SentError, StoppedPolling, Ended}"

definition heartbeat_ok :: "main_loop \<Rightarrow> heartbeat_loop \<Rightarrow> bool \<Rightarrow> bool" where
  "heartbeat_ok m h sent \<longleftrightarrow>
     (sent \<longrightarrow> heartbeat_over h) \<and>
     (case m of Registering \<Rightarrow> h = NotStarted | Failing _ b \<Rightarrow> b \<longrightarrow> heartbeat_over h | FailJoined _ b \<Rightarrow> b \<longrightarrow> heartbeat_over h
      | Returned _ \<Rightarrow> h = NotStarted \<or> heartbeat_over h | _ \<Rightarrow> True)"

definition session_ok :: "Runtime \<Rightarrow> session_state \<Rightarrow> bool" where
  "session_ok rt s \<longleftrightarrow>
     list_all (job_ok (wo_SafetyMargin (rt_options rt))) (st_jobs s) \<and> list_all (report_ok (st_jobs s)) (st_completions s) \<and>
     heartbeat_ok (st_main s) (st_heartbeat s) (st_heartbeatDone s \<noteq> None)"

lemma session_ok_job:
  assumes "session_ok rt s" and "i < length (st_jobs s)"
    and "job_ok (wo_SafetyMargin (rt_options rt)) (f (st_jobs s ! i))"
    and "al_lease (f (st_jobs s ! i)) = al_lease (st_jobs s ! i)"
    and "al_result (st_jobs s ! i) \<noteq> None \<longrightarrow> al_result (f (st_jobs s ! i)) = al_result (st_jobs s ! i)"
  shows "session_ok rt (job_update i f s)"
proof -
  have "report_ok ((st_jobs s)[i := f (st_jobs s ! i)]) c" if "report_ok (st_jobs s) c" for c
    using that assms(2,4,5) by (auto simp: report_ok_def nth_list_update split: prod.splits)
  then show ?thesis using assms by (auto simp: session_ok_def list_all_iff dest!: set_update_subset_insert [THEN subsetD])
qed

lemma session_ok_cancels: "session_ok rt s \<Longrightarrow> cancels s s' \<Longrightarrow> session_ok rt s'"
proof -
  assume ok: "session_ok rt s" and c: "cancels s s'"
  note d = cancelsD [OF c]
  have "job_ok m (j\<lparr>al_canceled := b\<rparr>) = job_ok m j" for m j b by (simp add: job_ok_def)
  then have "list_all (job_ok (wo_SafetyMargin (rt_options rt))) (st_jobs s')"
    using ok d(7,9) by (fastforce simp: session_ok_def list_all_length)
  moreover have "report_ok (st_jobs s') x = report_ok (st_jobs s) x" for x
    using d(7,9) by (fastforce simp: report_ok_def split: prod.splits)
  ultimately show ?thesis using ok d by (simp add: session_ok_def list_all_iff)
qed

lemma update_beyond: "\<not> i < length (st_jobs s) \<Longrightarrow> job_update i f s = s"
  by (simp add: job_update_def list_update_beyond)

lemma nth_job_ok: "session_ok rt s \<Longrightarrow> i < length (st_jobs s) \<Longrightarrow> job_ok (wo_SafetyMargin (rt_options rt)) (st_jobs s ! i)"
  by (simp add: session_ok_def list_all_length)

lemma apply_heartbeat_ok: "session_ok rt s \<Longrightarrow> session_ok rt (apply_heartbeat b s)"
proof (rule apply_heartbeat_cases [of b s])
  fix i
  assume ok: "session_ok rt s" and b: "apply_heartbeat b s = job_update i (\<lambda>j. j\<lparr>al_canceled := True\<rparr>) s"
  show ?thesis
    unfolding b using session_ok_cancels [OF ok cancels_update [OF cancels_refl]] by blast
next
  fix i remaining
  assume ok: "session_ok rt s" and b: "apply_heartbeat b s = job_update i (\<lambda>j. j\<lparr>al_renew := Some remaining\<rparr>) s"
  show ?thesis
  proof (cases "i < length (st_jobs s)")
    case True
    then show ?thesis unfolding b using nth_job_ok [OF ok True] by (intro session_ok_job [OF ok]) (simp_all add: job_ok_def)
  next
    case False
    then show ?thesis unfolding b using ok by (simp add: update_beyond)
  qed
qed simp

lemma session_ok_frame:
  "session_ok rt s \<Longrightarrow> st_jobs s' = st_jobs s \<Longrightarrow> st_completions s' = st_completions s \<Longrightarrow>
    heartbeat_ok (st_main s') (st_heartbeat s') (st_heartbeatDone s' \<noteq> None) \<Longrightarrow> session_ok rt s'"
  by (simp add: session_ok_def)

lemma main_step_ok:
  assumes "main_step rt grants s s'" and ok: "session_ok rt s"
  shows "session_ok rt s'"
proof -
  have h: "heartbeat_ok (st_main s) (st_heartbeat s) (st_heartbeatDone s \<noteq> None)" using ok by (simp add: session_ok_def)
  have all: "session_ok rt (cancelAll s)" using session_ok_cancels [OF ok cancelAll_cancels] .
  show ?thesis
    using assms(1)
  proof cases
    case (m_start l ls)
    have "report_ok (st_jobs s @ [new_lease l]) c" if "report_ok (st_jobs s) c" for c
      using that by (auto simp: report_ok_def nth_append split: prod.splits)
    then show ?thesis using ok m_start
      by (auto simp: session_ok_def lease_add_def list_all_iff job_ok_def new_lease_def heartbeat_ok_def)
  next
    case (m_session_error e)
    then show ?thesis using all h by (auto simp: session_ok_def heartbeat_ok_def)
  next
    case (m_heartbeat_error e)
    then show ?thesis using all h by (auto simp: session_ok_def heartbeat_ok_def)
  next
    case (m_drain_timeout status err)
    then show ?thesis using all h by (auto simp: session_ok_def heartbeat_ok_def)
  qed (use h in \<open>auto intro!: session_ok_frame [OF ok] simp: waiting_state_def heartbeat_ok_def heartbeat_over_def\<close>)
qed

lemma heartbeat_step_ok:
  assumes "heartbeat_step s s'" and ok: "session_ok rt s"
  shows "session_ok rt s'"
proof -
  have h: "heartbeat_ok (st_main s) (st_heartbeat s) (st_heartbeatDone s \<noteq> None)" using ok by (simp add: session_ok_def)
  show ?thesis
    using assms(1)
  proof cases
    case (h_apply b beats)
    have same: "st_main (apply_heartbeat b s) = st_main s" "st_heartbeatDone (apply_heartbeat b s) = st_heartbeatDone s"
      by (rule apply_heartbeat_cases [of b s]; simp)+
    show ?thesis unfolding h_apply(1)
      by (rule session_ok_frame [OF apply_heartbeat_ok [OF ok, of b]])
        (use h h_apply(2) same in \<open>auto simp: heartbeat_ok_def heartbeat_over_def split: main_loop.splits\<close>)
  qed (use h in \<open>auto intro!: session_ok_frame [OF ok] simp: heartbeat_ok_def heartbeat_over_def split: main_loop.splits\<close>)
qed

lemma job_step_ok:
  assumes "job_step rt i s s'" and i: "i < length (st_jobs s)" and ok: "session_ok rt s"
  shows "session_ok rt s'"
proof -
  note j = nth_job_ok [OF ok i]
  have to: "session_ok rt (job_to i e s)" if "e \<notin> {Starting, Executing} \<or> al_result (st_jobs s ! i) = None" for e
    unfolding job_to_def using j that by (intro session_ok_job [OF ok i]) (auto simp: job_ok_def split: option.splits)
  show ?thesis
    using assms(1)
  proof cases
    case (j_send response)
    then show ?thesis using to [of Sending] i by (simp add: session_ok_def report_ok_def job_to_def)
  next
    case j_remove
    have "session_ok rt (lease_remove d t) = session_ok rt t" for d t by (simp add: lease_remove_def session_ok_def)
    then show ?thesis using to [of Gone] j_remove by simp
  next
    case (j_result response)
    then show ?thesis using j by (auto intro!: session_ok_job [OF ok i] simp: job_ok_def split: option.splits)
  next
    case j_cancel
    then show ?thesis using j by (auto intro!: session_ok_job [OF ok i] simp: job_ok_def split: option.splits)
  qed (use j to in \<open>auto simp: job_ok_def split: option.splits\<close>)
qed

lemma safety_step_ok:
  assumes "safety_step rt i s s'" and i: "i < length (st_jobs s)" and ok: "session_ok rt s"
  shows "session_ok rt s'"
  using assms(1) nth_job_ok [OF ok i]
  by cases (auto intro!: session_ok_job [OF ok i] simp: safety_to_def safety_cancel_def job_ok_def localSafetyDelay_def renewed_delay_def Let_def
    split: option.splits safety.splits if_splits)

lemma session_step_ok: "session_step rt grants s s' \<Longrightarrow> session_ok rt s \<Longrightarrow> session_ok rt s'"
  by (induction rule: session_step.induct)
    (auto dest: main_step_ok heartbeat_step_ok job_step_ok safety_step_ok intro: session_ok_frame simp: session_ok_def)

section \<open>A worker and the platform\<close>

text \<open>The claims of the store keep the contract, for a worker that knows only dispatches that have left
  \<^verbatim>\<open>pending\<close>.\<close>

definition claimed_from :: "string set \<Rightarrow> int \<Rightarrow> Lease list \<Rightarrow> bool" where
  "claimed_from known slots ls \<longleftrightarrow>
     (\<exists>sha random op held clock workerID d d'. world_ok d \<and> Claim sha random op held clock workerID slots d = Inr (ls, d') \<and> known \<subseteq> left_pending d)"

interpretation store_claims: lease_server claimed_from
proof
  show "int (length ls) \<le> slots" if "claimed_from known slots ls" for known slots ls
  proof -
    obtain sha random op held clock workerID d d' where "world_ok d" "Claim sha random op held clock workerID slots d = Inr (ls, d')"
      using \<open>claimed_from known slots ls\<close> by (auto simp: claimed_from_def)
    then show ?thesis using Claim_outcome [of d slots sha workerID random op held clock] by auto
  qed
  show "distinct (map le_DispatchID ls)" if "claimed_from known slots ls" for known slots ls
    using that Claim_ids(1) by (auto simp: claimed_from_def)
  show "set (map le_DispatchID ls) \<inter> known = {}" if "claimed_from known slots ls" for known slots ls
    using that Claim_ids(2) unfolding claimed_from_def by blast
qed

text \<open>
  The deployment: the platform with all its steps, and one worker session. A claim of this
  worker commits while its request is under way; the response may then arrive or be lost.
\<close>

record deployment =
  dp_control :: control
  dp_worker :: session_state
  dp_flight :: "Lease list option"

inductive deployment_step :: "Runtime \<Rightarrow> deployment \<Rightarrow> deployment \<Rightarrow> bool" for rt where
  d_platform: "platform_step (dp_control x) s \<Longrightarrow> deployment_step rt x (x\<lparr>dp_control := s\<rparr>)"
| d_claim: "st_main (dp_worker x) = Claiming slots \<Longrightarrow> dp_flight x = None \<Longrightarrow>
    Claim sha random op held clock workerID slots (cp_db (dp_control x)) = Inr (ls, d) \<Longrightarrow>
    deployment_step rt x (x\<lparr>dp_control := (dp_control x)\<lparr>cp_db := d\<rparr>, dp_flight := Some ls\<rparr>)"
| d_worker: "session_step rt (\<lambda>known slots ls. dp_flight x = Some ls) (dp_worker x) w \<Longrightarrow>
    deployment_step rt x (x\<lparr>dp_worker := w, dp_flight := (if st_main w = st_main (dp_worker x) then dp_flight x else None)\<rparr>)"

definition deployment_initial :: "Runtime \<Rightarrow> deployment \<Rightarrow> bool" where
  "deployment_initial rt x \<longleftrightarrow> platform_initial (dp_control x) \<and> (\<exists>now. dp_worker x = new_session_state rt now) \<and> dp_flight x = None"

definition known :: "session_state \<Rightarrow> string set" where
  "known s = seen s \<union> set (map le_DispatchID (starting (st_main s)))"

definition deployment_ok :: "Runtime \<Rightarrow> deployment \<Rightarrow> bool" where
  "deployment_ok rt x \<longleftrightarrow>
     platform_ok (dp_control x) \<and> table_inv rt (dp_worker x) \<and> session_ok rt (dp_worker x) \<and>
     known (dp_worker x) \<subseteq> left_pending (cp_db (dp_control x)) \<and>
     (\<forall>ls. dp_flight x = Some ls \<longrightarrow>
        (\<exists>slots. st_main (dp_worker x) = Claiming slots \<and> claimed_from (seen (dp_worker x)) slots ls) \<and>
        set (map le_DispatchID ls) \<subseteq> left_pending (cp_db (dp_control x)))"

lemma session_step_grants:
  assumes "session_step rt grants s s'" and "\<And>slots ls. st_main s = Claiming slots \<Longrightarrow> grants (seen s) slots ls \<Longrightarrow> grants' (seen s) slots ls"
  shows "session_step rt grants' s s'"
  using assms(1)
proof cases
  case ss_main
  then have "main_step rt grants' s s'" by cases (auto intro: main_step.intros assms(2))
  then show ?thesis by (rule session_step.ss_main)
qed (auto intro: session_step.intros)

lemma seen_cancels [simp]: "seen (cancelAll s) = seen s"
proof -
  have ids: "seen t = set (map fst (map job_view (st_jobs t)))" for t by (simp add: seen_def job_view_def comp_def image_image)
  show ?thesis unfolding ids by (simp only: cancelAll_fields)
qed

lemma seen_job_update [simp]: "(i < length (st_jobs s) \<Longrightarrow> al_lease (f (st_jobs s ! i)) = al_lease (st_jobs s ! i)) \<Longrightarrow> seen (job_update i f s) = seen s"
  using map_update_same [of i "st_jobs s" "\<lambda>j. le_DispatchID (al_lease j)" f] by (simp add: seen_def)

lemma seen_fields [simp]:
  "seen (s\<lparr>st_main := m\<rparr>) = seen s" "seen (s\<lparr>st_heartbeat := h\<rparr>) = seen s" "seen (s\<lparr>st_heartbeatDone := sent\<rparr>) = seen s"
  "seen (s\<lparr>st_runDone := b\<rparr>) = seen s" "seen (s\<lparr>st_pollDone := b\<rparr>) = seen s" "seen (s\<lparr>st_parentDone := b\<rparr>) = seen s" "seen (s\<lparr>st_drainDone := b\<rparr>) = seen s"
  "seen (s\<lparr>st_pollDelay := t\<rparr>) = seen s" "seen (s\<lparr>st_capacityAvailable := b\<rparr>) = seen s" "seen (s\<lparr>st_now := t\<rparr>) = seen s"
  "seen (s\<lparr>st_completions := c\<rparr>) = seen s" "seen (s\<lparr>st_active := act\<rparr>) = seen s" "seen (s\<lparr>st_wg := n\<rparr>) = seen s"
  by (simp_all add: seen_def)

lemma seen_lease_remove [simp]: "seen (lease_remove d s) = seen s"
  by (simp add: lease_remove_def)

lemma seen_heartbeat [simp]: "seen (apply_heartbeat b s) = seen s"
  by (rule apply_heartbeat_cases [of b s]) simp_all

lemma main_heartbeat [simp]: "st_main (apply_heartbeat b s) = st_main s"
  by (rule apply_heartbeat_cases [of b s]) simp_all

lemma main_lease_remove [simp]: "st_main (lease_remove d s) = st_main s"
  by (simp add: lease_remove_def)

lemma starting_simps [simp]:
  "starting Registering = []" "starting Polling = []" "starting (Claiming n) = []" "starting (StartingLeases ls) = ls" "starting WaitingForCapacity = []"
  "starting (AfterLoop e) = []" "starting (Failing c b) = []" "starting (FailJoined c b) = []" "starting Draining = []" "starting (DrainWaiting w e) = []"
  "starting (DrainJoining w e) = []" "starting (DrainJoined w e) = []" "starting (FinalDraining e) = []" "starting (Stopping e) = []" "starting (Returned e) = []"
  by (simp_all add: starting_def)

lemma main_step_known:
  assumes "main_step rt grants s s'"
  shows "known s' \<subseteq> known s \<or> (\<exists>slots ls. st_main s = Claiming slots \<and> grants (seen s) slots ls \<and> known s' = known s \<union> set (map le_DispatchID ls))"
    and "st_main s' = st_main s \<Longrightarrow> seen s' = seen s"
proof -
  show "known s' \<subseteq> known s \<or> (\<exists>slots ls. st_main s = Claiming slots \<and> grants (seen s) slots ls \<and> known s' = known s \<union> set (map le_DispatchID ls))"
    using assms
  proof cases
    case (m_claimed slots ls)
    then have "known s' = known s \<union> set (map le_DispatchID ls)" by (simp add: known_def)
    then show ?thesis using m_claimed by blast
  next
    case (m_start l ls)
    then have "seen s' = seen s \<union> {le_DispatchID l}" by (simp add: lease_add_def) (simp add: seen_def new_lease_def)
    then show ?thesis using m_start by (auto simp: known_def lease_add_def)
  qed (auto simp: known_def waiting_state_def)
  show "st_main s' = st_main s \<Longrightarrow> seen s' = seen s" using assms by cases (auto simp: waiting_state_def)
qed

lemma session_step_known:
  assumes "session_step rt grants s s'"
  shows "known s' \<subseteq> known s \<or> (\<exists>slots ls. st_main s = Claiming slots \<and> grants (seen s) slots ls \<and> known s' = known s \<union> set (map le_DispatchID ls))"
    and "st_main s' = st_main s \<Longrightarrow> seen s' = seen s"
proof -
  have other: "seen s' = seen s \<and> st_main s' = st_main s" if "\<not> main_step rt grants s s'"
    using assms that
  proof cases
    case ss_heartbeat
    then show ?thesis by cases simp_all
  next
    case (ss_job i)
    from ss_job(2) show ?thesis by cases (simp_all add: job_to_def)
  next
    case (ss_safety i)
    from ss_safety(2) show ?thesis by cases (simp_all add: safety_to_def safety_cancel_def)
  qed auto
  show "known s' \<subseteq> known s \<or> (\<exists>slots ls. st_main s = Claiming slots \<and> grants (seen s) slots ls \<and> known s' = known s \<union> set (map le_DispatchID ls))"
    using main_step_known(1) [of rt grants s s'] other by (cases "main_step rt grants s s'") (simp_all add: known_def)
  show "st_main s' = st_main s \<Longrightarrow> seen s' = seen s" using other main_step_known(2) by blast
qed

lemma deployment_step_ok:
  assumes "deployment_step rt x y" and ok: "deployment_ok rt x"
  shows "deployment_ok rt y"
  using assms(1)
proof cases
  case (d_platform s)
  have "left_pending (cp_db (dp_control x)) \<subseteq> left_pending (cp_db s)" using left_pending_grows [OF platform_step_next [OF d_platform(2)]] .
  moreover have "platform_ok s" using ok platform_step_ok [OF d_platform(2)] by (simp add: deployment_ok_def)
  ultimately show ?thesis using ok unfolding d_platform(1) deployment_ok_def by (simp, blast)
next
  case (d_claim slots sha random op held clock workerID ls d)
  have w: "world_ok (cp_db (dp_control x))" using ok by (simp add: deployment_ok_def platform_ok_def)
  have "known (dp_worker x) = seen (dp_worker x)" using d_claim(2) by (simp add: known_def)
  then have "claimed_from (seen (dp_worker x)) slots ls" using w d_claim(4) ok unfolding claimed_from_def deployment_ok_def by blast
  moreover have "platform_ok ((dp_control x)\<lparr>cp_db := d\<rparr>)"
    using platform_step_ok [OF p_claim [OF d_claim(4)]] ok by (simp add: deployment_ok_def)
  moreover have "left_pending (cp_db (dp_control x)) \<subseteq> left_pending d" using left_pending_grows [OF Claim_next [OF d_claim(4)]] .
  ultimately show ?thesis using ok d_claim Claim_ids(3) [OF w d_claim(4)] by (auto simp: deployment_ok_def)
next
  case (d_worker w)
  let ?g = "\<lambda>known slots ls. dp_flight x = Some ls"
  have "session_step rt claimed_from (dp_worker x) w"
    by (rule session_step_grants [OF d_worker(2)]) (use ok in \<open>auto simp: deployment_ok_def\<close>)
  then have "table_inv rt w" "session_ok rt w"
    using ok store_claims.session_step_table session_step_ok by (auto simp: deployment_ok_def)
  moreover have "known w \<subseteq> left_pending (cp_db (dp_control x))"
    using session_step_known(1) [OF d_worker(2)] ok unfolding deployment_ok_def by blast
  ultimately show ?thesis using ok d_worker(1) session_step_known(2) [OF d_worker(2)] by (auto simp: deployment_ok_def)
qed

lemma runtime_New_capacity: "runtime_New has_client executor executors options = Inr rt \<Longrightarrow> 0 < capacity rt"
  by (auto simp: runtime_New_def capacity_def Let_def split: if_splits)

lemma deployment_initial_ok: "0 < capacity rt \<Longrightarrow> deployment_initial rt x \<Longrightarrow> deployment_ok rt x"
  by (auto simp: deployment_initial_def deployment_ok_def new_session_state_def table_inv_def table_ok_def session_ok_def heartbeat_ok_def known_def seen_def
    intro: platform.inv_initial)

interpretation session: invariant_machine "\<lambda>x. 0 < capacity rt \<and> deployment_initial rt x" "deployment_step rt" "deployment_ok rt" for rt
  by unfold_locales (auto intro: deployment_initial_ok deployment_step_ok)

text \<open>
  C23. Whatever the interleaving of a worker's goroutines, of the platform and of lost responses: a worker that was created
  runs at most as many leases as its concurrency, and no dispatch twice; the reports it sends for a lease carry the lease's
  token and one and the same result, never that of a cancelled execution; its local timers end before the attempt's
  deadline by the safety margin; and when its session has returned, no execution and no heartbeat is left.
\<close>

theorem worker_session:
  assumes "runtime_New has_client executor executors options = Inr rt" and "reach (deployment_initial rt) (deployment_step rt) x"
  shows "lease_count (dp_worker x) \<le> capacity rt \<and>
    distinct (map (\<lambda>j. le_DispatchID (al_lease j)) (st_jobs (dp_worker x))) \<and>
    (\<forall>i token response. (i, token, response) \<in> set (st_completions (dp_worker x)) \<longrightarrow>
       i < length (st_jobs (dp_worker x)) \<and> token = le_LeaseToken (al_lease (st_jobs (dp_worker x) ! i)) \<and> ep_Kind response \<noteq> ResultCanceled \<and>
       (\<forall>token' response'. (i, token', response') \<in> set (st_completions (dp_worker x)) \<longrightarrow> response' = response)) \<and>
    (\<forall>j \<in> set (st_jobs (dp_worker x)). \<forall>t. al_safety j = SafetyTimer t \<longrightarrow> t + wo_SafetyMargin (rt_options rt) \<le> le_AttemptDeadline (al_lease j)) \<and>
    (\<forall>err. st_main (dp_worker x) = Returned err \<longrightarrow>
       (\<forall>j \<in> set (st_jobs (dp_worker x)). al_execution j = Gone) \<and> (st_heartbeat (dp_worker x) = NotStarted \<or> heartbeat_over (st_heartbeat (dp_worker x))))"
proof -
  let ?w = "dp_worker x"
  have "reach (\<lambda>x. 0 < capacity rt \<and> deployment_initial rt x) (deployment_step rt) x"
    using assms(2) runtime_New_capacity [OF assms(1)] by (induction rule: reach.induct) (auto intro: reach.intros)
  then have ok: "deployment_ok rt x" by (rule session.inv_reach)
  then have t: "table_ok (capacity rt) (map job_view (st_jobs ?w)) (st_active ?w) (st_wg ?w) (st_main ?w)"
    and jobs: "list_all (job_ok (wo_SafetyMargin (rt_options rt))) (st_jobs ?w)" and reports: "list_all (report_ok (st_jobs ?w)) (st_completions ?w)"
    and beat: "heartbeat_ok (st_main ?w) (st_heartbeat ?w) (st_heartbeatDone ?w \<noteq> None)"
    by (simp_all add: deployment_ok_def table_inv_def session_ok_def)
  have "lease_count ?w \<le> capacity rt" using t by (simp add: table_ok_def lease_count_def)
  moreover have "distinct (map (\<lambda>j. le_DispatchID (al_lease j)) (st_jobs ?w))" using t by (simp add: table_ok_def job_view_def comp_def)
  moreover have "i < length (st_jobs ?w) \<and> token = le_LeaseToken (al_lease (st_jobs ?w ! i)) \<and> ep_Kind response \<noteq> ResultCanceled \<and>
       (\<forall>token' response'. (i, token', response') \<in> set (st_completions ?w) \<longrightarrow> response' = response)"
    if "(i, token, response) \<in> set (st_completions ?w)" for i token response
  proof -
    have report: "report_ok (st_jobs ?w) c" if "c \<in> set (st_completions ?w)" for c using reports that by (simp add: list_all_iff)
    have "i < length (st_jobs ?w)" "token = le_LeaseToken (al_lease (st_jobs ?w ! i))" "al_result (st_jobs ?w ! i) = Some response"
      using report [OF that] by (simp_all add: report_ok_def)
    moreover have "job_ok (wo_SafetyMargin (rt_options rt)) (st_jobs ?w ! i)" using jobs calculation(1) by (simp add: list_all_length)
    moreover have "response' = response" if "(i, token', response') \<in> set (st_completions ?w)" for token' response'
      using report [OF that] \<open>al_result (st_jobs ?w ! i) = Some response\<close> by (simp add: report_ok_def)
    ultimately show ?thesis by (auto simp: job_ok_def)
  qed
  moreover have "t + wo_SafetyMargin (rt_options rt) \<le> le_AttemptDeadline (al_lease j)" if "j \<in> set (st_jobs ?w)" "al_safety j = SafetyTimer t" for j t
    using that jobs by (auto simp: list_all_iff job_ok_def)
  moreover have "al_execution j = Gone" if ended: "st_main ?w = Returned err" "j \<in> set (st_jobs ?w)" for j err
  proof -
    obtain i where i: "i < length (st_jobs ?w)" "j = st_jobs ?w ! i" using ended(2) by (metis in_set_conv_nth)
    have "st_active ?w = []" using t ended(1) by (simp add: table_ok_def all_left_def)
    then have "(fst (map job_view (st_jobs ?w) ! i), i) \<notin> set (st_active ?w)" by simp
    moreover have "(fst (map job_view (st_jobs ?w) ! i), i) \<in> set (st_active ?w) \<longleftrightarrow> \<not> snd (map job_view (st_jobs ?w) ! i)"
      using t i(1) unfolding table_ok_def by simp
    ultimately show ?thesis using i by (simp add: job_view_def)
  qed
  moreover have "st_heartbeat ?w = NotStarted \<or> heartbeat_over (st_heartbeat ?w)" if "st_main ?w = Returned err" for err
    using beat that by (simp add: heartbeat_ok_def)
  ultimately show ?thesis by blast
qed

subsection \<open>Sample sessions\<close>

definition sample_runtime :: Runtime where
  "sample_runtime = \<lparr>rt_executor = Some ''mock'', rt_executors = (\<lambda>kind. None)(ExecutorMock := Some ''mock''),
     rt_options = \<lparr>wo_BootstrapToken = ''boot'',
       wo_Registration = \<lparr>rq_DisplayName = ''w'', rq_ProtocolVersion = 1, rq_ExecutorKinds = [ExecutorMock], rq_MaxConcurrency = 1\<rparr>,
       wo_PollMin = 1, wo_PollMax = 4, wo_HeartbeatInterval = 5, wo_RetryInterval = 1, wo_SafetyMargin = 0, wo_ShutdownTimeout = 9\<rparr>\<rparr>"

lemma sample_runtime_New: "runtime_New True (Some ''mock'') [] (rt_options sample_runtime) = Inr sample_runtime"
  by (simp add: runtime_New_def sample_runtime_def ProtocolVersion_def Let_def)

lemma reach_platform:
  "reach platform_initial platform_step s \<Longrightarrow>
    reach (deployment_initial rt) (deployment_step rt) \<lparr>dp_control = s, dp_worker = new_session_state rt 0, dp_flight = None\<rparr>"
proof (induction rule: reach.induct)
  case (reach_init s)
  then show ?case by (intro reach.reach_init) (auto simp: deployment_initial_def)
next
  case (reach_step s t)
  then show ?case using reach.reach_step [OF reach_step(3) d_platform [of _ t rt]] by simp
qed

lemma reach_worker:
  assumes "reach (deployment_initial rt) (deployment_step rt) \<lparr>dp_control = c, dp_worker = w, dp_flight = f\<rparr>"
    and "session_step rt (\<lambda>_ _ ls. f = Some ls) w w'" and "f' = (if st_main w' = st_main w then f else None)"
  shows "reach (deployment_initial rt) (deployment_step rt) \<lparr>dp_control = c, dp_worker = w', dp_flight = f'\<rparr>"
proof -
  let ?x = "\<lparr>dp_control = c, dp_worker = w, dp_flight = f\<rparr>"
  have "session_step rt (\<lambda>known slots ls. dp_flight ?x = Some ls) (dp_worker ?x) w'" using assms(2) by simp
  from reach_step [OF assms(1) d_worker [OF this]] show ?thesis by (simp only: assms(3) deployment.simps deployment.update_convs)
qed

lemma reach_claim:
  assumes "reach (deployment_initial rt) (deployment_step rt) \<lparr>dp_control = c, dp_worker = w, dp_flight = None\<rparr>"
    and "st_main w = Claiming slots" and "Claim sha random op held clock workerID slots (cp_db c) = Inr (ls, d)"
  shows "reach (deployment_initial rt) (deployment_step rt) \<lparr>dp_control = c\<lparr>cp_db := d\<rparr>, dp_worker = w, dp_flight = Some ls\<rparr>"
proof -
  let ?x = "\<lparr>dp_control = c, dp_worker = w, dp_flight = None\<rparr>"
  have "deployment_step rt ?x (?x\<lparr>dp_control := (dp_control ?x)\<lparr>cp_db := d\<rparr>, dp_flight := Some ls\<rparr>)"
    by (rule d_claim) (use assms(2,3) in simp_all)
  from reach_step [OF assms(1) this] show ?thesis by simp
qed

text \<open>A session that claims one dispatch, executes it and reports its result.\<close>

definition sample_result :: ExecutionResponse where
  "sample_result = \<lparr>ep_Kind = ResultSuccess, ep_Output = ''done'', ep_ErrorCode = '''', ep_ErrorMessage = ''''\<rparr>"

lemma sample_works:
  "\<exists>x. reach (deployment_initial sample_runtime) (deployment_step sample_runtime) x \<and> dp_control x = tiny_control db_claimed running_coordinator \<and>
     st_completions (dp_worker x) = [(0, le_LeaseToken tiny_lease, sample_result)] \<and> lease_count (dp_worker x) = 1"
proof -
  let ?rt = sample_runtime and ?c = "tiny_control db_dispatched running_coordinator" and ?c' = "tiny_control db_claimed running_coordinator"
  let ?R = "\<lambda>c w f. reach (deployment_initial ?rt) (deployment_step ?rt) \<lparr>dp_control = c, dp_worker = w, dp_flight = f\<rparr>"
  define w0 where "w0 = new_session_state ?rt 0"
  define w1 where "w1 = w0\<lparr>st_main := Polling, st_heartbeat := Ticking\<rparr>"
  define w2 where "w2 = w1\<lparr>st_main := Claiming 1\<rparr>"
  define w3 where "w3 = w2\<lparr>st_main := StartingLeases [tiny_lease], st_pollDelay := 1\<rparr>"
  define w4 where "w4 = (lease_add tiny_lease w3)\<lparr>st_main := StartingLeases []\<rparr>"
  define w5 where "w5 = job_to 0 Executing w4"
  define w6 where "w6 = job_update 0 (\<lambda>j. j\<lparr>al_execution := Submitting, al_result := Some sample_result\<rparr>) w5"
  define w7 where "w7 = (job_to 0 Sending w6)\<lparr>st_completions := st_completions w6 @ [(0, le_LeaseToken tiny_lease, sample_result)]\<rparr>"
  note ws = w0_def w1_def w2_def w3_def w4_def w5_def w6_def w7_def new_session_state_def lease_add_def new_lease_def job_to_def job_update_def lease_done_def lease_count_def
  note use = capacity_def sample_runtime_def executorFor_def tiny_lease_def sample_result_def
  have s1: "main_step ?rt g w0 w1" for g unfolding w1_def by (rule m_register) (simp add: ws)
  have s2: "main_step ?rt g w1 w2" for g unfolding w2_def by (rule m_claim) (simp_all add: ws use)
  have s3: "main_step ?rt (\<lambda>_ _ ls. Some [tiny_lease] = Some ls) w2 w3"
    using m_claimed [of w2 1 "\<lambda>_ _ ls. Some [tiny_lease] = Some ls" "[tiny_lease]" ?rt] by (simp add: w3_def w2_def sample_runtime_def)
  have s4: "main_step ?rt g w3 w4" for g unfolding w4_def by (rule m_start) (simp add: w3_def)
  have s5: "job_step ?rt 0 w4 w5" unfolding w5_def by (rule j_execute) (simp_all add: ws use)
  have s6: "job_step ?rt 0 w5 w6" unfolding w6_def by (rule j_result) (simp_all add: ws use)
  have s7: "job_step ?rt 0 w6 w7" using j_send [of w6 0 sample_result ?rt] by (simp add: ws)
  have "?R ?c w0 None" unfolding w0_def by (rule reach_platform [OF tiny_reach_dispatched])
  then have "?R ?c w1 None" by (rule reach_worker [OF _ ss_main [OF s1]]) (simp add: ws)
  then have "?R ?c w2 None" by (rule reach_worker [OF _ ss_main [OF s2]]) (simp add: ws)
  moreover have "Claim tiny_sha tiny_random tiny_options (\<lambda>_. False) 8000 ''wrk_AA'' 1 (cp_db ?c) = Inr ([tiny_lease], db_claimed)"
    using tiny_claimed by (simp add: tiny_control_def)
  ultimately have "?R (?c\<lparr>cp_db := db_claimed\<rparr>) w2 (Some [tiny_lease])" by (intro reach_claim) (simp_all add: w2_def)
  then have "?R ?c' w2 (Some [tiny_lease])" by (simp add: tiny_control_def)
  then have "?R ?c' w3 None" by (rule reach_worker [OF _ ss_main [OF s3]]) (simp add: w3_def w2_def)
  then have "?R ?c' w4 None" by (rule reach_worker [OF _ ss_main [OF s4]]) (simp add: w4_def)
  then have "?R ?c' w5 None" by (rule reach_worker [OF _ ss_job [OF _ s5]]) (simp_all add: ws)
  then have "?R ?c' w6 None" by (rule reach_worker [OF _ ss_job [OF _ s6]]) (simp_all add: ws)
  then have "?R ?c' w7 None" by (rule reach_worker [OF _ ss_job [OF _ s7]]) (simp_all add: ws)
  then show ?thesis by (intro exI conjI) (assumption, simp_all add: ws)
qed

theorem worker_session_witness:
  "\<exists>x :: deployment. lease_count (dp_worker x) = 1 \<and> 1 \<le> capacity sample_runtime \<and> distinct (map (\<lambda>j. le_DispatchID (al_lease j)) (st_jobs (dp_worker x))) \<and>
     st_completions (dp_worker x) = [(0, le_LeaseToken (al_lease (st_jobs (dp_worker x) ! 0)), sample_result)]"
proof -
  obtain x where x: "reach (deployment_initial sample_runtime) (deployment_step sample_runtime) x"
    "st_completions (dp_worker x) = [(0, le_LeaseToken tiny_lease, sample_result)]" "lease_count (dp_worker x) = 1"
    using sample_works by blast
  note s = worker_session [OF sample_runtime_New x(1)]
  have "(0, le_LeaseToken tiny_lease, sample_result) \<in> set (st_completions (dp_worker x))" using x(2) by simp
  with s have "le_LeaseToken tiny_lease = le_LeaseToken (al_lease (st_jobs (dp_worker x) ! 0))" by blast
  then show ?thesis using s x by (intro exI [of _ x]) auto
qed

text \<open>
  The heartbeat loop reports a permanent error in three steps: it hands the error over, stops
  the polling, and stops the session. A main loop that wakes up after the second finds the session
  alive and goes on to drain: the error of the heartbeat is dropped.
\<close>

lemma heartbeat_error_dropped:
  assumes "isPermanentSessionError (Some e)"
  shows "\<exists>s. (session_step sample_runtime grants)\<^sup>*\<^sup>* (new_session_state sample_runtime 0) s \<and> st_main s = Returned None \<and> \<not> st_parentDone s"
proof -
  let ?rt = sample_runtime and ?S = "session_step sample_runtime grants"
  define w0 where "w0 = new_session_state ?rt 0"
  define w1 where "w1 = w0\<lparr>st_main := Polling, st_heartbeat := Ticking\<rparr>"
  define w2 where "w2 = w1\<lparr>st_main := Claiming 1\<rparr>"
  define w3 where "w3 = waiting_state ?rt w2"
  define w4 where "w4 = w3\<lparr>st_heartbeat := Beating []\<rparr>"
  define w5 where "w5 = w4\<lparr>st_heartbeat := SentError, st_heartbeatDone := Some (Some e)\<rparr>"
  define w6 where "w6 = w5\<lparr>st_heartbeat := StoppedPolling, st_pollDone := True\<rparr>"
  define w7 where "w7 = w6\<lparr>st_main := AfterLoop None\<rparr>"
  define w8 where "w8 = w7\<lparr>st_main := Draining\<rparr>"
  define w9 where "w9 = w8\<lparr>st_main := DrainWaiting (Some WorkerStopped) None\<rparr>"
  define v1 where "v1 = w9\<lparr>st_main := DrainJoining (Some WorkerStopped) None\<rparr>"
  define v2 where "v2 = v1\<lparr>st_main := DrainJoined (Some WorkerStopped) None\<rparr>"
  define v3 where "v3 = v2\<lparr>st_main := Stopping None, st_runDone := True\<rparr>"
  define v4 where "v4 = v3\<lparr>st_main := Returned None, st_heartbeatDone := None\<rparr>"
  note ws = w0_def w1_def w2_def w3_def w4_def w5_def w6_def w7_def w8_def w9_def v1_def v2_def v3_def v4_def new_session_state_def waiting_state_def
  have "main_step ?rt grants w0 w1" unfolding w1_def by (rule m_register) (simp add: ws)
  moreover have "main_step ?rt grants w1 w2" unfolding w2_def by (rule m_claim) (simp_all add: ws capacity_def sample_runtime_def lease_count_def)
  moreover have "main_step ?rt grants w2 w3" unfolding w3_def by (rule m_claimed_nothing [of _ 1 None]) (simp_all add: ws isPermanentSessionError_def)
  moreover have "heartbeat_step w3 w4" unfolding w4_def using h_tick [of w3] by (simp add: ws lease_refs_def)
  moreover have "heartbeat_step w4 w5" unfolding w5_def by (rule h_fatal [of _ "[]"]) (simp_all add: ws assms)
  moreover have "heartbeat_step w5 w6" unfolding w6_def by (rule h_stop_polling) (simp add: ws)
  moreover have "main_step ?rt grants w6 w7" unfolding w7_def by (rule m_wait_done) (simp_all add: ws poll_done_def)
  moreover have "main_step ?rt grants w7 w8" unfolding w8_def by (rule m_to_drain) (simp_all add: ws)
  moreover have "main_step ?rt grants w8 w9" unfolding w9_def by (rule m_drained) (simp add: ws)
  moreover have "main_step ?rt grants w9 v1" unfolding v1_def by (rule m_drain_idle) (simp_all add: ws lease_count_def)
  moreover have "main_step ?rt grants v1 v2" unfolding v2_def by (rule m_drain_joined) (simp_all add: ws)
  moreover have "main_step ?rt grants v2 v3" unfolding v3_def by (rule m_no_final_drain [of _ "Some WorkerStopped"]) (simp_all add: ws)
  moreover have "main_step ?rt grants v3 v4" unfolding v4_def using m_return [of v3 None] by (simp add: ws run_result_def)
  ultimately have "?S\<^sup>*\<^sup>* w0 v4" by (meson ss_main ss_heartbeat converse_rtranclp_into_rtranclp rtranclp.rtrancl_refl)
  then show ?thesis by (intro exI [of _ v4]) (simp add: w0_def [symmetric], simp add: ws)
qed

end
