(* ===== verification/Metrics_Window.thy ===== *)
theory Metrics_Window
  imports Workflow_Data
begin

text \<open>
  The counters behind the alerts and the labels of the metrics (\<^verbatim>\<open>internal/observability/metrics.go\<close>).
  The window is a ring of 64 buckets of one second; the lemmas relate it to the list of everything that was recorded.
  The registry of Prometheus, which only stores the observations, is left out.
\<close>

section \<open>Labels\<close>

definition normalize_label :: "string \<Rightarrow> string list \<Rightarrow> string" where
  "normalize_label w allowed = (if w = '''' then ''unknown'' else if w \<in> set allowed then w else ''unknown'')"

definition operationalErrorCodes :: "string list" where
  "operationalErrorCodes =
     [''unknown'', ''auth_config_invalid'', ''database_unavailable'', ''forbidden'', ''idempotency_conflict'',
      ''internal_error'', ''invalid_request'', ''lease_lost'', ''method_not_allowed'', ''not_found'', ''not_ready'',
      ''result_conflict'', ''timeout'', ''unauthorized'', ''worker_capacity_exceeded'', ''worker_draining'',
      ''worker_protocol_unsupported'', ''worker_session_invalid'', ''workflow_exists'']"

definition NormalizeErrorCode :: "string \<Rightarrow> string" where
  "NormalizeErrorCode w = normalize_label w operationalErrorCodes"

lemma normalize_label_bounded: "normalize_label w allowed \<in> insert ''unknown'' (set allowed)"
  by (simp add: normalize_label_def)

section \<open>The ring of buckets\<close>

record alertCounterBucket =
  ab_second :: int
  ab_completeTotal :: int
  ab_completeErrors :: int
  ab_leaseReclaimErrors :: int

definition new_bucket :: "int \<Rightarrow> alertCounterBucket" where
  "new_bucket second = \<lparr>ab_second = second, ab_completeTotal = 0, ab_completeErrors = 0, ab_leaseReclaimErrors = 0\<rparr>"

definition new_buckets :: "alertCounterBucket list" where
  "new_buckets = replicate 64 (new_bucket 0)"

text \<open>\<^verbatim>\<open>time.Unix\<close> counts whole seconds, rounded down.\<close>

definition unix :: "time \<Rightarrow> int" where
  "unix t = t div 1000000000"

definition alert_index :: "int \<Rightarrow> nat" where
  "alert_index second = nat (second mod 64)"

definition counted :: "string \<Rightarrow> string \<Rightarrow> bool" where
  "counted operation outcome \<longleftrightarrow> operation = ''complete'' \<or> operation = ''lease_reap'' \<and> outcome = ''error''"

definition recordAlertCounter :: "time \<Rightarrow> string \<Rightarrow> string \<Rightarrow> alertCounterBucket list \<Rightarrow> alertCounterBucket list" where
  "recordAlertCounter now operation outcome buckets =
     (if \<not> counted operation outcome then buckets
      else
        let second = unix now; index = alert_index second; old = buckets ! index;
            bucket = (if ab_second old \<noteq> second then new_bucket second else old) in
        buckets[index :=
          if operation = ''complete'' then
            bucket\<lparr>ab_completeTotal := ab_completeTotal bucket + 1,
                   ab_completeErrors := ab_completeErrors bucket + (if outcome = ''error'' then 1 else 0)\<rparr>
          else bucket\<lparr>ab_leaseReclaimErrors := ab_leaseReclaimErrors bucket + 1\<rparr>])"

definition AlertCounters :: "alertCounterBucket list \<Rightarrow> time \<Rightarrow> duration \<Rightarrow> int \<times> int \<times> int" where
  "AlertCounters buckets now window =
     (if window \<le> 0 then (0, 0, 0)
      else
        let cutoff = unix (now - window); inside = filter (\<lambda>b. \<not> (ab_second b < cutoff \<or> ab_second b > unix now)) buckets in
        (sum_list (map ab_completeTotal inside), sum_list (map ab_completeErrors inside), sum_list (map ab_leaseReclaimErrors inside)))"

section \<open>The ring and the history\<close>

text \<open>What was recorded, oldest first: the time, the operation and its outcome.\<close>

type_synonym observed_operation = "time \<times> string \<times> string"

definition observed :: "observed_operation list \<Rightarrow> alertCounterBucket list" where
  "observed h = fold (\<lambda>(t, operation, outcome). recordAlertCounter t operation outcome) h new_buckets"

definition in_order :: "observed_operation list \<Rightarrow> bool" where
  "in_order h \<longleftrightarrow> sorted (map fst h)"

definition count_in :: "(string \<Rightarrow> string \<Rightarrow> bool) \<Rightarrow> (int \<Rightarrow> bool) \<Rightarrow> observed_operation list \<Rightarrow> int" where
  "count_in P W h = int (length (filter (\<lambda>(t, operation, outcome). P operation outcome \<and> W (unix t)) h))"

definition is_complete :: "string \<Rightarrow> string \<Rightarrow> bool" where
  "is_complete operation outcome \<longleftrightarrow> operation = ''complete''"

definition is_complete_error :: "string \<Rightarrow> string \<Rightarrow> bool" where
  "is_complete_error operation outcome \<longleftrightarrow> operation = ''complete'' \<and> outcome = ''error''"

definition is_reclaim_error :: "string \<Rightarrow> string \<Rightarrow> bool" where
  "is_reclaim_error operation outcome \<longleftrightarrow> operation = ''lease_reap'' \<and> outcome = ''error''"

text \<open>A bucket holds the counts of its second, or nothing was written to it; what was recorded for a second
  is in its bucket, or a later second has taken the bucket over.\<close>

definition bucket_of :: "observed_operation list \<Rightarrow> int \<Rightarrow> alertCounterBucket" where
  "bucket_of h second = \<lparr>ab_second = second, ab_completeTotal = count_in is_complete ((=) second) h,
     ab_completeErrors = count_in is_complete_error ((=) second) h, ab_leaseReclaimErrors = count_in is_reclaim_error ((=) second) h\<rparr>"

definition written :: "observed_operation list \<Rightarrow> nat \<Rightarrow> alertCounterBucket \<Rightarrow> bool" where
  "written h i b \<longleftrightarrow> b = bucket_of h (ab_second b) \<and> alert_index (ab_second b) = i \<and> ab_second b \<in> unix ` fst ` set h"

definition ring_ok :: "observed_operation list \<Rightarrow> alertCounterBucket list \<Rightarrow> bool" where
  "ring_ok h buckets \<longleftrightarrow>
     length buckets = 64 \<and> (\<forall>i < 64. written h i (buckets ! i) \<or> buckets ! i = new_bucket 0) \<and>
     (\<forall>t operation outcome. (t, operation, outcome) \<in> set h \<longrightarrow> counted operation outcome \<longrightarrow>
        written h (alert_index (unix t)) (buckets ! alert_index (unix t)) \<and> unix t \<le> ab_second (buckets ! alert_index (unix t)))"

lemma alert_index_less [simp]: "alert_index s < 64"
  by (simp add: alert_index_def nat_less_iff)

lemma alert_index_eq: 
  assumes "alert_index s = alert_index s'" and "\<bar>s - s'\<bar> < 64"
  shows "s = s'"
proof -
  have "s mod 64 = s' mod 64" using assms(1) by (simp add: alert_index_def eq_nat_nat_iff)
  then have "64 dvd s - s'" by (simp add: mod_eq_dvd_iff)
  then show ?thesis using assms(2) dvd_imp_le_int [of "s - s'" 64] by fastforce
qed

lemma unix_mono: "t \<le> t' \<Longrightarrow> unix t \<le> unix t'"
  by (simp add: unix_def zdiv_mono1)

lemma kinds_counted: "is_complete o' u \<Longrightarrow> counted o' u" "is_complete_error o' u \<Longrightarrow> counted o' u" "is_reclaim_error o' u \<Longrightarrow> counted o' u"
  by (simp_all add: is_complete_def is_complete_error_def is_reclaim_error_def counted_def)

lemma count_in_snoc: "count_in P W (h @ [(t, o', u)]) = count_in P W h + (if P o' u \<and> W (unix t) then 1 else 0)"
  by (simp add: count_in_def)

lemma count_in_zero: "(\<And>t o' u. (t, o', u) \<in> set h \<Longrightarrow> P o' u \<Longrightarrow> \<not> W (unix t)) \<Longrightarrow> count_in P W h = 0"
  by (auto simp: count_in_def filter_empty_conv)

lemma bucket_of_none:
  assumes "\<And>t o' u. (t, o', u) \<in> set h \<Longrightarrow> counted o' u \<Longrightarrow> unix t \<noteq> s"
  shows "bucket_of h s = new_bucket s"
  using assms kinds_counted unfolding bucket_of_def new_bucket_def by (fastforce intro!: count_in_zero)

lemma bucket_of_snoc:
  "bucket_of (h @ [(t, o', u)]) s =
     (if unix t = s then
        (bucket_of h s)\<lparr>ab_completeTotal := count_in is_complete ((=) s) h + (if is_complete o' u then 1 else 0),
           ab_completeErrors := count_in is_complete_error ((=) s) h + (if is_complete_error o' u then 1 else 0),
           ab_leaseReclaimErrors := count_in is_reclaim_error ((=) s) h + (if is_reclaim_error o' u then 1 else 0)\<rparr>
      else bucket_of h s)"
  by (auto simp: bucket_of_def count_in_snoc)

lemma written_snoc: "written h i b \<Longrightarrow> ab_second b \<noteq> unix t \<or> \<not> counted o' u \<Longrightarrow> written (h @ [(t, o', u)]) i b"
  using kinds_counted [of o' u] by (auto simp: written_def bucket_of_snoc) (auto simp: bucket_of_def)

lemma ring_ok_old:
  assumes "ring_ok h buckets" and "ab_second (buckets ! alert_index s) = s"
  shows "buckets ! alert_index s = bucket_of h s"
proof (cases "\<exists>t o' u. (t, o', u) \<in> set h \<and> counted o' u \<and> unix t = s")
  case True
  then obtain t o' u where "(t, o', u) \<in> set h" "counted o' u" "unix t = s" by blast
  then have "written h (alert_index s) (buckets ! alert_index s)" using assms(1) unfolding ring_ok_def by metis
  then show ?thesis using assms(2) by (simp add: written_def)
next
  case False
  then have "bucket_of h s = new_bucket s" by (intro bucket_of_none) blast
  moreover have "written h (alert_index s) (buckets ! alert_index s) \<or> buckets ! alert_index s = new_bucket 0"
    using assms(1) by (simp add: ring_ok_def)
  ultimately show ?thesis using assms(2) by (auto simp: written_def new_bucket_def)
qed

lemma ring_ok_record:
  assumes ok: "ring_ok h buckets" and order: "\<And>x. x \<in> set h \<Longrightarrow> fst x \<le> t"
  shows "ring_ok (h @ [(t, o', u)]) (recordAlertCounter t o' u buckets)"
proof (cases "counted o' u")
  case False
  then show ?thesis
    using ok written_snoc unfolding ring_ok_def recordAlertCounter_def by fastforce
next
  case True
  let ?s = "unix t" and ?i = "alert_index (unix t)" and ?h = "h @ [(t, o', u)]"
  define b where "b = (if ab_second (buckets ! ?i) \<noteq> ?s then new_bucket ?s else buckets ! ?i)"
  define b' where "b' = (if o' = ''complete'' then b\<lparr>ab_completeTotal := ab_completeTotal b + 1, ab_completeErrors := ab_completeErrors b + (if u = ''error'' then 1 else 0)\<rparr>
      else b\<lparr>ab_leaseReclaimErrors := ab_leaseReclaimErrors b + 1\<rparr>)"
  have rec: "recordAlertCounter t o' u buckets = buckets[?i := b']" using True by (simp add: recordAlertCounter_def b_def b'_def Let_def)
  have old: "b = bucket_of h ?s"
  proof (cases "ab_second (buckets ! ?i) = ?s")
    case True
    then show ?thesis using ring_ok_old [OF ok True] by (simp add: b_def)
  next
    case False
    have "unix t' \<noteq> ?s" if e: "(t', o'', u') \<in> set h" "counted o'' u'" for t' o'' u'
    proof
      assume s: "unix t' = ?s"
      then have "written h ?i (buckets ! ?i)" "?s \<le> ab_second (buckets ! ?i)" using ok e unfolding ring_ok_def by metis+
      moreover from this(1) have "ab_second (buckets ! ?i) \<le> ?s" using order unix_mono by (fastforce simp: written_def)
      ultimately show False using False by simp
    qed
    then show ?thesis using False bucket_of_none [of h ?s] by (simp add: b_def)
  qed
  have b': "written ?h ?i b'"
  proof -
    have "b' = bucket_of ?h ?s" using True unfolding b'_def old
      by (auto simp: bucket_of_snoc bucket_of_def count_in_snoc is_complete_def is_complete_error_def is_reclaim_error_def counted_def)
    then show ?thesis by (simp add: written_def bucket_of_def)
  qed
  have second: "ab_second b' = ?s" by (simp add: b'_def old bucket_of_def)
  have len: "length buckets = 64" using ok by (simp add: ring_ok_def)
  have other: "written ?h k (buckets ! k)" if "written h k (buckets ! k)" "k \<noteq> ?i" for k
    using that by (intro written_snoc) (auto simp: written_def)
  have "written ?h k (buckets[?i := b'] ! k) \<or> buckets[?i := b'] ! k = new_bucket 0" if "k < 64" for k
    using ok that b' other len by (cases "k = ?i") (auto simp: ring_ok_def)
  moreover have "written ?h (alert_index (unix t')) (buckets[?i := b'] ! alert_index (unix t')) \<and> unix t' \<le> ab_second (buckets[?i := b'] ! alert_index (unix t'))"
    if e: "(t', o'', u') \<in> set ?h" "counted o'' u'" for t' o'' u'
  proof (cases "alert_index (unix t') = ?i")
    case True
    have "t' \<le> t" using e(1) order by fastforce
    then show ?thesis using True b' second len unix_mono by simp
  next
    case False
    then have "(t', o'', u') \<in> set h" using e(1) by auto
    then show ?thesis using False ok e(2) other by (auto simp: ring_ok_def)
  qed
  ultimately show ?thesis unfolding rec ring_ok_def using len by simp
qed

lemma ring_ok_observed: "in_order h \<Longrightarrow> ring_ok h (observed h)"
proof (induction h rule: rev_induct)
  case Nil
  show ?case by (simp add: ring_ok_def observed_def new_buckets_def)
next
  case (snoc x h)
  obtain t o' u where x: "x = (t, o', u)" by (cases x)
  have "in_order h" and order: "\<And>y. y \<in> set h \<Longrightarrow> fst y \<le> t" using snoc.prems by (auto simp: in_order_def sorted_append x)
  then have "ring_ok h (observed h)" by (intro snoc.IH)
  from ring_ok_record [OF this order] show ?case by (simp add: observed_def x)
qed

section \<open>What the window counts\<close>

lemma count_in_cong: "(\<And>t o' u. (t, o', u) \<in> set h \<Longrightarrow> P o' u \<Longrightarrow> W (unix t) = V (unix t)) \<Longrightarrow> count_in P W h = count_in P V h"
  by (auto simp: count_in_def intro!: arg_cong [where f = length] filter_cong)

lemma count_in_split: "count_in P W h = (\<Sum>i<64. count_in P (\<lambda>s. W s \<and> alert_index s = i) h)"
proof (induction h rule: rev_induct)
  case Nil
  show ?case by (simp add: count_in_def)
next
  case (snoc x h)
  obtain t o' u where x: "x = (t, o', u)" by (cases x)
  have "(\<Sum>i<64. if P o' u \<and> W (unix t) \<and> alert_index (unix t) = i then 1 else 0 :: int) = (if P o' u \<and> W (unix t) then 1 else 0)"
    using sum.delta' [of "{..<64}" "alert_index (unix t)" "\<lambda>_. 1 :: int"] by (cases "P o' u \<and> W (unix t)") auto
  then show ?case unfolding x by (simp add: count_in_snoc sum.distrib snoc.IH)
qed

lemma sum_filter_nth: "sum_list (map f (filter Q xs)) = (\<Sum>i<length xs. if Q (xs ! i) then f (xs ! i) else (0 :: int))"
  by (induction xs rule: rev_induct) (auto simp: nth_append intro!: sum.cong)

text \<open>One kind of counter: which observations it counts and which field of a bucket holds it.\<close>

definition counter :: "(string \<Rightarrow> string \<Rightarrow> bool) \<Rightarrow> (alertCounterBucket \<Rightarrow> int) \<Rightarrow> bool" where
  "counter P f \<longleftrightarrow> (\<forall>o' u. P o' u \<longrightarrow> counted o' u) \<and> (\<forall>h s. f (bucket_of h s) = count_in P ((=) s) h) \<and> f (new_bucket 0) = 0"

lemma counters: "counter is_complete ab_completeTotal" "counter is_complete_error ab_completeErrors" "counter is_reclaim_error ab_leaseReclaimErrors"
  by (auto simp: counter_def kinds_counted bucket_of_def new_bucket_def)

lemma bucket_counts:
  assumes ok: "ring_ok h buckets" and kind: "counter P f" and i: "i < 64"
    and past: "\<And>x. x \<in> set h \<Longrightarrow> unix (fst x) \<le> n" and span: "n - c < 64"
  shows "(if c \<le> ab_second (buckets ! i) \<and> ab_second (buckets ! i) \<le> n then f (buckets ! i) else 0)
       = count_in P (\<lambda>s. c \<le> s \<and> alert_index s = i) h"
proof (cases "written h i (buckets ! i)")
  case True
  let ?s = "ab_second (buckets ! i)"
  have f: "f (buckets ! i) = count_in P ((=) ?s) h" using True kind by (metis written_def counter_def)
  have s: "alert_index ?s = i" "?s \<le> n" using True past by (auto simp: written_def)
  have last: "unix t \<le> ?s" if "(t, o', u) \<in> set h" "P o' u" "alert_index (unix t) = i" for t o' u
    using ok kind that unfolding ring_ok_def counter_def by metis
  show ?thesis
  proof (cases "c \<le> ?s")
    case True
    have "count_in P (\<lambda>s. c \<le> s \<and> alert_index s = i) h = count_in P ((=) ?s) h"
    proof (rule count_in_cong)
      fix t o' u
      assume e: "(t, o', u) \<in> set h" "P o' u"
      show "(c \<le> unix t \<and> alert_index (unix t) = i) = (?s = unix t)"
        using s span True last [OF e] alert_index_eq [of ?s "unix t"] by (auto simp: abs_if)
    qed
    then show ?thesis using True s f by simp
  next
    case False
    then have "count_in P (\<lambda>s. c \<le> s \<and> alert_index s = i) h = 0" using last by (intro count_in_zero) fastforce
    then show ?thesis using False by simp
  qed
next
  case False
  then have "buckets ! i = new_bucket 0" using ok i unfolding ring_ok_def by blast
  moreover have "count_in P (\<lambda>s. c \<le> s \<and> alert_index s = i) h = 0"
    using ok kind False unfolding ring_ok_def counter_def by (intro count_in_zero) metis
  ultimately show ?thesis using kind by (simp add: counter_def)
qed

lemma window_counts:
  assumes ok: "ring_ok h buckets" and kind: "counter P f"
    and past: "\<And>x. x \<in> set h \<Longrightarrow> unix (fst x) \<le> n" and span: "n - c < 64"
  shows "sum_list (map f (filter (\<lambda>b. \<not> (ab_second b < c \<or> ab_second b > n)) buckets)) = count_in P (\<lambda>s. c \<le> s) h"
proof -
  have "length buckets = 64" using ok by (simp add: ring_ok_def)
  then have "sum_list (map f (filter (\<lambda>b. \<not> (ab_second b < c \<or> ab_second b > n)) buckets))
    = (\<Sum>i<64. if c \<le> ab_second (buckets ! i) \<and> ab_second (buckets ! i) \<le> n then f (buckets ! i) else 0)"
    by (simp add: sum_filter_nth not_less)
  also have "\<dots> = (\<Sum>i<64. count_in P (\<lambda>s. c \<le> s \<and> alert_index s = i) h)"
    using bucket_counts [OF ok kind _ past span] by (intro sum.cong) auto
  finally show ?thesis by (simp add: count_in_split [symmetric])
qed

lemma window_span: "window \<le> 63 * 1000000000 \<Longrightarrow> unix now - unix (now - window) < 64"
  unfolding unix_def by linarith

text \<open>
  C26. The window of the alerts is exact. If the clock never went back, the counters read for a window of up to 63 seconds
  are the numbers of completions, failed completions and failed reclaims recorded since the second in which the
  window begins: reusing a bucket loses nothing that the window still covers, and no older second is counted.
\<close>

theorem alert_window_exact:
  assumes "in_order h" and "fst ` set h \<subseteq> {..now}" and "0 < window" and "window \<le> 63 * 1000000000"
  shows "AlertCounters (observed h) now window =
    (count_in is_complete (\<lambda>s. unix (now - window) \<le> s) h,
     count_in is_complete_error (\<lambda>s. unix (now - window) \<le> s) h,
     count_in is_reclaim_error (\<lambda>s. unix (now - window) \<le> s) h)"
proof -
  have past: "\<And>x. x \<in> set h \<Longrightarrow> unix (fst x) \<le> unix now" using assms(2) by (auto intro!: unix_mono)
  note counts = counters [THEN window_counts [OF ring_ok_observed [OF assms(1)] _ past window_span [OF assms(4), of now]]]
  show ?thesis using assms(3) counts by (simp add: AlertCounters_def Let_def)
qed

theorem alert_window_exact_witness:
  "AlertCounters (observed [(1000000000, ''complete'', ''error''), (5000000000, ''complete'', ''success''), (69000000000, ''complete'', ''error'')])
     70000000000 63000000000 = (1, 1, 0)"
  using alert_window_exact [of "[(1000000000, ''complete'', ''error''), (5000000000, ''complete'', ''success''), (69000000000, ''complete'', ''error'')]" 70000000000 63000000000]
  by (simp add: in_order_def count_in_def is_complete_def is_complete_error_def is_reclaim_error_def unix_def)

text \<open>A longer window is not cut to the last 64 seconds: a bucket that no later second has taken over still counts.\<close>

lemma replicate_eval: "replicate (numeral n) x = x # replicate (pred_numeral n) x"
  by (simp add: numeral_eq_Suc)

lemma long_window_counts_old:
  "AlertCounters (observed [(1000000000, ''complete'', ''error'')]) 3601000000000 3600000000000 = (1, 1, 0)"
  by (simp add: observed_def recordAlertCounter_def AlertCounters_def new_buckets_def new_bucket_def counted_def unix_def alert_index_def Let_def replicate_eval)

end
