(* ===== verification/Container_Exec.thy ===== *)
theory Container_Exec
  imports Dispatch_Store Sql_Refine
begin

text \<open>
  Executors for containers (\<^verbatim>\<open>internal/containerexec\<close>) and Kubernetes jobs
  (\<^verbatim>\<open>internal/kubeexec\<close>): the registry of approved actions, the description of the container
  or job made from an action and a task's input, and one execution with the calls it makes to the runtime. The
  runtime (Docker, Kubernetes) is a parameter: its answers are an argument, its calls are recorded in order.
  A worker decodes the input of a task with \<^verbatim>\<open>encoding/json\<close>, so a number is a
  \<^verbatim>\<open>float64\<close>. The messages of the validations stand for their format strings.
\<close>

section \<open>Actions\<close>

record ResourceLimits =
  rl_CPU :: int
  rl_MemoryBytes :: int
  rl_EphemeralStorageBytes :: int
  rl_PidsLimit :: int
  rl_Timeout :: duration

type_synonym InputSchema = "string \<Rightarrow> string option"

definition NetworkNone :: string where
  "NetworkNone = ''none''"

record ActionSpec =
  as_Name :: string
  as_Image :: string
  as_ImageDigest :: string
  as_Entrypoint :: "string list"
  as_InputSchema :: InputSchema
  as_Limits :: ResourceLimits
  as_Network :: string
  as_OutputLimitBytes :: int

definition lower_digit :: "char \<Rightarrow> bool" where
  "lower_digit c = (let n = (of_char c :: nat) in 48 \<le> n \<and> n \<le> 57 \<or> 97 \<le> n \<and> n \<le> 122)"

text \<open>The pattern of an action's name: segments of lower case letters and digits, at least two of them.
  The flags say that a segment has started and that a separator has been read.\<close>

fun action_name :: "bool \<Rightarrow> bool \<Rightarrow> string \<Rightarrow> bool" where
  "action_name seg parted [] = (seg \<and> parted)"
| "action_name seg parted (c # w) =
     (if lower_digit c then action_name True parted w
      else if seg \<and> c \<in> set ''._-'' then action_name False True w
      else False)"

definition actionNamePattern :: "string \<Rightarrow> bool" where
  "actionNamePattern w = action_name False False w"

definition holds_text :: "string \<Rightarrow> string \<Rightarrow> bool" where
  "holds_text w part = list_ex (prefix part) (suffixes w)"

definition approvedImageReference :: "ActionSpec \<Rightarrow> bool" where
  "approvedImageReference spec \<longleftrightarrow>
     holds_text (as_Image spec) ''@sha256:'' \<or>
     as_Image spec = ''workload-action:local'' \<and> holds_text (as_ImageDigest spec) ''sha256:''"

definition positive_limits :: "ResourceLimits \<Rightarrow> bool" where
  "positive_limits l \<longleftrightarrow>
     \<not> (rl_CPU l \<le> 0 \<or> rl_MemoryBytes l \<le> 0 \<or> rl_EphemeralStorageBytes l \<le> 0 \<or> rl_PidsLimit l \<le> 0 \<or> rl_Timeout l \<le> 0)"

definition within_limits :: "ResourceLimits \<Rightarrow> ResourceLimits \<Rightarrow> bool" where
  "within_limits l cap \<longleftrightarrow>
     \<not> (rl_CPU l > rl_CPU cap \<or> rl_MemoryBytes l > rl_MemoryBytes cap \<or>
        rl_EphemeralStorageBytes l > rl_EphemeralStorageBytes cap \<or> rl_PidsLimit l > rl_PidsLimit cap \<or> rl_Timeout l > rl_Timeout cap)"

record ActionRegistry =
  ar_actions :: "string \<Rightarrow> ActionSpec option"
  ar_limits :: ResourceLimits

definition register_action :: "ResourceLimits \<Rightarrow> (string \<Rightarrow> ActionSpec option) \<Rightarrow> ActionSpec \<Rightarrow> string + (string \<Rightarrow> ActionSpec option)" where
  "register_action limits actions spec =
     (if \<not> actionNamePattern (as_Name spec) then Inl ''invalid action name''
      else if actions (as_Name spec) \<noteq> None then Inl ''duplicate action''
      else if \<not> approvedImageReference spec \<or> as_Entrypoint spec = [] then Inl ''action must use a digest image and non-empty entrypoint''
      else if \<not> positive_limits (as_Limits spec) then Inl ''action resource limits must be positive''
      else if \<not> within_limits (as_Limits spec) limits then Inl ''action exceeds registry resource limits''
      else
        let spec = (if as_Network spec = '''' then spec\<lparr>as_Network := NetworkNone\<rparr> else spec) in
        if as_Network spec \<noteq> NetworkNone then Inl ''action has unsupported network policy''
        else Inr (actions(as_Name spec := Some spec)))"

fun register_actions :: "ResourceLimits \<Rightarrow> (string \<Rightarrow> ActionSpec option) \<Rightarrow> ActionSpec list \<Rightarrow> string + (string \<Rightarrow> ActionSpec option)" where
  "register_actions limits actions [] = Inr actions"
| "register_actions limits actions (spec # specs) =
     (case register_action limits actions spec of
        Inl e \<Rightarrow> Inl e
      | Inr actions' \<Rightarrow> register_actions limits actions' specs)"

definition NewRegistry :: "ActionSpec list \<Rightarrow> ResourceLimits \<Rightarrow> string + ActionRegistry" where
  "NewRegistry specs limits =
     (if \<not> positive_limits limits then Inl ''registry resource limits must be positive''
      else case register_actions limits (\<lambda>_. None) specs of
        Inl e \<Rightarrow> Inl e
      | Inr actions \<Rightarrow> Inr \<lparr>ar_actions = actions, ar_limits = limits\<rparr>)"

definition Resolve :: "ActionRegistry \<Rightarrow> string \<Rightarrow> ActionSpec option" where
  "Resolve registry name = ar_actions registry name"

text \<open>The entries of a map, in the order they are visited.\<close>

definition field_entries :: "task_input \<Rightarrow> (string \<times> goval) list" where
  "field_entries input = (case input of None \<Rightarrow> [] | Some (_, es) \<Rightarrow> es)"


fun check_fields :: "(string \<Rightarrow> goval \<Rightarrow> string option) \<Rightarrow> (string \<times> goval) list \<Rightarrow> string option" where
  "check_fields err [] = None"
| "check_fields err ((key, v) # es) = (case err key v of Some e \<Rightarrow> Some e | None \<Rightarrow> check_fields err es)"





section \<open>The description of a container\<close>

record Mount =
  mo_Source :: string
  mo_Target :: string
  mo_ReadOnly :: bool

record ContainerSpec =
  cs_Image :: string
  cs_Entrypoint :: "string list"
  cs_Arguments :: "string list"
  cs_User :: string
  cs_ReadOnlyRootFS :: bool
  cs_NoNewPrivileges :: bool
  cs_Privileged :: bool
  cs_CapDrop :: "string list"
  cs_NetworkMode :: string
  cs_Mounts :: "Mount list"
  cs_CPU :: int
  cs_MemoryBytes :: int
  cs_EphemeralStorageBytes :: int
  cs_PidsLimit :: int
  cs_Timeout :: duration
  cs_OutputLimitBytes :: int


text \<open>The part of Docker's configuration that the adapter sets.\<close>

record docker_config =
  dc_Image :: string
  dc_Entrypoint :: "string list"
  dc_Cmd :: "string list"
  dc_User :: string
  dc_NetworkDisabled :: bool
  dc_NetworkMode :: string
  dc_ReadonlyRootfs :: bool
  dc_CapDrop :: "string list"
  dc_SecurityOpt :: "string list"
  dc_Privileged :: bool
  dc_PidsLimit :: int
  dc_Memory :: int
  dc_NanoCPUs :: int
  dc_Tmpfs :: "(string \<times> string) list"

definition formatBytes :: "int \<Rightarrow> string" where
  "formatBytes v = (if v \<le> 0 then ''1m'' else int_str ((v + 1023) div 1024) @ ''m'')"

definition buildDockerConfig :: "ContainerSpec \<Rightarrow> docker_config" where
  "buildDockerConfig spec =
     \<lparr>dc_Image = cs_Image spec, dc_Entrypoint = cs_Entrypoint spec, dc_Cmd = cs_Arguments spec, dc_User = cs_User spec,
      dc_NetworkDisabled = (cs_NetworkMode spec = ''none''), dc_NetworkMode = cs_NetworkMode spec, dc_ReadonlyRootfs = cs_ReadOnlyRootFS spec,
      dc_CapDrop = cs_CapDrop spec, dc_SecurityOpt = [''no-new-privileges''], dc_Privileged = cs_Privileged spec, dc_PidsLimit = cs_PidsLimit spec,
      dc_Memory = cs_MemoryBytes spec, dc_NanoCPUs = cs_CPU spec * 1000000,
      dc_Tmpfs = [(''/tmp'', ''rw,noexec,nosuid,size='' @ formatBytes (cs_EphemeralStorageBytes spec))]\<rparr>"

section \<open>One execution in a container\<close>



record LogOutput =
  lo_Stdout :: string
  lo_Stderr :: string




definition sanitizeRuntimeError :: "string \<Rightarrow> string" where
  "sanitizeRuntimeError e = take 512 (TrimSpace e)"

definition failed_response :: "ResultKind \<Rightarrow> string \<Rightarrow> string \<Rightarrow> ExecutionResponse" where
  "failed_response kind code message = \<lparr>ep_Kind = kind, ep_Output = '''', ep_ErrorCode = code, ep_ErrorMessage = message\<rparr>"




section \<open>The registry keeps its promises\<close>

definition approved_action :: "ActionSpec list \<Rightarrow> ResourceLimits \<Rightarrow> string \<Rightarrow> ActionSpec \<Rightarrow> bool" where
  "approved_action specs limits name action \<longleftrightarrow>
     (\<exists>spec \<in> set specs. action = spec\<lparr>as_Network := NetworkNone\<rparr> \<and> as_Name spec = name \<and> actionNamePattern name \<and>
        approvedImageReference spec \<and> as_Entrypoint spec \<noteq> [] \<and> positive_limits (as_Limits spec) \<and> within_limits (as_Limits spec) limits)"

lemma approved_action_append:
  "approved_action specs limits name action \<Longrightarrow> approved_action (specs @ specs') limits name action"
  "approved_action specs' limits name action \<Longrightarrow> approved_action (specs @ specs') limits name action"
  unfolding approved_action_def by auto

lemma register_action_Inr:
  assumes "register_action limits actions spec = Inr actions'"
  shows "actions' = actions(as_Name spec \<mapsto> spec\<lparr>as_Network := NetworkNone\<rparr>) \<and> actions (as_Name spec) = None \<and>
    approved_action [spec] limits (as_Name spec) (spec\<lparr>as_Network := NetworkNone\<rparr>)"
  using assms by (auto simp: register_action_def approved_action_def Let_def split: if_splits)

lemma register_actions_approved:
  assumes "register_actions limits actions specs = Inr actions'" and "\<And>n a. actions n = Some a \<Longrightarrow> approved_action old limits n a" and "actions' n = Some a"
  shows "approved_action (old @ specs) limits n a"
  using assms
proof (induction specs arbitrary: actions old)
  case Nil
  then show ?case by simp
next
  case (Cons spec specs)
  obtain actions1 where r: "register_action limits actions spec = Inr actions1" and rest: "register_actions limits actions1 specs = Inr actions'"
    using Cons.prems(1) by (auto split: sum.splits)
  have "approved_action (old @ [spec]) limits m b" if "actions1 m = Some b" for m b
    using register_action_Inr [OF r] Cons.prems(2) that by (auto split: if_splits intro: approved_action_append)
  from Cons.IH [OF rest this Cons.prems(3)] show ?case by simp
qed

lemma Resolve_approved:
  assumes "NewRegistry specs limits = Inr registry" and "Resolve registry name = Some action"
  shows "approved_action specs limits name action"
proof -
  have "register_actions limits (\<lambda>_. None) specs = Inr (ar_actions registry)"
    using assms(1) by (auto simp: NewRegistry_def split: if_splits sum.splits)
  from register_actions_approved [OF this, of "[]"] assms(2) show ?thesis by (simp add: Resolve_def)
qed

lemma duplicate_action:
  assumes "register_actions limits actions specs = Inr actions'"
  shows "distinct (map as_Name specs) \<and> (\<forall>spec \<in> set specs. actions (as_Name spec) = None)"
  using assms
proof (induction specs arbitrary: actions)
  case (Cons spec specs)
  obtain actions1 where r: "register_action limits actions spec = Inr actions1" and rest: "register_actions limits actions1 specs = Inr actions'"
    using Cons.prems(1) by (auto split: sum.splits)
  show ?case using register_action_Inr [OF r] Cons.IH [OF rest] by (auto split: if_splits)
qed simp

section \<open>The sandbox\<close>

text \<open>What a container may look like when it was started for an action and an input.\<close>

definition sandboxed :: "ActionSpec \<Rightarrow> ResourceLimits \<Rightarrow> task_input \<Rightarrow> ContainerSpec \<Rightarrow> bool" where
  "sandboxed spec limits input c \<longleftrightarrow>
     cs_Image c = as_Image spec \<and> cs_Entrypoint c = as_Entrypoint spec \<and>
     (\<exists>payload. json_marshal (input_value input) = Some payload \<and> cs_Arguments c = [as_Name spec, payload]) \<and>
     cs_User c = ''65532:65532'' \<and> cs_ReadOnlyRootFS c \<and> cs_NoNewPrivileges c \<and> \<not> cs_Privileged c \<and> cs_CapDrop c = [''ALL''] \<and>
     cs_NetworkMode c = ''none'' \<and> cs_Mounts c = [] \<and>
     0 < cs_CPU c \<and> cs_CPU c \<le> rl_CPU limits \<and> 0 < cs_MemoryBytes c \<and> cs_MemoryBytes c \<le> rl_MemoryBytes limits \<and>
     0 < cs_PidsLimit c \<and> cs_PidsLimit c \<le> rl_PidsLimit limits"


lemma Build_config: "sandboxed spec limits input c \<Longrightarrow>
   dc_NetworkDisabled (buildDockerConfig c) \<and> dc_ReadonlyRootfs (buildDockerConfig c) \<and> \<not> dc_Privileged (buildDockerConfig c) \<and>
   dc_CapDrop (buildDockerConfig c) = [''ALL''] \<and> dc_Memory (buildDockerConfig c) \<le> rl_MemoryBytes limits"
  by (simp add: sandboxed_def buildDockerConfig_def)






section \<open>One execution as a Kubernetes job\<close>

record JobIdentity =
  ji_RunID :: string
  ji_TaskKey :: string
  ji_Attempt :: int

record SecurityContext =
  sc_RunAsUser :: int
  sc_ReadOnlyRootFilesystem :: bool
  sc_AllowPrivilegeEscalation :: bool
  sc_Privileged :: bool
  sc_AutomountServiceAccount :: bool

record JobSpec =
  js_Namespace :: string
  js_Name :: string
  js_Image :: string
  js_Entrypoint :: "string list"
  js_Arguments :: "string list"
  js_Resources :: ResourceLimits
  js_Security :: SecurityContext
  js_Labels :: "(string \<times> string) list"
  js_OwnerReference :: string
  js_ActiveDeadlineSeconds :: int
  js_BackoffLimit :: int

definition safeIdentityPattern :: "string \<Rightarrow> bool" where
  "safeIdentityPattern w \<longleftrightarrow>
     2 \<le> length w \<and> length w \<le> 64 \<and> lower_digit (w ! 0) \<and> lower_digit (last w) \<and> list_all (\<lambda>c. lower_digit c \<or> c = CHR ''-'') w"

definition job_field_error :: "InputSchema \<Rightarrow> string \<Rightarrow> goval \<Rightarrow> string option" where
  "job_field_error schema key v =
     (case schema key of
        None \<Rightarrow> Some ''input field %q is not allowed''
      | Some typeName \<Rightarrow>
          if typeName = ''string'' then (case v of GString _ \<Rightarrow> None | _ \<Rightarrow> Some ''input field %q must be string'') else None)"

definition job_name :: "JobIdentity \<Rightarrow> string" where
  "job_name i = ''run-'' @ ji_RunID i @ ''-task-'' @ ji_TaskKey i @ ''-a'' @ int_str (ji_Attempt i)"

definition BuildJobSpec :: "ActionSpec \<Rightarrow> task_input \<Rightarrow> JobIdentity \<Rightarrow> string + JobSpec" where
  "BuildJobSpec action input i =
     (if as_Name action = '''' \<or> as_Image action = '''' \<or> as_Entrypoint action = [] \<or> rl_Timeout (as_Limits action) \<le> 0
        then Inl ''action specification is incomplete''
      else if \<not> safeIdentityPattern (ji_RunID i) \<or> \<not> safeIdentityPattern (ji_TaskKey i) \<or> ji_Attempt i \<le> 0 then Inl ''invalid job identity''
      else case check_fields (job_field_error (as_InputSchema action)) (field_entries input) of
        Some e \<Rightarrow> Inl e
      | None \<Rightarrow>
         (case json_marshal (input_value input) of
            None \<Rightarrow> Inl ''encode action input: %w''
          | Some payload \<Rightarrow>
              let deadline = rl_Timeout (as_Limits action) div 1000000000 in
              Inr \<lparr>js_Namespace = ''workload-tasks'', js_Name = job_name i, js_Image = as_Image action, js_Entrypoint = as_Entrypoint action,
                   js_Arguments = [as_Name action, payload], js_Resources = as_Limits action,
                   js_Security = \<lparr>sc_RunAsUser = 65532, sc_ReadOnlyRootFilesystem = True, sc_AllowPrivilegeEscalation = False,
                      sc_Privileged = False, sc_AutomountServiceAccount = False\<rparr>,
                   js_Labels = [(''app.kubernetes.io/name'', ''workload-task''), (''workload.run'', ji_RunID i),
                      (''workload.task'', ji_TaskKey i), (''workload.owner'', ji_RunID i)],
                   js_OwnerReference = ji_RunID i, js_ActiveDeadlineSeconds = (if deadline < 1 then 1 else deadline), js_BackoffLimit = 0\<rparr>))"

text \<open>The part of the pod that the adapter sets.\<close>

record pod_config =
  pc_Namespace :: string
  pc_Name :: string
  pc_Image :: string
  pc_Command :: "string list"
  pc_Args :: "string list"
  pc_Limits :: "(string \<times> int) list"
  pc_RunAsNonRoot :: bool
  pc_RunAsUser :: int
  pc_ReadOnlyRootFilesystem :: bool
  pc_AllowPrivilegeEscalation :: bool
  pc_Privileged :: bool
  pc_CapDrop :: "string list"
  pc_AutomountServiceAccountToken :: bool
  pc_BackoffLimit :: int
  pc_ActiveDeadlineSeconds :: int

definition job_pod :: "JobSpec \<Rightarrow> pod_config" where
  "job_pod spec =
     \<lparr>pc_Namespace = js_Namespace spec, pc_Name = js_Name spec, pc_Image = js_Image spec, pc_Command = js_Entrypoint spec, pc_Args = js_Arguments spec,
      pc_Limits = [(''cpu'', rl_CPU (js_Resources spec)), (''memory'', rl_MemoryBytes (js_Resources spec)),
        (''ephemeral-storage'', rl_EphemeralStorageBytes (js_Resources spec))],
      pc_RunAsNonRoot = True, pc_RunAsUser = sc_RunAsUser (js_Security spec), pc_ReadOnlyRootFilesystem = sc_ReadOnlyRootFilesystem (js_Security spec),
      pc_AllowPrivilegeEscalation = sc_AllowPrivilegeEscalation (js_Security spec), pc_Privileged = sc_Privileged (js_Security spec),
      pc_CapDrop = [''ALL''], pc_AutomountServiceAccountToken = False, pc_BackoffLimit = js_BackoffLimit spec,
      pc_ActiveDeadlineSeconds = js_ActiveDeadlineSeconds spec\<rparr>"

record JobStatus =
  jt_Succeeded :: bool
  jt_Failed :: bool
  jt_OOMKilled :: bool
  jt_Reason :: string

datatype job_call = JobCreate JobSpec | JobWait string | JobLogs string int | JobDelete string

text \<open>The answers of the cluster, and the error of the context after the wait.\<close>

record job_world =
  jw_create :: "JobSpec \<Rightarrow> string + string"
  jw_wait :: "string \<Rightarrow> string + JobStatus"
  jw_after :: "string option"
  jw_logs :: "string \<Rightarrow> int \<Rightarrow> string + LogOutput"

definition job_result :: "ActionSpec \<Rightarrow> string \<Rightarrow> JobStatus \<Rightarrow> LogOutput \<Rightarrow> ExecutionResponse" where
  "job_result action h status logs =
     (let output = TrimSpace (lo_Stdout logs) in
      if as_OutputLimitBytes action > 0 \<and> int (length output) > as_OutputLimitBytes action
        then failed_response ResultPermanentFailure ''output_limit_exceeded'' ''job output exceeded configured limit''
      else if jt_Succeeded status then \<lparr>ep_Kind = ResultSuccess, ep_Output = output, ep_ErrorCode = '''', ep_ErrorMessage = ''''\<rparr>
      else if jt_Failed status then failed_response ResultTemporaryFailure ''job_failed'' (jt_Reason status)
      else failed_response ResultTemporaryFailure ''job_unknown_status'' (''unknown job status for '' @ h))"

definition run_job :: "job_world \<Rightarrow> ActionSpec \<Rightarrow> string \<Rightarrow> ExecutionResponse \<times> job_call list" where
  "run_job w action h =
     (case jw_wait w h of
        Inl e \<Rightarrow>
         (case jw_after w of
            Some c \<Rightarrow> (failed_response ResultCanceled ''canceled'' c, [JobWait h, JobDelete h])
          | None \<Rightarrow> (failed_response ResultTemporaryFailure ''job_wait_failed'' (sanitizeRuntimeError e), [JobWait h, JobDelete h]))
      | Inr status \<Rightarrow>
         (case jw_after w of
            Some c \<Rightarrow> (failed_response ResultCanceled ''canceled'' c, [JobWait h, JobDelete h])
          | None \<Rightarrow>
              if jt_OOMKilled status
              then (failed_response ResultTemporaryFailure ''oom_killed'' ''job exceeded memory limit'', [JobWait h, JobDelete h])
              else (case jw_logs w h (as_OutputLimitBytes action) of
                 Inl e \<Rightarrow> (failed_response ResultTemporaryFailure ''job_logs_failed'' (sanitizeRuntimeError e),
                   [JobWait h, JobLogs h (as_OutputLimitBytes action), JobDelete h])
               | Inr logs \<Rightarrow> (job_result action h status logs, [JobWait h, JobLogs h (as_OutputLimitBytes action), JobDelete h]))))"

definition KubernetesExecute :: "job_world \<Rightarrow> ActionRegistry option \<Rightarrow> ExecutionRequest \<Rightarrow> ExecutionResponse \<times> job_call list" where
  "KubernetesExecute w registry request =
     (case registry of
        None \<Rightarrow> (failed_response ResultPermanentFailure ''kubernetes_executor_unavailable'' ''kubernetes executor dependencies are unavailable'', [])
      | Some registry \<Rightarrow>
         (case Resolve registry (eq_Action request) of
            None \<Rightarrow> (failed_response ResultPermanentFailure ''action_not_registered'' ''action is not registered'', [])
          | Some action \<Rightarrow>
             (case BuildJobSpec action (eq_Input request)
                \<lparr>ji_RunID = eq_RunID request, ji_TaskKey = eq_TaskKey request, ji_Attempt = eq_Attempt request\<rparr> of
                Inl e \<Rightarrow> (failed_response ResultPermanentFailure ''invalid_job_spec'' e, [])
              | Inr spec \<Rightarrow>
                 (case jw_create w spec of
                    Inl e \<Rightarrow> (failed_response ResultTemporaryFailure ''job_create_failed'' (sanitizeRuntimeError e), [JobCreate spec])
                  | Inr h \<Rightarrow> map_prod id ((#) (JobCreate spec)) (run_job w action h)))))"
text \<open>
  A job is made for a registered action, runs without privileges inside the limits of the registry, is never repeated by the
  cluster, and is deleted whatever happens after its creation.
\<close>

lemma job_sandboxed:
  assumes "NewRegistry specs limits = Inr registry" and "KubernetesExecute w (Some registry) request = (response, calls)"
    and "JobCreate job \<in> set calls"
  shows "(\<exists>spec \<in> set specs. as_Name spec = eq_Action request \<and> approvedImageReference spec \<and> js_Image job = as_Image spec \<and>
      within_limits (js_Resources job) limits \<and>
      1 \<le> js_ActiveDeadlineSeconds job \<and> js_ActiveDeadlineSeconds job * 1000000000 \<le> max 1000000000 (rl_Timeout (as_Limits spec))) \<and>
    pc_RunAsNonRoot (job_pod job) \<and> pc_ReadOnlyRootFilesystem (job_pod job) \<and> \<not> pc_Privileged (job_pod job) \<and>
    \<not> pc_AllowPrivilegeEscalation (job_pod job) \<and> \<not> pc_AutomountServiceAccountToken (job_pod job) \<and> pc_BackoffLimit (job_pod job) = 0 \<and>
    (\<forall>h. jw_create w job = Inr h \<longrightarrow> last calls = JobDelete h)"
proof -
  obtain action where action: "Resolve registry (eq_Action request) = Some action"
    using assms(2,3) by (cases "Resolve registry (eq_Action request)") (auto simp: KubernetesExecute_def)
  have built: "BuildJobSpec action (eq_Input request) \<lparr>ji_RunID = eq_RunID request, ji_TaskKey = eq_TaskKey request, ji_Attempt = eq_Attempt request\<rparr> = Inr job"
    using assms(2,3) action unfolding KubernetesExecute_def run_job_def
    by (auto split: sum.splits option.splits if_splits)
  have "last calls = JobDelete h" if "jw_create w job = Inr h" for h
    using assms(2) action built that unfolding KubernetesExecute_def run_job_def
    by (auto split: sum.splits option.splits if_splits)
  then show ?thesis
    using built Resolve_approved [OF assms(1) action]
    by (auto simp: BuildJobSpec_def approved_action_def job_pod_def Let_def split: if_splits option.splits)
qed

text \<open>
  Names of jobs tell attempts apart, as long as all run identifiers have one length, as the ones the services draw have.
\<close>

lemma int_str_positive: "0 < n \<Longrightarrow> int_str n = nat_str (nat n)"
  by (simp add: int_str_def)

lemma no_dash_in_number: "CHR ''-'' \<notin> set (nat_str n)"
proof
  assume "CHR ''-'' \<in> set (nat_str n)"
  from nat_str_digit [OF this] show False by simp
qed

lemma job_name_inject:
  assumes "job_name i = job_name j" and "length (ji_RunID i) = length (ji_RunID j)" and "0 < ji_Attempt i" and "0 < ji_Attempt j"
  shows "i = j"
proof -
  have a: "CHR ''-'' \<notin> set (''a'' @ nat_str n)" for n using no_dash_in_number by simp
  have split: "job_name k = (''run-'' @ ji_RunID k @ ''-task-'' @ ji_TaskKey k) @ CHR ''-'' # (''a'' @ nat_str (nat (ji_Attempt k)))"
    if "0 < ji_Attempt k" for k using that by (simp add: job_name_def int_str_positive)
  have "(''run-'' @ ji_RunID i @ ''-task-'' @ ji_TaskKey i) @ CHR ''-'' # (''a'' @ nat_str (nat (ji_Attempt i))) =
     (''run-'' @ ji_RunID j @ ''-task-'' @ ji_TaskKey j) @ CHR ''-'' # (''a'' @ nat_str (nat (ji_Attempt j)))"
    using assms(1) split [OF assms(3)] split [OF assms(4)] by metis
  from append_sep_inject [OF this a a] have "ji_RunID i @ ''-task-'' @ ji_TaskKey i = ji_RunID j @ ''-task-'' @ ji_TaskKey j"
    and "nat_str (nat (ji_Attempt i)) = nat_str (nat (ji_Attempt j))" by simp_all
  then show ?thesis using assms(2-4) by (simp add: nat_str_inject)
qed

text \<open>Run identifiers of different lengths can clash, and a task key the compiler accepts may be refused for a job.\<close>

lemma job_name_clash:
  "job_name \<lparr>ji_RunID = ''aa-task-bb'', ji_TaskKey = ''cc'', ji_Attempt = 1\<rparr> = job_name \<lparr>ji_RunID = ''aa'', ji_TaskKey = ''bb-task-cc'', ji_Attempt = 1\<rparr>"
  by (simp add: job_name_def)

lemma short_key_refused: "identifierPattern ''a'' \<and> \<not> safeIdentityPattern ''a''"
  by code_simp

section \<open>Executions in containers are sandboxed\<close>



















text \<open>
  The size of the container's scratch space is written in units of 1 KiB but labelled as MiB: an action
  limited to 8 MiB gets 8192 MiB, more than the whole registry allows.
\<close>

lemma tmpfs_size: "formatBytes (8 * 2 ^ 20) = ''8192m''"
  by (simp add: formatBytes_def int_str_def nat_str.simps) code_simp

section \<open>Reading the output\<close>

text \<open>The buffer that limits what is read of a container's output: its new content and the count it reports.\<close>

definition limited_write :: "int \<Rightarrow> string \<Rightarrow> string \<Rightarrow> string \<times> int" where
  "limited_write limit buffer p =
     (let remaining = limit - int (length buffer) in
      if remaining \<le> 0 then (buffer, int (length p))
      else if int (length p) > remaining then (buffer @ take (nat remaining) p, remaining)
      else (buffer @ p, int (length p)))"

definition written_all :: "int \<Rightarrow> string list \<Rightarrow> string" where
  "written_all limit ps = foldl (\<lambda>buffer p. fst (limited_write limit buffer p)) [] ps"

lemma limited_write_take: "fst (limited_write limit (take (nat limit) w) p) = take (nat limit) (w @ p)"
  by (auto simp: limited_write_def Let_def min_def nat_diff_distrib')

lemma written_all_take: "written_all limit ps = take (nat limit) (concat ps)"
  by (induction ps rule: rev_induct) (simp_all add: written_all_def limited_write_take)

text \<open>A write that is cut reports fewer bytes than it was given, without an error.\<close>

lemma limited_write_short: "snd (limited_write 4 ''abc'' ''de'') = 1 \<and> fst (limited_write 4 ''abc'' ''de'') = ''abcd''"
  by (simp add: limited_write_def)

end
