(* ===== verification/Spec2Isabelle.thy ===== *)
theory Spec2Isabelle
  imports Samples Engine_Correct Platform_Correct Alerting Http_Api Worker_Runtime Metrics_Window Container_Exec
begin

text \<open>
  Verification of the AI workload platform: the workflow core (\<^verbatim>\<open>src/workflow\<close>), its
  control plane over PostgreSQL (\<^verbatim>\<open>src/internal\<close>) and the agent that drafts workflows
  (\<^verbatim>\<open>src/agent\<close>). Definitions keep the names of the Go code; a prefix such as
  \<^verbatim>\<open>pg_\<close>, \<^verbatim>\<open>fs_\<close>, \<^verbatim>\<open>svc_\<close> or \<^verbatim>\<open>worker_\<close> tells apart
  operations of the same name. The properties of the program carry the labels C1 to C40.

  \<^bold>\<open>The program.\<close> A workflow definition is a list of tasks with dependencies, retries and timeouts.
  \<^verbatim>\<open>Compile\<close> checks it and turns it into adjacency lists. A run is a snapshot: the run's
  row, its tasks with their attempts, the event log and a counter of open dependencies per task. All
  changes to a run are a few operations on snapshots (queue, start, report a result, time out,
  interrupt, make a retry ready, cancel). Two programs use them. The in-process engine keeps a
  snapshot, runs tasks itself and stores every change in a file store. The control plane keeps runs as
  rows: services create definitions and runs, a coordinator that holds a database lock scans for ready
  tasks and creates dispatches, workers claim dispatches under leases, renew them by heartbeats and
  complete them, and expired leases are reaped. An HTTP server authenticates requests and routes them
  to the services, to the worker routes and to the agent. A worker process polls, executes and reports.

  \<^bold>\<open>Theories and the code they model.\<close>
  \<^item> \<^verbatim>\<open>Prelude\<close>, \<^verbatim>\<open>Json_Value\<close>: errors, 64-bit arithmetic, times, the interfaces
    \<^verbatim>\<open>spelled\<close>, \<^verbatim>\<open>status_machine\<close>, \<^verbatim>\<open>invariant_machine\<close>; task inputs and
    their validation (\<^verbatim>\<open>compiler.go\<close>).
  \<^item> \<^verbatim>\<open>Workflow_Data\<close>, \<^verbatim>\<open>Workflow_State\<close>, \<^verbatim>\<open>Compiler\<close>,
    \<^verbatim>\<open>Distributed_State\<close>: \<^verbatim>\<open>definition.go\<close>, \<^verbatim>\<open>run.go\<close>,
    \<^verbatim>\<open>executor.go\<close>, \<^verbatim>\<open>state.go\<close>, \<^verbatim>\<open>compiler.go\<close>,
    \<^verbatim>\<open>distributed_state.go\<close> of \<^verbatim>\<open>src/workflow\<close>.
  \<^item> \<^verbatim>\<open>Run_Effects\<close>, \<^verbatim>\<open>Run_Invariant\<close>, \<^verbatim>\<open>Run_Operations\<close>,
    \<^verbatim>\<open>Run_Machine\<close>: the invariant of a run, the effect of every operation on it, and the
    run as a machine with its work measure. \<^verbatim>\<open>Samples\<close> holds the runs of the witnesses.
  \<^item> \<^verbatim>\<open>Change_Set\<close>, \<^verbatim>\<open>File_Store\<close>, \<^verbatim>\<open>Recovery\<close>,
    \<^verbatim>\<open>Engine\<close>, \<^verbatim>\<open>Engine_Correct\<close>: \<^verbatim>\<open>change.go\<close>,
    \<^verbatim>\<open>store.go\<close>, \<^verbatim>\<open>persistence.go\<close>, \<^verbatim>\<open>filestore/store.go\<close>,
    \<^verbatim>\<open>recovery.go\<close>, \<^verbatim>\<open>engine.go\<close>. The engine is proved correct against the
    locale \<^verbatim>\<open>run_store\<close>, which the file store and the snapshot adapter interpret.
  \<^item> \<^verbatim>\<open>Sql_Tables\<close>, \<^verbatim>\<open>Sql_Runs\<close>, \<^verbatim>\<open>Sql_Refine\<close>,
    \<^verbatim>\<open>Sql_Create\<close>: the tables and constraints of the migrations, the run store
    (\<^verbatim>\<open>internal/postgres/run_store.go\<close>), and its refinement of the change sets.
  \<^item> \<^verbatim>\<open>Dispatch_Store\<close>, \<^verbatim>\<open>Dispatch_Invariant\<close>, \<^verbatim>\<open>Dispatch_Correct\<close>,
    \<^verbatim>\<open>Dispatch_Leases\<close>, \<^verbatim>\<open>Dispatch_System\<close>, \<^verbatim>\<open>Dispatch_History\<close>:
    \<^verbatim>\<open>worker_repository.go\<close>, the \<^verbatim>\<open>dispatch_*.go\<close> files and
    \<^verbatim>\<open>internal/workerauth\<close>; the invariant between runs, dispatches and workers; the life of a
    dispatch row.
  \<^item> \<^verbatim>\<open>Coordinator\<close>: \<^verbatim>\<open>internal/dispatch/coordinator.go\<close>, as an
    interleaving of its callers and its two loops.
  \<^item> \<^verbatim>\<open>Sql_Definitions\<close>, \<^verbatim>\<open>Json_Text\<close>, \<^verbatim>\<open>Sql_Queries\<close>,
    \<^verbatim>\<open>Services\<close>, \<^verbatim>\<open>Cursors\<close>, \<^verbatim>\<open>Pages\<close>: \<^verbatim>\<open>definitions.go\<close>,
    \<^verbatim>\<open>queries.go\<close>, \<^verbatim>\<open>repository.go\<close> and \<^verbatim>\<open>internal/app\<close> with its
    page cursors.
  \<^item> \<^verbatim>\<open>Platform\<close>, \<^verbatim>\<open>Sample_Db\<close>, \<^verbatim>\<open>Platform_Correct\<close>: the control plane as
    one machine over database, cache and coordinator, a small database, and the properties of both.
  \<^item> \<^verbatim>\<open>Worker_Api\<close>, \<^verbatim>\<open>Http_Api\<close>: \<^verbatim>\<open>internal/auth\<close>,
    \<^verbatim>\<open>internal/workerapi\<close>, \<^verbatim>\<open>internal/httpapi\<close>.
  \<^item> \<^verbatim>\<open>Worker_Runtime\<close>: \<^verbatim>\<open>internal/workerruntime/runtime.go\<close>, as an interleaving of
    its main loop, its heartbeat loop and two goroutines per lease, alone and against the platform.
  \<^item> \<^verbatim>\<open>Container_Exec\<close>: the registry of actions and the executors of
    \<^verbatim>\<open>internal/containerexec\<close> and \<^verbatim>\<open>internal/kubeexec\<close>, over a runtime
    whose answers are a parameter.
  \<^item> \<^verbatim>\<open>Agent_Draft\<close>, \<^verbatim>\<open>Agent\<close>: budget, drafts, hashing, catalog, validation,
    audit redaction, and the service of \<^verbatim>\<open>src/agent\<close>.
  \<^item> \<^verbatim>\<open>Alerting\<close>, \<^verbatim>\<open>Metrics_Window\<close>: \<^verbatim>\<open>internal/alerting\<close>,
    \<^verbatim>\<open>internal/postgres/observability.go\<close>, and the counters of
    \<^verbatim>\<open>internal/observability/metrics.go\<close>.

  \<^bold>\<open>What is shown.\<close> C1 to C3: compilation. C4 to C12, C14 and C15: the operations on a run, as functions and as a
  machine (invariant, safety, bounds, progress, termination, outcome). C13: executions in containers. C16 to C18: change sets and the
  file store. C19 and C20: the agent. C21: access over HTTP. C22, C24, C25: recovery and the engine.
  C23: the worker process. C26: the window of the alerts. C27 to C38: the control plane, from the
  invariant of the reachable databases to the single transactions and the coordinator. C39: paged
  lists. C40: the alert rules. The theorems \<open>resume_negative_counter\<close> and
  \<open>duration_overflow\<close> below, \<open>wide_concurrency_stops_scans\<close> and \<open>close_during_start\<close> in \<^verbatim>\<open>Platform_Correct\<close>,
  \<open>tmpfs_size\<close> in \<^verbatim>\<open>Container_Exec\<close>, \<open>heartbeat_error_dropped\<close> in \<^verbatim>\<open>Worker_Runtime\<close> and \<open>long_window_counts_old\<close> in
  \<^verbatim>\<open>Metrics_Window\<close> exhibit behaviours the code does not intend.

  \<^bold>\<open>How the code is read.\<close>
  \<^item> Errors are values of sum types; every early return is a branch. A lookup that the code guards
    is guarded in the same way.
  \<^item> Go's \<^verbatim>\<open>int\<close> and \<^verbatim>\<open>time.Duration\<close> are integers; the product of milliseconds
    wraps around at 64 bits (\<^verbatim>\<open>millis\<close>), counters of rows have the range of their columns, and
    \<^verbatim>\<open>uint64\<close> sequences are words. A time is a number of nanoseconds; a column keeps microseconds.
  \<^item> A transaction is one step that either commits or leaves the database as it was. Rows that other
    transactions hold are an argument of those that use SKIP LOCKED. The transaction retries of
    \<^verbatim>\<open>repository.go\<close> are repetitions of such a step.
  \<^item> Text columns are compared byte by byte (collation C), and strings are valid UTF-8.
  \<^item> Goroutines are interleaved steps at the granularity of their critical sections, requests and
    channel operations.
  \<^item> Parameters of the model: SHA-256, the random source, clocks, the executors and their answers, the JSON
    decoders of request bodies and cursors, PostgreSQL's spelling of numbers in JSONB, the answers of the
    model, the tools and the audit sink. Where a property needs more of them, the hypothesis says it:
    a digest without collisions on the values compared, a decoder that reads what was written.
  \<^item> Letters outside ASCII are taken to have no case; quotients of counters are compared as fractions; an empty
    and a missing list are the same, except in drafts, whose hash tells them apart.
  \<^item> Recursion is structural or has a termination proof. The only bounds added are the number of
    pages a client of a list reads (as many as the rows need, plus one) and the lists of events and
    observations from outside, which may have any length.

  \<^bold>\<open>Not modelled.\<close> Connection pools and schema migration; the HTTP clients of the worker, of the
  command line and of the model, whose requests the server's side covers; the test coordinator of
  \<^verbatim>\<open>internal/runtime\<close>, which only an end-to-end test starts; the SDKs of Docker and Kubernetes and the
  mock executor, which are parameters; configuration, the \<^verbatim>\<open>main\<close>
  functions and the command line; logs, spans and the Prometheus registry, on which no decision depends; fault
  injection, which serves tests.
\<close>

section \<open>The compiler\<close>

text \<open>
  C1. \<^verbatim>\<open>Compile\<close> accepts a definition exactly when it meets the declarative
  specification: legal identifiers, positive concurrency and timeouts, 1 to 10000 tasks with
  distinct keys, inputs that are JSON values of at most 64 KiB, no repeated or missing
  dependency, and no dependency cycle.
\<close>

theorem compile_correct: "(\<exists>cw. Compile def = Inr cw) \<longleftrightarrow> definition_ok def"
  by (rule compile_accepts_iff)

text \<open>
  C2. The compiled adjacency lists are the definition's: dependency list \<open>i\<close> names, in order,
  the tasks in \<^verbatim>\<open>depends_on\<close> of task \<open>i\<close>, the successor lists are its converse
  without repetition, and there is a rank that grows along every dependency.
\<close>

theorem compile_links:
  assumes "Compile def = Inr cw"
  shows "wf_compiled cw \<and>
    (\<forall>i < length (wd_Tasks def).
       map (\<lambda>d. td_Key (wd_Tasks def ! d)) (cw_dependencies cw ! i) = td_DependsOn (wd_Tasks def ! i) \<and>
       cw_successors cw ! i = successors_of (cw_dependencies cw) i)"
  using compiled_wf [OF assms] compiled_links(1,3) [OF assms] by (auto simp: wf_compiled_def Let_def)

theorem compile_links_witness:
  "wf_compiled sample_cw \<and> cw_successors sample_cw ! 0 = successors_of (cw_dependencies sample_cw) 0"
proof -
  have "0 < length (wd_Tasks sample_def)" by (simp add: sample_def_def)
  with compile_links [OF sample_compiled] show ?thesis by blast
qed

text \<open>
  C3. Compiling is idempotent: the normalised definition inside a compiled workflow compiles
  to the same compiled workflow. Recovery relies on it: the definition stored with a run
  is compiled again after a restart.
\<close>

theorem compile_stable: "Compile def = Inr cw \<Longrightarrow> Compile (cw_definition cw) = Inr cw"
  by (rule compile_idempotent)

theorem compile_stable_witness: "Compile sample_def = Inr sample_cw \<and> Compile (cw_definition sample_cw) = Inr sample_cw"
  using compile_stable [OF sample_compiled] sample_compiled by simp

section \<open>Runs\<close>

text \<open>
  C4. Every run that the operations of \<^verbatim>\<open>distributed_state.go\<close> can produce from a
  new run of a compiled definition, in any order and with any arguments, satisfies the run
  invariant: attempt histories fit the statuses, every counter of remaining dependencies is
  exact, tasks wait only while a dependency can still succeed, the workflow status fits the
  task statuses, and the event log is numbered consecutively.
\<close>

theorem run_invariant:
  assumes "Compile def = Inr cw" and "reachable cw s"
  shows "run_inv cw s"
  using reachable_inv [OF assms(2) compiled_wf [OF assms(1)]] .

theorem run_invariant_witness: "run_inv sample_cw s_failed"
  using run_invariant [OF sample_compiled reach_failed] .

text \<open>
  C5. A task is released, executed or finished by execution only when every task its
  definition depends on has succeeded.
\<close>

theorem dependencies_before_execution:
  assumes "Compile def = Inr cw" and "reachable cw s"
    and "i < length (wd_Tasks def)" and "d < length (wd_Tasks def)"
    and "td_Key (wd_Tasks def ! d) \<in> set (td_DependsOn (wd_Tasks def ! i))"
    and "status_of s i \<in> {TaskReady, TaskQueued, TaskRunning, TaskWaitingRetry, TaskSucceeded, TaskFailed}"
  shows "status_of s d = TaskSucceeded"
proof -
  note wf = compiled_wf [OF assms(1)] and links = compiled_links [OF assms(1)]
  have i: "i < task_count cw" using assms(3) links(1) by simp
  have "d \<in> deps_of cw i"
  proof -
    obtain e where e: "e \<in> deps_of cw i" "td_Key (wd_Tasks def ! e) = td_Key (wd_Tasks def ! d)"
      using assms(5) links(3) [OF assms(3), symmetric] by auto
    have "e < length (wd_Tasks def)" using wf_deps [OF wf i] e(1) links(1) by auto
    moreover have "unique_keys (wd_Tasks def)" using wf links(2) by (simp add: wf_compiled_def Let_def)
    ultimately show ?thesis using unique_keysD e assms(4) by metis
  qed
  moreover have "dep_ok cw (status_of s) i"
    using reachable_inv [OF assms(2) wf] i by (simp add: run_inv_def graph_ok_def)
  moreover from this have "pending cw (status_of s) i = 0" using assms(6) by (auto simp: dep_ok_def active_def)
  ultimately show ?thesis unfolding pending_0_iff by blast
qed

theorem dependencies_before_execution_witness: "status_of s_c_ready 2 = TaskReady \<and> status_of s_c_ready 0 = TaskSucceeded"
proof -
  have r: "status_of s_c_ready 2 = TaskReady" by code_simp
  have "status_of s_c_ready 0 = TaskSucceeded"
    by (rule dependencies_before_execution [OF sample_compiled reach_c_ready, of 2 0])
       (simp_all add: r, simp_all add: sample_def_def sample_task_def)
  with r show ?thesis by simp
qed

text \<open>
  C6. A task never has more attempts than its retry policy allows; attempts are numbered
  1, 2, 3, ... without gaps; all but the last ended in a failure that may be retried; and an
  attempt is running exactly while its task is.
\<close>

theorem attempts_bounded:
  assumes "Compile def = Inr cw" and "reachable cw s" and "i < task_count cw"
  shows "int (length (tr_Attempts (run_tasks s ! i))) \<le> max_attempts cw i \<and>
    map at_Number (tr_Attempts (run_tasks s ! i)) = map int [1 ..< Suc (length (tr_Attempts (run_tasks s ! i)))] \<and>
    list_all (\<lambda>a. isRetryableAttemptStatus (at_Status a)) (butlast (tr_Attempts (run_tasks s ! i))) \<and>
    (status_of s i = TaskRunning \<longleftrightarrow> AttemptRunning \<in> at_Status ` set (tr_Attempts (run_tasks s ! i)))"
proof -
  have h: "history_ok (max_attempts cw i) (run_tasks s ! i)"
    using run_inv_task(1) [OF reachable_inv [OF assms(2) compiled_wf [OF assms(1)]] assms(3)] .
  define as where "as = tr_Attempts (run_tasks s ! i)"
  have "status_of s i = TaskRunning \<longleftrightarrow> AttemptRunning \<in> at_Status ` set as"
  proof (cases as rule: rev_cases)
    case Nil
    with h show ?thesis by (auto simp: as_def history_ok_def Let_def)
  next
    case (snoc bs b)
    have "AttemptRunning \<notin> at_Status ` set bs"
      using h snoc by (auto simp: as_def history_ok_def Let_def list_all_iff isRetryableAttemptStatus_def)
    moreover have "at_Status b = AttemptRunning \<longleftrightarrow> status_of s i = TaskRunning"
      using h snoc by (cases "status_of s i") (auto simp: as_def history_ok_def Let_def isRetryableAttemptStatus_def)
    ultimately show ?thesis using snoc by auto
  qed
  with h show ?thesis by (simp add: history_ok_def Let_def as_def)
qed

theorem attempts_bounded_witness: "int (length (tr_Attempts (run_tasks s_retry ! 1))) \<le> max_attempts sample_cw 1"
proof -
  have "1 < task_count sample_cw" by (simp add: sample_cw_def sample_def_def)
  with attempts_bounded [OF sample_compiled reach_retry] show ?thesis by blast
qed

text \<open>
  C7. \<^verbatim>\<open>ApplyAttemptResult\<close> on any reachable run, for any task, attempt number and
  known result kind, returns no error. It applies exactly when the attempt is the running one
  of a running task; a stale or duplicate report leaves the run as it is. When it applies,
  the tasks become exactly the specified outcome (success releases the successors whose last
  open dependency it was; a temporary failure is retried while attempts are left; otherwise
  the task fails and everything below it is skipped), and the invariant holds again.
\<close>

theorem report_result:
  assumes "Compile def = Inr cw" and "reachable cw s" and "i < task_count cw" and "known_kind (ep_Kind response)"
  shows "\<exists>s'. ApplyAttemptResult s cw (int i) m response at = Inr (is_active s i m, s') \<and>
    run_inv cw s' \<and> evolves s s' \<and>
    run_tasks s' = (if is_active s i m then result_outcome cw s i m response at else run_tasks s) \<and>
    (\<not> is_active s i m \<longrightarrow> s' = s)"
  using ApplyAttemptResult_returns [OF compiled_wf [OF assms(1)] reachable_inv [OF assms(2) compiled_wf [OF assms(1)]] assms(3,4)]
  by blast

theorem report_result_witness:
  "\<exists>s'. ApplyAttemptResult s_started sample_cw (int 1) 1 (sample_response ResultPermanentFailure) 30 = Inr (is_active s_started 1 1, s')"
proof -
  have "1 < task_count sample_cw" and "known_kind (ep_Kind (sample_response ResultPermanentFailure))"
    by (simp_all add: sample_cw_def sample_def_def sample_response_def)
  with report_result [OF sample_compiled reach_started, of 1 "sample_response ResultPermanentFailure" 1 30] show ?thesis by blast
qed

text \<open>
  C8. The failure of a task spreads exactly to what depends on it: after a permanent failure
  the task is failed, every open task that transitively depends on it is skipped, and every
  other task is as before.
\<close>

theorem failure_propagation:
  assumes "Compile def = Inr cw" and "reachable cw s" and "is_active s i m" and "i < task_count cw"
    and "ep_Kind response = ResultPermanentFailure"
    and "ApplyAttemptResult s cw (int i) m response at = Inr (True, s')" and "k < task_count cw"
  shows "status_of s' k =
    (if k = i then TaskFailed
     else if (i, k) \<in> (edges cw)\<^sup>+ \<and> \<not> isTaskTerminal (status_of s k) then TaskSkipped
     else status_of s k)"
proof -
  note wf = compiled_wf [OF assms(1)]
  note inv = reachable_inv [OF assms(2) wf]
  have "run_tasks s' = result_outcome cw s i m response at"
    using ApplyAttemptResult_returns [OF wf inv assms(4), of response m at] assms(3,5,6) by auto
  moreover have "i \<notin> below cw i" using below_irrefl [OF wf] .
  ultimately show ?thesis using assms(5,7) run_inv_task(2) [OF inv assms(7)]
    by (auto simp: result_outcome_def Let_def nth_update_if below_def)
qed

theorem failure_propagation_witness: "status_of s_failed 1 = TaskFailed"
proof -
  have "is_active s_started 1 1" by code_simp
  moreover have "1 < task_count sample_cw" by (simp add: sample_cw_def sample_def_def)
  ultimately show ?thesis
    using failure_propagation [OF sample_compiled reach_started, of 1 1 "sample_response ResultPermanentFailure" 30 s_failed 1] sample_failed
    by (simp add: sample_response_def)
qed

text \<open>
  C9. A finished task is final: once a task has succeeded, failed, been cancelled or been
  skipped, no sequence of operations changes its record (status, attempts, times) again.
\<close>

theorem finished_tasks_are_final:
  assumes "Compile def = Inr cw" and "reachable cw s" and "run_trace cw s as u"
    and "k < task_count cw" and "isTaskTerminal (status_of s k)"
  shows "run_tasks u ! k = run_tasks s ! k"
proof -
  note wf = compiled_wf [OF assms(1)]
  have "run_inv cw s" using reachable_inv [OF assms(2) wf] .
  with assms(3,5) show ?thesis
  proof (induction rule: run_trace.induct)
    case (trace_Cons s a t as u)
    have "step_tasks cw s a (run_tasks t)" "run_inv cw t" using run_step_effect [OF trace_Cons.hyps(1) wf trace_Cons.prems(2)] by blast+
    with step_terminal [OF _ wf trace_Cons.prems(2) assms(4) trace_Cons.prems(1)] have "run_tasks t ! k = run_tasks s ! k" by blast
    with trace_Cons \<open>run_inv cw t\<close> show ?case by simp
  qed simp
qed

theorem finished_tasks_are_final_witness: "run_tasks s_c_ready ! 1 = run_tasks s_b ! 1"
proof -
  have "run_trace sample_cw s_b [Queue 0, Start 0, Report 0 1 (sample_response ResultSuccess)] s_c_ready"
    using step_a_queued step_a_started step_c_ready by (blast intro: run_trace.intros)
  moreover have "reachable sample_cw s_b" using reach_started step_b by (blast intro: reach_step)
  moreover have "isTaskTerminal (status_of s_b 1)" by code_simp
  moreover have "1 < task_count sample_cw" by (simp add: sample_cw_def sample_def_def)
  ultimately show ?thesis using finished_tasks_are_final [OF sample_compiled] by blast
qed

text \<open>
  C10. No run gets stuck: while the workflow is not finished some task is ready, queued,
  running or waiting for its retry time, and some operation other than cancelling or
  requeueing applies.
\<close>

theorem run_progress:
  assumes "Compile def = Inr cw" and "reachable cw s" and "\<not> isWorkflowTerminal (run_status s)"
  shows "(\<exists>i < task_count cw. status_of s i \<in> {TaskReady, TaskQueued, TaskRunning, TaskWaitingRetry}) \<and>
    (\<exists>a s'. run_step cw s a s' \<and> a \<noteq> CancelRun \<and> (\<forall>i. a \<noteq> Requeue i))"
proof -
  note wf = compiled_wf [OF assms(1)]
  note inv = reachable_inv [OF assms(2) wf]
  show ?thesis using pending_has_ready [OF wf inv assms(3)] live_step [OF wf inv assms(3)] unfolding active_def by blast
qed

theorem run_progress_witness: "\<exists>a s'. run_step sample_cw s_retry a s' \<and> a \<noteq> CancelRun \<and> (\<forall>i. a \<noteq> Requeue i)"
proof -
  have "\<not> isWorkflowTerminal (run_status s_retry)" by code_simp
  with run_progress [OF sample_compiled reach_retry] show ?thesis by blast
qed

text \<open>
  C11. Runs end: a sequence of operations from a new run with \<open>r\<close> requeued dispatches has at
  most \<open>4 * (sum of the allowed attempts) + 3 * (number of tasks) + 2 * r\<close> operations.
\<close>

theorem run_terminates:
  assumes "Compile def = Inr cw" and "new_run cw s" and "run_trace cw s as u"
  shows "length as \<le> (\<Sum>i < task_count cw. 4 * nat (max_attempts cw i) + 3) + 2 * length (filter is_requeue as)"
proof -
  note wf = compiled_wf [OF assms(1)]
  note inv = new_run_inv [OF wf assms(2)]
  have "run_work cw (run_tasks s) \<le> (\<Sum>i < task_count cw. 4 * nat (max_attempts cw i) + 3)"
    unfolding run_work_def
  proof (rule sum_mono)
    fix i assume "i \<in> {..<task_count cw}"
    then have "status_of s i = TaskReady \<or> status_of s i = TaskWaitingDependencies"
      using assms(2) by (auto simp: new_run_def NewRunSnapshotForVersion_def newRunSnapshot_def Let_def new_task_def split: if_splits)
    then show "task_work (max_attempts cw i) (run_tasks s ! i) \<le> 4 * nat (max_attempts cw i) + 3" by (auto simp: task_work_def)
  qed
  with trace_bound [OF assms(3) wf inv] show ?thesis by linarith
qed

theorem run_terminates_witness:
  "length [Queue 1, Start 1, Report 1 1 (sample_response ResultPermanentFailure)]
     \<le> (\<Sum>i < task_count sample_cw. 4 * nat (max_attempts sample_cw i) + 3) +
        2 * length (filter is_requeue [Queue 1, Start 1, Report 1 1 (sample_response ResultPermanentFailure)])"
  using run_terminates [OF sample_compiled sample_new trace_failed] .

text \<open>
  C12. Every reachable run can be brought to a final status without cancelling it.
\<close>

theorem run_can_finish:
  assumes "Compile def = Inr cw" and "reachable cw s"
  shows "\<exists>as u. run_trace cw s as u \<and> isWorkflowTerminal (run_status u) \<and> CancelRun \<notin> set as"
  using can_finish [OF compiled_wf [OF assms(1)] reachable_inv [OF assms(2) compiled_wf [OF assms(1)]]] .

theorem run_can_finish_witness: "\<exists>as u. run_trace sample_cw s_retry as u \<and> isWorkflowTerminal (run_status u) \<and> CancelRun \<notin> set as"
  using run_can_finish [OF sample_compiled reach_retry] .

text \<open>
  The final status of a workflow says what happened to its tasks: succeeded means all
  tasks succeeded; failed means all are finished, at least one failed and none was cancelled;
  cancelled means all are finished. A workflow whose tasks are all finished is finished.
\<close>

theorem workflow_verdict:
  assumes "Compile def = Inr cw" and "reachable cw s"
  shows "(run_status s = WorkflowSucceeded \<longrightarrow> allTasksSucceeded (run_tasks s)) \<and>
    (run_status s = WorkflowFailed \<longrightarrow>
       hasFailedTask (run_tasks s) \<and> list_all (\<lambda>t. isTaskTerminal (tr_Status t) \<and> tr_Status t \<noteq> TaskCanceled) (run_tasks s)) \<and>
    (list_all (\<lambda>t. isTaskTerminal (tr_Status t)) (run_tasks s) \<longleftrightarrow> isWorkflowTerminal (run_status s))"
proof -
  note wf = compiled_wf [OF assms(1)]
  note inv = reachable_inv [OF assms(2) wf]
  have "run_tasks s \<noteq> []" using inv wf shape_length by (fastforce simp: run_inv_def wf_compiled_def Let_def)
  then obtain t where t: "t \<in> set (run_tasks s)" by (meson last_in_set)
  show ?thesis using inv t
    by (cases "run_status s") (auto simp: run_inv_def list_all_iff list_ex_iff allTasksSucceeded_def intro!: bexI [of _ t])
qed

theorem workflow_verdict_witness:
  "list_all (\<lambda>t. isTaskTerminal (tr_Status t)) (run_tasks s_failed) \<longleftrightarrow> isWorkflowTerminal (run_status s_failed)"
  using workflow_verdict [OF sample_compiled reach_failed] by blast

text \<open>
  C14. The event log of a run only grows: along every sequence of operations the old log is a
  prefix of the new one, the identity of the run, its definition and its revision stay, and
  the sequence numbers are 1, 2, 3, ... (modulo the wrap-around of \<^verbatim>\<open>uint64\<close>).
\<close>

theorem event_log_grows:
  assumes "Compile def = Inr cw" and "reachable cw s" and "run_trace cw s as u"
  shows "prefix (rs_Events s) (rs_Events u) \<and> same_frame s u \<and>
    map se_Sequence (rs_Events u) = map of_nat [1 ..< Suc (length (rs_Events u))] \<and>
    wr_LastEventSequence (rs_Run u) = of_nat (length (rs_Events u))"
proof -
  note wf = compiled_wf [OF assms(1)]
  have e: "run_inv cw u" "evolves s u" using trace_inv [OF assms(3) wf reachable_inv [OF assms(2) wf]] by blast+
  then have "log_ok u" by (simp add: run_inv_def shape_ok_def)
  then have "map se_Sequence (rs_Events u) = map of_nat [1 ..< Suc (length (rs_Events u))]"
    by (intro nth_equalityI) (auto simp: log_ok_def nth_append simp del: upt_Suc)
  with e \<open>log_ok u\<close> show ?thesis by (simp add: evolves_def log_ok_def)
qed

theorem event_log_grows_witness: "prefix (rs_Events s_new) (rs_Events s_failed)"
  using event_log_grows [OF sample_compiled reach_new trace_failed] by blast

text \<open>
  C15. Cancelling a run that is not finished always works: every open task becomes cancelled,
  a running attempt is closed with the error code \<^verbatim>\<open>canceled\<close>, finished tasks keep
  their record, and the workflow is cancelled.
\<close>

theorem cancel_run:
  assumes "Compile def = Inr cw" and "reachable cw s" and "\<not> isWorkflowTerminal (run_status s)"
  shows "\<exists>s'. CancelRunSnapshot s at = Inr s' \<and> run_inv cw s' \<and> evolves s s' \<and>
    run_status s' = WorkflowCanceled \<and> run_tasks s' = map (canceled at) (run_tasks s)"
  using CancelRunSnapshot_returns [OF compiled_wf [OF assms(1)] reachable_inv [OF assms(2) compiled_wf [OF assms(1)]] assms(3)] by blast

theorem cancel_run_witness: "\<exists>s'. CancelRunSnapshot s_started 40 = Inr s' \<and> run_status s' = WorkflowCanceled"
proof -
  have "\<not> isWorkflowTerminal (run_status s_started)" by code_simp
  with cancel_run [OF sample_compiled reach_started, of 40] show ?thesis by blast
qed

section \<open>Change sets and the file store\<close>

text \<open>
  C16. For every change a run can make, the row-level change set computed from the two
  snapshots exists and applying it to the old snapshot gives exactly the new one.
\<close>

theorem change_set_faithful:
  assumes "Compile def = Inr cw" and "reachable cw s" and "run_trace cw s as u" and "wr_ID (rs_Run s) \<noteq> ''''"
  shows "\<exists>c. ChangeSetBetween s (next_revision u) = Inr c \<and> applyChangeSet s c = Inr (next_revision u)"
proof -
  note wf = compiled_wf [OF assms(1)]
  note d = trace_diffable [OF wf reachable_inv [OF assms(2) wf] assms(3)]
  then have "wr_ID (rs_Run (next_revision u)) = wr_ID (rs_Run s)" "wr_Revision (rs_Run (next_revision u)) = wr_Revision (rs_Run s) + 1"
    by (simp_all add: diffable_def)
  with change_set_round_trip [OF d] assms(4) show ?thesis unfolding ChangeSetBetween_def by auto
qed

theorem change_set_faithful_witness:
  "\<exists>c. ChangeSetBetween s_new (next_revision s_failed) = Inr c \<and> applyChangeSet s_new c = Inr (next_revision s_failed)"
proof -
  have "wr_ID (rs_Run s_new) \<noteq> ''''" by code_simp
  with change_set_faithful [OF sample_compiled reach_new trace_failed] show ?thesis by blast
qed

text \<open>
  C17. No update is lost: once a change set was applied by the file store, every other
  change set computed from the same revision of that run is refused with a revision conflict and
  leaves the store as it is.
\<close>

theorem no_update_lost:
  assumes "fs_Load None (cs_RunID c) d = Inr b"
    and "fs_Apply None NoFault (temp_name n) c d = (Inr (), d')"
    and "cs_RunID c' = cs_RunID c" and "cs_ExpectedRevision c' = cs_ExpectedRevision c"
  shows "fs_Apply None NoFault (temp_name n) c' d' = (Inl ErrRevisionConflict, d')"
proof (cases "applyChangeSet b c")
  case (Inl e)
  then show ?thesis using file_store.apply_invalid [OF assms(1)] assms(2) by simp
next
  case (Inr a)
  then show ?thesis using file_store.no_lost_update [OF assms(1) _ assms(2-4)] by blast
qed

definition sample_dir :: dir where
  "sample_dir = [(''r1.json'', JsonFile s_new)]"

definition sample_change :: ChangeSet where
  "sample_change = or_else undefined (ChangeSetBetween s_new (next_revision s_queued))"

lemma sample_dir_load: "fs_Load None ''r1'' sample_dir = Inr s_new"
  by code_simp

lemma sample_change_applies: "applyChangeSet s_new sample_change = Inr (next_revision s_queued)" "cs_RunID sample_change = ''r1''"
proof -
  have t: "run_trace sample_cw s_new [Queue 1] s_queued" using step_queued by (blast intro: run_trace.intros)
  note d = trace_diffable [OF sample_wf reachable_inv [OF reach_new sample_wf] t]
  then have "wr_ID (rs_Run (next_revision s_queued)) = wr_ID (rs_Run s_new)"
    "wr_Revision (rs_Run (next_revision s_queued)) = wr_Revision (rs_Run s_new) + 1" by (simp_all add: diffable_def)
  moreover have i: "wr_ID (rs_Run s_new) = ''r1''" by code_simp
  ultimately obtain c where c: "ChangeSetBetween s_new (next_revision s_queued) = Inr c" "applyChangeSet s_new c = Inr (next_revision s_queued)"
    using change_set_round_trip [OF d] unfolding ChangeSetBetween_def by auto
  then have "sample_change = c" by (simp add: sample_change_def or_else_def)
  with c(2) show "applyChangeSet s_new sample_change = Inr (next_revision s_queued)" by simp
  then show "cs_RunID sample_change = ''r1''" using applyChangeSet_revision(5) i by metis
qed

theorem no_update_lost_witness:
  "\<exists>d'. fs_Apply None NoFault (temp_name 0) sample_change sample_dir = (Inr (), d') \<and>
     fs_Apply None NoFault (temp_name 0) sample_change d' = (Inl ErrRevisionConflict, d')"
proof -
  have l: "fs_Load None (cs_RunID sample_change) sample_dir = Inr s_new" using sample_dir_load sample_change_applies(2) by simp
  obtain d' where d': "fs_Apply None NoFault (temp_name 0) sample_change sample_dir = (Inr (), d')"
    using file_store.apply_valid [OF l sample_change_applies(1), of 0] by blast
  with no_update_lost [OF l d' refl refl] show ?thesis by blast
qed

text \<open>
  C18. Whatever fails while a change set is applied (the context, the temporary file, the
  rename, the directory sync), the stored run is afterwards the old snapshot or the complete new
  one, no other run changes, and success is reported only when the new one is stored.
\<close>

theorem apply_atomic:
  assumes "fs_Load None (cs_RunID c) d = Inr b" and "fs_Apply ctx fault (temp_name n) c d = (r, d')"
  shows "(fs_Load None (cs_RunID c) d' = Inr b \<or>
      (\<exists>a. applyChangeSet b c = Inr a \<and> fs_Load None (cs_RunID c) d' = Inr a)) \<and>
    (r = Inr () \<longrightarrow> (\<exists>a. applyChangeSet b c = Inr a \<and> fs_Load None (cs_RunID c) d' = Inr a)) \<and>
    (\<forall>i. i \<noteq> cs_RunID c \<longrightarrow> fs_Load None i d' = fs_Load None i d)"
  using fs_Apply_atomic [OF assms] by blast

theorem apply_atomic_witness:
  "\<exists>r d'. fs_Apply None RenameFault (temp_name 0) sample_change sample_dir = (r, d') \<and>
     (\<forall>i. i \<noteq> ''r1'' \<longrightarrow> fs_Load None i d' = fs_Load None i sample_dir)"
proof -
  obtain r d' where a: "fs_Apply None RenameFault (temp_name 0) sample_change sample_dir = (r, d')" by fastforce
  have "fs_Load None (cs_RunID sample_change) sample_dir = Inr s_new" using sample_dir_load sample_change_applies(2) by simp
  from apply_atomic [OF this a] a sample_change_applies(2) show ?thesis by auto
qed

text \<open>
  Requesting cancellation is idempotent: after a request that succeeded, the stored run
  is finished or carries the request, and any further request returns the same run and writes
  nothing, whatever its time.
\<close>

theorem request_cancel_idempotent:
  assumes "fs_RequestCancel None NoFault (temp_name n) i at d = (Inr r, d')"
  shows "(\<exists>s. fs_Load None i d' = Inr s \<and> rs_Run s = r \<and> (isWorkflowTerminal (wr_Status r) \<or> wr_CancelRequestedAt r \<noteq> None)) \<and>
    fs_RequestCancel None fault t i at' d' = (Inr r, d')"
  using fs_RequestCancel_Inr [OF assms refl] fs_RequestCancel_again [OF assms] by blast

theorem request_cancel_idempotent_witness:
  "\<exists>r d'. fs_RequestCancel None NoFault (temp_name 0) ''r1'' 5 sample_dir = (Inr r, d') \<and>
     fs_RequestCancel None NoFault (temp_name 0) ''r1'' 9 d' = (Inr r, d')"
proof -
  obtain r d' where "fs_RequestCancel None NoFault (temp_name 0) ''r1'' 5 sample_dir = (Inr r, d')"
    using fs_RequestCancel_returns [OF sample_dir_load] by blast
  with request_cancel_idempotent [OF this] show ?thesis by blast
qed

text \<open>
  The recovery list of the file store names exactly the stored runs that are not finished.
\<close>

theorem recovery_list:
  assumes "fs_ListNonTerminal None d = Inr ids"
  shows "set ids = {i. \<exists>s. fs_Load None i d = Inr s \<and> \<not> isWorkflowTerminal (run_status s)}"
  using fs_ListNonTerminal_set [OF assms] by blast

theorem recovery_list_witness: "fs_ListNonTerminal None sample_dir = Inr [''r1''] \<and>
    set [''r1''] = {i. \<exists>s. fs_Load None i sample_dir = Inr s \<and> \<not> isWorkflowTerminal (run_status s)}"
proof -
  have "fs_ListNonTerminal None sample_dir = Inr [''r1'']" by code_simp
  with recovery_list [OF this] show ?thesis by blast
qed

section \<open>Recovery\<close>

text \<open>
  The validation of a stored attempt history before a run is resumed accepts exactly the
  histories of the specification: attempts numbered from 1, within the limit, all but the last
  retryable, the last one fitting the task status, and a retry time exactly while waiting
  for a retry.
\<close>

theorem resume_validation:
  "validateAttemptHistoryForResume t definition = Inr () \<longleftrightarrow> resumable (rp_MaxAttempts (td_Retry definition)) t"
  by (rule validate_iff)

text \<open>
  C22. Preparing any unfinished run of the in-process engine for resumption succeeds: running
  tasks wait for a retry now or fail when their attempts are used up, everything below a
  failed task is skipped, other statuses stay, histories stay valid, and the counters of open
  tasks are the numbers of their dependencies that have not succeeded.
\<close>

theorem resume_prepares:
  assumes "Compile def = Inr cw" and "run_inv cw s" and "\<not> isWorkflowTerminal (run_status s)"
    and "\<forall>i < task_count cw. status_of s i \<noteq> TaskQueued"
  shows "\<exists>s'. prepareForResume s cw now = Inr s' \<and>
    (\<forall>k < task_count cw. history_ok (max_attempts cw k) (run_tasks s' ! k) \<and>
       status_of s' k = resumed_status cw s k \<and>
       (\<not> isTaskTerminal (status_of s' k) \<longrightarrow> run_remaining s' ! k = int (pending cw (status_of s') k)))"
proof -
  obtain s' where s': "prepareForResume s cw now = Inr s'" "calm s s'" "histories_ok cw (run_tasks s')"
    and k: "\<forall>k < task_count cw. status_of s' k = resumed_status cw s k \<and> run_remaining s' ! k = restored cw (status_of s') k"
    using prepareForResume_returns [OF compiled_wf [OF assms(1)] assms(2,3), of now] assms(4) by blast
  have "history_ok (max_attempts cw i) (run_tasks s' ! i)" if "i < task_count cw" for i
    using s'(3) that by (simp add: histories_ok_def)
  with s'(1) k show ?thesis by (auto simp: restored_def)
qed

theorem resume_prepares_witness: "\<exists>s'. prepareForResume s_skipped sample_cw 100 = Inr s' \<and>
    (\<forall>k < task_count sample_cw. status_of s' k = resumed_status sample_cw s_skipped k)"
proof -
  have "\<not> isWorkflowTerminal (run_status s_skipped)" by code_simp
  moreover have "list_all (\<lambda>t. tr_Status t \<noteq> TaskQueued) (run_tasks s_skipped)" by code_simp
  then have "\<forall>i < task_count sample_cw. status_of s_skipped i \<noteq> TaskQueued"
    using reachable_inv [OF reach_skipped sample_wf] shape_length by (auto simp: run_inv_def list_all_length)
  ultimately show ?thesis
    using resume_prepares [OF sample_compiled reachable_inv [OF reach_skipped sample_wf], of 100] by blast
qed

text \<open>
  Resuming can make a run fail for good. In the sample run, task \<open>a\<close> has failed, so
  \<open>c\<close> is skipped, while \<open>b\<close> is running when the process stops. Preparation succeeds, but
  gives the skipped task the counter 0; when the retry of \<open>b\<close> succeeds, the counter of
  \<open>c\<close> becomes negative and the result cannot be applied.
\<close>

definition resumed1 :: RunSnapshot where
  "resumed1 = or_else s_skipped (prepareForResume s_skipped sample_cw 100)"

definition resumed2 :: RunSnapshot where
  "resumed2 = snd (or_else (False, resumed1) (MakeRetryReady resumed1 1 1 100))"

definition resumed3 :: RunSnapshot where
  "resumed3 = fst (or_else (resumed2, undefined) (prepareTask resumed2 sample_cw 1 101 102))"

theorem resume_negative_counter:
  "prepareForResume s_skipped sample_cw 100 = Inr resumed1 \<and> MakeRetryReady resumed1 1 1 100 = Inr (True, resumed2) \<and>
   (\<exists>req. prepareTask resumed2 sample_cw 1 101 102 = Inr (resumed3, req, 2)) \<and>
   ApplyAttemptResult resumed3 sample_cw 1 2 (sample_response ResultSuccess) 110 =
     Inl (Errorf ''task %q dependency count became negative'')"
proof (intro conjI)
  have "prepareTask resumed2 sample_cw 1 101 102 = Inr (resumed3,
      \<lparr>eq_DefinitionID = ''demo'', eq_RunID = ''r1'', eq_TaskKey = ''b'', eq_Action = ''echo'', eq_Input = None, eq_Attempt = 2\<rparr>, 2)"
    by code_simp
  then show "\<exists>req. prepareTask resumed2 sample_cw 1 101 102 = Inr (resumed3, req, 2)" ..
qed code_simp+

section \<open>The engine\<close>

abbreviation file_execute :: "nat \<Rightarrow> env \<Rightarrow> RunID \<Rightarrow> event list \<Rightarrow> dir engine \<Rightarrow> WorkflowRun res option \<times> dir engine" where
  "file_execute n env \<equiv> Execute env (fs_Load None) (fs_Apply None NoFault (temp_name n))"

text \<open>
  C24. \<^verbatim>\<open>Execute\<close> on a stored run that no process works on, with the file store, any
  clock, any sequence of completions, timeouts and timers and any moment of cancellation: when
  it returns, it returns the finished run as it is stored, or the cause for which the process
  was stopped; the stored run satisfies the invariant and the run is no longer registered as active.
  It never fails by itself.
\<close>

theorem engine_result:
  assumes "Compile def = Inr cw" and "runID \<notin> set (eg_active eg)" and "fs_Load None runID (eg_store eg) = Inr s"
    and "run_inv cw s" and "\<forall>k < task_count cw. status_of s k \<noteq> TaskRunning \<and> status_of s k \<noteq> TaskQueued"
    and "compiledForRun runID s eg = Inr cw" and "\<forall>ev \<in> set evs. event_ok cw ev"
    and "file_execute n env runID evs eg = (Some r, eg')"
  shows "eg_active eg' = eg_active eg \<and>
    (\<exists>u. fs_Load None runID (eg_store eg') = Inr u \<and> run_inv cw u \<and>
       (case r of
          Inr run \<Rightarrow> run = rs_Run u \<and> isWorkflowTerminal (wr_Status run)
        | Inl e \<Rightarrow> \<exists>t. en_stop env = Some (t, OtherCause e)))"
  using file_store.Execute_ok [OF compiled_wf [OF assms(1)] assms(2-7), of env n] assms(8) by (simp add: settled_def)


definition sample_engine :: "dir engine" where
  "sample_engine = \<lparr>eg_active = [], eg_compiled = [(''r1'', sample_cw)], eg_store = sample_dir\<rparr>"

definition sample_env :: "(nat \<times> stop_cause) option \<Rightarrow> env" where
  "sample_env stop = \<lparr>en_clock = int, en_stop = stop\<rparr>"

lemma sample_engine_ready:
  "''r1'' \<notin> set (eg_active sample_engine)" "fs_Load None ''r1'' (eg_store sample_engine) = Inr s_new" "run_inv sample_cw s_new"
  "\<forall>k < task_count sample_cw. status_of s_new k \<noteq> TaskRunning \<and> status_of s_new k \<noteq> TaskQueued"
  "compiledForRun ''r1'' s_new sample_engine = Inr sample_cw"
proof -
  show inv: "run_inv sample_cw s_new" using reachable_inv [OF reach_new sample_wf] .
  have "list_all (\<lambda>t. tr_Status t \<noteq> TaskRunning \<and> tr_Status t \<noteq> TaskQueued) (run_tasks s_new)" by code_simp
  then show "\<forall>k < task_count sample_cw. status_of s_new k \<noteq> TaskRunning \<and> status_of s_new k \<noteq> TaskQueued"
    using inv shape_length by (auto simp: run_inv_def list_all_length)
qed (use sample_dir_load in \<open>simp_all add: sample_engine_def compiledForRun_def\<close>)

definition sample_events :: "event list" where
  "sample_events = [Completion 1 1 (sample_response ResultSuccess) 50, Completion 0 1 (sample_response ResultSuccess) 60,
     Completion 2 1 (sample_response ResultSuccess) 70]"

theorem engine_result_witness:
  "\<exists>r eg'. file_execute 0 (sample_env None) ''r1'' sample_events sample_engine = (Some r, eg') \<and> eg_active eg' = [] \<and>
     (\<exists>u. fs_Load None ''r1'' (eg_store eg') = Inr u \<and> run_inv sample_cw u)"
proof -
  have "fst (file_execute 0 (sample_env None) ''r1'' sample_events sample_engine) \<noteq> None" by code_simp
  then obtain r eg' where r: "file_execute 0 (sample_env None) ''r1'' sample_events sample_engine = (Some r, eg')"
    by (metis not_Some_eq prod.collapse)
  have "\<forall>ev \<in> set sample_events. event_ok sample_cw ev" by (simp add: sample_events_def sample_response_def)
  from engine_result [OF sample_compiled sample_engine_ready this r] r show ?thesis by (auto simp: sample_engine_def)
qed


section \<open>Durations\<close>

definition overflow_task :: TaskDefinition where
  "overflow_task = (sample_task ''a'' [] 1 0)\<lparr>td_TimeoutMillis := 9223372036855\<rparr>"

definition overflow_def :: WorkflowDefinition where
  "overflow_def = \<lparr>wd_ID = ''demo'', wd_Concurrency = 1, wd_Tasks = [overflow_task]\<rparr>"

lemma overflow_compiles: "\<exists>cw. Compile overflow_def = Inr cw"
proof -
  have "check_inputs (wd_Tasks overflow_def) = Inr ()"
    by (simp add: overflow_def_def overflow_task_def sample_task_def check_input_def maxTaskInputBytes_def)
  moreover have "cloneDefinition overflow_def = Inr overflow_def" by code_simp
  moreover have "identifierPattern (wd_ID overflow_def)" by code_simp
  moreover have "check_tasks (wd_Tasks overflow_def) 0 [] = Inr (wd_Tasks overflow_def, [(''a'', 0)])" by code_simp
  moreover have "link_tasks [(''a'', 0)] 0 (wd_Tasks overflow_def) (replicate 1 [], replicate 1 [], replicate 1 0) = Inr ([[]], [[]], [0])" by code_simp
  moreover have "kahn [[]] (sources [0]) [0] 0 = 1" by code_simp
  moreover have "length (wd_Tasks overflow_def) = 1" "wd_Tasks overflow_def \<noteq> []" "wd_Concurrency overflow_def = 1" "wd_ID overflow_def \<noteq> ''''"
    by (simp_all add: overflow_def_def)
  ultimately show ?thesis by (simp add: Compile_def maxWorkflowTasks_def)
qed

text \<open>
  The conversion of milliseconds to a \<^verbatim>\<open>time.Duration\<close> is exact exactly up to
  9223372036854 ms; above it, the product wraps around. The compiler accepts larger values:
  there is an accepted definition whose timeout becomes a negative duration.
\<close>

theorem duration_overflow:
  "(\<forall>ms. 0 \<le> ms \<longrightarrow> ms < 2 ^ 63 \<longrightarrow> (millis ms = ms * 1000000 \<longleftrightarrow> ms \<le> 9223372036854)) \<and>
   (\<exists>def cw. Compile def = Inr cw \<and> 0 < td_TimeoutMillis (wd_Tasks def ! 0) \<and> millis (td_TimeoutMillis (wd_Tasks def ! 0)) < 0)"
proof (intro conjI allI impI iffI)
  fix ms :: int
  assume "0 \<le> ms" "millis ms = ms * 1000000"
  then show "ms \<le> 9223372036854" using wrap64_range [of "ms * 1000000"] by (simp add: millis_def)
next
  show "\<exists>def cw. Compile def = Inr cw \<and> 0 < td_TimeoutMillis (wd_Tasks def ! 0) \<and> millis (td_TimeoutMillis (wd_Tasks def ! 0)) < 0"
    using overflow_compiles
    by (intro exI [of _ overflow_def]) (auto simp: overflow_def_def overflow_task_def sample_task_def millis_def wrap64_def)
qed (simp add: millis_exact)

theorem duration_overflow_witness: "millis 1000 = 1000 * 1000000 \<and> millis 9223372036855 \<noteq> 9223372036855 * 1000000"
  using duration_overflow [THEN conjunct1, THEN spec, of 1000] duration_overflow [THEN conjunct1, THEN spec, of 9223372036855] by simp

end
